(* ===== verification/Arcon_Prelude.thy ===== *)
theory Arcon_Prelude
  imports Main "HOL-Library.Word" "HOL-Library.AList"
begin

text \<open>
  Shared vocabulary of the development: the Rust integer types, the outcome of a fallible
  call (value, returned error, panic, recursion budget used up), the errors of the
  \<^verbatim>\<open>arcon_error\<close> and \<^verbatim>\<open>arcon_state\<close> crates, sequencing of pure and of
  state-changing calls, and the byte encodings of machine integers. The lemmas below are
  about lists, association lists and little-endian bytes only; they carry the proofs of the
  component theories.
\<close>

section \<open>Types\<close>

type_synonym u8 = "8 word"
type_synonym u16 = "16 word"
type_synonym u32 = "32 word"
type_synonym u64 = "64 word"
type_synonym u128 = "128 word"
type_synonym usize = "64 word"
type_synonym bytes = "u8 list"

text \<open>The largest \<^verbatim>\<open>usize\<close> of a 64-bit target.\<close>

definition usize_max :: nat where
  "usize_max = 2 ^ 64 - 1"

named_theorems outcome_simps \<open>unfolding of the sequencing combinators\<close>
named_theorems state_defs \<open>definitions of state backend operations\<close>

section \<open>Errors\<close>

text \<open>
  \<^verbatim>\<open>arcon_state::error::ArconStateError\<close>. Backtraces carry no behaviour and are left
  out; a wrapped foreign error (\<^verbatim>\<open>source\<close>) is its message. The variants of the three
  optional backends are those of the crate built with all features.
\<close>

datatype arcon_state_error =
    IO string
  | InvalidPath string
  | UnknownNode string "string list"
  | FixedBytesSerializationError nat nat
  | FixedBytesDeserializationError nat nat
  | ProtobufDecodeError
  | ProtobufEncodeError
  | InMemoryWrongType
  | RocksMissingColumnFamily string
  | RocksMissingOptions string
  | RocksError string
  | RocksUninitialized "string set"
  | RocksRestoreDirNotEmpty string
  | FasterReceiveTimeout
  | FasterUnexpectedStatus u8
  | FasterOtherError string
  | FasterCheckpointFailed
  | FasterErrorInRmw string
  | SledError string

text \<open>\<^verbatim>\<open>arcon_error::ErrorKind\<close> and \<^verbatim>\<open>arcon_error::Error\<close>.\<close>

datatype error_kind =
    ArconError string
  | StateError arcon_state_error

record arcon_error =
  err_kind :: error_kind
  err_cause :: "string option"

definition new_error :: "error_kind \<Rightarrow> arcon_error" where
  "new_error k = \<lparr>err_kind = k, err_cause = None\<rparr>"

definition new_arcon :: "string \<Rightarrow> arcon_error" where
  "new_arcon msg = \<lparr>err_kind = ArconError msg, err_cause = None\<rparr>"

definition from_state_error :: "arcon_state_error \<Rightarrow> arcon_error" where
  "from_state_error e = \<lparr>err_kind = StateError e, err_cause = None\<rparr>"

section \<open>Outcomes\<close>

text \<open>
  The result of a call: a value, an error returned through \<^verbatim>\<open>Result::Err\<close>, a panic, or
  \<open>NoFuel\<close>, which only recursions with a budget produce: the budget ran out and the model
  does not say what the call returns.
\<close>

datatype ('e, 'a) outcome =
    Ok 'a
  | Err 'e
  | Panic string
  | NoFuel

type_synonym 'a state_result = "(arcon_state_error, 'a) outcome"
type_synonym 'a arcon_result = "(arcon_error, 'a) outcome"

text \<open>Sequencing (the \<^verbatim>\<open>?\<close> operator where both error types agree).\<close>

fun bind_o :: "('e, 'a) outcome \<Rightarrow> ('a \<Rightarrow> ('e, 'b) outcome) \<Rightarrow> ('e, 'b) outcome" where
  "bind_o (Ok a) f = f a"
| "bind_o (Err e) f = Err e"
| "bind_o (Panic m) f = Panic m"
| "bind_o NoFuel f = NoFuel"

text \<open>\<^verbatim>\<open>?\<close> with a conversion of the error (\<^verbatim>\<open>From\<close>), \<^verbatim>\<open>Result::expect\<close> and
  \<^verbatim>\<open>Option::ok_or\<close>.\<close>

fun map_err :: "('e \<Rightarrow> 'f) \<Rightarrow> ('e, 'a) outcome \<Rightarrow> ('f, 'a) outcome" where
  "map_err h (Ok a) = Ok a"
| "map_err h (Err e) = Err (h e)"
| "map_err h (Panic m) = Panic m"
| "map_err h NoFuel = NoFuel"

fun expect :: "string \<Rightarrow> ('e, 'a) outcome \<Rightarrow> ('f, 'a) outcome" where
  "expect msg (Ok a) = Ok a"
| "expect msg (Err e) = Panic msg"
| "expect msg (Panic m) = Panic m"
| "expect msg NoFuel = NoFuel"

definition ok_or :: "'e \<Rightarrow> 'a option \<Rightarrow> ('e, 'a) outcome" where
  "ok_or e x = (case x of None \<Rightarrow> Err e | Some a \<Rightarrow> Ok a)"

definition unwrap_or_panic :: "string \<Rightarrow> 'a option \<Rightarrow> ('e, 'a) outcome" where
  "unwrap_or_panic msg x = (case x of None \<Rightarrow> Panic msg | Some a \<Rightarrow> Ok a)"

text \<open>
  A state-changing call returns its outcome together with the state it leaves behind. The
  state is kept on an error or a panic: Rust does not roll mutations back.
\<close>

type_synonym ('s, 'e, 'a) action = "'s \<Rightarrow> ('e, 'a) outcome \<times> 's"

definition bind_s :: "('s, 'e, 'a) action \<Rightarrow> ('a \<Rightarrow> ('s, 'e, 'b) action) \<Rightarrow> ('s, 'e, 'b) action" where
  "bind_s m f s =
     (case m s of
        (Ok a, s') \<Rightarrow> f a s'
      | (Err e, s') \<Rightarrow> (Err e, s')
      | (Panic p, s') \<Rightarrow> (Panic p, s')
      | (NoFuel, s') \<Rightarrow> (NoFuel, s'))"

definition return_s :: "'a \<Rightarrow> ('s, 'e, 'a) action" where
  "return_s a s = (Ok a, s)"

text \<open>A call that only reads the state.\<close>

definition query :: "('s \<Rightarrow> ('e, 'a) outcome) \<Rightarrow> ('s, 'e, 'a) action" where
  "query f s = (f s, s)"

text \<open>A panic, and a pure computation, as a step.\<close>

definition panic_s :: "string \<Rightarrow> ('s, 'e, 'a) action" where
  "panic_s msg s = (Panic msg, s)"

definition lift_o :: "('e, 'a) outcome \<Rightarrow> ('s, 'e, 'a) action" where
  "lift_o r s = (r, s)"

lemma lift_o_apply [simp]: "lift_o r s = (r, s)"
  by (simp add: lift_o_def)

lemma panic_s_apply [simp]: "panic_s msg s = (Panic msg, s)"
  by (simp add: panic_s_def)

lemma bind_o_simps [outcome_simps]:
  "bind_o x f = (case x of Ok a \<Rightarrow> f a | Err e \<Rightarrow> Err e | Panic m \<Rightarrow> Panic m | NoFuel \<Rightarrow> NoFuel)"
  by (cases x) simp_all

lemma bind_o_Ok_iff: "bind_o x f = Ok b \<longleftrightarrow> (\<exists>a. x = Ok a \<and> f a = Ok b)"
  by (cases x) simp_all

lemma bind_o_return [simp]: "bind_o x Ok = x"
  by (cases x) simp_all

lemma bind_o_assoc: "bind_o (bind_o x f) g = bind_o x (\<lambda>a. bind_o (f a) g)"
  by (cases x) simp_all

lemma bind_s_Ok [simp]: "m s = (Ok a, s') \<Longrightarrow> bind_s m f s = f a s'"
  by (simp add: bind_s_def)

lemma bind_s_Err [simp]: "m s = (Err e, s') \<Longrightarrow> bind_s m f s = (Err e, s')"
  by (simp add: bind_s_def)

lemma bind_s_Panic [simp]: "m s = (Panic p, s') \<Longrightarrow> bind_s m f s = (Panic p, s')"
  by (simp add: bind_s_def)

lemma return_s_apply [simp]: "return_s a s = (Ok a, s)"
  by (simp add: return_s_def)

lemma query_apply [simp]: "query f s = (f s, s)"
  by (simp add: query_def)

text \<open>
  An invariant of the state that every part of a sequence keeps, whatever the outcome of
  each part, is kept by the sequence.
\<close>

definition keeps :: "('s \<Rightarrow> bool) \<Rightarrow> ('s, 'e, 'a) action \<Rightarrow> bool" where
  "keeps P m \<longleftrightarrow> (\<forall>s. P s \<longrightarrow> P (snd (m s)))"

lemma keepsI: "(\<And>s. P s \<Longrightarrow> P (snd (m s))) \<Longrightarrow> keeps P m"
  by (simp add: keeps_def)

lemma keepsD: "keeps P m \<Longrightarrow> P s \<Longrightarrow> P (snd (m s))"
  by (simp add: keeps_def)

lemma keeps_return [intro, simp]: "keeps P (return_s a)"
  by (simp add: keeps_def)

lemma keeps_query [intro, simp]: "keeps P (query f)"
  by (simp add: keeps_def)

lemma keeps_bind [intro]:
  assumes "keeps P m" and "\<And>a. keeps P (f a)"
  shows "keeps P (bind_s m f)"
proof (rule keepsI)
  fix s
  assume "P s"
  then have "P (snd (m s))" using assms(1) by (rule keepsD [rotated])
  then show "P (snd (bind_s m f s))"
    using assms(2) by (auto simp: bind_s_def keeps_def split: prod.splits outcome.splits)
qed

section \<open>Little-endian bytes\<close>

text \<open>\<open>le_bytes n x\<close>: the \<open>n\<close> low bytes of \<open>x\<close>, least significant first
  (\<^verbatim>\<open>to_le_bytes\<close>); \<open>of_le_bytes\<close> reads them back (\<^verbatim>\<open>from_le_bytes\<close>).\<close>

fun le_bytes :: "nat \<Rightarrow> nat \<Rightarrow> bytes" where
  "le_bytes 0 x = []"
| "le_bytes (Suc n) x = word_of_nat (x mod 256) # le_bytes n (x div 256)"

fun of_le_bytes :: "bytes \<Rightarrow> nat" where
  "of_le_bytes [] = 0"
| "of_le_bytes (b # bs) = unat b + 256 * of_le_bytes bs"

definition to_le :: "'n::len word \<Rightarrow> bytes" where
  "to_le w = le_bytes (LENGTH('n) div 8) (unat w)"

definition from_le :: "bytes \<Rightarrow> 'n::len word" where
  "from_le bs = word_of_nat (of_le_bytes bs)"

lemma length_le_bytes [simp]: "length (le_bytes n x) = n"
  by (induction n arbitrary: x) simp_all

lemma unat_byte_of_nat [simp]: "unat (word_of_nat (x mod 256) :: u8) = x mod 256"
  by (simp add: unat_of_nat)

lemma of_le_bytes_le_bytes: "of_le_bytes (le_bytes n x) = x mod 256 ^ n"
proof (induction n arbitrary: x)
  case 0
  then show ?case by simp
next
  case (Suc n)
  have "of_le_bytes (le_bytes (Suc n) x) = x mod 256 + 256 * ((x div 256) mod 256 ^ n)"
    by (simp add: Suc.IH)
  also have "\<dots> = x mod (256 * 256 ^ n)"
    by (simp add: mod_mult2_eq)
  finally show ?case by simp
qed

lemma length_to_le [simp]: "length (to_le (w :: 'n::len word)) = LENGTH('n) div 8"
  by (simp add: to_le_def)

lemma from_le_to_le:
  assumes "8 dvd LENGTH('n::len)"
  shows "from_le (to_le w) = (w :: 'n word)"
proof -
  have eq: "(256::nat) ^ (LENGTH('n) div 8) = 2 ^ LENGTH('n)"
  proof -
    have "(256::nat) ^ (LENGTH('n) div 8) = (2 ^ 8) ^ (LENGTH('n) div 8)" by simp
    also have "\<dots> = 2 ^ (8 * (LENGTH('n) div 8))" by (rule power_mult [symmetric])
    finally show ?thesis using assms by simp
  qed
  have "unat w < 2 ^ LENGTH('n)" by (rule unsigned_less)
  then have "of_le_bytes (to_le w) = unat w"
    by (simp add: to_le_def of_le_bytes_le_bytes eq)
  then show ?thesis by (simp add: from_le_def)
qed

section \<open>Lists and association lists\<close>

text \<open>\<open>has_prefix p k\<close>: the slice \<open>k[..p.len()]\<close> equals \<open>p\<close>; taking that slice of a
  shorter \<open>k\<close> panics in the code, which the callers model.\<close>

definition has_prefix :: "'a list \<Rightarrow> 'a list \<Rightarrow> bool" where
  "has_prefix p k \<longleftrightarrow> take (length p) k = p"

lemma has_prefix_append [simp]: "has_prefix p (p @ r)"
  by (simp add: has_prefix_def)

lemma has_prefix_Nil [simp]: "has_prefix [] k"
  by (simp add: has_prefix_def)

lemma has_prefix_iff: "has_prefix p k \<longleftrightarrow> (\<exists>r. k = p @ r)"
  by (metis append_take_drop_id has_prefix_append has_prefix_def)

lemma map_of_filter_key:
  "map_of (filter (\<lambda>(k, v). P k) al) k = (if P k then map_of al k else None)"
  by (induction al) auto

lemma distinct_filter_keys: "distinct (map fst al) \<Longrightarrow> distinct (map fst (filter Q al))"
  by (induction al) auto

lemma map_of_distinct_iff:
  "distinct (map fst al) \<Longrightarrow> map_of al k = Some v \<longleftrightarrow> (k, v) \<in> set al"
  by (rule map_of_eq_Some_iff)

lemmas alist_simps = AList.update_conv' AList.delete_conv' AList.distinct_update AList.distinct_delete
  map_of_filter_key distinct_filter_keys

section \<open>Checked arithmetic\<close>

text \<open>
  The arithmetic operators of Rust on unsigned integers, as the build with overflow checks (the
  profile of development and test builds) runs them: an overflow is a panic. \<open>checked_mul\<close> is
  the method that returns \<^verbatim>\<open>None\<close> instead.
\<close>

definition checked_mul :: "'n::len word \<Rightarrow> 'n word \<Rightarrow> 'n word option" where
  "checked_mul a b = (if unat a * unat b < 2 ^ LENGTH('n) then Some (a * b) else None)"

definition add_u :: "'n::len word \<Rightarrow> 'n word \<Rightarrow> ('e, 'n word) outcome" where
  "add_u a b =
     (if unat a + unat b < 2 ^ LENGTH('n) then Ok (a + b) else Panic ''attempt to add with overflow'')"

definition sub_u :: "'n::len word \<Rightarrow> 'n word \<Rightarrow> ('e, 'n word) outcome" where
  "sub_u a b = (if b \<le> a then Ok (a - b) else Panic ''attempt to subtract with overflow'')"

definition mul_u :: "'n::len word \<Rightarrow> 'n word \<Rightarrow> ('e, 'n word) outcome" where
  "mul_u a b =
     (if unat a * unat b < 2 ^ LENGTH('n) then Ok (a * b)
      else Panic ''attempt to multiply with overflow'')"

definition rem_u :: "'n::len word \<Rightarrow> 'n word \<Rightarrow> ('e, 'n word) outcome" where
  "rem_u a b =
     (if b = 0 then Panic ''attempt to calculate the remainder with a divisor of zero'' else Ok (a mod b))"

definition div_u :: "'n::len word \<Rightarrow> 'n word \<Rightarrow> ('e, 'n word) outcome" where
  "div_u a b = (if b = 0 then Panic ''attempt to divide by zero'' else Ok (a div b))"

lemma unat_add_no_overflow:
  "unat a + unat b < 2 ^ LENGTH('n) \<Longrightarrow> unat (a + b :: 'n::len word) = unat a + unat b"
  by (simp add: unat_word_ariths)

lemma unat_sub_le: "b \<le> a \<Longrightarrow> unat (a - b :: 'n::len word) = unat a - unat b"
  by (rule unat_sub)

lemma unat_mul_no_overflow:
  "unat a * unat b < 2 ^ LENGTH('n) \<Longrightarrow> unat (a * b :: 'n::len word) = unat a * unat b"
  by (simp add: unat_word_ariths)

lemmas checked_arith = checked_mul_def add_u_def sub_u_def mul_u_def rem_u_def div_u_def

lemma add_u_Ok_iff:
  "add_u a b = (Ok c :: ('e, 'n::len word) outcome) \<longleftrightarrow> unat a + unat b < 2 ^ LENGTH('n) \<and> c = a + b"
  by (auto simp: add_u_def)

lemma sub_u_Ok_iff: "sub_u a b = Ok c \<longleftrightarrow> b \<le> a \<and> c = a - b"
  by (auto simp: sub_u_def)

lemma unat_bound: "unat (w :: 'n::len word) < 2 ^ LENGTH('n)"
  by (rule unsigned_less)

lemma unat_Suc_bound:
  assumes "k \<noteq> (- 1 :: 'n::len word)"
  shows "unat k + 1 < 2 ^ LENGTH('n)"
proof (rule ccontr)
  assume "\<not> unat k + 1 < 2 ^ LENGTH('n)"
  then have "unat k + 1 = 2 ^ LENGTH('n)" using unat_bound [of k] by linarith
  then have "(word_of_nat (unat k + 1) :: 'n word) = word_of_nat (2 ^ LENGTH('n))" by simp
  then have "k + 1 = 0" by (simp add: add.commute)
  then show False using assms by (simp add: eq_neg_iff_add_eq_0)
qed

lemma word_less_Suc: "k \<noteq> - 1 \<Longrightarrow> k < k + (1 :: 'n::len word)"
  using unat_Suc_bound [of k] by (simp add: word_less_nat_alt unat_word_ariths)

section \<open>Results of loops that wait\<close>

text \<open>
  \<open>ok_or_waits Q r\<close>: the call returned a value and left a state that satisfy \<open>Q\<close>, or it is
  still waiting (its budget is used up); it neither panicked nor returned an error.
\<close>

definition ok_or_waits :: "('a \<Rightarrow> 's \<Rightarrow> bool) \<Rightarrow> ('e, 'a) outcome \<times> 's \<Rightarrow> bool" where
  "ok_or_waits Q r = (case fst r of Ok a \<Rightarrow> Q a (snd r) | NoFuel \<Rightarrow> True | _ \<Rightarrow> False)"

lemma ok_or_waits_simps [simp]:
  "ok_or_waits Q (Ok a, s) = Q a s" "ok_or_waits Q (NoFuel, s)" "\<not> ok_or_waits Q (Panic m, s)"
  "\<not> ok_or_waits Q (Err e, s)"
  by (simp_all add: ok_or_waits_def)

lemma ok_or_waits_bind:
  assumes "ok_or_waits P (m s)" and "\<And>a s'. P a s' \<Longrightarrow> ok_or_waits Q (f a s')"
  shows "ok_or_waits Q (bind_s m f s)"
  using assms by (cases "m s"; cases "fst (m s)") (auto simp: bind_s_def ok_or_waits_def)

lemma ok_or_waits_mono:
  "ok_or_waits P r \<Longrightarrow> (\<And>a s. P a s \<Longrightarrow> Q a s) \<Longrightarrow> ok_or_waits Q r"
  by (auto simp: ok_or_waits_def split: outcome.splits)

lemma ok_or_waits_Ok: "ok_or_waits Q (Ok a, s) \<Longrightarrow> Q a s"
  by simp


text \<open>Widening and narrowing (\<^verbatim>\<open>as\<close>) between \<^verbatim>\<open>u32\<close> and \<^verbatim>\<open>u64\<close>.\<close>

lemma unat_ucast_32_64: "unat (ucast (j :: u32) :: u64) = unat j"
proof -
  have "unat j < 2 ^ 64" using unat_bound [of j] by simp
  then show ?thesis by (simp add: unsigned_ucast_eq take_bit_nat_eq_self)
qed

lemma unat_ucast_64_32: "unat (j :: u64) < 2 ^ 32 \<Longrightarrow> unat (ucast j :: u32) = unat j"
  by (simp add: unsigned_ucast_eq take_bit_nat_eq_self)

end
