(* ===== verification/Serialization.thy ===== *)
theory Serialization
  imports Arcon_Prelude
begin

text \<open>
  Model of \<^verbatim>\<open>arcon_state/src/serialization.rs\<close>: the fixed-width encoding of metakeys
  (\<^verbatim>\<open>mod fixed_bytes\<close>) and the length-delimited protobuf encoding of keys and values
  (\<^verbatim>\<open>mod protobuf\<close>).

  The trait \<^verbatim>\<open>FixedBytes\<close> is a record of its items, and every \<^verbatim>\<open>impl\<close> is a value of
  that record; the locale \<open>fixed_bytes_codec\<close> states the contract of the trait (fixed width, round
  trip, what happens on a short buffer) and is interpreted for every \<^verbatim>\<open>impl\<close> of the
  file. The prost codec is not part of the repository: it is the parameter \<open>'a message\<close>.
\<close>

section \<open>Buffers of the \<open>bytes\<close> crate\<close>

text \<open>
  The code uses a \<^verbatim>\<open>BufMut\<close> through \<^verbatim>\<open>remaining_mut\<close> and \<^verbatim>\<open>put_slice\<close> only, so
  a write target is what those two show: the bytes written and the room left. A
  \<^verbatim>\<open>Vec<u8>\<close> of length \<open>n\<close> has room \<open>usize::MAX - n\<close>, a \<^verbatim>\<open>&mut [u8]\<close> its own length.
  A \<^verbatim>\<open>Buf\<close> is the list of its unread bytes.
\<close>

record buf_mut =
  bm_written :: bytes
  bm_room :: nat

definition vec_target :: "bytes \<Rightarrow> buf_mut" where
  "vec_target v = \<lparr>bm_written = v, bm_room = usize_max - length v\<rparr>"

definition put_slice :: "bytes \<Rightarrow> buf_mut \<Rightarrow> buf_mut" where
  "put_slice bs t = t\<lparr>bm_written := bm_written t @ bs, bm_room := bm_room t - length bs\<rparr>"

lemma put_slice_simps [simp]:
  "bm_written (put_slice bs t) = bm_written t @ bs"
  "bm_room (put_slice bs t) = bm_room t - length bs"
  by (simp_all add: put_slice_def)

lemma put_slice_append: "put_slice bs (put_slice as t) = put_slice (as @ bs) t"
  by (simp add: put_slice_def)

lemma put_slice_Nil [simp]: "put_slice [] t = t"
  by (simp add: put_slice_def)

lemma vec_target_simps [simp]:
  "bm_written (vec_target v) = v"
  "bm_room (vec_target v) = usize_max - length v"
  by (simp_all add: vec_target_def)

section \<open>The trait \<open>FixedBytes\<close>\<close>

record 'a fixed_bytes =
  SIZE :: nat
  fb_serialize :: "'a \<Rightarrow> bytes state_result"
  fb_serialize_into :: "'a \<Rightarrow> (buf_mut, arcon_state_error, unit) action"
  fb_deserialize :: "bytes \<Rightarrow> 'a state_result"
  fb_deserialize_from :: "(bytes, arcon_state_error, 'a) action"

text \<open>The default method \<^verbatim>\<open>serialize_check\<close>: \<^verbatim>\<open>assert_eq!\<close> on the length.\<close>

definition serialize_check :: "'a fixed_bytes \<Rightarrow> 'a \<Rightarrow> bytes state_result" where
  "serialize_check T x =
     bind_o (fb_serialize T x) (\<lambda>serialized.
       if length serialized = SIZE T then Ok serialized else Panic ''assertion failed'')"

subsection \<open>Integers and floats\<close>

text \<open>
  \<^verbatim>\<open>impl_fixed_bytes!\<close>: every integer type, signed or not, is its word, and a float its bit
  pattern. \<^verbatim>\<open>deserialize\<close> checks that there are enough bytes and then calls
  \<^verbatim>\<open>copy_from_slice\<close>, which panics unless the lengths agree exactly.
\<close>

definition word_serialize :: "'n::len word \<Rightarrow> bytes state_result" where
  "word_serialize x = Ok (to_le x)"

definition word_serialize_into :: "'n::len word \<Rightarrow> (buf_mut, arcon_state_error, unit) action" where
  "word_serialize_into x t =
     (let needed = length (to_le x); dest_len = bm_room t in
      if dest_len \<ge> needed then (Ok (), put_slice (to_le x) t)
      else (Err (FixedBytesSerializationError dest_len needed), t))"

definition word_deserialize :: "bytes \<Rightarrow> 'n::len word state_result" where
  "word_deserialize bs =
     (let needed = LENGTH('n) div 8; source_len = length bs in
      if source_len \<ge> needed
      then if source_len = needed then Ok (from_le bs)
           else Panic ''source slice length does not match destination slice length''
      else Err (FixedBytesDeserializationError source_len needed))"

definition word_deserialize_from :: "(bytes, arcon_state_error, 'n::len word) action" where
  "word_deserialize_from src =
     (let needed = LENGTH('n) div 8; source_len = length src in
      if source_len \<ge> needed then (Ok (from_le (take needed src)), drop needed src)
      else (Err (FixedBytesDeserializationError source_len needed), src))"

definition word_fb :: "'n::len word fixed_bytes" where
  "word_fb = \<lparr>SIZE = LENGTH('n) div 8, fb_serialize = word_serialize,
     fb_serialize_into = word_serialize_into, fb_deserialize = word_deserialize,
     fb_deserialize_from = word_deserialize_from\<rparr>"

subsection \<open>Unit, bool, tuples and arrays\<close>

definition unit_fb :: "unit fixed_bytes" where
  "unit_fb = \<lparr>SIZE = 0, fb_serialize = (\<lambda>_. Ok []), fb_serialize_into = (\<lambda>_. return_s ()),
     fb_deserialize = (\<lambda>_. Ok ()), fb_deserialize_from = return_s ()\<rparr>"

definition bool_byte :: "bool \<Rightarrow> u8" where
  "bool_byte b = (if b then 1 else 0)"

definition bool_fb :: "bool fixed_bytes" where
  "bool_fb = \<lparr>SIZE = 1,
     fb_serialize = (\<lambda>b. fb_serialize word_fb (bool_byte b)),
     fb_serialize_into = (\<lambda>b. fb_serialize_into word_fb (bool_byte b)),
     fb_deserialize = (\<lambda>bs. bind_o (fb_deserialize word_fb bs) (\<lambda>x :: u8. Ok (x \<noteq> 0))),
     fb_deserialize_from =
       bind_s (fb_deserialize_from word_fb) (\<lambda>x :: u8. return_s (x \<noteq> 0))\<rparr>"

text \<open>
  \<^verbatim>\<open>impl_fixed_bytes_for_tuples!\<close>: the components in order. A tuple of three or more
  components is a nested pair, whose items are those of the macro's expansion.
\<close>

definition tuple_serialize_into ::
    "'a fixed_bytes \<Rightarrow> 'b fixed_bytes \<Rightarrow> 'a \<times> 'b \<Rightarrow> (buf_mut, arcon_state_error, unit) action" where
  "tuple_serialize_into A B p =
     bind_s (fb_serialize_into A (fst p)) (\<lambda>_. fb_serialize_into B (snd p))"

definition tuple_deserialize_from ::
    "'a fixed_bytes \<Rightarrow> 'b fixed_bytes \<Rightarrow> (bytes, arcon_state_error, 'a \<times> 'b) action" where
  "tuple_deserialize_from A B =
     bind_s (fb_deserialize_from A) (\<lambda>a.
     bind_s (fb_deserialize_from B) (\<lambda>b. return_s (a, b)))"

text \<open>A fresh \<^verbatim>\<open>Vec\<close> filled by \<^verbatim>\<open>serialize_into\<close>, and a slice read through a cursor.\<close>

definition into_fresh_vec :: "(buf_mut, arcon_state_error, unit) action \<Rightarrow> bytes state_result" where
  "into_fresh_vec m =
     (case m (vec_target []) of (r, t) \<Rightarrow> bind_o r (\<lambda>_. Ok (bm_written t)))"

definition tuple_fb :: "'a fixed_bytes \<Rightarrow> 'b fixed_bytes \<Rightarrow> ('a \<times> 'b) fixed_bytes" where
  "tuple_fb A B = \<lparr>SIZE = SIZE A + SIZE B,
     fb_serialize = (\<lambda>p. into_fresh_vec (tuple_serialize_into A B p)),
     fb_serialize_into = tuple_serialize_into A B,
     fb_deserialize = (\<lambda>bs. fst (tuple_deserialize_from A B bs)),
     fb_deserialize_from = tuple_deserialize_from A B\<rparr>"

fun array_serialize_into :: "'a fixed_bytes \<Rightarrow> 'a list \<Rightarrow> (buf_mut, arcon_state_error, unit) action" where
  "array_serialize_into T [] = return_s ()"
| "array_serialize_into T (x # xs) =
     bind_s (fb_serialize_into T x) (\<lambda>_. array_serialize_into T xs)"

fun array_deserialize_from :: "'a fixed_bytes \<Rightarrow> nat \<Rightarrow> (bytes, arcon_state_error, 'a list) action" where
  "array_deserialize_from T 0 = return_s []"
| "array_deserialize_from T (Suc n) =
     bind_s (fb_deserialize_from T) (\<lambda>x.
     bind_s (array_deserialize_from T n) (\<lambda>xs. return_s (x # xs)))"

text \<open>\<^verbatim>\<open>[T; N]\<close>: a list of the length \<open>n\<close> that the type carries.\<close>

definition array_fb :: "'a fixed_bytes \<Rightarrow> nat \<Rightarrow> 'a list fixed_bytes" where
  "array_fb T n = \<lparr>SIZE = SIZE T * n,
     fb_serialize = (\<lambda>xs. into_fresh_vec (array_serialize_into T xs)),
     fb_serialize_into = array_serialize_into T,
     fb_deserialize = (\<lambda>bs. fst (array_deserialize_from T n bs)),
     fb_deserialize_from = array_deserialize_from T n\<rparr>"

subsection \<open>Length-prefixed byte strings\<close>

definition serialize_bytes_into :: "bytes \<Rightarrow> (buf_mut, arcon_state_error, unit) action" where
  "serialize_bytes_into payload t =
     (let dest_len = bm_room t; needed = SIZE (word_fb :: usize fixed_bytes) + length payload in
      if dest_len \<ge> needed
      then bind_s (fb_serialize_into word_fb (word_of_nat (length payload) :: usize))
             (\<lambda>_ t'. (Ok (), put_slice payload t')) t
      else (Err (FixedBytesSerializationError dest_len needed), t))"

definition deserialize_bytes_from :: "(bytes, arcon_state_error, bytes) action" where
  "deserialize_bytes_from =
     bind_s (fb_deserialize_from word_fb) (\<lambda>len :: usize. \<lambda>src.
       (let source_len = length src in
        if source_len \<ge> unat len then (Ok (take (unat len) src), drop (unat len) src)
        else (Err (FixedBytesDeserializationError source_len (unat len)), src)))"

section \<open>The contract of \<open>FixedBytes\<close>\<close>

text \<open>
  \<open>enc\<close> is the encoding the implementation writes, \<open>valid\<close> the type invariant of the
  encoded type (the length of an array). Nothing is written when the target has no room.
\<close>

locale fixed_bytes_codec =
  fixes T :: "'a fixed_bytes" and enc :: "'a \<Rightarrow> bytes" and valid :: "'a \<Rightarrow> bool"
  assumes enc_length: "valid x \<Longrightarrow> length (enc x) = SIZE T"
    and into_room: "valid x \<Longrightarrow> SIZE T \<le> bm_room t \<Longrightarrow>
      fb_serialize_into T x t = (Ok (), put_slice (enc x) t)"
    and into_short: "valid x \<Longrightarrow> bm_room t < SIZE T \<Longrightarrow>
      \<exists>d n t'. fb_serialize_into T x t = (Err (FixedBytesSerializationError d n), t')"
    and serialize_enc: "valid x \<Longrightarrow> SIZE T \<le> usize_max \<Longrightarrow> fb_serialize T x = Ok (enc x)"
    and from_enc: "valid x \<Longrightarrow> fb_deserialize_from T (enc x @ rest) = (Ok x, rest)"
    and from_short: "length src < SIZE T \<Longrightarrow>
      \<exists>s n src'. fb_deserialize_from T src = (Err (FixedBytesDeserializationError s n), src')"
    and from_long: "SIZE T \<le> length src \<Longrightarrow>
      \<exists>x. valid x \<and> fb_deserialize_from T src = (Ok x, drop (SIZE T) src)"
    and deserialize_enc: "valid x \<Longrightarrow> fb_deserialize T (enc x) = Ok x"
begin

lemma enc_prefix_free:
  assumes "valid x" and "valid y" and "enc x @ r = enc y @ s"
  shows "x = y \<and> r = s"
proof -
  have "(Ok x, r) = fb_deserialize_from T (enc x @ r)" using assms(1) by (simp add: from_enc)
  also have "\<dots> = (Ok y, s)" using assms(2,3) by (simp add: from_enc)
  finally show ?thesis by simp
qed

lemma enc_inj: "valid x \<Longrightarrow> valid y \<Longrightarrow> enc x = enc y \<Longrightarrow> x = y"
  using enc_prefix_free [of x y "[]" "[]"] by simp

lemma check_passes: "valid x \<Longrightarrow> SIZE T \<le> usize_max \<Longrightarrow> serialize_check T x = Ok (enc x)"
  by (simp add: serialize_check_def serialize_enc enc_length)

lemma round_trip:
  "valid x \<Longrightarrow> SIZE T \<le> usize_max \<Longrightarrow> bind_o (fb_serialize T x) (fb_deserialize T) = Ok x"
  by (simp add: serialize_enc deserialize_enc)

end

text \<open>Integers.\<close>

lemma SIZE_word_fb [simp]: "SIZE (word_fb :: 'n::len word fixed_bytes) = LENGTH('n) div 8"
  by (simp add: word_fb_def)

lemma word_codec:
  assumes "8 dvd LENGTH('n::len)"
  shows "fixed_bytes_codec (word_fb :: 'n word fixed_bytes) to_le (\<lambda>_. True)"
  by unfold_locales
    (auto simp: word_fb_def word_serialize_into_def word_serialize_def word_deserialize_from_def
      word_deserialize_def from_le_to_le [OF assms] Let_def)

interpretation u8_fb: fixed_bytes_codec "word_fb :: u8 fixed_bytes" to_le "\<lambda>_. True"
  by (rule word_codec) simp

interpretation u16_fb: fixed_bytes_codec "word_fb :: u16 fixed_bytes" to_le "\<lambda>_. True"
  by (rule word_codec) simp

interpretation u32_fb: fixed_bytes_codec "word_fb :: u32 fixed_bytes" to_le "\<lambda>_. True"
  by (rule word_codec) simp

interpretation u64_fb: fixed_bytes_codec "word_fb :: u64 fixed_bytes" to_le "\<lambda>_. True"
  by (rule word_codec) simp

interpretation u128_fb: fixed_bytes_codec "word_fb :: u128 fixed_bytes" to_le "\<lambda>_. True"
  by (rule word_codec) simp

text \<open>Unit and bool.\<close>

interpretation unit_fb: fixed_bytes_codec unit_fb "\<lambda>_. []" "\<lambda>_. True"
  by unfold_locales (auto simp: unit_fb_def)

lemma bool_byte_simps [simp]: "bool_byte b = 0 \<longleftrightarrow> \<not> b"
  by (simp add: bool_byte_def)

lemma bool_fb_simps [simp]:
  "SIZE bool_fb = SIZE (word_fb :: u8 fixed_bytes)"
  "fb_serialize bool_fb b = fb_serialize word_fb (bool_byte b)"
  "fb_serialize_into bool_fb b = fb_serialize_into word_fb (bool_byte b)"
  "fb_deserialize bool_fb bs = bind_o (fb_deserialize word_fb bs) (\<lambda>x :: u8. Ok (x \<noteq> 0))"
  "fb_deserialize_from bool_fb = bind_s (fb_deserialize_from word_fb) (\<lambda>x :: u8. return_s (x \<noteq> 0))"
  by (simp_all add: bool_fb_def)

interpretation bool_fb: fixed_bytes_codec bool_fb "\<lambda>b. to_le (bool_byte b)" "\<lambda>_. True"
proof unfold_locales
  fix src :: bytes
  assume "length src < SIZE bool_fb"
  then show "\<exists>s n src'. fb_deserialize_from bool_fb src
      = (Err (FixedBytesDeserializationError s n), src')"
    using u8_fb.from_short [of src] by auto
next
  fix src :: bytes
  assume "SIZE bool_fb \<le> length src"
  then show "\<exists>x. True \<and> fb_deserialize_from bool_fb src = (Ok x, drop (SIZE bool_fb) src)"
    using u8_fb.from_long [of src] by auto
next
  fix b and t :: buf_mut
  assume "bm_room t < SIZE bool_fb"
  then show "\<exists>d n t'. fb_serialize_into bool_fb b t
      = (Err (FixedBytesSerializationError d n), t')"
    using u8_fb.into_short [where x = "bool_byte b" and t = t] by auto
qed (simp_all add: u8_fb.serialize_enc u8_fb.into_room u8_fb.from_enc u8_fb.deserialize_enc)

text \<open>Tuples: the contracts of the components give the contract of the pair.\<close>

locale pair_codec =
  a: fixed_bytes_codec A ea va + b: fixed_bytes_codec B eb vb
  for A :: "'a fixed_bytes" and ea va and B :: "'b fixed_bytes" and eb vb
begin

lemma into_pair_room:
  assumes "va x" and "vb y" and "SIZE A + SIZE B \<le> bm_room t"
  shows "tuple_serialize_into A B (x, y) t = (Ok (), put_slice (ea x @ eb y) t)"
  using assms
  by (simp add: tuple_serialize_into_def a.into_room b.into_room a.enc_length put_slice_append)

lemma into_pair_short:
  assumes "va x" and "vb y" and "bm_room t < SIZE A + SIZE B"
  shows "\<exists>d n t'. tuple_serialize_into A B (x, y) t
    = (Err (FixedBytesSerializationError d n), t')"
proof (cases "bm_room t < SIZE A")
  case True
  then show ?thesis
    using a.into_short [OF assms(1), of t] by (auto simp: tuple_serialize_into_def)
next
  case False
  then have "bm_room (put_slice (ea x) t) < SIZE B"
    using assms by (simp add: a.enc_length)
  then show ?thesis
    using b.into_short [OF assms(2)] False assms(1)
    by (fastforce simp: tuple_serialize_into_def a.into_room)
qed

lemma from_pair_short:
  assumes "length src < SIZE A + SIZE B"
  shows "\<exists>s n src'. tuple_deserialize_from A B src
    = (Err (FixedBytesDeserializationError s n), src')"
proof (cases "length src < SIZE A")
  case True
  then show ?thesis using a.from_short [of src] by (auto simp: tuple_deserialize_from_def)
next
  case False
  then obtain x where "fb_deserialize_from A src = (Ok x, drop (SIZE A) src)"
    using a.from_long [of src] by auto
  moreover have "length (drop (SIZE A) src) < SIZE B" using assms False by simp
  ultimately show ?thesis
    using b.from_short by (fastforce simp: tuple_deserialize_from_def)
qed

lemma from_pair_long:
  assumes "SIZE A + SIZE B \<le> length src"
  shows "\<exists>p. (va (fst p) \<and> vb (snd p)) \<and>
    tuple_deserialize_from A B src = (Ok p, drop (SIZE A + SIZE B) src)"
proof -
  obtain x where x: "va x" "fb_deserialize_from A src = (Ok x, drop (SIZE A) src)"
    using a.from_long [of src] assms by auto
  obtain y where y: "vb y"
      "fb_deserialize_from B (drop (SIZE A) src) = (Ok y, drop (SIZE B) (drop (SIZE A) src))"
    using b.from_long [of "drop (SIZE A) src"] assms by fastforce
  have "tuple_deserialize_from A B src = (Ok (x, y), drop (SIZE A + SIZE B) src)"
    using x y by (simp add: tuple_deserialize_from_def add.commute)
  then show ?thesis using x(1) y(1) by auto
qed

end

lemma tuple_fb_simps [simp]:
  "SIZE (tuple_fb A B) = SIZE A + SIZE B"
  "fb_serialize_into (tuple_fb A B) = tuple_serialize_into A B"
  "fb_deserialize_from (tuple_fb A B) = tuple_deserialize_from A B"
  "fb_serialize (tuple_fb A B) p = into_fresh_vec (tuple_serialize_into A B p)"
  "fb_deserialize (tuple_fb A B) bs = fst (tuple_deserialize_from A B bs)"
  by (simp_all add: tuple_fb_def)

lemma into_fresh_vec_Ok: "m (vec_target []) = (Ok (), put_slice bs (vec_target [])) \<Longrightarrow>
    into_fresh_vec m = Ok bs"
  by (simp add: into_fresh_vec_def)

sublocale pair_codec \<subseteq> pair: fixed_bytes_codec "tuple_fb A B"
    "\<lambda>p. ea (fst p) @ eb (snd p)" "\<lambda>p. va (fst p) \<and> vb (snd p)"
proof unfold_locales
  fix p :: "'a \<times> 'b" and t :: buf_mut and rest :: bytes
  obtain x y where p: "p = (x, y)" by (cases p)
  assume v: "va (fst p) \<and> vb (snd p)"
  show "length (ea (fst p) @ eb (snd p)) = SIZE (tuple_fb A B)"
    using v by (simp add: a.enc_length b.enc_length)
  show "fb_serialize_into (tuple_fb A B) p t = (Ok (), put_slice (ea (fst p) @ eb (snd p)) t)"
    if "SIZE (tuple_fb A B) \<le> bm_room t"
    using into_pair_room [of x y t] v that p by simp
  show "\<exists>d n t'. fb_serialize_into (tuple_fb A B) p t
      = (Err (FixedBytesSerializationError d n), t')"
    if "bm_room t < SIZE (tuple_fb A B)"
    using into_pair_short [of x y t] v that p by simp
  show "fb_serialize (tuple_fb A B) p = Ok (ea (fst p) @ eb (snd p))"
    if "SIZE (tuple_fb A B) \<le> usize_max"
    using into_pair_room [of x y "vec_target []"] v that p by (simp add: into_fresh_vec_Ok)
  have dec: "tuple_deserialize_from A B ((ea x @ eb y) @ rest) = (Ok (x, y), rest)" for rest
    using v p by (simp add: tuple_deserialize_from_def a.from_enc b.from_enc)
  show "fb_deserialize_from (tuple_fb A B) ((ea (fst p) @ eb (snd p)) @ rest) = (Ok p, rest)"
    using dec p by simp
  show "fb_deserialize (tuple_fb A B) (ea (fst p) @ eb (snd p)) = Ok p"
    using dec [of "[]"] p by simp
qed (use from_pair_short from_pair_long in simp_all)

text \<open>The tuple type of the file's own test, \<^verbatim>\<open>(u8, u64, i16)\<close>.\<close>

interpretation pair_fb: pair_codec
  "word_fb :: u64 fixed_bytes" to_le "\<lambda>_. True" "word_fb :: u16 fixed_bytes" to_le "\<lambda>_. True"
  by unfold_locales

interpretation triple_fb: pair_codec
  "word_fb :: u8 fixed_bytes" to_le "\<lambda>_. True"
  "tuple_fb (word_fb :: u64 fixed_bytes) (word_fb :: u16 fixed_bytes)"
  "\<lambda>p. to_le (fst p) @ to_le (snd p)" "\<lambda>p. True \<and> True"
  by unfold_locales

text \<open>Arrays.\<close>

locale array_codec = fixed_bytes_codec T enc valid
  for T :: "'a fixed_bytes" and enc valid + fixes n :: nat
begin

lemma into_array_room:
  assumes "list_all valid xs" and "SIZE T * length xs \<le> bm_room t"
  shows "array_serialize_into T xs t = (Ok (), put_slice (concat (map enc xs)) t)"
  using assms
  by (induction xs arbitrary: t) (simp_all add: into_room enc_length put_slice_append)

lemma into_array_short:
  assumes "list_all valid xs" and "bm_room t < SIZE T * length xs"
  shows "\<exists>d m t'. array_serialize_into T xs t = (Err (FixedBytesSerializationError d m), t')"
  using assms
proof (induction xs arbitrary: t)
  case Nil
  then show ?case by simp
next
  case (Cons x xs)
  show ?case
  proof (cases "bm_room t < SIZE T")
    case True
    with Cons.prems show ?thesis using into_short [where x = x and t = t] by auto
  next
    case False
    with Cons.prems have "bm_room (put_slice (enc x) t) < SIZE T * length xs"
      by (simp add: enc_length)
    with Cons.prems False show ?thesis
      using Cons.IH by (fastforce simp: into_room)
  qed
qed

lemma from_array_enc:
  "list_all valid xs \<Longrightarrow>
    array_deserialize_from T (length xs) (concat (map enc xs) @ rest) = (Ok xs, rest)"
  by (induction xs) (simp_all add: from_enc)

lemma from_array_short:
  "length src < SIZE T * k \<Longrightarrow>
    \<exists>s m src'. array_deserialize_from T k src = (Err (FixedBytesDeserializationError s m), src')"
proof (induction k arbitrary: src)
  case 0
  then show ?case by simp
next
  case (Suc k)
  show ?case
  proof (cases "length src < SIZE T")
    case True
    then show ?thesis using from_short [of src] by auto
  next
    case False
    then obtain x where x: "fb_deserialize_from T src = (Ok x, drop (SIZE T) src)"
      using from_long [of src] by auto
    from Suc.prems False have "length (drop (SIZE T) src) < SIZE T * k" by simp
    with x show ?thesis using Suc.IH by fastforce
  qed
qed

lemma from_array_long:
  "SIZE T * k \<le> length src \<Longrightarrow>
    \<exists>xs. length xs = k \<and> list_all valid xs \<and>
      array_deserialize_from T k src = (Ok xs, drop (SIZE T * k) src)"
proof (induction k arbitrary: src)
  case 0
  then show ?case by simp
next
  case (Suc k)
  obtain x where x: "valid x" "fb_deserialize_from T src = (Ok x, drop (SIZE T) src)"
    using from_long [of src] Suc.prems by auto
  from Suc.prems have "SIZE T * k \<le> length (drop (SIZE T) src)" by simp
  from Suc.IH [OF this] obtain xs where xs: "length xs = k" "list_all valid xs"
      "array_deserialize_from T k (drop (SIZE T) src) = (Ok xs, drop (SIZE T * k) (drop (SIZE T) src))"
    by blast
  have "array_deserialize_from T (Suc k) src = (Ok (x # xs), drop (SIZE T * Suc k) src)"
    using x xs by (simp add: add.commute)
  then show ?case using x(1) xs(1,2) by (intro exI [of _ "x # xs"]) simp
qed

lemma concat_enc_length:
  "list_all valid xs \<Longrightarrow> length (concat (map enc xs)) = SIZE T * length xs"
  by (induction xs) (simp_all add: enc_length)

end

lemma array_fb_simps [simp]:
  "SIZE (array_fb T n) = SIZE T * n"
  "fb_serialize_into (array_fb T n) = array_serialize_into T"
  "fb_deserialize_from (array_fb T n) = array_deserialize_from T n"
  "fb_serialize (array_fb T n) xs = into_fresh_vec (array_serialize_into T xs)"
  "fb_deserialize (array_fb T n) bs = fst (array_deserialize_from T n bs)"
  by (simp_all add: array_fb_def)

sublocale array_codec \<subseteq> array: fixed_bytes_codec "array_fb T n"
    "\<lambda>xs. concat (map enc xs)" "\<lambda>xs. length xs = n \<and> list_all valid xs"
proof unfold_locales
  fix xs and rest :: bytes
  assume v: "length xs = n \<and> list_all valid xs"
  show "fb_deserialize_from (array_fb T n) (concat (map enc xs) @ rest) = (Ok xs, rest)"
    using v from_array_enc [of xs rest] by auto
  show "fb_deserialize (array_fb T n) (concat (map enc xs)) = Ok xs"
    using v from_array_enc [of xs "[]"] by auto
  show "fb_serialize (array_fb T n) xs = Ok (concat (map enc xs))"
    if "SIZE (array_fb T n) \<le> usize_max"
    using v that into_array_room [of xs "vec_target []"] by (simp add: into_fresh_vec_Ok)
qed (use concat_enc_length into_array_room into_array_short from_array_short from_array_long in auto)

interpretation u8_array3: array_codec "word_fb :: u8 fixed_bytes" to_le "\<lambda>_. True" 3
  by unfold_locales

section \<open>Length-prefixed byte strings: round trip\<close>

lemma serialize_bytes_into_room:
  assumes "8 + length payload \<le> bm_room t"
  shows "serialize_bytes_into payload t
    = (Ok (), put_slice (to_le (word_of_nat (length payload) :: usize) @ payload) t)"
  using assms
  by (simp add: serialize_bytes_into_def u64_fb.into_room put_slice_append)

lemma deserialize_bytes_from_enc:
  assumes "length payload \<le> usize_max"
  shows "deserialize_bytes_from (to_le (word_of_nat (length payload) :: usize) @ payload @ rest)
    = (Ok payload, rest)"
proof -
  have "unat (word_of_nat (length payload) :: usize) = length payload"
    using assms by (simp add: usize_max_def unat_of_nat)
  then show ?thesis
    by (simp add: deserialize_bytes_from_def u64_fb.from_enc)
qed

section \<open>Protobuf messages\<close>

text \<open>
  The prost codec of a message type: \<open>msg_encode\<close> is the length-delimited encoding,
  \<open>msg_decode\<close> reads one length-delimited message off the front of a buffer. What the code
  relies on is \<open>message_law\<close>: decoding gives back what was encoded and consumes exactly it.
\<close>

record 'a message =
  msg_encode :: "'a \<Rightarrow> bytes"
  msg_decode :: "bytes \<Rightarrow> ('a \<times> bytes) option"

definition message_law :: "'a message \<Rightarrow> bool" where
  "message_law M \<longleftrightarrow> (\<forall>x rest. msg_decode M (msg_encode M x @ rest) = Some (x, rest))"

definition protobuf_serialize :: "'a message \<Rightarrow> 'a \<Rightarrow> bytes state_result" where
  "protobuf_serialize M x =
     (if length (msg_encode M x) \<le> bm_room (vec_target []) then Ok (msg_encode M x)
      else Err ProtobufEncodeError)"

definition protobuf_serialize_into :: "'a message \<Rightarrow> 'a \<Rightarrow> (buf_mut, arcon_state_error, unit) action" where
  "protobuf_serialize_into M x t =
     (if length (msg_encode M x) \<le> bm_room t then (Ok (), put_slice (msg_encode M x) t)
      else (Err ProtobufEncodeError, t))"

definition protobuf_deserialize :: "'a message \<Rightarrow> bytes \<Rightarrow> 'a state_result" where
  "protobuf_deserialize M bs =
     (case msg_decode M bs of Some (x, _) \<Rightarrow> Ok x | None \<Rightarrow> Err ProtobufDecodeError)"

definition protobuf_deserialize_from :: "'a message \<Rightarrow> (bytes, arcon_state_error, 'a) action" where
  "protobuf_deserialize_from M src =
     (case msg_decode M src of Some (x, rest) \<Rightarrow> (Ok x, rest) | None \<Rightarrow> (Err ProtobufDecodeError, src))"

definition size_hint :: "'a message \<Rightarrow> 'a \<Rightarrow> nat option" where
  "size_hint M x = Some (length (msg_encode M x))"

lemma message_decode_encode [simp]:
  "message_law M \<Longrightarrow> msg_decode M (msg_encode M x @ rest) = Some (x, rest)"
  by (simp add: message_law_def)

lemma message_decode_encode_all [simp]:
  "message_law M \<Longrightarrow> msg_decode M (msg_encode M x) = Some (x, [])"
  using message_decode_encode [of M x "[]"] by simp

lemma message_inj: "message_law M \<Longrightarrow> msg_encode M x = msg_encode M y \<longleftrightarrow> x = y"
  by (metis message_decode_encode_all option.inject prod.inject)

lemma protobuf_deserialize_from_enc [simp]:
  "message_law M \<Longrightarrow> protobuf_deserialize_from M (msg_encode M x @ rest) = (Ok x, rest)"
  by (simp add: protobuf_deserialize_from_def)

context pair_codec
begin

lemma pair_contract:
  "fixed_bytes_codec (tuple_fb A B) (\<lambda>p. ea (fst p) @ eb (snd p)) (\<lambda>p. va (fst p) \<and> vb (snd p))"
  by (rule pair.fixed_bytes_codec_axioms)

end

context array_codec
begin

lemma array_contract:
  "fixed_bytes_codec (array_fb T n) (\<lambda>xs. concat (map enc xs)) (\<lambda>xs. length xs = n \<and> list_all valid xs)"
  by (rule array.fixed_bytes_codec_axioms)

end

section \<open>Properties\<close>

text \<open>C39: The implementations of \<^verbatim>\<open>FixedBytes\<close> meet its contract: the encoding has the declared size, writing
  needs exactly that much room and otherwise reports an error, and reading gives back the value and
  leaves the rest of the input. This holds for every fixed-width integer, and it is inherited by
  compound types: two types that meet it give a pair that meets it with the concatenation of the
  encodings, and a type that meets it gives arrays of any length that meet it.\<close>

theorem fixed_bytes_contracts:
  assumes "8 dvd LENGTH('n::len)" and "fixed_bytes_codec A ea va" and "fixed_bytes_codec B eb vb"
  shows "fixed_bytes_codec (word_fb :: 'n word fixed_bytes) to_le (\<lambda>_. True) \<and>
    fixed_bytes_codec (tuple_fb A B) (\<lambda>p. ea (fst p) @ eb (snd p)) (\<lambda>p. va (fst p) \<and> vb (snd p)) \<and>
    fixed_bytes_codec (array_fb A n) (\<lambda>xs. concat (map ea xs)) (\<lambda>xs. length xs = n \<and> list_all va xs)"
  using word_codec [OF assms(1)] pair_codec.pair_contract [OF pair_codec.intro [OF assms(2,3)]]
    array_codec.array_contract [OF array_codec.intro [OF assms(2)]] by blast

theorem fixed_bytes_contracts_witness:
  "fixed_bytes_codec (word_fb :: u128 fixed_bytes) to_le (\<lambda>_. True) \<and>
   fixed_bytes_codec (tuple_fb (word_fb :: u64 fixed_bytes) bool_fb)
     (\<lambda>p. to_le (fst p) @ to_le (bool_byte (snd p))) (\<lambda>p. True \<and> True) \<and>
   fixed_bytes_codec (array_fb (word_fb :: u64 fixed_bytes) 4) (\<lambda>xs. concat (map to_le xs))
     (\<lambda>xs. length xs = 4 \<and> list_all (\<lambda>_. True) xs)"
  by (rule fixed_bytes_contracts [OF _ u64_fb.fixed_bytes_codec_axioms bool_fb.fixed_bytes_codec_axioms]) simp

text \<open>Reading an integer back with \<^verbatim>\<open>deserialize\<close> succeeds on exactly as many bytes as it
  has; fewer bytes are an error, and more bytes panic although the length check lets them pass.\<close>

theorem word_deserialize_lengths:
  "fb_deserialize (word_fb :: 'n::len word fixed_bytes) bs =
    (if length bs < LENGTH('n) div 8
     then Err (FixedBytesDeserializationError (length bs) (LENGTH('n) div 8))
     else if length bs = LENGTH('n) div 8 then Ok (from_le bs)
     else Panic ''source slice length does not match destination slice length'')"
  by (simp add: word_fb_def word_deserialize_def Let_def)

text \<open>A length-prefixed byte string is read back as written, whatever follows it.\<close>

theorem bytes_round_trip:
  assumes "8 + length payload \<le> bm_room t"
    and "length payload \<le> usize_max"
  shows "\<exists>enc. serialize_bytes_into payload t = (Ok (), put_slice enc t) \<and>
    deserialize_bytes_from (enc @ rest) = (Ok payload, rest)"
  using serialize_bytes_into_room [OF assms(1)] deserialize_bytes_from_enc [OF assms(2), of rest] by auto

theorem bytes_round_trip_witness:
  "\<exists>enc. serialize_bytes_into [1, 2, 3] (vec_target []) = (Ok (), put_slice enc (vec_target [])) \<and>
    deserialize_bytes_from (enc @ [9]) = (Ok [1, 2, 3], [9])"
  by (rule bytes_round_trip) (simp_all add: usize_max_def)

end
