(* ===== verification/Handles.thy ===== *)
theory Handles
  imports Serialization
begin

text \<open>
  Model of \<^verbatim>\<open>arcon_state/src/handles.rs\<close> and of the state traits of
  \<^verbatim>\<open>arcon_state/src/ops.rs\<close>. A \<open>handle\<close> names a state inside a backend: its id is the
  table, its item key and namespace are the metakeys that prefix every stored key. The type
  parameters of the Rust type are passed as codecs.

  The methods a client calls on an \<^verbatim>\<open>ActiveHandle\<close> are the records \<open>value_ops\<close>,
  \<open>map_ops\<close>, \<open>vec_ops\<close>, \<open>reducer_ops\<close> and \<open>aggregator_ops\<close> over a backend type \<open>'b\<close>; the
  locales at the end state what each of the five state kinds promises to its clients.
\<close>

section \<open>Handles\<close>

record ('ik, 'n, 'x) handle =
  h_id :: string
  h_item_key :: 'ik
  h_namespace :: 'n
  h_extra_data :: 'x
  h_registered :: bool

definition no_extra :: "string \<Rightarrow> (unit, unit, unit) handle" where
  "no_extra i = \<lparr>h_id = i, h_item_key = (), h_namespace = (), h_extra_data = (), h_registered = False\<rparr>"

definition value_handle :: "string \<Rightarrow> (unit, unit, unit) handle" where
  "value_handle i = no_extra i"

definition map_handle :: "string \<Rightarrow> (unit, unit, unit) handle" where
  "map_handle i = no_extra i"

definition vec_handle :: "string \<Rightarrow> (unit, unit, unit) handle" where
  "vec_handle i = no_extra i"

definition reducer_handle :: "string \<Rightarrow> ('v \<Rightarrow> 'v \<Rightarrow> 'v) \<Rightarrow> (unit, unit, 'v \<Rightarrow> 'v \<Rightarrow> 'v) handle" where
  "reducer_handle i f =
     \<lparr>h_id = i, h_item_key = (), h_namespace = (), h_extra_data = f, h_registered = False\<rparr>"

text \<open>The trait \<^verbatim>\<open>Aggregator\<close> of \<^verbatim>\<open>lib.rs\<close>; merging and the final result may panic.\<close>

record ('i, 'acc, 'r) aggregator =
  create_accumulator :: 'acc
  agg_add :: "'acc \<Rightarrow> 'i \<Rightarrow> 'acc"
  merge_accumulators :: "'acc \<Rightarrow> 'acc \<Rightarrow> 'acc state_result"
  accumulator_into_result :: "'acc \<Rightarrow> 'r state_result"

definition aggregator_handle ::
    "string \<Rightarrow> ('i, 'acc, 'r) aggregator \<Rightarrow> (unit, unit, ('i, 'acc, 'r) aggregator) handle" where
  "aggregator_handle i a =
     \<lparr>h_id = i, h_item_key = (), h_namespace = (), h_extra_data = a, h_registered = False\<rparr>"

definition with_item_key :: "'jk \<Rightarrow> ('ik, 'n, 'x) handle \<Rightarrow> ('jk, 'n, 'x) handle" where
  "with_item_key k h = \<lparr>h_id = h_id h, h_item_key = k, h_namespace = h_namespace h,
     h_extra_data = h_extra_data h, h_registered = h_registered h\<rparr>"

definition with_namespace :: "'m \<Rightarrow> ('ik, 'n, 'x) handle \<Rightarrow> ('ik, 'm, 'x) handle" where
  "with_namespace m h = \<lparr>h_id = h_id h, h_item_key = h_item_key h, h_namespace = m,
     h_extra_data = h_extra_data h, h_registered = h_registered h\<rparr>"

text \<open>The \<^verbatim>\<open>Cell\<close> setters.\<close>

definition set_item_key :: "'ik \<Rightarrow> ('ik, 'n, 'x) handle \<Rightarrow> ('ik, 'n, 'x) handle" where
  "set_item_key k h = h\<lparr>h_item_key := k\<rparr>"

definition set_namespace :: "'n \<Rightarrow> ('ik, 'n, 'x) handle \<Rightarrow> ('ik, 'n, 'x) handle" where
  "set_namespace m h = h\<lparr>h_namespace := m\<rparr>"

lemma handle_setters [simp]:
  "h_id (set_item_key k h) = h_id h" "h_id (set_namespace m h) = h_id h"
  "h_item_key (set_item_key k h) = k" "h_item_key (set_namespace m h) = h_item_key h"
  "h_namespace (set_item_key k h) = h_namespace h" "h_namespace (set_namespace m h) = m"
  "h_extra_data (set_item_key k h) = h_extra_data h" "h_extra_data (set_namespace m h) = h_extra_data h"
  "h_registered (set_item_key k h) = h_registered h" "h_registered (set_namespace m h) = h_registered h"
  by (simp_all add: set_item_key_def set_namespace_def)

section \<open>Keys\<close>

definition metakey_size :: "'ik fixed_bytes \<Rightarrow> 'n fixed_bytes \<Rightarrow> nat" where
  "metakey_size IK N = SIZE IK + SIZE N"

definition serialize_metakeys_into ::
    "'ik fixed_bytes \<Rightarrow> 'n fixed_bytes \<Rightarrow> ('ik, 'n, 'x) handle \<Rightarrow> (buf_mut, arcon_state_error, unit) action" where
  "serialize_metakeys_into IK N h =
     bind_s (fb_serialize_into IK (h_item_key h)) (\<lambda>_. fb_serialize_into N (h_namespace h))"

definition serialize_metakeys ::
    "'ik fixed_bytes \<Rightarrow> 'n fixed_bytes \<Rightarrow> ('ik, 'n, 'x) handle \<Rightarrow> bytes state_result" where
  "serialize_metakeys IK N h = into_fresh_vec (serialize_metakeys_into IK N h)"

definition serialize_metakeys_and_key_into ::
    "'ik fixed_bytes \<Rightarrow> 'n fixed_bytes \<Rightarrow> 'k message \<Rightarrow> ('ik, 'n, 'x) handle \<Rightarrow> 'k
      \<Rightarrow> (buf_mut, arcon_state_error, unit) action" where
  "serialize_metakeys_and_key_into IK N K h key =
     bind_s (serialize_metakeys_into IK N h) (\<lambda>_. protobuf_serialize_into K key)"

definition serialize_metakeys_and_key ::
    "'ik fixed_bytes \<Rightarrow> 'n fixed_bytes \<Rightarrow> 'k message \<Rightarrow> ('ik, 'n, 'x) handle \<Rightarrow> 'k \<Rightarrow> bytes state_result" where
  "serialize_metakeys_and_key IK N K h key =
     into_fresh_vec (serialize_metakeys_and_key_into IK N K h key)"

definition str_bytes :: "string \<Rightarrow> bytes" where
  "str_bytes s = map (\<lambda>c. word_of_nat (of_char c)) s"

definition serialize_id_and_metakeys_into ::
    "'ik fixed_bytes \<Rightarrow> 'n fixed_bytes \<Rightarrow> ('ik, 'n, 'x) handle \<Rightarrow> (buf_mut, arcon_state_error, unit) action" where
  "serialize_id_and_metakeys_into IK N h =
     bind_s (serialize_bytes_into (str_bytes (h_id h))) (\<lambda>_. serialize_metakeys_into IK N h)"

definition serialize_id_and_metakeys ::
    "'ik fixed_bytes \<Rightarrow> 'n fixed_bytes \<Rightarrow> ('ik, 'n, 'x) handle \<Rightarrow> bytes state_result" where
  "serialize_id_and_metakeys IK N h = into_fresh_vec (serialize_id_and_metakeys_into IK N h)"

definition serialize_id_metakeys_and_key_into ::
    "'ik fixed_bytes \<Rightarrow> 'n fixed_bytes \<Rightarrow> 'k message \<Rightarrow> ('ik, 'n, 'x) handle \<Rightarrow> 'k
      \<Rightarrow> (buf_mut, arcon_state_error, unit) action" where
  "serialize_id_metakeys_and_key_into IK N K h key =
     bind_s (serialize_id_and_metakeys_into IK N h) (\<lambda>_. protobuf_serialize_into K key)"

definition serialize_id_metakeys_and_key ::
    "'ik fixed_bytes \<Rightarrow> 'n fixed_bytes \<Rightarrow> 'k message \<Rightarrow> ('ik, 'n, 'x) handle \<Rightarrow> 'k \<Rightarrow> bytes state_result" where
  "serialize_id_metakeys_and_key IK N K h key =
     into_fresh_vec (serialize_id_metakeys_and_key_into IK N K h key)"

text \<open>\<^verbatim>\<open>Handle::activate\<close>: the operations of a handle are reachable once it is registered.\<close>

definition activate :: "('ik, 'n, 'x) handle \<Rightarrow> 'ops \<Rightarrow> 'ops state_result" where
  "activate h ops =
     (if h_registered h then Ok ops
      else Panic ''State handles should be registered before activation!'')"

section \<open>Active handles\<close>

text \<open>An iterator of results is the list of what its \<^verbatim>\<open>next\<close> calls yield.\<close>

record ('b, 'v) value_ops =
  vo_clear :: "('b, arcon_state_error, unit) action"
  vo_get :: "'b \<Rightarrow> 'v option state_result"
  vo_set :: "'v \<Rightarrow> ('b, arcon_state_error, 'v option) action"
  vo_fast_set :: "'v \<Rightarrow> ('b, arcon_state_error, unit) action"

record ('b, 'k, 'v) map_ops =
  mo_clear :: "('b, arcon_state_error, unit) action"
  mo_get :: "'k \<Rightarrow> 'b \<Rightarrow> 'v option state_result"
  mo_fast_insert :: "'k \<Rightarrow> 'v \<Rightarrow> ('b, arcon_state_error, unit) action"
  mo_insert :: "'k \<Rightarrow> 'v \<Rightarrow> ('b, arcon_state_error, 'v option) action"
  mo_insert_all :: "('k \<times> 'v) list \<Rightarrow> ('b, arcon_state_error, unit) action"
  mo_remove :: "'k \<Rightarrow> ('b, arcon_state_error, 'v option) action"
  mo_fast_remove :: "'k \<Rightarrow> ('b, arcon_state_error, unit) action"
  mo_contains :: "'k \<Rightarrow> 'b \<Rightarrow> bool state_result"
  mo_iter :: "'b \<Rightarrow> ('k \<times> 'v) state_result list state_result"
  mo_keys :: "'b \<Rightarrow> 'k state_result list state_result"
  mo_values :: "'b \<Rightarrow> 'v state_result list state_result"
  mo_len :: "'b \<Rightarrow> nat state_result"
  mo_is_empty :: "'b \<Rightarrow> bool state_result"

record ('b, 'v) vec_ops =
  ve_clear :: "('b, arcon_state_error, unit) action"
  ve_append :: "'v \<Rightarrow> ('b, arcon_state_error, unit) action"
  ve_get :: "'b \<Rightarrow> 'v list state_result"
  ve_iter :: "'b \<Rightarrow> 'v state_result list state_result"
  ve_set :: "'v list \<Rightarrow> ('b, arcon_state_error, unit) action"
  ve_add_all :: "'v list \<Rightarrow> ('b, arcon_state_error, unit) action"
  ve_len :: "'b \<Rightarrow> nat state_result"
  ve_is_empty :: "'b \<Rightarrow> bool state_result"

record ('b, 'v) reducer_ops =
  ro_clear :: "('b, arcon_state_error, unit) action"
  ro_get :: "'b \<Rightarrow> 'v option state_result"
  ro_reduce :: "'v \<Rightarrow> ('b, arcon_state_error, unit) action"

record ('b, 'i, 'r) aggregator_ops =
  ao_clear :: "('b, arcon_state_error, unit) action"
  ao_get :: "'b \<Rightarrow> 'r state_result"
  ao_aggregate :: "'i \<Rightarrow> ('b, arcon_state_error, unit) action"

section \<open>Key layout\<close>

text \<open>The metakeys of a handle whose codecs satisfy the contract of \<^verbatim>\<open>FixedBytes\<close>.\<close>

locale metakeys =
  ik: fixed_bytes_codec IK eik vik + n: fixed_bytes_codec N en vn
  for IK :: "'ik fixed_bytes" and eik vik and N :: "'n fixed_bytes" and en vn +
  assumes metakeys_fit: "SIZE IK + SIZE N \<le> usize_max"
begin

definition mk :: "'ik \<Rightarrow> 'n \<Rightarrow> bytes" where
  "mk i n = eik i @ en n"

lemma mk_length: "vik i \<Longrightarrow> vn n \<Longrightarrow> length (mk i n) = SIZE IK + SIZE N"
  by (simp add: mk_def ik.enc_length n.enc_length)

lemma mk_prefix_free:
  assumes "vik i" "vn n" "vik j" "vn m" and "mk i n @ r = mk j m @ s"
  shows "i = j \<and> n = m \<and> r = s"
proof -
  from assms have "eik i @ (en n @ r) = eik j @ (en m @ s)" by (simp add: mk_def)
  with assms(1,3) have "i = j" "en n @ r = en m @ s" by (blast dest: ik.enc_prefix_free)+
  with assms(2,4) show ?thesis by (blast dest: n.enc_prefix_free)
qed

lemma mk_inj: "\<lbrakk>vik i; vn n; vik j; vn m; mk i n = mk j m\<rbrakk> \<Longrightarrow> i = j \<and> n = m"
  using mk_prefix_free [of i n j m "[]" "[]"] by simp

lemma serialize_metakeys_into_room:
  assumes "vik (h_item_key h)" "vn (h_namespace h)" and "SIZE IK + SIZE N \<le> bm_room t"
  shows "serialize_metakeys_into IK N h t
    = (Ok (), put_slice (mk (h_item_key h) (h_namespace h)) t)"
  using assms
  by (simp add: serialize_metakeys_into_def ik.into_room n.into_room ik.enc_length
      put_slice_append mk_def)

lemma serialize_metakeys_eq:
  assumes "vik (h_item_key h)" "vn (h_namespace h)"
  shows "serialize_metakeys IK N h = Ok (mk (h_item_key h) (h_namespace h))"
  using serialize_metakeys_into_room [OF assms, of "vec_target []"] metakeys_fit
  by (simp add: serialize_metakeys_def into_fresh_vec_def)

text \<open>A user key fits when the whole stored key is addressable.\<close>

definition key_fits :: "'k message \<Rightarrow> 'k \<Rightarrow> bool" where
  "key_fits K k \<longleftrightarrow> SIZE IK + SIZE N + length (msg_encode K k) \<le> usize_max"

lemma serialize_metakeys_and_key_eq:
  assumes "vik (h_item_key h)" "vn (h_namespace h)" and "key_fits K k"
  shows "serialize_metakeys_and_key IK N K h k
    = Ok (mk (h_item_key h) (h_namespace h) @ msg_encode K k)"
  using serialize_metakeys_into_room [OF assms(1,2), of "vec_target []"] metakeys_fit assms
  by (simp add: serialize_metakeys_and_key_def serialize_metakeys_and_key_into_def
      into_fresh_vec_def protobuf_serialize_into_def mk_length key_fits_def)

end

text \<open>The metakey types of the repository's own handles: none, a key, a key and an index.\<close>

lemma usize_max_small: "8 \<le> usize_max" "16 \<le> usize_max" "0 \<le> usize_max"
  by (simp_all add: usize_max_def)

interpretation mk0: metakeys unit_fb "\<lambda>_. []" "\<lambda>_. True" unit_fb "\<lambda>_. []" "\<lambda>_. True"
  by unfold_locales (simp add: unit_fb_def)

interpretation mk1: metakeys "word_fb :: u64 fixed_bytes" to_le "\<lambda>_. True" unit_fb "\<lambda>_. []" "\<lambda>_. True"
  by unfold_locales (simp add: unit_fb_def usize_max_def)

interpretation mk2: metakeys "word_fb :: u64 fixed_bytes" to_le "\<lambda>_. True"
    "word_fb :: u64 fixed_bytes" to_le "\<lambda>_. True"
  by unfold_locales (simp add: usize_max_def)

context metakeys
begin

lemma stored_keys_apart:
  assumes "vik (h_item_key h)" "vn (h_namespace h)" "vik (h_item_key g)" "vn (h_namespace g)"
    and "key_fits K k" "key_fits K l" "message_law K"
    and "serialize_metakeys_and_key IK N K h k = serialize_metakeys_and_key IK N K g l"
  shows "h_item_key h = h_item_key g \<and> h_namespace h = h_namespace g \<and> k = l"
proof -
  have "mk (h_item_key h) (h_namespace h) @ msg_encode K k = mk (h_item_key g) (h_namespace g) @ msg_encode K l"
    using assms by (simp add: serialize_metakeys_and_key_eq)
  then show ?thesis
    using mk_prefix_free [OF assms(1-4)] message_inj [OF assms(7)] by blast
qed

end

section \<open>Properties\<close>

text \<open>C38: Two user keys of handles of the same type are stored under the same key only when the
  item keys, the namespaces and the user keys agree: states that differ in their metakeys do not
  share entries.\<close>

theorem stored_keys_injective:
  assumes "metakeys IK eik vik N en vn" and "message_law K"
    and "vik (h_item_key h)" "vn (h_namespace h)" "vik (h_item_key g)" "vn (h_namespace g)"
    and "metakey_size IK N + length (msg_encode K k) \<le> usize_max"
    and "metakey_size IK N + length (msg_encode K l) \<le> usize_max"
    and "serialize_metakeys_and_key IK N K h k = serialize_metakeys_and_key IK N K g l"
  shows "h_item_key h = h_item_key g \<and> h_namespace h = h_namespace g \<and> k = l"
  using metakeys.stored_keys_apart [OF assms(1,3-6) _ _ assms(2,9)] assms(7,8)
  by (simp add: metakeys.key_fits_def [OF assms(1)] metakey_size_def)

definition demo_key :: "u64 message" where
  "demo_key = \<lparr>msg_encode = to_le,
     msg_decode = (\<lambda>bs. if 8 \<le> length bs then Some (from_le (take 8 bs), drop 8 bs) else None)\<rparr>"

lemma demo_key_law: "message_law demo_key"
  by (simp add: message_law_def demo_key_def from_le_to_le)

theorem stored_keys_injective_witness:
  "serialize_metakeys_and_key word_fb unit_fb demo_key (with_item_key (1 :: u64) (map_handle ''m'')) 7
    \<noteq> serialize_metakeys_and_key word_fb unit_fb demo_key (with_item_key (2 :: u64) (map_handle ''m'')) 7"
proof
  assume eq: "serialize_metakeys_and_key word_fb unit_fb demo_key (with_item_key (1 :: u64) (map_handle ''m'')) 7
    = serialize_metakeys_and_key word_fb unit_fb demo_key (with_item_key (2 :: u64) (map_handle ''m'')) 7"
  have fits: "metakey_size (word_fb :: u64 fixed_bytes) unit_fb + length (msg_encode demo_key 7) \<le> usize_max"
    by (simp add: metakey_size_def demo_key_def unit_fb_def usize_max_def)
  have "h_item_key (with_item_key (1 :: u64) (map_handle ''m'')) = h_item_key (with_item_key 2 (map_handle ''m''))
      \<and> h_namespace (with_item_key (1 :: u64) (map_handle ''m'')) = h_namespace (with_item_key (2 :: u64) (map_handle ''m''))
      \<and> (7 :: u64) = 7"
    by (rule stored_keys_injective [OF mk1.metakeys_axioms demo_key_law]) (rule TrueI fits eq)+
  then show False by (simp add: with_item_key_def)
qed

end
