(* ===== verification/In_Memory.thy ===== *)
theory In_Memory
  imports Handles
begin

text \<open>
  Model of \<^verbatim>\<open>arcon_state/src/in_memory\<close>: the backend that keeps every state in hash maps of
  dynamically typed values. A table is an association list with distinct keys, whose order
  stands for the iteration order of the \<^verbatim>\<open>HashMap\<close>; no lemma depends on it beyond the
  multiset of entries. A stored value has the type \<open>'d\<close>, and \<open>'v any_type\<close> is the pair of
  boxing a value of a Rust type and of downcasting to that type.
\<close>

section \<open>The backend\<close>

record ('v, 'd) any_type =
  any_box :: "'v \<Rightarrow> 'd"
  any_downcast :: "'d \<Rightarrow> 'v option"

definition any_law :: "('v, 'd) any_type \<Rightarrow> bool" where
  "any_law A \<longleftrightarrow> (\<forall>v. any_downcast A (any_box A v) = Some v)"

lemma any_downcast_box [simp]: "any_law A \<Longrightarrow> any_downcast A (any_box A v) = Some v"
  by (simp add: any_law_def)

text \<open>\<^verbatim>\<open>downcast_ref::<V>().context(InMemoryWrongType)\<close>.\<close>

definition downcast :: "('v, 'd) any_type \<Rightarrow> 'd \<Rightarrow> 'v state_result" where
  "downcast A d = ok_or InMemoryWrongType (any_downcast A d)"

lemma downcast_box [simp]: "any_law A \<Longrightarrow> downcast A (any_box A v) = Ok v"
  by (simp add: downcast_def ok_or_def)

type_synonym 'd table = "(bytes \<times> 'd) list"

record 'd in_memory =
  im_data :: "string \<rightharpoonup> 'd table"

definition im_create :: "'d in_memory" where
  "im_create = \<lparr>im_data = Map.empty\<rparr>"

text \<open>\<^verbatim>\<open>restore_or_create\<close>, \<^verbatim>\<open>create\<close> and \<^verbatim>\<open>restore\<close> all start empty; a
  checkpoint writes nothing.\<close>

definition im_restore_or_create :: "'cfg \<Rightarrow> string \<Rightarrow> 'd in_memory state_result" where
  "im_restore_or_create cfg i = Ok im_create"

definition im_restore :: "string \<Rightarrow> string \<Rightarrow> 'd in_memory state_result" where
  "im_restore live_path checkpoint_path = Ok im_create"

definition im_was_restored :: "'d in_memory \<Rightarrow> bool" where
  "im_was_restored b = False"

definition im_checkpoint :: "string \<Rightarrow> 'd in_memory \<Rightarrow> unit state_result" where
  "im_checkpoint path b = Ok ()"

text \<open>\<^verbatim>\<open>self.data.entry(handle.id).or_default(); handle.registered = true\<close>, the same for the
  five kinds of handle.\<close>

definition im_register ::
    "('ik, 'n, 'x) handle \<Rightarrow> 'd in_memory \<Rightarrow> ('ik, 'n, 'x) handle \<times> 'd in_memory" where
  "im_register h b =
     (h\<lparr>h_registered := True\<rparr>,
      (case im_data b (h_id h) of
         Some t \<Rightarrow> b
       | None \<Rightarrow> b\<lparr>im_data := (im_data b)(h_id h \<mapsto> [])\<rparr>))"

text \<open>The private accessors \<^verbatim>\<open>get\<close> and \<^verbatim>\<open>get_mut\<close>.\<close>

definition im_get :: "('ik, 'n, 'x) handle \<Rightarrow> 'd in_memory \<Rightarrow> 'd table state_result" where
  "im_get h b =
     unwrap_or_panic ''called `Option::unwrap()` on a `None` value'' (im_data b (h_id h))"

definition im_get_mut ::
    "('ik, 'n, 'x) handle \<Rightarrow> ('d table, arcon_state_error, 'a) action
      \<Rightarrow> ('d in_memory, arcon_state_error, 'a) action" where
  "im_get_mut h f b =
     (case im_get h b of
        Ok t \<Rightarrow> (case f t of (r, t') \<Rightarrow> (r, b\<lparr>im_data := (im_data b)(h_id h \<mapsto> t')\<rparr>))
      | Err e \<Rightarrow> (Err e, b)
      | Panic m \<Rightarrow> (Panic m, b)
      | NoFuel \<Rightarrow> (NoFuel, b))"

text \<open>\<^verbatim>\<open>HashMap::insert\<close>, \<^verbatim>\<open>HashMap::remove\<close> and \<^verbatim>\<open>entry(..).or_insert_with(..)\<close>.\<close>

definition hm_insert :: "bytes \<Rightarrow> 'd \<Rightarrow> ('d table, 'e, 'd option) action" where
  "hm_insert k d t = (Ok (map_of t k), AList.update k d t)"

definition hm_remove :: "bytes \<Rightarrow> ('d table, 'e, 'd option) action" where
  "hm_remove k t = (Ok (map_of t k), AList.delete k t)"

definition hm_entry_or :: "bytes \<Rightarrow> 'd \<Rightarrow> ('d table, 'e, 'd) action" where
  "hm_entry_or k d t =
     (case map_of t k of Some x \<Rightarrow> (Ok x, t) | None \<Rightarrow> (Ok d, AList.update k d t))"

definition hm_put :: "bytes \<Rightarrow> 'd \<Rightarrow> ('d table, 'e, unit) action" where
  "hm_put k d t = (Ok (), AList.update k d t)"

section \<open>Value state\<close>

definition im_value_clear ::
    "'ik fixed_bytes \<Rightarrow> 'n fixed_bytes \<Rightarrow> ('ik, 'n, 'x) handle \<Rightarrow> ('d in_memory, arcon_state_error, unit) action" where
  "im_value_clear IK N h =
     im_get_mut h
       (bind_s (query (\<lambda>_. serialize_metakeys IK N h)) (\<lambda>key.
        bind_s (hm_remove key) (\<lambda>_. return_s ())))"

definition im_value_get ::
    "'ik fixed_bytes \<Rightarrow> 'n fixed_bytes \<Rightarrow> ('v, 'd) any_type \<Rightarrow> ('ik, 'n, 'x) handle
      \<Rightarrow> 'd in_memory \<Rightarrow> 'v option state_result" where
  "im_value_get IK N V h b =
     bind_o (im_get h b) (\<lambda>t.
     bind_o (serialize_metakeys IK N h) (\<lambda>key.
       case map_of t key of
         Some dynamic \<Rightarrow> bind_o (downcast V dynamic) (\<lambda>typed. Ok (Some typed))
       | None \<Rightarrow> Ok None))"

definition im_value_set ::
    "'ik fixed_bytes \<Rightarrow> 'n fixed_bytes \<Rightarrow> ('v, 'd) any_type \<Rightarrow> ('ik, 'n, 'x) handle \<Rightarrow> 'v
      \<Rightarrow> ('d in_memory, arcon_state_error, 'v option) action" where
  "im_value_set IK N V h v =
     bind_s (query (\<lambda>_. serialize_metakeys IK N h)) (\<lambda>key.
     bind_s (im_get_mut h (hm_insert key (any_box V v))) (\<lambda>old_value.
       query (\<lambda>_. case old_value of
                    Some dynamic \<Rightarrow> bind_o (downcast V dynamic) (\<lambda>typed. Ok (Some typed))
                  | None \<Rightarrow> Ok None)))"

definition im_value_fast_set ::
    "'ik fixed_bytes \<Rightarrow> 'n fixed_bytes \<Rightarrow> ('v, 'd) any_type \<Rightarrow> ('ik, 'n, 'x) handle \<Rightarrow> 'v
      \<Rightarrow> ('d in_memory, arcon_state_error, unit) action" where
  "im_value_fast_set IK N V h v =
     bind_s (query (\<lambda>_. serialize_metakeys IK N h)) (\<lambda>key.
     bind_s (im_get_mut h (hm_insert key (any_box V v))) (\<lambda>_. return_s ()))"

definition im_value_ops ::
    "'ik fixed_bytes \<Rightarrow> 'n fixed_bytes \<Rightarrow> ('v, 'd) any_type \<Rightarrow> ('ik, 'n, 'x) handle
      \<Rightarrow> ('d in_memory, 'v) value_ops" where
  "im_value_ops IK N V h = \<lparr>vo_clear = im_value_clear IK N h, vo_get = im_value_get IK N V h,
     vo_set = im_value_set IK N V h, vo_fast_set = im_value_fast_set IK N V h\<rparr>"

section \<open>Map state\<close>

text \<open>\<open>short_key\<close>: the slice \<open>k[..prefix.len()]\<close> of some key is out of range.\<close>

definition short_key :: "bytes \<Rightarrow> 'd table \<Rightarrow> bool" where
  "short_key prefix t \<longleftrightarrow> list_ex (\<lambda>(k, d). length k < length prefix) t"

definition slice_panic :: string where
  "slice_panic = ''range end index out of range for slice''"

definition im_map_clear ::
    "'ik fixed_bytes \<Rightarrow> 'n fixed_bytes \<Rightarrow> ('ik, 'n, 'x) handle \<Rightarrow> ('d in_memory, arcon_state_error, unit) action" where
  "im_map_clear IK N h =
     bind_s (query (\<lambda>_. serialize_metakeys IK N h)) (\<lambda>key.
       im_get_mut h (\<lambda>t.
         if short_key key t then (Panic slice_panic, t)
         else (Ok (), filter (\<lambda>(k, d). \<not> has_prefix key k) t)))"

definition im_map_get ::
    "'ik fixed_bytes \<Rightarrow> 'n fixed_bytes \<Rightarrow> 'k message \<Rightarrow> ('v, 'd) any_type \<Rightarrow> ('ik, 'n, 'x) handle \<Rightarrow> 'k
      \<Rightarrow> 'd in_memory \<Rightarrow> 'v option state_result" where
  "im_map_get IK N K V h key b =
     bind_o (serialize_metakeys_and_key IK N K h key) (\<lambda>key.
     bind_o (im_get h b) (\<lambda>t.
       case map_of t key of
         Some dynamic \<Rightarrow> bind_o (downcast V dynamic) (\<lambda>v. Ok (Some v))
       | None \<Rightarrow> Ok None))"

definition im_map_fast_insert ::
    "'ik fixed_bytes \<Rightarrow> 'n fixed_bytes \<Rightarrow> 'k message \<Rightarrow> ('v, 'd) any_type \<Rightarrow> ('ik, 'n, 'x) handle \<Rightarrow> 'k \<Rightarrow> 'v
      \<Rightarrow> ('d in_memory, arcon_state_error, unit) action" where
  "im_map_fast_insert IK N K V h key v =
     bind_s (query (\<lambda>_. serialize_metakeys_and_key IK N K h key)) (\<lambda>key.
     bind_s (im_get_mut h (hm_insert key (any_box V v))) (\<lambda>_. return_s ()))"

definition im_map_insert ::
    "'ik fixed_bytes \<Rightarrow> 'n fixed_bytes \<Rightarrow> 'k message \<Rightarrow> ('v, 'd) any_type \<Rightarrow> ('ik, 'n, 'x) handle \<Rightarrow> 'k \<Rightarrow> 'v
      \<Rightarrow> ('d in_memory, arcon_state_error, 'v option) action" where
  "im_map_insert IK N K V h key v =
     bind_s (query (\<lambda>_. serialize_metakeys_and_key IK N K h key)) (\<lambda>key.
     bind_s (im_get_mut h (hm_insert key (any_box V v))) (\<lambda>old.
       query (\<lambda>_. case old of
                    None \<Rightarrow> Ok None
                  | Some old_dynamic \<Rightarrow> bind_o (downcast V old_dynamic) (\<lambda>x. Ok (Some x)))))"

fun im_map_insert_all ::
    "'ik fixed_bytes \<Rightarrow> 'n fixed_bytes \<Rightarrow> 'k message \<Rightarrow> ('v, 'd) any_type \<Rightarrow> ('ik, 'n, 'x) handle
      \<Rightarrow> ('k \<times> 'v) list \<Rightarrow> ('d in_memory, arcon_state_error, unit) action" where
  "im_map_insert_all IK N K V h [] = return_s ()"
| "im_map_insert_all IK N K V h ((k, v) # kvs) =
     bind_s (im_map_fast_insert IK N K V h k v) (\<lambda>_. im_map_insert_all IK N K V h kvs)"

definition im_map_remove ::
    "'ik fixed_bytes \<Rightarrow> 'n fixed_bytes \<Rightarrow> 'k message \<Rightarrow> ('v, 'd) any_type \<Rightarrow> ('ik, 'n, 'x) handle \<Rightarrow> 'k
      \<Rightarrow> ('d in_memory, arcon_state_error, 'v option) action" where
  "im_map_remove IK N K V h key =
     bind_s (query (\<lambda>_. serialize_metakeys_and_key IK N K h key)) (\<lambda>key.
     bind_s (im_get_mut h (hm_remove key)) (\<lambda>old_value.
       query (\<lambda>_. case old_value of
                    Some dynamic \<Rightarrow> bind_o (downcast V dynamic) (\<lambda>typed. Ok (Some typed))
                  | None \<Rightarrow> Ok None)))"

definition im_map_fast_remove ::
    "'ik fixed_bytes \<Rightarrow> 'n fixed_bytes \<Rightarrow> 'k message \<Rightarrow> ('ik, 'n, 'x) handle \<Rightarrow> 'k
      \<Rightarrow> ('d in_memory, arcon_state_error, unit) action" where
  "im_map_fast_remove IK N K h key =
     bind_s (query (\<lambda>_. serialize_metakeys_and_key IK N K h key)) (\<lambda>key.
     bind_s (im_get_mut h (hm_remove key)) (\<lambda>_. return_s ()))"

definition im_map_contains ::
    "'ik fixed_bytes \<Rightarrow> 'n fixed_bytes \<Rightarrow> 'k message \<Rightarrow> ('ik, 'n, 'x) handle \<Rightarrow> 'k
      \<Rightarrow> 'd in_memory \<Rightarrow> bool state_result" where
  "im_map_contains IK N K h key b =
     bind_o (serialize_metakeys_and_key IK N K h key) (\<lambda>key.
     bind_o (im_get h b) (\<lambda>t. Ok (map_of t key \<noteq> None)))"

text \<open>
  The three iterators walk the table: a key too short for the slice panics when it is reached,
  a key with another prefix is skipped, and every other entry yields its decoded item.
\<close>

definition walk :: "bytes \<Rightarrow> (bytes \<times> 'd \<Rightarrow> 'a state_result) \<Rightarrow> 'd table \<Rightarrow> 'a state_result list" where
  "walk prefix item t =
     concat (map (\<lambda>(k, d).
       if length k < length prefix then [Panic slice_panic]
       else if has_prefix prefix k then [item (k, d)] else []) t)"

definition decode_user_key ::
    "'ik fixed_bytes \<Rightarrow> 'n fixed_bytes \<Rightarrow> 'k message \<Rightarrow> bytes \<Rightarrow> 'k state_result" where
  "decode_user_key IK N K k =
     fst (bind_s (fb_deserialize_from IK) (\<lambda>_.
          bind_s (fb_deserialize_from N) (\<lambda>_.
          protobuf_deserialize_from K)) k)"

definition im_map_iter ::
    "'ik fixed_bytes \<Rightarrow> 'n fixed_bytes \<Rightarrow> 'k message \<Rightarrow> ('v, 'd) any_type \<Rightarrow> ('ik, 'n, 'x) handle
      \<Rightarrow> 'd in_memory \<Rightarrow> ('k \<times> 'v) state_result list state_result" where
  "im_map_iter IK N K V h b =
     bind_o (serialize_metakeys IK N h) (\<lambda>prefix.
     bind_o (im_get h b) (\<lambda>t.
       Ok (walk prefix (\<lambda>(k, d).
         bind_o (decode_user_key IK N K k) (\<lambda>key.
         bind_o (downcast V d) (\<lambda>v. Ok (key, v)))) t)))"

definition im_map_keys ::
    "'ik fixed_bytes \<Rightarrow> 'n fixed_bytes \<Rightarrow> 'k message \<Rightarrow> ('ik, 'n, 'x) handle
      \<Rightarrow> 'd in_memory \<Rightarrow> 'k state_result list state_result" where
  "im_map_keys IK N K h b =
     bind_o (serialize_metakeys IK N h) (\<lambda>prefix.
     bind_o (im_get h b) (\<lambda>t.
       Ok (walk prefix (\<lambda>(k, d). decode_user_key IK N K k) t)))"

definition im_map_values ::
    "'ik fixed_bytes \<Rightarrow> 'n fixed_bytes \<Rightarrow> ('v, 'd) any_type \<Rightarrow> ('ik, 'n, 'x) handle
      \<Rightarrow> 'd in_memory \<Rightarrow> 'v state_result list state_result" where
  "im_map_values IK N V h b =
     bind_o (serialize_metakeys IK N h) (\<lambda>prefix.
     bind_o (im_get h b) (\<lambda>t.
       Ok (walk prefix (\<lambda>(k, d). downcast V d) t)))"

definition im_map_len ::
    "'ik fixed_bytes \<Rightarrow> 'n fixed_bytes \<Rightarrow> ('ik, 'n, 'x) handle \<Rightarrow> 'd in_memory \<Rightarrow> nat state_result" where
  "im_map_len IK N h b =
     bind_o (serialize_metakeys IK N h) (\<lambda>prefix.
     bind_o (im_get h b) (\<lambda>t.
       if short_key prefix t then Panic slice_panic
       else Ok (length (filter (\<lambda>(k, d). has_prefix prefix k) t))))"

text \<open>\<^verbatim>\<open>filter(..).next().is_none()\<close> stops at the first entry with the prefix.\<close>

fun none_with_prefix :: "bytes \<Rightarrow> 'd table \<Rightarrow> bool state_result" where
  "none_with_prefix prefix [] = Ok True"
| "none_with_prefix prefix ((k, d) # t) =
     (if length k < length prefix then Panic slice_panic
      else if has_prefix prefix k then Ok False
      else none_with_prefix prefix t)"

definition im_map_is_empty ::
    "'ik fixed_bytes \<Rightarrow> 'n fixed_bytes \<Rightarrow> ('ik, 'n, 'x) handle \<Rightarrow> 'd in_memory \<Rightarrow> bool state_result" where
  "im_map_is_empty IK N h b =
     bind_o (serialize_metakeys IK N h) (\<lambda>prefix.
     bind_o (im_get h b) (\<lambda>t. none_with_prefix prefix t))"

definition im_map_ops ::
    "'ik fixed_bytes \<Rightarrow> 'n fixed_bytes \<Rightarrow> 'k message \<Rightarrow> ('v, 'd) any_type \<Rightarrow> ('ik, 'n, 'x) handle
      \<Rightarrow> ('d in_memory, 'k, 'v) map_ops" where
  "im_map_ops IK N K V h =
     \<lparr>mo_clear = im_map_clear IK N h,
      mo_get = im_map_get IK N K V h,
      mo_fast_insert = im_map_fast_insert IK N K V h,
      mo_insert = im_map_insert IK N K V h,
      mo_insert_all = im_map_insert_all IK N K V h,
      mo_remove = im_map_remove IK N K V h,
      mo_fast_remove = im_map_fast_remove IK N K h,
      mo_contains = im_map_contains IK N K h,
      mo_iter = im_map_iter IK N K V h,
      mo_keys = im_map_keys IK N K h,
      mo_values = im_map_values IK N V h,
      mo_len = im_map_len IK N h,
      mo_is_empty = im_map_is_empty IK N h\<rparr>"

section \<open>Vector state\<close>

text \<open>A vector state stores one boxed \<^verbatim>\<open>Vec<T>\<close> per pair of metakeys.\<close>

definition im_vec_clear ::
    "'ik fixed_bytes \<Rightarrow> 'n fixed_bytes \<Rightarrow> ('ik, 'n, 'x) handle \<Rightarrow> ('d in_memory, arcon_state_error, unit) action" where
  "im_vec_clear IK N h =
     bind_s (query (\<lambda>_. serialize_metakeys IK N h)) (\<lambda>key.
     bind_s (im_get_mut h (hm_remove key)) (\<lambda>_. return_s ()))"

definition im_vec_add_all ::
    "'ik fixed_bytes \<Rightarrow> 'n fixed_bytes \<Rightarrow> ('v list, 'd) any_type \<Rightarrow> ('ik, 'n, 'x) handle \<Rightarrow> 'v list
      \<Rightarrow> ('d in_memory, arcon_state_error, unit) action" where
  "im_vec_add_all IK N V h vs =
     bind_s (query (\<lambda>_. serialize_metakeys IK N h)) (\<lambda>key.
       im_get_mut h
         (bind_s (hm_entry_or key (any_box V [])) (\<lambda>dynamic.
          bind_s (query (\<lambda>_. downcast V dynamic)) (\<lambda>vec.
          hm_put key (any_box V (vec @ vs))))))"

definition im_vec_append ::
    "'ik fixed_bytes \<Rightarrow> 'n fixed_bytes \<Rightarrow> ('v list, 'd) any_type \<Rightarrow> ('ik, 'n, 'x) handle \<Rightarrow> 'v
      \<Rightarrow> ('d in_memory, arcon_state_error, unit) action" where
  "im_vec_append IK N V h v =
     bind_s (query (\<lambda>_. serialize_metakeys IK N h)) (\<lambda>key.
       im_get_mut h
         (bind_s (hm_entry_or key (any_box V [])) (\<lambda>storage.
          bind_s (query (\<lambda>_. downcast V storage)) (\<lambda>vec.
          hm_put key (any_box V (vec @ [v]))))))"

definition im_vec_get ::
    "'ik fixed_bytes \<Rightarrow> 'n fixed_bytes \<Rightarrow> ('v list, 'd) any_type \<Rightarrow> ('ik, 'n, 'x) handle
      \<Rightarrow> 'd in_memory \<Rightarrow> 'v list state_result" where
  "im_vec_get IK N V h b =
     bind_o (serialize_metakeys IK N h) (\<lambda>key.
     bind_o (im_get h b) (\<lambda>t.
       case map_of t key of Some storage \<Rightarrow> downcast V storage | None \<Rightarrow> Ok []))"

definition im_vec_iter ::
    "'ik fixed_bytes \<Rightarrow> 'n fixed_bytes \<Rightarrow> ('v list, 'd) any_type \<Rightarrow> ('ik, 'n, 'x) handle
      \<Rightarrow> 'd in_memory \<Rightarrow> 'v state_result list state_result" where
  "im_vec_iter IK N V h b =
     bind_o (serialize_metakeys IK N h) (\<lambda>key.
     bind_o (im_get h b) (\<lambda>t.
       case map_of t key of
         Some storage \<Rightarrow> bind_o (downcast V storage) (\<lambda>vs. Ok (map Ok vs))
       | None \<Rightarrow> Ok []))"

definition im_vec_set ::
    "'ik fixed_bytes \<Rightarrow> 'n fixed_bytes \<Rightarrow> ('v list, 'd) any_type \<Rightarrow> ('ik, 'n, 'x) handle \<Rightarrow> 'v list
      \<Rightarrow> ('d in_memory, arcon_state_error, unit) action" where
  "im_vec_set IK N V h vs =
     bind_s (query (\<lambda>_. serialize_metakeys IK N h)) (\<lambda>key.
     bind_s (im_get_mut h (hm_insert key (any_box V vs))) (\<lambda>_. return_s ()))"

definition im_vec_len ::
    "'ik fixed_bytes \<Rightarrow> 'n fixed_bytes \<Rightarrow> ('v list, 'd) any_type \<Rightarrow> ('ik, 'n, 'x) handle
      \<Rightarrow> 'd in_memory \<Rightarrow> nat state_result" where
  "im_vec_len IK N V h b =
     bind_o (serialize_metakeys IK N h) (\<lambda>key.
     bind_o (im_get h b) (\<lambda>t.
       case map_of t key of
         Some dynamic \<Rightarrow> bind_o (downcast V dynamic) (\<lambda>vs. Ok (length vs))
       | None \<Rightarrow> Ok 0))"

definition im_vec_is_empty ::
    "'ik fixed_bytes \<Rightarrow> 'n fixed_bytes \<Rightarrow> ('v list, 'd) any_type \<Rightarrow> ('ik, 'n, 'x) handle
      \<Rightarrow> 'd in_memory \<Rightarrow> bool state_result" where
  "im_vec_is_empty IK N V h b =
     bind_o (serialize_metakeys IK N h) (\<lambda>key.
     bind_o (im_get h b) (\<lambda>t.
       case map_of t key of
         Some dynamic \<Rightarrow> bind_o (downcast V dynamic) (\<lambda>vs. Ok (vs = []))
       | None \<Rightarrow> Ok True))"

definition im_vec_ops ::
    "'ik fixed_bytes \<Rightarrow> 'n fixed_bytes \<Rightarrow> ('v list, 'd) any_type \<Rightarrow> ('ik, 'n, 'x) handle
      \<Rightarrow> ('d in_memory, 'v) vec_ops" where
  "im_vec_ops IK N V h =
     \<lparr>ve_clear = im_vec_clear IK N h, ve_append = im_vec_append IK N V h,
      ve_get = im_vec_get IK N V h, ve_iter = im_vec_iter IK N V h, ve_set = im_vec_set IK N V h,
      ve_add_all = im_vec_add_all IK N V h, ve_len = im_vec_len IK N V h,
      ve_is_empty = im_vec_is_empty IK N V h\<rparr>"

section \<open>Reducer state\<close>

definition im_reducer_clear ::
    "'ik fixed_bytes \<Rightarrow> 'n fixed_bytes \<Rightarrow> ('ik, 'n, 'x) handle \<Rightarrow> ('d in_memory, arcon_state_error, unit) action" where
  "im_reducer_clear IK N h =
     bind_s (query (\<lambda>_. serialize_metakeys IK N h)) (\<lambda>key.
     bind_s (im_get_mut h (hm_remove key)) (\<lambda>_. return_s ()))"

definition im_reducer_get ::
    "'ik fixed_bytes \<Rightarrow> 'n fixed_bytes \<Rightarrow> ('v, 'd) any_type \<Rightarrow> ('ik, 'n, 'x) handle
      \<Rightarrow> 'd in_memory \<Rightarrow> 'v option state_result" where
  "im_reducer_get IK N V h b =
     bind_o (serialize_metakeys IK N h) (\<lambda>key.
     bind_o (im_get h b) (\<lambda>t.
       case map_of t key of
         Some dynamic \<Rightarrow> bind_o (downcast V dynamic) (\<lambda>v. Ok (Some v))
       | None \<Rightarrow> Ok None))"

definition im_reducer_reduce ::
    "'ik fixed_bytes \<Rightarrow> 'n fixed_bytes \<Rightarrow> ('v, 'd) any_type
      \<Rightarrow> ('ik, 'n, 'v \<Rightarrow> 'v \<Rightarrow> 'v) handle \<Rightarrow> 'v \<Rightarrow> ('d in_memory, arcon_state_error, unit) action" where
  "im_reducer_reduce IK N V h v =
     bind_s (query (\<lambda>_. serialize_metakeys IK N h)) (\<lambda>key.
       im_get_mut h (\<lambda>t.
         case map_of t key of
           None \<Rightarrow> bind_s (hm_insert key (any_box V v)) (\<lambda>_. return_s ()) t
         | Some dynamic \<Rightarrow>
             bind_s (query (\<lambda>_. downcast V dynamic)) (\<lambda>old.
               hm_put key (any_box V (h_extra_data h old v))) t))"

definition im_reducer_ops ::
    "'ik fixed_bytes \<Rightarrow> 'n fixed_bytes \<Rightarrow> ('v, 'd) any_type \<Rightarrow> ('ik, 'n, 'v \<Rightarrow> 'v \<Rightarrow> 'v) handle
      \<Rightarrow> ('d in_memory, 'v) reducer_ops" where
  "im_reducer_ops IK N V h =
     \<lparr>ro_clear = im_reducer_clear IK N h, ro_get = im_reducer_get IK N V h,
      ro_reduce = im_reducer_reduce IK N V h\<rparr>"

section \<open>Aggregator state\<close>

definition im_aggregator_clear ::
    "'ik fixed_bytes \<Rightarrow> 'n fixed_bytes \<Rightarrow> ('ik, 'n, 'x) handle \<Rightarrow> ('d in_memory, arcon_state_error, unit) action" where
  "im_aggregator_clear IK N h =
     bind_s (query (\<lambda>_. serialize_metakeys IK N h)) (\<lambda>key.
     bind_s (im_get_mut h (hm_remove key)) (\<lambda>_. return_s ()))"

definition im_aggregator_get ::
    "'ik fixed_bytes \<Rightarrow> 'n fixed_bytes \<Rightarrow> ('acc, 'd) any_type
      \<Rightarrow> ('ik, 'n, ('i, 'acc, 'r) aggregator) handle \<Rightarrow> 'd in_memory \<Rightarrow> 'r state_result" where
  "im_aggregator_get IK N A h b =
     bind_o (serialize_metakeys IK N h) (\<lambda>key.
     bind_o (im_get h b) (\<lambda>t.
       case map_of t key of
         Some dynamic \<Rightarrow>
           bind_o (downcast A dynamic) (\<lambda>acc. accumulator_into_result (h_extra_data h) acc)
       | None \<Rightarrow>
           accumulator_into_result (h_extra_data h) (create_accumulator (h_extra_data h))))"

definition im_aggregator_aggregate ::
    "'ik fixed_bytes \<Rightarrow> 'n fixed_bytes \<Rightarrow> ('acc, 'd) any_type
      \<Rightarrow> ('ik, 'n, ('i, 'acc, 'r) aggregator) handle \<Rightarrow> 'i \<Rightarrow> ('d in_memory, arcon_state_error, unit) action" where
  "im_aggregator_aggregate IK N A h v =
     bind_s (query (\<lambda>_. serialize_metakeys IK N h)) (\<lambda>key.
       im_get_mut h
         (bind_s (hm_entry_or key (any_box A (create_accumulator (h_extra_data h)))) (\<lambda>dynamic.
          bind_s (query (\<lambda>_. downcast A dynamic)) (\<lambda>acc.
          hm_put key (any_box A (agg_add (h_extra_data h) acc v))))))"

definition im_aggregator_ops ::
    "'ik fixed_bytes \<Rightarrow> 'n fixed_bytes \<Rightarrow> ('acc, 'd) any_type
      \<Rightarrow> ('ik, 'n, ('i, 'acc, 'r) aggregator) handle \<Rightarrow> ('d in_memory, 'i, 'r) aggregator_ops" where
  "im_aggregator_ops IK N A h =
     \<lparr>ao_clear = im_aggregator_clear IK N h, ao_get = im_aggregator_get IK N A h,
      ao_aggregate = im_aggregator_aggregate IK N A h\<rparr>"

end
