(* ===== verification/State_Contracts.thy ===== *)
theory State_Contracts
  imports Handles
begin

text \<open>
  What the five kinds of state promise to the code that uses them, whatever the backend. Each
  locale fixes the operations of one active handle, an invariant \<open>I\<close> of the backend, the
  abstract content of the state, and \<open>frame\<close>: everything of the backend that is not part of
  this state, which no operation changes. The theories of the backends interpret them; the
  lemmas below are proved once, for every backend.
\<close>

section \<open>Value state: an optional cell\<close>

locale value_state =
  fixes H :: "('b, 'v) value_ops" and I :: "'b \<Rightarrow> bool"
    and val :: "'b \<Rightarrow> 'v option" and frame :: "'b \<Rightarrow> 'f"
  assumes vget: "I b \<Longrightarrow> vo_get H b = Ok (val b)"
    and vset: "I b \<Longrightarrow> \<exists>b'. vo_set H v b = (Ok (val b), b') \<and> I b' \<and> val b' = Some v \<and> frame b' = frame b"
    and vfast_set: "I b \<Longrightarrow> \<exists>b'. vo_fast_set H v b = (Ok (), b') \<and> I b' \<and> val b' = Some v \<and> frame b' = frame b"
    and vclear: "I b \<Longrightarrow> \<exists>b'. vo_clear H b = (Ok (), b') \<and> I b' \<and> val b' = None \<and> frame b' = frame b"
begin

lemma set_then_get: "I b \<Longrightarrow> bind_s (vo_set H v) (\<lambda>_. query (vo_get H)) b = (Ok (Some v), snd (vo_set H v b))"
  using vset [of b v] by (auto simp: vget)

lemma fast_set_then_get:
  "I b \<Longrightarrow> bind_s (vo_fast_set H v) (\<lambda>_. query (vo_get H)) b = (Ok (Some v), snd (vo_fast_set H v b))"
  using vfast_set [of b v] by (auto simp: vget)

lemma clear_then_get: "I b \<Longrightarrow> bind_s (vo_clear H) (\<lambda>_. query (vo_get H)) b = (Ok None, snd (vo_clear H b))"
  using vclear [of b] by (auto simp: vget)

lemma set_twice: "I b \<Longrightarrow> fst (bind_s (vo_set H v) (\<lambda>_. vo_set H w) b) = Ok (Some v)"
  using vset [of b v] vset [of "snd (vo_set H v b)" w] by auto

end

section \<open>Map state: a finite map\<close>

text \<open>\<open>key_ok\<close> is the condition under which the backend can encode a key.\<close>

locale map_state =
  fixes H :: "('b, 'k, 'v) map_ops" and I :: "'b \<Rightarrow> bool" and key_ok :: "'k \<Rightarrow> bool"
    and entries :: "'b \<Rightarrow> 'k \<rightharpoonup> 'v" and frame :: "'b \<Rightarrow> 'f"
  assumes mget: "I b \<Longrightarrow> key_ok k \<Longrightarrow> mo_get H k b = Ok (entries b k)"
    and mcontains: "I b \<Longrightarrow> key_ok k \<Longrightarrow> mo_contains H k b = Ok (entries b k \<noteq> None)"
    and minsert: "I b \<Longrightarrow> key_ok k \<Longrightarrow> \<exists>b'. mo_insert H k v b = (Ok (entries b k), b') \<and> I b' \<and>
      entries b' = (entries b)(k \<mapsto> v) \<and> frame b' = frame b"
    and mfast_insert: "I b \<Longrightarrow> key_ok k \<Longrightarrow> \<exists>b'. mo_fast_insert H k v b = (Ok (), b') \<and> I b' \<and>
      entries b' = (entries b)(k \<mapsto> v) \<and> frame b' = frame b"
    and minsert_all: "I b \<Longrightarrow> list_all (\<lambda>p. key_ok (fst p)) kvs \<Longrightarrow>
      \<exists>b'. mo_insert_all H kvs b = (Ok (), b') \<and> I b' \<and>
        entries b' = entries b ++ map_of (rev kvs) \<and> frame b' = frame b"
    and mremove: "I b \<Longrightarrow> key_ok k \<Longrightarrow> \<exists>b'. mo_remove H k b = (Ok (entries b k), b') \<and> I b' \<and>
      entries b' = (entries b)(k := None) \<and> frame b' = frame b"
    and mfast_remove: "I b \<Longrightarrow> key_ok k \<Longrightarrow> \<exists>b'. mo_fast_remove H k b = (Ok (), b') \<and> I b' \<and>
      entries b' = (entries b)(k := None) \<and> frame b' = frame b"
    and mclear: "I b \<Longrightarrow> \<exists>b'. mo_clear H b = (Ok (), b') \<and> I b' \<and> entries b' = Map.empty \<and> frame b' = frame b"
    and miter: "I b \<Longrightarrow> \<exists>kvs. mo_iter H b = Ok (map Ok kvs) \<and> distinct (map fst kvs) \<and> map_of kvs = entries b"
    and mkeys: "I b \<Longrightarrow> \<exists>ks. mo_keys H b = Ok (map Ok ks) \<and> distinct ks \<and> set ks = dom (entries b)"
    and mvalues: "I b \<Longrightarrow> \<exists>vs. mo_values H b = Ok (map Ok vs) \<and> length vs = card (dom (entries b)) \<and>
      set vs = ran (entries b)"
    and mlen: "I b \<Longrightarrow> finite (dom (entries b)) \<and> mo_len H b = Ok (card (dom (entries b)))"
    and mis_empty: "I b \<Longrightarrow> mo_is_empty H b = Ok (entries b = Map.empty)"
begin

lemma insert_then_get:
  assumes "I b" "key_ok k" "key_ok k'"
  shows "bind_s (mo_insert H k v) (\<lambda>_. query (mo_get H k')) b
    = (Ok (if k' = k then Some v else entries b k'), snd (mo_insert H k v b))"
  using minsert [OF assms(1,2), of v] assms(3) by (auto simp: mget)

lemma remove_then_contains:
  assumes "I b" "key_ok k"
  shows "bind_s (mo_remove H k) (\<lambda>_. query (mo_contains H k)) b = (Ok False, snd (mo_remove H k b))"
  using mremove [OF assms] assms(2) by (auto simp: mcontains)

lemma len_after_fast_insert:
  assumes "I b" "key_ok k"
  shows "fst (bind_s (mo_fast_insert H k v) (\<lambda>_. query (mo_len H)) b)
    = Ok (if entries b k = None then Suc (card (dom (entries b))) else card (dom (entries b)))"
proof -
  obtain b' where b': "mo_fast_insert H k v b = (Ok (), b')" "I b'"
      "entries b' = (entries b)(k \<mapsto> v)"
    using mfast_insert [OF assms] by blast
  have "card (dom (entries b'))
      = (if entries b k = None then Suc (card (dom (entries b))) else card (dom (entries b)))"
    using b'(3) mlen [OF assms(1)] by (auto simp: domIff insert_absorb)
  then show ?thesis using b' by (simp add: mlen)
qed

end

section \<open>Vector state: a list\<close>

locale vec_state =
  fixes H :: "('b, 'v) vec_ops" and I :: "'b \<Rightarrow> bool"
    and items :: "'b \<Rightarrow> 'v list" and frame :: "'b \<Rightarrow> 'f"
  assumes eget: "I b \<Longrightarrow> ve_get H b = Ok (items b)"
    and eiter: "I b \<Longrightarrow> ve_iter H b = Ok (map Ok (items b))"
    and elen: "I b \<Longrightarrow> ve_len H b = Ok (length (items b))"
    and eis_empty: "I b \<Longrightarrow> ve_is_empty H b = Ok (items b = [])"
    and eappend: "I b \<Longrightarrow> \<exists>b'. ve_append H v b = (Ok (), b') \<and> I b' \<and> items b' = items b @ [v] \<and> frame b' = frame b"
    and eadd_all: "I b \<Longrightarrow> \<exists>b'. ve_add_all H vs b = (Ok (), b') \<and> I b' \<and> items b' = items b @ vs \<and> frame b' = frame b"
    and eset: "I b \<Longrightarrow> \<exists>b'. ve_set H vs b = (Ok (), b') \<and> I b' \<and> items b' = vs \<and> frame b' = frame b"
    and eclear: "I b \<Longrightarrow> \<exists>b'. ve_clear H b = (Ok (), b') \<and> I b' \<and> items b' = [] \<and> frame b' = frame b"
begin

text \<open>Appending one by one is adding all at once.\<close>

fun append_each :: "'v list \<Rightarrow> ('b, arcon_state_error, unit) action" where
  "append_each [] = return_s ()"
| "append_each (v # vs) = bind_s (ve_append H v) (\<lambda>_. append_each vs)"

lemma append_each_items:
  "I b \<Longrightarrow> \<exists>b'. append_each vs b = (Ok (), b') \<and> I b' \<and> items b' = items b @ vs \<and> frame b' = frame b"
proof (induction vs arbitrary: b)
  case Nil
  then show ?case by simp
next
  case (Cons v vs)
  obtain b1 where b1: "ve_append H v b = (Ok (), b1)" "I b1" "items b1 = items b @ [v]"
      "frame b1 = frame b"
    using eappend [OF Cons.prems] by blast
  show ?case using Cons.IH [OF b1(2)] b1 by auto
qed

end

section \<open>Reducer and aggregator state\<close>

locale reducer_state =
  fixes H :: "('b, 'v) reducer_ops" and f :: "'v \<Rightarrow> 'v \<Rightarrow> 'v" and I :: "'b \<Rightarrow> bool"
    and red :: "'b \<Rightarrow> 'v option" and frame :: "'b \<Rightarrow> 'f"
  assumes rget: "I b \<Longrightarrow> ro_get H b = Ok (red b)"
    and rreduce: "I b \<Longrightarrow> \<exists>b'. ro_reduce H v b = (Ok (), b') \<and> I b' \<and>
      red b' = Some (case red b of None \<Rightarrow> v | Some old \<Rightarrow> f old v) \<and> frame b' = frame b"
    and rclear: "I b \<Longrightarrow> \<exists>b'. ro_clear H b = (Ok (), b') \<and> I b' \<and> red b' = None \<and> frame b' = frame b"
begin

fun reduce_each :: "'v list \<Rightarrow> ('b, arcon_state_error, unit) action" where
  "reduce_each [] = return_s ()"
| "reduce_each (v # vs) = bind_s (ro_reduce H v) (\<lambda>_. reduce_each vs)"

text \<open>Reducing a non-empty sequence from the cleared state is a left fold.\<close>

lemma reduce_each_fold:
  "I b \<Longrightarrow> red b = Some a \<Longrightarrow> \<exists>b'. reduce_each vs b = (Ok (), b') \<and> I b' \<and> red b' = Some (foldl f a vs)"
proof (induction vs arbitrary: a b)
  case Nil
  then show ?case by simp
next
  case (Cons v vs)
  obtain b1 where b1: "ro_reduce H v b = (Ok (), b1)" "I b1" "red b1 = Some (f a v)"
    using rreduce [OF Cons.prems(1), of v] Cons.prems(2) by auto
  show ?case using Cons.IH [OF b1(2,3)] b1(1) by auto
qed

lemma reduce_all_from_clear:
  assumes "I b" "red b = None"
  shows "\<exists>b'. reduce_each (v # vs) b = (Ok (), b') \<and> red b' = Some (foldl f v vs)"
proof -
  obtain b1 where b1: "ro_reduce H v b = (Ok (), b1)" "I b1" "red b1 = Some v"
    using rreduce [OF assms(1), of v] assms(2) by auto
  show ?thesis using reduce_each_fold [OF b1(2,3), of vs] b1(1) by auto
qed

end

locale aggregator_state =
  fixes H :: "('b, 'i, 'r) aggregator_ops" and A :: "('i, 'acc, 'r) aggregator" and I :: "'b \<Rightarrow> bool"
    and acc :: "'b \<Rightarrow> 'acc" and frame :: "'b \<Rightarrow> 'f"
  assumes aget: "I b \<Longrightarrow> ao_get H b = accumulator_into_result A (acc b)"
    and aaggregate: "I b \<Longrightarrow> \<exists>b'. ao_aggregate H v b = (Ok (), b') \<and> I b' \<and>
      acc b' = agg_add A (acc b) v \<and> frame b' = frame b"
    and aclear: "I b \<Longrightarrow> \<exists>b'. ao_clear H b = (Ok (), b') \<and> I b' \<and> acc b' = create_accumulator A \<and> frame b' = frame b"
begin

fun aggregate_each :: "'i list \<Rightarrow> ('b, arcon_state_error, unit) action" where
  "aggregate_each [] = return_s ()"
| "aggregate_each (v # vs) = bind_s (ao_aggregate H v) (\<lambda>_. aggregate_each vs)"

lemma aggregate_each_fold:
  "I b \<Longrightarrow> \<exists>b'. aggregate_each vs b = (Ok (), b') \<and> I b' \<and> acc b' = foldl (agg_add A) (acc b) vs
    \<and> frame b' = frame b"
proof (induction vs arbitrary: b)
  case Nil
  then show ?case by simp
next
  case (Cons v vs)
  obtain b1 where b1: "ao_aggregate H v b = (Ok (), b1)" "I b1" "acc b1 = agg_add A (acc b) v"
      "frame b1 = frame b"
    using aaggregate [OF Cons.prems] by blast
  show ?case using Cons.IH [OF b1(2)] b1 by auto
qed

end

section \<open>Several states on one backend\<close>

text \<open>
  A contract holds with a stronger invariant and a coarser frame, when what is added depends
  only on the part of the backend that the operations leave alone. This is how the contracts of
  several handles on one backend are put together.
\<close>

lemma value_state_frame:
  assumes vs: "value_state H I val frame"
    and rest: "\<And>b b'. frame b' = frame b \<Longrightarrow> J b' = J b \<and> g b' = g b"
  shows "value_state H (\<lambda>b. I b \<and> J b) val g"
proof
  fix b v
  assume b: "I b \<and> J b"
  show "vo_get H b = Ok (val b)" using b value_state.vget [OF vs] by blast
  show "\<exists>b'. vo_set H v b = (Ok (val b), b') \<and> (I b' \<and> J b') \<and> val b' = Some v \<and> g b' = g b"
    using b value_state.vset [OF vs, of b v] rest by metis
  show "\<exists>b'. vo_fast_set H v b = (Ok (), b') \<and> (I b' \<and> J b') \<and> val b' = Some v \<and> g b' = g b"
    using b value_state.vfast_set [OF vs, of b v] rest by metis
  show "\<exists>b'. vo_clear H b = (Ok (), b') \<and> (I b' \<and> J b') \<and> val b' = None \<and> g b' = g b"
    using b value_state.vclear [OF vs, of b] rest by metis
qed

lemma map_state_frame:
  assumes ms: "map_state H I key_ok entries frame"
    and rest: "\<And>b b'. frame b' = frame b \<Longrightarrow> J b' = J b \<and> g b' = g b"
  shows "map_state H (\<lambda>b. I b \<and> J b) key_ok entries g"
proof
  fix b k v kvs
  assume b: "I b \<and> J b"
  show "\<exists>b'. mo_clear H b = (Ok (), b') \<and> (I b' \<and> J b') \<and> entries b' = Map.empty \<and> g b' = g b"
    using b map_state.mclear [OF ms, of b] rest by metis
  show "\<exists>b'. mo_insert H k v b = (Ok (entries b k), b') \<and> (I b' \<and> J b') \<and>
      entries b' = (entries b)(k \<mapsto> v) \<and> g b' = g b" if "key_ok k"
    using b map_state.minsert [OF ms, of b k v] rest that by metis
  show "\<exists>b'. mo_fast_insert H k v b = (Ok (), b') \<and> (I b' \<and> J b') \<and>
      entries b' = (entries b)(k \<mapsto> v) \<and> g b' = g b" if "key_ok k"
    using b map_state.mfast_insert [OF ms, of b k v] rest that by metis
  show "\<exists>b'. mo_insert_all H kvs b = (Ok (), b') \<and> (I b' \<and> J b') \<and>
      entries b' = entries b ++ map_of (rev kvs) \<and> g b' = g b" if "list_all (\<lambda>p. key_ok (fst p)) kvs"
    using b map_state.minsert_all [OF ms, of b kvs] rest that by metis
  show "\<exists>b'. mo_remove H k b = (Ok (entries b k), b') \<and> (I b' \<and> J b') \<and>
      entries b' = (entries b)(k := None) \<and> g b' = g b" if "key_ok k"
    using b map_state.mremove [OF ms, of b k] rest that by metis
  show "\<exists>b'. mo_fast_remove H k b = (Ok (), b') \<and> (I b' \<and> J b') \<and>
      entries b' = (entries b)(k := None) \<and> g b' = g b" if "key_ok k"
    using b map_state.mfast_remove [OF ms, of b k] rest that by metis
qed (use map_state.mget [OF ms] map_state.mcontains [OF ms] map_state.miter [OF ms] map_state.mkeys [OF ms]
    map_state.mvalues [OF ms] map_state.mlen [OF ms] map_state.mis_empty [OF ms] in blast)+

lemma vec_state_frame:
  assumes vs: "vec_state H I items frame"
    and rest: "\<And>b b'. frame b' = frame b \<Longrightarrow> J b' = J b \<and> g b' = g b"
  shows "vec_state H (\<lambda>b. I b \<and> J b) items g"
proof
  fix b v vsl
  assume b: "I b \<and> J b"
  show "\<exists>b'. ve_append H v b = (Ok (), b') \<and> (I b' \<and> J b') \<and> items b' = items b @ [v] \<and> g b' = g b"
    using b vec_state.eappend [OF vs, of b v] rest by metis
  show "\<exists>b'. ve_add_all H vsl b = (Ok (), b') \<and> (I b' \<and> J b') \<and> items b' = items b @ vsl \<and> g b' = g b"
    using b vec_state.eadd_all [OF vs, of b vsl] rest by metis
  show "\<exists>b'. ve_set H vsl b = (Ok (), b') \<and> (I b' \<and> J b') \<and> items b' = vsl \<and> g b' = g b"
    using b vec_state.eset [OF vs, of b vsl] rest by metis
  show "\<exists>b'. ve_clear H b = (Ok (), b') \<and> (I b' \<and> J b') \<and> items b' = [] \<and> g b' = g b"
    using b vec_state.eclear [OF vs, of b] rest by metis
qed (use vec_state.eget [OF vs] vec_state.eiter [OF vs] vec_state.elen [OF vs] vec_state.eis_empty [OF vs] in blast)+

end
