(* ===== verification/In_Memory_Laws.thy ===== *)
theory In_Memory_Laws
  imports In_Memory State_Contracts
begin

text \<open>
  The in-memory backend implements the contracts of \<open>State_Contracts\<close>. A table is
  well-typed when its keys are distinct, have the layout of the handle's kind, and every value
  is a box of the handle's value type. An operation changes nothing but the cells of its own
  handle: other tables stay as they are (\<open>other_tables\<close>), and so do the cells of the same
  table that belong to other metakeys (\<open>other_cells\<close>).
\<close>

section \<open>Tables\<close>

definition im_cell :: "string \<Rightarrow> bytes \<Rightarrow> 'd in_memory \<Rightarrow> 'd option" where
  "im_cell i k b = (case im_data b i of None \<Rightarrow> None | Some t \<Rightarrow> map_of t k)"

definition typed_table :: "(bytes \<Rightarrow> bool) \<Rightarrow> ('v, 'd) any_type \<Rightarrow> 'd table \<Rightarrow> bool" where
  "typed_table P V t \<longleftrightarrow>
     distinct (map fst t) \<and> (\<forall>k d. (k, d) \<in> set t \<longrightarrow> P k \<and> d \<in> range (any_box V))"

definition typed_state :: "(bytes \<Rightarrow> bool) \<Rightarrow> ('v, 'd) any_type \<Rightarrow> string \<Rightarrow> 'd in_memory \<Rightarrow> bool" where
  "typed_state P V i b \<longleftrightarrow> (\<exists>t. im_data b i = Some t \<and> typed_table P V t)"

definition other_tables :: "string \<Rightarrow> 'd in_memory \<Rightarrow> string \<rightharpoonup> 'd table" where
  "other_tables i b = (im_data b)(i := None)"

definition other_cells :: "string \<Rightarrow> (bytes \<Rightarrow> bool) \<Rightarrow> 'd in_memory \<Rightarrow> bytes \<rightharpoonup> 'd" where
  "other_cells i own b = (\<lambda>k. if own k then None else im_cell i k b)"

definition im_frame ::
    "string \<Rightarrow> (bytes \<Rightarrow> bool) \<Rightarrow> 'd in_memory \<Rightarrow> (string \<rightharpoonup> 'd table) \<times> (bytes \<rightharpoonup> 'd)" where
  "im_frame i own b = (other_tables i b, other_cells i own b)"

lemma typed_table_Nil [simp]: "typed_table P V []"
  by (simp add: typed_table_def)

lemma set_update_subset: "set (AList.update k d t) \<subseteq> insert (k, d) (set t)"
  by (induction t) auto

lemma typed_table_update [simp]:
  assumes "typed_table P V t" "P k"
  shows "typed_table P V (AList.update k (any_box V v) t)"
  using assms set_update_subset [of k "any_box V v" t]
  unfolding typed_table_def by (blast intro: AList.distinct_update)

lemma typed_table_delete [simp]: "typed_table P V t \<Longrightarrow> typed_table P V (AList.delete k t)"
  by (auto simp: typed_table_def distinct_filter_keys AList.delete_eq)

lemma typed_table_filter [simp]: "typed_table P V t \<Longrightarrow> typed_table P V (filter Q t)"
  by (auto simp: typed_table_def distinct_filter_keys)

lemma typed_table_lookup:
  "typed_table P V t \<Longrightarrow> map_of t k = Some d \<Longrightarrow> P k \<and> (\<exists>v. d = any_box V v)"
  by (auto simp: typed_table_def dest: map_of_SomeD)

lemma im_get_Some [simp]: "im_data b (h_id h) = Some t \<Longrightarrow> im_get h b = Ok t"
  by (simp add: im_get_def unwrap_or_panic_def)

lemma im_get_mut_Some [simp]:
  "im_data b (h_id h) = Some t \<Longrightarrow>
    im_get_mut h f b = (fst (f t), b\<lparr>im_data := (im_data b)(h_id h \<mapsto> snd (f t))\<rparr>)"
  by (simp add: im_get_mut_def split: prod.split)

text \<open>Storing a table back under the handle's id.\<close>

definition store :: "string \<Rightarrow> 'd table \<Rightarrow> 'd in_memory \<Rightarrow> 'd in_memory" where
  "store i t b = b\<lparr>im_data := (im_data b)(i \<mapsto> t)\<rparr>"

lemma store_simps [simp]:
  "im_data (store i t b) i = Some t"
  "other_tables i (store i t b) = other_tables i b"
  "im_cell i k (store i t b) = map_of t k"
  "j \<noteq> i \<Longrightarrow> im_data (store i t b) j = im_data b j"
  by (auto simp: store_def other_tables_def im_cell_def)

lemma typed_state_store [simp]: "typed_table P V t \<Longrightarrow> typed_state P V i (store i t b)"
  by (simp add: typed_state_def)

lemma im_frame_store:
  assumes "im_data b i = Some t" and "\<And>k. \<not> own k \<Longrightarrow> map_of t' k = map_of t k"
  shows "im_frame i own (store i t' b) = im_frame i own b"
  using assms by (auto simp: im_frame_def other_cells_def im_cell_def)

text \<open>What a handle leaves alone: other tables keep their type, content and frame.\<close>

lemma typed_state_other:
  "im_frame i own b' = im_frame i own b \<Longrightarrow> j \<noteq> i \<Longrightarrow> im_data b' j = im_data b j"
  by (auto simp: im_frame_def other_tables_def fun_eq_iff split: if_splits)

lemma im_register_typed:
  assumes "im_data b (h_id h) = None \<or> typed_state P V (h_id h) b"
  shows "typed_state P V (h_id h) (snd (im_register h b))"
  using assms by (auto simp: im_register_def typed_state_def split: option.splits)

lemma im_register_other:
  "j \<noteq> h_id h \<Longrightarrow> im_data (snd (im_register h b)) j = im_data b j"
  by (simp add: im_register_def split: option.splits)

section \<open>One cell per pair of metakeys\<close>

text \<open>Value, vector, reducer and aggregator handles store their content under the metakeys.\<close>

locale im_cells = metakeys IK eik vik N en vn
  for IK :: "'ik fixed_bytes" and eik vik and N :: "'n fixed_bytes" and en vn +
  fixes V :: "('v, 'd) any_type" and h :: "('ik, 'n, 'x) handle"
  assumes any_ok: "any_law V"
    and item_key_valid: "vik (h_item_key h)" and namespace_valid: "vn (h_namespace h)"
begin

abbreviation own_key :: bytes where
  "own_key \<equiv> mk (h_item_key h) (h_namespace h)"

definition cell_layout :: "bytes \<Rightarrow> bool" where
  "cell_layout k \<longleftrightarrow> (\<exists>i n. vik i \<and> vn n \<and> k = mk i n)"

definition cells_inv :: "'d in_memory \<Rightarrow> bool" where
  "cells_inv b \<longleftrightarrow> typed_state cell_layout V (h_id h) b"

definition content :: "'d in_memory \<Rightarrow> 'v option" where
  "content b = Option.bind (im_cell (h_id h) own_key b) (any_downcast V)"

definition cells_frame :: "'d in_memory \<Rightarrow> (string \<rightharpoonup> 'd table) \<times> (bytes \<rightharpoonup> 'd)" where
  "cells_frame b = im_frame (h_id h) (\<lambda>k. k = own_key) b"

lemma own_layout [simp]: "cell_layout own_key"
  using item_key_valid namespace_valid by (auto simp: cell_layout_def)

lemma metakeys_ok [simp]: "serialize_metakeys IK N h = Ok own_key"
  by (rule serialize_metakeys_eq [OF item_key_valid namespace_valid])

lemma downcast_ok [simp]: "downcast V (any_box V v) = Ok v" "any_downcast V (any_box V v) = Some v"
  using any_ok by simp_all

text \<open>The two shapes of a well-typed state: the cell is empty, or holds a box.\<close>

lemma cells_cases:
  assumes "cells_inv b"
  obtains (absent) t where "im_data b (h_id h) = Some t" "typed_table cell_layout V t"
      "map_of t own_key = None" "content b = None"
  | (present) t v where "im_data b (h_id h) = Some t" "typed_table cell_layout V t"
      "map_of t own_key = Some (any_box V v)" "content b = Some v"
proof -
  obtain t where t: "im_data b (h_id h) = Some t" "typed_table cell_layout V t"
    using assms by (auto simp: cells_inv_def typed_state_def)
  show thesis
  proof (cases "map_of t own_key")
    case None
    with t show thesis by (intro absent [of t]) (simp_all add: content_def im_cell_def)
  next
    case (Some d)
    then obtain v where "d = any_box V v" using typed_table_lookup [OF t(2)] by blast
    with Some t show thesis by (intro present [of t v]) (simp_all add: content_def im_cell_def)
  qed
qed

text \<open>Writing and removing the handle's cell.\<close>

lemma write_cell:
  assumes "im_data b (h_id h) = Some t" "typed_table cell_layout V t"
    and "b' = store (h_id h) (AList.update own_key (any_box V v) t) b"
  shows "cells_inv b' \<and> content b' = Some v \<and> cells_frame b' = cells_frame b"
  using assms
  by (auto simp: cells_frame_def cells_inv_def content_def AList.update_conv' intro: im_frame_store)

lemma erase_cell:
  assumes "im_data b (h_id h) = Some t" "typed_table cell_layout V t"
    and "b' = store (h_id h) (AList.delete own_key t) b"
  shows "cells_inv b' \<and> content b' = None \<and> cells_frame b' = cells_frame b"
  using assms
  by (auto simp: cells_frame_def cells_inv_def content_def AList.delete_conv' intro: im_frame_store)

lemma update_update: "AList.update k d (AList.update k d' t) = AList.update k d t"
  by (induction t) auto

end

lemmas im_op_simps = bind_s_def query_def return_s_def hm_insert_def hm_remove_def hm_entry_or_def
  hm_put_def store_def [symmetric]

section \<open>Value state\<close>

sublocale im_cells \<subseteq> as_value: value_state "im_value_ops IK N V h" cells_inv content cells_frame
proof unfold_locales
  fix b v
  assume b: "cells_inv b"
  show "vo_get (im_value_ops IK N V h) b = Ok (content b)"
    using b by (cases rule: cells_cases) (simp_all add: im_value_ops_def im_value_get_def)
  show "\<exists>b'. vo_set (im_value_ops IK N V h) v b = (Ok (content b), b') \<and> cells_inv b' \<and>
      content b' = Some v \<and> cells_frame b' = cells_frame b"
    using b by (cases rule: cells_cases)
      (use write_cell in \<open>simp_all add: im_value_ops_def im_value_set_def im_op_simps\<close>)
  show "\<exists>b'. vo_fast_set (im_value_ops IK N V h) v b = (Ok (), b') \<and> cells_inv b' \<and>
      content b' = Some v \<and> cells_frame b' = cells_frame b"
    using b by (cases rule: cells_cases)
      (use write_cell in \<open>simp_all add: im_value_ops_def im_value_fast_set_def im_op_simps\<close>)
  show "\<exists>b'. vo_clear (im_value_ops IK N V h) b = (Ok (), b') \<and> cells_inv b' \<and>
      content b' = None \<and> cells_frame b' = cells_frame b"
    using b by (cases rule: cells_cases)
      (use erase_cell in \<open>simp_all add: im_value_ops_def im_value_clear_def im_op_simps\<close>)
qed

section \<open>Vector state\<close>

locale im_vec = im_cells IK eik vik N en vn V h
  for IK :: "'ik fixed_bytes" and eik vik and N :: "'n fixed_bytes" and en vn
    and V :: "('v list, 'd) any_type" and h :: "('ik, 'n, 'x) handle"
begin

definition vec_items :: "'d in_memory \<Rightarrow> 'v list" where
  "vec_items b = (case content b of None \<Rightarrow> [] | Some vs \<Rightarrow> vs)"

end

sublocale im_vec \<subseteq> as_vec: vec_state "im_vec_ops IK N V h" cells_inv vec_items cells_frame
proof unfold_locales
  fix b v vs
  assume b: "cells_inv b"
  show "ve_get (im_vec_ops IK N V h) b = Ok (vec_items b)"
    using b by (cases rule: cells_cases)
      (simp_all add: im_vec_ops_def im_vec_get_def vec_items_def)
  show "ve_iter (im_vec_ops IK N V h) b = Ok (map Ok (vec_items b))"
    using b by (cases rule: cells_cases)
      (simp_all add: im_vec_ops_def im_vec_iter_def vec_items_def)
  show "ve_len (im_vec_ops IK N V h) b = Ok (length (vec_items b))"
    using b by (cases rule: cells_cases)
      (simp_all add: im_vec_ops_def im_vec_len_def vec_items_def)
  show "ve_is_empty (im_vec_ops IK N V h) b = Ok (vec_items b = [])"
    using b by (cases rule: cells_cases)
      (simp_all add: im_vec_ops_def im_vec_is_empty_def vec_items_def)
  show "\<exists>b'. ve_append (im_vec_ops IK N V h) v b = (Ok (), b') \<and> cells_inv b' \<and>
      vec_items b' = vec_items b @ [v] \<and> cells_frame b' = cells_frame b"
    using b by (cases rule: cells_cases)
      (use write_cell in \<open>simp_all add: im_vec_ops_def im_vec_append_def vec_items_def im_op_simps update_update\<close>)
  show "\<exists>b'. ve_add_all (im_vec_ops IK N V h) vs b = (Ok (), b') \<and> cells_inv b' \<and>
      vec_items b' = vec_items b @ vs \<and> cells_frame b' = cells_frame b"
    using b by (cases rule: cells_cases)
      (use write_cell in \<open>simp_all add: im_vec_ops_def im_vec_add_all_def vec_items_def im_op_simps update_update\<close>)
  show "\<exists>b'. ve_set (im_vec_ops IK N V h) vs b = (Ok (), b') \<and> cells_inv b' \<and>
      vec_items b' = vs \<and> cells_frame b' = cells_frame b"
    using b by (cases rule: cells_cases)
      (use write_cell in \<open>simp_all add: im_vec_ops_def im_vec_set_def vec_items_def im_op_simps update_update\<close>)
  show "\<exists>b'. ve_clear (im_vec_ops IK N V h) b = (Ok (), b') \<and> cells_inv b' \<and>
      vec_items b' = [] \<and> cells_frame b' = cells_frame b"
    using b by (cases rule: cells_cases)
      (use erase_cell in \<open>simp_all add: im_vec_ops_def im_vec_clear_def vec_items_def im_op_simps update_update\<close>)
qed

section \<open>Reducer and aggregator state\<close>

locale im_reducer = im_cells IK eik vik N en vn V h
  for IK :: "'ik fixed_bytes" and eik vik and N :: "'n fixed_bytes" and en vn
    and V :: "('v, 'd) any_type" and h :: "('ik, 'n, 'v \<Rightarrow> 'v \<Rightarrow> 'v) handle"

sublocale im_reducer \<subseteq> as_reducer: reducer_state "im_reducer_ops IK N V h" "h_extra_data h"
    cells_inv content cells_frame
proof unfold_locales
  fix b v
  assume b: "cells_inv b"
  show "ro_get (im_reducer_ops IK N V h) b = Ok (content b)"
    using b by (cases rule: cells_cases) (simp_all add: im_reducer_ops_def im_reducer_get_def)
  show "\<exists>b'. ro_reduce (im_reducer_ops IK N V h) v b = (Ok (), b') \<and> cells_inv b' \<and>
      content b' = Some (case content b of None \<Rightarrow> v | Some old \<Rightarrow> h_extra_data h old v) \<and> cells_frame b' = cells_frame b"
    using b by (cases rule: cells_cases)
      (use write_cell in \<open>simp_all add: im_reducer_ops_def im_reducer_reduce_def  im_op_simps update_update\<close>)
  show "\<exists>b'. ro_clear (im_reducer_ops IK N V h) b = (Ok (), b') \<and> cells_inv b' \<and>
      content b' = None \<and> cells_frame b' = cells_frame b"
    using b by (cases rule: cells_cases)
      (use erase_cell in \<open>simp_all add: im_reducer_ops_def im_reducer_clear_def  im_op_simps update_update\<close>)
qed

locale im_aggregator = im_cells IK eik vik N en vn A h
  for IK :: "'ik fixed_bytes" and eik vik and N :: "'n fixed_bytes" and en vn
    and A :: "('acc, 'd) any_type" and h :: "('ik, 'n, ('i, 'acc, 'r) aggregator) handle"
begin

definition accumulator :: "'d in_memory \<Rightarrow> 'acc" where
  "accumulator b =
     (case content b of None \<Rightarrow> create_accumulator (h_extra_data h) | Some a \<Rightarrow> a)"

end

sublocale im_aggregator \<subseteq> as_aggregator: aggregator_state "im_aggregator_ops IK N A h"
    "h_extra_data h" cells_inv accumulator cells_frame
proof unfold_locales
  fix b v
  assume b: "cells_inv b"
  show "ao_get (im_aggregator_ops IK N A h) b
      = accumulator_into_result (h_extra_data h) (accumulator b)"
    using b by (cases rule: cells_cases)
      (simp_all add: im_aggregator_ops_def im_aggregator_get_def accumulator_def)
  show "\<exists>b'. ao_aggregate (im_aggregator_ops IK N A h) v b = (Ok (), b') \<and> cells_inv b' \<and>
      accumulator b' = agg_add (h_extra_data h) (accumulator b) v \<and> cells_frame b' = cells_frame b"
    using b by (cases rule: cells_cases)
      (use write_cell in \<open>simp_all add: im_aggregator_ops_def im_aggregator_aggregate_def accumulator_def im_op_simps update_update\<close>)
  show "\<exists>b'. ao_clear (im_aggregator_ops IK N A h) b = (Ok (), b') \<and> cells_inv b' \<and>
      accumulator b' = create_accumulator (h_extra_data h) \<and> cells_frame b' = cells_frame b"
    using b by (cases rule: cells_cases)
      (use erase_cell in \<open>simp_all add: im_aggregator_ops_def im_aggregator_clear_def accumulator_def im_op_simps update_update\<close>)
qed

section \<open>Map state\<close>

text \<open>A map handle stores one cell per user key, under the metakeys followed by the encoded key.\<close>

lemma map_of_map_inj:
  "inj f \<Longrightarrow> map_of (map (\<lambda>(k, v). (f k, g v)) kvs) (f k) = map_option g (map_of kvs k)"
  by (induction kvs) (auto simp: inj_eq)

lemma walk_eq:
  "\<not> short_key p t \<Longrightarrow> walk p item t = map item (filter (\<lambda>(k, d). has_prefix p k) t)"
  by (induction t) (auto simp: walk_def short_key_def)

lemma none_with_prefix_eq:
  "\<not> short_key p t \<Longrightarrow> none_with_prefix p t = Ok (filter (\<lambda>(k, d). has_prefix p k) t = [])"
  by (induction p t rule: none_with_prefix.induct) (auto simp: short_key_def)

locale im_map = metakeys IK eik vik N en vn
  for IK :: "'ik fixed_bytes" and eik vik and N :: "'n fixed_bytes" and en vn +
  fixes K :: "'k message" and V :: "('v, 'd) any_type" and h :: "('ik, 'n, 'x) handle"
  assumes key_law: "message_law K" and map_any_ok: "any_law V"
    and map_item_key_valid: "vik (h_item_key h)" and map_namespace_valid: "vn (h_namespace h)"
begin

abbreviation own_prefix :: bytes where
  "own_prefix \<equiv> mk (h_item_key h) (h_namespace h)"

definition stored_key :: "'k \<Rightarrow> bytes" where
  "stored_key k = own_prefix @ msg_encode K k"

definition map_layout :: "bytes \<Rightarrow> bool" where
  "map_layout k \<longleftrightarrow> (\<exists>i n uk. vik i \<and> vn n \<and> k = mk i n @ msg_encode K uk)"

definition map_inv :: "'d in_memory \<Rightarrow> bool" where
  "map_inv b \<longleftrightarrow> typed_state map_layout V (h_id h) b"

definition map_entries :: "'d in_memory \<Rightarrow> 'k \<rightharpoonup> 'v" where
  "map_entries b = (\<lambda>k. Option.bind (im_cell (h_id h) (stored_key k) b) (any_downcast V))"

definition map_frame :: "'d in_memory \<Rightarrow> (string \<rightharpoonup> 'd table) \<times> (bytes \<rightharpoonup> 'd)" where
  "map_frame b = im_frame (h_id h) (has_prefix own_prefix) b"

lemma stored_key_inj: "inj stored_key"
  by (rule injI) (simp add: stored_key_def message_inj [OF key_law])

lemma stored_key_prefix [simp]: "has_prefix own_prefix (stored_key k)"
  by (simp add: stored_key_def)

lemma stored_key_layout [simp]: "map_layout (stored_key k)"
  using map_item_key_valid map_namespace_valid by (auto simp: map_layout_def stored_key_def)

lemma map_metakeys_ok [simp]: "serialize_metakeys IK N h = Ok own_prefix"
  by (rule serialize_metakeys_eq [OF map_item_key_valid map_namespace_valid])

lemma map_key_ok [simp]: "key_fits K k \<Longrightarrow> serialize_metakeys_and_key IK N K h k = Ok (stored_key k)"
  by (simp add: serialize_metakeys_and_key_eq map_item_key_valid map_namespace_valid stored_key_def)

lemma map_downcast_ok [simp]: "downcast V (any_box V v) = Ok v" "any_downcast V (any_box V v) = Some v"
  using map_any_ok by simp_all

lemma own_length: "length own_prefix = SIZE IK + SIZE N"
  by (rule mk_length [OF map_item_key_valid map_namespace_valid])

lemma no_short_key: "typed_table map_layout V t \<Longrightarrow> \<not> short_key own_prefix t"
  by (fastforce simp: short_key_def list_ex_iff typed_table_def map_layout_def own_length mk_length)

lemma layout_own_prefix:
  assumes "map_layout k" "has_prefix own_prefix k"
  shows "k \<in> range stored_key"
proof -
  obtain i n uk r where "vik i" "vn n" "k = mk i n @ msg_encode K uk" "k = own_prefix @ r"
    using assms by (auto simp: map_layout_def has_prefix_iff)
  with map_item_key_valid map_namespace_valid show ?thesis
    by (auto simp: stored_key_def dest: mk_prefix_free)
qed

lemma decode_stored_key [simp]: "decode_user_key IK N K (stored_key k) = Ok k"
  using map_item_key_valid map_namespace_valid key_law
  by (simp add: decode_user_key_def stored_key_def mk_def ik.from_enc n.from_enc
      protobuf_deserialize_from_def)

text \<open>The entries with the handle's prefix, in table order, are the encoded entries of the map.\<close>

lemma own_entries:
  assumes t: "im_data b (h_id h) = Some t" "typed_table map_layout V t"
  obtains kvs where
    "filter (\<lambda>(k, d). has_prefix own_prefix k) t = map (\<lambda>(k, v). (stored_key k, any_box V v)) kvs"
    "distinct (map fst kvs)" "map_of kvs = map_entries b"
proof -
  let ?f = "filter (\<lambda>(k, d). has_prefix own_prefix k) t"
  have "\<exists>kv. p = (\<lambda>(k, v). (stored_key k, any_box V v)) kv" if p: "p \<in> set ?f" for p
  proof -
    obtain k d where kd: "p = (k, d)" "(k, d) \<in> set t" "has_prefix own_prefix k" using p by auto
    then have "map_layout k" "d \<in> range (any_box V)" using t(2) by (auto simp: typed_table_def)
    with kd layout_own_prefix show ?thesis by fastforce
  qed
  then obtain kvs where kvs: "?f = map (\<lambda>(k, v). (stored_key k, any_box V v)) kvs"
    using ex_map_conv [of ?f "\<lambda>(k, v). (stored_key k, any_box V v)"] by blast
  have "distinct (map fst ?f)" using t(2) by (simp add: typed_table_def distinct_filter_keys)
  then have "distinct (map stored_key (map fst kvs))" unfolding kvs by (simp add: comp_def split_def)
  then have "distinct (map fst kvs)" by (simp only: distinct_map [of stored_key])
  moreover have "map_of kvs k = map_entries b k" for k
  proof -
    have "map_of t (stored_key k) = map_of ?f (stored_key k)" by (simp add: map_of_filter_key)
    also have "\<dots> = map_option (any_box V) (map_of kvs k)"
      unfolding kvs by (rule map_of_map_inj [OF stored_key_inj])
    finally show ?thesis using t(1)
      by (cases "map_of kvs k") (simp_all add: map_entries_def im_cell_def)
  qed
  ultimately show thesis using that kvs by blast
qed

lemma map_invE:
  assumes "map_inv b"
  obtains t where "im_data b (h_id h) = Some t" "typed_table map_layout V t"
  using assms by (auto simp: map_inv_def typed_state_def)

lemma map_lookup:
  assumes "im_data b (h_id h) = Some t" "typed_table map_layout V t"
  shows "map_of t (stored_key k) = map_option (any_box V) (map_entries b k)"
  using assms typed_table_lookup [OF assms(2), of "stored_key k"]
  by (cases "map_of t (stored_key k)") (auto simp: map_entries_def im_cell_def)

lemma write_entry:
  assumes "im_data b (h_id h) = Some t" "typed_table map_layout V t"
    and "b' = store (h_id h) (AList.update (stored_key k) (any_box V v) t) b"
  shows "map_inv b' \<and> map_entries b' = (map_entries b)(k \<mapsto> v) \<and> map_frame b' = map_frame b"
  using assms
  by (auto simp: map_frame_def map_inv_def map_entries_def fun_eq_iff AList.update_conv' im_cell_def
      inj_eq [OF stored_key_inj] intro!: im_frame_store)

lemma erase_entry:
  assumes "im_data b (h_id h) = Some t" "typed_table map_layout V t"
    and "b' = store (h_id h) (AList.delete (stored_key k) t) b"
  shows "map_inv b' \<and> map_entries b' = (map_entries b)(k := None) \<and> map_frame b' = map_frame b"
  using assms
  by (auto simp: map_frame_def map_inv_def map_entries_def fun_eq_iff AList.delete_conv' im_cell_def
      inj_eq [OF stored_key_inj] intro!: im_frame_store)

lemma erase_all:
  assumes "im_data b (h_id h) = Some t" "typed_table map_layout V t"
    and "b' = store (h_id h) (filter (\<lambda>(k, d). \<not> has_prefix own_prefix k) t) b"
  shows "map_inv b' \<and> map_entries b' = Map.empty \<and> map_frame b' = map_frame b"
  using assms
  by (auto simp: map_frame_def map_inv_def map_entries_def fun_eq_iff map_of_filter_key
      intro!: im_frame_store)

text \<open>The operations, one by one.\<close>

lemma map_get_ok: "map_inv b \<Longrightarrow> key_fits K k \<Longrightarrow> im_map_get IK N K V h k b = Ok (map_entries b k)"
  by (erule map_invE) (auto simp: im_map_get_def map_lookup split: option.splits)

lemma map_contains_ok:
  "map_inv b \<Longrightarrow> key_fits K k \<Longrightarrow> im_map_contains IK N K h k b = Ok (map_entries b k \<noteq> None)"
  by (erule map_invE) (auto simp: im_map_contains_def map_lookup)

lemma map_fast_insert_ok:
  assumes "map_inv b" "key_fits K k"
  shows "\<exists>b'. im_map_fast_insert IK N K V h k v b = (Ok (), b') \<and> map_inv b' \<and>
    map_entries b' = (map_entries b)(k \<mapsto> v) \<and> map_frame b' = map_frame b"
  using assms by (elim map_invE) (use write_entry in \<open>simp add: im_map_fast_insert_def im_op_simps\<close>)

lemma map_insert_ok:
  assumes "map_inv b" "key_fits K k"
  shows "\<exists>b'. im_map_insert IK N K V h k v b = (Ok (map_entries b k), b') \<and> map_inv b' \<and>
    map_entries b' = (map_entries b)(k \<mapsto> v) \<and> map_frame b' = map_frame b"
  using assms
  by (elim map_invE; cases "map_entries b k")
    (use write_entry in \<open>simp_all add: im_map_insert_def im_op_simps map_lookup\<close>)

lemma map_remove_ok:
  assumes "map_inv b" "key_fits K k"
  shows "\<exists>b'. im_map_remove IK N K V h k b = (Ok (map_entries b k), b') \<and> map_inv b' \<and>
    map_entries b' = (map_entries b)(k := None) \<and> map_frame b' = map_frame b"
  using assms
  by (elim map_invE; cases "map_entries b k")
    (use erase_entry in \<open>simp_all add: im_map_remove_def im_op_simps map_lookup\<close>)

lemma map_fast_remove_ok:
  assumes "map_inv b" "key_fits K k"
  shows "\<exists>b'. im_map_fast_remove IK N K h k b = (Ok (), b') \<and> map_inv b' \<and>
    map_entries b' = (map_entries b)(k := None) \<and> map_frame b' = map_frame b"
  using assms by (elim map_invE) (use erase_entry in \<open>simp add: im_map_fast_remove_def im_op_simps\<close>)

lemma map_clear_ok:
  assumes "map_inv b"
  shows "\<exists>b'. im_map_clear IK N h b = (Ok (), b') \<and> map_inv b' \<and>
    map_entries b' = Map.empty \<and> map_frame b' = map_frame b"
  using assms
  by (elim map_invE) (use erase_all in \<open>simp add: im_map_clear_def im_op_simps no_short_key\<close>)

lemma map_insert_all_ok:
  assumes "map_inv b" "list_all (\<lambda>p. key_fits K (fst p)) kvs"
  shows "\<exists>b'. im_map_insert_all IK N K V h kvs b = (Ok (), b') \<and> map_inv b' \<and>
    map_entries b' = map_entries b ++ map_of (rev kvs) \<and> map_frame b' = map_frame b"
  using assms
proof (induction kvs arbitrary: b)
  case Nil
  then show ?case by simp
next
  case (Cons kv kvs)
  obtain k v where kv: "kv = (k, v)" by (cases kv)
  then obtain b1 where b1: "im_map_fast_insert IK N K V h k v b = (Ok (), b1)" "map_inv b1"
      "map_entries b1 = (map_entries b)(k \<mapsto> v)" "map_frame b1 = map_frame b"
    using map_fast_insert_ok Cons.prems by force
  obtain b2 where b2: "im_map_insert_all IK N K V h kvs b1 = (Ok (), b2)" "map_inv b2"
      "map_entries b2 = map_entries b1 ++ map_of (rev kvs)" "map_frame b2 = map_frame b1"
    using Cons.IH [OF b1(2)] Cons.prems(2) by auto
  have "map_entries b2 = map_entries b ++ map_of (rev (kv # kvs))"
    unfolding b2(3) b1(3) by (simp add: kv map_add_def fun_eq_iff split: option.splits)
  then show ?case using b1 b2 kv by simp
qed

lemma map_walks:
  assumes "map_inv b"
  obtains kvs where "distinct (map fst kvs)" "map_of kvs = map_entries b"
    "im_map_iter IK N K V h b = Ok (map Ok kvs)"
    "im_map_keys IK N K h b = Ok (map Ok (map fst kvs))"
    "im_map_values IK N V h b = Ok (map Ok (map snd kvs))"
    "im_map_len IK N h b = Ok (length kvs)"
    "im_map_is_empty IK N h b = Ok (kvs = [])"
proof -
  obtain t where t: "im_data b (h_id h) = Some t" "typed_table map_layout V t"
    using assms by (rule map_invE)
  obtain kvs where kvs: "filter (\<lambda>(k, d). has_prefix own_prefix k) t
        = map (\<lambda>(k, v). (stored_key k, any_box V v)) kvs"
      "distinct (map fst kvs)" "map_of kvs = map_entries b"
    using t by (rule own_entries)
  note walks = t(1) no_short_key [OF t(2)] walk_eq [OF no_short_key [OF t(2)]] kvs(1)
    none_with_prefix_eq [OF no_short_key [OF t(2)]]
  show thesis
    by (rule that [OF kvs(2,3)])
      (simp_all add: im_map_iter_def im_map_keys_def im_map_values_def im_map_len_def
        im_map_is_empty_def walks comp_def split_beta)
qed

end

sublocale im_map \<subseteq> as_map: map_state "im_map_ops IK N K V h" map_inv "key_fits K"
    map_entries map_frame
proof unfold_locales
  fix b
  assume b: "map_inv b"
  obtain kvs where kvs: "distinct (map fst kvs)" "map_of kvs = map_entries b"
    "im_map_iter IK N K V h b = Ok (map Ok kvs)"
    "im_map_keys IK N K h b = Ok (map Ok (map fst kvs))"
    "im_map_values IK N V h b = Ok (map Ok (map snd kvs))"
    "im_map_len IK N h b = Ok (length kvs)"
    "im_map_is_empty IK N h b = Ok (kvs = [])"
    using b by (rule map_walks)
  have dom: "dom (map_entries b) = set (map fst kvs)" "ran (map_entries b) = set (map snd kvs)"
    using kvs(1) by (simp_all add: kvs(2) [symmetric] dom_map_of_conv_image_fst ran_distinct)
  have card: "card (dom (map_entries b)) = length kvs"
    unfolding dom(1) using distinct_card [OF kvs(1)] by simp
  show "\<exists>kvs. mo_iter (im_map_ops IK N K V h) b = Ok (map Ok kvs) \<and> distinct (map fst kvs) \<and>
      map_of kvs = map_entries b"
    using kvs by (auto simp: im_map_ops_def)
  show "\<exists>ks. mo_keys (im_map_ops IK N K V h) b = Ok (map Ok ks) \<and> distinct ks \<and>
      set ks = dom (map_entries b)"
    using kvs dom by (intro exI [of _ "map fst kvs"]) (simp add: im_map_ops_def)
  show "\<exists>vs. mo_values (im_map_ops IK N K V h) b = Ok (map Ok vs) \<and> length vs = card (dom (map_entries b)) \<and>
      set vs = ran (map_entries b)"
    using kvs dom card by (intro exI [of _ "map snd kvs"]) (simp add: im_map_ops_def)
  show "finite (dom (map_entries b)) \<and>
      mo_len (im_map_ops IK N K V h) b = Ok (card (dom (map_entries b)))"
    using kvs(6) card by (simp add: im_map_ops_def dom(1))
  show "mo_is_empty (im_map_ops IK N K V h) b = Ok (map_entries b = Map.empty)"
    using kvs(7) by (simp add: im_map_ops_def kvs(2) [symmetric])
qed (use map_get_ok map_contains_ok map_fast_insert_ok map_insert_ok map_insert_all_ok
    map_remove_ok map_fast_remove_ok map_clear_ok in \<open>simp_all add: im_map_ops_def\<close>)

section \<open>The repository's shapes of handles\<close>

text \<open>A universe with two stored types, and a fixed-width codec in the place of prost's.\<close>

datatype any_value = AnyU64 u64 | AnyU64s "u64 list"

definition u64_any :: "(u64, any_value) any_type" where
  "u64_any = \<lparr>any_box = AnyU64, any_downcast = (\<lambda>d. case d of AnyU64 x \<Rightarrow> Some x | _ \<Rightarrow> None)\<rparr>"

definition u64s_any :: "(u64 list, any_value) any_type" where
  "u64s_any = \<lparr>any_box = AnyU64s, any_downcast = (\<lambda>d. case d of AnyU64s x \<Rightarrow> Some x | _ \<Rightarrow> None)\<rparr>"

definition u64_message :: "u64 message" where
  "u64_message = \<lparr>msg_encode = to_le,
     msg_decode = (\<lambda>bs. if 8 \<le> length bs then Some (from_le (take 8 bs), drop 8 bs) else None)\<rparr>"

lemma any_laws [simp]: "any_law u64_any" "any_law u64s_any"
  by (simp_all add: any_law_def u64_any_def u64s_any_def)

lemma u64_message_law [simp]: "message_law u64_message"
  by (simp add: message_law_def u64_message_def from_le_to_le)

text \<open>The window operators keep one cell, or one vector, per key and window index.\<close>

interpretation keyed_value: im_cells "word_fb :: u64 fixed_bytes" to_le "\<lambda>_. True"
    "word_fb :: u64 fixed_bytes" to_le "\<lambda>_. True" u64_any
    "with_namespace (n :: u64) (with_item_key (k :: u64) (value_handle i))"
  for i k n
  by unfold_locales simp_all

interpretation keyed_vec: im_vec "word_fb :: u64 fixed_bytes" to_le "\<lambda>_. True"
    "word_fb :: u64 fixed_bytes" to_le "\<lambda>_. True" u64s_any
    "with_namespace (n :: u64) (with_item_key (k :: u64) (vec_handle i))"
  for i k n
  by unfold_locales simp_all

interpretation keyed_map: im_map "word_fb :: u64 fixed_bytes" to_le "\<lambda>_. True" unit_fb "\<lambda>_. []" "\<lambda>_. True"
    u64_message u64_any "with_item_key (k :: u64) (map_handle i)"
  for i k
  by unfold_locales simp_all

interpretation plain_reducer: im_reducer unit_fb "\<lambda>_. []" "\<lambda>_. True" unit_fb "\<lambda>_. []" "\<lambda>_. True"
    u64_any "reducer_handle i f"
  for i f
  by unfold_locales simp_all

interpretation plain_aggregator: im_aggregator unit_fb "\<lambda>_. []" "\<lambda>_. True" unit_fb "\<lambda>_. []" "\<lambda>_. True"
    u64s_any "aggregator_handle i a"
  for i and a :: "('i, u64 list, 'r) aggregator"
  by unfold_locales simp_all

section \<open>Properties\<close>

text \<open>The parts of a backend that belong to one handle: the layout of the keys of its table, its
  own key, and the cell or the entries under it.\<close>

definition metakey_layout :: "('ik \<Rightarrow> bytes) \<Rightarrow> ('ik \<Rightarrow> bool) \<Rightarrow> ('n \<Rightarrow> bytes) \<Rightarrow> ('n \<Rightarrow> bool) \<Rightarrow> bytes \<Rightarrow> bool" where
  "metakey_layout eik vik en vn k \<longleftrightarrow> (\<exists>i n. vik i \<and> vn n \<and> k = eik i @ en n)"

definition mapkey_layout ::
    "('ik \<Rightarrow> bytes) \<Rightarrow> ('ik \<Rightarrow> bool) \<Rightarrow> ('n \<Rightarrow> bytes) \<Rightarrow> ('n \<Rightarrow> bool) \<Rightarrow> 'k message \<Rightarrow> bytes \<Rightarrow> bool" where
  "mapkey_layout eik vik en vn K k \<longleftrightarrow> (\<exists>i n u. vik i \<and> vn n \<and> k = (eik i @ en n) @ msg_encode K u)"

definition handle_key :: "('ik \<Rightarrow> bytes) \<Rightarrow> ('n \<Rightarrow> bytes) \<Rightarrow> ('ik, 'n, 'x) handle \<Rightarrow> bytes" where
  "handle_key eik en h = eik (h_item_key h) @ en (h_namespace h)"

definition cell_content :: "('v, 'd) any_type \<Rightarrow> string \<Rightarrow> bytes \<Rightarrow> 'd in_memory \<Rightarrow> 'v option" where
  "cell_content V i k b = Option.bind (im_cell i k b) (any_downcast V)"

definition map_content :: "'k message \<Rightarrow> ('v, 'd) any_type \<Rightarrow> string \<Rightarrow> bytes \<Rightarrow> 'd in_memory \<Rightarrow> 'k \<rightharpoonup> 'v" where
  "map_content K V i k b = (\<lambda>u. cell_content V i (k @ msg_encode K u) b)"

context im_cells
begin

lemma own_parts:
  "cells_inv = typed_state (metakey_layout eik vik en vn) V (h_id h)"
  "content = cell_content V (h_id h) (handle_key eik en h)"
  "cells_frame = im_frame (h_id h) (\<lambda>k. k = handle_key eik en h)"
  by (simp_all add: fun_eq_iff cells_inv_def content_def cells_frame_def cell_content_def
      handle_key_def mk_def metakey_layout_def [abs_def] cell_layout_def [abs_def])

lemma refines_value: "value_state (im_value_ops IK N V h) cells_inv content cells_frame"
  by unfold_locales

end

context im_map
begin

lemma own_map_parts:
  "map_inv = typed_state (mapkey_layout eik vik en vn K) V (h_id h)"
  "map_entries = map_content K V (h_id h) (handle_key eik en h)"
  "map_frame = im_frame (h_id h) (has_prefix (handle_key eik en h))"
  by (simp_all add: fun_eq_iff map_inv_def map_entries_def map_frame_def map_content_def cell_content_def
      stored_key_def handle_key_def mk_def mapkey_layout_def [abs_def] map_layout_def [abs_def])

lemma refines_map: "map_state (im_map_ops IK N K V h) map_inv (key_fits K) map_entries map_frame"
  by unfold_locales

end

context im_map
begin

lemma own_key_fits: "key_fits K = (\<lambda>k. metakey_size IK N + length (msg_encode K k) \<le> usize_max)"
  by (simp add: fun_eq_iff key_fits_def metakey_size_def)

end

context im_vec
begin

lemma own_items: "vec_items = (\<lambda>b. case content b of None \<Rightarrow> [] | Some vs \<Rightarrow> vs)"
  by (simp add: fun_eq_iff vec_items_def)

lemma refines_vec: "vec_state (im_vec_ops IK N V h) cells_inv vec_items cells_frame"
  by unfold_locales

end

context im_reducer
begin

lemma refines_reducer:
  "reducer_state (im_reducer_ops IK N V h) (h_extra_data h) cells_inv content cells_frame"
  by unfold_locales

end

context im_aggregator
begin

lemma own_accumulator:
  "accumulator = (\<lambda>b. case content b of None \<Rightarrow> create_accumulator (h_extra_data h) | Some a \<Rightarrow> a)"
  by (simp add: fun_eq_iff accumulator_def)

lemma refines_aggregator:
  "aggregator_state (im_aggregator_ops IK N A h) (h_extra_data h) cells_inv accumulator cells_frame"
  by unfold_locales

end

text \<open>The three kinds of state that keep one cell.\<close>

lemma value_cell_refines:
  assumes "metakeys IK eik vik N en vn" and "any_law V"
    and "vik (h_item_key h)" and "vn (h_namespace h)"
  shows "value_state (im_value_ops IK N V h) (typed_state (metakey_layout eik vik en vn) V (h_id h))
    (cell_content V (h_id h) (handle_key eik en h)) (im_frame (h_id h) (\<lambda>k. k = handle_key eik en h))"
proof -
  have "im_cells IK eik vik N en vn V h"
    using assms by (simp add: im_cells_def im_cells_axioms_def)
  then show ?thesis
    using im_cells.refines_value im_cells.own_parts by fastforce
qed

text \<open>C29: A map state of the in-memory backend is a finite map from user keys to values: lookups,
  insertions, removals, iteration, length and emptiness agree with the entries stored under the
  handle's metakeys, for every user key whose stored form is addressable; the entries of other
  metakeys and other tables are unchanged.\<close>

theorem in_memory_map_refines:
  assumes "metakeys IK eik vik N en vn" and "message_law K" and "any_law V"
    and "vik (h_item_key h)" and "vn (h_namespace h)"
  shows "map_state (im_map_ops IK N K V h) (typed_state (mapkey_layout eik vik en vn K) V (h_id h))
    (\<lambda>k. metakey_size IK N + length (msg_encode K k) \<le> usize_max)
    (map_content K V (h_id h) (handle_key eik en h))
    (im_frame (h_id h) (has_prefix (handle_key eik en h)))"
proof -
  have m: "im_map IK eik vik N en vn K V h"
    using assms by (simp add: im_map_def im_map_axioms_def)
  show ?thesis
    using im_map.refines_map [OF m]
    unfolding im_map.own_map_parts [OF m] im_map.own_key_fits [OF m] .
qed

theorem in_memory_map_refines_witness:
  "map_state (im_map_ops word_fb unit_fb u64_message u64_any (with_item_key (3 :: u64) (map_handle ''m'')))
    (typed_state (mapkey_layout (to_le :: u64 \<Rightarrow> bytes) (\<lambda>_. True) (\<lambda>_ :: unit. []) (\<lambda>_. True) u64_message) u64_any ''m'')
    (\<lambda>k. metakey_size (word_fb :: u64 fixed_bytes) unit_fb + length (msg_encode u64_message k) \<le> usize_max)
    (map_content u64_message u64_any ''m'' (to_le (3 :: u64)))
    (im_frame ''m'' (has_prefix (to_le (3 :: u64))))"
  using in_memory_map_refines [OF mk1.metakeys_axioms u64_message_law any_laws(1),
      of "with_item_key (3 :: u64) (map_handle ''m'')"]
  by (simp add: handle_key_def with_item_key_def map_handle_def no_extra_def)

lemma vec_cell_refines:
  assumes "metakeys IK eik vik N en vn" and "any_law V"
    and "vik (h_item_key h)" and "vn (h_namespace h)"
  shows "vec_state (im_vec_ops IK N V h) (typed_state (metakey_layout eik vik en vn) V (h_id h))
    (\<lambda>b. case cell_content V (h_id h) (handle_key eik en h) b of None \<Rightarrow> [] | Some vs \<Rightarrow> vs)
    (im_frame (h_id h) (\<lambda>k. k = handle_key eik en h))"
proof -
  have c: "im_cells IK eik vik N en vn V h"
    using assms by (simp add: im_cells_def im_cells_axioms_def)
  then have v: "im_vec IK eik vik N en vn V h" by (simp add: im_vec_def)
  show ?thesis
    using im_vec.refines_vec [OF v]
    by (simp add: im_vec.own_items [OF v] im_cells.own_parts [OF c])
qed

lemma reducer_cell_refines:
  assumes "metakeys IK eik vik N en vn" and "any_law V"
    and "vik (h_item_key h)" and "vn (h_namespace h)"
  shows "reducer_state (im_reducer_ops IK N V h) (h_extra_data h)
    (typed_state (metakey_layout eik vik en vn) V (h_id h))
    (cell_content V (h_id h) (handle_key eik en h)) (im_frame (h_id h) (\<lambda>k. k = handle_key eik en h))"
proof -
  have c: "im_cells IK eik vik N en vn V h"
    using assms by (simp add: im_cells_def im_cells_axioms_def)
  then have r: "im_reducer IK eik vik N en vn V h" by (simp add: im_reducer_def)
  show ?thesis using im_reducer.refines_reducer [OF r] by (simp add: im_cells.own_parts [OF c])
qed

lemma aggregator_cell_refines:
  assumes "metakeys IK eik vik N en vn" and "any_law A"
    and "vik (h_item_key h)" and "vn (h_namespace h)"
  shows "aggregator_state (im_aggregator_ops IK N A h) (h_extra_data h)
    (typed_state (metakey_layout eik vik en vn) A (h_id h))
    (\<lambda>b. case cell_content A (h_id h) (handle_key eik en h) b of
          None \<Rightarrow> create_accumulator (h_extra_data h) | Some a \<Rightarrow> a)
    (im_frame (h_id h) (\<lambda>k. k = handle_key eik en h))"
proof -
  have c: "im_cells IK eik vik N en vn A h"
    using assms by (simp add: im_cells_def im_cells_axioms_def)
  then have a: "im_aggregator IK eik vik N en vn A h" by (simp add: im_aggregator_def)
  show ?thesis
    using im_aggregator.refines_aggregator [OF a]
    by (simp add: im_aggregator.own_accumulator [OF a] im_cells.own_parts [OF c])
qed

text \<open>C30: The one-cell states of the in-memory backend meet their contracts on a backend whose tables are
  well-typed: a value state is an optional cell, a vector state a list (empty when there is no entry
  under the metakeys of its handle), a reducer state holds the reduction of the values
  given to it (with the handle's function on the old and the new value in this order), and an
  aggregator state holds the accumulator of the values given to it, starting from a fresh one. Every
  operation keeps the tables well-typed and changes neither another table nor another cell.\<close>

theorem in_memory_states_refine:
  assumes "metakeys IK eik vik N en vn" and "any_law V" and "any_law A"
    and "vik (h_item_key h)" and "vn (h_namespace h)" and "vik (h_item_key r)" and "vn (h_namespace r)"
    and "vik (h_item_key a)" and "vn (h_namespace a)" and "any_law L" and "vik (h_item_key s)" and "vn (h_namespace s)"
  shows "value_state (im_value_ops IK N V h) (typed_state (metakey_layout eik vik en vn) V (h_id h))
      (cell_content V (h_id h) (handle_key eik en h)) (im_frame (h_id h) (\<lambda>k. k = handle_key eik en h)) \<and>
    reducer_state (im_reducer_ops IK N V r) (h_extra_data r) (typed_state (metakey_layout eik vik en vn) V (h_id r))
      (cell_content V (h_id r) (handle_key eik en r)) (im_frame (h_id r) (\<lambda>k. k = handle_key eik en r)) \<and>
    aggregator_state (im_aggregator_ops IK N A a) (h_extra_data a) (typed_state (metakey_layout eik vik en vn) A (h_id a))
      (\<lambda>b. case cell_content A (h_id a) (handle_key eik en a) b of
            None \<Rightarrow> create_accumulator (h_extra_data a) | Some x \<Rightarrow> x)
      (im_frame (h_id a) (\<lambda>k. k = handle_key eik en a)) \<and>
    vec_state (im_vec_ops IK N L s) (typed_state (metakey_layout eik vik en vn) L (h_id s))
      (\<lambda>b. case cell_content L (h_id s) (handle_key eik en s) b of None \<Rightarrow> [] | Some vs \<Rightarrow> vs)
      (im_frame (h_id s) (\<lambda>k. k = handle_key eik en s))"
  using value_cell_refines [OF assms(1,2,4,5)] reducer_cell_refines [OF assms(1,2,6,7)]
    aggregator_cell_refines [OF assms(1,3,8,9)] vec_cell_refines [OF assms(1,10-12)] by blast

definition log_agg :: "(u64, u64 list, nat) aggregator" where
  "log_agg = \<lparr>create_accumulator = [], agg_add = (\<lambda>acc x. acc @ [x]),
     merge_accumulators = (\<lambda>a b. Ok (a @ b)), accumulator_into_result = (\<lambda>a. Ok (length a))\<rparr>"

definition word_sum :: "u64 \<Rightarrow> u64 \<Rightarrow> u64" where
  "word_sum a b = a + b"

theorem in_memory_states_refine_witness:
  "value_state (im_value_ops unit_fb unit_fb u64_any (value_handle ''epoch''))
     (typed_state (metakey_layout (\<lambda>_ :: unit. []) (\<lambda>_. True) (\<lambda>_ :: unit. []) (\<lambda>_. True)) u64_any ''epoch'')
     (cell_content u64_any ''epoch'' []) (im_frame ''epoch'' (\<lambda>k. k = [])) \<and>
   reducer_state (im_reducer_ops unit_fb unit_fb u64_any (reducer_handle ''sum'' word_sum)) word_sum
     (typed_state (metakey_layout (\<lambda>_ :: unit. []) (\<lambda>_. True) (\<lambda>_ :: unit. []) (\<lambda>_. True)) u64_any ''sum'')
     (cell_content u64_any ''sum'' []) (im_frame ''sum'' (\<lambda>k. k = [])) \<and>
   aggregator_state (im_aggregator_ops unit_fb unit_fb u64s_any (aggregator_handle ''agg'' log_agg)) log_agg
     (typed_state (metakey_layout (\<lambda>_ :: unit. []) (\<lambda>_. True) (\<lambda>_ :: unit. []) (\<lambda>_. True)) u64s_any ''agg'')
     (\<lambda>b. case cell_content u64s_any ''agg'' [] b of None \<Rightarrow> create_accumulator log_agg | Some x \<Rightarrow> x)
     (im_frame ''agg'' (\<lambda>k. k = [])) \<and>
   vec_state (im_vec_ops unit_fb unit_fb u64s_any (vec_handle ''buffer''))
     (typed_state (metakey_layout (\<lambda>_ :: unit. []) (\<lambda>_. True) (\<lambda>_ :: unit. []) (\<lambda>_. True)) u64s_any ''buffer'')
     (\<lambda>b. case cell_content u64s_any ''buffer'' [] b of None \<Rightarrow> [] | Some vs \<Rightarrow> vs)
     (im_frame ''buffer'' (\<lambda>k. k = []))"
  using in_memory_states_refine [OF mk0.metakeys_axioms any_laws(1) any_laws(2) _ _ _ _ _ _ any_laws(2),
      of "value_handle ''epoch''" "reducer_handle ''sum'' word_sum" "aggregator_handle ''agg'' log_agg" "vec_handle ''buffer''"]
  by (simp add: handle_key_def value_handle_def no_extra_def reducer_handle_def aggregator_handle_def vec_handle_def
      cong: option.case_cong)

end
