(* ===== verification/Checkpoints.thy ===== *)
theory Checkpoints
  imports Arcon_Prelude
begin

text \<open>
  Model of \<^verbatim>\<open>Backend::restore_or_create\<close>, \<^verbatim>\<open>Config\<close> and \<^verbatim>\<open>BackendType\<close> of
  \<^verbatim>\<open>arcon_state/src/lib.rs\<close>: how a backend decides, from the names of the checkpoint
  directories of all backends, which epoch it restores.

  The file system is a record of the \<^verbatim>\<open>std::fs\<close> calls the function makes, over a world
  \<open>'w\<close>; a backend's own \<^verbatim>\<open>create\<close> and \<^verbatim>\<open>restore\<close> are the record \<open>backend_ctor\<close>.
\<close>

section \<open>Strings\<close>

text \<open>\<^verbatim>\<open>str::split\<close> on a character: always at least one part.\<close>

fun split_on :: "char \<Rightarrow> string \<Rightarrow> string list" where
  "split_on c [] = [[]]"
| "split_on c (x # xs) =
     (if x = c then [] # split_on c xs
      else (case split_on c xs of [] \<Rightarrow> [[x]] | p # ps \<Rightarrow> (x # p) # ps))"

text \<open>Decimal digits, \<^verbatim>\<open>Display\<close> of an unsigned integer and \<^verbatim>\<open>str::parse::<u64>\<close> with
  its checked multiplication and addition. A single leading plus sign is accepted.\<close>

definition digit_char :: "nat \<Rightarrow> char" where
  "digit_char d = char_of (48 + d)"

definition to_digit :: "char \<Rightarrow> nat option" where
  "to_digit c =
     (let n = (of_char c :: nat) in if 48 \<le> n \<and> n \<le> 57 then Some (n - 48) else None)"

fun show_nat :: "nat \<Rightarrow> string" where
  "show_nat n = (if n < 10 then [digit_char n] else show_nat (n div 10) @ [digit_char (n mod 10)])"

declare show_nat.simps [simp del]

fun parse_digits :: "nat \<Rightarrow> string \<Rightarrow> nat option" where
  "parse_digits acc [] = Some acc"
| "parse_digits acc (c # cs) =
     (case to_digit c of
        None \<Rightarrow> None
      | Some d \<Rightarrow>
          if acc * 10 \<ge> 2 ^ 64 then None
          else if acc * 10 + d \<ge> 2 ^ 64 then None
          else parse_digits (acc * 10 + d) cs)"

definition parse_u64 :: "string \<Rightarrow> u64 option" where
  "parse_u64 s =
     (case s of
        [] \<Rightarrow> None
      | c # cs \<Rightarrow>
          if c = CHR ''+''
          then if cs = [] then None else map_option word_of_nat (parse_digits 0 cs)
          else map_option word_of_nat (parse_digits 0 s))"

text \<open>\<^verbatim>\<open>PathBuf::push\<close>: an absolute argument replaces the path.\<close>

definition push_path :: "string \<Rightarrow> string \<Rightarrow> string" where
  "push_path p s =
     (if has_prefix ''/'' s then s
      else if p = [] \<or> last p = CHR ''/'' then p @ s
      else p @ ''/'' @ s)"

section \<open>Configuration and file system\<close>

record backend_config =
  live_state_base_path :: string
  checkpoints_base_path :: string
  backend_ids :: "string list"

text \<open>A directory entry: its path, its name when it is UTF-8, and whether its metadata can be
  read and says it is a directory.\<close>

record dir_entry =
  de_path :: string
  de_file_name :: "string option"
  de_is_dir :: bool

record 'w file_system =
  fs_exists :: "'w \<Rightarrow> string \<Rightarrow> bool"
  fs_remove_dir_all :: "string \<Rightarrow> ('w, arcon_state_error, unit) action"
  fs_read_dir :: "string \<Rightarrow> 'w \<Rightarrow> dir_entry state_result list state_result"

record ('w, 'b) backend_ctor =
  bc_create :: "string \<Rightarrow> ('w, arcon_state_error, 'b) action"
  bc_restore :: "string \<Rightarrow> string \<Rightarrow> ('w, arcon_state_error, 'b) action"

definition CHECKPOINT_PREFIX :: string where
  "CHECKPOINT_PREFIX = ''checkpoint_''"

definition checkpoint_dir :: "string \<Rightarrow> u64 \<Rightarrow> string" where
  "checkpoint_dir i epoch = CHECKPOINT_PREFIX @ i @ ''_'' @ show_nat (unat epoch)"

section \<open>Restoring\<close>

text \<open>The body of the loop up to the lookup: the node id and the epoch of one directory.\<close>

definition parse_entry :: "dir_entry \<Rightarrow> (string \<times> u64) state_result" where
  "parse_entry d =
     (let invalid_path = InvalidPath (de_path d) in
      bind_o (ok_or invalid_path (de_file_name d)) (\<lambda>dir_name.
      if has_prefix CHECKPOINT_PREFIX dir_name \<and> de_is_dir d
      then
        (let dir_name_parts = split_on (CHR ''_'') (drop (length CHECKPOINT_PREFIX) dir_name) in
         case dir_name_parts of
           [] \<Rightarrow> Err invalid_path
         | [_] \<Rightarrow> Err invalid_path
         | i # e # rest \<Rightarrow>
             bind_o (ok_or invalid_path (parse_u64 e)) (\<lambda>epoch.
             if rest = [] then Ok (i, epoch) else Err invalid_path))
      else Err invalid_path))"

text \<open>
  The map from backend id to the set of its epochs, an association list in the hash map's
  order. The loop inserts the epoch of every directory, and stops at the first error.
\<close>

type_synonym checkpoint_sets = "(string \<times> u64 set) list"

definition empty_sets :: "string list \<Rightarrow> checkpoint_sets" where
  "empty_sets ids = map (\<lambda>i. (i, {})) (remdups ids)"

definition insert_epoch :: "string list \<Rightarrow> string \<times> u64 \<Rightarrow> checkpoint_sets \<Rightarrow> checkpoint_sets state_result" where
  "insert_epoch known p cs =
     (case map_of cs (fst p) of
        None \<Rightarrow> Err (UnknownNode (fst p) known)
      | Some es \<Rightarrow> Ok (AList.update (fst p) (insert (snd p) es) cs))"

fun scan_checkpoints ::
    "string list \<Rightarrow> checkpoint_sets \<Rightarrow> dir_entry state_result list \<Rightarrow> checkpoint_sets state_result" where
  "scan_checkpoints known cs [] = Ok cs"
| "scan_checkpoints known cs (directory # ds) =
     bind_o directory (\<lambda>d.
     bind_o (parse_entry d) (\<lambda>p.
     bind_o (insert_epoch known p cs) (\<lambda>cs'. scan_checkpoints known cs' ds)))"

text \<open>The intersection of the sets, started from the first, and its greatest element.\<close>

definition complete_checkpoints :: "checkpoint_sets \<Rightarrow> u64 set option" where
  "complete_checkpoints cs =
     (case cs of
        [] \<Rightarrow> None
      | (_, s) # others \<Rightarrow> Some (foldl (\<lambda>complete p. complete \<inter> snd p) s others))"

definition last_complete_checkpoint :: "checkpoint_sets \<Rightarrow> u64 option" where
  "last_complete_checkpoint cs =
     (case complete_checkpoints cs of
        None \<Rightarrow> None
      | Some ce \<Rightarrow> if ce = {} then None else Some (Max ce))"

definition restore_or_create ::
    "'w file_system \<Rightarrow> ('w, 'b) backend_ctor \<Rightarrow> backend_config \<Rightarrow> string
      \<Rightarrow> ('w, arcon_state_error, 'b) action" where
  "restore_or_create F B config i =
     (let state_path = push_path (live_state_base_path config) i in
      bind_s (\<lambda>w. if fs_exists F w state_path then fs_remove_dir_all F state_path w else (Ok (), w)) (\<lambda>_.
      bind_s (query (fs_read_dir F (checkpoints_base_path config))) (\<lambda>directories.
      bind_s (query (\<lambda>_. scan_checkpoints (backend_ids config)
                            (empty_sets (backend_ids config)) directories)) (\<lambda>checkpoints.
      case last_complete_checkpoint checkpoints of
        Some epoch \<Rightarrow>
          bc_restore B state_path
            (push_path (checkpoints_base_path config) (checkpoint_dir i epoch))
      | None \<Rightarrow> bc_create B state_path))))"

section \<open>Backend types\<close>

text \<open>All features enabled.\<close>

datatype backend_type =
    BT_InMemory
  | BT_MeteredInMemory
  | BT_Rocks
  | BT_MeteredRocks
  | BT_Sled
  | BT_MeteredSled
  | BT_Faster
  | BT_MeteredFaster

definition VARIANTS :: "backend_type list" where
  "VARIANTS = [BT_InMemory, BT_MeteredInMemory, BT_Rocks, BT_MeteredRocks, BT_Sled,
     BT_MeteredSled, BT_Faster, BT_MeteredFaster]"

definition STR_VARIANTS :: "string list" where
  "STR_VARIANTS = [''InMemory'', ''MeteredInMemory'', ''Rocks'', ''MeteredRocks'', ''Sled'',
     ''MeteredSled'', ''Faster'', ''MeteredFaster'']"

text \<open>The derived \<^verbatim>\<open>Debug\<close>, which \<^verbatim>\<open>Display\<close> prints.\<close>

fun backend_type_display :: "backend_type \<Rightarrow> string" where
  "backend_type_display BT_InMemory = ''InMemory''"
| "backend_type_display BT_MeteredInMemory = ''MeteredInMemory''"
| "backend_type_display BT_Rocks = ''Rocks''"
| "backend_type_display BT_MeteredRocks = ''MeteredRocks''"
| "backend_type_display BT_Sled = ''Sled''"
| "backend_type_display BT_MeteredSled = ''MeteredSled''"
| "backend_type_display BT_Faster = ''Faster''"
| "backend_type_display BT_MeteredFaster = ''MeteredFaster''"

definition ascii_lower :: "char \<Rightarrow> char" where
  "ascii_lower c =
     (let n = (of_char c :: nat) in if 65 \<le> n \<and> n \<le> 90 then char_of (n + 32) else c)"

definition eq_ignore_ascii_case :: "string \<Rightarrow> string \<Rightarrow> bool" where
  "eq_ignore_ascii_case s t \<longleftrightarrow> map ascii_lower s = map ascii_lower t"

fun join :: "string \<Rightarrow> string list \<Rightarrow> string" where
  "join sep [] = []"
| "join sep [s] = s"
| "join sep (s # t # ss) = s @ sep @ join sep (t # ss)"

definition backend_type_from_str :: "string \<Rightarrow> (string, backend_type) outcome" where
  "backend_type_from_str x =
     (if eq_ignore_ascii_case x ''InMemory'' then Ok BT_InMemory
      else if eq_ignore_ascii_case x ''MeteredInMemory'' then Ok BT_MeteredInMemory
      else if eq_ignore_ascii_case x ''Rocks'' then Ok BT_Rocks
      else if eq_ignore_ascii_case x ''MeteredRocks'' then Ok BT_MeteredRocks
      else if eq_ignore_ascii_case x ''Sled'' then Ok BT_Sled
      else if eq_ignore_ascii_case x ''MeteredSled'' then Ok BT_MeteredSled
      else if eq_ignore_ascii_case x ''Faster'' then Ok BT_Faster
      else if eq_ignore_ascii_case x ''MeteredFaster'' then Ok BT_MeteredFaster
      else Err (''valid values: '' @ join '', '' (map backend_type_display VARIANTS)))"

section \<open>Names of checkpoint directories\<close>

lemma split_on_absent [simp]: "c \<notin> set s \<Longrightarrow> split_on c s = [s]"
  by (induction s) auto

lemma split_on_append [simp]: "c \<notin> set s \<Longrightarrow> split_on c (s @ c # r) = s # split_on c r"
  by (induction s) auto

lemma to_digit_char [simp]: "d < 10 \<Longrightarrow> to_digit (digit_char d) = Some d"
  by (simp add: to_digit_def digit_char_def)

lemma digit_char_inj_char: "d < 10 \<Longrightarrow> to_digit c = None \<Longrightarrow> digit_char d \<noteq> c"
  by auto

lemma show_nat_chars: "c \<in> set (show_nat n) \<Longrightarrow> \<exists>d < 10. c = digit_char d"
proof (induction n rule: show_nat.induct)
  case (1 n)
  have "c \<in> set (if n < 10 then [digit_char n] else show_nat (n div 10) @ [digit_char (n mod 10)])"
    using 1(2) by (subst (asm) show_nat.simps)
  then show ?case using 1(1) mod_less_divisor [of 10 n]
    by (cases "n < 10") (auto simp del: mod_less_divisor)
qed

lemma show_nat_not_Nil [simp]: "show_nat n \<noteq> []"
  by (subst show_nat.simps) simp

lemma parse_digits_append:
  "parse_digits a (xs @ ys) = Option.bind (parse_digits a xs) (\<lambda>b. parse_digits b ys)"
  by (induction xs arbitrary: a) (auto split: option.splits)

lemma parse_show_nat: "n < 2 ^ 64 \<Longrightarrow> parse_digits 0 (show_nat n) = Some n"
proof (induction n rule: show_nat.induct)
  case (1 n)
  show ?case
  proof (cases "n < 10")
    case True
    then show ?thesis by (subst show_nat.simps) simp
  next
    case False
    with 1 have "parse_digits 0 (show_nat (n div 10)) = Some (n div 10)" by simp
    moreover have "n div 10 * 10 + n mod 10 = n" by simp
    ultimately show ?thesis using False 1(2)
      by (subst show_nat.simps) (simp add: parse_digits_append)
  qed
qed

lemma no_digit: "to_digit c = None \<Longrightarrow> c \<notin> set (show_nat n)"
  by (auto dest: show_nat_chars)

lemma no_separator: "CHR ''_'' \<notin> set (show_nat n)" "CHR ''+'' \<notin> set (show_nat n)"
  by (rule no_digit, simp add: to_digit_def)+

lemma parse_show_u64 [simp]: "parse_u64 (show_nat (unat e)) = Some e"
proof -
  have "unat e < 2 ^ 64" using unsigned_less [where w = e] by simp
  then have "parse_digits 0 (show_nat (unat e)) = Some (unat e)" by (rule parse_show_nat)
  moreover have "hd (show_nat (unat e)) \<noteq> CHR ''+''"
    using no_separator(2) [of "unat e"] hd_in_set [OF show_nat_not_Nil] by metis
  ultimately show ?thesis
    by (cases "show_nat (unat e)") (simp_all add: parse_u64_def)
qed

lemma length_split_on: "length (split_on c s) = Suc (count_list s c)"
  by (induction s) (auto split: list.splits)

text \<open>The directory entry a backend's checkpoint leaves behind.\<close>

definition checkpoint_entry :: "string \<Rightarrow> string \<times> u64 \<Rightarrow> dir_entry" where
  "checkpoint_entry base p =
     \<lparr>de_path = push_path base (checkpoint_dir (fst p) (snd p)),
      de_file_name = Some (checkpoint_dir (fst p) (snd p)), de_is_dir = True\<rparr>"

lemma parse_checkpoint_entry:
  assumes "CHR ''_'' \<notin> set i"
  shows "parse_entry (checkpoint_entry base (i, e)) = Ok (i, e)"
  using assms no_separator
  by (simp add: parse_entry_def checkpoint_entry_def checkpoint_dir_def ok_or_def)

lemma parse_checkpoint_entry_separator:
  assumes "CHR ''_'' \<in> set i"
  shows "parse_entry (checkpoint_entry base (i, e))
    = Err (InvalidPath (push_path base (checkpoint_dir i e)))"
proof -
  let ?parts = "split_on (CHR ''_'') (i @ ''_'' @ show_nat (unat e))"
  have "count_list i (CHR ''_'') \<noteq> 0" using assms by (simp add: count_list_0_iff)
  then have "3 \<le> length ?parts" by (simp add: length_split_on)
  then obtain a b c r where "?parts = a # b # c # r"
    by (metis Suc_le_length_iff numeral_3_eq_3)
  then show ?thesis
    by (simp add: parse_entry_def checkpoint_entry_def checkpoint_dir_def ok_or_def Let_def
        split: option.splits)
qed

section \<open>The epoch that is restored\<close>

lemma scan_ok:
  assumes "list_all (\<lambda>p. CHR ''_'' \<notin> set (fst p) \<and> fst p \<in> set (map fst cs)) L"
    and "distinct (map fst cs)"
  shows "\<exists>cs'. scan_checkpoints known cs (map (\<lambda>p. Ok (checkpoint_entry base p)) L) = Ok cs' \<and>
    map fst cs' = map fst cs \<and>
    (\<forall>i s. map_of cs i = Some s \<longrightarrow> map_of cs' i = Some (s \<union> {e. (i, e) \<in> set L}))"
  using assms
proof (induction L arbitrary: cs)
  case Nil
  then show ?case by simp
next
  case (Cons p L)
  obtain i e where p: "p = (i, e)" by (cases p)
  obtain s where s: "map_of cs i = Some s"
    using Cons.prems(1) p map_of_eq_None_iff [of cs i] by fastforce
  let ?cs = "AList.update i (insert e s) cs"
  have keys: "map fst ?cs = map fst cs" using Cons.prems(1) p by (simp add: AList.update_keys)
  obtain cs' where cs': "scan_checkpoints known ?cs (map (\<lambda>p. Ok (checkpoint_entry base p)) L) = Ok cs'"
      "map fst cs' = map fst ?cs"
      "\<forall>i s. map_of ?cs i = Some s \<longrightarrow> map_of cs' i = Some (s \<union> {e. (i, e) \<in> set L})"
    using Cons.IH [of ?cs] Cons.prems keys by auto
  have "map_of cs' j = Some (t \<union> {e. (j, e) \<in> set (p # L)})" if "map_of cs j = Some t" for j t
  proof (cases "j = i")
    case True
    then have "map_of ?cs j = Some (insert e s)" "t = s" using that s by (simp_all add: AList.update_conv')
    with cs'(3) True p show ?thesis by auto
  next
    case False
    then have "map_of ?cs j = Some t" using that by (simp add: AList.update_conv')
    with cs'(3) False p show ?thesis by auto
  qed
  moreover have "scan_checkpoints known cs (map (\<lambda>p. Ok (checkpoint_entry base p)) (p # L)) = Ok cs'"
    using cs'(1) Cons.prems(1) p s by (simp add: parse_checkpoint_entry insert_epoch_def)
  ultimately show ?case using cs'(2) keys by auto
qed

lemma foldl_inter: "foldl (\<lambda>c p. c \<inter> snd p) s xs = s \<inter> \<Inter> (snd ` set xs)"
  by (induction xs arbitrary: s) auto

lemma complete_checkpoints_eq:
  "complete_checkpoints cs = (if cs = [] then None else Some (\<Inter> (snd ` set cs)))"
  by (cases cs) (auto simp: complete_checkpoints_def foldl_inter)

text \<open>The epochs that every configured backend has checkpointed.\<close>

definition complete_epochs :: "string list \<Rightarrow> (string \<times> u64) list \<Rightarrow> u64 set" where
  "complete_epochs ids L = {e \<in> snd ` set L. list_all (\<lambda>i. (i, e) \<in> set L) ids}"

lemma last_complete_scan:
  assumes ids: "ids \<noteq> []"
    and L: "list_all (\<lambda>p. CHR ''_'' \<notin> set (fst p) \<and> fst p \<in> set ids) L"
  shows "\<exists>cs. scan_checkpoints ids (empty_sets ids) (map (\<lambda>p. Ok (checkpoint_entry base p)) L) = Ok cs \<and>
    last_complete_checkpoint cs
      = (if complete_epochs ids L = {} then None else Some (Max (complete_epochs ids L)))"
proof -
  have e: "map fst (empty_sets ids) = remdups ids" by (simp add: empty_sets_def comp_def)
  have m: "map_of (empty_sets ids) i = Some {}" if "i \<in> set ids" for i
    using that by (auto simp: empty_sets_def map_of_map_restrict)
  obtain cs where cs: "scan_checkpoints ids (empty_sets ids) (map (\<lambda>p. Ok (checkpoint_entry base p)) L) = Ok cs"
      "map fst cs = remdups ids"
      "\<forall>i s. map_of (empty_sets ids) i = Some s \<longrightarrow> map_of cs i = Some (s \<union> {e. (i, e) \<in> set L})"
    using scan_ok [of "empty_sets ids" L ids base] L by (auto simp: e)
  have d: "distinct (map fst cs)" by (simp add: cs(2))
  have in_cs: "(i, {e. (i, e) \<in> set L}) \<in> set cs" if "i \<in> set ids" for i
    using cs(3) m [OF that] map_of_SomeD by fastforce
  have only: "s = {e. (i, e) \<in> set L} \<and> i \<in> set ids" if "(i, s) \<in> set cs" for i s
  proof -
    have "i \<in> set ids" using that cs(2) by (metis fst_conv image_eqI list.set_map set_remdups)
    with in_cs that d show ?thesis by (meson eq_key_imp_eq_value)
  qed
  have "snd ` set cs \<subseteq> (\<lambda>i. {e. (i, e) \<in> set L}) ` set ids"
    by (auto dest!: only)
  moreover have "(\<lambda>i. {e. (i, e) \<in> set L}) ` set ids \<subseteq> snd ` set cs"
    using in_cs by (force intro!: rev_image_eqI)
  ultimately have "snd ` set cs = (\<lambda>i. {e. (i, e) \<in> set L}) ` set ids" by blast
  then have "\<Inter> (snd ` set cs) = {e. \<forall>i \<in> set ids. (i, e) \<in> set L}" by auto
  also have "\<dots> = complete_epochs ids L"
    using hd_in_set [OF ids] by (auto simp: complete_epochs_def list_all_iff intro!: rev_image_eqI)
  finally have "\<Inter> (snd ` set cs) = complete_epochs ids L" .
  moreover have "cs \<noteq> []" using cs(2) ids by (metis list.map_disc_iff remdups_eq_nil_iff)
  ultimately have "last_complete_checkpoint cs
      = (if complete_epochs ids L = {} then None else Some (Max (complete_epochs ids L)))"
    by (simp add: last_complete_checkpoint_def complete_checkpoints_eq)
  with cs(1) show ?thesis by blast
qed

section \<open>Properties\<close>

text \<open>C28: When the checkpoint directory holds only checkpoints of configured backends, whose
  ids contain no underscore, a backend restores its checkpoint of the greatest epoch that every
  configured backend has completed, and starts empty when there is no such epoch. The live
  directory has been removed first if it existed.\<close>

theorem restore_latest_complete:
  assumes "backend_ids config \<noteq> []"
    and "list_all (\<lambda>p. CHR ''_'' \<notin> set (fst p) \<and> fst p \<in> set (backend_ids config)) L"
    and "fs_exists F w (push_path (live_state_base_path config) i) \<Longrightarrow>
      fs_remove_dir_all F (push_path (live_state_base_path config) i) w = (Ok (), w')"
    and "\<not> fs_exists F w (push_path (live_state_base_path config) i) \<Longrightarrow> w' = w"
    and "fs_read_dir F (checkpoints_base_path config) w'
      = Ok (map (\<lambda>p. Ok (checkpoint_entry (checkpoints_base_path config) p)) L)"
  shows "restore_or_create F B config i w
    = (let live = push_path (live_state_base_path config) i;
           complete = complete_epochs (backend_ids config) L in
       if complete = {} then bc_create B live w'
       else bc_restore B live
              (push_path (checkpoints_base_path config) (checkpoint_dir i (Max complete))) w')"
proof -
  obtain cs where cs: "scan_checkpoints (backend_ids config) (empty_sets (backend_ids config))
        (map (\<lambda>p. Ok (checkpoint_entry (checkpoints_base_path config) p)) L) = Ok cs"
      "last_complete_checkpoint cs = (if complete_epochs (backend_ids config) L = {} then None
         else Some (Max (complete_epochs (backend_ids config) L)))"
    using last_complete_scan [OF assms(1,2)] by blast
  show ?thesis
    using assms(3-5) cs
    by (cases "fs_exists F w (push_path (live_state_base_path config) i)")
      (simp_all add: restore_or_create_def bind_s_def query_def Let_def)
qed

text \<open>Two backends, of which only epoch 1 is complete: backend 2 has not finished epoch 2.\<close>

theorem restore_latest_complete_witness:
  "restore_or_create
     \<lparr>fs_exists = (\<lambda>w p. p = ''live/1''), fs_remove_dir_all = (\<lambda>p w. (Ok (), p # w)),
      fs_read_dir = (\<lambda>p w. Ok (map (\<lambda>q. Ok (checkpoint_entry ''ck'' q))
        [(''1'', 1), (''2'', 1), (''1'', 2)]))\<rparr>
     \<lparr>bc_create = (\<lambda>p w. (Ok (p, []), w)), bc_restore = (\<lambda>p q w. (Ok (p, q), w))\<rparr>
     \<lparr>live_state_base_path = ''live'', checkpoints_base_path = ''ck'', backend_ids = [''1'', ''2'']\<rparr>
     ''1'' []
   = (Ok (''live/1'', ''ck/checkpoint_1_1''), [''live/1''])"
proof -
  have c: "complete_epochs [''1'', ''2''] [(''1'', 1), (''2'', 1), (''1'', 2)] = {1}"
    by (auto simp: complete_epochs_def)
  have p: "push_path ''live'' ''1'' = ''live/1''"
    by (simp add: push_path_def has_prefix_def)
  have d: "push_path ''ck'' (checkpoint_dir ''1'' 1) = ''ck/checkpoint_1_1''"
    by (simp add: push_path_def has_prefix_def checkpoint_dir_def CHECKPOINT_PREFIX_def
        show_nat.simps [of "Suc 0"] digit_char_def char_of_def bit_0)
  show ?thesis
    by (subst restore_latest_complete [where w' = "[''live/1'']" and
          L = "[(''1'', 1), (''2'', 1), (''1'', 2)]"])
      (simp_all add: p c d Let_def)
qed

text \<open>Reading back the name of a checkpoint directory gives the backend and the epoch it was
  written for, exactly when the backend's id contains no underscore; otherwise the whole
  restore fails with \<^verbatim>\<open>InvalidPath\<close>.\<close>

theorem checkpoint_dir_round_trip:
  "parse_entry (checkpoint_entry base (i, e))
    = (if CHR ''_'' \<in> set i then Err (InvalidPath (push_path base (checkpoint_dir i e)))
       else Ok (i, e))"
  by (simp add: parse_checkpoint_entry parse_checkpoint_entry_separator)

text \<open>A string is read as a backend type exactly when it is the printed name of that type up
  to ASCII case.\<close>

lemma backend_type_from_str_display:
  "backend_type_from_str s = Ok b \<longleftrightarrow> eq_ignore_ascii_case s (backend_type_display b)"
  by (cases b) (auto simp: backend_type_from_str_def eq_ignore_ascii_case_def ascii_lower_def)

end
