(* ===== verification/Allocator.thy ===== *)
theory Allocator
  imports Arcon_Prelude
begin

text \<open>
  Model of \<^verbatim>\<open>src/allocator/mod.rs\<close>: the allocator that accounts for the buffers of a
  pipeline against a memory limit. The system allocator is a parameter: its state is \<open>'y\<close>, a
  pointer is an address and the null pointer is 0.
\<close>

type_synonym alloc_id = "u32 \<times> u64"
type_synonym alloc_ptr = u64

record layout =
  l_size :: usize
  l_align :: usize

record 'y system_alloc =
  sys_alloc :: "layout \<Rightarrow> 'y \<Rightarrow> alloc_ptr \<times> 'y"
  sys_dealloc :: "alloc_ptr \<Rightarrow> layout \<Rightarrow> 'y \<Rightarrow> 'y"

datatype alloc_result =
    Alloc alloc_id alloc_ptr
  | ArconOOM usize
  | SystemOOM
  | CapacityErr string

text \<open>The hash map of the allocations is an association list.\<close>

record 'y arcon_allocator =
  allocations :: "(alloc_id \<times> alloc_ptr \<times> layout) list"
  limit :: usize
  alloc_epoch :: u32
  alloc_counter :: u64
  curr_alloc :: usize
  al_system :: 'y

definition allocator_new :: "usize \<Rightarrow> 'y \<Rightarrow> 'y arcon_allocator" where
  "allocator_new lim y = \<lparr>allocations = [], limit = lim, alloc_epoch = 1, alloc_counter = 0,
     curr_alloc = 0, al_system = y\<rparr>"

definition bytes_remaining :: "'y arcon_allocator \<Rightarrow> ('e, usize) outcome" where
  "bytes_remaining a = sub_u (limit a) (curr_alloc a)"

definition allocated_bytes :: "'y arcon_allocator \<Rightarrow> usize" where
  "allocated_bytes a = curr_alloc a"

text \<open>\<open>size\<close> and \<open>align\<close> are those of the element type.\<close>

definition alloc ::
    "'y system_alloc \<Rightarrow> usize \<Rightarrow> usize \<Rightarrow> usize \<Rightarrow> ('y arcon_allocator, unit, alloc_result) action" where
  "alloc S sz align capacity a =
     (if capacity = 0 then (Ok (CapacityErr ''Cannot alloc for 0 sized pointer''), a)
      else case checked_mul capacity sz of
        None \<Rightarrow> (Ok (CapacityErr ''Capacity overflow''), a)
      | Some required_bytes \<Rightarrow>
          bind_s (query (\<lambda>a. add_u (curr_alloc a) required_bytes)) (\<lambda>total.
            if total > limit a
            then bind_s (query bytes_remaining) (\<lambda>r. return_s (ArconOOM r))
            else (\<lambda>a.
              (let layout = \<lparr>l_size = required_bytes, l_align = align\<rparr>;
                   (mem, y) = sys_alloc S layout (al_system a);
                   a = a\<lparr>al_system := y\<rparr> in
               if mem = 0 then (Ok SystemOOM, a)
               else
                 bind_s (query (\<lambda>a. add_u (curr_alloc a) (l_size layout))) (\<lambda>c a.
                 bind_s (\<lambda>a. if alloc_counter a = - 1
                            then bind_s (query (\<lambda>a. add_u (alloc_epoch a) 1)) (\<lambda>e a.
                                   (Ok (), a\<lparr>alloc_epoch := e, alloc_counter := 0\<rparr>)) a
                            else (Ok (), a)) (\<lambda>_ a.
                   (let i = alloc_counter a;
                        a = a\<lparr>alloc_counter := alloc_counter a + 1\<rparr>;
                        a = a\<lparr>allocations :=
                              AList.update (alloc_epoch a, i) (mem, layout) (allocations a)\<rparr> in
                    (Ok (Alloc (alloc_epoch a, i) mem), a))) (a\<lparr>curr_alloc := c\<rparr>)) a))) a)"

definition dealloc :: "'y system_alloc \<Rightarrow> alloc_id \<Rightarrow> ('y arcon_allocator, unit, unit) action" where
  "dealloc S i a =
     (case map_of (allocations a) i of
        None \<Rightarrow> (Ok (), a)
      | Some (ptr, layout) \<Rightarrow>
          bind_s (query (\<lambda>a. sub_u (curr_alloc a) (l_size layout)))
            (\<lambda>c a. (Ok (), a\<lparr>curr_alloc := c\<rparr>))
            (a\<lparr>allocations := AList.delete i (allocations a),
               al_system := sys_dealloc S ptr layout (al_system a)\<rparr>))"

definition total_allocations :: "'y arcon_allocator \<Rightarrow> ('e, u128) outcome" where
  "total_allocations a =
     (if alloc_epoch a = 1 then Ok (ucast (alloc_counter a))
      else
        bind_o (sub_u (alloc_epoch a) 1) (\<lambda>previous.
        bind_o (mul_u (ucast previous :: u64) (- 1)) (\<lambda>epoch_sum.
        add_u (ucast epoch_sum) (ucast (alloc_counter a)))))"

fun dealloc_all :: "'y system_alloc \<Rightarrow> alloc_id list \<Rightarrow> ('y arcon_allocator, unit, unit) action" where
  "dealloc_all S [] = return_s ()"
| "dealloc_all S (i # ids) = bind_s (dealloc S i) (\<lambda>_. dealloc_all S ids)"

text \<open>\<^verbatim>\<open>Drop\<close>: every outstanding allocation is freed.\<close>

definition allocator_drop :: "'y system_alloc \<Rightarrow> ('y arcon_allocator, unit, unit) action" where
  "allocator_drop S a = dealloc_all S (map fst (allocations a)) a"

section \<open>Invariant\<close>

text \<open>
  The bytes accounted for are those of the outstanding allocations, they stay within the
  limit, and every outstanding id was issued before the current epoch and counter.
\<close>

definition used_bytes :: "(alloc_id \<times> alloc_ptr \<times> layout) list \<Rightarrow> nat" where
  "used_bytes al = (\<Sum>(i, p, l) \<leftarrow> al. unat (l_size l))"

definition issued :: "'y arcon_allocator \<Rightarrow> alloc_id \<Rightarrow> bool" where
  "issued a i \<longleftrightarrow> fst i < alloc_epoch a \<or> fst i = alloc_epoch a \<and> snd i < alloc_counter a"

definition alloc_inv :: "'y arcon_allocator \<Rightarrow> bool" where
  "alloc_inv a \<longleftrightarrow>
     distinct (map fst (allocations a)) \<and>
     unat (curr_alloc a) = used_bytes (allocations a) \<and>
     curr_alloc a \<le> limit a \<and>
     list_all (issued a) (map fst (allocations a))"

lemma used_bytes_fresh:
  "i \<notin> set (map fst al) \<Longrightarrow> used_bytes (AList.update i (p, l) al) = used_bytes al + unat (l_size l)"
  by (induction al) (auto simp: used_bytes_def)

lemma used_bytes_delete:
  "distinct (map fst al) \<Longrightarrow> map_of al i = Some (p, l) \<Longrightarrow>
    used_bytes al = used_bytes (AList.delete i al) + unat (l_size l)"
proof (induction al)
  case (Cons x al)
  obtain j q m where x: "x = (j, q, m)" by (cases x)
  show ?case
  proof (cases "j = i")
    case True
    with Cons.prems x have "AList.delete i al = al" by (simp add: AList.delete_id)
    with True Cons.prems x show ?thesis by (simp add: used_bytes_def)
  next
    case False
    with Cons x show ?thesis by (simp add: used_bytes_def)
  qed
qed simp

lemma alloc_inv_new: "alloc_inv (allocator_new lim y)"
  by (simp add: alloc_inv_def allocator_new_def used_bytes_def)

lemma issued_not_current: "issued a i \<Longrightarrow> i \<noteq> (alloc_epoch a, alloc_counter a)"
  by (auto simp: issued_def)

text \<open>The system allocator's state is no part of the invariant.\<close>

lemma alloc_inv_system [simp]: "alloc_inv (a\<lparr>al_system := y\<rparr>) = alloc_inv a"
  by (simp add: alloc_inv_def issued_def [abs_def])

text \<open>Issuing the next id, in the current epoch or, when the counter is used up, in the next.\<close>

lemma issue_inv:
  assumes inv: "alloc_inv a" and k: "k \<noteq> - 1"
    and nxt: "alloc_epoch a < e \<or> e = alloc_epoch a \<and> k = alloc_counter a"
    and total: "unat c = unat (curr_alloc a) + unat (l_size l)" "c \<le> limit a"
    and a': "a' = a\<lparr>al_system := y, curr_alloc := c, alloc_epoch := e, alloc_counter := k + 1,
       allocations := AList.update (e, k) (p, l) (allocations a)\<rparr>"
  shows "alloc_inv a' \<and> (e, k) \<notin> set (map fst (allocations a))"
proof -
  have old: "issued a i \<Longrightarrow> issued a' i \<and> i \<noteq> (e, k)" for i
    using nxt k word_less_Suc [OF k] by (auto simp: issued_def a')
  have fresh: "(e, k) \<notin> set (map fst (allocations a))"
    using inv old by (fastforce simp: alloc_inv_def list_all_iff)
  have "issued a' (e, k)" using word_less_Suc [OF k] by (simp add: issued_def a')
  then have "list_all (issued a') (map fst (allocations a'))"
    using inv old fresh by (auto simp: alloc_inv_def list_all_iff a' AList.update_keys)
  moreover have "distinct (map fst (allocations a'))"
    using inv by (simp add: alloc_inv_def a' AList.distinct_update)
  moreover have "unat (curr_alloc a') = used_bytes (allocations a')"
    using inv total fresh by (simp add: alloc_inv_def a' used_bytes_fresh)
  ultimately show ?thesis using total fresh by (simp add: alloc_inv_def a')
qed

text \<open>A successful request: the bytes fit, the system has memory, and a fresh id is issued.\<close>

lemma alloc_Ok:
  assumes inv: "alloc_inv a" and cap: "capacity \<noteq> 0" "checked_mul capacity sz = Some n"
    and fits: "unat (curr_alloc a) + unat n \<le> unat (limit a)"
    and mem: "sys_alloc S \<lparr>l_size = n, l_align = align\<rparr> (al_system a) = (mem, y)" "mem \<noteq> 0"
    and epoch: "alloc_epoch a \<noteq> - 1"
  shows "\<exists>i a'. alloc S sz align capacity a = (Ok (Alloc i mem), a') \<and> alloc_inv a' \<and>
    i \<notin> set (map fst (allocations a)) \<and>
    map_of (allocations a') = (map_of (allocations a))(i \<mapsto> (mem, \<lparr>l_size = n, l_align = align\<rparr>)) \<and>
    unat (curr_alloc a') = unat (curr_alloc a) + unat n \<and> limit a' = limit a"
proof -
  let ?l = "\<lparr>l_size = n, l_align = align\<rparr>"
  let ?c = "curr_alloc a + n"
  define e where "e = (if alloc_counter a = - 1 then alloc_epoch a + 1 else alloc_epoch a)"
  define k where "k = (if alloc_counter a = - 1 then 0 else alloc_counter a)"
  define a' where "a' = a\<lparr>al_system := y, curr_alloc := ?c, alloc_epoch := e, alloc_counter := k + 1,
       allocations := AList.update (e, k) (mem, ?l) (allocations a)\<rparr>"
  have small: "unat (curr_alloc a) + unat n < 2 ^ 64"
    using fits unat_bound [of "limit a"] by simp
  then have c: "unat ?c = unat (curr_alloc a) + unat n" "?c \<le> limit a"
    using fits by (simp_all add: unat_add_no_overflow word_le_nat_alt)
  have e': "unat (alloc_epoch a) + 1 < 2 ^ 32"
    using unat_Suc_bound [OF epoch] by simp
  have "\<not> limit a < ?c" using c(2) by simp
  then have "alloc S sz align capacity a = (Ok (Alloc (e, k) mem), a')"
    using cap mem small c e'
    by (simp add: alloc_def bind_s_def query_def add_u_def Let_def e_def k_def a'_def)
  moreover have "alloc_inv a' \<and> (e, k) \<notin> set (map fst (allocations a))"
    by (rule issue_inv [OF inv _ _ _ c(2) a'_def])
      (use c word_less_Suc [OF epoch] in \<open>auto simp: e_def k_def\<close>)
  moreover have "map_of (allocations a') = (map_of (allocations a))((e, k) \<mapsto> (mem, ?l))"
    by (simp add: a'_def AList.update_conv')
  ultimately show ?thesis using c by (auto simp: a'_def)
qed

lemma dealloc_inv:
  assumes inv: "alloc_inv a"
  shows "\<exists>a'. dealloc S i a = (Ok (), a') \<and> alloc_inv a' \<and> limit a' = limit a \<and>
    allocations a' = AList.delete i (allocations a)"
proof (cases "map_of (allocations a) i")
  case None
  then have "AList.delete i (allocations a) = allocations a"
    by (simp add: AList.delete_id map_of_eq_None_iff)
  with None inv show ?thesis by (simp add: dealloc_def)
next
  case (Some pl)
  obtain p l where pl: "pl = (p, l)" by (cases pl)
  have used: "used_bytes (allocations a) = used_bytes (AList.delete i (allocations a)) + unat (l_size l)"
    using inv Some pl by (simp add: alloc_inv_def used_bytes_delete)
  then have le: "l_size l \<le> curr_alloc a"
    using inv by (simp add: alloc_inv_def word_le_nat_alt)
  have "curr_alloc a - l_size l \<le> limit a"
    using inv le by (auto simp: alloc_inv_def word_le_nat_alt unat_sub_le)
  moreover have "distinct (map fst (AList.delete i (allocations a)))"
    using inv by (simp add: alloc_inv_def AList.distinct_delete)
  moreover have "list_all (issued a) (map fst (AList.delete i (allocations a)))"
    using inv by (auto simp: alloc_inv_def list_all_iff AList.delete_eq)
  ultimately show ?thesis
    using Some pl le used inv
    by (simp add: dealloc_def sub_u_def alloc_inv_def unat_sub_le issued_def [abs_def])
qed

lemma dealloc_all_inv:
  "alloc_inv a \<Longrightarrow> \<exists>a'. dealloc_all S ids a = (Ok (), a') \<and> alloc_inv a' \<and>
    allocations a' = foldl (\<lambda>al i. AList.delete i al) (allocations a) ids"
proof (induction ids arbitrary: a)
  case Nil
  then show ?case by simp
next
  case (Cons i ids)
  obtain a1 where a1: "dealloc S i a = (Ok (), a1)" "alloc_inv a1"
      "allocations a1 = AList.delete i (allocations a)"
    using dealloc_inv [OF Cons.prems] by blast
  show ?case using Cons.IH [OF a1(2)] a1 by auto
qed

lemma delete_all_keys:
  "set (map fst al) \<subseteq> set ids \<Longrightarrow> foldl (\<lambda>al i. AList.delete i al) al ids = []"
proof (induction ids arbitrary: al)
  case (Cons i ids)
  have "set (map fst (AList.delete i al)) \<subseteq> set ids"
    using Cons.prems by (auto simp: AList.delete_eq)
  then show ?case using Cons.IH by simp
qed simp

section \<open>Properties\<close>

text \<open>A request beyond the limit.\<close>

lemma alloc_refused:
  assumes "alloc_inv a" and "capacity \<noteq> 0" and "checked_mul capacity sz = Some n"
    and "unat (limit a) < unat (curr_alloc a) + unat n"
    and "unat (curr_alloc a) + unat n < 2 ^ 64"
  shows "alloc S sz align capacity a = (Ok (ArconOOM (limit a - curr_alloc a)), a)"
proof -
  have "curr_alloc a \<le> limit a" using assms(1) by (simp add: alloc_inv_def)
  moreover have "limit a < curr_alloc a + n"
    using assms(4,5) by (simp add: word_less_nat_alt unat_add_no_overflow)
  ultimately show ?thesis
    using assms by (simp add: alloc_def bind_s_def query_def add_u_def bytes_remaining_def sub_u_def)
qed

text \<open>C40: In a state that accounts correctly, a request that fits in the limit and that the
  system can serve succeeds with an identifier that no outstanding allocation has, adds exactly
  the requested bytes to the account, and keeps the accounting invariant (the epoch counter
  must not be at its maximum); a request that does not fit is refused with exactly the number of
  bytes that remain, and changes nothing.\<close>

theorem alloc_respects_limit:
  assumes "alloc_inv a" and "capacity \<noteq> 0" and "checked_mul capacity sz = Some n"
    and "unat (curr_alloc a) + unat n < 2 ^ 64"
    and "sys_alloc S \<lparr>l_size = n, l_align = align\<rparr> (al_system a) = (mem, y)" and "mem \<noteq> 0"
    and "alloc_epoch a \<noteq> - 1"
  shows "if unat (curr_alloc a) + unat n \<le> unat (limit a)
    then \<exists>i a'. alloc S sz align capacity a = (Ok (Alloc i mem), a') \<and> alloc_inv a' \<and>
      i \<notin> set (map fst (allocations a)) \<and>
      map_of (allocations a') = (map_of (allocations a))(i \<mapsto> (mem, \<lparr>l_size = n, l_align = align\<rparr>)) \<and>
      unat (curr_alloc a') = unat (curr_alloc a) + unat n \<and> limit a' = limit a
    else alloc S sz align capacity a = (Ok (ArconOOM (limit a - curr_alloc a)), a)"
  using alloc_Ok [OF assms(1-3) _ assms(5-7)] alloc_refused [OF assms(1-3) _ assms(4)] by simp

theorem alloc_respects_limit_witness:
  "(\<exists>i a'. alloc \<lparr>sys_alloc = (\<lambda>l y. (4096, Suc y)), sys_dealloc = (\<lambda>p l y. y - 1)\<rparr> 8 8 10
       (allocator_new 1000 (0 :: nat)) = (Ok (Alloc i 4096), a') \<and> alloc_inv a' \<and> unat (curr_alloc a') = 80) \<and>
   alloc \<lparr>sys_alloc = (\<lambda>l y. (4096, Suc y)), sys_dealloc = (\<lambda>p l y. y - 1)\<rparr> 8 8 10 (allocator_new 79 (0 :: nat))
     = (Ok (ArconOOM 79), allocator_new 79 0)"
  using alloc_respects_limit [of "allocator_new 1000 (0 :: nat)" 10 8 80
      "\<lparr>sys_alloc = (\<lambda>l y. (4096, Suc y)), sys_dealloc = (\<lambda>p l y. y - 1)\<rparr>" 8 4096 "Suc 0"]
    alloc_respects_limit [of "allocator_new 79 (0 :: nat)" 10 8 80
      "\<lparr>sys_alloc = (\<lambda>l y. (4096, Suc y)), sys_dealloc = (\<lambda>p l y. y - 1)\<rparr>" 8 4096 "Suc 0"]
    alloc_inv_new [of 1000 "0 :: nat"] alloc_inv_new [of 79 "0 :: nat"]
  by (auto simp: allocator_new_def checked_mul_def)

text \<open>Dropping the allocator frees every outstanding allocation without a panic and leaves
  nothing accounted for.\<close>

theorem drop_frees_all:
  assumes "alloc_inv a"
  shows "\<exists>a'. allocator_drop S a = (Ok (), a') \<and> allocations a' = [] \<and> allocated_bytes a' = 0"
proof -
  obtain a' where a': "dealloc_all S (map fst (allocations a)) a = (Ok (), a')" "alloc_inv a'"
      "allocations a' = foldl (\<lambda>al i. AList.delete i al) (allocations a) (map fst (allocations a))"
    using dealloc_all_inv [OF assms] by blast
  then have "allocations a' = []" by (simp add: delete_all_keys)
  with a' show ?thesis
    by (simp add: allocator_drop_def allocated_bytes_def alloc_inv_def used_bytes_def unat_eq_0)
qed

theorem drop_frees_all_witness:
  "\<exists>a'. allocator_drop \<lparr>sys_alloc = (\<lambda>l y. (4096, y)), sys_dealloc = (\<lambda>p l y. y)\<rparr>
      \<lparr>allocations = [((1, 0), 4096, \<lparr>l_size = 80, l_align = 8\<rparr>)], limit = 100, alloc_epoch = 1,
       alloc_counter = 1, curr_alloc = 80, al_system = ()\<rparr> = (Ok (), a') \<and> allocations a' = []"
  using drop_frees_all [of "\<lparr>allocations = [((1, 0), 4096, \<lparr>l_size = 80, l_align = 8\<rparr>)], limit = 100,
      alloc_epoch = 1, alloc_counter = 1, curr_alloc = 80, al_system = ()\<rparr>"
      "\<lparr>sys_alloc = (\<lambda>l y. (4096, y)), sys_dealloc = (\<lambda>p l y. y)\<rparr>"]
  by (auto simp: alloc_inv_def used_bytes_def issued_def)

text \<open>The number of allocations made so far is reported exactly in the first two epochs of
  the id counter; from the third epoch on the 64-bit multiplication overflows before it is
  widened.\<close>

theorem total_allocations_epochs:
  "total_allocations a =
    (if alloc_epoch a = 1 then Ok (ucast (alloc_counter a))
     else if alloc_epoch a = 2 then Ok (2 ^ 64 - 1 + ucast (alloc_counter a))
     else if alloc_epoch a = 0 then Panic ''attempt to subtract with overflow''
     else Panic ''attempt to multiply with overflow'')"
proof -
  have big: "1 \<le> e \<and> \<not> unat (ucast (e - 1 :: u32) :: u64) * unat (- 1 :: u64) < 2 ^ 64"
    if "e \<noteq> 0" "e \<noteq> 1" "e \<noteq> 2" for e :: u32
  proof -
    have "unat e \<noteq> 0" "unat e \<noteq> 1" "unat e \<noteq> 2"
      using that by (auto simp: word_unat_eq_iff)
    moreover from this have "1 \<le> e" by (simp add: word_le_nat_alt)
    moreover from this have "unat (e - 1) = unat e - 1" by (simp add: unat_sub_le)
    moreover have "unat (ucast (e - 1) :: u64) = unat (e - 1)"
      using unat_bound [of "e - 1"] by (simp add: unsigned_ucast_eq take_bit_nat_eq_self_iff)
    ultimately have "1 \<le> e" "2 \<le> unat (ucast (e - 1) :: u64)" by linarith+
    then show ?thesis by (simp add: unsigned_minus_1_eq_mask mask_eq_exp_minus_1)
  qed
  have two: "unat (ucast c :: u128) < 2 ^ 64" for c :: u64
    using unat_bound [of c] le_less_trans [OF take_bit_nat_less_eq_self [of 128 "unat c"]]
    by (simp add: unsigned_ucast_eq)
  consider "alloc_epoch a = 1" | "alloc_epoch a = 2" | "alloc_epoch a = 0"
    | "alloc_epoch a \<noteq> 0" "alloc_epoch a \<noteq> 1" "alloc_epoch a \<noteq> 2" by blast
  then show ?thesis
  proof cases
    case 2
    have "unat (2 ^ 64 - 1 :: u128) = 2 ^ 64 - 1" by simp
    with two [of "alloc_counter a"]
    have "unat (2 ^ 64 - 1 :: u128) + unat (ucast (alloc_counter a) :: u128) < 2 ^ 128" by simp
    moreover have "(ucast (- 1 :: u64) :: u128) = 2 ^ 64 - 1"
      by (simp add: word_unat_eq_iff unsigned_ucast_eq unsigned_minus_1_eq_mask mask_eq_exp_minus_1
          take_bit_eq_mod)
    moreover have "unat (- 1 :: u64) < 2 ^ 64" using unat_bound [of "- 1 :: u64"] by simp
    ultimately show ?thesis
      using 2 by (simp add: total_allocations_def checked_arith)
  qed (use big in \<open>auto simp: total_allocations_def checked_arith\<close>)
qed

end
