(* ===== verification/Event_Buffers.thy ===== *)
theory Event_Buffers
  imports Allocator
begin

text \<open>
  Model of \<^verbatim>\<open>src/buffer\<close>: event buffers allocated through the allocator, their writers and
  readers, and the pool that hands them out. Buffers live in a store; an \<^verbatim>\<open>Arc\<close> to a buffer
  is its index there, so that a writer, a reader and the pool share one buffer. A memory cell is
  \<open>None\<close> until it is written. Reading or writing outside the initialised part of a buffer is
  undefined behaviour of the code, and is the outcome \<open>Panic ub\<close> here.
\<close>

section \<open>Buffers\<close>

definition ub :: string where
  "ub = ''undefined behaviour''"

record 'a event_buffer =
  eb_mem :: "'a option list"
  eb_id :: alloc_id
  eb_capacity :: usize
  eb_free :: bool

record ('a, 'y) buf_world =
  bw_alloc :: "'y arcon_allocator"
  bw_bufs :: "'a event_buffer list"

definition event_buffer_new ::
    "'y system_alloc \<Rightarrow> usize \<Rightarrow> usize \<Rightarrow> usize
      \<Rightarrow> (('a, 'y, 'z) buf_world_scheme, arcon_error, nat) action" where
  "event_buffer_new S sz align capacity w =
     (case alloc S sz align capacity (bw_alloc w) of
        (Ok (Alloc i ptr), a) \<Rightarrow>
          (Ok (length (bw_bufs w)),
           w\<lparr>bw_alloc := a,
             bw_bufs := bw_bufs w @
               [\<lparr>eb_mem = replicate (unat capacity) None, eb_id = i, eb_capacity = capacity,
                 eb_free = True\<rparr>]\<rparr>)
      | (Ok _, a) \<Rightarrow> (Err (new_arcon ''EventBuffer Alloc err''), w\<lparr>bw_alloc := a\<rparr>)
      | (Panic m, a) \<Rightarrow> (Panic m, w\<lparr>bw_alloc := a\<rparr>)
      | (Err _, a) \<Rightarrow> (Panic ub, w\<lparr>bw_alloc := a\<rparr>)
      | (NoFuel, a) \<Rightarrow> (NoFuel, w\<lparr>bw_alloc := a\<rparr>))"

text \<open>\<^verbatim>\<open>EventBuffer::push\<close>: writes at \<open>len\<close>, gives the value back beyond the capacity.\<close>

definition event_buffer_push :: "nat \<Rightarrow> 'a \<Rightarrow> nat \<Rightarrow> (('a, 'y, 'z) buf_world_scheme, arcon_error, 'a option) action" where
  "event_buffer_push r v len w =
     (let b = bw_bufs w ! r in
      if len \<ge> unat (eb_capacity b) then (Ok (Some v), w)
      else (Ok None, w\<lparr>bw_bufs := (bw_bufs w)[r := b\<lparr>eb_mem := (eb_mem b)[len := Some v]\<rparr>]\<rparr>))"

definition event_buffer_release :: "nat \<Rightarrow> ('a, 'y, 'z) buf_world_scheme \<Rightarrow> ('a, 'y, 'z) buf_world_scheme" where
  "event_buffer_release r w = w\<lparr>bw_bufs := (bw_bufs w)[r := (bw_bufs w ! r)\<lparr>eb_free := True\<rparr>]\<rparr>"

text \<open>\<^verbatim>\<open>compare_and_swap(true, false)\<close> returns the previous value.\<close>

definition event_buffer_try_reserve :: "nat \<Rightarrow> (('a, 'y, 'z) buf_world_scheme, arcon_error, bool) action" where
  "event_buffer_try_reserve r w =
     (Ok (eb_free (bw_bufs w ! r)),
      if eb_free (bw_bufs w ! r)
      then w\<lparr>bw_bufs := (bw_bufs w)[r := (bw_bufs w ! r)\<lparr>eb_free := False\<rparr>]\<rparr> else w)"

text \<open>\<^verbatim>\<open>Drop\<close>: the memory goes back to the allocator.\<close>

definition event_buffer_drop ::
    "'y system_alloc \<Rightarrow> 'a event_buffer \<Rightarrow> (('a, 'y, 'z) buf_world_scheme, arcon_error, unit) action" where
  "event_buffer_drop S b w =
     (case dealloc S (eb_id b) (bw_alloc w) of
        (Ok _, a) \<Rightarrow> (Ok (), w\<lparr>bw_alloc := a\<rparr>)
      | (Panic m, a) \<Rightarrow> (Panic m, w\<lparr>bw_alloc := a\<rparr>)
      | (Err _, a) \<Rightarrow> (Panic ub, w\<lparr>bw_alloc := a\<rparr>)
      | (NoFuel, a) \<Rightarrow> (NoFuel, w\<lparr>bw_alloc := a\<rparr>))"

section \<open>Writers and readers\<close>

record writer =
  wr_buffer :: nat
  wr_len :: nat
  wr_capacity :: usize

record reader =
  rd_buffer :: nat
  rd_len :: nat

definition writer_new :: "nat \<Rightarrow> nat \<Rightarrow> usize \<Rightarrow> writer" where
  "writer_new r len capacity = \<lparr>wr_buffer = r, wr_len = len, wr_capacity = capacity\<rparr>"

text \<open>\<^verbatim>\<open>BufferWriter::push\<close>: the returned value, if any, did not fit.\<close>

definition writer_push ::
    "'a \<Rightarrow> writer \<Rightarrow> (('a, 'y, 'z) buf_world_scheme, arcon_error, 'a option \<times> writer) action" where
  "writer_push v wr =
     bind_s (event_buffer_push (wr_buffer wr) v (wr_len wr)) (\<lambda>r.
       case r of
         Some v \<Rightarrow> return_s (Some v, wr)
       | None \<Rightarrow> return_s (None, wr\<lparr>wr_len := wr_len wr + 1\<rparr>))"

definition writer_reader :: "writer \<Rightarrow> reader" where
  "writer_reader wr = \<lparr>rd_buffer = wr_buffer wr, rd_len = wr_len wr\<rparr>"

definition copy_from_writer ::
    "writer \<Rightarrow> writer \<Rightarrow> (('a, 'y, 'z) buf_world_scheme, arcon_error, writer) action" where
  "copy_from_writer wr other w =
     (let src = bw_bufs w ! wr_buffer other; dst = bw_bufs w ! wr_buffer wr; n = wr_len other in
      if n \<le> length (eb_mem src) \<and> n \<le> length (eb_mem dst)
      then (Ok (wr\<lparr>wr_len := n\<rparr>),
            w\<lparr>bw_bufs := (bw_bufs w)[wr_buffer wr :=
              dst\<lparr>eb_mem := take n (eb_mem src) @ drop n (eb_mem dst)\<rparr>]\<rparr>)
      else (Panic ub, w))"

definition reader_release :: "reader \<Rightarrow> ('a, 'y, 'z) buf_world_scheme \<Rightarrow> ('a, 'y, 'z) buf_world_scheme" where
  "reader_release rd w = event_buffer_release (rd_buffer rd) w"

definition reader_drop :: "reader \<Rightarrow> ('a, 'y, 'z) buf_world_scheme \<Rightarrow> ('a, 'y, 'z) buf_world_scheme" where
  "reader_drop rd w = reader_release rd w"

text \<open>\<open>contents b n\<close>: the values in the first \<open>n\<close> cells.\<close>

fun somes :: "'a option list \<Rightarrow> 'a list" where
  "somes [] = []"
| "somes (None # xs) = somes xs"
| "somes (Some x # xs) = x # somes xs"

definition contents :: "'a event_buffer \<Rightarrow> nat \<Rightarrow> 'a list" where
  "contents b n = somes (take n (eb_mem b))"

definition written :: "'a event_buffer \<Rightarrow> nat \<Rightarrow> bool" where
  "written b n \<longleftrightarrow> n \<le> length (eb_mem b) \<and> list_all (\<lambda>c. c \<noteq> None) (take n (eb_mem b))"

definition as_slice :: "reader \<Rightarrow> ('a, 'y, 'z) buf_world_scheme \<Rightarrow> 'a list arcon_result" where
  "as_slice rd w =
     (let b = bw_bufs w ! rd_buffer rd in
      if written b (rd_len rd) then Ok (contents b (rd_len rd)) else Panic ub)"

definition reader_into_vec :: "reader \<Rightarrow> ('a, 'y, 'z) buf_world_scheme \<Rightarrow> 'a list arcon_result" where
  "reader_into_vec rd w =
     (let b = bw_bufs w ! rd_buffer rd in
      if written b (rd_len rd) then Ok (contents b (rd_len rd)) else Panic ub)"

text \<open>\<^verbatim>\<open>IntoIter\<close>: the reader, the next index and the end.\<close>

record buf_into_iter =
  it_reader :: reader
  it_current :: nat
  it_end :: nat

definition into_iter :: "reader \<Rightarrow> buf_into_iter" where
  "into_iter rd = \<lparr>it_reader = rd, it_current = 0, it_end = rd_len rd\<rparr>"

definition iter_next :: "('a, 'y, 'z) buf_world_scheme \<Rightarrow> (buf_into_iter, arcon_error, 'a option) action" where
  "iter_next w it =
     (if it_current it = it_end it then (Ok None, it)
      else
        (let mem = eb_mem (bw_bufs w ! rd_buffer (it_reader it)); c = it_current it;
             it = it\<lparr>it_current := c + 1\<rparr> in
         if c < length mem
         then (case mem ! c of Some v \<Rightarrow> (Ok (Some v), it) | None \<Rightarrow> (Panic ub, it))
         else (Panic ub, it)))"

definition iter_size_hint :: "buf_into_iter \<Rightarrow> nat \<times> nat option" where
  "iter_size_hint it = (let n = it_end it - it_current it in (n, Some n))"

text \<open>A \<^verbatim>\<open>for\<close> loop over the iterator; \<open>fuel\<close> bounds the number of items.\<close>

fun iter_collect ::
    "('a, 'y, 'z) buf_world_scheme \<Rightarrow> nat \<Rightarrow> (buf_into_iter, arcon_error, 'a list) action" where
  "iter_collect w 0 it = (NoFuel, it)"
| "iter_collect w (Suc fuel) it =
     bind_s (iter_next w) (\<lambda>x.
       case x of
         None \<Rightarrow> return_s []
       | Some v \<Rightarrow> bind_s (iter_collect w fuel) (\<lambda>vs. return_s (v # vs))) it"

section \<open>The pool\<close>

record pool_info =
  pi_buffer_size :: usize
  pi_capacity :: nat
  pi_limit :: usize

text \<open>
  \<open>bp_vec_capacity\<close> is \<^verbatim>\<open>Vec::capacity()\<close> of the vector of buffers, at least the capacity
  asked for; \<open>bp_buffers\<close> holds references into the store.
\<close>

record pool =
  bp_buffer_size :: usize
  bp_buffers :: "nat list"
  bp_vec_capacity :: nat
  bp_curr :: nat

text \<open>The loop of \<^verbatim>\<open>BufferPool::new\<close>. On an error the buffers made so far are dropped.\<close>

fun drop_buffers :: "'y system_alloc \<Rightarrow> 'a event_buffer list
    \<Rightarrow> (('a, 'y, 'z) buf_world_scheme, arcon_error, unit) action" where
  "drop_buffers S [] = return_s ()"
| "drop_buffers S (b # bs) = bind_s (event_buffer_drop S b) (\<lambda>_. drop_buffers S bs)"

fun pool_fill ::
    "'y system_alloc \<Rightarrow> usize \<Rightarrow> usize \<Rightarrow> usize \<Rightarrow> nat \<Rightarrow> nat \<Rightarrow> nat list
      \<Rightarrow> (('a, 'y, 'z) buf_world_scheme, arcon_error, nat list) action" where
  "pool_fill S sz align buffer_size start 0 rs w = (Ok rs, w)"
| "pool_fill S sz align buffer_size start (Suc n) rs w =
     (case event_buffer_new S sz align buffer_size w of
        (Ok r, w') \<Rightarrow> pool_fill S sz align buffer_size start n (rs @ [r]) w'
      | (Err e, w') \<Rightarrow>
          bind_s (drop_buffers S (drop start (bw_bufs w'))) (\<lambda>_ w.
            (Err e, w\<lparr>bw_bufs := take start (bw_bufs w)\<rparr>)) w'
      | (Panic m, w') \<Rightarrow> (Panic m, w')
      | (NoFuel, w') \<Rightarrow> (NoFuel, w'))"

definition pool_new ::
    "'y system_alloc \<Rightarrow> (nat \<Rightarrow> nat) \<Rightarrow> usize \<Rightarrow> usize \<Rightarrow> nat \<Rightarrow> usize
      \<Rightarrow> (('a, 'y, 'z) buf_world_scheme, arcon_error, pool) action" where
  "pool_new S vec_with_capacity sz align capacity buffer_size w =
     bind_s (pool_fill S sz align buffer_size (length (bw_bufs w)) capacity []) (\<lambda>rs.
       return_s \<lparr>bp_buffer_size = buffer_size, bp_buffers = rs,
         bp_vec_capacity = vec_with_capacity capacity, bp_curr = 0\<rparr>) w"

definition index_incr :: "pool \<Rightarrow> pool" where
  "index_incr p =
     (let p = p\<lparr>bp_curr := bp_curr p + 1\<rparr> in
      if bp_curr p = bp_vec_capacity p then p\<lparr>bp_curr := 0\<rparr> else p)"

definition pool_try_get ::
    "pool \<Rightarrow> (('a, 'y, 'z) buf_world_scheme, arcon_error, writer option \<times> pool) action" where
  "pool_try_get p w =
     (if bp_curr p < length (bp_buffers p)
      then
        (let buf = bp_buffers p ! bp_curr p in
         bind_s (event_buffer_try_reserve buf) (\<lambda>ok.
           return_s (if ok then Some (writer_new buf 0 (eb_capacity (bw_bufs w ! buf))) else None,
                     index_incr p)) w)
      else (Panic ''index out of bounds'', w))"

text \<open>
  \<^verbatim>\<open>BufferPool::get\<close> spins on \<^verbatim>\<open>try_get\<close> while readers on other threads release buffers.
  \<open>env\<close> is what the other threads do before each attempt, one item per attempt: the loop
  stops with \<open>NoFuel\<close> when the items run out, that is, when it has not returned yet.
\<close>

fun pool_get ::
    "('s \<Rightarrow> ('a, 'y, 'z) buf_world_scheme \<Rightarrow> ('a, 'y, 'z) buf_world_scheme) \<Rightarrow> 's list \<Rightarrow> pool
      \<Rightarrow> (('a, 'y, 'z) buf_world_scheme, arcon_error, writer \<times> pool \<times> 's list) action" where
  "pool_get env [] p w = (NoFuel, w)"
| "pool_get env (s # ss) p w =
     bind_s (pool_try_get p) (\<lambda>r.
       case r of
         (None, p') \<Rightarrow> pool_get env ss p'
       | (Some wr, p') \<Rightarrow> return_s (wr, p', ss)) (env s w)"

definition pool_capacity :: "pool \<Rightarrow> nat" where
  "pool_capacity p = bp_vec_capacity p"

section \<open>Network buffers\<close>

record network_buffer =
  nb_ptr :: alloc_ptr
  nb_id :: alloc_id
  nb_capacity :: usize

definition network_buffer_new ::
    "'y system_alloc \<Rightarrow> usize \<Rightarrow> ('y arcon_allocator, arcon_error, network_buffer) action" where
  "network_buffer_new S capacity a =
     (case alloc S 1 1 capacity a of
        (Ok (Alloc i ptr), a') \<Rightarrow> (Ok \<lparr>nb_ptr = ptr, nb_id = i, nb_capacity = capacity\<rparr>, a')
      | (Ok _, a') \<Rightarrow> (Err (new_arcon ''NetworkBuffer Alloc err''), a')
      | (Panic m, a') \<Rightarrow> (Panic m, a')
      | (Err _, a') \<Rightarrow> (Panic ub, a')
      | (NoFuel, a') \<Rightarrow> (NoFuel, a'))"

definition network_buffer_drop ::
    "'y system_alloc \<Rightarrow> network_buffer \<Rightarrow> ('y arcon_allocator, unit, unit) action" where
  "network_buffer_drop S b = dealloc S (nb_id b)"

section \<open>Pools hand out free buffers\<close>

text \<open>A pool whose vector has exactly the capacity asked for, and whose index is in range.\<close>

definition pool_ok :: "pool \<Rightarrow> 'a event_buffer list \<Rightarrow> bool" where
  "pool_ok p bufs \<longleftrightarrow> distinct (bp_buffers p) \<and> list_all (\<lambda>r. r < length bufs) (bp_buffers p) \<and>
     bp_vec_capacity p = length (bp_buffers p) \<and> bp_curr p < length (bp_buffers p)"

definition reserve :: "nat \<Rightarrow> ('a, 'y, 'z) buf_world_scheme \<Rightarrow> ('a, 'y, 'z) buf_world_scheme" where
  "reserve r w = w\<lparr>bw_bufs := (bw_bufs w)[r := (bw_bufs w ! r)\<lparr>eb_free := False\<rparr>]\<rparr>"

lemma index_incr_mod:
  "bp_vec_capacity p = n \<Longrightarrow> bp_curr p < n \<Longrightarrow> index_incr p = p\<lparr>bp_curr := (bp_curr p + 1) mod n\<rparr>"
  by (simp add: index_incr_def Let_def mod_Suc)

lemma pool_ok_index: "pool_ok p bufs \<Longrightarrow> pool_ok (index_incr p) bufs"
  by (cases "bp_buffers p") (auto simp: pool_ok_def index_incr_def Let_def)

lemma index_incr_buffers [simp]: "bp_buffers (index_incr p) = bp_buffers p"
  by (simp add: index_incr_def Let_def)

lemma pool_try_get_free:
  assumes "pool_ok p (bw_bufs w)" and "eb_free (bw_bufs w ! (bp_buffers p ! bp_curr p))"
  shows "pool_try_get p w
    = (Ok (Some (writer_new (bp_buffers p ! bp_curr p) 0
                  (eb_capacity (bw_bufs w ! (bp_buffers p ! bp_curr p)))), index_incr p),
       reserve (bp_buffers p ! bp_curr p) w)"
  using assms
  by (simp add: pool_ok_def pool_try_get_def bind_s_def event_buffer_try_reserve_def reserve_def Let_def)

lemma pool_try_get_busy:
  assumes "pool_ok p (bw_bufs w)" and "\<not> eb_free (bw_bufs w ! (bp_buffers p ! bp_curr p))"
  shows "pool_try_get p w = (Ok (None, index_incr p), w)"
  using assms
  by (simp add: pool_ok_def pool_try_get_def bind_s_def event_buffer_try_reserve_def Let_def)

lemma pool_curr_mem: "pool_ok p bufs \<Longrightarrow> bp_buffers p ! bp_curr p \<in> set (bp_buffers p)"
  by (simp add: pool_ok_def)

lemma pool_get_free:
  assumes "pool_ok p (bw_bufs (env s w))" and "eb_free (bw_bufs (env s w) ! (bp_buffers p ! bp_curr p))"
  shows "pool_get env (s # ss) p w
    = (Ok (writer_new (bp_buffers p ! bp_curr p) 0
             (eb_capacity (bw_bufs (env s w) ! (bp_buffers p ! bp_curr p))), index_incr p, ss),
       reserve (bp_buffers p ! bp_curr p) (env s w))"
  by (simp add: pool_try_get_free [OF assms])

lemma pool_get_busy:
  assumes "pool_ok p (bw_bufs (env s w))" and "\<not> eb_free (bw_bufs (env s w) ! (bp_buffers p ! bp_curr p))"
  shows "pool_get env (s # ss) p w = pool_get env ss (index_incr p) (env s w)"
  by (simp add: pool_try_get_busy [OF assms])

text \<open>
  What \<^verbatim>\<open>get\<close> returns: a writer at the start of a buffer that was free the moment before, in
  a world that the other threads' steps kept inside any invariant \<open>P\<close>.
\<close>

lemma pool_get_result:
  assumes "pool_ok p (bw_bufs w)" and "P w"
    and env: "\<And>s w. P w \<Longrightarrow> P (env s w) \<and> length (bw_bufs (env s w)) = length (bw_bufs w)"
  shows "(\<exists>w'. pool_get env ss p w = (NoFuel, w') \<and> P w') \<or>
    (\<exists>r p' ss' w1. pool_get env ss p w
        = (Ok (writer_new r 0 (eb_capacity (bw_bufs w1 ! r)), p', ss'), reserve r w1) \<and> P w1 \<and>
      eb_free (bw_bufs w1 ! r) \<and> r \<in> set (bp_buffers p) \<and> bp_buffers p' = bp_buffers p \<and>
      length (bw_bufs w1) = length (bw_bufs w) \<and> pool_ok p' (bw_bufs w1))"
  using assms(1,2)
proof (induction ss arbitrary: p w)
  case Nil
  then show ?case by simp
next
  case (Cons s ss)
  let ?w = "env s w"
  have w: "P ?w" "length (bw_bufs ?w) = length (bw_bufs w)" using env Cons.prems(2) by blast+
  then have ok: "pool_ok p (bw_bufs ?w)" using Cons.prems(1) by (simp add: pool_ok_def)
  let ?r = "bp_buffers p ! bp_curr p"
  show ?case
  proof (cases "eb_free (bw_bufs ?w ! ?r)")
    case True
    have "bp_buffers (index_incr p) = bp_buffers p" "pool_ok (index_incr p) (bw_bufs ?w)"
      using ok by (simp_all add: pool_ok_index)
    then show ?thesis
      unfolding pool_get_free [of p env s w, OF ok True]
      using True w pool_curr_mem [OF ok] by blast
  next
    case False
    show ?thesis
      unfolding pool_get_busy [of p env s w, OF ok False]
      using Cons.IH [OF pool_ok_index [OF ok] w(1)] w(2) by simp
  qed
qed

text \<open>
  \<^verbatim>\<open>get\<close> returns within one round over the pool once a buffer is free before the first
  attempt, whatever the other threads do later, as long as they only release buffers: the loop
  visits every buffer in turn.
\<close>

lemma pool_get_returns:
  assumes "pool_ok p (bw_bufs w)" and "d < length (bp_buffers p)"
    and "eb_free (bw_bufs (env (hd ss) w) ! (bp_buffers p ! ((bp_curr p + d) mod length (bp_buffers p))))"
    and "d < length ss"
    and env: "\<And>s w r. length (bw_bufs (env s w)) = length (bw_bufs w) \<and>
      (eb_free (bw_bufs w ! r) \<longrightarrow> eb_free (bw_bufs (env s w) ! r))"
  shows "\<exists>res w'. pool_get env ss p w = (Ok res, w')"
  using assms(1-4)
proof (induction ss arbitrary: p w d)
  case Nil
  then show ?case by simp
next
  case (Cons s ss)
  let ?w = "env s w"
  let ?n = "length (bp_buffers p)"
  have ok: "pool_ok p (bw_bufs ?w)" using Cons.prems(1) env [of s w] by (simp add: pool_ok_def)
  show ?case
  proof (cases "eb_free (bw_bufs ?w ! (bp_buffers p ! bp_curr p))")
    case True
    then show ?thesis using pool_get_free [of p env s w, OF ok] by blast
  next
    case False
    have curr: "bp_curr p < ?n" "bp_vec_capacity p = ?n" using ok by (simp_all add: pool_ok_def)
    have "d \<noteq> 0"
    proof
      assume "d = 0"
      then have "eb_free (bw_bufs ?w ! (bp_buffers p ! bp_curr p))" using Cons.prems(3) curr by simp
      with False show False by blast
    qed
    then obtain d' where d: "d = Suc d'" by (cases d) auto
    have idx: "(bp_curr (index_incr p) + d') mod ?n = (bp_curr p + d) mod ?n"
      using curr by (simp add: index_incr_mod d mod_simps)
    show ?thesis
      unfolding pool_get_busy [of p env s w, OF ok False]
      by (rule Cons.IH [of _ _ d'])
        (use pool_ok_index [OF ok] Cons.prems env [of "hd ss" ?w] d idx in auto)
  qed
qed

section \<open>Contents\<close>

lemma contents_0 [simp]: "contents b 0 = []"
  by (simp add: contents_def)

lemma contents_free [simp]: "contents (b\<lparr>eb_free := f\<rparr>) n = contents b n"
  by (simp add: contents_def)

lemma written_free [simp]: "written (b\<lparr>eb_free := f\<rparr>) n = written b n"
  by (simp add: written_def)

lemma written_0 [simp]: "written b 0"
  by (simp add: written_def)

lemma take_push: "n < length m \<Longrightarrow> take (Suc n) (m[n := x]) = take n m @ [x]"
  by (simp add: take_Suc_conv_app_nth)

lemma somes_append [simp]: "somes (xs @ ys) = somes xs @ somes ys"
  by (induction xs rule: somes.induct) simp_all

lemma length_somes: "list_all (\<lambda>c. c \<noteq> None) xs \<Longrightarrow> length (somes xs) = length xs"
  by (induction xs rule: somes.induct) simp_all

lemma contents_push:
  "n < length (eb_mem b) \<Longrightarrow> contents (b\<lparr>eb_mem := (eb_mem b)[n := Some v]\<rparr>) (Suc n) = contents b n @ [v]"
  by (simp add: contents_def take_push)

lemma written_push:
  "written b n \<Longrightarrow> n < length (eb_mem b) \<Longrightarrow> written (b\<lparr>eb_mem := (eb_mem b)[n := Some v]\<rparr>) (Suc n)"
  by (simp add: written_def take_push)

lemma contents_length: "written b n \<Longrightarrow> length (contents b n) = n"
  by (simp add: written_def contents_def length_somes)

text \<open>The iterator of a reader yields exactly its slice, then stops.\<close>

lemma contents_Cons:
  assumes "written b n" "c < n"
  shows "\<exists>v. eb_mem b ! c = Some v \<and>
    somes (drop c (take n (eb_mem b))) = v # somes (drop (Suc c) (take n (eb_mem b)))"
proof -
  have "c < length (take n (eb_mem b))" using assms by (simp add: written_def)
  then have d: "drop c (take n (eb_mem b)) = eb_mem b ! c # drop (Suc c) (take n (eb_mem b))"
    using assms by (simp add: Cons_nth_drop_Suc [symmetric] del: drop_take take_drop)
  have "eb_mem b ! c \<noteq> None"
    using assms by (auto simp: written_def list_all_length)
  with d show ?thesis by auto
qed

lemma iter_collect_from:
  assumes wr: "written (bw_bufs w ! rd_buffer rd) (rd_len rd)" and ck: "c + k = rd_len rd"
  shows "\<exists>it. iter_collect w (Suc k) \<lparr>it_reader = rd, it_current = c, it_end = rd_len rd\<rparr>
    = (Ok (somes (drop c (take (rd_len rd) (eb_mem (bw_bufs w ! rd_buffer rd))))), it)"
  using ck
proof (induction k arbitrary: c)
  case 0
  then show ?case using wr
    by (simp add: iter_next_def bind_s_def written_def)
next
  case (Suc k)
  let ?b = "bw_bufs w ! rd_buffer rd"
  obtain v where v: "eb_mem ?b ! c = Some v"
      "somes (drop c (take (rd_len rd) (eb_mem ?b))) = v # somes (drop (Suc c) (take (rd_len rd) (eb_mem ?b)))"
    using contents_Cons [OF wr, of c] Suc.prems by auto
  have nxt: "iter_next w \<lparr>it_reader = rd, it_current = c, it_end = rd_len rd\<rparr>
      = (Ok (Some v), \<lparr>it_reader = rd, it_current = Suc c, it_end = rd_len rd\<rparr>)"
    using wr Suc.prems v(1) by (auto simp: iter_next_def written_def Let_def)
  obtain it where "iter_collect w (Suc k) \<lparr>it_reader = rd, it_current = Suc c, it_end = rd_len rd\<rparr>
      = (Ok (somes (drop (Suc c) (take (rd_len rd) (eb_mem ?b)))), it)"
    using Suc.IH [of "Suc c"] Suc.prems by auto
  then have "iter_collect w (Suc (Suc k)) \<lparr>it_reader = rd, it_current = c, it_end = rd_len rd\<rparr>
      = (Ok (v # somes (drop (Suc c) (take (rd_len rd) (eb_mem ?b)))), it)"
    by (subst iter_collect.simps) (simp add: nxt del: iter_collect.simps)
  then show ?case using v(2) by simp
qed

end
