(* ===== verification/Stream_Data.thy ===== *)
theory Stream_Data
  imports Arcon_Prelude
begin

text \<open>
  Model of \<^verbatim>\<open>src/data/mod.rs\<close>: the events that flow between components, the messages that
  batch them, and the identifiers of senders. The element type of a stream is \<open>'a\<close>; the method
  \<^verbatim>\<open>get_key\<close> of its \<^verbatim>\<open>ArconType\<close> is passed to the operations that use it. The derived
  \<^verbatim>\<open>Ord\<close> of watermarks, epochs and node ids is the order of the single field.
\<close>

section \<open>Watermarks, epochs and node ids\<close>

datatype watermark = Watermark (wm_timestamp: u64)

datatype epoch = Epoch (ep_epoch: u64)

datatype node_id = NodeID (nid: u32)

instantiation watermark :: linorder
begin

definition less_eq_watermark :: "watermark \<Rightarrow> watermark \<Rightarrow> bool" where
  "less_eq_watermark a b \<longleftrightarrow> wm_timestamp a \<le> wm_timestamp b"

definition less_watermark :: "watermark \<Rightarrow> watermark \<Rightarrow> bool" where
  "less_watermark a b \<longleftrightarrow> wm_timestamp a < wm_timestamp b"

instance
  by standard (auto simp: less_eq_watermark_def less_watermark_def watermark.expand)

end

instantiation epoch :: linorder
begin

definition less_eq_epoch :: "epoch \<Rightarrow> epoch \<Rightarrow> bool" where
  "less_eq_epoch a b \<longleftrightarrow> ep_epoch a \<le> ep_epoch b"

definition less_epoch :: "epoch \<Rightarrow> epoch \<Rightarrow> bool" where
  "less_epoch a b \<longleftrightarrow> ep_epoch a < ep_epoch b"

instance
  by standard (auto simp: less_eq_epoch_def less_epoch_def epoch.expand)

end

instantiation node_id :: linorder
begin

definition less_eq_node_id :: "node_id \<Rightarrow> node_id \<Rightarrow> bool" where
  "less_eq_node_id a b \<longleftrightarrow> nid a \<le> nid b"

definition less_node_id :: "node_id \<Rightarrow> node_id \<Rightarrow> bool" where
  "less_node_id a b \<longleftrightarrow> nid a < nid b"

instance
  by standard (auto simp: less_eq_node_id_def less_node_id_def node_id.expand)

end

definition watermark_new :: "u64 \<Rightarrow> watermark" where
  "watermark_new ts = Watermark ts"

definition epoch_new :: "u64 \<Rightarrow> epoch" where
  "epoch_new e = Epoch e"

definition node_id_new :: "u32 \<Rightarrow> node_id" where
  "node_id_new i = NodeID i"

section \<open>Events and messages\<close>

record 'a arcon_element =
  data :: 'a
  timestamp :: "u64 option"

definition element_new :: "'a \<Rightarrow> 'a arcon_element" where
  "element_new d = \<lparr>data = d, timestamp = None\<rparr>"

definition element_with_timestamp :: "'a \<Rightarrow> u64 \<Rightarrow> 'a arcon_element" where
  "element_with_timestamp d ts = \<lparr>data = d, timestamp = Some ts\<rparr>"

datatype 'a arcon_event =
    ElementEv "'a arcon_element"
  | WatermarkEv watermark
  | EpochEv epoch
  | DeathEv string

text \<open>\<^verbatim>\<open>ArconEventWrapper\<close>: the optional field of the protobuf message.\<close>

datatype 'a event_wrapper = EventWrapper (ew_inner: "'a arcon_event option")

definition wrap_event :: "'a arcon_event \<Rightarrow> 'a event_wrapper" where
  "wrap_event e = EventWrapper (Some e)"

definition unwrap_event :: "'a event_wrapper \<Rightarrow> ('e, 'a arcon_event) outcome" where
  "unwrap_event ew =
     unwrap_or_panic ''ArconEventWrapper.inner is None. Prost deserialization error?'' (ew_inner ew)"

lemma unwrap_wrap [simp]: "unwrap_event (wrap_event e) = Ok e"
  by (simp add: unwrap_event_def wrap_event_def unwrap_or_panic_def)

text \<open>
  A message in a mailbox refers to an event buffer; a raw message carries its events. A node
  sees both as a batch of events and the sender, so the model of the node uses the second.
\<close>

record 'a raw_message =
  rm_events :: "'a event_wrapper list"
  rm_sender :: node_id

end
