(* ===== verification/Channel_Strategies.thy ===== *)
theory Channel_Strategies
  imports Event_Buffers Stream_Data "HOL-Library.Multiset"
begin

text \<open>
  Model of \<^verbatim>\<open>src/stream/channel\<close>: how a node sends events downstream. A strategy writes
  events into buffers of its pool and sends full buffers (and every buffer that ends in a
  watermark, an epoch or a death) as messages.

  The world holds the buffers, the mailboxes of local receivers (messages that refer to a buffer
  and have not been consumed yet), everything consumed or serialised so far, and a schedule: one
  item per attempt of \<^verbatim>\<open>BufferPool::get\<close>, listing the local receivers that consume one
  message each before the attempt. Consuming a message reads its buffer and releases it.
\<close>

section \<open>Channels and mailboxes\<close>

datatype flight_serde = Unsafe | Reliable

text \<open>A local receiver and a remote path are known by number.\<close>

datatype channel = Local nat | Remote nat flight_serde

datatype ser_error = BufferError string | OtherSerError string

record ('a, 'y) chan_world = "('a event_wrapper, 'y) buf_world" +
  cw_mailbox :: "(nat \<times> reader \<times> node_id) list"
  cw_consumed :: "(channel \<times> 'a event_wrapper list \<times> node_id) list"
  cw_schedule :: "nat list list"

text \<open>\<^verbatim>\<open>tell_serialised\<close> of the network layer: a result per path, serialiser and message.\<close>

type_synonym 'a tell_serialised = "nat \<Rightarrow> flight_serde \<Rightarrow> 'a raw_message \<Rightarrow> (ser_error, unit) outcome"

text \<open>A receiver takes its oldest message, reads the events and drops the reader.\<close>

definition consume :: "nat \<Rightarrow> ('a, 'y) chan_world \<Rightarrow> ('a, 'y) chan_world" where
  "consume a w =
     (case find (\<lambda>m. fst m = a) (cw_mailbox w) of
        None \<Rightarrow> w
      | Some (b, rd, s) \<Rightarrow>
          reader_drop rd
            (w\<lparr>cw_mailbox := remove1 (b, rd, s) (cw_mailbox w),
               cw_consumed := cw_consumed w @
                 [(Local a, contents (bw_bufs w ! rd_buffer rd) (rd_len rd), s)]\<rparr>))"

definition consume_all :: "nat list \<Rightarrow> ('a, 'y) chan_world \<Rightarrow> ('a, 'y) chan_world" where
  "consume_all as w = fold consume as w"

text \<open>\<^verbatim>\<open>send\<close>: a local message keeps the reader; a remote one copies the events, drops the
  reader and serialises.\<close>

definition send ::
    "'a tell_serialised \<Rightarrow> channel \<Rightarrow> reader \<Rightarrow> node_id
      \<Rightarrow> (('a, 'y) chan_world, arcon_error, ser_error option) action" where
  "send T ch rd sender w =
     (case ch of
        Local a \<Rightarrow> (Ok None, w\<lparr>cw_mailbox := cw_mailbox w @ [(a, rd, sender)]\<rparr>)
      | Remote p fs \<Rightarrow>
          bind_s (query (reader_into_vec rd)) (\<lambda>events w.
            (let w = reader_drop rd w in
             case T p fs \<lparr>rm_events = events, rm_sender = sender\<rparr> of
               Ok _ \<Rightarrow> (Ok None, w\<lparr>cw_consumed := cw_consumed w @ [(ch, events, sender)]\<rparr>)
             | Err e \<Rightarrow> (Ok (Some e), w)
             | Panic m \<Rightarrow> (Panic m, w)
             | NoFuel \<Rightarrow> (NoFuel, w))) w)"

text \<open>\<^verbatim>\<open>if let Err(SerError::BufferError(err)) = send(..) { panic!(..) }\<close>\<close>

definition send_or_panic ::
    "'a tell_serialised \<Rightarrow> channel \<Rightarrow> reader \<Rightarrow> node_id
      \<Rightarrow> (('a, 'y) chan_world, arcon_error, unit) action" where
  "send_or_panic T ch rd sender =
     bind_s (send T ch rd sender) (\<lambda>r w.
       case r of
         Some (BufferError err) \<Rightarrow> (Panic (''Buffer Error '' @ err), w)
       | _ \<Rightarrow> (Ok (), w))"

text \<open>\<^verbatim>\<open>BufferPool::get\<close> with the receivers of the schedule running.\<close>

definition get_writer :: "pool \<Rightarrow> (('a, 'y) chan_world, arcon_error, writer \<times> pool) action" where
  "get_writer p w =
     (case pool_get consume_all (cw_schedule w) p w of
        (Ok (wr, p', ss), w') \<Rightarrow> (Ok (wr, p'), w'\<lparr>cw_schedule := ss\<rparr>)
      | (Err e, w') \<Rightarrow> (Err e, w')
      | (Panic m, w') \<Rightarrow> (Panic m, w')
      | (NoFuel, w') \<Rightarrow> (NoFuel, w'\<lparr>cw_schedule := []\<rparr>))"

section \<open>Forward\<close>

record forward =
  fw_pool :: pool
  fw_curr :: writer
  fw_channel :: channel
  fw_sender :: node_id
  fw_pool_info :: pool_info

text \<open>\<open>lift_w\<close> runs an action of the world below the strategy.\<close>

definition lift_w :: "('w, 'e, 'x) action \<Rightarrow> ('s \<times> 'w, 'e, 'x) action" where
  "lift_w m = (\<lambda>(s, w). case m w of (r, w') \<Rightarrow> (r, (s, w')))"

definition new_pool_and_writer ::
    "'y system_alloc \<Rightarrow> (nat \<Rightarrow> nat) \<Rightarrow> usize \<Rightarrow> usize \<Rightarrow> pool_info
      \<Rightarrow> (('a, 'y) chan_world, arcon_error, writer \<times> pool) action" where
  "new_pool_and_writer S vc sz align i =
     bind_s (\<lambda>w. case pool_new S vc sz align (pi_capacity i) (pi_buffer_size i) w of
                   (r, w') \<Rightarrow> (expect ''failed to initialise buffer pool'' r, w')) (\<lambda>p.
     bind_s (pool_try_get p) (\<lambda>(wr, p').
       query (\<lambda>_. bind_o (unwrap_or_panic ''failed to fetch initial buffer'' wr) (\<lambda>wr. Ok (wr, p')))))"

definition forward_new ::
    "'y system_alloc \<Rightarrow> (nat \<Rightarrow> nat) \<Rightarrow> usize \<Rightarrow> usize \<Rightarrow> channel \<Rightarrow> node_id \<Rightarrow> pool_info
      \<Rightarrow> (('a, 'y) chan_world, arcon_error, forward) action" where
  "forward_new S vc sz align ch sender i =
     bind_s (new_pool_and_writer S vc sz align i) (\<lambda>(wr, p).
       return_s \<lparr>fw_pool = p, fw_curr = wr, fw_channel = ch, fw_sender = sender, fw_pool_info = i\<rparr>)"

definition forward_flush :: "'a tell_serialised \<Rightarrow> (forward \<times> ('a, 'y) chan_world, arcon_error, unit) action" where
  "forward_flush T = (\<lambda>(s, w).
     bind_s (lift_w (send_or_panic T (fw_channel s) (writer_reader (fw_curr s)) (fw_sender s))) (\<lambda>_.
     bind_s (lift_w (get_writer (fw_pool s))) (\<lambda>(wr, p) (s, w).
       (Ok (), (s\<lparr>fw_curr := wr, fw_pool := p\<rparr>, w)))) (s, w))"

definition forward_push :: "'a event_wrapper
    \<Rightarrow> (forward \<times> ('a, 'y) chan_world, arcon_error, 'a event_wrapper option) action" where
  "forward_push e = (\<lambda>(s, w).
     bind_s (lift_w (writer_push e (fw_curr s))) (\<lambda>(r, wr) (s, w).
       (Ok r, (s\<lparr>fw_curr := wr\<rparr>, w))) (s, w))"

definition forward_add ::
    "'a tell_serialised \<Rightarrow> 'a arcon_event \<Rightarrow> (forward \<times> ('a, 'y) chan_world, arcon_error, unit) action" where
  "forward_add T event =
     (case event of
        ElementEv _ \<Rightarrow>
          bind_s (forward_push (wrap_event event)) (\<lambda>r.
            case r of
              Some e \<Rightarrow>
                bind_s (forward_flush T) (\<lambda>_. bind_s (forward_push e) (\<lambda>_. return_s ()))
            | None \<Rightarrow> return_s ())
      | _ \<Rightarrow>
          bind_s (forward_push (wrap_event event)) (\<lambda>r.
            case r of
              Some e \<Rightarrow>
                bind_s (forward_flush T) (\<lambda>_. bind_s (forward_push e) (\<lambda>_. forward_flush T))
            | None \<Rightarrow> forward_flush T))"

section \<open>Broadcast\<close>

record broadcast =
  bc_pool :: pool
  bc_channels :: "channel list"
  bc_curr :: writer
  bc_sender :: node_id
  bc_pool_info :: pool_info

definition broadcast_new ::
    "'y system_alloc \<Rightarrow> (nat \<Rightarrow> nat) \<Rightarrow> usize \<Rightarrow> usize \<Rightarrow> channel list \<Rightarrow> node_id \<Rightarrow> pool_info
      \<Rightarrow> (('a, 'y) chan_world, arcon_error, broadcast) action" where
  "broadcast_new S vc sz align chs sender i =
     (if \<not> length chs > 1
      then query (\<lambda>_. Panic ''Number of Channels must exceed 1 for a Broadcast strategy'')
      else if \<not> length chs < pi_capacity i
      then query (\<lambda>_. Panic ''Strategy must be initialised with a pool capacity larger than amount of channels'')
      else
        bind_s (new_pool_and_writer S vc sz align i) (\<lambda>(wr, p).
          return_s \<lparr>bc_pool = p, bc_channels = chs, bc_curr = wr, bc_sender = sender, bc_pool_info = i\<rparr>))"

text \<open>The loop of \<^verbatim>\<open>flush\<close>: every channel but the last gets a copy in a buffer of its own.\<close>

fun broadcast_send ::
    "'a tell_serialised \<Rightarrow> channel list \<Rightarrow> (broadcast \<times> ('a, 'y) chan_world, arcon_error, unit) action" where
  "broadcast_send T [] = return_s ()"
| "broadcast_send T [ch] = (\<lambda>(s, w).
     lift_w (send_or_panic T ch (writer_reader (bc_curr s)) (bc_sender s)) (s, w))"
| "broadcast_send T (ch # ch' # chs) = (\<lambda>(s, w).
     bind_s (lift_w (get_writer (bc_pool s))) (\<lambda>(wr, p) (s, w).
       bind_s (lift_w (copy_from_writer wr (bc_curr s))) (\<lambda>wr (s, w).
         bind_s (lift_w (send_or_panic T ch (writer_reader wr) (bc_sender s)))
           (\<lambda>_. broadcast_send T (ch' # chs)) (s, w)) (s\<lparr>bc_pool := p\<rparr>, w)) (s, w))"

definition broadcast_flush :: "'a tell_serialised \<Rightarrow> (broadcast \<times> ('a, 'y) chan_world, arcon_error, unit) action" where
  "broadcast_flush T = (\<lambda>(s, w).
     bind_s (broadcast_send T (bc_channels s)) (\<lambda>_ (s, w).
       bind_s (lift_w (get_writer (bc_pool s))) (\<lambda>(wr, p) (s, w).
         (Ok (), (s\<lparr>bc_curr := wr, bc_pool := p\<rparr>, w))) (s, w)) (s, w))"

definition broadcast_push :: "'a event_wrapper
    \<Rightarrow> (broadcast \<times> ('a, 'y) chan_world, arcon_error, 'a event_wrapper option) action" where
  "broadcast_push e = (\<lambda>(s, w).
     bind_s (lift_w (writer_push e (bc_curr s))) (\<lambda>(r, wr) (s, w).
       (Ok r, (s\<lparr>bc_curr := wr\<rparr>, w))) (s, w))"

definition broadcast_add ::
    "'a tell_serialised \<Rightarrow> 'a arcon_event \<Rightarrow> (broadcast \<times> ('a, 'y) chan_world, arcon_error, unit) action" where
  "broadcast_add T event =
     (case event of
        ElementEv _ \<Rightarrow>
          bind_s (broadcast_push (wrap_event event)) (\<lambda>r.
            case r of
              Some e \<Rightarrow>
                bind_s (broadcast_flush T) (\<lambda>_. bind_s (broadcast_push e) (\<lambda>_. return_s ()))
            | None \<Rightarrow> return_s ())
      | _ \<Rightarrow>
          bind_s (broadcast_push (wrap_event event)) (\<lambda>r.
            case r of
              Some e \<Rightarrow>
                bind_s (broadcast_flush T) (\<lambda>_. bind_s (broadcast_push e) (\<lambda>_. broadcast_flush T))
            | None \<Rightarrow> broadcast_flush T))"

section \<open>Round robin\<close>

record round_robin =
  rr_pool :: pool
  rr_curr :: writer
  rr_channels :: "channel list"
  rr_sender :: node_id
  rr_pool_info :: pool_info
  rr_index :: nat

definition round_robin_new ::
    "'y system_alloc \<Rightarrow> (nat \<Rightarrow> nat) \<Rightarrow> usize \<Rightarrow> usize \<Rightarrow> channel list \<Rightarrow> node_id \<Rightarrow> pool_info
      \<Rightarrow> (('a, 'y) chan_world, arcon_error, round_robin) action" where
  "round_robin_new S vc sz align chs sender i =
     (if \<not> length chs > 1
      then query (\<lambda>_. Panic ''Number of Channels must exceed 1 for a RoundRobin strategy'')
      else
        bind_s (new_pool_and_writer S vc sz align i) (\<lambda>(wr, p).
          return_s \<lparr>rr_pool = p, rr_curr = wr, rr_channels = chs, rr_sender = sender,
            rr_pool_info = i, rr_index = 0\<rparr>))"

definition round_robin_flush ::
    "'a tell_serialised \<Rightarrow> (round_robin \<times> ('a, 'y) chan_world, arcon_error, unit) action" where
  "round_robin_flush T = (\<lambda>(s, w).
     if rr_index s < length (rr_channels s)
     then
       bind_s (lift_w (send_or_panic T (rr_channels s ! rr_index s) (writer_reader (rr_curr s)) (rr_sender s)))
         (\<lambda>_ (s, w).
           (let s = s\<lparr>rr_index := rr_index s + 1\<rparr>;
                s = (if rr_index s \<ge> length (rr_channels s) then s\<lparr>rr_index := 0\<rparr> else s) in
            bind_s (lift_w (get_writer (rr_pool s))) (\<lambda>(wr, p) (s, w).
              (Ok (), (s\<lparr>rr_curr := wr, rr_pool := p\<rparr>, w))) (s, w))) (s, w)
     else (Panic ''Bad channel setup'', (s, w)))"

definition round_robin_push :: "'a event_wrapper
    \<Rightarrow> (round_robin \<times> ('a, 'y) chan_world, arcon_error, 'a event_wrapper option) action" where
  "round_robin_push e = (\<lambda>(s, w).
     bind_s (lift_w (writer_push e (rr_curr s))) (\<lambda>(r, wr) (s, w).
       (Ok r, (s\<lparr>rr_curr := wr\<rparr>, w))) (s, w))"

definition round_robin_add ::
    "'a tell_serialised \<Rightarrow> 'a arcon_event \<Rightarrow> (round_robin \<times> ('a, 'y) chan_world, arcon_error, unit) action" where
  "round_robin_add T event =
     (case event of
        ElementEv _ \<Rightarrow>
          bind_s (round_robin_push (wrap_event event)) (\<lambda>r.
            case r of
              Some e \<Rightarrow>
                bind_s (round_robin_flush T) (\<lambda>_. bind_s (round_robin_push e) (\<lambda>_. return_s ()))
            | None \<Rightarrow> return_s ())
      | _ \<Rightarrow>
          bind_s (round_robin_push (wrap_event event)) (\<lambda>r.
            case r of
              Some e \<Rightarrow>
                bind_s (round_robin_flush T) (\<lambda>_. bind_s (round_robin_push e) (\<lambda>_. round_robin_flush T))
            | None \<Rightarrow> round_robin_flush T))"

section \<open>Key by\<close>

text \<open>\<open>kb_buffers\<close> is the hash map from key range to channel and writer, in its own order.\<close>

record key_by =
  kb_pool :: pool
  kb_max_key :: u64
  kb_key_ranges :: u64
  kb_sender :: node_id
  kb_buffers :: "(usize \<times> channel \<times> writer) list"
  kb_pool_info :: pool_info

fun key_by_fill ::
    "usize \<Rightarrow> channel list \<Rightarrow> (usize \<times> channel \<times> writer) list
      \<Rightarrow> (pool \<times> ('a, 'y) chan_world, arcon_error, (usize \<times> channel \<times> writer) list) action" where
  "key_by_fill i [] m = return_s m"
| "key_by_fill i (ch # chs) m = (\<lambda>(p, w).
     bind_s (lift_w (pool_try_get p)) (\<lambda>(wr, p') (_, w).
       bind_s (query (\<lambda>_. unwrap_or_panic ''failed to fetch initial buffer'' wr))
         (\<lambda>wr. key_by_fill (i + 1) chs (AList.update i (ch, wr) m)) (p', w)) (p, w))"

definition key_by_new ::
    "'y system_alloc \<Rightarrow> (nat \<Rightarrow> nat) \<Rightarrow> usize \<Rightarrow> usize \<Rightarrow> u64 \<Rightarrow> channel list \<Rightarrow> node_id \<Rightarrow> pool_info
      \<Rightarrow> (('a, 'y) chan_world, arcon_error, key_by) action" where
  "key_by_new S vc sz align max_key chs sender i =
     (if \<not> length chs < pi_capacity i
      then query (\<lambda>_. Panic ''Strategy must be initialised with a pool capacity larger than amount of channels'')
      else
        bind_s (\<lambda>w. case pool_new S vc sz align (pi_capacity i) (pi_buffer_size i) w of
                      (r, w') \<Rightarrow> (expect ''failed to initialise BufferPool'' r, w')) (\<lambda>p w.
          case key_by_fill 0 chs [] (p, w) of
            (r, (p', w')) \<Rightarrow>
              (bind_o r (\<lambda>m. Ok \<lparr>kb_pool = p', kb_max_key = max_key,
                 kb_key_ranges = word_of_nat (length chs), kb_sender = sender, kb_buffers = m,
                 kb_pool_info = i\<rparr>), w')))"

definition key_index :: "u64 \<Rightarrow> u64 \<Rightarrow> u64 \<Rightarrow> usize arcon_result" where
  "key_index k max_key key_ranges =
     bind_o (rem_u k max_key) (\<lambda>key.
     bind_o (mul_u key key_ranges) (\<lambda>x.
     div_u x max_key))"

definition key_by_flush_buffer ::
    "'a tell_serialised \<Rightarrow> node_id \<Rightarrow> channel \<Rightarrow> writer
      \<Rightarrow> (pool \<times> ('a, 'y) chan_world, arcon_error, writer) action" where
  "key_by_flush_buffer T sender ch wr = (\<lambda>(p, w).
     bind_s (lift_w (send_or_panic T ch (writer_reader wr) sender)) (\<lambda>_ (p, w).
       bind_s (lift_w (get_writer p)) (\<lambda>(wr', p') (_, w). (Ok wr', (p', w))) (p, w)) (p, w))"

text \<open>Pushing to one buffer: a full one is flushed first and the returned event goes to the new one.\<close>

definition key_by_push ::
    "'a tell_serialised \<Rightarrow> node_id \<Rightarrow> 'a event_wrapper \<Rightarrow> channel \<Rightarrow> writer
      \<Rightarrow> (pool \<times> ('a, 'y) chan_world, arcon_error, writer) action" where
  "key_by_push T sender e ch wr =
     bind_s (lift_w (writer_push e wr)) (\<lambda>(r, wr).
       case r of
         None \<Rightarrow> return_s wr
       | Some e \<Rightarrow>
           bind_s (key_by_flush_buffer T sender ch wr) (\<lambda>wr.
           bind_s (lift_w (writer_push e wr)) (\<lambda>(_, wr). return_s wr)))"

text \<open>A loop over \<^verbatim>\<open>iter_mut\<close> of the buffer map.\<close>

fun key_by_each ::
    "(channel \<Rightarrow> writer \<Rightarrow> (pool \<times> ('a, 'y) chan_world, arcon_error, writer) action)
      \<Rightarrow> (usize \<times> channel \<times> writer) list \<Rightarrow> (usize \<times> channel \<times> writer) list
      \<Rightarrow> (pool \<times> ('a, 'y) chan_world, arcon_error, (usize \<times> channel \<times> writer) list) action" where
  "key_by_each f finished [] = return_s finished"
| "key_by_each f finished ((i, ch, wr) # m) =
     bind_s (f ch wr) (\<lambda>wr'. key_by_each f (finished @ [(i, ch, wr')]) m)"

definition key_by_run ::
    "(channel \<Rightarrow> writer \<Rightarrow> (pool \<times> ('a, 'y) chan_world, arcon_error, writer) action)
      \<Rightarrow> (key_by \<times> ('a, 'y) chan_world, arcon_error, unit) action" where
  "key_by_run f = (\<lambda>(s, w).
     case key_by_each f [] (kb_buffers s) (kb_pool s, w) of
       (Ok m, (p, w')) \<Rightarrow> (Ok (), (s\<lparr>kb_buffers := m, kb_pool := p\<rparr>, w'))
     | (Err e, (p, w')) \<Rightarrow> (Err e, (s, w'))
     | (Panic e, (p, w')) \<Rightarrow> (Panic e, (s, w'))
     | (NoFuel, (p, w')) \<Rightarrow> (NoFuel, (s, w')))"

definition key_by_flush :: "'a tell_serialised \<Rightarrow> (key_by \<times> ('a, 'y) chan_world, arcon_error, unit) action" where
  "key_by_flush T = (\<lambda>(s, w). key_by_run (key_by_flush_buffer T (kb_sender s)) (s, w))"

definition key_by_add ::
    "('a \<Rightarrow> u64) \<Rightarrow> 'a tell_serialised \<Rightarrow> 'a arcon_event
      \<Rightarrow> (key_by \<times> ('a, 'y) chan_world, arcon_error, unit) action" where
  "key_by_add get_key T event =
     (case event of
        ElementEv element \<Rightarrow> (\<lambda>(s, w).
          bind_s (query (\<lambda>(s, w). key_index (get_key (data element)) (kb_max_key s) (kb_key_ranges s)))
            (\<lambda>index (s, w).
              case map_of (kb_buffers s) index of
                None \<Rightarrow> (Panic ''Bad KeyBy setup'', (s, w))
              | Some (chan, buffer) \<Rightarrow>
                  (case key_by_push T (kb_sender s) (wrap_event event) chan buffer (kb_pool s, w) of
                     (Ok wr, (p, w')) \<Rightarrow>
                       (Ok (), (s\<lparr>kb_pool := p,
                                  kb_buffers := AList.update index (chan, wr) (kb_buffers s)\<rparr>, w'))
                   | (Err e, (p, w')) \<Rightarrow> (Err e, (s, w'))
                   | (Panic e, (p, w')) \<Rightarrow> (Panic e, (s, w'))
                   | (NoFuel, (p, w')) \<Rightarrow> (NoFuel, (s, w')))) (s, w))
      | _ \<Rightarrow> (\<lambda>(s, w).
          bind_s (key_by_run (key_by_push T (kb_sender s) (wrap_event event)))
            (\<lambda>_. key_by_flush T) (s, w)))"

section \<open>The enum of strategies\<close>

datatype channel_strategy =
    CS_Forward forward
  | CS_Broadcast broadcast
  | CS_KeyBy key_by
  | CS_RoundRobin round_robin
  | CS_Mute

definition in_strategy ::
    "('s \<Rightarrow> channel_strategy) \<Rightarrow> ('s \<times> ('a, 'y) chan_world, arcon_error, unit) action \<Rightarrow> 's
      \<Rightarrow> ('a, 'y) chan_world \<Rightarrow> unit arcon_result \<times> channel_strategy \<times> ('a, 'y) chan_world" where
  "in_strategy C m s w = (case m (s, w) of (r, (s', w')) \<Rightarrow> (r, (C s', w')))"

definition strategy_add ::
    "('a \<Rightarrow> u64) \<Rightarrow> 'a tell_serialised \<Rightarrow> 'a arcon_event
      \<Rightarrow> (channel_strategy \<times> ('a, 'y) chan_world, arcon_error, unit) action" where
  "strategy_add get_key T event = (\<lambda>(cs, w).
     case cs of
       CS_Forward s \<Rightarrow> in_strategy CS_Forward (forward_add T event) s w
     | CS_Broadcast s \<Rightarrow> in_strategy CS_Broadcast (broadcast_add T event) s w
     | CS_KeyBy s \<Rightarrow> in_strategy CS_KeyBy (key_by_add get_key T event) s w
     | CS_RoundRobin s \<Rightarrow> in_strategy CS_RoundRobin (round_robin_add T event) s w
     | CS_Mute \<Rightarrow> (Ok (), (CS_Mute, w)))"

definition strategy_flush ::
    "'a tell_serialised \<Rightarrow> (channel_strategy \<times> ('a, 'y) chan_world, arcon_error, unit) action" where
  "strategy_flush T = (\<lambda>(cs, w).
     case cs of
       CS_Forward s \<Rightarrow> in_strategy CS_Forward (forward_flush T) s w
     | CS_Broadcast s \<Rightarrow> in_strategy CS_Broadcast (broadcast_flush T) s w
     | CS_KeyBy s \<Rightarrow> in_strategy CS_KeyBy (key_by_flush T) s w
     | CS_RoundRobin s \<Rightarrow> in_strategy CS_RoundRobin (round_robin_flush T) s w
     | CS_Mute \<Rightarrow> (Ok (), (CS_Mute, w)))"

fun num_channels :: "channel_strategy \<Rightarrow> nat" where
  "num_channels (CS_Forward s) = 1"
| "num_channels (CS_Broadcast s) = length (bc_channels s)"
| "num_channels (CS_KeyBy s) = length (kb_buffers s)"
| "num_channels (CS_RoundRobin s) = length (rr_channels s)"
| "num_channels CS_Mute = 0"

end
