(* ===== verification/Channel_Laws.thy ===== *)
theory Channel_Laws
  imports Channel_Strategies
begin

text \<open>
  Every strategy delivers each event exactly once and in order, and never overwrites a message
  that is still in a mailbox. The invariant \<open>chan_inv\<close> says that the buffers of the writers and
  of the messages in mailboxes are pairwise distinct, reserved, and filled as far as their
  lengths say; \<open>out_events\<close> is what a channel has been given so far (consumed, then waiting),
  and \<open>held\<close> what a writer still holds back.
\<close>

section \<open>Invariant\<close>

definition slots :: "writer list \<Rightarrow> ('a, 'y) chan_world \<Rightarrow> nat list" where
  "slots ws w = map wr_buffer ws @ map (\<lambda>m. rd_buffer (fst (snd m))) (cw_mailbox w)"

definition buffer_ok :: "usize \<Rightarrow> 'a event_buffer \<Rightarrow> bool" where
  "buffer_ok bs b \<longleftrightarrow> eb_capacity b = bs \<and> length (eb_mem b) = unat bs \<and> 0 < unat bs"

definition held :: "('a, 'y) chan_world \<Rightarrow> writer \<Rightarrow> 'a event_wrapper list" where
  "held w wr = contents (bw_bufs w ! wr_buffer wr) (wr_len wr)"

definition waiting :: "('a, 'y) chan_world \<Rightarrow> nat \<times> reader \<times> node_id \<Rightarrow> 'a event_wrapper list" where
  "waiting w m = contents (bw_bufs w ! rd_buffer (fst (snd m))) (rd_len (fst (snd m)))"

definition chan_inv :: "nat list \<Rightarrow> usize \<Rightarrow> writer list \<Rightarrow> ('a, 'y) chan_world \<Rightarrow> bool" where
  "chan_inv B bs ws w \<longleftrightarrow>
     distinct (slots ws w) \<and> set (slots ws w) \<subseteq> set B \<and>
     (\<forall>r \<in> set B. r < length (bw_bufs w) \<and> buffer_ok bs (bw_bufs w ! r)) \<and>
     (\<forall>r \<in> set (slots ws w). \<not> eb_free (bw_bufs w ! r)) \<and>
     (\<forall>wr \<in> set ws. written (bw_bufs w ! wr_buffer wr) (wr_len wr)) \<and>
     (\<forall>m \<in> set (cw_mailbox w). written (bw_bufs w ! rd_buffer (fst (snd m))) (rd_len (fst (snd m))))"

definition out_events :: "channel \<Rightarrow> ('a, 'y) chan_world \<Rightarrow> 'a event_wrapper list" where
  "out_events ch w =
     concat (map (\<lambda>m. fst (snd m)) (filter (\<lambda>m. fst m = ch) (cw_consumed w))) @
     concat (map (waiting w) (filter (\<lambda>m. ch = Local (fst m)) (cw_mailbox w)))"

text \<open>A step of the world that keeps every observation of writers and channels.\<close>

definition same_view :: "writer list \<Rightarrow> ('a, 'y) chan_world \<Rightarrow> ('a, 'y) chan_world \<Rightarrow> bool" where
  "same_view ws w w' \<longleftrightarrow> length (bw_bufs w') = length (bw_bufs w) \<and>
     (\<forall>wr \<in> set ws. held w' wr = held w wr) \<and> (\<forall>ch. out_events ch w' = out_events ch w)"

lemma same_view_refl [simp]: "same_view ws w w"
  by (simp add: same_view_def)

lemma same_view_trans: "same_view ws w w' \<Longrightarrow> same_view ws w' w'' \<Longrightarrow> same_view ws w w''"
  by (simp add: same_view_def)

lemma chan_inv_perm: "mset ws = mset ws' \<Longrightarrow> chan_inv B bs ws w = chan_inv B bs ws' w"
proof -
  assume m: "mset ws = mset ws'"
  then have "mset (slots ws w) = mset (slots ws' w)" by (simp add: slots_def)
  then have "distinct (slots ws w) = distinct (slots ws' w)" "set (slots ws w) = set (slots ws' w)"
    by (metis mset_eq_imp_distinct_iff, metis set_mset_mset)
  moreover have "set ws = set ws'" using m by (metis set_mset_mset)
  ultimately show ?thesis by (simp add: chan_inv_def)
qed

section \<open>Receivers\<close>

lemma consume_cases:
  obtains (idle) "consume a w = w"
  | (takes) xs rd s ys where "cw_mailbox w = xs @ (a, rd, s) # ys" "\<forall>m \<in> set xs. fst m \<noteq> a"
      "consume a w = event_buffer_release (rd_buffer rd)
        (w\<lparr>cw_mailbox := xs @ ys,
           cw_consumed := cw_consumed w @ [(Local a, waiting w (a, rd, s), s)]\<rparr>)"
proof (cases "find (\<lambda>m. fst m = a) (cw_mailbox w)")
  case None
  then show thesis by (intro idle) (simp add: consume_def)
next
  case (Some m)
  obtain b rd s where m: "m = (b, rd, s)" by (cases m)
  from Some obtain i where i: "i < length (cw_mailbox w)" "fst m = a" "cw_mailbox w ! i = m"
      "\<forall>j < i. fst (cw_mailbox w ! j) \<noteq> a"
    by (auto simp: find_Some_iff)
  let ?xs = "take i (cw_mailbox w)" and ?ys = "drop (Suc i) (cw_mailbox w)"
  have split: "cw_mailbox w = ?xs @ (a, rd, s) # ?ys"
    using id_take_nth_drop [OF i(1)] i m by simp
  have first: "\<forall>m \<in> set ?xs. fst m \<noteq> a"
    using i(4) by (fastforce simp: in_set_conv_nth)
  then have "(a, rd, s) \<notin> set ?xs" by auto
  then have "remove1 (a, rd, s) (cw_mailbox w) = ?xs @ ?ys"
    by (subst split) (simp add: remove1_append)
  then show thesis using Some m i
    by (intro takes [OF split first])
      (simp add: consume_def reader_drop_def reader_release_def waiting_def)
qed

lemma release_simps [simp]:
  "length (bw_bufs (event_buffer_release r w)) = length (bw_bufs w)"
  "cw_mailbox (event_buffer_release r w) = cw_mailbox w"
  "cw_consumed (event_buffer_release r w) = cw_consumed w"
  "cw_schedule (event_buffer_release r w) = cw_schedule w"
  by (simp_all add: event_buffer_release_def)

lemma release_nth:
  "bw_bufs (event_buffer_release r w) ! q
    = (if q = r \<and> r < length (bw_bufs w) then (bw_bufs w ! q)\<lparr>eb_free := True\<rparr> else bw_bufs w ! q)"
  by (cases "q = r"; cases "r < length (bw_bufs w)") (simp_all add: event_buffer_release_def list_update_beyond)

lemma release_free:
  "eb_free (bw_bufs (event_buffer_release r w) ! q)
    \<longleftrightarrow> eb_free (bw_bufs w ! q) \<or> q = r \<and> r < length (bw_bufs w)"
  by (auto simp: release_nth)

lemma release_views [simp]:
  "contents (bw_bufs (event_buffer_release r w) ! q) n = contents (bw_bufs w ! q) n"
  "written (bw_bufs (event_buffer_release r w) ! q) n = written (bw_bufs w ! q) n"
  "buffer_ok bs (bw_bufs (event_buffer_release r w) ! q) = buffer_ok bs (bw_bufs w ! q)"
  by (simp_all add: release_nth buffer_ok_def)

lemma consume_inv:
  assumes "chan_inv B bs ws w"
  shows "chan_inv B bs ws (consume a w) \<and> same_view ws w (consume a w)"
proof (cases rule: consume_cases [of a w])
  case idle
  then show ?thesis using assms by simp
next
  case (takes xs rd s ys)
  have "rd_buffer rd \<notin> set (slots ws (w\<lparr>cw_mailbox := xs @ ys\<rparr>))"
    using assms takes(1) by (auto simp: chan_inv_def slots_def)
  then have "chan_inv B bs ws (consume a w)"
    using assms takes(1)
    by (auto simp: takes(3) chan_inv_def slots_def release_free)
  moreover have "filter (\<lambda>m. a = fst m) xs = []" using takes(2) by (auto simp: filter_empty_conv)
  then have "same_view ws w (consume a w)"
    using takes(1)
    by (auto simp: takes(3) same_view_def held_def out_events_def waiting_def [abs_def] filter_empty_conv)
  ultimately show ?thesis by simp
qed

lemma consume_all_inv:
  "chan_inv B bs ws w \<Longrightarrow> chan_inv B bs ws (consume_all as w) \<and> same_view ws w (consume_all as w)"
proof (induction as arbitrary: w)
  case Nil
  then show ?case by (simp add: consume_all_def)
next
  case (Cons a as)
  then have "chan_inv B bs ws (consume a w)" "same_view ws w (consume a w)"
    using consume_inv by blast+
  then show ?case using Cons.IH [of "consume a w"] same_view_trans
    by (simp add: consume_all_def) blast
qed

section \<open>Writers\<close>

lemma reserve_simps [simp]:
  "length (bw_bufs (reserve r w)) = length (bw_bufs w)"
  "cw_mailbox (reserve r w) = cw_mailbox w"
  "cw_consumed (reserve r w) = cw_consumed w"
  "cw_schedule (reserve r w) = cw_schedule w"
  by (simp_all add: reserve_def)

lemma reserve_nth:
  "bw_bufs (reserve r w) ! q
    = (if q = r \<and> r < length (bw_bufs w) then (bw_bufs w ! q)\<lparr>eb_free := False\<rparr> else bw_bufs w ! q)"
  by (cases "q = r"; cases "r < length (bw_bufs w)") (simp_all add: reserve_def list_update_beyond)

lemma reserve_free:
  "eb_free (bw_bufs (reserve r w) ! q)
    \<longleftrightarrow> eb_free (bw_bufs w ! q) \<and> \<not> (q = r \<and> r < length (bw_bufs w))"
  by (auto simp: reserve_nth)

lemma reserve_views [simp]:
  "contents (bw_bufs (reserve r w) ! q) n = contents (bw_bufs w ! q) n"
  "written (bw_bufs (reserve r w) ! q) n = written (bw_bufs w ! q) n"
  "buffer_ok bs (bw_bufs (reserve r w) ! q) = buffer_ok bs (bw_bufs w ! q)"
  by (simp_all add: reserve_nth buffer_ok_def)

lemma schedule_views [simp]:
  "chan_inv B bs ws (w\<lparr>cw_schedule := ss\<rparr>) = chan_inv B bs ws w"
  "same_view ws w (w'\<lparr>cw_schedule := ss\<rparr>) = same_view ws w w'"
  "out_events ch (w\<lparr>cw_schedule := ss\<rparr>) = out_events ch w"
  "held (w\<lparr>cw_schedule := ss\<rparr>) wr = held w wr"
  by (simp_all add: chan_inv_def same_view_def slots_def held_def out_events_def waiting_def [abs_def])

lemma same_view_reserve [simp]: "same_view ws w (reserve r w') = same_view ws w w'"
  by (simp add: same_view_def held_def out_events_def waiting_def [abs_def])

lemma chan_inv_reserve:
  assumes "chan_inv B bs ws w" "r \<in> set B" "eb_free (bw_bufs w ! r)"
  shows "chan_inv B bs (writer_new r 0 c # ws) (reserve r w)"
proof -
  have "r \<notin> set (slots ws w)" using assms by (auto simp: chan_inv_def)
  then show ?thesis using assms
    by (auto simp: chan_inv_def slots_def writer_new_def reserve_free)
qed

text \<open>A new writer is empty; everything else looks as before.\<close>

lemma get_writer_inv:
  assumes "chan_inv B bs ws w" "pool_ok p (bw_bufs w)" "bp_buffers p = B"
  shows "(\<exists>w'. get_writer p w = (NoFuel, w')) \<or>
    (\<exists>wr p' w'. get_writer p w = (Ok (wr, p'), w') \<and> chan_inv B bs (wr # ws) w' \<and>
      same_view ws w w' \<and> pool_ok p' (bw_bufs w') \<and> bp_buffers p' = B \<and> wr_len wr = 0)"
proof -
  let ?P = "\<lambda>w'. chan_inv B bs ws w' \<and> same_view ws w w'"
  have env: "?P (consume_all as w') \<and> length (bw_bufs (consume_all as w')) = length (bw_bufs w')"
    if "?P w'" for as w'
    using consume_all_inv [of B bs ws w' as] that same_view_trans by (auto simp: same_view_def)
  consider w' where "pool_get consume_all (cw_schedule w) p w = (NoFuel, w')"
    | r p' ss w1 where "pool_get consume_all (cw_schedule w) p w
        = (Ok (writer_new r 0 (eb_capacity (bw_bufs w1 ! r)), p', ss), reserve r w1)"
      "?P w1" "eb_free (bw_bufs w1 ! r)" "r \<in> set B" "bp_buffers p' = B"
      "length (bw_bufs w1) = length (bw_bufs w)" "pool_ok p' (bw_bufs w1)"
    using pool_get_result [of p w ?P consume_all "cw_schedule w"] assms env by auto
  then show ?thesis
  proof cases
    case (2 r p' ss w1)
    let ?wr = "writer_new r 0 (eb_capacity (bw_bufs w1 ! r))"
    let ?w = "(reserve r w1)\<lparr>cw_schedule := ss\<rparr>"
    have "get_writer p w = (Ok (?wr, p'), ?w)" using 2(1) by (simp add: get_writer_def)
    moreover have "chan_inv B bs (?wr # ws) ?w" using chan_inv_reserve [of B bs ws w1 r] 2 by simp
    moreover have "same_view ws w ?w" using 2(2) by simp
    moreover have "pool_ok p' (bw_bufs ?w)" using 2(7) by (simp add: pool_ok_def)
    moreover have "wr_len ?wr = 0" by (simp add: writer_new_def)
    ultimately show ?thesis using 2(5) by blast
  qed (simp add: get_writer_def)
qed

lemma held_empty: "wr_len wr = 0 \<Longrightarrow> held w wr = []"
  by (simp add: held_def)

text \<open>Pushing: into the buffer, or back to the caller when the buffer is full.\<close>

lemma writer_room:
  assumes "chan_inv B bs (wr # ws) w"
  shows "wr_len wr \<le> unat bs" "eb_capacity (bw_bufs w ! wr_buffer wr) = bs"
    "length (eb_mem (bw_bufs w ! wr_buffer wr)) = unat bs" "0 < unat bs"
    "wr_buffer wr < length (bw_bufs w)"
  using assms by (auto simp: chan_inv_def slots_def buffer_ok_def written_def)

lemma others_apart:
  assumes "chan_inv B bs (wr # ws) w"
  shows "v \<in> set ws \<Longrightarrow> wr_buffer v \<noteq> wr_buffer wr"
    "m \<in> set (cw_mailbox w) \<Longrightarrow> rd_buffer (fst (snd m)) \<noteq> wr_buffer wr"
proof -
  have "wr_buffer wr \<notin> wr_buffer ` set ws"
    "wr_buffer wr \<notin> (\<lambda>m. rd_buffer (fst (snd m))) ` set (cw_mailbox w)"
    using assms by (simp_all add: chan_inv_def slots_def)
  then show "v \<in> set ws \<Longrightarrow> wr_buffer v \<noteq> wr_buffer wr"
    "m \<in> set (cw_mailbox w) \<Longrightarrow> rd_buffer (fst (snd m)) \<noteq> wr_buffer wr"
    by (metis imageI)+
qed

lemma same_view_intro:
  assumes "cw_mailbox w' = cw_mailbox w" "cw_consumed w' = cw_consumed w"
    and "length (bw_bufs w') = length (bw_bufs w)"
    and "\<And>v. v \<in> set ws \<Longrightarrow> bw_bufs w' ! wr_buffer v = bw_bufs w ! wr_buffer v"
    and "\<And>m. m \<in> set (cw_mailbox w) \<Longrightarrow>
      bw_bufs w' ! rd_buffer (fst (snd m)) = bw_bufs w ! rd_buffer (fst (snd m))"
  shows "same_view ws w w'"
proof -
  have "concat (map (waiting w') (filter P (cw_mailbox w)))
      = concat (map (waiting w) (filter P (cw_mailbox w)))" for P
    using assms(5) by (auto simp: waiting_def intro!: arg_cong [where f = concat])
  then show ?thesis using assms by (simp add: same_view_def held_def out_events_def)
qed

lemma push_full:
  "chan_inv B bs (wr # ws) w \<Longrightarrow> wr_len wr = unat bs \<Longrightarrow> writer_push e wr w = (Ok (Some e, wr), w)"
  using writer_room [of B bs wr ws w]
  by (simp add: writer_push_def event_buffer_push_def bind_s_def Let_def)

lemma push_room:
  assumes inv: "chan_inv B bs (wr # ws) w" and room: "wr_len wr < unat bs"
  shows "\<exists>wr' w'. writer_push e wr w = (Ok (None, wr'), w') \<and> chan_inv B bs (wr' # ws) w' \<and>
    same_view ws w w' \<and> held w' wr' = held w wr @ [e]"
proof -
  let ?r = "wr_buffer wr" and ?n = "wr_len wr"
  let ?b = "(bw_bufs w ! ?r)\<lparr>eb_mem := (eb_mem (bw_bufs w ! ?r))[?n := Some e]\<rparr>"
  define w' where "w' = w\<lparr>bw_bufs := (bw_bufs w)[?r := ?b]\<rparr>"
  define wr' where "wr' = wr\<lparr>wr_len := ?n + 1\<rparr>"
  note r = writer_room [OF inv]
  have nth: "bw_bufs w' ! q = (if q = ?r then ?b else bw_bufs w ! q)" for q
    using r(5) by (simp add: w'_def nth_list_update)
  have other: "\<forall>v \<in> set ws. wr_buffer v \<noteq> ?r" "\<forall>m \<in> set (cw_mailbox w). rd_buffer (fst (snd m)) \<noteq> ?r"
    using others_apart [OF inv] by blast+
  have wrt: "written ?b (Suc ?n)"
    using inv room r(3) written_push [of "bw_bufs w ! ?r" ?n e] by (simp add: chan_inv_def)
  have mb: "cw_mailbox w' = cw_mailbox w" "length (bw_bufs w') = length (bw_bufs w)"
      "cw_consumed w' = cw_consumed w"
    by (simp_all add: w'_def)
  have "writer_push e wr w = (Ok (None, wr'), w')"
    using room r(2) by (simp add: writer_push_def event_buffer_push_def bind_s_def Let_def w'_def wr'_def)
  moreover have "chan_inv B bs (wr' # ws) w'"
    using inv wrt other
    by (auto simp: chan_inv_def slots_def nth mb wr'_def buffer_ok_def)
  moreover have "same_view ws w w'"
    using other by (intro same_view_intro) (simp_all add: mb nth)
  moreover have "held w' wr' = held w wr @ [e]"
    using room r(3) contents_push [of ?n "bw_bufs w ! ?r" e] by (simp add: held_def nth wr'_def)
  ultimately show ?thesis by blast
qed

section \<open>Sending and copying\<close>

text \<open>A channel loses nothing when it is local or when every transmission of the network layer succeeds.\<close>

definition reliable :: "'a tell_serialised \<Rightarrow> channel \<Rightarrow> bool" where
  "reliable T ch \<longleftrightarrow> (case ch of Local _ \<Rightarrow> True | Remote p fs \<Rightarrow> (\<forall>m. T p fs m = Ok ()))"

lemma send_inv:
  assumes inv: "chan_inv B bs (wr # ws) w" and rel: "reliable T ch"
  shows "\<exists>w'. send_or_panic T ch (writer_reader wr) sender w = (Ok (), w') \<and> chan_inv B bs ws w' \<and>
    length (bw_bufs w') = length (bw_bufs w) \<and> cw_schedule w' = cw_schedule w \<and>
    (\<forall>v \<in> set ws. held w' v = held w v) \<and>
    (\<forall>c. out_events c w' = out_events c w @ (if c = ch then held w wr else []))"
proof (cases ch)
  case (Local a)
  let ?m = "(a, writer_reader wr, sender)"
  let ?w = "w\<lparr>cw_mailbox := cw_mailbox w @ [?m]\<rparr>"
  have "send_or_panic T ch (writer_reader wr) sender w = (Ok (), ?w)"
    by (simp add: send_or_panic_def send_def bind_s_def Local)
  moreover have "chan_inv B bs ws ?w"
    using inv by (auto simp: chan_inv_def slots_def writer_reader_def)
  moreover have "out_events c ?w = out_events c w @ (if c = ch then held w wr else [])" for c
    by (auto simp: out_events_def held_def waiting_def [abs_def] writer_reader_def Local)
  ultimately show ?thesis by (simp add: held_def)
next
  case (Remote p fs)
  let ?ev = "held w wr"
  let ?w = "(event_buffer_release (wr_buffer wr) w)\<lparr>cw_consumed := cw_consumed w @ [(ch, ?ev, sender)]\<rparr>"
  have wrt: "written (bw_bufs w ! wr_buffer wr) (wr_len wr)" using inv by (simp add: chan_inv_def)
  then have "send_or_panic T ch (writer_reader wr) sender w = (Ok (), ?w)"
    using rel
    by (simp add: send_or_panic_def send_def bind_s_def query_def Remote reliable_def
        reader_into_vec_def writer_reader_def reader_drop_def reader_release_def held_def Let_def)
  moreover have "chan_inv B bs ws ?w"
    using inv others_apart [OF inv]
    by (auto simp: chan_inv_def slots_def release_free)
  moreover have "out_events c ?w = out_events c w @ (if c = ch then held w wr else [])" for c
    by (auto simp: out_events_def waiting_def [abs_def] Remote)
  ultimately show ?thesis by (simp add: held_def)
qed

lemma copy_inv:
  assumes inv: "chan_inv B bs (wr # cu # ws) w"
  shows "\<exists>wr' w'. copy_from_writer wr cu w = (Ok wr', w') \<and> chan_inv B bs (wr' # cu # ws) w' \<and>
    same_view (cu # ws) w w' \<and> held w' wr' = held w cu"
proof -
  let ?r = "wr_buffer wr" and ?src = "bw_bufs w ! wr_buffer cu" and ?n = "wr_len cu"
  let ?b = "(bw_bufs w ! ?r)\<lparr>eb_mem := take ?n (eb_mem ?src) @ drop ?n (eb_mem (bw_bufs w ! ?r))\<rparr>"
  define w' where "w' = w\<lparr>bw_bufs := (bw_bufs w)[?r := ?b]\<rparr>"
  define wr' where "wr' = wr\<lparr>wr_len := ?n\<rparr>"
  note r = writer_room [OF inv]
  have inv': "chan_inv B bs (cu # wr # ws) w"
    using inv chan_inv_perm [of "wr # cu # ws" "cu # wr # ws" B bs w] by simp
  note cu = writer_room [OF inv']
  have nth: "bw_bufs w' ! q = (if q = ?r then ?b else bw_bufs w ! q)" for q
    using r(5) by (simp add: w'_def nth_list_update)
  have other: "\<forall>v \<in> set (cu # ws). wr_buffer v \<noteq> ?r"
      "\<forall>m \<in> set (cw_mailbox w). rd_buffer (fst (snd m)) \<noteq> ?r"
    using others_apart [OF inv] by blast+
  have mb: "cw_mailbox w' = cw_mailbox w" "length (bw_bufs w') = length (bw_bufs w)"
      "cw_consumed w' = cw_consumed w"
    by (simp_all add: w'_def)
  have wrt: "written ?src ?n" "written ?b ?n"
    using inv cu(1,3) r(3) by (simp_all add: chan_inv_def written_def)
  have "copy_from_writer wr cu w = (Ok wr', w')"
    using r cu by (simp add: copy_from_writer_def Let_def w'_def wr'_def)
  moreover have "chan_inv B bs (wr' # cu # ws) w'"
    using inv wrt other cu(1,3) r(3)
    by (auto simp: chan_inv_def slots_def nth mb wr'_def buffer_ok_def)
  moreover have "same_view (cu # ws) w w'"
    using other by (intro same_view_intro) (auto simp: mb nth)
  moreover have "held w' wr' = held w cu"
    using cu(1,3) by (simp add: held_def nth wr'_def contents_def)
  ultimately show ?thesis by blast
qed

section \<open>Strategies with one buffer\<close>

text \<open>
  \<^verbatim>\<open>add\<close> has the same shape in the strategies that fill one buffer at a time. The locale
  states what it needs of \<^verbatim>\<open>push\<close> and \<^verbatim>\<open>flush\<close>: a flush empties the buffer and changes
  nothing that was recorded; a push records its event unless the buffer is full.
\<close>

definition batch_add ::
    "('a event_wrapper \<Rightarrow> ('x, arcon_error, 'a event_wrapper option) action)
      \<Rightarrow> ('x, arcon_error, unit) action \<Rightarrow> 'a arcon_event \<Rightarrow> ('x, arcon_error, unit) action" where
  "batch_add push flush event =
     (case event of
        ElementEv _ \<Rightarrow>
          bind_s (push (wrap_event event)) (\<lambda>r.
            case r of
              Some e \<Rightarrow> bind_s flush (\<lambda>_. bind_s (push e) (\<lambda>_. return_s ()))
            | None \<Rightarrow> return_s ())
      | _ \<Rightarrow>
          bind_s (push (wrap_event event)) (\<lambda>r.
            case r of
              Some e \<Rightarrow> bind_s flush (\<lambda>_. bind_s (push e) (\<lambda>_. flush))
            | None \<Rightarrow> flush))"

locale batch_strategy =
  fixes push :: "'a event_wrapper \<Rightarrow> ('x, arcon_error, 'a event_wrapper option) action"
    and flush :: "('x, arcon_error, unit) action"
    and ok :: "'x \<Rightarrow> bool" and empty :: "'x \<Rightarrow> bool"
    and log :: "'x \<Rightarrow> 'l" and records :: "'a event_wrapper \<Rightarrow> 'l \<Rightarrow> 'l \<Rightarrow> bool"
  assumes flush_spec: "ok x \<Longrightarrow> ok_or_waits (\<lambda>_ x'. ok x' \<and> empty x' \<and> log x' = log x) (flush x)"
    and push_spec: "ok x \<Longrightarrow> (\<not> empty x \<and> push e x = (Ok (Some e), x)) \<or>
      (\<exists>x'. push e x = (Ok None, x') \<and> ok x' \<and> records e (log x) (log x'))"
begin

lemma flush_push_spec:
  assumes "ok x"
  shows "ok_or_waits (\<lambda>r x'. r = None \<and> ok x' \<and> records e (log x) (log x'))
    (bind_s flush (\<lambda>_. push e) x)"
proof (rule ok_or_waits_bind)
  show "ok_or_waits (\<lambda>_ x'. ok x' \<and> empty x' \<and> log x' = log x) (flush x)"
    by (rule flush_spec [OF assms])
  show "ok_or_waits (\<lambda>r x'. r = None \<and> ok x' \<and> records e (log x) (log x')) (push e x')"
    if "ok x' \<and> empty x' \<and> log x' = log x" for x'
    using push_spec [of x' e] that by auto
qed

lemma bind_assoc: "bind_s m (\<lambda>a. bind_s (f a) g) = bind_s (bind_s m f) g"
  by (rule ext) (simp add: bind_s_def split: prod.splits outcome.splits)

text \<open>An event is recorded exactly once; a watermark, epoch or death leaves the buffer empty.\<close>

lemma add_spec:
  assumes "ok x"
  shows "ok_or_waits (\<lambda>_ x'. ok x' \<and> records (wrap_event e) (log x) (log x') \<and>
      ((\<exists>d. e = ElementEv d) \<or> empty x')) (batch_add push flush e x)"
proof -
  let ?R = "\<lambda>x'. ok x' \<and> records (wrap_event e) (log x) (log x')"
  have elem: "ok_or_waits (\<lambda>_ x'. ?R x')
      (bind_s (push (wrap_event e)) (\<lambda>r. case r of
          Some e \<Rightarrow> bind_s flush (\<lambda>_. bind_s (push e) (\<lambda>_. return_s ()))
        | None \<Rightarrow> return_s ()) x)"
    using push_spec [OF assms, of "wrap_event e"]
  proof (elim disjE exE conjE)
    assume full: "push (wrap_event e) x = (Ok (Some (wrap_event e)), x)"
    have "ok_or_waits (\<lambda>_ x'. ?R x')
        (bind_s (bind_s flush (\<lambda>_. push (wrap_event e))) (\<lambda>_. return_s ()) x)"
      by (rule ok_or_waits_bind, rule flush_push_spec [OF assms]) simp
    then show ?thesis using full by (simp add: bind_assoc)
  qed simp
  have other: "ok_or_waits (\<lambda>_ x'. ?R x' \<and> empty x')
      (bind_s (push (wrap_event e)) (\<lambda>r. case r of
          Some e \<Rightarrow> bind_s flush (\<lambda>_. bind_s (push e) (\<lambda>_. flush))
        | None \<Rightarrow> flush) x)"
    using push_spec [OF assms, of "wrap_event e"]
  proof (elim disjE exE conjE)
    assume full: "push (wrap_event e) x = (Ok (Some (wrap_event e)), x)"
    have "ok_or_waits (\<lambda>_ x'. ?R x' \<and> empty x')
        (bind_s (bind_s flush (\<lambda>_. push (wrap_event e))) (\<lambda>_. flush) x)"
      by (rule ok_or_waits_bind, rule flush_push_spec [OF assms])
        (rule ok_or_waits_mono [OF flush_spec], auto)
    then show ?thesis using full by (simp add: bind_assoc)
  next
    fix x'
    assume x': "push (wrap_event e) x = (Ok None, x')" "ok x'" "records (wrap_event e) (log x) (log x')"
    show ?thesis
      using ok_or_waits_mono [OF flush_spec [OF x'(2)], of "\<lambda>_ x'. ?R x' \<and> empty x'"] x' by simp
  qed
  show ?thesis
    by (cases e) (use elem other ok_or_waits_mono in \<open>fastforce simp: batch_add_def\<close>)+
qed

end

section \<open>Forward\<close>

text \<open>Everything a channel has been given, with what the current buffer holds for it.\<close>

definition appended :: "channel list \<Rightarrow> 'e list \<Rightarrow> (channel \<Rightarrow> 'e list) \<Rightarrow> channel \<Rightarrow> 'e list" where
  "appended cs es out ch = out ch @ (if ch \<in> set cs then es else [])"

lemma appended_Nil [simp]: "appended cs [] out = out"
  by (simp add: appended_def fun_eq_iff)

lemma appended_append: "appended cs (es @ fs) out = appended cs fs (appended cs es out)"
  by (simp add: appended_def fun_eq_iff)

definition outs :: "('a, 'y) chan_world \<Rightarrow> channel \<Rightarrow> 'a event_wrapper list" where
  "outs w ch = out_events ch w"

lemma outs_same_view: "same_view ws w w' \<Longrightarrow> outs w' = outs w"
  by (simp add: same_view_def outs_def fun_eq_iff)

definition forward_ok :: "'a tell_serialised \<Rightarrow> usize \<Rightarrow> forward \<times> ('a, 'y) chan_world \<Rightarrow> bool" where
  "forward_ok T bs = (\<lambda>(s, w). chan_inv (bp_buffers (fw_pool s)) bs [fw_curr s] w \<and>
     pool_ok (fw_pool s) (bw_bufs w) \<and> reliable T (fw_channel s))"

definition forward_empty :: "forward \<times> ('a, 'y) chan_world \<Rightarrow> bool" where
  "forward_empty = (\<lambda>(s, w). wr_len (fw_curr s) = 0)"

definition forward_log ::
    "forward \<times> ('a, 'y) chan_world \<Rightarrow> channel \<times> (channel \<Rightarrow> 'a event_wrapper list)" where
  "forward_log = (\<lambda>(s, w). (fw_channel s, appended [fw_channel s] (held w (fw_curr s)) (outs w)))"

definition records_on :: "channel list \<Rightarrow> 'e \<Rightarrow> (channel \<Rightarrow> 'e list) \<Rightarrow> (channel \<Rightarrow> 'e list) \<Rightarrow> bool" where
  "records_on cs e out out' \<longleftrightarrow> out' = appended cs [e] out"

definition forward_records :: "'e \<Rightarrow> channel \<times> (channel \<Rightarrow> 'e list) \<Rightarrow> channel \<times> (channel \<Rightarrow> 'e list) \<Rightarrow> bool" where
  "forward_records e l l' \<longleftrightarrow> fst l' = fst l \<and> records_on [fst l] e (snd l) (snd l')"

text \<open>The two steps of a flush: the buffer is sent, and a new writer replaces it.\<close>

lemma send_outs:
  assumes "chan_inv B bs (wr # ws) w" and "reliable T ch"
  shows "\<exists>w'. send_or_panic T ch (writer_reader wr) sender w = (Ok (), w') \<and> chan_inv B bs ws w' \<and>
    length (bw_bufs w') = length (bw_bufs w) \<and> (\<forall>v \<in> set ws. held w' v = held w v) \<and>
    outs w' = appended [ch] (held w wr) (outs w)"
  using send_inv [OF assms, of sender] by (auto simp: outs_def appended_def fun_eq_iff)

lemma get_writer_spec:
  assumes "chan_inv B bs ws w" and "pool_ok p (bw_bufs w)" and "bp_buffers p = B"
  shows "ok_or_waits (\<lambda>(wr, p') w'. chan_inv B bs (wr # ws) w' \<and> pool_ok p' (bw_bufs w') \<and>
      bp_buffers p' = B \<and> wr_len wr = 0 \<and> (\<forall>v \<in> set ws. held w' v = held w v) \<and> outs w' = outs w)
    (get_writer p w)"
  using get_writer_inv [OF assms] outs_same_view by (fastforce simp: same_view_def)

lemma lift_w_spec: "ok_or_waits (\<lambda>a w'. Q a (s, w')) (m w) \<Longrightarrow> ok_or_waits Q (lift_w m (s, w))"
  by (cases "m w") (auto simp: lift_w_def ok_or_waits_def split: outcome.splits)

lemma lift_w_Ok: "m w = (Ok a, w') \<Longrightarrow> lift_w m (s, w) = (Ok a, (s, w'))"
  by (simp add: lift_w_def)

lemma push_spec_w:
  assumes inv: "chan_inv B bs (wr # ws) w"
  shows "(wr_len wr \<noteq> 0 \<and> writer_push e wr w = (Ok (Some e, wr), w)) \<or>
    (\<exists>wr' w'. writer_push e wr w = (Ok (None, wr'), w') \<and> chan_inv B bs (wr' # ws) w' \<and>
      length (bw_bufs w') = length (bw_bufs w) \<and> (\<forall>v \<in> set ws. held w' v = held w v) \<and>
      outs w' = outs w \<and> held w' wr' = held w wr @ [e])"
proof (cases "wr_len wr = unat bs")
  case True
  then show ?thesis using push_full [OF inv] writer_room(4) [OF inv] by simp
next
  case False
  then have "wr_len wr < unat bs" using writer_room(1) [OF inv] by simp
  from push_room [OF inv this, of e] show ?thesis
    using outs_same_view by (fastforce simp: same_view_def)
qed

interpretation fwd: batch_strategy forward_push "forward_flush T" "forward_ok T bs" forward_empty
    forward_log forward_records
  for T :: "'a tell_serialised" and bs
proof unfold_locales
  fix x :: "forward \<times> ('a, 'y) chan_world"
  assume ok: "forward_ok T bs x"
  obtain s w where x: "x = (s, w)" by (cases x)
  let ?B = "bp_buffers (fw_pool s)"
  obtain w1 where w1: "send_or_panic T (fw_channel s) (writer_reader (fw_curr s)) (fw_sender s) w = (Ok (), w1)"
      "chan_inv ?B bs [] w1" "length (bw_bufs w1) = length (bw_bufs w)"
      "outs w1 = appended [fw_channel s] (held w (fw_curr s)) (outs w)"
    using send_outs [of ?B bs "fw_curr s" "[]" w T "fw_channel s"] ok x by (auto simp: forward_ok_def)
  have p: "pool_ok (fw_pool s) (bw_bufs w1)" using ok x w1(3) by (simp add: forward_ok_def pool_ok_def)
  have "ok_or_waits (\<lambda>_ x'. forward_ok T bs x' \<and> forward_empty x' \<and> forward_log x' = forward_log x)
      (bind_s (lift_w (get_writer (fw_pool s))) (\<lambda>(wr, p) (s, w).
         (Ok (), (s\<lparr>fw_curr := wr, fw_pool := p\<rparr>, w))) (s, w1))"
    by (rule ok_or_waits_bind, rule lift_w_spec, rule ok_or_waits_mono [OF get_writer_spec [OF w1(2) p refl]])
      (use ok w1(4) x in \<open>auto simp: forward_ok_def forward_empty_def forward_log_def held_empty\<close>)
  then show "ok_or_waits (\<lambda>_ x'. forward_ok T bs x' \<and> forward_empty x' \<and> forward_log x' = forward_log x)
      (forward_flush T x)"
    using w1(1) x by (simp add: forward_flush_def lift_w_Ok)
next
  fix x :: "forward \<times> ('a, 'y) chan_world" and e
  assume ok: "forward_ok T bs x"
  obtain s w where x: "x = (s, w)" by (cases x)
  have inv: "chan_inv (bp_buffers (fw_pool s)) bs [fw_curr s] w" using ok x by (simp add: forward_ok_def)
  show "(\<not> forward_empty x \<and> forward_push e x = (Ok (Some e), x)) \<or>
      (\<exists>x'. forward_push e x = (Ok None, x') \<and> forward_ok T bs x' \<and>
        forward_records e (forward_log x) (forward_log x'))"
    using push_spec_w [OF inv, of e]
  proof (elim disjE exE conjE)
    assume "wr_len (fw_curr s) \<noteq> 0" "writer_push e (fw_curr s) w = (Ok (Some e, fw_curr s), w)"
    then show ?thesis using x by (simp add: forward_push_def forward_empty_def lift_w_Ok)
  next
    fix wr' w'
    assume "writer_push e (fw_curr s) w = (Ok (None, wr'), w')"
      "chan_inv (bp_buffers (fw_pool s)) bs [wr'] w'" "length (bw_bufs w') = length (bw_bufs w)"
      "outs w' = outs w" "held w' wr' = held w (fw_curr s) @ [e]"
    then show ?thesis using x ok
      by (simp add: forward_push_def lift_w_Ok forward_ok_def forward_records_def records_on_def
          forward_log_def appended_append pool_ok_def)
  qed
qed

section \<open>Round robin\<close>

definition round_robin_ok :: "'a tell_serialised \<Rightarrow> usize \<Rightarrow> round_robin \<times> ('a, 'y) chan_world \<Rightarrow> bool" where
  "round_robin_ok T bs = (\<lambda>(s, w). chan_inv (bp_buffers (rr_pool s)) bs [rr_curr s] w \<and>
     pool_ok (rr_pool s) (bw_bufs w) \<and> rr_index s < length (rr_channels s) \<and>
     list_all (reliable T) (rr_channels s))"

definition round_robin_empty :: "round_robin \<times> ('a, 'y) chan_world \<Rightarrow> bool" where
  "round_robin_empty = (\<lambda>(s, w). wr_len (rr_curr s) = 0)"

definition round_robin_log ::
    "round_robin \<times> ('a, 'y) chan_world \<Rightarrow> channel list \<times> (channel \<Rightarrow> 'a event_wrapper list)" where
  "round_robin_log = (\<lambda>(s, w).
     (rr_channels s, appended [rr_channels s ! rr_index s] (held w (rr_curr s)) (outs w)))"

text \<open>An event goes to exactly one of the channels.\<close>

definition round_robin_records ::
    "'e \<Rightarrow> channel list \<times> (channel \<Rightarrow> 'e list) \<Rightarrow> channel list \<times> (channel \<Rightarrow> 'e list) \<Rightarrow> bool" where
  "round_robin_records e l l' \<longleftrightarrow>
     fst l' = fst l \<and> (\<exists>ch \<in> set (fst l). records_on [ch] e (snd l) (snd l'))"

interpretation rrb: batch_strategy round_robin_push "round_robin_flush T" "round_robin_ok T bs"
    round_robin_empty round_robin_log round_robin_records
  for T :: "'a tell_serialised" and bs
proof unfold_locales
  fix x :: "round_robin \<times> ('a, 'y) chan_world"
  assume ok: "round_robin_ok T bs x"
  obtain s w where x: "x = (s, w)" by (cases x)
  let ?B = "bp_buffers (rr_pool s)" and ?ch = "rr_channels s ! rr_index s"
  have idx: "rr_index s < length (rr_channels s)" using ok x by (simp add: round_robin_ok_def)
  then have "reliable T ?ch" using ok x by (simp add: round_robin_ok_def list_all_length)
  then obtain w1 where w1: "send_or_panic T ?ch (writer_reader (rr_curr s)) (rr_sender s) w = (Ok (), w1)"
      "chan_inv ?B bs [] w1" "length (bw_bufs w1) = length (bw_bufs w)"
      "outs w1 = appended [?ch] (held w (rr_curr s)) (outs w)"
    using send_outs [of ?B bs "rr_curr s" "[]" w T ?ch] ok x by (auto simp: round_robin_ok_def)
  define s1 where "s1 = (let s = s\<lparr>rr_index := rr_index s + 1\<rparr> in
    if rr_index s \<ge> length (rr_channels s) then s\<lparr>rr_index := 0\<rparr> else s)"
  have s1: "rr_pool s1 = rr_pool s" "rr_channels s1 = rr_channels s" "rr_index s1 < length (rr_channels s)"
    using idx by (auto simp: s1_def Let_def)
  have p: "pool_ok (rr_pool s) (bw_bufs w1)" using ok x w1(3) by (simp add: round_robin_ok_def pool_ok_def)
  have "ok_or_waits (\<lambda>_ x'. round_robin_ok T bs x' \<and> round_robin_empty x' \<and> round_robin_log x' = round_robin_log x)
      (bind_s (lift_w (get_writer (rr_pool s))) (\<lambda>(wr, p) (s, w).
         (Ok (), (s\<lparr>rr_curr := wr, rr_pool := p\<rparr>, w))) (s1, w1))"
    by (rule ok_or_waits_bind, rule lift_w_spec, rule ok_or_waits_mono [OF get_writer_spec [OF w1(2) p refl]])
      (use ok w1(4) x s1 in \<open>auto simp: round_robin_ok_def round_robin_empty_def round_robin_log_def held_empty\<close>)
  then show "ok_or_waits (\<lambda>_ x'. round_robin_ok T bs x' \<and> round_robin_empty x' \<and> round_robin_log x' = round_robin_log x)
      (round_robin_flush T x)"
    using w1(1) x idx
    by (cases "length (rr_channels s) \<le> Suc (rr_index s)")
      (simp_all add: round_robin_flush_def lift_w_Ok s1_def Let_def)
next
  fix x :: "round_robin \<times> ('a, 'y) chan_world" and e
  assume ok: "round_robin_ok T bs x"
  obtain s w where x: "x = (s, w)" by (cases x)
  have inv: "chan_inv (bp_buffers (rr_pool s)) bs [rr_curr s] w" using ok x by (simp add: round_robin_ok_def)
  show "(\<not> round_robin_empty x \<and> round_robin_push e x = (Ok (Some e), x)) \<or>
      (\<exists>x'. round_robin_push e x = (Ok None, x') \<and> round_robin_ok T bs x' \<and>
        round_robin_records e (round_robin_log x) (round_robin_log x'))"
    using push_spec_w [OF inv, of e]
  proof (elim disjE exE conjE)
    assume "wr_len (rr_curr s) \<noteq> 0" "writer_push e (rr_curr s) w = (Ok (Some e, rr_curr s), w)"
    then show ?thesis using x by (simp add: round_robin_push_def round_robin_empty_def lift_w_Ok)
  next
    fix wr' w'
    assume "writer_push e (rr_curr s) w = (Ok (None, wr'), w')"
      "chan_inv (bp_buffers (rr_pool s)) bs [wr'] w'" "length (bw_bufs w') = length (bw_bufs w)"
      "outs w' = outs w" "held w' wr' = held w (rr_curr s) @ [e]"
    then show ?thesis using x ok nth_mem [of "rr_index s" "rr_channels s"]
      by (auto simp: round_robin_push_def lift_w_Ok round_robin_ok_def round_robin_records_def
          records_on_def round_robin_log_def appended_append pool_ok_def)
  qed
qed

section \<open>Broadcast\<close>

definition broadcast_ok :: "'a tell_serialised \<Rightarrow> usize \<Rightarrow> broadcast \<times> ('a, 'y) chan_world \<Rightarrow> bool" where
  "broadcast_ok T bs = (\<lambda>(s, w). chan_inv (bp_buffers (bc_pool s)) bs [bc_curr s] w \<and>
     pool_ok (bc_pool s) (bw_bufs w) \<and> bc_channels s \<noteq> [] \<and> distinct (bc_channels s) \<and>
     list_all (reliable T) (bc_channels s))"

definition broadcast_empty :: "broadcast \<times> ('a, 'y) chan_world \<Rightarrow> bool" where
  "broadcast_empty = (\<lambda>(s, w). wr_len (bc_curr s) = 0)"

definition broadcast_log ::
    "broadcast \<times> ('a, 'y) chan_world \<Rightarrow> channel list \<times> (channel \<Rightarrow> 'a event_wrapper list)" where
  "broadcast_log = (\<lambda>(s, w).
     (bc_channels s, appended (bc_channels s) (held w (bc_curr s)) (outs w)))"

definition broadcast_records ::
    "'e \<Rightarrow> channel list \<times> (channel \<Rightarrow> 'e list) \<Rightarrow> channel list \<times> (channel \<Rightarrow> 'e list) \<Rightarrow> bool" where
  "broadcast_records e l l' \<longleftrightarrow> fst l' = fst l \<and> records_on (fst l) e (snd l) (snd l')"

text \<open>The loop sends one copy to every channel and gives the current buffer to the last.\<close>

lemma broadcast_send_spec:
  fixes w :: "('a, 'y) chan_world"
  assumes "chan_inv B bs [bc_curr s] w" "pool_ok (bc_pool s) (bw_bufs w)" "bp_buffers (bc_pool s) = B"
    and "cs \<noteq> []" "distinct cs" "list_all (reliable T) cs"
  shows "ok_or_waits (\<lambda>_ (s', w'). chan_inv B bs [] w' \<and> pool_ok (bc_pool s') (bw_bufs w') \<and>
      bp_buffers (bc_pool s') = B \<and> bc_channels s' = bc_channels s \<and>
      outs w' = appended cs (held w (bc_curr s)) (outs w)) (broadcast_send T cs (s, w))"
  using assms
proof (induction cs arbitrary: s w)
  case Nil
  then show ?case by simp
next
  case (Cons ch cs)
  note prems = Cons.prems
  show ?case
  proof (cases cs)
  case Nil
  obtain w1 where "send_or_panic T ch (writer_reader (bc_curr s)) (bc_sender s) w = (Ok (), w1)"
      "chan_inv B bs [] w1" "length (bw_bufs w1) = length (bw_bufs w)"
      "outs w1 = appended [ch] (held w (bc_curr s)) (outs w)"
    using send_outs [of B bs "bc_curr s" "[]" w T ch] prems by auto
  then show ?thesis using prems Nil by (simp add: lift_w_Ok pool_ok_def)
next
  case (Cons ch' chs)
  let ?Q = "\<lambda>_ (s', w'). chan_inv B bs [] w' \<and> pool_ok (bc_pool s') (bw_bufs w') \<and>
      bp_buffers (bc_pool s') = B \<and> bc_channels s' = bc_channels s \<and>
      outs w' = appended (ch # cs) (held w (bc_curr s)) (outs w)"
  have step: "ok_or_waits ?Q (bind_s (lift_w (copy_from_writer wr (bc_curr s'))) (\<lambda>wr (s, w).
         bind_s (lift_w (send_or_panic T ch (writer_reader wr) (bc_sender s)))
           (\<lambda>_. broadcast_send T (ch' # chs)) (s, w)) (s', w1))"
    if w1: "chan_inv B bs [wr, bc_curr s] w1" "pool_ok p (bw_bufs w1)" "bp_buffers p = B"
      "held w1 (bc_curr s) = held w (bc_curr s)" "outs w1 = outs w" and s': "s' = s\<lparr>bc_pool := p\<rparr>"
    for wr p s' and w1 :: "('a, 'y) chan_world"
  proof -
    obtain wr2 w2 where w2: "copy_from_writer wr (bc_curr s) w1 = (Ok wr2, w2)"
        "chan_inv B bs [wr2, bc_curr s] w2" "same_view [bc_curr s] w1 w2"
        "held w2 wr2 = held w1 (bc_curr s)"
      using copy_inv [OF w1(1)] by blast
    obtain w3 where w3: "send_or_panic T ch (writer_reader wr2) (bc_sender s) w2 = (Ok (), w3)"
        "chan_inv B bs [bc_curr s] w3" "length (bw_bufs w3) = length (bw_bufs w2)"
        "held w3 (bc_curr s) = held w2 (bc_curr s)" "outs w3 = appended [ch] (held w2 wr2) (outs w2)"
      using send_outs [OF w2(2), of T ch] prems by auto
    have held3: "held w3 (bc_curr s) = held w (bc_curr s)" "outs w2 = outs w"
        "length (bw_bufs w2) = length (bw_bufs w1)"
      using w1(4,5) w2(3) w3(4) outs_same_view [OF w2(3)] by (auto simp: same_view_def)
    have app: "appended cs es (appended [ch] es out) = appended (ch # cs) es out" for es out
      using prems(5) by (auto simp: appended_def fun_eq_iff)
    have p3: "pool_ok (bc_pool s') (bw_bufs w3)" "bp_buffers (bc_pool s') = B"
      using w1(2,3) w3(3) held3(3) s' by (simp_all add: pool_ok_def)
    have outs3: "outs w3 = appended [ch] (held w (bc_curr s)) (outs w)"
      using w3(5) w2(4) w1(4) held3(2) by simp
    have "ok_or_waits ?Q (broadcast_send T cs (s', w3))"
      by (rule ok_or_waits_mono [OF Cons.IH [OF _ p3]])
        (use w3(2) held3(1) outs3 app s' prems Cons in auto)
    then have "ok_or_waits ?Q (broadcast_send T (ch' # chs) (s', w3))" using Cons by simp
    then show ?thesis using w2(1) w3(1) s' by (simp add: lift_w_Ok)
  qed
  show ?thesis
    unfolding Cons broadcast_send.simps prod.case
    by (rule ok_or_waits_bind, rule lift_w_spec,
        rule ok_or_waits_mono [OF get_writer_spec [OF prems(1,2,3)]])
      (use step Cons in auto)
qed
qed

interpretation bct: batch_strategy broadcast_push "broadcast_flush T" "broadcast_ok T bs"
    broadcast_empty broadcast_log broadcast_records
  for T :: "'a tell_serialised" and bs
proof unfold_locales
  fix x :: "broadcast \<times> ('a, 'y) chan_world"
  assume ok: "broadcast_ok T bs x"
  obtain s w where x: "x = (s, w)" by (cases x)
  let ?B = "bp_buffers (bc_pool s)"
  let ?Q = "\<lambda>_ x'. broadcast_ok T bs x' \<and> broadcast_empty x' \<and> broadcast_log x' = broadcast_log x"
  have renew: "ok_or_waits ?Q (bind_s (lift_w (get_writer (bc_pool s'))) (\<lambda>(wr, p) (s, w).
         (Ok (), (s\<lparr>bc_curr := wr, bc_pool := p\<rparr>, w))) (s', w'))"
    if w': "chan_inv ?B bs [] w'" "pool_ok (bc_pool s') (bw_bufs w')" "bp_buffers (bc_pool s') = ?B"
      "bc_channels s' = bc_channels s" "outs w' = appended (bc_channels s) (held w (bc_curr s)) (outs w)"
    for s' w'
    by (rule ok_or_waits_bind, rule lift_w_spec, rule ok_or_waits_mono [OF get_writer_spec [OF w'(1,2,3)]])
      (use ok w' x in \<open>auto simp: broadcast_ok_def broadcast_empty_def broadcast_log_def held_empty\<close>)
  have "ok_or_waits (\<lambda>_ (s', w'). chan_inv ?B bs [] w' \<and> pool_ok (bc_pool s') (bw_bufs w') \<and>
      bp_buffers (bc_pool s') = ?B \<and> bc_channels s' = bc_channels s \<and>
      outs w' = appended (bc_channels s) (held w (bc_curr s)) (outs w))
    (broadcast_send T (bc_channels s) (s, w))"
    using broadcast_send_spec [of ?B bs s w "bc_channels s" T] ok x by (simp add: broadcast_ok_def)
  then show "ok_or_waits ?Q (broadcast_flush T x)"
    unfolding broadcast_flush_def x prod.case
    by (rule ok_or_waits_bind) (use renew in \<open>auto simp: x\<close>)
next
  fix x :: "broadcast \<times> ('a, 'y) chan_world" and e
  assume ok: "broadcast_ok T bs x"
  obtain s w where x: "x = (s, w)" by (cases x)
  have inv: "chan_inv (bp_buffers (bc_pool s)) bs [bc_curr s] w" using ok x by (simp add: broadcast_ok_def)
  show "(\<not> broadcast_empty x \<and> broadcast_push e x = (Ok (Some e), x)) \<or>
      (\<exists>x'. broadcast_push e x = (Ok None, x') \<and> broadcast_ok T bs x' \<and>
        broadcast_records e (broadcast_log x) (broadcast_log x'))"
    using push_spec_w [OF inv, of e]
  proof (elim disjE exE conjE)
    assume "wr_len (bc_curr s) \<noteq> 0" "writer_push e (bc_curr s) w = (Ok (Some e, bc_curr s), w)"
    then show ?thesis using x by (simp add: broadcast_push_def broadcast_empty_def lift_w_Ok)
  next
    fix wr' w'
    assume "writer_push e (bc_curr s) w = (Ok (None, wr'), w')"
      "chan_inv (bp_buffers (bc_pool s)) bs [wr'] w'" "length (bw_bufs w') = length (bw_bufs w)"
      "outs w' = outs w" "held w' wr' = held w (bc_curr s) @ [e]"
    then show ?thesis using x ok
      by (simp add: broadcast_push_def lift_w_Ok broadcast_ok_def broadcast_records_def records_on_def
          broadcast_log_def appended_append pool_ok_def)
  qed
qed

section \<open>Key by\<close>

text \<open>The range index of a key is below the number of ranges when the product does not overflow.\<close>

lemma key_index_bound:
  assumes "max_key \<noteq> 0" and "unat max_key * unat n < 2 ^ 64"
  shows "\<exists>i. key_index k max_key n = Ok i \<and> unat i = unat (k mod max_key) * unat n div unat max_key \<and>
    (n \<noteq> 0 \<longrightarrow> i < n)"
proof -
  let ?k = "k mod max_key"
  have m: "0 < unat max_key" using assms(1) by (simp add: unat_gt_0)
  then have k: "unat ?k < unat max_key" by (simp add: unat_mod)
  then have "unat ?k * unat n \<le> unat max_key * unat n" by simp
  then have small: "unat ?k * unat n < 2 ^ 64" using assms(2) by linarith
  have val: "unat (?k * n div max_key) = unat ?k * unat n div unat max_key"
    using small by (simp add: unat_div unat_mul_no_overflow)
  moreover have "?k * n div max_key < n" if "n \<noteq> 0"
  proof -
    have "unat ?k * unat n < unat n * unat max_key"
      using k that by (simp add: mult.commute unat_gt_0)
    then have "unat ?k * unat n div unat max_key < unat n" by (rule less_mult_imp_div_less)
    then show ?thesis by (simp add: word_less_nat_alt val)
  qed
  ultimately show ?thesis using assms(1) small
    by (simp add: key_index_def rem_u_def mul_u_def div_u_def)
qed

text \<open>One buffer of the map: pushing, flushing when full.\<close>

definition one_ok ::
    "nat list \<Rightarrow> usize \<Rightarrow> writer list \<Rightarrow> pool \<times> ('a, 'y) chan_world \<Rightarrow> bool" where
  "one_ok B bs ws = (\<lambda>(p, w). chan_inv B bs ws w \<and> pool_ok p (bw_bufs w) \<and> bp_buffers p = B)"

lemma key_by_flush_buffer_spec:
  assumes "one_ok B bs (wr # ws) (p, w)" and "reliable T ch"
  shows "ok_or_waits (\<lambda>wr' (p', w'). one_ok B bs (wr' # ws) (p', w') \<and> wr_len wr' = 0 \<and>
      (\<forall>v \<in> set ws. held w' v = held w v) \<and> outs w' = appended [ch] (held w wr) (outs w))
    (key_by_flush_buffer T sender ch wr (p, w))"
proof -
  obtain w1 where w1: "send_or_panic T ch (writer_reader wr) sender w = (Ok (), w1)"
      "chan_inv B bs ws w1" "length (bw_bufs w1) = length (bw_bufs w)"
      "\<forall>v \<in> set ws. held w1 v = held w v" "outs w1 = appended [ch] (held w wr) (outs w)"
    using send_outs [of B bs wr ws w T ch] assms by (auto simp: one_ok_def)
  have p: "pool_ok p (bw_bufs w1)" "bp_buffers p = B"
    using assms(1) w1(3) by (auto simp: one_ok_def pool_ok_def)
  have "ok_or_waits (\<lambda>wr' (p', w'). one_ok B bs (wr' # ws) (p', w') \<and> wr_len wr' = 0 \<and>
      (\<forall>v \<in> set ws. held w' v = held w v) \<and> outs w' = appended [ch] (held w wr) (outs w))
    (bind_s (lift_w (get_writer p)) (\<lambda>(wr', p') (_, w). (Ok wr', (p', w))) (p, w1))"
    by (rule ok_or_waits_bind, rule lift_w_spec, rule ok_or_waits_mono [OF get_writer_spec [OF w1(2) p]])
      (use w1 in \<open>auto simp: one_ok_def\<close>)
  then show ?thesis using w1(1) by (simp add: key_by_flush_buffer_def lift_w_Ok)
qed

lemma key_by_push_spec:
  fixes w :: "('a, 'y) chan_world"
  assumes ok: "one_ok B bs (wr # ws) (p, w)" and rel: "reliable T ch"
  shows "ok_or_waits (\<lambda>wr' (p', w'). one_ok B bs (wr' # ws) (p', w') \<and>
      (\<forall>v \<in> set ws. held w' v = held w v) \<and>
      appended [ch] (held w' wr') (outs w') = appended [ch] (held w wr @ [e]) (outs w))
    (key_by_push T sender e ch wr (p, w))"
proof -
  let ?Q = "\<lambda>wr' (p', w'). one_ok B bs (wr' # ws) (p', w') \<and>
      (\<forall>v \<in> set ws. held w' v = held w v) \<and>
      appended [ch] (held w' wr') (outs w') = appended [ch] (held w wr @ [e]) (outs w)"
  have inv: "chan_inv B bs (wr # ws) w" using ok by (simp add: one_ok_def)
  show ?thesis
    using push_spec_w [OF inv, of e]
  proof (elim disjE exE conjE)
    assume full: "writer_push e wr w = (Ok (Some e, wr), w)"
    have again: "ok_or_waits ?Q (bind_s (lift_w (writer_push e wr1)) (\<lambda>(_, wr). return_s wr) (p1, w1))"
      if fresh: "one_ok B bs (wr1 # ws) (p1, w1)" "wr_len wr1 = 0"
        "\<forall>v \<in> set ws. held w1 v = held w v" "outs w1 = appended [ch] (held w wr) (outs w)"
      for wr1 p1 and w1 :: "('a, 'y) chan_world"
    proof -
      have inv1: "chan_inv B bs (wr1 # ws) w1" using fresh(1) by (simp add: one_ok_def)
      obtain wr2 w2 where "writer_push e wr1 w1 = (Ok (None, wr2), w2)" "chan_inv B bs (wr2 # ws) w2"
          "length (bw_bufs w2) = length (bw_bufs w1)" "\<forall>v \<in> set ws. held w2 v = held w1 v"
          "outs w2 = outs w1" "held w2 wr2 = held w1 wr1 @ [e]"
        using push_spec_w [OF inv1, of e] fresh(2) by blast
      then show ?thesis using fresh
        by (auto simp: lift_w_Ok one_ok_def pool_ok_def held_empty appended_append)
    qed
    have "ok_or_waits ?Q (bind_s (key_by_flush_buffer T sender ch wr) (\<lambda>wr.
           bind_s (lift_w (writer_push e wr)) (\<lambda>(_, wr). return_s wr)) (p, w))"
      by (rule ok_or_waits_bind, rule key_by_flush_buffer_spec [OF ok rel]) (use again in auto)
    then show ?thesis using full by (simp add: key_by_push_def lift_w_Ok)
  next
    fix wr' w'
    assume "writer_push e wr w = (Ok (None, wr'), w')" "chan_inv B bs (wr' # ws) w'"
      "length (bw_bufs w') = length (bw_bufs w)" "\<forall>v \<in> set ws. held w' v = held w v"
      "outs w' = outs w" "held w' wr' = held w wr @ [e]"
    then show ?thesis using ok by (auto simp: key_by_push_def lift_w_Ok one_ok_def pool_ok_def)
  qed
qed

text \<open>All buffers: what each channel has been given, with what its buffer holds.\<close>

definition key_by_outs ::
    "(usize \<times> channel \<times> writer) list \<Rightarrow> ('a, 'y) chan_world \<Rightarrow> channel \<Rightarrow> 'a event_wrapper list" where
  "key_by_outs m w ch =
     outs w ch @ concat (map (\<lambda>(i, c, wr). if c = ch then held w wr else []) m)"

definition channels_of :: "(usize \<times> channel \<times> writer) list \<Rightarrow> channel list" where
  "channels_of m = map (\<lambda>(i, c, wr). c) m"

definition writers_of :: "(usize \<times> channel \<times> writer) list \<Rightarrow> writer list" where
  "writers_of m = map (\<lambda>(i, c, wr). wr) m"

lemma of_append [simp]:
  "channels_of (xs @ ys) = channels_of xs @ channels_of ys" "channels_of [] = []"
  "channels_of ((i, c, wr) # ys) = c # channels_of ys"
  "writers_of (xs @ ys) = writers_of xs @ writers_of ys" "writers_of [] = []"
  "writers_of ((i, c, wr) # ys) = wr # writers_of ys"
  by (simp_all add: channels_of_def writers_of_def)

lemma concat_other_channel:
  "ch \<notin> set (channels_of m) \<Longrightarrow> concat (map (\<lambda>(i, c, wr). if c = ch then held w wr else []) m) = []"
  by (force simp: channels_of_def)

lemma key_by_outs_split:
  assumes "distinct (channels_of (xs @ (i, ch, wr) # ys))"
  shows "key_by_outs (xs @ (i, ch, wr) # ys) w c
    = (if c = ch then outs w ch @ held w wr else key_by_outs (xs @ ys) w c)"
  using assms by (auto simp: key_by_outs_def concat_other_channel)

lemma key_by_outs_cong:
  assumes "\<forall>v \<in> set (writers_of m). held w' v = held w v" and "outs w' c = outs w c"
  shows "key_by_outs m w' c = key_by_outs m w c"
  using assms by (induction m) (auto simp: key_by_outs_def)

lemma key_by_outs_step:
  assumes d: "distinct (channels_of (xs @ (i, ch, wr) # ys))"
    and others: "\<forall>v \<in> set (writers_of (xs @ ys)). held w' v = held w v"
    and step: "appended [ch] (held w' wr') (outs w') = appended [ch] (held w wr @ es) (outs w)"
  shows "key_by_outs (xs @ (i, ch, wr') # ys) w' = appended [ch] es (key_by_outs (xs @ (i, ch, wr) # ys) w)"
proof
  fix c
  have d': "distinct (channels_of (xs @ (i, ch, wr') # ys))" using d by simp
  have st: "outs w' c @ (if c = ch then held w' wr' else []) = outs w c @ (if c = ch then held w wr @ es else [])"
    using fun_cong [OF step, of c] by (simp add: appended_def)
  show "key_by_outs (xs @ (i, ch, wr') # ys) w' c = appended [ch] es (key_by_outs (xs @ (i, ch, wr) # ys) w) c"
  proof (cases "c = ch")
    case True
    then show ?thesis using st by (simp add: key_by_outs_split [OF d] key_by_outs_split [OF d'] appended_def)
  next
    case False
    then have "key_by_outs (xs @ ys) w' c = key_by_outs (xs @ ys) w c"
      using key_by_outs_cong [OF others, of c] st by simp
    then show ?thesis using False
      by (simp add: key_by_outs_split [OF d] key_by_outs_split [OF d'] appended_def)
  qed
qed

lemma writers_front:
  "chan_inv B bs (writers_of (xs @ (i, ch, wr) # ys)) w = chan_inv B bs (wr # writers_of (xs @ ys)) w"
  by (rule chan_inv_perm) simp

lemma one_ok_front:
  "one_ok B bs (writers_of (xs @ (i, ch, wr) # ys)) x = one_ok B bs (wr # writers_of (xs @ ys)) x"
  using writers_front [of B bs xs i ch wr ys "snd x"] by (cases x) (simp add: one_ok_def)

text \<open>A loop over the buffers, whose body gives \<open>es\<close> to the channel of one buffer.\<close>

lemma key_by_each_spec:
  fixes w :: "('a, 'y) chan_world"
  assumes body: "\<And>wr ws p (w :: ('a, 'y) chan_world) ch. one_ok B bs (wr # ws) (p, w) \<Longrightarrow> reliable T ch \<Longrightarrow>
      ok_or_waits (\<lambda>wr' (p', w'). one_ok B bs (wr' # ws) (p', w') \<and>
        (\<forall>v \<in> set ws. held w' v = held w v) \<and>
        appended [ch] (held w' wr') (outs w') = appended [ch] (held w wr @ es) (outs w)) (f ch wr (p, w))"
    and "one_ok B bs (writers_of (xs @ m)) (p, w)" "distinct (channels_of (xs @ m))"
    and "list_all (reliable T) (channels_of m)"
  shows "ok_or_waits (\<lambda>m' (p', w'). one_ok B bs (writers_of m') (p', w') \<and>
      channels_of m' = channels_of (xs @ m) \<and> map fst m' = map fst (xs @ m) \<and>
      key_by_outs m' w' = appended (channels_of m) es (key_by_outs (xs @ m) w)) (key_by_each f xs m (p, w))"
  using assms(2-4)
proof (induction m arbitrary: xs p w)
  case Nil
  then show ?case by (simp add: appended_def fun_eq_iff)
next
  case (Cons x m)
  obtain i ch wr where x: "x = (i, ch, wr)" by (cases x)
  have ok: "one_ok B bs (wr # writers_of (xs @ m)) (p, w)"
    using Cons.prems(1) one_ok_front [of B bs xs i ch wr m "(p, w)"] by (simp add: x)
  have rel: "reliable T ch" using Cons.prems(3) x by simp
  have rest: "ok_or_waits (\<lambda>m' (p', w'). one_ok B bs (writers_of m') (p', w') \<and>
        channels_of m' = channels_of (xs @ x # m) \<and> map fst m' = map fst (xs @ x # m) \<and>
        key_by_outs m' w' = appended (channels_of (x # m)) es (key_by_outs (xs @ x # m) w))
      (key_by_each f (xs @ [(i, ch, wr')]) m (p1, w1))"
    if w1: "one_ok B bs (wr' # writers_of (xs @ m)) (p1, w1)"
      "\<forall>v \<in> set (writers_of (xs @ m)). held w1 v = held w v"
      "appended [ch] (held w1 wr') (outs w1) = appended [ch] (held w wr @ es) (outs w)" for wr' p1 and w1 :: "('a, 'y) chan_world"
  proof -
    have outs1: "key_by_outs (xs @ (i, ch, wr') # m) w1
        = appended [ch] es (key_by_outs (xs @ (i, ch, wr) # m) w)"
      using key_by_outs_step [of xs i ch wr m w1 w wr' es] Cons.prems(2) w1 x by simp
    have "one_ok B bs (writers_of ((xs @ [(i, ch, wr')]) @ m)) (p1, w1)"
      using w1(1) one_ok_front [of B bs xs i ch wr' m "(p1, w1)"] by simp
    then have "ok_or_waits (\<lambda>m' (p', w'). one_ok B bs (writers_of m') (p', w') \<and>
        channels_of m' = channels_of ((xs @ [(i, ch, wr')]) @ m) \<and>
        map fst m' = map fst ((xs @ [(i, ch, wr')]) @ m) \<and>
        key_by_outs m' w' = appended (channels_of m) es (key_by_outs ((xs @ [(i, ch, wr')]) @ m) w1))
      (key_by_each f (xs @ [(i, ch, wr')]) m (p1, w1))"
      by (rule Cons.IH) (use Cons.prems x in auto)
    moreover have "appended (channels_of m) es (appended [ch] es out) = appended (ch # channels_of m) es out" for out
      using Cons.prems(2) x by (auto simp: appended_def fun_eq_iff)
    ultimately show ?thesis using outs1 x by simp
  qed
  show ?case
    unfolding x key_by_each.simps
    by (rule ok_or_waits_bind, rule body [OF ok rel]) (use rest x in auto)
qed

definition key_by_ok :: "'a tell_serialised \<Rightarrow> usize \<Rightarrow> key_by \<times> ('a, 'y) chan_world \<Rightarrow> bool" where
  "key_by_ok T bs = (\<lambda>(s, w).
     one_ok (bp_buffers (kb_pool s)) bs (writers_of (kb_buffers s)) (kb_pool s, w) \<and>
     distinct (channels_of (kb_buffers s)) \<and> distinct (map fst (kb_buffers s)) \<and>
     list_all (reliable T) (channels_of (kb_buffers s)))"

text \<open>A loop over all buffers gives its events to every channel.\<close>

lemma key_by_run_spec:
  fixes w :: "('a, 'y) chan_world"
  assumes ok: "key_by_ok T bs (s, w)"
    and body: "\<And>B wr ws p (w :: ('a, 'y) chan_world) ch. one_ok B bs (wr # ws) (p, w) \<Longrightarrow> reliable T ch \<Longrightarrow>
      ok_or_waits (\<lambda>wr' (p', w'). one_ok B bs (wr' # ws) (p', w') \<and>
        (\<forall>v \<in> set ws. held w' v = held w v) \<and>
        appended [ch] (held w' wr') (outs w') = appended [ch] (held w wr @ es) (outs w)) (f ch wr (p, w))"
  shows "ok_or_waits (\<lambda>_ (s', w'). key_by_ok T bs (s', w') \<and> kb_sender s' = kb_sender s \<and>
      channels_of (kb_buffers s') = channels_of (kb_buffers s) \<and>
      key_by_outs (kb_buffers s') w' = appended (channels_of (kb_buffers s)) es (key_by_outs (kb_buffers s) w))
    (key_by_run f (s, w))"
proof -
  have "ok_or_waits (\<lambda>m' (p', w'). one_ok (bp_buffers (kb_pool s)) bs (writers_of m') (p', w') \<and>
      channels_of m' = channels_of ([] @ kb_buffers s) \<and> map fst m' = map fst ([] @ kb_buffers s) \<and>
      key_by_outs m' w' = appended (channels_of (kb_buffers s)) es (key_by_outs ([] @ kb_buffers s) w))
    (key_by_each f [] (kb_buffers s) (kb_pool s, w))"
    by (rule key_by_each_spec [OF body]) (use ok in \<open>auto simp: key_by_ok_def\<close>)
  then show ?thesis
    using ok
    by (auto simp: key_by_run_def ok_or_waits_def key_by_ok_def one_ok_def
        split: prod.splits outcome.splits)
qed

lemma flush_body:
  assumes "one_ok B bs (wr # ws) (p, w)" and "reliable T ch"
  shows "ok_or_waits (\<lambda>wr' (p', w'). one_ok B bs (wr' # ws) (p', w') \<and>
      (\<forall>v \<in> set ws. held w' v = held w v) \<and>
      appended [ch] (held w' wr') (outs w') = appended [ch] (held w wr @ []) (outs w))
    (key_by_flush_buffer T sender ch wr (p, w))"
  by (rule ok_or_waits_mono [OF key_by_flush_buffer_spec [OF assms]]) (auto simp: held_empty)

lemma key_by_flush_ok:
  assumes "key_by_ok T bs (s, w)"
  shows "ok_or_waits (\<lambda>_ (s', w'). key_by_ok T bs (s', w') \<and>
      channels_of (kb_buffers s') = channels_of (kb_buffers s) \<and>
      key_by_outs (kb_buffers s') w' = key_by_outs (kb_buffers s) w) (key_by_flush T (s, w))"
  unfolding key_by_flush_def prod.case
  by (rule ok_or_waits_mono [OF key_by_run_spec [OF assms flush_body]]) auto

lemma update_split:
  assumes "i \<notin> set (map fst xs)"
  shows "AList.update i y (xs @ (i, x) # ys) = xs @ (i, y) # ys"
  using assms by (induction xs) auto

section \<open>Progress\<close>

lemma consume_keeps_free: "eb_free (bw_bufs w ! r) \<Longrightarrow> eb_free (bw_bufs (consume a w) ! r)"
  by (cases rule: consume_cases [of a w]) (simp_all add: release_free)

lemma consume_all_keeps_free: "eb_free (bw_bufs w ! r) \<Longrightarrow> eb_free (bw_bufs (consume_all as w) ! r)"
  by (induction as arbitrary: w) (simp_all add: consume_all_def consume_keeps_free)

lemma consume_length [simp]: "length (bw_bufs (consume a w)) = length (bw_bufs w)"
  by (cases rule: consume_cases [of a w]) simp_all

lemma consume_all_length [simp]: "length (bw_bufs (consume_all as w)) = length (bw_bufs w)"
  by (induction as arbitrary: w) (simp_all add: consume_all_def)

lemma consume_frees:
  assumes inv: "chan_inv B bs ws w" and m: "m \<in> set (cw_mailbox w)" "fst m = a"
  shows "\<exists>r \<in> set B. eb_free (bw_bufs (consume a w) ! r)"
proof (cases rule: consume_cases [of a w])
  case idle
  then have "find (\<lambda>m. fst m = a) (cw_mailbox w) = None"
    by (auto simp: consume_def reader_drop_def reader_release_def event_buffer_release_def
        split: option.splits prod.splits dest!: arg_cong [where f = "\<lambda>w. length (cw_consumed w)"])
  then have "\<not> (\<exists>m. m \<in> set (cw_mailbox w) \<and> fst m = a)" by (simp only: find_None_iff) blast
  with m show ?thesis by blast
next
  case (takes xs rd s ys)
  have "rd_buffer rd \<in> set B" "rd_buffer rd < length (bw_bufs w)"
    using inv takes(1) by (auto simp: chan_inv_def slots_def)
  then show ?thesis by (auto simp: takes(3) release_free)
qed

lemma consume_other:
  assumes "m \<in> set (cw_mailbox w)" "fst m \<noteq> a"
  shows "m \<in> set (cw_mailbox (consume a w))"
  using assms by (cases rule: consume_cases [of a w]) auto

lemma consume_all_frees:
  "chan_inv B bs ws w \<Longrightarrow> m \<in> set (cw_mailbox w) \<Longrightarrow> fst m \<in> set as \<Longrightarrow>
    \<exists>r \<in> set B. eb_free (bw_bufs (consume_all as w) ! r)"
proof (induction as arbitrary: w)
  case Nil
  then show ?case by simp
next
  case (Cons a as)
  show ?case
  proof (cases "fst m = a")
    case True
    then obtain r where "r \<in> set B" "eb_free (bw_bufs (consume a w) ! r)"
      using consume_frees [OF Cons.prems(1,2)] by blast
    then show ?thesis
      using consume_all_keeps_free [of "consume a w" r as] by (auto simp: consume_all_def)
  next
    case False
    then show ?thesis
      using Cons.IH [of "consume a w"] Cons.prems consume_inv [of B bs ws w a] consume_other [of m w a]
      by (simp add: consume_all_def)
  qed
qed

lemma get_writer_returns:
  assumes inv: "chan_inv B bs ws w" and p: "pool_ok p (bw_bufs w)" "bp_buffers p = B"
    and m: "m \<in> set (cw_mailbox w)" "fst m \<in> set (hd (cw_schedule w))"
    and sched: "length B \<le> length (cw_schedule w)"
  shows "\<exists>wr p' w'. get_writer p w = (Ok (wr, p'), w')"
proof -
  let ?n = "length B"
  obtain r where r: "r \<in> set B" "eb_free (bw_bufs (consume_all (hd (cw_schedule w)) w) ! r)"
    using consume_all_frees [OF inv m] by blast
  then obtain j where j: "j < ?n" "B ! j = r" by (auto simp: in_set_conv_nth)
  define d where "d = (j + ?n - bp_curr p) mod ?n"
  have n: "0 < ?n" "bp_curr p < ?n" using p by (auto simp: pool_ok_def)
  have "(bp_curr p + d) mod ?n = (bp_curr p + (j + ?n - bp_curr p)) mod ?n"
    by (simp add: d_def mod_simps)
  also have "\<dots> = j" using n j(1) by simp
  finally have "\<exists>res w'. pool_get consume_all (cw_schedule w) p w = (Ok res, w')"
    using r j n p sched
    by (intro pool_get_returns [where d = d]) (auto simp: d_def consume_all_keeps_free less_le_trans [OF mod_less_divisor])
  then show ?thesis by (auto simp: get_writer_def)
qed

section \<open>Forward over any channel\<close>

text \<open>What becomes of a batch: a local channel takes it, a remote one transmits it, which can fail. The code panics
  when the failure is a \<^verbatim>\<open>BufferError\<close> and drops the batch otherwise.\<close>

definition transmitted ::
    "'a tell_serialised \<Rightarrow> channel \<Rightarrow> node_id \<Rightarrow> 'a event_wrapper list \<Rightarrow> (ser_error, unit) outcome" where
  "transmitted T ch sender evs =
     (case ch of Local _ \<Rightarrow> Ok () | Remote p fs \<Rightarrow> T p fs \<lparr>rm_events = evs, rm_sender = sender\<rparr>)"

definition delivered :: "'a tell_serialised \<Rightarrow> channel \<Rightarrow> node_id \<Rightarrow> 'a event_wrapper list \<Rightarrow> 'a event_wrapper list" where
  "delivered T ch sender evs = (if transmitted T ch sender evs = Ok () then evs else [])"

definition refused :: "'a tell_serialised \<Rightarrow> channel \<Rightarrow> node_id \<Rightarrow> 'a event_wrapper list \<Rightarrow> string \<Rightarrow> bool" where
  "refused T ch sender evs err \<longleftrightarrow> transmitted T ch sender evs = Err (BufferError err)"

text \<open>\<^verbatim>\<open>tell_serialised\<close> returns a result.\<close>

definition tells :: "'a tell_serialised \<Rightarrow> bool" where
  "tells T \<longleftrightarrow> (\<forall>p fs m. T p fs m = Ok () \<or> (\<exists>er. T p fs m = Err er))"

lemma send_any:
  assumes inv: "chan_inv B bs (wr # ws) w" and T: "tells T"
  obtains w' where "\<And>err. refused T ch sender (held w wr) err \<Longrightarrow>
      send_or_panic T ch (writer_reader wr) sender w = (Panic (''Buffer Error '' @ err), w')"
    and "\<forall>err. \<not> refused T ch sender (held w wr) err \<Longrightarrow> send_or_panic T ch (writer_reader wr) sender w = (Ok (), w')"
    and "chan_inv B bs ws w'" "length (bw_bufs w') = length (bw_bufs w)"
    and "outs w' = appended [ch] (delivered T ch sender (held w wr)) (outs w)"
proof (cases "transmitted T ch sender (held w wr) = Ok ()")
  case True
  define T' :: "'a tell_serialised" where "T' = (\<lambda>p fs m. Ok ())"
  have "send_or_panic T ch (writer_reader wr) sender w = send_or_panic T' ch (writer_reader wr) sender w"
    using True inv
    by (auto simp: send_or_panic_def send_def bind_s_def query_def transmitted_def T'_def reader_into_vec_def writer_reader_def
        held_def chan_inv_def Let_def split: channel.splits)
  moreover have "reliable T' ch" by (auto simp: reliable_def T'_def split: channel.split)
  then obtain w' where "send_or_panic T' ch (writer_reader wr) sender w = (Ok (), w')" "chan_inv B bs ws w'"
      "length (bw_bufs w') = length (bw_bufs w)" "outs w' = appended [ch] (held w wr) (outs w)"
    using send_outs [OF inv] by metis
  ultimately show thesis using True by (intro that [of w']) (simp_all add: delivered_def refused_def)
next
  case False
  then obtain p fs er where ch: "ch = Remote p fs" and er: "T p fs \<lparr>rm_events = held w wr, rm_sender = sender\<rparr> = Err er"
    using T unfolding tells_def transmitted_def by (cases ch) (simp_all, metis)
  let ?w = "event_buffer_release (wr_buffer wr) w"
  have wrt: "written (bw_bufs w ! wr_buffer wr) (wr_len wr)" using inv by (simp add: chan_inv_def)
  then have "send_or_panic T ch (writer_reader wr) sender w =
      (case er of BufferError err \<Rightarrow> (Panic (''Buffer Error '' @ err), ?w) | _ \<Rightarrow> (Ok (), ?w))"
    using er
    by (simp add: send_or_panic_def send_def bind_s_def query_def ch reader_into_vec_def writer_reader_def reader_drop_def
        reader_release_def held_def Let_def split: ser_error.split)
  moreover have "chan_inv B bs ws ?w"
    using inv others_apart [OF inv] by (auto simp: chan_inv_def slots_def release_free)
  moreover have "outs ?w = outs w" by (simp add: outs_def out_events_def waiting_def [abs_def] fun_eq_iff)
  ultimately show thesis
    using er by (intro that [of ?w]) (auto simp: refused_def transmitted_def delivered_def ch split: ser_error.splits)
qed

text \<open>The state of a forward strategy, whatever its channel.\<close>

definition forward_inv :: "usize \<Rightarrow> forward \<times> ('a, 'y) chan_world \<Rightarrow> bool" where
  "forward_inv bs = (\<lambda>(s, w). chan_inv (bp_buffers (fw_pool s)) bs [fw_curr s] w \<and> pool_ok (fw_pool s) (bw_bufs w))"

lemma forward_ok_iff: "forward_ok T bs x \<longleftrightarrow> forward_inv bs x \<and> reliable T (fw_channel (fst x))"
  by (cases x) (auto simp: forward_ok_def forward_inv_def)

text \<open>\<open>after_sending T bs s w sent left r\<close>: the outcome \<open>r\<close> of a call on the strategy \<open>s\<close> that sends the batches \<open>sent\<close> and
  keeps \<open>left\<close> in the buffer.\<close>

definition after_sending ::
    "'a tell_serialised \<Rightarrow> usize \<Rightarrow> forward \<Rightarrow> ('a, 'y) chan_world \<Rightarrow> 'a event_wrapper list list \<Rightarrow> 'a event_wrapper list
      \<Rightarrow> (arcon_error, unit) outcome \<times> forward \<times> ('a, 'y) chan_world \<Rightarrow> bool" where
  "after_sending T bs s w sent left r =
     (case r of
        (Ok _, (s', w')) \<Rightarrow>
          forward_inv bs (s', w') \<and> fw_channel s' = fw_channel s \<and> fw_sender s' = fw_sender s \<and>
          held w' (fw_curr s') = left \<and>
          outs w' = appended [fw_channel s] (concat (map (delivered T (fw_channel s) (fw_sender s)) sent)) (outs w) \<and>
          (\<forall>b \<in> set sent. \<forall>err. \<not> refused T (fw_channel s) (fw_sender s) b err)
      | (Panic p, _) \<Rightarrow> \<exists>b \<in> set sent. \<exists>err. refused T (fw_channel s) (fw_sender s) b err \<and> p = ''Buffer Error '' @ err
      | (NoFuel, _) \<Rightarrow> sent \<noteq> [] \<and> (\<forall>err. \<not> refused T (fw_channel s) (fw_sender s) (hd sent) err)
      | (Err _, _) \<Rightarrow> False)"

lemma flush_sends:
  assumes inv: "forward_inv bs (s, w)" and T: "tells T"
  shows "after_sending T bs s w [held w (fw_curr s)] [] (forward_flush T (s, w))"
proof -
  let ?B = "bp_buffers (fw_pool s)" and ?h = "held w (fw_curr s)"
  have c: "chan_inv ?B bs [fw_curr s] w" "pool_ok (fw_pool s) (bw_bufs w)" using inv by (simp_all add: forward_inv_def)
  obtain w1 where w1: "\<And>err. refused T (fw_channel s) (fw_sender s) ?h err \<Longrightarrow>
        send_or_panic T (fw_channel s) (writer_reader (fw_curr s)) (fw_sender s) w = (Panic (''Buffer Error '' @ err), w1)"
      "\<forall>err. \<not> refused T (fw_channel s) (fw_sender s) ?h err \<Longrightarrow>
        send_or_panic T (fw_channel s) (writer_reader (fw_curr s)) (fw_sender s) w = (Ok (), w1)"
      "chan_inv ?B bs [] w1" "length (bw_bufs w1) = length (bw_bufs w)"
      "outs w1 = appended [fw_channel s] (delivered T (fw_channel s) (fw_sender s) ?h) (outs w)"
    using send_any [OF c(1) T] by metis
  show ?thesis
  proof (cases "\<exists>err. refused T (fw_channel s) (fw_sender s) ?h err")
    case True
    then show ?thesis using w1(1) by (auto simp: after_sending_def forward_flush_def lift_w_def bind_s_def)
  next
    case False
    have p: "pool_ok (fw_pool s) (bw_bufs w1)" using c(2) w1(4) by (simp add: pool_ok_def)
    have "after_sending T bs s w [?h] []
        (bind_s (lift_w (get_writer (fw_pool s))) (\<lambda>(wr, p) (s, w). (Ok (), (s\<lparr>fw_curr := wr, fw_pool := p\<rparr>, w))) (s, w1))"
      using get_writer_spec [OF w1(3) p refl] False w1(5)
      by (cases "get_writer (fw_pool s) w1"; cases "fst (get_writer (fw_pool s) w1)")
        (auto simp: after_sending_def lift_w_def bind_s_def ok_or_waits_def forward_inv_def held_empty)
    then show ?thesis using w1(2) False by (simp add: forward_flush_def lift_w_Ok)
  qed
qed

lemma push_fills:
  assumes inv: "forward_inv bs (s, w)"
  shows "if wr_len (fw_curr s) = unat bs then forward_push e (s, w) = (Ok (Some e), (s, w))
    else \<exists>s' w'. forward_push e (s, w) = (Ok None, (s', w')) \<and> forward_inv bs (s', w') \<and> fw_channel s' = fw_channel s \<and>
      fw_sender s' = fw_sender s \<and> held w' (fw_curr s') = held w (fw_curr s) @ [e] \<and> outs w' = outs w"
proof -
  have c: "chan_inv (bp_buffers (fw_pool s)) bs [fw_curr s] w" "pool_ok (fw_pool s) (bw_bufs w)"
    using inv by (simp_all add: forward_inv_def)
  show ?thesis
  proof (cases "wr_len (fw_curr s) = unat bs")
    case True
    then show ?thesis using push_full [OF c(1) True, of e] by (simp add: forward_push_def lift_w_def bind_s_def)
  next
    case False
    then have "wr_len (fw_curr s) < unat bs" using writer_room(1) [OF c(1)] by simp
    from push_room [OF c(1) this, of e] obtain wr' w' where
      "writer_push e (fw_curr s) w = (Ok (None, wr'), w')" "chan_inv (bp_buffers (fw_pool s)) bs [wr'] w'"
      "same_view [] w w'" "held w' wr' = held w (fw_curr s) @ [e]" by blast
    then show ?thesis
      using False c(2) outs_same_view [of "[]" w w']
      by (auto simp: forward_push_def lift_w_def bind_s_def forward_inv_def same_view_def pool_ok_def)
  qed
qed

text \<open>The batches that adding an event sends, and what stays: the buffer when it is full, then, for an event that is no
  element, the buffer with the event.\<close>

definition forward_sends :: "bool \<Rightarrow> 'e list \<Rightarrow> 'e \<Rightarrow> bool \<Rightarrow> 'e list list \<times> 'e list" where
  "forward_sends full buffer e at_once =
     (let filled = (if full then [] else buffer) @ [e]
      in ((if full then [buffer] else []) @ (if at_once then [filled] else []), if at_once then [] else filled))"

definition goes_at_once :: "'a arcon_event \<Rightarrow> bool" where
  "goes_at_once e = (case e of ElementEv _ \<Rightarrow> False | _ \<Rightarrow> True)"

lemma forward_add_cases:
  "forward_add T e = (\<lambda>x. bind_s (forward_push (wrap_event e)) (\<lambda>r.
     case r of
       Some e' \<Rightarrow> bind_s (forward_flush T) (\<lambda>_. bind_s (forward_push e') (\<lambda>_. if goes_at_once e then forward_flush T else return_s ()))
     | None \<Rightarrow> if goes_at_once e then forward_flush T else return_s ()) x)"
  by (cases e) (simp_all add: forward_add_def goes_at_once_def cong: option.case_cong)

text \<open>A flush or nothing, after the event is in the buffer.\<close>

lemma finish_sends:
  assumes "forward_inv bs (s, w)" and "tells T"
  shows "after_sending T bs s w (if at_once then [held w (fw_curr s)] else []) (if at_once then [] else held w (fw_curr s))
    ((if at_once then forward_flush T else return_s ()) (s, w))"
  using flush_sends [OF assms] assms(1) by (simp add: after_sending_def return_s_def)

lemma after_sending_next:
  assumes "outs w1 = appended [fw_channel s] (concat (map (delivered T (fw_channel s) (fw_sender s)) sent)) (outs w)"
    and "fw_channel s1 = fw_channel s" "fw_sender s1 = fw_sender s"
    and "\<forall>b \<in> set sent. \<forall>err. \<not> refused T (fw_channel s) (fw_sender s) b err"
    and "after_sending T bs s1 w1 batches left r"
  shows "after_sending T bs s w (sent @ batches) left r"
  using assms
  by (cases sent) (auto simp: after_sending_def appended_append split: prod.splits outcome.splits)

lemma forward_add_sends:
  assumes inv: "forward_inv bs (s, w)" and T: "tells T"
    and sends: "forward_sends (wr_len (fw_curr s) = unat bs) (held w (fw_curr s)) (wrap_event e) (goes_at_once e) = (sent, left)"
  shows "after_sending T bs s w sent left (forward_add T e (s, w))"
proof (cases "wr_len (fw_curr s) = unat bs")
  case False
  obtain s' w' where p: "forward_push (wrap_event e) (s, w) = (Ok None, (s', w'))" "forward_inv bs (s', w')"
      "fw_channel s' = fw_channel s" "fw_sender s' = fw_sender s" "held w' (fw_curr s') = held w (fw_curr s) @ [wrap_event e]"
      "outs w' = outs w"
    using push_fills [OF inv, of "wrap_event e"] False by auto
  have run: "forward_add T e (s, w) = (if goes_at_once e then forward_flush T else return_s ()) (s', w')"
    using p(1) by (simp add: forward_add_cases bind_s_def)
  have "after_sending T bs s w ([] @ sent) left (forward_add T e (s, w))"
    unfolding run
    by (rule after_sending_next [where ?w1.0 = w' and sent = "[]", OF _ p(3,4)])
      (use finish_sends [OF p(2) T, of "goes_at_once e"] sends False p(5,6) in \<open>auto simp: forward_sends_def Let_def\<close>)
  then show ?thesis by simp
next
  case full: True
  have push: "forward_push (wrap_event e) (s, w) = (Ok (Some (wrap_event e)), (s, w))"
    using push_fills [OF inv, of "wrap_event e"] full by simp
  let ?h = "held w (fw_curr s)"
  have sent: "sent = [?h] @ (if goes_at_once e then [[wrap_event e]] else [])"
      "left = (if goes_at_once e then [] else [wrap_event e])"
    using sends full by (auto simp: forward_sends_def Let_def)
  note flush = flush_sends [OF inv T]
  obtain r x where Pair: "forward_flush T (s, w) = (r, x)" by (rule prod.exhaust)
  show ?thesis
  proof (cases r)
    case (Ok u)
    obtain s1 w1 where x: "x = (s1, w1)" by (cases x)
    have f: "forward_inv bs (s1, w1)" "fw_channel s1 = fw_channel s" "fw_sender s1 = fw_sender s"
        "held w1 (fw_curr s1) = []" "outs w1 = appended [fw_channel s] (concat (map (delivered T (fw_channel s) (fw_sender s)) [?h])) (outs w)"
        "\<forall>b \<in> set [?h]. \<forall>err. \<not> refused T (fw_channel s) (fw_sender s) b err"
      using flush unfolding Pair Ok x by (simp_all add: after_sending_def)
    have c: "chan_inv (bp_buffers (fw_pool s1)) bs [fw_curr s1] w1" using f(1) by (simp add: forward_inv_def)
    then have "wr_len (fw_curr s1) = length (held w1 (fw_curr s1))"
      by (simp add: chan_inv_def held_def contents_length)
    then have "wr_len (fw_curr s1) \<noteq> unat bs" using f(4) writer_room(4) [OF c] by simp
    then obtain s' w' where p: "forward_push (wrap_event e) (s1, w1) = (Ok None, (s', w'))" "forward_inv bs (s', w')"
        "fw_channel s' = fw_channel s1" "fw_sender s' = fw_sender s1" "held w' (fw_curr s') = [wrap_event e]"
        "outs w' = outs w1"
      using push_fills [OF f(1), of "wrap_event e"] f(4) by auto
    have run: "forward_add T e (s, w) = (if goes_at_once e then forward_flush T else return_s ()) (s', w')"
      using push p(1) Pair Ok x by (simp add: forward_add_cases bind_s_def)
    show ?thesis
      unfolding run sent(1)
      by (rule after_sending_next [where ?w1.0 = w' and ?s1.0 = s', OF _ _ _ f(6)])
        (use finish_sends [OF p(2) T, of "goes_at_once e"] p(3-6) f(2,3,5) sent(2) in \<open>auto split: if_splits\<close>)
  qed (use flush push Pair in \<open>auto simp: after_sending_def forward_add_cases bind_s_def sent\<close>)
qed

section \<open>Properties\<close>

text \<open>A pool of two buffers of two cells, the first of them reserved by a writer, used below as
  a concrete starting state.\<close>

definition demo_pool :: pool where
  "demo_pool = \<lparr>bp_buffer_size = 2, bp_buffers = [0, 1], bp_vec_capacity = 2, bp_curr = 1\<rparr>"

definition demo_buffer :: "bool \<Rightarrow> u64 \<Rightarrow> 'a event_buffer" where
  "demo_buffer f i = \<lparr>eb_mem = [None, None], eb_id = (1, i), eb_capacity = 2, eb_free = f\<rparr>"

definition demo_world :: "nat list list \<Rightarrow> ('a, unit) chan_world" where
  "demo_world ss = \<lparr>bw_alloc = allocator_new 1000 (), bw_bufs = [demo_buffer False 0, demo_buffer True 1],
     cw_mailbox = [], cw_consumed = [], cw_schedule = ss\<rparr>"

definition demo_writer :: writer where
  "demo_writer = \<lparr>wr_buffer = 0, wr_len = 0, wr_capacity = 2\<rparr>"

definition demo_info :: pool_info where
  "demo_info = \<lparr>pi_buffer_size = 2, pi_capacity = 2, pi_limit = 1000\<rparr>"

lemma demo_inv: "chan_inv [0, 1] 2 [demo_writer] (demo_world ss)" "pool_ok demo_pool (bw_bufs (demo_world ss))"
  by (simp_all add: chan_inv_def slots_def demo_world_def demo_writer_def demo_buffer_def buffer_ok_def
      pool_ok_def demo_pool_def)

text \<open>C23: Adding an event to a forward strategy, over any channel. The events of the buffer and the new one are divided,
  in order and each once, into the batches that are sent (a full buffer; then everything, for a watermark, an epoch or
  a death) and what stays in the buffer. When the call returns, the channel has been given exactly the batches whose
  transmission succeeded, in order, and no other channel anything, waiting messages included. It panics only when a
  remote channel refused one of the batches with a \<^verbatim>\<open>BufferError\<close>, and with that error; a batch whose transmission
  fails otherwise is lost. It waits only after a batch has been sent, for a free buffer of the pool. A local channel
  takes every batch, so there nothing is lost and nothing panics.\<close>

theorem forward_add_in_order:
  assumes "forward_inv bs (s, w)" and "tells T"
    and "forward_sends (wr_len (fw_curr s) = unat bs) (held w (fw_curr s)) (wrap_event e) (goes_at_once e) = (sent, left)"
  shows "concat sent @ left = held w (fw_curr s) @ [wrap_event e] \<and> after_sending T bs s w sent left (forward_add T e (s, w)) \<and>
    (\<forall>a. fw_channel s = Local a \<longrightarrow> concat (map (delivered T (fw_channel s) (fw_sender s)) sent) = concat sent \<and>
      (\<forall>p. fst (forward_add T e (s, w)) \<noteq> Panic p))"
proof -
  have "concat sent @ left = held w (fw_curr s) @ [wrap_event e]"
    using assms(3) by (auto simp: forward_sends_def Let_def split: if_splits)
  moreover note after = forward_add_sends [OF assms]
  moreover have "delivered T (Local a) sender = (\<lambda>b. b)" "\<not> refused T (Local a) sender b err" for a sender b err
    by (simp_all add: delivered_def refused_def transmitted_def fun_eq_iff)
  then have "concat (map (delivered T (fw_channel s) (fw_sender s)) sent) = concat sent \<and>
      fst (forward_add T e (s, w)) \<noteq> Panic p" if "fw_channel s = Local a" for a p
    using after that by (cases "forward_add T e (s, w)") (auto simp: after_sending_def)
  ultimately show ?thesis by blast
qed

definition demo_forward :: forward where
  "demo_forward = \<lparr>fw_pool = demo_pool, fw_curr = demo_writer, fw_channel = Local 7,
     fw_sender = NodeID 1, fw_pool_info = demo_info\<rparr>"

text \<open>An element stays in the buffer; a watermark for a remote path without room for it makes the call panic.\<close>

theorem forward_add_in_order_witness:
  "(\<exists>s' w'. forward_add (\<lambda>p fs m. Ok ()) (ElementEv (element_new 3)) (demo_forward, demo_world [] :: (u64, unit) chan_world)
      = (Ok (), (s', w')) \<and> held w' (fw_curr s') = [wrap_event (ElementEv (element_new 3))]) \<and>
   fst (forward_add (\<lambda>p fs m. Err (BufferError ''no room'')) (WatermarkEv (Watermark 5))
      (demo_forward\<lparr>fw_channel := Remote 3 Unsafe\<rparr>, demo_world [] :: (u64, unit) chan_world)) = Panic ''Buffer Error no room''"
proof -
  let ?w = "demo_world [] :: (u64, unit) chan_world" and ?remote = "demo_forward\<lparr>fw_channel := Remote 3 Unsafe\<rparr>"
  let ?fail = "(\<lambda>p fs m. Err (BufferError ''no room'')) :: u64 tell_serialised"
  have "chan_inv [0, 1] 2 [demo_writer] ?w" "pool_ok demo_pool (bw_bufs ?w)" by (rule demo_inv)+
  then have inv: "forward_inv 2 (demo_forward, ?w)" "forward_inv 2 (?remote, ?w)"
    by (simp_all add: forward_inv_def demo_forward_def demo_pool_def)
  have t: "tells (\<lambda>p fs m. Ok ())" "tells ?fail" by (simp_all add: tells_def)
  have h: "wr_len (fw_curr demo_forward) = 0" "wr_len (fw_curr ?remote) = 0" "held ?w (fw_curr demo_forward) = []"
      "held ?w (fw_curr ?remote) = []"
    by (simp_all add: demo_forward_def demo_writer_def held_empty)
  have s1: "forward_sends (wr_len (fw_curr demo_forward) = unat (2 :: usize)) (held ?w (fw_curr demo_forward))
      (wrap_event (ElementEv (element_new 3))) (goes_at_once (ElementEv (element_new 3) :: u64 arcon_event))
      = ([], [wrap_event (ElementEv (element_new 3))])"
    by (simp add: h forward_sends_def goes_at_once_def)
  have s2: "forward_sends (wr_len (fw_curr ?remote) = unat (2 :: usize)) (held ?w (fw_curr ?remote))
      (wrap_event (WatermarkEv (Watermark 5))) (goes_at_once (WatermarkEv (Watermark 5) :: u64 arcon_event))
      = ([[wrap_event (WatermarkEv (Watermark 5))]], [])"
    by (simp add: h forward_sends_def goes_at_once_def)
  from forward_add_in_order [OF inv(1) t(1) s1] forward_add_in_order [OF inv(2) t(2) s2] show ?thesis
    by (auto simp: after_sending_def refused_def transmitted_def demo_forward_def split: prod.splits outcome.splits)
qed

text \<open>Broadcast gives every event to every channel exactly once and in order.\<close>

theorem broadcast_add_in_order:
  assumes "broadcast_ok T bs x"
  shows "ok_or_waits (\<lambda>_ x'. broadcast_ok T bs x' \<and> broadcast_records (wrap_event e) (broadcast_log x) (broadcast_log x') \<and>
      ((\<exists>d. e = ElementEv d) \<or> broadcast_empty x')) (broadcast_add T e x)"
  using bct.add_spec [OF assms, of e] by (simp add: broadcast_add_def batch_add_def)

definition demo_broadcast :: broadcast where
  "demo_broadcast = \<lparr>bc_pool = demo_pool, bc_channels = [Local 7, Local 8], bc_curr = demo_writer,
     bc_sender = NodeID 1, bc_pool_info = demo_info\<rparr>"

theorem broadcast_add_in_order_witness:
  "ok_or_waits (\<lambda>_ x'. broadcast_records (wrap_event (ElementEv (element_new 3)))
       (broadcast_log (demo_broadcast, demo_world [[7, 8]])) (broadcast_log x'))
     (broadcast_add (\<lambda>p fs m. Ok ()) (ElementEv (element_new 3))
       (demo_broadcast, demo_world [[7, 8]] :: (u64, unit) chan_world))"
  by (rule ok_or_waits_mono [OF broadcast_add_in_order [where bs = 2]])
    (use demo_inv in \<open>auto simp: broadcast_ok_def demo_broadcast_def reliable_def demo_pool_def\<close>)

text \<open>Round robin gives every event to exactly one of its channels, in order per channel.\<close>

theorem round_robin_add_in_order:
  assumes "round_robin_ok T bs x"
  shows "ok_or_waits (\<lambda>_ x'. round_robin_ok T bs x' \<and> round_robin_records (wrap_event e) (round_robin_log x) (round_robin_log x') \<and>
      ((\<exists>d. e = ElementEv d) \<or> round_robin_empty x')) (round_robin_add T e x)"
  using rrb.add_spec [OF assms, of e] by (simp add: round_robin_add_def batch_add_def)

definition demo_round_robin :: round_robin where
  "demo_round_robin = \<lparr>rr_pool = demo_pool, rr_curr = demo_writer, rr_channels = [Local 7, Local 8],
     rr_sender = NodeID 1, rr_pool_info = demo_info, rr_index = 0\<rparr>"

theorem round_robin_add_in_order_witness:
  "ok_or_waits (\<lambda>_ x'. round_robin_records (wrap_event (ElementEv (element_new 3)))
       (round_robin_log (demo_round_robin, demo_world [[7]])) (round_robin_log x'))
     (round_robin_add (\<lambda>p fs m. Ok ()) (ElementEv (element_new 3))
       (demo_round_robin, demo_world [[7]] :: (u64, unit) chan_world))"
  by (rule ok_or_waits_mono [OF round_robin_add_in_order [where bs = 2]])
    (use demo_inv in \<open>auto simp: round_robin_ok_def demo_round_robin_def reliable_def demo_pool_def\<close>)

lemma key_by_add_element:
  assumes ok: "key_by_ok T bs (s, w)"
    and ranges: "kb_max_key s \<noteq> 0" "unat (kb_max_key s) * unat (kb_key_ranges s) < 2 ^ 64"
    and full: "\<And>i. i < kb_key_ranges s \<Longrightarrow> map_of (kb_buffers s) i \<noteq> None" "kb_key_ranges s \<noteq> 0"
  shows "\<exists>i ch wr. unat i = unat (get_key (data el) mod kb_max_key s) * unat (kb_key_ranges s) div unat (kb_max_key s)
    \<and> map_of (kb_buffers s) i = Some (ch, wr) \<and>
    ok_or_waits (\<lambda>_ (s', w'). key_by_ok T bs (s', w') \<and>
        key_by_outs (kb_buffers s') w' = appended [ch] [wrap_event (ElementEv el)] (key_by_outs (kb_buffers s) w))
      (key_by_add get_key T (ElementEv el) (s, w))"
proof -
  let ?e = "wrap_event (ElementEv el)" and ?B = "bp_buffers (kb_pool s)"
  obtain i where i: "key_index (get_key (data el)) (kb_max_key s) (kb_key_ranges s) = Ok i"
      "unat i = unat (get_key (data el) mod kb_max_key s) * unat (kb_key_ranges s) div unat (kb_max_key s)"
      "i < kb_key_ranges s"
    using key_index_bound [OF ranges, of "get_key (data el)"] full(2) by blast
  obtain ch wr where cw: "map_of (kb_buffers s) i = Some (ch, wr)" using full(1) [OF i(3)] by force
  obtain xs ys where m: "kb_buffers s = xs @ (i, ch, wr) # ys" using split_list [OF map_of_SomeD [OF cw]] by blast
  have d: "distinct (channels_of (xs @ (i, ch, wr) # ys))" "distinct (map fst (xs @ (i, ch, wr) # ys))"
      "list_all (reliable T) (channels_of (xs @ (i, ch, wr) # ys))"
    using ok m by (simp_all add: key_by_ok_def)
  have upd: "AList.update i (ch, wr') (kb_buffers s) = xs @ (i, ch, wr') # ys" for wr'
    using d(2) m by (simp add: update_split)
  have "one_ok ?B bs (wr # writers_of (xs @ ys)) (kb_pool s, w)"
    using ok m one_ok_front [of ?B bs xs i ch wr ys "(kb_pool s, w)"] by (simp add: key_by_ok_def)
  then have "ok_or_waits (\<lambda>wr' (p', w'). one_ok ?B bs (wr' # writers_of (xs @ ys)) (p', w') \<and>
      (\<forall>v \<in> set (writers_of (xs @ ys)). held w' v = held w v) \<and>
      appended [ch] (held w' wr') (outs w') = appended [ch] (held w wr @ [?e]) (outs w))
    (key_by_push T (kb_sender s) ?e ch wr (kb_pool s, w))"
    by (rule key_by_push_spec) (use d in simp)
  then have "ok_or_waits (\<lambda>wr' (p', w'). one_ok ?B bs (writers_of (xs @ (i, ch, wr') # ys)) (p', w') \<and>
      key_by_outs (xs @ (i, ch, wr') # ys) w' = appended [ch] [?e] (key_by_outs (kb_buffers s) w))
    (key_by_push T (kb_sender s) ?e ch wr (kb_pool s, w))"
    by (rule ok_or_waits_mono)
      (use key_by_outs_step [OF d(1)] in \<open>auto simp: one_ok_front m simp del: of_append\<close>)
  then have "ok_or_waits (\<lambda>_ (s', w'). key_by_ok T bs (s', w') \<and>
        key_by_outs (kb_buffers s') w' = appended [ch] [?e] (key_by_outs (kb_buffers s) w))
      (key_by_add get_key T (ElementEv el) (s, w))"
    using i(1) cw upd d
    by (auto simp: key_by_add_def bind_s_def query_def ok_or_waits_def key_by_ok_def one_ok_def
        split: prod.splits outcome.splits)
  then show ?thesis using i(2) cw by blast
qed

definition demo_key_by :: key_by where
  "demo_key_by = \<lparr>kb_pool = demo_pool, kb_max_key = 100, kb_key_ranges = 1, kb_sender = NodeID 1,
     kb_buffers = [(0, Local 7, demo_writer)], kb_pool_info = demo_info\<rparr>"

lemma demo_key_by_ok: "key_by_ok (\<lambda>p fs m. Ok ()) 2 (demo_key_by, demo_world ss)"
  using demo_inv [of ss]
  by (simp add: key_by_ok_def one_ok_def demo_key_by_def reliable_def demo_pool_def)

lemma key_by_add_marker:
  fixes w :: "('a, 'y) chan_world"
  assumes ok: "key_by_ok T bs (s, w)" and marker: "\<And>el. e \<noteq> ElementEv el"
  shows "ok_or_waits (\<lambda>_ (s', w'). key_by_ok T bs (s', w') \<and>
      key_by_outs (kb_buffers s') w'
        = appended (channels_of (kb_buffers s)) [wrap_event e] (key_by_outs (kb_buffers s) w))
    (key_by_add get_key T e (s, w))"
proof -
  have "ok_or_waits (\<lambda>_ (s', w'). key_by_ok T bs (s', w') \<and>
      key_by_outs (kb_buffers s') w'
        = appended (channels_of (kb_buffers s)) [wrap_event e] (key_by_outs (kb_buffers s) w))
    (bind_s (key_by_run (key_by_push T (kb_sender s) (wrap_event e))) (\<lambda>_. key_by_flush T) (s, w))"
    by (rule ok_or_waits_bind, rule key_by_run_spec [OF ok key_by_push_spec], assumption+)
      (auto intro: ok_or_waits_mono [OF key_by_flush_ok])
  then show ?thesis
    using marker by (cases e) (auto simp: key_by_add_def)
qed

text \<open>C24: KeyBy sends an element to exactly one channel, the one of the range
  \<^verbatim>\<open>(key mod max_key) * ranges / max_key\<close>, which exists, provided the product of the two
  parameters does not overflow; elements with equal keys go to the same channel, in order. It gives a
  watermark, an epoch or a death to every channel exactly once, after the elements added before it.\<close>

theorem key_by_add_in_order:
  fixes w :: "('a, 'y) chan_world"
  assumes "key_by_ok T bs (s, w)"
    and "kb_max_key s \<noteq> 0" "unat (kb_max_key s) * unat (kb_key_ranges s) < 2 ^ 64"
    and "\<And>i. i < kb_key_ranges s \<Longrightarrow> map_of (kb_buffers s) i \<noteq> None" "kb_key_ranges s \<noteq> 0"
  shows "(\<exists>i ch wr. unat i = unat (get_key (data el) mod kb_max_key s) * unat (kb_key_ranges s) div unat (kb_max_key s)
      \<and> map_of (kb_buffers s) i = Some (ch, wr) \<and>
      ok_or_waits (\<lambda>_ (s', w'). key_by_ok T bs (s', w') \<and>
          key_by_outs (kb_buffers s') w' = appended [ch] [wrap_event (ElementEv el)] (key_by_outs (kb_buffers s) w))
        (key_by_add get_key T (ElementEv el) (s, w))) \<and>
    ((\<forall>el. e \<noteq> ElementEv el) \<longrightarrow>
      ok_or_waits (\<lambda>_ (s', w'). key_by_ok T bs (s', w') \<and>
          key_by_outs (kb_buffers s') w'
            = appended (channels_of (kb_buffers s)) [wrap_event e] (key_by_outs (kb_buffers s) w))
        (key_by_add get_key T e (s, w)))"
  using key_by_add_element [OF assms] key_by_add_marker [OF assms(1)] by blast

theorem key_by_add_in_order_witness:
  "\<exists>i ch wr. unat i = 0 \<and> map_of (kb_buffers demo_key_by) i = Some (ch, wr) \<and>
     ok_or_waits (\<lambda>_ (s', w'). key_by_outs (kb_buffers s') w'
         = appended [ch] [wrap_event (ElementEv (element_new 142))]
             (key_by_outs (kb_buffers demo_key_by) (demo_world [[7]] :: (u64, unit) chan_world)))
       (key_by_add id (\<lambda>p fs m. Ok ()) (ElementEv (element_new 142)) (demo_key_by, demo_world [[7]]))"
proof -
  have "map_of (kb_buffers demo_key_by) i \<noteq> None" if "i < kb_key_ranges demo_key_by" for i
    using that by (simp add: demo_key_by_def word_less_nat_alt unat_eq_0)
  then obtain i ch wr where "unat i = unat (id (data (element_new (142 :: u64))) mod kb_max_key demo_key_by) *
        unat (kb_key_ranges demo_key_by) div unat (kb_max_key demo_key_by)"
      "map_of (kb_buffers demo_key_by) i = Some (ch, wr)"
      "ok_or_waits (\<lambda>_ (s', w'). key_by_ok (\<lambda>p fs m. Ok ()) 2 (s', w') \<and> key_by_outs (kb_buffers s') w'
         = appended [ch] [wrap_event (ElementEv (element_new 142))]
             (key_by_outs (kb_buffers demo_key_by) (demo_world [[7]] :: (u64, unit) chan_world)))
       (key_by_add id (\<lambda>p fs m. Ok ()) (ElementEv (element_new 142)) (demo_key_by, demo_world [[7]]))"
    using key_by_add_in_order [OF demo_key_by_ok [of "[[7]]"], of id "element_new (142 :: u64)", THEN conjunct1]
    by (auto simp: demo_key_by_def)
  moreover have "unat (id (data (element_new (142 :: u64))) mod kb_max_key demo_key_by) *
        unat (kb_key_ranges demo_key_by) div unat (kb_max_key demo_key_by) = 0"
    by (simp add: demo_key_by_def element_new_def unat_mod)
  ultimately show ?thesis
    by (intro exI [of _ i] exI [of _ ch] exI [of _ wr] conjI)
      (auto elim!: ok_or_waits_mono)
qed

text \<open>C25: A flush to a local receiver returns, within one round over the buffers of the pool, once
  the receiver consumes a message: it does not wait for a buffer that never comes back.\<close>

theorem forward_flush_returns:
  assumes ok: "forward_ok T bs (s, w)" and loc: "fw_channel s = Local a"
    and sched: "length (bp_buffers (fw_pool s)) \<le> length (cw_schedule w)" "a \<in> set (hd (cw_schedule w))"
  shows "\<exists>x'. forward_flush T (s, w) = (Ok (), x') \<and> forward_empty x' \<and> forward_log x' = forward_log (s, w)"
proof -
  let ?m = "(a, writer_reader (fw_curr s), fw_sender s)"
  let ?w = "w\<lparr>cw_mailbox := cw_mailbox w @ [?m]\<rparr>"
  have inv: "chan_inv (bp_buffers (fw_pool s)) bs [fw_curr s] w" using ok by (simp add: forward_ok_def)
  have snt: "send_or_panic T (Local a) (writer_reader (fw_curr s)) (fw_sender s) w = (Ok (), ?w)"
    by (simp add: send_or_panic_def send_def bind_s_def)
  then have "chan_inv (bp_buffers (fw_pool s)) bs [] ?w"
    using send_inv [OF inv, of T "Local a" "fw_sender s"] by (simp add: reliable_def)
  then obtain wr p' w' where "get_writer (fw_pool s) ?w = (Ok (wr, p'), w')"
    using get_writer_returns [of "bp_buffers (fw_pool s)" bs "[]" ?w "fw_pool s" ?m] ok sched
    by (auto simp: forward_ok_def)
  with snt loc have "\<exists>x'. forward_flush T (s, w) = (Ok (), x')"
    by (simp add: forward_flush_def lift_w_Ok)
  then show ?thesis using fwd.flush_spec [OF ok] by auto
qed

theorem forward_flush_returns_witness:
  "\<exists>x'. forward_flush (\<lambda>p fs m. Ok ()) (demo_forward, demo_world [[7], [7]] :: (u64, unit) chan_world) = (Ok (), x')"
proof -
  have "\<exists>x'. forward_flush (\<lambda>p fs m. Ok ()) (demo_forward, demo_world [[7], [7]] :: (u64, unit) chan_world) = (Ok (), x')
      \<and> forward_empty x' \<and> forward_log x' = forward_log (demo_forward, demo_world [[7], [7]])"
    by (rule forward_flush_returns [where bs = 2 and a = 7])
      (use demo_inv in \<open>auto simp: forward_ok_def demo_forward_def reliable_def demo_pool_def demo_world_def\<close>)
  then show ?thesis by blast
qed

end
