(* ===== verification/Event_Timer.thy ===== *)
theory Event_Timer
  imports In_Memory_Laws Stream_Data
begin

text \<open>
  Model of \<^verbatim>\<open>src/timer/mod.rs\<close> and \<^verbatim>\<open>src/timer/event_timer.rs\<close>: timers driven by event
  time. An \<open>event_timer\<close> holds a hash wheel with the ids of the pending entries; the current
  time and the entries themselves are state of the backend. The wheel comes from the crate
  \<^verbatim>\<open>hierarchical_hash_wheel_timer\<close> and is the record parameter \<open>wheel\<close>; the locale
  \<open>timer_wheel\<close> states what that crate documents. \<^verbatim>\<open>Uuid::new_v4\<close> is the parameter \<open>uuid\<close>,
  the sequence of the ids it returns.

  The theorems show that advancing the timer returns exactly the entries that fall due, in the
  order of their due times, leaves the others pending and always returns; that scheduling adds
  an entry or rejects an expired one; and that a timer started on a restored backend takes up
  where the old one was.
\<close>

section \<open>The wheel\<close>

datatype skip = SkipEmpty | SkipMillis u32 | SkipNone

datatype insert_result = Inserted | InsertExpired | InsertFailed

record 'q wheel =
  wh_default :: 'q
  wh_insert :: "string \<Rightarrow> u64 \<Rightarrow> 'q \<Rightarrow> insert_result \<times> 'q"
  wh_can_skip :: "'q \<Rightarrow> skip"
  wh_skip :: "u32 \<Rightarrow> 'q \<Rightarrow> 'q"
  wh_tick :: "'q \<Rightarrow> string list \<times> 'q"

section \<open>Timer state\<close>

record 'p event_timer_event =
  time_when_scheduled :: u64
  timeout_millis :: u64
  payload :: 'p

definition event_timer_event_new :: "u64 \<Rightarrow> u64 \<Rightarrow> 'p \<Rightarrow> 'p event_timer_event" where
  "event_timer_event_new t d p = \<lparr>time_when_scheduled = t, timeout_millis = d, payload = p\<rparr>"

text \<open>\<^verbatim>\<open>TimerState\<close>: the two handles, and (activated) their operations on the backend.\<close>

definition current_time_handle :: "(unit, unit, unit) handle" where
  "current_time_handle = value_handle ''__event_timer_current_time''"

definition timeouts_handle :: "(unit, unit, unit) handle" where
  "timeouts_handle = map_handle ''__event_timer_timeouts''"

record ('b, 'p) timer_state =
  ts_current_time :: "('b, u64) value_ops"
  ts_timeouts :: "('b, string, 'p event_timer_event) map_ops"

text \<open>\<open>et_drawn\<close> counts the ids drawn from \<open>uuid\<close>.\<close>

record 'q event_timer =
  et_timer :: 'q
  et_drawn :: nat

definition event_timer_new :: "'q wheel \<Rightarrow> 'q event_timer" where
  "event_timer_new W = \<lparr>et_timer = wh_default W, et_drawn = 0\<rparr>"

section \<open>Operations with state\<close>

text \<open>\<^verbatim>\<open>EventTimerWithState\<close>: the timer together with the backend.\<close>

type_synonym ('q, 'b) timed = "'q event_timer \<times> 'b"

definition on_backend :: "string \<Rightarrow> ('b, 'x, 'a) action \<Rightarrow> ('t \<times> 'b, arcon_error, 'a) action" where
  "on_backend msg m x = (case m (snd x) of (r, b) \<Rightarrow> (expect msg r, (fst x, b)))"

definition timer_current_time :: "('b, 'p) timer_state \<Rightarrow> (('q, 'b) timed, arcon_error, u64) action" where
  "timer_current_time S =
     bind_s (on_backend ''couldn't get current time'' (query (vo_get (ts_current_time S)))) (\<lambda>t.
     lift_o (unwrap_or_panic ''called Option::unwrap() on a None value'' t))"

definition set_time :: "('b, 'p) timer_state \<Rightarrow> u64 \<Rightarrow> (('q, 'b) timed, arcon_error, unit) action" where
  "set_time S ts = on_backend ''could not set current time'' (vo_fast_set (ts_current_time S) ts)"

definition add_time :: "('b, 'p) timer_state \<Rightarrow> u64 \<Rightarrow> (('q, 'b) timed, arcon_error, unit) action" where
  "add_time S by_ms =
     bind_s (timer_current_time S) (\<lambda>cur.
     bind_s (lift_o (add_u cur by_ms)) (\<lambda>new_time.
     set_time S new_time))"

definition take_entry :: "('b, 'p) timer_state \<Rightarrow> string \<Rightarrow> (('q, 'b) timed, arcon_error, 'p option) action" where
  "take_entry S i =
     bind_s (on_backend ''no timeout found for id'' (mo_remove (ts_timeouts S) i)) (\<lambda>e.
     return_s (map_option payload e))"

definition put_entry ::
    "('b, 'p) timer_state \<Rightarrow> string \<Rightarrow> 'p event_timer_event \<Rightarrow> (('q, 'b) timed, arcon_error, unit) action" where
  "put_entry S i e = on_backend ''couldn't persist timeout'' (mo_fast_insert (ts_timeouts S) i e)"

definition wheel_insert :: "'q wheel \<Rightarrow> string \<Rightarrow> u64 \<Rightarrow> (('q, 'b) timed, arcon_error, insert_result) action" where
  "wheel_insert W i d x =
     (case wh_insert W i d (et_timer (fst x)) of
        (r, q) \<Rightarrow> (Ok r, ((fst x)\<lparr>et_timer := q\<rparr>, snd x)))"

definition wheel_skip :: "'q wheel \<Rightarrow> u32 \<Rightarrow> (('q, 'b) timed, arcon_error, unit) action" where
  "wheel_skip W k x = (Ok (), ((fst x)\<lparr>et_timer := wh_skip W k (et_timer (fst x))\<rparr>, snd x))"

definition wheel_tick :: "'q wheel \<Rightarrow> (('q, 'b) timed, arcon_error, string list) action" where
  "wheel_tick W x =
     (case wh_tick W (et_timer (fst x)) of (ids, q) \<Rightarrow> (Ok ids, ((fst x)\<lparr>et_timer := q\<rparr>, snd x)))"

definition new_uuid :: "(nat \<Rightarrow> string) \<Rightarrow> (('q, 'b) timed, arcon_error, string) action" where
  "new_uuid uuid x =
     (Ok (uuid (et_drawn (fst x))), ((fst x)\<lparr>et_drawn := Suc (et_drawn (fst x))\<rparr>, snd x))"

text \<open>The loop of \<^verbatim>\<open>replay_events\<close> over the stored entries.\<close>

fun replay_entries ::
    "'q wheel \<Rightarrow> u64 \<Rightarrow> (string \<times> 'p event_timer_event) state_result list
      \<Rightarrow> (('q, 'b) timed, arcon_error, unit) action" where
  "replay_entries W time [] = return_s ()"
| "replay_entries W time (res # rs) =
     bind_s (lift_o (expect ''could not get timeout entry'' res)) (\<lambda>(i, entry).
     bind_s (lift_o (bind_o (add_u (time_when_scheduled entry) (timeout_millis entry)) (\<lambda>due.
       sub_u due time))) (\<lambda>delay.
     bind_s (wheel_insert W i delay) (\<lambda>r.
       if r = Inserted then replay_entries W time rs
       else panic_s ''A timeout has expired during replay'')))"

definition replay_events :: "'q wheel \<Rightarrow> ('b, 'p) timer_state \<Rightarrow> (('q, 'b) timed, arcon_error, unit) action" where
  "replay_events W S =
     bind_s (timer_current_time S) (\<lambda>time.
     bind_s (on_backend ''could not get timeouts'' (query (mo_iter (ts_timeouts S)))) (\<lambda>entries.
     replay_entries W time entries))"

text \<open>The inner loop of \<^verbatim>\<open>tick_and_collect\<close>: entries whose id is no longer stored are dropped.\<close>

fun take_entries ::
    "('b, 'p) timer_state \<Rightarrow> string list \<Rightarrow> 'p list \<Rightarrow> (('q, 'b) timed, arcon_error, 'p list) action" where
  "take_entries S [] res = return_s res"
| "take_entries S (i # is) res =
     bind_s (take_entry S i) (\<lambda>e.
     take_entries S is (case e of None \<Rightarrow> res | Some p \<Rightarrow> res @ [p]))"

text \<open>The outer loop, with a budget of iterations.\<close>

fun tick_loop ::
    "'q wheel \<Rightarrow> ('b, 'p) timer_state \<Rightarrow> nat \<Rightarrow> u32 \<Rightarrow> 'p list \<Rightarrow> (('q, 'b) timed, arcon_error, 'p list) action" where
  "tick_loop W S 0 time_left res x = (NoFuel, x)"
| "tick_loop W S (Suc n) time_left res x =
     (if time_left = 0 then (Ok res, x)
      else
        (case wh_can_skip W (et_timer (fst x)) of
           SkipEmpty \<Rightarrow> bind_s (add_time S (ucast time_left)) (\<lambda>_. return_s res) x
         | SkipMillis skip_ms \<Rightarrow>
             (if time_left \<le> skip_ms then
                bind_s (wheel_skip W time_left) (\<lambda>_.
                bind_s (add_time S (ucast time_left)) (\<lambda>_. return_s res)) x
              else
                bind_s (wheel_skip W skip_ms) (\<lambda>_.
                bind_s (add_time S (ucast skip_ms)) (\<lambda>_.
                bind_s (lift_o (sub_u time_left skip_ms)) (\<lambda>time_left'.
                tick_loop W S n time_left' res))) x)
         | SkipNone \<Rightarrow>
             bind_s (wheel_tick W) (\<lambda>ids.
             bind_s (take_entries S ids res) (\<lambda>res'.
             bind_s (add_time S 1) (\<lambda>_.
             bind_s (lift_o (sub_u time_left 1)) (\<lambda>time_left'.
             tick_loop W S n time_left' res')))) x))"

declare tick_loop.simps(2) [simp del]

text \<open>One iteration moves the time by a millisecond at least, so \<open>time_left + 1\<close> iterations are
  enough (\<open>tick_and_collect_spec\<close> below).\<close>

definition tick_and_collect ::
    "'q wheel \<Rightarrow> ('b, 'p) timer_state \<Rightarrow> u32 \<Rightarrow> 'p list \<Rightarrow> (('q, 'b) timed, arcon_error, 'p list) action" where
  "tick_and_collect W S time_left = tick_loop W S (Suc (unat time_left)) time_left"

definition timer_schedule_after ::
    "'q wheel \<Rightarrow> ('b, 'p) timer_state \<Rightarrow> (nat \<Rightarrow> string) \<Rightarrow> u64 \<Rightarrow> 'p
      \<Rightarrow> (('q, 'b) timed, arcon_error, 'p + unit) action" where
  "timer_schedule_after W S uuid delay entry =
     bind_s (new_uuid uuid) (\<lambda>i.
     bind_s (wheel_insert W i delay) (\<lambda>r.
       (case r of
          Inserted \<Rightarrow>
            bind_s (timer_current_time S) (\<lambda>cur.
            bind_s (put_entry S i (event_timer_event_new cur delay entry)) (\<lambda>_.
            return_s (Inr ())))
        | InsertExpired \<Rightarrow> return_s (Inl entry)
        | InsertFailed \<Rightarrow> panic_s ''Could not insert timer entry!'')))"

definition timer_schedule_at ::
    "'q wheel \<Rightarrow> ('b, 'p) timer_state \<Rightarrow> (nat \<Rightarrow> string) \<Rightarrow> u64 \<Rightarrow> 'p
      \<Rightarrow> (('q, 'b) timed, arcon_error, 'p + unit) action" where
  "timer_schedule_at W S uuid time entry =
     bind_s (timer_current_time S) (\<lambda>cur_time.
       if time \<le> cur_time then return_s (Inl entry)
       else timer_schedule_after W S uuid (time - cur_time) entry)"

text \<open>\<^verbatim>\<open>advance_to\<close>: chunks of \<^verbatim>\<open>u32::MAX\<close> milliseconds, then the rest. The subtraction in the
  loop cannot underflow, because of the loop condition.\<close>

function advance_chunks ::
    "'q wheel \<Rightarrow> ('b, 'p) timer_state \<Rightarrow> u64 \<Rightarrow> 'p list \<Rightarrow> (('q, 'b) timed, arcon_error, 'p list) action" where
  "advance_chunks W S time_left res =
     (if 0xFFFFFFFF < time_left then
        bind_s (tick_and_collect W S 0xFFFFFFFF res) (\<lambda>res'.
        advance_chunks W S (time_left - 0xFFFFFFFF) res')
      else tick_and_collect W S (ucast time_left) res)"
  by pat_completeness auto

lemma chunk_shrinks:
  "0xFFFFFFFF < (time_left :: u64)
    \<Longrightarrow> unat (time_left - 0xFFFFFFFF) = unat time_left - 0xFFFFFFFF \<and> 0xFFFFFFFF < unat time_left"
  by (simp add: word_less_nat_alt unat_sub word_le_nat_alt)

termination advance_chunks
  by (relation "measure (\<lambda>(W, S, time_left, res). unat time_left)") (auto dest!: chunk_shrinks)

declare advance_chunks.simps [simp del]

definition timer_advance_to ::
    "'q wheel \<Rightarrow> ('b, 'p) timer_state \<Rightarrow> u64 \<Rightarrow> (('q, 'b) timed, arcon_error, 'p list) action" where
  "timer_advance_to W S ts =
     bind_s (timer_current_time S) (\<lambda>cur_time.
       if ts < cur_time then return_s []
       else advance_chunks W S (ts - cur_time) [])"

definition timer_init :: "'q wheel \<Rightarrow> ('b, 'p) timer_state \<Rightarrow> (('q, 'b) timed, arcon_error, unit) action" where
  "timer_init W S =
     bind_s (on_backend ''could not check current time'' (query (vo_get (ts_current_time S)))) (\<lambda>t.
     bind_s (if t = None
             then bind_s (on_backend ''could not set current time'' (vo_set (ts_current_time S) 0)) (\<lambda>_. return_s ())
             else return_s ()) (\<lambda>_.
     replay_events W S))"

definition timer_handle_epoch :: "epoch \<Rightarrow> (('q, 'b) timed, arcon_error, unit) action" where
  "timer_handle_epoch e = return_s ()"


section \<open>What the timer relies on\<close>

text \<open>
  The wheel: \<open>pend\<close> gives the milliseconds after which an id comes out, \<open>wok\<close> is an invariant
  of the wheel. A zero delay is reported as expired; \<^verbatim>\<open>can_skip\<close> answers how far the wheel can
  move without an id coming out, and only such a distance may be skipped; a tick moves it by a
  millisecond and returns the ids that are due.
\<close>

locale timer_wheel =
  fixes W :: "'q wheel" and wok :: "'q \<Rightarrow> bool" and pend :: "'q \<Rightarrow> string \<rightharpoonup> nat"
  assumes wdefault: "wok (wh_default W) \<and> pend (wh_default W) = Map.empty"
    and wpositive: "wok q \<Longrightarrow> pend q i = Some d \<Longrightarrow> 0 < d"
    and winsert: "wok q \<Longrightarrow> delay \<noteq> 0 \<Longrightarrow> pend q i = None \<Longrightarrow>
      \<exists>q'. wh_insert W i delay q = (Inserted, q') \<and> wok q' \<and> pend q' = (pend q)(i \<mapsto> unat delay)"
    and wexpired: "wok q \<Longrightarrow> \<exists>q'. wh_insert W i 0 q = (InsertExpired, q') \<and> wok q' \<and> pend q' = pend q"
    and wempty: "wok q \<Longrightarrow> wh_can_skip W q = SkipEmpty \<Longrightarrow> pend q = Map.empty"
    and wmillis: "wok q \<Longrightarrow> wh_can_skip W q = SkipMillis k \<Longrightarrow> k \<noteq> 0 \<and> (\<forall>i d. pend q i = Some d \<longrightarrow> unat k < d)"
    and wskip: "wok q \<Longrightarrow> wh_can_skip W q = SkipMillis k \<Longrightarrow> j \<le> k \<Longrightarrow>
      wok (wh_skip W j q) \<and> pend (wh_skip W j q) = (\<lambda>i. map_option (\<lambda>d. d - unat j) (pend q i))"
    and wtick: "wok q \<Longrightarrow> \<exists>ids q'. wh_tick W q = (ids, q') \<and> wok q' \<and> distinct ids \<and>
      set ids = {i. pend q i = Some 1} \<and>
      pend q' = (\<lambda>i. map_option (\<lambda>d. d - 1) (if pend q i = Some 1 then None else pend q i))"

text \<open>The state: a cell and a map on one backend, neither of which touches the other or \<open>rest\<close>.\<close>

locale timer_store =
  ct: value_state "ts_current_time S" I tm "\<lambda>b. (ents b, rest b)" +
  tq: map_state "ts_timeouts S" I kok ents "\<lambda>b. (tm b, rest b)"
  for S :: "('b, 'p) timer_state" and I :: "'b \<Rightarrow> bool" and kok :: "string \<Rightarrow> bool"
    and tm :: "'b \<Rightarrow> u64 option" and ents :: "'b \<Rightarrow> string \<rightharpoonup> 'p event_timer_event" and rest :: "'b \<Rightarrow> 'f"

locale timer_system =
  timer_wheel W wok pend + timer_store S I kok tm ents rest
  for W :: "'q wheel" and wok and pend
    and S :: "('b, 'p) timer_state" and I kok tm ents and rest :: "'b \<Rightarrow> 'f"

text \<open>The due time of an entry, in milliseconds, and the entry's payload.\<close>

definition due :: "'p event_timer_event \<Rightarrow> nat" where
  "due e = unat (time_when_scheduled e) + unat (timeout_millis e)"

definition due_of :: "(string \<rightharpoonup> 'p event_timer_event) \<Rightarrow> string \<Rightarrow> nat" where
  "due_of E i = due (the (E i))"

definition payload_of :: "(string \<rightharpoonup> 'p event_timer_event) \<Rightarrow> string \<Rightarrow> 'p" where
  "payload_of E i = payload (the (E i))"

text \<open>All entries are due later than now, and storable; \<open>stored_ok\<close> is about the backend alone.\<close>

definition stored_ok :: "(string \<Rightarrow> bool) \<Rightarrow> (string \<rightharpoonup> 'p event_timer_event) \<Rightarrow> u64 \<Rightarrow> bool" where
  "stored_ok kok E now \<longleftrightarrow> (\<forall>i e. E i = Some e \<longrightarrow> kok i \<and> unat now < due e)"

text \<open>The wheel knows the stored entries and the time each has left.\<close>

definition wheel_agrees :: "(string \<rightharpoonup> nat) \<Rightarrow> (string \<rightharpoonup> 'p event_timer_event) \<Rightarrow> u64 \<Rightarrow> bool" where
  "wheel_agrees P E now \<longleftrightarrow> P = (\<lambda>i. map_option (\<lambda>e. due e - unat now) (E i))"

definition timer_inv ::
    "('q \<Rightarrow> bool) \<Rightarrow> ('q \<Rightarrow> string \<rightharpoonup> nat) \<Rightarrow> ('b \<Rightarrow> bool) \<Rightarrow> (string \<Rightarrow> bool) \<Rightarrow> ('b \<Rightarrow> u64 option)
      \<Rightarrow> ('b \<Rightarrow> string \<rightharpoonup> 'p event_timer_event) \<Rightarrow> u64 \<Rightarrow> ('q, 'b) timed \<Rightarrow> bool" where
  "timer_inv wok pend I kok tm ents now x \<longleftrightarrow>
     I (snd x) \<and> wok (et_timer (fst x)) \<and> tm (snd x) = Some now \<and>
     stored_ok kok (ents (snd x)) now \<and> wheel_agrees (pend (et_timer (fst x))) (ents (snd x)) now"

text \<open>The next id drawn is not in use and can be stored (ids of version 4 are unique).\<close>

definition fresh_id ::
    "(string \<Rightarrow> bool) \<Rightarrow> ('b \<Rightarrow> string \<rightharpoonup> 'p event_timer_event) \<Rightarrow> (nat \<Rightarrow> string) \<Rightarrow> ('q, 'b) timed \<Rightarrow> bool" where
  "fresh_id kok ents uuid x \<longleftrightarrow> kok (uuid (et_drawn (fst x))) \<and> ents (snd x) (uuid (et_drawn (fst x))) = None"

text \<open>\<open>fired E ts ids\<close>: \<open>ids\<close> are the entries of \<open>E\<close> due at \<open>ts\<close> or before, each once, in the
  order in which they are due.\<close>

definition fired :: "(string \<rightharpoonup> 'p event_timer_event) \<Rightarrow> u64 \<Rightarrow> string list \<Rightarrow> bool" where
  "fired E ts ids \<longleftrightarrow> distinct ids \<and> sorted (map (due_of E) ids) \<and>
     set ids = {i. \<exists>e. E i = Some e \<and> due e \<le> unat ts}"

lemma fired_append:
  assumes "fired E t1 ids1" and "fired (E |` (- set ids1)) t2 ids2" and "t1 \<le> t2"
  shows "fired E t2 (ids1 @ ids2)"
    and "map (payload_of (E |` (- set ids1))) ids2 = map (payload_of E) ids2"
proof -
  have later: "i \<notin> set ids1 \<and> (\<exists>e. E i = Some e \<and> unat t1 < due e \<and> due e \<le> unat t2)"
    if "i \<in> set ids2" for i
    using that assms(1,2) by (auto simp: fired_def restrict_map_def split: if_splits)
  then show "map (payload_of (E |` (- set ids1))) ids2 = map (payload_of E) ids2"
    by (auto simp: payload_of_def)
  have same: "map (due_of (E |` (- set ids1))) ids2 = map (due_of E) ids2"
    using later by (auto simp: due_of_def)
  have order: "due_of E i \<le> due_of E j" if "i \<in> set ids1" "j \<in> set ids2" for i j
    using that assms(1) later [of j] by (fastforce simp: fired_def due_of_def)
  have "set ids1 = {i. \<exists>e. E i = Some e \<and> due e \<le> unat t1}" using assms(1) by (simp add: fired_def)
  moreover have "set ids2 = {i. \<exists>e. (E |` (- set ids1)) i = Some e \<and> due e \<le> unat t2}"
    using assms(2) by (simp only: fired_def)
  ultimately have sets: "set ids1 \<union> set ids2 = {i. \<exists>e. E i = Some e \<and> due e \<le> unat t2}"
    using assms(3) by (fastforce simp: restrict_map_def word_le_nat_alt split: if_splits)
  have "set ids1 \<inter> set ids2 = {}" using later by blast
  then have "distinct (ids1 @ ids2)" using assms(1,2) by (simp add: fired_def)
  moreover have "sorted (map (due_of E) ids1)" using assms(1) by (simp add: fired_def)
  moreover have "sorted (map (due_of E) ids2)"
    unfolding same [symmetric] using assms(2) by (simp only: fired_def)
  ultimately have "distinct (ids1 @ ids2)" "sorted (map (due_of E) (ids1 @ ids2))"
    using order by (auto simp: sorted_append)
  then show "fired E t2 (ids1 @ ids2)" using sets by (simp add: fired_def)
qed

lemma fired_none:
  assumes "stored_ok kok E now" and "\<forall>i e. E i = Some e \<longrightarrow> unat ts < due e"
  shows "fired E ts []"
  using assms by (fastforce simp: fired_def)

lemma on_backend_apply: "on_backend msg m (t, b) = (case m b of (r, b') \<Rightarrow> (expect msg r, (t, b')))"
  by (simp add: on_backend_def)

lemma time_split:
  assumes "k \<le> time_left" and "unat now + unat (time_left :: u32) < 2 ^ 64"
  shows "now + ucast k + ucast (time_left - k) = (now + ucast time_left :: u64)
    \<and> now + ucast k \<le> now + ucast time_left \<and> unat (now + ucast k) + unat (time_left - k) < 2 ^ 64
    \<and> unat (time_left - k) = unat time_left - unat k \<and> unat k \<le> unat time_left"
proof -
  have k: "unat (time_left - k) = unat time_left - unat k" "unat k \<le> unat time_left"
    using assms(1) by (simp_all add: unat_sub word_le_nat_alt)
  have n: "unat (now + ucast k) = unat now + unat k" "unat (now + ucast time_left) = unat now + unat time_left"
    using assms(2) k(2) by (simp_all add: unat_add_no_overflow unat_ucast_32_64)
  have "now + ucast k + ucast (time_left - k) = now + ucast time_left"
    using n k assms(2) by (intro word_unat_eq_iff [THEN iffD2])
      (simp add: unat_add_no_overflow unat_ucast_32_64)
  then show ?thesis using n k assms(2) by (simp add: word_le_nat_alt)
qed

section \<open>Advancing\<close>

context timer_system
begin

abbreviation inv :: "u64 \<Rightarrow> ('q, 'b) timed \<Rightarrow> bool" where
  "inv \<equiv> timer_inv wok pend I kok tm ents"

text \<open>\<open>moved now x ts ids x'\<close>: the effect of moving the time to \<open>ts\<close>, with \<open>ids\<close> fired.\<close>

definition moved :: "('q, 'b) timed \<Rightarrow> u64 \<Rightarrow> string list \<Rightarrow> ('q, 'b) timed \<Rightarrow> bool" where
  "moved x ts ids x' \<longleftrightarrow> inv ts x' \<and> fired (ents (snd x)) ts ids \<and>
     ents (snd x') = ents (snd x) |` (- set ids) \<and> rest (snd x') = rest (snd x) \<and>
     et_drawn (fst x') = et_drawn (fst x)"

lemma moved_trans:
  assumes "moved x t1 ids1 y" "moved y t2 ids2 z" "t1 \<le> t2"
  shows "moved x t2 (ids1 @ ids2) z"
    and "map (payload_of (ents (snd y))) ids2 = map (payload_of (ents (snd x))) ids2"
proof -
  have y: "ents (snd y) = ents (snd x) |` (- set ids1)" using assms(1) by (simp add: moved_def)
  note f = fired_append [of "ents (snd x)" t1 ids1 t2 ids2]
  show "moved x t2 (ids1 @ ids2) z"
    using assms f(1) by (simp add: moved_def y)
  show "map (payload_of (ents (snd y))) ids2 = map (payload_of (ents (snd x))) ids2"
    using assms f(2) by (simp add: moved_def y)
qed

lemma current_time_ok: "I (snd x) \<Longrightarrow> tm (snd x) = Some now \<Longrightarrow> timer_current_time S x = (Ok now, x)"
  by (cases x) (simp add: timer_current_time_def on_backend_apply bind_s_def ct.vget unwrap_or_panic_def)

lemma add_time_ok:
  assumes "I b" "tm b = Some now" "unat now + unat k < 2 ^ 64"
  shows "\<exists>b'. add_time S k (t, b) = (Ok (), (t, b')) \<and> I b' \<and> tm b' = Some (now + k)
    \<and> ents b' = ents b \<and> rest b' = rest b"
  using ct.vfast_set [OF assms(1), of "now + k"] assms current_time_ok [of "(t, b)" now]
  by (auto simp: add_time_def set_time_def on_backend_apply bind_s_def add_u_def)

lemma take_entries_ok:
  assumes "I b" "distinct ids" "set ids \<subseteq> dom (ents b)" "\<forall>i \<in> set ids. kok i"
  shows "\<exists>b'. take_entries S ids res (t, b) = (Ok (res @ map (payload_of (ents b)) ids), (t, b'))
    \<and> I b' \<and> ents b' = ents b |` (- set ids) \<and> tm b' = tm b \<and> rest b' = rest b"
  using assms
proof (induction ids arbitrary: b res)
  case Nil
  then show ?case by (auto simp: restrict_map_def)
next
  case (Cons i ids)
  obtain e where e: "ents b i = Some e" using Cons.prems(3) by auto
  obtain b1 where b1: "mo_remove (ts_timeouts S) i b = (Ok (Some e), b1)" "I b1"
      "ents b1 = (ents b)(i := None)" "tm b1 = tm b" "rest b1 = rest b"
    using tq.mremove [OF Cons.prems(1), of i] Cons.prems(4) e by auto
  have step: "take_entry S i (t, b) = (Ok (Some (payload e)), (t, b1))"
    by (simp add: take_entry_def on_backend_apply bind_s_def b1)
  obtain b2 where b2: "take_entries S ids (res @ [payload e]) (t, b1)
        = (Ok ((res @ [payload e]) @ map (payload_of (ents b1)) ids), (t, b2))"
      "I b2" "ents b2 = ents b1 |` (- set ids)" "tm b2 = tm b1" "rest b2 = rest b1"
    using Cons.IH [OF b1(2), of "res @ [payload e]"] Cons.prems b1(3) by (auto simp del: fun_upd_apply)
  have "map (payload_of (ents b1)) ids = map (payload_of (ents b)) ids"
    using Cons.prems(2) by (auto simp: b1(3) payload_of_def)
  moreover have "ents b2 = ents b |` (- set (i # ids))"
    by (auto simp: b2(3) b1(3) restrict_map_def)
  ultimately show ?case
    using b1 b2 step e by (simp add: bind_s_def payload_of_def)
qed

end


context timer_system
begin

text \<open>One iteration of the loop, in each of its three branches.\<close>

lemma moved_quietly:
  assumes "inv now (t, b)" and "unat now + unat (k :: u64) < 2 ^ 64"
    and "I b'" "tm b' = Some (now + k)" "ents b' = ents b" "rest b' = rest b"
    and "wok q" "pend q = (\<lambda>i. map_option (\<lambda>d. d - unat k) (pend (et_timer t) i))"
    and "\<forall>i d. pend (et_timer t) i = Some d \<longrightarrow> unat k < d"
  shows "moved (t, b) (now + k) [] (t\<lparr>et_timer := q\<rparr>, b')"
proof -
  have nk: "unat (now + k) = unat now + unat k" using assms(2) by (simp add: unat_add_no_overflow)
  have agrees: "pend (et_timer t) = (\<lambda>i. map_option (\<lambda>e. due e - unat now) (ents b i))"
    using assms(1) by (simp add: timer_inv_def wheel_agrees_def)
  have later: "unat (now + k) < due e" if "ents b i = Some e" for i e
    using assms(9) that nk by (force simp: agrees)
  have "stored_ok kok (ents b) (now + k)"
    using assms(1) later by (auto simp: timer_inv_def stored_ok_def)
  moreover have "wheel_agrees (pend q) (ents b) (now + k)"
    unfolding wheel_agrees_def assms(8) agrees nk
    by (auto simp: fun_eq_iff option.map_comp comp_def intro: option.map_cong)
  ultimately have "inv (now + k) (t\<lparr>et_timer := q\<rparr>, b')"
    using assms by (simp add: timer_inv_def)
  moreover have "fired (ents b) (now + k) []" using later by (fastforce simp: fired_def)
  ultimately show ?thesis using assms(5,6) by (simp add: moved_def restrict_map_def)
qed

lemma skip_step:
  assumes "inv now (t, b)" "wh_can_skip W (et_timer t) = SkipMillis k" "j \<le> k"
    and "unat now + unat j < 2 ^ 64"
  shows "\<exists>x'. bind_s (wheel_skip W j) (\<lambda>_. bind_s (add_time S (ucast j)) g) (t, b) = g () x'
    \<and> moved (t, b) (now + ucast j) [] x'"
proof -
  note u = unat_ucast_32_64 [of j]
  note i = assms(1) [unfolded timer_inv_def, simplified]
  obtain b' where b': "add_time S (ucast j) (t\<lparr>et_timer := wh_skip W j (et_timer t)\<rparr>, b)
        = (Ok (), (t\<lparr>et_timer := wh_skip W j (et_timer t)\<rparr>, b'))" "I b'"
      "tm b' = Some (now + ucast j)" "ents b' = ents b" "rest b' = rest b"
    using add_time_ok [of b now "ucast j" "t\<lparr>et_timer := wh_skip W j (et_timer t)\<rparr>"] i assms(4) u by auto
  have "unat j < d" if "pend (et_timer t) i = Some d" for i d
    using wmillis [OF _ assms(2)] i that assms(3) by (fastforce simp: word_le_nat_alt)
  then have "moved (t, b) (now + ucast j) [] (t\<lparr>et_timer := wh_skip W j (et_timer t)\<rparr>, b')"
    using moved_quietly [OF assms(1), of "ucast j" b' "wh_skip W j (et_timer t)"]
      wskip [OF _ assms(2,3)] i b' assms(4) u by auto
  then show ?thesis using b'(1) by (auto simp: bind_s_def wheel_skip_def)
qed

lemma tick_step:
  assumes "inv now (t, b)" and "unat now + 1 < 2 ^ 64"
  shows "\<exists>ids x'. bind_s (wheel_tick W) (\<lambda>ids. bind_s (take_entries S ids res) (\<lambda>res'.
      bind_s (add_time S 1) (\<lambda>_. g res'))) (t, b) = g (res @ map (payload_of (ents b)) ids) x'
    \<and> moved (t, b) (now + 1) ids x'"
proof -
  note i = assms(1) [unfolded timer_inv_def, simplified]
  have n1: "unat (now + 1) = unat now + 1" using assms(2) by (simp add: unat_add_no_overflow)
  have agrees: "pend (et_timer t) = (\<lambda>i. map_option (\<lambda>e. due e - unat now) (ents b i))"
    using i by (simp add: wheel_agrees_def)
  obtain ids q where q: "wh_tick W (et_timer t) = (ids, q)" "wok q" "distinct ids"
      "set ids = {i. pend (et_timer t) i = Some 1}"
      "pend q = (\<lambda>i. map_option (\<lambda>d. d - 1) (if pend (et_timer t) i = Some 1 then None else pend (et_timer t) i))"
    using wtick i by blast
  have later: "unat now < due e \<and> kok i" if "ents b i = Some e" for i e
    using i that by (auto simp: stored_ok_def)
  have due1: "pend (et_timer t) i = Some 1 \<longleftrightarrow> (\<exists>e. ents b i = Some e \<and> due e = unat now + 1)" for i
    using later by (force simp: agrees)
  let ?t = "t\<lparr>et_timer := q\<rparr>"
  have ids: "set ids \<subseteq> dom (ents b)" "\<forall>i \<in> set ids. kok i" using q(4) due1 later by auto
  obtain b1 where b1: "take_entries S ids res (?t, b)
        = (Ok (res @ map (payload_of (ents b)) ids), (?t, b1))"
      "I b1" "ents b1 = ents b |` (- set ids)" "tm b1 = tm b" "rest b1 = rest b"
    using take_entries_ok [OF _ q(3) ids, of res ?t] i by blast
  obtain b2 where b2: "add_time S 1 (?t, b1) = (Ok (), (?t, b2))" "I b2" "tm b2 = Some (now + 1)"
      "ents b2 = ents b1" "rest b2 = rest b1"
    using add_time_ok [of b1 now 1 ?t] b1 i assms(2) by auto
  have ents: "ents b2 = ents b |` (- set ids)" using b1 b2 by simp
  have left: "ents b2 i = Some e \<Longrightarrow> ents b i = Some e \<and> unat now + 1 < due e \<and> kok i" for i e
    using later [of i e] due1 [of i] q(4) by (auto simp: ents restrict_map_def split: if_splits)
  have "fired (ents b) (now + 1) ids"
  proof -
    have "set ids = {i. \<exists>e. ents b i = Some e \<and> due e \<le> unat (now + 1)}"
      using later q(4) due1 n1 by (force simp: Suc_le_eq)
    moreover have "map (due_of (ents b)) ids = replicate (length ids) (unat now + 1)"
      using q(4) due1 by (auto simp: due_of_def intro!: replicate_eqI)
    ultimately show ?thesis using q(3) by (simp add: fired_def)
  qed
  moreover have "stored_ok kok (ents b2) (now + 1)" using left n1 by (auto simp: stored_ok_def)
  moreover have "pend q i = map_option (\<lambda>e. due e - unat (now + 1)) (ents b2 i)" for i
    using due1 [of i] q(4)
    by (auto simp: q(5) ents restrict_map_def agrees n1 option.map_comp comp_def intro: option.map_cong)
  then have "wheel_agrees (pend q) (ents b2) (now + 1)" by (simp add: wheel_agrees_def fun_eq_iff)
  ultimately have "moved (t, b) (now + 1) ids (?t, b2)"
    using q b2 b1 ents by (simp add: moved_def timer_inv_def)
  then show ?thesis using q(1) b1(1) b2(1) by (auto simp: bind_s_def wheel_tick_def)
qed

end


context timer_system
begin

text \<open>\<open>runs_to x ts res r\<close>: \<open>r\<close> is the result of collecting what fires up to \<open>ts\<close> after \<open>res\<close>.\<close>

definition runs_to ::
    "('q, 'b) timed \<Rightarrow> u64 \<Rightarrow> 'p list \<Rightarrow> (arcon_error, 'p list) outcome \<times> ('q, 'b) timed \<Rightarrow> bool" where
  "runs_to x ts res r \<longleftrightarrow>
     (\<exists>ids x'. r = (Ok (res @ map (payload_of (ents (snd x))) ids), x') \<and> moved x ts ids x')"

lemma runs_to_after:
  assumes "moved x t1 ids y" "runs_to y t2 (res @ map (payload_of (ents (snd x))) ids) r" "t1 \<le> t2"
  shows "runs_to x t2 res r"
proof -
  obtain ids' z where z: "r = (Ok ((res @ map (payload_of (ents (snd x))) ids) @ map (payload_of (ents (snd y))) ids'), z)"
      "moved y t2 ids' z"
    using assms(2) unfolding runs_to_def by blast
  show ?thesis
    unfolding runs_to_def using moved_trans [OF assms(1) z(2) assms(3)] z(1)
    by (intro exI [of _ "ids @ ids'"] exI [of _ z]) simp
qed

lemma moved_by_zero: "inv now x \<Longrightarrow> moved x now [] x"
  by (auto simp: moved_def restrict_map_def timer_inv_def fired_def stored_ok_def not_le)

lemma runs_to_now: "moved x ts [] x' \<Longrightarrow> runs_to x ts res (Ok res, x')"
  unfolding runs_to_def by (intro exI [of _ "[]"] exI [of _ x']) simp

lemma loop_step:
  assumes "inv now x" "time_left \<noteq> 0" "unat now + unat time_left < 2 ^ 64"
  shows "runs_to x (now + ucast time_left) res (tick_loop W S (Suc n) time_left res x) \<or>
    (\<exists>k ids y. 0 < unat k \<and> k \<le> time_left \<and> moved x (now + ucast k) ids y \<and>
      tick_loop W S (Suc n) time_left res x
        = tick_loop W S n (time_left - k) (res @ map (payload_of (ents (snd x))) ids) y)"
proof -
  obtain t b where x: "x = (t, b)" by (cases x)
  note i = assms(1) [unfolded x timer_inv_def, simplified]
  show ?thesis
  proof (cases "wh_can_skip W (et_timer t)")
    case SkipEmpty
    then have none: "pend (et_timer t) = Map.empty" using wempty i by blast
    obtain b' where b': "add_time S (ucast time_left) (t, b) = (Ok (), (t, b'))" "I b'"
        "tm b' = Some (now + ucast time_left)" "ents b' = ents b" "rest b' = rest b"
      using add_time_ok [of b now "ucast time_left" t] i assms(3) by (auto simp: unat_ucast_32_64)
    have "moved (t, b) (now + ucast time_left) [] (t\<lparr>et_timer := et_timer t\<rparr>, b')"
      by (rule moved_quietly [OF assms(1) [unfolded x] _ b'(2-5)])
        (use assms(3) i none in \<open>auto simp: unat_ucast_32_64\<close>)
    then show ?thesis using SkipEmpty assms(2) b'(1) by (simp add: tick_loop.simps(2) x bind_s_def runs_to_now)
  next
    case (SkipMillis k)
    have k0: "0 < unat k" using wmillis [OF _ SkipMillis] i by (simp add: unat_gt_0)
    have "j \<le> k \<Longrightarrow> j \<le> time_left \<Longrightarrow> \<exists>x'. bind_s (wheel_skip W j) (\<lambda>_. bind_s (add_time S (ucast j)) g) (t, b) = g () x'
        \<and> moved x (now + ucast j) [] x'" for j and g :: "unit \<Rightarrow> (('q, 'b) timed, arcon_error, 'p list) action"
      unfolding x using skip_step [OF assms(1) [unfolded x] SkipMillis, of j g] assms(3) by (simp add: word_le_nat_alt)
    note skips = this [of time_left "\<lambda>_. return_s res"]
      this [of k "\<lambda>_. bind_s (lift_o (sub_u time_left k)) (\<lambda>l. tick_loop W S n l res)"]
    show ?thesis
    proof (cases "time_left \<le> k")
      case True
      then show ?thesis using skips(1) SkipMillis assms(2) by (auto simp: tick_loop.simps(2) x runs_to_now)
    next
      case False
      then have le: "k \<le> time_left" by simp
      obtain y where "tick_loop W S (Suc n) time_left res x = tick_loop W S n (time_left - k) res y"
          "moved x (now + ucast k) [] y"
        using skips(2) [OF order_refl le] SkipMillis assms(2) False le
        by (auto simp: tick_loop.simps(2) x sub_u_def)
      then show ?thesis using False k0 by (intro disjI2 exI [of _ k] exI [of _ "[]"] exI [of _ y]) simp
    qed
  next
    case SkipNone
    let ?g = "\<lambda>res'. bind_s (lift_o (sub_u time_left 1)) (\<lambda>l. tick_loop W S n l res')"
    have "0 < unat time_left" using assms(2) by (simp add: unat_gt_0)
    then have one: "1 \<le> time_left" "unat now + 1 < 2 ^ 64"
      using assms(3) by (simp_all add: word_le_nat_alt)
    obtain ids x' where "bind_s (wheel_tick W) (\<lambda>ids. bind_s (take_entries S ids res) (\<lambda>res'.
          bind_s (add_time S 1) (\<lambda>_. ?g res'))) (t, b) = ?g (res @ map (payload_of (ents b)) ids) x'"
        "moved x (now + 1) ids x'"
      using tick_step [OF assms(1) [unfolded x] one(2), of res ?g] unfolding x by blast
    then show ?thesis
      using assms(2) one SkipNone by (intro disjI2 exI [of _ 1] exI [of _ ids] exI [of _ x']) (simp add: tick_loop.simps(2) x bind_s_def sub_u_def)
  qed
qed

text \<open>The loop: it never runs out of its budget, and has the effect of moving the time.\<close>

lemma tick_loop_ok:
  assumes "inv now x" and "unat now + unat time_left < 2 ^ 64" and "unat time_left < n"
  shows "runs_to x (now + ucast time_left) res (tick_loop W S n time_left res x)"
  using assms
proof (induction n arbitrary: now time_left res x)
  case 0
  then show ?case by simp
next
  case (Suc n)
  show ?case
  proof (cases "time_left = 0")
    case True
    then show ?thesis using moved_by_zero [OF Suc.prems(1)] by (simp add: tick_loop.simps(2) runs_to_now)
  next
    case False
    consider "runs_to x (now + ucast time_left) res (tick_loop W S (Suc n) time_left res x)"
      | k ids y where "0 < unat k" "k \<le> time_left" "moved x (now + ucast k) ids y"
        "tick_loop W S (Suc n) time_left res x
          = tick_loop W S n (time_left - k) (res @ map (payload_of (ents (snd x))) ids) y"
      using loop_step [OF Suc.prems(1) False Suc.prems(2)] by blast
    then show ?thesis
    proof cases
      case 1
      then show ?thesis .
    next
      case (2 k ids y)
      have split: "now + ucast k + ucast (time_left - k) = now + ucast time_left" "now + ucast k \<le> now + ucast time_left"
        "unat (now + ucast k) + unat (time_left - k) < 2 ^ 64" "unat (time_left - k) < n"
        using time_split [OF 2(2) Suc.prems(2)] 2(1) Suc.prems(3) by (blast, blast, blast, linarith)
      have "inv (now + ucast k) y" using 2(3) by (simp add: moved_def)
      from Suc.IH [OF this split(3,4), unfolded split(1)] show ?thesis
        unfolding 2(4) using runs_to_after [OF 2(3)] split(2) by blast
    qed
  qed
qed

text \<open>The chunks.\<close>

lemma advance_chunks_ok:
  assumes "inv now x" and "unat now + unat time_left < 2 ^ 64"
  shows "runs_to x (now + time_left) res (advance_chunks W S time_left res x)"
  using assms
proof (induction "unat time_left" arbitrary: now time_left res x rule: less_induct)
  case less
  show ?case
  proof (cases "0xFFFFFFFF < time_left")
    case False
    then have "unat (ucast time_left :: u32) = unat time_left"
      by (intro unat_ucast_64_32) (simp add: word_less_nat_alt)
    moreover from this have "ucast (ucast time_left :: u32) = time_left"
      by (intro word_unat_eq_iff [THEN iffD2]) (simp add: unat_ucast_32_64)
    ultimately show ?thesis
      using tick_loop_ok [OF less.prems(1), where time_left = "ucast time_left" and res = res] less.prems(2) False
      by (subst advance_chunks.simps) (simp add: tick_and_collect_def)
  next
    case True
    note c = chunk_shrinks [OF True]
    have u: "ucast (0xFFFFFFFF :: u32) = (0xFFFFFFFF :: u64)" "unat (0xFFFFFFFF :: u32) = 0xFFFFFFFF" by simp_all
    have "runs_to x (now + 0xFFFFFFFF) res (tick_and_collect W S 0xFFFFFFFF res x)"
      using tick_loop_ok [OF less.prems(1), where time_left = "0xFFFFFFFF" and res = res] less.prems(2) c u
      by (simp add: tick_and_collect_def)
    then obtain ids y where y: "tick_and_collect W S 0xFFFFFFFF res x = (Ok (res @ map (payload_of (ents (snd x))) ids), y)"
        "moved x (now + 0xFFFFFFFF) ids y"
      unfolding runs_to_def by blast
    have n: "unat (now + 0xFFFFFFFF) = unat now + 0xFFFFFFFF" "unat (now + time_left) = unat now + unat time_left"
      using less.prems(2) c by (simp_all add: unat_add_no_overflow)
    have "runs_to y (now + 0xFFFFFFFF + (time_left - 0xFFFFFFFF)) (res @ map (payload_of (ents (snd x))) ids)
        (advance_chunks W S (time_left - 0xFFFFFFFF) (res @ map (payload_of (ents (snd x))) ids) y)"
      by (rule less.hyps) (use c n y(2) less.prems(2) in \<open>simp_all add: moved_def\<close>)
    then have "runs_to x (now + time_left) res
        (advance_chunks W S (time_left - 0xFFFFFFFF) (res @ map (payload_of (ents (snd x))) ids) y)"
      using runs_to_after [OF y(2), of "now + time_left"] n c by (simp add: word_le_nat_alt)
    then show ?thesis using True y(1) by (subst advance_chunks.simps) (simp add: bind_s_def)
  qed
qed

lemma advance_to_ok:
  assumes "inv now x" and "now \<le> ts"
  shows "runs_to x ts [] (timer_advance_to W S ts x)"
proof -
  have "unat now + unat (ts - now) = unat ts"
    using assms(2) by (simp add: unat_sub word_le_nat_alt)
  then have "runs_to x (now + (ts - now)) [] (advance_chunks W S (ts - now) [] x)"
    using advance_chunks_ok [OF assms(1), of "ts - now" "[]"] unat_bound [of ts] by simp
  then show ?thesis
    using assms current_time_ok [of x now]
    by (simp add: timer_advance_to_def bind_s_def timer_inv_def not_less [symmetric])
qed

end


section \<open>Scheduling and restarting\<close>

context timer_system
begin

text \<open>An entry scheduled with a positive delay is stored and known to the wheel; the due time is
  the sum of the current time and the delay.\<close>

lemma schedule_after_ok:
  assumes "inv now x" "delay \<noteq> 0" "fresh_id kok ents uuid x"
  shows "\<exists>x'. timer_schedule_after W S uuid delay p x = (Ok (Inr ()), x') \<and> inv now x' \<and>
    ents (snd x') = (ents (snd x))(uuid (et_drawn (fst x)) \<mapsto> event_timer_event_new now delay p) \<and>
    rest (snd x') = rest (snd x) \<and> et_drawn (fst x') = Suc (et_drawn (fst x))"
proof -
  obtain t b where x: "x = (t, b)" by (cases x)
  note i = assms(1) [unfolded x timer_inv_def, simplified]
  let ?i = "uuid (et_drawn t)" and ?e = "event_timer_event_new now delay p"
  have fresh: "ents b ?i = None" "kok ?i" using assms(3) by (simp_all add: x fresh_id_def)
  then have "pend (et_timer t) ?i = None" using i by (simp add: wheel_agrees_def)
  then obtain q where q: "wh_insert W ?i delay (et_timer t) = (Inserted, q)" "wok q"
      "pend q = (pend (et_timer t))(?i \<mapsto> unat delay)"
    using winsert [OF _ assms(2)] i by blast
  obtain b' where b': "mo_fast_insert (ts_timeouts S) ?i ?e b = (Ok (), b')" "I b'"
      "ents b' = (ents b)(?i \<mapsto> ?e)" "tm b' = tm b" "rest b' = rest b"
    using tq.mfast_insert [OF _ fresh(2)] i by blast
  have d: "due ?e = unat now + unat delay" by (simp add: due_def event_timer_event_new_def)
  have "0 < unat delay" using assms(2) by (simp add: unat_gt_0)
  then have "stored_ok kok (ents b') now"
    using i d fresh(2) by (auto simp: stored_ok_def b'(3))
  moreover have "wheel_agrees (pend q) (ents b') now"
    using i d by (auto simp: wheel_agrees_def q(3) b'(3) fun_eq_iff)
  ultimately have "inv now (t\<lparr>et_drawn := Suc (et_drawn t), et_timer := q\<rparr>, b')"
    using q b' i by (simp add: timer_inv_def)
  then show ?thesis
    using q(1) b' i
      current_time_ok [of "(t\<lparr>et_drawn := Suc (et_drawn t), et_timer := q\<rparr>, b)" now]
    by (simp add: x timer_schedule_after_def new_uuid_def wheel_insert_def put_entry_def on_backend_apply bind_s_def)
qed

lemma schedule_at_ok:
  assumes "inv now x" "now < ts" "fresh_id kok ents uuid x"
  shows "\<exists>x'. timer_schedule_at W S uuid ts p x = (Ok (Inr ()), x') \<and> inv now x' \<and>
    ents (snd x') = (ents (snd x))(uuid (et_drawn (fst x)) \<mapsto> event_timer_event_new now (ts - now) p) \<and>
    rest (snd x') = rest (snd x) \<and> et_drawn (fst x') = Suc (et_drawn (fst x))"
  using schedule_after_ok [OF assms(1) _ assms(3), of "ts - now" p] assms current_time_ok [of x now]
  by (auto simp: timer_schedule_at_def bind_s_def timer_inv_def)

lemma schedule_at_expired:
  assumes "inv now x" "ts \<le> now"
  shows "timer_schedule_at W S uuid ts p x = (Ok (Inl p), x)"
  using assms current_time_ok [of x now] by (simp add: timer_schedule_at_def bind_s_def timer_inv_def)

text \<open>Replaying puts every stored entry into the wheel.\<close>

lemma replay_entries_ok:
  assumes "wok (et_timer t)" "distinct (map fst kvs)"
    and "\<forall>(i, e) \<in> set kvs. unat now < due e \<and> due e < 2 ^ 64 \<and> pend (et_timer t) i = None"
  shows "\<exists>q. replay_entries W now (map Ok kvs) (t, b) = (Ok (), (t\<lparr>et_timer := q\<rparr>, b)) \<and> wok q \<and>
    pend q = pend (et_timer t) ++ (\<lambda>i. map_option (\<lambda>e. due e - unat now) (map_of kvs i))"
  using assms
proof (induction kvs arbitrary: t)
  case Nil
  then show ?case by (intro exI [of _ "et_timer t"]) (simp add: map_add_def)
next
  case (Cons kv kvs)
  obtain i e where kv: "kv = (i, e)" by (cases kv)
  have e: "unat now < due e" "due e < 2 ^ 64" "pend (et_timer t) i = None" using Cons.prems(3) kv by auto
  let ?due = "time_when_scheduled e + timeout_millis e"
  have u: "unat ?due = due e" using e(2) by (simp add: due_def unat_add_no_overflow)
  then have delay: "now \<le> ?due" "unat (?due - now) = due e - unat now" "?due - now \<noteq> 0"
    using e(1) by (auto simp: word_le_nat_alt unat_sub)
  obtain q where q: "wh_insert W i (?due - now) (et_timer t) = (Inserted, q)" "wok q"
      "pend q = (pend (et_timer t))(i \<mapsto> due e - unat now)"
    using winsert [OF Cons.prems(1) delay(3) e(3)] delay(2) by auto
  have fresh: "\<forall>(j, f) \<in> set kvs. unat now < due f \<and> due f < 2 ^ 64 \<and> pend q j = None"
    using Cons.prems(2,3) by (force simp: kv q(3))
  obtain q' where q': "replay_entries W now (map Ok kvs) (t\<lparr>et_timer := q\<rparr>, b)
        = (Ok (), (t\<lparr>et_timer := q'\<rparr>, b))" "wok q'"
      "pend q' = pend q ++ (\<lambda>i. map_option (\<lambda>e. due e - unat now) (map_of kvs i))"
    using Cons.IH [of "t\<lparr>et_timer := q\<rparr>"] Cons.prems(2) q(2) fresh by auto
  have "map_of kvs i = None" using Cons.prems(2) by (auto simp: kv map_of_eq_None_iff)
  then have "pend q' = pend (et_timer t) ++ (\<lambda>i. map_option (\<lambda>e. due e - unat now) (map_of (kv # kvs) i))"
    by (auto simp: q'(3) q(3) kv fun_eq_iff map_add_def split: option.splits)
  moreover have "add_u (time_when_scheduled e) (timeout_millis e) = (Ok ?due :: (arcon_error, u64) outcome)"
    using e(2) by (simp add: add_u_def due_def)
  ultimately show ?case
    using q(1) q' delay(1) by (intro exI [of _ q']) (simp add: kv bind_s_def wheel_insert_def sub_u_def)
qed

text \<open>A new timer on a restored backend.\<close>

lemma init_ok:
  assumes "I b" and "\<forall>i. \<forall>e \<in> set_option (ents b i). due e < 2 ^ 64"
    and "stored_ok kok (ents b) (case tm b of None \<Rightarrow> 0 | Some now \<Rightarrow> now)"
  shows "\<exists>x. timer_init W S (event_timer_new W, b) = (Ok (), x) \<and>
    inv (case tm b of None \<Rightarrow> 0 | Some now \<Rightarrow> now) x \<and> ents (snd x) = ents b \<and> rest (snd x) = rest b"
proof -
  let ?t = "event_timer_new W" and ?now = "case tm b of None \<Rightarrow> 0 | Some now \<Rightarrow> now"
  have start: "\<exists>b'. (if tm b = None
         then bind_s (on_backend ''could not set current time'' (vo_set (ts_current_time S) 0)) (\<lambda>_. return_s ())
         else return_s ()) (?t, b) = (Ok (), (?t, b')) \<and>
      I b' \<and> tm b' = Some ?now \<and> ents b' = ents b \<and> rest b' = rest b"
    using ct.vset [OF assms(1), of 0] assms(1) by (auto simp: on_backend_apply bind_s_def)
  then obtain b' where b': "(if tm b = None
         then bind_s (on_backend ''could not set current time'' (vo_set (ts_current_time S) 0)) (\<lambda>_. return_s ())
         else return_s ()) (?t, b) = (Ok (), (?t, b'))"
      "I b'" "tm b' = Some ?now" "ents b' = ents b" "rest b' = rest b" by blast
  obtain kvs where kvs: "mo_iter (ts_timeouts S) b' = Ok (map Ok kvs)" "distinct (map fst kvs)" "map_of kvs = ents b'"
    using tq.miter [OF b'(2)] by blast
  have "\<forall>(i, e) \<in> set kvs. unat ?now < due e \<and> due e < 2 ^ 64 \<and> pend (et_timer ?t) i = None"
  proof clarify
    fix i e
    assume "(i, e) \<in> set kvs"
    then have "ents b i = Some e" using kvs b'(4) by (metis map_of_distinct_iff)
    then show "unat ?now < due e \<and> due e < 2 ^ 64 \<and> pend (et_timer ?t) i = None"
      using assms(2,3) wdefault by (auto simp: stored_ok_def event_timer_new_def)
  qed
  then obtain q where q: "replay_entries W ?now (map Ok kvs) (?t, b') = (Ok (), (?t\<lparr>et_timer := q\<rparr>, b'))" "wok q"
      "pend q = pend (et_timer ?t) ++ (\<lambda>i. map_option (\<lambda>e. due e - unat ?now) (map_of kvs i))"
    using replay_entries_ok [OF _ kvs(2), of ?t ?now b'] wdefault by (auto simp: event_timer_new_def)
  have "pend q = (\<lambda>i. map_option (\<lambda>e. due e - unat ?now) (ents b i))"
    using q(3) wdefault kvs(3) b'(4) by (simp add: event_timer_new_def)
  then have "inv ?now (?t\<lparr>et_timer := q\<rparr>, b')"
    using q(2) b' assms(3) by (simp add: timer_inv_def wheel_agrees_def)
  moreover have "timer_init W S (?t, b) = (Ok (), (?t\<lparr>et_timer := q\<rparr>, b'))"
    using b' q(1) kvs(1) current_time_ok [of "(?t, b')" ?now]
    by (simp add: timer_init_def replay_events_def on_backend_apply [of _ "query _"] bind_s_def ct.vget [OF assms(1)])
  ultimately show ?thesis using b'(4,5) by simp
qed

end


section \<open>The timer on the in-memory backend\<close>

text \<open>The operations of the activated bundle on \<^verbatim>\<open>InMemory\<close>. \<open>K\<close> encodes the ids; \<open>TV\<close> and \<open>EV\<close> box
  the current time and the entries.\<close>

definition im_timer_state ::
    "string message \<Rightarrow> (u64, 'd) any_type \<Rightarrow> ('p event_timer_event, 'd) any_type \<Rightarrow> ('d in_memory, 'p) timer_state" where
  "im_timer_state K TV EV =
     \<lparr>ts_current_time = im_value_ops unit_fb unit_fb TV current_time_handle,
      ts_timeouts = im_map_ops unit_fb unit_fb K EV timeouts_handle\<rparr>"

text \<open>What the timer owns on the backend: its two tables; \<open>im_timer_rest\<close> is everything else.\<close>

definition im_timer_inv ::
    "string message \<Rightarrow> (u64, 'd) any_type \<Rightarrow> ('p event_timer_event, 'd) any_type \<Rightarrow> 'd in_memory \<Rightarrow> bool" where
  "im_timer_inv K TV EV b \<longleftrightarrow>
     typed_state (metakey_layout (\<lambda>_ :: unit. []) (\<lambda>_. True) (\<lambda>_ :: unit. []) (\<lambda>_. True)) TV (h_id current_time_handle) b \<and>
     typed_state (mapkey_layout (\<lambda>_ :: unit. []) (\<lambda>_. True) (\<lambda>_ :: unit. []) (\<lambda>_. True) K) EV (h_id timeouts_handle) b"

definition im_timer_rest :: "'d in_memory \<Rightarrow> string \<rightharpoonup> 'd table" where
  "im_timer_rest b = (im_data b)(h_id current_time_handle := None, h_id timeouts_handle := None)"

definition id_storable :: "string message \<Rightarrow> string \<Rightarrow> bool" where
  "id_storable K i \<longleftrightarrow> length (msg_encode K i) \<le> usize_max"

lemma timer_handles:
  "h_id current_time_handle \<noteq> h_id timeouts_handle" "h_id timeouts_handle \<noteq> h_id current_time_handle"
  by (simp_all add: current_time_handle_def timeouts_handle_def value_handle_def map_handle_def no_extra_def)

locale im_timer =
  time_cell: im_cells unit_fb "\<lambda>_. []" "\<lambda>_. True" unit_fb "\<lambda>_. []" "\<lambda>_. True" TV current_time_handle +
  entry_map: im_map unit_fb "\<lambda>_. []" "\<lambda>_. True" unit_fb "\<lambda>_. []" "\<lambda>_. True" K EV timeouts_handle
  for K :: "string message" and TV :: "(u64, 'd) any_type" and EV :: "('p event_timer_event, 'd) any_type"
begin

abbreviation stored_time :: "'d in_memory \<Rightarrow> u64 option" where
  "stored_time \<equiv> cell_content TV (h_id current_time_handle) []"

abbreviation stored_entries :: "'d in_memory \<Rightarrow> string \<rightharpoonup> 'p event_timer_event" where
  "stored_entries \<equiv> map_content K EV (h_id timeouts_handle) []"

lemma time_contract:
  "value_state (ts_current_time (im_timer_state K TV EV)) (im_timer_inv K TV EV) stored_time
    (\<lambda>b. (stored_entries b, im_timer_rest b))"
proof -
  let ?T = "typed_state (metakey_layout (\<lambda>_ :: unit. []) (\<lambda>_. True) (\<lambda>_ :: unit. []) (\<lambda>_. True)) TV (h_id current_time_handle)"
  let ?E = "typed_state (mapkey_layout (\<lambda>_ :: unit. []) (\<lambda>_. True) (\<lambda>_ :: unit. []) (\<lambda>_. True) K) EV (h_id timeouts_handle)"
  have "value_state (im_value_ops unit_fb unit_fb TV current_time_handle) ?T stored_time
      (im_frame (h_id current_time_handle) (\<lambda>k. k = []))"
    using time_cell.refines_value by (simp add: time_cell.own_parts handle_key_def)
  then have "value_state (im_value_ops unit_fb unit_fb TV current_time_handle) (\<lambda>b. ?T b \<and> ?E b) stored_time
      (\<lambda>b. (stored_entries b, im_timer_rest b))"
  proof (rule value_state_frame)
    fix b b' :: "'d in_memory"
    assume f: "im_frame (h_id current_time_handle) (\<lambda>k. k = []) b' = im_frame (h_id current_time_handle) (\<lambda>k. k = []) b"
    then have "im_data b' j = im_data b j" if "j \<noteq> h_id current_time_handle" for j
      using that by (rule typed_state_other)
    then show "?E b' = ?E b \<and> (stored_entries b', im_timer_rest b') = (stored_entries b, im_timer_rest b)"
      by (simp add: timer_handles typed_state_def map_content_def cell_content_def im_cell_def im_timer_rest_def fun_eq_iff)
  qed
  then show ?thesis by (simp add: im_timer_state_def im_timer_inv_def [abs_def])
qed

lemma own_storable: "time_cell.key_fits K = id_storable K"
  unfolding entry_map.own_key_fits by (simp add: fun_eq_iff id_storable_def metakey_size_def unit_fb_def)

lemma entries_contract:
  "map_state (ts_timeouts (im_timer_state K TV EV)) (im_timer_inv K TV EV) (id_storable K) stored_entries
    (\<lambda>b. (stored_time b, im_timer_rest b))"
proof -
  let ?T = "typed_state (metakey_layout (\<lambda>_ :: unit. []) (\<lambda>_. True) (\<lambda>_ :: unit. []) (\<lambda>_. True)) TV (h_id current_time_handle)"
  let ?E = "typed_state (mapkey_layout (\<lambda>_ :: unit. []) (\<lambda>_. True) (\<lambda>_ :: unit. []) (\<lambda>_. True) K) EV (h_id timeouts_handle)"
  have "map_state (im_map_ops unit_fb unit_fb K EV timeouts_handle) ?E (id_storable K) stored_entries
      (im_frame (h_id timeouts_handle) (has_prefix []))"
    using entry_map.refines_map
    by (simp add: entry_map.own_map_parts own_storable handle_key_def)
  then have "map_state (im_map_ops unit_fb unit_fb K EV timeouts_handle) (\<lambda>b. ?E b \<and> ?T b) (id_storable K) stored_entries
      (\<lambda>b. (stored_time b, im_timer_rest b))"
  proof (rule map_state_frame)
    fix b b' :: "'d in_memory"
    assume f: "im_frame (h_id timeouts_handle) (has_prefix []) b' = im_frame (h_id timeouts_handle) (has_prefix []) b"
    then have "im_data b' j = im_data b j" if "j \<noteq> h_id timeouts_handle" for j
      using that by (rule typed_state_other)
    then show "?T b' = ?T b \<and> (stored_time b', im_timer_rest b') = (stored_time b, im_timer_rest b)"
      by (simp add: timer_handles typed_state_def cell_content_def im_cell_def im_timer_rest_def fun_eq_iff)
  qed
  then show ?thesis by (simp add: im_timer_state_def im_timer_inv_def [abs_def] conj_commute)
qed

end

sublocale im_timer \<subseteq> store: timer_store "im_timer_state K TV EV" "im_timer_inv K TV EV" "id_storable K"
    "cell_content TV (h_id current_time_handle) []" "map_content K EV (h_id timeouts_handle) []" im_timer_rest
  by (rule timer_store.intro [OF time_contract entries_contract])


section \<open>An instance\<close>

text \<open>A list of ids with the milliseconds left has the documented behaviour of the wheel.\<close>

definition least_left :: "(string \<times> nat) list \<Rightarrow> nat" where
  "least_left q = Min (snd ` set q)"

definition list_wheel :: "(string \<times> nat) list wheel" where
  "list_wheel =
     \<lparr>wh_default = [],
      wh_insert = (\<lambda>i d q. if d = 0 then (InsertExpired, q) else (Inserted, q @ [(i, unat d)])),
      wh_can_skip = (\<lambda>q.
        if q = [] then SkipEmpty
        else if least_left q = 1 then SkipNone
        else SkipMillis (word_of_nat (min (least_left q - 1) (2 ^ 32 - 1)))),
      wh_skip = (\<lambda>k q. map (\<lambda>(i, d). (i, d - unat k)) q),
      wh_tick = (\<lambda>q. (map fst (filter (\<lambda>(i, d). d = 1) q),
                      map (\<lambda>(i, d). (i, d - 1)) (filter (\<lambda>(i, d). d \<noteq> 1) q)))\<rparr>"

definition list_wheel_ok :: "(string \<times> nat) list \<Rightarrow> bool" where
  "list_wheel_ok q \<longleftrightarrow> distinct (map fst q) \<and> list_all (\<lambda>(i, d). 0 < d) q"

lemma least_left_le: "(i, d) \<in> set q \<Longrightarrow> least_left q \<le> d"
  by (force simp: least_left_def intro: Min_le)

lemma least_left_mem: "q \<noteq> [] \<Longrightarrow> least_left q \<in> snd ` set q"
  unfolding least_left_def by (rule Min_in) simp_all

lemma map_of_map_val: "map_of (map (\<lambda>(i, d). (i, f d)) q) = (\<lambda>i. map_option f (map_of q i))"
  by (induction q) auto

lemma map_of_filter_val:
  "distinct (map fst q) \<Longrightarrow> map_of (filter (\<lambda>(i, d). P d) q) i
    = (case map_of q i of None \<Rightarrow> None | Some d \<Rightarrow> if P d then Some d else None)"
  by (induction q) (auto simp: map_of_eq_None_iff split: option.splits)

interpretation lw: timer_wheel list_wheel list_wheel_ok map_of
proof
  fix q :: "(string \<times> nat) list" and i d delay k j
  assume ok: "list_wheel_ok q"
  then have dist: "distinct (map fst q)" and pos: "\<And>i d. (i, d) \<in> set q \<Longrightarrow> 0 < d"
    by (auto simp: list_wheel_ok_def list_all_iff)
  show "0 < d" if "map_of q i = Some d" using pos map_of_SomeD [OF that] .
  show "\<exists>q'. wh_insert list_wheel i delay q = (Inserted, q') \<and> list_wheel_ok q' \<and> map_of q' = (map_of q)(i \<mapsto> unat delay)"
    if "delay \<noteq> 0" "map_of q i = None"
  proof -
    have "i \<notin> fst ` set q" using that(2) by (simp add: map_of_eq_None_iff)
    then have "list_wheel_ok (q @ [(i, unat delay)])" using that(1) ok by (simp add: list_wheel_ok_def unat_gt_0)
    moreover have "map_of (q @ [(i, unat delay)]) = (map_of q)(i \<mapsto> unat delay)"
      using that(2) by (auto simp: map_add_def fun_eq_iff split: option.splits)
    ultimately show ?thesis using that(1) by (simp add: list_wheel_def)
  qed
  show "\<exists>q'. wh_insert list_wheel i 0 q = (InsertExpired, q') \<and> list_wheel_ok q' \<and> map_of q' = map_of q"
    using ok by (simp add: list_wheel_def)
  show "map_of q = Map.empty" if "wh_can_skip list_wheel q = SkipEmpty"
    using that by (simp add: list_wheel_def split: if_splits)
  show least: "k \<noteq> 0 \<and> (\<forall>i d. map_of q i = Some d \<longrightarrow> unat k < d)" if "wh_can_skip list_wheel q = SkipMillis k"
  proof -
    have q: "q \<noteq> []" "least_left q \<noteq> 1" and k: "k = word_of_nat (min (least_left q - 1) (2 ^ 32 - 1))"
      using that by (auto simp: list_wheel_def split: if_splits)
    have "0 < least_left q" using least_left_mem [OF q(1)] pos by auto
    moreover have u: "unat k = min (least_left q - 1) (2 ^ 32 - 1)"
      unfolding k by (simp add: unat_of_nat)
    ultimately show ?thesis using q(2) least_left_le map_of_SomeD
      by (fastforce simp: unat_eq_0 [symmetric])
  qed
  show "list_wheel_ok (wh_skip list_wheel j q) \<and>
      map_of (wh_skip list_wheel j q) = (\<lambda>i. map_option (\<lambda>d. d - unat j) (map_of q i))"
    if "wh_can_skip list_wheel q = SkipMillis k" "j \<le> k"
  proof -
    have "unat j < d" if "(i, d) \<in> set q" for i d
      using least [OF \<open>wh_can_skip list_wheel q = SkipMillis k\<close>] that \<open>j \<le> k\<close> dist
      by (fastforce simp: word_le_nat_alt map_of_distinct_iff)
    then show ?thesis
      using dist by (auto simp: list_wheel_def list_wheel_ok_def map_of_map_val list_all_iff comp_def split_beta)
  qed
  show "\<exists>ids q'. wh_tick list_wheel q = (ids, q') \<and> list_wheel_ok q' \<and> distinct ids \<and>
      set ids = {i. map_of q i = Some 1} \<and>
      map_of q' = (\<lambda>i. map_option (\<lambda>d. d - 1) (if map_of q i = Some 1 then None else map_of q i))"
  proof (intro exI conjI)
    show "wh_tick list_wheel q = (map fst (filter (\<lambda>(i, d). d = 1) q),
        map (\<lambda>(i, d). (i, d - 1)) (filter (\<lambda>(i, d). d \<noteq> 1) q))" by (simp add: list_wheel_def)
    show "list_wheel_ok (map (\<lambda>(i, d). (i, d - 1)) (filter (\<lambda>(i, d). d \<noteq> 1) q))"
      using dist pos by (fastforce simp: list_wheel_ok_def list_all_iff comp_def split_beta distinct_filter_keys)
    show "distinct (map fst (filter (\<lambda>(i, d). d = 1) q))" using dist by (rule distinct_filter_keys)
    show "set (map fst (filter (\<lambda>(i, d). d = 1) q)) = {i. map_of q i = Some 1}"
      using dist by (force simp: map_of_distinct_iff)
    show "map_of (map (\<lambda>(i, d). (i, d - 1)) (filter (\<lambda>(i, d). d \<noteq> 1) q))
        = (\<lambda>i. map_option (\<lambda>d. d - 1) (if map_of q i = Some 1 then None else map_of q i))"
      using dist by (auto simp: map_of_map_val map_of_filter_val fun_eq_iff split: option.splits)
  qed
qed (simp add: list_wheel_def list_wheel_ok_def)


text \<open>A universe with the two boxed types, and a codec of strings: a marker byte and a character
  each, then a zero byte.\<close>

datatype timer_any = AnyTime u64 | AnyEntry "u64 event_timer_event"

definition time_any :: "(u64, timer_any) any_type" where
  "time_any = \<lparr>any_box = AnyTime, any_downcast = (\<lambda>d. case d of AnyTime x \<Rightarrow> Some x | _ \<Rightarrow> None)\<rparr>"

definition entry_any :: "(u64 event_timer_event, timer_any) any_type" where
  "entry_any = \<lparr>any_box = AnyEntry, any_downcast = (\<lambda>d. case d of AnyEntry x \<Rightarrow> Some x | _ \<Rightarrow> None)\<rparr>"

fun string_encode :: "string \<Rightarrow> bytes" where
  "string_encode [] = [0]"
| "string_encode (c # cs) = 1 # word_of_nat (of_char c) # string_encode cs"

fun string_decode :: "bytes \<Rightarrow> (string \<times> bytes) option" where
  "string_decode (m # bs) =
     (if m = 0 then Some ([], bs)
      else (case bs of [] \<Rightarrow> None
        | c # bs' \<Rightarrow> map_option (\<lambda>(s, rest). (char_of (unat c) # s, rest)) (string_decode bs')))"
| "string_decode [] = None"

definition string_message :: "string message" where
  "string_message = \<lparr>msg_encode = string_encode, msg_decode = string_decode\<rparr>"

lemma char_of_byte [simp]: "char_of (unat (word_of_nat (of_char c) :: u8)) = c"
  by (simp add: unat_of_nat)

lemma string_message_law: "message_law string_message"
proof -
  have "string_decode (string_encode s @ rest) = Some (s, rest)" for s rest
    by (induction s) simp_all
  then show ?thesis by (simp add: message_law_def string_message_def)
qed

interpretation imt: im_timer string_message time_any entry_any
  by unfold_locales (simp_all add: string_message_law any_law_def time_any_def entry_any_def)


interpretation lwt: timer_system list_wheel list_wheel_ok map_of "im_timer_state string_message time_any entry_any"
    "im_timer_inv string_message time_any entry_any" "id_storable string_message"
    "cell_content time_any (h_id current_time_handle) []"
    "map_content string_message entry_any (h_id timeouts_handle) []" im_timer_rest
  by (rule timer_system.intro [OF lw.timer_wheel_axioms imt.store.timer_store_axioms])

definition demo_entries :: "timer_any table" where
  "demo_entries =
     [(string_encode ''a'', AnyEntry (event_timer_event_new 0 10 41)),
      (string_encode ''b'', AnyEntry (event_timer_event_new 3 4 42))]"

definition demo_backend :: "u64 \<Rightarrow> timer_any in_memory" where
  "demo_backend now = \<lparr>im_data = [h_id current_time_handle \<mapsto> [([], AnyTime now)], h_id timeouts_handle \<mapsto> demo_entries]\<rparr>"

definition demo_timed :: "((string \<times> nat) list, timer_any in_memory) timed" where
  "demo_timed = (\<lparr>et_timer = [(''a'', 5), (''b'', 2)], et_drawn = 0\<rparr>, demo_backend 5)"


lemma demo_content:
  "map_content string_message entry_any (h_id timeouts_handle) [] (demo_backend now)
    = [''a'' \<mapsto> event_timer_event_new 0 10 41, ''b'' \<mapsto> event_timer_event_new 3 4 42]"
proof -
  have "string_encode u = string_encode v \<longleftrightarrow> u = v" for u v
    using message_inj [OF string_message_law] by (simp add: string_message_def)
  then show ?thesis
    by (auto simp: fun_eq_iff map_content_def cell_content_def im_cell_def demo_backend_def demo_entries_def
        string_message_def entry_any_def timer_handles simp del: string_encode.simps)
qed

lemma demo_time: "cell_content time_any (h_id current_time_handle) [] (demo_backend now) = Some now"
  by (simp add: cell_content_def im_cell_def demo_backend_def time_any_def timer_handles)

lemma demo_backend_inv: "im_timer_inv string_message time_any entry_any (demo_backend now)"
proof -
  have "typed_table (metakey_layout (\<lambda>_ :: unit. []) (\<lambda>_. True) (\<lambda>_ :: unit. []) (\<lambda>_. True)) time_any [([], AnyTime now)]"
    by (auto simp: typed_table_def metakey_layout_def time_any_def)
  moreover have "typed_table (mapkey_layout (\<lambda>_ :: unit. []) (\<lambda>_. True) (\<lambda>_ :: unit. []) (\<lambda>_. True) string_message) entry_any
      demo_entries"
    by (auto simp: typed_table_def mapkey_layout_def entry_any_def demo_entries_def string_message_def
        simp del: string_encode.simps) simp
  ultimately show ?thesis by (simp add: im_timer_inv_def typed_state_def demo_backend_def timer_handles)
qed

lemma demo_stored_ok:
  "unat now < 7 \<Longrightarrow> stored_ok (id_storable string_message)
    (map_content string_message entry_any (h_id timeouts_handle) [] (demo_backend now)) now"
  unfolding demo_content
  by (auto simp: stored_ok_def id_storable_def string_message_def usize_max_def due_def
      event_timer_event_new_def split: if_splits)

abbreviation demo_inv :: "u64 \<Rightarrow> ((string \<times> nat) list, timer_any in_memory) timed \<Rightarrow> bool" where
  "demo_inv \<equiv> timer_inv list_wheel_ok map_of (im_timer_inv string_message time_any entry_any)
     (id_storable string_message) (cell_content time_any (h_id current_time_handle) [])
     (map_content string_message entry_any (h_id timeouts_handle) [])"

lemma demo_timed_inv: "demo_inv 5 demo_timed"
  using demo_stored_ok [of 5] demo_backend_inv
  by (auto simp: timer_inv_def demo_timed_def list_wheel_ok_def demo_time wheel_agrees_def demo_content fun_eq_iff
      due_def event_timer_event_new_def)

section \<open>Properties\<close>

text \<open>C26: \<^verbatim>\<open>advance_to\<close> always returns. A time before the current one changes nothing and returns
  nothing; otherwise it returns the payloads of exactly the entries that fall due up to the new
  time, each once and in the order in which they are due, removes these entries and no others,
  and leaves the timer at the new time with wheel and storage in agreement.\<close>

theorem timer_advance_to_fires:
  assumes "timer_system W wok pend S I kok tm ents rest" and "timer_inv wok pend I kok tm ents now x"
  shows "if ts < now then timer_advance_to W S ts x = (Ok [], x)
    else \<exists>ids x'. timer_advance_to W S ts x = (Ok (map (payload_of (ents (snd x))) ids), x') \<and>
      distinct ids \<and> sorted (map (due_of (ents (snd x))) ids) \<and>
      set ids = {i. \<exists>e. ents (snd x) i = Some e \<and> due e \<le> unat ts} \<and>
      ents (snd x') = ents (snd x) |` (- set ids) \<and> rest (snd x') = rest (snd x) \<and>
      timer_inv wok pend I kok tm ents ts x'"
proof (cases "ts < now")
  case True
  then show ?thesis
    using timer_system.current_time_ok [OF assms(1), of x now] assms(2)
    by (simp add: timer_advance_to_def bind_s_def timer_inv_def)
next
  case False
  then have "now \<le> ts" by simp
  from timer_system.advance_to_ok [OF assms this] show ?thesis
    unfolding timer_system.runs_to_def [OF assms(1)] timer_system.moved_def [OF assms(1)] fired_def
    by (simp only: False if_False append_Nil) blast
qed

theorem timer_advance_to_fires_witness:
  "\<exists>ids x'. timer_advance_to list_wheel (im_timer_state string_message time_any entry_any) 8 demo_timed
      = (Ok (map (payload_of (map_content string_message entry_any (h_id timeouts_handle) [] (demo_backend 5))) ids), x') \<and>
    set ids = {''b''} \<and> demo_inv 8 x'"
proof -
  have "{i. \<exists>e. [''a'' \<mapsto> event_timer_event_new 0 10 (41 :: u64), ''b'' \<mapsto> event_timer_event_new 3 4 42] i = Some e
      \<and> due e \<le> unat (8 :: u64)} = {''b''}"
    by (auto simp: due_def event_timer_event_new_def split: if_splits)
  then show ?thesis
    using timer_advance_to_fires [OF lwt.timer_system_axioms demo_timed_inv, of 8]
    by (auto simp: demo_timed_def demo_content)
qed

text \<open>\<^verbatim>\<open>schedule_at\<close> hands an entry back, and changes nothing, when its time is not in the
  future; otherwise it stores the entry under a new id with exactly that due time, keeps every
  other entry, and keeps wheel and storage in agreement.\<close>

theorem timer_schedule_at_cases:
  assumes "timer_system W wok pend S I kok tm ents rest" and "timer_inv wok pend I kok tm ents now x"
    and "fresh_id kok ents uuid x"
  shows "if ts \<le> now then timer_schedule_at W S uuid ts p x = (Ok (Inl p), x)
    else \<exists>e x'. timer_schedule_at W S uuid ts p x = (Ok (Inr ()), x') \<and>
      ents (snd x') = (ents (snd x))(uuid (et_drawn (fst x)) \<mapsto> e) \<and> payload e = p \<and> due e = unat ts \<and>
      rest (snd x') = rest (snd x) \<and> timer_inv wok pend I kok tm ents now x'"
proof (cases "ts \<le> now")
  case True
  then show ?thesis using timer_system.schedule_at_expired [OF assms(1,2)] by simp
next
  case False
  then have "due (event_timer_event_new now (ts - now) p) = unat ts"
    by (simp add: due_def event_timer_event_new_def unat_sub word_le_nat_alt)
  moreover have "payload (event_timer_event_new now (ts - now) p) = p" by (simp add: event_timer_event_new_def)
  moreover from False have "now < ts" by simp
  ultimately show ?thesis
    using timer_system.schedule_at_ok [OF assms(1,2) _ assms(3), of ts p] False by auto
qed

theorem timer_schedule_at_cases_witness:
  "\<exists>e x'. timer_schedule_at list_wheel (im_timer_state string_message time_any entry_any) (\<lambda>_. ''c'') 9 7 demo_timed
      = (Ok (Inr ()), x') \<and> payload e = 7 \<and> due e = 9 \<and>
    map_content string_message entry_any (h_id timeouts_handle) [] (snd x') ''c'' = Some e"
proof -
  have "fresh_id (id_storable string_message) (map_content string_message entry_any (h_id timeouts_handle) [])
      (\<lambda>_. ''c'') demo_timed"
    unfolding fresh_id_def demo_timed_def snd_conv demo_content
    by (simp add: id_storable_def string_message_def usize_max_def)
  from timer_schedule_at_cases [OF lwt.timer_system_axioms demo_timed_inv this, of 9 7] show ?thesis
    by auto
qed

text \<open>C27: A timer started on a backend that was restored from a checkpoint takes up every stored
  entry with the time it has left: \<^verbatim>\<open>init\<close> returns without a panic, keeps the stored time (zero
  when there is none) and entries, and establishes the agreement of wheel and storage, provided
  the stored entries are due later than the stored time and their due times fit in 64 bits.\<close>

theorem timer_init_recovers:
  assumes "timer_system W wok pend S I kok tm ents rest" and "I b"
    and "stored_ok kok (ents b) (case tm b of None \<Rightarrow> 0 | Some now \<Rightarrow> now)"
    and "\<forall>i. \<forall>e \<in> set_option (ents b i). due e < 2 ^ 64"
  shows "\<exists>x. timer_init W S (event_timer_new W, b) = (Ok (), x) \<and>
    timer_inv wok pend I kok tm ents (case tm b of None \<Rightarrow> 0 | Some now \<Rightarrow> now) x \<and>
    ents (snd x) = ents b \<and> rest (snd x) = rest b"
  using timer_system.init_ok [OF assms(1,2,4,3)] .

theorem timer_init_recovers_witness:
  "\<exists>x. timer_init list_wheel (im_timer_state string_message time_any entry_any) (event_timer_new list_wheel, demo_backend 6)
      = (Ok (), x) \<and> demo_inv 6 x"
proof -
  have "\<forall>i. \<forall>e \<in> set_option (map_content string_message entry_any (h_id timeouts_handle) [] (demo_backend 6) i). due e < 2 ^ 64"
    by (auto simp: demo_content due_def event_timer_event_new_def split: if_splits)
  moreover have "stored_ok (id_storable string_message)
      (map_content string_message entry_any (h_id timeouts_handle) [] (demo_backend 6))
      (case cell_content time_any (h_id current_time_handle) [] (demo_backend 6) of None \<Rightarrow> 0 | Some now \<Rightarrow> now)"
    using demo_stored_ok [of 6] by (simp add: demo_time)
  ultimately show ?thesis
    using timer_init_recovers [OF lwt.timer_system_axioms demo_backend_inv [of 6]] by (auto simp: demo_time)
qed

end
