(* ===== verification/Operators.thy ===== *)
theory Operators
  imports Event_Timer
begin

text \<open>
  Model of \<^verbatim>\<open>src/stream/operator/mod.rs\<close>, of the trait \<^verbatim>\<open>TimerBackend\<close> of
  \<^verbatim>\<open>src/timer/mod.rs\<close>, and of the function operators under \<^verbatim>\<open>src/stream/operator/function\<close>.
  A trait is a record of its methods; an operator works on the context the node gives it: the
  channel strategy \<open>'c\<close> (with the world of buffers and mailboxes), the timer \<open>'t\<close> and the state
  backend \<open>'b\<close>. The user-defined functions are parameters that may read and write the backend.
\<close>

section \<open>Timer backends\<close>

record ('t, 'b, 'p) timer_backend =
  tb_init :: "('t \<times> 'b, arcon_error, unit) action"
  tb_schedule_after :: "u64 \<Rightarrow> 'p \<Rightarrow> ('t \<times> 'b, arcon_error, 'p + unit) action"
  tb_schedule_at :: "u64 \<Rightarrow> 'p \<Rightarrow> ('t \<times> 'b, arcon_error, 'p + unit) action"
  tb_current_time :: "('t \<times> 'b, arcon_error, u64) action"
  tb_advance_to :: "u64 \<Rightarrow> ('t \<times> 'b, arcon_error, 'p list) action"
  tb_handle_epoch :: "epoch \<Rightarrow> ('t \<times> 'b, arcon_error, unit) action"

text \<open>\<^verbatim>\<open>timer::wheel()\<close> and \<^verbatim>\<open>timer::none()\<close>.\<close>

definition wheel_backend ::
    "'q wheel \<Rightarrow> ('b, 'p) timer_state \<Rightarrow> (nat \<Rightarrow> string) \<Rightarrow> ('q event_timer, 'b, 'p) timer_backend" where
  "wheel_backend W S uuid =
     \<lparr>tb_init = timer_init W S,
      tb_schedule_after = timer_schedule_after W S uuid,
      tb_schedule_at = timer_schedule_at W S uuid,
      tb_current_time = timer_current_time S,
      tb_advance_to = timer_advance_to W S,
      tb_handle_epoch = timer_handle_epoch\<rparr>"

definition unit_backend :: "(unit, 'b, 'p) timer_backend" where
  "unit_backend =
     \<lparr>tb_init = return_s (),
      tb_schedule_after = (\<lambda>_ _. panic_s ''The ArconNever type cannot be instantiated!''),
      tb_schedule_at = (\<lambda>_ _. panic_s ''The ArconNever type cannot be instantiated!''),
      tb_current_time = panic_s ''No point in calling this if you don't need timers anyway.'',
      tb_advance_to = (\<lambda>_. return_s []),
      tb_handle_epoch = (\<lambda>_. return_s ())\<rparr>"

section \<open>Operator context\<close>

record ('c, 't, 'b) op_ctx =
  oc_strategy :: 'c
  oc_timer :: 't
  oc_backend :: 'b

definition operator_context_new :: "'c \<Rightarrow> 'b \<Rightarrow> 't \<Rightarrow> ('c, 't, 'b) op_ctx" where
  "operator_context_new c b t = \<lparr>oc_strategy = c, oc_timer = t, oc_backend = b\<rparr>"

text \<open>\<open>add\<close> is \<^verbatim>\<open>ChannelStrategy::add\<close>, on whatever state the strategy has.\<close>

type_synonym ('c, 'o) add_event = "'o arcon_event \<Rightarrow> ('c, arcon_error, unit) action"

definition ctx_output ::
    "('c, 'o) add_event \<Rightarrow> 'o arcon_event \<Rightarrow> (('c, 't, 'b) op_ctx, arcon_error, unit) action" where
  "ctx_output add event c =
     (case add event (oc_strategy c) of (r, s) \<Rightarrow> (r, c\<lparr>oc_strategy := s\<rparr>))"

definition ctx_timer ::
    "('t \<times> 'b, arcon_error, 'a) action \<Rightarrow> (('c, 't, 'b) op_ctx, arcon_error, 'a) action" where
  "ctx_timer m c =
     (case m (oc_timer c, oc_backend c) of (r, (t, b)) \<Rightarrow> (r, c\<lparr>oc_timer := t, oc_backend := b\<rparr>))"

definition ctx_session :: "('b, arcon_error, 'a) action \<Rightarrow> (('c, 't, 'b) op_ctx, arcon_error, 'a) action" where
  "ctx_session m c = (case m (oc_backend c) of (r, b) \<Rightarrow> (r, c\<lparr>oc_backend := b\<rparr>))"

definition ctx_current_time :: "('t, 'b, 'p) timer_backend \<Rightarrow> (('c, 't, 'b) op_ctx, arcon_error, u64) action" where
  "ctx_current_time T = ctx_timer (tb_current_time T)"

definition ctx_schedule_after ::
    "('t, 'b, 'p) timer_backend \<Rightarrow> u64 \<Rightarrow> 'p \<Rightarrow> (('c, 't, 'b) op_ctx, arcon_error, 'p + unit) action" where
  "ctx_schedule_after T delay entry = ctx_timer (tb_schedule_after T delay entry)"

definition ctx_schedule_at ::
    "('t, 'b, 'p) timer_backend \<Rightarrow> u64 \<Rightarrow> 'p \<Rightarrow> (('c, 't, 'b) op_ctx, arcon_error, 'p + unit) action" where
  "ctx_schedule_at T time entry = ctx_timer (tb_schedule_at T time entry)"

section \<open>Operators\<close>

record ('c, 't, 'b, 'i, 'p) operator =
  op_init :: "('b, arcon_error, unit) action"
  op_handle_element :: "'i arcon_element \<Rightarrow> (('c, 't, 'b) op_ctx, arcon_error, unit) action"
  op_handle_watermark :: "watermark \<Rightarrow> (('c, 't, 'b) op_ctx, arcon_error, unit) action"
  op_handle_epoch :: "epoch \<Rightarrow> (('c, 't, 'b) op_ctx, arcon_error, unit) action"
  op_handle_timeout :: "'p \<Rightarrow> (('c, 't, 'b) op_ctx, arcon_error, unit) action"

text \<open>The macros \<^verbatim>\<open>ignore_watermark!\<close>, \<^verbatim>\<open>ignore_epoch!\<close> and \<^verbatim>\<open>ignore_timeout!\<close>.\<close>

definition ignore :: "'x \<Rightarrow> (('c, 't, 'b) op_ctx, arcon_error, unit) action" where
  "ignore x = return_s ()"

text \<open>An operator that only handles elements, and needs no initialisation.\<close>

definition element_operator ::
    "('i arcon_element \<Rightarrow> (('c, 't, 'b) op_ctx, arcon_error, unit) action) \<Rightarrow> ('c, 't, 'b, 'i, 'p) operator" where
  "element_operator h =
     \<lparr>op_init = return_s (), op_handle_element = h, op_handle_watermark = ignore,
      op_handle_epoch = ignore, op_handle_timeout = ignore\<rparr>"

definition filter_element ::
    "('c, 'i) add_event \<Rightarrow> ('i \<Rightarrow> ('b, arcon_error, bool) action) \<Rightarrow> 'i arcon_element
      \<Rightarrow> (('c, 't, 'b) op_ctx, arcon_error, unit) action" where
  "filter_element add udf element =
     bind_s (ctx_session (udf (data element))) (\<lambda>keep.
       if keep then ctx_output add (ElementEv element) else return_s ())"

definition map_element ::
    "('c, 'o) add_event \<Rightarrow> ('i \<Rightarrow> ('b, arcon_error, 'o) action) \<Rightarrow> 'i arcon_element
      \<Rightarrow> (('c, 't, 'b) op_ctx, arcon_error, unit) action" where
  "map_element add udf element =
     bind_s (ctx_session (udf (data element))) (\<lambda>result.
     ctx_output add (ElementEv \<lparr>data = result, timestamp = timestamp element\<rparr>))"

text \<open>The in-place function returns the value it leaves behind the mutable reference.\<close>

definition map_in_place_element ::
    "('c, 'i) add_event \<Rightarrow> ('i \<Rightarrow> ('b, arcon_error, 'i) action) \<Rightarrow> 'i arcon_element
      \<Rightarrow> (('c, 't, 'b) op_ctx, arcon_error, unit) action" where
  "map_in_place_element add udf element =
     bind_s (ctx_session (udf (data element))) (\<lambda>d.
     ctx_output add (ElementEv (element\<lparr>data := d\<rparr>)))"

fun output_all ::
    "('c, 'o) add_event \<Rightarrow> u64 option \<Rightarrow> 'o list \<Rightarrow> (('c, 't, 'b) op_ctx, arcon_error, unit) action" where
  "output_all add ts [] = return_s ()"
| "output_all add ts (item # items) =
     bind_s (ctx_output add (ElementEv \<lparr>data = item, timestamp = ts\<rparr>)) (\<lambda>_. output_all add ts items)"

definition flat_map_element ::
    "('c, 'o) add_event \<Rightarrow> ('i \<Rightarrow> ('b, arcon_error, 'o list) action) \<Rightarrow> 'i arcon_element
      \<Rightarrow> (('c, 't, 'b) op_ctx, arcon_error, unit) action" where
  "flat_map_element add udf element =
     bind_s (ctx_session (udf (data element))) (\<lambda>result.
     output_all add (timestamp element) result)"

text \<open>\<^verbatim>\<open>Filter::new\<close>, \<^verbatim>\<open>Map::new\<close>, \<^verbatim>\<open>MapInPlace::new\<close> and \<^verbatim>\<open>FlatMap::new\<close>: functions without state.\<close>

definition stateless :: "('i \<Rightarrow> 'o) \<Rightarrow> 'i \<Rightarrow> ('b, arcon_error, 'o) action" where
  "stateless udf i = return_s (udf i)"

definition filter_new :: "('c, 'i) add_event \<Rightarrow> ('i \<Rightarrow> bool) \<Rightarrow> ('c, 't, 'b, 'i, 'p) operator" where
  "filter_new add udf = element_operator (filter_element add (stateless udf))"

definition map_new :: "('c, 'o) add_event \<Rightarrow> ('i \<Rightarrow> 'o) \<Rightarrow> ('c, 't, 'b, 'i, 'p) operator" where
  "map_new add udf = element_operator (map_element add (stateless udf))"

definition map_in_place_new :: "('c, 'i) add_event \<Rightarrow> ('i \<Rightarrow> 'i) \<Rightarrow> ('c, 't, 'b, 'i, 'p) operator" where
  "map_in_place_new add udf = element_operator (map_in_place_element add (stateless udf))"

definition flat_map_new :: "('c, 'o) add_event \<Rightarrow> ('i \<Rightarrow> 'o list) \<Rightarrow> ('c, 't, 'b, 'i, 'p) operator" where
  "flat_map_new add udf = element_operator (flat_map_element add (stateless udf))"

definition filter_stateful ::
    "('c, 'i) add_event \<Rightarrow> ('i \<Rightarrow> ('b, arcon_error, bool) action) \<Rightarrow> ('c, 't, 'b, 'i, 'p) operator" where
  "filter_stateful add udf = element_operator (filter_element add udf)"

definition map_stateful ::
    "('c, 'o) add_event \<Rightarrow> ('i \<Rightarrow> ('b, arcon_error, 'o) action) \<Rightarrow> ('c, 't, 'b, 'i, 'p) operator" where
  "map_stateful add udf = element_operator (map_element add udf)"

definition map_in_place_stateful ::
    "('c, 'i) add_event \<Rightarrow> ('i \<Rightarrow> ('b, arcon_error, 'i) action) \<Rightarrow> ('c, 't, 'b, 'i, 'p) operator" where
  "map_in_place_stateful add udf = element_operator (map_in_place_element add udf)"

definition flat_map_stateful ::
    "('c, 'o) add_event \<Rightarrow> ('i \<Rightarrow> ('b, arcon_error, 'o list) action) \<Rightarrow> ('c, 't, 'b, 'i, 'p) operator" where
  "flat_map_stateful add udf = element_operator (flat_map_element add udf)"

section \<open>Properties\<close>

lemma bind_s_return [simp]: "bind_s m return_s s = m s"
  by (simp add: bind_s_def split: prod.split outcome.split)

lemma bind_s_unit [simp]: "bind_s m (\<lambda>_ :: unit. return_s ()) s = m s"
  by (simp add: bind_s_def split: prod.split outcome.split)

lemma bind_s_cases:
  "m s = (r, s') \<Longrightarrow> bind_s m f s = (case r of Ok a \<Rightarrow> f a s' | Err e \<Rightarrow> (Err e, s') | Panic p \<Rightarrow> (Panic p, s')
    | NoFuel \<Rightarrow> (NoFuel, s'))"
  by (simp add: bind_s_def split: outcome.split)

text \<open>\<^verbatim>\<open>Map\<close>, \<^verbatim>\<open>MapInPlace\<close> and \<^verbatim>\<open>Filter\<close> are \<^verbatim>\<open>FlatMap\<close> with one output, the updated element,
  and one output or none: on every context they run the same function once on the backend, emit
  the same events with the timestamp of the input, and fail in the same way.\<close>

theorem functions_as_flat_map:
  fixes add :: "('c, 'o) add_event" and c :: "('c, 't, 'b) op_ctx"
    and add' :: "('c, 'i) add_event"
  shows "map_element add f e c = flat_map_element add (\<lambda>i. bind_s (f i) (\<lambda>x. return_s [x])) e c \<and>
    map_in_place_element add' g e c = flat_map_element add' (\<lambda>i. bind_s (g i) (\<lambda>x. return_s [x])) e c \<and>
    filter_element add' p e c
      = flat_map_element add' (\<lambda>i. bind_s (p i) (\<lambda>keep. return_s (if keep then [i] else []))) e c"
proof (intro conjI)
  have elem: "e\<lparr>data := x\<rparr> = \<lparr>data = x, timestamp = timestamp e\<rparr>" for x :: 'i by simp
  have same: "ElementEv e = ElementEv \<lparr>data = data e, timestamp = timestamp e\<rparr>" by simp
  show "map_element add f e c = flat_map_element add (\<lambda>i. bind_s (f i) (\<lambda>x. return_s [x])) e c"
    by (cases "f (data e) (oc_backend c)"; cases "fst (f (data e) (oc_backend c))")
      (simp_all add: map_element_def flat_map_element_def bind_s_cases ctx_session_def)
  show "map_in_place_element add' g e c = flat_map_element add' (\<lambda>i. bind_s (g i) (\<lambda>x. return_s [x])) e c"
    by (cases "g (data e) (oc_backend c)"; cases "fst (g (data e) (oc_backend c))")
      (simp_all add: map_in_place_element_def flat_map_element_def bind_s_cases ctx_session_def elem)
  show "filter_element add' p e c
      = flat_map_element add' (\<lambda>i. bind_s (p i) (\<lambda>keep. return_s (if keep then [i] else []))) e c"
    unfolding filter_element_def flat_map_element_def
    by (subst same, cases "p (data e) (oc_backend c)"; cases "fst (p (data e) (oc_backend c))")
      (simp_all add: bind_s_cases ctx_session_def)
qed

end
