(* ===== verification/Metrics.thy ===== *)
theory Metrics
  imports Arcon_Prelude Complex_Main
begin

text \<open>
  Model of \<^verbatim>\<open>src/metrics\<close>: counters, gauges, exponentially weighted moving averages, throughput meters and
  histograms. The arithmetic of \<^verbatim>\<open>f64\<close> is a parameter \<open>'f float_ops\<close>, one item per operation that the source uses.
  The laws of counting and of time hold for any arithmetic, those of percentiles for any in which whole numbers up to
  2 to the 53 are exact (\<open>counting_floats\<close>), as they are in \<^verbatim>\<open>f64\<close>. One instance, \<open>ideal_ops\<close>, computes with real numbers
  and \<open>None\<close> for what is not a number; it does not round, so that what is shown for it alone (how far a percentile is
  from a value, that an average overshoots) is about the formulas of the code and not about \<^verbatim>\<open>f64\<close>. The time that the
  system clock shows is an argument.
\<close>

section \<open>Model\<close>

subsection \<open>Floating point\<close>

text \<open>\<open>fl_lit\<close> is a literal, \<open>fl_of_int\<close> the cast from an integer, \<open>fl_as_u16\<close> and \<open>fl_round_usize\<close> the saturating casts
  (the second after rounding).\<close>

record 'f float_ops =
  fl_lit :: "rat \<Rightarrow> 'f"
  fl_of_int :: "int \<Rightarrow> 'f"
  fl_nan :: 'f
  fl_add :: "'f \<Rightarrow> 'f \<Rightarrow> 'f"
  fl_sub :: "'f \<Rightarrow> 'f \<Rightarrow> 'f"
  fl_mul :: "'f \<Rightarrow> 'f \<Rightarrow> 'f"
  fl_div :: "'f \<Rightarrow> 'f \<Rightarrow> 'f"
  fl_mul_add :: "'f \<Rightarrow> 'f \<Rightarrow> 'f \<Rightarrow> 'f"
  fl_abs :: "'f \<Rightarrow> 'f"
  fl_ln :: "'f \<Rightarrow> 'f"
  fl_exp :: "'f \<Rightarrow> 'f"
  fl_le :: "'f \<Rightarrow> 'f \<Rightarrow> bool"
  fl_eq :: "'f \<Rightarrow> 'f \<Rightarrow> bool"
  fl_as_u16 :: "'f \<Rightarrow> u16"
  fl_round_usize :: "'f \<Rightarrow> usize"

subsection \<open>Counters and gauges\<close>

datatype counter = Counter (ctr_counter: u128)

definition counter_new :: counter where
  "counter_new = Counter 0"

definition counter_inc_n :: "usize \<Rightarrow> (counter, 'e, unit) action" where
  "counter_inc_n n = bind_s (query (\<lambda>c. add_u (ctr_counter c) (ucast n))) (\<lambda>v c. (Ok (), Counter v))"

definition counter_inc :: "(counter, 'e, unit) action" where
  "counter_inc = counter_inc_n 1"

datatype gauge = Gauge (ga_value: u128)

definition gauge_new :: gauge where
  "gauge_new = Gauge 0"

definition gauge_inc_n :: "usize \<Rightarrow> (gauge, 'e, unit) action" where
  "gauge_inc_n n = bind_s (query (\<lambda>g. add_u (ga_value g) (ucast n))) (\<lambda>v g. (Ok (), Gauge v))"

definition gauge_inc :: "(gauge, 'e, unit) action" where
  "gauge_inc = gauge_inc_n 1"

definition gauge_dec_n :: "usize \<Rightarrow> (gauge, 'e, unit) action" where
  "gauge_dec_n n g = (Ok (), Gauge (if ucast n \<le> ga_value g then ga_value g - ucast n else 0))"

definition gauge_dec :: "(gauge, 'e, unit) action" where
  "gauge_dec = gauge_dec_n 1"

definition gauge_get :: "gauge \<Rightarrow> u128" where
  "gauge_get g = ga_value g"

subsection \<open>Moving averages\<close>

record 'f ewma =
  ema_initialised :: bool
  ema_rate :: 'f
  ema_uncounted :: u64
  ema_alpha :: 'f
  ema_interval :: 'f

definition ewma_new :: "'f float_ops \<Rightarrow> 'f \<Rightarrow> 'f \<Rightarrow> 'f ewma" where
  "ewma_new F alpha interval =
     \<lparr>ema_initialised = False, ema_rate = fl_lit F 0, ema_uncounted = 0, ema_alpha = alpha, ema_interval = interval\<rparr>"

text \<open>\<^verbatim>\<open>1.0 - (-INTERVAL as f64 / SECONDS_PER_MINUTE / n as f64)\<close>\<close>

definition ewma_alpha :: "'f float_ops \<Rightarrow> nat \<Rightarrow> 'f" where
  "ewma_alpha F minutes =
     fl_sub F (fl_lit F 1) (fl_div F (fl_div F (fl_of_int F (- 5)) (fl_lit F 60)) (fl_of_int F (int minutes)))"

definition one_min_ewma :: "'f float_ops \<Rightarrow> 'f ewma" where
  "one_min_ewma F = ewma_new F (ewma_alpha F 1) (fl_of_int F 5)"

definition five_min_ewma :: "'f float_ops \<Rightarrow> 'f ewma" where
  "five_min_ewma F = ewma_new F (ewma_alpha F 5) (fl_of_int F 5)"

definition fifteen_min_ewma :: "'f float_ops \<Rightarrow> 'f ewma" where
  "fifteen_min_ewma F = ewma_new F (ewma_alpha F 15) (fl_of_int F 5)"

definition ewma_update :: "u64 \<Rightarrow> ('f ewma, 'e, unit) action" where
  "ewma_update n = bind_s (query (\<lambda>e. add_u (ema_uncounted e) n)) (\<lambda>v e. (Ok (), e\<lparr>ema_uncounted := v\<rparr>))"

definition ewma_tick :: "'f float_ops \<Rightarrow> 'f ewma \<Rightarrow> 'f ewma" where
  "ewma_tick F e =
     (let count = ema_uncounted e; e = e\<lparr>ema_uncounted := 0\<rparr>;
          instant_rate = fl_div F (fl_of_int F (uint count)) (ema_interval e)
      in if ema_initialised e
         then e\<lparr>ema_rate := fl_add F (ema_rate e) (fl_mul F (ema_alpha e) (fl_sub F instant_rate (ema_rate e)))\<rparr>
         else e\<lparr>ema_rate := instant_rate, ema_initialised := True\<rparr>)"

definition ewma_get_rate :: "'f ewma \<Rightarrow> 'f" where
  "ewma_get_rate e = ema_rate e"

subsection \<open>Meters\<close>

record 'f meter =
  me_m1_rate :: "'f ewma"
  me_m5_rate :: "'f ewma"
  me_m15_rate :: "'f ewma"
  me_count :: u64
  me_start_time :: u64
  me_last_tick :: u64

type_synonym ('f, 'a) meter_action = "('f meter, arcon_error, 'a) action"

definition meter_new :: "'f float_ops \<Rightarrow> u64 \<Rightarrow> 'f meter" where
  "meter_new F start_time =
     \<lparr>me_m1_rate = one_min_ewma F, me_m5_rate = five_min_ewma F, me_m15_rate = fifteen_min_ewma F,
      me_count = 0, me_start_time = start_time, me_last_tick = start_time\<rparr>"

definition tick_interval :: u64 where
  "tick_interval = 5000000000"

definition tick_rates :: "'f float_ops \<Rightarrow> 'f meter \<Rightarrow> 'f meter" where
  "tick_rates F m =
     m\<lparr>me_m1_rate := ewma_tick F (me_m1_rate m), me_m5_rate := ewma_tick F (me_m5_rate m),
       me_m15_rate := ewma_tick F (me_m15_rate m)\<rparr>"

definition tick_if_necessary :: "'f float_ops \<Rightarrow> u64 \<Rightarrow> ('f, unit) meter_action" where
  "tick_if_necessary F new_tick =
     bind_s (query (\<lambda>m. sub_u new_tick (me_last_tick m))) (\<lambda>age.
       if tick_interval < age then
         bind_s (lift_o (sub_u new_tick (age mod tick_interval))) (\<lambda>new_interval_tick m.
           (Ok (), (tick_rates F ^^ unat (age div tick_interval)) (m\<lparr>me_last_tick := new_interval_tick\<rparr>)))
       else return_s ())"

text \<open>An action on one of the three averages.\<close>

definition on_m1 :: "('f ewma, arcon_error, unit) action \<Rightarrow> ('f, unit) meter_action" where
  "on_m1 a m = (case a (me_m1_rate m) of (r, e) \<Rightarrow> (r, m\<lparr>me_m1_rate := e\<rparr>))"

definition on_m5 :: "('f ewma, arcon_error, unit) action \<Rightarrow> ('f, unit) meter_action" where
  "on_m5 a m = (case a (me_m5_rate m) of (r, e) \<Rightarrow> (r, m\<lparr>me_m5_rate := e\<rparr>))"

definition on_m15 :: "('f ewma, arcon_error, unit) action \<Rightarrow> ('f, unit) meter_action" where
  "on_m15 a m = (case a (me_m15_rate m) of (r, e) \<Rightarrow> (r, m\<lparr>me_m15_rate := e\<rparr>))"

definition mark_n :: "'f float_ops \<Rightarrow> u64 \<Rightarrow> u64 \<Rightarrow> ('f, unit) meter_action" where
  "mark_n F now n =
     bind_s (tick_if_necessary F now) (\<lambda>_.
     bind_s (query (\<lambda>m. add_u (me_count m) n)) (\<lambda>count.
     bind_s (\<lambda>m. (Ok (), m\<lparr>me_count := count\<rparr>)) (\<lambda>_.
     bind_s (on_m1 (ewma_update n)) (\<lambda>_.
     bind_s (on_m5 (ewma_update n)) (\<lambda>_.
     on_m15 (ewma_update n))))))"

definition mark :: "'f float_ops \<Rightarrow> u64 \<Rightarrow> ('f, unit) meter_action" where
  "mark F now = mark_n F now 1"

definition meter_get_count :: "'f meter \<Rightarrow> u64" where
  "meter_get_count m = me_count m"

definition get_one_min_rate :: "'f float_ops \<Rightarrow> u64 \<Rightarrow> ('f, 'f) meter_action" where
  "get_one_min_rate F now =
     bind_s (tick_if_necessary F now) (\<lambda>_. query (\<lambda>m. Ok (ewma_get_rate (me_m1_rate m))))"

definition get_five_min_rate :: "'f float_ops \<Rightarrow> u64 \<Rightarrow> ('f, 'f) meter_action" where
  "get_five_min_rate F now =
     bind_s (tick_if_necessary F now) (\<lambda>_. query (\<lambda>m. Ok (ewma_get_rate (me_m5_rate m))))"

definition get_fifteen_min_rate :: "'f float_ops \<Rightarrow> u64 \<Rightarrow> ('f, 'f) meter_action" where
  "get_fifteen_min_rate F now =
     bind_s (tick_if_necessary F now) (\<lambda>_. query (\<lambda>m. Ok (ewma_get_rate (me_m15_rate m))))"

definition get_mean_rate :: "'f float_ops \<Rightarrow> u64 \<Rightarrow> 'f meter \<Rightarrow> (arcon_error, 'f) outcome" where
  "get_mean_rate F now m =
     (if me_count m = 0 then Ok (fl_lit F 0)
      else bind_o (sub_u now (me_start_time m)) (\<lambda>d.
        Ok (fl_div F (fl_of_int F (uint (me_count m))) (fl_mul F (fl_of_int F (uint d)) (fl_of_int F 1000000000)))))"

subsection \<open>Histograms\<close>

record histogram =
  hi_vals :: "usize list"
  hi_sum :: usize
  hi_count :: usize

definition histogram_default :: histogram where
  "histogram_default = \<lparr>hi_vals = replicate 65536 0, hi_sum = 0, hi_count = 0\<rparr>"

definition compress :: "'f float_ops \<Rightarrow> 'f \<Rightarrow> (arcon_error, u16) outcome" where
  "compress F v =
     (let boosted = fl_add F (fl_lit F 1) (fl_abs F v);
          compressed = fl_mul_add F (fl_lit F 100) (fl_ln F boosted) (fl_lit F (1 / 2))
      in if fl_le F compressed (fl_of_int F 65535) then Ok (fl_as_u16 F compressed)
         else Panic ''assertion failed: compressed <= f64::from(u16::max_value())'')"

definition decompress :: "'f float_ops \<Rightarrow> u16 \<Rightarrow> 'f" where
  "decompress F compressed =
     fl_sub F (fl_exp F (fl_div F (fl_of_int F (uint compressed)) (fl_lit F 100))) (fl_lit F 1)"

definition measure_value :: "'f float_ops \<Rightarrow> u64 \<Rightarrow> (histogram, arcon_error, unit) action" where
  "measure_value F raw_value =
     (let value_float = fl_of_int F (uint raw_value) in
      bind_s (\<lambda>h. (Ok (), h\<lparr>hi_sum := fl_round_usize F value_float\<rparr>)) (\<lambda>_.
      bind_s (query (\<lambda>h. add_u (hi_count h) 1)) (\<lambda>count.
      bind_s (\<lambda>h. (Ok (), h\<lparr>hi_count := count\<rparr>)) (\<lambda>_.
      bind_s (lift_o (compress F value_float)) (\<lambda>compressed.
      bind_s (query (\<lambda>h. if unat compressed < length (hi_vals h) then add_u (hi_vals h ! unat compressed) 1
                         else Panic ''index out of bounds'')) (\<lambda>v h.
        (Ok (), h\<lparr>hi_vals := (hi_vals h)[unat compressed := v]\<rparr>)))))))"

text \<open>The loop over the buckets from number \<open>idx\<close> on.\<close>

fun percentile_loop :: "'f float_ops \<Rightarrow> 'f \<Rightarrow> 'f \<Rightarrow> nat \<Rightarrow> usize list \<Rightarrow> 'f" where
  "percentile_loop F target s idx [] = fl_nan F"
| "percentile_loop F target s idx (v # vs) =
     (let s = fl_add F s (fl_of_int F (uint v)) in
      if fl_le F target s then decompress F (word_of_nat idx) else percentile_loop F target s (Suc idx) vs)"

text \<open>The number of values that a percentile asks for.\<close>

definition percentile_target :: "'f float_ops \<Rightarrow> 'f \<Rightarrow> usize \<Rightarrow> 'f" where
  "percentile_target F p count =
     (let target = fl_mul F (fl_of_int F (uint count)) (fl_div F p (fl_lit F 100))
      in if fl_eq F target (fl_lit F 0) then fl_lit F 1 else target)"

definition percentile :: "'f float_ops \<Rightarrow> 'f \<Rightarrow> histogram \<Rightarrow> (arcon_error, 'f) outcome" where
  "percentile F p h =
     (if \<not> fl_le F p (fl_lit F 100) then Panic ''percentiles must not exceed 100.0''
      else if hi_count h = 0 then Ok (fl_nan F)
      else Ok (percentile_loop F (percentile_target F p (hi_count h)) (fl_lit F 0) 0 (hi_vals h)))"

definition histogram_sum :: "histogram \<Rightarrow> usize" where
  "histogram_sum h = hi_sum h"

definition histogram_count :: "histogram \<Rightarrow> usize" where
  "histogram_count h = hi_count h"

section \<open>Ideal arithmetic\<close>

definition lift2 :: "('a \<Rightarrow> 'b \<Rightarrow> 'c) \<Rightarrow> 'a option \<Rightarrow> 'b option \<Rightarrow> 'c option" where
  "lift2 f x y = (case (x, y) of (Some a, Some b) \<Rightarrow> Some (f a b) | _ \<Rightarrow> None)"

lemma lift2_simps [simp]: "lift2 f (Some a) (Some b) = Some (f a b)" "lift2 f None y = None" "lift2 f x None = None"
  by (simp_all add: lift2_def split: option.split)

definition ideal_ops :: "real option float_ops" where
  "ideal_ops =
     \<lparr>fl_lit = (\<lambda>q. Some (of_rat q)), fl_of_int = (\<lambda>i. Some (of_int i)), fl_nan = None,
      fl_add = lift2 (+), fl_sub = lift2 (-), fl_mul = lift2 (*),
      fl_div = (\<lambda>x y. if y = Some 0 then None else lift2 (/) x y),
      fl_mul_add = (\<lambda>x y z. lift2 (+) (lift2 (*) x y) z),
      fl_abs = map_option abs, fl_ln = map_option ln, fl_exp = map_option exp,
      fl_le = (\<lambda>x y. lift2 (\<le>) x y = Some True), fl_eq = (\<lambda>x y. lift2 (=) x y = Some True),
      fl_as_u16 = (\<lambda>x. case x of None \<Rightarrow> 0 | Some r \<Rightarrow> word_of_nat (min 65535 (nat \<lfloor>r\<rfloor>))),
      fl_round_usize = (\<lambda>x. case x of None \<Rightarrow> 0 | Some r \<Rightarrow> word_of_nat (min (2 ^ 64 - 1) (nat (round r))))\<rparr>"

lemmas ideal_simps = ideal_ops_def float_ops.simps

section \<open>Laws of meters\<close>

text \<open>An average that has seen the counts of the intervals \<open>cs\<close>, with \<open>u\<close> events pending.\<close>

definition averaged :: "'f float_ops \<Rightarrow> nat \<Rightarrow> u64 list \<Rightarrow> u64 \<Rightarrow> 'f ewma" where
  "averaged F minutes cs u =
     (foldl (\<lambda>e c. ewma_tick F (e\<lparr>ema_uncounted := c\<rparr>)) (ewma_new F (ewma_alpha F minutes) (fl_of_int F 5)) cs)\<lparr>ema_uncounted := u\<rparr>"

definition meter_at :: "'f float_ops \<Rightarrow> u64 \<Rightarrow> u64 list \<Rightarrow> u64 \<Rightarrow> u64 \<Rightarrow> u64 \<Rightarrow> 'f meter" where
  "meter_at F start cs u count last_tick =
     \<lparr>me_m1_rate = averaged F 1 cs u, me_m5_rate = averaged F 5 cs u, me_m15_rate = averaged F 15 cs u,
      me_count = count, me_start_time = start, me_last_tick = last_tick\<rparr>"

lemma meter_at_new: "meter_new F start = meter_at F start [] 0 0 start"
  by (simp add: meter_new_def meter_at_def averaged_def one_min_ewma_def five_min_ewma_def fifteen_min_ewma_def ewma_new_def)

lemma ewma_tick_pending [simp]: "(ewma_tick F e)\<lparr>ema_uncounted := 0\<rparr> = ewma_tick F e"
  by (simp add: ewma_tick_def Let_def)

lemma averaged_tick: "ewma_tick F (averaged F minutes cs u) = averaged F minutes (cs @ [u]) 0"
  by (simp add: averaged_def)

lemma averaged_update:
  "ewma_update n (averaged F minutes cs u) =
     (case add_u u n of Ok v \<Rightarrow> (Ok (), averaged F minutes cs v) | Err e \<Rightarrow> (Err e, averaged F minutes cs u)
        | Panic p \<Rightarrow> (Panic p, averaged F minutes cs u) | NoFuel \<Rightarrow> (NoFuel, averaged F minutes cs u))"
  by (simp add: ewma_update_def bind_s_def averaged_def split: outcome.split)

lemma tick_rates_at: "tick_rates F (meter_at F start cs u count l) = meter_at F start (cs @ [u]) 0 count l"
  by (simp add: tick_rates_def meter_at_def averaged_tick)

lemma ticks_at:
  "(tick_rates F ^^ Suc k) (meter_at F start cs u count l) = meter_at F start (cs @ u # replicate k 0) 0 count l"
proof (induction k)
  case (Suc k)
  have "(tick_rates F ^^ Suc (Suc k)) (meter_at F start cs u count l) = tick_rates F ((tick_rates F ^^ Suc k) (meter_at F start cs u count l))"
    by simp
  then show ?case by (simp only: Suc.IH tick_rates_at) (simp add: replicate_append_same)
qed (simp add: tick_rates_at)

text \<open>The grid of ticks: \<open>cs\<close> intervals of five seconds have passed since the start.\<close>

definition on_grid :: "u64 \<Rightarrow> u64 list \<Rightarrow> u64 \<Rightarrow> bool" where
  "on_grid start cs l \<longleftrightarrow> unat l = unat start + 5000000000 * length cs"

lemma tick_if_necessary_at:
  assumes "on_grid start cs l" and "l \<le> now"
  shows "\<exists>cs' u' l'. tick_if_necessary F now (meter_at F start cs u count l) = (Ok (), meter_at F start (cs @ cs') u' count l') \<and>
    on_grid start (cs @ cs') l' \<and> l' \<le> now \<and> unat now - unat l' \<le> 5000000000 \<and>
    sum_list (map unat cs') + unat u' = unat u"
proof (cases "tick_interval < now - l")
  case False
  then have "unat now - unat l \<le> 5000000000"
    using assms(2) by (simp add: tick_interval_def word_less_nat_alt unat_sub_if' word_le_nat_alt)
  then show ?thesis
    using assms False by (intro exI [of _ "[]"] exI [of _ u] exI [of _ l])
      (simp add: tick_if_necessary_def bind_s_def sub_u_def meter_at_def)
next
  case True
  define age where "age = now - l"
  define l' where "l' = now - age mod tick_interval"
  have age: "unat age = unat now - unat l" using assms(2) by (simp add: age_def unat_sub)
  have ti: "unat tick_interval = 5000000000" by (simp add: tick_interval_def)
  have "age mod tick_interval \<le> age" by (simp add: word_le_nat_alt unat_mod mod_less_eq_dividend)
  also have "age \<le> now" using assms(2) by (simp add: word_le_nat_alt age)
  finally have le: "age mod tick_interval \<le> now" .
  then have l': "unat l' = unat now - unat age mod 5000000000" by (simp add: l'_def unat_sub unat_mod ti)
  have "unat tick_interval < unat age" using True by (simp add: age_def word_less_nat_alt)
  then have "5000000000 < unat age" by (simp add: ti)
  then have pos: "0 < unat age div 5000000000" by (simp add: div_greater_zero_iff)
  then obtain k where k: "unat age div 5000000000 = Suc k" by (cases "unat age div 5000000000") auto
  have split: "unat age = 5000000000 * Suc k + unat age mod 5000000000"
    using k by (metis mult_div_mod_eq)
  have grid: "unat l' = unat l + 5000000000 * Suc k"
    using assms(2) split by (simp add: l' age word_le_nat_alt)
  have "unat now - unat l' \<le> 5000000000"
    using le_trans [OF _ less_imp_le [OF mod_less_divisor [of 5000000000 "unat age"]]] l'
    by (simp add: l') 
  moreover have "tick_if_necessary F now (meter_at F start cs u count l)
      = (Ok (), meter_at F start (cs @ u # replicate k 0) 0 count l')"
  proof -
    have "tick_if_necessary F now (meter_at F start cs u count l)
      = (Ok (), (tick_rates F ^^ unat (age div tick_interval)) ((meter_at F start cs u count l)\<lparr>me_last_tick := l'\<rparr>))"
      using True assms(2) le by (simp add: tick_if_necessary_def bind_s_def sub_u_def meter_at_def flip: age_def l'_def)
    also have "unat (age div tick_interval) = Suc k" using k by (simp add: unat_div ti)
    also have "(meter_at F start cs u count l)\<lparr>me_last_tick := l'\<rparr> = meter_at F start cs u count l'" by (simp add: meter_at_def)
    finally show ?thesis by (simp only: ticks_at)
  qed
  moreover have "on_grid start (cs @ u # replicate k 0) l'" using assms(1) grid by (simp add: on_grid_def)
  moreover have "l' \<le> now" by (simp add: word_le_nat_alt l')
  moreover have "sum_list (map unat (u # replicate k 0)) + unat (0 :: u64) = unat u" by (simp add: sum_list_replicate)
  ultimately show ?thesis by blast
qed

lemma mark_n_at:
  assumes "on_grid start cs l" and "l \<le> now" and "sum_list (map unat cs) + unat u = unat count" and "unat count + unat n < 2 ^ 64"
  shows "\<exists>cs' u' l'. mark_n F now n (meter_at F start cs u count l) = (Ok (), meter_at F start cs' u' (count + n) l') \<and>
    on_grid start cs' l' \<and> l' \<le> now \<and> unat now - unat l' \<le> 5000000000 \<and>
    sum_list (map unat cs') + unat u' = unat (count + n)"
proof -
  obtain cs1 u1 l' where
    t: "tick_if_necessary F now (meter_at F start cs u count l) = (Ok (), meter_at F start (cs @ cs1) u1 count l')"
      "on_grid start (cs @ cs1) l'" "l' \<le> now" "unat now - unat l' \<le> 5000000000" "sum_list (map unat cs1) + unat u1 = unat u"
    using tick_if_necessary_at [OF assms(1,2)] by blast
  have "unat u1 + unat n < 2 ^ 64" using t(5) assms(3,4) by simp
  then have a: "add_u u1 n = (Ok (u1 + n) :: (arcon_error, u64) outcome)" "unat (u1 + n) = unat u1 + unat n"
    by (simp_all add: add_u_def unat_add_no_overflow)
  have c: "add_u count n = (Ok (count + n) :: (arcon_error, u64) outcome)" "unat (count + n) = unat count + unat n"
    using assms(4) by (simp_all add: add_u_def unat_add_no_overflow)
  have "mark_n F now n (meter_at F start cs u count l) = (Ok (), meter_at F start (cs @ cs1) (u1 + n) (count + n) l')"
    using t(1) c(1) a(1)
    by (simp add: mark_n_def bind_s_def on_m1_def on_m5_def on_m15_def meter_at_def averaged_update)
  then show ?thesis using t c(2) a(2) assms(3) by (intro exI conjI) (assumption | simp)+
qed

text \<open>Marking returns or panics (when the clock went back or a count overflows), nothing else.\<close>

lemma mark_n_outcome: "mark_n F now n m = (Ok (), snd (mark_n F now n m)) \<or> (\<exists>p. mark_n F now n m = (Panic p, snd (mark_n F now n m)))"
proof -
  have "mark_n F now n m = (r, t) \<Longrightarrow> r = Ok () \<or> (\<exists>p. r = Panic p)" for r t
    by (auto simp: mark_n_def tick_if_necessary_def ewma_update_def on_m1_def on_m5_def on_m15_def bind_s_def query_def
        return_s_def add_u_def sub_u_def split: if_splits)
  then show ?thesis by (metis prod.collapse)
qed

text \<open>A run of marks, each with the time of the clock.\<close>

fun mark_all :: "'f float_ops \<Rightarrow> (u64 \<times> u64) list \<Rightarrow> ('f, unit) meter_action" where
  "mark_all F [] = return_s ()"
| "mark_all F ((now, n) # ms) = bind_s (mark_n F now n) (\<lambda>_. mark_all F ms)"

lemma mark_all_at:
  assumes "on_grid start cs l" and "sum_list (map unat cs) + unat u = unat count" and "sorted (l # map fst ms)"
    and "unat count + sum_list (map (unat \<circ> snd) ms) < 2 ^ 64"
  shows "\<exists>cs' u' count' l'. mark_all F ms (meter_at F start cs u count l) = (Ok (), meter_at F start cs' u' count' l') \<and>
    on_grid start cs' l' \<and> unat count' = unat count + sum_list (map (unat \<circ> snd) ms) \<and>
    sum_list (map unat cs') + unat u' = unat count' \<and>
    (ms \<noteq> [] \<longrightarrow> l' \<le> fst (last ms) \<and> unat (fst (last ms)) - unat l' \<le> 5000000000)"
  using assms
proof (induction ms arbitrary: cs u count l)
  case Nil
  then show ?case by auto
next
  case (Cons p ms)
  obtain now n where p: "p = (now, n)" by force
  have "l \<le> now" and "unat count + unat n < 2 ^ 64" using Cons.prems(3,4) by (simp_all add: p)
  from mark_n_at [OF Cons.prems(1) this(1) Cons.prems(2) this(2)] obtain cs1 u1 l1 where
    1: "mark_n F now n (meter_at F start cs u count l) = (Ok (), meter_at F start cs1 u1 (count + n) l1)"
      "on_grid start cs1 l1" "l1 \<le> now" "unat now - unat l1 \<le> 5000000000" "sum_list (map unat cs1) + unat u1 = unat (count + n)"
    by blast
  have c: "unat (count + n) = unat count + unat n" using \<open>unat count + unat n < 2 ^ 64\<close> by (simp add: unat_add_no_overflow)
  have "sorted (l1 # map fst ms)" using Cons.prems(3) 1(3) by (auto simp: p)
  moreover have "unat (count + n) + sum_list (map (unat \<circ> snd) ms) < 2 ^ 64" using Cons.prems(4) by (simp add: c p o_def)
  ultimately obtain cs' u' count' l' where
    2: "mark_all F ms (meter_at F start cs1 u1 (count + n) l1) = (Ok (), meter_at F start cs' u' count' l')"
      "on_grid start cs' l'" "unat count' = unat (count + n) + sum_list (map (unat \<circ> snd) ms)"
      "sum_list (map unat cs') + unat u' = unat count'"
      "ms \<noteq> [] \<longrightarrow> l' \<le> fst (last ms) \<and> unat (fst (last ms)) - unat l' \<le> 5000000000"
    using Cons.IH [OF 1(2,5)] by blast
  have "ms = [] \<Longrightarrow> l' = l1" using 2(1) by (simp add: meter_at_def)
  then have "l' \<le> fst (last (p # ms)) \<and> unat (fst (last (p # ms))) - unat l' \<le> 5000000000"
    using 1(3,4) 2(5) by (cases "ms = []") (simp_all add: p)
  moreover have "mark_all F (p # ms) (meter_at F start cs u count l) = (Ok (), meter_at F start cs' u' count' l')"
    using 1(1) 2(1) by (simp add: p bind_s_def)
  moreover have "unat count' = unat count + sum_list (map (unat \<circ> snd) (p # ms))" using 2(3) c by (simp add: p)
  ultimately show ?case using 2(2,4) by blast
qed

text \<open>With ideal arithmetic, an average moves past the rate of the latest interval, away from what it was before.\<close>

lemma ewma_overshoots:
  assumes "ema_alpha e = ewma_alpha ideal_ops minutes" and "0 < minutes" and "ema_interval e = Some 5"
    and "ema_initialised e" and "ema_rate e = Some r"
  shows "ema_rate (ewma_tick ideal_ops e) =
    Some (uint (ema_uncounted e) / 5 + (uint (ema_uncounted e) / 5 - r) / (12 * minutes))"
  using assms by (simp add: ewma_tick_def ewma_alpha_def ideal_simps Let_def field_simps)

section \<open>Properties of meters\<close>

text \<open>C15: A meter counts every event once. However its clock advances, as long as it does not go back and the number of events
  fits, marking never fails; the three averages have been given the same counts, one for each interval of
  five seconds since the start up to the last tick, which is at most one interval behind the clock; and
  these counts together with the pending events are all events that were marked.\<close>

theorem meter_counts_all:
  assumes "sorted (start # map fst ms)" and "sum_list (map (unat \<circ> snd) ms) < 2 ^ 64"
  shows "\<exists>m cs u. mark_all F ms (meter_new F start) = (Ok (), m) \<and>
    me_m1_rate m = averaged F 1 cs u \<and> me_m5_rate m = averaged F 5 cs u \<and> me_m15_rate m = averaged F 15 cs u \<and>
    unat (me_last_tick m) = unat start + 5000000000 * length cs \<and>
    unat (meter_get_count m) = sum_list (map (unat \<circ> snd) ms) \<and>
    sum_list (map unat cs) + unat u = sum_list (map (unat \<circ> snd) ms) \<and>
    (ms \<noteq> [] \<longrightarrow> me_last_tick m \<le> fst (last ms) \<and> unat (fst (last ms)) - unat (me_last_tick m) \<le> 5000000000)"
proof -
  have "on_grid start [] start" by (simp add: on_grid_def)
  from mark_all_at [OF this, of 0 0 ms F] assms show ?thesis
    by (fastforce simp: meter_at_new meter_at_def on_grid_def meter_get_count_def)
qed

theorem meter_counts_all_witness:
  "\<exists>m cs u. mark_all ideal_ops [(1000, 3), (12000000000, 4)] (meter_new ideal_ops 1000) = (Ok (), m) \<and>
    me_m1_rate m = averaged ideal_ops 1 cs u \<and> unat (meter_get_count m) = 7 \<and> unat (me_last_tick m) = 1000 + 5000000000 * length cs \<and>
    sum_list (map unat cs) + unat u = 7"
  using meter_counts_all [of 1000 "[(1000, 3), (12000000000, 4)]" ideal_ops] by (auto simp: unat_numeral)

section \<open>Laws of histograms\<close>

declare of_nat_unat [simp del] of_int_uint [simp del]

lemma real_uint [simp]: "real_of_int (uint x) = real (unat x)"
  by (simp add: of_nat_unat of_int_uint)

subsection \<open>Counting in floating point\<close>

text \<open>What IEEE 754 says of \<^verbatim>\<open>f64\<close> that a histogram needs: whole numbers up to 2 to the 53 are exact, so are their
  sums, and the order respects them.\<close>

locale counting_floats =
  fixes F :: "'f float_ops"
  assumes zero: "fl_lit F 0 = fl_of_int F 0"
    and add: "m + n \<le> 2 ^ 53 \<Longrightarrow> fl_add F (fl_of_int F (int m)) (fl_of_int F (int n)) = fl_of_int F (int (m + n))"
    and mono: "fl_le F t (fl_of_int F (int m)) \<Longrightarrow> m \<le> n \<Longrightarrow> n \<le> 2 ^ 53 \<Longrightarrow> fl_le F t (fl_of_int F (int n))"

text \<open>Sorting commutes with a monotone function.\<close>

lemma insort_map_mono:
  fixes f :: "'a::linorder \<Rightarrow> 'b::linorder"
  assumes mono: "\<And>x y. x \<le> y \<Longrightarrow> f x \<le> f y" and "sorted ys"
  shows "map f (insort x ys) = insort (f x) (map f ys)"
  using assms(2)
proof (induction ys)
  case (Cons y ys)
  show ?case
  proof (cases "x \<le> y \<or> \<not> f x \<le> f y")
    case True
    then show ?thesis using Cons mono [of x y] by auto
  next
    case False
    then have eq: "f x = f y" using mono [of y x] by (intro antisym) auto
    have "insort (f x) (map f ys) = f x # map f ys"
      using Cons.prems mono by (intro insort_is_Cons) (auto simp: eq)
    then show ?thesis using False Cons eq by simp
  qed
qed simp

lemma sort_map_mono:
  fixes f :: "'a::linorder \<Rightarrow> 'b::linorder"
  assumes "\<And>x y. x \<le> y \<Longrightarrow> f x \<le> f y"
  shows "sort (map f xs) = map f (sort xs)"
  by (induction xs) (simp_all add: insort_map_mono [OF assms])

text \<open>The histogram of values that fall into the buckets \<open>bs\<close>.\<close>

definition histogram_of :: "nat list \<Rightarrow> histogram \<Rightarrow> bool" where
  "histogram_of bs h \<longleftrightarrow> length (hi_vals h) = 65536 \<and> unat (hi_count h) = length bs \<and>
     (\<forall>i < 65536. unat (hi_vals h ! i) = length (filter (\<lambda>b. b = i) bs))"

fun measure_all :: "'f float_ops \<Rightarrow> u64 list \<Rightarrow> (histogram, arcon_error, unit) action" where
  "measure_all F [] = return_s ()"
| "measure_all F (x # xs) = bind_s (measure_value F x) (\<lambda>_. measure_all F xs)"

lemma measure_value_of:
  assumes h: "histogram_of bs h" and len: "Suc (length bs) < 2 ^ 64"
    and c: "compress F (fl_of_int F (uint x)) = Ok c"
  shows "\<exists>h'. measure_value F x h = (Ok (), h') \<and> histogram_of (bs @ [unat c]) h'"
proof -
  let ?s = "fl_round_usize F (fl_of_int F (uint x))"
  have b: "unat c < 65536" using unsigned_less [of c] by simp
  have "unat (hi_vals h ! unat c) \<le> length bs" using h b by (simp add: histogram_of_def)
  then have v: "add_u (hi_vals h ! unat c) 1 = (Ok (hi_vals h ! unat c + 1) :: (arcon_error, usize) outcome)"
      "unat (hi_vals h ! unat c + 1) = unat (hi_vals h ! unat c) + 1"
    using len by (simp_all add: add_u_def unat_add_no_overflow)
  have n: "add_u (hi_count h) 1 = (Ok (hi_count h + 1) :: (arcon_error, usize) outcome)" "unat (hi_count h + 1) = length bs + 1"
    using h len by (simp_all add: histogram_of_def add_u_def unat_add_no_overflow)
  let ?h = "h\<lparr>hi_sum := ?s, hi_count := hi_count h + 1, hi_vals := (hi_vals h)[unat c := hi_vals h ! unat c + 1]\<rparr>"
  have "measure_value F x h = (Ok (), ?h)"
    using h v(1) n(1) b c by (simp add: measure_value_def bind_s_def Let_def histogram_of_def)
  moreover have "histogram_of (bs @ [unat c]) ?h"
    using h v(2) n(2) b by (auto simp: histogram_of_def nth_list_update)
  ultimately show ?thesis by blast
qed

lemma measure_all_of:
  assumes "histogram_of bs h" and "length bs + length xs < 2 ^ 64"
    and "\<forall>x \<in> set xs. compress F (fl_of_int F (uint x)) = Ok (c x)"
  shows "\<exists>h'. measure_all F xs h = (Ok (), h') \<and> histogram_of (bs @ map (\<lambda>x. unat (c x)) xs) h'"
  using assms
proof (induction xs arbitrary: bs h)
  case (Cons x xs)
  from Cons.prems have "Suc (length bs) < 2 ^ 64" "compress F (fl_of_int F (uint x)) = Ok (c x)" by simp_all
  from measure_value_of [OF Cons.prems(1) this] obtain h1 where
    1: "measure_value F x h = (Ok (), h1)" "histogram_of (bs @ [unat (c x)]) h1" by blast
  from Cons.IH [OF 1(2)] Cons.prems(2,3) 1(1) show ?case by (simp add: bind_s_def)
qed simp

lemma histogram_default_of: "histogram_of [] histogram_default"
  by (simp add: histogram_of_def histogram_default_def)

lemma cumulated:
  assumes "histogram_of bs h" and "j < 65536"
  shows "(\<Sum>i\<le>j. unat (hi_vals h ! i)) = length (filter (\<lambda>b. b \<le> j) bs)"
  using assms(2)
proof (induction j)
  case 0
  then show ?case using assms(1) by (simp add: histogram_of_def)
next
  case (Suc j)
  have "length (filter (\<lambda>b. b \<le> Suc j) ys) = length (filter (\<lambda>b. b \<le> j) ys) + length (filter (\<lambda>b. b = Suc j) ys)" for ys
    by (induction ys) auto
  then show ?case using Suc assms(1) by (simp add: histogram_of_def)
qed

text \<open>The buckets up to \<open>j\<close> hold more than \<open>k\<close> values exactly when the value at position \<open>k\<close> is in one of them.\<close>

lemma rank_reached:
  fixes ys :: "nat list"
  assumes "sorted ys" and "k < length ys"
  shows "Suc k \<le> length (filter (\<lambda>y. y \<le> j) ys) \<longleftrightarrow> ys ! k \<le> j"
proof
  let ?I = "{i. i < length ys \<and> ys ! i \<le> j}"
  have mono: "ys ! i \<le> ys ! l" if "i \<le> l" "l < length ys" for i l
    using sorted_nth_mono [OF assms(1) that] .
  have card: "length (filter (\<lambda>y. y \<le> j) ys) = card ?I" by (rule length_filter_conv_card)
  show "ys ! k \<le> j" if "Suc k \<le> length (filter (\<lambda>y. y \<le> j) ys)"
  proof (rule ccontr)
    assume "\<not> ys ! k \<le> j"
    then have "?I \<subseteq> {..<k}" using mono by (fastforce simp: not_le)
    then have "card ?I \<le> k" using card_mono [of "{..<k}" ?I] by simp
    then show False using that card by simp
  qed
  assume "ys ! k \<le> j"
  then have "ys ! i \<le> j" if "i \<le> k" for i using mono [OF that assms(2)] by (rule order_trans [rotated])
  then have "{..k} \<subseteq> ?I" using assms(2) by auto
  then have "card {..k} \<le> card ?I" by (intro card_mono) simp_all
  then show "Suc k \<le> length (filter (\<lambda>y. y \<le> j) ys)" using card by simp
qed

context counting_floats
begin

text \<open>The loop stops at the first bucket at which the cumulated count reaches the target.\<close>

lemma percentile_loop_first:
  assumes "j < length vs" and "s + (\<Sum>i\<le>j. unat (vs ! i)) \<le> 2 ^ 53"
    and "fl_le F t (fl_of_int F (int (s + (\<Sum>i\<le>j. unat (vs ! i)))))"
    and "\<And>i. i < j \<Longrightarrow> \<not> fl_le F t (fl_of_int F (int (s + (\<Sum>l\<le>i. unat (vs ! l)))))"
  shows "percentile_loop F t (fl_of_int F (int s)) idx vs = decompress F (word_of_nat (idx + j))"
  using assms
proof (induction vs arbitrary: j s idx)
  case (Cons v vs)
  have "s + unat v \<le> s + (\<Sum>i\<le>j. unat ((v # vs) ! i))"
    using member_le_sum [of 0 "{..j}" "\<lambda>i. unat ((v # vs) ! i)"] by simp
  then have "s + unat v \<le> 2 ^ 53" using Cons.prems(2) by (rule order_trans)
  then have next_sum: "fl_add F (fl_of_int F (int s)) (fl_of_int F (uint v)) = fl_of_int F (int (s + unat v))"
    using add [of s "unat v"] by (simp add: uint_nat)
  show ?case
  proof (cases j)
    case 0
    then show ?thesis using Cons.prems by (simp add: next_sum Let_def del: of_nat_add)
  next
    case (Suc j')
    have sums: "s + unat v + (\<Sum>i\<le>l. unat (vs ! i)) = s + (\<Sum>i\<le>Suc l. unat ((v # vs) ! i))" for l
      by (simp add: sum.atMost_Suc_shift del: sum.atMost_Suc)
    have "\<not> fl_le F t (fl_of_int F (int (s + unat v)))" using Cons.prems(4) [of 0] Suc by simp
    moreover have "percentile_loop F t (fl_of_int F (int (s + unat v))) (Suc idx) vs = decompress F (word_of_nat (Suc idx + j'))"
      using Cons.prems Suc by (intro Cons.IH) (simp_all only: sums, simp_all)
    ultimately show ?thesis using Suc by (simp add: next_sum Let_def del: of_nat_add)
  qed
qed simp

text \<open>A percentile is what the bucket of the value at its rank stands for. The rank \<open>r\<close> is the least number of values
  that reaches the target, in the arithmetic of the code.\<close>

lemma percentile_of:
  assumes h: "histogram_of bs h" "\<forall>b \<in> set bs. b < 65536" and n: "length bs \<le> 2 ^ 53"
    and p: "fl_le F p (fl_lit F 100)"
    and r: "0 < r" "r \<le> length bs" "fl_le F (percentile_target F p (hi_count h)) (fl_of_int F (int r))"
      "\<And>i. i < r \<Longrightarrow> \<not> fl_le F (percentile_target F p (hi_count h)) (fl_of_int F (int i))"
  shows "percentile F p h = Ok (decompress F (word_of_nat (sort bs ! (r - 1))))"
proof -
  let ?t = "percentile_target F p (hi_count h)" and ?b = "sort bs ! (r - 1)"
  have k: "r - 1 < length (sort bs)" using r(1,2) by simp
  have "?b \<in> set bs" using nth_mem [OF k] by simp
  then have b: "?b < 65536" using h(2) by blast
  have below: "(\<Sum>i\<le>j. unat (hi_vals h ! i)) \<le> 2 ^ 53" if "j < 65536" for j
    using cumulated [OF h(1) that] length_filter_le [of "\<lambda>b. b \<le> j" bs] n by linarith
  have reached: "fl_le F ?t (fl_of_int F (int (\<Sum>i\<le>j. unat (hi_vals h ! i)))) \<longleftrightarrow> ?b \<le> j" if "j < 65536" for j
  proof -
    let ?c = "\<Sum>i\<le>j. unat (hi_vals h ! i)"
    have "fl_le F ?t (fl_of_int F (int ?c)) \<longleftrightarrow> r \<le> ?c"
      using mono [OF r(3) _ below [OF that]] r(4) [of ?c] by (meson not_le)
    also have "\<dots> \<longleftrightarrow> Suc (r - 1) \<le> length (filter (\<lambda>b. b \<le> j) (sort bs))"
      using r(1) by (simp add: cumulated [OF h(1) that] filter_sort)
    also have "\<dots> \<longleftrightarrow> ?b \<le> j" by (rule rank_reached [OF sorted_sort k])
    finally show ?thesis .
  qed
  have "percentile_loop F ?t (fl_of_int F (int 0)) 0 (hi_vals h) = decompress F (word_of_nat (0 + ?b))"
    by (rule percentile_loop_first) (use h(1) b reached below in \<open>auto simp: histogram_of_def\<close>)
  moreover have "hi_count h \<noteq> 0"
    using h(1) r(1,2) by (auto simp: histogram_of_def unat_eq_zero [symmetric] simp del: unat_eq_zero)
  ultimately show ?thesis using p zero by (simp add: percentile_def)
qed

end

subsection \<open>Buckets under ideal arithmetic\<close>

text \<open>The bucket of a value under ideal arithmetic.\<close>

definition bucket :: "u64 \<Rightarrow> nat" where
  "bucket x = nat \<lfloor>100 * ln (1 + real (unat x)) + 1 / 2\<rfloor>"

lemma bucket_mono: "x \<le> y \<Longrightarrow> bucket x \<le> bucket y"
  by (auto simp: bucket_def word_le_nat_alt intro!: nat_mono floor_mono)

lemma ln_bound: "ln (1 + real (unat (x :: u64))) \<le> 64"
proof -
  have "unat x < 2 ^ 64" using unsigned_less [of x] by simp
  then have "1 + unat x \<le> 2 ^ 64" by simp
  then have "1 + real (unat x) \<le> 2 ^ 64" using of_nat_mono [of "1 + unat x" "2 ^ 64", where 'a = real] by simp
  then have "ln (1 + real (unat x)) \<le> ln (2 ^ 64)" by (subst ln_le_cancel_iff) simp_all
  also have "\<dots> = 64 * ln 2" by (subst ln_realpow) simp_all
  also have "\<dots> \<le> 64" using ln_le_minus_one [of 2] by simp
  finally show ?thesis .
qed

lemma bucket_bound: "bucket x \<le> 6400"
proof -
  have "100 * ln (1 + real (unat x)) + 1 / 2 < 6401" using ln_bound [of x] by simp
  then have "\<lfloor>100 * ln (1 + real (unat x)) + 1 / 2\<rfloor> < 6401" by (simp add: floor_less_iff)
  then show ?thesis unfolding bucket_def by linarith
qed

lemma ideal_literals [simp]: "fl_lit ideal_ops q = Some (of_rat q)" "fl_of_int ideal_ops i = Some (of_int i)"
  by (simp_all add: ideal_ops_def)

lemma ideal_order: "fl_le ideal_ops (Some a) (Some b) \<longleftrightarrow> a \<le> b" "fl_eq ideal_ops (Some a) (Some b) \<longleftrightarrow> a = b"
  by (simp_all add: ideal_ops_def)

lemma compress_ideal: "compress ideal_ops (Some (real (unat x))) = Ok (word_of_nat (bucket x))"
proof -
  have "100 * ln (1 + real (unat x)) + 1 / 2 \<le> 65535" using ln_bound [of x] by simp
  moreover have "min 65535 (bucket x) = bucket x" using bucket_bound [of x] by simp
  ultimately show ?thesis by (simp add: compress_def ideal_ops_def Let_def of_rat_divide flip: bucket_def)
qed

lemma unat_bucket [simp]: "unat (word_of_nat (bucket x) :: u16) = bucket x"
  using bucket_bound [of x] by (simp add: unat_of_nat take_bit_nat_eq_self)

lemma bucket_accuracy: "\<bar>exp (real (bucket x) / 100) - 1 - real (unat x)\<bar> \<le> (1 + real (unat x)) / 199"
proof -
  let ?v = "1 + real (unat x)" and ?d = "real (bucket x) / 100 - ln (1 + real (unat x))"
  have "0 \<le> 100 * ln ?v + 1 / 2" by simp
  then have "real (bucket x) = of_int \<lfloor>100 * ln ?v + 1 / 2\<rfloor>" unfolding bucket_def by simp
  then have "real (bucket x) \<le> 100 * ln ?v + 1 / 2" "100 * ln ?v + 1 / 2 < real (bucket x) + 1"
    using floor_correct [of "100 * ln ?v + 1 / 2"] by simp_all
  then have d: "- (1 / 200) \<le> ?d" "?d \<le> 1 / 200" by (simp_all add: field_simps)
  have "199 / 200 \<le> exp (- (1 / 200) :: real)" using exp_ge_add_one_self [of "- (1 / 200) :: real"] by simp
  moreover have "exp (- (1 / 200)) * exp (1 / 200) = (1 :: real)" by (simp flip: exp_add)
  ultimately have "199 / 200 * exp (1 / 200) \<le> (1 :: real)" by (metis exp_ge_zero mult_right_mono)
  then have up: "exp ?d \<le> 200 / 199" using d(2) exp_le_cancel_iff [of ?d "1 / 200"] by linarith
  have low: "199 / 200 \<le> exp ?d" using exp_ge_add_one_self [of ?d] d(1) by linarith
  have "exp (real (bucket x) / 100) = ?v * exp ?d" by (simp add: exp_diff)
  then have "exp (real (bucket x) / 100) - 1 - real (unat x) = ?v * (exp ?d - 1)" by (simp add: algebra_simps)
  moreover have "\<bar>exp ?d - 1\<bar> \<le> 1 / 199" using up low by linarith
  ultimately show ?thesis by (simp add: abs_mult mult_left_mono [of _ _ ?v, simplified])
qed

interpretation ideal: counting_floats ideal_ops
proof
  show "fl_le ideal_ops t (fl_of_int ideal_ops (int n))"
    if "fl_le ideal_ops t (fl_of_int ideal_ops (int m))" "m \<le> n" for t m n
    using that by (cases t) (simp_all add: ideal_ops_def)
qed (simp_all add: ideal_ops_def)

lemma sort_buckets: "sort (map bucket xs) = map bucket (sort xs)"
  by (rule sort_map_mono) (rule bucket_mono)

text \<open>The index of the value of a given percentile in a sorted list, when nothing is rounded.\<close>

definition rank_index :: "real \<Rightarrow> 'a list \<Rightarrow> nat" where
  "rank_index p xs = nat \<lceil>real (length xs) * p / 100\<rceil> - 1"

lemma ideal_target:
  assumes "unat n \<noteq> 0" "0 \<le> p" "p \<le> 100"
  shows "\<exists>t. percentile_target ideal_ops (Some p) n = Some t \<and> 0 < t \<and> t \<le> real (unat n) \<and>
    nat \<lceil>t\<rceil> = Suc (nat \<lceil>real (unat n) * p / 100\<rceil> - 1)"
proof -
  let ?n = "real (unat n)"
  define t where "t = (if ?n * p / 100 = 0 then 1 else ?n * p / 100)"
  have n: "1 \<le> ?n" using assms(1) by simp
  have t: "0 < t" "t \<le> ?n"
    using n assms(2,3) mult_left_mono [of p 100 ?n] by (auto simp: t_def intro: order_neq_le_trans)
  moreover have "nat \<lceil>t\<rceil> = Suc (nat \<lceil>?n * p / 100\<rceil> - 1)" using t(1) n assms(2) by (auto simp: t_def)
  moreover have "percentile_target ideal_ops (Some p) n = Some t"
    by (auto simp: percentile_target_def Let_def t_def ideal_order) (auto simp: ideal_ops_def)
  ultimately show ?thesis by blast
qed

section \<open>Properties of histograms\<close>

text \<open>C14: The percentiles of a histogram are those of the buckets of its values. This holds for \<^verbatim>\<open>f64\<close> as it is:
  of the arithmetic it needs only that whole numbers up to 2 to the 53 are exact, and none of the logarithm. Values
  that are measured without failure are each counted once, in the bucket \<open>c x\<close> that they are compressed to. The
  percentile of \<open>p\<close> is what is decompressed from the bucket of rank \<open>r\<close> when the buckets of all values are
  sorted, where \<open>r\<close> is the least positive count that reaches the target computed by the code; its rounding is part of
  \<open>r\<close>.\<close>

theorem histogram_percentiles:
  assumes "counting_floats F" and "length xs \<le> 2 ^ 53"
    and "\<forall>x \<in> set xs. compress F (fl_of_int F (uint x)) = Ok (c x)" and "fl_le F p (fl_lit F 100)"
    and "0 < r" "r \<le> length xs" "fl_le F (percentile_target F p (word_of_nat (length xs))) (fl_of_int F (int r))"
    and "\<forall>i < r. \<not> fl_le F (percentile_target F p (word_of_nat (length xs))) (fl_of_int F (int i))"
  shows "\<exists>h. measure_all F xs histogram_default = (Ok (), h) \<and> unat (histogram_count h) = length xs \<and>
    (\<forall>i < 65536. unat (hi_vals h ! i) = length (filter (\<lambda>x. unat (c x) = i) xs)) \<and>
    percentile F p h = Ok (decompress F (sort (map c xs) ! (r - 1)))"
proof -
  have len: "length ([] :: nat list) + length xs < 2 ^ 64" using assms(2) by simp
  from measure_all_of [OF histogram_default_of len assms(3)] obtain h where
    h: "measure_all F xs histogram_default = (Ok (), h)" "histogram_of (map (\<lambda>x. unat (c x)) xs) h" by auto
  have n: "unat (hi_count h) = length xs" using h(2) by (simp add: histogram_of_def)
  then have count: "hi_count h = word_of_nat (length xs)" by (simp add: of_nat_unat flip: n)
  have "sort (map (\<lambda>x. unat (c x)) xs) = map unat (sort (map c xs))"
    using sort_map_mono [of "unat :: u16 \<Rightarrow> nat" "map c xs"] by (simp add: word_le_nat_alt comp_def)
  then have "sort (map (\<lambda>x. unat (c x)) xs) ! (r - 1) = unat (sort (map c xs) ! (r - 1))"
    using assms(5,6) by simp
  moreover have "percentile F p h = Ok (decompress F (word_of_nat (sort (map (\<lambda>x. unat (c x)) xs) ! (r - 1))))"
  proof (rule counting_floats.percentile_of [OF assms(1) h(2) _ _ assms(4,5)])
    have "unat (c x) < 65536" for x using unsigned_less [of "c x"] by simp
    then show "\<forall>b \<in> set (map (\<lambda>x. unat (c x)) xs). b < 65536" by auto
  qed (use assms(2,6-8) count in simp_all)
  moreover have "unat (hi_vals h ! i) = length (filter (\<lambda>x. unat (c x) = i) xs)" if "i < 65536" for i
    using h(2) that by (simp add: histogram_of_def filter_map comp_def)
  ultimately show ?thesis using h(1) n by (simp add: histogram_count_def of_nat_unat)
qed

theorem histogram_percentiles_witness:
  "\<exists>h. measure_all ideal_ops [7, 2, 3, 10] histogram_default = (Ok (), h) \<and>
    percentile ideal_ops (Some 50) h = Ok (decompress ideal_ops (word_of_nat (bucket 3)))"
proof -
  let ?xs = "[7, 2, 3, 10] :: u64 list" and ?c = "\<lambda>x. word_of_nat (bucket x) :: u16"
  have c: "\<forall>x \<in> set ?xs. compress ideal_ops (fl_of_int ideal_ops (uint x)) = Ok (?c x)"
    by (simp add: compress_ideal del: set_simps)
  have t: "percentile_target ideal_ops (Some 50) (word_of_nat (length ?xs)) = Some 2"
    by (simp add: percentile_target_def ideal_order) (simp add: ideal_ops_def)
  have least: "\<forall>i < 2. \<not> fl_le ideal_ops (Some 2) (fl_of_int ideal_ops (int i))" by (simp add: ideal_order)
  have two: "fl_le ideal_ops (Some 2) (fl_of_int ideal_ops (int 2))" by (simp add: ideal_order)
  have le: "fl_le ideal_ops (Some 50) (fl_lit ideal_ops 100)" by (simp add: ideal_order)
  have "sort (map ?c ?xs) = map ?c (sort ?xs)" by (rule sort_map_mono) (simp add: word_le_nat_alt bucket_mono)
  then have "sort (map ?c ?xs) ! (2 - 1) = ?c 3" by simp
  then show ?thesis
    using histogram_percentiles [OF ideal.counting_floats_axioms _ c le _ _ two [folded t] least [folded t]] by auto
qed

text \<open>With exact real arithmetic in place of \<^verbatim>\<open>f64\<close>, every value can be measured, and the percentile for \<open>p\<close> differs from
  the value at the rank of \<open>p\<close> in the sorted values by at most one part in 199 of that value plus one. (For small
  values this is more than one percent of the value, and in \<^verbatim>\<open>f64\<close> the rank may be one higher: \<^verbatim>\<open>100.0 * (7.0 / 100.0)\<close> is
  a little more than 7.)\<close>

theorem histogram_percentiles_exact:
  assumes "xs \<noteq> []" and "length xs \<le> 2 ^ 53" and "0 \<le> p" and "p \<le> 100"
  shows "\<exists>h v. measure_all ideal_ops xs histogram_default = (Ok (), h) \<and> percentile ideal_ops (Some p) h = Ok (Some v) \<and>
    \<bar>v - real (unat (sort xs ! rank_index p xs))\<bar> \<le> (1 + real (unat (sort xs ! rank_index p xs))) / 199"
proof -
  have len: "length ([] :: nat list) + length xs < 2 ^ 64" using assms(2) by simp
  have "\<forall>x \<in> set xs. compress ideal_ops (fl_of_int ideal_ops (uint x)) = Ok (word_of_nat (bucket x))"
    by (simp add: compress_ideal)
  from measure_all_of [OF histogram_default_of len this] obtain h where
    h: "measure_all ideal_ops xs histogram_default = (Ok (), h)" "histogram_of (map bucket xs) h" by auto
  have n: "unat (hi_count h) = length xs" using h(2) by (simp add: histogram_of_def)
  obtain t where t: "percentile_target ideal_ops (Some p) (hi_count h) = Some t" "0 < t" "t \<le> real (length xs)"
      "nat \<lceil>t\<rceil> = Suc (rank_index p xs)"
    using ideal_target [of "hi_count h" p] n assms(1,3,4) by (auto simp: rank_index_def)
  have r: "nat \<lceil>t\<rceil> \<le> length xs" using t(3) by (simp add: nat_le_iff ceiling_le_iff)
  have k: "rank_index p xs < length (sort xs)" using r t(4) by simp
  have "percentile ideal_ops (Some p) h = Ok (decompress ideal_ops (word_of_nat (sort (map bucket xs) ! (nat \<lceil>t\<rceil> - 1))))"
  proof (rule ideal.percentile_of [OF h(2)])
    show "\<forall>b \<in> set (map bucket xs). b < 65536" using bucket_bound by (auto intro!: le_less_trans [OF bucket_bound])
    show "fl_le ideal_ops (percentile_target ideal_ops (Some p) (hi_count h)) (fl_of_int ideal_ops (int (nat \<lceil>t\<rceil>)))"
      using t(1,2) by (simp add: ideal_order of_nat_nat)
    show "\<not> fl_le ideal_ops (percentile_target ideal_ops (Some p) (hi_count h)) (fl_of_int ideal_ops (int i))"
      if "i < nat \<lceil>t\<rceil>" for i
      using that t(1,2) by (simp add: ideal_order) linarith
  qed (use r t(2) assms(2,4) in \<open>simp_all add: ideal_order\<close>)
  moreover have "sort (map bucket xs) ! (nat \<lceil>t\<rceil> - 1) = bucket (sort xs ! rank_index p xs)"
    using k by (simp add: sort_buckets t(4))
  moreover have "unat (word_of_nat (bucket x) :: u16) = bucket x" for x by simp
  ultimately have "percentile ideal_ops (Some p) h = Ok (Some (exp (real (bucket (sort xs ! rank_index p xs)) / 100) - 1))"
    by (simp add: decompress_def del: unat_bucket) (simp add: ideal_ops_def)
  then show ?thesis using h(1) bucket_accuracy by blast
qed

theorem histogram_percentiles_exact_witness:
  "\<exists>h v. measure_all ideal_ops [7, 2, 3, 10] histogram_default = (Ok (), h) \<and>
    percentile ideal_ops (Some 50) h = Ok (Some v) \<and> \<bar>v - 3\<bar> \<le> 4 / 199"
  using histogram_percentiles_exact [of "[7, 2, 3, 10]" 50] by (auto simp: rank_index_def)

end
