(* ===== verification/Node_Laws.thy ===== *)
theory Node_Laws
  imports Node
begin

text \<open>
  What a node promises. The abstract view of a node is the watermark of every channel, the current
  watermark and epoch, the blocked channels and the buffered messages; the locale \<open>node_store\<close> says
  that the five states of a backend implement it. The theorems show that the current watermark is
  the least watermark of the channels and never falls, that an epoch completes exactly when every
  channel has delivered it, that messages of blocked channels are kept in order and replayed, and
  that the recursion between \<^verbatim>\<open>handle_events\<close> and \<^verbatim>\<open>after_state_save\<close> is bounded, because the second
  level of it ends in a panic when it completes an epoch or raises the watermark.
\<close>

section \<open>The backend of a node\<close>

abbreviation bk :: "('c, 't, 'b, 'm) node \<Rightarrow> 'b" where
  "bk n \<equiv> oc_backend (nd_ctx n)"

definition set_bk :: "'b \<Rightarrow> ('c, 't, 'b, 'm) node \<Rightarrow> ('c, 't, 'b, 'm) node" where
  "set_bk b n = n\<lparr>nd_ctx := (nd_ctx n)\<lparr>oc_backend := b\<rparr>\<rparr>"

lemma set_bk_simps [simp]:
  "bk (set_bk b n) = b" "set_bk b (set_bk b' n) = set_bk b n" "set_bk (bk n) n = n"
  "nd_metrics (set_bk b n) = nd_metrics n" "nd_metrics_borrowed (set_bk b n) = nd_metrics_borrowed n"
  "nd_suicide (set_bk b n) = nd_suicide n"
  "oc_strategy (nd_ctx (set_bk b n)) = oc_strategy (nd_ctx n)" "oc_timer (nd_ctx (set_bk b n)) = oc_timer (nd_ctx n)"
  by (simp_all add: set_bk_def)

lemma on_state_apply:
  "on_state m n = (case m (bk n) of (r, b) \<Rightarrow> (map_err from_state_error r, set_bk b n))"
  by (simp add: on_state_def set_bk_def)

lemma on_state_Ok: "m (bk n) = (Ok a, b) \<Longrightarrow> on_state m n = (Ok a, set_bk b n)"
  by (simp add: on_state_apply)

lemma on_state_query: "q (bk n) = Ok a \<Longrightarrow> on_state (query q) n = (Ok a, n)"
  by (simp add: on_state_apply)

lemma get_or_err_Some [simp]: "get_or_err msg (Some a) n = (Ok a, n)"
  by (simp add: get_or_err_def ok_or_def)

locale node_store =
  wm: map_state "ns_watermarks S" I "\<lambda>_. True" wms "\<lambda>b. (cur b, ep b, blk b, buf b, rest b)" +
  cw: value_state "ns_current_watermark S" I cur "\<lambda>b. (wms b, ep b, blk b, buf b, rest b)" +
  ce: value_state "ns_current_epoch S" I ep "\<lambda>b. (wms b, cur b, blk b, buf b, rest b)" +
  bc: map_state "ns_blocked_channels S" I "\<lambda>_. True" blk "\<lambda>b. (wms b, cur b, ep b, buf b, rest b)" +
  mb: vec_state "ns_message_buffer S" I buf "\<lambda>b. (wms b, cur b, ep b, blk b, rest b)"
  for S :: "('b, 'i) node_state" and I :: "'b \<Rightarrow> bool"
    and wms :: "'b \<Rightarrow> node_id \<rightharpoonup> watermark" and cur :: "'b \<Rightarrow> watermark option" and ep :: "'b \<Rightarrow> epoch option"
    and blk :: "'b \<Rightarrow> node_id \<rightharpoonup> unit" and buf :: "'b \<Rightarrow> 'i raw_message list" and rest :: "'b \<Rightarrow> 'f"

text \<open>The view of a node: \<open>node_view\<close> is what its own five states hold.\<close>

record 'i node_view =
  nv_watermarks :: "node_id \<rightharpoonup> watermark"
  nv_current :: "watermark option"
  nv_epoch :: "epoch option"
  nv_blocked :: "node_id set"
  nv_buffer :: "'i raw_message list"

definition node_view_of ::
    "('b \<Rightarrow> node_id \<rightharpoonup> watermark) \<Rightarrow> ('b \<Rightarrow> watermark option) \<Rightarrow> ('b \<Rightarrow> epoch option) \<Rightarrow> ('b \<Rightarrow> node_id \<rightharpoonup> unit)
      \<Rightarrow> ('b \<Rightarrow> 'i raw_message list) \<Rightarrow> 'b \<Rightarrow> 'i node_view" where
  "node_view_of wms cur ep blk buf b =
     \<lparr>nv_watermarks = wms b, nv_current = cur b, nv_epoch = ep b, nv_blocked = dom (blk b), nv_buffer = buf b\<rparr>"

lemma node_view_simps [simp]:
  "nv_watermarks (node_view_of wms cur ep blk buf b) = wms b" "nv_current (node_view_of wms cur ep blk buf b) = cur b"
  "nv_epoch (node_view_of wms cur ep blk buf b) = ep b" "nv_blocked (node_view_of wms cur ep blk buf b) = dom (blk b)"
  "nv_buffer (node_view_of wms cur ep blk buf b) = buf b"
  by (simp_all add: node_view_of_def)

text \<open>
  A consistent view: every input channel has a watermark, the current watermark is the least of
  them, there is a current epoch, and blocked channels and buffered messages belong to the input
  channels. \<open>view_ready\<close>: moreover some channel is not blocked (otherwise the epoch is complete).
\<close>

definition view_ok :: "node_id list \<Rightarrow> 'i node_view \<Rightarrow> bool" where
  "view_ok chans v \<longleftrightarrow> finite (dom (nv_watermarks v)) \<and> chans \<noteq> [] \<and> distinct chans \<and>
     set chans \<subseteq> dom (nv_watermarks v) \<and> nv_current v = Some (Min (ran (nv_watermarks v))) \<and>
     nv_epoch v \<noteq> None \<and> nv_blocked v \<subseteq> set chans \<and> rm_sender ` set (nv_buffer v) \<subseteq> set chans"

definition view_ready :: "node_id list \<Rightarrow> 'i node_view \<Rightarrow> bool" where
  "view_ready chans v \<longleftrightarrow> view_ok chans v \<and> nv_blocked v \<noteq> set chans"

text \<open>Watermarks and epochs never fall.\<close>

definition view_le :: "'i node_view \<Rightarrow> 'i node_view \<Rightarrow> bool" where
  "view_le v v' \<longleftrightarrow>
     (\<forall>s w. nv_watermarks v s = Some w \<longrightarrow> (\<exists>w' \<ge> w. nv_watermarks v' s = Some w')) \<and>
     the (nv_current v) \<le> the (nv_current v') \<and> the (nv_epoch v) \<le> the (nv_epoch v')"

lemma view_le_refl [simp]: "view_le v v"
  by (simp add: view_le_def)

lemma view_le_trans: "view_le u v \<Longrightarrow> view_le v w \<Longrightarrow> view_le u w"
  unfolding view_le_def by (meson order.trans)

section \<open>The least watermark\<close>

lemma min_watermark_Ok: "min_watermark (Ok x) (map Ok ys) = Ok (fold min ys x)"
  by (induction ys arbitrary: x) (auto simp: min_def)

lemma least_watermark_Ok: "least_watermark (map Ok ws) w = Ok (Min (insert w (set ws)))"
proof -
  have "least_watermark (map Ok ws) w = Ok (Min (set (ws @ [w])))"
  proof (cases ws)
    case (Cons x xs)
    then have "least_watermark (map Ok ws) w = min_watermark (Ok x) (map Ok (xs @ [w]))"
      by (simp add: least_watermark_def)
    also have "\<dots> = Ok (Min (set (x # (xs @ [w]))))"
      unfolding min_watermark_Ok Min.set_eq_fold ..
    finally show ?thesis by (simp add: Cons)
  qed (simp add: least_watermark_def)
  then show ?thesis by simp
qed

text \<open>How the least watermark changes when one channel moves up from \<open>old\<close> to \<open>w\<close>.\<close>

lemma Min_ran_raise:
  fixes W :: "node_id \<rightharpoonup> watermark"
  assumes "finite (dom W)" "W s = Some old" "old < w"
  shows "Min (ran W) \<le> Min (ran (W(s \<mapsto> w)))"
    and "Min (ran W) < old \<Longrightarrow> Min (ran (W(s \<mapsto> w))) = Min (ran W)"
proof -
  have fin: "finite (ran W)" "finite (ran (W(s \<mapsto> w)))" using assms(1) by (simp_all add: finite_ran)
  have mem: "old \<in> ran W" "w \<in> ran (W(s \<mapsto> w))" using assms(2) by (auto simp: ran_def)
  have le: "Min (ran W) \<le> x" if x: "x \<in> ran (W(s \<mapsto> w))" for x
  proof -
    have "x = w \<or> x \<in> ran W" using x by (auto simp: ran_def split: if_splits)
    then show ?thesis using fin(1) mem(1) assms(3) by (auto intro: order.trans [of _ old])
  qed
  then show up: "Min (ran W) \<le> Min (ran (W(s \<mapsto> w)))" using fin(2) mem(2) by (intro Min.boundedI) auto
  show "Min (ran (W(s \<mapsto> w))) = Min (ran W)" if "Min (ran W) < old"
  proof -
    have "Min (ran W) \<in> ran W" using fin(1) mem(1) by (intro Min_in) auto
    then obtain k where "W k = Some (Min (ran W))" by (auto simp: ran_def)
    then have "k \<noteq> s" using assms(2) that by auto
    then have "Min (ran W) \<in> ran (W(s \<mapsto> w))" using \<open>W k = _\<close> by (auto simp: ran_def)
    then show ?thesis using up fin(2) by (intro antisym) (auto intro: Min_le)
  qed
qed


section \<open>One event\<close>

text \<open>A node over such a backend.\<close>

locale node_system =
  node_store "ne_state E" I wms cur ep blk buf rest
  for E :: "('c, 't, 'b, 'm, 'i, 'o, 'p) node_env" and I wms cur ep blk and buf :: "'b \<Rightarrow> 'i raw_message list"
    and rest :: "'b \<Rightarrow> 'f"
begin

abbreviation view :: "'b \<Rightarrow> 'i node_view" where
  "view \<equiv> node_view_of wms cur ep blk buf"

abbreviation ok :: "('c, 't, 'b, 'm) node \<Rightarrow> bool" where
  "ok n \<equiv> I (bk n) \<and> view_ok (ne_in_channels E) (view (bk n))"

lemma channel_watermark_ok:
  assumes "I (bk n)" "wms (bk n) s = Some w"
  shows "channel_watermark E s n = (Ok w, n)"
  using assms by (simp add: channel_watermark_def on_state_query wm.mget)

lemma current_watermark_ok: "I (bk n) \<Longrightarrow> cur (bk n) = Some w \<Longrightarrow> current_watermark E n = (Ok w, n)"
  by (simp add: current_watermark_def on_state_query cw.vget)

lemma current_epoch_ok: "I (bk n) \<Longrightarrow> ep (bk n) = Some e \<Longrightarrow> current_epoch E msg n = (Ok e, n)"
  by (simp add: current_epoch_def on_state_query ce.vget)

text \<open>Elements: dropped when their timestamp is not above the watermark of their channel.\<close>

lemma handle_element_eq:
  assumes "I (bk n)" "wms (bk n) s = Some w"
  shows "handle_element E s e n =
    (if (case timestamp e of None \<Rightarrow> - 1 | Some ts \<Rightarrow> ts) \<le> wm_timestamp w then (Ok (), n) else pass_element E e n)"
  using channel_watermark_ok [OF assms] by (simp add: handle_element_def)

text \<open>Watermarks: the early returns of the code agree with the least watermark of the channels.\<close>

lemma handle_watermark_eq:
  assumes "ok n" "wms (bk n) s = Some old" "old < w"
    and least: "least = Min (ran ((wms (bk n))(s \<mapsto> w)))"
  shows "\<exists>b. I b \<and> wms b = (wms (bk n))(s \<mapsto> w) \<and> cur b = Some least \<and> ep b = ep (bk n) \<and> blk b = blk (bk n) \<and>
    buf b = buf (bk n) \<and> rest b = rest (bk n) \<and>
    handle_watermark E s w n =
      (if the (cur (bk n)) < least then pass_watermark E least (set_bk b n) else (Ok (), set_bk b n))"
proof -
  have I: "I (bk n)" and fin: "finite (dom (wms (bk n)))" and c: "cur (bk n) = Some (Min (ran (wms (bk n))))"
    using assms(1) by (simp_all add: view_ok_def)
  let ?c = "Min (ran (wms (bk n)))"
  note raise = Min_ran_raise [OF fin assms(2,3)]
  obtain b1 where b1: "mo_insert (ns_watermarks (ne_state E)) s w (bk n) = (Ok (Some old), b1)" "I b1"
      "wms b1 = (wms (bk n))(s \<mapsto> w)" "cur b1 = cur (bk n)" "ep b1 = ep (bk n)" "blk b1 = blk (bk n)"
      "buf b1 = buf (bk n)" "rest b1 = rest (bk n)"
    using wm.minsert [OF I, of s w] assms(2) by auto
  have start: "handle_watermark E s w n =
      (if ?c < old \<or> w \<le> ?c then (Ok (), set_bk b1 n)
       else bind_s (on_state (query (mo_values (ns_watermarks (ne_state E))))) (\<lambda>vs.
             bind_s (lift_o (map_err from_state_error (least_watermark vs w))) (\<lambda>new_watermark.
               if ?c < new_watermark then
                 bind_s (on_state (vo_set (ns_current_watermark (ne_state E)) new_watermark)) (\<lambda>_.
                 pass_watermark E new_watermark)
               else return_s ())) (set_bk b1 n))"
    using channel_watermark_ok [OF I assms(2)] current_watermark_ok [OF I c] assms(3) [folded not_le]
    by (simp add: handle_watermark_def on_state_Ok [where m = "mo_insert _ _ _", OF b1(1)])
  show ?thesis
  proof (cases "?c < old \<or> w \<le> ?c")
    case True
    have "old \<in> ran (wms (bk n))" using assms(2) by (auto simp: ran_def)
    then have "?c \<le> old" using fin by (simp add: finite_ran)
    then have "least = ?c" using True raise(2) assms(3) least by auto
    then show ?thesis using True b1 c start by (intro exI [of _ b1]) simp
  next
    case False
    obtain vs where vs: "mo_values (ns_watermarks (ne_state E)) b1 = Ok (map Ok vs)" "set vs = ran (wms b1)"
      using wm.mvalues [OF b1(2)] by blast
    have "w \<in> ran (wms b1)" by (auto simp: b1(3) ran_def)
    then have l: "least_watermark (map Ok vs) w = Ok least"
      using least by (simp add: least_watermark_Ok vs(2) insert_absorb b1(3))
    have rest: "handle_watermark E s w n =
        (if ?c < least then bind_s (on_state (vo_set (ns_current_watermark (ne_state E)) least))
          (\<lambda>_. pass_watermark E least) (set_bk b1 n) else (Ok (), set_bk b1 n))"
      using False start l vs(1) by (simp add: on_state_query)
    show ?thesis
    proof (cases "?c < least")
      case True
      obtain b2 where "vo_set (ns_current_watermark (ne_state E)) least b1 = (Ok (cur b1), b2)" "I b2" "cur b2 = Some least"
          "wms b2 = wms b1" "ep b2 = ep b1" "blk b2 = blk b1" "buf b2 = buf b1" "rest b2 = rest b1"
        using cw.vset [OF b1(2), of least] by auto
      then show ?thesis using True rest b1 c
        by (intro exI [of _ b2]) (simp add: on_state_Ok [where m = "vo_set _ _"])
    next
      case not_raised: False
      then have "least = ?c" using raise(1) least by simp
      then show ?thesis using not_raised rest b1 c by (intro exI [of _ b1]) simp
    qed
  qed
qed

text \<open>Epochs: the sender is blocked; when this blocks the last channel, the epoch is complete.\<close>

lemma handle_epoch_eq:
  assumes "ok n" "s \<in> set (ne_in_channels E)" "ep (bk n) = Some e0" "e0 < e"
  shows "\<exists>b. I b \<and> wms b = wms (bk n) \<and> cur b = cur (bk n) \<and> blk b = (blk (bk n))(s \<mapsto> ()) \<and>
    buf b = buf (bk n) \<and> rest b = rest (bk n) \<and>
    (if insert s (dom (blk (bk n))) = set (ne_in_channels E)
     then ep b = Some e \<and> handle_epoch E after s e n = pass_epoch E after e (set_bk b n)
     else ep b = Some e0 \<and> handle_epoch E after s e n = (Ok (), set_bk b n))"
proof -
  have I: "I (bk n)" and dist: "distinct (ne_in_channels E)" and sub: "dom (blk (bk n)) \<subseteq> set (ne_in_channels E)"
    using assms(1) by (auto simp: view_ok_def)
  obtain b1 where b1: "mo_fast_insert (ns_blocked_channels (ne_state E)) s () (bk n) = (Ok (), b1)" "I b1"
      "blk b1 = (blk (bk n))(s \<mapsto> ())" "wms b1 = wms (bk n)" "cur b1 = cur (bk n)" "ep b1 = ep (bk n)"
      "buf b1 = buf (bk n)" "rest b1 = rest (bk n)"
    using bc.mfast_insert [OF I, of s "()"] by auto
  have "mo_len (ns_blocked_channels (ne_state E)) b1 = Ok (card (dom (blk b1)))" using bc.mlen [OF b1(2)] by simp
  moreover have "card (dom (blk b1)) = length (ne_in_channels E)
      \<longleftrightarrow> insert s (dom (blk (bk n))) = set (ne_in_channels E)"
  proof -
    have "dom (blk b1) = insert s (dom (blk (bk n)))" by (simp add: b1(3))
    moreover have "insert s (dom (blk (bk n))) \<subseteq> set (ne_in_channels E)" using sub assms(2) by blast
    ultimately show ?thesis using distinct_card [OF dist] card_subset_eq [OF finite_set] by metis
  qed
  ultimately have step: "handle_epoch E after s e n =
      (if insert s (dom (blk (bk n))) = set (ne_in_channels E)
       then bind_s (on_state (vo_set (ns_current_epoch (ne_state E)) e)) (\<lambda>_. pass_epoch E after e) (set_bk b1 n)
       else (Ok (), set_bk b1 n))"
    using current_epoch_ok [OF I assms(3)] assms(4) [folded not_le]
    by (simp add: handle_epoch_def on_state_Ok [where m = "mo_fast_insert _ _ _", OF b1(1)] on_state_query)
  show ?thesis
  proof (cases "insert s (dom (blk (bk n))) = set (ne_in_channels E)")
    case True
    obtain b2 where "vo_set (ns_current_epoch (ne_state E)) e b1 = (Ok (ep b1), b2)" "I b2" "ep b2 = Some e"
        "wms b2 = wms b1" "cur b2 = cur b1" "blk b2 = blk b1" "buf b2 = buf b1" "rest b2 = rest b1"
      using ce.vset [OF b1(2), of e] by auto
    then show ?thesis using True step b1
      by (intro exI [of _ b2]) (simp add: on_state_Ok [where m = "vo_set _ _"])
  next
    case False
    then show ?thesis using step b1 assms(3) by (intro exI [of _ b1]) simp
  qed
qed

text \<open>After the checkpoint: no channel is blocked, and the buffer is replayed in order.\<close>

lemma after_state_save_eq:
  assumes "I (bk n)"
  shows "\<exists>b. I b \<and> wms b = wms (bk n) \<and> cur b = cur (bk n) \<and> ep b = ep (bk n) \<and> blk b = Map.empty \<and> buf b = [] \<and>
    rest b = rest (bk n) \<and> after_state_save E h n = replay_buffer h (buf (bk n)) (set_bk b n)"
proof -
  obtain b1 where b1: "mo_clear (ns_blocked_channels (ne_state E)) (bk n) = (Ok (), b1)" "I b1" "blk b1 = Map.empty"
      "wms b1 = wms (bk n)" "cur b1 = cur (bk n)" "ep b1 = ep (bk n)" "buf b1 = buf (bk n)" "rest b1 = rest (bk n)"
    using bc.mclear [OF assms] by auto
  obtain b2 where b2: "ve_clear (ns_message_buffer (ne_state E)) b1 = (Ok (), b2)" "I b2" "buf b2 = []"
      "wms b2 = wms b1" "cur b2 = cur b1" "ep b2 = ep b1" "blk b2 = blk b1" "rest b2 = rest b1"
    using mb.eclear [OF b1(2)] by auto
  have *: "after_state_save E h n =
      (if buf (bk n) = [] then (Ok (), set_bk b1 n) else replay_buffer h (buf (bk n)) (set_bk b2 n))"
    using b1 b2
    by (simp add: after_state_save_def on_state_Ok [where m = "mo_clear _"] on_state_Ok [where m = "ve_clear _"]
        on_state_query mb.eis_empty mb.eget)
  show ?thesis
  proof (cases "buf (bk n) = []")
    case True
    then show ?thesis using * b1 by (intro exI [of _ b1]) simp
  next
    case False
    then show ?thesis using * b1 b2 by (intro exI [of _ b2]) simp
  qed
qed

end


section \<open>Whole messages\<close>

text \<open>\<open>ensures P m Q\<close>: from a state with \<open>P\<close>, a call that returns a value leaves a state with \<open>Q\<close>.\<close>

definition ensures :: "('s \<Rightarrow> bool) \<Rightarrow> ('s, 'e, 'a) action \<Rightarrow> ('a \<Rightarrow> 's \<Rightarrow> bool) \<Rightarrow> bool" where
  "ensures P m Q \<longleftrightarrow> (\<forall>s a s'. P s \<longrightarrow> m s = (Ok a, s') \<longrightarrow> Q a s')"

lemma ensuresI: "(\<And>s a s'. P s \<Longrightarrow> m s = (Ok a, s') \<Longrightarrow> Q a s') \<Longrightarrow> ensures P m Q"
  by (auto simp: ensures_def)

lemma ensuresD: "ensures P m Q \<Longrightarrow> P s \<Longrightarrow> m s = (Ok a, s') \<Longrightarrow> Q a s'"
  by (auto simp: ensures_def)

lemma ensures_bind:
  assumes "ensures P m Q" and "\<And>a. ensures (Q a) (f a) R"
  shows "ensures P (bind_s m f) R"
proof (rule ensuresI)
  fix s b s'
  assume "P s" "bind_s m f s = (Ok b, s')"
  then obtain a s1 where "m s = (Ok a, s1)" "f a s1 = (Ok b, s')"
    by (auto simp: bind_s_def split: prod.splits outcome.splits)
  with \<open>P s\<close> assms show "R b s'" by (meson ensuresD)
qed

lemma ensures_step:
  assumes "ensures P m (\<lambda>_. P)" and "\<And>a. ensures P (f a) R"
  shows "ensures P (bind_s m f) R"
  using assms by (rule ensures_bind)

lemma ensures_return [simp]: "ensures P (return_s a) (\<lambda>_. P)" "ensures P (Pair (Ok a)) (\<lambda>_. P)"
  by (simp_all add: ensures_def)

lemma ensures_NoFuel [simp]: "ensures P (lift_o NoFuel) Q"
  by (simp add: ensures_def)

text \<open>Conditions on the backend of a node.\<close>

definition onb :: "('b \<Rightarrow> bool) \<Rightarrow> ('c, 't, 'b, 'm) node \<Rightarrow> bool" where
  "onb P n \<longleftrightarrow> P (bk n)"

lemma ensures_with_metrics:
  assumes "ensures (onb P) m (\<lambda>_. onb Q)"
  shows "ensures (onb P) (with_metrics m) (\<lambda>_. onb Q)"
proof (rule ensuresI)
  fix n a n'
  assume P: "onb P n" and r: "with_metrics m n = (Ok a, n')"
  then obtain n1 where "m (n\<lparr>nd_metrics_borrowed := True\<rparr>) = (Ok a, n1)" "n' = n1\<lparr>nd_metrics_borrowed := False\<rparr>"
    by (auto simp: with_metrics_def split: if_splits prod.splits)
  moreover have "onb P (n\<lparr>nd_metrics_borrowed := True\<rparr>)" using P by (simp add: onb_def)
  ultimately show "onb Q n'" using ensuresD [OF assms] by (fastforce simp: onb_def)
qed

lemma ensures_set_metrics [simp]: "ensures (onb P) (set_metrics f) (\<lambda>_. onb P)"
  by (auto simp: ensures_def set_metrics_def onb_def)

lemma ensures_counters [simp]:
  "ensures (onb P) inc_watermark_counter (\<lambda>_. onb P)" "ensures (onb P) inc_epoch_counter (\<lambda>_. onb P)"
  by (auto simp: ensures_def inc_watermark_counter_def inc_epoch_counter_def set_metrics_def onb_def bind_s_def
      split: outcome.splits)

lemma ensures_forward [simp]: "ensures (onb P) (forward_event E e) (\<lambda>_. onb P)"
  by (auto simp: ensures_def forward_event_def in_ctx_def ctx_output_def onb_def split: prod.splits)

lemma ensures_record [simp]: "ensures (onb P) (record_incoming_events E k) (\<lambda>_. onb P)"
  unfolding record_incoming_events_def
  by (rule ensures_with_metrics) (auto simp: ensures_def on_throughput_def onb_def split: prod.splits)

lemma ensures_query [simp]: "ensures (onb P) (on_state (query q)) (\<lambda>_. onb P)"
  by (auto simp: ensures_def on_state_apply onb_def)

lemma ensures_get [simp]: "ensures P (get_or_err msg x) (\<lambda>_. P)"
  by (auto simp: ensures_def get_or_err_def)

lemma ensures_save_state [simp]: "ensures (onb P) (save_state E) (\<lambda>_. onb P)"
proof (cases "ne_checkpoint_dir E")
  case None
  then show ?thesis by (simp add: save_state_def ensures_def)
next
  case (Some d)
  then show ?thesis
    unfolding save_state_def current_epoch_def by (simp, intro ensures_step) simp_all
qed

text \<open>\<open>set_throughput t n\<close>: the node \<open>n\<close> with the meter \<open>t\<close>. The meter is the first thing a message touches, and
  its panic is the panic of the handler.\<close>

definition set_throughput :: "'m meter \<Rightarrow> ('c, 't, 'b, 'm) node \<Rightarrow> ('c, 't, 'b, 'm) node" where
  "set_throughput t n = n\<lparr>nd_metrics := (nd_metrics n)\<lparr>nm_inbound_throughput := t\<rparr>\<rparr>"

lemma set_throughput_simps [simp]:
  "nd_ctx (set_throughput t n) = nd_ctx n" "nd_metrics_borrowed (set_throughput t n) = nd_metrics_borrowed n"
  "nd_suicide (set_throughput t n) = nd_suicide n"
  by (simp_all add: set_throughput_def)

lemma record_marks:
  assumes "\<not> nd_metrics_borrowed n"
  shows "record_incoming_events E k n =
    (case mark_n (ne_floats E) (ne_now E) k (nm_inbound_throughput (nd_metrics n)) of (r, t) \<Rightarrow> (r, set_throughput t n))"
  using assms
  by (simp add: record_incoming_events_def with_metrics_def on_throughput_def set_throughput_def split: prod.split)

lemma mark_panics:
  assumes "rm_sender m \<in> set (ne_in_channels E)" "\<not> nd_metrics_borrowed n"
    and "mark_n (ne_floats E) (ne_now E) (word_of_nat (length (rm_events m))) (nm_inbound_throughput (nd_metrics n)) = (Panic p, t)"
  shows "handle_raw_msg E m n = (Panic p, set_throughput t n)"
  using assms by (simp add: handle_raw_msg_def record_marks bind_s_def)

lemma handled_marked:
  assumes "handle_raw_msg E m n = (Ok r, n')" "rm_sender m \<in> set (ne_in_channels E)" "\<not> nd_metrics_borrowed n"
  shows "\<exists>u t. mark_n (ne_floats E) (ne_now E) (word_of_nat (length (rm_events m)))
    (nm_inbound_throughput (nd_metrics n)) = (Ok u, t)"
  using assms by (auto simp: handle_raw_msg_def record_marks bind_s_def split: prod.splits outcome.splits)

text \<open>
  The rest of the system. The handlers of the operator and the timer keep the node's own states:
  their states are registered under other names.
\<close>

locale node_client = node_system E I wms cur ep blk buf rest
  for E :: "('c, 't, 'b, 'm, 'i, 'o, 'p) node_env" and I wms cur ep blk and buf :: "'b \<Rightarrow> 'i raw_message list"
    and rest :: "'b \<Rightarrow> 'f" +
  assumes element_keeps: "I (oc_backend c) \<Longrightarrow> op_handle_element (ne_operator E) x c = (Ok (), c') \<Longrightarrow>
      I (oc_backend c') \<and> view (oc_backend c') = view (oc_backend c)"
    and watermark_keeps: "I (oc_backend c) \<Longrightarrow> op_handle_watermark (ne_operator E) w c = (Ok (), c') \<Longrightarrow>
      I (oc_backend c') \<and> view (oc_backend c') = view (oc_backend c)"
    and epoch_keeps: "I (oc_backend c) \<Longrightarrow> op_handle_epoch (ne_operator E) e c = (Ok (), c') \<Longrightarrow>
      I (oc_backend c') \<and> view (oc_backend c') = view (oc_backend c)"
    and timeout_keeps: "I (oc_backend c) \<Longrightarrow> op_handle_timeout (ne_operator E) p c = (Ok (), c') \<Longrightarrow>
      I (oc_backend c') \<and> view (oc_backend c') = view (oc_backend c)"
    and advance_keeps: "I b \<Longrightarrow> tb_advance_to (ne_timer E) ts (t, b) = (Ok ps, (t', b')) \<Longrightarrow> I b' \<and> view b' = view b"
    and timer_epoch_keeps: "I b \<Longrightarrow> tb_handle_epoch (ne_timer E) e (t, b) = (Ok (), (t', b')) \<Longrightarrow> I b' \<and> view b' = view b"
begin

definition same :: "'i node_view \<Rightarrow> 'b \<Rightarrow> bool" where
  "same v b \<longleftrightarrow> I b \<and> view b = v"

lemma ensures_in_ctx:
  assumes "\<And>c r c'. I (oc_backend c) \<Longrightarrow> m c = (Ok r, c') \<Longrightarrow> I (oc_backend c') \<and> view (oc_backend c') = view (oc_backend c)"
  shows "ensures (onb (same v)) (in_ctx m) (\<lambda>_. onb (same v))"
  using assms by (fastforce simp: ensures_def in_ctx_def onb_def same_def split: prod.splits)

lemma ensures_in_ctx_unit:
  assumes "\<And>c c'. I (oc_backend c) \<Longrightarrow> m c = (Ok (), c') \<Longrightarrow> I (oc_backend c') \<and> view (oc_backend c') = view (oc_backend c)"
  shows "ensures (onb (same v)) (in_ctx m) (\<lambda>_. onb (same v))"
proof (rule ensures_in_ctx)
  fix c r c'
  assume "I (oc_backend c)" "m c = (Ok r, c')"
  then show "I (oc_backend c') \<and> view (oc_backend c') = view (oc_backend c)" by (cases r) (rule assms, simp_all)
qed

lemma handlers_keep [simp]:
  "ensures (onb (same v)) (in_ctx (op_handle_element (ne_operator E) x)) (\<lambda>_. onb (same v))"
  "ensures (onb (same v)) (in_ctx (op_handle_watermark (ne_operator E) w)) (\<lambda>_. onb (same v))"
  "ensures (onb (same v)) (in_ctx (op_handle_epoch (ne_operator E) e)) (\<lambda>_. onb (same v))"
  "ensures (onb (same v)) (in_ctx (op_handle_timeout (ne_operator E) p)) (\<lambda>_. onb (same v))"
  "ensures (onb (same v)) (in_ctx (ctx_timer (tb_advance_to (ne_timer E) ts))) (\<lambda>_. onb (same v))"
  "ensures (onb (same v)) (in_ctx (ctx_timer (tb_handle_epoch (ne_timer E) e))) (\<lambda>_. onb (same v))"
proof -
  have t: "ensures (onb (same v)) (in_ctx (ctx_timer m)) (\<lambda>_. onb (same v))"
    if "\<And>b t ps t' b'. I b \<Longrightarrow> m (t, b) = (Ok ps, (t', b')) \<Longrightarrow> I b' \<and> view b' = view b" for v and m :: "('t \<times> 'b, arcon_error, 'x) action"
    by (rule ensures_in_ctx) (auto simp: ctx_timer_def split: prod.splits dest: that)
  show "ensures (onb (same v)) (in_ctx (ctx_timer (tb_advance_to (ne_timer E) ts))) (\<lambda>_. onb (same v))"
    by (rule t) (rule advance_keeps)
  have "I b' \<and> view b' = view b" if "I b" "tb_handle_epoch (ne_timer E) e (t, b) = (Ok r, (t', b'))" for b t r t' b'
    using that by (cases r) (rule timer_epoch_keeps, simp_all)
  then show "ensures (onb (same v)) (in_ctx (ctx_timer (tb_handle_epoch (ne_timer E) e))) (\<lambda>_. onb (same v))"
    by (rule t)
qed (rule ensures_in_ctx_unit, erule (1) element_keeps watermark_keeps epoch_keeps timeout_keeps)+

lemma timeouts_keep [simp]: "ensures (onb (same v)) (handle_timeouts E ps) (\<lambda>_. onb (same v))"
  by (induction ps) (simp_all add: ensures_step)

lemma pass_keeps:
  "ensures (onb (same v)) (pass_element E x) (\<lambda>_. onb (same v))"
  "ensures (onb (same v)) (pass_watermark E w) (\<lambda>_. onb (same v))"
  "ensures (onb (same v)) (pass_death E d) (\<lambda>_. onb (same v))"
proof -
  show "ensures (onb (same v)) (pass_element E x) (\<lambda>_. onb (same v))" by (simp add: pass_element_def)
  show "ensures (onb (same v)) (pass_watermark E w) (\<lambda>_. onb (same v))"
    unfolding pass_watermark_def by (intro ensures_step ensures_with_metrics) simp_all
  show "ensures (onb (same v)) (pass_death E d) (\<lambda>_. onb (same v))"
    unfolding pass_death_def
    by (rule ensures_step) (simp_all add: ensures_def [of _ "\<lambda>n. (_, _ n)"] onb_def)
qed

lemma pass_epoch_keeps:
  assumes "ensures (onb (same v)) after (\<lambda>_. onb Q)"
  shows "ensures (onb (same v)) (pass_epoch E after e) (\<lambda>_. onb Q)"
  unfolding pass_epoch_def by (intro ensures_step ensures_with_metrics) (simp_all add: assms)

end


context node_client
begin

text \<open>The states a node can be in from the view \<open>v\<close> on: consistent, with nothing fallen back;
  \<open>upto\<close> includes the moment in which every channel is blocked.\<close>

definition upto :: "'i node_view \<Rightarrow> 'b \<Rightarrow> bool" where
  "upto v b \<longleftrightarrow> I b \<and> view_ok (ne_in_channels E) (view b) \<and> view_le v (view b)"

definition ready :: "'i node_view \<Rightarrow> 'b \<Rightarrow> bool" where
  "ready v b \<longleftrightarrow> I b \<and> view_ready (ne_in_channels E) (view b) \<and> view_le v (view b)"

lemma ready_upto: "ready v b \<Longrightarrow> upto v b"
  by (simp add: ready_def upto_def view_ready_def)

text \<open>\<open>same\<close> for every view gives every condition on the view.\<close>

lemma ensures_by_view:
  assumes "\<And>v. ensures (onb (same v)) m (\<lambda>_. onb (same v))"
  shows "ensures (onb (ready v)) m (\<lambda>_. onb (ready v))" and "ensures (onb (upto v)) m (\<lambda>_. onb (upto v))"
  using assms unfolding ensures_def onb_def same_def ready_def upto_def by metis+

lemma element_ready: "s \<in> set (ne_in_channels E) \<Longrightarrow> ensures (onb (ready v)) (handle_element E s e) (\<lambda>_. onb (ready v))"
proof (rule ensuresI)
  fix n r n'
  assume s: "s \<in> set (ne_in_channels E)" and n: "onb (ready v) n" and run: "handle_element E s e n = (Ok r, n')"
  then obtain w where "I (bk n)" "wms (bk n) s = Some w"
    by (auto simp: onb_def ready_def view_ready_def view_ok_def)
  then have "n' = n \<or> pass_element E e n = (Ok r, n')"
    using run by (auto simp: handle_element_eq split: if_splits)
  then show "onb (ready v) n'" using n ensuresD [OF ensures_by_view(1) [OF pass_keeps(1)]] by blast
qed

lemma watermark_ready: "s \<in> set (ne_in_channels E) \<Longrightarrow> ensures (onb (ready v)) (handle_watermark E s w) (\<lambda>_. onb (ready v))"
proof (rule ensuresI)
  fix n r n'
  assume s: "s \<in> set (ne_in_channels E)" and n: "onb (ready v) n" and run: "handle_watermark E s w n = (Ok r, n')"
  then obtain old where old: "I (bk n)" "wms (bk n) s = Some old" and
      ok: "ok n" and le: "view_le v (view (bk n))" and blk: "dom (blk (bk n)) \<noteq> set (ne_in_channels E)"
    by (auto simp: onb_def ready_def view_ready_def view_ok_def)
  show "onb (ready v) n'"
  proof (cases "old < w")
    case False
    then have "handle_watermark E s w n = (Ok (), n)"
      using channel_watermark_ok [OF old] by (simp add: handle_watermark_def)
    then show ?thesis using run n by simp
  next
    case True
    define least where "least = Min (ran ((wms (bk n))(s \<mapsto> w)))"
    obtain b where b: "I b" "wms b = (wms (bk n))(s \<mapsto> w)" "cur b = Some least" "ep b = ep (bk n)"
        "blk b = blk (bk n)" "buf b = buf (bk n)"
        "handle_watermark E s w n =
          (if the (cur (bk n)) < least then pass_watermark E least (set_bk b n) else (Ok (), set_bk b n))"
      using handle_watermark_eq [OF ok old(2) True least_def] by blast
    have up: "the (cur (bk n)) \<le> least"
      using Min_ran_raise(1) [of "wms (bk n)" s old w] old(2) True ok by (simp add: view_ok_def least_def)
    have "view_ok (ne_in_channels E) (view b)"
      using ok unfolding view_ok_def node_view_simps b(2-6) least_def
      by (auto simp del: fun_upd_apply)
    moreover have "view_le (view (bk n)) (view b)"
      using old(2) True up by (auto simp: view_le_def b)
    ultimately have "ready v b" using b(1,5) blk le view_le_trans by (auto simp: ready_def view_ready_def)
    then have "onb (ready v) (set_bk b n)" by (simp add: onb_def)
    then show ?thesis
      using b(7) run ensuresD [OF ensures_by_view(1) [OF pass_keeps(2)]] by (auto split: if_splits)
  qed
qed

lemma epoch_ready:
  assumes s: "s \<in> set (ne_in_channels E)" and after: "\<And>u. ensures (onb (upto u)) after (\<lambda>_. onb (ready u))"
  shows "ensures (onb (ready v)) (handle_epoch E after s e) (\<lambda>_. onb (ready v))"
proof (rule ensuresI)
  fix n r n'
  assume n: "onb (ready v) n" and run: "handle_epoch E after s e n = (Ok r, n')"
  then obtain e0 where e0: "ep (bk n) = Some e0" and I: "I (bk n)" and ok: "ok n" and le: "view_le v (view (bk n))"
    by (auto simp: onb_def ready_def view_ready_def view_ok_def)
  show "onb (ready v) n'"
  proof (cases "e0 < e")
    case False
    then have "handle_epoch E after s e n = (Ok (), n)"
      using current_epoch_ok [OF I e0] by (simp add: handle_epoch_def not_less)
    then show ?thesis using run n by simp
  next
    case True
    let ?all = "insert s (dom (blk (bk n))) = set (ne_in_channels E)"
    obtain b where b: "I b" "wms b = wms (bk n)" "cur b = cur (bk n)" "blk b = (blk (bk n))(s \<mapsto> ())"
        "buf b = buf (bk n)"
        "if ?all then ep b = Some e \<and> handle_epoch E after s e n = pass_epoch E after e (set_bk b n)
         else ep b = Some e0 \<and> handle_epoch E after s e n = (Ok (), set_bk b n)"
      using handle_epoch_eq [OF ok s e0 True, of after] by blast
    have "view_ok (ne_in_channels E) (view b)" using ok b s by (auto simp: view_ok_def split: if_splits)
    moreover have "view_le (view (bk n)) (view b)"
      using e0 True b(6) by (auto simp: view_le_def b(2,3) split: if_splits)
    ultimately have up: "upto v b" using b(1) le view_le_trans by (auto simp: upto_def)
    show ?thesis
    proof (cases ?all)
      case True
      have "ensures (onb (same (view b))) after (\<lambda>_. onb (ready v))"
        using after [of v] up by (auto simp: ensures_def onb_def same_def upto_def)
      then have "ensures (onb (same (view b))) (pass_epoch E after e) (\<lambda>_. onb (ready v))" by (rule pass_epoch_keeps)
      moreover have "onb (same (view b)) (set_bk b n)" using b(1) by (simp add: onb_def same_def)
      moreover have "pass_epoch E after e (set_bk b n) = (Ok r, n')" using True b(6) run by simp
      ultimately show ?thesis by (rule ensuresD)
    next
      case False
      then show ?thesis using up b(4,6) run by (auto simp: onb_def ready_def upto_def view_ready_def)
    qed
  qed
qed

lemma event_ready:
  assumes "s \<in> set (ne_in_channels E)" "\<And>u. ensures (onb (upto u)) after (\<lambda>_. onb (ready u))"
  shows "ensures (onb (ready v)) (handle_event E after s ev) (\<lambda>_. onb (ready v))"
  using element_ready watermark_ready epoch_ready [OF _ assms(2)] ensures_by_view(1) [OF pass_keeps(3)] assms(1)
  by (auto simp: handle_event_def split: arcon_event.split)

lemma loop_ready:
  assumes "s \<in> set (ne_in_channels E)" "\<And>u. ensures (onb (upto u)) after (\<lambda>_. onb (ready u))"
  shows "ensures (onb (ready v)) (event_loop E after s evs) (\<lambda>_. onb (ready v))"
proof (induction evs)
  case (Cons ew evs)
  have "ensures P (lift_o (unwrap_event ew)) (\<lambda>_. P)" for P :: "('c, 't, 'b, 'm) node \<Rightarrow> bool"
    by (simp add: ensures_def)
  then show ?case
    unfolding event_loop.simps by (intro ensures_step event_ready [OF assms] Cons.IH)
qed simp

text \<open>A completed epoch: all channels are unblocked, and the replayed messages keep the node ready.\<close>

lemma replay_ready:
  assumes "\<And>s evs. s \<in> set (ne_in_channels E) \<Longrightarrow> ensures (onb (ready v)) (h s evs) (\<lambda>_. onb (ready v))"
  shows "rm_sender ` set ms \<subseteq> set (ne_in_channels E) \<Longrightarrow> ensures (onb (ready v)) (replay_buffer h ms) (\<lambda>_. onb (ready v))"
  by (induction ms) (simp_all add: ensures_step assms)

lemma after_ready:
  assumes "\<And>s evs. s \<in> set (ne_in_channels E) \<Longrightarrow> ensures (onb (ready v)) (h s evs) (\<lambda>_. onb (ready v))"
  shows "ensures (onb (upto v)) (after_state_save E h) (\<lambda>_. onb (ready v))"
proof (rule ensuresI)
  fix n r n'
  assume n: "onb (upto v) n" and run: "after_state_save E h n = (Ok r, n')"
  then have I: "I (bk n)" and ok: "view_ok (ne_in_channels E) (view (bk n))" and le: "view_le v (view (bk n))"
    by (auto simp: onb_def upto_def)
  obtain b where b: "I b" "wms b = wms (bk n)" "cur b = cur (bk n)" "ep b = ep (bk n)" "blk b = Map.empty" "buf b = []"
      "after_state_save E h n = replay_buffer h (buf (bk n)) (set_bk b n)"
    using after_state_save_eq [OF I, of h] by blast
  have "view_ready (ne_in_channels E) (view b)" using ok b by (auto simp: view_ready_def view_ok_def)
  moreover have "view_le v (view b)" using le b by (simp add: view_le_def)
  ultimately have "onb (ready v) (set_bk b n)" using b(1) by (simp add: onb_def ready_def)
  moreover have "ensures (onb (ready v)) (replay_buffer h (buf (bk n))) (\<lambda>_. onb (ready v))"
    using ok by (intro replay_ready assms) (simp_all add: view_ok_def)
  moreover have "replay_buffer h (buf (bk n)) (set_bk b n) = (Ok r, n')" using run b(7) by simp
  ultimately show "onb (ready v) n'" by (meson ensuresD)
qed

lemma handle_events_ready:
  "s \<in> set (ne_in_channels E) \<Longrightarrow> ensures (onb (ready v)) (handle_events E d s evs) (\<lambda>_. onb (ready v))"
proof (induction d arbitrary: s evs v)
  case 0
  then show ?case by (simp add: loop_ready)
next
  case (Suc d)
  show ?case using Suc.prems by (simp add: loop_ready after_ready Suc.IH)
qed

text \<open>A message is counted first. When the meter panics, so does the handler; otherwise a message of a
  blocked channel is buffered, any other handled.\<close>

lemma message_cases:
  assumes "I (bk n)" "\<not> nd_metrics_borrowed n" "rm_sender m \<in> set (ne_in_channels E)"
    and mark: "mark_n (ne_floats E) (ne_now E) (word_of_nat (length (rm_events m))) (nm_inbound_throughput (nd_metrics n)) = (Ok u, t)"
    and n1: "n1 = set_throughput t n"
  shows "if blk (bk n) (rm_sender m) = None
     then handle_raw_msg E m n = handle_events E 2 (rm_sender m) (rm_events m) n1
     else \<exists>b. handle_raw_msg E m n = (Ok (), set_bk b n1) \<and> I b \<and> buf b = buf (bk n) @ [m] \<and>
       wms b = wms (bk n) \<and> cur b = cur (bk n) \<and> ep b = ep (bk n) \<and> blk b = blk (bk n) \<and> rest b = rest (bk n)"
proof -
  have rec: "record_incoming_events E (word_of_nat (length (rm_events m))) n = (Ok u, n1)"
    using assms(2) mark by (simp add: record_marks n1)
  then have "handle_raw_msg E m n =
      (if blk (bk n) (rm_sender m) = None then handle_events E 2 (rm_sender m) (rm_events m) n1
       else on_state (ve_append (ns_message_buffer (ne_state E)) m) n1)"
    using assms by (simp add: handle_raw_msg_def on_state_query bc.mcontains)
  then show ?thesis
    using n1 mb.eappend [OF assms(1), of m] by (auto simp: on_state_apply)
qed

lemma message_ready: "handle_raw_msg E m n = (Ok r, n') \<Longrightarrow> \<not> nd_metrics_borrowed n \<Longrightarrow> onb (ready v) n \<Longrightarrow> onb (ready v) n'"
proof -
  assume run: "handle_raw_msg E m n = (Ok r, n')" and b: "\<not> nd_metrics_borrowed n" and n: "onb (ready v) n"
  have I: "I (bk n)" using n by (simp add: onb_def ready_def)
  have s: "rm_sender m \<in> set (ne_in_channels E)"
    using run by (auto simp: handle_raw_msg_def split: if_splits)
  obtain u t where mark: "mark_n (ne_floats E) (ne_now E) (word_of_nat (length (rm_events m)))
      (nm_inbound_throughput (nd_metrics n)) = (Ok u, t)"
    using handled_marked [OF run s b] by blast
  define n1 where "n1 = set_throughput t n"
  then have n1: "bk n1 = bk n" by simp
  note c = message_cases [OF I b s mark n1_def]
  show "onb (ready v) n'"
  proof (cases "blk (bk n) (rm_sender m) = None")
    case True
    then show ?thesis
      using c run n n1 ensuresD [OF handle_events_ready [OF s, of v 2 "rm_events m"], of n1 r n'] by (simp add: onb_def)
  next
    case False
    then obtain b where b: "n' = set_bk b n1" "I b" "buf b = buf (bk n) @ [m]" "wms b = wms (bk n)" "cur b = cur (bk n)"
        "ep b = ep (bk n)" "blk b = blk (bk n)"
      using c run by auto
    have "view_ready (ne_in_channels E) (view b)"
      using b n s by (simp add: onb_def ready_def view_ready_def view_ok_def)
    moreover have "view_le v (view b)" using b n by (simp add: onb_def ready_def view_le_def)
    ultimately show ?thesis using b(1,2) by (simp add: onb_def ready_def)
  qed
qed

end


section \<open>The depth of the recursion\<close>

lemma bind_s_run:
  "bind_s m f n = (case fst (m n) of Ok a \<Rightarrow> f a (snd (m n)) | Err e \<Rightarrow> (Err e, snd (m n))
    | Panic p \<Rightarrow> (Panic p, snd (m n)) | NoFuel \<Rightarrow> (NoFuel, snd (m n)))"
  by (simp add: bind_s_def split: prod.split outcome.split)

text \<open>No step of a node changes the borrow flag of the metrics for good.\<close>

definition keeps_flag :: "('c, 't, 'b, 'm, 'a) node_action \<Rightarrow> bool" where
  "keeps_flag m \<longleftrightarrow> (\<forall>n. nd_metrics_borrowed (snd (m n)) = nd_metrics_borrowed n)"

lemma keeps_flag_bind [intro!]:
  "keeps_flag m \<Longrightarrow> (\<And>a. keeps_flag (f a)) \<Longrightarrow> keeps_flag (bind_s m f)"
  unfolding keeps_flag_def by (auto simp: bind_s_run split: outcome.split)

lemma keeps_flag_steps [simp]:
  "keeps_flag (on_state q)" "keeps_flag (in_ctx k)" "keeps_flag (lift_o r)" "keeps_flag (return_s a)"
  "keeps_flag (Pair p)" "keeps_flag (set_metrics g)" "keeps_flag (with_metrics m)" "keeps_flag (get_or_err msg x)"
  by (auto simp: keeps_flag_def on_state_apply in_ctx_def set_metrics_def with_metrics_def get_or_err_def
      split: prod.split)

lemma keeps_flag_counters [simp]: "keeps_flag inc_watermark_counter" "keeps_flag inc_epoch_counter"
  by (auto simp: keeps_flag_def inc_watermark_counter_def inc_epoch_counter_def set_metrics_def bind_s_def
      split: outcome.split)

lemma keeps_flag_timeouts [simp]: "keeps_flag (handle_timeouts E ps)"
  by (induction ps) auto

lemma keeps_flag_save [simp]: "keeps_flag (save_state E)"
  by (auto simp: save_state_def current_epoch_def split: option.split)

lemma keeps_flag_event [simp]: "keeps_flag (handle_event E after s ev)"
  by (auto simp: handle_event_def handle_element_def handle_watermark_def handle_epoch_def pass_element_def
      pass_watermark_def pass_epoch_def pass_death_def forward_event_def channel_watermark_def current_watermark_def
      current_epoch_def keeps_flag_def [of "\<lambda>n. (_, _ n)"] split: arcon_event.split)

lemma keeps_flag_loop [simp]: "keeps_flag (event_loop E after s evs)"
  by (induction evs) auto

lemma keeps_flag_events [simp]: "keeps_flag (handle_events E d s evs)"
  by (cases d) simp_all

lemma keeps_flag_msg [simp]: "keeps_flag (handle_raw_msg E m)"
  by (auto simp: handle_raw_msg_def record_incoming_events_def)

text \<open>Two actions that agree on the states in which the metrics are borrowed, or are not.\<close>

definition agree :: "bool \<Rightarrow> ('c, 't, 'b, 'm, 'a) node_action \<Rightarrow> ('c, 't, 'b, 'm, 'a) node_action \<Rightarrow> bool" where
  "agree f m m' \<longleftrightarrow> (\<forall>n. nd_metrics_borrowed n = f \<longrightarrow> m n = m' n)"

lemma agree_refl [simp]: "agree f m m"
  by (simp add: agree_def)

lemma agree_bind: "keeps_flag m \<Longrightarrow> (\<And>a. agree f (g a) (g' a)) \<Longrightarrow> agree f (bind_s m g) (bind_s m g')"
  unfolding agree_def keeps_flag_def by (auto simp: bind_s_run split: outcome.split)

lemma agree_if: "(P \<Longrightarrow> agree f m m') \<Longrightarrow> (\<not> P \<Longrightarrow> agree f k k') \<Longrightarrow> agree f (if P then m else k) (if P then m' else k')"
  by simp

lemma agree_bind_both:
  assumes "keeps_flag m" "agree f m m'" "\<And>a. agree f (g a) (g' a)"
  shows "agree f (bind_s m g) (bind_s m' g')"
proof -
  have "agree f (bind_s m g) (bind_s m g')" using assms(1,3) by (rule agree_bind)
  moreover have "agree f (bind_s m g') (bind_s m' g')" using assms(2) by (simp add: agree_def bind_s_def)
  ultimately show ?thesis by (simp add: agree_def)
qed

text \<open>Borrowed metrics cannot be borrowed again; otherwise they are borrowed inside.\<close>

lemma agree_with_metrics:
  "agree True (with_metrics m) (with_metrics m')" "agree True m m' \<Longrightarrow> agree False (with_metrics m) (with_metrics m')"
  by (auto simp: agree_def with_metrics_def)

lemma pass_epoch_agree: "f \<or> agree True a a' \<Longrightarrow> agree f (pass_epoch E a e) (pass_epoch E a' e)"
  unfolding pass_epoch_def
  by (cases f; simp; intro agree_bind agree_with_metrics; simp add: forward_event_def)

lemma loop_agree: "f \<or> agree True a a' \<Longrightarrow> agree f (event_loop E a s evs) (event_loop E a' s evs)"
proof (induction evs)
  case (Cons ew evs)
  have "agree f (handle_epoch E a s e) (handle_epoch E a' s e)" for e
    unfolding handle_epoch_def current_epoch_def using pass_epoch_agree [OF Cons.prems]
    by (intro agree_bind agree_if) auto
  then have "agree f (handle_event E a s ev) (handle_event E a' s ev)" for ev
    by (simp add: handle_event_def split: arcon_event.split)
  then show ?case
    unfolding event_loop.simps by (intro agree_bind agree_bind_both Cons) simp_all
qed simp

lemma after_agree:
  assumes "\<And>s evs. keeps_flag (h s evs)" "\<And>s evs. agree f (h s evs) (h' s evs)"
  shows "agree f (after_state_save E h) (after_state_save E h')"
proof -
  have "agree f (replay_buffer h ms) (replay_buffer h' ms)" for ms
    by (induction ms) (simp_all add: agree_bind_both assms)
  then show ?thesis unfolding after_state_save_def by (intro agree_bind agree_if) simp_all
qed

lemma cut_off_unreachable:
  "agree False (event_loop E (after_state_save E (event_loop E X)) s evs)
     (event_loop E (after_state_save E (event_loop E Y)) s evs)"
proof -
  have "agree True (event_loop E X s evs) (event_loop E Y s evs)" for s evs by (rule loop_agree) simp
  then show ?thesis by (rule loop_agree [OF disjI2 [OF after_agree [OF keeps_flag_loop]]])
qed

section \<open>Calls that return and calls that panic\<close>

text \<open>\<open>succeeds P m Q\<close>: from every state with \<open>P\<close> the call returns a value and leaves \<open>Q\<close>. \<open>panics P m p\<close>: from
  every state with \<open>P\<close> it panics with the message \<open>p\<close>.\<close>

definition succeeds :: "('s \<Rightarrow> bool) \<Rightarrow> ('s, 'e, 'a) action \<Rightarrow> ('s \<Rightarrow> bool) \<Rightarrow> bool" where
  "succeeds P m Q \<longleftrightarrow> (\<forall>s. P s \<longrightarrow> (\<exists>a s'. m s = (Ok a, s') \<and> Q s'))"

definition panics :: "('s \<Rightarrow> bool) \<Rightarrow> ('s, 'e, 'a) action \<Rightarrow> string \<Rightarrow> bool" where
  "panics P m p \<longleftrightarrow> (\<forall>s. P s \<longrightarrow> fst (m s) = Panic p)"

lemma panics_after: "succeeds P m Q \<Longrightarrow> (\<And>a. panics Q (f a) p) \<Longrightarrow> panics P (bind_s m f) p"
  unfolding succeeds_def panics_def by (fastforce simp: bind_s_run)

lemma panics_at_once: "panics P m p \<Longrightarrow> panics P (bind_s m f) p"
  unfolding panics_def by (simp add: bind_s_run)

lemma succeeds_bind: "succeeds P m Q \<Longrightarrow> (\<And>a. succeeds Q (f a) R) \<Longrightarrow> succeeds P (bind_s m f) R"
  unfolding succeeds_def by (fastforce simp: bind_s_run)

lemma succeeds_return [simp]: "succeeds P (return_s a) P" "succeeds P (Pair (Ok a)) P"
  by (simp_all add: succeeds_def return_s_def)

text \<open>
  A node all of whose surroundings work: the calls of operator, timer, strategy and checkpoint return. \<open>J\<close> is what
  they need of the strategy, the timer and the rest of the backend to do so.
\<close>

locale live_client = node_client E I wms cur ep blk buf rest
  for E :: "('c, 't, 'b, 'm, 'i, 'o, 'p) node_env" and I wms cur ep blk and buf :: "'b \<Rightarrow> 'i raw_message list"
    and rest :: "'b \<Rightarrow> 'f" +
  fixes J :: "('c, 't, 'b) op_ctx \<Rightarrow> bool"
  assumes frame: "J c \<Longrightarrow> I (oc_backend c) \<Longrightarrow> I b \<Longrightarrow> rest b = rest (oc_backend c) \<Longrightarrow> J (c\<lparr>oc_backend := b\<rparr>)"
    and directory: "ne_checkpoint_dir E \<noteq> None"
    and checkpoint_returns: "J c \<Longrightarrow> I (oc_backend c) \<Longrightarrow> ne_checkpoint E d (oc_backend c) = Ok ()"
    and watermark_returns: "J c \<Longrightarrow> I (oc_backend c) \<Longrightarrow> \<exists>c'. op_handle_watermark (ne_operator E) w c = (Ok (), c') \<and> J c'"
    and epoch_returns: "J c \<Longrightarrow> I (oc_backend c) \<Longrightarrow> \<exists>c'. op_handle_epoch (ne_operator E) e c = (Ok (), c') \<and> J c'"
    and timeout_returns: "J c \<Longrightarrow> I (oc_backend c) \<Longrightarrow> \<exists>c'. op_handle_timeout (ne_operator E) p c = (Ok (), c') \<and> J c'"
    and advance_returns: "J c \<Longrightarrow> I (oc_backend c) \<Longrightarrow> \<exists>ps c'. ctx_timer (tb_advance_to (ne_timer E) ts) c = (Ok ps, c') \<and> J c'"
    and timer_epoch_returns: "J c \<Longrightarrow> I (oc_backend c) \<Longrightarrow> \<exists>c'. ctx_timer (tb_handle_epoch (ne_timer E) e) c = (Ok (), c') \<and> J c'"
    and output_returns: "J c \<Longrightarrow> I (oc_backend c) \<Longrightarrow> \<exists>c'. ctx_output (ne_add E) ev c = (Ok (), c') \<and> J c'"
begin

text \<open>\<open>calm v f k\<close>: such a node with the view \<open>v\<close>, the borrow flag \<open>f\<close>, and room for \<open>k\<close> more epochs in its counter.\<close>

definition calm :: "'i node_view \<Rightarrow> bool \<Rightarrow> nat \<Rightarrow> ('c, 't, 'b, 'm) node \<Rightarrow> bool" where
  "calm v f k n \<longleftrightarrow> onb (same v) n \<and> J (nd_ctx n) \<and> nd_metrics_borrowed n = f \<and>
     unat (nm_epoch_counter (nd_metrics n)) + k < 2 ^ 128"

lemma calm_in_ctx:
  assumes "ensures (onb (same v)) (in_ctx m :: ('c, 't, 'b, 'm, 'a) node_action) (\<lambda>_. onb (same v))"
    and "\<And>c. J c \<Longrightarrow> I (oc_backend c) \<Longrightarrow> \<exists>r c'. m c = (Ok r, c') \<and> J c'"
  shows "succeeds (calm v f k) (in_ctx m) (calm v f k)"
  unfolding succeeds_def
proof (intro allI impI)
  fix n :: "('c, 't, 'b, 'm) node"
  assume n: "calm v f k n"
  then obtain r c' where m: "m (nd_ctx n) = (Ok r, c')" "J c'"
    using assms(2) [of "nd_ctx n"] by (auto simp: calm_def onb_def same_def)
  then have run: "in_ctx m n = (Ok r, n\<lparr>nd_ctx := c'\<rparr>)" by (simp add: in_ctx_def)
  moreover have "onb (same v) (n\<lparr>nd_ctx := c'\<rparr>)" using ensuresD [OF assms(1) _ run] n by (simp add: calm_def)
  ultimately show "\<exists>a n'. in_ctx m n = (Ok a, n') \<and> calm v f k n'" using n m(2) by (simp add: calm_def)
qed

lemma calm_handlers:
  "succeeds (calm v f k) (in_ctx (op_handle_watermark (ne_operator E) w)) (calm v f k)"
  "succeeds (calm v f k) (in_ctx (op_handle_epoch (ne_operator E) e)) (calm v f k)"
  "succeeds (calm v f k) (in_ctx (op_handle_timeout (ne_operator E) p)) (calm v f k)"
  "succeeds (calm v f k) (in_ctx (ctx_timer (tb_advance_to (ne_timer E) ts))) (calm v f k)"
  "succeeds (calm v f k) (in_ctx (ctx_timer (tb_handle_epoch (ne_timer E) e))) (calm v f k)"
  "succeeds (calm v f k) (forward_event E ev) (calm v f k)"
  unfolding forward_event_def
  using watermark_returns epoch_returns timeout_returns advance_returns timer_epoch_returns output_returns
  by (intro calm_in_ctx; simp flip: forward_event_def; blast)+

lemma calm_timeouts: "succeeds (calm v f k) (handle_timeouts E ps) (calm v f k)"
  by (induction ps) (simp_all add: succeeds_bind [OF calm_handlers(3)])

lemma calm_metrics:
  "succeeds (calm v f k) (set_metrics (\<lambda>m. m\<lparr>nm_epoch := e\<rparr>)) (calm v f k)"
  by (auto simp: succeeds_def set_metrics_def calm_def onb_def)

lemma calm_counter: "succeeds (calm v f (Suc 0)) inc_epoch_counter (calm v f 0)"
  by (auto simp: succeeds_def inc_epoch_counter_def inc_n_def add_u_def set_metrics_def calm_def onb_def bind_s_def
      unat_add_no_overflow)

lemma calm_save:
  assumes "nv_epoch v \<noteq> None"
  shows "succeeds (calm v f k) (save_state E) (calm v f k)"
proof -
  obtain d where d: "ne_checkpoint_dir E = Some d" using directory by blast
  have "save_state E n = (Ok (), n)" if "calm v f k n" for n :: "('c, 't, 'b, 'm) node"
  proof -
    have n: "I (bk n)" "J (nd_ctx n)" "view (bk n) = v" using that by (simp_all add: calm_def onb_def same_def)
    then obtain e where "ep (bk n) = Some e" using assms by (auto simp: node_view_of_def)
    then show ?thesis
      using current_epoch_ok [OF n(1)] checkpoint_returns [OF n(2,1)] by (simp add: save_state_def d on_state_query)
  qed
  then show ?thesis by (auto simp: succeeds_def)
qed

text \<open>With borrowed metrics, a watermark that is passed on panics where it is counted.\<close>

lemma pass_watermark_panics: "panics (calm v True k) (pass_watermark E w) ''already borrowed: BorrowMutError''"
  unfolding pass_watermark_def
  by (intro panics_after [OF calm_handlers(1)] panics_after [OF calm_handlers(4)] panics_after [OF calm_timeouts])
    (simp add: panics_def calm_def with_metrics_def)

lemma panics_with_metrics:
  assumes "panics (calm v True k) m p"
  shows "panics (calm v False k) (with_metrics m) p"
  unfolding panics_def
proof (intro allI impI)
  fix n :: "('c, 't, 'b, 'm) node"
  assume n: "calm v False k n"
  then have "calm v True k (n\<lparr>nd_metrics_borrowed := True\<rparr>)" by (simp add: calm_def onb_def)
  then have "fst (m (n\<lparr>nd_metrics_borrowed := True\<rparr>)) = Panic p" using assms by (simp add: panics_def)
  then show "fst (with_metrics m n) = Panic p"
    using n by (auto simp: with_metrics_def calm_def split: prod.split)
qed

lemma pass_epoch_panics:
  assumes "panics (calm v True 0) after p" "nv_epoch v \<noteq> None"
  shows "panics (calm v False 1) (pass_epoch E after e) p"
proof -
  have "panics (calm v True 1) (bind_s (set_metrics (\<lambda>m. m\<lparr>nm_epoch := e\<rparr>)) (\<lambda>_.
      bind_s (forward_event E (EpochEv e)) (\<lambda>_. bind_s inc_epoch_counter (\<lambda>_. after)))) p"
    using assms(1) calm_counter
    by (intro panics_after [OF calm_metrics] panics_after [OF calm_handlers(6)] panics_after [where m = inc_epoch_counter]) simp_all
  then have "panics (calm v False 1) (with_metrics (bind_s (set_metrics (\<lambda>m. m\<lparr>nm_epoch := e\<rparr>)) (\<lambda>_.
      bind_s (forward_event E (EpochEv e)) (\<lambda>_. bind_s inc_epoch_counter (\<lambda>_. after))))) p"
    by (rule panics_with_metrics)
  then show ?thesis
    unfolding pass_epoch_def
    by (intro panics_after [OF calm_handlers(2)] panics_after [OF calm_handlers(5)] panics_after [OF calm_save [OF assms(2)]])
qed

text \<open>The replay of a buffer with such a watermark at its head, in a node whose states have just been put into a new
  backend \<open>b\<close>.\<close>

lemma calm_backend: "calm v f k n \<Longrightarrow> I b \<Longrightarrow> rest b = rest (bk n) \<Longrightarrow> calm (view b) f k (set_bk b n)"
  using frame [of "nd_ctx n" b] by (auto simp: calm_def onb_def same_def set_bk_def)

lemma replay_watermark_panics:
  assumes n: "calm v True k n" "ok n" and m: "rm_events m = wrap_event (WatermarkEv w) # evs"
    and old: "wms (bk n) (rm_sender m) = Some old" "old < w"
    and raised: "the (cur (bk n)) < Min (ran ((wms (bk n))(rm_sender m \<mapsto> w)))"
  shows "fst (replay_buffer (handle_events E d) (m # ms) n) = Panic ''already borrowed: BorrowMutError''"
proof -
  obtain b where "I b" "rest b = rest (bk n)" and "handle_watermark E (rm_sender m) w n =
      pass_watermark E (Min (ran ((wms (bk n))(rm_sender m \<mapsto> w)))) (set_bk b n)"
    using handle_watermark_eq [OF n(2) old refl] raised by auto
  then have "fst (handle_watermark E (rm_sender m) w n) = Panic ''already borrowed: BorrowMutError''"
    using pass_watermark_panics calm_backend [OF n(1)] unfolding panics_def by metis
  then have "fst (handle_events E d (rm_sender m) (rm_events m) n) = Panic ''already borrowed: BorrowMutError''"
    by (cases d) (simp_all add: m handle_event_def bind_s_run)
  then show ?thesis by (simp add: bind_s_run)
qed

text \<open>The completion of an epoch in front of such a buffer.\<close>

lemma epoch_replay_panics:
  assumes n: "ok n" "calm (view (bk n)) False 1 n" and s: "s \<in> set (ne_in_channels E)"
    and last: "insert s (dom (blk (bk n))) = set (ne_in_channels E)"
    and e: "ep (bk n) = Some e0" "e0 < e"
    and m: "buf (bk n) = m # ms" "rm_events m = wrap_event (WatermarkEv w) # evs"
    and old: "wms (bk n) (rm_sender m) = Some old" "old < w"
    and raised: "the (cur (bk n)) < Min (ran ((wms (bk n))(rm_sender m \<mapsto> w)))"
  shows "fst (handle_epoch E (after_state_save E (handle_events E d)) s e n) = Panic ''already borrowed: BorrowMutError''"
proof -
  obtain b where b: "I b" "wms b = wms (bk n)" "cur b = cur (bk n)" "blk b = (blk (bk n))(s \<mapsto> ())"
      "buf b = buf (bk n)" "rest b = rest (bk n)" "ep b = Some e"
      "handle_epoch E (after_state_save E (handle_events E d)) s e n
        = pass_epoch E (after_state_save E (handle_events E d)) e (set_bk b n)"
    using handle_epoch_eq [OF n(1) s e, of "after_state_save E (handle_events E d)"] last by auto
  have vb: "view_ok (ne_in_channels E) (view b)" using n(1) s b by (auto simp: view_ok_def)
  have "panics (calm (view b) True 0) (after_state_save E (handle_events E d)) ''already borrowed: BorrowMutError''"
    unfolding panics_def
  proof (intro allI impI)
    fix k :: "('c, 't, 'b, 'm) node"
    assume k: "calm (view b) True 0 k"
    then have I: "I (bk k)" and v: "view (bk k) = view b" by (simp_all add: calm_def onb_def same_def)
    have eqs: "wms (bk k) = wms b" "cur (bk k) = cur b" "ep (bk k) = ep b" "buf (bk k) = buf b"
      using v by (simp_all add: node_view_of_def)
    obtain b' where b': "I b'" "wms b' = wms b" "cur b' = cur b" "ep b' = ep b" "blk b' = Map.empty" "buf b' = []"
        "rest b' = rest (bk k)"
        "after_state_save E (handle_events E d) k = replay_buffer (handle_events E d) (buf b) (set_bk b' k)"
      using after_state_save_eq [OF I, of "handle_events E d"] by (auto simp: eqs)
    have "view_ok (ne_in_channels E) (view b')" using vb b' by (simp add: view_ok_def)
    then show "fst (after_state_save E (handle_events E d) k) = Panic ''already borrowed: BorrowMutError''"
      using replay_watermark_panics [OF calm_backend [OF k b'(1,7)], of m w evs old d ms] b' b(2,3,5) m old raised
      by simp
  qed
  then have "panics (calm (view b) False 1) (pass_epoch E (after_state_save E (handle_events E d)) e)
      ''already borrowed: BorrowMutError''"
    using b(7) by (intro pass_epoch_panics) simp_all
  moreover have "calm (view b) False 1 (set_bk b n)" using calm_backend [OF n(2) b(1,6)] .
  ultimately show ?thesis unfolding b(8) panics_def by blast
qed

end

end
