(* ===== verification/Node_Backend.thy ===== *)
theory Node_Backend
  imports Node_Laws Channel_Strategies
begin

text \<open>
  The node on the in-memory backend: the five tables of a node implement the contract
  \<open>node_store\<close>, so that the laws of \<open>Node_Laws\<close> hold for it; and the properties of a node, each
  with an instance.
\<close>

section \<open>The tables of a node\<close>

text \<open>Tables without metakeys: a single cell, and a map.\<close>

definition cell_ok :: "('v, 'd) any_type \<Rightarrow> string \<Rightarrow> 'd in_memory \<Rightarrow> bool" where
  "cell_ok V i = typed_state (metakey_layout (\<lambda>_ :: unit. []) (\<lambda>_. True) (\<lambda>_ :: unit. []) (\<lambda>_. True)) V i"

definition map_ok :: "'k message \<Rightarrow> ('v, 'd) any_type \<Rightarrow> string \<Rightarrow> 'd in_memory \<Rightarrow> bool" where
  "map_ok K V i = typed_state (mapkey_layout (\<lambda>_ :: unit. []) (\<lambda>_. True) (\<lambda>_ :: unit. []) (\<lambda>_. True) K) V i"

text \<open>They only depend on their own table.\<close>

lemma cell_ok_local: "im_data b' i = im_data b i \<Longrightarrow> cell_ok V i b' = cell_ok V i b"
  by (simp add: cell_ok_def typed_state_def)

lemma map_ok_local: "im_data b' i = im_data b i \<Longrightarrow> map_ok K V i b' = map_ok K V i b"
  by (simp add: map_ok_def typed_state_def)

lemma cell_content_local: "im_data b' i = im_data b i \<Longrightarrow> cell_content V i k b' = cell_content V i k b"
  by (simp add: cell_content_def im_cell_def)

lemma map_content_local: "im_data b' i = im_data b i \<Longrightarrow> map_content K V i k b' = map_content K V i k b"
  by (simp add: map_content_def cell_content_def im_cell_def)

lemmas table_local = cell_ok_local map_ok_local cell_content_local map_content_local

text \<open>The contracts of the five kinds of handle without metakeys, with any condition \<open>J\<close> and any frame \<open>g\<close>
  on the other tables.\<close>

lemma plain_value_contract:
  assumes "any_law V" and rest: "\<And>b b'. (\<forall>j. j \<noteq> h_id h \<longrightarrow> im_data b' j = im_data b j) \<Longrightarrow> J b' = J b \<and> g b' = g b"
  shows "value_state (im_value_ops unit_fb unit_fb V h) (\<lambda>b. cell_ok V (h_id h) b \<and> J b) (cell_content V (h_id h) []) g"
proof (rule value_state_frame)
  have c: "im_cells unit_fb (\<lambda>_. []) (\<lambda>_. True) unit_fb (\<lambda>_. []) (\<lambda>_. True) V h"
    using assms(1) mk0.metakeys_axioms by (simp add: im_cells_def im_cells_axioms_def)
  show "value_state (im_value_ops unit_fb unit_fb V h) (cell_ok V (h_id h)) (cell_content V (h_id h) [])
      (im_frame (h_id h) (\<lambda>k. k = []))"
    using im_cells.refines_value [OF c] by (simp add: im_cells.own_parts [OF c] handle_key_def cell_ok_def)
qed (intro rest allI impI, erule (1) typed_state_other)

lemma plain_map_contract:
  assumes "any_law V" "message_law K" "\<And>k. length (msg_encode K k) \<le> usize_max"
    and rest: "\<And>b b'. (\<forall>j. j \<noteq> h_id h \<longrightarrow> im_data b' j = im_data b j) \<Longrightarrow> J b' = J b \<and> g b' = g b"
  shows "map_state (im_map_ops unit_fb unit_fb K V h) (\<lambda>b. map_ok K V (h_id h) b \<and> J b) (\<lambda>_. True) (map_content K V (h_id h) []) g"
proof (rule map_state_frame)
  have m: "im_map unit_fb (\<lambda>_. []) (\<lambda>_. True) unit_fb (\<lambda>_. []) (\<lambda>_. True) K V h"
    using assms(1,2) mk0.metakeys_axioms by (simp add: im_map_def im_map_axioms_def)
  have "metakeys.key_fits unit_fb unit_fb K = (\<lambda>_. True)"
    unfolding im_map.own_key_fits [OF m] using assms(3) by (simp add: metakey_size_def unit_fb_def)
  then show "map_state (im_map_ops unit_fb unit_fb K V h) (map_ok K V (h_id h)) (\<lambda>_. True) (map_content K V (h_id h) [])
      (im_frame (h_id h) (has_prefix []))"
    using im_map.refines_map [OF m] by (simp add: im_map.own_map_parts [OF m] handle_key_def map_ok_def)
qed (intro rest allI impI, erule (1) typed_state_other)

lemma plain_vec_contract:
  assumes "any_law V" and rest: "\<And>b b'. (\<forall>j. j \<noteq> h_id h \<longrightarrow> im_data b' j = im_data b j) \<Longrightarrow> J b' = J b \<and> g b' = g b"
  shows "vec_state (im_vec_ops unit_fb unit_fb V h) (\<lambda>b. cell_ok V (h_id h) b \<and> J b)
    (\<lambda>b. case cell_content V (h_id h) [] b of None \<Rightarrow> [] | Some vs \<Rightarrow> vs) g"
proof (rule vec_state_frame)
  have c: "im_cells unit_fb (\<lambda>_. []) (\<lambda>_. True) unit_fb (\<lambda>_. []) (\<lambda>_. True) V h"
    using assms(1) mk0.metakeys_axioms by (simp add: im_cells_def im_cells_axioms_def)
  then have v: "im_vec unit_fb (\<lambda>_. []) (\<lambda>_. True) unit_fb (\<lambda>_. []) (\<lambda>_. True) V h" by (simp add: im_vec_def)
  show "vec_state (im_vec_ops unit_fb unit_fb V h) (cell_ok V (h_id h))
      (\<lambda>b. case cell_content V (h_id h) [] b of None \<Rightarrow> [] | Some vs \<Rightarrow> vs) (im_frame (h_id h) (\<lambda>k. k = []))"
    using im_vec.refines_vec [OF v]
    by (simp add: im_vec.own_items [OF v] im_cells.own_parts [OF c] handle_key_def cell_ok_def)
qed (intro rest allI impI, erule (1) typed_state_other)

section \<open>The node's contract\<close>

definition im_node_state ::
    "node_id message \<Rightarrow> (watermark, 'd) any_type \<Rightarrow> (epoch, 'd) any_type \<Rightarrow> (unit, 'd) any_type
      \<Rightarrow> ('i raw_message list, 'd) any_type \<Rightarrow> ('d in_memory, 'i) node_state" where
  "im_node_state K WV EV UV MV =
     \<lparr>ns_watermarks = im_map_ops unit_fb unit_fb K WV watermarks_handle,
      ns_current_watermark = im_value_ops unit_fb unit_fb WV current_watermark_handle,
      ns_current_epoch = im_value_ops unit_fb unit_fb EV current_epoch_handle,
      ns_blocked_channels = im_map_ops unit_fb unit_fb K UV blocked_channels_handle,
      ns_message_buffer = im_vec_ops unit_fb unit_fb MV message_buffer_handle\<rparr>"

lemma node_handles:
  "distinct [h_id watermarks_handle, h_id current_watermark_handle, h_id current_epoch_handle,
     h_id blocked_channels_handle, h_id message_buffer_handle]"
  by (simp add: watermarks_handle_def current_watermark_handle_def current_epoch_handle_def
      blocked_channels_handle_def message_buffer_handle_def map_handle_def value_handle_def vec_handle_def no_extra_def)

lemma node_handles_differ:
  "h_id watermarks_handle \<noteq> h_id current_watermark_handle" "h_id watermarks_handle \<noteq> h_id current_epoch_handle"
  "h_id watermarks_handle \<noteq> h_id blocked_channels_handle" "h_id watermarks_handle \<noteq> h_id message_buffer_handle"
  "h_id current_watermark_handle \<noteq> h_id current_epoch_handle" "h_id current_watermark_handle \<noteq> h_id blocked_channels_handle"
  "h_id current_watermark_handle \<noteq> h_id message_buffer_handle" "h_id current_epoch_handle \<noteq> h_id blocked_channels_handle"
  "h_id current_epoch_handle \<noteq> h_id message_buffer_handle" "h_id blocked_channels_handle \<noteq> h_id message_buffer_handle"
  using node_handles by auto

lemmas handles_differ = node_handles_differ node_handles_differ [symmetric]

definition im_node_rest :: "'d in_memory \<Rightarrow> string \<rightharpoonup> 'd table" where
  "im_node_rest b = (im_data b) |` (- {h_id watermarks_handle, h_id current_watermark_handle, h_id current_epoch_handle,
     h_id blocked_channels_handle, h_id message_buffer_handle})"

locale im_node =
  fixes K :: "node_id message" and WV :: "(watermark, 'd) any_type" and EV :: "(epoch, 'd) any_type"
    and UV :: "(unit, 'd) any_type" and MV :: "('i raw_message list, 'd) any_type"
  assumes boxes: "any_law WV" "any_law EV" "any_law UV" "any_law MV"
    and ids: "message_law K" "\<And>k. length (msg_encode K k) \<le> usize_max"
begin

definition tables_ok :: "'d in_memory \<Rightarrow> bool" where
  "tables_ok b \<longleftrightarrow> map_ok K WV (h_id watermarks_handle) b \<and> cell_ok WV (h_id current_watermark_handle) b \<and>
     cell_ok EV (h_id current_epoch_handle) b \<and> map_ok K UV (h_id blocked_channels_handle) b \<and>
     cell_ok MV (h_id message_buffer_handle) b"

definition wms :: "'d in_memory \<Rightarrow> node_id \<rightharpoonup> watermark" where
  "wms = map_content K WV (h_id watermarks_handle) []"

definition cur :: "'d in_memory \<Rightarrow> watermark option" where
  "cur = cell_content WV (h_id current_watermark_handle) []"

definition ep :: "'d in_memory \<Rightarrow> epoch option" where
  "ep = cell_content EV (h_id current_epoch_handle) []"

definition blk :: "'d in_memory \<Rightarrow> node_id \<rightharpoonup> unit" where
  "blk = map_content K UV (h_id blocked_channels_handle) []"

definition buf :: "'d in_memory \<Rightarrow> 'i raw_message list" where
  "buf b = (case cell_content MV (h_id message_buffer_handle) [] b of None \<Rightarrow> [] | Some ms \<Rightarrow> ms)"

lemmas parts = wms_def cur_def ep_def blk_def buf_def [abs_def] im_node_rest_def

lemma rest_local:
  assumes "\<forall>j. j \<noteq> i \<longrightarrow> im_data b' j = im_data b j"
    and "i \<in> {h_id watermarks_handle, h_id current_watermark_handle, h_id current_epoch_handle,
      h_id blocked_channels_handle, h_id message_buffer_handle}"
  shows "im_node_rest b' = im_node_rest b"
proof (rule ext)
  fix j
  show "im_node_rest b' j = im_node_rest b j"
    using assms by (cases "j = i") (auto simp: im_node_rest_def restrict_map_def)
qed

text \<open>What each table holds depends on that table only.\<close>

lemma others_local:
  assumes f: "\<forall>j. j \<noteq> i \<longrightarrow> im_data b' j = im_data b j"
  shows "i \<noteq> h_id watermarks_handle \<Longrightarrow> wms b' = wms b"
    "i \<noteq> h_id current_watermark_handle \<Longrightarrow> cur b' = cur b"
    "i \<noteq> h_id current_epoch_handle \<Longrightarrow> ep b' = ep b"
    "i \<noteq> h_id blocked_channels_handle \<Longrightarrow> blk b' = blk b"
    "i \<noteq> h_id message_buffer_handle \<Longrightarrow> buf b' = buf b"
    "i \<noteq> j \<Longrightarrow> cell_ok V j b' = cell_ok V j b"
    "i \<noteq> j \<Longrightarrow> map_ok K V' j b' = map_ok K V' j b"
  using f by (simp_all add: wms_def cur_def ep_def blk_def buf_def table_local [of b' _ b])

lemma store: "node_store (im_node_state K WV EV UV MV) tables_ok wms cur ep blk buf im_node_rest"
proof (rule node_store.intro)
  note other = others_local rest_local and ne = handles_differ
  show "map_state (ns_watermarks (im_node_state K WV EV UV MV)) tables_ok (\<lambda>_. True) wms
      (\<lambda>b. (cur b, ep b, blk b, buf b, im_node_rest b))"
    using plain_map_contract [OF boxes(1) ids, of watermarks_handle
      "\<lambda>b. cell_ok WV (h_id current_watermark_handle) b \<and> cell_ok EV (h_id current_epoch_handle) b \<and>
        map_ok K UV (h_id blocked_channels_handle) b \<and> cell_ok MV (h_id message_buffer_handle) b"
      "\<lambda>b. (cur b, ep b, blk b, buf b, im_node_rest b)"]
    by (simp add: other ne im_node_state_def tables_ok_def [abs_def] wms_def [abs_def])
  show "value_state (ns_current_watermark (im_node_state K WV EV UV MV)) tables_ok cur
      (\<lambda>b. (wms b, ep b, blk b, buf b, im_node_rest b))"
    using plain_value_contract [OF boxes(1), of current_watermark_handle
      "\<lambda>b. map_ok K WV (h_id watermarks_handle) b \<and> cell_ok EV (h_id current_epoch_handle) b \<and>
        map_ok K UV (h_id blocked_channels_handle) b \<and> cell_ok MV (h_id message_buffer_handle) b"
      "\<lambda>b. (wms b, ep b, blk b, buf b, im_node_rest b)"]
    by (simp add: other ne im_node_state_def tables_ok_def [abs_def] cur_def [abs_def] conj_ac)
  show "value_state (ns_current_epoch (im_node_state K WV EV UV MV)) tables_ok ep
      (\<lambda>b. (wms b, cur b, blk b, buf b, im_node_rest b))"
    using plain_value_contract [OF boxes(2), of current_epoch_handle
      "\<lambda>b. map_ok K WV (h_id watermarks_handle) b \<and> cell_ok WV (h_id current_watermark_handle) b \<and>
        map_ok K UV (h_id blocked_channels_handle) b \<and> cell_ok MV (h_id message_buffer_handle) b"
      "\<lambda>b. (wms b, cur b, blk b, buf b, im_node_rest b)"]
    by (simp add: other ne im_node_state_def tables_ok_def [abs_def] ep_def [abs_def] conj_ac)
  show "map_state (ns_blocked_channels (im_node_state K WV EV UV MV)) tables_ok (\<lambda>_. True) blk
      (\<lambda>b. (wms b, cur b, ep b, buf b, im_node_rest b))"
    using plain_map_contract [OF boxes(3) ids, of blocked_channels_handle
      "\<lambda>b. map_ok K WV (h_id watermarks_handle) b \<and> cell_ok WV (h_id current_watermark_handle) b \<and>
        cell_ok EV (h_id current_epoch_handle) b \<and> cell_ok MV (h_id message_buffer_handle) b"
      "\<lambda>b. (wms b, cur b, ep b, buf b, im_node_rest b)"]
    by (simp add: other ne im_node_state_def tables_ok_def [abs_def] blk_def [abs_def] conj_ac)
  show "vec_state (ns_message_buffer (im_node_state K WV EV UV MV)) tables_ok buf
      (\<lambda>b. (wms b, cur b, ep b, blk b, im_node_rest b))"
    using plain_vec_contract [OF boxes(4), of message_buffer_handle
      "\<lambda>b. map_ok K WV (h_id watermarks_handle) b \<and> cell_ok WV (h_id current_watermark_handle) b \<and>
        cell_ok EV (h_id current_epoch_handle) b \<and> map_ok K UV (h_id blocked_channels_handle) b"
      "\<lambda>b. (wms b, cur b, ep b, blk b, im_node_rest b)"]
    by (simp add: other ne im_node_state_def tables_ok_def [abs_def] buf_def [abs_def] conj_ac)
qed

end

sublocale im_node \<subseteq> node_store "im_node_state K WV EV UV MV" tables_ok wms cur ep blk buf im_node_rest
  by (rule store)

text \<open>The function operators without state, with no timer, keep the states of the node.\<close>

lemma stateless_keeps:
  "fst (flat_map_element add (stateless f) e c) = Ok r \<Longrightarrow>
    oc_backend (snd (flat_map_element add (stateless f) e c)) = oc_backend c"
proof -
  have "oc_backend (snd (output_all add ts xs c)) = oc_backend c" for ts xs c
    by (induction xs arbitrary: c)
      (auto simp: bind_s_def ctx_output_def split: prod.split outcome.split)
  then show ?thesis
    by (simp add: flat_map_element_def bind_s_def ctx_session_def stateless_def)
qed

lemma stateless_client:
  assumes "node_store (ne_state E) I wms cur ep blk buf rest"
    and "ne_operator E = flat_map_new add f" "ne_timer E = unit_backend"
  shows "node_client E I wms cur ep blk buf rest"
proof -
  have "op_handle_element (ne_operator E) x c = (Ok (), c') \<Longrightarrow> oc_backend c' = oc_backend c" for x c c'
    using stateless_keeps [of add f x c "()"] assms(2) by (simp add: flat_map_new_def element_operator_def)
  then have "I (oc_backend c) \<Longrightarrow> op_handle_element (ne_operator E) x c = (Ok (), c') \<Longrightarrow>
      I (oc_backend c') \<and> node_view_of wms cur ep blk buf (oc_backend c') = node_view_of wms cur ep blk buf (oc_backend c)"
    for x c c' by metis
  moreover have "op_handle_watermark (ne_operator E) = ignore" "op_handle_epoch (ne_operator E) = ignore"
      "op_handle_timeout (ne_operator E) = ignore"
    by (simp_all add: assms(2) flat_map_new_def element_operator_def)
  moreover have "tb_advance_to (ne_timer E) = (\<lambda>_. return_s [])" "tb_handle_epoch (ne_timer E) = (\<lambda>_. return_s ())"
    by (simp_all add: assms(3) unit_backend_def)
  ultimately show ?thesis
    using assms(1) by (simp add: node_client_def node_system_def node_client_axioms_def ignore_def)
qed

section \<open>An instance\<close>

datatype node_any = AnyWatermark watermark | AnyEpoch epoch | AnyUnit | AnyMessages "u64 raw_message list"

definition watermark_any :: "(watermark, node_any) any_type" where
  "watermark_any = \<lparr>any_box = AnyWatermark, any_downcast = (\<lambda>d. case d of AnyWatermark x \<Rightarrow> Some x | _ \<Rightarrow> None)\<rparr>"

definition epoch_any :: "(epoch, node_any) any_type" where
  "epoch_any = \<lparr>any_box = AnyEpoch, any_downcast = (\<lambda>d. case d of AnyEpoch x \<Rightarrow> Some x | _ \<Rightarrow> None)\<rparr>"

definition unit_any :: "(unit, node_any) any_type" where
  "unit_any = \<lparr>any_box = (\<lambda>_. AnyUnit), any_downcast = (\<lambda>d. case d of AnyUnit \<Rightarrow> Some () | _ \<Rightarrow> None)\<rparr>"

definition messages_any :: "(u64 raw_message list, node_any) any_type" where
  "messages_any = \<lparr>any_box = AnyMessages, any_downcast = (\<lambda>d. case d of AnyMessages x \<Rightarrow> Some x | _ \<Rightarrow> None)\<rparr>"

definition node_id_message :: "node_id message" where
  "node_id_message = \<lparr>msg_encode = (\<lambda>i. to_le (nid i)),
     msg_decode = (\<lambda>bs. if 4 \<le> length bs then Some (NodeID (from_le (take 4 bs)), drop 4 bs) else None)\<rparr>"

interpretation imn: im_node node_id_message watermark_any epoch_any unit_any messages_any
  by unfold_locales
    (simp_all add: any_law_def watermark_any_def epoch_any_def unit_any_def messages_any_def
      message_law_def node_id_message_def from_le_to_le usize_max_def)

text \<open>A backend that holds given contents.\<close>

definition node_backend ::
    "(node_id \<times> watermark) list \<Rightarrow> watermark \<Rightarrow> epoch \<Rightarrow> node_id list \<Rightarrow> u64 raw_message list \<Rightarrow> node_any in_memory" where
  "node_backend ws c e bs ms = \<lparr>im_data =
     [h_id watermarks_handle \<mapsto> map (\<lambda>(i, w). (to_le (nid i), AnyWatermark w)) ws,
      h_id current_watermark_handle \<mapsto> [([], AnyWatermark c)],
      h_id current_epoch_handle \<mapsto> [([], AnyEpoch e)],
      h_id blocked_channels_handle \<mapsto> map (\<lambda>i. (to_le (nid i), AnyUnit)) bs,
      h_id message_buffer_handle \<mapsto> [([], AnyMessages ms)]]\<rparr>"

lemma to_le_nid [simp]: "to_le (nid i) = to_le (nid j) \<longleftrightarrow> i = j"
  using message_inj [of node_id_message i j] imn.ids(1) by (auto simp: node_id_message_def)

lemma node_backend_content:
  "imn.wms (node_backend ws c e bs ms) = map_of ws"
  "imn.cur (node_backend ws c e bs ms) = Some c"
  "imn.ep (node_backend ws c e bs ms) = Some e"
  "imn.blk (node_backend ws c e bs ms) = (\<lambda>i. if i \<in> set bs then Some () else None)"
  "imn.buf (node_backend ws c e bs ms) = ms"
proof -
  have "map_of (map (\<lambda>(i, w). (to_le (nid i), AnyWatermark w)) ws) (to_le (nid k)) = map_option AnyWatermark (map_of ws k)" for k
    by (induction ws) auto
  moreover have "map_of (map (\<lambda>i. (to_le (nid i), AnyUnit)) bs) (to_le (nid k)) = (if k \<in> set bs then Some AnyUnit else None)" for k
    by (induction bs) auto
  ultimately show "imn.wms (node_backend ws c e bs ms) = map_of ws"
    "imn.cur (node_backend ws c e bs ms) = Some c" "imn.ep (node_backend ws c e bs ms) = Some e"
    "imn.blk (node_backend ws c e bs ms) = (\<lambda>i. if i \<in> set bs then Some () else None)"
    "imn.buf (node_backend ws c e bs ms) = ms"
    unfolding imn.wms_def imn.cur_def imn.ep_def imn.blk_def imn.buf_def map_content_def cell_content_def im_cell_def
      node_backend_def
    by (auto simp: fun_eq_iff handles_differ watermark_any_def epoch_any_def unit_any_def messages_any_def
        node_id_message_def bind_map_option comp_def split: option.split)
qed

lemma node_backend_ok:
  "distinct (map fst ws) \<Longrightarrow> distinct bs \<Longrightarrow> imn.tables_ok (node_backend ws c e bs ms)"
  unfolding imn.tables_ok_def map_ok_def cell_ok_def typed_state_def typed_table_def node_backend_def
  by (auto simp: handles_differ metakey_layout_def mapkey_layout_def watermark_any_def epoch_any_def unit_any_def
      messages_any_def node_id_message_def comp_def split_beta distinct_map inj_on_def)


definition demo_env ::
    "(channel_strategy \<times> (u64, unit) chan_world, unit, node_any in_memory, real option, u64, u64, unit) node_env" where
  "demo_env =
     \<lparr>ne_id = NodeID 9, ne_in_channels = [NodeID 1, NodeID 2], ne_checkpoint_dir = Some ''/tmp'',
      ne_state = im_node_state node_id_message watermark_any epoch_any unit_any messages_any,
      ne_operator = flat_map_new (strategy_add id (\<lambda>_ _ _. Ok ())) (\<lambda>x. [x]), ne_timer = unit_backend,
      ne_add = strategy_add id (\<lambda>_ _ _. Ok ()), ne_num_channels = (\<lambda>(c, w). num_channels c),
      ne_checkpoint = im_checkpoint, ne_floats = ideal_ops, ne_now = 0\<rparr>"

definition demo_node ::
    "node_any in_memory \<Rightarrow> (channel_strategy \<times> (u64, unit) chan_world, unit, node_any in_memory, real option) node" where
  "demo_node b =
     \<lparr>nd_ctx = operator_context_new (CS_Mute, \<lparr>bw_alloc = allocator_new 1000 (), bw_bufs = [], cw_mailbox = [], cw_consumed = [], cw_schedule = []\<rparr>) b (),
      nd_metrics = node_metrics_new ideal_ops 0, nd_metrics_borrowed = False, nd_suicide = False\<rparr>"

lemma demo_node_simps [simp]:
  "bk (demo_node b) = b" "nd_metrics_borrowed (demo_node b) = False"
  "ne_in_channels demo_env = [NodeID 1, NodeID 2]"
  by (simp_all add: demo_node_def operator_context_new_def demo_env_def)

interpretation demo: node_client demo_env imn.tables_ok imn.wms imn.cur imn.ep imn.blk imn.buf im_node_rest
  by (rule stateless_client) (simp_all add: demo_env_def imn.store)

text \<open>Its strategy is mute, so every output returns.\<close>

interpretation demo_live: live_client demo_env imn.tables_ok imn.wms imn.cur imn.ep imn.blk imn.buf im_node_rest
    "\<lambda>c. fst (oc_strategy c) = CS_Mute"
  by unfold_locales
    (auto simp: demo_env_def flat_map_new_def element_operator_def ignore_def unit_backend_def im_checkpoint_def
      ctx_timer_def ctx_output_def strategy_add_def return_s_def split: prod.splits)

lemma demo_marks:
  "\<exists>t. mark_n (ne_floats demo_env) (ne_now demo_env) k (nm_inbound_throughput (nd_metrics (demo_node b))) = (Ok (), t)"
proof -
  have "on_grid 0 [] 0" by (simp add: on_grid_def)
  from mark_n_at [OF this, of 0 0 0 k ideal_ops] show ?thesis
    using unsigned_less [of k] by (auto simp: demo_node_def demo_env_def node_metrics_new_def meter_at_new)
qed


text \<open>A node with two channels at the watermarks \<open>u\<close> and \<open>v\<close>.\<close>

definition demo_store :: "u64 \<Rightarrow> u64 \<Rightarrow> u64 \<Rightarrow> node_id list \<Rightarrow> u64 raw_message list \<Rightarrow> node_any in_memory" where
  "demo_store u v e bs ms =
     node_backend [(NodeID 1, Watermark u), (NodeID 2, Watermark v)] (Watermark (min u v)) (Epoch e) bs ms"

lemma ran_two: "i \<noteq> j \<Longrightarrow> ran [i \<mapsto> x, j \<mapsto> y] = {x, y}"
  by (auto simp: ran_def)

lemma Min_two: "Min {Watermark u, Watermark v} = Watermark (min u v)"
  by (simp add: min_def less_eq_watermark_def)

lemma demo_store_content:
  "imn.wms (demo_store u v e bs ms) = [NodeID 1 \<mapsto> Watermark u, NodeID 2 \<mapsto> Watermark v]"
  "imn.cur (demo_store u v e bs ms) = Some (Watermark (min u v))"
  "imn.ep (demo_store u v e bs ms) = Some (Epoch e)"
  "imn.blk (demo_store u v e bs ms) = (\<lambda>i. if i \<in> set bs then Some () else None)"
  "imn.buf (demo_store u v e bs ms) = ms"
  by (simp_all add: demo_store_def node_backend_content fun_upd_twist)

lemma demo_store_ok:
  assumes "distinct bs" "set bs \<subseteq> {NodeID 1, NodeID 2}" "rm_sender ` set ms \<subseteq> {NodeID 1, NodeID 2}"
  shows "imn.tables_ok (demo_store u v e bs ms)"
    and "view_ok [NodeID 1, NodeID 2] (node_view_of imn.wms imn.cur imn.ep imn.blk imn.buf (demo_store u v e bs ms))"
proof -
  show "imn.tables_ok (demo_store u v e bs ms)" using assms(1) by (simp add: demo_store_def node_backend_ok)
  show "view_ok [NodeID 1, NodeID 2] (node_view_of imn.wms imn.cur imn.ep imn.blk imn.buf (demo_store u v e bs ms))"
    using assms unfolding view_ok_def node_view_simps demo_store_content
    by (simp add: ran_two Min_two del: fun_upd_apply) (auto split: if_splits)
qed

section \<open>Properties\<close>

text \<open>C3: Watermarks. A watermark that does not exceed the one of its channel changes nothing. Any other
  becomes the watermark of the channel, and whichever of the early returns of the code is taken, the
  current watermark is afterwards the least watermark of all channels; it is passed on (operator,
  timer, output) exactly when it rose. Epoch, blocked channels, buffer and the rest of the backend stay.\<close>

theorem handle_watermark_is_least:
  assumes "node_system E I wms cur ep blk buf rest" and "I (bk n)"
    and "view_ok (ne_in_channels E) (node_view_of wms cur ep blk buf (bk n))" and "wms (bk n) s = Some old"
  shows "if w \<le> old then handle_watermark E s w n = (Ok (), n)
    else \<exists>b least. least = Min (ran ((wms (bk n))(s \<mapsto> w))) \<and> I b \<and> wms b = (wms (bk n))(s \<mapsto> w) \<and> cur b = Some least \<and>
      ep b = ep (bk n) \<and> blk b = blk (bk n) \<and> buf b = buf (bk n) \<and> rest b = rest (bk n) \<and>
      handle_watermark E s w n =
        (if the (cur (bk n)) < least then pass_watermark E least (set_bk b n) else (Ok (), set_bk b n))"
proof (cases "w \<le> old")
  case True
  then show ?thesis
    using node_system.channel_watermark_ok [OF assms(1,2,4)] by (simp add: handle_watermark_def)
next
  case False
  then have "old < w" by simp
  from node_system.handle_watermark_eq [OF assms(1) conjI [OF assms(2,3)] assms(4) this refl] False
  show ?thesis by auto
qed

theorem handle_watermark_is_least_witness:
  "\<exists>b. imn.cur b = Some (Watermark 5) \<and>
    handle_watermark demo_env (NodeID 1) (Watermark 7) (demo_node (demo_store 3 5 0 [] []))
      = pass_watermark demo_env (Watermark 5) (set_bk b (demo_node (demo_store 3 5 0 [] [])))"
proof -
  have "[NodeID 1 \<mapsto> Watermark 3, NodeID 2 \<mapsto> Watermark 5, NodeID 1 \<mapsto> Watermark 7]
      = [NodeID 1 \<mapsto> Watermark 7, NodeID 2 \<mapsto> Watermark 5]"
    by (simp add: fun_upd_twist)
  moreover have "imn.wms (demo_store 3 5 0 [] []) (NodeID 1) = Some (Watermark 3)" by (simp add: demo_store_content)
  ultimately show ?thesis
    using handle_watermark_is_least [OF demo.node_system_axioms, of "demo_node (demo_store 3 5 0 [] [])" "NodeID 1"
        "Watermark 3" "Watermark 7"]
    by (auto simp: demo_store_ok demo_store_content ran_two Min_two less_eq_watermark_def less_watermark_def
        simp del: fun_upd_apply split: if_splits)
qed


text \<open>C2: Epoch alignment. An epoch that is not newer than the current one changes nothing. Any other blocks
  its channel; the epoch becomes the current one and is completed (operator, timer, checkpoint,
  output, replay) exactly when every input channel is blocked by then; until then nothing else
  happens. Watermarks, buffer and the rest of the backend stay as they are.\<close>

theorem handle_epoch_aligns:
  assumes "node_system E I wms cur ep blk buf rest" and "I (bk n)"
    and "view_ok (ne_in_channels E) (node_view_of wms cur ep blk buf (bk n))"
    and "s \<in> set (ne_in_channels E)" and "ep (bk n) = Some e0"
  shows "if e \<le> e0 then handle_epoch E after s e n = (Ok (), n)
    else \<exists>b. I b \<and> wms b = wms (bk n) \<and> cur b = cur (bk n) \<and> blk b = (blk (bk n))(s \<mapsto> ()) \<and> buf b = buf (bk n) \<and>
      rest b = rest (bk n) \<and>
      (if set (ne_in_channels E) \<subseteq> dom (blk b)
       then ep b = Some e \<and> handle_epoch E after s e n = pass_epoch E after e (set_bk b n)
       else ep b = Some e0 \<and> handle_epoch E after s e n = (Ok (), set_bk b n))"
proof (cases "e \<le> e0")
  case True
  then show ?thesis
    using node_system.current_epoch_ok [OF assms(1,2,5)] by (simp add: handle_epoch_def)
next
  case False
  then have "e0 < e" by simp
  from node_system.handle_epoch_eq [OF assms(1) conjI [OF assms(2,3)] assms(4,5) this, of after]
  obtain b where b: "I b" "wms b = wms (bk n)" "cur b = cur (bk n)" "blk b = (blk (bk n))(s \<mapsto> ())"
      "buf b = buf (bk n)" "rest b = rest (bk n)"
      "if insert s (dom (blk (bk n))) = set (ne_in_channels E)
       then ep b = Some e \<and> handle_epoch E after s e n = pass_epoch E after e (set_bk b n)
       else ep b = Some e0 \<and> handle_epoch E after s e n = (Ok (), set_bk b n)"
    by blast
  have "dom (blk b) = insert s (dom (blk (bk n)))" "insert s (dom (blk (bk n))) \<subseteq> set (ne_in_channels E)"
    using assms(3,4) by (auto simp: b(4) view_ok_def)
  then have "set (ne_in_channels E) \<subseteq> dom (blk b) \<longleftrightarrow> insert s (dom (blk (bk n))) = set (ne_in_channels E)" by auto
  then show ?thesis using False b by (simp only: if_False simp_thms) (intro exI [of _ b], auto)
qed

theorem handle_epoch_aligns_witness:
  "\<exists>b b'. handle_epoch demo_env (return_s ()) (NodeID 1) (Epoch 1) (demo_node (demo_store 3 5 0 [] []))
      = (Ok (), set_bk b (demo_node (demo_store 3 5 0 [] []))) \<and>
    handle_epoch demo_env (return_s ()) (NodeID 1) (Epoch 1) (demo_node (demo_store 3 5 0 [NodeID 2] []))
      = pass_epoch demo_env (return_s ()) (Epoch 1) (set_bk b' (demo_node (demo_store 3 5 0 [NodeID 2] [])))"
proof -
  have "\<exists>b. handle_epoch demo_env (return_s ()) (NodeID 1) (Epoch 1) (demo_node (demo_store 3 5 0 [] []))
      = (Ok (), set_bk b (demo_node (demo_store 3 5 0 [] [])))"
    using handle_epoch_aligns [OF demo.node_system_axioms, of "demo_node (demo_store 3 5 0 [] [])" "NodeID 1" "Epoch 0"
        "Epoch 1" "return_s ()"]
    by (auto simp: demo_store_ok demo_store_content less_eq_epoch_def dom_def split: if_splits)
  moreover have "\<exists>b. handle_epoch demo_env (return_s ()) (NodeID 1) (Epoch 1) (demo_node (demo_store 3 5 0 [NodeID 2] []))
      = pass_epoch demo_env (return_s ()) (Epoch 1) (set_bk b (demo_node (demo_store 3 5 0 [NodeID 2] [])))"
    using handle_epoch_aligns [OF demo.node_system_axioms, of "demo_node (demo_store 3 5 0 [NodeID 2] [])" "NodeID 1"
        "Epoch 0" "Epoch 1" "return_s ()"]
    by (auto simp: demo_store_ok demo_store_content less_eq_epoch_def dom_def split: if_splits)
  ultimately show ?thesis by blast
qed

text \<open>C7: Messages. A message from a node that is no input channel is refused with an error and changes
  nothing. Any other is first counted by the throughput meter. When the meter panics (a clock that went
  back, a count that overflows), the handler panics with it, and no event has been handled or buffered.
  Otherwise a message of a blocked channel is appended to the buffer, and no event of it is handled, while
  any other message is handled at once, in the node that differs from the one before in its meter only.\<close>

theorem handle_raw_msg_routes:
  assumes "node_client E I wms cur ep blk buf rest" and "I (bk n)" and "\<not> nd_metrics_borrowed n"
  shows "if rm_sender m \<notin> set (ne_in_channels E)
    then handle_raw_msg E m n = (Err (new_arcon ''Message from invalid sender''), n)
    else \<exists>r t. mark_n (ne_floats E) (ne_now E) (word_of_nat (length (rm_events m))) (nm_inbound_throughput (nd_metrics n)) = (r, t) \<and>
      (case r of
         Ok _ \<Rightarrow>
           if blk (bk n) (rm_sender m) = None
           then handle_raw_msg E m n = handle_events E 2 (rm_sender m) (rm_events m) (set_throughput t n)
           else \<exists>b. handle_raw_msg E m n = (Ok (), set_bk b (set_throughput t n)) \<and> I b \<and> buf b = buf (bk n) @ [m] \<and>
             wms b = wms (bk n) \<and> cur b = cur (bk n) \<and> ep b = ep (bk n) \<and> blk b = blk (bk n) \<and> rest b = rest (bk n)
       | Panic p \<Rightarrow> handle_raw_msg E m n = (Panic p, set_throughput t n)
       | _ \<Rightarrow> False)"
proof (cases "rm_sender m \<in> set (ne_in_channels E)")
  case True
  let ?mark = "mark_n (ne_floats E) (ne_now E) (word_of_nat (length (rm_events m))) (nm_inbound_throughput (nd_metrics n))"
  from mark_n_outcome consider "?mark = (Ok (), snd ?mark)" | p where "?mark = (Panic p, snd ?mark)" by metis
  then show ?thesis
  proof cases
    case 1
    from node_client.message_cases [OF assms True 1 refl] 1 True show ?thesis
      by (simp only: simp_thms if_False) (intro exI conjI, assumption, simp)
  next
    case 2
    from mark_panics [OF True assms(3) 2] 2 True show ?thesis
      by (simp only: simp_thms if_False) (intro exI conjI, assumption, simp)
  qed
next
  case False
  then show ?thesis by (simp add: handle_raw_msg_def)
qed

theorem handle_raw_msg_routes_witness:
  "\<exists>n1 b. handle_raw_msg demo_env \<lparr>rm_events = [], rm_sender = NodeID 1\<rparr> (demo_node (demo_store 3 5 0 [NodeID 1] []))
      = (Ok (), set_bk b n1) \<and> imn.buf b = [\<lparr>rm_events = [], rm_sender = NodeID 1\<rparr>]"
proof -
  let ?n = "demo_node (demo_store 3 5 0 [NodeID 1] [])" and ?m = "\<lparr>rm_events = [], rm_sender = NodeID 1\<rparr> :: u64 raw_message"
  obtain t where "mark_n (ne_floats demo_env) (ne_now demo_env) (word_of_nat (length (rm_events ?m)))
      (nm_inbound_throughput (nd_metrics ?n)) = (Ok (), t)"
    using demo_marks by blast
  then show ?thesis
    using handle_raw_msg_routes [OF demo.node_client_axioms, of ?n ?m]
    by (auto simp: demo_store_ok demo_store_content split: if_splits)
qed

text \<open>C1: Every message that is handled without an error keeps the node consistent: each input channel has
  a watermark, the current watermark is the least of them, blocked channels and buffered messages
  belong to the input channels, and some channel is not blocked, so that alignment can never be left
  complete. No watermark of a channel, no current watermark and no epoch falls.\<close>

theorem handle_raw_msg_keeps_view:
  assumes "node_client E I wms cur ep blk buf rest" and "I (bk n)" and "\<not> nd_metrics_borrowed n"
    and "view_ready (ne_in_channels E) (node_view_of wms cur ep blk buf (bk n))"
    and "handle_raw_msg E m n = (Ok r, n')"
  shows "I (bk n') \<and> \<not> nd_metrics_borrowed n' \<and> view_ready (ne_in_channels E) (node_view_of wms cur ep blk buf (bk n')) \<and>
    view_le (node_view_of wms cur ep blk buf (bk n)) (node_view_of wms cur ep blk buf (bk n'))"
proof -
  have "onb (node_client.ready E I wms cur ep blk buf (node_view_of wms cur ep blk buf (bk n))) n"
    using assms(2,4) by (simp add: onb_def node_client.ready_def [OF assms(1)])
  from node_client.message_ready [OF assms(1,5,3) this]
  have "I (bk n') \<and> view_ready (ne_in_channels E) (node_view_of wms cur ep blk buf (bk n')) \<and>
      view_le (node_view_of wms cur ep blk buf (bk n)) (node_view_of wms cur ep blk buf (bk n'))"
    by (simp add: onb_def node_client.ready_def [OF assms(1)])
  moreover have "\<not> nd_metrics_borrowed n'" using assms(3,5) keeps_flag_msg [of E m] by (metis keeps_flag_def snd_conv)
  ultimately show ?thesis by blast
qed


theorem handle_raw_msg_keeps_view_witness:
  "\<exists>n'. handle_raw_msg demo_env \<lparr>rm_events = [wrap_event (ElementEv (element_with_timestamp 1 2))], rm_sender = NodeID 1\<rparr>
      (demo_node (demo_store 3 5 0 [] [])) = (Ok (), n') \<and>
    view_ready [NodeID 1, NodeID 2] (node_view_of imn.wms imn.cur imn.ep imn.blk imn.buf (bk n'))"
proof -
  let ?n = "demo_node (demo_store 3 5 0 [] [])"
  let ?m = "\<lparr>rm_events = [wrap_event (ElementEv (element_with_timestamp 1 2))], rm_sender = NodeID 1\<rparr> :: u64 raw_message"
  have late: "handle_events demo_env 2 (NodeID 1) (rm_events ?m) n1 = (Ok (), n1)" if "bk n1 = demo_store 3 5 0 [] []" for n1
  proof -
    have "handle_element demo_env (NodeID 1) (element_with_timestamp 1 2) n1 = (Ok (), n1)"
      using that demo.handle_element_eq [of n1 "NodeID 1" "Watermark 3"]
      by (simp add: demo_store_ok demo_store_content element_with_timestamp_def)
    then show ?thesis by (simp add: handle_event_def numeral_eq_Suc bind_s_run)
  qed
  obtain t where "mark_n (ne_floats demo_env) (ne_now demo_env) (word_of_nat (length (rm_events ?m)))
      (nm_inbound_throughput (nd_metrics ?n)) = (Ok (), t)"
    using demo_marks by blast
  from demo.message_cases [OF _ _ _ this refl]
  have run: "handle_raw_msg demo_env ?m ?n = (Ok (), set_throughput t ?n)"
    using late [of "set_throughput t ?n"] by (simp add: demo_store_ok demo_store_content)
  have "view_ready (ne_in_channels demo_env) (node_view_of imn.wms imn.cur imn.ep imn.blk imn.buf (bk ?n))"
    by (auto simp: view_ready_def demo_store_ok demo_store_content dom_def)
  from handle_raw_msg_keeps_view [OF demo.node_client_axioms _ _ this run] run show ?thesis
    by (auto simp: demo_store_ok)
qed

text \<open>C4: \<^verbatim>\<open>handle_events\<close> and \<^verbatim>\<open>after_state_save\<close> call each other, but the recursion ends at the second level:
  a node that is not inside of a metrics guard computes the same whatever is done when a replayed
  message completes a further epoch, because that point is never reached.\<close>

theorem handle_events_depth:
  assumes "\<not> nd_metrics_borrowed n"
  shows "handle_events E (Suc d) s evs n = event_loop E (after_state_save E (event_loop E stop)) s evs n"
proof -
  have "agree False (handle_events E (Suc d) s evs) (event_loop E (after_state_save E (event_loop E stop)) s evs)"
    by (cases d) (simp_all add: cut_off_unreachable)
  then show ?thesis using assms by (simp add: agree_def)
qed

theorem handle_events_depth_witness:
  "handle_events demo_env (Suc 1) (NodeID 1) [wrap_event (EpochEv (Epoch 1))] (demo_node (demo_store 3 5 0 [NodeID 2] []))
    = handle_events demo_env (Suc 6) (NodeID 1) [wrap_event (EpochEv (Epoch 1))] (demo_node (demo_store 3 5 0 [NodeID 2] []))"
proof -
  have "\<not> nd_metrics_borrowed (demo_node (demo_store 3 5 0 [NodeID 2] []))" by simp
  note depth = handle_events_depth [OF this, of demo_env _ "NodeID 1" "[wrap_event (EpochEv (Epoch 1))]" "return_s ()"]
  show ?thesis unfolding depth ..
qed

text \<open>C6: After the checkpoint of an epoch every channel is open again, the buffer is empty, and the buffered
  messages are handled one after the other in the order of their arrival, with the watermarks, the
  current epoch and the rest of the backend as they were.\<close>

theorem after_state_save_replays:
  assumes "node_system E I wms cur ep blk buf rest" and "I (bk n)"
  shows "\<exists>b. after_state_save E h n = replay_buffer h (buf (bk n)) (set_bk b n) \<and> I b \<and> blk b = Map.empty \<and> buf b = [] \<and>
    wms b = wms (bk n) \<and> cur b = cur (bk n) \<and> ep b = ep (bk n) \<and> rest b = rest (bk n)"
  using node_system.after_state_save_eq [OF assms, of h] by blast

theorem after_state_save_replays_witness:
  "\<exists>b. after_state_save demo_env (handle_events demo_env 2)
      (demo_node (demo_store 3 5 1 [NodeID 1, NodeID 2] [\<lparr>rm_events = [], rm_sender = NodeID 2\<rparr>]))
      = (Ok (), set_bk b (demo_node (demo_store 3 5 1 [NodeID 1, NodeID 2] [\<lparr>rm_events = [], rm_sender = NodeID 2\<rparr>]))) \<and>
    imn.blk b = Map.empty \<and> imn.buf b = []"
  using after_state_save_replays [OF demo.node_system_axioms,
      of "demo_node (demo_store 3 5 1 [NodeID 1, NodeID 2] [\<lparr>rm_events = [], rm_sender = NodeID 2\<rparr>])" "handle_events demo_env 2"]
  by (auto simp: demo_store_ok demo_store_content numeral_eq_Suc)

text \<open>C5: The completion of an epoch panics when the first buffered message begins with a watermark that raises the
  current watermark: the metrics are still borrowed for the epoch when the replay borrows them for the
  watermark, and the panic is that of the second borrow. Nothing else is to blame: the hypotheses say that
  there is a checkpoint directory, that the checkpoint and every call of the operator, the timer and the
  channel strategy return, and that the epoch counter has room.\<close>

theorem epoch_completion_stuck:
  assumes "live_client E I wms cur ep blk buf rest J" and "I (bk n)" "J (nd_ctx n)" and "\<not> nd_metrics_borrowed n"
    and "unat (nm_epoch_counter (nd_metrics n)) + 1 < 2 ^ 128"
    and "view_ok (ne_in_channels E) (node_view_of wms cur ep blk buf (bk n))"
    and "s \<in> set (ne_in_channels E)" "insert s (dom (blk (bk n))) = set (ne_in_channels E)"
    and "ep (bk n) = Some e0" "e0 < e"
    and "buf (bk n) = m # ms" "rm_events m = wrap_event (WatermarkEv w) # evs"
    and "wms (bk n) (rm_sender m) = Some old" "old < w"
    and "the (cur (bk n)) < Min (ran ((wms (bk n))(rm_sender m \<mapsto> w)))"
  shows "fst (handle_epoch E (after_state_save E (handle_events E d)) s e n) = Panic ''already borrowed: BorrowMutError''"
proof -
  have "node_client E I wms cur ep blk buf rest" using assms(1) by (simp add: live_client_def)
  then have "live_client.calm I wms cur ep blk buf J (node_view_of wms cur ep blk buf (bk n)) False 1 n"
    using assms(2-5) by (simp add: live_client.calm_def [OF assms(1)] onb_def node_client.same_def)
  from live_client.epoch_replay_panics [OF assms(1) conjI [OF assms(2,6)] this assms(7-15)] show ?thesis .
qed

theorem epoch_completion_stuck_witness:
  "fst (handle_epoch demo_env (after_state_save demo_env (handle_events demo_env 1)) (NodeID 2) (Epoch 1)
     (demo_node (demo_store 3 5 0 [NodeID 1] [\<lparr>rm_events = [wrap_event (WatermarkEv (Watermark 4))], rm_sender = NodeID 1\<rparr>])))
    = Panic ''already borrowed: BorrowMutError''"
proof -
  have old: "[NodeID 1 \<mapsto> Watermark 3, NodeID 2 \<mapsto> Watermark 5] (NodeID 1) = Some (Watermark 3)" by simp
  have least: "Min (ran [NodeID 2 \<mapsto> Watermark 5, NodeID 1 \<mapsto> Watermark 4]) = Watermark 4"
    by (simp add: ran_two Min_two del: fun_upd_apply)
  have mute: "fst (oc_strategy (nd_ctx (demo_node b))) = CS_Mute" "nm_epoch_counter (nd_metrics (demo_node b)) = 0" for b
    by (simp_all add: demo_node_def operator_context_new_def node_metrics_new_def)
  show ?thesis
    by (rule epoch_completion_stuck [OF demo_live.live_client_axioms, where old = "Watermark 3"])
      (auto simp: old least mute demo_store_ok demo_store_content less_watermark_def less_epoch_def
        simp del: fun_upd_apply split: if_splits)
qed

end
