(* ===== verification/Node_Creation.thy ===== *)
theory Node_Creation
  imports Node_Backend
begin

text \<open>
  \<^verbatim>\<open>Node::new\<close>: a node that starts on an empty backend is consistent, and a node that starts on the
  backend of a checkpoint continues with the states that were stored.
\<close>

section \<open>Creation of a node\<close>

text \<open>The states of a node that was never started, and what \<^verbatim>\<open>Node::new\<close> adds to stored states.\<close>

definition empty_view :: "'i node_view" where
  "empty_view = \<lparr>nv_watermarks = Map.empty, nv_current = None, nv_epoch = None, nv_blocked = {}, nv_buffer = []\<rparr>"

definition filled_view :: "node_id list \<Rightarrow> 'i node_view \<Rightarrow> 'i node_view" where
  "filled_view chans v = v
     \<lparr>nv_watermarks := (\<lambda>i. if i \<in> set chans \<and> nv_watermarks v i = None then Some (Watermark 0) else nv_watermarks v i),
      nv_current := Some (case nv_current v of None \<Rightarrow> Watermark 0 | Some w \<Rightarrow> w),
      nv_epoch := Some (case nv_epoch v of None \<Rightarrow> Epoch 0 | Some e \<Rightarrow> e)\<rparr>"

lemma filled_empty_ready:
  assumes "chans \<noteq> []" "distinct chans"
  shows "view_ready chans (filled_view chans empty_view)"
proof -
  have "ran (\<lambda>i. if i \<in> set chans then Some (Watermark 0) else None) = {Watermark 0}"
    using assms(1) by (cases chans) (auto simp: ran_def)
  moreover have "dom (\<lambda>i. if i \<in> set chans then Some (Watermark 0) else None) = set chans" by (auto simp: dom_def)
  ultimately show ?thesis
    using assms by (simp add: view_ready_def view_ok_def filled_view_def empty_view_def cong: if_cong)
qed

lemma filled_ok_same: "view_ok chans v \<Longrightarrow> filled_view chans v = v"
  by (cases v) (auto simp: filled_view_def view_ok_def fun_eq_iff)

lemma init_value_ok:
  assumes "value_state H I val frame" "I b"
  shows "\<exists>b'. init_value m m' H v (t, b) = (Ok (), (t, b')) \<and> I b' \<and>
    val b' = Some (case val b of None \<Rightarrow> v | Some x \<Rightarrow> x) \<and> frame b' = frame b"
  using value_state.vget [OF assms] value_state.vset [OF assms, of v] assms(2)
  by (auto simp: init_value_def on_backend_def bind_s_def split: option.split)

lemma inc_n_zero: "inc_n k 0 = Ok (word_of_nat k)"
  using unsigned_less [of "word_of_nat k :: u128"] by (simp add: inc_n_def add_u_def)

context node_store
begin

lemma init_watermarks_ok:
  "I b \<Longrightarrow> \<exists>b'. init_watermarks S chans (t, b) = (Ok (), (t, b')) \<and> I b' \<and>
    wms b' = (\<lambda>i. if i \<in> set chans \<and> wms b i = None then Some (Watermark 0) else wms b i) \<and>
    cur b' = cur b \<and> ep b' = ep b \<and> blk b' = blk b \<and> buf b' = buf b"
proof (induction chans arbitrary: b)
  case (Cons c cs)
  show ?case
  proof (cases "wms b c = None")
    case True
    obtain b1 where b1: "mo_fast_insert (ns_watermarks S) c (Watermark 0) b = (Ok (), b1)" "I b1"
        "wms b1 = (wms b)(c \<mapsto> Watermark 0)" "cur b1 = cur b" "ep b1 = ep b" "blk b1 = blk b" "buf b1 = buf b"
      using wm.mfast_insert [OF Cons.prems, of c "Watermark 0"] by auto
    from Cons.IH [OF b1(2)] show ?thesis using True b1 wm.mcontains [OF Cons.prems, of c]
      by (auto simp: on_backend_def bind_s_def fun_eq_iff)
  next
    case False
    from Cons.IH [OF Cons.prems] show ?thesis using False wm.mcontains [OF Cons.prems, of c]
      by (auto simp: on_backend_def bind_s_def fun_eq_iff)
  qed
qed (simp add: return_s_def)

lemma node_init_ok:
  assumes "I b"
  shows "\<exists>b'. bind_s (init_watermarks S chans) (\<lambda>_.
      bind_s (init_value m1 m2 (ns_current_watermark S) (Watermark 0)) (\<lambda>_.
      bind_s (init_value m3 m4 (ns_current_epoch S) (Epoch 0)) k)) (t, b) = k () (t, b') \<and> I b' \<and>
    node_view_of wms cur ep blk buf b' = filled_view chans (node_view_of wms cur ep blk buf b)"
proof -
  obtain b1 where b1: "init_watermarks S chans (t, b) = (Ok (), (t, b1))" "I b1"
      "wms b1 = (\<lambda>i. if i \<in> set chans \<and> wms b i = None then Some (Watermark 0) else wms b i)"
      "cur b1 = cur b" "ep b1 = ep b" "blk b1 = blk b" "buf b1 = buf b"
    using init_watermarks_ok [OF assms, of chans t] by auto
  obtain b2 where b2: "init_value m1 m2 (ns_current_watermark S) (Watermark 0) (t, b1) = (Ok (), (t, b2))" "I b2"
      "cur b2 = Some (case cur b1 of None \<Rightarrow> Watermark 0 | Some x \<Rightarrow> x)"
      "wms b2 = wms b1" "ep b2 = ep b1" "blk b2 = blk b1" "buf b2 = buf b1"
    using init_value_ok [OF cw.value_state_axioms b1(2), of m1 m2 "Watermark 0" t] by auto
  obtain b3 where b3: "init_value m3 m4 (ns_current_epoch S) (Epoch 0) (t, b2) = (Ok (), (t, b3))" "I b3"
      "ep b3 = Some (case ep b2 of None \<Rightarrow> Epoch 0 | Some x \<Rightarrow> x)"
      "wms b3 = wms b2" "cur b3 = cur b2" "blk b3 = blk b2" "buf b3 = buf b2"
    using init_value_ok [OF ce.value_state_axioms b2(2), of m3 m4 "Epoch 0" t] by auto
  have "node_view_of wms cur ep blk buf b3 = filled_view chans (node_view_of wms cur ep blk buf b)"
    by (simp add: filled_view_def node_view_of_def b1(3-) b2(3-) b3(3-) cong: if_cong)
  then show ?thesis using b3(2) by (intro exI [of _ b3]) (simp add: bind_s_def b1(1) b2(1) b3(1))
qed

end

section \<open>Properties\<close>

text \<open>C8: A new node. When timer and operator start, \<^verbatim>\<open>Node::new\<close> returns a node that has taken up the stored
  states and filled in only what was missing: watermark zero for every channel without one, and zero
  for a missing current watermark or epoch. On empty states the node is consistent and ready, on
  consistent states they are unchanged; its metrics hold a new meter and the number
  of its channels.\<close>

theorem node_new_starts:
  assumes "node_store (ne_state E) I wms cur ep blk buf rest"
    and "tb_init (ne_timer E) (t, reg b) = (Ok (), (t1, b1))" "I b1"
    and "\<forall>x. I x \<longrightarrow> (\<exists>y. op_init (ne_operator E) x = (Ok (), y) \<and> I y \<and>
      node_view_of wms cur ep blk buf y = node_view_of wms cur ep blk buf x)"
    and "ne_in_channels E \<noteq> []" "distinct (ne_in_channels E)"
  shows "\<exists>n. node_new E reg c t b = Ok n \<and> I (bk n) \<and> oc_strategy (nd_ctx n) = c \<and> oc_timer (nd_ctx n) = t1 \<and>
    \<not> nd_metrics_borrowed n \<and> \<not> nd_suicide n \<and>
    nm_inbound_throughput (nd_metrics n) = meter_new (ne_floats E) (ne_now E) \<and>
    nm_inbound_channels (nd_metrics n) = word_of_nat (length (ne_in_channels E)) \<and>
    nm_outbound_channels (nd_metrics n) = word_of_nat (ne_num_channels E c) \<and>
    node_view_of wms cur ep blk buf (bk n) = filled_view (ne_in_channels E) (node_view_of wms cur ep blk buf b1) \<and>
    (node_view_of wms cur ep blk buf b1 = empty_view \<longrightarrow>
      view_ready (ne_in_channels E) (node_view_of wms cur ep blk buf (bk n))) \<and>
    (view_ok (ne_in_channels E) (node_view_of wms cur ep blk buf b1) \<longrightarrow>
      node_view_of wms cur ep blk buf (bk n) = node_view_of wms cur ep blk buf b1)"
proof -
  obtain b2 where b2: "bind_s (init_watermarks (ne_state E) (ne_in_channels E)) (\<lambda>_.
        bind_s (init_value ''watermark get error'' ''watermark set error'' (ns_current_watermark (ne_state E)) (Watermark 0)) (\<lambda>_.
        bind_s (init_value ''current epoch get error'' ''current epoch set error'' (ns_current_epoch (ne_state E)) (Epoch 0))
          (\<lambda>_. init_operator (ne_operator E)))) (t1, b1) = init_operator (ne_operator E) (t1, b2)" "I b2"
      "node_view_of wms cur ep blk buf b2 = filled_view (ne_in_channels E) (node_view_of wms cur ep blk buf b1)"
    using node_store.node_init_ok [OF assms(1,3), where t = t1 and k = "\<lambda>_. init_operator (ne_operator E)"] by metis
  obtain b3 where b3: "op_init (ne_operator E) b2 = (Ok (), b3)" "I b3"
      "node_view_of wms cur ep blk buf b3 = node_view_of wms cur ep blk buf b2"
    using assms(4) b2(2) by blast
  have inc: "inc_n k 0 = Ok (word_of_nat k)" for k by (rule inc_n_zero)
  show ?thesis
    unfolding node_new_def
    using b2 b3 assms(2)
    by (simp add: bind_s_def [of "tb_init _"] init_operator_def inc operator_context_new_def node_metrics_new_def
        filled_empty_ready [OF assms(5,6)] filled_ok_same)
qed


text \<open>Registration of the node's states on an in-memory backend.\<close>

definition im_register_node :: "'d in_memory \<Rightarrow> 'd in_memory" where
  "im_register_node b = foldl (\<lambda>b h. snd (im_register h b)) b
     [watermarks_handle, current_watermark_handle, current_epoch_handle, blocked_channels_handle, message_buffer_handle]"

lemma im_register_node_create:
  "im_data (im_register_node im_create) = [h_id watermarks_handle \<mapsto> [], h_id current_watermark_handle \<mapsto> [],
     h_id current_epoch_handle \<mapsto> [], h_id blocked_channels_handle \<mapsto> [], h_id message_buffer_handle \<mapsto> []]"
  by (simp add: im_register_node_def im_register_def im_create_def handles_differ)

lemma im_register_node_empty:
  "imn.tables_ok (im_register_node im_create)"
  "node_view_of imn.wms imn.cur imn.ep imn.blk imn.buf (im_register_node im_create) = empty_view"
proof -
  show "imn.tables_ok (im_register_node im_create)"
    unfolding imn.tables_ok_def map_ok_def cell_ok_def typed_state_def typed_table_def im_register_node_create
    by (simp add: handles_differ)
  show "node_view_of imn.wms imn.cur imn.ep imn.blk imn.buf (im_register_node im_create) = empty_view"
    unfolding node_view_of_def empty_view_def imn.wms_def imn.cur_def imn.ep_def imn.blk_def imn.buf_def map_content_def
      cell_content_def im_cell_def im_register_node_create
    by (simp add: handles_differ fun_eq_iff dom_def)
qed

theorem node_new_starts_witness:
  "\<exists>n. node_new demo_env im_register_node (oc_strategy (nd_ctx (demo_node im_create))) () im_create = Ok n \<and>
    view_ready [NodeID 1, NodeID 2] (node_view_of imn.wms imn.cur imn.ep imn.blk imn.buf (bk n))"
proof -
  have "node_store (ne_state demo_env) imn.tables_ok imn.wms imn.cur imn.ep imn.blk imn.buf im_node_rest"
    using demo.node_store_axioms .
  moreover have "op_init (ne_operator demo_env) = return_s ()" "tb_init (ne_timer demo_env) = return_s ()"
    by (simp_all add: demo_env_def flat_map_new_def element_operator_def unit_backend_def)
  ultimately show ?thesis
    using node_new_starts [of demo_env imn.tables_ok imn.wms imn.cur imn.ep imn.blk imn.buf im_node_rest "()" im_register_node
        im_create "()" "im_register_node im_create" "oc_strategy (nd_ctx (demo_node im_create))"]
    by (auto simp: im_register_node_empty)
qed

end
