(* ===== verification/Windows.thy ===== *)
theory Windows
  imports Operators
begin

text \<open>
  Model of \<^verbatim>\<open>src/stream/operator/window/mod.rs\<close> and \<^verbatim>\<open>src/stream/operator/window/event_time.rs\<close>:
  windows that keep a buffer or an accumulator per key and window index, and the operator that
  assigns elements to the event-time windows that contain them and emits a window when its timer
  fires. A handle is activated by a parameter (what a backend does with it); the state of the
  assigner is the start of the first window of each key and the set of windows that are active.
\<close>

section \<open>Windows\<close>

record window_context =
  wc_key :: u64
  wc_index :: u64

definition window_context_new :: "u64 \<Rightarrow> u64 \<Rightarrow> window_context" where
  "window_context_new key index = \<lparr>wc_key = key, wc_index = index\<rparr>"

record ('b, 'i, 'o) window =
  wd_on_element :: "'i \<Rightarrow> window_context \<Rightarrow> ('b, arcon_error, unit) action"
  wd_result :: "window_context \<Rightarrow> ('b, arcon_error, 'o) action"
  wd_clear :: "window_context \<Rightarrow> ('b, arcon_error, unit) action"

text \<open>A state operation with \<^verbatim>\<open>?\<close>, and with \<^verbatim>\<open>expect\<close>.\<close>

definition try_state :: "('b, arcon_state_error, 'a) action \<Rightarrow> ('b, arcon_error, 'a) action" where
  "try_state m b = (case m b of (r, b') \<Rightarrow> (map_err from_state_error r, b'))"

definition expecting :: "string \<Rightarrow> ('b, 'x, 'a) action \<Rightarrow> ('b, arcon_error, 'a) action" where
  "expecting msg m b = (case m b of (r, b') \<Rightarrow> (expect msg r, b'))"

text \<open>\<^verbatim>\<open>set_item_key(ctx.key)\<close> and \<^verbatim>\<open>set_namespace(ctx.index)\<close>.\<close>

definition for_window :: "window_context \<Rightarrow> (u64, u64, 'x) handle \<Rightarrow> (u64, u64, 'x) handle" where
  "for_window ctx h = set_namespace (wc_index ctx) (set_item_key (wc_key ctx) h)"

definition appender_buffer :: "(u64, u64, unit) handle" where
  "appender_buffer = with_namespace 0 (with_item_key 0 (vec_handle ''appender_window_buffer''))"

definition appender_on_element ::
    "((u64, u64, unit) handle \<Rightarrow> ('b, 'i) vec_ops) \<Rightarrow> 'i \<Rightarrow> window_context \<Rightarrow> ('b, arcon_error, unit) action" where
  "appender_on_element act_h element ctx =
     try_state (ve_append (act_h (for_window ctx appender_buffer)) element)"

definition appender_result ::
    "((u64, u64, unit) handle \<Rightarrow> ('b, 'i) vec_ops) \<Rightarrow> ('i list \<Rightarrow> 'o) \<Rightarrow> window_context
      \<Rightarrow> ('b, arcon_error, 'o) action" where
  "appender_result act_h materializer ctx =
     bind_s (try_state (query (ve_get (act_h (for_window ctx appender_buffer))))) (\<lambda>buf.
     return_s (materializer buf))"

definition appender_clear ::
    "((u64, u64, unit) handle \<Rightarrow> ('b, 'i) vec_ops) \<Rightarrow> window_context \<Rightarrow> ('b, arcon_error, unit) action" where
  "appender_clear act_h ctx = try_state (ve_clear (act_h (for_window ctx appender_buffer)))"

definition appender_window ::
    "((u64, u64, unit) handle \<Rightarrow> ('b, 'i) vec_ops) \<Rightarrow> ('i list \<Rightarrow> 'o) \<Rightarrow> ('b, 'i, 'o) window" where
  "appender_window act_h materializer =
     \<lparr>wd_on_element = appender_on_element act_h, wd_result = appender_result act_h materializer,
      wd_clear = appender_clear act_h\<rparr>"

definition incremental_aggregator ::
    "('i \<Rightarrow> 'o) \<Rightarrow> ('i \<Rightarrow> 'o \<Rightarrow> 'o) \<Rightarrow> ('i, 'o option, 'o) aggregator" where
  "incremental_aggregator init agg =
     \<lparr>create_accumulator = None,
      agg_add = (\<lambda>acc v. case acc of None \<Rightarrow> Some (init v) | Some inner \<Rightarrow> Some (agg v inner)),
      merge_accumulators = (\<lambda>_ _. Panic ''not implemented''),
      accumulator_into_result = unwrap_or_panic ''uninitialized incremental window''\<rparr>"

type_synonym ('i, 'o) incremental_handle = "(u64, u64, ('i, 'o option, 'o) aggregator) handle"

definition incremental_handle :: "('i \<Rightarrow> 'o) \<Rightarrow> ('i \<Rightarrow> 'o \<Rightarrow> 'o) \<Rightarrow> ('i, 'o) incremental_handle" where
  "incremental_handle init agg =
     with_namespace 0 (with_item_key 0
       (aggregator_handle ''incremental_window_aggregating_state'' (incremental_aggregator init agg)))"

definition incremental_on_element ::
    "(('i, 'o) incremental_handle \<Rightarrow> ('b, 'i, 'o) aggregator_ops) \<Rightarrow> ('i, 'o) incremental_handle \<Rightarrow> 'i
      \<Rightarrow> window_context \<Rightarrow> ('b, arcon_error, unit) action" where
  "incremental_on_element act_h h element ctx =
     try_state (ao_aggregate (act_h (for_window ctx h)) element)"

definition incremental_result ::
    "(('i, 'o) incremental_handle \<Rightarrow> ('b, 'i, 'o) aggregator_ops) \<Rightarrow> ('i, 'o) incremental_handle
      \<Rightarrow> window_context \<Rightarrow> ('b, arcon_error, 'o) action" where
  "incremental_result act_h h ctx = try_state (query (ao_get (act_h (for_window ctx h))))"

definition incremental_clear ::
    "(('i, 'o) incremental_handle \<Rightarrow> ('b, 'i, 'o) aggregator_ops) \<Rightarrow> ('i, 'o) incremental_handle
      \<Rightarrow> window_context \<Rightarrow> ('b, arcon_error, unit) action" where
  "incremental_clear act_h h ctx = try_state (ao_clear (act_h (for_window ctx h)))"

definition incremental_window ::
    "(('i, 'o) incremental_handle \<Rightarrow> ('b, 'i, 'o) aggregator_ops) \<Rightarrow> ('i \<Rightarrow> 'o) \<Rightarrow> ('i \<Rightarrow> 'o \<Rightarrow> 'o)
      \<Rightarrow> ('b, 'i, 'o) window" where
  "incremental_window act_h init agg =
     \<lparr>wd_on_element = incremental_on_element act_h (incremental_handle init agg),
      wd_result = incremental_result act_h (incremental_handle init agg),
      wd_clear = incremental_clear act_h (incremental_handle init agg)\<rparr>"

section \<open>Event-time windows\<close>

record window_event =
  we_key :: u64
  we_index :: u64
  we_timestamp :: u64

definition window_event_new :: "u64 \<Rightarrow> u64 \<Rightarrow> u64 \<Rightarrow> window_event" where
  "window_event_new key index ts = \<lparr>we_key = key, we_index = index, we_timestamp = ts\<rparr>"

record key_and_index =
  ki_key :: u64
  ki_index :: u64

definition window_start_handle :: "(u64, unit, unit) handle" where
  "window_start_handle = with_item_key 0 (value_handle ''window_start'')"

definition active_windows_handle :: "(unit, unit, unit) handle" where
  "active_windows_handle = map_handle ''active_windows''"

record 'b assigner_state =
  as_window_start :: "(u64, unit, unit) handle \<Rightarrow> ('b, u64) value_ops"
  as_active_windows :: "('b, key_and_index, unit) map_ops"

definition window_start :: "'b assigner_state \<Rightarrow> u64 \<Rightarrow> ('b, u64) value_ops" where
  "window_start S key = as_window_start S (set_item_key key window_start_handle)"

record ('b, 'i, 'o) assigner =
  wa_length :: u64
  wa_slide :: u64
  wa_late :: u64
  wa_keyed :: bool
  wa_window :: "('b, 'i, 'o) window"
  wa_state :: "'b assigner_state"

definition assigner_new ::
    "('b, 'i, 'o) window \<Rightarrow> 'b assigner_state \<Rightarrow> u64 \<Rightarrow> u64 \<Rightarrow> u64 \<Rightarrow> bool
      \<Rightarrow> (arcon_error, ('b, 'i, 'o) assigner) outcome" where
  "assigner_new window state len slide late keyed =
     (if len < slide then Panic ''Window Length lower than slide!''
      else bind_o (rem_u len slide) (\<lambda>r.
        if r \<noteq> 0 then Panic ''Window Length not divisible by slide!''
        else Ok \<lparr>wa_length = len, wa_slide = slide, wa_late = late, wa_keyed = keyed,
          wa_window = window, wa_state = state\<rparr>))"

text \<open>The end of a window: \<^verbatim>\<open>w_start + (index * self.window_slide) + self.window_length\<close>.\<close>

definition window_end :: "('b, 'i, 'o) assigner \<Rightarrow> u64 \<Rightarrow> u64 \<Rightarrow> (arcon_error, u64) outcome" where
  "window_end A w_start index =
     bind_o (mul_u index (wa_slide A)) (\<lambda>x. bind_o (add_u w_start x) (\<lambda>y. add_u y (wa_length A)))"

definition new_window_trigger ::
    "('b, 'i, 'o) assigner \<Rightarrow> ('t, 'b, window_event) timer_backend \<Rightarrow> u64 \<Rightarrow> u64
      \<Rightarrow> (('c, 't, 'b) op_ctx, arcon_error, window_event + unit) action" where
  "new_window_trigger A T key index =
     bind_s (ctx_session (expecting ''window start state get error'' (query (vo_get (window_start (wa_state A) key))))) (\<lambda>s.
     bind_s (lift_o (unwrap_or_panic ''tried to schedule window_trigger for key which hasn't started'' s)) (\<lambda>w_start.
     bind_s (lift_o (window_end A w_start index)) (\<lambda>ts.
     bind_s (lift_o (add_u ts (wa_late A))) (\<lambda>at.
     ctx_schedule_at T at (window_event_new key index ts)))))"

definition assigner_key :: "('i \<Rightarrow> u64) \<Rightarrow> ('b, 'i, 'o) assigner \<Rightarrow> 'i arcon_element \<Rightarrow> u64" where
  "assigner_key get_key A e = (if \<not> wa_keyed A then 0 else get_key (data e))"

text \<open>The lowest and the highest window an element goes into.\<close>

definition window_range :: "('b, 'i, 'o) assigner \<Rightarrow> u64 \<Rightarrow> u64 \<Rightarrow> (arcon_error, u64 \<times> u64) outcome" where
  "window_range A ts start =
     bind_o (sub_u ts start) (\<lambda>d.
     bind_o (div_u d (wa_slide A)) (\<lambda>ceil.
     bind_o (div_u (wa_length A) (wa_slide A)) (\<lambda>n.
       if n \<le> ceil then
         bind_o (sub_u ceil n) (\<lambda>x. bind_o (add_u x 1) (\<lambda>floor. Ok (floor, ceil)))
       else Ok (0, ceil))))"

fun window_loop ::
    "('b, 'i, 'o) assigner \<Rightarrow> ('t, 'b, window_event) timer_backend \<Rightarrow> u64 \<Rightarrow> 'i \<Rightarrow> u64 list
      \<Rightarrow> (('c, 't, 'b) op_ctx, arcon_error, unit) action" where
  "window_loop A T key x [] = return_s ()"
| "window_loop A T key x (index # is) =
     bind_s (ctx_session (expecting ''window error'' (wd_on_element (wa_window A) x (window_context_new key index)))) (\<lambda>_.
     bind_s (ctx_session (expecting ''window active check error''
       (query (mo_contains (as_active_windows (wa_state A)) \<lparr>ki_key = key, ki_index = index\<rparr>)))) (\<lambda>active.
     bind_s
       (if active then return_s ()
        else
          bind_s (ctx_session (expecting ''active windows insert error''
            (mo_insert (as_active_windows (wa_state A)) \<lparr>ki_key = key, ki_index = index\<rparr> ()))) (\<lambda>_.
          bind_s (new_window_trigger A T key index) (\<lambda>r.
            case r of
              Inl event \<Rightarrow> panic_s ''internal error: entered unreachable code: Window was expired when scheduled''
            | Inr _ \<Rightarrow> return_s ()))) (\<lambda>_.
     window_loop A T key x is)))"

definition saturating_sub :: "u64 \<Rightarrow> u64 \<Rightarrow> u64" where
  "saturating_sub a b = (if b \<le> a then a - b else 0)"

definition assigner_element ::
    "('i \<Rightarrow> u64) \<Rightarrow> ('b, 'i, 'o) assigner \<Rightarrow> ('t, 'b, window_event) timer_backend \<Rightarrow> 'i arcon_element
      \<Rightarrow> (('c, 't, 'b) op_ctx, arcon_error, unit) action" where
  "assigner_element get_key A T element =
     (let ts = (case timestamp element of None \<Rightarrow> 1 | Some ts \<Rightarrow> ts); key = assigner_key get_key A element in
      bind_s (ctx_current_time T) (\<lambda>time.
        if ts < saturating_sub time (wa_late A) then return_s ()
        else
          bind_s (ctx_session (expecting ''window start state get error''
            (query (vo_get (window_start (wa_state A) key))))) (\<lambda>s.
          bind_s
            (case s of
               Some start \<Rightarrow> lift_o (window_range A ts start)
             | None \<Rightarrow>
                 bind_s (ctx_session (expecting ''window start set error''
                   (vo_set (window_start (wa_state A) key) ts))) (\<lambda>_. return_s (0, 0))) (\<lambda>(floor, ceil).
          window_loop A T key (data element) (map word_of_nat [unat floor..<Suc (unat ceil)])))))"

definition assigner_timeout ::
    "('c, 'o) add_event \<Rightarrow> ('b, 'i, 'o) assigner \<Rightarrow> window_event
      \<Rightarrow> (('c, 't, 'b) op_ctx, arcon_error, unit) action" where
  "assigner_timeout add A ev =
     (let ctx = window_context_new (we_key ev) (we_index ev) in
      bind_s (ctx_session (expecting ''window result error'' (wd_result (wa_window A) ctx))) (\<lambda>e.
      bind_s (ctx_session (expecting ''window clear error'' (wd_clear (wa_window A) ctx))) (\<lambda>_.
      bind_s (ctx_session (expecting ''active window remove error''
        (mo_remove (as_active_windows (wa_state A)) \<lparr>ki_key = we_key ev, ki_index = we_index ev\<rparr>))) (\<lambda>_.
      ctx_output add (ElementEv (element_with_timestamp e (we_timestamp ev)))))))"

definition assigner_operator ::
    "('c, 'o) add_event \<Rightarrow> ('i \<Rightarrow> u64) \<Rightarrow> ('b, 'i, 'o) assigner \<Rightarrow> ('t, 'b, window_event) timer_backend
      \<Rightarrow> ('c, 't, 'b, 'i, window_event) operator" where
  "assigner_operator add get_key A T =
     \<lparr>op_init = return_s (), op_handle_element = assigner_element get_key A T,
      op_handle_watermark = ignore, op_handle_epoch = ignore, op_handle_timeout = assigner_timeout add A\<rparr>"

end
