(* ===== verification/Window_Laws.thy ===== *)
theory Window_Laws
  imports Windows
begin

text \<open>
  What event-time windows promise. The windows of a key are the intervals of the window length that
  start at multiples of the slide after the first element of the key. An element goes into exactly
  the windows that contain its timestamp; each of them is scheduled once, for the time its late
  arrivals end, and no such time has passed when it is scheduled. When it fires, the window emits the
  aggregate of its elements and is forgotten.
\<close>

section \<open>The windows of a timestamp\<close>

lemma unat_lt_64: "unat (x :: u64) < 2 ^ 64"
  using unsigned_less [of x, where 'a = nat] by simp

definition assigner_ok :: "('b, 'i, 'o) assigner \<Rightarrow> bool" where
  "assigner_ok A \<longleftrightarrow> wa_slide A \<noteq> 0 \<and> wa_slide A \<le> wa_length A \<and> unat (wa_slide A) dvd unat (wa_length A)"

lemma assigner_new_ok: "assigner_new window state len slide late keyed = Ok A \<Longrightarrow> assigner_ok A"
proof -
  assume new: "assigner_new window state len slide late keyed = Ok A"
  then have "wa_slide A = slide" "wa_length A = len" "slide \<noteq> 0" "slide \<le> len" and m: "len mod slide = 0"
    by (auto simp: assigner_new_def rem_u_def not_less split: if_splits)
  moreover have "unat slide dvd unat len" using m unat_mod [of len slide] by (simp add: dvd_eq_mod_eq_0)
  ultimately show ?thesis by (simp add: assigner_ok_def)
qed

text \<open>The first instant of a window, the first after it, and the windows that contain an instant.\<close>

definition window_from :: "('b, 'i, 'o) assigner \<Rightarrow> u64 \<Rightarrow> nat \<Rightarrow> nat" where
  "window_from A start i = unat start + i * unat (wa_slide A)"

definition window_to :: "('b, 'i, 'o) assigner \<Rightarrow> u64 \<Rightarrow> nat \<Rightarrow> nat" where
  "window_to A start i = window_from A start i + unat (wa_length A)"

definition windows_at :: "('b, 'i, 'o) assigner \<Rightarrow> u64 \<Rightarrow> u64 \<Rightarrow> nat set" where
  "windows_at A start ts = {i. window_from A start i \<le> unat ts \<and> unat ts < window_to A start i}"

lemma window_range_ok:
  assumes "assigner_ok A" "start \<le> ts"
  shows "\<exists>floor ceil. window_range A ts start = Ok (floor, ceil) \<and> floor \<le> ceil \<and>
    windows_at A start ts = {unat floor..unat ceil}"
proof -
  let ?s = "unat (wa_slide A)" and ?c = "(ts - start) div wa_slide A" and ?n = "wa_length A div wa_slide A"
  have s: "0 < ?s" and sl: "?s \<le> unat (wa_length A)" using assms(1) by (auto simp: assigner_ok_def unat_gt_0 word_le_nat_alt)
  have d: "unat ts = unat start + unat (ts - start)" using assms(2) by (simp add: unat_sub word_le_nat_alt)
  have c: "unat ?c = unat (ts - start) div ?s" and n: "unat ?n = unat (wa_length A) div ?s" by (simp_all add: unat_div)
  have len: "unat (wa_length A) = unat ?n * ?s" using assms(1) n by (simp add: assigner_ok_def)
  then have n1: "1 \<le> unat ?n" using s sl by (cases "unat ?n") auto
  have wins: "windows_at A start ts = {i. i \<le> unat ?c \<and> unat ?c < i + unat ?n}"
  proof -
    have "window_from A start i \<le> unat ts \<longleftrightarrow> i \<le> unat ?c" for i
      using s by (simp add: window_from_def d c less_eq_div_iff_mult_less_eq)
    moreover have "unat ts < window_to A start i \<longleftrightarrow> unat ?c < i + unat ?n" for i
      using s by (simp add: window_to_def window_from_def d c len div_less_iff_less_mult algebra_simps)
    ultimately show ?thesis by (simp add: windows_at_def)
  qed
  show ?thesis
  proof (cases "?n \<le> ?c")
    case True
    have le: "unat ?n \<le> unat ?c" using True by (simp add: word_le_nat_alt)
    have sub: "unat (?c - ?n) = unat ?c - unat ?n" using True by (simp add: unat_sub word_le_nat_alt)
    have small: "unat (?c - ?n) + 1 < 2 ^ 64" using unat_lt_64 [of ?c] le n1 sub by simp
    then have f: "unat (?c - ?n + 1) = unat ?c - unat ?n + 1" using sub by (simp add: unat_add_no_overflow)
    have "window_range A ts start = Ok (?c - ?n + 1, ?c)"
      using assms True small by (simp add: window_range_def sub_u_def div_u_def add_u_def assigner_ok_def)
    moreover have "{i. i \<le> unat ?c \<and> unat ?c < i + unat ?n} = {unat (?c - ?n + 1)..unat ?c}"
      using f le by auto
    moreover have "?c - ?n + 1 \<le> ?c" using f le n1 by (simp add: word_le_nat_alt)
    ultimately show ?thesis using wins by blast
  next
    case False
    then have "unat ?c < unat ?n" by (simp add: word_le_nat_alt)
    then have "{i. i \<le> unat ?c \<and> unat ?c < i + unat ?n} = {unat (0 :: u64)..unat ?c}" by auto
    moreover have "window_range A ts start = Ok (0, ?c)"
      using assms False by (simp add: window_range_def sub_u_def div_u_def assigner_ok_def)
    ultimately show ?thesis using wins by (intro exI [of _ 0] exI [of _ ?c]) simp
  qed
qed

lemma window_range_early: "ts < start \<Longrightarrow> window_range A ts start = Panic ''attempt to subtract with overflow''"
  by (simp add: window_range_def sub_u_def not_le [symmetric])

text \<open>The first element of a key is in the first window only.\<close>

lemma windows_at_start: "assigner_ok A \<Longrightarrow> windows_at A ts ts = {0}"
proof -
  assume ok: "assigner_ok A"
  then have "0 < unat (wa_slide A)" "unat (wa_slide A) \<le> unat (wa_length A)"
    by (simp_all add: assigner_ok_def unat_gt_0 word_le_nat_alt)
  then show ?thesis by (auto simp: windows_at_def window_from_def window_to_def)
qed

text \<open>A window that contains a timestamp that is not late is not over yet, with its late arrivals.\<close>

lemma window_not_expired:
  assumes "i \<in> windows_at A start ts" "\<not> ts < saturating_sub now (wa_late A)"
  shows "unat now < window_to A start i + unat (wa_late A)"
  using assms
  by (auto simp: windows_at_def saturating_sub_def word_le_nat_alt not_less unat_sub split: if_splits)

text \<open>The code's arithmetic of the end of a window, when nothing overflows.\<close>

lemma window_end_ok:
  assumes "window_to A start (unat i) < 2 ^ 64"
  shows "\<exists>e. window_end A start i = Ok e \<and> unat e = window_to A start (unat i)"
proof -
  have 1: "unat i * unat (wa_slide A) < 2 ^ 64" and 2: "unat start + unat i * unat (wa_slide A) < 2 ^ 64"
    using assms by (simp_all add: window_to_def window_from_def)
  have m: "unat (i * wa_slide A) = unat i * unat (wa_slide A)" using 1 by (simp add: unat_word_ariths)
  have a: "unat (start + i * wa_slide A) = window_from A start (unat i)"
    using 2 m by (simp add: unat_add_no_overflow window_from_def)
  have "unat (start + i * wa_slide A + wa_length A) = window_to A start (unat i)"
    using assms a by (simp add: unat_add_no_overflow window_to_def)
  then show ?thesis
    using assms 1 2 m a by (simp add: window_end_def mul_u_def add_u_def window_to_def window_from_def)
qed


section \<open>Contracts\<close>

text \<open>
  A window folds its elements: \<open>acc\<close> is the accumulator of each key and index, \<open>ini\<close> and \<open>agg\<close>
  give it for the first and for a further element, \<open>fin\<close> is the result.
\<close>

locale window_contract =
  fixes W :: "('b, 'i, 'o) window" and I :: "'b \<Rightarrow> bool" and acc :: "'b \<Rightarrow> window_context \<rightharpoonup> 'a"
    and frame :: "'b \<Rightarrow> 'f" and ini :: "'i \<Rightarrow> 'a" and agg :: "'i \<Rightarrow> 'a \<Rightarrow> 'a" and fin :: "'a \<Rightarrow> 'o"
  assumes won_element: "I b \<Longrightarrow> \<exists>b'. wd_on_element W x ctx b = (Ok (), b') \<and> I b' \<and>
      acc b' = (acc b)(ctx \<mapsto> (case acc b ctx of None \<Rightarrow> ini x | Some a \<Rightarrow> agg x a)) \<and> frame b' = frame b"
    and wresult: "I b \<Longrightarrow> acc b ctx = Some a \<Longrightarrow> wd_result W ctx b = (Ok (fin a), b)"
    and wclear: "I b \<Longrightarrow> \<exists>b'. wd_clear W ctx b = (Ok (), b') \<and> I b' \<and> acc b' = (acc b)(ctx := None) \<and> frame b' = frame b"

text \<open>
  A timer: \<open>pend\<close> are the scheduled entries with the times they are due, \<open>room x k\<close> says that the
  next \<open>k\<close> entries can be given ids.
\<close>

locale event_clock =
  fixes T :: "('t, 'b, 'p) timer_backend" and TI :: "'t \<times> 'b \<Rightarrow> bool" and now :: "'b \<Rightarrow> u64"
    and pend :: "'b \<Rightarrow> ('p \<times> nat) set" and room :: "'t \<times> 'b \<Rightarrow> nat \<Rightarrow> bool" and frame :: "'b \<Rightarrow> 'f"
  assumes room_Suc: "room x (Suc k) \<Longrightarrow> room x k"
    and tcurrent: "TI x \<Longrightarrow> tb_current_time T x = (Ok (now (snd x)), x)"
    and tschedule: "TI x \<Longrightarrow> now (snd x) < ts \<Longrightarrow> room x (Suc k) \<Longrightarrow>
      \<exists>x'. tb_schedule_at T ts p x = (Ok (Inr ()), x') \<and> TI x' \<and> room x' k \<and>
        pend (snd x') = insert (p, unat ts) (pend (snd x)) \<and> now (snd x') = now (snd x) \<and> frame (snd x') = frame (snd x)"

text \<open>The assigner on one backend: \<open>clk\<close> is what the timer keeps there.\<close>

locale window_system =
  win: window_contract "wa_window A" I acc "\<lambda>b. (ws b, act b, clk b)" ini agg fin +
  actw: map_state "as_active_windows (wa_state A)" I "\<lambda>_. True" act "\<lambda>b. (ws b, acc b, clk b)" +
  clock: event_clock T TI now pend room "\<lambda>b. (ws b, act b, acc b)"
  for A :: "('b, 'i, 'o) assigner" and T :: "('t, 'b, window_event) timer_backend" and I :: "'b \<Rightarrow> bool"
    and TI :: "'t \<times> 'b \<Rightarrow> bool" and ws :: "'b \<Rightarrow> u64 \<rightharpoonup> u64" and act :: "'b \<Rightarrow> key_and_index \<rightharpoonup> unit"
    and acc :: "'b \<Rightarrow> window_context \<rightharpoonup> 'a" and ini :: "'i \<Rightarrow> 'a" and agg :: "'i \<Rightarrow> 'a \<Rightarrow> 'a" and fin :: "'a \<Rightarrow> 'o"
    and now pend room and clk :: "'b \<Rightarrow> 'f" +
  assumes starts: "value_state (window_start (wa_state A) k) I (\<lambda>b. ws b k) (\<lambda>b. ((ws b)(k := None), act b, acc b, clk b))"
    and timed: "TI (t, b) \<Longrightarrow> I b"
    and clock_only: "TI (t, b) \<Longrightarrow> I b' \<Longrightarrow> clk b' = clk b \<Longrightarrow> TI (t, b') \<and> now b' = now b \<and> pend b' = pend b \<and>
      (room (t, b) j \<longrightarrow> room (t, b') j)"

text \<open>The event of a window, and the effect of an element on its windows.\<close>

definition win_event :: "('b, 'i, 'o) assigner \<Rightarrow> u64 \<Rightarrow> u64 \<Rightarrow> u64 \<Rightarrow> window_event" where
  "win_event A start key i = window_event_new key i (word_of_nat (window_to A start (unat i)))"

definition put_element ::
    "('i \<Rightarrow> 'a) \<Rightarrow> ('i \<Rightarrow> 'a \<Rightarrow> 'a) \<Rightarrow> u64 \<Rightarrow> u64 set \<Rightarrow> 'i \<Rightarrow> (window_context \<rightharpoonup> 'a) \<Rightarrow> window_context \<rightharpoonup> 'a" where
  "put_element ini agg key is x m = (\<lambda>ctx.
     if wc_key ctx = key \<and> wc_index ctx \<in> is then Some (case m ctx of None \<Rightarrow> ini x | Some a \<Rightarrow> agg x a) else m ctx)"

definition activate_windows :: "u64 \<Rightarrow> u64 set \<Rightarrow> (key_and_index \<rightharpoonup> unit) \<Rightarrow> key_and_index \<rightharpoonup> unit" where
  "activate_windows key is m = (\<lambda>ki. if ki_key ki = key \<and> ki_index ki \<in> is then Some () else m ki)"

definition new_triggers ::
    "('b, 'i, 'o) assigner \<Rightarrow> u64 \<Rightarrow> u64 \<Rightarrow> u64 set \<Rightarrow> (key_and_index \<rightharpoonup> unit) \<Rightarrow> (window_event \<times> nat) set" where
  "new_triggers A start key is m =
     (\<lambda>i. (win_event A start key i, window_to A start (unat i) + unat (wa_late A))) `
       {i \<in> is. m \<lparr>ki_key = key, ki_index = i\<rparr> = None}"

section \<open>Elements\<close>

lemma ctx_session_Ok: "m (oc_backend c) = (Ok a, b) \<Longrightarrow> ctx_session m c = (Ok a, c\<lparr>oc_backend := b\<rparr>)"
  by (simp add: ctx_session_def)

lemma expecting_Ok: "m b = (Ok a, b') \<Longrightarrow> expecting msg m b = (Ok a, b')"
  by (simp add: expecting_def)

lemma ctx_timer_Ok:
  "m (oc_timer c, oc_backend c) = (Ok a, (t, b)) \<Longrightarrow> ctx_timer m c = (Ok a, c\<lparr>oc_timer := t, oc_backend := b\<rparr>)"
  by (simp add: ctx_timer_def)

abbreviation timed_of :: "('c, 't, 'b) op_ctx \<Rightarrow> 't \<times> 'b" where
  "timed_of c \<equiv> (oc_timer c, oc_backend c)"

context window_system
begin

text \<open>One window that is not over.\<close>

lemma trigger_ok:
  assumes "TI (timed_of c)" "room (timed_of c) (Suc k)" "ws (oc_backend c) key = Some start"
    and "window_to A start (unat i) + unat (wa_late A) < 2 ^ 64"
    and "unat (now (oc_backend c)) < window_to A start (unat i) + unat (wa_late A)"
  shows "\<exists>t b. new_window_trigger A T key i c = (Ok (Inr ()), c\<lparr>oc_timer := t, oc_backend := b\<rparr>) \<and> TI (t, b) \<and> room (t, b) k \<and>
    pend b = insert (win_event A start key i, window_to A start (unat i) + unat (wa_late A)) (pend (oc_backend c)) \<and>
    now b = now (oc_backend c) \<and> ws b = ws (oc_backend c) \<and> act b = act (oc_backend c) \<and> acc b = acc (oc_backend c)"
proof -
  obtain e where e: "window_end A start i = Ok e" "unat e = window_to A start (unat i)"
    using window_end_ok [of A start i] assms(4) by auto
  have ev: "window_event_new key i e = win_event A start key i"
    by (simp add: win_event_def e(2) [symmetric])
  have at: "unat (e + wa_late A) = window_to A start (unat i) + unat (wa_late A)"
    using assms(4) e(2) by (simp add: unat_add_no_overflow)
  have "I (oc_backend c)" using timed assms(1) by blast
  then have get: "vo_get (window_start (wa_state A) key) (oc_backend c) = Ok (Some start)"
    using value_state.vget [OF starts] assms(3) by simp
  have "now (snd (timed_of c)) < e + wa_late A" using assms(5) at by (simp add: word_less_nat_alt)
  from clock.tschedule [OF assms(1) this assms(2), of "win_event A start key i"]
  obtain t b where "tb_schedule_at T (e + wa_late A) (win_event A start key i) (timed_of c) = (Ok (Inr ()), (t, b))"
      "TI (t, b)" "room (t, b) k" "pend b = insert (win_event A start key i, unat (e + wa_late A)) (pend (oc_backend c))"
      "now b = now (oc_backend c)" "ws b = ws (oc_backend c)" "act b = act (oc_backend c)" "acc b = acc (oc_backend c)"
    by auto
  then show ?thesis
    using get e ev at assms(4)
    by (intro exI [of _ t] exI [of _ b])
      (simp add: new_window_trigger_def ctx_session_def expecting_def ctx_schedule_at_def ctx_timer_Ok unwrap_or_panic_def
        add_u_def)
qed

end


text \<open>The sets and maps of the loop, one window after the other.\<close>

lemma put_element_insert:
  "i \<notin> is \<Longrightarrow> put_element ini agg key is x (put_element ini agg key {i} x m) = put_element ini agg key (insert i is) x m"
  by (auto simp: put_element_def fun_eq_iff)

lemma activate_insert: "activate_windows key is (activate_windows key {i} m) = activate_windows key (insert i is) m"
  by (auto simp: activate_windows_def fun_eq_iff)

lemma new_triggers_insert:
  "i \<notin> is \<Longrightarrow> new_triggers A start key {i} m \<union> new_triggers A start key is (activate_windows key {i} m)
    = new_triggers A start key (insert i is) m"
  by (auto simp: new_triggers_def activate_windows_def)

lemma put_element_one: "put_element ini agg key {i} x m = m(\<lparr>wc_key = key, wc_index = i\<rparr> \<mapsto>
    (case m \<lparr>wc_key = key, wc_index = i\<rparr> of None \<Rightarrow> ini x | Some a \<Rightarrow> agg x a))"
  by (auto simp: put_element_def fun_eq_iff)

lemma activate_one: "activate_windows key {i} m = m(\<lparr>ki_key = key, ki_index = i\<rparr> \<mapsto> ())"
  by (auto simp: activate_windows_def fun_eq_iff)

lemma map_upd_unit: "m k \<noteq> None \<Longrightarrow> m(k \<mapsto> ()) = m"
  by (auto simp: fun_eq_iff)

context window_system
begin

lemma step_ok:
  assumes "TI (timed_of c)" "room (timed_of c) (Suc k)" "ws (oc_backend c) key = Some start"
    and "window_to A start (unat i) + unat (wa_late A) < 2 ^ 64"
    and "unat (now (oc_backend c)) < window_to A start (unat i) + unat (wa_late A)"
  shows "\<exists>t b. window_loop A T key x (i # is) c = window_loop A T key x is (c\<lparr>oc_timer := t, oc_backend := b\<rparr>) \<and>
    TI (t, b) \<and> room (t, b) k \<and> acc b = put_element ini agg key {i} x (acc (oc_backend c)) \<and>
    act b = activate_windows key {i} (act (oc_backend c)) \<and>
    pend b = pend (oc_backend c) \<union> new_triggers A start key {i} (act (oc_backend c)) \<and>
    now b = now (oc_backend c) \<and> ws b = ws (oc_backend c)"
proof -
  let ?b0 = "oc_backend c" and ?ki = "\<lparr>ki_key = key, ki_index = i\<rparr>"
  have I0: "I ?b0" using timed assms(1) by blast
  obtain b1 where b1: "wd_on_element (wa_window A) x (window_context_new key i) ?b0 = (Ok (), b1)" "I b1"
      "acc b1 = put_element ini agg key {i} x (acc ?b0)" "ws b1 = ws ?b0" "act b1 = act ?b0" "clk b1 = clk ?b0"
    using win.won_element [OF I0, of x "window_context_new key i"]
    by (auto simp: window_context_new_def put_element_one)
  have t1: "TI (oc_timer c, b1)" "now b1 = now ?b0" "pend b1 = pend ?b0" "room (oc_timer c, b1) (Suc k)"
    using clock_only [OF assms(1) b1(2,6)] assms(2) by auto
  have contains: "mo_contains (as_active_windows (wa_state A)) ?ki b1 = Ok (act ?b0 ?ki \<noteq> None)"
    using actw.mcontains [OF b1(2), of ?ki] b1(5) by simp
  let ?c1 = "c\<lparr>oc_backend := b1\<rparr>"
  show ?thesis
  proof (cases "act ?b0 ?ki = None")
    case False
    then have "window_loop A T key x (i # is) c = window_loop A T key x is (c\<lparr>oc_timer := oc_timer c, oc_backend := b1\<rparr>)"
      using b1(1) contains by (simp add: ctx_session_def expecting_def bind_s_def query_def)
    moreover have "new_triggers A start key {i} (act ?b0) = {}" using False by (simp add: new_triggers_def)
    moreover have "activate_windows key {i} (act ?b0) = act b1" using False b1(5) by (simp add: activate_one map_upd_unit)
    ultimately show ?thesis using b1 t1 clock.room_Suc by (intro exI [of _ "oc_timer c"] exI [of _ b1]) auto
  next
    case True
    obtain b2 where b2: "mo_insert (as_active_windows (wa_state A)) ?ki () b1 = (Ok (act b1 ?ki), b2)" "I b2"
        "act b2 = (act b1)(?ki \<mapsto> ())" "ws b2 = ws b1" "acc b2 = acc b1" "clk b2 = clk b1"
      using actw.minsert [OF b1(2), of ?ki "()"] by auto
    have t2: "TI (oc_timer c, b2)" "now b2 = now ?b0" "pend b2 = pend ?b0" "room (oc_timer c, b2) (Suc k)"
      using clock_only [OF t1(1) b2(2,6)] t1 by auto
    let ?c2 = "c\<lparr>oc_backend := b2\<rparr>"
    obtain t b where tb: "new_window_trigger A T key i ?c2 = (Ok (Inr ()), ?c2\<lparr>oc_timer := t, oc_backend := b\<rparr>)" "TI (t, b)"
        "room (t, b) k" "pend b = insert (win_event A start key i, window_to A start (unat i) + unat (wa_late A)) (pend b2)"
        "now b = now b2" "ws b = ws b2" "act b = act b2" "acc b = acc b2"
      using trigger_ok [of ?c2 k key start i] t2 assms(3-5) b1(4) b2(4) by auto
    have "window_loop A T key x (i # is) c = window_loop A T key x is (c\<lparr>oc_timer := t, oc_backend := b\<rparr>)"
      using b1(1) contains True b2(1) tb(1)
      by (simp add: ctx_session_def expecting_def bind_s_def query_def)
    moreover have "new_triggers A start key {i} (act ?b0)
        = {(win_event A start key i, window_to A start (unat i) + unat (wa_late A))}"
      using True by (auto simp: new_triggers_def)
    ultimately show ?thesis
      using b1 b2 t2 tb by (intro exI [of _ t] exI [of _ b]) (auto simp: activate_one)
  qed
qed

end


lemma put_element_empty [simp]: "put_element ini agg key {} x m = m"
  by (simp add: put_element_def)

lemma activate_empty [simp]: "activate_windows key {} m = m"
  by (simp add: activate_windows_def)

lemma new_triggers_empty [simp]: "new_triggers A start key {} m = {}"
  by (simp add: new_triggers_def)

text \<open>The indices between two bounds, as the list of the loop.\<close>

lemma index_list:
  fixes floor ceil :: u64
  defines "is \<equiv> map word_of_nat [unat floor..<Suc (unat ceil)] :: u64 list"
  shows "distinct is" and "set is = {i. unat floor \<le> unat i \<and> unat i \<le> unat ceil}"
proof -
  have small: "unat (word_of_nat n :: u64) = n" if "n \<le> unat ceil" for n
    using that unat_lt_64 [of ceil] by (simp add: unat_of_nat)
  then show "distinct is"
    unfolding is_def distinct_map by (auto intro!: inj_on_inverseI [of _ unat])
  show "set is = {i. unat floor \<le> unat i \<and> unat i \<le> unat ceil}"
  proof (intro set_eqI iffI)
    fix i assume "i \<in> set is"
    then show "i \<in> {i. unat floor \<le> unat i \<and> unat i \<le> unat ceil}" using small by (auto simp: is_def)
  next
    fix i :: u64 assume "i \<in> {i. unat floor \<le> unat i \<and> unat i \<le> unat ceil}"
    then have "unat i \<in> set [unat floor..<Suc (unat ceil)]" by auto
    then have "word_of_nat (unat i) \<in> set is" unfolding is_def set_map by (rule imageI)
    then show "i \<in> set is" by simp
  qed
qed

definition window_indices :: "('b, 'i, 'o) assigner \<Rightarrow> u64 \<Rightarrow> u64 \<Rightarrow> u64 set" where
  "window_indices A start ts = {i. unat i \<in> windows_at A start ts}"

context window_system
begin

lemma loop_ok:
  assumes "TI (timed_of c)" "room (timed_of c) (length is)" "ws (oc_backend c) key = Some start" "distinct is"
    and "\<forall>i \<in> set is. window_to A start (unat i) + unat (wa_late A) < 2 ^ 64 \<and>
      unat (now (oc_backend c)) < window_to A start (unat i) + unat (wa_late A)"
  shows "\<exists>t b. window_loop A T key x is c = (Ok (), c\<lparr>oc_timer := t, oc_backend := b\<rparr>) \<and> TI (t, b) \<and>
    acc b = put_element ini agg key (set is) x (acc (oc_backend c)) \<and>
    act b = activate_windows key (set is) (act (oc_backend c)) \<and>
    pend b = pend (oc_backend c) \<union> new_triggers A start key (set is) (act (oc_backend c)) \<and>
    now b = now (oc_backend c) \<and> ws b = ws (oc_backend c)"
  using assms
proof (induction "is" arbitrary: c)
  case Nil
  then show ?case by (intro exI [of _ "oc_timer c"] exI [of _ "oc_backend c"]) (simp add: return_s_def)
next
  case (Cons i "is")
  obtain t b where tb: "window_loop A T key x (i # is) c = window_loop A T key x is (c\<lparr>oc_timer := t, oc_backend := b\<rparr>)"
      "TI (t, b)" "room (t, b) (length is)" "acc b = put_element ini agg key {i} x (acc (oc_backend c))"
      "act b = activate_windows key {i} (act (oc_backend c))"
      "pend b = pend (oc_backend c) \<union> new_triggers A start key {i} (act (oc_backend c))"
      "now b = now (oc_backend c)" "ws b = ws (oc_backend c)"
    using step_ok [of c "length is" key start i x "is"] Cons.prems by auto
  have i: "i \<notin> set is" using Cons.prems(4) by simp
  obtain t' b' where "window_loop A T key x is (c\<lparr>oc_timer := t, oc_backend := b\<rparr>)
        = (Ok (), c\<lparr>oc_timer := t', oc_backend := b'\<rparr>)" "TI (t', b')"
      "acc b' = put_element ini agg key (set is) x (acc b)" "act b' = activate_windows key (set is) (act b)"
      "pend b' = pend b \<union> new_triggers A start key (set is) (act b)" "now b' = now b" "ws b' = ws b"
    using Cons.IH [of "c\<lparr>oc_timer := t, oc_backend := b\<rparr>"] Cons.prems tb by auto
  then show ?case
    using tb by (intro exI [of _ t'] exI [of _ b'])
      (simp add: Un_assoc put_element_insert [OF i] activate_insert new_triggers_insert [OF i] del: window_loop.simps)
qed

text \<open>The windows of a key, when its start is known.\<close>

lemma windows_ok:
  assumes "assigner_ok A" "TI (timed_of c)" "ws (oc_backend c) key = Some start" "start \<le> ts"
    and "unat ts + unat (wa_length A) + unat (wa_late A) < 2 ^ 64"
    and "\<not> ts < saturating_sub (now (oc_backend c)) (wa_late A)"
    and "room (timed_of c) (card (window_indices A start ts))"
    and "windows_at A start ts = {unat (floor :: u64)..unat (ceil :: u64)}"
  shows "\<exists>t b. window_loop A T key x (map word_of_nat [unat floor..<Suc (unat ceil)]) c
      = (Ok (), c\<lparr>oc_timer := t, oc_backend := b\<rparr>) \<and> TI (t, b) \<and>
    acc b = put_element ini agg key (window_indices A start ts) x (acc (oc_backend c)) \<and>
    act b = activate_windows key (window_indices A start ts) (act (oc_backend c)) \<and>
    pend b = pend (oc_backend c) \<union> new_triggers A start key (window_indices A start ts) (act (oc_backend c)) \<and>
    now b = now (oc_backend c) \<and> ws b = ws (oc_backend c)"
proof -
  let ?is = "map word_of_nat [unat floor..<Suc (unat ceil)] :: u64 list"
  have idx: "distinct ?is" "set ?is = window_indices A start ts"
    using index_list [of floor ceil] assms(8) by (auto simp: window_indices_def)
  have "window_to A start (unat i) + unat (wa_late A) < 2 ^ 64 \<and>
      unat (now (oc_backend c)) < window_to A start (unat i) + unat (wa_late A)" if "i \<in> set ?is" for i
  proof -
    have i: "unat i \<in> windows_at A start ts" using that idx(2) by (simp add: window_indices_def)
    then have "window_to A start (unat i) \<le> unat ts + unat (wa_length A)" by (simp add: windows_at_def window_to_def)
    then show ?thesis using assms(5) window_not_expired [OF i assms(6)] by simp
  qed
  moreover have "room (timed_of c) (length ?is)" using assms(7) idx(2) distinct_card [OF idx(1)] by metis
  ultimately show ?thesis using loop_ok [of c ?is key start x] assms(2,3) idx by metis
qed

end


text \<open>The windows that are due: one trigger for every active window, and only for these; an active
  window holds elements, and its key has a start.\<close>

definition trigger_of :: "('b, 'i, 'o) assigner \<Rightarrow> (u64 \<rightharpoonup> u64) \<Rightarrow> u64 \<times> u64 \<Rightarrow> window_event \<times> nat" where
  "trigger_of A starts = (\<lambda>(k, i).
     (win_event A (the (starts k)) k i, window_to A (the (starts k)) (unat i) + unat (wa_late A)))"

definition active_set :: "(key_and_index \<rightharpoonup> unit) \<Rightarrow> (u64 \<times> u64) set" where
  "active_set act = {(k, i). act \<lparr>ki_key = k, ki_index = i\<rparr> \<noteq> None}"

definition windows_inv ::
    "('b, 'i, 'o) assigner \<Rightarrow> (u64 \<rightharpoonup> u64) \<Rightarrow> (key_and_index \<rightharpoonup> unit) \<Rightarrow> (window_context \<rightharpoonup> 'a)
      \<Rightarrow> (window_event \<times> nat) set \<Rightarrow> bool" where
  "windows_inv A starts act acc P \<longleftrightarrow>
     (\<forall>k i. (k, i) \<in> active_set act \<longleftrightarrow> acc \<lparr>wc_key = k, wc_index = i\<rparr> \<noteq> None) \<and>
     fst ` active_set act \<subseteq> dom starts \<and> P = trigger_of A starts ` active_set act"

lemma win_event_inject [simp]:
  "we_key (win_event A start k i) = k" "we_index (win_event A start k i) = i"
  by (simp_all add: win_event_def window_event_new_def)

lemma trigger_inj: "inj (trigger_of A starts)"
  by (rule inj_on_inverseI [of _ "\<lambda>(ev, d). (we_key ev, we_index ev)"]) (auto simp: trigger_of_def)

lemma active_set_simps:
  "active_set (activate_windows key is act) = active_set act \<union> {key} \<times> is"
  "active_set (act(\<lparr>ki_key = k, ki_index = i\<rparr> := None)) = active_set act - {(k, i)}"
  by (auto simp: active_set_def activate_windows_def split: if_splits)

lemma new_triggers_image:
  "starts key = Some start \<Longrightarrow> new_triggers A start key is act = trigger_of A starts ` ({key} \<times> is - active_set act)"
proof -
  assume start: "starts key = Some start"
  have "{key} \<times> is - active_set act = Pair key ` {i \<in> is. act \<lparr>ki_key = key, ki_index = i\<rparr> = None}"
    unfolding active_set_def set_eq_iff image_iff by (auto simp del: not_None_eq)
  then show ?thesis using start by (simp add: image_image new_triggers_def trigger_of_def)
qed

lemma trigger_start: "fst ` S \<subseteq> dom starts \<Longrightarrow> starts key = None \<or> starts key = Some start \<Longrightarrow>
    trigger_of A (starts(key \<mapsto> start)) ` S = trigger_of A starts ` S"
  by (rule image_cong) (force simp: trigger_of_def)+

lemma windows_inv_element:
  assumes "windows_inv A starts act acc P" "starts key = None \<or> starts key = Some start"
  shows "windows_inv A (starts(key \<mapsto> start)) (activate_windows key is act) (put_element ini agg key is x acc)
    (P \<union> new_triggers A start key is act)"
proof -
  let ?S = "active_set act" and ?N = "{key} \<times> is"
  have S: "fst ` ?S \<subseteq> dom starts" and P: "P = trigger_of A starts ` ?S" using assms(1) by (simp_all add: windows_inv_def)
  have "new_triggers A start key is act = trigger_of A (starts(key \<mapsto> start)) ` (?N - ?S)"
    by (rule new_triggers_image) simp
  then have "P \<union> new_triggers A start key is act = trigger_of A (starts(key \<mapsto> start)) ` (?S \<union> (?N - ?S))"
    using trigger_start [OF S assms(2), of A] P by (simp only: image_Un)
  moreover have "?S \<union> (?N - ?S) = active_set (activate_windows key is act)" by (auto simp: active_set_simps)
  moreover have "(k, i) \<in> active_set (activate_windows key is act) \<longleftrightarrow>
      put_element ini agg key is x acc \<lparr>wc_key = k, wc_index = i\<rparr> \<noteq> None" for k i
    using assms(1) by (auto simp: windows_inv_def active_set_simps put_element_def)
  ultimately show ?thesis using S by (auto simp: windows_inv_def active_set_simps)
qed

lemma windows_inv_timeout:
  assumes "windows_inv A starts act acc P" "(ev, d) \<in> P"
  shows "windows_inv A starts (act(\<lparr>ki_key = we_key ev, ki_index = we_index ev\<rparr> := None))
    (acc(\<lparr>wc_key = we_key ev, wc_index = we_index ev\<rparr> := None)) (P - {(ev, d)})"
proof -
  have "(ev, d) \<in> trigger_of A starts ` active_set act" using assms by (simp add: windows_inv_def)
  then have ev: "(ev, d) = trigger_of A starts (we_key ev, we_index ev)"
    by (auto simp: trigger_of_def)
  have "P - {(ev, d)} = trigger_of A starts ` (active_set act - {(we_key ev, we_index ev)})"
    using assms(1) ev image_set_diff [OF trigger_inj, of A starts "active_set act" "{(we_key ev, we_index ev)}"]
    by (simp add: windows_inv_def)
  then show ?thesis using assms(1) by (auto simp: windows_inv_def active_set_simps)
qed

context window_system
begin

lemma element_ok:
  assumes "assigner_ok A" "TI (timed_of c)"
    and ts: "ts = (case timestamp e of None \<Rightarrow> 1 | Some t \<Rightarrow> t)" and key: "key = assigner_key get_key A e"
    and start: "start = (case ws (oc_backend c) key of None \<Rightarrow> ts | Some s \<Rightarrow> s)" and "start \<le> ts"
    and fits: "unat ts + unat (wa_length A) + unat (wa_late A) < 2 ^ 64"
    and in_time: "\<not> ts < saturating_sub (now (oc_backend c)) (wa_late A)"
    and room: "room (timed_of c) (card (window_indices A start ts))"
  shows "\<exists>t b. assigner_element get_key A T e c = (Ok (), c\<lparr>oc_timer := t, oc_backend := b\<rparr>) \<and> TI (t, b) \<and>
    ws b = (ws (oc_backend c))(key \<mapsto> start) \<and> now b = now (oc_backend c) \<and>
    acc b = put_element ini agg key (window_indices A start ts) (data e) (acc (oc_backend c)) \<and>
    act b = activate_windows key (window_indices A start ts) (act (oc_backend c)) \<and>
    pend b = pend (oc_backend c) \<union> new_triggers A start key (window_indices A start ts) (act (oc_backend c))"
proof -
  let ?b = "oc_backend c"
  have I: "I ?b" using timed assms(2) by blast
  have time: "ctx_current_time T c = (Ok (now ?b), c)"
    using clock.tcurrent [OF assms(2)] by (simp add: ctx_current_time_def ctx_timer_def)
  have get: "vo_get (window_start (wa_state A) key) ?b = Ok (ws ?b key)" by (rule value_state.vget [OF starts I])
  show ?thesis
  proof (cases "ws ?b key")
    case None
    then have s: "start = ts" using start by simp
    obtain b1 where b1: "vo_set (window_start (wa_state A) key) ts ?b = (Ok None, b1)" "I b1" "ws b1 key = Some ts"
        "(ws b1)(key := None) = (ws ?b)(key := None)" "act b1 = act ?b" "acc b1 = acc ?b" "clk b1 = clk ?b"
      using value_state.vset [OF starts [of key] I, of ts] None by auto
    have ws1: "ws b1 = (ws ?b)(key \<mapsto> ts)" using b1(3,4) by (metis fun_upd_triv fun_upd_upd)
    have t1: "TI (oc_timer c, b1)" "now b1 = now ?b" "pend b1 = pend ?b"
        "room (oc_timer c, b1) (card (window_indices A start ts))"
      using clock_only [OF assms(2) b1(2,7)] room by auto
    have "windows_at A ts ts = {unat (0 :: u64)..unat (0 :: u64)}" using windows_at_start [OF assms(1)] by simp
    from windows_ok [of "c\<lparr>oc_backend := b1\<rparr>" key ts ts 0 0 "data e"] this
    obtain t b where tb: "window_loop A T key (data e) (map word_of_nat [unat (0 :: u64)..<Suc (unat (0 :: u64))]) (c\<lparr>oc_backend := b1\<rparr>)
          = (Ok (), c\<lparr>oc_timer := t, oc_backend := b\<rparr>)" "TI (t, b)"
        "acc b = put_element ini agg key (window_indices A ts ts) (data e) (acc b1)"
        "act b = activate_windows key (window_indices A ts ts) (act b1)"
        "pend b = pend b1 \<union> new_triggers A ts key (window_indices A ts ts) (act b1)"
        "now b = now b1" "ws b = ws b1"
      using assms(1) t1 b1(3) fits in_time s by auto
    have "assigner_element get_key A T e c = (Ok (), c\<lparr>oc_timer := t, oc_backend := b\<rparr>)"
      using time get None b1(1) tb(1) in_time
      by (simp add: assigner_element_def Let_def bind_s_def ctx_session_def expecting_def ts [symmetric] key [symmetric])
    then show ?thesis using tb ws1 b1 t1 s by (intro exI [of _ t] exI [of _ b]) simp
  next
    case (Some s)
    then have s: "start = s" using start by simp
    obtain floor ceil where r: "window_range A ts start = Ok (floor, ceil)" "windows_at A start ts = {unat floor..unat ceil}"
      using window_range_ok [OF assms(1,6)] by blast
    obtain t b where tb: "window_loop A T key (data e) (map word_of_nat [unat floor..<Suc (unat ceil)]) c
          = (Ok (), c\<lparr>oc_timer := t, oc_backend := b\<rparr>)" "TI (t, b)"
        "acc b = put_element ini agg key (window_indices A start ts) (data e) (acc ?b)"
        "act b = activate_windows key (window_indices A start ts) (act ?b)"
        "pend b = pend ?b \<union> new_triggers A start key (window_indices A start ts) (act ?b)"
        "now b = now ?b" "ws b = ws ?b"
      using windows_ok [OF assms(1,2) _ assms(6) fits in_time room r(2), of key "data e"] Some s by auto
    have "assigner_element get_key A T e c = (Ok (), c\<lparr>oc_timer := t, oc_backend := b\<rparr>)"
      using time get Some r(1) tb(1) in_time s
      by (simp add: assigner_element_def Let_def bind_s_def ctx_session_def expecting_def ts [symmetric] key [symmetric])
    moreover have "ws ?b = (ws ?b)(key \<mapsto> start)" using Some s by auto
    ultimately show ?thesis using tb by (intro exI [of _ t] exI [of _ b]) simp
  qed
qed

lemma timeout_ok:
  assumes "TI (timed_of c)" "acc (oc_backend c) \<lparr>wc_key = we_key ev, wc_index = we_index ev\<rparr> = Some a"
  shows "\<exists>b. assigner_timeout add A ev c
      = ctx_output add (ElementEv (element_with_timestamp (fin a) (we_timestamp ev))) (c\<lparr>oc_backend := b\<rparr>) \<and>
    TI (oc_timer c, b) \<and> ws b = ws (oc_backend c) \<and> now b = now (oc_backend c) \<and> pend b = pend (oc_backend c) \<and>
    acc b = (acc (oc_backend c))(\<lparr>wc_key = we_key ev, wc_index = we_index ev\<rparr> := None) \<and>
    act b = (act (oc_backend c))(\<lparr>ki_key = we_key ev, ki_index = we_index ev\<rparr> := None)"
proof -
  let ?b = "oc_backend c" and ?ctx = "\<lparr>wc_key = we_key ev, wc_index = we_index ev\<rparr>" and ?ki = "\<lparr>ki_key = we_key ev, ki_index = we_index ev\<rparr>"
  have I: "I ?b" using timed assms(1) by blast
  have r: "wd_result (wa_window A) ?ctx ?b = (Ok (fin a), ?b)" by (rule win.wresult [OF I assms(2)])
  obtain b1 where b1: "wd_clear (wa_window A) ?ctx ?b = (Ok (), b1)" "I b1" "acc b1 = (acc ?b)(?ctx := None)"
      "ws b1 = ws ?b" "act b1 = act ?b" "clk b1 = clk ?b"
    using win.wclear [OF I, of ?ctx] by auto
  obtain b2 where b2: "mo_remove (as_active_windows (wa_state A)) ?ki b1 = (Ok (act b1 ?ki), b2)" "I b2"
      "act b2 = (act b1)(?ki := None)" "ws b2 = ws b1" "acc b2 = acc b1" "clk b2 = clk b1"
    using actw.mremove [OF b1(2), of ?ki] by auto
  have "TI (oc_timer c, b2)" "now b2 = now ?b" "pend b2 = pend ?b"
    using clock_only [OF assms(1) b2(2)] b1(6) b2(6) by auto
  moreover have "assigner_timeout add A ev c
      = ctx_output add (ElementEv (element_with_timestamp (fin a) (we_timestamp ev))) (c\<lparr>oc_backend := b2\<rparr>)"
    using r b1(1) b2(1)
    by (simp add: assigner_timeout_def Let_def bind_s_def ctx_session_def expecting_def window_context_new_def)
  ultimately show ?thesis using b1 b2 by (intro exI [of _ b2]) simp
qed

end


section \<open>The two kinds of window\<close>

text \<open>A buffer per key and index: the accumulator is the list of the elements.\<close>

lemma appender_contract:
  assumes vecs: "\<And>ctx. vec_state (act_h (for_window ctx appender_buffer)) I (items ctx)
      (\<lambda>b. ((\<lambda>d. if d = ctx then [] else items d b), frame b))"
  shows "window_contract (appender_window act_h m) I
    (\<lambda>b ctx. if items ctx b = [] then None else Some (items ctx b)) frame (\<lambda>x. [x]) (\<lambda>x xs. xs @ [x]) m"
proof
  fix b x ctx a
  assume b: "I b"
  have other: "(\<lambda>c. if items c b' = [] then None else Some (items c b'))
      = (\<lambda>c. if items c b = [] then None else Some (items c b))(ctx := (if items ctx b' = [] then None else Some (items ctx b')))"
    if "(\<lambda>d. if d = ctx then [] else items d b') = (\<lambda>d. if d = ctx then [] else items d b)" for b'
  proof
    fix c
    show "(if items c b' = [] then None else Some (items c b'))
        = ((\<lambda>c. if items c b = [] then None else Some (items c b))(ctx := (if items ctx b' = [] then None else Some (items ctx b')))) c"
      using fun_cong [OF that, of c] by (cases "c = ctx") simp_all
  qed
  obtain b1 where b1: "ve_append (act_h (for_window ctx appender_buffer)) x b = (Ok (), b1)" "I b1"
      "items ctx b1 = items ctx b @ [x]" "frame b1 = frame b"
      "(\<lambda>d. if d = ctx then [] else items d b1) = (\<lambda>d. if d = ctx then [] else items d b)"
    using vec_state.eappend [OF vecs [of ctx] b, of x] by auto
  show "\<exists>b'. wd_on_element (appender_window act_h m) x ctx b = (Ok (), b') \<and> I b' \<and>
      (\<lambda>ctx. if items ctx b' = [] then None else Some (items ctx b'))
        = (\<lambda>ctx. if items ctx b = [] then None else Some (items ctx b))(ctx \<mapsto>
            (case if items ctx b = [] then None else Some (items ctx b) of None \<Rightarrow> [x] | Some xs \<Rightarrow> xs @ [x])) \<and>
      frame b' = frame b"
    using b1 other [OF b1(5)]
    by (intro exI [of _ b1]) (simp add: appender_window_def appender_on_element_def try_state_def)
  show "wd_result (appender_window act_h m) ctx b = (Ok (m a), b)"
    if "(if items ctx b = [] then None else Some (items ctx b)) = Some a"
    using vec_state.eget [OF vecs [of ctx] b] that
    by (auto simp: appender_window_def appender_result_def try_state_def bind_s_def split: if_splits)
  obtain b2 where b2: "ve_clear (act_h (for_window ctx appender_buffer)) b = (Ok (), b2)" "I b2"
      "items ctx b2 = []" "frame b2 = frame b"
      "(\<lambda>d. if d = ctx then [] else items d b2) = (\<lambda>d. if d = ctx then [] else items d b)"
    using vec_state.eclear [OF vecs [of ctx] b] by auto
  show "\<exists>b'. wd_clear (appender_window act_h m) ctx b = (Ok (), b') \<and> I b' \<and>
      (\<lambda>ctx. if items ctx b' = [] then None else Some (items ctx b'))
        = (\<lambda>ctx. if items ctx b = [] then None else Some (items ctx b))(ctx := None) \<and> frame b' = frame b"
    using b2 other [OF b2(5)]
    by (intro exI [of _ b2]) (simp add: appender_window_def appender_clear_def try_state_def)
qed

text \<open>An accumulator per key and index.\<close>

lemma incremental_contract:
  assumes aggs: "\<And>ctx. aggregator_state (act_h (for_window ctx (incremental_handle init add)))
      (incremental_aggregator init add) I (\<lambda>b. acc b ctx) (\<lambda>b. ((acc b)(ctx := None), frame b))"
  shows "window_contract (incremental_window act_h init add) I acc frame init add (\<lambda>a. a)"
proof
  fix b x ctx a
  assume b: "I b"
  have other: "acc b' = (acc b)(ctx := acc b' ctx)" if "(acc b')(ctx := None) = (acc b)(ctx := None)" for b'
    using that by (metis fun_upd_triv fun_upd_upd)
  show "\<exists>b'. wd_on_element (incremental_window act_h init add) x ctx b = (Ok (), b') \<and> I b' \<and>
      acc b' = (acc b)(ctx \<mapsto> (case acc b ctx of None \<Rightarrow> init x | Some a \<Rightarrow> add x a)) \<and> frame b' = frame b"
    using aggregator_state.aaggregate [OF aggs [of ctx] b, of x] other
    by (force simp: incremental_window_def incremental_on_element_def try_state_def incremental_aggregator_def
        split: option.splits)
  show "wd_result (incremental_window act_h init add) ctx b = (Ok a, b)" if "acc b ctx = Some a"
    using aggregator_state.aget [OF aggs [of ctx] b] that
    by (simp add: incremental_window_def incremental_result_def try_state_def incremental_aggregator_def unwrap_or_panic_def)
  show "\<exists>b'. wd_clear (incremental_window act_h init add) ctx b = (Ok (), b') \<and> I b' \<and> acc b' = (acc b)(ctx := None) \<and>
      frame b' = frame b"
    using aggregator_state.aclear [OF aggs [of ctx] b] other
    by (force simp: incremental_window_def incremental_clear_def try_state_def incremental_aggregator_def)
qed

end
