(* ===== verification/Window_Backend.thy ===== *)
theory Window_Backend
  imports Window_Laws Node_Backend
begin

text \<open>
  Event-time windows on the in-memory backend with the wheel timer: the state of the assigner, the
  buffers of its windows and the entries of the timer are tables of one backend, and implement the
  contract \<open>window_system\<close>. The properties of the windows follow, each with an instance.
\<close>

section \<open>The wheel timer as a clock\<close>

definition timer_now :: "('b \<Rightarrow> u64 option) \<Rightarrow> 'b \<Rightarrow> u64" where
  "timer_now tm b = the (tm b)"

definition timer_pending :: "('b \<Rightarrow> string \<rightharpoonup> 'p event_timer_event) \<Rightarrow> 'b \<Rightarrow> ('p \<times> nat) set" where
  "timer_pending ents b = (\<lambda>e. (payload e, due e)) ` ran (ents b)"

text \<open>The next \<open>k\<close> ids are different, unused and storable.\<close>

definition fresh_ids ::
    "(string \<Rightarrow> bool) \<Rightarrow> ('b \<Rightarrow> string \<rightharpoonup> 'p event_timer_event) \<Rightarrow> (nat \<Rightarrow> string) \<Rightarrow> ('q, 'b) timed \<Rightarrow> nat \<Rightarrow> bool" where
  "fresh_ids kok ents uuid x k \<longleftrightarrow> inj_on (\<lambda>j. uuid (et_drawn (fst x) + j)) {..<k} \<and>
     (\<forall>j < k. kok (uuid (et_drawn (fst x) + j)) \<and> ents (snd x) (uuid (et_drawn (fst x) + j)) = None)"

definition timer_ok ::
    "('q \<Rightarrow> bool) \<Rightarrow> ('q \<Rightarrow> string \<rightharpoonup> nat) \<Rightarrow> ('b \<Rightarrow> bool) \<Rightarrow> (string \<Rightarrow> bool) \<Rightarrow> ('b \<Rightarrow> u64 option)
      \<Rightarrow> ('b \<Rightarrow> string \<rightharpoonup> 'p event_timer_event) \<Rightarrow> ('q, 'b) timed \<Rightarrow> bool" where
  "timer_ok wok pend I kok tm ents x \<longleftrightarrow> (\<exists>now. timer_inv wok pend I kok tm ents now x)"

lemma fresh_ids_after:
  assumes "fresh_ids kok ents uuid x (Suc k)" "et_drawn (fst x') = Suc (et_drawn (fst x))"
    and "ents (snd x') = (ents (snd x))(uuid (et_drawn (fst x)) \<mapsto> e)"
  shows "fresh_ids kok ents uuid x' k"
proof -
  let ?n = "et_drawn (fst x)"
  have inj: "inj_on (\<lambda>j. uuid (?n + j)) {..<Suc k}" using assms(1) by (simp add: fresh_ids_def)
  have "uuid (?n + Suc j) \<noteq> uuid (?n + 0)" if "j < k" for j
    using inj_onD [OF inj, of "Suc j" 0] that by auto
  moreover have "inj_on (\<lambda>j. uuid (?n + Suc j)) {..<k}"
    using inj by (intro inj_onI) (metis Suc_inject Suc_mono inj_onD lessThan_iff)
  ultimately show ?thesis using assms by (auto simp: fresh_ids_def)
qed

context timer_system
begin

lemma as_clock:
  "event_clock (wheel_backend W S uuid) (timer_ok wok pend I kok tm ents) (timer_now tm) (timer_pending ents)
    (fresh_ids kok ents uuid) rest"
proof
  fix x :: "('q, 'b) timed" and k ts p
  show "fresh_ids kok ents uuid x k" if "fresh_ids kok ents uuid x (Suc k)"
    using that by (auto simp: fresh_ids_def intro: inj_on_subset)
  assume ok: "timer_ok wok pend I kok tm ents x"
  then obtain now where i: "inv now x" by (auto simp: timer_ok_def)
  then have now: "timer_now tm (snd x) = now" "I (snd x)" "tm (snd x) = Some now" by (simp_all add: timer_inv_def timer_now_def)
  show "tb_current_time (wheel_backend W S uuid) x = (Ok (timer_now tm (snd x)), x)"
    using current_time_ok [OF now(2,3)] now(1) by (simp add: wheel_backend_def)
  show "\<exists>x'. tb_schedule_at (wheel_backend W S uuid) ts p x = (Ok (Inr ()), x') \<and> timer_ok wok pend I kok tm ents x' \<and>
      fresh_ids kok ents uuid x' k \<and> timer_pending ents (snd x') = insert (p, unat ts) (timer_pending ents (snd x)) \<and>
      timer_now tm (snd x') = timer_now tm (snd x) \<and> rest (snd x') = rest (snd x)"
    if later: "timer_now tm (snd x) < ts" and fresh: "fresh_ids kok ents uuid x (Suc k)"
  proof -
    have f: "fresh_id kok ents uuid x" using fresh by (auto simp: fresh_ids_def fresh_id_def dest: spec [of _ 0])
    have lt: "now < ts" using later now(1) by simp
    let ?e = "event_timer_event_new now (ts - now) p"
    obtain x' where x': "timer_schedule_at W S uuid ts p x = (Ok (Inr ()), x')" "inv now x'"
        "ents (snd x') = (ents (snd x))(uuid (et_drawn (fst x)) \<mapsto> ?e)" "rest (snd x') = rest (snd x)"
        "et_drawn (fst x') = Suc (et_drawn (fst x))"
      using schedule_at_ok [OF i lt f] by blast
    have "due ?e = unat ts" using lt by (simp add: due_def event_timer_event_new_def unat_sub word_le_nat_alt word_less_nat_alt)
    moreover have "payload ?e = p" by (simp add: event_timer_event_new_def)
    moreover have "ents (snd x) (uuid (et_drawn (fst x))) = None" using f by (simp add: fresh_id_def)
    ultimately have "timer_pending ents (snd x') = insert (p, unat ts) (timer_pending ents (snd x))"
      unfolding timer_pending_def x'(3) by (simp add: ran_map_upd del: fun_upd_apply)
    moreover have "timer_now tm (snd x') = now" using x'(2) by (simp add: timer_inv_def timer_now_def)
    ultimately show ?thesis
      using x' now(1) fresh_ids_after [OF fresh x'(5,3)] by (auto simp: wheel_backend_def timer_ok_def)
  qed
qed

end


section \<open>Cells of one table\<close>

lemma to_le_u64: "to_le (j :: u64) = to_le k \<longleftrightarrow> j = k"
  using mk1.mk_inj [of j "()" k "()"] by (auto simp: mk1.mk_def)

lemma im_frame_cells: "im_frame i own b' = im_frame i own b \<Longrightarrow> \<not> own k \<Longrightarrow> im_cell i k b' = im_cell i k b"
  by (auto simp: im_frame_def other_cells_def fun_eq_iff split: if_splits)

text \<open>As the contracts of plain states, for a state that shares its table with those of other metakeys.\<close>

lemma keyed_value_contract:
  assumes c: "im_cells IK eik vik N en vn V h"
    and rest: "\<And>b b'. (\<forall>j. j \<noteq> h_id h \<longrightarrow> im_data b' j = im_data b j) \<Longrightarrow>
      (\<forall>k. k \<noteq> handle_key eik en h \<longrightarrow> im_cell (h_id h) k b' = im_cell (h_id h) k b) \<Longrightarrow> J b' = J b \<and> g b' = g b"
  shows "value_state (im_value_ops IK N V h) (\<lambda>b. typed_state (metakey_layout eik vik en vn) V (h_id h) b \<and> J b)
    (cell_content V (h_id h) (handle_key eik en h)) g"
proof (rule value_state_frame)
  show "value_state (im_value_ops IK N V h) (typed_state (metakey_layout eik vik en vn) V (h_id h))
      (cell_content V (h_id h) (handle_key eik en h)) (im_frame (h_id h) (\<lambda>k. k = handle_key eik en h))"
    using im_cells.refines_value [OF c] by (simp add: im_cells.own_parts [OF c])
qed (intro rest allI impI, erule (1) typed_state_other, erule (1) im_frame_cells)

lemma keyed_vec_contract:
  assumes c: "im_cells IK eik vik N en vn V h"
    and rest: "\<And>b b'. (\<forall>j. j \<noteq> h_id h \<longrightarrow> im_data b' j = im_data b j) \<Longrightarrow>
      (\<forall>k. k \<noteq> handle_key eik en h \<longrightarrow> im_cell (h_id h) k b' = im_cell (h_id h) k b) \<Longrightarrow> J b' = J b \<and> g b' = g b"
  shows "vec_state (im_vec_ops IK N V h) (\<lambda>b. typed_state (metakey_layout eik vik en vn) V (h_id h) b \<and> J b)
    (\<lambda>b. case cell_content V (h_id h) (handle_key eik en h) b of None \<Rightarrow> [] | Some vs \<Rightarrow> vs) g"
proof (rule vec_state_frame)
  have v: "im_vec IK eik vik N en vn V h" using c by (simp add: im_vec_def)
  show "vec_state (im_vec_ops IK N V h) (typed_state (metakey_layout eik vik en vn) V (h_id h))
      (\<lambda>b. case cell_content V (h_id h) (handle_key eik en h) b of None \<Rightarrow> [] | Some vs \<Rightarrow> vs)
      (im_frame (h_id h) (\<lambda>k. k = handle_key eik en h))"
    using im_vec.refines_vec [OF v] by (simp add: im_vec.own_items [OF v] im_cells.own_parts [OF c])
qed (intro rest allI impI, erule (1) typed_state_other, erule (1) im_frame_cells)

section \<open>The tables of the windows\<close>

definition im_assigner_state ::
    "key_and_index message \<Rightarrow> (u64, 'd) any_type \<Rightarrow> (unit, 'd) any_type \<Rightarrow> 'd in_memory assigner_state" where
  "im_assigner_state KI SV UV =
     \<lparr>as_window_start = im_value_ops word_fb unit_fb SV,
      as_active_windows = im_map_ops unit_fb unit_fb KI UV active_windows_handle\<rparr>"

lemma window_tables:
  "distinct [h_id window_start_handle, h_id active_windows_handle, h_id appender_buffer, h_id current_time_handle,
     h_id timeouts_handle]"
  by (simp add: window_start_handle_def active_windows_handle_def appender_buffer_def current_time_handle_def
      timeouts_handle_def with_item_key_def with_namespace_def value_handle_def map_handle_def vec_handle_def no_extra_def)

lemma window_tables_differ:
  "h_id window_start_handle \<noteq> h_id active_windows_handle" "h_id window_start_handle \<noteq> h_id appender_buffer"
  "h_id window_start_handle \<noteq> h_id current_time_handle" "h_id window_start_handle \<noteq> h_id timeouts_handle"
  "h_id active_windows_handle \<noteq> h_id appender_buffer" "h_id active_windows_handle \<noteq> h_id current_time_handle"
  "h_id active_windows_handle \<noteq> h_id timeouts_handle" "h_id appender_buffer \<noteq> h_id current_time_handle"
  "h_id appender_buffer \<noteq> h_id timeouts_handle" "h_id current_time_handle \<noteq> h_id timeouts_handle"
  using window_tables by auto

lemmas tables_differ = window_tables_differ window_tables_differ [symmetric]

locale im_windows =
  im_timer K TV EV
  for K :: "string message" and TV :: "(u64, 'd) any_type" and EV :: "(window_event event_timer_event, 'd) any_type" +
  fixes KI :: "key_and_index message" and SV :: "(u64, 'd) any_type" and UV :: "(unit, 'd) any_type"
    and BV :: "('i list, 'd) any_type"
  assumes boxes: "any_law SV" "any_law UV" "any_law BV"
    and keys: "message_law KI" "\<And>k. length (msg_encode KI k) \<le> usize_max"
begin

abbreviation starts_ok :: "'d in_memory \<Rightarrow> bool" where
  "starts_ok \<equiv> typed_state (metakey_layout (to_le :: u64 \<Rightarrow> bytes) (\<lambda>_. True) (\<lambda>_ :: unit. []) (\<lambda>_. True)) SV (h_id window_start_handle)"

abbreviation buffers_ok :: "'d in_memory \<Rightarrow> bool" where
  "buffers_ok \<equiv> typed_state (metakey_layout (to_le :: u64 \<Rightarrow> bytes) (\<lambda>_. True) (to_le :: u64 \<Rightarrow> bytes) (\<lambda>_. True)) BV (h_id appender_buffer)"

definition windows_ok :: "'d in_memory \<Rightarrow> bool" where
  "windows_ok b \<longleftrightarrow> starts_ok b \<and> map_ok KI UV (h_id active_windows_handle) b \<and> buffers_ok b \<and> im_timer_inv K TV EV b"

definition starts_of :: "'d in_memory \<Rightarrow> u64 \<rightharpoonup> u64" where
  "starts_of b k = cell_content SV (h_id window_start_handle) (to_le k) b"

definition actives_of :: "'d in_memory \<Rightarrow> key_and_index \<rightharpoonup> unit" where
  "actives_of = map_content KI UV (h_id active_windows_handle) []"

definition items_of :: "window_context \<Rightarrow> 'd in_memory \<Rightarrow> 'i list" where
  "items_of ctx b = (case cell_content BV (h_id appender_buffer) (to_le (wc_key ctx) @ to_le (wc_index ctx)) b of
     None \<Rightarrow> [] | Some xs \<Rightarrow> xs)"

definition accs_of :: "'d in_memory \<Rightarrow> window_context \<rightharpoonup> 'i list" where
  "accs_of b = (\<lambda>ctx. if items_of ctx b = [] then None else Some (items_of ctx b))"

definition clock_of :: "'d in_memory \<Rightarrow> u64 option \<times> (string \<rightharpoonup> window_event event_timer_event)" where
  "clock_of b = (stored_time b, stored_entries b)"

text \<open>Each of these depends on its own table only.\<close>

lemma tables_local:
  "im_data b' (h_id window_start_handle) = im_data b (h_id window_start_handle) \<Longrightarrow> starts_of b' = starts_of b \<and> starts_ok b' = starts_ok b"
  "im_data b' (h_id active_windows_handle) = im_data b (h_id active_windows_handle) \<Longrightarrow>
    actives_of b' = actives_of b \<and> map_ok KI UV (h_id active_windows_handle) b' = map_ok KI UV (h_id active_windows_handle) b"
  "im_data b' (h_id appender_buffer) = im_data b (h_id appender_buffer) \<Longrightarrow>
    accs_of b' = accs_of b \<and> (\<lambda>d. items_of d b') = (\<lambda>d. items_of d b) \<and> buffers_ok b' = buffers_ok b"
  "im_data b' (h_id current_time_handle) = im_data b (h_id current_time_handle) \<Longrightarrow>
    im_data b' (h_id timeouts_handle) = im_data b (h_id timeouts_handle) \<Longrightarrow>
    clock_of b' = clock_of b \<and> im_timer_inv K TV EV b' = im_timer_inv K TV EV b"
  by (simp_all add: fun_eq_iff starts_of_def actives_of_def accs_of_def items_of_def clock_of_def typed_state_def
      im_timer_inv_def table_local [of b' _ b])

end


context im_windows
begin

lemma others_same:
  assumes "\<forall>j. j \<noteq> i \<longrightarrow> im_data b' j = im_data b j"
  shows "i \<noteq> h_id window_start_handle \<Longrightarrow> starts_of b' = starts_of b"
    "i \<noteq> h_id window_start_handle \<Longrightarrow> starts_ok b' = starts_ok b"
    "i \<noteq> h_id active_windows_handle \<Longrightarrow> actives_of b' = actives_of b"
    "i \<noteq> h_id active_windows_handle \<Longrightarrow>
      map_ok KI UV (h_id active_windows_handle) b' = map_ok KI UV (h_id active_windows_handle) b"
    "i \<noteq> h_id appender_buffer \<Longrightarrow> accs_of b' = accs_of b"
    "i \<noteq> h_id appender_buffer \<Longrightarrow> buffers_ok b' = buffers_ok b"
    "i \<noteq> h_id current_time_handle \<Longrightarrow> i \<noteq> h_id timeouts_handle \<Longrightarrow> clock_of b' = clock_of b"
    "i \<noteq> h_id current_time_handle \<Longrightarrow> i \<noteq> h_id timeouts_handle \<Longrightarrow> im_timer_inv K TV EV b' = im_timer_inv K TV EV b"
  using assms tables_local [of b' b] by simp_all

lemma starts_contract:
  "value_state (window_start (im_assigner_state KI SV UV) k) windows_ok (\<lambda>b. starts_of b k)
    (\<lambda>b. ((starts_of b)(k := None), actives_of b, accs_of b, clock_of b))"
proof -
  let ?h = "set_item_key k window_start_handle"
  have c: "im_cells word_fb to_le (\<lambda>_. True) unit_fb (\<lambda>_. []) (\<lambda>_. True) SV ?h"
    using mk1.metakeys_axioms boxes(1) by (simp add: im_cells_def im_cells_axioms_def)
  have key: "handle_key to_le (\<lambda>_. []) ?h = to_le k" by (simp add: handle_key_def)
  have val: "(\<lambda>b. starts_of b k) = cell_content SV (h_id window_start_handle) (to_le k)"
    by (simp add: fun_eq_iff starts_of_def)
  have same: "(starts_of b')(k := None) = (starts_of b)(k := None)"
    if "\<forall>x. x \<noteq> to_le k \<longrightarrow> im_cell (h_id window_start_handle) x b' = im_cell (h_id window_start_handle) x b" for b b'
    using that by (auto simp: fun_eq_iff starts_of_def cell_content_def to_le_u64)
  show ?thesis
    using keyed_value_contract [OF c, of
      "\<lambda>b. map_ok KI UV (h_id active_windows_handle) b \<and> buffers_ok b \<and> im_timer_inv K TV EV b"
      "\<lambda>b. ((starts_of b)(k := None), actives_of b, accs_of b, clock_of b)"]
    by (simp add: key val same others_same tables_differ windows_ok_def [abs_def] window_start_def im_assigner_state_def)
qed

lemma actives_contract:
  "map_state (as_active_windows (im_assigner_state KI SV UV)) windows_ok (\<lambda>_. True) actives_of
    (\<lambda>b. (starts_of b, accs_of b, clock_of b))"
  using plain_map_contract [OF boxes(2) keys, of active_windows_handle
      "\<lambda>b. starts_ok b \<and> buffers_ok b \<and> im_timer_inv K TV EV b" "\<lambda>b. (starts_of b, accs_of b, clock_of b)"]
  by (simp add: others_same tables_differ im_assigner_state_def windows_ok_def [abs_def] actives_of_def [abs_def] conj_ac)

lemma buffers_contract:
  "vec_state (im_vec_ops word_fb word_fb BV (for_window ctx appender_buffer)) windows_ok (items_of ctx)
    (\<lambda>b. ((\<lambda>d. if d = ctx then [] else items_of d b), starts_of b, actives_of b, clock_of b))"
proof -
  let ?h = "for_window ctx appender_buffer"
  have c: "im_cells word_fb to_le (\<lambda>_. True) word_fb to_le (\<lambda>_. True) BV ?h"
    using mk2.metakeys_axioms boxes(3) by (simp add: im_cells_def im_cells_axioms_def)
  have key: "handle_key to_le to_le ?h = to_le (wc_key ctx) @ to_le (wc_index ctx)" "h_id ?h = h_id appender_buffer"
    by (simp_all add: handle_key_def for_window_def)
  have inj: "to_le (wc_key d) @ to_le (wc_index d) \<noteq> to_le (wc_key ctx) @ to_le (wc_index ctx)" if "d \<noteq> ctx" for d
    using that mk2.mk_inj [of "wc_key d" "wc_index d" "wc_key ctx" "wc_index ctx"]
    by (cases d; cases ctx) (auto simp: mk2.mk_def)
  have same: "(\<lambda>d. if d = ctx then [] else items_of d b') = (\<lambda>d. if d = ctx then [] else items_of d b)"
    if "\<forall>x. x \<noteq> to_le (wc_key ctx) @ to_le (wc_index ctx) \<longrightarrow>
      im_cell (h_id appender_buffer) x b' = im_cell (h_id appender_buffer) x b" for b b'
    using that inj by (auto simp: fun_eq_iff items_of_def cell_content_def)
  show ?thesis
    using keyed_vec_contract [OF c, of
      "\<lambda>b. starts_ok b \<and> map_ok KI UV (h_id active_windows_handle) b \<and> im_timer_inv K TV EV b"
      "\<lambda>b. ((\<lambda>d. if d = ctx then [] else items_of d b), starts_of b, actives_of b, clock_of b)"]
    by (simp add: key same others_same tables_differ windows_ok_def [abs_def] items_of_def [abs_def] conj_ac)
qed

end


context im_windows
begin

lemma timer_tables:
  assumes "im_timer_rest b' = im_timer_rest b"
  shows "(starts_ok b' \<and> map_ok KI UV (h_id active_windows_handle) b' \<and> buffers_ok b')
      = (starts_ok b \<and> map_ok KI UV (h_id active_windows_handle) b \<and> buffers_ok b) \<and>
    starts_of b' = starts_of b \<and> actives_of b' = actives_of b \<and> accs_of b' = accs_of b"
proof -
  have "im_data b' j = im_data b j" if "j \<noteq> h_id current_time_handle" "j \<noteq> h_id timeouts_handle" for j
    using fun_cong [OF assms, of j] that by (simp add: im_timer_rest_def)
  then show ?thesis using tables_local [of b' b] by (simp add: tables_differ)
qed

lemma timer_contract:
  "timer_store (im_timer_state K TV EV) windows_ok (id_storable K) stored_time stored_entries
    (\<lambda>b. (starts_of b, actives_of b, accs_of b))"
proof (rule timer_store.intro)
  let ?J = "\<lambda>b. starts_ok b \<and> map_ok KI UV (h_id active_windows_handle) b \<and> buffers_ok b"
  have I: "windows_ok = (\<lambda>b. im_timer_inv K TV EV b \<and> ?J b)" by (auto simp: fun_eq_iff windows_ok_def)
  show "value_state (ts_current_time (im_timer_state K TV EV)) windows_ok stored_time
      (\<lambda>b. (stored_entries b, starts_of b, actives_of b, accs_of b))"
    unfolding I by (rule value_state_frame [OF time_contract]) (use timer_tables in blast)
  show "map_state (ts_timeouts (im_timer_state K TV EV)) windows_ok (id_storable K) stored_entries
      (\<lambda>b. (stored_time b, starts_of b, actives_of b, accs_of b))"
    unfolding I by (rule map_state_frame [OF entries_contract]) (use timer_tables in blast)
qed

text \<open>An assigner with an appending window, on these tables.\<close>

lemma appender_system:
  assumes "timer_wheel W wok pend"
    and "wa_window A = appender_window (im_vec_ops word_fb word_fb BV) m" "wa_state A = im_assigner_state KI SV UV"
  shows "window_system A (wheel_backend W (im_timer_state K TV EV) uuid) windows_ok
    (timer_ok wok pend windows_ok (id_storable K) stored_time stored_entries) starts_of actives_of accs_of
    (\<lambda>x. [x]) (\<lambda>x xs. xs @ [x]) m (timer_now stored_time) (timer_pending stored_entries)
    (fresh_ids (id_storable K) stored_entries uuid) clock_of"
proof -
  have "window_contract (wa_window A) windows_ok accs_of (\<lambda>b. (starts_of b, actives_of b, clock_of b))
      (\<lambda>x. [x]) (\<lambda>x xs. xs @ [x]) m"
    unfolding assms(2) accs_of_def [abs_def] by (rule appender_contract) (rule buffers_contract)
  moreover have "event_clock (wheel_backend W (im_timer_state K TV EV) uuid)
      (timer_ok wok pend windows_ok (id_storable K) stored_time stored_entries) (timer_now stored_time)
      (timer_pending stored_entries) (fresh_ids (id_storable K) stored_entries uuid)
      (\<lambda>b. (starts_of b, actives_of b, accs_of b))"
    by (rule timer_system.as_clock [OF timer_system.intro [OF assms(1) timer_contract]])
  ultimately show ?thesis
    using actives_contract starts_contract assms(3)
    by (simp add: window_system_def window_system_axioms_def timer_ok_def timer_inv_def clock_of_def timer_now_def
        timer_pending_def fresh_ids_def)
qed

end


section \<open>An instance\<close>

datatype window_any = AnyStart u64 | AnyActive | AnyItems "u64 list" | AnyClock u64
  | AnyTrigger "window_event event_timer_event"

definition start_any :: "(u64, window_any) any_type" where
  "start_any = \<lparr>any_box = AnyStart, any_downcast = (\<lambda>d. case d of AnyStart x \<Rightarrow> Some x | _ \<Rightarrow> None)\<rparr>"

definition active_any :: "(unit, window_any) any_type" where
  "active_any = \<lparr>any_box = (\<lambda>_. AnyActive), any_downcast = (\<lambda>d. case d of AnyActive \<Rightarrow> Some () | _ \<Rightarrow> None)\<rparr>"

definition items_any :: "(u64 list, window_any) any_type" where
  "items_any = \<lparr>any_box = AnyItems, any_downcast = (\<lambda>d. case d of AnyItems x \<Rightarrow> Some x | _ \<Rightarrow> None)\<rparr>"

definition clock_any :: "(u64, window_any) any_type" where
  "clock_any = \<lparr>any_box = AnyClock, any_downcast = (\<lambda>d. case d of AnyClock x \<Rightarrow> Some x | _ \<Rightarrow> None)\<rparr>"

definition trigger_any :: "(window_event event_timer_event, window_any) any_type" where
  "trigger_any = \<lparr>any_box = AnyTrigger, any_downcast = (\<lambda>d. case d of AnyTrigger x \<Rightarrow> Some x | _ \<Rightarrow> None)\<rparr>"

definition key_and_index_message :: "key_and_index message" where
  "key_and_index_message = \<lparr>msg_encode = (\<lambda>k. to_le (ki_key k) @ to_le (ki_index k)),
     msg_decode = (\<lambda>bs. if 16 \<le> length bs
       then Some (\<lparr>ki_key = from_le (take 8 bs), ki_index = from_le (take 8 (drop 8 bs))\<rparr>, drop 16 bs) else None)\<rparr>"

lemma key_and_index_law: "message_law key_and_index_message"
  by (simp add: message_law_def key_and_index_message_def from_le_to_le)

lemmas window_boxes = start_any_def active_any_def items_any_def clock_any_def trigger_any_def

interpretation imw: im_windows string_message clock_any trigger_any key_and_index_message start_any active_any items_any
  by unfold_locales
    (simp_all add: string_message_law key_and_index_law any_law_def window_boxes, simp add: key_and_index_message_def usize_max_def)

definition demo_assigner :: "(window_any in_memory, u64, u64) assigner" where
  "demo_assigner = \<lparr>wa_length = 10, wa_slide = 5, wa_late = 2, wa_keyed = False,
     wa_window = appender_window (im_vec_ops word_fb word_fb items_any) sum_list,
     wa_state = im_assigner_state key_and_index_message start_any active_any\<rparr>"

abbreviation demo_clock :: "((string \<times> nat) list event_timer, window_any in_memory, window_event) timer_backend" where
  "demo_clock \<equiv> wheel_backend list_wheel (im_timer_state string_message clock_any trigger_any) (\<lambda>n. replicate n CHR ''x'')"

abbreviation demo_clock_ok :: "((string \<times> nat) list, window_any in_memory) timed \<Rightarrow> bool" where
  "demo_clock_ok \<equiv> timer_ok list_wheel_ok map_of imw.windows_ok (id_storable string_message) imw.stored_time imw.stored_entries"

interpretation demow: window_system demo_assigner demo_clock imw.windows_ok demo_clock_ok imw.starts_of imw.actives_of
    imw.accs_of "\<lambda>x. [x]" "\<lambda>x xs. xs @ [x]" sum_list "timer_now imw.stored_time" "timer_pending imw.stored_entries"
    "fresh_ids (id_storable string_message) imw.stored_entries (\<lambda>n. replicate n CHR ''x'')" imw.clock_of
  by (rule imw.appender_system [OF lw.timer_wheel_axioms]) (simp_all add: demo_assigner_def)

text \<open>A backend on which the windows of key 0 start at 20, with the elements \<open>xs\<close> in the first window.\<close>

definition demo_windows :: "u64 list \<Rightarrow> window_any in_memory" where
  "demo_windows xs = \<lparr>im_data =
     [h_id window_start_handle \<mapsto> [(to_le (0 :: u64), AnyStart 20)],
      h_id active_windows_handle \<mapsto> (if xs = [] then [] else [(to_le (0 :: u64) @ to_le (0 :: u64), AnyActive)]),
      h_id appender_buffer \<mapsto> (if xs = [] then [] else [(to_le (0 :: u64) @ to_le (0 :: u64), AnyItems xs)]),
      h_id current_time_handle \<mapsto> [([], AnyClock 21)],
      h_id timeouts_handle \<mapsto> []]\<rparr>"

definition demo_window_ctx :: "u64 list \<Rightarrow> (unit, (string \<times> nat) list event_timer, window_any in_memory) op_ctx" where
  "demo_window_ctx xs = \<lparr>oc_strategy = (), oc_timer = event_timer_new list_wheel, oc_backend = demo_windows xs\<rparr>"

lemma pair_key_eq: "to_le (k :: u64) @ to_le (i :: u64) = to_le k' @ to_le i' \<longleftrightarrow> k = k' \<and> i = i'"
  using mk2.mk_inj [of k i k' i'] by (auto simp: mk2.mk_def)

lemma demo_windows_content:
  "imw.starts_of (demo_windows xs) = [0 \<mapsto> 20]"
  "imw.actives_of (demo_windows xs) = (if xs = [] then Map.empty else [\<lparr>ki_key = 0, ki_index = 0\<rparr> \<mapsto> ()])"
  "imw.accs_of (demo_windows xs) = (if xs = [] then Map.empty else [\<lparr>wc_key = 0, wc_index = 0\<rparr> \<mapsto> xs])"
  "imw.stored_time (demo_windows xs) = Some 21" "imw.stored_entries (demo_windows xs) = Map.empty"
proof -
  show "imw.starts_of (demo_windows xs) = [0 \<mapsto> 20]"
    unfolding fun_eq_iff imw.starts_of_def cell_content_def im_cell_def demo_windows_def
    by (simp add: tables_differ start_any_def to_le_u64)
  show "imw.actives_of (demo_windows xs) = (if xs = [] then Map.empty else [\<lparr>ki_key = 0, ki_index = 0\<rparr> \<mapsto> ()])"
    unfolding fun_eq_iff imw.actives_of_def map_content_def cell_content_def im_cell_def demo_windows_def
    by (auto simp: tables_differ active_any_def key_and_index_message_def pair_key_eq)
  show "imw.accs_of (demo_windows xs) = (if xs = [] then Map.empty else [\<lparr>wc_key = 0, wc_index = 0\<rparr> \<mapsto> xs])"
    unfolding fun_eq_iff imw.accs_of_def imw.items_of_def cell_content_def im_cell_def demo_windows_def
    by (auto simp: tables_differ items_any_def pair_key_eq)
  show "imw.stored_time (demo_windows xs) = Some 21" "imw.stored_entries (demo_windows xs) = Map.empty"
    unfolding fun_eq_iff map_content_def cell_content_def im_cell_def demo_windows_def
    by (simp_all add: tables_differ clock_any_def)
qed

lemma demo_windows_ok: "imw.windows_ok (demo_windows xs)"
  unfolding imw.windows_ok_def map_ok_def im_timer_inv_def typed_state_def typed_table_def demo_windows_def
  by (auto simp: tables_differ metakey_layout_def mapkey_layout_def window_boxes key_and_index_message_def
      intro: exI [of _ "\<lparr>ki_key = 0, ki_index = 0\<rparr>"])

lemma demo_clock_ready:
  "demo_clock_ok (timed_of (demo_window_ctx xs))"
  "k \<le> 2 \<Longrightarrow> fresh_ids (id_storable string_message) imw.stored_entries (\<lambda>n. replicate n CHR ''x'') (timed_of (demo_window_ctx xs)) k"
proof -
  show "demo_clock_ok (timed_of (demo_window_ctx xs))"
    unfolding timer_ok_def timer_inv_def
    by (rule exI [of _ 21]) (simp add: demo_window_ctx_def event_timer_new_def demo_windows_ok demo_windows_content
        stored_ok_def wheel_agrees_def lw.wdefault)
  have "j < 2 \<Longrightarrow> id_storable string_message (replicate j CHR ''x'')" for j
    by (auto simp: id_storable_def string_message_def usize_max_def less_2_cases_iff)
  then show "fresh_ids (id_storable string_message) imw.stored_entries (\<lambda>n. replicate n CHR ''x'') (timed_of (demo_window_ctx xs)) k"
    if "k \<le> 2"
    using that by (auto simp: fresh_ids_def demo_window_ctx_def event_timer_new_def demo_windows_content inj_on_def)
qed


section \<open>Properties\<close>

text \<open>The index arithmetic of the windows. For an assigner that \<^verbatim>\<open>new\<close> accepted, an element that is not
  before the start of its key goes into exactly the windows that contain its timestamp: those of the
  indices from \<^verbatim>\<open>floor\<close> to \<^verbatim>\<open>ceil\<close>. For an element before the start, the subtraction overflows.\<close>

theorem window_range_exact:
  assumes "assigner_new window state len slide late keyed = Ok A"
  shows "if ts < start then window_range A ts start = Panic ''attempt to subtract with overflow''
    else \<exists>floor ceil. window_range A ts start = Ok (floor, ceil) \<and> floor \<le> ceil \<and>
      {unat floor..unat ceil} =
        {i. unat start + i * unat slide \<le> unat ts \<and> unat ts < unat start + i * unat slide + unat len}"
proof -
  have A: "wa_slide A = slide" "wa_length A = len"
    using assms by (auto simp: assigner_new_def rem_u_def split: if_splits)
  then have "windows_at A start ts
      = {i. unat start + i * unat slide \<le> unat ts \<and> unat ts < unat start + i * unat slide + unat len}"
    by (simp add: windows_at_def window_to_def window_from_def)
  then show ?thesis
    using window_range_early [of ts start A] window_range_ok [OF assigner_new_ok [OF assms], of start ts] by (auto simp: not_less)
qed

theorem window_range_exact_witness:
  "\<exists>floor ceil. window_range demo_assigner 27 20 = Ok (floor, ceil) \<and> {unat floor..unat ceil} = {0, 1}"
proof -
  have "assigner_new (wa_window demo_assigner) (wa_state demo_assigner) 10 5 2 False = Ok demo_assigner"
    by (simp add: assigner_new_def rem_u_def demo_assigner_def)
  from window_range_exact [OF this, of 27 20] obtain floor ceil where
    "window_range demo_assigner 27 20 = Ok (floor, ceil)" "{unat floor..unat ceil} = {i :: nat. 20 + i * 5 \<le> 27 \<and> 27 < 20 + i * 5 + 10}"
    by auto
  moreover have "{i :: nat. 20 + i * 5 \<le> 27 \<and> 27 < 20 + i * 5 + 10} = {0, 1}" by auto
  ultimately show ?thesis by auto
qed

text \<open>C9: Elements of event-time windows. A late element changes nothing. Any other that is not before the
  start of its key (its first element sets the start) is added to exactly the windows that contain
  its timestamp; every window that becomes active is scheduled once, for its end and the time for
  late arrivals, and that time has never passed, so the branch the code calls unreachable is. Triggers
  and active windows stay in agreement.\<close>

theorem assigner_element_windows:
  assumes "window_system A T I TI starts act acc ini agg fin now pend room clk" and "assigner_ok A" and "TI (timed_of c)"
    and "ts = (case timestamp e of None \<Rightarrow> 1 | Some t \<Rightarrow> t)" and "key = assigner_key get_key A e"
    and "start = (case starts (oc_backend c) key of None \<Rightarrow> ts | Some s \<Rightarrow> s)" and "start \<le> ts"
    and "unat ts + unat (wa_length A) + unat (wa_late A) < 2 ^ 64"
    and "room (timed_of c) (card (window_indices A start ts))"
  shows "if ts < saturating_sub (now (oc_backend c)) (wa_late A) then assigner_element get_key A T e c = (Ok (), c)
    else \<exists>t b. assigner_element get_key A T e c = (Ok (), c\<lparr>oc_timer := t, oc_backend := b\<rparr>) \<and> TI (t, b) \<and>
      starts b = (starts (oc_backend c))(key \<mapsto> start) \<and> now b = now (oc_backend c) \<and>
      acc b = put_element ini agg key (window_indices A start ts) (data e) (acc (oc_backend c)) \<and>
      act b = activate_windows key (window_indices A start ts) (act (oc_backend c)) \<and>
      pend b = pend (oc_backend c) \<union> new_triggers A start key (window_indices A start ts) (act (oc_backend c)) \<and>
      (\<forall>F. windows_inv A (starts (oc_backend c)) (act (oc_backend c)) (acc (oc_backend c)) (pend (oc_backend c) \<union> F) \<longrightarrow>
        windows_inv A (starts b) (act b) (acc b) (pend b \<union> F))"
proof (cases "ts < saturating_sub (now (oc_backend c)) (wa_late A)")
  case True
  have clock: "event_clock T TI now pend room (\<lambda>b. (starts b, act b, acc b))" using assms(1) by (simp add: window_system_def)
  have "ctx_current_time T c = (Ok (now (oc_backend c)), c)"
    using event_clock.tcurrent [OF clock assms(3)] by (simp add: ctx_current_time_def ctx_timer_def)
  then show ?thesis using True assms(4) by (simp add: assigner_element_def Let_def bind_s_def)
next
  case False
  from window_system.element_ok [OF assms(1-8) False assms(9)]
  obtain t b where tb: "assigner_element get_key A T e c = (Ok (), c\<lparr>oc_timer := t, oc_backend := b\<rparr>)" "TI (t, b)"
      "starts b = (starts (oc_backend c))(key \<mapsto> start)" "now b = now (oc_backend c)"
      "acc b = put_element ini agg key (window_indices A start ts) (data e) (acc (oc_backend c))"
      "act b = activate_windows key (window_indices A start ts) (act (oc_backend c))"
      "pend b = pend (oc_backend c) \<union> new_triggers A start key (window_indices A start ts) (act (oc_backend c))"
    by blast
  have start: "starts (oc_backend c) key = None \<or> starts (oc_backend c) key = Some start"
    using assms(6) by (auto split: option.splits)
  have "windows_inv A (starts b) (act b) (acc b) (pend b \<union> F)"
    if "windows_inv A (starts (oc_backend c)) (act (oc_backend c)) (acc (oc_backend c)) (pend (oc_backend c) \<union> F)" for F
    using windows_inv_element [OF that start, of "window_indices A start ts" ini agg "data e"]
    by (simp add: tb(3,5-7) Un_ac)
  then show ?thesis
    using False tb by (simp only: if_False) (intro exI [of _ t] exI [of _ b], simp)
qed

lemma demo_indices: "window_indices demo_assigner 20 27 = {0, 1}"
proof -
  have "window_indices demo_assigner 20 27 = {i. unat i = 0 \<or> unat i = 1}"
    by (auto simp: window_indices_def windows_at_def window_from_def window_to_def demo_assigner_def)
  also have "\<dots> = {0, 1}"
  proof -
    have "unat i = 1 \<longleftrightarrow> i = 1" for i :: u64 unfolding word_unat_eq_iff by simp
    then show ?thesis by (auto simp: unat_eq_0)
  qed
  finally show ?thesis .
qed

theorem assigner_element_windows_witness:
  "\<exists>t b. assigner_element id demo_assigner demo_clock (element_with_timestamp 7 27) (demo_window_ctx [])
      = (Ok (), (demo_window_ctx [])\<lparr>oc_timer := t, oc_backend := b\<rparr>) \<and>
    imw.accs_of b \<lparr>wc_key = 0, wc_index = 1\<rparr> = Some [7] \<and> imw.accs_of b \<lparr>wc_key = 0, wc_index = 2\<rparr> = None \<and>
    windows_inv demo_assigner (imw.starts_of b) (imw.actives_of b) (imw.accs_of b) (timer_pending imw.stored_entries b)"
proof -
  have inv: "windows_inv demo_assigner [0 \<mapsto> 20] Map.empty (Map.empty :: window_context \<rightharpoonup> u64 list) {}"
    by (simp add: windows_inv_def active_set_def)
  have "assigner_ok demo_assigner" by (simp add: assigner_ok_def demo_assigner_def)
  note facts = assigner_element_windows [OF demow.window_system_axioms this demo_clock_ready(1) [of "[]"],
      where ts = 27 and e = "element_with_timestamp 7 27" and key = 0 and get_key = id and start = 20]
  have "oc_backend (demo_window_ctx []) = demo_windows []" by (simp add: demo_window_ctx_def)
  note content = this demo_windows_content timer_now_def
  have 1: "27 = (case timestamp (element_with_timestamp (7 :: u64) 27) of None \<Rightarrow> 1 | Some t \<Rightarrow> t)"
    and 2: "0 = assigner_key id demo_assigner (element_with_timestamp 7 27)"
    and data: "data (element_with_timestamp 7 27) = (7 :: u64)"
    by (simp_all add: element_with_timestamp_def assigner_key_def demo_assigner_def)
  have 3: "20 = (case imw.starts_of (oc_backend (demo_window_ctx [])) 0 of None \<Rightarrow> 27 | Some s \<Rightarrow> s)" by (simp add: content)
  have 4: "unat (27 :: u64) + unat (wa_length demo_assigner) + unat (wa_late demo_assigner) < 2 ^ 64"
    by (simp add: demo_assigner_def)
  have 5: "fresh_ids (id_storable string_message) imw.stored_entries (\<lambda>n. replicate n CHR ''x'') (timed_of (demo_window_ctx []))
      (card (window_indices demo_assigner 20 27))"
    by (rule demo_clock_ready) (simp add: demo_indices)
  have 6: "(20 :: u64) \<le> 27" and late: "(27 < saturating_sub 21 (wa_late demo_assigner)) = False"
    by (simp_all add: demo_assigner_def saturating_sub_def)
  have "\<exists>t b. assigner_element id demo_assigner demo_clock (element_with_timestamp 7 27) (demo_window_ctx [])
        = (Ok (), (demo_window_ctx [])\<lparr>oc_timer := t, oc_backend := b\<rparr>) \<and>
      imw.accs_of b = put_element (\<lambda>x. [x]) (\<lambda>x xs. xs @ [x]) 0 {0, 1} 7 Map.empty \<and>
      (\<forall>F. windows_inv demo_assigner [0 \<mapsto> 20] Map.empty (Map.empty :: window_context \<rightharpoonup> u64 list) (timer_pending imw.stored_entries (demo_windows []) \<union> F) \<longrightarrow>
        windows_inv demo_assigner (imw.starts_of b) (imw.actives_of b) (imw.accs_of b) (timer_pending imw.stored_entries b \<union> F))"
    using facts [OF 1 2 3 6 4 5] unfolding content data demo_indices option.sel late if_False if_True simp_thms
    by (elim exE conjE) (intro exI conjI)
  then obtain t b where tb: "assigner_element id demo_assigner demo_clock (element_with_timestamp 7 27) (demo_window_ctx [])
        = (Ok (), (demo_window_ctx [])\<lparr>oc_timer := t, oc_backend := b\<rparr>)"
      "imw.accs_of b = put_element (\<lambda>x. [x]) (\<lambda>x xs. xs @ [x]) 0 {0, 1} 7 Map.empty"
      "\<forall>F. windows_inv demo_assigner [0 \<mapsto> 20] Map.empty (Map.empty :: window_context \<rightharpoonup> u64 list) (timer_pending imw.stored_entries (demo_windows []) \<union> F) \<longrightarrow>
        windows_inv demo_assigner (imw.starts_of b) (imw.actives_of b) (imw.accs_of b) (timer_pending imw.stored_entries b \<union> F)"
    by blast
  have "timer_pending imw.stored_entries (demo_windows []) = {}" by (simp add: timer_pending_def demo_windows_content)
  then have "windows_inv demo_assigner (imw.starts_of b) (imw.actives_of b) (imw.accs_of b) (timer_pending imw.stored_entries b)"
    using spec [OF tb(3), of "{}"] inv by simp
  then show ?thesis using tb(1,2) by (intro exI [of _ t] exI [of _ b]) (simp add: put_element_def)
qed

text \<open>C10: A window that fires. With triggers and active windows in agreement, the handler of a trigger finds the
  aggregate of the window, emits its result with the end of the window as timestamp, forgets the
  window and leaves the other windows, the starts and the clock alone; the agreement holds without the trigger.\<close>

theorem assigner_timeout_emits:
  assumes "window_system A T I TI starts act acc ini agg fin now pend room clk" and "TI (timed_of c)"
    and "windows_inv A (starts (oc_backend c)) (act (oc_backend c)) (acc (oc_backend c)) P" and "(ev, d) \<in> P"
  shows "\<exists>a b. acc (oc_backend c) \<lparr>wc_key = we_key ev, wc_index = we_index ev\<rparr> = Some a \<and>
    assigner_timeout add A ev c = ctx_output add (ElementEv (element_with_timestamp (fin a)
      (word_of_nat (window_to A (the (starts (oc_backend c) (we_key ev))) (unat (we_index ev)))))) (c\<lparr>oc_backend := b\<rparr>) \<and>
    TI (oc_timer c, b) \<and> starts b = starts (oc_backend c) \<and> now b = now (oc_backend c) \<and> pend b = pend (oc_backend c) \<and>
    acc b = (acc (oc_backend c))(\<lparr>wc_key = we_key ev, wc_index = we_index ev\<rparr> := None) \<and>
    windows_inv A (starts b) (act b) (acc b) (P - {(ev, d)})"
proof -
  have ev: "(ev, d) \<in> trigger_of A (starts (oc_backend c)) ` active_set (act (oc_backend c))"
    using assms(3,4) by (simp add: windows_inv_def)
  then have "(we_key ev, we_index ev) \<in> active_set (act (oc_backend c))" by (auto simp: trigger_of_def)
  then obtain a where a: "acc (oc_backend c) \<lparr>wc_key = we_key ev, wc_index = we_index ev\<rparr> = Some a"
    using assms(3) by (auto simp: windows_inv_def)
  have "we_timestamp ev = word_of_nat (window_to A (the (starts (oc_backend c) (we_key ev))) (unat (we_index ev)))"
    using ev by (auto simp: trigger_of_def win_event_def window_event_new_def)
  with window_system.timeout_ok [OF assms(1,2) a, of add] windows_inv_timeout [OF assms(3,4)] a
  show ?thesis by (intro exI [of _ a]) auto
qed


theorem assigner_timeout_emits_witness:
  "\<exists>b. assigner_timeout (\<lambda>ev s. (Ok (), s)) demo_assigner \<lparr>we_key = 0, we_index = 0, we_timestamp = 30\<rparr> (demo_window_ctx [3, 4])
      = ctx_output (\<lambda>ev s. (Ok (), s)) (ElementEv (element_with_timestamp (7 :: u64) 30)) ((demo_window_ctx [3, 4])\<lparr>oc_backend := b\<rparr>) \<and>
    imw.accs_of b = Map.empty"
proof -
  let ?ev = "\<lparr>we_key = 0, we_index = 0, we_timestamp = 30\<rparr>" and ?c = "demo_window_ctx [3, 4]"
  have c: "oc_backend ?c = demo_windows [3, 4]" by (simp add: demo_window_ctx_def)
  have to: "window_to demo_assigner 20 0 = 30" by (simp add: window_to_def window_from_def demo_assigner_def)
  have trig: "trigger_of demo_assigner [0 \<mapsto> 20] (0, 0) = (?ev, 32)"
    by (simp add: trigger_of_def win_event_def window_event_new_def to) (simp add: demo_assigner_def)
  have "active_set [\<lparr>ki_key = 0, ki_index = 0\<rparr> \<mapsto> ()] = {(0, 0)}" by (auto simp: active_set_def)
  then have "windows_inv demo_assigner (imw.starts_of (oc_backend ?c)) (imw.actives_of (oc_backend ?c)) (imw.accs_of (oc_backend ?c))
      {(?ev, 32)}"
    by (auto simp: windows_inv_def c demo_windows_content trig)
  from assigner_timeout_emits [OF demow.window_system_axioms demo_clock_ready(1) this, of ?ev 32 "\<lambda>ev s. (Ok (), s)"]
  obtain a b where b: "imw.accs_of (oc_backend ?c) \<lparr>wc_key = we_key ?ev, wc_index = we_index ?ev\<rparr> = Some a"
      "assigner_timeout (\<lambda>ev s. (Ok (), s)) demo_assigner ?ev ?c = ctx_output (\<lambda>ev s. (Ok (), s)) (ElementEv
        (element_with_timestamp (sum_list a) (word_of_nat (window_to demo_assigner (the (imw.starts_of (oc_backend ?c) (we_key ?ev)))
          (unat (we_index ?ev)))))) (?c\<lparr>oc_backend := b\<rparr>)"
      "imw.accs_of b = (imw.accs_of (oc_backend ?c))(\<lparr>wc_key = we_key ?ev, wc_index = we_index ?ev\<rparr> := None)"
    by blast
  have "imw.accs_of b = Map.empty" unfolding b(3) by (simp add: c demo_windows_content fun_eq_iff)
  moreover have "sum_list a = 7" using b(1) by (auto simp: c demo_windows_content)
  ultimately show ?thesis using b(2) by (intro exI [of _ b]) (simp add: c demo_windows_content to)
qed

end
