(* ===== verification/Sources.thy ===== *)
theory Sources
  imports Operators
begin

text \<open>
  Model of \<^verbatim>\<open>src/stream/source\<close>: the context shared by all sources, and the collection, local file
  and socket sources. A source builds elements from its records, gives them to the operator that
  is fused with it, and generates watermarks. The operator, its timer, the channel strategy and
  the system clock are the parameters \<open>source_env\<close>; the clock is the sequence of its readings, in
  milliseconds since the Unix epoch.

  The handlers of an operator return no \<^verbatim>\<open>Result\<close>: an action of the operator ends with \<open>Ok\<close> or a
  panic, and a panic ends the component.
\<close>

section \<open>Source context\<close>

record ('c, 't, 'b, 'i, 'o, 'p) source_env =
  se_operator :: "('c, 't, 'b, 'i, 'p) operator"
  se_timer :: "('t, 'b, 'p) timer_backend"
  se_add :: "('c, 'o) add_event"
  se_clock :: "nat \<Rightarrow> int"

text \<open>\<^verbatim>\<open>SourceContext\<close>; \<open>sc_readings\<close> counts how often the source has read the system clock.\<close>

record ('c, 't, 'b, 'i) source_context =
  sc_ts_extractor :: "('i \<Rightarrow> u64) option"
  sc_current_watermark :: u64
  sc_watermark_interval :: u64
  sc_ctx :: "('c, 't, 'b) op_ctx"
  sc_readings :: nat

type_synonym ('c, 't, 'b, 'i, 'a) source_action =
  "(('c, 't, 'b, 'i) source_context, arcon_error, 'a) action"

definition source_context_new ::
    "('c, 't, 'b, 'i, 'o, 'p) source_env \<Rightarrow> u64 \<Rightarrow> ('i \<Rightarrow> u64) option \<Rightarrow> 'c \<Rightarrow> 'b \<Rightarrow> 't
      \<Rightarrow> (arcon_error, ('c, 't, 'b, 'i) source_context) outcome" where
  "source_context_new E interval extractor c b t =
     (case bind_s (ctx_session (op_init (se_operator E))) (\<lambda>_. ctx_timer (tb_init (se_timer E)))
             (operator_context_new c b t) of
        (r, x) \<Rightarrow> bind_o r (\<lambda>_.
          Ok \<lparr>sc_ts_extractor = extractor, sc_current_watermark = 0, sc_watermark_interval = interval,
              sc_ctx = x, sc_readings = 0\<rparr>))"

text \<open>\<^verbatim>\<open>get_system_time\<close>.\<close>

definition get_system_time :: "('c, 't, 'b, 'i, 'o, 'p) source_env \<Rightarrow> ('c, 't, 'b, 'i, u64) source_action" where
  "get_system_time E sc =
     (let now = se_clock E (sc_readings sc) in
      (if now < 0 then Panic ''Time went backwards'' else Ok (word_of_int now),
       sc\<lparr>sc_readings := sc_readings sc + 1\<rparr>))"

definition watermark_update :: "u64 \<Rightarrow> ('c, 't, 'b, 'i, unit) source_action" where
  "watermark_update ts sc =
     (Ok (), if sc_current_watermark sc < ts then sc\<lparr>sc_current_watermark := ts\<rparr> else sc)"

definition has_timestamp_extractor :: "('c, 't, 'b, 'i) source_context \<Rightarrow> bool" where
  "has_timestamp_extractor sc \<longleftrightarrow> sc_ts_extractor sc \<noteq> None"

definition source_output ::
    "('c, 't, 'b, 'i, 'o, 'p) source_env \<Rightarrow> 'o arcon_event \<Rightarrow> ('c, 't, 'b, 'i, unit) source_action" where
  "source_output E event sc =
     (case ctx_output (se_add E) event (sc_ctx sc) of (r, x) \<Rightarrow> (r, sc\<lparr>sc_ctx := x\<rparr>))"

definition generate_watermark :: "('c, 't, 'b, 'i, 'o, 'p) source_env \<Rightarrow> ('c, 't, 'b, 'i, unit) source_action" where
  "generate_watermark E =
     bind_s (\<lambda>sc. if has_timestamp_extractor sc then (Ok (), sc)
                  else bind_s (get_system_time E) watermark_update sc) (\<lambda>_ sc.
     source_output E (WatermarkEv (watermark_new (sc_current_watermark sc))) sc)"

definition generate_death ::
    "('c, 't, 'b, 'i, 'o, 'p) source_env \<Rightarrow> string \<Rightarrow> ('c, 't, 'b, 'i, unit) source_action" where
  "generate_death E msg = source_output E (DeathEv msg)"

definition process ::
    "('c, 't, 'b, 'i, 'o, 'p) source_env \<Rightarrow> 'i arcon_element \<Rightarrow> ('c, 't, 'b, 'i, unit) source_action" where
  "process E element sc =
     (case op_handle_element (se_operator E) element (sc_ctx sc) of (r, x) \<Rightarrow> (r, sc\<lparr>sc_ctx := x\<rparr>))"

definition extract_element :: "'i \<Rightarrow> ('c, 't, 'b, 'i, 'i arcon_element) source_action" where
  "extract_element d sc =
     (case sc_ts_extractor sc of
        Some ts_fn \<Rightarrow>
          bind_s (watermark_update (ts_fn d)) (\<lambda>_. return_s (element_with_timestamp d (ts_fn d))) sc
      | None \<Rightarrow> (Ok (element_new d), sc))"

section \<open>Collection source\<close>

definition RESCHEDULE_EVERY :: nat where
  "RESCHEDULE_EVERY = 500000"

text \<open>\<open>cs_pending\<close>: the \<^verbatim>\<open>ContinueSending\<close> requests triggered on the loopback port and not handled yet.\<close>

record ('c, 't, 'b, 'i) collection_source =
  cs_source_ctx :: "('c, 't, 'b, 'i) source_context"
  cs_collection :: "'i list"
  cs_counter :: usize
  cs_pending :: nat

type_synonym ('c, 't, 'b, 'i, 'a) collection_action =
  "(('c, 't, 'b, 'i) collection_source, arcon_error, 'a) action"

definition collection_source_new ::
    "'i list \<Rightarrow> ('c, 't, 'b, 'i) source_context \<Rightarrow> ('c, 't, 'b, 'i) collection_source" where
  "collection_source_new xs sc =
     \<lparr>cs_source_ctx = sc, cs_collection = xs, cs_counter = 0, cs_pending = 0\<rparr>"

definition on_source :: "('c, 't, 'b, 'i, 'a) source_action \<Rightarrow> ('c, 't, 'b, 'i, 'a) collection_action" where
  "on_source m s = (case m (cs_source_ctx s) of (r, sc) \<Rightarrow> (r, s\<lparr>cs_source_ctx := sc\<rparr>))"

text \<open>The body of the loop over the drained records.\<close>

definition process_record ::
    "('c, 't, 'b, 'i, 'o, 'p) source_env \<Rightarrow> 'i \<Rightarrow> ('c, 't, 'b, 'i, unit) collection_action" where
  "process_record E record =
     bind_s (on_source (extract_element record)) (\<lambda>elem.
     bind_s (on_source (process E elem)) (\<lambda>_.
     bind_s (\<lambda>s. case add_u (cs_counter s) 1 of
                   Ok n \<Rightarrow> (Ok (), s\<lparr>cs_counter := n\<rparr>)
                 | Err e \<Rightarrow> (Err e, s) | Panic m \<Rightarrow> (Panic m, s) | NoFuel \<Rightarrow> (NoFuel, s)) (\<lambda>_ s.
       if ucast (cs_counter s) = sc_watermark_interval (cs_source_ctx s)
       then bind_s (on_source (generate_watermark E)) (\<lambda>_ s. (Ok (), s\<lparr>cs_counter := 0\<rparr>)) s
       else (Ok (), s))))"

fun process_records ::
    "('c, 't, 'b, 'i, 'o, 'p) source_env \<Rightarrow> 'i list \<Rightarrow> ('c, 't, 'b, 'i, unit) collection_action" where
  "process_records E [] = return_s ()"
| "process_records E (r # rs) = bind_s (process_record E r) (\<lambda>_. process_records E rs)"

text \<open>The drained records leave the collection, also when the loop ends early.\<close>

definition process_collection ::
    "('c, 't, 'b, 'i, 'o, 'p) source_env \<Rightarrow> ('c, 't, 'b, 'i, unit) collection_action" where
  "process_collection E s =
     (let drain_to = min RESCHEDULE_EVERY (length (cs_collection s));
          records = take drain_to (cs_collection s) in
      bind_s (process_records E records) (\<lambda>_ s.
        if cs_collection s \<noteq> [] then (Ok (), s\<lparr>cs_pending := cs_pending s + 1\<rparr>)
        else on_source (generate_watermark E) s)
      (s\<lparr>cs_collection := drop drain_to (cs_collection s)\<rparr>))"

definition collection_on_start :: "('c, 't, 'b, 'i, unit) collection_action" where
  "collection_on_start s = (Ok (), s\<lparr>cs_pending := cs_pending s + 1\<rparr>)"

text \<open>The component takes one request from its port and handles it.\<close>

definition handle_continue ::
    "('c, 't, 'b, 'i, 'o, 'p) source_env \<Rightarrow> ('c, 't, 'b, 'i, unit) collection_action" where
  "handle_continue E s = process_collection E (s\<lparr>cs_pending := cs_pending s - 1\<rparr>)"

section \<open>Local file source\<close>

text \<open>A string is the list of its code points. A file that can be opened is the list of what
  \<^verbatim>\<open>BufReader::lines\<close> returns: a line, or the message of an I/O error.\<close>

type_synonym code_points = "nat list"
type_synonym file_lines = "(string + code_points) list"

record ('c, 't, 'b, 'i) local_file_source =
  lf_source_ctx :: "('c, 't, 'b, 'i) source_context"
  lf_file_path :: string

definition local_file_source_new ::
    "string \<Rightarrow> ('c, 't, 'b, 'i) source_context \<Rightarrow> ('c, 't, 'b, 'i) local_file_source" where
  "local_file_source_new path sc = \<lparr>lf_source_ctx = sc, lf_file_path = path\<rparr>"

text \<open>The body of the loop over the lines, on the context and the local variable \<^verbatim>\<open>counter\<close>.\<close>

definition process_line ::
    "('c, 't, 'b, 'i, 'o, 'p) source_env \<Rightarrow> (code_points \<Rightarrow> 'i option) \<Rightarrow> u64 \<Rightarrow> string + code_points
      \<Rightarrow> (u64 \<times> ('c, 't, 'b, 'i) source_context, arcon_error, unit) action" where
  "process_line E parse interval line = (\<lambda>(counter, sc).
     (case line of
        Inl e \<Rightarrow> (Ok (), (counter, sc))
      | Inr l \<Rightarrow>
          (case parse l of
             None \<Rightarrow> (Ok (), (counter, sc))
           | Some d \<Rightarrow>
               (case bind_s (extract_element d) (process E) sc of
                  (Ok _, sc) \<Rightarrow>
                    (case add_u counter 1 of
                       Ok counter \<Rightarrow>
                         if counter = interval
                         then (case generate_watermark E sc of
                                 (Ok _, sc) \<Rightarrow> (Ok (), (0, sc))
                               | (r, sc) \<Rightarrow> (r, (counter, sc)))
                         else (Ok (), (counter, sc))
                     | Err e \<Rightarrow> (Err e, (counter, sc))
                     | Panic m \<Rightarrow> (Panic m, (counter, sc))
                     | NoFuel \<Rightarrow> (NoFuel, (counter, sc)))
                | (r, sc) \<Rightarrow> (r, (counter, sc))))))"

fun process_lines ::
    "('c, 't, 'b, 'i, 'o, 'p) source_env \<Rightarrow> (code_points \<Rightarrow> 'i option) \<Rightarrow> u64 \<Rightarrow> file_lines
      \<Rightarrow> (u64 \<times> ('c, 't, 'b, 'i) source_context, arcon_error, unit) action" where
  "process_lines E parse interval [] = return_s ()"
| "process_lines E parse interval (l # ls) =
     bind_s (process_line E parse interval l) (\<lambda>_. process_lines E parse interval ls)"

text \<open>\<open>open_file\<close> is the file system at the time of the call.\<close>

definition process_file ::
    "('c, 't, 'b, 'i, 'o, 'p) source_env \<Rightarrow> (code_points \<Rightarrow> 'i option) \<Rightarrow> (string \<Rightarrow> file_lines option)
      \<Rightarrow> (('c, 't, 'b, 'i) local_file_source, arcon_error, unit) action" where
  "process_file E parse open_file s =
     (case open_file (lf_file_path s) of
        Some ls \<Rightarrow>
          (case bind_s (process_lines E parse (sc_watermark_interval (lf_source_ctx s)) ls)
                  (\<lambda>_ (counter, sc). case generate_watermark E sc of (r, sc) \<Rightarrow> (r, (counter, sc)))
                  (0, lf_source_ctx s) of
             (r, (counter, sc)) \<Rightarrow> (r, s\<lparr>lf_source_ctx := sc\<rparr>))
      | None \<Rightarrow> (Ok (), s))"

definition file_on_start ::
    "('c, 't, 'b, 'i, 'o, 'p) source_env \<Rightarrow> (code_points \<Rightarrow> 'i option) \<Rightarrow> (string \<Rightarrow> file_lines option)
      \<Rightarrow> (('c, 't, 'b, 'i) local_file_source, arcon_error, unit) action" where
  "file_on_start E parse open_file = process_file E parse open_file"

section \<open>Socket source\<close>

text \<open>\<^verbatim>\<open>str::from_utf8\<close>: one character of one to four bytes at a time; overlong encodings, surrogates
  and values above \<open>0x10FFFF\<close> are refused.\<close>

definition utf8_cont :: "u8 \<Rightarrow> bool" where
  "utf8_cont b \<longleftrightarrow> 0x80 \<le> b \<and> b \<le> 0xBF"

definition utf8_second :: "u8 \<Rightarrow> u8 \<Rightarrow> bool" where
  "utf8_second b c \<longleftrightarrow>
     (if b = 0xE0 then 0xA0 \<le> c \<and> c \<le> 0xBF
      else if b = 0xED then 0x80 \<le> c \<and> c \<le> 0x9F
      else if b = 0xF0 then 0x90 \<le> c \<and> c \<le> 0xBF
      else if b = 0xF4 then 0x80 \<le> c \<and> c \<le> 0x8F
      else utf8_cont c)"

fun from_utf8 :: "bytes \<Rightarrow> code_points option" where
  "from_utf8 [] = Some []"
| "from_utf8 (b # bs) =
     (if b < 0x80 then map_option (Cons (unat b)) (from_utf8 bs)
      else case bs of
        [] \<Rightarrow> None
      | c # bs \<Rightarrow>
          if 0xC2 \<le> b \<and> b \<le> 0xDF then
            if utf8_cont c then map_option (Cons ((unat b - 0xC0) * 64 + (unat c - 0x80))) (from_utf8 bs)
            else None
          else case bs of
            [] \<Rightarrow> None
          | d # bs \<Rightarrow>
              if 0xE0 \<le> b \<and> b \<le> 0xEF then
                if utf8_second b c \<and> utf8_cont d then
                  map_option (Cons ((unat b - 0xE0) * 4096 + (unat c - 0x80) * 64 + (unat d - 0x80)))
                    (from_utf8 bs)
                else None
              else case bs of
                [] \<Rightarrow> None
              | e # bs \<Rightarrow>
                  if 0xF0 \<le> b \<and> b \<le> 0xF4 \<and> utf8_second b c \<and> utf8_cont d \<and> utf8_cont e then
                    map_option (Cons ((unat b - 0xF0) * 262144 + (unat c - 0x80) * 4096
                      + (unat d - 0x80) * 64 + (unat e - 0x80))) (from_utf8 bs)
                  else None)"

text \<open>\<^verbatim>\<open>str::trim\<close> removes the characters with the Unicode property \<^verbatim>\<open>White_Space\<close> at both ends.\<close>

definition white_space :: "nat \<Rightarrow> bool" where
  "white_space c \<longleftrightarrow>
     9 \<le> c \<and> c \<le> 13 \<or> 0x2000 \<le> c \<and> c \<le> 0x200A \<or>
     c \<in> {0x20, 0x85, 0xA0, 0x1680, 0x2028, 0x2029, 0x202F, 0x205F, 0x3000}"

definition trim :: "code_points \<Rightarrow> code_points" where
  "trim s = rev (dropWhile white_space (rev (dropWhile white_space s)))"

datatype socket_kind = Tcp | Udp

datatype io_message = Bytes bytes | SockClosed | SockErr

record ('c, 't, 'b, 'i, 'd) socket_source =
  so_source_ctx :: "('c, 't, 'b, 'i) source_context"
  so_sock_addr :: 'd
  so_sock_kind :: socket_kind

definition socket_source_new ::
    "'d \<Rightarrow> socket_kind \<Rightarrow> ('c, 't, 'b, 'i) source_context
      \<Rightarrow> (arcon_error, ('c, 't, 'b, 'i, 'd) socket_source) outcome" where
  "socket_source_new addr kind sc =
     (if 0 < sc_watermark_interval sc
      then Ok \<lparr>so_source_ctx = sc, so_sock_addr = addr, so_sock_kind = kind\<rparr>
      else Panic ''assertion failed: source_ctx.watermark_interval > 0'')"

definition on_socket_source ::
    "('c, 't, 'b, 'i, 'a) source_action \<Rightarrow> (('c, 't, 'b, 'i, 'd) socket_source, arcon_error, 'a) action" where
  "on_socket_source m s = (case m (so_source_ctx s) of (r, sc) \<Rightarrow> (r, s\<lparr>so_source_ctx := sc\<rparr>))"

text \<open>The closure that \<^verbatim>\<open>on_start\<close> schedules with the watermark interval, in seconds, as its period.\<close>

definition socket_on_timer ::
    "('c, 't, 'b, 'i, 'o, 'p) source_env \<Rightarrow> (('c, 't, 'b, 'i, 'd) socket_source, arcon_error, unit) action" where
  "socket_on_timer E = on_socket_source (generate_watermark E)"

definition socket_receive_local ::
    "('c, 't, 'b, 'i, 'o, 'p) source_env \<Rightarrow> (code_points \<Rightarrow> 'i option) \<Rightarrow> io_message
      \<Rightarrow> (('c, 't, 'b, 'i, 'd) socket_source, arcon_error, unit) action" where
  "socket_receive_local E parse msg =
     (case msg of
        Bytes bs \<Rightarrow>
          (case from_utf8 bs of
             Some byte_string \<Rightarrow>
               (case parse (trim byte_string) of
                  Some in_data \<Rightarrow> on_socket_source (bind_s (extract_element in_data) (process E))
                | None \<Rightarrow> return_s ())
           | None \<Rightarrow> return_s ())
      | SockClosed \<Rightarrow> return_s ()
      | SockErr \<Rightarrow> return_s ())"

end
