(* ===== verification/Source_Laws.thy ===== *)
theory Source_Laws
  imports Sources
begin

text \<open>
  Correctness of the sources. A collection source yields after every 500000 records and continues
  with a request to itself; it stops, and what it did is one pass over all its records
  (\<open>one_pass\<close>). A file source is the same pass over the lines that can be read and parsed. With a
  function operator the pass is a list of events (\<open>source_events\<close>) given to the channel strategy.
\<close>

section \<open>Frames\<close>

text \<open>No step of a source changes its extractor or its interval.\<close>

definition sc_conf :: "('c, 't, 'b, 'i) source_context \<Rightarrow> ('i \<Rightarrow> u64) option \<times> u64" where
  "sc_conf sc = (sc_ts_extractor sc, sc_watermark_interval sc)"

named_theorems conf_keeps \<open>steps that keep the configuration of a source\<close>

lemma watermark_update_conf [conf_keeps]: "keeps (\<lambda>sc. sc_conf sc = c) (watermark_update ts)"
  by (simp add: keeps_def watermark_update_def sc_conf_def)

lemma get_system_time_conf [conf_keeps]: "keeps (\<lambda>sc. sc_conf sc = c) (get_system_time E)"
  by (simp add: keeps_def get_system_time_def sc_conf_def Let_def)

lemma source_output_conf [conf_keeps]: "keeps (\<lambda>sc. sc_conf sc = c) (source_output E ev)"
  by (simp add: keeps_def source_output_def sc_conf_def split: prod.split)

lemma process_conf [conf_keeps]: "keeps (\<lambda>sc. sc_conf sc = c) (process E el)"
  by (simp add: keeps_def process_def sc_conf_def split: prod.split)

lemma extract_element_conf [conf_keeps]: "keeps (\<lambda>sc. sc_conf sc = c) (extract_element d)"
  by (simp add: keeps_def extract_element_def watermark_update_def sc_conf_def bind_s_def split: option.split)

lemma generate_watermark_conf [conf_keeps]: "keeps (\<lambda>sc. sc_conf sc = c) (generate_watermark E)"
  unfolding generate_watermark_def
proof (rule keeps_bind)
  have *: "keeps (\<lambda>sc. sc_conf sc = c) (bind_s (get_system_time E) watermark_update)"
    by (intro keeps_bind conf_keeps)
  show "keeps (\<lambda>sc. sc_conf sc = c) (\<lambda>sc. if has_timestamp_extractor sc then (Ok (), sc)
      else bind_s (get_system_time E) watermark_update sc)"
    using keepsD [OF *] by (simp add: keeps_def)
  show "keeps (\<lambda>sc. sc_conf sc = c)
      (\<lambda>sc. source_output E (WatermarkEv (watermark_new (sc_current_watermark sc))) sc)" for a
    by (auto simp: keeps_def intro: keepsD [OF source_output_conf])
qed

section \<open>One pass over the records\<close>

text \<open>What both loops do with one record, on the counter and the context.\<close>

definition pass_step ::
    "('c, 't, 'b, 'i, 'o, 'p) source_env \<Rightarrow> u64 \<Rightarrow> 'i
      \<Rightarrow> (u64 \<times> ('c, 't, 'b, 'i) source_context, arcon_error, unit) action" where
  "pass_step E interval d = (\<lambda>(counter, sc).
     (case bind_s (extract_element d) (process E) sc of
        (Ok _, sc) \<Rightarrow>
          (case add_u counter 1 of
             Ok counter \<Rightarrow>
               if counter = interval
               then (case generate_watermark E sc of
                       (Ok _, sc) \<Rightarrow> (Ok (), (0, sc))
                     | (r, sc) \<Rightarrow> (r, (counter, sc)))
               else (Ok (), (counter, sc))
           | Err e \<Rightarrow> (Err e, (counter, sc)) | Panic m \<Rightarrow> (Panic m, (counter, sc)) | NoFuel \<Rightarrow> (NoFuel, (counter, sc)))
      | (r, sc) \<Rightarrow> (r, (counter, sc))))"

fun pass_steps ::
    "('c, 't, 'b, 'i, 'o, 'p) source_env \<Rightarrow> u64 \<Rightarrow> 'i list
      \<Rightarrow> (u64 \<times> ('c, 't, 'b, 'i) source_context, arcon_error, unit) action" where
  "pass_steps E interval [] = return_s ()"
| "pass_steps E interval (d # ds) = bind_s (pass_step E interval d) (\<lambda>_. pass_steps E interval ds)"

definition pass_end ::
    "('c, 't, 'b, 'i, 'o, 'p) source_env
      \<Rightarrow> (u64 \<times> ('c, 't, 'b, 'i) source_context, arcon_error, unit) action" where
  "pass_end E = (\<lambda>(counter, sc). case generate_watermark E sc of (r, sc) \<Rightarrow> (r, (counter, sc)))"

definition one_pass ::
    "('c, 't, 'b, 'i, 'o, 'p) source_env \<Rightarrow> u64 \<Rightarrow> 'i list
      \<Rightarrow> (u64 \<times> ('c, 't, 'b, 'i) source_context, arcon_error, unit) action" where
  "one_pass E interval ds = bind_s (pass_steps E interval ds) (\<lambda>_. pass_end E)"

lemma bind_s_assoc: "bind_s (bind_s m f) g = bind_s m (\<lambda>a. bind_s (f a) g)"
  by (rule ext) (simp add: bind_s_def split: prod.split outcome.split)

lemma bind_s_left: "bind_s (return_s a) f = f a"
  by (rule ext) (simp add: bind_s_def)

lemma pass_steps_append:
  "pass_steps E i (xs @ ys) = bind_s (pass_steps E i xs) (\<lambda>_. pass_steps E i ys)"
  by (induction xs) (simp_all add: bind_s_assoc bind_s_left)

lemma pass_step_conf: "keeps (\<lambda>(n, sc). sc_conf sc = c) (pass_step E i d)"
proof -
  have 1: "keeps (\<lambda>sc. sc_conf sc = c) (bind_s (extract_element d) (process E))"
    by (intro keeps_bind conf_keeps)
  show ?thesis
    using keepsD [OF 1] keepsD [OF generate_watermark_conf, of _ c E]
    by (fastforce simp: keeps_def pass_step_def split: prod.split outcome.split)
qed

lemma pass_steps_conf: "keeps (\<lambda>(n, sc). sc_conf sc = c) (pass_steps E i ds)"
proof (induction ds)
  case (Cons d ds)
  then show ?case by (simp only: pass_steps.simps) (rule keeps_bind [OF pass_step_conf])
qed (simp add: keeps_def)

text \<open>A loop of a collection source is the same loop below the component.\<close>

definition below :: "(u64 \<times> ('c, 't, 'b, 'i) source_context, arcon_error, 'a) action
    \<Rightarrow> ('c, 't, 'b, 'i, 'a) collection_action" where
  "below m s = (case m (cs_counter s, cs_source_ctx s) of
     (r, (n, sc)) \<Rightarrow> (r, s\<lparr>cs_counter := n, cs_source_ctx := sc\<rparr>))"

lemma below_bind: "below (bind_s m f) s = bind_s (below m) (\<lambda>a. below (f a)) s"
  by (simp add: below_def bind_s_def split: prod.split outcome.split)

lemma below_return [simp]: "below (return_s a) s = (Ok a, s)"
  by (simp add: below_def return_s_def)

lemma process_record_below:
  assumes "sc_watermark_interval (cs_source_ctx s) = i"
  shows "process_record E d s = below (pass_step E i d) s"
proof -
  obtain r1 sc1 where 1: "extract_element d (cs_source_ctx s) = (r1, sc1)" by force
  have i1: "sc_watermark_interval sc1 = i"
    using keepsD [OF extract_element_conf [where d = d], of "cs_source_ctx s" "sc_conf (cs_source_ctx s)"] 1 assms
    by (simp add: sc_conf_def)
  show ?thesis
  proof (cases r1)
    case (Ok el)
    obtain r2 sc2 where 2: "process E el sc1 = (r2, sc2)" by force
    have i2: "sc_watermark_interval sc2 = i"
      using keepsD [OF process_conf [where E = E and el = el], of sc1 "sc_conf sc1"] 2 i1 by (simp add: sc_conf_def)
    show ?thesis
      using i2 by (cases r2; cases "add_u (cs_counter s) 1 :: (arcon_error, u64) outcome")
        (auto simp: process_record_def on_source_def below_def pass_step_def bind_s_def 1 2 Ok split: prod.split outcome.split)
  qed (simp_all add: process_record_def on_source_def below_def pass_step_def bind_s_def 1)
qed

lemma process_records_below:
  "sc_watermark_interval (cs_source_ctx s) = i \<Longrightarrow> process_records E ds s = below (pass_steps E i ds) s"
proof (induction ds arbitrary: s)
  case (Cons d ds)
  obtain r s' where s': "below (pass_step E i d) s = (r, s')" by force
  have "sc_watermark_interval (cs_source_ctx s') = i"
    using keepsD [OF pass_step_conf [of "sc_conf (cs_source_ctx s)" E i d], of "(cs_counter s, cs_source_ctx s)"]
      s' Cons.prems by (auto simp: below_def sc_conf_def split: prod.splits)
  from Cons.IH [OF this] show ?case
    by (cases r) (simp_all add: below_bind bind_s_cases s' process_record_below [OF Cons.prems])
qed simp

lemma on_source_end: "on_source (generate_watermark E) = below (pass_end E)"
  by (rule ext) (simp add: on_source_def below_def pass_end_def split: prod.split)

lemma below_frame: "cs_collection (snd (below m s)) = cs_collection s \<and> cs_pending (snd (below m s)) = cs_pending s"
  by (simp add: below_def split: prod.split)

section \<open>The run of a collection source\<close>

text \<open>The component handles requests until none is pending or a handler panics. Every request that
  is triggered follows the removal of at least one record, so the run ends.\<close>

lemma process_collection_below:
  "process_collection E s =
     (let k = min RESCHEDULE_EVERY (length (cs_collection s)) in
      bind_s (below (pass_steps E (sc_watermark_interval (cs_source_ctx s)) (take k (cs_collection s)))) (\<lambda>_ s.
        if cs_collection s \<noteq> [] then (Ok (), s\<lparr>cs_pending := cs_pending s + 1\<rparr>) else below (pass_end E) s)
      (s\<lparr>cs_collection := drop k (cs_collection s)\<rparr>))"
  unfolding process_collection_def Let_def bind_s_def on_source_end
  by (subst process_records_below [where i = "sc_watermark_interval (cs_source_ctx s)"]) simp_all

lemma process_collection_shrinks:
  assumes "process_collection E s = (r, s')"
  shows "cs_collection s' = drop (min RESCHEDULE_EVERY (length (cs_collection s))) (cs_collection s) \<and>
    cs_pending s' = (if r = Ok () \<and> cs_collection s' \<noteq> [] then cs_pending s + 1 else cs_pending s)"
proof -
  let ?k = "min RESCHEDULE_EVERY (length (cs_collection s))"
  let ?s = "s\<lparr>cs_collection := drop ?k (cs_collection s)\<rparr>"
  obtain r1 s1 where 1:
    "below (pass_steps E (sc_watermark_interval (cs_source_ctx s)) (take ?k (cs_collection s))) ?s = (r1, s1)" by force
  have f1: "cs_collection s1 = drop ?k (cs_collection s)" "cs_pending s1 = cs_pending s"
    using below_frame [of "pass_steps E (sc_watermark_interval (cs_source_ctx s)) (take ?k (cs_collection s))" ?s]
    by (simp_all add: 1)
  obtain r2 s2 where 2: "below (pass_end E) s1 = (r2, s2)" by force
  have f2: "cs_collection s2 = cs_collection s1" "cs_pending s2 = cs_pending s1"
    using below_frame [of "pass_end E" s1] by (simp_all add: 2)
  from assms show ?thesis
    unfolding process_collection_below Let_def bind_s_def 1
    using f1 f2 2 by (cases r1) (auto split: if_splits)
qed

function run_collection ::
    "('c, 't, 'b, 'i, 'o, 'p) source_env \<Rightarrow> ('c, 't, 'b, 'i, unit) collection_action" where
  "run_collection E s =
     (if cs_pending s = 0 then (Ok (), s)
      else case handle_continue E s of
             (Ok _, s') \<Rightarrow> run_collection E s'
           | (Err e, s') \<Rightarrow> (Err e, s')
           | (Panic m, s') \<Rightarrow> (Panic m, s')
           | (NoFuel, s') \<Rightarrow> (NoFuel, s'))"
  by pat_completeness auto

termination
proof (relation "measures [\<lambda>(E, s). length (cs_collection s), \<lambda>(E, s). cs_pending s]", goal_cases)
  case (2 E s r s' u)
  then have "process_collection E (s\<lparr>cs_pending := cs_pending s - 1\<rparr>) = (Ok (), s')"
    by (simp add: handle_continue_def)
  from process_collection_shrinks [OF this] 2(1) show ?case
    by (auto simp: RESCHEDULE_EVERY_def split: if_splits)
qed simp

declare run_collection.simps [simp del]


lemma one_pass_split: "one_pass E i ds = bind_s (pass_steps E i (take k ds)) (\<lambda>_. one_pass E i (drop k ds))"
  unfolding one_pass_def bind_s_assoc [symmetric] pass_steps_append [symmetric] by simp

lemma run_collection_pass:
  assumes "cs_pending s = 1" "sc_watermark_interval (cs_source_ctx s) = i" "run_collection E s = (r, s')"
  shows "one_pass E i (cs_collection s) (cs_counter s, cs_source_ctx s) = (r, (cs_counter s', cs_source_ctx s')) \<and>
    (r = Ok () \<longrightarrow> cs_collection s' = [] \<and> cs_pending s' = 0)"
  using assms
proof (induction "length (cs_collection s)" arbitrary: s rule: less_induct)
  case less
  let ?ds = "cs_collection s"
  let ?k = "min RESCHEDULE_EVERY (length ?ds)"
  let ?c = "(cs_counter s, cs_source_ctx s)"
  obtain r1 n1 sc1 where 1: "pass_steps E i (take ?k ?ds) ?c = (r1, (n1, sc1))" by (metis prod_cases3)
  let ?s = "s\<lparr>cs_pending := 0, cs_collection := drop ?k ?ds\<rparr>"
  let ?s1 = "?s\<lparr>cs_counter := n1, cs_source_ctx := sc1\<rparr>"
  have b1: "below (pass_steps E i (take ?k ?ds)) ?s = (r1, ?s1)" by (simp add: below_def 1)
  have i1: "sc_watermark_interval sc1 = i"
    using keepsD [OF pass_steps_conf [of "sc_conf (cs_source_ctx s)" E i "take ?k ?ds"], of ?c] less.prems(2)
    by (simp add: 1 sc_conf_def)
  have h: "handle_continue E s = (case r1 of
       Ok _ \<Rightarrow> if drop ?k ?ds \<noteq> [] then (Ok (), ?s1\<lparr>cs_pending := 1\<rparr>) else below (pass_end E) ?s1
     | Err e \<Rightarrow> (Err e, ?s1) | Panic m \<Rightarrow> (Panic m, ?s1) | NoFuel \<Rightarrow> (NoFuel, ?s1))"
    using less.prems(1,2)
    by (cases r1) (simp_all add: handle_continue_def process_collection_below Let_def bind_s_cases b1)
  show ?case
  proof (cases r1)
    case (Ok u)
    show ?thesis
    proof (cases "drop ?k ?ds = []")
      case True
      obtain r2 sc2 where 2: "generate_watermark E sc1 = (r2, sc2)" by force
      have "run_collection E s = (r2, ?s1\<lparr>cs_source_ctx := sc2\<rparr>)"
        using less.prems(1) True Ok h 2
        by (subst run_collection.simps, cases r2) (simp_all add: below_def pass_end_def run_collection.simps)
      moreover have "pass_steps E i ?ds ?c = (Ok (), (n1, sc1))"
        using 1 True Ok by (simp add: min_def split: if_splits)
      ultimately show ?thesis
        using less.prems(3) True 2 by (auto simp: one_pass_def bind_s_cases pass_end_def)
    next
      case False
      let ?s2 = "?s1\<lparr>cs_pending := 1\<rparr>"
      from False have "0 < length ?ds" by auto
      then have smaller: "length (cs_collection ?s2) < length ?ds" by (simp add: RESCHEDULE_EVERY_def)
      have "run_collection E s = run_collection E ?s2"
        using less.prems(1) False Ok h by (subst run_collection.simps) simp
      with less.prems(3) have "run_collection E ?s2 = (r, s')" by simp
      from less.hyps [OF smaller _ _ this] i1 Ok show ?thesis
        by (auto simp: one_pass_split [where k = ?k and ds = ?ds] bind_s_cases 1)
    qed
  qed (use less.prems(1,3) h 1 in \<open>auto simp: run_collection.simps [of E s]
        one_pass_split [where k = ?k and ds = ?ds] bind_s_cases 1\<close>)
qed

definition collection_run ::
    "('c, 't, 'b, 'i, 'o, 'p) source_env \<Rightarrow> 'i list \<Rightarrow> ('c, 't, 'b, 'i) source_context
      \<Rightarrow> (arcon_error, unit) outcome \<times> ('c, 't, 'b, 'i) collection_source" where
  "collection_run E ds sc = bind_s collection_on_start (\<lambda>_. run_collection E) (collection_source_new ds sc)"

lemma collection_run_pass:
  assumes "collection_run E ds sc = (r, s')"
  shows "one_pass E (sc_watermark_interval sc) ds (0, sc) = (r, (cs_counter s', cs_source_ctx s')) \<and>
    (r = Ok () \<longrightarrow> cs_collection s' = [] \<and> cs_pending s' = 0)"
  using run_collection_pass [of "collection_source_new ds sc\<lparr>cs_pending := 1\<rparr>" "sc_watermark_interval sc" E r s'] assms
  by (simp add: collection_run_def collection_on_start_def collection_source_new_def bind_s_def)


section \<open>Local files\<close>

text \<open>The records of a file: its lines that can be read and parsed, in order.\<close>

definition parsed :: "(code_points \<Rightarrow> 'i option) \<Rightarrow> file_lines \<Rightarrow> 'i list" where
  "parsed parse ls = List.map_filter (\<lambda>l. case l of Inl _ \<Rightarrow> None | Inr s \<Rightarrow> parse s) ls"

lemma process_lines_pass: "process_lines E parse i ls = pass_steps E i (parsed parse ls)"
proof (induction ls)
  case (Cons l ls)
  have skip: "bind_s (\<lambda>(n, sc). (Ok (), (n, sc))) (\<lambda>_. m) = m" for m :: "('x \<times> 'y, 'e, unit) action"
    by (rule ext) (simp add: bind_s_def split: prod.split)
  have "process_line E parse i (Inr s) = pass_step E i d" if "parse s = Some d" for s d
    by (rule ext) (simp add: process_line_def pass_step_def that split: prod.split)
  moreover have "process_line E parse i (Inr s) = (\<lambda>(n, sc). (Ok (), (n, sc)))" if "parse s = None" for s
    by (simp add: process_line_def that)
  moreover have "process_line E parse i (Inl e) = (\<lambda>(n, sc). (Ok (), (n, sc)))" for e
    by (simp add: process_line_def)
  ultimately show ?case
    by (cases l; cases "parse (projr l)")
      (simp_all add: Cons.IH parsed_def map_filter_simps skip del: split_paired_All)
qed (simp add: parsed_def map_filter_simps)

lemma process_file_pass:
  assumes "open_file (lf_file_path s) = Some ls"
  shows "process_file E parse open_file s =
    (case one_pass E (sc_watermark_interval (lf_source_ctx s)) (parsed parse ls) (0, lf_source_ctx s) of
       (r, (n, sc)) \<Rightarrow> (r, s\<lparr>lf_source_ctx := sc\<rparr>))"
  by (simp add: process_file_def assms process_lines_pass one_pass_def pass_end_def)

text \<open>A local file source does exactly what a collection source does on the records of the file,
  the lines that can be read and parsed, in order: same outcome, same state of the context (so
  the same events sent downstream), whatever the operator does. Lines that cannot be read or
  parsed are skipped and do not count for the watermark interval; when the file cannot be opened
  nothing is sent, not even a watermark.\<close>

theorem local_file_as_collection:
  shows "case open_file path of
      None \<Rightarrow> file_on_start E parse open_file (local_file_source_new path sc) = (Ok (), local_file_source_new path sc)
    | Some ls \<Rightarrow>
        (case (file_on_start E parse open_file (local_file_source_new path sc), collection_run E (parsed parse ls) sc) of
           ((r, f), (r', s)) \<Rightarrow> r = r' \<and> lf_source_ctx f = cs_source_ctx s \<and> lf_file_path f = path)"
proof (cases "open_file path")
  case (Some ls)
  obtain r s where "collection_run E (parsed parse ls) sc = (r, s)" by force
  with collection_run_pass [OF this] Some show ?thesis
    using process_file_pass [of open_file "local_file_source_new path sc" ls E parse]
    by (simp add: file_on_start_def local_file_source_new_def split: prod.splits)
qed (simp add: file_on_start_def process_file_def local_file_source_new_def)


section \<open>Events of a source\<close>

text \<open>
  A source whose operator is a function on elements. \<open>stamp\<close> is the watermark after a record,
  \<open>mark\<close> the one that is generated: the greatest timestamp so far with an extractor, the greatest
  clock reading so far without one. \<open>source_events\<close> lists the events from a counter, a watermark
  and a number of clock readings on.
\<close>

fun emit :: "('c, 'o) add_event \<Rightarrow> 'o arcon_event list \<Rightarrow> ('c, arcon_error, unit) action" where
  "emit add [] = return_s ()"
| "emit add (e # es) = bind_s (add e) (\<lambda>_. emit add es)"

definition stamp :: "('i \<Rightarrow> u64) option \<Rightarrow> u64 \<Rightarrow> 'i \<Rightarrow> u64" where
  "stamp g wm d = (case g of None \<Rightarrow> wm | Some ts \<Rightarrow> max wm (ts d))"

definition mark :: "('i \<Rightarrow> u64) option \<Rightarrow> (nat \<Rightarrow> int) \<Rightarrow> u64 \<Rightarrow> nat \<Rightarrow> u64" where
  "mark g clock wm k = (case g of None \<Rightarrow> max wm (word_of_int (clock k)) | Some _ \<Rightarrow> wm)"

definition readings :: "('i \<Rightarrow> u64) option \<Rightarrow> nat \<Rightarrow> nat" where
  "readings g k = (case g of None \<Rightarrow> k + 1 | Some _ \<Rightarrow> k)"

definition outputs :: "('i \<Rightarrow> u64) option \<Rightarrow> ('i \<Rightarrow> 'o list) \<Rightarrow> 'i \<Rightarrow> 'o arcon_event list" where
  "outputs g f d = map (\<lambda>y. ElementEv \<lparr>data = y, timestamp = map_option (\<lambda>ts. ts d) g\<rparr>) (f d)"

fun source_events ::
    "('i \<Rightarrow> u64) option \<Rightarrow> (nat \<Rightarrow> int) \<Rightarrow> ('i \<Rightarrow> 'o list) \<Rightarrow> nat \<Rightarrow> nat \<Rightarrow> u64 \<Rightarrow> nat \<Rightarrow> 'i list
      \<Rightarrow> 'o arcon_event list" where
  "source_events g clock f interval n wm k [] = [WatermarkEv (Watermark (mark g clock wm k))]"
| "source_events g clock f interval n wm k (d # ds) =
     (let wm = stamp g wm d in
      outputs g f d @
      (if Suc n = interval
       then (let wm = mark g clock wm k in
             WatermarkEv (Watermark wm) # source_events g clock f interval 0 wm (readings g k) ds)
       else source_events g clock f interval (Suc n) wm k ds))"

text \<open>The context of a source, but for its watermark, its clock and its channel strategy.\<close>

definition source_at ::
    "('c, 't, 'b, 'i) source_context \<Rightarrow> u64 \<Rightarrow> nat \<Rightarrow> 'c \<Rightarrow> ('c, 't, 'b, 'i) source_context" where
  "source_at sc wm k c =
     sc\<lparr>sc_current_watermark := wm, sc_readings := k, sc_ctx := (sc_ctx sc)\<lparr>oc_strategy := c\<rparr>\<rparr>"

lemma emit_append: "emit add (es @ es') = bind_s (emit add es) (\<lambda>_. emit add es')"
  by (induction es) (simp_all add: bind_s_left bind_s_assoc)

lemma output_all_emit:
  "output_all add ts ys c =
     (case emit add (map (\<lambda>y. ElementEv \<lparr>data = y, timestamp = ts\<rparr>) ys) (oc_strategy c) of
        (r, s) \<Rightarrow> (r, c\<lparr>oc_strategy := s\<rparr>))"
  by (induction ys arbitrary: c) (simp_all add: bind_s_def ctx_output_def split: prod.split outcome.split)

lemma extract_element_at:
  "extract_element d (source_at sc wm k c) =
     (Ok \<lparr>data = d, timestamp = map_option (\<lambda>ts. ts d) (sc_ts_extractor sc)\<rparr>,
      source_at sc (stamp (sc_ts_extractor sc) wm d) k c)"
  by (auto simp: extract_element_def source_at_def stamp_def watermark_update_def bind_s_def element_new_def
      element_with_timestamp_def max_def split: option.split)

lemma process_at:
  assumes "se_operator E = flat_map_new (se_add E) f"
  shows "process E \<lparr>data = d, timestamp = map_option (\<lambda>ts. ts d) g\<rparr> (source_at sc wm k c) =
    (case emit (se_add E) (outputs g f d) c of (r, c') \<Rightarrow> (r, source_at sc wm k c'))"
  by (simp add: process_def assms flat_map_new_def element_operator_def flat_map_element_def stateless_def
      ctx_session_def bind_s_def output_all_emit source_at_def outputs_def split: prod.split)

lemma generate_watermark_at:
  assumes "\<forall>k. 0 \<le> se_clock E k" and "g = sc_ts_extractor sc"
  shows "generate_watermark E (source_at sc wm k c) =
    (case se_add E (WatermarkEv (Watermark (mark g (se_clock E) wm k))) c of
       (r, c') \<Rightarrow> (r, source_at sc (mark g (se_clock E) wm k) (readings g k) c'))"
  using assms(1)
  by (auto simp: generate_watermark_def assms(2) has_timestamp_extractor_def source_at_def get_system_time_def
      watermark_update_def bind_s_def source_output_def ctx_output_def mark_def readings_def watermark_new_def
      max_def not_less [symmetric] split: prod.split option.split)


lemma pass_step_at:
  assumes op: "se_operator E = flat_map_new (se_add E) f" and clock: "\<forall>k. 0 \<le> se_clock E k"
    and g: "g = sc_ts_extractor sc" and n: "Suc n < 2 ^ 64"
    and out: "emit (se_add E) (outputs g f d) c = (r, c1)"
  shows "pass_step E i d (word_of_nat n, source_at sc wm k c) =
    (case r of
       Ok _ \<Rightarrow>
         if Suc n = unat i
         then (case se_add E (WatermarkEv (Watermark (mark g (se_clock E) (stamp g wm d) k))) c1 of
                 (Ok _, c2) \<Rightarrow> (Ok (), (0, source_at sc (mark g (se_clock E) (stamp g wm d) k) (readings g k) c2))
               | (r, c2) \<Rightarrow> (r, (word_of_nat (Suc n), source_at sc (mark g (se_clock E) (stamp g wm d) k) (readings g k) c2)))
         else (Ok (), (word_of_nat (Suc n), source_at sc (stamp g wm d) k c1))
     | _ \<Rightarrow> (r, (word_of_nat n, source_at sc (stamp g wm d) k c1)))"
proof -
  have step: "bind_s (extract_element d) (process E) (source_at sc wm k c) = (r, source_at sc (stamp g wm d) k c1)"
    by (simp add: bind_s_def extract_element_at g [symmetric] process_at [OF op] out)
  have "add_u (word_of_nat n) (1 :: u64) = (Ok (word_of_nat (Suc n)) :: (arcon_error, u64) outcome)"
    using n by (simp add: add_u_def unat_of_nat)
  moreover have "word_of_nat (Suc n) = i \<longleftrightarrow> Suc n = unat i"
  proof -
    have "unat (word_of_nat (Suc n) :: u64) = Suc n" using n by (simp only: unat_of_nat) simp
    then show ?thesis by (metis unsigned_word_eqI)
  qed
  ultimately show ?thesis
    unfolding pass_step_def prod.case step
    by (cases r) (simp_all add: generate_watermark_at [OF clock g] split: prod.split outcome.split)
qed

lemma one_pass_events:
  assumes op: "se_operator E = flat_map_new (se_add E) f" and clock: "\<forall>k. 0 \<le> se_clock E k"
    and g: "g = sc_ts_extractor sc"
  shows "n + length ds < 2 ^ 64 \<Longrightarrow> \<exists>n' wm' k' r c'.
    emit (se_add E) (source_events g (se_clock E) f (unat i) n wm k ds) c = (r, c') \<and>
    one_pass E i ds (word_of_nat n, source_at sc wm k c) = (r, (n', source_at sc wm' k' c'))"
proof (induction ds arbitrary: n wm k c)
  case Nil
  then show ?case
    by (cases "se_add E (WatermarkEv (Watermark (mark g (se_clock E) wm k))) c")
      (auto simp: one_pass_def bind_s_left pass_end_def generate_watermark_at [OF clock g])
next
  case (Cons d ds)
  obtain r1 c1 where 1: "emit (se_add E) (outputs g f d) c = (r1, c1)" by force
  obtain r2 c2 where 2: "se_add E (WatermarkEv (Watermark (mark g (se_clock E) (stamp g wm d) k))) c1 = (r2, c2)" by force
  have "n + length ds < 2 ^ 64" "Suc n + length ds < 2 ^ 64" "0 + length ds < 2 ^ 64" using Cons.prems by simp_all
  note IH = Cons.IH [OF this(2), of "stamp g wm d" k c1]
    Cons.IH [OF this(3), of "mark g (se_clock E) (stamp g wm d) k" "readings g k" c2]
  have "Suc n < 2 ^ 64" using Cons.prems by simp
  note step = pass_step_at [OF op clock g this 1, of i wm k]
  have unfold: "one_pass E i (d # ds) = bind_s (pass_step E i d) (\<lambda>_. one_pass E i ds)"
    by (simp add: one_pass_def bind_s_assoc)
  show ?case
    using IH 2 by (cases r1; cases r2) (auto simp: unfold emit_append Let_def bind_s_cases 1 step)
qed


text \<open>What the list of events contains: every output in order, and watermarks that never fall, one per
  interval and one at the end; with an extractor the last one is the greatest timestamp.\<close>

fun is_element :: "'o arcon_event \<Rightarrow> bool" where
  "is_element (ElementEv _) = True"
| "is_element _ = False"

fun marks :: "'o arcon_event list \<Rightarrow> u64 list" where
  "marks [] = []"
| "marks (WatermarkEv w # es) = wm_timestamp w # marks es"
| "marks (_ # es) = marks es"

lemma marks_outputs [simp]: "marks (outputs g f d @ es) = marks es"
proof -
  have "marks (map (\<lambda>y. ElementEv (h y)) ys @ es) = marks es" for h :: "'a \<Rightarrow> 'a arcon_element" and ys
    by (induction ys) simp_all
  then show ?thesis by (simp add: outputs_def)
qed

lemma elements_outputs [simp]: "filter is_element (outputs g f d) = outputs g f d"
  by (simp add: outputs_def filter_map o_def)

lemma source_events_elements:
  "filter is_element (source_events g clock f i n wm k ds) = concat (map (outputs g f) ds)"
  by (induction ds arbitrary: n wm k) (simp_all add: Let_def)

lemma mark_stamp_ge: "wm \<le> stamp g wm d" "wm \<le> mark g clock wm k"
  by (simp_all add: stamp_def mark_def split: option.split)

lemma source_events_sorted:
  "sorted (marks (source_events g clock f i n wm k ds)) \<and>
   (\<forall>w \<in> set (marks (source_events g clock f i n wm k ds)). wm \<le> w)"
proof (induction ds arbitrary: n wm k)
  case (Cons d ds)
  have ge: "wm \<le> stamp g wm d" "stamp g wm d \<le> mark g clock (stamp g wm d) k" by (rule mark_stamp_ge)+
  show ?case
    using Cons.IH [of "Suc n" "stamp g wm d" k]
      Cons.IH [of 0 "mark g clock (stamp g wm d) k" "readings g k"] ge
    by (auto simp: Let_def intro: order_trans)
qed (simp add: mark_stamp_ge)

lemma source_events_count:
  "n < i \<Longrightarrow> length (marks (source_events g clock f i n wm k ds)) = (n + length ds) div i + 1"
proof (induction ds arbitrary: n wm k)
  case (Cons d ds)
  show ?case
  proof (cases "Suc n = i")
    case True
    then have "(n + length (d # ds)) div i = length ds div i + 1"
      using Cons.prems div_add_self1 [of i "length ds"] by (simp flip: True)
    with True Cons show ?thesis by (simp add: Let_def)
  next
    case False
    with Cons.prems Cons.IH [of "Suc n" "stamp g wm d" k] show ?thesis by (simp add: Let_def)
  qed
qed simp

lemma source_events_nonempty: "source_events g clock f i n wm k ds \<noteq> []"
  by (induction ds arbitrary: n wm k) (simp_all add: Let_def)

lemma source_events_last:
  "last (source_events (Some ts) clock f i n wm k ds) = WatermarkEv (Watermark (fold max (map ts ds) wm))"
proof (induction ds arbitrary: n wm k)
  case (Cons d ds)
  then show ?case by (simp add: Let_def stamp_def mark_def max.commute source_events_nonempty)
qed (simp add: mark_def)


text \<open>C11: A collection source whose operator is a flat map \<open>f\<close> (and so a map or a filter) stops, however
  many records it has and however often it yields, and the events it gives to its channel
  strategy are exactly \<open>source_events\<close>: for every record its outputs in order with the extracted
  timestamp, a watermark after every full interval, and one more at the end; the first event
  that the strategy does not take ends the source. The watermarks never fall, there are
  \<open>length ds div interval + 1\<close> of them, and with an extractor the last is the greatest timestamp of
  all records. The backend and the timer are not touched.\<close>

theorem collection_source_emits:
  fixes f :: "'i \<Rightarrow> 'o list"
  assumes "se_operator E = flat_map_new (se_add E) f" and "\<forall>k. 0 \<le> se_clock E k"
    and "length ds < 2 ^ 64" and "0 < sc_watermark_interval sc"
    and "evs = source_events (sc_ts_extractor sc) (se_clock E) f (unat (sc_watermark_interval sc)) 0
                 (sc_current_watermark sc) (sc_readings sc) ds"
    and "collection_run E ds sc = (r, s)"
  shows "emit (se_add E) evs (oc_strategy (sc_ctx sc)) = (r, oc_strategy (sc_ctx (cs_source_ctx s))) \<and>
    oc_backend (sc_ctx (cs_source_ctx s)) = oc_backend (sc_ctx sc) \<and>
    oc_timer (sc_ctx (cs_source_ctx s)) = oc_timer (sc_ctx sc) \<and>
    (r = Ok () \<longrightarrow> cs_collection s = [] \<and> cs_pending s = 0) \<and>
    filter is_element evs = concat (map (outputs (sc_ts_extractor sc) f) ds) \<and>
    sorted (marks evs) \<and> length (marks evs) = length ds div unat (sc_watermark_interval sc) + 1 \<and>
    (\<forall>ts. sc_ts_extractor sc = Some ts \<longrightarrow>
       last evs = WatermarkEv (Watermark (fold max (map ts ds) (sc_current_watermark sc))))"
proof -
  let ?c = "oc_strategy (sc_ctx sc)"
  have self: "source_at sc (sc_current_watermark sc) (sc_readings sc) ?c = sc" by (simp add: source_at_def)
  obtain n' wm' k' r' c' where e: "emit (se_add E) evs ?c = (r', c')"
      and p: "one_pass E (sc_watermark_interval sc) ds (0, sc) = (r', (n', source_at sc wm' k' c'))"
    using one_pass_events [OF assms(1,2) refl [of "sc_ts_extractor sc"], where n = 0 and ds = ds
        and i = "sc_watermark_interval sc" and wm = "sc_current_watermark sc" and k = "sc_readings sc" and c = ?c]
      assms(3) unfolding self assms(5) by auto
  have pos: "0 < unat (sc_watermark_interval sc)" using assms(4) by (simp add: word_less_nat_alt)
  from collection_run_pass [OF assms(6)] p
  have "r = r'" "cs_source_ctx s = source_at sc wm' k' c'" "r = Ok () \<longrightarrow> cs_collection s = [] \<and> cs_pending s = 0"
    by simp_all
  with e show ?thesis
    unfolding assms(5) using source_events_last source_events_count [OF pos]
    by (auto simp: source_at_def source_events_elements source_events_sorted)
qed


text \<open>Three records with the value as timestamp, a function that drops large values, a watermark after
  every second record, and a strategy that records its events.\<close>

definition demo_source_env :: "(u64 arcon_event list, unit, unit, u64, u64, unit) source_env" where
  "demo_source_env =
     (let add = (\<lambda>e es. (Ok (), es @ [e])) in
      \<lparr>se_operator = flat_map_new add (\<lambda>x. if x < 10 then [x] else []), se_timer = unit_backend,
       se_add = add, se_clock = (\<lambda>k. int k)\<rparr>)"

definition demo_source_ctx :: "(u64 arcon_event list, unit, unit, u64) source_context" where
  "demo_source_ctx =
     \<lparr>sc_ts_extractor = Some (\<lambda>x. x), sc_current_watermark = 0, sc_watermark_interval = 2,
      sc_ctx = operator_context_new [] () (), sc_readings = 0\<rparr>"

theorem collection_source_emits_witness:
  "oc_strategy (sc_ctx (cs_source_ctx (snd (collection_run demo_source_env [3, 50, 7] demo_source_ctx)))) =
     [ElementEv \<lparr>data = 3, timestamp = Some 3\<rparr>, WatermarkEv (Watermark 50),
      ElementEv \<lparr>data = 7, timestamp = Some 7\<rparr>, WatermarkEv (Watermark 50)] \<and>
   fst (collection_run demo_source_env [3, 50, 7] demo_source_ctx) = Ok ()"
proof -
  obtain r s where run: "collection_run demo_source_env [3, 50, 7] demo_source_ctx = (r, s)" by force
  have env: "se_operator demo_source_env = flat_map_new (se_add demo_source_env) (\<lambda>x. if x < 10 then [x] else [])"
    "\<forall>k. 0 \<le> se_clock demo_source_env k" "0 < sc_watermark_interval demo_source_ctx"
    "length [3, 50, 7 :: u64] < 2 ^ 64"
    by (simp_all add: demo_source_env_def demo_source_ctx_def Let_def)
  show ?thesis
    using collection_source_emits [OF env(1,2,4,3) refl run] run
    by (auto simp: demo_source_env_def demo_source_ctx_def operator_context_new_def Let_def outputs_def stamp_def
        mark_def readings_def bind_s_def)
qed

end
