(* ===== verification/Sled.thy ===== *)
theory Sled
  imports In_Memory
begin

text \<open>
  Model of \<^verbatim>\<open>arcon_state/src/sled\<close>: the backend that keeps every state in a tree of the embedded
  database \<^verbatim>\<open>sled\<close>, one tree per state id, keys and values as bytes. The database is a third-party
  crate: the record \<open>sled_api\<close> holds the methods of it that the code calls, on a database of type
  \<open>'db\<close>. Opening a tree that does not exist creates an empty one, which no operation below can
  tell from a missing tree, so it appears as a call that only may fail. A merge operator gets the
  stored and the new bytes; \<open>None\<close> removes the entry.
\<close>

section \<open>The database\<close>

type_synonym merge_operator = "bytes option \<Rightarrow> bytes \<Rightarrow> bytes option state_result"

datatype batch_op = BatchInsert bytes bytes | BatchRemove bytes

text \<open>\<^verbatim>\<open>Db::export\<close>: type and name of a collection, and its items, each a list of byte strings.\<close>

type_synonym sled_export = "(bytes \<times> bytes \<times> bytes list list) list"

record 'db sled_api =
  sl_open :: "string \<Rightarrow> 'db state_result"
  sl_open_tree :: "string \<Rightarrow> 'db \<Rightarrow> unit state_result"
  sl_get :: "string \<Rightarrow> bytes \<Rightarrow> 'db \<Rightarrow> bytes option state_result"
  sl_contains_key :: "string \<Rightarrow> bytes \<Rightarrow> 'db \<Rightarrow> bool state_result"
  sl_scan_prefix :: "string \<Rightarrow> bytes \<Rightarrow> 'db \<Rightarrow> (bytes \<times> bytes) state_result list"
  sl_insert :: "string \<Rightarrow> bytes \<Rightarrow> bytes \<Rightarrow> ('db, arcon_state_error, bytes option) action"
  sl_remove :: "string \<Rightarrow> bytes \<Rightarrow> ('db, arcon_state_error, bytes option) action"
  sl_apply_batch :: "string \<Rightarrow> batch_op list \<Rightarrow> ('db, arcon_state_error, unit) action"
  sl_merge :: "string \<Rightarrow> bytes \<Rightarrow> bytes \<Rightarrow> ('db, arcon_state_error, unit) action"
  sl_set_merge_operator :: "string \<Rightarrow> merge_operator \<Rightarrow> 'db \<Rightarrow> 'db"
  sl_export :: "'db \<Rightarrow> sled_export"
  sl_import :: "sled_export \<Rightarrow> ('db, arcon_state_error, unit) action"

record 'db sled =
  sd_db :: 'db
  sd_restored :: bool

definition on_db :: "('db, arcon_state_error, 'a) action \<Rightarrow> ('db sled, arcon_state_error, 'a) action" where
  "on_db m s = (case m (sd_db s) of (r, d) \<Rightarrow> (r, s\<lparr>sd_db := d\<rparr>))"

definition sled_tree :: "'db sled_api \<Rightarrow> string \<Rightarrow> 'db sled \<Rightarrow> unit state_result" where
  "sled_tree D tree_name s = sl_open_tree D tree_name (sd_db s)"

definition sled_get :: "'db sled_api \<Rightarrow> string \<Rightarrow> bytes \<Rightarrow> 'db sled \<Rightarrow> bytes option state_result" where
  "sled_get D tree_name key s = bind_o (sled_tree D tree_name s) (\<lambda>_. sl_get D tree_name key (sd_db s))"

definition sled_put ::
    "'db sled_api \<Rightarrow> string \<Rightarrow> bytes \<Rightarrow> bytes \<Rightarrow> ('db sled, arcon_state_error, bytes option) action" where
  "sled_put D tree_name key v =
     bind_s (query (sled_tree D tree_name)) (\<lambda>_. on_db (sl_insert D tree_name key v))"

definition sled_remove ::
    "'db sled_api \<Rightarrow> string \<Rightarrow> bytes \<Rightarrow> ('db sled, arcon_state_error, bytes option) action" where
  "sled_remove D tree_name key =
     bind_s (query (sled_tree D tree_name)) (\<lambda>_. on_db (sl_remove D tree_name key))"

fun remove_all :: "(bytes \<times> bytes) state_result list \<Rightarrow> batch_op list state_result" where
  "remove_all [] = Ok []"
| "remove_all (e # es) =
     bind_o e (\<lambda>(k, v). bind_o (remove_all es) (\<lambda>batch. Ok (BatchRemove k # batch)))"

definition sled_remove_prefix ::
    "'db sled_api \<Rightarrow> string \<Rightarrow> bytes \<Rightarrow> ('db sled, arcon_state_error, unit) action" where
  "sled_remove_prefix D tree_name pre =
     bind_s (query (sled_tree D tree_name)) (\<lambda>_.
     bind_s (query (\<lambda>s. remove_all (sl_scan_prefix D tree_name pre (sd_db s)))) (\<lambda>batch.
     on_db (sl_apply_batch D tree_name batch)))"

definition sled_contains :: "'db sled_api \<Rightarrow> string \<Rightarrow> bytes \<Rightarrow> 'db sled \<Rightarrow> bool state_result" where
  "sled_contains D tree_name key s =
     bind_o (sled_tree D tree_name s) (\<lambda>_. sl_contains_key D tree_name key (sd_db s))"

section \<open>Value state\<close>

text \<open>\<open>old_value\<close>: \<^verbatim>\<open>match .. { Some(bytes) => Some(protobuf::deserialize(bytes)?), None => None }\<close>.\<close>

definition old_value :: "'v message \<Rightarrow> bytes option \<Rightarrow> 'v option state_result" where
  "old_value V x =
     (case x of Some bs \<Rightarrow> bind_o (protobuf_deserialize V bs) (\<lambda>v. Ok (Some v)) | None \<Rightarrow> Ok None)"

definition sled_value_clear ::
    "'db sled_api \<Rightarrow> 'ik fixed_bytes \<Rightarrow> 'n fixed_bytes \<Rightarrow> ('ik, 'n, 'x) handle
      \<Rightarrow> ('db sled, arcon_state_error, unit) action" where
  "sled_value_clear D IK N h =
     bind_s (query (\<lambda>_. serialize_metakeys IK N h)) (\<lambda>key.
     bind_s (sled_remove D (h_id h) key) (\<lambda>_. return_s ()))"

definition sled_value_get ::
    "'db sled_api \<Rightarrow> 'ik fixed_bytes \<Rightarrow> 'n fixed_bytes \<Rightarrow> 'v message \<Rightarrow> ('ik, 'n, 'x) handle
      \<Rightarrow> 'db sled \<Rightarrow> 'v option state_result" where
  "sled_value_get D IK N V h s =
     bind_o (serialize_metakeys IK N h) (\<lambda>key.
     bind_o (sled_get D (h_id h) key s) (\<lambda>x.
       case x of
         Some serialized \<Rightarrow> bind_o (protobuf_deserialize V serialized) (\<lambda>v. Ok (Some v))
       | None \<Rightarrow> Ok None))"

definition sled_value_set ::
    "'db sled_api \<Rightarrow> 'ik fixed_bytes \<Rightarrow> 'n fixed_bytes \<Rightarrow> 'v message \<Rightarrow> ('ik, 'n, 'x) handle \<Rightarrow> 'v
      \<Rightarrow> ('db sled, arcon_state_error, 'v option) action" where
  "sled_value_set D IK N V h v =
     bind_s (query (\<lambda>_. serialize_metakeys IK N h)) (\<lambda>key.
     bind_s (query (\<lambda>_. protobuf_serialize V v)) (\<lambda>serialized.
     bind_s (sled_put D (h_id h) key serialized) (\<lambda>x.
     query (\<lambda>_. old_value V x))))"

definition sled_value_fast_set ::
    "'db sled_api \<Rightarrow> 'ik fixed_bytes \<Rightarrow> 'n fixed_bytes \<Rightarrow> 'v message \<Rightarrow> ('ik, 'n, 'x) handle \<Rightarrow> 'v
      \<Rightarrow> ('db sled, arcon_state_error, unit) action" where
  "sled_value_fast_set D IK N V h v =
     bind_s (query (\<lambda>_. serialize_metakeys IK N h)) (\<lambda>key.
     bind_s (query (\<lambda>_. protobuf_serialize V v)) (\<lambda>serialized.
     bind_s (sled_put D (h_id h) key serialized) (\<lambda>_. return_s ())))"

definition sled_value_ops ::
    "'db sled_api \<Rightarrow> 'ik fixed_bytes \<Rightarrow> 'n fixed_bytes \<Rightarrow> 'v message \<Rightarrow> ('ik, 'n, 'x) handle
      \<Rightarrow> ('db sled, 'v) value_ops" where
  "sled_value_ops D IK N V h =
     \<lparr>vo_clear = sled_value_clear D IK N h, vo_get = sled_value_get D IK N V h,
      vo_set = sled_value_set D IK N V h, vo_fast_set = sled_value_fast_set D IK N V h\<rparr>"

section \<open>Map state\<close>

definition sled_map_clear ::
    "'db sled_api \<Rightarrow> 'ik fixed_bytes \<Rightarrow> 'n fixed_bytes \<Rightarrow> ('ik, 'n, 'x) handle
      \<Rightarrow> ('db sled, arcon_state_error, unit) action" where
  "sled_map_clear D IK N h =
     bind_s (query (\<lambda>_. serialize_metakeys IK N h)) (\<lambda>pre. sled_remove_prefix D (h_id h) pre)"

definition sled_map_get ::
    "'db sled_api \<Rightarrow> 'ik fixed_bytes \<Rightarrow> 'n fixed_bytes \<Rightarrow> 'k message \<Rightarrow> 'v message \<Rightarrow> ('ik, 'n, 'x) handle \<Rightarrow> 'k
      \<Rightarrow> 'db sled \<Rightarrow> 'v option state_result" where
  "sled_map_get D IK N K V h key s =
     bind_o (serialize_metakeys_and_key IK N K h key) (\<lambda>key.
     bind_o (sled_get D (h_id h) key s) (\<lambda>x.
       case x of
         Some serialized \<Rightarrow> bind_o (protobuf_deserialize V serialized) (\<lambda>v. Ok (Some v))
       | None \<Rightarrow> Ok None))"

definition sled_map_fast_insert ::
    "'db sled_api \<Rightarrow> 'ik fixed_bytes \<Rightarrow> 'n fixed_bytes \<Rightarrow> 'k message \<Rightarrow> 'v message \<Rightarrow> ('ik, 'n, 'x) handle
      \<Rightarrow> 'k \<Rightarrow> 'v \<Rightarrow> ('db sled, arcon_state_error, unit) action" where
  "sled_map_fast_insert D IK N K V h key v =
     bind_s (query (\<lambda>_. serialize_metakeys_and_key IK N K h key)) (\<lambda>key.
     bind_s (query (\<lambda>_. protobuf_serialize V v)) (\<lambda>serialized.
     bind_s (sled_put D (h_id h) key serialized) (\<lambda>_. return_s ())))"

definition sled_map_insert ::
    "'db sled_api \<Rightarrow> 'ik fixed_bytes \<Rightarrow> 'n fixed_bytes \<Rightarrow> 'k message \<Rightarrow> 'v message \<Rightarrow> ('ik, 'n, 'x) handle
      \<Rightarrow> 'k \<Rightarrow> 'v \<Rightarrow> ('db sled, arcon_state_error, 'v option) action" where
  "sled_map_insert D IK N K V h key v =
     bind_s (query (\<lambda>_. serialize_metakeys_and_key IK N K h key)) (\<lambda>key.
     bind_s (query (\<lambda>_. protobuf_serialize V v)) (\<lambda>serialized.
     bind_s (sled_put D (h_id h) key serialized) (\<lambda>x.
     query (\<lambda>_. old_value V x))))"

text \<open>The batch is filled first; an entry that cannot be encoded leaves the tree as it is.\<close>

fun insert_batch ::
    "'ik fixed_bytes \<Rightarrow> 'n fixed_bytes \<Rightarrow> 'k message \<Rightarrow> 'v message \<Rightarrow> ('ik, 'n, 'x) handle
      \<Rightarrow> ('k \<times> 'v) list \<Rightarrow> batch_op list state_result" where
  "insert_batch IK N K V h [] = Ok []"
| "insert_batch IK N K V h ((user_key, v) # kvs) =
     bind_o (serialize_metakeys_and_key IK N K h user_key) (\<lambda>key.
     bind_o (protobuf_serialize V v) (\<lambda>serialized.
     bind_o (insert_batch IK N K V h kvs) (\<lambda>batch. Ok (BatchInsert key serialized # batch))))"

definition sled_map_insert_all ::
    "'db sled_api \<Rightarrow> 'ik fixed_bytes \<Rightarrow> 'n fixed_bytes \<Rightarrow> 'k message \<Rightarrow> 'v message \<Rightarrow> ('ik, 'n, 'x) handle
      \<Rightarrow> ('k \<times> 'v) list \<Rightarrow> ('db sled, arcon_state_error, unit) action" where
  "sled_map_insert_all D IK N K V h kvs =
     bind_s (query (sled_tree D (h_id h))) (\<lambda>_.
     bind_s (query (\<lambda>_. insert_batch IK N K V h kvs)) (\<lambda>batch.
     on_db (sl_apply_batch D (h_id h) batch)))"

definition sled_map_remove ::
    "'db sled_api \<Rightarrow> 'ik fixed_bytes \<Rightarrow> 'n fixed_bytes \<Rightarrow> 'k message \<Rightarrow> 'v message \<Rightarrow> ('ik, 'n, 'x) handle
      \<Rightarrow> 'k \<Rightarrow> ('db sled, arcon_state_error, 'v option) action" where
  "sled_map_remove D IK N K V h key =
     bind_s (query (\<lambda>_. serialize_metakeys_and_key IK N K h key)) (\<lambda>key.
     bind_s (sled_remove D (h_id h) key) (\<lambda>x. query (\<lambda>_. old_value V x)))"

definition sled_map_fast_remove ::
    "'db sled_api \<Rightarrow> 'ik fixed_bytes \<Rightarrow> 'n fixed_bytes \<Rightarrow> 'k message \<Rightarrow> ('ik, 'n, 'x) handle
      \<Rightarrow> 'k \<Rightarrow> ('db sled, arcon_state_error, unit) action" where
  "sled_map_fast_remove D IK N K h key =
     bind_s (query (\<lambda>_. serialize_metakeys_and_key IK N K h key)) (\<lambda>key.
     bind_s (sled_remove D (h_id h) key) (\<lambda>_. return_s ()))"

definition sled_map_contains ::
    "'db sled_api \<Rightarrow> 'ik fixed_bytes \<Rightarrow> 'n fixed_bytes \<Rightarrow> 'k message \<Rightarrow> ('ik, 'n, 'x) handle
      \<Rightarrow> 'k \<Rightarrow> 'db sled \<Rightarrow> bool state_result" where
  "sled_map_contains D IK N K h key s =
     bind_o (serialize_metakeys_and_key IK N K h key) (\<lambda>key. sled_contains D (h_id h) key s)"

definition sled_scan ::
    "'db sled_api \<Rightarrow> 'ik fixed_bytes \<Rightarrow> 'n fixed_bytes \<Rightarrow> ('ik, 'n, 'x) handle \<Rightarrow> 'db sled
      \<Rightarrow> (bytes \<times> bytes) state_result list state_result" where
  "sled_scan D IK N h s =
     bind_o (serialize_metakeys IK N h) (\<lambda>pre.
     bind_o (sled_tree D (h_id h) s) (\<lambda>_.
     Ok (sl_scan_prefix D (h_id h) pre (sd_db s))))"

definition sled_map_iter ::
    "'db sled_api \<Rightarrow> 'ik fixed_bytes \<Rightarrow> 'n fixed_bytes \<Rightarrow> 'k message \<Rightarrow> 'v message \<Rightarrow> ('ik, 'n, 'x) handle
      \<Rightarrow> 'db sled \<Rightarrow> ('k \<times> 'v) state_result list state_result" where
  "sled_map_iter D IK N K V h s =
     bind_o (sled_scan D IK N h s) (\<lambda>es.
     Ok (map (\<lambda>entry. bind_o entry (\<lambda>(db_key, serialized_value).
       bind_o (decode_user_key IK N K db_key) (\<lambda>key.
       bind_o (protobuf_deserialize V serialized_value) (\<lambda>v. Ok (key, v))))) es))"

definition sled_map_keys ::
    "'db sled_api \<Rightarrow> 'ik fixed_bytes \<Rightarrow> 'n fixed_bytes \<Rightarrow> 'k message \<Rightarrow> ('ik, 'n, 'x) handle
      \<Rightarrow> 'db sled \<Rightarrow> 'k state_result list state_result" where
  "sled_map_keys D IK N K h s =
     bind_o (sled_scan D IK N h s) (\<lambda>es.
     Ok (map (\<lambda>entry. bind_o entry (\<lambda>(db_key, _). decode_user_key IK N K db_key)) es))"

definition sled_map_values ::
    "'db sled_api \<Rightarrow> 'ik fixed_bytes \<Rightarrow> 'n fixed_bytes \<Rightarrow> 'v message \<Rightarrow> ('ik, 'n, 'x) handle
      \<Rightarrow> 'db sled \<Rightarrow> 'v state_result list state_result" where
  "sled_map_values D IK N V h s =
     bind_o (sled_scan D IK N h s) (\<lambda>es.
     Ok (map (\<lambda>entry. bind_o entry (\<lambda>(_, serialized_value). protobuf_deserialize V serialized_value)) es))"

definition sled_map_len ::
    "'db sled_api \<Rightarrow> 'ik fixed_bytes \<Rightarrow> 'n fixed_bytes \<Rightarrow> ('ik, 'n, 'x) handle \<Rightarrow> 'db sled \<Rightarrow> nat state_result" where
  "sled_map_len D IK N h s = bind_o (sled_scan D IK N h s) (\<lambda>es. Ok (length es))"

definition sled_map_is_empty ::
    "'db sled_api \<Rightarrow> 'ik fixed_bytes \<Rightarrow> 'n fixed_bytes \<Rightarrow> ('ik, 'n, 'x) handle \<Rightarrow> 'db sled \<Rightarrow> bool state_result" where
  "sled_map_is_empty D IK N h s = bind_o (sled_scan D IK N h s) (\<lambda>es. Ok (es = []))"

definition sled_map_ops ::
    "'db sled_api \<Rightarrow> 'ik fixed_bytes \<Rightarrow> 'n fixed_bytes \<Rightarrow> 'k message \<Rightarrow> 'v message \<Rightarrow> ('ik, 'n, 'x) handle
      \<Rightarrow> ('db sled, 'k, 'v) map_ops" where
  "sled_map_ops D IK N K V h =
     \<lparr>mo_clear = sled_map_clear D IK N h,
      mo_get = sled_map_get D IK N K V h,
      mo_fast_insert = sled_map_fast_insert D IK N K V h,
      mo_insert = sled_map_insert D IK N K V h,
      mo_insert_all = sled_map_insert_all D IK N K V h,
      mo_remove = sled_map_remove D IK N K V h,
      mo_fast_remove = sled_map_fast_remove D IK N K h,
      mo_contains = sled_map_contains D IK N K h,
      mo_iter = sled_map_iter D IK N K V h,
      mo_keys = sled_map_keys D IK N K h,
      mo_values = sled_map_values D IK N V h,
      mo_len = sled_map_len D IK N h,
      mo_is_empty = sled_map_is_empty D IK N h\<rparr>"

section \<open>Vector state\<close>

text \<open>
  A vector is stored as the number of its elements and their encodings one after the other, and
  grows through the merge operator \<open>vec_merge\<close>. \<open>overwrite_front\<close> writes to the front of a vector
  as a slice. Requests for more memory than the address space has panic (\<open>with_capacity\<close>); memory
  that runs out earlier is not modelled.
\<close>

definition overwrite_front :: "(buf_mut, arcon_state_error, unit) action \<Rightarrow> bytes \<Rightarrow> bytes state_result" where
  "overwrite_front m r =
     (case m \<lparr>bm_written = [], bm_room = length r\<rparr> of
        (x, t) \<Rightarrow> bind_o x (\<lambda>_. Ok (bm_written t @ drop (length (bm_written t)) r)))"

definition with_capacity :: "nat \<Rightarrow> unit state_result" where
  "with_capacity n = (if n \<le> usize_max then Ok () else Panic ''capacity overflow'')"

text \<open>\<^verbatim>\<open>.ok()?\<close> inside a merge operator: an error makes it return \<open>None\<close>.\<close>

fun ok_or_none :: "'a state_result \<Rightarrow> ('a \<Rightarrow> 'b option state_result) \<Rightarrow> 'b option state_result" where
  "ok_or_none (Ok a) f = f a"
| "ok_or_none (Err e) f = Ok None"
| "ok_or_none (Panic m) f = Panic m"
| "ok_or_none NoFuel f = NoFuel"

fun merge_slices :: "usize \<Rightarrow> bytes \<Rightarrow> bytes list \<Rightarrow> (usize \<times> bytes) option state_result" where
  "merge_slices len result [] = Ok (Some (len, result))"
| "merge_slices len result (op # ops) =
     ok_or_none (fst (fb_deserialize_from word_fb op)) (\<lambda>n.
     bind_o (add_u len n) (\<lambda>len.
     merge_slices len (result @ snd (fb_deserialize_from (word_fb :: usize fixed_bytes) op)) ops))"

definition vec_merge :: merge_operator where
  "vec_merge existent new =
     ok_or_none (into_fresh_vec (fb_serialize_into word_fb (0 :: usize))) (\<lambda>result.
     bind_o (merge_slices 0 result (case existent of None \<Rightarrow> [new] | Some old \<Rightarrow> [old, new])) (\<lambda>x.
       case x of
         None \<Rightarrow> Ok None
       | Some (len, result) \<Rightarrow>
           ok_or_none (overwrite_front (fb_serialize_into word_fb len) result) (\<lambda>result. Ok (Some result))))"

definition sled_vec_clear ::
    "'db sled_api \<Rightarrow> 'ik fixed_bytes \<Rightarrow> 'n fixed_bytes \<Rightarrow> ('ik, 'n, 'x) handle
      \<Rightarrow> ('db sled, arcon_state_error, unit) action" where
  "sled_vec_clear D IK N h =
     bind_s (query (\<lambda>_. serialize_metakeys IK N h)) (\<lambda>key.
     bind_s (sled_remove D (h_id h) key) (\<lambda>_. return_s ()))"

definition sled_vec_append ::
    "'db sled_api \<Rightarrow> 'ik fixed_bytes \<Rightarrow> 'n fixed_bytes \<Rightarrow> 'v message \<Rightarrow> ('ik, 'n, 'x) handle \<Rightarrow> 'v
      \<Rightarrow> ('db sled, arcon_state_error, unit) action" where
  "sled_vec_append D IK N V h v =
     bind_s (query (\<lambda>_. serialize_metakeys IK N h)) (\<lambda>key.
     bind_s (query (\<lambda>_. with_capacity (SIZE (word_fb :: usize fixed_bytes)
               + (case size_hint V v of None \<Rightarrow> 0 | Some n \<Rightarrow> n)))) (\<lambda>_.
     bind_s (query (\<lambda>_. into_fresh_vec
               (bind_s (fb_serialize_into word_fb (1 :: usize)) (\<lambda>_. protobuf_serialize_into V v)))) (\<lambda>serialized.
     bind_s (query (sled_tree D (h_id h))) (\<lambda>_.
     on_db (sl_merge D (h_id h) key serialized)))))"

text \<open>The loop \<^verbatim>\<open>while !reader.is_empty()\<close> reads one message per round. A message takes at least one
  byte, so the length of the input is enough fuel.\<close>

fun read_messages :: "nat \<Rightarrow> 'v message \<Rightarrow> bytes \<Rightarrow> 'v list state_result" where
  "read_messages fuel V [] = Ok []"
| "read_messages 0 V (b # bs) = NoFuel"
| "read_messages (Suc fuel) V (b # bs) =
     (case protobuf_deserialize_from V (b # bs) of
        (r, rest) \<Rightarrow> bind_o r (\<lambda>v. bind_o (read_messages fuel V rest) (\<lambda>vs. Ok (v # vs))))"

definition sled_vec_get ::
    "'db sled_api \<Rightarrow> 'ik fixed_bytes \<Rightarrow> 'n fixed_bytes \<Rightarrow> 'v message \<Rightarrow> ('ik, 'n, 'x) handle
      \<Rightarrow> 'db sled \<Rightarrow> 'v list state_result" where
  "sled_vec_get D IK N V h s =
     bind_o (serialize_metakeys IK N h) (\<lambda>key.
     bind_o (sled_get D (h_id h) key s) (\<lambda>x.
       case x of
         Some serialized \<Rightarrow>
           (case fb_deserialize_from word_fb serialized of
              (r, reader) \<Rightarrow> bind_o r (\<lambda>len :: usize.
                bind_o (read_messages (length reader) V reader) (\<lambda>res.
                if length res = unat len then Ok res else Panic ''assertion failed: `(left == right)`'')))
       | None \<Rightarrow> Ok []))"

text \<open>The iterator reads a message per \<^verbatim>\<open>next\<close>; it is followed up to the first error.\<close>

fun iter_messages :: "nat \<Rightarrow> 'v message \<Rightarrow> bytes \<Rightarrow> 'v state_result list" where
  "iter_messages fuel V [] = []"
| "iter_messages 0 V (b # bs) = [NoFuel]"
| "iter_messages (Suc fuel) V (b # bs) =
     (case protobuf_deserialize_from V (b # bs) of
        (Ok v, rest) \<Rightarrow> Ok v # iter_messages fuel V rest
      | (r, _) \<Rightarrow> [r])"

definition sled_vec_iter ::
    "'db sled_api \<Rightarrow> 'ik fixed_bytes \<Rightarrow> 'n fixed_bytes \<Rightarrow> 'v message \<Rightarrow> ('ik, 'n, 'x) handle
      \<Rightarrow> 'db sled \<Rightarrow> 'v state_result list state_result" where
  "sled_vec_iter D IK N V h s =
     bind_o (serialize_metakeys IK N h) (\<lambda>key.
     bind_o (sled_get D (h_id h) key s) (\<lambda>x.
       case x of
         Some serialized \<Rightarrow>
           (case fb_deserialize_from word_fb serialized of
              (r, reader) \<Rightarrow> bind_o r (\<lambda>_ :: usize. Ok (iter_messages (length reader) V reader)))
       | None \<Rightarrow> Ok []))"

fun serialize_messages :: "'v message \<Rightarrow> 'v list \<Rightarrow> (buf_mut, arcon_state_error, unit) action" where
  "serialize_messages V [] = return_s ()"
| "serialize_messages V (v # vs) = bind_s (protobuf_serialize_into V v) (\<lambda>_. serialize_messages V vs)"

definition sled_vec_set ::
    "'db sled_api \<Rightarrow> 'ik fixed_bytes \<Rightarrow> 'n fixed_bytes \<Rightarrow> 'v message \<Rightarrow> ('ik, 'n, 'x) handle \<Rightarrow> 'v list
      \<Rightarrow> ('db sled, arcon_state_error, unit) action" where
  "sled_vec_set D IK N V h vs =
     bind_s (query (\<lambda>_. serialize_metakeys IK N h)) (\<lambda>key.
     bind_s (query (\<lambda>_. with_capacity (SIZE (word_fb :: usize fixed_bytes)
               + sum_list (List.map_filter (size_hint V) vs)))) (\<lambda>_.
     bind_s (query (\<lambda>_. into_fresh_vec
               (bind_s (fb_serialize_into word_fb (word_of_nat (length vs) :: usize)) (\<lambda>_.
                serialize_messages V vs)))) (\<lambda>storage.
     bind_s (sled_put D (h_id h) key storage) (\<lambda>_. return_s ()))))"

fun count_messages :: "'v message \<Rightarrow> usize \<Rightarrow> 'v list \<Rightarrow> (buf_mut, arcon_state_error, usize) action" where
  "count_messages V len [] = return_s len"
| "count_messages V len (v # vs) =
     bind_s (query (\<lambda>_. add_u len 1)) (\<lambda>len.
     bind_s (protobuf_serialize_into V v) (\<lambda>_. count_messages V len vs))"

definition sled_vec_add_all ::
    "'db sled_api \<Rightarrow> 'ik fixed_bytes \<Rightarrow> 'n fixed_bytes \<Rightarrow> 'v message \<Rightarrow> ('ik, 'n, 'x) handle \<Rightarrow> 'v list
      \<Rightarrow> ('db sled, arcon_state_error, unit) action" where
  "sled_vec_add_all D IK N V h vs =
     bind_s (query (\<lambda>_. serialize_metakeys IK N h)) (\<lambda>key.
     bind_s (query (\<lambda>_. case bind_s (fb_serialize_into word_fb (0 :: usize)) (\<lambda>_. count_messages V 0 vs) (vec_target []) of
               (r, t) \<Rightarrow> bind_o r (\<lambda>len. overwrite_front (fb_serialize_into word_fb len) (bm_written t)))) (\<lambda>serialized.
     bind_s (query (sled_tree D (h_id h))) (\<lambda>_.
     on_db (sl_merge D (h_id h) key serialized))))"

definition sled_vec_len ::
    "'db sled_api \<Rightarrow> 'ik fixed_bytes \<Rightarrow> 'n fixed_bytes \<Rightarrow> ('ik, 'n, 'x) handle \<Rightarrow> 'db sled \<Rightarrow> nat state_result" where
  "sled_vec_len D IK N h s =
     bind_o (serialize_metakeys IK N h) (\<lambda>key.
     bind_o (sled_get D (h_id h) key s) (\<lambda>x.
       case x of
         Some storage \<Rightarrow>
           if storage = [] then Ok 0
           else bind_o (fst (fb_deserialize_from word_fb storage)) (\<lambda>len :: usize. Ok (unat len))
       | None \<Rightarrow> Ok 0))"

definition sled_vec_is_empty ::
    "'db sled_api \<Rightarrow> 'ik fixed_bytes \<Rightarrow> 'n fixed_bytes \<Rightarrow> ('ik, 'n, 'x) handle \<Rightarrow> 'db sled \<Rightarrow> bool state_result" where
  "sled_vec_is_empty D IK N h s = bind_o (sled_vec_len D IK N h s) (\<lambda>n. Ok (n = 0))"

definition sled_vec_ops ::
    "'db sled_api \<Rightarrow> 'ik fixed_bytes \<Rightarrow> 'n fixed_bytes \<Rightarrow> 'v message \<Rightarrow> ('ik, 'n, 'x) handle
      \<Rightarrow> ('db sled, 'v) vec_ops" where
  "sled_vec_ops D IK N V h =
     \<lparr>ve_clear = sled_vec_clear D IK N h, ve_append = sled_vec_append D IK N V h,
      ve_get = sled_vec_get D IK N V h, ve_iter = sled_vec_iter D IK N V h,
      ve_set = sled_vec_set D IK N V h, ve_add_all = sled_vec_add_all D IK N V h,
      ve_len = sled_vec_len D IK N h, ve_is_empty = sled_vec_is_empty D IK N h\<rparr>"

section \<open>Reducer and aggregator state\<close>

definition sled_reducer_clear ::
    "'db sled_api \<Rightarrow> 'ik fixed_bytes \<Rightarrow> 'n fixed_bytes \<Rightarrow> ('ik, 'n, 'x) handle
      \<Rightarrow> ('db sled, arcon_state_error, unit) action" where
  "sled_reducer_clear D IK N h =
     bind_s (query (\<lambda>_. serialize_metakeys IK N h)) (\<lambda>key.
     bind_s (sled_remove D (h_id h) key) (\<lambda>_. return_s ()))"

definition sled_reducer_get ::
    "'db sled_api \<Rightarrow> 'ik fixed_bytes \<Rightarrow> 'n fixed_bytes \<Rightarrow> 'v message \<Rightarrow> ('ik, 'n, 'x) handle
      \<Rightarrow> 'db sled \<Rightarrow> 'v option state_result" where
  "sled_reducer_get D IK N V h s =
     bind_o (serialize_metakeys IK N h) (\<lambda>key.
     bind_o (sled_get D (h_id h) key s) (\<lambda>x.
       case x of
         Some storage \<Rightarrow> bind_o (protobuf_deserialize V storage) (\<lambda>v. Ok (Some v))
       | None \<Rightarrow> Ok None))"

definition sled_reducer_reduce ::
    "'db sled_api \<Rightarrow> 'ik fixed_bytes \<Rightarrow> 'n fixed_bytes \<Rightarrow> 'v message \<Rightarrow> ('ik, 'n, 'x) handle \<Rightarrow> 'v
      \<Rightarrow> ('db sled, arcon_state_error, unit) action" where
  "sled_reducer_reduce D IK N V h v =
     bind_s (query (\<lambda>_. serialize_metakeys IK N h)) (\<lambda>key.
     bind_s (query (\<lambda>_. protobuf_serialize V v)) (\<lambda>serialized.
     bind_s (query (sled_tree D (h_id h))) (\<lambda>_.
     on_db (sl_merge D (h_id h) key serialized))))"

fun reduce_slices :: "'v message \<Rightarrow> ('v \<Rightarrow> 'v \<Rightarrow> 'v) \<Rightarrow> 'v option \<Rightarrow> bytes list \<Rightarrow> 'v option state_result" where
  "reduce_slices V f acc [] = Ok acc"
| "reduce_slices V f acc (bs # bss) =
     bind_o (protobuf_deserialize V bs) (\<lambda>v.
     reduce_slices V f (Some (case acc of None \<Rightarrow> v | Some old \<Rightarrow> f old v)) bss)"

definition make_reducer_merge :: "'v message \<Rightarrow> ('v \<Rightarrow> 'v \<Rightarrow> 'v) \<Rightarrow> merge_operator" where
  "make_reducer_merge V reduce_fn existent new =
     ok_or_none (reduce_slices V reduce_fn None (case existent of None \<Rightarrow> [new] | Some old \<Rightarrow> [old, new])) (\<lambda>res.
       case res of
         Some v \<Rightarrow> ok_or_none (protobuf_serialize V v) (\<lambda>serialized. Ok (Some serialized))
       | None \<Rightarrow> Ok None)"

definition sled_reducer_ops ::
    "'db sled_api \<Rightarrow> 'ik fixed_bytes \<Rightarrow> 'n fixed_bytes \<Rightarrow> 'v message \<Rightarrow> ('ik, 'n, 'x) handle
      \<Rightarrow> ('db sled, 'v) reducer_ops" where
  "sled_reducer_ops D IK N V h =
     \<lparr>ro_clear = sled_reducer_clear D IK N h, ro_get = sled_reducer_get D IK N V h,
      ro_reduce = sled_reducer_reduce D IK N V h\<rparr>"

definition ACCUMULATOR_MARKER :: u8 where
  "ACCUMULATOR_MARKER = 0xAC"

definition VALUE_MARKER :: u8 where
  "VALUE_MARKER = 0"

definition sled_aggregator_clear ::
    "'db sled_api \<Rightarrow> 'ik fixed_bytes \<Rightarrow> 'n fixed_bytes \<Rightarrow> ('ik, 'n, 'x) handle
      \<Rightarrow> ('db sled, arcon_state_error, unit) action" where
  "sled_aggregator_clear D IK N h =
     bind_s (query (\<lambda>_. serialize_metakeys IK N h)) (\<lambda>key.
     bind_s (sled_remove D (h_id h) key) (\<lambda>_. return_s ()))"

definition sled_aggregator_get ::
    "'db sled_api \<Rightarrow> 'ik fixed_bytes \<Rightarrow> 'n fixed_bytes \<Rightarrow> 'acc message
      \<Rightarrow> ('ik, 'n, ('i, 'acc, 'r) aggregator) handle \<Rightarrow> 'db sled \<Rightarrow> 'r state_result" where
  "sled_aggregator_get D IK N ACC h s =
     bind_o (serialize_metakeys IK N h) (\<lambda>key.
     bind_o (sled_get D (h_id h) key s) (\<lambda>x.
       case x of
         Some serialized \<Rightarrow>
           (case serialized of
              [] \<Rightarrow> Panic ''index out of bounds''
            | marker # serialized \<Rightarrow>
                if marker = ACCUMULATOR_MARKER
                then bind_o (protobuf_deserialize ACC serialized) (accumulator_into_result (h_extra_data h))
                else Panic ''assertion failed: `(left == right)`'')
       | None \<Rightarrow> accumulator_into_result (h_extra_data h) (create_accumulator (h_extra_data h))))"

definition sled_aggregator_aggregate ::
    "'db sled_api \<Rightarrow> 'ik fixed_bytes \<Rightarrow> 'n fixed_bytes \<Rightarrow> 'i message
      \<Rightarrow> ('ik, 'n, ('i, 'acc, 'r) aggregator) handle \<Rightarrow> 'i \<Rightarrow> ('db sled, arcon_state_error, unit) action" where
  "sled_aggregator_aggregate D IK N INP h v =
     bind_s (query (\<lambda>_. serialize_metakeys IK N h)) (\<lambda>key.
     bind_s (query (\<lambda>_. case protobuf_serialize_into INP v (vec_target [VALUE_MARKER]) of
               (r, t) \<Rightarrow> bind_o r (\<lambda>_. Ok (bm_written t)))) (\<lambda>serialized.
     bind_s (query (sled_tree D (h_id h))) (\<lambda>_.
     on_db (sl_merge D (h_id h) key serialized))))"

text \<open>The first operand of a merge, and the further ones.\<close>

definition first_operand ::
    "'i message \<Rightarrow> 'acc message \<Rightarrow> ('i, 'acc, 'r) aggregator \<Rightarrow> bytes \<Rightarrow> 'acc option state_result" where
  "first_operand INP ACC A bs =
     (case bs of
        [] \<Rightarrow> Ok None
      | marker # rest \<Rightarrow>
          if marker = ACCUMULATOR_MARKER then ok_or_none (protobuf_deserialize ACC rest) (\<lambda>acc. Ok (Some acc))
          else if marker = VALUE_MARKER
          then ok_or_none (protobuf_deserialize INP rest) (\<lambda>v. Ok (Some (agg_add A (create_accumulator A) v)))
          else Ok None)"

fun further_operands ::
    "'i message \<Rightarrow> 'acc message \<Rightarrow> ('i, 'acc, 'r) aggregator \<Rightarrow> 'acc \<Rightarrow> bytes list \<Rightarrow> 'acc option state_result" where
  "further_operands INP ACC A accumulator [] = Ok (Some accumulator)"
| "further_operands INP ACC A accumulator (bs # bss) =
     (case bs of
        [] \<Rightarrow> Ok None
      | marker # rest \<Rightarrow>
          if marker = ACCUMULATOR_MARKER then
            ok_or_none (protobuf_deserialize ACC rest) (\<lambda>second_acc.
            bind_o (merge_accumulators A accumulator second_acc) (\<lambda>accumulator.
            further_operands INP ACC A accumulator bss))
          else if marker = VALUE_MARKER then
            ok_or_none (protobuf_deserialize INP rest) (\<lambda>v.
            further_operands INP ACC A (agg_add A accumulator v) bss)
          else Ok None)"

definition make_aggregator_merge ::
    "'i message \<Rightarrow> 'acc message \<Rightarrow> ('i, 'acc, 'r) aggregator \<Rightarrow> merge_operator" where
  "make_aggregator_merge INP ACC A existent new =
     bind_o (case existent of
               None \<Rightarrow> bind_o (first_operand INP ACC A new) (\<lambda>x. Ok (x, []))
             | Some old \<Rightarrow> bind_o (first_operand INP ACC A old) (\<lambda>x. Ok (x, [new]))) (\<lambda>(x, all_slices).
       case x of
         None \<Rightarrow> Ok None
       | Some accumulator \<Rightarrow>
           bind_o (further_operands INP ACC A accumulator all_slices) (\<lambda>x.
             case x of
               None \<Rightarrow> Ok None
             | Some accumulator \<Rightarrow>
                 (case protobuf_serialize_into ACC accumulator (vec_target [ACCUMULATOR_MARKER]) of
                    (r, t) \<Rightarrow> ok_or_none r (\<lambda>_. Ok (Some (bm_written t))))))"

definition sled_aggregator_ops ::
    "'db sled_api \<Rightarrow> 'ik fixed_bytes \<Rightarrow> 'n fixed_bytes \<Rightarrow> 'i message \<Rightarrow> 'acc message
      \<Rightarrow> ('ik, 'n, ('i, 'acc, 'r) aggregator) handle \<Rightarrow> ('db sled, 'i, 'r) aggregator_ops" where
  "sled_aggregator_ops D IK N INP ACC h =
     \<lparr>ao_clear = sled_aggregator_clear D IK N h, ao_get = sled_aggregator_get D IK N ACC h,
      ao_aggregate = sled_aggregator_aggregate D IK N INP h\<rparr>"

section \<open>Registration\<close>

definition sled_register_plain ::
    "('ik, 'n, 'x) handle \<Rightarrow> 'db sled \<Rightarrow> ('ik, 'n, 'x) handle \<times> 'db sled" where
  "sled_register_plain h s = (h\<lparr>h_registered := True\<rparr>, s)"

text \<open>The handles of vectors, reducers and aggregators set the merge operator of their tree.\<close>

definition sled_register_merge ::
    "'db sled_api \<Rightarrow> string \<Rightarrow> merge_operator \<Rightarrow> ('ik, 'n, 'x) handle
      \<Rightarrow> ('db sled, arcon_state_error, ('ik, 'n, 'x) handle) action" where
  "sled_register_merge D msg m h =
     bind_s (query (\<lambda>s. expect msg (sled_tree D (h_id h) s))) (\<lambda>_ s.
       (Ok (h\<lparr>h_registered := True\<rparr>), s\<lparr>sd_db := sl_set_merge_operator D (h_id h) m (sd_db s)\<rparr>))"

definition sled_register_vec ::
    "'db sled_api \<Rightarrow> ('ik, 'n, 'x) handle \<Rightarrow> ('db sled, arcon_state_error, ('ik, 'n, 'x) handle) action" where
  "sled_register_vec D h =
     sled_register_merge D ''Could not get the tree when registering a vec'' vec_merge h"

definition sled_register_reducer ::
    "'db sled_api \<Rightarrow> 'v message \<Rightarrow> ('ik, 'n, 'v \<Rightarrow> 'v \<Rightarrow> 'v) handle
      \<Rightarrow> ('db sled, arcon_state_error, ('ik, 'n, 'v \<Rightarrow> 'v \<Rightarrow> 'v) handle) action" where
  "sled_register_reducer D V h =
     sled_register_merge D ''Could not get the tree when registering a reducer''
       (make_reducer_merge V (h_extra_data h)) h"

definition sled_register_aggregator ::
    "'db sled_api \<Rightarrow> 'i message \<Rightarrow> 'acc message \<Rightarrow> ('ik, 'n, ('i, 'acc, 'r) aggregator) handle
      \<Rightarrow> ('db sled, arcon_state_error, ('ik, 'n, ('i, 'acc, 'r) aggregator) handle) action" where
  "sled_register_aggregator D INP ACC h =
     sled_register_merge D ''Could not get the tree when registering an aggregator''
       (make_aggregator_merge INP ACC (h_extra_data h)) h"


section \<open>Checkpoints\<close>

text \<open>
  With the feature \<^verbatim>\<open>sled_checkpoints\<close> a checkpoint is a file with everything the database exports.
  The file is written through a cursor: the number of items of a collection is only known after
  they have been written, so the code leaves room for it, and goes back to fill it in. The files
  are a map from paths to contents; errors of the file system while writing are not modelled.
\<close>

record file_writer =
  fwr_bytes :: bytes
  fwr_pos :: nat

definition write_all :: "bytes \<Rightarrow> file_writer \<Rightarrow> file_writer" where
  "write_all bs w =
     \<lparr>fwr_bytes = take (fwr_pos w) (fwr_bytes w) @ bs @ drop (fwr_pos w + length bs) (fwr_bytes w),
      fwr_pos = fwr_pos w + length bs\<rparr>"

definition seek_start :: "nat \<Rightarrow> file_writer \<Rightarrow> file_writer" where
  "seek_start p w = w\<lparr>fwr_pos := p\<rparr>"

definition write_len :: "nat \<Rightarrow> file_writer \<Rightarrow> file_writer" where
  "write_len n = write_all (to_le (word_of_nat n :: usize))"

definition write_len_and_bytes :: "bytes \<Rightarrow> file_writer \<Rightarrow> file_writer" where
  "write_len_and_bytes bs w = write_all bs (write_len (length bs) w)"

definition write_vecs :: "bytes list \<Rightarrow> file_writer \<Rightarrow> file_writer" where
  "write_vecs vecs w = fold write_len_and_bytes vecs (write_len (length vecs) w)"

fun write_items :: "nat \<Rightarrow> bytes list list \<Rightarrow> file_writer \<Rightarrow> nat \<times> file_writer" where
  "write_items len [] w = (len, w)"
| "write_items len (vecs # vvecs) w = write_items (len + 1) vvecs (write_vecs vecs w)"

definition write_collection :: "bytes \<times> bytes \<times> bytes list list \<Rightarrow> file_writer \<Rightarrow> file_writer" where
  "write_collection c w =
     (case c of (typ, name, vvecs) \<Rightarrow>
        let w = write_len_and_bytes typ w;
            w = write_len_and_bytes name w;
            length_spot = fwr_pos w;
            w = write_len 0 w;
            (len, w) = write_items 0 vvecs w;
            after_vecs = fwr_pos w;
            w = seek_start length_spot w;
            w = write_len len w
        in seek_start after_vecs w)"

definition write_export :: "sled_export \<Rightarrow> bytes" where
  "write_export cs =
     fwr_bytes (fold write_collection cs (write_len (length cs) \<lparr>fwr_bytes = [], fwr_pos = 0\<rparr>))"

definition sled_export_path :: "string \<Rightarrow> string" where
  "sled_export_path checkpoint_path = checkpoint_path @ ''/'' @ ''SLED_EXPORT''"

definition sled_checkpoint ::
    "'db sled_api \<Rightarrow> string \<Rightarrow> 'db sled \<Rightarrow> (string \<rightharpoonup> bytes, arcon_state_error, unit) action" where
  "sled_checkpoint D checkpoint_path s files =
     (Ok (), files(sled_export_path checkpoint_path \<mapsto> write_export (sl_export D (sd_db s))))"

text \<open>Reading the file back.\<close>

definition read_exact :: "nat \<Rightarrow> (bytes, arcon_state_error, bytes) action" where
  "read_exact n r =
     (if n \<le> length r then (Ok (take n r), drop n r) else (Err (IO ''failed to fill whole buffer''), []))"

definition read_length :: "(bytes, arcon_state_error, nat) action" where
  "read_length = bind_s (read_exact 8) (\<lambda>length_bytes. return_s (unat (from_le length_bytes :: usize)))"

definition read_bytes_starting_with_len :: "(bytes, arcon_state_error, bytes) action" where
  "read_bytes_starting_with_len = bind_s read_length read_exact"

fun times :: "nat \<Rightarrow> ('s, 'e, 'a) action \<Rightarrow> ('s, 'e, 'a list) action" where
  "times 0 m = return_s []"
| "times (Suc n) m = bind_s m (\<lambda>x. bind_s (times n m) (\<lambda>xs. return_s (x # xs)))"

definition read_vecs :: "(bytes, arcon_state_error, bytes list) action" where
  "read_vecs = bind_s read_length (\<lambda>vecs_length. times vecs_length read_bytes_starting_with_len)"

definition read_collection :: "(bytes, arcon_state_error, bytes \<times> bytes \<times> bytes list list) action" where
  "read_collection =
     bind_s read_bytes_starting_with_len (\<lambda>typ.
     bind_s read_bytes_starting_with_len (\<lambda>name.
     bind_s read_length (\<lambda>vvecs_length.
     bind_s (times vvecs_length read_vecs) (\<lambda>vvecs. return_s (typ, name, vvecs)))))"

definition parse_dumped_sled_export :: "(string \<rightharpoonup> bytes) \<Rightarrow> string \<Rightarrow> sled_export state_result" where
  "parse_dumped_sled_export files dump_path =
     (case files dump_path of
        None \<Rightarrow> Err (IO ''No such file or directory'')
      | Some f \<Rightarrow> fst (bind_s read_length (\<lambda>len. times len read_collection) f))"

definition sled_create :: "'db sled_api \<Rightarrow> string \<Rightarrow> 'db sled state_result" where
  "sled_create D live_path = bind_o (sl_open D live_path) (\<lambda>db. Ok \<lparr>sd_db = db, sd_restored = False\<rparr>)"

definition sled_restore ::
    "'db sled_api \<Rightarrow> (string \<rightharpoonup> bytes) \<Rightarrow> string \<Rightarrow> string \<Rightarrow> 'db sled state_result" where
  "sled_restore D files live_path checkpoint_path =
     bind_o (sl_open D live_path) (\<lambda>db.
     bind_o (parse_dumped_sled_export files (sled_export_path checkpoint_path)) (\<lambda>import_data.
     case sl_import D import_data db of
       (r, db) \<Rightarrow> bind_o r (\<lambda>_. Ok \<lparr>sd_db = db, sd_restored = True\<rparr>)))"

definition sled_was_restored :: "'db sled \<Rightarrow> bool" where
  "sled_was_restored s = sd_restored s"

end
