(* ===== verification/Sled_Laws.thy ===== *)
theory Sled_Laws
  imports Sled In_Memory_Laws
begin

text \<open>
  The sled backend. The dump of a checkpoint is read back as it was written. Over a database that
  behaves as the crate documents (locale \<open>sled_store\<close>), every kind of state meets the contract of
  \<open>State_Contracts\<close> that the in-memory backend meets; the vector state does so as long as the stored
  bytes are addressable (locale \<open>bounded_vec_state\<close>).
\<close>

section \<open>The dump of a checkpoint\<close>

definition enc_len :: "nat \<Rightarrow> bytes" where
  "enc_len n = to_le (word_of_nat n :: usize)"

definition enc_bytes :: "bytes \<Rightarrow> bytes" where
  "enc_bytes bs = enc_len (length bs) @ bs"

definition enc_vecs :: "bytes list \<Rightarrow> bytes" where
  "enc_vecs vs = enc_len (length vs) @ concat (map enc_bytes vs)"

definition enc_collection :: "bytes \<times> bytes \<times> bytes list list \<Rightarrow> bytes" where
  "enc_collection c = enc_bytes (fst c) @ enc_bytes (fst (snd c)) @ enc_len (length (snd (snd c))) @
     concat (map enc_vecs (snd (snd c)))"

definition writer_of :: "bytes \<Rightarrow> file_writer" where
  "writer_of c = \<lparr>fwr_bytes = c, fwr_pos = length c\<rparr>"

lemma length_enc_len [simp]: "length (enc_len n) = 8"
  by (simp add: enc_len_def)

lemma write_len_end [simp]: "write_len n (writer_of c) = writer_of (c @ enc_len n)"
  by (simp add: write_len_def write_all_def writer_of_def enc_len_def)

lemma write_len_and_bytes_end [simp]: "write_len_and_bytes bs (writer_of c) = writer_of (c @ enc_bytes bs)"
  unfolding write_len_and_bytes_def write_len_end
  by (simp add: write_all_def writer_of_def enc_bytes_def)

lemma fold_end:
  assumes "\<And>x c. f x (writer_of c) = writer_of (c @ enc x)"
  shows "fold f xs (writer_of c) = writer_of (c @ concat (map enc xs))"
  by (induction xs arbitrary: c) (simp_all add: assms)

lemma write_vecs_end [simp]: "write_vecs vs (writer_of c) = writer_of (c @ enc_vecs vs)"
  by (simp add: write_vecs_def enc_vecs_def fold_end [where enc = enc_bytes])

lemma write_items_end:
  "write_items n vvecs (writer_of c) = (n + length vvecs, writer_of (c @ concat (map enc_vecs vvecs)))"
  by (induction vvecs arbitrary: n c) simp_all

lemma write_collection_end: "write_collection x (writer_of c) = writer_of (c @ enc_collection x)"
proof (cases x)
  case (fields ty nm vvecs)
  show ?thesis
    by (simp add: fields write_collection_def Let_def write_items_end)
      (simp add: seek_start_def writer_of_def write_len_def write_all_def enc_collection_def enc_len_def)
qed

lemma write_export_eq: "write_export cs = enc_len (length cs) @ concat (map enc_collection cs)"
proof -
  have "\<lparr>fwr_bytes = [], fwr_pos = 0\<rparr> = writer_of []" by (simp add: writer_of_def)
  then show ?thesis
    by (simp add: write_export_def fold_end [OF write_collection_end]) (simp add: writer_of_def)
qed

text \<open>A dump can be written when all its lengths are addressable.\<close>

definition bytes_fit :: "'a list \<Rightarrow> bool" where
  "bytes_fit xs \<longleftrightarrow> length xs \<le> usize_max"

definition vecs_fit :: "bytes list \<Rightarrow> bool" where
  "vecs_fit vs \<longleftrightarrow> bytes_fit vs \<and> list_all bytes_fit vs"

definition collection_fits :: "bytes \<times> bytes \<times> bytes list list \<Rightarrow> bool" where
  "collection_fits c \<longleftrightarrow> bytes_fit (fst c) \<and> bytes_fit (fst (snd c)) \<and> bytes_fit (snd (snd c)) \<and>
     list_all vecs_fit (snd (snd c))"

definition export_fits :: "sled_export \<Rightarrow> bool" where
  "export_fits cs \<longleftrightarrow> bytes_fit cs \<and> list_all collection_fits cs"

lemma read_length_enc: "n \<le> usize_max \<Longrightarrow> read_length (enc_len n @ rest) = (Ok n, rest)"
  by (simp add: read_length_def read_exact_def bind_s_def enc_len_def from_le_to_le unat_of_nat usize_max_def)

lemma read_bytes_enc: "bytes_fit bs \<Longrightarrow> read_bytes_starting_with_len (enc_bytes bs @ rest) = (Ok bs, rest)"
  by (simp add: read_bytes_starting_with_len_def enc_bytes_def bytes_fit_def bind_s_def read_length_enc read_exact_def)

lemma times_enc:
  assumes "\<And>x rest. x \<in> set xs \<Longrightarrow> m (enc x @ rest) = (Ok x, rest)"
  shows "times (length xs) m (concat (map enc xs) @ rest) = (Ok xs, rest)"
  using assms by (induction xs) (simp_all add: bind_s_def)

lemma read_vecs_enc: "vecs_fit vs \<Longrightarrow> read_vecs (enc_vecs vs @ rest) = (Ok vs, rest)"
  by (simp add: read_vecs_def enc_vecs_def vecs_fit_def bytes_fit_def [of vs] bind_s_def read_length_enc)
    (rule times_enc, simp add: list_all_iff read_bytes_enc)

lemma read_collection_enc: "collection_fits c \<Longrightarrow> read_collection (enc_collection c @ rest) = (Ok c, rest)"
proof -
  assume c: "collection_fits c"
  then have "times (length (snd (snd c))) read_vecs (concat (map enc_vecs (snd (snd c))) @ rest) = (Ok (snd (snd c)), rest)"
    by (intro times_enc) (simp add: collection_fits_def list_all_iff read_vecs_enc)
  with c show ?thesis
    by (simp add: read_collection_def enc_collection_def collection_fits_def bind_s_def read_bytes_enc read_length_enc
        bytes_fit_def [of "snd (snd c)"])
qed

lemma parse_write_export:
  assumes "export_fits cs" "files path = Some (write_export cs)"
  shows "parse_dumped_sled_export files path = Ok cs"
proof -
  have "times (length cs) read_collection (concat (map enc_collection cs) @ []) = (Ok cs, [])"
    using assms(1) by (intro times_enc) (simp add: export_fits_def list_all_iff read_collection_enc)
  with assms show ?thesis
    by (simp add: parse_dumped_sled_export_def write_export_eq bind_s_def export_fits_def bytes_fit_def read_length_enc)
qed

section \<open>What the database promises\<close>

fun apply_op :: "batch_op \<Rightarrow> (bytes \<rightharpoonup> bytes) \<Rightarrow> bytes \<rightharpoonup> bytes" where
  "apply_op (BatchInsert k v) t = t(k \<mapsto> v)"
| "apply_op (BatchRemove k) t = t(k := None)"

text \<open>One entry of a tree, and everything of the backend that does not belong to the keys \<open>own\<close> of the
  tree \<open>t\<close>.\<close>

definition cell_of :: "('db \<Rightarrow> string \<Rightarrow> bytes \<rightharpoonup> bytes) \<Rightarrow> string \<Rightarrow> bytes \<Rightarrow> 'db sled \<Rightarrow> bytes option" where
  "cell_of tr t k s = tr (sd_db s) t k"

definition frame_of ::
    "('db \<Rightarrow> string \<Rightarrow> bytes \<rightharpoonup> bytes) \<Rightarrow> ('db \<Rightarrow> string \<rightharpoonup> merge_operator) \<Rightarrow> string \<Rightarrow> (bytes \<Rightarrow> bool) \<Rightarrow> 'db sled
      \<Rightarrow> (string \<Rightarrow> bytes \<rightharpoonup> bytes) \<times> (string \<rightharpoonup> merge_operator) \<times> bool" where
  "frame_of tr mop t own s =
     ((tr (sd_db s))(t := (\<lambda>k. if own k then None else tr (sd_db s) t k)), mop (sd_db s), sd_restored s)"

text \<open>\<open>tr d t\<close> is the content of the tree \<open>t\<close> (empty when it was never opened), \<open>mop d t\<close> its merge
  operator; \<open>dok\<close> is the condition under which the database works without an I/O error.\<close>

locale sled_store =
  fixes D :: "'db sled_api" and dok :: "'db \<Rightarrow> bool" and tr :: "'db \<Rightarrow> string \<Rightarrow> bytes \<rightharpoonup> bytes"
    and mop :: "'db \<Rightarrow> string \<rightharpoonup> merge_operator"
  assumes d_tree: "dok d \<Longrightarrow> sl_open_tree D t d = Ok ()"
    and d_get: "dok d \<Longrightarrow> sl_get D t k d = Ok (tr d t k)"
    and d_contains: "dok d \<Longrightarrow> sl_contains_key D t k d = Ok (tr d t k \<noteq> None)"
    and d_scan: "dok d \<Longrightarrow> \<exists>kvs. sl_scan_prefix D t p d = map Ok kvs \<and> distinct (map fst kvs) \<and>
      map_of kvs = (\<lambda>k. if has_prefix p k then tr d t k else None)"
    and d_insert: "dok d \<Longrightarrow> \<exists>d'. sl_insert D t k v d = (Ok (tr d t k), d') \<and> dok d' \<and>
      tr d' = (tr d)(t := (tr d t)(k \<mapsto> v)) \<and> mop d' = mop d"
    and d_remove: "dok d \<Longrightarrow> \<exists>d'. sl_remove D t k d = (Ok (tr d t k), d') \<and> dok d' \<and>
      tr d' = (tr d)(t := (tr d t)(k := None)) \<and> mop d' = mop d"
    and d_batch: "dok d \<Longrightarrow> \<exists>d'. sl_apply_batch D t ops d = (Ok (), d') \<and> dok d' \<and>
      tr d' = (tr d)(t := fold apply_op ops (tr d t)) \<and> mop d' = mop d"
    and d_merge: "dok d \<Longrightarrow> mop d t = Some m \<Longrightarrow> m (tr d t k) v = Ok x \<Longrightarrow>
      \<exists>d'. sl_merge D t k v d = (Ok (), d') \<and> dok d' \<and> tr d' = (tr d)(t := (tr d t)(k := x)) \<and> mop d' = mop d"
    and d_set_merge: "dok d \<Longrightarrow> dok (sl_set_merge_operator D t m d) \<and> tr (sl_set_merge_operator D t m d) = tr d \<and>
      mop (sl_set_merge_operator D t m d) = (mop d)(t \<mapsto> m)"
begin

abbreviation sled_frame where
  "sled_frame \<equiv> frame_of tr mop"

abbreviation scell where
  "scell \<equiv> cell_of tr"

lemma sled_get_ok: "dok (sd_db s) \<Longrightarrow> sled_get D t k s = Ok (scell t k s)"
  by (simp add: sled_get_def sled_tree_def d_tree d_get cell_of_def)

lemma sled_contains_ok: "dok (sd_db s) \<Longrightarrow> sled_contains D t k s = Ok (scell t k s \<noteq> None)"
  by (simp add: sled_contains_def sled_tree_def d_tree d_contains cell_of_def)

lemma sled_put_ok:
  assumes "dok (sd_db s)" "own k"
  shows "\<exists>s'. sled_put D t k v s = (Ok (scell t k s), s') \<and> dok (sd_db s') \<and>
    scell t k s' = Some v \<and> tr (sd_db s') = (tr (sd_db s))(t := (tr (sd_db s) t)(k \<mapsto> v)) \<and>
    mop (sd_db s') = mop (sd_db s) \<and> sled_frame t own s' = sled_frame t own s"
  using d_insert [OF assms(1), of t k v] assms
  by (auto simp: sled_put_def on_db_def sled_tree_def d_tree bind_s_def cell_of_def frame_of_def fun_eq_iff)

lemma sled_remove_ok:
  assumes "dok (sd_db s)" "own k"
  shows "\<exists>s'. sled_remove D t k s = (Ok (scell t k s), s') \<and> dok (sd_db s') \<and>
    scell t k s' = None \<and> tr (sd_db s') = (tr (sd_db s))(t := (tr (sd_db s) t)(k := None)) \<and>
    mop (sd_db s') = mop (sd_db s) \<and> sled_frame t own s' = sled_frame t own s"
  using d_remove [OF assms(1), of t k] assms
  by (auto simp: sled_remove_def on_db_def sled_tree_def d_tree bind_s_def cell_of_def frame_of_def fun_eq_iff)

lemma sled_merge_ok:
  assumes "dok (sd_db s)" "own k" "mop (sd_db s) t = Some m" "m (scell t k s) v = Ok x"
  shows "\<exists>s'. bind_s (query (sled_tree D t)) (\<lambda>_. on_db (sl_merge D t k v)) s = (Ok (), s') \<and>
    dok (sd_db s') \<and> scell t k s' = x \<and> mop (sd_db s') = mop (sd_db s) \<and> sled_frame t own s' = sled_frame t own s"
  using d_merge [OF assms(1,3), of k v x] assms(1,2,4)
  by (auto simp: on_db_def sled_tree_def d_tree bind_s_def cell_of_def frame_of_def fun_eq_iff)

end

section \<open>States of one cell\<close>

text \<open>Values, reducers, aggregators and vectors keep one entry, under the metakeys of their handle.\<close>

locale sled_cell = sled_store D dok tr mop + metakeys IK eik vik N en vn
  for D :: "'db sled_api" and dok tr mop and IK :: "'ik fixed_bytes" and eik vik and N :: "'n fixed_bytes" and en vn +
  fixes h :: "('ik, 'n, 'x) handle"
  assumes item_key_valid: "vik (h_item_key h)" and namespace_valid: "vn (h_namespace h)"
begin

abbreviation own_key :: bytes where
  "own_key \<equiv> mk (h_item_key h) (h_namespace h)"

abbreviation cell :: "'db sled \<Rightarrow> bytes option" where
  "cell \<equiv> scell (h_id h) own_key"

definition cell_frame where
  "cell_frame = sled_frame (h_id h) (\<lambda>k. k = own_key)"

lemma metakeys_ok [simp]: "serialize_metakeys IK N h = Ok own_key"
  by (rule serialize_metakeys_eq [OF item_key_valid namespace_valid])

lemma cell_put:
  "dok (sd_db s) \<Longrightarrow> \<exists>s'. sled_put D (h_id h) own_key v s = (Ok (cell s), s') \<and> dok (sd_db s') \<and>
    cell s' = Some v \<and> mop (sd_db s') = mop (sd_db s) \<and> cell_frame s' = cell_frame s"
  using sled_put_ok [of s "\<lambda>k. k = own_key" own_key "h_id h" v] by (auto simp: cell_frame_def)

lemma cell_remove:
  "dok (sd_db s) \<Longrightarrow> \<exists>s'. sled_remove D (h_id h) own_key s = (Ok (cell s), s') \<and> dok (sd_db s') \<and>
    cell s' = None \<and> mop (sd_db s') = mop (sd_db s) \<and> cell_frame s' = cell_frame s"
  using sled_remove_ok [of s "\<lambda>k. k = own_key" own_key "h_id h"] by (auto simp: cell_frame_def)

lemma cell_merge:
  assumes "dok (sd_db s)" "mop (sd_db s) (h_id h) = Some m" "m (cell s) v = Ok x"
  shows "\<exists>s'. bind_s (query (sled_tree D (h_id h))) (\<lambda>_. on_db (sl_merge D (h_id h) own_key v)) s = (Ok (), s') \<and>
    dok (sd_db s') \<and> cell s' = x \<and> mop (sd_db s') = mop (sd_db s) \<and> cell_frame s' = cell_frame s"
  using sled_merge_ok [OF assms(1) _ assms(2,3), of "\<lambda>k. k = own_key"] by (auto simp: cell_frame_def)

end


text \<open>The value under a cell, and the condition that a cell holds an encoded value.\<close>

definition decoded :: "'v message \<Rightarrow> bytes option \<Rightarrow> 'v option" where
  "decoded V x = Option.bind x (\<lambda>bs. map_option fst (msg_decode V bs))"

definition encoded :: "'v message \<Rightarrow> bytes option \<Rightarrow> bool" where
  "encoded V x \<longleftrightarrow> (\<forall>bs. x = Some bs \<longrightarrow> (\<exists>v. bs = msg_encode V v))"

definition messages_fit :: "nat \<Rightarrow> 'v message \<Rightarrow> bool" where
  "messages_fit n V \<longleftrightarrow> (\<forall>v. n + length (msg_encode V v) \<le> usize_max)"

lemma decoded_simps [simp]:
  "decoded V None = None"
  "message_law V \<Longrightarrow> decoded V (Some (msg_encode V v)) = Some v"
  by (simp_all add: decoded_def)

lemma encoded_simps [simp]: "encoded V None" "encoded V (Some (msg_encode V v))"
  by (auto simp: encoded_def)

lemma encoded_cases:
  assumes "encoded V x"
  obtains "x = None" | v where "x = Some (msg_encode V v)"
  using assms by (cases x) (auto simp: encoded_def)

lemma protobuf_serialize_fits: "messages_fit n V \<Longrightarrow> protobuf_serialize V v = Ok (msg_encode V v)"
  unfolding messages_fit_def protobuf_serialize_def by (auto dest: spec [of _ v] add_leD2)

lemma protobuf_deserialize_enc: "message_law V \<Longrightarrow> protobuf_deserialize V (msg_encode V v) = Ok v"
  by (simp add: protobuf_deserialize_def)

lemma old_value_encoded: "message_law V \<Longrightarrow> encoded V x \<Longrightarrow> old_value V x = Ok (decoded V x)"
  by (auto simp: old_value_def protobuf_deserialize_enc elim: encoded_cases)

locale sled_value = sled_cell D dok tr mop IK eik vik N en vn h
  for D :: "'db sled_api" and dok tr mop and IK :: "'ik fixed_bytes" and eik vik and N :: "'n fixed_bytes" and en vn
    and h :: "('ik, 'n, 'x) handle" +
  fixes V :: "'v message"
  assumes value_law: "message_law V" and value_fits: "messages_fit 0 V"
begin

definition value_inv :: "'db sled \<Rightarrow> bool" where
  "value_inv s \<longleftrightarrow> dok (sd_db s) \<and> encoded V (cell s)"

lemma refines_value: "value_state (sled_value_ops D IK N V h) value_inv (\<lambda>s. decoded V (cell s)) cell_frame"
proof
  fix s v
  assume s: "value_inv s"
  then have s': "dok (sd_db s)" "encoded V (cell s)" by (simp_all add: value_inv_def)
  note ser = protobuf_serialize_fits [OF value_fits] old_value_encoded [OF value_law s'(2)]
  show "vo_get (sled_value_ops D IK N V h) s = Ok (decoded V (cell s))"
    using s'(2) by (auto simp: sled_value_ops_def sled_value_get_def sled_get_ok s'(1) protobuf_deserialize_enc value_law
        elim!: encoded_cases)
  show "\<exists>s'. vo_set (sled_value_ops D IK N V h) v s = (Ok (decoded V (cell s)), s') \<and> value_inv s' \<and>
      decoded V (cell s') = Some v \<and> cell_frame s' = cell_frame s"
    using cell_put [OF s'(1), of "msg_encode V v"] ser
    by (auto simp: sled_value_ops_def sled_value_set_def bind_s_def value_inv_def value_law)
  show "\<exists>s'. vo_fast_set (sled_value_ops D IK N V h) v s = (Ok (), s') \<and> value_inv s' \<and>
      decoded V (cell s') = Some v \<and> cell_frame s' = cell_frame s"
    using cell_put [OF s'(1), of "msg_encode V v"] ser
    by (auto simp: sled_value_ops_def sled_value_fast_set_def bind_s_def value_inv_def value_law)
  show "\<exists>s'. vo_clear (sled_value_ops D IK N V h) s = (Ok (), s') \<and> value_inv s' \<and>
      decoded V (cell s') = None \<and> cell_frame s' = cell_frame s"
    using cell_remove [OF s'(1)] by (auto simp: sled_value_ops_def sled_value_clear_def bind_s_def value_inv_def)
qed

end

locale sled_reducer = sled_cell D dok tr mop IK eik vik N en vn h
  for D :: "'db sled_api" and dok tr mop and IK :: "'ik fixed_bytes" and eik vik and N :: "'n fixed_bytes" and en vn
    and h :: "('ik, 'n, 'v \<Rightarrow> 'v \<Rightarrow> 'v) handle" +
  fixes V :: "'v message"
  assumes value_law: "message_law V" and value_fits: "messages_fit 0 V"
begin

definition reducer_inv :: "'db sled \<Rightarrow> bool" where
  "reducer_inv s \<longleftrightarrow> dok (sd_db s) \<and> encoded V (cell s) \<and>
     mop (sd_db s) (h_id h) = Some (make_reducer_merge V (h_extra_data h))"

lemma reducer_merge_ok:
  "encoded V x \<Longrightarrow> make_reducer_merge V f x (msg_encode V v)
     = Ok (Some (msg_encode V (case decoded V x of None \<Rightarrow> v | Some old \<Rightarrow> f old v)))"
  by (auto simp: make_reducer_merge_def protobuf_deserialize_enc value_law protobuf_serialize_fits [OF value_fits]
      elim!: encoded_cases)

lemma refines_reducer:
  "reducer_state (sled_reducer_ops D IK N V h) (h_extra_data h) reducer_inv (\<lambda>s. decoded V (cell s)) cell_frame"
proof
  fix s v
  assume s: "reducer_inv s"
  then have s': "dok (sd_db s)" "encoded V (cell s)"
      "mop (sd_db s) (h_id h) = Some (make_reducer_merge V (h_extra_data h))"
    by (simp_all add: reducer_inv_def)
  show "ro_get (sled_reducer_ops D IK N V h) s = Ok (decoded V (cell s))"
    using s'(2) by (auto simp: sled_reducer_ops_def sled_reducer_get_def sled_get_ok s'(1) protobuf_deserialize_enc value_law
        elim!: encoded_cases)
  show "\<exists>s'. ro_reduce (sled_reducer_ops D IK N V h) v s = (Ok (), s') \<and> reducer_inv s' \<and>
      decoded V (cell s') = Some (case decoded V (cell s) of None \<Rightarrow> v | Some old \<Rightarrow> h_extra_data h old v) \<and>
      cell_frame s' = cell_frame s"
    using cell_merge [OF s'(1,3) reducer_merge_ok [OF s'(2)], of v] s'(3)
    by (auto simp: sled_reducer_ops_def sled_reducer_reduce_def protobuf_serialize_fits [OF value_fits]
        reducer_inv_def value_law)
  show "\<exists>s'. ro_clear (sled_reducer_ops D IK N V h) s = (Ok (), s') \<and> reducer_inv s' \<and>
      decoded V (cell s') = None \<and> cell_frame s' = cell_frame s"
    using cell_remove [OF s'(1)] s'(3)
    by (auto simp: sled_reducer_ops_def sled_reducer_clear_def bind_s_def reducer_inv_def)
qed

end

text \<open>An aggregator keeps the marker of an accumulator and the accumulator; a new value comes with the
  other marker.\<close>

definition acc_of :: "('i, 'acc, 'r) aggregator \<Rightarrow> 'acc message \<Rightarrow> bytes option \<Rightarrow> 'acc" where
  "acc_of A ACC x = (case decoded ACC (map_option tl x) of None \<Rightarrow> create_accumulator A | Some a \<Rightarrow> a)"

definition marked_cell :: "'acc message \<Rightarrow> bytes option \<Rightarrow> bool" where
  "marked_cell ACC x \<longleftrightarrow> (\<forall>bs. x = Some bs \<longrightarrow> (\<exists>a. bs = ACCUMULATOR_MARKER # msg_encode ACC a))"

lemma serialize_marked:
  "messages_fit 1 M \<Longrightarrow> protobuf_serialize_into M v (vec_target [m]) = (Ok (), put_slice (msg_encode M v) (vec_target [m]))"
proof -
  assume "messages_fit 1 M"
  then have "Suc (length (msg_encode M v)) \<le> usize_max" by (simp add: messages_fit_def)
  then have "length (msg_encode M v) \<le> usize_max - Suc 0" by linarith
  then show ?thesis by (simp add: protobuf_serialize_into_def)
qed

locale sled_aggregator = sled_cell D dok tr mop IK eik vik N en vn h
  for D :: "'db sled_api" and dok tr mop and IK :: "'ik fixed_bytes" and eik vik and N :: "'n fixed_bytes" and en vn
    and h :: "('ik, 'n, ('i, 'acc, 'r) aggregator) handle" +
  fixes INP :: "'i message" and ACC :: "'acc message"
  assumes input_law: "message_law INP" and input_fits: "messages_fit 1 INP"
    and acc_law: "message_law ACC" and acc_fits: "messages_fit 1 ACC"
begin

abbreviation stored_acc where
  "stored_acc \<equiv> acc_of (h_extra_data h) ACC"

abbreviation marked where
  "marked \<equiv> marked_cell ACC"

definition aggregator_inv :: "'db sled \<Rightarrow> bool" where
  "aggregator_inv s \<longleftrightarrow> dok (sd_db s) \<and> marked (cell s) \<and>
     mop (sd_db s) (h_id h) = Some (make_aggregator_merge INP ACC (h_extra_data h))"

lemma marked_cases:
  assumes "marked x"
  obtains "x = None" | a where "x = Some (ACCUMULATOR_MARKER # msg_encode ACC a)"
  using assms by (cases x) (auto simp: marked_cell_def)

lemma aggregator_merge_ok:
  assumes "marked x"
  shows "make_aggregator_merge INP ACC (h_extra_data h) x (VALUE_MARKER # msg_encode INP v)
    = Ok (Some (ACCUMULATOR_MARKER # msg_encode ACC (agg_add (h_extra_data h) (stored_acc x) v)))"
  using assms
  by (auto simp: make_aggregator_merge_def first_operand_def ACCUMULATOR_MARKER_def VALUE_MARKER_def acc_of_def
      protobuf_deserialize_enc input_law acc_law serialize_marked [OF acc_fits] elim!: marked_cases)

lemma refines_aggregator:
  "aggregator_state (sled_aggregator_ops D IK N INP ACC h) (h_extra_data h) aggregator_inv
    (\<lambda>s. stored_acc (cell s)) cell_frame"
proof
  fix s v
  assume s: "aggregator_inv s"
  then have s': "dok (sd_db s)" "marked (cell s)"
      "mop (sd_db s) (h_id h) = Some (make_aggregator_merge INP ACC (h_extra_data h))"
    by (simp_all add: aggregator_inv_def)
  show "ao_get (sled_aggregator_ops D IK N INP ACC h) s = accumulator_into_result (h_extra_data h) (stored_acc (cell s))"
    using s'(2) by (auto simp: sled_aggregator_ops_def sled_aggregator_get_def sled_get_ok s'(1) acc_of_def
        protobuf_deserialize_enc acc_law elim!: marked_cases)
  show "\<exists>s'. ao_aggregate (sled_aggregator_ops D IK N INP ACC h) v s = (Ok (), s') \<and> aggregator_inv s' \<and>
      stored_acc (cell s') = agg_add (h_extra_data h) (stored_acc (cell s)) v \<and> cell_frame s' = cell_frame s"
    using cell_merge [OF s'(1,3) aggregator_merge_ok [OF s'(2)], of v] s'(3)
    by (auto simp: sled_aggregator_ops_def sled_aggregator_aggregate_def serialize_marked [OF input_fits]
        aggregator_inv_def marked_cell_def acc_of_def acc_law)
  show "\<exists>s'. ao_clear (sled_aggregator_ops D IK N INP ACC h) s = (Ok (), s') \<and> aggregator_inv s' \<and>
      stored_acc (cell s') = create_accumulator (h_extra_data h) \<and> cell_frame s' = cell_frame s"
    using cell_remove [OF s'(1)] s'(3)
    by (auto simp: sled_aggregator_ops_def sled_aggregator_clear_def bind_s_def aggregator_inv_def marked_cell_def acc_of_def)
qed

end


section \<open>Vectors\<close>

text \<open>The contract of a vector whose content is bounded: as \<open>vec_state\<close>, for contents that fit.\<close>

locale bounded_vec_state =
  fixes H :: "('b, 'v) vec_ops" and fits :: "'v list \<Rightarrow> bool" and I :: "'b \<Rightarrow> bool"
    and items :: "'b \<Rightarrow> 'v list" and frame :: "'b \<Rightarrow> 'f"
  assumes bget: "I b \<Longrightarrow> ve_get H b = Ok (items b)"
    and biter: "I b \<Longrightarrow> ve_iter H b = Ok (map Ok (items b))"
    and blen: "I b \<Longrightarrow> ve_len H b = Ok (length (items b))"
    and bis_empty: "I b \<Longrightarrow> ve_is_empty H b = Ok (items b = [])"
    and bappend: "I b \<Longrightarrow> fits (items b @ [v]) \<Longrightarrow>
      \<exists>b'. ve_append H v b = (Ok (), b') \<and> I b' \<and> items b' = items b @ [v] \<and> frame b' = frame b"
    and badd_all: "I b \<Longrightarrow> fits (items b @ vs) \<Longrightarrow>
      \<exists>b'. ve_add_all H vs b = (Ok (), b') \<and> I b' \<and> items b' = items b @ vs \<and> frame b' = frame b"
    and bset: "I b \<Longrightarrow> fits vs \<Longrightarrow> \<exists>b'. ve_set H vs b = (Ok (), b') \<and> I b' \<and> items b' = vs \<and> frame b' = frame b"
    and bclear: "I b \<Longrightarrow> \<exists>b'. ve_clear H b = (Ok (), b') \<and> I b' \<and> items b' = [] \<and> frame b' = frame b"

sublocale vec_state \<subseteq> bounded: bounded_vec_state H "\<lambda>_. True" I items frame
  by unfold_locales (rule eget eiter elen eis_empty eappend eadd_all eset eclear, assumption)+

definition vec_bytes :: "'v message \<Rightarrow> 'v list \<Rightarrow> bytes" where
  "vec_bytes V vs = concat (map (msg_encode V) vs)"

definition vec_encoding :: "'v message \<Rightarrow> 'v list \<Rightarrow> bytes" where
  "vec_encoding V vs = enc_len (length vs) @ vec_bytes V vs"

definition vec_fits :: "'v message \<Rightarrow> 'v list \<Rightarrow> bool" where
  "vec_fits V vs \<longleftrightarrow> 8 + length (vec_bytes V vs) \<le> usize_max"

definition never_empty :: "'v message \<Rightarrow> bool" where
  "never_empty V \<longleftrightarrow> (\<forall>v. msg_encode V v \<noteq> [])"

lemma vec_bytes_append [simp]: "vec_bytes V (vs @ ws) = vec_bytes V vs @ vec_bytes V ws"
  by (simp add: vec_bytes_def)

lemma vec_bytes_simps [simp]: "vec_bytes V [] = []" "vec_bytes V (v # vs) = msg_encode V v @ vec_bytes V vs"
  by (simp_all add: vec_bytes_def)

lemma length_vec_bytes: "never_empty V \<Longrightarrow> length vs \<le> length (vec_bytes V vs)"
proof (induction vs)
  case (Cons v vs)
  then have "Suc 0 \<le> length (msg_encode V v)" by (simp add: never_empty_def Suc_le_eq)
  with Cons.IH [OF Cons.prems] show ?case by (simp only: list.size vec_bytes_simps length_append)
qed simp

lemma read_messages_vec:
  assumes "message_law V" "never_empty V"
  shows "length (vec_bytes V vs) \<le> fuel \<Longrightarrow> read_messages fuel V (vec_bytes V vs) = Ok vs \<and>
    iter_messages fuel V (vec_bytes V vs) = map Ok vs"
proof (induction vs arbitrary: fuel)
  case (Cons v vs)
  from assms(2) obtain b bs where e: "msg_encode V v = b # bs" by (cases "msg_encode V v") (auto simp: never_empty_def)
  with Cons.prems obtain f where f: "fuel = Suc f" "length (vec_bytes V vs) \<le> f" by (cases fuel) auto
  have "protobuf_deserialize_from V (b # bs @ vec_bytes V vs) = (Ok v, vec_bytes V vs)"
    using protobuf_deserialize_from_enc [OF assms(1), of v "vec_bytes V vs"] by (simp add: e)
  with Cons.IH [OF f(2)] show ?case by (simp add: e f(1))
qed simp

lemma deserialize_len:
  "n \<le> usize_max \<Longrightarrow> fb_deserialize_from word_fb (enc_len n @ rest) = (Ok (word_of_nat n :: usize), rest)"
  by (simp add: enc_len_def u64_fb.from_enc)

lemma serialize_len: "8 \<le> bm_room t \<Longrightarrow> fb_serialize_into word_fb (word_of_nat n :: usize) t = (Ok (), put_slice (enc_len n) t)"
  by (simp add: enc_len_def u64_fb.into_room)

lemma unat_len: "n \<le> usize_max \<Longrightarrow> unat (word_of_nat n :: usize) = n"
  by (simp add: usize_max_def unat_of_nat)

lemma add_len: "a + b \<le> usize_max \<Longrightarrow> add_u (word_of_nat a :: usize) (word_of_nat b) = Ok (word_of_nat (a + b))"
  by (simp add: add_u_def unat_len usize_max_def)

lemma overwrite_len:
  "8 \<le> length r \<Longrightarrow> overwrite_front (fb_serialize_into word_fb (word_of_nat n :: usize)) r = Ok (enc_len n @ drop 8 r)"
  by (simp add: overwrite_front_def serialize_len)

lemma vec_merge_none:
  assumes "length vs \<le> usize_max"
  shows "vec_merge None (vec_encoding V vs) = Ok (Some (vec_encoding V vs))"
proof -
  have "add_u (0 :: usize) (word_of_nat (length vs)) = (Ok (word_of_nat (length vs)) :: usize state_result)"
    using add_len [of 0 "length vs"] assms by simp
  moreover have "fb_serialize_into word_fb (0 :: usize) (vec_target []) = (Ok (), put_slice (enc_len 0) (vec_target []))"
    using serialize_len [of "vec_target []" 0] by (simp add: usize_max_def)
  ultimately show ?thesis
    using assms by (simp add: vec_merge_def into_fresh_vec_def vec_encoding_def deserialize_len overwrite_len)
qed

lemma vec_merge_some:
  assumes "length vs + length ws \<le> usize_max"
  shows "vec_merge (Some (vec_encoding V vs)) (vec_encoding V ws) = Ok (Some (vec_encoding V (vs @ ws)))"
proof -
  have "add_u (0 :: usize) (word_of_nat (length vs)) = (Ok (word_of_nat (length vs)) :: usize state_result)"
    using add_len [of 0 "length vs"] assms by simp
  moreover have "fb_serialize_into word_fb (0 :: usize) (vec_target []) = (Ok (), put_slice (enc_len 0) (vec_target []))"
    using serialize_len [of "vec_target []" 0] by (simp add: usize_max_def)
  ultimately show ?thesis
    using assms overwrite_len [of "enc_len 0 @ vec_bytes V vs @ vec_bytes V ws" "length vs + length ws"]
    by (simp add: vec_merge_def into_fresh_vec_def vec_encoding_def deserialize_len add_len)
qed


lemma serialize_messages_vec:
  "length (vec_bytes V vs) \<le> bm_room t \<Longrightarrow> serialize_messages V vs t = (Ok (), put_slice (vec_bytes V vs) t)"
  by (induction vs arbitrary: t) (simp_all add: bind_s_def protobuf_serialize_into_def put_slice_append)

lemma count_messages_vec:
  "length (vec_bytes V vs) \<le> bm_room t \<Longrightarrow> n + length vs \<le> usize_max \<Longrightarrow>
    count_messages V (word_of_nat n) vs t = (Ok (word_of_nat (n + length vs)), put_slice (vec_bytes V vs) t)"
proof (induction vs arbitrary: t n)
  case (Cons v vs)
  have "add_u (word_of_nat n :: usize) 1 = (Ok (word_of_nat (Suc n)) :: usize state_result)"
    using add_len [of n 1] Cons.prems(2) by simp
  with Cons.prems Cons.IH [of "put_slice (msg_encode V v) t" "Suc n"] show ?case
    by (simp add: bind_s_def protobuf_serialize_into_def put_slice_append)
qed (simp add: return_s_def)

lemma size_hints: "sum_list (List.map_filter (size_hint V) vs) = length (vec_bytes V vs)"
  by (induction vs) (simp_all add: size_hint_def map_filter_simps)

definition vec_of :: "'v message \<Rightarrow> bytes option \<Rightarrow> 'v list" where
  "vec_of V x =
     (case x of None \<Rightarrow> [] | Some bs \<Rightarrow> (case read_messages (length bs) V (drop 8 bs) of Ok vs \<Rightarrow> vs | _ \<Rightarrow> []))"

definition vec_cell_ok :: "'v message \<Rightarrow> bytes option \<Rightarrow> bool" where
  "vec_cell_ok V x \<longleftrightarrow> (\<forall>bs. x = Some bs \<longrightarrow> (\<exists>vs. bs = vec_encoding V vs \<and> vec_fits V vs))"

text \<open>Encoded vectors and the operands of the writes to them, for every backend that stores them this way.\<close>

locale vec_encodings =
  fixes V :: "'v message"
  assumes value_law: "message_law V" and value_nonempty: "never_empty V"
begin

abbreviation stored_vec where
  "stored_vec \<equiv> vec_of V"

abbreviation vec_cell where
  "vec_cell \<equiv> vec_cell_ok V"

lemma stored_encoding [simp]: "stored_vec (Some (vec_encoding V vs)) = vs"
  using read_messages_vec [OF value_law value_nonempty, of vs "8 + length (vec_bytes V vs)"]
  by (simp add: vec_of_def vec_encoding_def)

lemma fits_lengths:
  assumes "vec_fits V vs"
  shows "length vs \<le> usize_max" "length (vec_bytes V vs) \<le> usize_max - 8" "8 \<le> usize_max"
  using assms length_vec_bytes [OF value_nonempty, of vs] by (simp_all add: vec_fits_def)

lemma vec_cases:
  assumes "vec_cell x"
  obtains "x = None" "stored_vec x = []"
    | vs where "x = Some (vec_encoding V vs)" "vec_fits V vs" "stored_vec x = vs"
  using assms by (cases x) (auto simp: vec_cell_ok_def vec_of_def [of V None])

lemma vec_cell_encoding [simp]: "vec_fits V vs \<Longrightarrow> vec_cell (Some (vec_encoding V vs))"
  by (auto simp: vec_cell_ok_def)

lemma merge_vec:
  assumes "vec_cell x" "vec_fits V (stored_vec x @ ws)"
  shows "vec_merge x (vec_encoding V ws) = Ok (Some (vec_encoding V (stored_vec x @ ws)))"
  using assms(1)
proof (cases rule: vec_cases)
  case 1
  then show ?thesis using vec_merge_none [of ws V] fits_lengths [OF assms(2)] by simp
next
  case (2 vs)
  then show ?thesis using vec_merge_some [of vs ws V] fits_lengths(1) [OF assms(2)] by simp
qed

text \<open>The operands of the three writes.\<close>

lemma append_operand:
  assumes "vec_fits V [v]"
  shows "into_fresh_vec (bind_s (fb_serialize_into word_fb (1 :: usize)) (\<lambda>_. protobuf_serialize_into V v))
    = Ok (vec_encoding V [v])"
proof -
  have "fb_serialize_into word_fb (1 :: usize) (vec_target []) = (Ok (), put_slice (enc_len 1) (vec_target []))"
    using serialize_len [of "vec_target []" 1] fits_lengths(3) [OF assms] by simp
  then show ?thesis
    using fits_lengths [OF assms]
    by (simp add: into_fresh_vec_def bind_s_def protobuf_serialize_into_def vec_encoding_def)
qed

lemma add_all_operand:
  assumes "vec_fits V vs"
  shows "(case bind_s (fb_serialize_into word_fb (0 :: usize)) (\<lambda>_. count_messages V 0 vs) (vec_target []) of
      (r, t) \<Rightarrow> bind_o r (\<lambda>len. overwrite_front (fb_serialize_into word_fb len) (bm_written t)))
    = Ok (vec_encoding V vs)"
proof -
  have "fb_serialize_into word_fb (0 :: usize) (vec_target []) = (Ok (), put_slice (enc_len 0) (vec_target []))"
    using serialize_len [of "vec_target []" 0] fits_lengths(3) [OF assms] by simp
  moreover have "count_messages V 0 vs (put_slice (enc_len 0) (vec_target []))
      = (Ok (word_of_nat (length vs)), put_slice (enc_len 0 @ vec_bytes V vs) (vec_target []))"
    using count_messages_vec [of V vs "put_slice (enc_len 0) (vec_target [])" 0] fits_lengths [OF assms]
    by (simp add: put_slice_append)
  ultimately show ?thesis
    by (simp add: bind_s_def overwrite_len vec_encoding_def)
qed

lemma set_operand:
  assumes "vec_fits V vs"
  shows "into_fresh_vec (bind_s (fb_serialize_into word_fb (word_of_nat (length vs) :: usize)) (\<lambda>_. serialize_messages V vs))
    = Ok (vec_encoding V vs)"
  using fits_lengths [OF assms]
  by (simp add: into_fresh_vec_def bind_s_def serialize_len serialize_messages_vec vec_encoding_def)

lemma fits_part: "vec_fits V (vs @ ws) \<Longrightarrow> vec_fits V ws"
  by (simp add: vec_fits_def)

end

locale sled_vec = sled_cell D dok tr mop IK eik vik N en vn h + vec_encodings V
  for D :: "'db sled_api" and dok tr mop and IK :: "'ik fixed_bytes" and eik vik and N :: "'n fixed_bytes" and en vn
    and h :: "('ik, 'n, 'x) handle" and V :: "'v message"
begin

definition vec_inv :: "'db sled \<Rightarrow> bool" where
  "vec_inv s \<longleftrightarrow> dok (sd_db s) \<and> vec_cell (cell s) \<and> mop (sd_db s) (h_id h) = Some vec_merge"

lemma refines_vec:
  "bounded_vec_state (sled_vec_ops D IK N V h) (vec_fits V) vec_inv (\<lambda>s. stored_vec (cell s)) cell_frame"
proof
  fix s v vs
  assume s: "vec_inv s"
  then have s': "dok (sd_db s)" "vec_cell (cell s)" "mop (sd_db s) (h_id h) = Some vec_merge"
    by (simp_all add: vec_inv_def)
  note reads = read_messages_vec [OF value_law value_nonempty order_refl]
  show "ve_get (sled_vec_ops D IK N V h) s = Ok (stored_vec (cell s))"
    using s'(2) by (cases rule: vec_cases) (auto simp: sled_vec_ops_def sled_vec_get_def sled_get_ok s'(1) vec_encoding_def
        deserialize_len fits_lengths reads unat_len)
  show "ve_iter (sled_vec_ops D IK N V h) s = Ok (map Ok (stored_vec (cell s)))"
    using s'(2) by (cases rule: vec_cases) (auto simp: sled_vec_ops_def sled_vec_iter_def sled_get_ok s'(1) vec_encoding_def
        deserialize_len fits_lengths reads)
  have len: "sled_vec_len D IK N h s = Ok (length (stored_vec (cell s)))"
    using s'(2) by (cases rule: vec_cases) (auto simp: sled_vec_len_def sled_get_ok s'(1) vec_encoding_def
        deserialize_len fits_lengths unat_len simp flip: length_0_conv)
  then show "ve_len (sled_vec_ops D IK N V h) s = Ok (length (stored_vec (cell s)))" by (simp add: sled_vec_ops_def)
  show "ve_is_empty (sled_vec_ops D IK N V h) s = Ok (stored_vec (cell s) = [])"
    using len by (simp add: sled_vec_ops_def sled_vec_is_empty_def)
  show "\<exists>s'. ve_append (sled_vec_ops D IK N V h) v s = (Ok (), s') \<and> vec_inv s' \<and>
      stored_vec (cell s') = stored_vec (cell s) @ [v] \<and> cell_frame s' = cell_frame s"
    if "vec_fits V (stored_vec (cell s) @ [v])"
    using cell_merge [OF s'(1,3) merge_vec [OF s'(2) that]] append_operand [OF fits_part [OF that]] fits_part [OF that] that s'(3)
    by (auto simp: sled_vec_ops_def sled_vec_append_def with_capacity_def size_hint_def vec_fits_def [of V "[v]"] vec_inv_def)
  show "\<exists>s'. ve_add_all (sled_vec_ops D IK N V h) vs s = (Ok (), s') \<and> vec_inv s' \<and>
      stored_vec (cell s') = stored_vec (cell s) @ vs \<and> cell_frame s' = cell_frame s"
    if "vec_fits V (stored_vec (cell s) @ vs)"
    using cell_merge [OF s'(1,3) merge_vec [OF s'(2) that]] add_all_operand [OF fits_part [OF that]] that s'(3)
    by (auto simp: sled_vec_ops_def sled_vec_add_all_def vec_inv_def)
  show "\<exists>s'. ve_set (sled_vec_ops D IK N V h) vs s = (Ok (), s') \<and> vec_inv s' \<and>
      stored_vec (cell s') = vs \<and> cell_frame s' = cell_frame s"
    if "vec_fits V vs"
    using cell_put [OF s'(1), of "vec_encoding V vs"] set_operand [OF that] that s'(3)
    by (auto simp: sled_vec_ops_def sled_vec_set_def with_capacity_def size_hints vec_fits_def [of V vs] bind_s_def vec_inv_def)
  show "\<exists>s'. ve_clear (sled_vec_ops D IK N V h) s = (Ok (), s') \<and> vec_inv s' \<and>
      stored_vec (cell s') = [] \<and> cell_frame s' = cell_frame s"
    using cell_remove [OF s'(1)] s'(3)
    by (auto simp: sled_vec_ops_def sled_vec_clear_def bind_s_def vec_inv_def vec_cell_ok_def vec_of_def)
qed

end

section \<open>Maps\<close>

lemma remove_all_Ok: "remove_all (map Ok kvs) = Ok (map (\<lambda>kv. BatchRemove (fst kv)) kvs)"
  by (induction kvs) auto

lemma fold_removes: "fold apply_op (map (\<lambda>kv. BatchRemove (fst kv)) kvs) t = (\<lambda>k. if k \<in> fst ` set kvs then None else t k)"
  by (induction kvs arbitrary: t) (auto simp: fun_eq_iff)

lemma fold_inserts:
  "fold apply_op (map (\<lambda>kv. BatchInsert (f (fst kv)) (g (snd kv))) kvs) t
    = t ++ map_of (rev (map (\<lambda>kv. (f (fst kv), g (snd kv))) kvs))"
  by (induction kvs arbitrary: t) auto

lemma map_of_map_entries: "inj f \<Longrightarrow> map_of (map (\<lambda>kv. (f (fst kv), g (snd kv))) kvs) (f k) = map_option g (map_of kvs k)"
  by (induction kvs) (auto simp: inj_eq)

locale sled_map = sled_cell D dok tr mop IK eik vik N en vn h
  for D :: "'db sled_api" and dok tr mop and IK :: "'ik fixed_bytes" and eik vik and N :: "'n fixed_bytes" and en vn
    and h :: "('ik, 'n, 'x) handle" +
  fixes K :: "'k message" and V :: "'v message"
  assumes key_law: "message_law K" and value_law: "message_law V" and value_fits: "messages_fit 0 V"
begin

definition stored_key :: "'k \<Rightarrow> bytes" where
  "stored_key k = own_key @ msg_encode K k"

definition sled_entries :: "'db sled \<Rightarrow> 'k \<rightharpoonup> 'v" where
  "sled_entries s = (\<lambda>k. decoded V (scell (h_id h) (stored_key k) s))"

definition entry_ok :: "bytes \<Rightarrow> bytes \<Rightarrow> bool" where
  "entry_ok k bs \<longleftrightarrow> (\<exists>uk v. k = stored_key uk \<and> bs = msg_encode V v)"

definition sled_map_inv :: "'db sled \<Rightarrow> bool" where
  "sled_map_inv s \<longleftrightarrow> dok (sd_db s) \<and>
     (\<forall>k bs. tr (sd_db s) (h_id h) k = Some bs \<longrightarrow> has_prefix own_key k \<longrightarrow> entry_ok k bs)"

definition sled_map_frame where
  "sled_map_frame = sled_frame (h_id h) (has_prefix own_key)"

lemma stored_key_inj: "inj stored_key"
  by (rule injI) (simp add: stored_key_def message_inj [OF key_law])

lemma own_prefix_stored [simp]: "has_prefix own_key (stored_key k)"
  by (simp add: stored_key_def)

lemma map_key_ok [simp]: "key_fits K k \<Longrightarrow> serialize_metakeys_and_key IK N K h k = Ok (stored_key k)"
  by (simp add: serialize_metakeys_and_key_eq item_key_valid namespace_valid stored_key_def)

lemma decode_stored_key [simp]: "decode_user_key IK N K (stored_key k) = Ok k"
  using item_key_valid namespace_valid key_law
  by (simp add: decode_user_key_def stored_key_def mk_def bind_s_def ik.from_enc n.from_enc protobuf_deserialize_from_def)

lemma inv_dok: "sled_map_inv s \<Longrightarrow> dok (sd_db s)"
  by (simp add: sled_map_inv_def)

lemma inv_encoded: "sled_map_inv s \<Longrightarrow> encoded V (scell (h_id h) (stored_key k) s)"
  by (auto simp: sled_map_inv_def encoded_def cell_of_def entry_ok_def)

lemma inv_update:
  assumes "sled_map_inv s" "dok (sd_db s')" "tr (sd_db s') = (tr (sd_db s))(h_id h := t)"
    "\<And>k bs. t k = Some bs \<Longrightarrow> tr (sd_db s) (h_id h) k = Some bs \<or> entry_ok k bs"
  shows "sled_map_inv s'"
  using assms by (auto simp: sled_map_inv_def)

text \<open>The scan of a map yields its entries.\<close>

lemma scan_entries:
  assumes "sled_map_inv s"
  obtains kvs where
    "sl_scan_prefix D (h_id h) own_key (sd_db s) = map Ok (map (\<lambda>kv. (stored_key (fst kv), msg_encode V (snd kv))) kvs)"
    "distinct (map fst kvs)" "map_of kvs = sled_entries s"
    "{k. has_prefix own_key k \<and> tr (sd_db s) (h_id h) k \<noteq> None} = (\<lambda>kv. stored_key (fst kv)) ` set kvs"
proof -
  let ?f = "\<lambda>kv. (stored_key (fst kv), msg_encode V (snd kv))"
  obtain raw where raw: "sl_scan_prefix D (h_id h) own_key (sd_db s) = map Ok raw" "distinct (map fst raw)"
      "map_of raw = (\<lambda>k. if has_prefix own_key k then tr (sd_db s) (h_id h) k else None)"
    using d_scan [OF inv_dok [OF assms], of "h_id h" own_key] by blast
  have "\<exists>kv. p = ?f kv" if p: "p \<in> set raw" for p
  proof -
    have "map_of raw (fst p) = Some (snd p)" using p raw(2) by (simp add: map_of_eq_Some_iff)
    then have "has_prefix own_key (fst p)" "tr (sd_db s) (h_id h) (fst p) = Some (snd p)"
      by (auto simp: raw(3) split: if_splits)
    then have "entry_ok (fst p) (snd p)" using assms by (auto simp: sled_map_inv_def)
    then show ?thesis by (cases p) (auto simp: entry_ok_def)
  qed
  then have "\<exists>kvs. raw = map ?f kvs" by (simp only: ex_map_conv) blast
  then obtain kvs where kvs: "raw = map ?f kvs" ..
  show ?thesis
  proof
    show "sl_scan_prefix D (h_id h) own_key (sd_db s) = map Ok (map ?f kvs)" by (simp only: raw(1) kvs)
    show "distinct (map fst kvs)" using raw(2) by (simp add: kvs distinct_map comp_inj_on_iff o_def inj_on_def)
    show "map_of kvs = sled_entries s"
    proof
      fix k
      have "scell (h_id h) (stored_key k) s = map_option (msg_encode V) (map_of kvs k)"
        using map_of_map_entries [OF stored_key_inj, of "msg_encode V" kvs k] raw(3)
        by (simp add: kvs cell_of_def del: map_of_map)
      then show "map_of kvs k = sled_entries s k"
        by (cases "map_of kvs k") (simp_all add: sled_entries_def value_law)
    qed
    have "{k. has_prefix own_key k \<and> tr (sd_db s) (h_id h) k \<noteq> None} = dom (map_of raw)" by (auto simp: raw(3) dom_def)
    then show "{k. has_prefix own_key k \<and> tr (sd_db s) (h_id h) k \<noteq> None} = (\<lambda>kv. stored_key (fst kv)) ` set kvs"
      by (simp add: dom_map_of_conv_image_fst kvs image_image)
  qed
qed

lemma entries_put:
  assumes "tr (sd_db s') = (tr (sd_db s))(h_id h := (tr (sd_db s) (h_id h))(stored_key k := x))"
  shows "sled_entries s' = (sled_entries s)(k := decoded V x)"
  using assms by (auto simp: sled_entries_def cell_of_def fun_eq_iff inj_eq [OF stored_key_inj])

lemma put_entry:
  assumes "sled_map_inv s"
  shows "\<exists>s'. sled_put D (h_id h) (stored_key k) (msg_encode V v) s = (Ok (scell (h_id h) (stored_key k) s), s') \<and>
    sled_map_inv s' \<and> sled_entries s' = (sled_entries s)(k \<mapsto> v) \<and> sled_map_frame s' = sled_map_frame s"
proof -
  obtain s' where s': "sled_put D (h_id h) (stored_key k) (msg_encode V v) s = (Ok (scell (h_id h) (stored_key k) s), s')"
      "dok (sd_db s')" "sled_frame (h_id h) (has_prefix own_key) s' = sled_frame (h_id h) (has_prefix own_key) s"
      "tr (sd_db s') = (tr (sd_db s))(h_id h := (tr (sd_db s) (h_id h))(stored_key k \<mapsto> msg_encode V v))"
    using sled_put_ok [OF inv_dok [OF assms], of "has_prefix own_key" "stored_key k" "h_id h" "msg_encode V v"] by auto
  moreover have "sled_map_inv s'"
    by (rule inv_update [OF assms s'(2,4)]) (auto simp: entry_ok_def split: if_splits)
  ultimately show ?thesis
    using entries_put [OF s'(4)] by (simp add: sled_map_frame_def value_law)
qed

lemma remove_entry:
  assumes "sled_map_inv s"
  shows "\<exists>s'. sled_remove D (h_id h) (stored_key k) s = (Ok (scell (h_id h) (stored_key k) s), s') \<and>
    sled_map_inv s' \<and> sled_entries s' = (sled_entries s)(k := None) \<and> sled_map_frame s' = sled_map_frame s"
proof -
  obtain s' where s': "sled_remove D (h_id h) (stored_key k) s = (Ok (scell (h_id h) (stored_key k) s), s')"
      "dok (sd_db s')" "sled_frame (h_id h) (has_prefix own_key) s' = sled_frame (h_id h) (has_prefix own_key) s"
      "tr (sd_db s') = (tr (sd_db s))(h_id h := (tr (sd_db s) (h_id h))(stored_key k := None))"
    using sled_remove_ok [OF inv_dok [OF assms], of "has_prefix own_key" "stored_key k" "h_id h"] by auto
  moreover have "sled_map_inv s'"
    by (rule inv_update [OF assms s'(2,4)]) (auto split: if_splits)
  ultimately show ?thesis
    using entries_put [OF s'(4)] by (simp add: sled_map_frame_def)
qed

lemma batch_ok:
  assumes "sled_map_inv s"
    and "\<And>k bs. fold apply_op ops (tr (sd_db s) (h_id h)) k = Some bs \<Longrightarrow>
      tr (sd_db s) (h_id h) k = Some bs \<or> entry_ok k bs"
    and "\<And>k. \<not> has_prefix own_key k \<Longrightarrow> fold apply_op ops (tr (sd_db s) (h_id h)) k = tr (sd_db s) (h_id h) k"
  shows "\<exists>s'. on_db (sl_apply_batch D (h_id h) ops) s = (Ok (), s') \<and> sled_map_inv s' \<and>
    (\<forall>k. sled_entries s' k = decoded V (fold apply_op ops (tr (sd_db s) (h_id h)) (stored_key k))) \<and>
    sled_map_frame s' = sled_map_frame s"
proof -
  obtain d' where d': "sl_apply_batch D (h_id h) ops (sd_db s) = (Ok (), d')" "dok d'"
      "tr d' = (tr (sd_db s))(h_id h := fold apply_op ops (tr (sd_db s) (h_id h)))" "mop d' = mop (sd_db s)"
    using d_batch [OF inv_dok [OF assms(1)], of "h_id h" ops] by blast
  have "sled_map_inv (s\<lparr>sd_db := d'\<rparr>)"
    by (rule inv_update [OF assms(1), where t = "fold apply_op ops (tr (sd_db s) (h_id h))"])
      (simp_all add: d' assms(2))
  moreover have "sled_map_frame (s\<lparr>sd_db := d'\<rparr>) = sled_map_frame s"
    using assms(3) by (simp add: sled_map_frame_def frame_of_def d'(3,4) fun_eq_iff)
  ultimately show ?thesis
    by (simp add: on_db_def d'(1) sled_entries_def cell_of_def d'(3))
qed

lemma clear_ok:
  assumes "sled_map_inv s"
  shows "\<exists>s'. sled_map_clear D IK N h s = (Ok (), s') \<and> sled_map_inv s' \<and> sled_entries s' = Map.empty \<and>
    sled_map_frame s' = sled_map_frame s"
proof -
  obtain kvs where kvs:
    "sl_scan_prefix D (h_id h) own_key (sd_db s) = map Ok (map (\<lambda>kv. (stored_key (fst kv), msg_encode V (snd kv))) kvs)"
    "distinct (map fst kvs)" "map_of kvs = sled_entries s"
    "{k. has_prefix own_key k \<and> tr (sd_db s) (h_id h) k \<noteq> None} = (\<lambda>kv. stored_key (fst kv)) ` set kvs"
    using assms by (rule scan_entries)
  let ?ops = "map (\<lambda>kv. BatchRemove (fst kv)) (map (\<lambda>kv. (stored_key (fst kv), msg_encode V (snd kv))) kvs)"
  have fold: "fold apply_op ?ops (tr (sd_db s) (h_id h)) k
      = (if has_prefix own_key k then None else tr (sd_db s) (h_id h) k)" for k
    unfolding fold_removes using kvs(4) by (auto simp: image_image)
  have "\<exists>s'. on_db (sl_apply_batch D (h_id h) ?ops) s = (Ok (), s') \<and> sled_map_inv s' \<and>
      (\<forall>k. sled_entries s' k = decoded V (fold apply_op ?ops (tr (sd_db s) (h_id h)) (stored_key k))) \<and>
      sled_map_frame s' = sled_map_frame s"
  proof (rule batch_ok [OF assms])
    show "tr (sd_db s) (h_id h) k = Some bs \<or> entry_ok k bs"
      if "fold apply_op ?ops (tr (sd_db s) (h_id h)) k = Some bs" for k bs
      using that unfolding fold by (simp split: if_splits)
    show "fold apply_op ?ops (tr (sd_db s) (h_id h)) k = tr (sd_db s) (h_id h) k" if "\<not> has_prefix own_key k" for k
      using that unfolding fold by simp
  qed
  moreover have "remove_all (sl_scan_prefix D (h_id h) own_key (sd_db s)) = Ok ?ops" by (simp only: kvs(1) remove_all_Ok)
  ultimately show ?thesis
    unfolding fold sled_map_clear_def sled_remove_prefix_def
    by (auto simp: bind_s_def sled_tree_def d_tree [OF inv_dok [OF assms]] fun_eq_iff simp del: map_map)
qed

lemma insert_batch_ok:
  "list_all (\<lambda>p. key_fits K (fst p)) kvs \<Longrightarrow>
    insert_batch IK N K V h kvs = Ok (map (\<lambda>kv. BatchInsert (stored_key (fst kv)) (msg_encode V (snd kv))) kvs)"
  by (induction kvs) (auto simp: protobuf_serialize_fits [OF value_fits])

lemma insert_all_ok:
  assumes "sled_map_inv s" "list_all (\<lambda>p. key_fits K (fst p)) kvs"
  shows "\<exists>s'. sled_map_insert_all D IK N K V h kvs s = (Ok (), s') \<and> sled_map_inv s' \<and>
    sled_entries s' = sled_entries s ++ map_of (rev kvs) \<and> sled_map_frame s' = sled_map_frame s"
proof -
  let ?f = "\<lambda>kv. (stored_key (fst kv), msg_encode V (snd kv))"
  let ?ops = "map (\<lambda>kv. BatchInsert (stored_key (fst kv)) (msg_encode V (snd kv))) kvs"
  let ?t = "tr (sd_db s) (h_id h)"
  have new: "map_of (rev (map ?f kvs)) k = Some bs \<Longrightarrow> entry_ok k bs \<and> has_prefix own_key k" for k bs
    using map_of_SomeD [of "rev (map ?f kvs)" k bs] by (auto simp: entry_ok_def)
  have "\<exists>s'. on_db (sl_apply_batch D (h_id h) ?ops) s = (Ok (), s') \<and> sled_map_inv s' \<and>
      (\<forall>k. sled_entries s' k = decoded V (fold apply_op ?ops ?t (stored_key k))) \<and> sled_map_frame s' = sled_map_frame s"
    by (rule batch_ok [OF assms(1)], unfold fold_inserts)
      (auto simp: map_add_def new split: option.splits dest: new)
  moreover have "decoded V (fold apply_op ?ops ?t (stored_key k)) = (sled_entries s ++ map_of (rev kvs)) k" for k
    using map_of_map_entries [OF stored_key_inj, of "msg_encode V" "rev kvs" k]
    by (simp add: fold_inserts map_add_def rev_map sled_entries_def cell_of_def value_law split: option.split)
  ultimately show ?thesis
    by (auto simp: sled_map_insert_all_def bind_s_def sled_tree_def d_tree [OF inv_dok [OF assms(1)]]
        insert_batch_ok [OF assms(2)] fun_eq_iff)
qed

lemma walks_ok:
  assumes "sled_map_inv s"
  obtains kvs where "distinct (map fst kvs)" "map_of kvs = sled_entries s"
    "sled_map_iter D IK N K V h s = Ok (map Ok kvs)" "sled_map_keys D IK N K h s = Ok (map Ok (map fst kvs))"
    "sled_map_values D IK N V h s = Ok (map Ok (map snd kvs))" "sled_map_len D IK N h s = Ok (length kvs)"
    "sled_map_is_empty D IK N h s = Ok (kvs = [])"
proof -
  obtain kvs where kvs:
    "sl_scan_prefix D (h_id h) own_key (sd_db s) = map Ok (map (\<lambda>kv. (stored_key (fst kv), msg_encode V (snd kv))) kvs)"
    "distinct (map fst kvs)" "map_of kvs = sled_entries s"
    "{k. has_prefix own_key k \<and> tr (sd_db s) (h_id h) k \<noteq> None} = (\<lambda>kv. stored_key (fst kv)) ` set kvs"
    using assms by (rule scan_entries)
  have scan: "sled_scan D IK N h s = Ok (map Ok (map (\<lambda>kv. (stored_key (fst kv), msg_encode V (snd kv))) kvs))"
    by (simp add: sled_scan_def sled_tree_def d_tree [OF inv_dok [OF assms]] kvs(1))
  show ?thesis
    by (rule that [OF kvs(2,3)])
      (simp_all add: sled_map_iter_def sled_map_keys_def sled_map_values_def sled_map_len_def sled_map_is_empty_def scan
        protobuf_deserialize_enc value_law o_def)
qed

lemma refines_map: "map_state (sled_map_ops D IK N K V h) sled_map_inv (key_fits K) sled_entries sled_map_frame"
proof
  fix s
  assume s: "sled_map_inv s"
  obtain kvs where kvs: "distinct (map fst kvs)" "map_of kvs = sled_entries s"
    "sled_map_iter D IK N K V h s = Ok (map Ok kvs)" "sled_map_keys D IK N K h s = Ok (map Ok (map fst kvs))"
    "sled_map_values D IK N V h s = Ok (map Ok (map snd kvs))" "sled_map_len D IK N h s = Ok (length kvs)"
    "sled_map_is_empty D IK N h s = Ok (kvs = [])"
    using s by (rule walks_ok)
  have dom: "dom (sled_entries s) = set (map fst kvs)" "ran (sled_entries s) = set (map snd kvs)"
    using kvs(1) by (simp_all add: kvs(2) [symmetric] dom_map_of_conv_image_fst ran_distinct)
  have card: "card (dom (sled_entries s)) = length kvs"
    unfolding dom(1) using distinct_card [OF kvs(1)] by simp
  show "\<exists>kvs. mo_iter (sled_map_ops D IK N K V h) s = Ok (map Ok kvs) \<and> distinct (map fst kvs) \<and> map_of kvs = sled_entries s"
    using kvs by (auto simp: sled_map_ops_def)
  show "\<exists>ks. mo_keys (sled_map_ops D IK N K V h) s = Ok (map Ok ks) \<and> distinct ks \<and> set ks = dom (sled_entries s)"
    using kvs dom by (intro exI [of _ "map fst kvs"]) (simp add: sled_map_ops_def)
  show "\<exists>vs. mo_values (sled_map_ops D IK N K V h) s = Ok (map Ok vs) \<and> length vs = card (dom (sled_entries s)) \<and>
      set vs = ran (sled_entries s)"
    using kvs dom card by (intro exI [of _ "map snd kvs"]) (simp add: sled_map_ops_def)
  show "finite (dom (sled_entries s)) \<and> mo_len (sled_map_ops D IK N K V h) s = Ok (card (dom (sled_entries s)))"
    using kvs(6) card by (simp add: sled_map_ops_def dom(1))
  show "mo_is_empty (sled_map_ops D IK N K V h) s = Ok (sled_entries s = Map.empty)"
    using kvs(7) by (simp add: sled_map_ops_def kvs(2) [symmetric])
  show "\<exists>s'. mo_clear (sled_map_ops D IK N K V h) s = (Ok (), s') \<and> sled_map_inv s' \<and> sled_entries s' = Map.empty \<and>
      sled_map_frame s' = sled_map_frame s"
    using clear_ok [OF s] by (simp add: sled_map_ops_def)
  show "\<exists>s'. mo_insert_all (sled_map_ops D IK N K V h) kvs s = (Ok (), s') \<and> sled_map_inv s' \<and>
      sled_entries s' = sled_entries s ++ map_of (rev kvs) \<and> sled_map_frame s' = sled_map_frame s"
    if "list_all (\<lambda>p. key_fits K (fst p)) kvs" for kvs
    using insert_all_ok [OF s that] by (simp add: sled_map_ops_def)
  fix k v
  assume k: "key_fits K k"
  note ser = protobuf_serialize_fits [OF value_fits] map_key_ok [OF k]
  have old: "old_value V (scell (h_id h) (stored_key k) s) = Ok (sled_entries s k)"
    using old_value_encoded [OF value_law inv_encoded [OF s]] by (simp add: sled_entries_def)
  show "mo_get (sled_map_ops D IK N K V h) k s = Ok (sled_entries s k)"
    using old unfolding old_value_def by (simp add: sled_map_ops_def sled_map_get_def ser sled_get_ok [OF inv_dok [OF s]])
  show "mo_contains (sled_map_ops D IK N K V h) k s = Ok (sled_entries s k \<noteq> None)"
    using inv_encoded [OF s, of k]
    by (auto simp: sled_map_ops_def sled_map_contains_def ser sled_contains_ok [OF inv_dok [OF s]] sled_entries_def value_law
        elim!: encoded_cases)
  show "\<exists>s'. mo_insert (sled_map_ops D IK N K V h) k v s = (Ok (sled_entries s k), s') \<and> sled_map_inv s' \<and>
      sled_entries s' = (sled_entries s)(k \<mapsto> v) \<and> sled_map_frame s' = sled_map_frame s"
    using put_entry [OF s, of k v] by (auto simp: sled_map_ops_def sled_map_insert_def bind_s_def ser old)
  show "\<exists>s'. mo_fast_insert (sled_map_ops D IK N K V h) k v s = (Ok (), s') \<and> sled_map_inv s' \<and>
      sled_entries s' = (sled_entries s)(k \<mapsto> v) \<and> sled_map_frame s' = sled_map_frame s"
    using put_entry [OF s, of k v] by (auto simp: sled_map_ops_def sled_map_fast_insert_def bind_s_def ser)
  show "\<exists>s'. mo_remove (sled_map_ops D IK N K V h) k s = (Ok (sled_entries s k), s') \<and> sled_map_inv s' \<and>
      sled_entries s' = (sled_entries s)(k := None) \<and> sled_map_frame s' = sled_map_frame s"
    using remove_entry [OF s, of k] by (auto simp: sled_map_ops_def sled_map_remove_def bind_s_def ser old)
  show "\<exists>s'. mo_fast_remove (sled_map_ops D IK N K V h) k s = (Ok (), s') \<and> sled_map_inv s' \<and>
      sled_entries s' = (sled_entries s)(k := None) \<and> sled_map_frame s' = sled_map_frame s"
    using remove_entry [OF s, of k] by (auto simp: sled_map_ops_def sled_map_fast_remove_def bind_s_def ser)
qed

end

end
