(* ===== verification/Sled_Backend.thy ===== *)
theory Sled_Backend
  imports Sled_Laws
begin

text \<open>
  The properties of the sled backend, and a database that behaves as the crate documents: trees as
  association lists. It stands in for the database file where a property is applied to concrete
  states.
\<close>

section \<open>A database\<close>

record list_db =
  ld_trees :: "string \<Rightarrow> (bytes \<times> bytes) list"
  ld_names :: "string list"
  ld_merge :: "string \<rightharpoonup> merge_operator"

definition ld_empty :: list_db where
  "ld_empty = \<lparr>ld_trees = (\<lambda>_. []), ld_names = [], ld_merge = Map.empty\<rparr>"

definition ld_update :: "string \<Rightarrow> (bytes \<times> bytes) list \<Rightarrow> list_db \<Rightarrow> list_db" where
  "ld_update t kvs d = d\<lparr>ld_trees := (ld_trees d)(t := kvs), ld_names := List.insert t (ld_names d)\<rparr>"

fun list_op :: "batch_op \<Rightarrow> (bytes \<times> bytes) list \<Rightarrow> (bytes \<times> bytes) list" where
  "list_op (BatchInsert k v) kvs = AList.update k v kvs"
| "list_op (BatchRemove k) kvs = AList.delete k kvs"

definition ld_merge_at :: "string \<Rightarrow> bytes \<Rightarrow> bytes \<Rightarrow> (list_db, arcon_state_error, unit) action" where
  "ld_merge_at t k v d =
     (case ld_merge d t of
        None \<Rightarrow> (Err (SledError ''merge operator not set''), d)
      | Some m \<Rightarrow>
          (case m (map_of (ld_trees d t) k) v of
             Ok None \<Rightarrow> (Ok (), ld_update t (AList.delete k (ld_trees d t)) d)
           | Ok (Some x) \<Rightarrow> (Ok (), ld_update t (AList.update k x (ld_trees d t)) d)
           | Err e \<Rightarrow> (Err e, d) | Panic m \<Rightarrow> (Panic m, d) | NoFuel \<Rightarrow> (NoFuel, d)))"

definition ld_export :: "list_db \<Rightarrow> sled_export" where
  "ld_export d = map (\<lambda>t. (str_bytes ''tree'', str_bytes t, map (\<lambda>(k, v). [k, v]) (ld_trees d t))) (ld_names d)"

definition bytes_str :: "bytes \<Rightarrow> string" where
  "bytes_str bs = map (\<lambda>b. char_of (unat b)) bs"

definition ld_import :: "sled_export \<Rightarrow> (list_db, arcon_state_error, unit) action" where
  "ld_import cs d =
     (Ok (), fold (\<lambda>(ty, nm, vvecs). ld_update (bytes_str nm) (map (\<lambda>vs. (vs ! 0, vs ! 1)) vvecs)) cs d)"

definition list_sled :: "list_db sled_api" where
  "list_sled =
     \<lparr>sl_open = (\<lambda>_. Ok ld_empty),
      sl_open_tree = (\<lambda>t d. Ok ()),
      sl_get = (\<lambda>t k d. Ok (map_of (ld_trees d t) k)),
      sl_contains_key = (\<lambda>t k d. Ok (map_of (ld_trees d t) k \<noteq> None)),
      sl_scan_prefix = (\<lambda>t p d. map Ok (filter (\<lambda>kv. has_prefix p (fst kv)) (ld_trees d t))),
      sl_insert = (\<lambda>t k v d. (Ok (map_of (ld_trees d t) k), ld_update t (AList.update k v (ld_trees d t)) d)),
      sl_remove = (\<lambda>t k d. (Ok (map_of (ld_trees d t) k), ld_update t (AList.delete k (ld_trees d t)) d)),
      sl_apply_batch = (\<lambda>t ops d. (Ok (), ld_update t (fold list_op ops (ld_trees d t)) d)),
      sl_merge = ld_merge_at,
      sl_set_merge_operator = (\<lambda>t m d. d\<lparr>ld_merge := (ld_merge d)(t \<mapsto> m)\<rparr>),
      sl_export = ld_export,
      sl_import = ld_import\<rparr>"

definition ld_ok :: "list_db \<Rightarrow> bool" where
  "ld_ok d \<longleftrightarrow> (\<forall>t. distinct (map fst (ld_trees d t)))"

definition ld_tree :: "list_db \<Rightarrow> string \<Rightarrow> bytes \<rightharpoonup> bytes" where
  "ld_tree d t = map_of (ld_trees d t)"

lemma ld_update_ok: "ld_ok d \<Longrightarrow> distinct (map fst kvs) \<Longrightarrow> ld_ok (ld_update t kvs d)"
  by (simp add: ld_ok_def ld_update_def)

lemma ld_update_simps [simp]:
  "ld_tree (ld_update t kvs d) = (ld_tree d)(t := map_of kvs)" "ld_merge (ld_update t kvs d) = ld_merge d"
  by (auto simp: ld_tree_def ld_update_def)

lemma list_op_map: "map_of (list_op op kvs) = apply_op op (map_of kvs)"
  by (cases op) (simp_all add: AList.update_conv' AList.delete_conv')

lemma list_op_distinct: "distinct (map fst kvs) \<Longrightarrow> distinct (map fst (list_op op kvs))"
  by (cases op) (simp_all add: AList.distinct_update AList.distinct_delete)

lemma fold_list_op:
  "map_of (fold list_op ops kvs) = fold apply_op ops (map_of kvs) \<and>
   (distinct (map fst kvs) \<longrightarrow> distinct (map fst (fold list_op ops kvs)))"
  by (induction ops arbitrary: kvs) (simp_all add: list_op_map list_op_distinct)

lemma map_of_filter_keys:
  "map_of (filter (\<lambda>kv. P (fst kv)) kvs) = (\<lambda>k. if P k then map_of kvs k else None)"
  by (induction kvs) (auto simp: fun_eq_iff)

interpretation list_store: sled_store list_sled ld_ok ld_tree ld_merge
proof
  fix d t k v ops m x p
  assume d: "ld_ok d"
  then have dt: "distinct (map fst (ld_trees d t))" by (simp add: ld_ok_def)
  show "\<exists>kvs. sl_scan_prefix list_sled t p d = map Ok kvs \<and> distinct (map fst kvs) \<and>
      map_of kvs = (\<lambda>k. if has_prefix p k then ld_tree d t k else None)"
    by (intro exI [of _ "filter (\<lambda>kv. has_prefix p (fst kv)) (ld_trees d t)"])
      (simp add: list_sled_def distinct_filter_keys [OF dt] ld_tree_def map_of_filter_keys cong: if_cong)
  show "\<exists>d'. sl_insert list_sled t k v d = (Ok (ld_tree d t k), d') \<and> ld_ok d' \<and>
      ld_tree d' = (ld_tree d)(t := (ld_tree d t)(k \<mapsto> v)) \<and> ld_merge d' = ld_merge d"
    by (simp add: list_sled_def ld_update_ok d dt AList.distinct_update AList.update_conv') (simp add: ld_tree_def)
  show "\<exists>d'. sl_remove list_sled t k d = (Ok (ld_tree d t k), d') \<and> ld_ok d' \<and>
      ld_tree d' = (ld_tree d)(t := (ld_tree d t)(k := None)) \<and> ld_merge d' = ld_merge d"
    by (simp add: list_sled_def ld_update_ok d dt AList.distinct_delete AList.delete_conv') (simp add: ld_tree_def)
  show "\<exists>d'. sl_apply_batch list_sled t ops d = (Ok (), d') \<and> ld_ok d' \<and>
      ld_tree d' = (ld_tree d)(t := fold apply_op ops (ld_tree d t)) \<and> ld_merge d' = ld_merge d"
    using fold_list_op [of ops "ld_trees d t"] dt by (simp add: list_sled_def ld_update_ok d) (simp add: ld_tree_def)
  show "\<exists>d'. sl_merge list_sled t k v d = (Ok (), d') \<and> ld_ok d' \<and>
      ld_tree d' = (ld_tree d)(t := (ld_tree d t)(k := x)) \<and> ld_merge d' = ld_merge d"
    if "ld_merge d t = Some m" "m (ld_tree d t k) v = Ok x"
    using that by (cases x) (simp_all add: list_sled_def ld_merge_at_def ld_update_ok d dt AList.distinct_delete
        AList.distinct_update AList.delete_conv' AList.update_conv' ld_tree_def [of d t, symmetric])
qed (simp_all add: list_sled_def ld_tree_def [abs_def] ld_ok_def)

section \<open>Properties\<close>

text \<open>C31: A map state of the sled backend is the same finite map that the in-memory backend implements,
  over any database that meets \<open>sled_store\<close>: every operation agrees with the entries encoded under
  the handle's prefix, clearing removes exactly them, and the entries of other prefixes, other
  trees and the merge operators are unchanged.\<close>

theorem sled_map_refines:
  assumes "sled_store D dok tr mop" and "metakeys IK eik vik N en vn"
    and "message_law K" and "message_law V" and "messages_fit 0 V"
    and "vik (h_item_key h)" and "vn (h_namespace h)"
  defines "pre \<equiv> handle_key eik en h"
  shows "map_state (sled_map_ops D IK N K V h)
    (\<lambda>s. dok (sd_db s) \<and> (\<forall>k bs. tr (sd_db s) (h_id h) k = Some bs \<longrightarrow> has_prefix pre k \<longrightarrow>
       (\<exists>uk v. k = pre @ msg_encode K uk \<and> bs = msg_encode V v)))
    (\<lambda>k. metakey_size IK N + length (msg_encode K k) \<le> usize_max)
    (\<lambda>s k. decoded V (cell_of tr (h_id h) (pre @ msg_encode K k) s))
    (frame_of tr mop (h_id h) (has_prefix pre))"
proof -
  have cell: "sled_cell D dok tr mop IK eik vik N en vn h"
    using assms(1,2,6,7) by (simp add: sled_cell_def sled_cell_axioms_def)
  then have m: "sled_map D dok tr mop IK eik vik N en vn h K V"
    using assms(3-5) by (simp add: sled_map_def sled_map_axioms_def)
  show ?thesis
    using sled_map.refines_map [OF m]
    unfolding sled_map.sled_map_inv_def [OF m, abs_def] sled_map.entry_ok_def [OF m, abs_def]
      sled_map.sled_entries_def [OF m, abs_def] sled_map.sled_map_frame_def [OF m] sled_map.stored_key_def [OF m]
      metakeys.key_fits_def [OF assms(2), abs_def] metakeys.mk_def [OF assms(2)] pre_def handle_key_def metakey_size_def .
qed


lemma u64_message_fits: "messages_fit 0 u64_message" "messages_fit 1 u64_message" "never_empty u64_message"
  by (simp_all add: messages_fit_def never_empty_def u64_message_def usize_max_def flip: length_greater_0_conv)

theorem sled_map_refines_witness:
  "map_state (sled_map_ops list_sled word_fb unit_fb u64_message u64_message (with_item_key (3 :: u64) (map_handle ''m'')))
    (\<lambda>s. ld_ok (sd_db s) \<and> (\<forall>k bs. ld_tree (sd_db s) ''m'' k = Some bs \<longrightarrow> has_prefix (to_le (3 :: u64)) k \<longrightarrow>
       (\<exists>uk v. k = to_le (3 :: u64) @ msg_encode u64_message uk \<and> bs = msg_encode u64_message v)))
    (\<lambda>k. metakey_size (word_fb :: u64 fixed_bytes) unit_fb + length (msg_encode u64_message k) \<le> usize_max)
    (\<lambda>s k. decoded u64_message (cell_of ld_tree ''m'' (to_le (3 :: u64) @ msg_encode u64_message k) s))
    (frame_of ld_tree ld_merge ''m'' (has_prefix (to_le (3 :: u64))))"
  using sled_map_refines [OF list_store.sled_store_axioms mk1.metakeys_axioms u64_message_law u64_message_law
      u64_message_fits(1), of "with_item_key (3 :: u64) (map_handle ''m'')"]
  by (simp add: handle_key_def with_item_key_def map_handle_def no_extra_def)

lemma sled_vec_cell_refines:
  assumes "sled_store D dok tr mop" and "metakeys IK eik vik N en vn"
    and "message_law V" and "never_empty V" and "vik (h_item_key h)" and "vn (h_namespace h)"
  defines "key \<equiv> handle_key eik en h"
  shows "bounded_vec_state (sled_vec_ops D IK N V h) (vec_fits V)
    (\<lambda>s. dok (sd_db s) \<and> vec_cell_ok V (cell_of tr (h_id h) key s) \<and> mop (sd_db s) (h_id h) = Some vec_merge)
    (\<lambda>s. vec_of V (cell_of tr (h_id h) key s)) (frame_of tr mop (h_id h) (\<lambda>k. k = key))"
proof -
  have c: "sled_cell D dok tr mop IK eik vik N en vn h"
    using assms(1,2,5,6) by (simp add: sled_cell_def sled_cell_axioms_def)
  then have v: "sled_vec D dok tr mop IK eik vik N en vn h V"
    using assms(3,4) by (simp add: sled_vec_def vec_encodings_def)
  show ?thesis
    using sled_vec.refines_vec [OF v]
    unfolding sled_vec.vec_inv_def [OF v, abs_def] sled_cell.cell_frame_def [OF c] metakeys.mk_def [OF assms(2)]
      key_def handle_key_def .
qed

text \<open>The other states of the sled backend keep the contracts of the in-memory backend: a value state is
  an optional cell; a vector state is a list, as long as its encoding is addressable: append and add
  all go through the merge operator, which adds the lengths and joins the elements without decoding
  them, and reading gives back exactly the elements; after its registration a reducer state holds the reduction of the values given
  to it, and an aggregator state their accumulator, both computed by the merge operator of the tree,
  which tells accumulators from values by a marker byte.\<close>

theorem sled_states_refine:
  assumes "sled_store D dok tr mop" and "metakeys IK eik vik N en vn"
    and "message_law V" and "messages_fit 0 V"
    and "message_law INP" and "messages_fit 1 INP" and "message_law ACC" and "messages_fit 1 ACC"
    and "vik (h_item_key h)" and "vn (h_namespace h)" and "vik (h_item_key r)" and "vn (h_namespace r)"
    and "vik (h_item_key a)" and "vn (h_namespace a)"
    and "never_empty V" and "vik (h_item_key v)" and "vn (h_namespace v)"
  shows "value_state (sled_value_ops D IK N V h)
      (\<lambda>s. dok (sd_db s) \<and> encoded V (cell_of tr (h_id h) (handle_key eik en h) s))
      (\<lambda>s. decoded V (cell_of tr (h_id h) (handle_key eik en h) s))
      (frame_of tr mop (h_id h) (\<lambda>k. k = handle_key eik en h)) \<and>
    reducer_state (sled_reducer_ops D IK N V r) (h_extra_data r)
      (\<lambda>s. dok (sd_db s) \<and> encoded V (cell_of tr (h_id r) (handle_key eik en r) s) \<and>
        mop (sd_db s) (h_id r) = Some (make_reducer_merge V (h_extra_data r)))
      (\<lambda>s. decoded V (cell_of tr (h_id r) (handle_key eik en r) s))
      (frame_of tr mop (h_id r) (\<lambda>k. k = handle_key eik en r)) \<and>
    aggregator_state (sled_aggregator_ops D IK N INP ACC a) (h_extra_data a)
      (\<lambda>s. dok (sd_db s) \<and> marked_cell ACC (cell_of tr (h_id a) (handle_key eik en a) s) \<and>
        mop (sd_db s) (h_id a) = Some (make_aggregator_merge INP ACC (h_extra_data a)))
      (\<lambda>s. acc_of (h_extra_data a) ACC (cell_of tr (h_id a) (handle_key eik en a) s))
      (frame_of tr mop (h_id a) (\<lambda>k. k = handle_key eik en a)) \<and>
    bounded_vec_state (sled_vec_ops D IK N V v) (vec_fits V)
      (\<lambda>s. dok (sd_db s) \<and> vec_cell_ok V (cell_of tr (h_id v) (handle_key eik en v) s) \<and>
        mop (sd_db s) (h_id v) = Some vec_merge)
      (\<lambda>s. vec_of V (cell_of tr (h_id v) (handle_key eik en v) s))
      (frame_of tr mop (h_id v) (\<lambda>k. k = handle_key eik en v))"
proof (intro conjI)
  have ch: "sled_cell D dok tr mop IK eik vik N en vn h" and cr: "sled_cell D dok tr mop IK eik vik N en vn r"
    and ca: "sled_cell D dok tr mop IK eik vik N en vn a"
    using assms(1,2,9-14) by (simp_all add: sled_cell_def sled_cell_axioms_def)
  show "bounded_vec_state (sled_vec_ops D IK N V v) (vec_fits V)
      (\<lambda>s. dok (sd_db s) \<and> vec_cell_ok V (cell_of tr (h_id v) (handle_key eik en v) s) \<and>
        mop (sd_db s) (h_id v) = Some vec_merge)
      (\<lambda>s. vec_of V (cell_of tr (h_id v) (handle_key eik en v) s))
      (frame_of tr mop (h_id v) (\<lambda>k. k = handle_key eik en v))"
    by (rule sled_vec_cell_refines [OF assms(1-3,15-17)])
  have v: "sled_value D dok tr mop IK eik vik N en vn h V"
    using ch assms(3,4) by (simp add: sled_value_def sled_value_axioms_def)
  show "value_state (sled_value_ops D IK N V h)
      (\<lambda>s. dok (sd_db s) \<and> encoded V (cell_of tr (h_id h) (handle_key eik en h) s))
      (\<lambda>s. decoded V (cell_of tr (h_id h) (handle_key eik en h) s))
      (frame_of tr mop (h_id h) (\<lambda>k. k = handle_key eik en h))"
    using sled_value.refines_value [OF v]
    unfolding sled_value.value_inv_def [OF v, abs_def] sled_cell.cell_frame_def [OF ch] metakeys.mk_def [OF assms(2)]
      handle_key_def .
  have red: "sled_reducer D dok tr mop IK eik vik N en vn r V"
    using cr assms(3,4) by (simp add: sled_reducer_def sled_reducer_axioms_def)
  show "reducer_state (sled_reducer_ops D IK N V r) (h_extra_data r)
      (\<lambda>s. dok (sd_db s) \<and> encoded V (cell_of tr (h_id r) (handle_key eik en r) s) \<and>
        mop (sd_db s) (h_id r) = Some (make_reducer_merge V (h_extra_data r)))
      (\<lambda>s. decoded V (cell_of tr (h_id r) (handle_key eik en r) s))
      (frame_of tr mop (h_id r) (\<lambda>k. k = handle_key eik en r))"
    using sled_reducer.refines_reducer [OF red]
    unfolding sled_reducer.reducer_inv_def [OF red, abs_def] sled_cell.cell_frame_def [OF cr] metakeys.mk_def [OF assms(2)]
      handle_key_def .
  have agg: "sled_aggregator D dok tr mop IK eik vik N en vn a INP ACC"
    using ca assms(5-8) by (simp add: sled_aggregator_def sled_aggregator_axioms_def)
  show "aggregator_state (sled_aggregator_ops D IK N INP ACC a) (h_extra_data a)
      (\<lambda>s. dok (sd_db s) \<and> marked_cell ACC (cell_of tr (h_id a) (handle_key eik en a) s) \<and>
        mop (sd_db s) (h_id a) = Some (make_aggregator_merge INP ACC (h_extra_data a)))
      (\<lambda>s. acc_of (h_extra_data a) ACC (cell_of tr (h_id a) (handle_key eik en a) s))
      (frame_of tr mop (h_id a) (\<lambda>k. k = handle_key eik en a))"
    using sled_aggregator.refines_aggregator [OF agg]
    unfolding sled_aggregator.aggregator_inv_def [OF agg, abs_def] sled_cell.cell_frame_def [OF ca]
      metakeys.mk_def [OF assms(2)] handle_key_def .
qed

definition sum_agg :: "(u64, u64, u64) aggregator" where
  "sum_agg = \<lparr>create_accumulator = 0, agg_add = (+), merge_accumulators = (\<lambda>a b. Ok (a + b)), accumulator_into_result = Ok\<rparr>"

definition sum_fn :: "u64 \<Rightarrow> u64 \<Rightarrow> u64" where
  "sum_fn a b = a + b"

theorem sled_states_refine_witness:
  "reducer_state (sled_reducer_ops list_sled unit_fb unit_fb u64_message (reducer_handle ''sum'' sum_fn)) sum_fn
     (\<lambda>s. ld_ok (sd_db s) \<and> encoded u64_message (cell_of ld_tree ''sum'' [] s) \<and>
       ld_merge (sd_db s) ''sum'' = Some (make_reducer_merge u64_message sum_fn))
     (\<lambda>s. decoded u64_message (cell_of ld_tree ''sum'' [] s)) (frame_of ld_tree ld_merge ''sum'' (\<lambda>k. k = [])) \<and>
   aggregator_state (sled_aggregator_ops list_sled unit_fb unit_fb u64_message u64_message (aggregator_handle ''agg'' sum_agg))
     sum_agg
     (\<lambda>s. ld_ok (sd_db s) \<and> marked_cell u64_message (cell_of ld_tree ''agg'' [] s) \<and>
       ld_merge (sd_db s) ''agg'' = Some (make_aggregator_merge u64_message u64_message sum_agg))
     (\<lambda>s. acc_of sum_agg u64_message (cell_of ld_tree ''agg'' [] s)) (frame_of ld_tree ld_merge ''agg'' (\<lambda>k. k = [])) \<and>
   bounded_vec_state (sled_vec_ops list_sled unit_fb unit_fb u64_message (vec_handle ''buffer'')) (vec_fits u64_message)
     (\<lambda>s. ld_ok (sd_db s) \<and> vec_cell_ok u64_message (cell_of ld_tree ''buffer'' [] s) \<and>
       ld_merge (sd_db s) ''buffer'' = Some vec_merge)
     (\<lambda>s. vec_of u64_message (cell_of ld_tree ''buffer'' [] s)) (frame_of ld_tree ld_merge ''buffer'' (\<lambda>k. k = []))"
  using sled_states_refine [OF list_store.sled_store_axioms mk0.metakeys_axioms u64_message_law u64_message_fits(1)
      u64_message_law u64_message_fits(2) u64_message_law u64_message_fits(2) _ _ _ _ _ _ u64_message_fits(3),
      of "value_handle ''v''" "reducer_handle ''sum'' sum_fn" "aggregator_handle ''agg'' sum_agg" "vec_handle ''buffer''",
      THEN conjunct2]
  by (simp add: handle_key_def reducer_handle_def aggregator_handle_def vec_handle_def no_extra_def)

text \<open>C32: A checkpoint of a sled backend can be restored: the file it writes, with the number of items of
  each collection filled in after they were written, is parsed back into exactly the exported
  collections, so restoring imports them into the fresh database and marks the backend as
  restored; without the file restoring fails with an I/O error.\<close>

theorem sled_checkpoint_restores:
  assumes "export_fits (sl_export D (sd_db s))"
  shows "sled_restore D (snd (sled_checkpoint D path s files)) live path =
      bind_o (sl_open D live) (\<lambda>db.
        case sl_import D (sl_export D (sd_db s)) db of
          (r, db) \<Rightarrow> bind_o r (\<lambda>_. Ok \<lparr>sd_db = db, sd_restored = True\<rparr>)) \<and>
    (files (sled_export_path path) = None \<longrightarrow>
      sled_restore D files live path = bind_o (sl_open D live) (\<lambda>_. Err (IO ''No such file or directory'')))"
proof -
  have "parse_dumped_sled_export (snd (sled_checkpoint D path s files)) (sled_export_path path) = Ok (sl_export D (sd_db s))"
    by (rule parse_write_export [OF assms]) (simp add: sled_checkpoint_def)
  then show ?thesis
    by (simp add: sled_restore_def parse_dumped_sled_export_def [of files])
qed


lemma list_sled_checkpoint:
  "sl_open list_sled live = Ok ld_empty" "sl_export list_sled = ld_export" "sl_import list_sled = ld_import"
  by (simp_all add: list_sled_def)

definition demo_sled :: "list_db sled" where
  "demo_sled = \<lparr>sd_db = ld_update ''a'' [([1], [2, 3]), ([4], [])] ld_empty, sd_restored = False\<rparr>"

theorem sled_checkpoint_restores_witness:
  "sled_restore list_sled (snd (sled_checkpoint list_sled ''cp'' demo_sled Map.empty)) ''live'' ''cp''
    = Ok \<lparr>sd_db = sd_db demo_sled, sd_restored = True\<rparr>"
proof -
  have "export_fits (sl_export list_sled (sd_db demo_sled))"
    by (simp add: list_sled_def demo_sled_def ld_export_def ld_update_def ld_empty_def export_fits_def bytes_fit_def
        collection_fits_def vecs_fit_def str_bytes_def usize_max_def)
  from sled_checkpoint_restores [OF this, of "''cp''" Map.empty "''live''"] show ?thesis
    by (simp add: list_sled_checkpoint ld_export_def ld_import_def demo_sled_def ld_update_def ld_empty_def bytes_str_def str_bytes_def char_of_def bit_Suc_0_iff)
qed

end
