(* ===== verification/Rocks.thy ===== *)
theory Rocks
  imports Sled
begin

text \<open>
  Model of \<^verbatim>\<open>arcon_state/src/rocks\<close>: the backend that keeps every state in a column family of the
  embedded database RocksDB, one column family per state id. A database that already has column
  families can only be opened with the options of all of them, so a backend created on such a
  directory stays uninitialized until every one of them has been registered. The database is a
  third-party crate: the record \<open>rocks_api\<close> holds the methods of it that the code calls, on an open
  database of type \<open>'db\<close> and on the directory that holds its files. The write options only switch
  off the write-ahead log and are left out. A merge operator gets the stored value, if any, and the
  operands merged into it so far; it ignores the key.
\<close>

section \<open>The database\<close>

type_synonym rocks_merge_fn = "bytes option \<Rightarrow> bytes list \<Rightarrow> bytes option state_result"

record rocks_options =
  ro_prefix_extractor :: "nat option"
  ro_merge_operator :: "rocks_merge_fn option"

definition default_options :: rocks_options where
  "default_options = \<lparr>ro_prefix_extractor = None, ro_merge_operator = None\<rparr>"

datatype write_op = WPut string bytes bytes | WDeleteRange string bytes bytes

text \<open>A directory: the names in it, with the content of a file, or \<open>None\<close> for anything but a file. The
  backend copies files without looking into them, so their content has a type \<open>'f\<close> of its own.\<close>

type_synonym 'f directory = "(string \<times> 'f option) list"

record ('db, 'f) rocks_api =
  rk_list_cf :: "'f directory \<Rightarrow> string list state_result"
  rk_open_cf_descriptors :: "'f directory \<Rightarrow> (string \<rightharpoonup> rocks_options) \<Rightarrow> 'db state_result"
  rk_cf_handle :: "string \<Rightarrow> 'db \<Rightarrow> bool"
  rk_get_pinned_cf :: "string \<Rightarrow> bytes \<Rightarrow> 'db \<Rightarrow> bytes option state_result"
  rk_put_cf :: "string \<Rightarrow> bytes \<Rightarrow> bytes \<Rightarrow> ('db, arcon_state_error, unit) action"
  rk_delete_cf :: "string \<Rightarrow> bytes \<Rightarrow> ('db, arcon_state_error, unit) action"
  rk_merge_cf :: "string \<Rightarrow> bytes \<Rightarrow> bytes \<Rightarrow> ('db, arcon_state_error, unit) action"
  rk_write :: "write_op list \<Rightarrow> ('db, arcon_state_error, unit) action"
  rk_prefix_iterator_cf :: "string \<Rightarrow> bytes \<Rightarrow> 'db \<Rightarrow> (bytes \<times> bytes) list state_result"
  rk_create_cf :: "string \<Rightarrow> rocks_options \<Rightarrow> ('db, arcon_state_error, unit) action"
  rk_drop_cf :: "string \<Rightarrow> ('db, arcon_state_error, unit) action"
  rk_flush :: "'db \<Rightarrow> unit state_result"
  rk_checkpoint_new :: "'db \<Rightarrow> unit state_result"
  rk_create_checkpoint :: "'db \<Rightarrow> 'f directory state_result"

record 'db initialized_rocks_db =
  ir_db :: 'db
  ir_options :: "string \<rightharpoonup> rocks_options"

datatype 'db rocks_inner =
    Initialized "'db initialized_rocks_db"
  | Uninitialized (unknown_cfs: "string set") (known_cfs: "string \<rightharpoonup> rocks_options")

record 'db rocks =
  rk_inner :: "'db rocks_inner"
  rk_path :: string
  rk_restored :: bool

section \<open>An open database\<close>

definition on_rocks_db ::
    "('db, arcon_state_error, 'a) action \<Rightarrow> ('db initialized_rocks_db, arcon_state_error, 'a) action" where
  "on_rocks_db m i = (case m (ir_db i) of (r, d) \<Rightarrow> (r, i\<lparr>ir_db := d\<rparr>))"

definition get_cf_handle :: "('db, 'f) rocks_api \<Rightarrow> string \<Rightarrow> 'db initialized_rocks_db \<Rightarrow> unit state_result" where
  "get_cf_handle D cf_name i =
     (if rk_cf_handle D cf_name (ir_db i) then Ok () else Err (RocksMissingColumnFamily cf_name))"

definition rocksdb_get ::
    "('db, 'f) rocks_api \<Rightarrow> string \<Rightarrow> bytes \<Rightarrow> 'db initialized_rocks_db \<Rightarrow> bytes option state_result" where
  "rocksdb_get D cf_name key i =
     bind_o (get_cf_handle D cf_name i) (\<lambda>_. rk_get_pinned_cf D cf_name key (ir_db i))"

definition rocksdb_put ::
    "('db, 'f) rocks_api \<Rightarrow> string \<Rightarrow> bytes \<Rightarrow> bytes \<Rightarrow> ('db initialized_rocks_db, arcon_state_error, unit) action" where
  "rocksdb_put D cf_name key v =
     bind_s (query (get_cf_handle D cf_name)) (\<lambda>_. on_rocks_db (rk_put_cf D cf_name key v))"

definition rocksdb_remove ::
    "('db, 'f) rocks_api \<Rightarrow> string \<Rightarrow> bytes \<Rightarrow> ('db initialized_rocks_db, arcon_state_error, unit) action" where
  "rocksdb_remove D cf key =
     bind_s (query (get_cf_handle D cf)) (\<lambda>_. on_rocks_db (rk_delete_cf D cf key))"

text \<open>\<open>range_end\<close>: the prefix with its last byte incremented, an addition that panics on overflow.\<close>

definition range_end :: "bytes \<Rightarrow> bytes state_result" where
  "range_end start =
     (if start = [] then Panic ''unreachable, the empty case is covered a few lines above''
      else bind_o (add_u (last start) 1) (\<lambda>b. Ok (butlast start @ [b])))"

definition rocksdb_remove_prefix ::
    "('db, 'f) rocks_api \<Rightarrow> string \<Rightarrow> bytes \<Rightarrow> ('db initialized_rocks_db, arcon_state_error, unit) action" where
  "rocksdb_remove_prefix D cf_name pre =
     (if pre = [] then
        bind_s (query (\<lambda>i. ok_or (RocksMissingOptions cf_name) (ir_options i cf_name))) (\<lambda>cf_opts.
        bind_s (on_rocks_db (rk_drop_cf D cf_name)) (\<lambda>_.
        on_rocks_db (rk_create_cf D cf_name cf_opts)))
      else
        bind_s (query (get_cf_handle D cf_name)) (\<lambda>_.
        bind_s (query (\<lambda>_. range_end pre)) (\<lambda>end.
        on_rocks_db (rk_write D [WDeleteRange cf_name pre end]))))"

definition rocksdb_contains ::
    "('db, 'f) rocks_api \<Rightarrow> string \<Rightarrow> bytes \<Rightarrow> 'db initialized_rocks_db \<Rightarrow> bool state_result" where
  "rocksdb_contains D cf key i =
     bind_o (get_cf_handle D cf i) (\<lambda>_.
     bind_o (rk_get_pinned_cf D cf key (ir_db i)) (\<lambda>x. Ok (x \<noteq> None)))"

definition create_column_family_if_doesnt_exist ::
    "('db, 'f) rocks_api \<Rightarrow> string \<Rightarrow> rocks_options \<Rightarrow> ('db initialized_rocks_db, arcon_state_error, unit) action" where
  "create_column_family_if_doesnt_exist D cf_name opts i =
     (if \<not> rk_cf_handle D cf_name (ir_db i) then
        bind_s (on_rocks_db (rk_create_cf D cf_name opts))
          (\<lambda>_ i. (Ok (), i\<lparr>ir_options := (ir_options i)(cf_name \<mapsto> opts)\<rparr>)) i
      else (Ok (), i))"

section \<open>The backend\<close>

text \<open>\<open>initialized\<close> reads the open database; \<open>initialized_mut\<close> runs a call on it.\<close>

definition initialized :: "'db rocks \<Rightarrow> 'db initialized_rocks_db state_result" where
  "initialized r = (case rk_inner r of Initialized i \<Rightarrow> Ok i | Uninitialized u k \<Rightarrow> Err (RocksUninitialized u))"

definition initialized_mut ::
    "('db initialized_rocks_db, arcon_state_error, 'a) action \<Rightarrow> ('db rocks, arcon_state_error, 'a) action" where
  "initialized_mut m r =
     (case rk_inner r of
        Initialized i \<Rightarrow> (case m i of (x, i) \<Rightarrow> (x, r\<lparr>rk_inner := Initialized i\<rparr>))
      | Uninitialized u k \<Rightarrow> (Err (RocksUninitialized u), r))"

definition rocks_get :: "('db, 'f) rocks_api \<Rightarrow> string \<Rightarrow> bytes \<Rightarrow> 'db rocks \<Rightarrow> bytes option state_result" where
  "rocks_get D cf_name key r = bind_o (initialized r) (rocksdb_get D cf_name key)"

definition rocks_put ::
    "('db, 'f) rocks_api \<Rightarrow> string \<Rightarrow> bytes \<Rightarrow> bytes \<Rightarrow> ('db rocks, arcon_state_error, unit) action" where
  "rocks_put D cf_name key v = initialized_mut (rocksdb_put D cf_name key v)"

definition rocks_remove :: "('db, 'f) rocks_api \<Rightarrow> string \<Rightarrow> bytes \<Rightarrow> ('db rocks, arcon_state_error, unit) action" where
  "rocks_remove D cf_name key = initialized_mut (rocksdb_remove D cf_name key)"

definition rocks_remove_prefix ::
    "('db, 'f) rocks_api \<Rightarrow> string \<Rightarrow> bytes \<Rightarrow> ('db rocks, arcon_state_error, unit) action" where
  "rocks_remove_prefix D cf pre = initialized_mut (rocksdb_remove_prefix D cf pre)"

definition rocks_contains :: "('db, 'f) rocks_api \<Rightarrow> string \<Rightarrow> bytes \<Rightarrow> 'db rocks \<Rightarrow> bool state_result" where
  "rocks_contains D cf key r = bind_o (initialized r) (rocksdb_contains D cf key)"

definition is_initialized :: "'db rocks \<Rightarrow> bool" where
  "is_initialized r = (case rk_inner r of Initialized _ \<Rightarrow> True | Uninitialized _ _ \<Rightarrow> False)"

text \<open>The file system as the backend uses it: directories by path. Paths are taken as canonical.\<close>

type_synonym 'f disk = "string \<rightharpoonup> 'f directory"

definition dir_at :: "'f disk \<Rightarrow> string \<Rightarrow> 'f directory" where
  "dir_at disk path = (case disk path of None \<Rightarrow> [] | Some es \<Rightarrow> es)"

text \<open>\<open>initialize\<close> takes the known column families out of the backend before it opens the database; when
  opening fails, they are lost.\<close>

definition initialize :: "('db, 'f) rocks_api \<Rightarrow> 'f disk \<Rightarrow> ('db rocks, arcon_state_error, unit) action" where
  "initialize D disk r =
     (case rk_inner r of
        Initialized _ \<Rightarrow> (Panic ''assertion failed: !self.is_initialized()'', r)
      | Uninitialized unknown known \<Rightarrow>
          if unknown = {} then
            (case rk_open_cf_descriptors D (dir_at disk (rk_path r)) known of
               Ok db \<Rightarrow> (Ok (), r\<lparr>rk_inner := Initialized \<lparr>ir_db = db, ir_options = known\<rparr>\<rparr>)
             | Err e \<Rightarrow> (Err e, r\<lparr>rk_inner := Uninitialized unknown Map.empty\<rparr>)
             | Panic m \<Rightarrow> (Panic m, r\<lparr>rk_inner := Uninitialized unknown Map.empty\<rparr>)
             | NoFuel \<Rightarrow> (NoFuel, r\<lparr>rk_inner := Uninitialized unknown Map.empty\<rparr>))
          else (Panic ''assertion failed: no_unknown_cfs'', r))"

definition create_column_family ::
    "('db, 'f) rocks_api \<Rightarrow> 'f disk \<Rightarrow> string \<Rightarrow> rocks_options \<Rightarrow> ('db rocks, arcon_state_error, unit) action" where
  "create_column_family D disk cf_name opts r =
     (case rk_inner r of
        Initialized _ \<Rightarrow> initialized_mut (create_column_family_if_doesnt_exist D cf_name opts) r
      | Uninitialized unknown known \<Rightarrow>
          if cf_name \<in> dom known then (Ok (), r)
          else
            let r = r\<lparr>rk_inner := Uninitialized (unknown - {cf_name}) (known(cf_name \<mapsto> opts))\<rparr>
            in if unknown - {cf_name} = {} then initialize D disk r else (Ok (), r))"

definition common_options :: "'ik fixed_bytes \<Rightarrow> 'n fixed_bytes \<Rightarrow> rocks_options" where
  "common_options IK N = default_options\<lparr>ro_prefix_extractor := Some (SIZE IK + SIZE N)\<rparr>"

section \<open>Creation, restoring and checkpoints\<close>

fun is_infix :: "string \<Rightarrow> string \<Rightarrow> bool" where
  "is_infix p [] = (p = [])"
| "is_infix p (c # s) = (take (length p) (c # s) = p \<or> is_infix p s)"

fun error_message :: "arcon_state_error \<Rightarrow> string" where
  "error_message (RocksError m) = m"
| "error_message e = ''''"

text \<open>\<^verbatim>\<open>DB::list_cf\<close> fails on a directory without a database; the code tells that from its message.\<close>

definition listed_cfs :: "string list state_result \<Rightarrow> string set state_result" where
  "listed_cfs r =
     (case r of
        Ok cfs \<Rightarrow> Ok (set (filter (\<lambda>n. n \<noteq> ''default'') cfs))
      | Err e \<Rightarrow> if is_infix ''No such file or directory'' (error_message e) then Ok {} else Err e
      | Panic m \<Rightarrow> Panic m
      | NoFuel \<Rightarrow> NoFuel)"

definition rocks_create :: "('db, 'f) rocks_api \<Rightarrow> string \<Rightarrow> ('f disk, arcon_state_error, 'db rocks) action" where
  "rocks_create D path disk =
     (let disk = (if disk path = None then disk(path \<mapsto> []) else disk) in
      (bind_o (listed_cfs (rk_list_cf D (dir_at disk path))) (\<lambda>column_families.
       bind_o (if column_families \<noteq> {} then
                 Ok (Uninitialized column_families [''default'' \<mapsto> default_options])
               else
                 bind_o (rk_open_cf_descriptors D (dir_at disk path) [''default'' \<mapsto> default_options]) (\<lambda>db.
                 Ok (Initialized \<lparr>ir_db = db, ir_options = [''default'' \<mapsto> default_options]\<rparr>))) (\<lambda>inner.
       Ok \<lparr>rk_inner = inner, rk_path = path, rk_restored = False\<rparr>)), disk))"

text \<open>\<open>copy_files\<close>: the loop over the entries of the checkpoint, each of which must be a file.\<close>

fun copy_files :: "'f directory \<Rightarrow> string \<Rightarrow> ('f disk, arcon_state_error, unit) action" where
  "copy_files [] target disk = (Ok (), disk)"
| "copy_files ((name, entry) # es) target disk =
     (case entry of
        None \<Rightarrow> (Panic ''assertion failed: entry.file_type().expect(..).is_file()'', disk)
      | Some content \<Rightarrow> copy_files es target (disk(target \<mapsto> AList.update name (Some content) (dir_at disk target))))"

definition rocks_restore ::
    "('db, 'f) rocks_api \<Rightarrow> string \<Rightarrow> string \<Rightarrow> ('f disk, arcon_state_error, 'db rocks) action" where
  "rocks_restore D live_path checkpoint_path =
     bind_s (\<lambda>disk. (Ok (), if disk live_path = None then disk(live_path \<mapsto> []) else disk)) (\<lambda>_.
     bind_s (query (\<lambda>disk. if dir_at disk live_path = [] then Ok () else Err (RocksRestoreDirNotEmpty live_path))) (\<lambda>_.
     bind_s (query (\<lambda>disk. ok_or (IO ''No such file or directory'') (disk checkpoint_path))) (\<lambda>entries.
     bind_s (copy_files entries live_path) (\<lambda>_.
     bind_s (rocks_create D live_path) (\<lambda>r.
     return_s (r\<lparr>rk_restored := True\<rparr>))))))"

definition rocks_was_restored :: "'db rocks \<Rightarrow> bool" where
  "rocks_was_restored r = rk_restored r"

definition rocks_checkpoint ::
    "('db, 'f) rocks_api \<Rightarrow> string \<Rightarrow> 'db rocks \<Rightarrow> ('f disk, arcon_state_error, unit) action" where
  "rocks_checkpoint D checkpoint_path r =
     bind_s (query (\<lambda>_. initialized r)) (\<lambda>i.
     bind_s (query (\<lambda>_. rk_flush D (ir_db i))) (\<lambda>_.
     bind_s (query (\<lambda>_. rk_checkpoint_new D (ir_db i))) (\<lambda>_.
     bind_s (\<lambda>disk. (Ok (), if disk checkpoint_path \<noteq> None then disk(checkpoint_path := None) else disk)) (\<lambda>_.
     bind_s (query (\<lambda>_. rk_create_checkpoint D (ir_db i))) (\<lambda>files.
     \<lambda>disk. (Ok (), disk(checkpoint_path \<mapsto> files)))))))"

section \<open>Registration\<close>

text \<open>\<open>merge_options\<close> is \<open>common_options\<close> with a merge operator set. A handle counts as registered before
  its column family exists; a failure to create it panics.\<close>

definition merge_options :: "'ik fixed_bytes \<Rightarrow> 'n fixed_bytes \<Rightarrow> rocks_merge_fn \<Rightarrow> rocks_options" where
  "merge_options IK N m = (common_options IK N)\<lparr>ro_merge_operator := Some m\<rparr>"

definition register_cf ::
    "('db, 'f) rocks_api \<Rightarrow> 'f disk \<Rightarrow> rocks_options \<Rightarrow> ('ik, 'n, 'x) handle
      \<Rightarrow> ('db rocks, arcon_state_error, ('ik, 'n, 'x) handle) action" where
  "register_cf D disk opts h r =
     (case create_column_family D disk (h_id h) opts r of
        (x, r) \<Rightarrow> (bind_o (expect ''Could not create column family'' x) (\<lambda>_. Ok (h\<lparr>h_registered := True\<rparr>)), r))"

definition rocks_register_value ::
    "('db, 'f) rocks_api \<Rightarrow> 'f disk \<Rightarrow> 'ik fixed_bytes \<Rightarrow> 'n fixed_bytes \<Rightarrow> ('ik, 'n, 'x) handle
      \<Rightarrow> ('db rocks, arcon_state_error, ('ik, 'n, 'x) handle) action" where
  "rocks_register_value D disk IK N h = register_cf D disk (common_options IK N) h"

definition rocks_register_map ::
    "('db, 'f) rocks_api \<Rightarrow> 'f disk \<Rightarrow> 'ik fixed_bytes \<Rightarrow> 'n fixed_bytes \<Rightarrow> ('ik, 'n, 'x) handle
      \<Rightarrow> ('db rocks, arcon_state_error, ('ik, 'n, 'x) handle) action" where
  "rocks_register_map D disk IK N h = register_cf D disk (common_options IK N) h"

section \<open>Value state\<close>

definition rocks_value_clear ::
    "('db, 'f) rocks_api \<Rightarrow> 'ik fixed_bytes \<Rightarrow> 'n fixed_bytes \<Rightarrow> ('ik, 'n, 'x) handle
      \<Rightarrow> ('db rocks, arcon_state_error, unit) action" where
  "rocks_value_clear D IK N h =
     bind_s (query (\<lambda>_. serialize_metakeys IK N h)) (\<lambda>key.
     bind_s (rocks_remove D (h_id h) key) (\<lambda>_. return_s ()))"

definition rocks_value_get ::
    "('db, 'f) rocks_api \<Rightarrow> 'ik fixed_bytes \<Rightarrow> 'n fixed_bytes \<Rightarrow> 'v message \<Rightarrow> ('ik, 'n, 'x) handle
      \<Rightarrow> 'db rocks \<Rightarrow> 'v option state_result" where
  "rocks_value_get D IK N V h r =
     bind_o (serialize_metakeys IK N h) (\<lambda>key.
     bind_o (rocks_get D (h_id h) key r) (old_value V))"

definition rocks_value_set ::
    "('db, 'f) rocks_api \<Rightarrow> 'ik fixed_bytes \<Rightarrow> 'n fixed_bytes \<Rightarrow> 'v message \<Rightarrow> ('ik, 'n, 'x) handle \<Rightarrow> 'v
      \<Rightarrow> ('db rocks, arcon_state_error, 'v option) action" where
  "rocks_value_set D IK N V h v =
     bind_s (query (\<lambda>_. serialize_metakeys IK N h)) (\<lambda>key.
     bind_s (query (\<lambda>r. bind_o (rocks_get D (h_id h) key r) (old_value V))) (\<lambda>old.
     bind_s (query (\<lambda>_. protobuf_serialize V v)) (\<lambda>serialized.
     bind_s (rocks_put D (h_id h) key serialized) (\<lambda>_. return_s old))))"

definition rocks_value_fast_set ::
    "('db, 'f) rocks_api \<Rightarrow> 'ik fixed_bytes \<Rightarrow> 'n fixed_bytes \<Rightarrow> 'v message \<Rightarrow> ('ik, 'n, 'x) handle \<Rightarrow> 'v
      \<Rightarrow> ('db rocks, arcon_state_error, unit) action" where
  "rocks_value_fast_set D IK N V h v =
     bind_s (query (\<lambda>_. serialize_metakeys IK N h)) (\<lambda>key.
     bind_s (query (\<lambda>_. protobuf_serialize V v)) (\<lambda>serialized.
     bind_s (rocks_put D (h_id h) key serialized) (\<lambda>_. return_s ())))"

definition rocks_value_ops ::
    "('db, 'f) rocks_api \<Rightarrow> 'ik fixed_bytes \<Rightarrow> 'n fixed_bytes \<Rightarrow> 'v message \<Rightarrow> ('ik, 'n, 'x) handle
      \<Rightarrow> ('db rocks, 'v) value_ops" where
  "rocks_value_ops D IK N V h =
     \<lparr>vo_clear = rocks_value_clear D IK N h, vo_get = rocks_value_get D IK N V h,
      vo_set = rocks_value_set D IK N V h, vo_fast_set = rocks_value_fast_set D IK N V h\<rparr>"

section \<open>Map state\<close>

definition rocks_map_clear ::
    "('db, 'f) rocks_api \<Rightarrow> 'ik fixed_bytes \<Rightarrow> 'n fixed_bytes \<Rightarrow> ('ik, 'n, 'x) handle
      \<Rightarrow> ('db rocks, arcon_state_error, unit) action" where
  "rocks_map_clear D IK N h =
     bind_s (query (\<lambda>_. serialize_metakeys IK N h)) (\<lambda>pre. rocks_remove_prefix D (h_id h) pre)"

definition rocks_map_get ::
    "('db, 'f) rocks_api \<Rightarrow> 'ik fixed_bytes \<Rightarrow> 'n fixed_bytes \<Rightarrow> 'k message \<Rightarrow> 'v message \<Rightarrow> ('ik, 'n, 'x) handle \<Rightarrow> 'k
      \<Rightarrow> 'db rocks \<Rightarrow> 'v option state_result" where
  "rocks_map_get D IK N K V h key r =
     bind_o (serialize_metakeys_and_key IK N K h key) (\<lambda>key.
     bind_o (rocks_get D (h_id h) key r) (old_value V))"

definition rocks_map_fast_insert ::
    "('db, 'f) rocks_api \<Rightarrow> 'ik fixed_bytes \<Rightarrow> 'n fixed_bytes \<Rightarrow> 'k message \<Rightarrow> 'v message \<Rightarrow> ('ik, 'n, 'x) handle
      \<Rightarrow> 'k \<Rightarrow> 'v \<Rightarrow> ('db rocks, arcon_state_error, unit) action" where
  "rocks_map_fast_insert D IK N K V h key v =
     bind_s (query (\<lambda>_. serialize_metakeys_and_key IK N K h key)) (\<lambda>key.
     bind_s (query (\<lambda>_. protobuf_serialize V v)) (\<lambda>serialized.
     bind_s (rocks_put D (h_id h) key serialized) (\<lambda>_. return_s ())))"

definition rocks_map_insert ::
    "('db, 'f) rocks_api \<Rightarrow> 'ik fixed_bytes \<Rightarrow> 'n fixed_bytes \<Rightarrow> 'k message \<Rightarrow> 'v message \<Rightarrow> ('ik, 'n, 'x) handle
      \<Rightarrow> 'k \<Rightarrow> 'v \<Rightarrow> ('db rocks, arcon_state_error, 'v option) action" where
  "rocks_map_insert D IK N K V h key v =
     bind_s (query (\<lambda>_. serialize_metakeys_and_key IK N K h key)) (\<lambda>key.
     bind_s (query (\<lambda>r. bind_o (rocks_get D (h_id h) key r) (old_value V))) (\<lambda>old.
     bind_s (query (\<lambda>_. protobuf_serialize V v)) (\<lambda>serialized.
     bind_s (rocks_put D (h_id h) key serialized) (\<lambda>_. return_s old))))"

text \<open>The batch is filled first; an entry that cannot be encoded leaves the column family as it is.\<close>

fun put_batch ::
    "'ik fixed_bytes \<Rightarrow> 'n fixed_bytes \<Rightarrow> 'k message \<Rightarrow> 'v message \<Rightarrow> ('ik, 'n, 'x) handle
      \<Rightarrow> ('k \<times> 'v) list \<Rightarrow> write_op list state_result" where
  "put_batch IK N K V h [] = Ok []"
| "put_batch IK N K V h ((user_key, v) # kvs) =
     bind_o (serialize_metakeys_and_key IK N K h user_key) (\<lambda>key.
     bind_o (protobuf_serialize V v) (\<lambda>serialized.
     bind_o (put_batch IK N K V h kvs) (\<lambda>wb. Ok (WPut (h_id h) key serialized # wb))))"

definition rocks_map_insert_all ::
    "('db, 'f) rocks_api \<Rightarrow> 'ik fixed_bytes \<Rightarrow> 'n fixed_bytes \<Rightarrow> 'k message \<Rightarrow> 'v message \<Rightarrow> ('ik, 'n, 'x) handle
      \<Rightarrow> ('k \<times> 'v) list \<Rightarrow> ('db rocks, arcon_state_error, unit) action" where
  "rocks_map_insert_all D IK N K V h kvs =
     initialized_mut (
       bind_s (query (get_cf_handle D (h_id h))) (\<lambda>_.
       bind_s (query (\<lambda>_. put_batch IK N K V h kvs)) (\<lambda>wb.
       on_rocks_db (rk_write D wb))))"

definition rocks_map_remove ::
    "('db, 'f) rocks_api \<Rightarrow> 'ik fixed_bytes \<Rightarrow> 'n fixed_bytes \<Rightarrow> 'k message \<Rightarrow> 'v message \<Rightarrow> ('ik, 'n, 'x) handle
      \<Rightarrow> 'k \<Rightarrow> ('db rocks, arcon_state_error, 'v option) action" where
  "rocks_map_remove D IK N K V h key =
     bind_s (query (\<lambda>_. serialize_metakeys_and_key IK N K h key)) (\<lambda>key.
     bind_s (query (\<lambda>r. bind_o (rocks_get D (h_id h) key r) (old_value V))) (\<lambda>old.
     bind_s (rocks_remove D (h_id h) key) (\<lambda>_. return_s old)))"

definition rocks_map_fast_remove ::
    "('db, 'f) rocks_api \<Rightarrow> 'ik fixed_bytes \<Rightarrow> 'n fixed_bytes \<Rightarrow> 'k message \<Rightarrow> ('ik, 'n, 'x) handle
      \<Rightarrow> 'k \<Rightarrow> ('db rocks, arcon_state_error, unit) action" where
  "rocks_map_fast_remove D IK N K h key =
     bind_s (query (\<lambda>_. serialize_metakeys_and_key IK N K h key)) (\<lambda>key.
     bind_s (rocks_remove D (h_id h) key) (\<lambda>_. return_s ()))"

definition rocks_map_contains ::
    "('db, 'f) rocks_api \<Rightarrow> 'ik fixed_bytes \<Rightarrow> 'n fixed_bytes \<Rightarrow> 'k message \<Rightarrow> ('ik, 'n, 'x) handle
      \<Rightarrow> 'k \<Rightarrow> 'db rocks \<Rightarrow> bool state_result" where
  "rocks_map_contains D IK N K h key r =
     bind_o (serialize_metakeys_and_key IK N K h key) (\<lambda>key. rocks_contains D (h_id h) key r)"

text \<open>\<open>rocks_scan\<close>: the start of every walk over a map.\<close>

definition rocks_scan ::
    "('db, 'f) rocks_api \<Rightarrow> 'ik fixed_bytes \<Rightarrow> 'n fixed_bytes \<Rightarrow> ('ik, 'n, 'x) handle \<Rightarrow> 'db rocks
      \<Rightarrow> (bytes \<times> bytes) list state_result" where
  "rocks_scan D IK N h r =
     bind_o (initialized r) (\<lambda>i.
     bind_o (serialize_metakeys IK N h) (\<lambda>pre.
     bind_o (get_cf_handle D (h_id h) i) (\<lambda>_.
     rk_prefix_iterator_cf D (h_id h) pre (ir_db i))))"

definition rocks_map_iter ::
    "('db, 'f) rocks_api \<Rightarrow> 'ik fixed_bytes \<Rightarrow> 'n fixed_bytes \<Rightarrow> 'k message \<Rightarrow> 'v message \<Rightarrow> ('ik, 'n, 'x) handle
      \<Rightarrow> 'db rocks \<Rightarrow> ('k \<times> 'v) state_result list state_result" where
  "rocks_map_iter D IK N K V h r =
     bind_o (rocks_scan D IK N h r) (\<lambda>es.
     Ok (map (\<lambda>(db_key, serialized_value).
       bind_o (decode_user_key IK N K db_key) (\<lambda>key.
       bind_o (protobuf_deserialize V serialized_value) (\<lambda>v. Ok (key, v)))) es))"

definition rocks_map_keys ::
    "('db, 'f) rocks_api \<Rightarrow> 'ik fixed_bytes \<Rightarrow> 'n fixed_bytes \<Rightarrow> 'k message \<Rightarrow> ('ik, 'n, 'x) handle
      \<Rightarrow> 'db rocks \<Rightarrow> 'k state_result list state_result" where
  "rocks_map_keys D IK N K h r =
     bind_o (rocks_scan D IK N h r) (\<lambda>es. Ok (map (\<lambda>(db_key, _). decode_user_key IK N K db_key) es))"

definition rocks_map_values ::
    "('db, 'f) rocks_api \<Rightarrow> 'ik fixed_bytes \<Rightarrow> 'n fixed_bytes \<Rightarrow> 'v message \<Rightarrow> ('ik, 'n, 'x) handle
      \<Rightarrow> 'db rocks \<Rightarrow> 'v state_result list state_result" where
  "rocks_map_values D IK N V h r =
     bind_o (rocks_scan D IK N h r) (\<lambda>es.
     Ok (map (\<lambda>(_, serialized_value). protobuf_deserialize V serialized_value) es))"

definition rocks_map_len ::
    "('db, 'f) rocks_api \<Rightarrow> 'ik fixed_bytes \<Rightarrow> 'n fixed_bytes \<Rightarrow> ('ik, 'n, 'x) handle \<Rightarrow> 'db rocks \<Rightarrow> nat state_result" where
  "rocks_map_len D IK N h r = bind_o (rocks_scan D IK N h r) (\<lambda>es. Ok (length es))"

definition rocks_map_is_empty ::
    "('db, 'f) rocks_api \<Rightarrow> 'ik fixed_bytes \<Rightarrow> 'n fixed_bytes \<Rightarrow> ('ik, 'n, 'x) handle \<Rightarrow> 'db rocks \<Rightarrow> bool state_result" where
  "rocks_map_is_empty D IK N h r = bind_o (rocks_scan D IK N h r) (\<lambda>es. Ok (es = []))"

definition rocks_map_ops ::
    "('db, 'f) rocks_api \<Rightarrow> 'ik fixed_bytes \<Rightarrow> 'n fixed_bytes \<Rightarrow> 'k message \<Rightarrow> 'v message \<Rightarrow> ('ik, 'n, 'x) handle
      \<Rightarrow> ('db rocks, 'k, 'v) map_ops" where
  "rocks_map_ops D IK N K V h =
     \<lparr>mo_clear = rocks_map_clear D IK N h,
      mo_get = rocks_map_get D IK N K V h,
      mo_fast_insert = rocks_map_fast_insert D IK N K V h,
      mo_insert = rocks_map_insert D IK N K V h,
      mo_insert_all = rocks_map_insert_all D IK N K V h,
      mo_remove = rocks_map_remove D IK N K V h,
      mo_fast_remove = rocks_map_fast_remove D IK N K h,
      mo_contains = rocks_map_contains D IK N K h,
      mo_iter = rocks_map_iter D IK N K V h,
      mo_keys = rocks_map_keys D IK N K h,
      mo_values = rocks_map_values D IK N V h,
      mo_len = rocks_map_len D IK N h,
      mo_is_empty = rocks_map_is_empty D IK N h\<rparr>"

section \<open>Vector state\<close>

text \<open>A vector is stored as for sled. \<open>merge_rocks\<close>: look the column family up, and hand an operand to
  its merge operator. Memory reserved by the operator itself is not modelled.\<close>

definition merge_rocks ::
    "('db, 'f) rocks_api \<Rightarrow> string \<Rightarrow> bytes \<Rightarrow> bytes \<Rightarrow> ('db initialized_rocks_db, arcon_state_error, unit) action" where
  "merge_rocks D cf key serialized =
     bind_s (query (get_cf_handle D cf)) (\<lambda>_. on_rocks_db (rk_merge_cf D cf key serialized))"

definition rocks_vec_clear ::
    "('db, 'f) rocks_api \<Rightarrow> 'ik fixed_bytes \<Rightarrow> 'n fixed_bytes \<Rightarrow> ('ik, 'n, 'x) handle
      \<Rightarrow> ('db rocks, arcon_state_error, unit) action" where
  "rocks_vec_clear D IK N h =
     bind_s (query (\<lambda>_. serialize_metakeys IK N h)) (\<lambda>key.
     bind_s (rocks_remove D (h_id h) key) (\<lambda>_. return_s ()))"

definition rocks_vec_append ::
    "('db, 'f) rocks_api \<Rightarrow> 'ik fixed_bytes \<Rightarrow> 'n fixed_bytes \<Rightarrow> 'v message \<Rightarrow> ('ik, 'n, 'x) handle \<Rightarrow> 'v
      \<Rightarrow> ('db rocks, arcon_state_error, unit) action" where
  "rocks_vec_append D IK N V h v =
     initialized_mut (
       bind_s (query (\<lambda>_. serialize_metakeys IK N h)) (\<lambda>key.
       bind_s (query (\<lambda>_. with_capacity (SIZE (word_fb :: usize fixed_bytes)
                 + (case size_hint V v of None \<Rightarrow> 0 | Some n \<Rightarrow> n)))) (\<lambda>_.
       bind_s (query (\<lambda>_. into_fresh_vec
                 (bind_s (fb_serialize_into word_fb (1 :: usize)) (\<lambda>_. protobuf_serialize_into V v)))) (\<lambda>serialized.
       merge_rocks D (h_id h) key serialized))))"

definition rocks_vec_get ::
    "('db, 'f) rocks_api \<Rightarrow> 'ik fixed_bytes \<Rightarrow> 'n fixed_bytes \<Rightarrow> 'v message \<Rightarrow> ('ik, 'n, 'x) handle
      \<Rightarrow> 'db rocks \<Rightarrow> 'v list state_result" where
  "rocks_vec_get D IK N V h r =
     bind_o (serialize_metakeys IK N h) (\<lambda>key.
     bind_o (rocks_get D (h_id h) key r) (\<lambda>x.
       case x of
         Some serialized \<Rightarrow>
           (case fb_deserialize_from word_fb serialized of
              (l, reader) \<Rightarrow> bind_o l (\<lambda>len :: usize.
                bind_o (read_messages (length reader) V reader) (\<lambda>res.
                if length res = unat len then Ok res else Panic ''assertion failed: `(left == right)`'')))
       | None \<Rightarrow> Ok []))"

definition rocks_vec_iter ::
    "('db, 'f) rocks_api \<Rightarrow> 'ik fixed_bytes \<Rightarrow> 'n fixed_bytes \<Rightarrow> 'v message \<Rightarrow> ('ik, 'n, 'x) handle
      \<Rightarrow> 'db rocks \<Rightarrow> 'v state_result list state_result" where
  "rocks_vec_iter D IK N V h r =
     bind_o (serialize_metakeys IK N h) (\<lambda>key.
     bind_o (rocks_get D (h_id h) key r) (\<lambda>x.
       case x of
         Some serialized \<Rightarrow>
           (case fb_deserialize_from word_fb serialized of
              (l, reader) \<Rightarrow> bind_o l (\<lambda>_ :: usize. Ok (iter_messages (length reader) V reader)))
       | None \<Rightarrow> Ok []))"

definition rocks_vec_set ::
    "('db, 'f) rocks_api \<Rightarrow> 'ik fixed_bytes \<Rightarrow> 'n fixed_bytes \<Rightarrow> 'v message \<Rightarrow> ('ik, 'n, 'x) handle \<Rightarrow> 'v list
      \<Rightarrow> ('db rocks, arcon_state_error, unit) action" where
  "rocks_vec_set D IK N V h vs =
     bind_s (query (\<lambda>_. serialize_metakeys IK N h)) (\<lambda>key.
     bind_s (query (\<lambda>_. with_capacity (SIZE (word_fb :: usize fixed_bytes)
               + sum_list (List.map_filter (size_hint V) vs)))) (\<lambda>_.
     bind_s (query (\<lambda>_. into_fresh_vec
               (bind_s (fb_serialize_into word_fb (word_of_nat (length vs) :: usize)) (\<lambda>_.
                serialize_messages V vs)))) (\<lambda>storage.
     rocks_put D (h_id h) key storage)))"

definition rocks_vec_add_all ::
    "('db, 'f) rocks_api \<Rightarrow> 'ik fixed_bytes \<Rightarrow> 'n fixed_bytes \<Rightarrow> 'v message \<Rightarrow> ('ik, 'n, 'x) handle \<Rightarrow> 'v list
      \<Rightarrow> ('db rocks, arcon_state_error, unit) action" where
  "rocks_vec_add_all D IK N V h vs =
     initialized_mut (
       bind_s (query (\<lambda>_. serialize_metakeys IK N h)) (\<lambda>key.
       bind_s (query (\<lambda>_. case bind_s (fb_serialize_into word_fb (0 :: usize)) (\<lambda>_. count_messages V 0 vs) (vec_target []) of
                 (l, t) \<Rightarrow> bind_o l (\<lambda>len. overwrite_front (fb_serialize_into word_fb len) (bm_written t)))) (\<lambda>serialized.
       merge_rocks D (h_id h) key serialized)))"

definition rocks_vec_len ::
    "('db, 'f) rocks_api \<Rightarrow> 'ik fixed_bytes \<Rightarrow> 'n fixed_bytes \<Rightarrow> ('ik, 'n, 'x) handle \<Rightarrow> 'db rocks \<Rightarrow> nat state_result" where
  "rocks_vec_len D IK N h r =
     bind_o (serialize_metakeys IK N h) (\<lambda>key.
     bind_o (rocks_get D (h_id h) key r) (\<lambda>x.
       case x of
         Some storage \<Rightarrow>
           if storage = [] then Ok 0
           else if length storage < SIZE (word_fb :: usize fixed_bytes) then Panic ''vec stored with partial size?''
           else bind_o (fst (fb_deserialize_from word_fb storage)) (\<lambda>len :: usize. Ok (unat len))
       | None \<Rightarrow> Ok 0))"

definition rocks_vec_is_empty ::
    "('db, 'f) rocks_api \<Rightarrow> 'ik fixed_bytes \<Rightarrow> 'n fixed_bytes \<Rightarrow> ('ik, 'n, 'x) handle \<Rightarrow> 'db rocks \<Rightarrow> bool state_result" where
  "rocks_vec_is_empty D IK N h r = bind_o (rocks_vec_len D IK N h r) (\<lambda>n. Ok (n = 0))"

definition rocks_vec_ops ::
    "('db, 'f) rocks_api \<Rightarrow> 'ik fixed_bytes \<Rightarrow> 'n fixed_bytes \<Rightarrow> 'v message \<Rightarrow> ('ik, 'n, 'x) handle
      \<Rightarrow> ('db rocks, 'v) vec_ops" where
  "rocks_vec_ops D IK N V h =
     \<lparr>ve_clear = rocks_vec_clear D IK N h, ve_append = rocks_vec_append D IK N V h,
      ve_get = rocks_vec_get D IK N V h, ve_iter = rocks_vec_iter D IK N V h,
      ve_set = rocks_vec_set D IK N V h, ve_add_all = rocks_vec_add_all D IK N V h,
      ve_len = rocks_vec_len D IK N h, ve_is_empty = rocks_vec_is_empty D IK N h\<rparr>"

text \<open>\<open>operands\<close>: \<^verbatim>\<open>first.into_iter().chain(rest)\<close>.\<close>

definition operands :: "bytes option \<Rightarrow> bytes list \<Rightarrow> bytes list" where
  "operands first rest = (case first of None \<Rightarrow> rest | Some b \<Rightarrow> b # rest)"

definition rocks_vec_merge :: rocks_merge_fn where
  "rocks_vec_merge first rest =
     ok_or_none (into_fresh_vec (fb_serialize_into word_fb (0 :: usize))) (\<lambda>result.
     bind_o (merge_slices 0 result (operands first rest)) (\<lambda>x.
       case x of
         None \<Rightarrow> Ok None
       | Some (len, result) \<Rightarrow>
           ok_or_none (overwrite_front (fb_serialize_into word_fb len) result) (\<lambda>result. Ok (Some result))))"

definition rocks_register_vec ::
    "('db, 'f) rocks_api \<Rightarrow> 'f disk \<Rightarrow> 'ik fixed_bytes \<Rightarrow> 'n fixed_bytes \<Rightarrow> ('ik, 'n, 'x) handle
      \<Rightarrow> ('db rocks, arcon_state_error, ('ik, 'n, 'x) handle) action" where
  "rocks_register_vec D disk IK N h = register_cf D disk (merge_options IK N rocks_vec_merge) h"

section \<open>Reducer and aggregator state\<close>

definition rocks_reducer_clear ::
    "('db, 'f) rocks_api \<Rightarrow> 'ik fixed_bytes \<Rightarrow> 'n fixed_bytes \<Rightarrow> ('ik, 'n, 'x) handle
      \<Rightarrow> ('db rocks, arcon_state_error, unit) action" where
  "rocks_reducer_clear D IK N h =
     bind_s (query (\<lambda>_. serialize_metakeys IK N h)) (\<lambda>key.
     bind_s (rocks_remove D (h_id h) key) (\<lambda>_. return_s ()))"

definition rocks_reducer_get ::
    "('db, 'f) rocks_api \<Rightarrow> 'ik fixed_bytes \<Rightarrow> 'n fixed_bytes \<Rightarrow> 'v message \<Rightarrow> ('ik, 'n, 'x) handle
      \<Rightarrow> 'db rocks \<Rightarrow> 'v option state_result" where
  "rocks_reducer_get D IK N V h r =
     bind_o (serialize_metakeys IK N h) (\<lambda>key.
     bind_o (rocks_get D (h_id h) key r) (old_value V))"

definition rocks_reducer_reduce ::
    "('db, 'f) rocks_api \<Rightarrow> 'ik fixed_bytes \<Rightarrow> 'n fixed_bytes \<Rightarrow> 'v message \<Rightarrow> ('ik, 'n, 'x) handle \<Rightarrow> 'v
      \<Rightarrow> ('db rocks, arcon_state_error, unit) action" where
  "rocks_reducer_reduce D IK N V h v =
     initialized_mut (
       bind_s (query (\<lambda>_. serialize_metakeys IK N h)) (\<lambda>key.
       bind_s (query (\<lambda>_. protobuf_serialize V v)) (\<lambda>serialized.
       merge_rocks D (h_id h) key serialized)))"

definition rocks_reducer_merge :: "'v message \<Rightarrow> ('v \<Rightarrow> 'v \<Rightarrow> 'v) \<Rightarrow> rocks_merge_fn" where
  "rocks_reducer_merge V reduce_fn first rest =
     ok_or_none (reduce_slices V reduce_fn None (operands first rest)) (\<lambda>res.
       case res of
         Some v \<Rightarrow> ok_or_none (protobuf_serialize V v) (\<lambda>serialized. Ok (Some serialized))
       | None \<Rightarrow> Ok None)"

definition rocks_register_reducer ::
    "('db, 'f) rocks_api \<Rightarrow> 'f disk \<Rightarrow> 'ik fixed_bytes \<Rightarrow> 'n fixed_bytes \<Rightarrow> 'v message \<Rightarrow> ('ik, 'n, 'v \<Rightarrow> 'v \<Rightarrow> 'v) handle
      \<Rightarrow> ('db rocks, arcon_state_error, ('ik, 'n, 'v \<Rightarrow> 'v \<Rightarrow> 'v) handle) action" where
  "rocks_register_reducer D disk IK N V h =
     register_cf D disk (merge_options IK N (rocks_reducer_merge V (h_extra_data h))) h"

definition rocks_reducer_ops ::
    "('db, 'f) rocks_api \<Rightarrow> 'ik fixed_bytes \<Rightarrow> 'n fixed_bytes \<Rightarrow> 'v message \<Rightarrow> ('ik, 'n, 'x) handle
      \<Rightarrow> ('db rocks, 'v) reducer_ops" where
  "rocks_reducer_ops D IK N V h =
     \<lparr>ro_clear = rocks_reducer_clear D IK N h, ro_get = rocks_reducer_get D IK N V h,
      ro_reduce = rocks_reducer_reduce D IK N V h\<rparr>"

definition rocks_aggregator_clear ::
    "('db, 'f) rocks_api \<Rightarrow> 'ik fixed_bytes \<Rightarrow> 'n fixed_bytes \<Rightarrow> ('ik, 'n, 'x) handle
      \<Rightarrow> ('db rocks, arcon_state_error, unit) action" where
  "rocks_aggregator_clear D IK N h =
     bind_s (query (\<lambda>_. serialize_metakeys IK N h)) (\<lambda>key.
     bind_s (rocks_remove D (h_id h) key) (\<lambda>_. return_s ()))"

definition rocks_aggregator_get ::
    "('db, 'f) rocks_api \<Rightarrow> 'ik fixed_bytes \<Rightarrow> 'n fixed_bytes \<Rightarrow> 'acc message
      \<Rightarrow> ('ik, 'n, ('i, 'acc, 'r) aggregator) handle \<Rightarrow> 'db rocks \<Rightarrow> 'r state_result" where
  "rocks_aggregator_get D IK N ACC h r =
     bind_o (serialize_metakeys IK N h) (\<lambda>key.
     bind_o (rocks_get D (h_id h) key r) (\<lambda>x.
       case x of
         Some serialized \<Rightarrow>
           (case serialized of
              [] \<Rightarrow> Panic ''index out of bounds''
            | marker # serialized \<Rightarrow>
                if marker = ACCUMULATOR_MARKER
                then bind_o (protobuf_deserialize ACC serialized) (accumulator_into_result (h_extra_data h))
                else Panic ''assertion failed: `(left == right)`'')
       | None \<Rightarrow> accumulator_into_result (h_extra_data h) (create_accumulator (h_extra_data h))))"

definition rocks_aggregator_aggregate ::
    "('db, 'f) rocks_api \<Rightarrow> 'ik fixed_bytes \<Rightarrow> 'n fixed_bytes \<Rightarrow> 'i message
      \<Rightarrow> ('ik, 'n, ('i, 'acc, 'r) aggregator) handle \<Rightarrow> 'i \<Rightarrow> ('db rocks, arcon_state_error, unit) action" where
  "rocks_aggregator_aggregate D IK N INP h v =
     initialized_mut (
       bind_s (query (\<lambda>_. serialize_metakeys IK N h)) (\<lambda>key.
       bind_s (query (\<lambda>_. case protobuf_serialize_into INP v (vec_target [VALUE_MARKER]) of
                 (x, t) \<Rightarrow> bind_o x (\<lambda>_. Ok (bm_written t)))) (\<lambda>serialized.
       merge_rocks D (h_id h) key serialized)))"

definition rocks_aggregator_merge ::
    "'i message \<Rightarrow> 'acc message \<Rightarrow> ('i, 'acc, 'r) aggregator \<Rightarrow> rocks_merge_fn" where
  "rocks_aggregator_merge INP ACC A first rest =
     bind_o (case operands first rest of
               [] \<Rightarrow> Ok (Some (create_accumulator A), [])
             | s # all_slices \<Rightarrow> bind_o (first_operand INP ACC A s) (\<lambda>x. Ok (x, all_slices))) (\<lambda>(x, all_slices).
       case x of
         None \<Rightarrow> Ok None
       | Some accumulator \<Rightarrow>
           bind_o (further_operands INP ACC A accumulator all_slices) (\<lambda>x.
             case x of
               None \<Rightarrow> Ok None
             | Some accumulator \<Rightarrow>
                 (case protobuf_serialize_into ACC accumulator (vec_target [ACCUMULATOR_MARKER]) of
                    (w, t) \<Rightarrow> ok_or_none w (\<lambda>_. Ok (Some (bm_written t))))))"

definition rocks_register_aggregator ::
    "('db, 'f) rocks_api \<Rightarrow> 'f disk \<Rightarrow> 'ik fixed_bytes \<Rightarrow> 'n fixed_bytes \<Rightarrow> 'i message \<Rightarrow> 'acc message
      \<Rightarrow> ('ik, 'n, ('i, 'acc, 'r) aggregator) handle
      \<Rightarrow> ('db rocks, arcon_state_error, ('ik, 'n, ('i, 'acc, 'r) aggregator) handle) action" where
  "rocks_register_aggregator D disk IK N INP ACC h =
     register_cf D disk (merge_options IK N (rocks_aggregator_merge INP ACC (h_extra_data h))) h"

definition rocks_aggregator_ops ::
    "('db, 'f) rocks_api \<Rightarrow> 'ik fixed_bytes \<Rightarrow> 'n fixed_bytes \<Rightarrow> 'i message \<Rightarrow> 'acc message
      \<Rightarrow> ('ik, 'n, ('i, 'acc, 'r) aggregator) handle \<Rightarrow> ('db rocks, 'i, 'r) aggregator_ops" where
  "rocks_aggregator_ops D IK N INP ACC h =
     \<lparr>ao_clear = rocks_aggregator_clear D IK N h, ao_get = rocks_aggregator_get D IK N ACC h,
      ao_aggregate = rocks_aggregator_aggregate D IK N INP h\<rparr>"

end
