(* ===== verification/Rocks_Laws.thy ===== *)
theory Rocks_Laws
  imports Rocks Sled_Laws
begin

text \<open>
  The RocksDB backend. Over a database that behaves as documented (locale \<open>rocks_store\<close>) every kind of
  state meets the contract of \<open>State_Contracts\<close>. The database keeps the operands of merges beside the
  stored value and applies the merge operator when the entry is read, or earlier, in the background,
  to some of the operands (\<open>compacted\<close>): the operators of the three states give the same content
  whatever was merged before.
\<close>

section \<open>Entries, ranges and background merges\<close>

text \<open>The stored value of an entry and the operands merged into it since, oldest first.\<close>

type_synonym entry = "bytes option \<times> bytes list"

abbreviation no_entry :: entry where
  "no_entry \<equiv> (None, [])"

definition entry_value :: "rocks_options \<Rightarrow> entry \<Rightarrow> bytes option state_result" where
  "entry_value opts e =
     (if snd e = [] then Ok (fst e)
      else case ro_merge_operator opts of
             None \<Rightarrow> Err (RocksError ''Corruption: merge operator is not set'')
           | Some m \<Rightarrow> m (fst e) (snd e))"

inductive compacted :: "rocks_merge_fn \<Rightarrow> entry \<Rightarrow> entry \<Rightarrow> bool" for m where
  untouched: "compacted m e e"
| full: "compacted m e (b, ys @ zs) \<Longrightarrow> ys \<noteq> [] \<Longrightarrow> m b ys = Ok (Some v) \<Longrightarrow> compacted m e (Some v, zs)"
| partial: "compacted m e (b, xs @ ys @ zs) \<Longrightarrow> ys \<noteq> [] \<Longrightarrow> m None ys = Ok (Some v) \<Longrightarrow> compacted m e (b, xs @ v # zs)"

fun bytes_less :: "bytes \<Rightarrow> bytes \<Rightarrow> bool" where
  "bytes_less xs [] = False"
| "bytes_less [] (y # ys) = True"
| "bytes_less (x # xs) (y # ys) = (x < y \<or> x = y \<and> bytes_less xs ys)"

definition in_range :: "bytes \<Rightarrow> bytes \<Rightarrow> bytes \<Rightarrow> bool" where
  "in_range a b k \<longleftrightarrow> \<not> bytes_less k a \<and> bytes_less k b"

fun apply_write :: "write_op \<Rightarrow> (string \<Rightarrow> bytes \<Rightarrow> entry) \<Rightarrow> string \<Rightarrow> bytes \<Rightarrow> entry" where
  "apply_write (WPut cf k v) E = E(cf := (E cf)(k := (Some v, [])))"
| "apply_write (WDeleteRange cf a b) E = E(cf := (\<lambda>k. if in_range a b k then no_entry else E cf k))"

fun write_cf :: "write_op \<Rightarrow> string" where
  "write_cf (WPut cf k v) = cf"
| "write_cf (WDeleteRange cf a b) = cf"

lemma byte_between: "x \<noteq> (- 1 :: u8) \<Longrightarrow> y < x + 1 \<longleftrightarrow> y \<le> x"
proof -
  assume "x \<noteq> - 1"
  then have "unat (x + 1) = Suc (unat x)" using unat_Suc_bound [of x] by (simp add: unat_add_no_overflow)
  then show ?thesis by (simp only: word_less_nat_alt word_le_nat_alt less_Suc_eq_le)
qed

lemma in_range_Cons: "in_range (x # p) (x # e) k \<longleftrightarrow> (case k of [] \<Rightarrow> False | y # k \<Rightarrow> y = x \<and> in_range p e k)"
  by (cases k) (auto simp: in_range_def)

lemma in_range_prefix:
  "p \<noteq> [] \<Longrightarrow> last p \<noteq> - 1 \<Longrightarrow> in_range p (butlast p @ [last p + 1]) k = has_prefix p k"
proof (induction p arbitrary: k)
  case (Cons x p)
  show ?case
  proof (cases p)
    case Nil
    then have b: "y < x + 1 \<longleftrightarrow> y \<le> x" for y using Cons.prems byte_between [of x y] by simp
    show ?thesis
    proof (cases k)
      case (Cons y ys)
      then show ?thesis by (simp add: Nil in_range_def has_prefix_def b not_less) (metis order.antisym order.refl)
    qed (simp add: Nil in_range_def has_prefix_def)
  next
    case p: (Cons y q)
    then have "in_range p (butlast p @ [last p + 1]) k' = has_prefix p k'" for k'
      using Cons.IH [of k'] Cons.prems by simp
    moreover have "butlast (x # p) @ [last (x # p) + 1] = x # butlast p @ [last p + 1]" by (simp add: p)
    ultimately show ?thesis by (simp only: in_range_Cons) (simp add: has_prefix_def split: list.split)
  qed
qed simp

lemma range_end_ok: "p \<noteq> [] \<Longrightarrow> last p \<noteq> - 1 \<Longrightarrow> range_end p = Ok (butlast p @ [last p + 1])"
  using unat_Suc_bound [of "last p"] by (simp add: range_end_def add_u_def)

lemma range_end_overflow: "p \<noteq> [] \<Longrightarrow> last p = - 1 \<Longrightarrow> range_end p = Panic ''attempt to add with overflow''"
  by (simp add: range_end_def add_u_def unsigned_minus_1_eq_mask mask_eq_exp_minus_1)

section \<open>What the database promises\<close>

definition rocks_entries :: "('db \<Rightarrow> string \<Rightarrow> bytes \<Rightarrow> entry) \<Rightarrow> 'db rocks \<Rightarrow> string \<Rightarrow> bytes \<Rightarrow> entry" where
  "rocks_entries ent r = (case rk_inner r of Initialized i \<Rightarrow> ent (ir_db i) | Uninitialized _ _ \<Rightarrow> (\<lambda>_ _. no_entry))"

definition rocks_cfs :: "'db rocks \<Rightarrow> string \<rightharpoonup> rocks_options" where
  "rocks_cfs r = (case rk_inner r of Initialized i \<Rightarrow> ir_options i | Uninitialized _ _ \<Rightarrow> Map.empty)"

text \<open>The database is open and works, and the backend remembers the options of its column families.\<close>

definition rocks_ok :: "('db \<Rightarrow> bool) \<Rightarrow> ('db \<Rightarrow> string \<rightharpoonup> rocks_options) \<Rightarrow> 'db rocks \<Rightarrow> bool" where
  "rocks_ok dok copts r \<longleftrightarrow> (\<exists>i. rk_inner r = Initialized i \<and> dok (ir_db i) \<and> ir_options i = copts (ir_db i))"

text \<open>Everything of the backend but the entries \<open>own\<close> of the column family \<open>cf\<close>.\<close>

definition rocks_frame ::
    "('db \<Rightarrow> string \<Rightarrow> bytes \<Rightarrow> entry) \<Rightarrow> string \<Rightarrow> (bytes \<Rightarrow> bool) \<Rightarrow> 'db rocks
      \<Rightarrow> (string \<Rightarrow> bytes \<Rightarrow> entry) \<times> (string \<rightharpoonup> rocks_options) \<times> string \<times> bool" where
  "rocks_frame ent cf own r =
     ((\<lambda>cf' k. if cf' = cf \<and> own k then no_entry else rocks_entries ent r cf' k), rocks_cfs r, rk_path r, rk_restored r)"

locale rocks_store =
  fixes D :: "('db, 'f) rocks_api" and dok :: "'db \<Rightarrow> bool" and ent :: "'db \<Rightarrow> string \<Rightarrow> bytes \<Rightarrow> entry"
    and copts :: "'db \<Rightarrow> string \<rightharpoonup> rocks_options"
  assumes r_handle: "dok d \<Longrightarrow> rk_cf_handle D cf d \<longleftrightarrow> copts d cf \<noteq> None"
    and r_get: "dok d \<Longrightarrow> copts d cf = Some opts \<Longrightarrow> entry_value opts (ent d cf k) = Ok x \<Longrightarrow>
      snd (ent d cf k) = [] \<or> x \<noteq> None \<Longrightarrow> rk_get_pinned_cf D cf k d = Ok x"
    and r_put: "dok d \<Longrightarrow> copts d cf \<noteq> None \<Longrightarrow> \<exists>d'. rk_put_cf D cf k v d = (Ok (), d') \<and> dok d' \<and>
      ent d' = (ent d)(cf := (ent d cf)(k := (Some v, []))) \<and> copts d' = copts d"
    and r_delete: "dok d \<Longrightarrow> copts d cf \<noteq> None \<Longrightarrow> \<exists>d'. rk_delete_cf D cf k d = (Ok (), d') \<and> dok d' \<and>
      ent d' = (ent d)(cf := (ent d cf)(k := no_entry)) \<and> copts d' = copts d"
    and r_merge: "dok d \<Longrightarrow> copts d cf = Some opts \<Longrightarrow> ro_merge_operator opts \<noteq> None \<Longrightarrow>
      \<exists>d'. rk_merge_cf D cf k v d = (Ok (), d') \<and> dok d' \<and>
        ent d' = (ent d)(cf := (ent d cf)(k := (fst (ent d cf k), snd (ent d cf k) @ [v]))) \<and> copts d' = copts d"
    and r_write: "dok d \<Longrightarrow> list_all (\<lambda>w. copts d (write_cf w) \<noteq> None) ws \<Longrightarrow>
      \<exists>d'. rk_write D ws d = (Ok (), d') \<and> dok d' \<and> ent d' = fold apply_write ws (ent d) \<and> copts d' = copts d"
    and r_iter: "dok d \<Longrightarrow> copts d cf = Some opts \<Longrightarrow> ro_prefix_extractor opts = Some (length p) \<Longrightarrow>
      (\<And>k. has_prefix p k \<Longrightarrow> snd (ent d cf k) = []) \<Longrightarrow>
      \<exists>kvs. rk_prefix_iterator_cf D cf p d = Ok kvs \<and> distinct (map fst kvs) \<and>
        map_of kvs = (\<lambda>k. if has_prefix p k then fst (ent d cf k) else None)"
    and r_create: "dok d \<Longrightarrow> copts d cf = None \<Longrightarrow> \<exists>d'. rk_create_cf D cf opts d = (Ok (), d') \<and> dok d' \<and>
      ent d' = (ent d)(cf := (\<lambda>_. no_entry)) \<and> copts d' = (copts d)(cf \<mapsto> opts)"
    and r_drop: "dok d \<Longrightarrow> copts d cf \<noteq> None \<Longrightarrow> cf \<noteq> ''default'' \<Longrightarrow> \<exists>d'. rk_drop_cf D cf d = (Ok (), d') \<and> dok d' \<and>
      ent d' = (ent d)(cf := (\<lambda>_. no_entry)) \<and> copts d' = (copts d)(cf := None)"
begin

abbreviation rok :: "'db rocks \<Rightarrow> bool" where
  "rok \<equiv> rocks_ok dok copts"

abbreviation rent :: "'db rocks \<Rightarrow> string \<Rightarrow> bytes \<Rightarrow> entry" where
  "rent \<equiv> rocks_entries ent"

text \<open>What a successful write leaves behind: the entries of one column family changed to \<open>t\<close>.\<close>

definition wrote :: "string \<Rightarrow> (bytes \<Rightarrow> entry) \<Rightarrow> 'db rocks \<Rightarrow> 'db rocks \<Rightarrow> bool" where
  "wrote cf t r r' \<longleftrightarrow> rok r' \<and> rent r' = (rent r)(cf := t) \<and> rocks_cfs r' = rocks_cfs r \<and>
     rk_path r' = rk_path r \<and> rk_restored r' = rk_restored r"

lemma on_open:
  assumes "rok r" and "\<And>i :: 'db initialized_rocks_db. dok (ir_db i) \<Longrightarrow> ir_options i = rocks_cfs r \<Longrightarrow> copts (ir_db i) = rocks_cfs r \<Longrightarrow>
      ent (ir_db i) = rent r \<Longrightarrow> \<exists>d. m i = (x, i\<lparr>ir_db := d\<rparr>) \<and> dok d \<and>
      ent d = (rent r)(cf := t) \<and> copts d = rocks_cfs r"
  shows "\<exists>r'. initialized_mut m r = (x, r') \<and> wrote cf t r r'"
proof -
  obtain i where i: "rk_inner r = Initialized i" "dok (ir_db i)" "ir_options i = copts (ir_db i)"
    using assms(1) by (auto simp: rocks_ok_def)
  then have c: "ir_options i = rocks_cfs r" "copts (ir_db i) = rocks_cfs r" "ent (ir_db i) = rent r"
    by (simp_all add: rocks_cfs_def rocks_entries_def)
  obtain d where d: "m i = (x, i\<lparr>ir_db := d\<rparr>)" "dok d" "ent d = (rent r)(cf := t)" "copts d = rocks_cfs r"
    using assms(2) [OF i(2) c] by blast
  let ?r = "r\<lparr>rk_inner := Initialized (i\<lparr>ir_db := d\<rparr>)\<rparr>"
  have "wrote cf t r ?r"
    unfolding wrote_def using d(2-) c(1) by (simp add: rocks_ok_def rocks_entries_def [of _ ?r] rocks_cfs_def [of ?r])
  then show ?thesis by (simp add: initialized_mut_def i(1) d(1))
qed

lemma handle_ok: "dok (ir_db i) \<Longrightarrow> copts (ir_db i) cf \<noteq> None \<Longrightarrow> get_cf_handle D cf i = Ok ()"
  by (simp add: get_cf_handle_def r_handle)

lemma rocks_put_ok:
  assumes "rok r" "rocks_cfs r cf \<noteq> None"
  shows "\<exists>r'. rocks_put D cf k v r = (Ok (), r') \<and> wrote cf ((rent r cf)(k := (Some v, []))) r r'"
  unfolding rocks_put_def
proof (rule on_open [OF assms(1)])
  fix i :: "'db initialized_rocks_db"
  assume i: "dok (ir_db i)" "ir_options i = rocks_cfs r" "copts (ir_db i) = rocks_cfs r" "ent (ir_db i) = rent r"
  show "\<exists>d. rocksdb_put D cf k v i = (Ok (), i\<lparr>ir_db := d\<rparr>) \<and> dok d \<and>
      ent d = (rent r)(cf := (rent r cf)(k := (Some v, []))) \<and> copts d = rocks_cfs r"
    using r_put [OF i(1), of cf k v] i assms(2)
    by (auto simp: rocksdb_put_def bind_s_def handle_ok on_rocks_db_def)
qed

lemma rocks_remove_ok:
  assumes "rok r" "rocks_cfs r cf \<noteq> None"
  shows "\<exists>r'. rocks_remove D cf k r = (Ok (), r') \<and> wrote cf ((rent r cf)(k := no_entry)) r r'"
  unfolding rocks_remove_def
proof (rule on_open [OF assms(1)])
  fix i :: "'db initialized_rocks_db"
  assume i: "dok (ir_db i)" "ir_options i = rocks_cfs r" "copts (ir_db i) = rocks_cfs r" "ent (ir_db i) = rent r"
  show "\<exists>d. rocksdb_remove D cf k i = (Ok (), i\<lparr>ir_db := d\<rparr>) \<and> dok d \<and>
      ent d = (rent r)(cf := (rent r cf)(k := no_entry)) \<and> copts d = rocks_cfs r"
    using r_delete [OF i(1), of cf k] i assms(2)
    by (auto simp: rocksdb_remove_def bind_s_def handle_ok on_rocks_db_def)
qed

lemma merge_rocks_ok:
  assumes "rok r" "rocks_cfs r cf = Some opts" "ro_merge_operator opts \<noteq> None"
    and "\<And>i. m i = merge_rocks D cf k v i"
  shows "\<exists>r'. initialized_mut m r = (Ok (), r') \<and>
    wrote cf ((rent r cf)(k := (fst (rent r cf k), snd (rent r cf k) @ [v]))) r r'"
proof (rule on_open [OF assms(1)])
  fix i :: "'db initialized_rocks_db"
  assume i: "dok (ir_db i)" "ir_options i = rocks_cfs r" "copts (ir_db i) = rocks_cfs r" "ent (ir_db i) = rent r"
  show "\<exists>d. m i = (Ok (), i\<lparr>ir_db := d\<rparr>) \<and> dok d \<and>
      ent d = (rent r)(cf := (rent r cf)(k := (fst (rent r cf k), snd (rent r cf k) @ [v]))) \<and> copts d = rocks_cfs r"
    using r_merge [OF i(1), of cf opts k v] i assms(2,3)
    by (auto simp: assms(4) merge_rocks_def bind_s_def handle_ok on_rocks_db_def)
qed

lemma rocks_get_ok:
  assumes "rok r" "rocks_cfs r cf = Some opts" "entry_value opts (rent r cf k) = Ok x"
    "snd (rent r cf k) = [] \<or> x \<noteq> None"
  shows "rocks_get D cf k r = Ok x"
proof -
  obtain i where i: "rk_inner r = Initialized i" "dok (ir_db i)" "ir_options i = copts (ir_db i)"
    using assms(1) by (auto simp: rocks_ok_def)
  then show ?thesis
    using assms r_get [of "ir_db i" cf opts k x]
    by (simp add: rocks_get_def initialized_def rocksdb_get_def handle_ok rocks_cfs_def rocks_entries_def)
qed

lemma wrote_frame:
  "wrote cf t r r' \<Longrightarrow> (\<And>k. \<not> own k \<Longrightarrow> t k = rent r cf k) \<Longrightarrow> rocks_frame ent cf own r' = rocks_frame ent cf own r"
  by (auto simp: wrote_def rocks_frame_def fun_eq_iff)

end

section \<open>States of one entry\<close>

locale rocks_cell = rocks_store D dok ent copts + metakeys IK eik vik N en vn
  for D :: "('db, 'f) rocks_api" and dok ent copts and IK :: "'ik fixed_bytes" and eik vik and N :: "'n fixed_bytes" and en vn +
  fixes h :: "('ik, 'n, 'x) handle"
  assumes item_key_valid: "vik (h_item_key h)" and namespace_valid: "vn (h_namespace h)"
begin

abbreviation own_key :: bytes where
  "own_key \<equiv> mk (h_item_key h) (h_namespace h)"

abbreviation cell :: "'db rocks \<Rightarrow> entry" where
  "cell r \<equiv> rent r (h_id h) own_key"

definition cell_frame where
  "cell_frame = rocks_frame ent (h_id h) (\<lambda>k. k = own_key)"

text \<open>What a write to the cell leaves behind.\<close>

definition cell_set :: "entry \<Rightarrow> 'db rocks \<Rightarrow> 'db rocks \<Rightarrow> bool" where
  "cell_set e r r' \<longleftrightarrow> rok r' \<and> cell r' = e \<and> rocks_cfs r' = rocks_cfs r \<and> cell_frame r' = cell_frame r"

lemma metakeys_ok [simp]: "serialize_metakeys IK N h = Ok own_key"
  by (rule serialize_metakeys_eq [OF item_key_valid namespace_valid])

lemma wrote_cell: "wrote (h_id h) ((rent r (h_id h))(own_key := e)) r r' \<Longrightarrow> cell_set e r r'"
  using wrote_frame [of "h_id h" "(rent r (h_id h))(own_key := e)" r r' "\<lambda>k. k = own_key"]
  by (simp add: cell_set_def wrote_def cell_frame_def)

lemma cell_put:
  "rok r \<Longrightarrow> rocks_cfs r (h_id h) \<noteq> None \<Longrightarrow>
    \<exists>r'. rocks_put D (h_id h) own_key v r = (Ok (), r') \<and> cell_set (Some v, []) r r'"
  using rocks_put_ok [of r "h_id h" own_key v] wrote_cell by blast

lemma cell_remove:
  "rok r \<Longrightarrow> rocks_cfs r (h_id h) \<noteq> None \<Longrightarrow>
    \<exists>r'. rocks_remove D (h_id h) own_key r = (Ok (), r') \<and> cell_set no_entry r r'"
  using rocks_remove_ok [of r "h_id h" own_key] wrote_cell by blast

lemma cell_merge:
  assumes "rok r" "rocks_cfs r (h_id h) = Some opts" "ro_merge_operator opts \<noteq> None"
    and "\<And>i. m i = merge_rocks D (h_id h) own_key v i"
  shows "\<exists>r'. initialized_mut m r = (Ok (), r') \<and> cell_set (fst (cell r), snd (cell r) @ [v]) r r'"
  using merge_rocks_ok [OF assms] wrote_cell by blast

end

locale rocks_value = rocks_cell D dok ent copts IK eik vik N en vn h
  for D :: "('db, 'f) rocks_api" and dok ent copts and IK :: "'ik fixed_bytes" and eik vik and N :: "'n fixed_bytes" and en vn
    and h :: "('ik, 'n, 'x) handle" +
  fixes V :: "'v message"
  assumes value_law: "message_law V" and value_fits: "messages_fit 0 V"
begin

definition value_inv :: "'db rocks \<Rightarrow> bool" where
  "value_inv r \<longleftrightarrow> rok r \<and> rocks_cfs r (h_id h) \<noteq> None \<and> snd (cell r) = [] \<and> encoded V (fst (cell r))"

lemma refines_value:
  "value_state (rocks_value_ops D IK N V h) value_inv (\<lambda>r. decoded V (fst (cell r))) cell_frame"
proof
  fix r v
  assume r: "value_inv r"
  then have r': "rok r" "rocks_cfs r (h_id h) \<noteq> None" "snd (cell r) = []" "encoded V (fst (cell r))"
    by (simp_all add: value_inv_def)
  obtain opts where "rocks_cfs r (h_id h) = Some opts" using r'(2) by blast
  then have "rocks_get D (h_id h) own_key r = Ok (fst (cell r))"
    using rocks_get_ok [OF r'(1), of "h_id h" opts own_key] r'(3) by (simp add: entry_value_def)
  then have get: "bind_o (rocks_get D (h_id h) own_key r) (old_value V) = Ok (decoded V (fst (cell r)))"
    by (simp add: old_value_encoded [OF value_law r'(4)])
  note ser = protobuf_serialize_fits [OF value_fits]
  show "vo_get (rocks_value_ops D IK N V h) r = Ok (decoded V (fst (cell r)))"
    by (simp add: rocks_value_ops_def rocks_value_get_def get)
  show "\<exists>r'. vo_set (rocks_value_ops D IK N V h) v r = (Ok (decoded V (fst (cell r))), r') \<and> value_inv r' \<and>
      decoded V (fst (cell r')) = Some v \<and> cell_frame r' = cell_frame r"
    using cell_put [OF r'(1,2), of "msg_encode V v"] r'(2)
    by (auto simp: rocks_value_ops_def rocks_value_set_def bind_s_def get ser cell_set_def value_inv_def value_law)
  show "\<exists>r'. vo_fast_set (rocks_value_ops D IK N V h) v r = (Ok (), r') \<and> value_inv r' \<and>
      decoded V (fst (cell r')) = Some v \<and> cell_frame r' = cell_frame r"
    using cell_put [OF r'(1,2), of "msg_encode V v"] r'(2)
    by (auto simp: rocks_value_ops_def rocks_value_fast_set_def bind_s_def ser cell_set_def value_inv_def value_law)
  show "\<exists>r'. vo_clear (rocks_value_ops D IK N V h) r = (Ok (), r') \<and> value_inv r' \<and>
      decoded V (fst (cell r')) = None \<and> cell_frame r' = cell_frame r"
    using cell_remove [OF r'(1,2)] r'(2)
    by (auto simp: rocks_value_ops_def rocks_value_clear_def bind_s_def cell_set_def value_inv_def)
qed

end

text \<open>A reducer cell holds encoded values, stored or still to be merged; its content is their reduction.\<close>

definition reducer_cell_ok :: "'v message \<Rightarrow> entry \<Rightarrow> bool" where
  "reducer_cell_ok V e \<longleftrightarrow> (\<exists>vs. operands (fst e) (snd e) = map (msg_encode V) vs)"

definition reduced :: "('v \<Rightarrow> 'v \<Rightarrow> 'v) \<Rightarrow> 'v list \<Rightarrow> 'v option" where
  "reduced f vs = (case vs of [] \<Rightarrow> None | v # vs \<Rightarrow> Some (foldl f v vs))"

definition reducer_content :: "'v message \<Rightarrow> ('v \<Rightarrow> 'v \<Rightarrow> 'v) \<Rightarrow> entry \<Rightarrow> 'v option" where
  "reducer_content V f e = reduced f (map (\<lambda>bs. the (decoded V (Some bs))) (operands (fst e) (snd e)))"

lemma operands_simps [simp]:
  "operands None ops = ops" "operands (Some b) ops = b # ops" "operands x (xs @ ys) = operands x xs @ ys"
  by (simp_all add: operands_def split: option.split)

lemma reduced_snoc: "reduced f (vs @ [v]) = Some (case reduced f vs of None \<Rightarrow> v | Some old \<Rightarrow> f old v)"
  by (cases vs) (simp_all add: reduced_def)

lemma reducer_content_enc:
  "message_law V \<Longrightarrow> operands (fst e) (snd e) = map (msg_encode V) vs \<Longrightarrow> reducer_content V f e = reduced f vs"
  by (simp add: reducer_content_def o_def)

lemma reduce_slices_enc:
  assumes "message_law V"
  shows "reduce_slices V f acc (map (msg_encode V) vs) = Ok (case acc of None \<Rightarrow> reduced f vs | Some a \<Rightarrow> Some (foldl f a vs))"
proof (induction vs arbitrary: acc)
  case (Cons v vs)
  then show ?case by (cases acc) (simp_all add: protobuf_deserialize_enc assms reduced_def)
qed (simp add: reduced_def split: option.split)

lemma reducer_merge_enc:
  assumes "message_law V" "messages_fit 0 V" "operands b ops = map (msg_encode V) (v # vs)"
  shows "rocks_reducer_merge V f b ops = Ok (Some (msg_encode V (foldl f v vs)))"
  using assms by (simp add: rocks_reducer_merge_def reduce_slices_enc protobuf_deserialize_enc protobuf_serialize_fits)

locale rocks_reducer = rocks_cell D dok ent copts IK eik vik N en vn h
  for D :: "('db, 'f) rocks_api" and dok ent copts and IK :: "'ik fixed_bytes" and eik vik and N :: "'n fixed_bytes" and en vn
    and h :: "('ik, 'n, 'v \<Rightarrow> 'v \<Rightarrow> 'v) handle" +
  fixes V :: "'v message"
  assumes value_law: "message_law V" and value_fits: "messages_fit 0 V"
begin

abbreviation red_opts where
  "red_opts \<equiv> merge_options IK N (rocks_reducer_merge V (h_extra_data h))"

definition reducer_inv :: "'db rocks \<Rightarrow> bool" where
  "reducer_inv r \<longleftrightarrow> rok r \<and> rocks_cfs r (h_id h) = Some red_opts \<and> reducer_cell_ok V (cell r)"

lemma reducer_value:
  assumes "operands (fst e) (snd e) = map (msg_encode V) vs"
  shows "entry_value red_opts e = Ok (map_option (msg_encode V) (reduced (h_extra_data h) vs)) \<and>
    (snd e = [] \<or> reduced (h_extra_data h) vs \<noteq> None)"
proof (cases "snd e = []")
  case True
  then show ?thesis using assms by (cases "fst e") (auto simp: entry_value_def reduced_def)
next
  case False
  then obtain v ws where v: "vs = v # ws" using assms by (cases vs) (auto simp: operands_def split: option.splits)
  then show ?thesis
    using False reducer_merge_enc [OF value_law value_fits, of "fst e" "snd e" v ws] assms
    by (simp add: entry_value_def merge_options_def reduced_def)
qed

lemma refines_reducer:
  "reducer_state (rocks_reducer_ops D IK N V h) (h_extra_data h) reducer_inv
    (\<lambda>r. reducer_content V (h_extra_data h) (cell r)) cell_frame"
proof
  fix r v
  assume r: "reducer_inv r"
  then have r': "rok r" "rocks_cfs r (h_id h) = Some red_opts" by (simp_all add: reducer_inv_def)
  obtain vs where vs: "operands (fst (cell r)) (snd (cell r)) = map (msg_encode V) vs"
    using r by (auto simp: reducer_inv_def reducer_cell_ok_def)
  have "rocks_get D (h_id h) own_key r = Ok (map_option (msg_encode V) (reduced (h_extra_data h) vs))"
    using reducer_value [OF vs] by (intro rocks_get_ok [OF r']) auto
  then show "ro_get (rocks_reducer_ops D IK N V h) r = Ok (reducer_content V (h_extra_data h) (cell r))"
    by (cases "reduced (h_extra_data h) vs")
      (simp_all add: rocks_reducer_ops_def rocks_reducer_get_def reducer_content_enc [OF value_law vs] old_value_def
        protobuf_deserialize_enc value_law)
  have opts: "ro_merge_operator red_opts \<noteq> None" by (simp add: merge_options_def)
  have "\<exists>r'. ro_reduce (rocks_reducer_ops D IK N V h) v r = (Ok (), r') \<and>
      cell_set (fst (cell r), snd (cell r) @ [msg_encode V v]) r r'"
    unfolding rocks_reducer_ops_def reducer_ops.simps rocks_reducer_reduce_def
    by (rule cell_merge [OF r' opts]) (simp add: bind_s_def protobuf_serialize_fits [OF value_fits])
  then obtain r1 where r1: "ro_reduce (rocks_reducer_ops D IK N V h) v r = (Ok (), r1)"
      "cell_set (fst (cell r), snd (cell r) @ [msg_encode V v]) r r1" by blast
  have vs1: "operands (fst (cell r1)) (snd (cell r1)) = map (msg_encode V) (vs @ [v])"
    using r1(2) vs by (simp add: cell_set_def)
  have "reducer_cell_ok V (cell r1)" unfolding reducer_cell_ok_def using vs1 by blast
  then have "reducer_inv r1" "cell_frame r1 = cell_frame r"
    using r1(2) r'(2) by (simp_all add: reducer_inv_def cell_set_def)
  then show "\<exists>r'. ro_reduce (rocks_reducer_ops D IK N V h) v r = (Ok (), r') \<and> reducer_inv r' \<and>
      reducer_content V (h_extra_data h) (cell r') =
        Some (case reducer_content V (h_extra_data h) (cell r) of None \<Rightarrow> v | Some old \<Rightarrow> h_extra_data h old v) \<and>
      cell_frame r' = cell_frame r"
    using r1(1)
    by (intro exI [of _ r1])
      (simp only: reducer_content_enc [OF value_law vs] reducer_content_enc [OF value_law vs1] reduced_snoc)
  have "rocks_cfs r (h_id h) \<noteq> None" by (simp add: r'(2))
  from cell_remove [OF r'(1) this]
  show "\<exists>r'. ro_clear (rocks_reducer_ops D IK N V h) r = (Ok (), r') \<and> reducer_inv r' \<and>
      reducer_content V (h_extra_data h) (cell r') = None \<and> cell_frame r' = cell_frame r"
    by (auto simp: rocks_reducer_ops_def rocks_reducer_clear_def bind_s_def cell_set_def reducer_inv_def r'(2)
        reducer_cell_ok_def reducer_content_def reduced_def)
qed

end

text \<open>An aggregator cell. The accumulator of its operands is what the merge operator computes; the
  stored value, when nothing is to be merged, carries the marker of an accumulator.\<close>

definition operand_acc ::
    "'i message \<Rightarrow> 'acc message \<Rightarrow> ('i, 'acc, 'r) aggregator \<Rightarrow> bytes list \<Rightarrow> 'acc option state_result" where
  "operand_acc INP ACC A ops =
     (case ops of
        [] \<Rightarrow> Ok (Some (create_accumulator A))
      | s # ss \<Rightarrow> bind_o (first_operand INP ACC A s) (\<lambda>x.
          case x of None \<Rightarrow> Ok None | Some a \<Rightarrow> further_operands INP ACC A a ss))"

definition aggregator_content ::
    "'i message \<Rightarrow> 'acc message \<Rightarrow> ('i, 'acc, 'r) aggregator \<Rightarrow> entry \<Rightarrow> 'acc" where
  "aggregator_content INP ACC A e =
     (case operand_acc INP ACC A (operands (fst e) (snd e)) of Ok (Some a) \<Rightarrow> a | _ \<Rightarrow> create_accumulator A)"

definition aggregator_cell_ok ::
    "'i message \<Rightarrow> 'acc message \<Rightarrow> ('i, 'acc, 'r) aggregator \<Rightarrow> entry \<Rightarrow> bool" where
  "aggregator_cell_ok INP ACC A e \<longleftrightarrow> marked_cell ACC (fst e) \<and>
     (\<exists>a. operand_acc INP ACC A (operands (fst e) (snd e)) = Ok (Some a))"

lemma further_operands_append:
  "further_operands INP ACC A a (xs @ ys) =
    bind_o (further_operands INP ACC A a xs) (\<lambda>x. case x of None \<Rightarrow> Ok None | Some a \<Rightarrow> further_operands INP ACC A a ys)"
proof (induction xs arbitrary: a)
  case (Cons bs xs)
  show ?case
  proof (cases bs)
    case (Cons m rest)
    then show ?thesis
      by (cases "protobuf_deserialize ACC rest"; cases "protobuf_deserialize INP rest")
        (auto simp: Cons.IH bind_o_assoc)
  qed simp
qed simp

lemma operand_acc_append:
  assumes "operand_acc INP ACC A xs = Ok (Some a)" "xs \<noteq> []"
  shows "operand_acc INP ACC A (xs @ ys) = further_operands INP ACC A a ys"
  using assms
  by (auto simp: operand_acc_def further_operands_append bind_o_Ok_iff split: list.splits option.splits)

lemma operand_acc_value:
  assumes "message_law INP" "operand_acc INP ACC A xs = Ok (Some a)"
  shows "operand_acc INP ACC A (xs @ [VALUE_MARKER # msg_encode INP v]) = Ok (Some (agg_add A a v))"
proof (cases "xs = []")
  case True
  with assms show ?thesis
    by (simp add: operand_acc_def first_operand_def ACCUMULATOR_MARKER_def VALUE_MARKER_def protobuf_deserialize_enc)
next
  case False
  with assms show ?thesis
    by (simp add: operand_acc_append ACCUMULATOR_MARKER_def VALUE_MARKER_def protobuf_deserialize_enc)
qed

lemma aggregator_merge_acc:
  assumes "messages_fit 1 ACC" "operand_acc INP ACC A (operands b ops) = Ok (Some a)"
  shows "rocks_aggregator_merge INP ACC A b ops = Ok (Some (ACCUMULATOR_MARKER # msg_encode ACC a))"
  using assms
  by (auto simp: rocks_aggregator_merge_def operand_acc_def bind_o_Ok_iff serialize_marked
      split: list.splits option.splits)

lemma aggregator_contentI:
  "operand_acc INP ACC A (operands (fst e) (snd e)) = Ok (Some a) \<Longrightarrow> aggregator_content INP ACC A e = a"
  by (simp add: aggregator_content_def)

locale rocks_aggregator = rocks_cell D dok ent copts IK eik vik N en vn h
  for D :: "('db, 'f) rocks_api" and dok ent copts and IK :: "'ik fixed_bytes" and eik vik and N :: "'n fixed_bytes" and en vn
    and h :: "('ik, 'n, ('i, 'acc, 'r) aggregator) handle" +
  fixes INP :: "'i message" and ACC :: "'acc message"
  assumes input_law: "message_law INP" and input_fits: "messages_fit 1 INP"
    and acc_law: "message_law ACC" and acc_fits: "messages_fit 1 ACC"
begin

abbreviation agg where
  "agg \<equiv> h_extra_data h"

abbreviation agg_opts where
  "agg_opts \<equiv> merge_options IK N (rocks_aggregator_merge INP ACC agg)"

definition aggregator_inv :: "'db rocks \<Rightarrow> bool" where
  "aggregator_inv r \<longleftrightarrow> rok r \<and> rocks_cfs r (h_id h) = Some agg_opts \<and> aggregator_cell_ok INP ACC agg (cell r)"

lemma aggregator_value:
  assumes "marked_cell ACC (fst e)" "operand_acc INP ACC agg (operands (fst e) (snd e)) = Ok (Some a)"
  shows "entry_value agg_opts e = Ok None \<and> e = no_entry \<and> a = create_accumulator agg \<or>
    entry_value agg_opts e = Ok (Some (ACCUMULATOR_MARKER # msg_encode ACC a))"
proof (cases "snd e = []")
  case True
  with assms show ?thesis
    by (cases e; cases "fst e") (auto simp: entry_value_def marked_cell_def operand_acc_def first_operand_def
        protobuf_deserialize_enc acc_law)
next
  case False
  with assms(2) show ?thesis by (simp add: entry_value_def merge_options_def aggregator_merge_acc [OF acc_fits])
qed

lemma refines_aggregator:
  "aggregator_state (rocks_aggregator_ops D IK N INP ACC h) agg aggregator_inv
    (\<lambda>r. aggregator_content INP ACC agg (cell r)) cell_frame"
proof
  fix r v
  assume r: "aggregator_inv r"
  then have r': "rok r" "rocks_cfs r (h_id h) = Some agg_opts" "marked_cell ACC (fst (cell r))"
    by (simp_all add: aggregator_inv_def aggregator_cell_ok_def)
  obtain a where a: "operand_acc INP ACC agg (operands (fst (cell r)) (snd (cell r))) = Ok (Some a)"
    using r by (auto simp: aggregator_inv_def aggregator_cell_ok_def)
  from aggregator_value [OF r'(3) a]
  show "ao_get (rocks_aggregator_ops D IK N INP ACC h) r = accumulator_into_result agg (aggregator_content INP ACC agg (cell r))"
  proof
    assume e: "entry_value agg_opts (cell r) = Ok None \<and> cell r = no_entry \<and> a = create_accumulator agg"
    then have "rocks_get D (h_id h) own_key r = Ok None"
      by (intro rocks_get_ok [OF r'(1,2)]) (simp_all add: entry_value_def)
    then show ?thesis
      using e by (simp add: rocks_aggregator_ops_def rocks_aggregator_get_def aggregator_content_def operand_acc_def)
  next
    assume e: "entry_value agg_opts (cell r) = Ok (Some (ACCUMULATOR_MARKER # msg_encode ACC a))"
    then have "rocks_get D (h_id h) own_key r = Ok (Some (ACCUMULATOR_MARKER # msg_encode ACC a))"
      by (intro rocks_get_ok [OF r'(1,2)]) simp_all
    then show ?thesis
      by (simp add: rocks_aggregator_ops_def rocks_aggregator_get_def aggregator_contentI [OF a] protobuf_deserialize_enc acc_law)
  qed
  have opts: "ro_merge_operator agg_opts \<noteq> None" by (simp add: merge_options_def)
  have "\<exists>r'. ao_aggregate (rocks_aggregator_ops D IK N INP ACC h) v r = (Ok (), r') \<and>
      cell_set (fst (cell r), snd (cell r) @ [VALUE_MARKER # msg_encode INP v]) r r'"
    unfolding rocks_aggregator_ops_def aggregator_ops.simps rocks_aggregator_aggregate_def
    by (rule cell_merge [OF r'(1,2) opts]) (simp add: bind_s_def serialize_marked [OF input_fits])
  then obtain r1 where r1: "ao_aggregate (rocks_aggregator_ops D IK N INP ACC h) v r = (Ok (), r1)"
      "rok r1" "cell r1 = (fst (cell r), snd (cell r) @ [VALUE_MARKER # msg_encode INP v])"
      "rocks_cfs r1 = rocks_cfs r" "cell_frame r1 = cell_frame r" by (auto simp: cell_set_def)
  have a1: "operand_acc INP ACC agg (operands (fst (cell r1)) (snd (cell r1))) = Ok (Some (agg_add agg a v))"
    using operand_acc_value [OF input_law a, of v] by (simp add: r1(3))
  then have "aggregator_inv r1"
    using r'(3) by (simp add: aggregator_inv_def aggregator_cell_ok_def r1(2,3,4) r'(2))
  then show "\<exists>r'. ao_aggregate (rocks_aggregator_ops D IK N INP ACC h) v r = (Ok (), r') \<and> aggregator_inv r' \<and>
      aggregator_content INP ACC agg (cell r') = agg_add agg (aggregator_content INP ACC agg (cell r)) v \<and>
      cell_frame r' = cell_frame r"
    using r1(1,5) aggregator_contentI [OF a] aggregator_contentI [OF a1] by (intro exI [of _ r1]) (simp only:)
  have "rocks_cfs r (h_id h) \<noteq> None" by (simp add: r'(2))
  from cell_remove [OF r'(1) this]
  show "\<exists>r'. ao_clear (rocks_aggregator_ops D IK N INP ACC h) r = (Ok (), r') \<and> aggregator_inv r' \<and>
      aggregator_content INP ACC agg (cell r') = create_accumulator agg \<and> cell_frame r' = cell_frame r"
    by (auto simp: rocks_aggregator_ops_def rocks_aggregator_clear_def bind_s_def cell_set_def aggregator_inv_def r'(2)
        aggregator_cell_ok_def aggregator_content_def operand_acc_def marked_cell_def)
qed

end

section \<open>Vectors\<close>

text \<open>A vector cell holds encoded vectors, stored or still to be merged; its content is their
  concatenation.\<close>

definition rocks_vec_cell_ok :: "'v message \<Rightarrow> entry \<Rightarrow> bool" where
  "rocks_vec_cell_ok V e \<longleftrightarrow> (\<exists>vss. operands (fst e) (snd e) = map (vec_encoding V) vss \<and> vec_fits V (concat vss))"

definition rocks_vec_content :: "'v message \<Rightarrow> entry \<Rightarrow> 'v list" where
  "rocks_vec_content V e = concat (map (\<lambda>bs. vec_of V (Some bs)) (operands (fst e) (snd e)))"

lemma merge_slices_enc:
  "n + length (concat vss) \<le> usize_max \<Longrightarrow> merge_slices (word_of_nat n) res (map (vec_encoding V) vss)
    = Ok (Some (word_of_nat (n + length (concat vss)), res @ vec_bytes V (concat vss)))"
proof (induction vss arbitrary: n res)
  case (Cons vs vss)
  have "n + length vs \<le> usize_max" "length vs \<le> usize_max" using Cons.prems by simp_all
  then show ?case
    using Cons.IH [of "n + length vs" "res @ vec_bytes V vs"] Cons.prems
    by (simp add: vec_encoding_def deserialize_len add_len add.assoc)
qed simp

lemma rocks_vec_merge_enc:
  assumes "operands b ops = map (vec_encoding V) vss" "length (concat vss) \<le> usize_max"
  shows "rocks_vec_merge b ops = Ok (Some (vec_encoding V (concat vss)))"
proof -
  have "fb_serialize_into word_fb (0 :: usize) (vec_target []) = (Ok (), put_slice (enc_len 0) (vec_target []))"
    using serialize_len [of "vec_target []" 0] by (simp add: usize_max_def)
  moreover have "merge_slices 0 (enc_len 0) (operands b ops)
      = Ok (Some (word_of_nat (length (concat vss)), enc_len 0 @ vec_bytes V (concat vss)))"
    using merge_slices_enc [of 0 vss "enc_len 0" V] assms by simp
  ultimately show ?thesis
    by (simp add: rocks_vec_merge_def into_fresh_vec_def overwrite_len vec_encoding_def)
qed

locale rocks_vec = rocks_cell D dok ent copts IK eik vik N en vn h + vec_encodings V
  for D :: "('db, 'f) rocks_api" and dok ent copts and IK :: "'ik fixed_bytes" and eik vik and N :: "'n fixed_bytes" and en vn
    and h :: "('ik, 'n, 'x) handle" and V :: "'v message"
begin

abbreviation vec_opts where
  "vec_opts \<equiv> merge_options IK N rocks_vec_merge"

definition vec_inv :: "'db rocks \<Rightarrow> bool" where
  "vec_inv r \<longleftrightarrow> rok r \<and> rocks_cfs r (h_id h) = Some vec_opts \<and> rocks_vec_cell_ok V (cell r)"

lemma vec_contentI:
  "operands (fst e) (snd e) = map (vec_encoding V) vss \<Longrightarrow> rocks_vec_content V e = concat vss"
  by (simp add: rocks_vec_content_def o_def)

lemma vec_value:
  assumes "operands (fst e) (snd e) = map (vec_encoding V) vss" "vec_fits V (concat vss)"
  shows "e = no_entry \<and> vss = [] \<or> entry_value vec_opts e = Ok (Some (vec_encoding V (concat vss)))"
proof (cases "snd e = []")
  case True
  with assms show ?thesis by (cases e; cases "fst e") (auto simp: entry_value_def)
next
  case False
  then show ?thesis
    using rocks_vec_merge_enc [OF assms(1)] fits_lengths(1) [OF assms(2)]
    by (simp add: entry_value_def merge_options_def)
qed

text \<open>The bytes a read of the cell gives.\<close>

lemma vec_get_cases:
  assumes "vec_inv r"
  obtains "rocks_get D (h_id h) own_key r = Ok None" "rocks_vec_content V (cell r) = []"
    | "rocks_get D (h_id h) own_key r = Ok (Some (vec_encoding V (rocks_vec_content V (cell r))))"
      "vec_fits V (rocks_vec_content V (cell r))"
proof -
  obtain vss where vss: "operands (fst (cell r)) (snd (cell r)) = map (vec_encoding V) vss" "vec_fits V (concat vss)"
    using assms by (auto simp: vec_inv_def rocks_vec_cell_ok_def)
  note get = rocks_get_ok [of r "h_id h" vec_opts own_key]
  from vec_value [OF vss] that vec_contentI [OF vss(1)] vss(2) get assms show ?thesis
    by (auto simp: vec_inv_def entry_value_def)
qed

lemma vec_merged:
  assumes "vec_inv r" "vec_fits V (rocks_vec_content V (cell r) @ vs)"
    and "\<And>i. m i = merge_rocks D (h_id h) own_key (vec_encoding V vs) i"
  shows "\<exists>r'. initialized_mut m r = (Ok (), r') \<and> vec_inv r' \<and>
    rocks_vec_content V (cell r') = rocks_vec_content V (cell r) @ vs \<and> cell_frame r' = cell_frame r"
proof -
  have r: "rok r" "rocks_cfs r (h_id h) = Some vec_opts" using assms(1) by (simp_all add: vec_inv_def)
  obtain vss where vss: "operands (fst (cell r)) (snd (cell r)) = map (vec_encoding V) vss" "vec_fits V (concat vss)"
    using assms(1) by (auto simp: vec_inv_def rocks_vec_cell_ok_def)
  have opts: "ro_merge_operator vec_opts \<noteq> None" by (simp add: merge_options_def)
  obtain r1 where r1: "initialized_mut m r = (Ok (), r1)"
      "cell_set (fst (cell r), snd (cell r) @ [vec_encoding V vs]) r r1"
    using cell_merge [OF r opts assms(3)] by blast
  have vss1: "operands (fst (cell r1)) (snd (cell r1)) = map (vec_encoding V) (vss @ [vs])"
    using r1(2) vss(1) by (simp add: cell_set_def)
  have "vec_fits V (concat (vss @ [vs]))" using assms(2) by (simp add: vec_contentI [OF vss(1)])
  with vss1 have "rocks_vec_cell_ok V (cell r1)" unfolding rocks_vec_cell_ok_def by blast
  moreover have "rok r1" "rocks_cfs r1 (h_id h) = Some vec_opts" "cell_frame r1 = cell_frame r"
    using r1(2) r(2) by (simp_all add: cell_set_def)
  moreover have "rocks_vec_content V (cell r1) = rocks_vec_content V (cell r) @ vs"
    by (simp add: vec_contentI [OF vss(1)] vec_contentI [OF vss1])
  ultimately show ?thesis
    using r1(1) by (intro exI [of _ r1]) (simp only: vec_inv_def simp_thms)
qed

lemma refines_vec:
  "bounded_vec_state (rocks_vec_ops D IK N V h) (vec_fits V) vec_inv (\<lambda>r. rocks_vec_content V (cell r)) cell_frame"
proof
  fix r v vs
  assume r: "vec_inv r"
  then have r': "rok r" "rocks_cfs r (h_id h) = Some vec_opts" by (simp_all add: vec_inv_def)
  then have cf: "rocks_cfs r (h_id h) \<noteq> None" by simp
  note reads = read_messages_vec [OF value_law value_nonempty order_refl]
  show "ve_get (rocks_vec_ops D IK N V h) r = Ok (rocks_vec_content V (cell r))"
    using r by (cases rule: vec_get_cases) (auto simp: rocks_vec_ops_def rocks_vec_get_def vec_encoding_def
        deserialize_len fits_lengths reads unat_len)
  show "ve_iter (rocks_vec_ops D IK N V h) r = Ok (map Ok (rocks_vec_content V (cell r)))"
    using r by (cases rule: vec_get_cases) (auto simp: rocks_vec_ops_def rocks_vec_iter_def vec_encoding_def
        deserialize_len fits_lengths reads)
  have len: "rocks_vec_len D IK N h r = Ok (length (rocks_vec_content V (cell r)))"
    using r by (cases rule: vec_get_cases) (auto simp: rocks_vec_len_def vec_encoding_def
        deserialize_len fits_lengths unat_len simp flip: length_0_conv)
  then show "ve_len (rocks_vec_ops D IK N V h) r = Ok (length (rocks_vec_content V (cell r)))"
    by (simp add: rocks_vec_ops_def)
  show "ve_is_empty (rocks_vec_ops D IK N V h) r = Ok (rocks_vec_content V (cell r) = [])"
    using len by (simp add: rocks_vec_ops_def rocks_vec_is_empty_def)
  show "\<exists>r'. ve_append (rocks_vec_ops D IK N V h) v r = (Ok (), r') \<and> vec_inv r' \<and>
      rocks_vec_content V (cell r') = rocks_vec_content V (cell r) @ [v] \<and> cell_frame r' = cell_frame r"
    if "vec_fits V (rocks_vec_content V (cell r) @ [v])"
    unfolding rocks_vec_ops_def vec_ops.simps rocks_vec_append_def
    using append_operand [OF fits_part [OF that]] fits_part [OF that]
    by (intro vec_merged [OF r that]) (simp add: bind_s_def with_capacity_def size_hint_def vec_fits_def [of V "[v]"])
  show "\<exists>r'. ve_add_all (rocks_vec_ops D IK N V h) vs r = (Ok (), r') \<and> vec_inv r' \<and>
      rocks_vec_content V (cell r') = rocks_vec_content V (cell r) @ vs \<and> cell_frame r' = cell_frame r"
    if "vec_fits V (rocks_vec_content V (cell r) @ vs)"
    unfolding rocks_vec_ops_def vec_ops.simps rocks_vec_add_all_def
    using add_all_operand [OF fits_part [OF that]] by (intro vec_merged [OF r that]) simp
  show "\<exists>r'. ve_set (rocks_vec_ops D IK N V h) vs r = (Ok (), r') \<and> vec_inv r' \<and>
      rocks_vec_content V (cell r') = vs \<and> cell_frame r' = cell_frame r"
    if "vec_fits V vs"
  proof -
    have "rocks_vec_cell_ok V (Some (vec_encoding V vs), [])" "rocks_vec_content V (Some (vec_encoding V vs), []) = vs"
      using that by (auto simp: rocks_vec_cell_ok_def rocks_vec_content_def intro: exI [of _ "[vs]"])
    then show ?thesis
      using cell_put [OF r'(1) cf, of "vec_encoding V vs"] set_operand [OF that] that r'(2)
      by (auto simp: rocks_vec_ops_def rocks_vec_set_def with_capacity_def size_hints vec_fits_def [of V vs] bind_s_def
          vec_inv_def cell_set_def)
  qed
  show "\<exists>r'. ve_clear (rocks_vec_ops D IK N V h) r = (Ok (), r') \<and> vec_inv r' \<and>
      rocks_vec_content V (cell r') = [] \<and> cell_frame r' = cell_frame r"
    using cell_remove [OF r'(1) cf] r'(2)
    by (auto simp: rocks_vec_ops_def rocks_vec_clear_def bind_s_def vec_inv_def cell_set_def rocks_vec_cell_ok_def
        rocks_vec_content_def vec_fits_def usize_max_def)
qed

end

section \<open>Maps\<close>

lemma fold_puts:
  "fold apply_write (map (\<lambda>kv. WPut cf (f (fst kv)) (g (snd kv))) kvs) E =
    E(cf := (\<lambda>k. case map_of (rev (map (\<lambda>kv. (f (fst kv), g (snd kv))) kvs)) k of None \<Rightarrow> E cf k | Some v \<Rightarrow> (Some v, [])))"
proof (induction kvs arbitrary: E)
  case (Cons kv kvs)
  show ?case unfolding list.map fold_simps Cons.IH by (auto simp: fun_eq_iff map_add_def split: option.split)
qed simp

definition map_entry_ok :: "bytes \<Rightarrow> 'k message \<Rightarrow> 'v message \<Rightarrow> bytes \<Rightarrow> entry \<Rightarrow> bool" where
  "map_entry_ok pre K V k e \<longleftrightarrow>
     snd e = [] \<and> (\<forall>bs. fst e = Some bs \<longrightarrow> (\<exists>uk v. k = pre @ msg_encode K uk \<and> bs = msg_encode V v))"

locale rocks_map = rocks_cell D dok ent copts IK eik vik N en vn h
  for D :: "('db, 'f) rocks_api" and dok ent copts and IK :: "'ik fixed_bytes" and eik vik and N :: "'n fixed_bytes" and en vn
    and h :: "('ik, 'n, 'x) handle" +
  fixes K :: "'k message" and V :: "'v message"
  assumes key_law: "message_law K" and value_law: "message_law V" and value_fits: "messages_fit 0 V"
    and not_default: "h_id h \<noteq> ''default''"
    and last_byte: "mk (h_item_key h) (h_namespace h) = [] \<or> last (mk (h_item_key h) (h_namespace h)) \<noteq> - 1"
begin

definition stored_key :: "'k \<Rightarrow> bytes" where
  "stored_key k = own_key @ msg_encode K k"

abbreviation entry_ok :: "bytes \<Rightarrow> entry \<Rightarrow> bool" where
  "entry_ok \<equiv> map_entry_ok own_key K V"

definition map_entries :: "'db rocks \<Rightarrow> 'k \<rightharpoonup> 'v" where
  "map_entries r = (\<lambda>k. decoded V (fst (rent r (h_id h) (stored_key k))))"

definition map_inv :: "'db rocks \<Rightarrow> bool" where
  "map_inv r \<longleftrightarrow> rok r \<and> rocks_cfs r (h_id h) = Some (common_options IK N) \<and>
     (\<forall>k. has_prefix own_key k \<longrightarrow> entry_ok k (rent r (h_id h) k))"

definition map_frame where
  "map_frame = rocks_frame ent (h_id h) (has_prefix own_key)"

lemma stored_key_inj: "inj stored_key"
  by (rule injI) (simp add: stored_key_def message_inj [OF key_law])

lemma own_prefix_stored [simp]: "has_prefix own_key (stored_key k)"
  by (simp add: stored_key_def)

lemma map_key_ok [simp]: "key_fits K k \<Longrightarrow> serialize_metakeys_and_key IK N K h k = Ok (stored_key k)"
  by (simp add: serialize_metakeys_and_key_eq item_key_valid namespace_valid stored_key_def)

lemma decode_stored_key [simp]: "decode_user_key IK N K (stored_key k) = Ok k"
  using item_key_valid namespace_valid key_law
  by (simp add: decode_user_key_def stored_key_def mk_def bind_s_def ik.from_enc n.from_enc protobuf_deserialize_from_def)

lemma map_invD:
  assumes "map_inv r"
  shows "rok r" "rocks_cfs r (h_id h) = Some (common_options IK N)" "rocks_cfs r (h_id h) \<noteq> None"
    "has_prefix own_key k \<Longrightarrow> entry_ok k (rent r (h_id h) k)"
  using assms by (simp_all add: map_inv_def)

lemma new_entry_ok [simp]: "entry_ok (stored_key k) (Some (msg_encode V v), [])" "entry_ok bs no_entry"
  by (auto simp: map_entry_ok_def stored_key_def)

lemma map_wrote:
  assumes "map_inv r" "wrote (h_id h) t r r'" "\<And>k. has_prefix own_key k \<Longrightarrow> entry_ok k (t k)"
    and "\<And>k. \<not> has_prefix own_key k \<Longrightarrow> t k = rent r (h_id h) k"
  shows "map_inv r' \<and> map_entries r' = (\<lambda>k. decoded V (fst (t (stored_key k)))) \<and> map_frame r' = map_frame r"
  using assms(1-3) wrote_frame [OF assms(2), of "has_prefix own_key"] assms(4)
  by (simp add: map_inv_def map_entries_def map_frame_def wrote_def)

lemma put_entry:
  assumes "map_inv r"
  shows "\<exists>r'. rocks_put D (h_id h) (stored_key k) (msg_encode V v) r = (Ok (), r') \<and> map_inv r' \<and>
    map_entries r' = (map_entries r)(k \<mapsto> v) \<and> map_frame r' = map_frame r"
proof -
  obtain r' where r': "rocks_put D (h_id h) (stored_key k) (msg_encode V v) r = (Ok (), r')"
      "wrote (h_id h) ((rent r (h_id h))(stored_key k := (Some (msg_encode V v), []))) r r'"
    using rocks_put_ok [OF map_invD(1,3) [OF assms]] by blast
  have "map_inv r' \<and> map_entries r' =
      (\<lambda>k'. decoded V (fst (((rent r (h_id h))(stored_key k := (Some (msg_encode V v), []))) (stored_key k')))) \<and>
      map_frame r' = map_frame r"
    by (rule map_wrote [OF assms r'(2)]) (auto simp: map_invD(4) [OF assms])
  then show ?thesis using r'(1) by (auto simp: map_entries_def fun_eq_iff inj_eq [OF stored_key_inj] value_law)
qed

lemma remove_entry:
  assumes "map_inv r"
  shows "\<exists>r'. rocks_remove D (h_id h) (stored_key k) r = (Ok (), r') \<and> map_inv r' \<and>
    map_entries r' = (map_entries r)(k := None) \<and> map_frame r' = map_frame r"
proof -
  obtain r' where r': "rocks_remove D (h_id h) (stored_key k) r = (Ok (), r')"
      "wrote (h_id h) ((rent r (h_id h))(stored_key k := no_entry)) r r'"
    using rocks_remove_ok [OF map_invD(1,3) [OF assms]] by blast
  have "map_inv r' \<and> map_entries r' =
      (\<lambda>k'. decoded V (fst (((rent r (h_id h))(stored_key k := no_entry)) (stored_key k')))) \<and> map_frame r' = map_frame r"
    by (rule map_wrote [OF assms r'(2)]) (auto simp: map_invD(4) [OF assms])
  then show ?thesis using r'(1) by (auto simp: map_entries_def fun_eq_iff inj_eq [OF stored_key_inj])
qed

text \<open>Both ways of clearing a map remove exactly the entries under its prefix.\<close>

lemma remove_prefix_ok:
  assumes "map_inv r"
  shows "\<exists>r'. rocks_remove_prefix D (h_id h) own_key r = (Ok (), r') \<and>
    wrote (h_id h) (\<lambda>k. if has_prefix own_key k then no_entry else rent r (h_id h) k) r r'"
  unfolding rocks_remove_prefix_def
proof (rule on_open [OF map_invD(1) [OF assms]])
  fix i :: "'db initialized_rocks_db"
  assume i: "dok (ir_db i)" "ir_options i = rocks_cfs r" "copts (ir_db i) = rocks_cfs r" "ent (ir_db i) = rent r"
  let ?o = "common_options IK N"
  let ?t = "\<lambda>k. if has_prefix own_key k then no_entry else rent r (h_id h) k"
  have cf: "copts (ir_db i) (h_id h) = Some ?o" by (simp add: i(3) map_invD(2) [OF assms])
  show "\<exists>d. rocksdb_remove_prefix D (h_id h) own_key i = (Ok (), i\<lparr>ir_db := d\<rparr>) \<and> dok d \<and>
      ent d = (rent r)(h_id h := ?t) \<and> copts d = rocks_cfs r"
  proof (cases "own_key = []")
    case True
    obtain d1 where d1: "rk_drop_cf D (h_id h) (ir_db i) = (Ok (), d1)" "dok d1"
        "ent d1 = (rent r)(h_id h := (\<lambda>_. no_entry))" "copts d1 = (rocks_cfs r)(h_id h := None)"
      using r_drop [OF i(1) _ not_default] cf i(3,4) by auto
    obtain d2 where d2: "rk_create_cf D (h_id h) ?o d1 = (Ok (), d2)" "dok d2"
        "ent d2 = (ent d1)(h_id h := (\<lambda>_. no_entry))" "copts d2 = (copts d1)(h_id h \<mapsto> ?o)"
      using r_create [OF d1(2), of "h_id h" ?o] d1(4) by auto
    have "copts d2 = rocks_cfs r" using d2(4) d1(4) map_invD(2) [OF assms] by (simp add: fun_upd_idem)
    moreover have "rocksdb_remove_prefix D (h_id h) own_key i = (Ok (), i\<lparr>ir_db := d2\<rparr>)"
      using True d1(1) d2(1) map_invD(2) [OF assms]
      by (simp add: rocksdb_remove_prefix_def bind_s_def ok_or_def i(2) on_rocks_db_def)
    ultimately show ?thesis using d2(2,3) d1(3) True by auto
  next
    case False
    then have last: "last own_key \<noteq> - 1" using last_byte by blast
    let ?w = "WDeleteRange (h_id h) own_key (butlast own_key @ [last own_key + 1])"
    obtain d where d: "rk_write D [?w] (ir_db i) = (Ok (), d)" "dok d" "ent d = fold apply_write [?w] (ent (ir_db i))"
        "copts d = copts (ir_db i)"
      using r_write [OF i(1), of "[?w]"] cf by auto
    have "fold apply_write [?w] (ent (ir_db i)) = (rent r)(h_id h := ?t)"
      by (simp add: i(4) in_range_prefix [OF False last])
    then show ?thesis
      using d False i(3) cf
      by (auto simp: rocksdb_remove_prefix_def bind_s_def handle_ok i(1) range_end_ok [OF False last] on_rocks_db_def)
  qed
qed

lemma clear_ok:
  assumes "map_inv r"
  shows "\<exists>r'. rocks_map_clear D IK N h r = (Ok (), r') \<and> map_inv r' \<and> map_entries r' = Map.empty \<and>
    map_frame r' = map_frame r"
proof -
  obtain r' where r': "rocks_remove_prefix D (h_id h) own_key r = (Ok (), r')"
      "wrote (h_id h) (\<lambda>k. if has_prefix own_key k then no_entry else rent r (h_id h) k) r r'"
    using remove_prefix_ok [OF assms] by blast
  have "map_inv r' \<and> map_entries r' =
      (\<lambda>k. decoded V (fst (if has_prefix own_key (stored_key k) then no_entry else rent r (h_id h) (stored_key k)))) \<and>
      map_frame r' = map_frame r"
    by (rule map_wrote [OF assms r'(2)]) simp_all
  then show ?thesis using r'(1) by (simp add: rocks_map_clear_def bind_s_def)
qed

lemma put_batch_ok:
  "list_all (\<lambda>p. key_fits K (fst p)) kvs \<Longrightarrow>
    put_batch IK N K V h kvs = Ok (map (\<lambda>kv. WPut (h_id h) (stored_key (fst kv)) (msg_encode V (snd kv))) kvs)"
  by (induction kvs) (auto simp: protobuf_serialize_fits [OF value_fits])

lemma insert_all_ok:
  assumes "map_inv r" "list_all (\<lambda>p. key_fits K (fst p)) kvs"
  shows "\<exists>r'. rocks_map_insert_all D IK N K V h kvs r = (Ok (), r') \<and> map_inv r' \<and>
    map_entries r' = map_entries r ++ map_of (rev kvs) \<and> map_frame r' = map_frame r"
proof -
  let ?ws = "map (\<lambda>kv. WPut (h_id h) (stored_key (fst kv)) (msg_encode V (snd kv))) kvs"
  let ?new = "map_of (rev (map (\<lambda>kv. (stored_key (fst kv), msg_encode V (snd kv))) kvs))"
  let ?t = "\<lambda>k. case ?new k of None \<Rightarrow> rent r (h_id h) k | Some v \<Rightarrow> (Some v, [])"
  have "\<exists>r'. rocks_map_insert_all D IK N K V h kvs r = (Ok (), r') \<and> wrote (h_id h) ?t r r'"
    unfolding rocks_map_insert_all_def
  proof (rule on_open [OF map_invD(1) [OF assms(1)]])
    fix i :: "'db initialized_rocks_db"
    assume i: "dok (ir_db i)" "ir_options i = rocks_cfs r" "copts (ir_db i) = rocks_cfs r" "ent (ir_db i) = rent r"
    have cf: "copts (ir_db i) (h_id h) \<noteq> None" using i(3) map_invD(3) [OF assms(1)] by simp
    obtain d where d: "rk_write D ?ws (ir_db i) = (Ok (), d)" "dok d" "ent d = fold apply_write ?ws (ent (ir_db i))"
        "copts d = copts (ir_db i)"
      using r_write [OF i(1), of ?ws] cf by (auto simp: list_all_iff)
    then show "\<exists>d. bind_s (query (get_cf_handle D (h_id h))) (\<lambda>_. bind_s (query (\<lambda>_. put_batch IK N K V h kvs))
        (\<lambda>wb. on_rocks_db (rk_write D wb))) i = (Ok (), i\<lparr>ir_db := d\<rparr>) \<and> dok d \<and> ent d = (rent r)(h_id h := ?t) \<and>
        copts d = rocks_cfs r"
      by (intro exI [of _ d]) (simp add: bind_s_def handle_ok [OF i(1) cf] put_batch_ok [OF assms(2)] on_rocks_db_def fold_puts i(3,4))
  qed
  then obtain r' where r': "rocks_map_insert_all D IK N K V h kvs r = (Ok (), r')" "wrote (h_id h) ?t r r'" by blast
  have new: "\<exists>uk v. k = stored_key uk \<and> bs = msg_encode V v" if "?new k = Some bs" for k bs
    using map_of_SomeD [OF that] by auto
  have "map_inv r' \<and> map_entries r' = (\<lambda>k. decoded V (fst (?t (stored_key k)))) \<and> map_frame r' = map_frame r"
    by (rule map_wrote [OF assms(1) r'(2)]) (auto simp: map_invD(4) [OF assms(1)] split: option.split dest: new)
  moreover have "(\<lambda>k. decoded V (fst (?t (stored_key k)))) = map_entries r ++ map_of (rev kvs)"
  proof
    fix k
    show "decoded V (fst (?t (stored_key k))) = (map_entries r ++ map_of (rev kvs)) k"
      using map_of_map_entries [OF stored_key_inj, of "msg_encode V" "rev kvs" k]
      by (simp add: map_add_def rev_map map_entries_def value_law split: option.split)
  qed
  ultimately show ?thesis using r'(1) by simp
qed

text \<open>A walk over the map yields its entries.\<close>

lemma scan_entries:
  assumes "map_inv r"
  obtains kvs where "rocks_scan D IK N h r = Ok (map (\<lambda>kv. (stored_key (fst kv), msg_encode V (snd kv))) kvs)"
    "distinct (map fst kvs)" "map_of kvs = map_entries r"
proof -
  let ?f = "\<lambda>kv. (stored_key (fst kv), msg_encode V (snd kv))"
  obtain i where i: "rk_inner r = Initialized i" "dok (ir_db i)" "ir_options i = copts (ir_db i)"
    using map_invD(1) [OF assms] by (auto simp: rocks_ok_def)
  then have c: "copts (ir_db i) (h_id h) = Some (common_options IK N)" "ent (ir_db i) = rent r"
    using map_invD(2) [OF assms] by (simp_all add: rocks_cfs_def rocks_entries_def)
  have "ro_prefix_extractor (common_options IK N) = Some (length own_key)"
    by (simp add: common_options_def mk_length [OF item_key_valid namespace_valid])
  moreover have "snd (rent r (h_id h) k) = []" if "has_prefix own_key k" for k
    using map_invD(4) [OF assms that] by (simp add: map_entry_ok_def)
  ultimately obtain raw where raw: "rk_prefix_iterator_cf D (h_id h) own_key (ir_db i) = Ok raw" "distinct (map fst raw)"
      "map_of raw = (\<lambda>k. if has_prefix own_key k then fst (rent r (h_id h) k) else None)"
    using r_iter [OF i(2) c(1), of own_key, unfolded c(2)] by blast
  have "\<exists>kv. p = ?f kv" if p: "p \<in> set raw" for p
  proof -
    have "map_of raw (fst p) = Some (snd p)" using p raw(2) by (simp add: map_of_eq_Some_iff)
    then have "has_prefix own_key (fst p)" "fst (rent r (h_id h) (fst p)) = Some (snd p)"
      by (auto simp: raw(3) split: if_splits)
    then show ?thesis
      using map_invD(4) [OF assms, of "fst p"] by (cases p) (auto simp: map_entry_ok_def stored_key_def)
  qed
  then have "\<exists>kvs. raw = map ?f kvs" by (simp only: ex_map_conv) blast
  then obtain kvs where kvs: "raw = map ?f kvs" ..
  show ?thesis
  proof
    have "get_cf_handle D (h_id h) i = Ok ()" using i(2) c(1) by (simp add: handle_ok)
    then show "rocks_scan D IK N h r = Ok (map ?f kvs)"
      by (simp add: rocks_scan_def initialized_def i(1) raw(1) kvs)
    show "distinct (map fst kvs)" using raw(2) by (simp add: kvs distinct_map comp_inj_on_iff o_def inj_on_def)
    show "map_of kvs = map_entries r"
    proof
      fix k
      have "fst (rent r (h_id h) (stored_key k)) = map_option (msg_encode V) (map_of kvs k)"
        using map_of_map_entries [OF stored_key_inj, of "msg_encode V" kvs k] raw(3)
        by (simp add: kvs del: map_of_map)
      then show "map_of kvs k = map_entries r k"
        by (cases "map_of kvs k") (simp_all add: map_entries_def value_law)
    qed
  qed
qed

lemma walks_ok:
  assumes "map_inv r"
  obtains kvs where "distinct (map fst kvs)" "map_of kvs = map_entries r"
    "rocks_map_iter D IK N K V h r = Ok (map Ok kvs)" "rocks_map_keys D IK N K h r = Ok (map Ok (map fst kvs))"
    "rocks_map_values D IK N V h r = Ok (map Ok (map snd kvs))" "rocks_map_len D IK N h r = Ok (length kvs)"
    "rocks_map_is_empty D IK N h r = Ok (kvs = [])"
proof -
  obtain kvs where kvs: "rocks_scan D IK N h r = Ok (map (\<lambda>kv. (stored_key (fst kv), msg_encode V (snd kv))) kvs)"
      "distinct (map fst kvs)" "map_of kvs = map_entries r"
    using assms by (rule scan_entries)
  show ?thesis
    by (rule that [OF kvs(2,3)])
      (simp_all add: rocks_map_iter_def rocks_map_keys_def rocks_map_values_def rocks_map_len_def rocks_map_is_empty_def
        kvs(1) protobuf_deserialize_enc value_law o_def)
qed

lemma get_entry:
  assumes "map_inv r"
  shows "rocks_get D (h_id h) (stored_key k) r = Ok (fst (rent r (h_id h) (stored_key k)))"
    "rocks_contains D (h_id h) (stored_key k) r = Ok (map_entries r k \<noteq> None)"
    "old_value V (fst (rent r (h_id h) (stored_key k))) = Ok (map_entries r k)"
proof -
  have e: "snd (rent r (h_id h) (stored_key k)) = []" "encoded V (fst (rent r (h_id h) (stored_key k)))"
    using map_invD(4) [OF assms, of "stored_key k"] by (auto simp: map_entry_ok_def encoded_def)
  have get: "rocks_get D (h_id h) (stored_key k) r = Ok (fst (rent r (h_id h) (stored_key k)))"
    by (rule rocks_get_ok [OF map_invD(1,2) [OF assms]]) (simp_all add: entry_value_def e)
  then show "rocks_get D (h_id h) (stored_key k) r = Ok (fst (rent r (h_id h) (stored_key k)))" .
  show "old_value V (fst (rent r (h_id h) (stored_key k))) = Ok (map_entries r k)"
    by (simp add: old_value_encoded [OF value_law e(2)] map_entries_def)
  have "rocks_contains D (h_id h) (stored_key k) r = bind_o (rocks_get D (h_id h) (stored_key k) r) (\<lambda>x. Ok (x \<noteq> None))"
    by (simp add: rocks_contains_def rocks_get_def rocksdb_contains_def [abs_def] rocksdb_get_def [abs_def] bind_o_assoc)
  then show "rocks_contains D (h_id h) (stored_key k) r = Ok (map_entries r k \<noteq> None)"
    using e(2) by (auto simp: get map_entries_def value_law elim!: encoded_cases)
qed

lemma refines_map: "map_state (rocks_map_ops D IK N K V h) map_inv (key_fits K) map_entries map_frame"
proof
  fix r
  assume r: "map_inv r"
  obtain kvs where kvs: "distinct (map fst kvs)" "map_of kvs = map_entries r"
    "rocks_map_iter D IK N K V h r = Ok (map Ok kvs)" "rocks_map_keys D IK N K h r = Ok (map Ok (map fst kvs))"
    "rocks_map_values D IK N V h r = Ok (map Ok (map snd kvs))" "rocks_map_len D IK N h r = Ok (length kvs)"
    "rocks_map_is_empty D IK N h r = Ok (kvs = [])"
    using r by (rule walks_ok)
  have dom: "dom (map_entries r) = set (map fst kvs)" "ran (map_entries r) = set (map snd kvs)"
    using kvs(1) by (simp_all add: kvs(2) [symmetric] dom_map_of_conv_image_fst ran_distinct)
  have card: "card (dom (map_entries r)) = length kvs"
    unfolding dom(1) using distinct_card [OF kvs(1)] by simp
  show "\<exists>kvs. mo_iter (rocks_map_ops D IK N K V h) r = Ok (map Ok kvs) \<and> distinct (map fst kvs) \<and> map_of kvs = map_entries r"
    using kvs by (auto simp: rocks_map_ops_def)
  show "\<exists>ks. mo_keys (rocks_map_ops D IK N K V h) r = Ok (map Ok ks) \<and> distinct ks \<and> set ks = dom (map_entries r)"
    using kvs dom by (intro exI [of _ "map fst kvs"]) (simp add: rocks_map_ops_def)
  show "\<exists>vs. mo_values (rocks_map_ops D IK N K V h) r = Ok (map Ok vs) \<and> length vs = card (dom (map_entries r)) \<and>
      set vs = ran (map_entries r)"
    using kvs dom card by (intro exI [of _ "map snd kvs"]) (simp add: rocks_map_ops_def)
  show "finite (dom (map_entries r)) \<and> mo_len (rocks_map_ops D IK N K V h) r = Ok (card (dom (map_entries r)))"
    using kvs(6) card by (simp add: rocks_map_ops_def dom(1))
  show "mo_is_empty (rocks_map_ops D IK N K V h) r = Ok (map_entries r = Map.empty)"
    using kvs(7) by (simp add: rocks_map_ops_def kvs(2) [symmetric])
  show "\<exists>r'. mo_clear (rocks_map_ops D IK N K V h) r = (Ok (), r') \<and> map_inv r' \<and> map_entries r' = Map.empty \<and>
      map_frame r' = map_frame r"
    using clear_ok [OF r] by (simp add: rocks_map_ops_def)
  show "\<exists>r'. mo_insert_all (rocks_map_ops D IK N K V h) kvs r = (Ok (), r') \<and> map_inv r' \<and>
      map_entries r' = map_entries r ++ map_of (rev kvs) \<and> map_frame r' = map_frame r"
    if "list_all (\<lambda>p. key_fits K (fst p)) kvs" for kvs
    using insert_all_ok [OF r that] by (simp add: rocks_map_ops_def)
  fix k v
  assume k: "key_fits K k"
  note ser = protobuf_serialize_fits [OF value_fits] map_key_ok [OF k] get_entry [OF r]
  show "mo_get (rocks_map_ops D IK N K V h) k r = Ok (map_entries r k)"
    by (simp add: rocks_map_ops_def rocks_map_get_def ser)
  show "mo_contains (rocks_map_ops D IK N K V h) k r = Ok (map_entries r k \<noteq> None)"
    by (simp add: rocks_map_ops_def rocks_map_contains_def ser)
  show "\<exists>r'. mo_insert (rocks_map_ops D IK N K V h) k v r = (Ok (map_entries r k), r') \<and> map_inv r' \<and>
      map_entries r' = (map_entries r)(k \<mapsto> v) \<and> map_frame r' = map_frame r"
    using put_entry [OF r, of k v] by (auto simp: rocks_map_ops_def rocks_map_insert_def bind_s_def ser)
  show "\<exists>r'. mo_fast_insert (rocks_map_ops D IK N K V h) k v r = (Ok (), r') \<and> map_inv r' \<and>
      map_entries r' = (map_entries r)(k \<mapsto> v) \<and> map_frame r' = map_frame r"
    using put_entry [OF r, of k v] by (auto simp: rocks_map_ops_def rocks_map_fast_insert_def bind_s_def ser)
  show "\<exists>r'. mo_remove (rocks_map_ops D IK N K V h) k r = (Ok (map_entries r k), r') \<and> map_inv r' \<and>
      map_entries r' = (map_entries r)(k := None) \<and> map_frame r' = map_frame r"
    using remove_entry [OF r, of k] by (auto simp: rocks_map_ops_def rocks_map_remove_def bind_s_def ser)
  show "\<exists>r'. mo_fast_remove (rocks_map_ops D IK N K V h) k r = (Ok (), r') \<and> map_inv r' \<and>
      map_entries r' = (map_entries r)(k := None) \<and> map_frame r' = map_frame r"
    using remove_entry [OF r, of k] by (auto simp: rocks_map_ops_def rocks_map_fast_remove_def bind_s_def ser)
qed

end

section \<open>Background merges\<close>

text \<open>An operator that looks at all its operands alike, and whose result stands for the operands it was
  computed from, can be applied to any of them at any time.\<close>

lemma compacted_operands:
  assumes "\<And>b ys. m b ys = g (operands b ys)"
    and step: "\<And>xs ys zs v. Q (xs @ ys @ zs) \<Longrightarrow> ys \<noteq> [] \<Longrightarrow> g ys = Ok (Some v) \<Longrightarrow>
      Q (xs @ v # zs) \<and> c (xs @ v # zs) = c (xs @ ys @ zs)"
  shows "compacted m e e' \<Longrightarrow> Q (operands (fst e) (snd e)) \<Longrightarrow>
    Q (operands (fst e') (snd e')) \<and> c (operands (fst e') (snd e')) = c (operands (fst e) (snd e))"
proof (induction rule: compacted.induct)
  case (full e b ys zs v)
  have "operands b ys \<noteq> []" using full.hyps(2) by (cases b) simp_all
  then show ?case
    using full step [of "[]" "operands b ys" zs v] assms(1) by simp
next
  case (partial e b xs ys zs v)
  then show ?case
    using step [of "operands b xs" ys zs v] assms(1) [of None ys] by simp
qed simp

lemma map_eq_append_parts:
  assumes "xs @ ys @ zs = map f vs"
  obtains us ws ts where "vs = us @ ws @ ts" "xs = map f us" "ys = map f ws" "zs = map f ts"
  using assms by (auto simp: append_eq_map_conv)

lemma vec_compacted:
  assumes V: "message_law V" "never_empty V" and "compacted rocks_vec_merge e e'" "rocks_vec_cell_ok V e"
  shows "rocks_vec_cell_ok V e' \<and> rocks_vec_content V e' = rocks_vec_content V e"
  unfolding rocks_vec_cell_ok_def rocks_vec_content_def
proof (rule compacted_operands [OF _ _ assms(3)])
  show "rocks_vec_merge b ys = rocks_vec_merge None (operands b ys)" for b ys by (simp add: rocks_vec_merge_def)
  show "\<exists>vss. operands (fst e) (snd e) = map (vec_encoding V) vss \<and> vec_fits V (concat vss)"
    using assms(4) by (simp add: rocks_vec_cell_ok_def)
  fix xs ys zs v
  assume a: "\<exists>vss. xs @ ys @ zs = map (vec_encoding V) vss \<and> vec_fits V (concat vss)" "ys \<noteq> []"
    "rocks_vec_merge None ys = Ok (Some v)"
  then obtain us ws ts where p: "xs = map (vec_encoding V) us" "ys = map (vec_encoding V) ws"
      "zs = map (vec_encoding V) ts" "vec_fits V (concat (us @ ws @ ts))"
    by (blast elim: map_eq_append_parts)
  have "length (concat ws) \<le> usize_max"
    using p(4) length_vec_bytes [OF V(2), of "concat (us @ ws @ ts)"] by (simp add: vec_fits_def)
  with a(3) have v: "v = vec_encoding V (concat ws)" using rocks_vec_merge_enc [of None ys V ws] p(2) by simp
  have "xs @ v # zs = map (vec_encoding V) (us @ [concat ws] @ ts)" by (simp add: p v)
  moreover have "vec_fits V (concat (us @ [concat ws] @ ts))" using p(4) by simp
  ultimately have "\<exists>vss. xs @ v # zs = map (vec_encoding V) vss \<and> vec_fits V (concat vss)" by blast
  then show "(\<exists>vss. xs @ v # zs = map (vec_encoding V) vss \<and> vec_fits V (concat vss)) \<and>
      concat (map (\<lambda>bs. vec_of V (Some bs)) (xs @ v # zs)) = concat (map (\<lambda>bs. vec_of V (Some bs)) (xs @ ys @ zs))"
    using vec_encodings.stored_encoding [OF vec_encodings.intro [OF V]] by (simp add: p v o_def)
qed

lemma foldl_assoc:
  assumes "\<And>a b c. f (f a b) c = f a (f b c)"
  shows "f a (foldl f b xs) = foldl f (f a b) xs"
  by (induction xs arbitrary: b) (simp_all add: assms)

lemma reduced_group:
  assumes "\<And>a b c. f (f a b) c = f a (f b c)"
  shows "reduced f (us @ foldl f w ws # ts) = reduced f (us @ w # ws @ ts)"
  by (cases us) (simp_all add: reduced_def foldl_assoc [OF assms])

lemma reducer_compacted:
  assumes V: "message_law V" "messages_fit 0 V" and f: "\<And>a b c. f (f a b) c = f a (f b c)"
    and "compacted (rocks_reducer_merge V f) e e'" "reducer_cell_ok V e"
  shows "reducer_cell_ok V e' \<and> reducer_content V f e' = reducer_content V f e"
  unfolding reducer_cell_ok_def reducer_content_def
proof (rule compacted_operands [OF _ _ assms(4)])
  show "rocks_reducer_merge V f b ys = rocks_reducer_merge V f None (operands b ys)" for b ys
    by (simp add: rocks_reducer_merge_def)
  show "\<exists>vs. operands (fst e) (snd e) = map (msg_encode V) vs" using assms(5) by (simp add: reducer_cell_ok_def)
  fix xs ys zs v
  assume a: "\<exists>vs. xs @ ys @ zs = map (msg_encode V) vs" "ys \<noteq> []" "rocks_reducer_merge V f None ys = Ok (Some v)"
  then obtain us ws ts where p: "xs = map (msg_encode V) us" "ys = map (msg_encode V) ws" "zs = map (msg_encode V) ts"
    by (blast elim: map_eq_append_parts)
  with a(2) obtain w ws' where w: "ws = w # ws'" by (cases ws) auto
  then have v: "v = msg_encode V (foldl f w ws')" using reducer_merge_enc [OF V, of None ys w ws' f] p(2) a(3) by simp
  have "xs @ v # zs = map (msg_encode V) (us @ foldl f w ws' # ts)" by (simp add: p v)
  then have "\<exists>vs. xs @ v # zs = map (msg_encode V) vs" by blast
  then show "(\<exists>vs. xs @ v # zs = map (msg_encode V) vs) \<and>
      reduced f (map (\<lambda>bs. the (decoded V (Some bs))) (xs @ v # zs)) =
      reduced f (map (\<lambda>bs. the (decoded V (Some bs))) (xs @ ys @ zs))"
    using V(1) by (simp add: p v w o_def reduced_group [OF f])
qed

text \<open>What \<^verbatim>\<open>Aggregator::merge_accumulators\<close> has to be: it combines accumulators as if the values behind the
  second one had been added to the first.\<close>

definition aggregator_law :: "('i, 'acc, 'r) aggregator \<Rightarrow> ('acc \<Rightarrow> 'acc \<Rightarrow> 'acc) \<Rightarrow> bool" where
  "aggregator_law A mg \<longleftrightarrow> (\<forall>a b. merge_accumulators A a b = Ok (mg a b)) \<and>
     (\<forall>a v. mg a (agg_add A (create_accumulator A) v) = agg_add A a v) \<and>
     (\<forall>a b v. mg a (agg_add A b v) = agg_add A (mg a b) v) \<and> (\<forall>a b c. mg a (mg b c) = mg (mg a b) c)"

lemma first_operand_as_further:
  assumes "aggregator_law A mg" "first_operand INP ACC A s = Ok (Some b)"
  shows "further_operands INP ACC A a [s] = Ok (Some (mg a b))"
proof (cases s)
  case (Cons m rest)
  with assms show ?thesis
    by (cases "protobuf_deserialize ACC rest"; cases "protobuf_deserialize INP rest")
      (auto simp: first_operand_def aggregator_law_def split: if_splits)
qed (use assms in \<open>simp add: first_operand_def\<close>)

lemma further_one:
  assumes "aggregator_law A mg" "further_operands INP ACC A b [s] = Ok (Some b')"
  shows "further_operands INP ACC A (mg a b) [s] = Ok (Some (mg a b'))"
proof (cases s)
  case (Cons m rest)
  with assms show ?thesis
    by (cases "protobuf_deserialize ACC rest"; cases "protobuf_deserialize INP rest")
      (auto simp: aggregator_law_def split: if_splits)
qed (use assms in simp)

lemma operand_acc_front:
  assumes "operand_acc INP ACC A (xs @ ys) = Ok (Some b)" "xs \<noteq> []"
  shows "\<exists>a. operand_acc INP ACC A xs = Ok (Some a)"
proof (cases xs)
  case (Cons x xs')
  with assms(1) show ?thesis
    by (auto simp: operand_acc_def further_operands_append bind_o_Ok_iff split: option.splits)
qed (use assms(2) in simp)

lemma further_group:
  assumes "aggregator_law A mg"
  shows "ys \<noteq> [] \<Longrightarrow> operand_acc INP ACC A ys = Ok (Some b) \<Longrightarrow> further_operands INP ACC A a ys = Ok (Some (mg a b))"
proof (induction ys arbitrary: b rule: rev_induct)
  case (snoc s ys)
  show ?case
  proof (cases "ys = []")
    case True
    with snoc.prems first_operand_as_further [OF assms, of INP ACC s b a] show ?thesis
      by (auto simp: operand_acc_def bind_o_Ok_iff split: option.splits)
  next
    case False
    obtain c where c: "operand_acc INP ACC A ys = Ok (Some c)"
      using operand_acc_front [OF snoc.prems(2) False] by blast
    then have "further_operands INP ACC A c [s] = Ok (Some b)" using snoc.prems(2) operand_acc_append [OF c False, of "[s]"] by simp
    then show ?thesis
      using snoc.IH [OF False c] further_one [OF assms] by (simp add: further_operands_append del: further_operands.simps)
  qed
qed simp

lemma aggregator_compacted:
  assumes A: "aggregator_law A mg" and M: "message_law ACC" "messages_fit 1 ACC"
    and c: "compacted (rocks_aggregator_merge INP ACC A) e e'" and e: "aggregator_cell_ok INP ACC A e"
  shows "aggregator_cell_ok INP ACC A e' \<and> aggregator_content INP ACC A e' = aggregator_content INP ACC A e"
proof -
  let ?m = "rocks_aggregator_merge INP ACC A"
  let ?acc = "operand_acc INP ACC A"
  have merged: "\<exists>b. ?acc (operands x ys) = Ok (Some b) \<and> v = ACCUMULATOR_MARKER # msg_encode ACC b"
    if "?m x ys = Ok (Some v)" for x ys v
  proof -
    have "\<exists>b. ?acc (operands x ys) = Ok (Some b)"
      using that by (auto simp: rocks_aggregator_merge_def operand_acc_def bind_o_Ok_iff split: list.splits option.splits)
    then show ?thesis using aggregator_merge_acc [OF M(2), of INP A x ys] that by auto
  qed
  have group: "(\<exists>a. ?acc (xs @ v # zs) = Ok (Some a)) \<and> ?acc (xs @ v # zs) = ?acc (xs @ ys @ zs)"
    if g: "\<exists>a. ?acc (xs @ ys @ zs) = Ok (Some a)" "ys \<noteq> []" "?m None ys = Ok (Some v)" for xs ys zs v
  proof -
    obtain b where b: "?acc ys = Ok (Some b)" "v = ACCUMULATOR_MARKER # msg_encode ACC b"
      using merged [OF g(3)] by auto
    have fv: "first_operand INP ACC A v = Ok (Some b)" by (simp add: b(2) first_operand_def protobuf_deserialize_enc M(1))
    have "?acc (xs @ v # zs) = ?acc (xs @ ys @ zs)"
    proof (cases "xs = []")
      case True
      then show ?thesis using operand_acc_append [OF b(1) g(2), of zs] fv by (simp add: operand_acc_def)
    next
      case False
      then obtain a where a: "?acc xs = Ok (Some a)"
        using g(1) operand_acc_front [of INP ACC A xs] by blast
      have "further_operands INP ACC A a (v # zs) = further_operands INP ACC A a (ys @ zs)"
        using further_group [OF A g(2) b(1), of a] first_operand_as_further [OF A fv, of a]
          further_operands_append [of INP ACC A a "[v]" zs] further_operands_append [of INP ACC A a ys zs] by simp
      then show ?thesis using operand_acc_append [OF a False] by simp
    qed
    then show ?thesis using g(1) by simp
  qed
  have "(\<exists>a. ?acc (operands (fst e') (snd e')) = Ok (Some a)) \<and>
      ?acc (operands (fst e') (snd e')) = ?acc (operands (fst e) (snd e))"
  proof (rule compacted_operands [OF _ _ c])
    show "?m b ys = ?m None (operands b ys)" for b ys by (simp add: rocks_aggregator_merge_def)
    show "\<exists>a. ?acc (operands (fst e) (snd e)) = Ok (Some a)" using e by (simp add: aggregator_cell_ok_def)
  qed (rule group)
  moreover have "marked_cell ACC (fst e)" using e by (simp add: aggregator_cell_ok_def)
  with c have "marked_cell ACC (fst e')"
  proof (induction rule: compacted.induct)
    case (full e b ys zs v)
    from merged [OF full.hyps(3)] show ?case by (auto simp: marked_cell_def)
  qed simp_all
  ultimately show ?thesis by (metis aggregator_cell_ok_def aggregator_content_def)
qed

end
