(* ===== verification/Rocks_Backend.thy ===== *)
theory Rocks_Backend
  imports Rocks_Laws Sled_Backend
begin

text \<open>
  Opening, checkpoints and recovery of the RocksDB backend, a database that behaves as documented (it
  stands in for the real one where a property is applied to concrete states), and the properties of
  the backend.
\<close>

section \<open>Registering the column families of a database\<close>

text \<open>The states of a node are registered one after the other.\<close>

fun register_all ::
    "('db, 'f) rocks_api \<Rightarrow> 'f disk \<Rightarrow> (string \<times> rocks_options) list \<Rightarrow> ('db rocks, arcon_state_error, unit) action" where
  "register_all D disk [] = return_s ()"
| "register_all D disk ((cf, opts) # regs) =
     bind_s (create_column_family D disk cf opts) (\<lambda>_. register_all D disk regs)"

lemma register_waiting:
  assumes "\<not> u \<subseteq> fst ` set regs" "distinct (map fst regs)" "fst ` set regs \<inter> dom k = {}"
  shows "register_all D disk regs (r\<lparr>rk_inner := Uninitialized u k\<rparr>)
    = (Ok (), r\<lparr>rk_inner := Uninitialized (u - fst ` set regs) (k ++ map_of regs)\<rparr>)"
  using assms
proof (induction regs arbitrary: u k)
  case (Cons reg regs)
  obtain cf opts where reg: "reg = (cf, opts)" by (cases reg)
  have u: "\<not> u - {cf} \<subseteq> fst ` set regs" "u - {cf} \<noteq> {}" using Cons.prems(1) by (auto simp: reg)
  have k: "cf \<notin> dom k" "distinct (map fst regs)" "fst ` set regs \<inter> dom (k(cf \<mapsto> opts)) = {}"
    using Cons.prems(2,3) by (auto simp: reg)
  have "create_column_family D disk cf opts (r\<lparr>rk_inner := Uninitialized u k\<rparr>)
      = (Ok (), r\<lparr>rk_inner := Uninitialized (u - {cf}) (k(cf \<mapsto> opts))\<rparr>)"
    using k(1) u(2) by (simp add: create_column_family_def)
  then have "register_all D disk (reg # regs) (r\<lparr>rk_inner := Uninitialized u k\<rparr>)
      = (Ok (), r\<lparr>rk_inner := Uninitialized (u - {cf} - fst ` set regs) (k(cf \<mapsto> opts) ++ map_of regs)\<rparr>)"
    using Cons.IH [OF u(1) k(2,3)] by (simp only: reg register_all.simps bind_s_Ok)
  moreover have "k(cf \<mapsto> opts) ++ map_of regs = k ++ map_of (reg # regs)"
    using Cons.prems(2)
    by (auto simp: reg map_add_def fun_eq_iff split: option.split) (metis domI dom_map_of_conv_image_fst fst_conv image_eqI)
  moreover have "u - {cf} - fst ` set regs = u - fst ` set (reg # regs)" by (auto simp: reg)
  ultimately show ?case by (simp only:)
qed simp

lemma register_append:
  "register_all D disk (regs @ regs') = bind_s (register_all D disk regs) (\<lambda>_. register_all D disk regs')"
  by (induction regs) (auto simp: fun_eq_iff bind_s_def split: prod.split outcome.split)

lemma register_last:
  assumes "fst ` set regs = u" "distinct (map fst regs)" "regs \<noteq> []" "u \<inter> dom k = {}"
    and "rk_open_cf_descriptors D (dir_at disk (rk_path r)) (k ++ map_of regs) = Ok db"
  shows "register_all D disk regs (r\<lparr>rk_inner := Uninitialized u k\<rparr>)
    = (Ok (), r\<lparr>rk_inner := Initialized \<lparr>ir_db = db, ir_options = k ++ map_of regs\<rparr>\<rparr>)"
proof -
  obtain front cf opts where regs: "regs = front @ [(cf, opts)]" using assms(3) by (cases regs rule: rev_cases) auto
  have cf: "cf \<notin> fst ` set front" "u = insert cf (fst ` set front)" using assms(1,2) by (auto simp: regs)
  have "register_all D disk front (r\<lparr>rk_inner := Uninitialized u k\<rparr>)
      = (Ok (), r\<lparr>rk_inner := Uninitialized (u - fst ` set front) (k ++ map_of front)\<rparr>)"
    using assms(2,4) cf by (intro register_waiting) (auto simp: regs)
  moreover have "u - fst ` set front = {cf}" using cf by auto
  moreover have "cf \<notin> dom (k ++ map_of front)" using cf assms(4) by (auto simp: dom_map_of_conv_image_fst)
  moreover have "(k ++ map_of front)(cf \<mapsto> opts) = k ++ map_of regs"
    using cf(1)
    by (auto simp: regs map_add_def fun_eq_iff split: option.split) (metis domI dom_map_of_conv_image_fst fst_conv image_eqI)
  ultimately show ?thesis
    using assms(5) by (simp add: regs register_append bind_s_def create_column_family_def initialize_def)
qed

section \<open>Checkpoints\<close>

lemma dir_at_update [simp]: "dir_at (disk(p \<mapsto> es)) p = es"
  by (simp add: dir_at_def)

lemma update_new: "k \<notin> fst ` set al \<Longrightarrow> AList.update k v al = al @ [(k, v)]"
  by (induction al) auto

text \<open>\<open>snap files\<close>: the entries and the column families of the database whose files are \<open>files\<close>.\<close>

locale rocks_disk = rocks_store D dok ent copts
  for D :: "('db, 'f) rocks_api" and dok ent copts +
  fixes snap :: "'f directory \<Rightarrow> ((string \<Rightarrow> bytes \<Rightarrow> entry) \<times> string set) option"
  assumes k_flush: "dok d \<Longrightarrow> rk_flush D d = Ok ()"
    and k_new: "dok d \<Longrightarrow> rk_checkpoint_new D d = Ok ()"
    and k_checkpoint: "dok d \<Longrightarrow> \<exists>files. rk_create_checkpoint D d = Ok files \<and> files \<noteq> [] \<and> distinct (map fst files) \<and>
      list_all (\<lambda>f. snd f \<noteq> None) files \<and> snap files = Some (ent d, dom (copts d))"
    and k_list: "snap files = Some (E, C) \<Longrightarrow> \<exists>cfs. rk_list_cf D files = Ok cfs \<and> set cfs = C"
    and k_open: "snap files = Some (E, C) \<Longrightarrow> dom opts = C \<Longrightarrow>
      \<exists>d. rk_open_cf_descriptors D files opts = Ok d \<and> dok d \<and> ent d = E \<and> copts d = opts"
    and k_list_empty: "\<exists>msg. rk_list_cf D [] = Err (RocksError msg) \<and> is_infix ''No such file or directory'' msg"
    and k_open_empty: "dom opts = {''default''} \<Longrightarrow>
      \<exists>d. rk_open_cf_descriptors D [] opts = Ok d \<and> dok d \<and> ent d = (\<lambda>_ _. no_entry) \<and> copts d = opts"
    and k_default: "dok d \<Longrightarrow> copts d ''default'' \<noteq> None"
begin

lemma create_fresh:
  assumes "dir_at disk path = []"
  shows "\<exists>r. rocks_create D path disk = (Ok r, disk(path \<mapsto> [])) \<and> rok r \<and> rocks_entries ent r = (\<lambda>_ _. no_entry) \<and>
    rocks_cfs r = [''default'' \<mapsto> default_options] \<and> rk_path r = path \<and> \<not> rk_restored r"
proof -
  obtain d where d: "rk_open_cf_descriptors D [] [''default'' \<mapsto> default_options] = Ok d" "dok d"
      "ent d = (\<lambda>_ _. no_entry)" "copts d = [''default'' \<mapsto> default_options]"
    using k_open_empty [of "[''default'' \<mapsto> default_options]"] by auto
  obtain msg where msg: "rk_list_cf D [] = Err (RocksError msg)" "is_infix ''No such file or directory'' msg"
    using k_list_empty by blast
  have disk: "(if disk path = None then disk(path \<mapsto> []) else disk) = disk(path \<mapsto> [])" "dir_at (disk(path \<mapsto> [])) path = []"
    using assms by (auto simp: dir_at_def split: option.splits)
  show ?thesis
    unfolding rocks_create_def disk Let_def using d msg
    by (simp add: listed_cfs_def rocks_ok_def rocks_entries_def rocks_cfs_def)
qed

lemma copy_all:
  assumes "list_all (\<lambda>f. snd f \<noteq> None) files" "distinct (map fst (dir_at disk target @ files))"
  shows "\<exists>disk'. copy_files files target disk = (Ok (), disk') \<and> dir_at disk' target = dir_at disk target @ files \<and>
    (\<forall>p. p \<noteq> target \<longrightarrow> disk' p = disk p) \<and> (files \<noteq> [] \<longrightarrow> disk' target \<noteq> None)"
  using assms
proof (induction files arbitrary: disk)
  case (Cons f files)
  obtain name c where f: "f = (name, Some c)" using Cons.prems(1) by (cases f) auto
  define disk1 where "disk1 = disk(target \<mapsto> dir_at disk target @ [f])"
  have "name \<notin> fst ` set (dir_at disk target)" using Cons.prems(2) by (auto simp: f)
  then have copy: "copy_files (f # files) target disk = copy_files files target disk1"
    by (simp add: disk1_def f update_new)
  have d: "dir_at disk1 target = dir_at disk target @ [f]" by (simp add: disk1_def)
  then obtain disk' where disk': "copy_files files target disk1 = (Ok (), disk')"
      "dir_at disk' target = dir_at disk1 target @ files" "\<forall>p. p \<noteq> target \<longrightarrow> disk' p = disk1 p"
      "files \<noteq> [] \<longrightarrow> disk' target \<noteq> None"
    using Cons.IH [of disk1] Cons.prems by auto
  have "\<forall>p. p \<noteq> target \<longrightarrow> disk' p = disk p" using disk'(3) by (simp add: disk1_def)
  moreover have "disk' target \<noteq> None"
    using disk' by (cases "files = []") (auto simp: disk1_def)
  ultimately show ?case using disk'(1,2) by (simp add: copy d)
qed auto

lemma checkpoint_ok:
  assumes "rok r"
  shows "\<exists>files. rocks_checkpoint D cp r disk = (Ok (), disk(cp \<mapsto> files)) \<and> files \<noteq> [] \<and> distinct (map fst files) \<and>
    list_all (\<lambda>f. snd f \<noteq> None) files \<and> snap files = Some (rocks_entries ent r, dom (rocks_cfs r))"
proof -
  obtain i where i: "rk_inner r = Initialized i" "dok (ir_db i)" "ir_options i = copts (ir_db i)"
    using assms by (auto simp: rocks_ok_def)
  obtain files where files: "rk_create_checkpoint D (ir_db i) = Ok files" "files \<noteq> []" "distinct (map fst files)"
      "list_all (\<lambda>f. snd f \<noteq> None) files" "snap files = Some (ent (ir_db i), dom (copts (ir_db i)))"
    using k_checkpoint [OF i(2)] by blast
  have "rocks_checkpoint D cp r disk = (Ok (), disk(cp \<mapsto> files))"
    by (simp add: rocks_checkpoint_def initialized_def i(1) k_flush [OF i(2)] k_new [OF i(2)] files(1) bind_s_def)
  then show ?thesis using files i by (intro exI [of _ files]) (simp add: rocks_entries_def rocks_cfs_def)
qed

lemma restore_ok:
  assumes "disk cp = Some files" "files \<noteq> []" "distinct (map fst files)" "list_all (\<lambda>f. snd f \<noteq> None) files"
    and "snap files = Some (E, C)" "''default'' \<in> C" "dir_at disk live = []" "live \<noteq> cp"
  shows "\<exists>disk' r. rocks_restore D live cp disk = (Ok r, disk') \<and> rk_restored r \<and> rk_path r = live \<and>
    dir_at disk' live = files \<and>
    (if C = {''default''} then rok r \<and> rocks_entries ent r = E \<and> rocks_cfs r = [''default'' \<mapsto> default_options]
     else rk_inner r = Uninitialized (C - {''default''}) [''default'' \<mapsto> default_options])"
proof -
  define disk0 where "disk0 = (if disk live = None then disk(live \<mapsto> []) else disk)"
  have disk0: "dir_at disk0 live = []" "disk0 cp = Some files"
    using assms(1,7,8) by (auto simp: disk0_def dir_at_def)
  obtain disk' where disk': "copy_files files live disk0 = (Ok (), disk')" "dir_at disk' live = files" "disk' live \<noteq> None"
    using copy_all [OF assms(4), of disk0 live] assms(2,3) disk0(1) by auto
  obtain cfs where cfs: "rk_list_cf D files = Ok cfs" "set cfs = C" using k_list [OF assms(5)] by blast
  have listed: "listed_cfs (rk_list_cf D files) = Ok (C - {''default''})" by (auto simp: listed_cfs_def cfs)
  have restore: "rocks_restore D live cp disk
      = bind_s (rocks_create D live) (\<lambda>r. return_s (r\<lparr>rk_restored := True\<rparr>)) disk'"
    unfolding rocks_restore_def using disk0 disk'(1) by (simp add: bind_s_def ok_or_def flip: disk0_def)
  show ?thesis
  proof (cases "C = {''default''}")
    case True
    then obtain d where d: "rk_open_cf_descriptors D files [''default'' \<mapsto> default_options] = Ok d" "dok d" "ent d = E"
        "copts d = [''default'' \<mapsto> default_options]"
      using k_open [OF assms(5), of "[''default'' \<mapsto> default_options]"] by auto
    have "C - {''default''} = {}" using True by simp
    then have "rocks_create D live disk' = (Ok \<lparr>rk_inner = Initialized \<lparr>ir_db = d, ir_options = [''default'' \<mapsto> default_options]\<rparr>,
        rk_path = live, rk_restored = False\<rparr>, disk')"
      using disk'(2,3) listed d(1) by (auto simp: rocks_create_def Let_def)
    then show ?thesis
      using restore disk'(2) d True by (simp add: bind_s_def rocks_ok_def rocks_entries_def rocks_cfs_def)
  next
    case False
    then have "C - {''default''} \<noteq> {}" using assms(6) by auto
    then have "rocks_create D live disk' = (Ok \<lparr>rk_inner = Uninitialized (C - {''default''}) [''default'' \<mapsto> default_options],
        rk_path = live, rk_restored = False\<rparr>, disk')"
      using disk'(2,3) listed by (auto simp: rocks_create_def Let_def)
    then show ?thesis using restore disk'(2) False by (simp add: bind_s_def)
  qed
qed

lemma recover_ok:
  assumes "rok r" "dir_at disk live = []" "live \<noteq> cp" "distinct (map fst regs)"
    and "fst ` set regs = dom (rocks_cfs r) - {''default''}"
  shows "\<exists>disk1 disk2 r1 r2. rocks_checkpoint D cp r disk = (Ok (), disk1) \<and>
    rocks_restore D live cp disk1 = (Ok r1, disk2) \<and> rocks_was_restored r1 \<and> (is_initialized r1 \<longleftrightarrow> regs = []) \<and>
    register_all D disk2 regs r1 = (Ok (), r2) \<and> rok r2 \<and> rocks_entries ent r2 = rocks_entries ent r \<and>
    rocks_cfs r2 = [''default'' \<mapsto> default_options] ++ map_of regs"
proof -
  let ?C = "dom (rocks_cfs r)"
  obtain files where files: "rocks_checkpoint D cp r disk = (Ok (), disk(cp \<mapsto> files))" "files \<noteq> []"
      "distinct (map fst files)" "list_all (\<lambda>f. snd f \<noteq> None) files" "snap files = Some (rocks_entries ent r, ?C)"
    using checkpoint_ok [OF assms(1)] by blast
  have def: "''default'' \<in> ?C"
    using assms(1) k_default by (auto simp: rocks_ok_def rocks_cfs_def)
  have live: "dir_at (disk(cp \<mapsto> files)) live = []" using assms(2,3) by (simp add: dir_at_def)
  obtain disk2 r1 where r1: "rocks_restore D live cp (disk(cp \<mapsto> files)) = (Ok r1, disk2)" "rk_restored r1" "rk_path r1 = live"
      "dir_at disk2 live = files"
      "if ?C = {''default''} then rok r1 \<and> rocks_entries ent r1 = rocks_entries ent r \<and> rocks_cfs r1 = [''default'' \<mapsto> default_options]
       else rk_inner r1 = Uninitialized (?C - {''default''}) [''default'' \<mapsto> default_options]"
    using restore_ok [OF _ files(2-5) def live assms(3)] by auto
  show ?thesis
  proof (cases "?C = {''default''}")
    case True
    then have "regs = []" "rok r1" using assms(5) r1(5) by auto
    then have "is_initialized r1" by (auto simp: rocks_ok_def is_initialized_def)
    then show ?thesis
      using files(1) r1 True \<open>regs = []\<close> by (simp add: rocks_was_restored_def)
  next
    case False
    let ?opts = "[''default'' \<mapsto> default_options] ++ map_of regs"
    have regs: "regs \<noteq> []" using False assms(5) def by auto
    have "dom ?opts = ?C" using assms(5) def by (auto simp: dom_map_of_conv_image_fst)
    then obtain d where d: "rk_open_cf_descriptors D files ?opts = Ok d" "dok d" "ent d = rocks_entries ent r" "copts d = ?opts"
      using k_open [OF files(5)] by blast
    define r0 where "r0 = r1"
    have r0: "r1 = r0\<lparr>rk_inner := Uninitialized (?C - {''default''}) [''default'' \<mapsto> default_options]\<rparr>" "rk_path r0 = live"
      using r1(3,5) False by (simp_all add: r0_def)
    have "register_all D disk2 regs r1 = (Ok (), r0\<lparr>rk_inner := Initialized \<lparr>ir_db = d, ir_options = ?opts\<rparr>\<rparr>)"
      unfolding r0(1) using d(1) by (intro register_last [OF assms(5,4) regs]) (auto simp: r0(2) r1(4))
    moreover have "\<not> is_initialized r1" by (simp add: r0(1) is_initialized_def)
    ultimately show ?thesis
      using files(1) r1(1,2) regs d(2-4)
      by (simp add: rocks_was_restored_def rocks_ok_def rocks_entries_def [of _ "r0\<lparr>rk_inner := _\<rparr>"]
          rocks_cfs_def [of "r0\<lparr>rk_inner := _\<rparr>"])
  qed
qed

end

section \<open>A database\<close>

record list_rocks_db =
  lr_data :: "string \<Rightarrow> (bytes \<times> entry) list"
  lr_cfs :: "(string \<times> rocks_options) list"

definition lr_ok :: "list_rocks_db \<Rightarrow> bool" where
  "lr_ok d \<longleftrightarrow> (\<forall>cf. distinct (map fst (lr_data d cf))) \<and> distinct (map fst (lr_cfs d)) \<and> ''default'' \<in> fst ` set (lr_cfs d)"

definition lr_entry :: "list_rocks_db \<Rightarrow> string \<Rightarrow> bytes \<Rightarrow> entry" where
  "lr_entry d cf k = (case map_of (lr_data d cf) k of None \<Rightarrow> no_entry | Some e \<Rightarrow> e)"

definition lr_options :: "list_rocks_db \<Rightarrow> string \<rightharpoonup> rocks_options" where
  "lr_options d = map_of (lr_cfs d)"

definition lr_set :: "string \<Rightarrow> (bytes \<times> entry) list \<Rightarrow> list_rocks_db \<Rightarrow> list_rocks_db" where
  "lr_set cf es d = d\<lparr>lr_data := (lr_data d)(cf := es)\<rparr>"

fun lr_write :: "write_op \<Rightarrow> list_rocks_db \<Rightarrow> list_rocks_db" where
  "lr_write (WPut cf k v) d = lr_set cf (AList.update k (Some v, []) (lr_data d cf)) d"
| "lr_write (WDeleteRange cf a b) d = lr_set cf (filter (\<lambda>kv. \<not> in_range a b (fst kv)) (lr_data d cf)) d"

definition lr_scan :: "bytes \<Rightarrow> (bytes \<times> entry) list \<Rightarrow> (bytes \<times> bytes) list" where
  "lr_scan p es =
     concat (map (\<lambda>(k, e). case fst e of Some v \<Rightarrow> if has_prefix p k then [(k, v)] else [] | None \<Rightarrow> []) es)"

definition lr_open :: "list_rocks_db directory \<Rightarrow> (string \<rightharpoonup> rocks_options) \<Rightarrow> list_rocks_db state_result" where
  "lr_open files opts =
     (case files of
        [] \<Rightarrow> Ok \<lparr>lr_data = (\<lambda>_. []), lr_cfs = [(''default'', the (opts ''default''))]\<rparr>
      | [(_, Some d)] \<Rightarrow> Ok (d\<lparr>lr_cfs := map (\<lambda>(n, _). (n, the (opts n))) (lr_cfs d)\<rparr>)
      | _ \<Rightarrow> Err (RocksError ''Corruption''))"

definition list_rocks :: "(list_rocks_db, list_rocks_db) rocks_api" where
  "list_rocks =
     \<lparr>rk_list_cf = (\<lambda>files. case files of
          [(_, Some d)] \<Rightarrow> Ok (map fst (lr_cfs d))
        | _ \<Rightarrow> Err (RocksError ''IO error: No such file or directory'')),
      rk_open_cf_descriptors = lr_open,
      rk_cf_handle = (\<lambda>cf d. lr_options d cf \<noteq> None),
      rk_get_pinned_cf = (\<lambda>cf k d. case lr_options d cf of
          None \<Rightarrow> Err (RocksError ''Invalid column family'')
        | Some opts \<Rightarrow> entry_value opts (lr_entry d cf k)),
      rk_put_cf = (\<lambda>cf k v d. (Ok (), lr_write (WPut cf k v) d)),
      rk_delete_cf = (\<lambda>cf k d. (Ok (), lr_set cf (AList.delete k (lr_data d cf)) d)),
      rk_merge_cf = (\<lambda>cf k v d.
        (Ok (), lr_set cf (AList.update k (fst (lr_entry d cf k), snd (lr_entry d cf k) @ [v]) (lr_data d cf)) d)),
      rk_write = (\<lambda>ws d. (Ok (), fold lr_write ws d)),
      rk_prefix_iterator_cf = (\<lambda>cf p d. Ok (lr_scan p (lr_data d cf))),
      rk_create_cf = (\<lambda>cf opts d. (Ok (), (lr_set cf [] d)\<lparr>lr_cfs := AList.update cf opts (lr_cfs d)\<rparr>)),
      rk_drop_cf = (\<lambda>cf d. (Ok (), (lr_set cf [] d)\<lparr>lr_cfs := AList.delete cf (lr_cfs d)\<rparr>)),
      rk_flush = (\<lambda>_. Ok ()),
      rk_checkpoint_new = (\<lambda>_. Ok ()),
      rk_create_checkpoint = (\<lambda>d. Ok [(''000001.sst'', Some d)])\<rparr>"

definition lr_snap :: "list_rocks_db directory \<Rightarrow> ((string \<Rightarrow> bytes \<Rightarrow> entry) \<times> string set) option" where
  "lr_snap files =
     (case files of
        [(_, Some d)] \<Rightarrow> if lr_ok d then Some (lr_entry d, dom (lr_options d)) else None
      | _ \<Rightarrow> None)"

lemma lr_set_simps [simp]:
  "lr_data (lr_set cf es d) = (lr_data d)(cf := es)" "lr_cfs (lr_set cf es d) = lr_cfs d"
  by (simp_all add: lr_set_def)

lemma lr_set_ok: "lr_ok d \<Longrightarrow> distinct (map fst es) \<Longrightarrow> lr_ok (lr_set cf es d)"
  by (simp add: lr_ok_def)

lemma lr_set_options: "lr_options (lr_set cf es d) = lr_options d"
  by (simp add: lr_options_def)

lemma lr_set_entry:
  "lr_entry (lr_set cf es d) = (lr_entry d)(cf := (\<lambda>k. case map_of es k of None \<Rightarrow> no_entry | Some e \<Rightarrow> e))"
  by (auto simp: lr_entry_def fun_eq_iff)

lemma lr_update_entry:
  "(\<lambda>k'. case map_of (AList.update k e (lr_data d cf)) k' of None \<Rightarrow> no_entry | Some e \<Rightarrow> e) = (lr_entry d cf)(k := e)"
  by (auto simp: lr_entry_def fun_eq_iff AList.update_conv')

lemma lr_delete_entry:
  "(\<lambda>k'. case map_of (AList.delete k (lr_data d cf)) k' of None \<Rightarrow> no_entry | Some e \<Rightarrow> e) = (lr_entry d cf)(k := no_entry)"
  by (auto simp: lr_entry_def fun_eq_iff AList.delete_conv')

lemma lr_filter_entry:
  "(\<lambda>k'. case map_of (filter (\<lambda>kv. P (fst kv)) (lr_data d cf)) k' of None \<Rightarrow> no_entry | Some e \<Rightarrow> e)
    = (\<lambda>k. if P k then lr_entry d cf k else no_entry)"
  by (auto simp: lr_entry_def fun_eq_iff map_of_filter_keys)

lemma lr_write_ok: "lr_ok d \<Longrightarrow> lr_ok (lr_write w d)"
  by (cases w) (simp_all add: lr_set_ok, simp_all add: lr_ok_def AList.distinct_update distinct_filter_keys)

lemma lr_write_entry: "lr_entry (lr_write w d) = apply_write w (lr_entry d)"
proof (cases w)
  case (WDeleteRange cf a b)
  have "(\<lambda>k. if \<not> in_range a b k then lr_entry d cf k else no_entry) = (\<lambda>k. if in_range a b k then no_entry else lr_entry d cf k)"
    by auto
  then show ?thesis
    using lr_filter_entry [of "\<lambda>k. \<not> in_range a b k" d cf] by (simp add: WDeleteRange lr_set_entry)
qed (simp add: lr_set_entry lr_update_entry)

lemma lr_write_options: "lr_options (lr_write w d) = lr_options d"
  by (cases w) (simp_all add: lr_set_options)

lemma lr_fold_ok:
  "lr_ok d \<Longrightarrow> lr_ok (fold lr_write ws d) \<and> lr_entry (fold lr_write ws d) = fold apply_write ws (lr_entry d) \<and>
    lr_options (fold lr_write ws d) = lr_options d"
  by (induction ws arbitrary: d) (simp_all add: lr_write_ok lr_write_entry lr_write_options)

lemma lr_scan_keys: "fst ` set (lr_scan p es) \<subseteq> fst ` set es"
  by (auto simp: lr_scan_def image_iff split: option.splits if_splits) force+

lemma lr_scan_ok:
  assumes "distinct (map fst es)"
  shows "distinct (map fst (lr_scan p es)) \<and>
    map_of (lr_scan p es) = (\<lambda>k. if has_prefix p k then fst (case map_of es k of None \<Rightarrow> no_entry | Some e \<Rightarrow> e) else None)"
  using assms
proof (induction es)
  case (Cons x es)
  obtain k e where x: "x = (k, e)" by (cases x)
  have k: "k \<notin> fst ` set (lr_scan p es)" using Cons.prems lr_scan_keys [of p es] by (auto simp: x)
  have scan: "lr_scan p (x # es) = (case fst e of Some v \<Rightarrow> if has_prefix p k then [(k, v)] else [] | None \<Rightarrow> []) @ lr_scan p es"
    by (simp add: lr_scan_def x)
  from k have "map_of (lr_scan p es) k = None" by (simp add: map_of_eq_None_iff)
  with Cons k show ?case
    unfolding scan by (auto simp: x fun_eq_iff split: option.split)
qed (simp add: lr_scan_def fun_eq_iff)

lemma lr_reopened:
  assumes "lr_ok d" "dom opts = dom (lr_options d)"
  defines "d' \<equiv> d\<lparr>lr_cfs := map (\<lambda>(n, _). (n, the (opts n))) (lr_cfs d)\<rparr>"
  shows "lr_ok d' \<and> lr_entry d' = lr_entry d \<and> lr_options d' = opts"
proof (intro conjI)
  have names: "map fst (lr_cfs d') = map fst (lr_cfs d)" by (simp add: d'_def o_def case_prod_beta)
  have data: "lr_data d' = lr_data d" by (simp add: d'_def)
  have "fst ` set (lr_cfs d') = fst ` set (lr_cfs d)" using names by (metis list.set_map)
  then show "lr_ok d'" using assms(1) by (simp add: lr_ok_def names data)
  show "lr_entry d' = lr_entry d" by (simp add: lr_entry_def fun_eq_iff data)
  have m: "map_of (map (\<lambda>(n, _). (n, the (opts n))) cfs) n = (if n \<in> fst ` set cfs then Some (the (opts n)) else None)" for cfs n
    by (induction cfs) auto
  show "lr_options d' = opts"
  proof
    fix n
    have "n \<in> fst ` set (lr_cfs d) \<longleftrightarrow> opts n \<noteq> None"
      using assms(2) by (simp add: lr_options_def dom_map_of_conv_image_fst set_eq_iff domIff)
    then show "lr_options d' n = opts n" by (simp add: lr_options_def d'_def m)
  qed
qed

interpretation list_rocks: rocks_disk list_rocks lr_ok lr_entry lr_options lr_snap
proof
  fix d cf k v opts ws p x
  assume d: "lr_ok d"
  then have dd: "distinct (map fst (lr_data d cf))" "distinct (map fst (lr_cfs d))" by (simp_all add: lr_ok_def)
  show "rk_get_pinned_cf list_rocks cf k d = Ok x" if "lr_options d cf = Some opts" "entry_value opts (lr_entry d cf k) = Ok x"
    using that by (simp add: list_rocks_def)
  show "\<exists>d'. rk_put_cf list_rocks cf k v d = (Ok (), d') \<and> lr_ok d' \<and>
      lr_entry d' = (lr_entry d)(cf := (lr_entry d cf)(k := (Some v, []))) \<and> lr_options d' = lr_options d"
    using lr_write_ok [OF d, of "WPut cf k v"] lr_write_entry [of "WPut cf k v" d] lr_write_options [of "WPut cf k v" d]
    by (simp add: list_rocks_def)
  show "\<exists>d'. rk_delete_cf list_rocks cf k d = (Ok (), d') \<and> lr_ok d' \<and>
      lr_entry d' = (lr_entry d)(cf := (lr_entry d cf)(k := no_entry)) \<and> lr_options d' = lr_options d"
    by (simp add: list_rocks_def lr_set_ok d dd AList.distinct_delete lr_set_entry lr_set_options lr_delete_entry)
  show "\<exists>d'. rk_merge_cf list_rocks cf k v d = (Ok (), d') \<and> lr_ok d' \<and>
      lr_entry d' = (lr_entry d)(cf := (lr_entry d cf)(k := (fst (lr_entry d cf k), snd (lr_entry d cf k) @ [v]))) \<and>
      lr_options d' = lr_options d"
    by (simp add: list_rocks_def lr_set_ok d dd AList.distinct_update lr_set_entry lr_set_options lr_update_entry)
  show "\<exists>d'. rk_write list_rocks ws d = (Ok (), d') \<and> lr_ok d' \<and> lr_entry d' = fold apply_write ws (lr_entry d) \<and>
      lr_options d' = lr_options d"
    using lr_fold_ok [OF d, of ws] by (simp add: list_rocks_def)
  show "\<exists>kvs. rk_prefix_iterator_cf list_rocks cf p d = Ok kvs \<and> distinct (map fst kvs) \<and>
      map_of kvs = (\<lambda>k. if has_prefix p k then fst (lr_entry d cf k) else None)"
    using lr_scan_ok [OF dd(1), of p] unfolding lr_entry_def by (simp add: list_rocks_def)
  show "\<exists>d'. rk_create_cf list_rocks cf opts d = (Ok (), d') \<and> lr_ok d' \<and> lr_entry d' = (lr_entry d)(cf := (\<lambda>_. no_entry)) \<and>
      lr_options d' = (lr_options d)(cf \<mapsto> opts)"
    using d by (auto simp: list_rocks_def lr_ok_def lr_options_def AList.update_conv' AList.distinct_update fun_eq_iff
        lr_entry_def AList.dom_update)
  show "\<exists>d'. rk_drop_cf list_rocks cf d = (Ok (), d') \<and> lr_ok d' \<and> lr_entry d' = (lr_entry d)(cf := (\<lambda>_. no_entry)) \<and>
      lr_options d' = (lr_options d)(cf := None)" if "cf \<noteq> ''default''"
  proof -
    have "set (map fst (AList.delete cf (lr_cfs d))) = fst ` set (lr_cfs d) - {cf}" by (simp only: AList.delete_keys) simp
    then have "''default'' \<in> fst ` set (AList.delete cf (lr_cfs d))" using d that by (simp add: lr_ok_def)
    then show ?thesis
      using d by (auto simp: list_rocks_def lr_ok_def lr_options_def AList.delete_conv' AList.distinct_delete fun_eq_iff
          lr_entry_def)
  qed
  show "\<exists>files. rk_create_checkpoint list_rocks d = Ok files \<and> files \<noteq> [] \<and> distinct (map fst files) \<and>
      list_all (\<lambda>f. snd f \<noteq> None) files \<and> lr_snap files = Some (lr_entry d, dom (lr_options d))"
    by (simp add: list_rocks_def lr_snap_def d)
  show "lr_options d ''default'' \<noteq> None" using d by (simp add: lr_ok_def lr_options_def map_of_eq_None_iff)
next
  fix files E C opts
  assume "lr_snap files = Some (E, C)"
  then obtain n d where files: "files = [(n, Some d)]" "lr_ok d" "E = lr_entry d" "C = dom (lr_options d)"
    by (auto simp: lr_snap_def split: list.splits option.splits if_splits)
  then show "\<exists>cfs. rk_list_cf list_rocks files = Ok cfs \<and> set cfs = C"
    by (simp add: list_rocks_def lr_options_def dom_map_of_conv_image_fst)
  show "\<exists>d. rk_open_cf_descriptors list_rocks files opts = Ok d \<and> lr_ok d \<and> lr_entry d = E \<and> lr_options d = opts" if "dom opts = C"
    using files that lr_reopened [of d opts] by (simp add: list_rocks_def lr_open_def)
next
  show "\<exists>msg. rk_list_cf list_rocks [] = Err (RocksError msg) \<and> is_infix ''No such file or directory'' msg"
    by (simp add: list_rocks_def)
  show "\<exists>d. rk_open_cf_descriptors list_rocks [] opts = Ok d \<and> lr_ok d \<and> lr_entry d = (\<lambda>_ _. no_entry) \<and> lr_options d = opts"
    if "dom opts = {''default''}" for opts
    using that by (auto simp: dom_eq_singleton_conv list_rocks_def lr_open_def lr_ok_def lr_entry_def lr_options_def fun_eq_iff)
qed (simp_all add: list_rocks_def)

section \<open>Properties\<close>

text \<open>C33: A map state of the RocksDB backend is the same finite map that the other backends implement, over any
  database that meets \<open>rocks_store\<close>: every operation agrees with the entries encoded under the
  handle's prefix. Clearing the map removes exactly the entries with its prefix, by a range that ends
  at the prefix with its last byte incremented or, for a handle without metakeys, by dropping the
  column family and creating it anew with the options it had. Other entries, the options and the
  other column families are unchanged. The last byte of the metakeys must not be 255.\<close>

theorem rocks_map_refines:
  assumes "rocks_store D dok ent copts" and "metakeys IK eik vik N en vn"
    and "message_law K" and "message_law V" and "messages_fit 0 V"
    and "vik (h_item_key h)" and "vn (h_namespace h)" and "h_id h \<noteq> ''default''"
  defines "pre \<equiv> handle_key eik en h"
  assumes "pre = [] \<or> last pre \<noteq> 255"
  shows "map_state (rocks_map_ops D IK N K V h)
    (\<lambda>r. rocks_ok dok copts r \<and> rocks_cfs r (h_id h) = Some (common_options IK N) \<and>
       (\<forall>k. has_prefix pre k \<longrightarrow> map_entry_ok pre K V k (rocks_entries ent r (h_id h) k)))
    (\<lambda>k. metakey_size IK N + length (msg_encode K k) \<le> usize_max)
    (\<lambda>r k. decoded V (fst (rocks_entries ent r (h_id h) (pre @ msg_encode K k))))
    (rocks_frame ent (h_id h) (has_prefix pre))"
proof -
  have cell: "rocks_cell D dok ent copts IK eik vik N en vn h"
    using assms(1,2,6,7) by (simp add: rocks_cell_def rocks_cell_axioms_def)
  have u8: "(- 1 :: u8) = 255" by simp
  have m: "rocks_map D dok ent copts IK eik vik N en vn h K V"
    using cell assms(3-5,8,10)
    by (simp add: u8 rocks_map_def rocks_map_axioms_def pre_def handle_key_def metakeys.mk_def [OF assms(2)])
  show ?thesis
    using rocks_map.refines_map [OF m]
    unfolding rocks_map.map_inv_def [OF m, abs_def] rocks_map.map_entries_def [OF m, abs_def] rocks_map.map_frame_def [OF m]
      rocks_map.stored_key_def [OF m] metakeys.key_fits_def [OF assms(2), abs_def] metakeys.mk_def [OF assms(2)]
      pre_def handle_key_def metakey_size_def .
qed

theorem rocks_map_refines_witness:
  "map_state (rocks_map_ops list_rocks word_fb unit_fb u64_message u64_message (with_item_key (3 :: u64) (map_handle ''m'')))
    (\<lambda>r. rocks_ok lr_ok lr_options r \<and> rocks_cfs r ''m'' = Some (common_options (word_fb :: u64 fixed_bytes) unit_fb) \<and>
       (\<forall>k. has_prefix (to_le (3 :: u64)) k \<longrightarrow>
         map_entry_ok (to_le (3 :: u64)) u64_message u64_message k (rocks_entries lr_entry r ''m'' k)))
    (\<lambda>k. metakey_size (word_fb :: u64 fixed_bytes) unit_fb + length (msg_encode u64_message k) \<le> usize_max)
    (\<lambda>r k. decoded u64_message (fst (rocks_entries lr_entry r ''m'' (to_le (3 :: u64) @ msg_encode u64_message k))))
    (rocks_frame lr_entry ''m'' (has_prefix (to_le (3 :: u64))))"
proof -
  have "last (to_le (3 :: u64)) \<noteq> 255" by code_simp
  then show ?thesis
    using rocks_map_refines [OF list_rocks.rocks_store_axioms mk1.metakeys_axioms u64_message_law u64_message_law
        u64_message_fits(1), of "with_item_key (3 :: u64) (map_handle ''m'')"]
    by (simp add: handle_key_def with_item_key_def map_handle_def no_extra_def)
qed

text \<open>The addition in the range of a map whose metakeys end in the byte 255 overflows, so clearing it panics.\<close>

theorem rocks_map_clear_overflow:
  assumes "rocks_store D dok ent copts" and "metakeys IK eik vik N en vn" and "vik (h_item_key h)" and "vn (h_namespace h)"
    and "rocks_ok dok copts r" and "rocks_cfs r (h_id h) \<noteq> None"
    and "handle_key eik en h \<noteq> []" and "last (handle_key eik en h) = 255"
  shows "rocks_map_clear D IK N h r = (Panic ''attempt to add with overflow'', r)"
proof -
  have c: "rocks_cell D dok ent copts IK eik vik N en vn h"
    using assms(1-4) by (simp add: rocks_cell_def rocks_cell_axioms_def)
  obtain i where i: "rk_inner r = Initialized i" "dok (ir_db i)" "ir_options i = copts (ir_db i)"
    using assms(5) by (auto simp: rocks_ok_def)
  then have "get_cf_handle D (h_id h) i = Ok ()"
    using assms(6) rocks_store.handle_ok [OF assms(1), of i "h_id h"] by (simp add: rocks_cfs_def)
  moreover have "(255 :: u8) = - 1" by simp
  then have "range_end (handle_key eik en h) = Panic ''attempt to add with overflow''"
    using range_end_overflow [OF assms(7)] assms(8) by simp
  moreover have "serialize_metakeys IK N h = Ok (handle_key eik en h)"
    using rocks_cell.metakeys_ok [OF c] by (simp add: metakeys.mk_def [OF assms(2)] handle_key_def)
  ultimately show ?thesis
    using i(1) assms(7)
    by (simp add: rocks_map_clear_def rocks_remove_prefix_def initialized_mut_def rocksdb_remove_prefix_def bind_s_def)
qed

text \<open>The other states of the RocksDB backend keep the contracts of the other backends over any database
  that meets \<open>rocks_store\<close>: a value state is an optional cell, a vector state a list (as long as its
  encoding is addressable), a reducer state the reduction of the values given to it, an aggregator
  state their accumulator. The last three only hand operands to the merge operator of their column
  family, which reads of the entry then apply to all of them.\<close>

theorem rocks_states_refine:
  assumes "rocks_store D dok ent copts" and "metakeys IK eik vik N en vn"
    and "message_law V" and "messages_fit 0 V" and "never_empty V"
    and "message_law INP" and "messages_fit 1 INP" and "message_law ACC" and "messages_fit 1 ACC"
    and "vik (h_item_key h)" and "vn (h_namespace h)" and "vik (h_item_key s)" and "vn (h_namespace s)"
    and "vik (h_item_key r)" and "vn (h_namespace r)" and "vik (h_item_key a)" and "vn (h_namespace a)"
  shows "value_state (rocks_value_ops D IK N V h)
      (\<lambda>b. rocks_ok dok copts b \<and> rocks_cfs b (h_id h) \<noteq> None \<and> snd (rocks_entries ent b (h_id h) (handle_key eik en h)) = [] \<and>
        encoded V (fst (rocks_entries ent b (h_id h) (handle_key eik en h))))
      (\<lambda>b. decoded V (fst (rocks_entries ent b (h_id h) (handle_key eik en h))))
      (rocks_frame ent (h_id h) (\<lambda>k. k = handle_key eik en h)) \<and>
    bounded_vec_state (rocks_vec_ops D IK N V s) (vec_fits V)
      (\<lambda>b. rocks_ok dok copts b \<and> rocks_cfs b (h_id s) = Some (merge_options IK N rocks_vec_merge) \<and>
        rocks_vec_cell_ok V (rocks_entries ent b (h_id s) (handle_key eik en s)))
      (\<lambda>b. rocks_vec_content V (rocks_entries ent b (h_id s) (handle_key eik en s)))
      (rocks_frame ent (h_id s) (\<lambda>k. k = handle_key eik en s)) \<and>
    reducer_state (rocks_reducer_ops D IK N V r) (h_extra_data r)
      (\<lambda>b. rocks_ok dok copts b \<and> rocks_cfs b (h_id r) = Some (merge_options IK N (rocks_reducer_merge V (h_extra_data r))) \<and>
        reducer_cell_ok V (rocks_entries ent b (h_id r) (handle_key eik en r)))
      (\<lambda>b. reducer_content V (h_extra_data r) (rocks_entries ent b (h_id r) (handle_key eik en r)))
      (rocks_frame ent (h_id r) (\<lambda>k. k = handle_key eik en r)) \<and>
    aggregator_state (rocks_aggregator_ops D IK N INP ACC a) (h_extra_data a)
      (\<lambda>b. rocks_ok dok copts b \<and>
        rocks_cfs b (h_id a) = Some (merge_options IK N (rocks_aggregator_merge INP ACC (h_extra_data a))) \<and>
        aggregator_cell_ok INP ACC (h_extra_data a) (rocks_entries ent b (h_id a) (handle_key eik en a)))
      (\<lambda>b. aggregator_content INP ACC (h_extra_data a) (rocks_entries ent b (h_id a) (handle_key eik en a)))
      (rocks_frame ent (h_id a) (\<lambda>k. k = handle_key eik en a))"
proof (intro conjI)
  have ch: "rocks_cell D dok ent copts IK eik vik N en vn h" and cs: "rocks_cell D dok ent copts IK eik vik N en vn s"
    and cr: "rocks_cell D dok ent copts IK eik vik N en vn r" and ca: "rocks_cell D dok ent copts IK eik vik N en vn a"
    using assms(1,2,10-17) by (simp_all add: rocks_cell_def rocks_cell_axioms_def)
  note key = metakeys.mk_def [OF assms(2)] handle_key_def
  have v: "rocks_value D dok ent copts IK eik vik N en vn h V"
    using ch assms(3,4) by (simp add: rocks_value_def rocks_value_axioms_def)
  from rocks_value.refines_value [OF v] show "value_state (rocks_value_ops D IK N V h)
      (\<lambda>b. rocks_ok dok copts b \<and> rocks_cfs b (h_id h) \<noteq> None \<and> snd (rocks_entries ent b (h_id h) (handle_key eik en h)) = [] \<and>
        encoded V (fst (rocks_entries ent b (h_id h) (handle_key eik en h))))
      (\<lambda>b. decoded V (fst (rocks_entries ent b (h_id h) (handle_key eik en h))))
      (rocks_frame ent (h_id h) (\<lambda>k. k = handle_key eik en h))"
    unfolding rocks_value.value_inv_def [OF v, abs_def] rocks_cell.cell_frame_def [OF ch] key .
  have vec: "rocks_vec D dok ent copts IK eik vik N en vn s V"
    using cs assms(3,5) by (simp add: rocks_vec_def vec_encodings_def)
  from rocks_vec.refines_vec [OF vec] show "bounded_vec_state (rocks_vec_ops D IK N V s) (vec_fits V)
      (\<lambda>b. rocks_ok dok copts b \<and> rocks_cfs b (h_id s) = Some (merge_options IK N rocks_vec_merge) \<and>
        rocks_vec_cell_ok V (rocks_entries ent b (h_id s) (handle_key eik en s)))
      (\<lambda>b. rocks_vec_content V (rocks_entries ent b (h_id s) (handle_key eik en s)))
      (rocks_frame ent (h_id s) (\<lambda>k. k = handle_key eik en s))"
    unfolding rocks_vec.vec_inv_def [OF vec, abs_def] rocks_cell.cell_frame_def [OF cs] key .
  have red: "rocks_reducer D dok ent copts IK eik vik N en vn r V"
    using cr assms(3,4) by (simp add: rocks_reducer_def rocks_reducer_axioms_def)
  from rocks_reducer.refines_reducer [OF red] show "reducer_state (rocks_reducer_ops D IK N V r) (h_extra_data r)
      (\<lambda>b. rocks_ok dok copts b \<and> rocks_cfs b (h_id r) = Some (merge_options IK N (rocks_reducer_merge V (h_extra_data r))) \<and>
        reducer_cell_ok V (rocks_entries ent b (h_id r) (handle_key eik en r)))
      (\<lambda>b. reducer_content V (h_extra_data r) (rocks_entries ent b (h_id r) (handle_key eik en r)))
      (rocks_frame ent (h_id r) (\<lambda>k. k = handle_key eik en r))"
    unfolding rocks_reducer.reducer_inv_def [OF red, abs_def] rocks_cell.cell_frame_def [OF cr] key .
  have agg: "rocks_aggregator D dok ent copts IK eik vik N en vn a INP ACC"
    using ca assms(6-9) by (simp add: rocks_aggregator_def rocks_aggregator_axioms_def)
  from rocks_aggregator.refines_aggregator [OF agg] show "aggregator_state (rocks_aggregator_ops D IK N INP ACC a) (h_extra_data a)
      (\<lambda>b. rocks_ok dok copts b \<and>
        rocks_cfs b (h_id a) = Some (merge_options IK N (rocks_aggregator_merge INP ACC (h_extra_data a))) \<and>
        aggregator_cell_ok INP ACC (h_extra_data a) (rocks_entries ent b (h_id a) (handle_key eik en a)))
      (\<lambda>b. aggregator_content INP ACC (h_extra_data a) (rocks_entries ent b (h_id a) (handle_key eik en a)))
      (rocks_frame ent (h_id a) (\<lambda>k. k = handle_key eik en a))"
    unfolding rocks_aggregator.aggregator_inv_def [OF agg, abs_def] rocks_cell.cell_frame_def [OF ca] key .
qed

theorem rocks_states_refine_witness:
  "bounded_vec_state (rocks_vec_ops list_rocks unit_fb unit_fb u64_message (vec_handle ''buffer'')) (vec_fits u64_message)
     (\<lambda>b. rocks_ok lr_ok lr_options b \<and> rocks_cfs b ''buffer'' = Some (merge_options unit_fb unit_fb rocks_vec_merge) \<and>
       rocks_vec_cell_ok u64_message (rocks_entries lr_entry b ''buffer'' []))
     (\<lambda>b. rocks_vec_content u64_message (rocks_entries lr_entry b ''buffer'' [])) (rocks_frame lr_entry ''buffer'' (\<lambda>k. k = [])) \<and>
   reducer_state (rocks_reducer_ops list_rocks unit_fb unit_fb u64_message (reducer_handle ''sum'' sum_fn)) sum_fn
     (\<lambda>b. rocks_ok lr_ok lr_options b \<and>
       rocks_cfs b ''sum'' = Some (merge_options unit_fb unit_fb (rocks_reducer_merge u64_message sum_fn)) \<and>
       reducer_cell_ok u64_message (rocks_entries lr_entry b ''sum'' []))
     (\<lambda>b. reducer_content u64_message sum_fn (rocks_entries lr_entry b ''sum'' [])) (rocks_frame lr_entry ''sum'' (\<lambda>k. k = []))"
  using rocks_states_refine [OF list_rocks.rocks_store_axioms mk0.metakeys_axioms u64_message_law u64_message_fits(1,3)
      u64_message_law u64_message_fits(2) u64_message_law u64_message_fits(2),
      of "value_handle ''v''" "vec_handle ''buffer''" "reducer_handle ''sum'' sum_fn" "aggregator_handle ''agg'' sum_agg"]
  by (simp add: handle_key_def vec_handle_def reducer_handle_def no_extra_def)

text \<open>It does not matter when RocksDB applies the merge operators, nor to which of the operands it has
  collected: after any background merges the entry of a vector, of a reducer with an associative
  function and of an aggregator whose accumulators combine as the values behind them is still well
  formed and has the same content.\<close>

theorem rocks_merges_grouped:
  assumes "message_law V" and "messages_fit 0 V" and "never_empty V"
    and "\<And>x y z. f (f x y) z = f x (f y z)"
    and "aggregator_law A mg" and "message_law ACC" and "messages_fit 1 ACC"
  shows "(compacted rocks_vec_merge e e' \<longrightarrow> rocks_vec_cell_ok V e \<longrightarrow>
      rocks_vec_cell_ok V e' \<and> rocks_vec_content V e' = rocks_vec_content V e) \<and>
    (compacted (rocks_reducer_merge V f) e e' \<longrightarrow> reducer_cell_ok V e \<longrightarrow>
      reducer_cell_ok V e' \<and> reducer_content V f e' = reducer_content V f e) \<and>
    (compacted (rocks_aggregator_merge INP ACC A) e e' \<longrightarrow> aggregator_cell_ok INP ACC A e \<longrightarrow>
      aggregator_cell_ok INP ACC A e' \<and> aggregator_content INP ACC A e' = aggregator_content INP ACC A e)"
  using vec_compacted [OF assms(1,3)] reducer_compacted [OF assms(1,2,4)] aggregator_compacted [OF assms(5-7)] by blast

lemma sum_agg_law: "aggregator_law sum_agg sum_fn"
  by (simp add: aggregator_law_def sum_agg_def sum_fn_def)

theorem rocks_merges_grouped_witness:
  "reducer_content u64_message sum_fn (Some (msg_encode u64_message 6), [msg_encode u64_message 4])
    = reducer_content u64_message sum_fn (None, map (msg_encode u64_message) [1, 2, 3, 4])"
proof -
  let ?e = "(None :: bytes option, map (msg_encode u64_message) [1, 2, 3, 4])"
  let ?m = "rocks_reducer_merge u64_message sum_fn"
  note grouped = rocks_merges_grouped [OF u64_message_law u64_message_fits(1,3) _ sum_agg_law u64_message_law
      u64_message_fits(2), of sum_fn, THEN conjunct2, THEN conjunct1]
  have "compacted ?m ?e (None, [] @ map (msg_encode u64_message) [1, 2, 3] @ [msg_encode u64_message 4])"
    by (simp add: compacted.untouched)
  from compacted.full [OF this [unfolded append_Nil]]
  have "compacted ?m ?e (Some (msg_encode u64_message 6), [msg_encode u64_message 4])"
    using reducer_merge_enc [OF u64_message_law u64_message_fits(1), of None _ 1 "[2, 3]" sum_fn] by (simp add: sum_fn_def)
  moreover have "reducer_cell_ok u64_message ?e" unfolding reducer_cell_ok_def by (intro exI [of _ "[1, 2, 3, 4]"]) simp
  ultimately show ?thesis using grouped [of ?e "(Some (msg_encode u64_message 6), [msg_encode u64_message 4])"]
    by (simp add: sum_fn_def add.assoc)
qed

text \<open>A backend on a directory with column families is opened by the registration of the last of them: as
  long as one of them is missing, registering others only records their options, and every access to
  the database and every checkpoint fails with \<open>RocksUninitialized\<close> and the column families still
  missing, leaving the backend as it is; once all are registered, in whatever order, the database is
  opened with exactly the options registered.\<close>

theorem rocks_registration:
  assumes "rk_inner r = Uninitialized u k" and "distinct (map fst regs)" and "fst ` set regs \<inter> dom k = {}"
  shows "(\<not> u \<subseteq> fst ` set regs \<longrightarrow>
      (\<exists>r'. register_all D disk regs r = (Ok (), r') \<and>
        r' = r\<lparr>rk_inner := Uninitialized (u - fst ` set regs) (k ++ map_of regs)\<rparr> \<and>
        (\<forall>cf key. rocks_get D cf key r' = Err (RocksUninitialized (u - fst ` set regs)) \<and>
          rocks_contains D cf key r' = Err (RocksUninitialized (u - fst ` set regs))) \<and>
        (\<forall>m. initialized_mut m r' = (Err (RocksUninitialized (u - fst ` set regs)) :: unit state_result, r')) \<and>
        (\<forall>cp d. rocks_checkpoint D cp r' d = (Err (RocksUninitialized (u - fst ` set regs)), d)))) \<and>
    (fst ` set regs = u \<and> regs \<noteq> [] \<and> rk_open_cf_descriptors D (dir_at disk (rk_path r)) (k ++ map_of regs) = Ok db \<longrightarrow>
      register_all D disk regs r = (Ok (), r\<lparr>rk_inner := Initialized \<lparr>ir_db = db, ir_options = k ++ map_of regs\<rparr>\<rparr>))"
proof -
  have r: "r = r\<lparr>rk_inner := Uninitialized u k\<rparr>" using assms(1) by simp
  have "register_all D disk regs r = (Ok (), r\<lparr>rk_inner := Uninitialized (u - fst ` set regs) (k ++ map_of regs)\<rparr>)"
    if "\<not> u \<subseteq> fst ` set regs"
    using register_waiting [OF that assms(2,3), of D disk r] r by simp
  moreover have "register_all D disk regs r = (Ok (), r\<lparr>rk_inner := Initialized \<lparr>ir_db = db, ir_options = k ++ map_of regs\<rparr>\<rparr>)"
    if "fst ` set regs = u" "regs \<noteq> []" "rk_open_cf_descriptors D (dir_at disk (rk_path r)) (k ++ map_of regs) = Ok db"
    using register_last [OF that(1) assms(2) that(2), of k D disk r db] that(1,3) assms(3) r by simp
  ultimately show ?thesis
    by (auto simp: rocks_get_def rocks_contains_def initialized_def initialized_mut_def rocks_checkpoint_def bind_s_def)
qed

theorem rocks_registration_witness:
  "register_all list_rocks [''db'' \<mapsto> [(''f'', Some \<lparr>lr_data = (\<lambda>_. []),
       lr_cfs = [(''default'', default_options), (''a'', default_options), (''b'', default_options)]\<rparr>)]]
     [(''b'', default_options)]
     \<lparr>rk_inner = Uninitialized {''a'', ''b''} [''default'' \<mapsto> default_options], rk_path = ''db'', rk_restored = True\<rparr>
   = (Ok (), \<lparr>rk_inner = Uninitialized {''a''} [''default'' \<mapsto> default_options, ''b'' \<mapsto> default_options],
       rk_path = ''db'', rk_restored = True\<rparr>)"
  (is "register_all _ ?disk ?regs ?r = _")
proof -
  have "{''a'', ''b''} - fst ` set ?regs = {''a''}" by auto
  then show ?thesis
    using rocks_registration [of ?r "{''a'', ''b''}" "[''default'' \<mapsto> default_options]" ?regs list_rocks ?disk]
    by (simp del: register_all.simps)
qed

text \<open>C34: A checkpoint of the RocksDB backend can be restored: the files of the checkpoint are copied to the
  empty live directory and the backend created on them is marked as restored. It is not open yet
  unless the database had the default column family only; after the registration of all its column
  families, in whatever order, it holds exactly the entries of the backend that was checkpointed,
  with the options now registered.\<close>

theorem rocks_checkpoint_restores:
  assumes "rocks_disk D dok ent copts snap" and "rocks_ok dok copts r"
    and "disk live = None \<or> disk live = Some []" and "live \<noteq> cp"
    and "distinct (map fst regs)" and "fst ` set regs = dom (rocks_cfs r) - {''default''}"
  shows "\<exists>disk1 disk2 r1 r2. rocks_checkpoint D cp r disk = (Ok (), disk1) \<and>
    rocks_restore D live cp disk1 = (Ok r1, disk2) \<and> rocks_was_restored r1 \<and> (is_initialized r1 \<longleftrightarrow> regs = []) \<and>
    register_all D disk2 regs r1 = (Ok (), r2) \<and> rocks_ok dok copts r2 \<and> rocks_entries ent r2 = rocks_entries ent r \<and>
    rocks_cfs r2 = [''default'' \<mapsto> default_options] ++ map_of regs"
proof -
  have "dir_at disk live = []" using assms(3) by (auto simp: dir_at_def)
  from rocks_disk.recover_ok [OF assms(1,2) this assms(4-6)] show ?thesis .
qed

definition demo_rocks :: "list_rocks_db rocks" where
  "demo_rocks = \<lparr>rk_inner = Initialized \<lparr>ir_db = \<lparr>lr_data = (\<lambda>_. [])(''a'' := [([1], (Some [2], []))]),
      lr_cfs = [(''default'', default_options), (''a'', default_options)]\<rparr>,
      ir_options = [''default'' \<mapsto> default_options, ''a'' \<mapsto> default_options]\<rparr>, rk_path = ''live'', rk_restored = False\<rparr>"

theorem rocks_checkpoint_restores_witness:
  "\<exists>disk1 disk2 r1 r2. rocks_checkpoint list_rocks ''cp'' demo_rocks Map.empty = (Ok (), disk1) \<and>
    rocks_restore list_rocks ''new'' ''cp'' disk1 = (Ok r1, disk2) \<and> rocks_was_restored r1 \<and>
    register_all list_rocks disk2 [(''a'', default_options)] r1 = (Ok (), r2) \<and>
    rocks_entries lr_entry r2 ''a'' [1] = (Some [2], [])"
proof -
  have ok: "rocks_ok lr_ok lr_options demo_rocks"
    by (auto simp: rocks_ok_def demo_rocks_def lr_ok_def lr_options_def fun_eq_iff)
  have "fst ` set [(''a'', default_options)] = dom (rocks_cfs demo_rocks) - {''default''}"
    by (auto simp: rocks_cfs_def demo_rocks_def)
  from rocks_checkpoint_restores [OF list_rocks.rocks_disk_axioms ok _ _ _ this, of Map.empty "''new''" "''cp''"]
  obtain disk1 disk2 r1 r2 where "rocks_checkpoint list_rocks ''cp'' demo_rocks Map.empty = (Ok (), disk1)"
      "rocks_restore list_rocks ''new'' ''cp'' disk1 = (Ok r1, disk2)" "rocks_was_restored r1"
      "register_all list_rocks disk2 [(''a'', default_options)] r1 = (Ok (), r2)"
      "rocks_entries lr_entry r2 = rocks_entries lr_entry demo_rocks" by auto
  moreover have "rocks_entries lr_entry demo_rocks ''a'' [1] = (Some [2], [])"
    by (simp add: rocks_entries_def demo_rocks_def lr_entry_def)
  ultimately show ?thesis by auto
qed

end
