(* ===== verification/Sessions.thy ===== *)
theory Sessions
  imports State_Contracts
begin

text \<open>
  The contracts of \<open>State_Contracts\<close> for backends whose reads change the backend as well: the FASTER
  backend numbers its calls and the metered backend records how long they take, both through
  interior mutability. Every call is an action here, and an iterator is drained by its call. Such a
  backend can only answer so many calls (its counters are machine words that must not overflow), so
  the invariant \<open>I n\<close> says how much is left: a call costs \<open>c\<close>, or \<open>c\<close> for each entry it touches.
\<close>

section \<open>Calls\<close>

record ('b, 'v) value_calls =
  vc_clear :: "('b, arcon_state_error, unit) action"
  vc_get :: "('b, arcon_state_error, 'v option) action"
  vc_set :: "'v \<Rightarrow> ('b, arcon_state_error, 'v option) action"
  vc_fast_set :: "'v \<Rightarrow> ('b, arcon_state_error, unit) action"

record ('b, 'k, 'v) map_calls =
  mc_clear :: "('b, arcon_state_error, unit) action"
  mc_get :: "'k \<Rightarrow> ('b, arcon_state_error, 'v option) action"
  mc_fast_insert :: "'k \<Rightarrow> 'v \<Rightarrow> ('b, arcon_state_error, unit) action"
  mc_insert :: "'k \<Rightarrow> 'v \<Rightarrow> ('b, arcon_state_error, 'v option) action"
  mc_insert_all :: "('k \<times> 'v) list \<Rightarrow> ('b, arcon_state_error, unit) action"
  mc_remove :: "'k \<Rightarrow> ('b, arcon_state_error, 'v option) action"
  mc_fast_remove :: "'k \<Rightarrow> ('b, arcon_state_error, unit) action"
  mc_contains :: "'k \<Rightarrow> ('b, arcon_state_error, bool) action"
  mc_iter :: "('b, arcon_state_error, ('k \<times> 'v) state_result list) action"
  mc_keys :: "('b, arcon_state_error, 'k state_result list) action"
  mc_values :: "('b, arcon_state_error, 'v state_result list) action"
  mc_len :: "('b, arcon_state_error, nat) action"
  mc_is_empty :: "('b, arcon_state_error, bool) action"

record ('b, 'v) vec_calls =
  ec_clear :: "('b, arcon_state_error, unit) action"
  ec_append :: "'v \<Rightarrow> ('b, arcon_state_error, unit) action"
  ec_get :: "('b, arcon_state_error, 'v list) action"
  ec_iter :: "('b, arcon_state_error, 'v state_result list) action"
  ec_set :: "'v list \<Rightarrow> ('b, arcon_state_error, unit) action"
  ec_add_all :: "'v list \<Rightarrow> ('b, arcon_state_error, unit) action"
  ec_len :: "('b, arcon_state_error, nat) action"
  ec_is_empty :: "('b, arcon_state_error, bool) action"

record ('b, 'v) reducer_calls =
  rc_clear :: "('b, arcon_state_error, unit) action"
  rc_get :: "('b, arcon_state_error, 'v option) action"
  rc_reduce :: "'v \<Rightarrow> ('b, arcon_state_error, unit) action"

record ('b, 'i, 'r) aggregator_calls =
  ac_clear :: "('b, arcon_state_error, unit) action"
  ac_get :: "('b, arcon_state_error, 'r) action"
  ac_aggregate :: "'i \<Rightarrow> ('b, arcon_state_error, unit) action"

text \<open>\<open>yields m b x Q\<close>: the call returns \<open>x\<close> and leaves a backend that satisfies \<open>Q\<close>.\<close>

definition yields :: "('b, 'e, 'a) action \<Rightarrow> 'b \<Rightarrow> 'a \<Rightarrow> ('b \<Rightarrow> bool) \<Rightarrow> bool" where
  "yields m b x Q \<longleftrightarrow> (\<exists>b'. m b = (Ok x, b') \<and> Q b')"

lemma yieldsI: "m b = (Ok x, b') \<Longrightarrow> Q b' \<Longrightarrow> yields m b x Q"
  by (auto simp: yields_def)

lemma yieldsE:
  assumes "yields m b x Q"
  obtains b' where "m b = (Ok x, b')" "Q b'"
  using assms by (auto simp: yields_def)

lemma yields_mono: "yields m b x Q \<Longrightarrow> (\<And>b'. Q b' \<Longrightarrow> R b') \<Longrightarrow> yields m b x R"
  by (auto simp: yields_def)

lemma yields_return [simp]: "yields (return_s x) b y Q \<longleftrightarrow> x = y \<and> Q b"
  by (auto simp: yields_def)

lemma yields_query [simp]: "yields (query f) b x Q \<longleftrightarrow> f b = Ok x \<and> Q b"
  by (auto simp: yields_def)

lemma yields_bind: "yields m b x P \<Longrightarrow> (\<And>b'. P b' \<Longrightarrow> yields (f x) b' y Q) \<Longrightarrow> yields (bind_s m f) b y Q"
  by (auto simp: yields_def)

lemma bind_s_known [simp]: "bind_s (query (\<lambda>_. Ok x)) f = f x" "bind_s (lift_o (Ok x)) f = f x" "bind_s (return_s x) f = f x"
  by (simp_all add: fun_eq_iff)

lemma bind_s_done [simp]: "bind_s m return_s = m" "bind_s m (\<lambda>_. return_s ()) = m"
  by (auto simp: fun_eq_iff bind_s_def split: prod.splits outcome.splits)

section \<open>Value state\<close>

locale value_session =
  fixes H :: "('b, 'v) value_calls" and I :: "nat \<Rightarrow> 'b \<Rightarrow> bool" and c :: nat
    and val :: "'b \<Rightarrow> 'v option" and frame :: "'b \<Rightarrow> 'f"
  assumes vc_budget: "I n b \<Longrightarrow> m \<le> n \<Longrightarrow> I m b"
    and vcget: "I (n + c) b \<Longrightarrow> yields (vc_get H) b (val b) (\<lambda>b'. I n b' \<and> val b' = val b \<and> frame b' = frame b)"
    and vcset: "I (n + c) b \<Longrightarrow>
      yields (vc_set H v) b (val b) (\<lambda>b'. I n b' \<and> val b' = Some v \<and> frame b' = frame b)"
    and vcfast_set: "I (n + c) b \<Longrightarrow>
      yields (vc_fast_set H v) b () (\<lambda>b'. I n b' \<and> val b' = Some v \<and> frame b' = frame b)"
    and vcclear: "I (n + c) b \<Longrightarrow> yields (vc_clear H) b () (\<lambda>b'. I n b' \<and> val b' = None \<and> frame b' = frame b)"
begin

text \<open>Any sequence of writes leaves the last one to be read.\<close>

fun set_each :: "'v list \<Rightarrow> ('b, arcon_state_error, unit) action" where
  "set_each [] = return_s ()"
| "set_each (v # vs) = bind_s (vc_fast_set H v) (\<lambda>_. set_each vs)"

lemma set_each_last:
  "I (n + c * length vs) b \<Longrightarrow> yields (set_each vs) b () (\<lambda>b'. I n b' \<and>
     val b' = (if vs = [] then val b else Some (last vs)) \<and> frame b' = frame b)"
proof (induction vs arbitrary: b)
  case (Cons v vs)
  from Cons.prems have "I ((n + c * length vs) + c) b" by (simp add: ac_simps)
  then have "yields (vc_fast_set H v) b () (\<lambda>b'. I (n + c * length vs) b' \<and> val b' = Some v \<and> frame b' = frame b)"
    by (rule vcfast_set)
  then show ?case
    unfolding set_each.simps
  proof (rule yields_bind)
    fix b'
    assume b': "I (n + c * length vs) b' \<and> val b' = Some v \<and> frame b' = frame b"
    then show "yields (set_each vs) b' () (\<lambda>b'. I n b' \<and>
        val b' = (if v # vs = [] then val b else Some (last (v # vs))) \<and> frame b' = frame b)"
      by (intro yields_mono [OF Cons.IH]) auto
  qed
qed simp

end

section \<open>Map state\<close>

text \<open>
  The operations on single entries; \<open>removable\<close> is the condition under which a backend can remove a
  key. Insertion of a sequence costs one unit for each pair.
\<close>

locale map_session =
  fixes H :: "('b, 'k, 'v) map_calls" and I :: "nat \<Rightarrow> 'b \<Rightarrow> bool" and c :: nat
    and key_ok :: "'k \<Rightarrow> bool" and removable :: "'b \<Rightarrow> 'k \<Rightarrow> bool"
    and entries :: "'b \<Rightarrow> 'k \<rightharpoonup> 'v" and frame :: "'b \<Rightarrow> 'f"
  assumes mc_budget: "I n b \<Longrightarrow> m \<le> n \<Longrightarrow> I m b"
    and mcget: "I (n + c) b \<Longrightarrow> key_ok k \<Longrightarrow>
      yields (mc_get H k) b (entries b k) (\<lambda>b'. I n b' \<and> entries b' = entries b \<and> frame b' = frame b)"
    and mccontains: "I (n + c) b \<Longrightarrow> key_ok k \<Longrightarrow>
      yields (mc_contains H k) b (entries b k \<noteq> None) (\<lambda>b'. I n b' \<and> entries b' = entries b \<and> frame b' = frame b)"
    and mcinsert: "I (n + c) b \<Longrightarrow> key_ok k \<Longrightarrow>
      yields (mc_insert H k v) b (entries b k) (\<lambda>b'. I n b' \<and> entries b' = (entries b)(k \<mapsto> v) \<and> frame b' = frame b)"
    and mcfast_insert: "I (n + c) b \<Longrightarrow> key_ok k \<Longrightarrow>
      yields (mc_fast_insert H k v) b () (\<lambda>b'. I n b' \<and> entries b' = (entries b)(k \<mapsto> v) \<and> frame b' = frame b)"
    and mcinsert_all: "I (n + c * Suc (length kvs)) b \<Longrightarrow> list_all (\<lambda>p. key_ok (fst p)) kvs \<Longrightarrow>
      yields (mc_insert_all H kvs) b ()
        (\<lambda>b'. I n b' \<and> entries b' = entries b ++ map_of (rev kvs) \<and> frame b' = frame b)"
    and mcremove: "I (n + c) b \<Longrightarrow> key_ok k \<Longrightarrow> removable b k \<Longrightarrow>
      yields (mc_remove H k) b (entries b k) (\<lambda>b'. I n b' \<and> entries b' = (entries b)(k := None) \<and> frame b' = frame b)"
    and mcfast_remove: "I (n + c) b \<Longrightarrow> key_ok k \<Longrightarrow> removable b k \<Longrightarrow>
      yields (mc_fast_remove H k) b () (\<lambda>b'. I n b' \<and> entries b' = (entries b)(k := None) \<and> frame b' = frame b)"
begin

text \<open>A key that was just inserted is found, and any other key as before.\<close>

lemma insert_then_get:
  assumes "I (n + c + c) b" "key_ok k" "key_ok k'"
  shows "yields (bind_s (mc_insert H k v) (\<lambda>_. mc_get H k')) b (if k' = k then Some v else entries b k')
    (\<lambda>b'. I n b' \<and> entries b' = (entries b)(k \<mapsto> v) \<and> frame b' = frame b)"
proof (rule yields_bind [OF mcinsert [OF assms(1,2)]])
  fix b'
  assume b': "I (n + c) b' \<and> entries b' = (entries b)(k \<mapsto> v) \<and> frame b' = frame b"
  then have g: "yields (mc_get H k') b' (entries b' k') (\<lambda>b''. I n b'' \<and> entries b'' = entries b' \<and> frame b'' = frame b')"
    using mcget assms(3) by blast
  have "entries b' k' = (if k' = k then Some v else entries b k')" using b' by simp
  then show "yields (mc_get H k') b' (if k' = k then Some v else entries b k')
      (\<lambda>b''. I n b'' \<and> entries b'' = (entries b)(k \<mapsto> v) \<and> frame b'' = frame b)"
    using yields_mono [OF g] b' by simp
qed

end

text \<open>The operations that touch every entry.\<close>

locale map_walk_session = map_session H I c key_ok removable entries frame
  for H :: "('b, 'k, 'v) map_calls" and I c key_ok removable entries and frame :: "'b \<Rightarrow> 'f" +
  assumes mcfinite: "I n b \<Longrightarrow> finite (dom (entries b))"
    and mcclear: "I (n + c * Suc (card (dom (entries b)))) b \<Longrightarrow>
      yields (mc_clear H) b () (\<lambda>b'. I n b' \<and> entries b' = Map.empty \<and> frame b' = frame b)"
    and mciter: "I (n + c * Suc (card (dom (entries b)))) b \<Longrightarrow>
      \<exists>kvs. yields (mc_iter H) b (map Ok kvs) (\<lambda>b'. I n b' \<and> entries b' = entries b \<and> frame b' = frame b) \<and>
        distinct (map fst kvs) \<and> map_of kvs = entries b"
    and mckeys: "I (n + c * Suc (card (dom (entries b)))) b \<Longrightarrow>
      \<exists>ks. yields (mc_keys H) b (map Ok ks) (\<lambda>b'. I n b' \<and> entries b' = entries b \<and> frame b' = frame b) \<and>
        distinct ks \<and> set ks = dom (entries b)"
    and mcvalues: "I (n + c * Suc (card (dom (entries b)))) b \<Longrightarrow>
      \<exists>vs. yields (mc_values H) b (map Ok vs) (\<lambda>b'. I n b' \<and> entries b' = entries b \<and> frame b' = frame b) \<and>
        set vs = ran (entries b)"
    and mclen: "I (n + c) b \<Longrightarrow>
      yields (mc_len H) b (card (dom (entries b))) (\<lambda>b'. I n b' \<and> entries b' = entries b \<and> frame b' = frame b)"
    and mcis_empty: "I (n + c) b \<Longrightarrow>
      yields (mc_is_empty H) b (entries b = Map.empty) (\<lambda>b'. I n b' \<and> entries b' = entries b \<and> frame b' = frame b)"

section \<open>Vector, reducer and aggregator state\<close>

locale vec_session =
  fixes H :: "('b, 'v) vec_calls" and I :: "nat \<Rightarrow> 'b \<Rightarrow> bool" and c :: nat
    and items :: "'b \<Rightarrow> 'v list" and frame :: "'b \<Rightarrow> 'f"
  assumes ec_budget: "I n b \<Longrightarrow> m \<le> n \<Longrightarrow> I m b"
    and ecget: "I (n + c) b \<Longrightarrow> yields (ec_get H) b (items b) (\<lambda>b'. I n b' \<and> items b' = items b \<and> frame b' = frame b)"
    and eciter: "I (n + c * Suc (length (items b))) b \<Longrightarrow>
      yields (ec_iter H) b (map Ok (items b)) (\<lambda>b'. I n b' \<and> items b' = items b \<and> frame b' = frame b)"
    and eclen: "I (n + c) b \<Longrightarrow>
      yields (ec_len H) b (length (items b)) (\<lambda>b'. I n b' \<and> items b' = items b \<and> frame b' = frame b)"
    and ecis_empty: "I (n + c) b \<Longrightarrow>
      yields (ec_is_empty H) b (items b = []) (\<lambda>b'. I n b' \<and> items b' = items b \<and> frame b' = frame b)"
    and ecappend: "I (n + c) b \<Longrightarrow>
      yields (ec_append H v) b () (\<lambda>b'. I n b' \<and> items b' = items b @ [v] \<and> frame b' = frame b)"
    and ecadd_all: "I (n + c) b \<Longrightarrow>
      yields (ec_add_all H vs) b () (\<lambda>b'. I n b' \<and> items b' = items b @ vs \<and> frame b' = frame b)"
    and ecset: "I (n + c) b \<Longrightarrow> yields (ec_set H vs) b () (\<lambda>b'. I n b' \<and> items b' = vs \<and> frame b' = frame b)"
    and ecclear: "I (n + c) b \<Longrightarrow> yields (ec_clear H) b () (\<lambda>b'. I n b' \<and> items b' = [] \<and> frame b' = frame b)"

locale reducer_session =
  fixes H :: "('b, 'v) reducer_calls" and f :: "'v \<Rightarrow> 'v \<Rightarrow> 'v" and I :: "nat \<Rightarrow> 'b \<Rightarrow> bool" and c :: nat
    and red :: "'b \<Rightarrow> 'v option" and frame :: "'b \<Rightarrow> 'f"
  assumes rc_budget: "I n b \<Longrightarrow> m \<le> n \<Longrightarrow> I m b"
    and rcget: "I (n + c) b \<Longrightarrow> yields (rc_get H) b (red b) (\<lambda>b'. I n b' \<and> red b' = red b \<and> frame b' = frame b)"
    and rcreduce: "I (n + c) b \<Longrightarrow> yields (rc_reduce H v) b ()
      (\<lambda>b'. I n b' \<and> red b' = Some (case red b of None \<Rightarrow> v | Some old \<Rightarrow> f old v) \<and> frame b' = frame b)"
    and rcclear: "I (n + c) b \<Longrightarrow> yields (rc_clear H) b () (\<lambda>b'. I n b' \<and> red b' = None \<and> frame b' = frame b)"

locale aggregator_session =
  fixes H :: "('b, 'i, 'r) aggregator_calls" and A :: "('i, 'acc, 'r) aggregator" and I :: "nat \<Rightarrow> 'b \<Rightarrow> bool"
    and c :: nat and acc :: "'b \<Rightarrow> 'acc" and frame :: "'b \<Rightarrow> 'f"
  assumes ac_budget: "I n b \<Longrightarrow> m \<le> n \<Longrightarrow> I m b"
    and acget: "I (n + c) b \<Longrightarrow> accumulator_into_result A (acc b) = Ok r \<Longrightarrow>
      yields (ac_get H) b r (\<lambda>b'. I n b' \<and> acc b' = acc b \<and> frame b' = frame b)"
    and acaggregate: "I (n + c) b \<Longrightarrow> yields (ac_aggregate H v) b ()
      (\<lambda>b'. I n b' \<and> acc b' = agg_add A (acc b) v \<and> frame b' = frame b)"
    and acclear: "I (n + c) b \<Longrightarrow>
      yields (ac_clear H) b () (\<lambda>b'. I n b' \<and> acc b' = create_accumulator A \<and> frame b' = frame b)"

end
