(* ===== verification/Faster.thy ===== *)
theory Faster
  imports Sled Sessions
begin

text \<open>
  Model of \<^verbatim>\<open>arcon_state/src/faster\<close>: the backend over the key-value store FASTER. All states share
  one key space, so every key starts with the id of its handle. The store is a third-party crate:
  the record \<open>faster_api\<close> holds the methods of it that the code calls, one for each type of stored
  value. A call takes a serial number; a read returns a status and what arrives on its channel
  within two seconds, if anything. A read-modify-write call on a missing key stores the modification
  itself, on any other key it applies the \<^verbatim>\<open>FasterRmw\<close> implementation of the type, which it gets here
  as an argument. The backend passes pointers to aggregation functions through the store; they are
  the functions themselves here. Maps have two builds: with the feature \<^verbatim>\<open>slower_faster\<close> the keys of a
  map are kept in a list beside its entries, without it the operations that need them panic.
\<close>

section \<open>Stored values\<close>

type_synonym aggregator_fn = "bytes \<Rightarrow> bytes \<Rightarrow> bytes state_result"

datatype faster_vec_ops =
    VValue "bytes list"
  | VPush bytes
  | VPushIfAbsent bytes
  | VRemove bytes
  | VRemoveIdx usize

datatype faster_agg =
    AValue bytes
  | AModify bytes aggregator_fn
  | AError string

fun vec_content :: "faster_vec_ops \<Rightarrow> bytes list state_result" where
  "vec_content (VValue v) = Ok v"
| "vec_content (VPush single) = Ok [single]"
| "vec_content (VPushIfAbsent single) = Ok [single]"
| "vec_content _ = Panic ''invalid faster vec ops value''"

fun vec_modify :: "faster_vec_ops \<Rightarrow> bytes list \<Rightarrow> bytes list state_result" where
  "vec_modify (VValue elems) res = Ok (res @ elems)"
| "vec_modify (VPush elem) res = Ok (res @ [elem])"
| "vec_modify (VPushIfAbsent elem) res = Ok (if elem \<in> set res then res else res @ [elem])"
| "vec_modify (VRemove elem) res = Ok (remove1 elem res)"
| "vec_modify (VRemoveIdx idx) res =
     (if unat idx < length res then Ok (take (unat idx) res @ drop (Suc (unat idx)) res)
      else Panic ''removal index should be < len'')"

definition vec_rmw :: "faster_vec_ops \<Rightarrow> faster_vec_ops \<Rightarrow> faster_vec_ops state_result" where
  "vec_rmw self modification =
     bind_o (vec_content self) (\<lambda>res. bind_o (vec_modify modification res) (\<lambda>res. Ok (VValue res)))"

text \<open>\<open>show\<close> is the \<^verbatim>\<open>Display\<close> of errors.\<close>

fun agg_old :: "faster_agg \<Rightarrow> bytes option" where
  "agg_old (AError m) = None"
| "agg_old (AValue v) = Some v"
| "agg_old (AModify v _) = Some v"

definition agg_rmw :: "(arcon_state_error \<Rightarrow> string) \<Rightarrow> faster_agg \<Rightarrow> faster_agg \<Rightarrow> faster_agg state_result" where
  "agg_rmw shown self modification =
     (case agg_old self of
        None \<Rightarrow> Ok self
      | Some old \<Rightarrow>
          (case modification of
             AModify new f \<Rightarrow>
               (case f old new of
                  Ok bs \<Rightarrow> Ok (AValue bs)
                | Err e \<Rightarrow> Ok (AError (shown e))
                | Panic m \<Rightarrow> Panic m
                | NoFuel \<Rightarrow> NoFuel)
           | _ \<Rightarrow> Panic ''modification argument must be Agg::Modify''))"

section \<open>The store and the file system\<close>

text \<open>
  A tree of files: the content of each path, \<open>None\<close> for a directory. A path is the list of its
  components; the empty path is the working directory. The backend copies the files of the store
  without looking into them, so their content has a type \<open>'f\<close> of its own.
\<close>

type_synonym path = "string list"

datatype 'f store_file = Written bytes | Opaque 'f

type_synonym 'f tree = "(path \<times> 'f store_file option) list"

record ('db, 'f) faster_api =
  fs_file_bytes :: "'f \<Rightarrow> bytes"
  fs_build :: "path \<Rightarrow> ('f tree, arcon_state_error, 'db) action"
  fs_read_bytes :: "bytes \<Rightarrow> u64 \<Rightarrow> 'db \<Rightarrow> u8 \<times> bytes option"
  fs_read_vec :: "bytes \<Rightarrow> u64 \<Rightarrow> 'db \<Rightarrow> u8 \<times> faster_vec_ops option"
  fs_read_agg :: "bytes \<Rightarrow> u64 \<Rightarrow> 'db \<Rightarrow> u8 \<times> faster_agg option"
  fs_upsert_bytes :: "bytes \<Rightarrow> bytes \<Rightarrow> u64 \<Rightarrow> 'db \<Rightarrow> u8 \<times> 'db"
  fs_upsert_vec :: "bytes \<Rightarrow> faster_vec_ops \<Rightarrow> u64 \<Rightarrow> 'db \<Rightarrow> u8 \<times> 'db"
  fs_rmw_vec :: "(faster_vec_ops \<Rightarrow> faster_vec_ops \<Rightarrow> faster_vec_ops state_result)
    \<Rightarrow> bytes \<Rightarrow> faster_vec_ops \<Rightarrow> u64 \<Rightarrow> 'db \<Rightarrow> u8 \<times> 'db"
  fs_rmw_agg :: "(faster_agg \<Rightarrow> faster_agg \<Rightarrow> faster_agg state_result)
    \<Rightarrow> bytes \<Rightarrow> faster_agg \<Rightarrow> u64 \<Rightarrow> 'db \<Rightarrow> u8 \<times> 'db"
  fs_delete :: "bytes \<Rightarrow> u64 \<Rightarrow> 'db \<Rightarrow> u8 \<times> 'db"
  fs_complete_pending :: "'db \<Rightarrow> 'db"
  fs_checkpoint :: "('db \<times> 'f tree, arcon_state_error, bool \<times> string) action"
  fs_recover :: "string \<Rightarrow> string \<Rightarrow> 'f tree \<Rightarrow> ('db, arcon_state_error, u8) action"
  fs_start_session :: "'db \<Rightarrow> 'db"
  fs_stop_session :: "'db \<Rightarrow> 'db"

definition status_OK :: u8 where "status_OK = 0"

definition status_PENDING :: u8 where "status_PENDING = 1"

definition status_NOT_FOUND :: u8 where "status_NOT_FOUND = 2"

record 'db faster =
  fa_db :: 'db
  fa_monotonic_serial_number :: u64
  fa_aggregate_fns :: "string \<rightharpoonup> aggregator_fn"
  fa_dir :: path
  fa_restored :: bool

definition entry_at :: "'f tree \<Rightarrow> path \<Rightarrow> 'f store_file option option" where
  "entry_at t p = (if p = [] then Some None else map_of t p)"

definition read_dir :: "path \<Rightarrow> 'f tree \<Rightarrow> (string \<times> 'f store_file option) list state_result" where
  "read_dir p t =
     (if entry_at t p = Some None
      then Ok (map (\<lambda>(q, e). (last q, e)) (filter (\<lambda>(q, e). q \<noteq> [] \<and> butlast q = p) t))
      else Err (IO ''No such directory''))"

fun create_dirs :: "path \<Rightarrow> path \<Rightarrow> ('f tree, arcon_state_error, unit) action" where
  "create_dirs pre [] t = (Ok (), t)"
| "create_dirs pre (c # cs) t =
     (case entry_at t (pre @ [c]) of
        None \<Rightarrow> create_dirs (pre @ [c]) cs (t @ [(pre @ [c], None)])
      | Some None \<Rightarrow> create_dirs (pre @ [c]) cs t
      | Some (Some _) \<Rightarrow> (Err (IO ''Not a directory''), t))"

definition create_dir_all :: "path \<Rightarrow> ('f tree, arcon_state_error, unit) action" where
  "create_dir_all p = create_dirs [] p"

text \<open>Writing a file needs its directory. Copying a file onto itself truncates it.\<close>

definition write_file :: "path \<Rightarrow> 'f store_file \<Rightarrow> ('f tree, arcon_state_error, unit) action" where
  "write_file p content t =
     (if p \<noteq> [] \<and> entry_at t (butlast p) = Some None \<and> entry_at t p \<noteq> Some None
      then (Ok (), AList.update p (Some content) t)
      else (Err (IO ''Could not create the file''), t))"

definition fs_copy :: "path \<Rightarrow> path \<Rightarrow> ('f tree, arcon_state_error, unit) action" where
  "fs_copy from to t =
     (case entry_at t from of
        Some (Some content) \<Rightarrow> write_file to (if from = to then Written [] else content) t
      | _ \<Rightarrow> (Err (IO ''the source path is not an existing regular file''), t))"

fun copy_entries :: "bool \<Rightarrow> path \<Rightarrow> path \<Rightarrow> (string \<times> 'f store_file option) list \<Rightarrow> ('f tree, arcon_state_error, unit) action" where
  "copy_entries silently_ignore_dirs source_dir dest_dir [] = return_s ()"
| "copy_entries silently_ignore_dirs source_dir dest_dir ((file_name, entry) # es) =
     (if silently_ignore_dirs \<and> entry = None then copy_entries silently_ignore_dirs source_dir dest_dir es
      else bind_s (fs_copy (source_dir @ [file_name]) (dest_dir @ [file_name])) (\<lambda>_.
        copy_entries silently_ignore_dirs source_dir dest_dir es))"

definition copy_dir :: "bool \<Rightarrow> path \<Rightarrow> path \<Rightarrow> ('f tree, arcon_state_error, unit) action" where
  "copy_dir silently_ignore_dirs source_dir dest_dir =
     bind_s (query (read_dir source_dir)) (copy_entries silently_ignore_dirs source_dir dest_dir)"

definition copy_checkpoint :: "string \<Rightarrow> path \<Rightarrow> path \<Rightarrow> ('f tree, arcon_state_error, unit) action" where
  "copy_checkpoint token db_directory checkpoint_path =
     bind_s (create_dir_all (checkpoint_path @ [''cpr-checkpoints'', token])) (\<lambda>_.
     bind_s (create_dir_all (checkpoint_path @ [''index-checkpoints'', token])) (\<lambda>_.
     bind_s (copy_dir True db_directory checkpoint_path) (\<lambda>_.
     bind_s (copy_dir False (db_directory @ [''cpr-checkpoints'', token]) (checkpoint_path @ [''cpr-checkpoints'', token])) (\<lambda>_.
     copy_dir False (db_directory @ [''index-checkpoints'', token]) (checkpoint_path @ [''index-checkpoints'', token])))))"

section \<open>Calls of the store\<close>

definition next_serial_number :: "('db faster, arcon_state_error, u64) action" where
  "next_serial_number =
     bind_s (query (\<lambda>f. add_u (fa_monotonic_serial_number f) 1)) (\<lambda>n f.
       (Ok (fa_monotonic_serial_number f), f\<lparr>fa_monotonic_serial_number := n\<rparr>))"

text \<open>\<open>received\<close> and \<open>write_status\<close>: the \<^verbatim>\<open>match\<close> on the status of a read and of a write.\<close>

definition received :: "u8 \<times> 'v option \<Rightarrow> 'v option state_result" where
  "received x = (case x of (status, receiver) \<Rightarrow>
     if status = status_NOT_FOUND then Ok None
     else if status = status_OK \<or> status = status_PENDING
     then (case receiver of Some v \<Rightarrow> Ok (Some v) | None \<Rightarrow> Err FasterReceiveTimeout)
     else Err (FasterUnexpectedStatus status))"

definition write_status :: "u8 set \<Rightarrow> ('db \<Rightarrow> u8 \<times> 'db) \<Rightarrow> ('db faster, arcon_state_error, unit) action" where
  "write_status expected call f = (case call (fa_db f) of (status, d) \<Rightarrow>
     (if status \<in> expected then Ok () else Err (FasterUnexpectedStatus status), f\<lparr>fa_db := d\<rparr>))"

definition faster_get :: "('db, 'f) faster_api \<Rightarrow> bytes \<Rightarrow> ('db faster, arcon_state_error, bytes option) action" where
  "faster_get D key =
     bind_s next_serial_number (\<lambda>n. query (\<lambda>f. received (fs_read_bytes D key n (fa_db f))))"

definition faster_get_vec :: "('db, 'f) faster_api \<Rightarrow> bytes \<Rightarrow> ('db faster, arcon_state_error, bytes list option) action" where
  "faster_get_vec D key =
     bind_s next_serial_number (\<lambda>n.
     bind_s (query (\<lambda>f. received (fs_read_vec D key n (fa_db f)))) (\<lambda>x.
       case x of
         None \<Rightarrow> return_s None
       | Some vec_ops \<Rightarrow> lift_o (bind_o (vec_content vec_ops) (\<lambda>val. Ok (Some val)))))"

definition faster_put :: "('db, 'f) faster_api \<Rightarrow> bytes \<Rightarrow> bytes \<Rightarrow> ('db faster, arcon_state_error, unit) action" where
  "faster_put D key v =
     bind_s next_serial_number (\<lambda>n. write_status {status_OK, status_PENDING} (fs_upsert_bytes D key v n))"

definition faster_remove :: "('db, 'f) faster_api \<Rightarrow> bytes \<Rightarrow> ('db faster, arcon_state_error, unit) action" where
  "faster_remove D key =
     bind_s next_serial_number (\<lambda>n. write_status {status_OK, status_PENDING, status_NOT_FOUND} (fs_delete D key n))"

definition rmw_vec :: "('db, 'f) faster_api \<Rightarrow> bytes \<Rightarrow> faster_vec_ops \<Rightarrow> ('db faster, arcon_state_error, unit) action" where
  "rmw_vec D key modification =
     bind_s next_serial_number (\<lambda>n. write_status {status_OK, status_PENDING} (fs_rmw_vec D vec_rmw key modification n))"

definition vec_remove :: "('db, 'f) faster_api \<Rightarrow> bytes \<Rightarrow> bytes \<Rightarrow> ('db faster, arcon_state_error, unit) action" where
  "vec_remove D key to_remove = rmw_vec D key (VRemove to_remove)"

definition vec_push :: "('db, 'f) faster_api \<Rightarrow> bytes \<Rightarrow> bytes \<Rightarrow> ('db faster, arcon_state_error, unit) action" where
  "vec_push D key to_push = rmw_vec D key (VPush to_push)"

definition vec_push_all :: "('db, 'f) faster_api \<Rightarrow> bytes \<Rightarrow> bytes list \<Rightarrow> ('db faster, arcon_state_error, unit) action" where
  "vec_push_all D key to_push = rmw_vec D key (VValue to_push)"

definition vec_push_if_absent :: "('db, 'f) faster_api \<Rightarrow> bytes \<Rightarrow> bytes \<Rightarrow> ('db faster, arcon_state_error, unit) action" where
  "vec_push_if_absent D key to_push = rmw_vec D key (VPushIfAbsent to_push)"

definition vec_set :: "('db, 'f) faster_api \<Rightarrow> bytes \<Rightarrow> bytes list \<Rightarrow> ('db faster, arcon_state_error, unit) action" where
  "vec_set D key v =
     bind_s next_serial_number (\<lambda>n. write_status {status_OK, status_PENDING} (fs_upsert_vec D key (VValue v) n))"

definition aggregate :: "('db, 'f) faster_api \<Rightarrow> (arcon_state_error \<Rightarrow> string) \<Rightarrow> bytes \<Rightarrow> bytes \<Rightarrow> string
    \<Rightarrow> ('db faster, arcon_state_error, unit) action" where
  "aggregate D shown key new aggregate_id =
     bind_s (query (\<lambda>f. unwrap_or_panic ''aggregate fn missing; handle not registered?'' (fa_aggregate_fns f aggregate_id))) (\<lambda>fun.
     bind_s next_serial_number (\<lambda>n.
     write_status {status_OK, status_PENDING} (fs_rmw_agg D (agg_rmw shown) key (AModify new fun) n)))"

definition get_agg :: "('db, 'f) faster_api \<Rightarrow> bytes \<Rightarrow> ('db faster, arcon_state_error, bytes option) action" where
  "get_agg D key =
     bind_s next_serial_number (\<lambda>n.
     bind_s (query (\<lambda>f. received (fs_read_agg D key n (fa_db f)))) (\<lambda>x.
       case x of
         None \<Rightarrow> return_s None
       | Some (AValue v) \<Rightarrow> return_s (Some v)
       | Some (AModify v _) \<Rightarrow> return_s (Some v)
       | Some (AError message) \<Rightarrow> lift_o (Err (FasterErrorInRmw message))))"

section \<open>The backend\<close>

definition faster_create :: "('db, 'f) faster_api \<Rightarrow> path \<Rightarrow> ('f tree, arcon_state_error, 'db faster) action" where
  "faster_create D live_path =
     bind_s (fs_build D live_path) (\<lambda>db.
     return_s \<lparr>fa_db = db, fa_monotonic_serial_number = 0, fa_aggregate_fns = Map.empty,
       fa_dir = live_path, fa_restored = False\<rparr>)"

text \<open>\<open>read_to_string\<close>: a string is the list of its bytes in UTF-8, and a file that is not valid UTF-8 is
  an error.\<close>

definition continuation :: "u8 \<Rightarrow> bool" where
  "continuation b \<longleftrightarrow> 0x80 \<le> b \<and> b \<le> 0xBF"

fun valid_utf8 :: "bytes \<Rightarrow> bool" where
  "valid_utf8 [] = True"
| "valid_utf8 (b # bs) =
     (if b < 0x80 then valid_utf8 bs
      else case bs of
        [] \<Rightarrow> False
      | b2 # bs2 \<Rightarrow>
          if 0xC2 \<le> b \<and> b \<le> 0xDF then continuation b2 \<and> valid_utf8 bs2
          else case bs2 of
            [] \<Rightarrow> False
          | b3 # bs3 \<Rightarrow>
              if 0xE0 \<le> b \<and> b \<le> 0xEF then
                continuation b2 \<and> continuation b3 \<and> (b = 0xE0 \<longrightarrow> 0xA0 \<le> b2) \<and> (b = 0xED \<longrightarrow> b2 \<le> 0x9F) \<and> valid_utf8 bs3
              else case bs3 of
                [] \<Rightarrow> False
              | b4 # bs4 \<Rightarrow>
                  0xF0 \<le> b \<and> b \<le> 0xF4 \<and> continuation b2 \<and> continuation b3 \<and> continuation b4 \<and>
                  (b = 0xF0 \<longrightarrow> 0x90 \<le> b2) \<and> (b = 0xF4 \<longrightarrow> b2 \<le> 0x8F) \<and> valid_utf8 bs4)"

fun file_bytes :: "('db, 'f) faster_api \<Rightarrow> 'f store_file \<Rightarrow> bytes" where
  "file_bytes D (Written bs) = bs"
| "file_bytes D (Opaque f) = fs_file_bytes D f"

definition read_to_string :: "('db, 'f) faster_api \<Rightarrow> path \<Rightarrow> 'f tree \<Rightarrow> string state_result" where
  "read_to_string D p t =
     (case entry_at t p of
        Some (Some content) \<Rightarrow>
          if valid_utf8 (file_bytes D content) then Ok (map (\<lambda>b. char_of (unat b)) (file_bytes D content))
          else Err (IO ''stream did not contain valid UTF-8'')
      | _ \<Rightarrow> Err (IO ''No such file''))"

definition faster_restore :: "('db, 'f) faster_api \<Rightarrow> path \<Rightarrow> path \<Rightarrow> ('f tree, arcon_state_error, 'db faster) action" where
  "faster_restore D live_path checkpoint_path =
     bind_s (query (read_to_string D (checkpoint_path @ [''ARCON_CHECKPOINT_INFO'']))) (\<lambda>token.
     bind_s (if length token = 36 then return_s () else panic_s ''assertion failed: `(left == right)`'') (\<lambda>_.
     bind_s (copy_checkpoint token checkpoint_path live_path) (\<lambda>_.
     bind_s (faster_create D live_path) (\<lambda>res t.
       (case fs_recover D token token t (fa_db res) of
          (r, d) \<Rightarrow>
            (bind_o r (\<lambda>status.
               if status = status_OK then Ok (res\<lparr>fa_db := d, fa_restored := True\<rparr>)
               else if status = status_PENDING then Ok (res\<lparr>fa_db := fs_complete_pending D d, fa_restored := True\<rparr>)
               else Err (FasterUnexpectedStatus status)), t))))))"

definition faster_was_restored :: "'db faster \<Rightarrow> bool" where
  "faster_was_restored f = fa_restored f"

definition complete_pending :: "('db, 'f) faster_api \<Rightarrow> ('db faster \<times> 'f tree, arcon_state_error, unit) action" where
  "complete_pending D x = (case x of (f, t) \<Rightarrow> (Ok (), f\<lparr>fa_db := fs_complete_pending D (fa_db f)\<rparr>, t))"

definition on_tree :: "('f tree, arcon_state_error, 'a) action \<Rightarrow> ('s \<times> 'f tree, arcon_state_error, 'a) action" where
  "on_tree m x = (case x of (f, t) \<Rightarrow> (case m t of (r, t) \<Rightarrow> (r, f, t)))"

definition faster_checkpoint :: "('db, 'f) faster_api \<Rightarrow> path \<Rightarrow> ('db faster \<times> 'f tree, arcon_state_error, unit) action" where
  "faster_checkpoint D checkpoint_path =
     bind_s (complete_pending D) (\<lambda>_.
     bind_s (\<lambda>(f, t). case fs_checkpoint D (fa_db f, t) of (r, d, t) \<Rightarrow> (r, f\<lparr>fa_db := d\<rparr>, t)) (\<lambda>(checked, token).
       if \<not> checked then lift_o (Err FasterCheckpointFailed)
       else
         bind_s (complete_pending D) (\<lambda>_.
         bind_s (query (\<lambda>(f, t). Ok (fa_dir f))) (\<lambda>dir.
         on_tree (
           bind_s (copy_checkpoint token dir checkpoint_path) (\<lambda>_.
           write_file (checkpoint_path @ [''ARCON_CHECKPOINT_INFO'']) (Written (str_bytes token))))))))"

definition faster_start_session :: "('db, 'f) faster_api \<Rightarrow> 'db faster \<Rightarrow> 'db faster" where
  "faster_start_session D f = f\<lparr>fa_db := fs_start_session D (fa_db f)\<rparr>"

definition faster_session_drop_hook :: "('db, 'f) faster_api \<Rightarrow> ('db faster \<Rightarrow> 'db faster) option" where
  "faster_session_drop_hook D = Some (\<lambda>this. this\<lparr>fa_db := fs_stop_session D (fa_db this)\<rparr>)"

definition faster_register_value :: "('ik, 'n, 'x) handle \<Rightarrow> ('ik, 'n, 'x) handle" where
  "faster_register_value h = h\<lparr>h_registered := True\<rparr>"

definition faster_register_map :: "('ik, 'n, 'x) handle \<Rightarrow> ('ik, 'n, 'x) handle" where
  "faster_register_map h = h\<lparr>h_registered := True\<rparr>"

definition faster_register_vec :: "('ik, 'n, 'x) handle \<Rightarrow> ('ik, 'n, 'x) handle" where
  "faster_register_vec h = h\<lparr>h_registered := True\<rparr>"

section \<open>Value state\<close>

definition faster_value_clear ::
    "('db, 'f) faster_api \<Rightarrow> 'ik fixed_bytes \<Rightarrow> 'n fixed_bytes \<Rightarrow> ('ik, 'n, 'x) handle
      \<Rightarrow> ('db faster, arcon_state_error, unit) action" where
  "faster_value_clear D IK N h =
     bind_s (query (\<lambda>_. serialize_id_and_metakeys IK N h)) (\<lambda>key.
     bind_s (faster_remove D key) (\<lambda>_. return_s ()))"

definition faster_value_get ::
    "('db, 'f) faster_api \<Rightarrow> 'ik fixed_bytes \<Rightarrow> 'n fixed_bytes \<Rightarrow> 'v message \<Rightarrow> ('ik, 'n, 'x) handle
      \<Rightarrow> ('db faster, arcon_state_error, 'v option) action" where
  "faster_value_get D IK N V h =
     bind_s (query (\<lambda>_. serialize_id_and_metakeys IK N h)) (\<lambda>key.
     bind_s (faster_get D key) (\<lambda>x. lift_o (old_value V x)))"

definition faster_value_set ::
    "('db, 'f) faster_api \<Rightarrow> 'ik fixed_bytes \<Rightarrow> 'n fixed_bytes \<Rightarrow> 'v message \<Rightarrow> ('ik, 'n, 'x) handle \<Rightarrow> 'v
      \<Rightarrow> ('db faster, arcon_state_error, 'v option) action" where
  "faster_value_set D IK N V h v =
     bind_s (query (\<lambda>_. serialize_id_and_metakeys IK N h)) (\<lambda>key.
     bind_s (bind_s (faster_get D key) (\<lambda>x. lift_o (old_value V x))) (\<lambda>old.
     bind_s (query (\<lambda>_. protobuf_serialize V v)) (\<lambda>serialized.
     bind_s (faster_put D key serialized) (\<lambda>_. return_s old))))"

definition faster_value_fast_set ::
    "('db, 'f) faster_api \<Rightarrow> 'ik fixed_bytes \<Rightarrow> 'n fixed_bytes \<Rightarrow> 'v message \<Rightarrow> ('ik, 'n, 'x) handle \<Rightarrow> 'v
      \<Rightarrow> ('db faster, arcon_state_error, unit) action" where
  "faster_value_fast_set D IK N V h v =
     bind_s (query (\<lambda>_. serialize_id_and_metakeys IK N h)) (\<lambda>key.
     bind_s (query (\<lambda>_. protobuf_serialize V v)) (\<lambda>serialized.
     bind_s (faster_put D key serialized) (\<lambda>_. return_s ())))"

definition faster_value_calls ::
    "('db, 'f) faster_api \<Rightarrow> 'ik fixed_bytes \<Rightarrow> 'n fixed_bytes \<Rightarrow> 'v message \<Rightarrow> ('ik, 'n, 'x) handle
      \<Rightarrow> ('db faster, 'v) value_calls" where
  "faster_value_calls D IK N V h =
     \<lparr>vc_clear = faster_value_clear D IK N h, vc_get = faster_value_get D IK N V h,
      vc_set = faster_value_set D IK N V h, vc_fast_set = faster_value_fast_set D IK N V h\<rparr>"

section \<open>Map state\<close>

text \<open>The argument \<open>slow\<close> tells whether the feature \<^verbatim>\<open>slower_faster\<close> is on. \<open>if_slow\<close>: a part of a function
  that only exists with it.\<close>

definition if_slow :: "bool \<Rightarrow> ('s, 'e, unit) action \<Rightarrow> ('s, 'e, unit) action" where
  "if_slow slow m = (if slow then m else return_s ())"

fun remove_keys :: "('db, 'f) faster_api \<Rightarrow> bytes list \<Rightarrow> ('db faster, arcon_state_error, unit) action" where
  "remove_keys D [] = return_s ()"
| "remove_keys D (key # keys) = bind_s (faster_remove D key) (\<lambda>_. remove_keys D keys)"

definition faster_map_clear ::
    "bool \<Rightarrow> ('db, 'f) faster_api \<Rightarrow> 'ik fixed_bytes \<Rightarrow> 'n fixed_bytes \<Rightarrow> ('ik, 'n, 'x) handle
      \<Rightarrow> ('db faster, arcon_state_error, unit) action" where
  "faster_map_clear slow D IK N h =
     (if \<not> slow then panic_s ''Faster doesn't support map state clearing''
      else
        bind_s (query (\<lambda>_. serialize_id_and_metakeys IK N h)) (\<lambda>pre.
        bind_s (faster_get_vec D pre) (\<lambda>keys.
          case keys of
            None \<Rightarrow> return_s ()
          | Some keys \<Rightarrow> bind_s (faster_remove D pre) (\<lambda>_. remove_keys D keys))))"

definition faster_map_get ::
    "('db, 'f) faster_api \<Rightarrow> 'ik fixed_bytes \<Rightarrow> 'n fixed_bytes \<Rightarrow> 'k message \<Rightarrow> 'v message \<Rightarrow> ('ik, 'n, 'x) handle \<Rightarrow> 'k
      \<Rightarrow> ('db faster, arcon_state_error, 'v option) action" where
  "faster_map_get D IK N K V h key =
     bind_s (query (\<lambda>_. serialize_id_metakeys_and_key IK N K h key)) (\<lambda>key.
     bind_s (faster_get D key) (\<lambda>x. lift_o (old_value V x)))"

text \<open>\<open>store_entry\<close>: the writing part of the three insertions.\<close>

definition store_entry ::
    "bool \<Rightarrow> ('db, 'f) faster_api \<Rightarrow> 'ik fixed_bytes \<Rightarrow> 'n fixed_bytes \<Rightarrow> 'v message \<Rightarrow> ('ik, 'n, 'x) handle \<Rightarrow> bytes \<Rightarrow> 'v
      \<Rightarrow> ('db faster, arcon_state_error, unit) action" where
  "store_entry slow D IK N V h key v =
     bind_s (query (\<lambda>_. protobuf_serialize V v)) (\<lambda>serialized.
     bind_s (faster_put D key serialized) (\<lambda>_.
     if_slow slow (
       bind_s (query (\<lambda>_. serialize_id_and_metakeys IK N h)) (\<lambda>pre. vec_push_if_absent D pre key))))"

definition faster_map_fast_insert ::
    "bool \<Rightarrow> ('db, 'f) faster_api \<Rightarrow> 'ik fixed_bytes \<Rightarrow> 'n fixed_bytes \<Rightarrow> 'k message \<Rightarrow> 'v message \<Rightarrow> ('ik, 'n, 'x) handle
      \<Rightarrow> 'k \<Rightarrow> 'v \<Rightarrow> ('db faster, arcon_state_error, unit) action" where
  "faster_map_fast_insert slow D IK N K V h key v =
     bind_s (query (\<lambda>_. serialize_id_metakeys_and_key IK N K h key)) (\<lambda>key.
     store_entry slow D IK N V h key v)"

definition faster_map_insert ::
    "bool \<Rightarrow> ('db, 'f) faster_api \<Rightarrow> 'ik fixed_bytes \<Rightarrow> 'n fixed_bytes \<Rightarrow> 'k message \<Rightarrow> 'v message \<Rightarrow> ('ik, 'n, 'x) handle
      \<Rightarrow> 'k \<Rightarrow> 'v \<Rightarrow> ('db faster, arcon_state_error, 'v option) action" where
  "faster_map_insert slow D IK N K V h key v =
     bind_s (query (\<lambda>_. serialize_id_metakeys_and_key IK N K h key)) (\<lambda>key.
     bind_s (bind_s (faster_get D key) (\<lambda>x. lift_o (old_value V x))) (\<lambda>old.
     bind_s (store_entry slow D IK N V h key v) (\<lambda>_. return_s old)))"

fun faster_map_insert_all ::
    "bool \<Rightarrow> ('db, 'f) faster_api \<Rightarrow> 'ik fixed_bytes \<Rightarrow> 'n fixed_bytes \<Rightarrow> 'k message \<Rightarrow> 'v message \<Rightarrow> ('ik, 'n, 'x) handle
      \<Rightarrow> ('k \<times> 'v) list \<Rightarrow> ('db faster, arcon_state_error, unit) action" where
  "faster_map_insert_all slow D IK N K V h [] = return_s ()"
| "faster_map_insert_all slow D IK N K V h ((user_key, v) # key_value_pairs) =
     bind_s (query (\<lambda>_. serialize_id_metakeys_and_key IK N K h user_key)) (\<lambda>key.
     bind_s (store_entry slow D IK N V h key v) (\<lambda>_.
     faster_map_insert_all slow D IK N K V h key_value_pairs))"

text \<open>\<open>drop_entry\<close>: the writing part of the two removals.\<close>

definition drop_entry ::
    "bool \<Rightarrow> ('db, 'f) faster_api \<Rightarrow> 'ik fixed_bytes \<Rightarrow> 'n fixed_bytes \<Rightarrow> ('ik, 'n, 'x) handle \<Rightarrow> bytes
      \<Rightarrow> ('db faster, arcon_state_error, unit) action" where
  "drop_entry slow D IK N h key =
     bind_s (faster_remove D key) (\<lambda>_.
     if_slow slow (
       bind_s (query (\<lambda>_. serialize_id_and_metakeys IK N h)) (\<lambda>pre. vec_remove D pre key)))"

definition faster_map_remove ::
    "bool \<Rightarrow> ('db, 'f) faster_api \<Rightarrow> 'ik fixed_bytes \<Rightarrow> 'n fixed_bytes \<Rightarrow> 'k message \<Rightarrow> 'v message \<Rightarrow> ('ik, 'n, 'x) handle
      \<Rightarrow> 'k \<Rightarrow> ('db faster, arcon_state_error, 'v option) action" where
  "faster_map_remove slow D IK N K V h key =
     bind_s (query (\<lambda>_. serialize_id_metakeys_and_key IK N K h key)) (\<lambda>key.
     bind_s (bind_s (faster_get D key) (\<lambda>x. lift_o (old_value V x))) (\<lambda>old.
     bind_s (drop_entry slow D IK N h key) (\<lambda>_. return_s old)))"

definition faster_map_fast_remove ::
    "bool \<Rightarrow> ('db, 'f) faster_api \<Rightarrow> 'ik fixed_bytes \<Rightarrow> 'n fixed_bytes \<Rightarrow> 'k message \<Rightarrow> ('ik, 'n, 'x) handle
      \<Rightarrow> 'k \<Rightarrow> ('db faster, arcon_state_error, unit) action" where
  "faster_map_fast_remove slow D IK N K h key =
     bind_s (query (\<lambda>_. serialize_id_metakeys_and_key IK N K h key)) (\<lambda>key. drop_entry slow D IK N h key)"

definition faster_map_contains ::
    "('db, 'f) faster_api \<Rightarrow> 'ik fixed_bytes \<Rightarrow> 'n fixed_bytes \<Rightarrow> 'k message \<Rightarrow> ('ik, 'n, 'x) handle
      \<Rightarrow> 'k \<Rightarrow> ('db faster, arcon_state_error, bool) action" where
  "faster_map_contains D IK N K h key =
     bind_s (query (\<lambda>_. serialize_id_metakeys_and_key IK N K h key)) (\<lambda>key.
     bind_s (faster_get D key) (\<lambda>x. return_s (x \<noteq> None)))"

text \<open>The iterators are lazy; \<open>drain\<close> takes all their items in order. An item that fails is part of
  the sequence.\<close>

fun drain :: "('a \<Rightarrow> ('s, 'e, 'c) action) \<Rightarrow> 'a list \<Rightarrow> ('s, 'e, ('e, 'c) outcome list) action" where
  "drain item [] s = (Ok [], s)"
| "drain item (x # xs) s = (case item x s of (r, s) \<Rightarrow> bind_s (drain item xs) (\<lambda>rs. return_s (r # rs)) s)"

definition stored_user_key ::
    "'ik fixed_bytes \<Rightarrow> 'n fixed_bytes \<Rightarrow> 'k message \<Rightarrow> bytes \<Rightarrow> 'k state_result" where
  "stored_user_key IK N K serialized_key =
     fst (bind_s deserialize_bytes_from (\<lambda>_.
          bind_s (fb_deserialize_from IK) (\<lambda>_.
          bind_s (fb_deserialize_from N) (\<lambda>_. protobuf_deserialize_from K))) serialized_key)"

definition stored_value :: "('db, 'f) faster_api \<Rightarrow> bytes \<Rightarrow> ('db faster, arcon_state_error, bytes) action" where
  "stored_value D serialized_key =
     bind_s (faster_get D serialized_key) (\<lambda>x.
       lift_o (unwrap_or_panic ''Value not found. Modified during iteration!?'' x))"

definition walk_keys ::
    "bool \<Rightarrow> ('db, 'f) faster_api \<Rightarrow> 'ik fixed_bytes \<Rightarrow> 'n fixed_bytes \<Rightarrow> ('ik, 'n, 'x) handle
      \<Rightarrow> (bytes \<Rightarrow> ('db faster, arcon_state_error, 'c) action)
      \<Rightarrow> ('db faster, arcon_state_error, 'c state_result list) action" where
  "walk_keys slow D IK N h item =
     (if \<not> slow then panic_s ''Faster doesn't support map state iteration''
      else
        bind_s (query (\<lambda>_. serialize_id_and_metakeys IK N h)) (\<lambda>pre.
        bind_s (faster_get_vec D pre) (\<lambda>keys. drain item (case keys of None \<Rightarrow> [] | Some ks \<Rightarrow> ks))))"

definition faster_map_iter ::
    "bool \<Rightarrow> ('db, 'f) faster_api \<Rightarrow> 'ik fixed_bytes \<Rightarrow> 'n fixed_bytes \<Rightarrow> 'k message \<Rightarrow> 'v message \<Rightarrow> ('ik, 'n, 'x) handle
      \<Rightarrow> ('db faster, arcon_state_error, ('k \<times> 'v) state_result list) action" where
  "faster_map_iter slow D IK N K V h =
     walk_keys slow D IK N h (\<lambda>serialized_key.
       bind_s (stored_value D serialized_key) (\<lambda>serialized_value.
       lift_o (bind_o (stored_user_key IK N K serialized_key) (\<lambda>key.
               bind_o (protobuf_deserialize V serialized_value) (\<lambda>v. Ok (key, v))))))"

definition faster_map_keys ::
    "bool \<Rightarrow> ('db, 'f) faster_api \<Rightarrow> 'ik fixed_bytes \<Rightarrow> 'n fixed_bytes \<Rightarrow> 'k message \<Rightarrow> ('ik, 'n, 'x) handle
      \<Rightarrow> ('db faster, arcon_state_error, 'k state_result list) action" where
  "faster_map_keys slow D IK N K h =
     walk_keys slow D IK N h (\<lambda>serialized_key. lift_o (stored_user_key IK N K serialized_key))"

definition faster_map_values ::
    "bool \<Rightarrow> ('db, 'f) faster_api \<Rightarrow> 'ik fixed_bytes \<Rightarrow> 'n fixed_bytes \<Rightarrow> 'v message \<Rightarrow> ('ik, 'n, 'x) handle
      \<Rightarrow> ('db faster, arcon_state_error, 'v state_result list) action" where
  "faster_map_values slow D IK N V h =
     walk_keys slow D IK N h (\<lambda>serialized_key.
       bind_s (stored_value D serialized_key) (\<lambda>serialized_value. lift_o (protobuf_deserialize V serialized_value)))"

definition faster_map_len ::
    "bool \<Rightarrow> ('db, 'f) faster_api \<Rightarrow> 'ik fixed_bytes \<Rightarrow> 'n fixed_bytes \<Rightarrow> ('ik, 'n, 'x) handle
      \<Rightarrow> ('db faster, arcon_state_error, nat) action" where
  "faster_map_len slow D IK N h =
     (if \<not> slow then panic_s ''Faster doesn't support map state length check''
      else
        bind_s (query (\<lambda>_. serialize_id_and_metakeys IK N h)) (\<lambda>pre.
        bind_s (faster_get_vec D pre) (\<lambda>keys. return_s (case keys of None \<Rightarrow> 0 | Some ks \<Rightarrow> length ks))))"

definition faster_map_is_empty ::
    "bool \<Rightarrow> ('db, 'f) faster_api \<Rightarrow> 'ik fixed_bytes \<Rightarrow> 'n fixed_bytes \<Rightarrow> ('ik, 'n, 'x) handle
      \<Rightarrow> ('db faster, arcon_state_error, bool) action" where
  "faster_map_is_empty slow D IK N h =
     (if \<not> slow then panic_s ''Faster doesn't support map state emptiness check''
      else
        bind_s (query (\<lambda>_. serialize_id_and_metakeys IK N h)) (\<lambda>pre.
        bind_s (faster_get_vec D pre) (\<lambda>keys. return_s (case keys of None \<Rightarrow> True | Some ks \<Rightarrow> ks = []))))"

definition faster_map_calls ::
    "bool \<Rightarrow> ('db, 'f) faster_api \<Rightarrow> 'ik fixed_bytes \<Rightarrow> 'n fixed_bytes \<Rightarrow> 'k message \<Rightarrow> 'v message \<Rightarrow> ('ik, 'n, 'x) handle
      \<Rightarrow> ('db faster, 'k, 'v) map_calls" where
  "faster_map_calls slow D IK N K V h =
     \<lparr>mc_clear = faster_map_clear slow D IK N h,
      mc_get = faster_map_get D IK N K V h,
      mc_fast_insert = faster_map_fast_insert slow D IK N K V h,
      mc_insert = faster_map_insert slow D IK N K V h,
      mc_insert_all = faster_map_insert_all slow D IK N K V h,
      mc_remove = faster_map_remove slow D IK N K V h,
      mc_fast_remove = faster_map_fast_remove slow D IK N K h,
      mc_contains = faster_map_contains D IK N K h,
      mc_iter = faster_map_iter slow D IK N K V h,
      mc_keys = faster_map_keys slow D IK N K h,
      mc_values = faster_map_values slow D IK N V h,
      mc_len = faster_map_len slow D IK N h,
      mc_is_empty = faster_map_is_empty slow D IK N h\<rparr>"

section \<open>Vector state\<close>

text \<open>\<open>collect\<close>: \<^verbatim>\<open>collect::<Result<Vec<_>>>()\<close>, which stops at the first error.\<close>

fun collect :: "('e, 'a) outcome list \<Rightarrow> ('e, 'a list) outcome" where
  "collect [] = Ok []"
| "collect (r # rs) = bind_o r (\<lambda>x. bind_o (collect rs) (\<lambda>xs. Ok (x # xs)))"

definition faster_vec_clear ::
    "('db, 'f) faster_api \<Rightarrow> 'ik fixed_bytes \<Rightarrow> 'n fixed_bytes \<Rightarrow> ('ik, 'n, 'x) handle
      \<Rightarrow> ('db faster, arcon_state_error, unit) action" where
  "faster_vec_clear D IK N h =
     bind_s (query (\<lambda>_. serialize_id_and_metakeys IK N h)) (\<lambda>key.
     bind_s (faster_remove D key) (\<lambda>_. return_s ()))"

definition faster_vec_append ::
    "('db, 'f) faster_api \<Rightarrow> 'ik fixed_bytes \<Rightarrow> 'n fixed_bytes \<Rightarrow> 'v message \<Rightarrow> ('ik, 'n, 'x) handle \<Rightarrow> 'v
      \<Rightarrow> ('db faster, arcon_state_error, unit) action" where
  "faster_vec_append D IK N V h v =
     bind_s (query (\<lambda>_. serialize_id_and_metakeys IK N h)) (\<lambda>key.
     bind_s (query (\<lambda>_. protobuf_serialize V v)) (\<lambda>serialized. vec_push D key serialized))"

definition faster_vec_get ::
    "('db, 'f) faster_api \<Rightarrow> 'ik fixed_bytes \<Rightarrow> 'n fixed_bytes \<Rightarrow> 'v message \<Rightarrow> ('ik, 'n, 'x) handle
      \<Rightarrow> ('db faster, arcon_state_error, 'v list) action" where
  "faster_vec_get D IK N V h =
     bind_s (query (\<lambda>_. serialize_id_and_metakeys IK N h)) (\<lambda>key.
     bind_s (faster_get_vec D key) (\<lambda>x.
       case x of
         Some serialized \<Rightarrow> lift_o (collect (map (protobuf_deserialize V) serialized))
       | None \<Rightarrow> return_s []))"

definition faster_vec_iter ::
    "('db, 'f) faster_api \<Rightarrow> 'ik fixed_bytes \<Rightarrow> 'n fixed_bytes \<Rightarrow> 'v message \<Rightarrow> ('ik, 'n, 'x) handle
      \<Rightarrow> ('db faster, arcon_state_error, 'v state_result list) action" where
  "faster_vec_iter D IK N V h =
     bind_s (query (\<lambda>_. serialize_id_and_metakeys IK N h)) (\<lambda>key.
     bind_s (faster_get_vec D key) (\<lambda>x.
       case x of
         Some serialized \<Rightarrow> return_s (map (protobuf_deserialize V) serialized)
       | None \<Rightarrow> return_s []))"

definition faster_vec_set ::
    "('db, 'f) faster_api \<Rightarrow> 'ik fixed_bytes \<Rightarrow> 'n fixed_bytes \<Rightarrow> 'v message \<Rightarrow> ('ik, 'n, 'x) handle \<Rightarrow> 'v list
      \<Rightarrow> ('db faster, arcon_state_error, unit) action" where
  "faster_vec_set D IK N V h v =
     bind_s (query (\<lambda>_. serialize_id_and_metakeys IK N h)) (\<lambda>key.
     bind_s (query (\<lambda>_. collect (map (protobuf_serialize V) v))) (\<lambda>storage. vec_set D key storage))"

definition faster_vec_add_all ::
    "('db, 'f) faster_api \<Rightarrow> 'ik fixed_bytes \<Rightarrow> 'n fixed_bytes \<Rightarrow> 'v message \<Rightarrow> ('ik, 'n, 'x) handle \<Rightarrow> 'v list
      \<Rightarrow> ('db faster, arcon_state_error, unit) action" where
  "faster_vec_add_all D IK N V h vs =
     bind_s (query (\<lambda>_. serialize_id_and_metakeys IK N h)) (\<lambda>key.
     bind_s (query (\<lambda>_. collect (map (protobuf_serialize V) vs))) (\<lambda>storage.
     bind_s (vec_push_all D key storage) (\<lambda>_. return_s ())))"

definition faster_vec_len ::
    "('db, 'f) faster_api \<Rightarrow> 'ik fixed_bytes \<Rightarrow> 'n fixed_bytes \<Rightarrow> ('ik, 'n, 'x) handle
      \<Rightarrow> ('db faster, arcon_state_error, nat) action" where
  "faster_vec_len D IK N h =
     bind_s (query (\<lambda>_. serialize_id_and_metakeys IK N h)) (\<lambda>key.
     bind_s (faster_get_vec D key) (\<lambda>x. return_s (case x of None \<Rightarrow> 0 | Some v \<Rightarrow> length v)))"

definition faster_vec_is_empty ::
    "('db, 'f) faster_api \<Rightarrow> 'ik fixed_bytes \<Rightarrow> 'n fixed_bytes \<Rightarrow> ('ik, 'n, 'x) handle
      \<Rightarrow> ('db faster, arcon_state_error, bool) action" where
  "faster_vec_is_empty D IK N h =
     bind_s (query (\<lambda>_. serialize_id_and_metakeys IK N h)) (\<lambda>key.
     bind_s (faster_get_vec D key) (\<lambda>x. return_s (case x of None \<Rightarrow> True | Some v \<Rightarrow> v = [])))"

definition faster_vec_calls ::
    "('db, 'f) faster_api \<Rightarrow> 'ik fixed_bytes \<Rightarrow> 'n fixed_bytes \<Rightarrow> 'v message \<Rightarrow> ('ik, 'n, 'x) handle
      \<Rightarrow> ('db faster, 'v) vec_calls" where
  "faster_vec_calls D IK N V h =
     \<lparr>ec_clear = faster_vec_clear D IK N h, ec_append = faster_vec_append D IK N V h,
      ec_get = faster_vec_get D IK N V h, ec_iter = faster_vec_iter D IK N V h,
      ec_set = faster_vec_set D IK N V h, ec_add_all = faster_vec_add_all D IK N V h,
      ec_len = faster_vec_len D IK N h, ec_is_empty = faster_vec_is_empty D IK N h\<rparr>"

section \<open>Reducer and aggregator state\<close>

definition faster_reducer_clear ::
    "('db, 'f) faster_api \<Rightarrow> 'ik fixed_bytes \<Rightarrow> 'n fixed_bytes \<Rightarrow> ('ik, 'n, 'x) handle
      \<Rightarrow> ('db faster, arcon_state_error, unit) action" where
  "faster_reducer_clear D IK N h =
     bind_s (query (\<lambda>_. serialize_id_and_metakeys IK N h)) (\<lambda>key.
     bind_s (faster_remove D key) (\<lambda>_. return_s ()))"

definition faster_reducer_get ::
    "('db, 'f) faster_api \<Rightarrow> 'ik fixed_bytes \<Rightarrow> 'n fixed_bytes \<Rightarrow> 'v message \<Rightarrow> ('ik, 'n, 'x) handle
      \<Rightarrow> ('db faster, arcon_state_error, 'v option) action" where
  "faster_reducer_get D IK N V h =
     bind_s (query (\<lambda>_. serialize_id_and_metakeys IK N h)) (\<lambda>key.
     bind_s (get_agg D key) (\<lambda>x. lift_o (old_value V x)))"

definition faster_reducer_reduce ::
    "('db, 'f) faster_api \<Rightarrow> (arcon_state_error \<Rightarrow> string) \<Rightarrow> 'ik fixed_bytes \<Rightarrow> 'n fixed_bytes \<Rightarrow> 'v message \<Rightarrow> ('ik, 'n, 'x) handle \<Rightarrow> 'v
      \<Rightarrow> ('db faster, arcon_state_error, unit) action" where
  "faster_reducer_reduce D shown IK N V h v =
     bind_s (query (\<lambda>_. serialize_id_and_metakeys IK N h)) (\<lambda>key.
     bind_s (query (\<lambda>_. protobuf_serialize V v)) (\<lambda>serialized.
     aggregate D shown key serialized (h_id h)))"

definition make_reduce_fn :: "'v message \<Rightarrow> ('v \<Rightarrow> 'v \<Rightarrow> 'v) \<Rightarrow> aggregator_fn" where
  "make_reduce_fn V reducer old new =
     bind_o (protobuf_deserialize V old) (\<lambda>old.
     bind_o (protobuf_deserialize V new) (\<lambda>new. protobuf_serialize V (reducer old new)))"

definition faster_register_reducer ::
    "'v message \<Rightarrow> ('ik, 'n, 'v \<Rightarrow> 'v \<Rightarrow> 'v) handle \<Rightarrow> 'db faster
      \<Rightarrow> ('ik, 'n, 'v \<Rightarrow> 'v \<Rightarrow> 'v) handle \<times> 'db faster" where
  "faster_register_reducer V h f =
     (h\<lparr>h_registered := True\<rparr>,
      f\<lparr>fa_aggregate_fns := (fa_aggregate_fns f)(h_id h \<mapsto> make_reduce_fn V (h_extra_data h))\<rparr>)"

definition faster_reducer_calls ::
    "('db, 'f) faster_api \<Rightarrow> (arcon_state_error \<Rightarrow> string) \<Rightarrow> 'ik fixed_bytes \<Rightarrow> 'n fixed_bytes \<Rightarrow> 'v message \<Rightarrow> ('ik, 'n, 'x) handle
      \<Rightarrow> ('db faster, 'v) reducer_calls" where
  "faster_reducer_calls D shown IK N V h =
     \<lparr>rc_clear = faster_reducer_clear D IK N h, rc_get = faster_reducer_get D IK N V h,
      rc_reduce = faster_reducer_reduce D shown IK N V h\<rparr>"

definition faster_aggregator_clear ::
    "('db, 'f) faster_api \<Rightarrow> 'ik fixed_bytes \<Rightarrow> 'n fixed_bytes \<Rightarrow> ('ik, 'n, 'x) handle
      \<Rightarrow> ('db faster, arcon_state_error, unit) action" where
  "faster_aggregator_clear D IK N h =
     bind_s (query (\<lambda>_. serialize_id_and_metakeys IK N h)) (\<lambda>key.
     bind_s (faster_remove D key) (\<lambda>_. return_s ()))"

definition faster_aggregator_get ::
    "('db, 'f) faster_api \<Rightarrow> 'ik fixed_bytes \<Rightarrow> 'n fixed_bytes \<Rightarrow> 'acc message
      \<Rightarrow> ('ik, 'n, ('i, 'acc, 'r) aggregator) handle \<Rightarrow> ('db faster, arcon_state_error, 'r) action" where
  "faster_aggregator_get D IK N ACC h =
     bind_s (query (\<lambda>_. serialize_id_and_metakeys IK N h)) (\<lambda>key.
     bind_s (get_agg D key) (\<lambda>x. lift_o (
       case x of
         Some serialized \<Rightarrow>
           (case serialized of
              [] \<Rightarrow> Panic ''index out of bounds''
            | marker # serialized \<Rightarrow>
                if marker = ACCUMULATOR_MARKER
                then bind_o (protobuf_deserialize ACC serialized) (accumulator_into_result (h_extra_data h))
                else Panic ''assertion failed: `(left == right)`'')
       | None \<Rightarrow> accumulator_into_result (h_extra_data h) (create_accumulator (h_extra_data h)))))"

definition faster_aggregator_aggregate ::
    "('db, 'f) faster_api \<Rightarrow> (arcon_state_error \<Rightarrow> string) \<Rightarrow> 'ik fixed_bytes \<Rightarrow> 'n fixed_bytes \<Rightarrow> 'i message
      \<Rightarrow> ('ik, 'n, ('i, 'acc, 'r) aggregator) handle \<Rightarrow> 'i \<Rightarrow> ('db faster, arcon_state_error, unit) action" where
  "faster_aggregator_aggregate D shown IK N INP h v =
     bind_s (query (\<lambda>_. serialize_id_and_metakeys IK N h)) (\<lambda>key.
     bind_s (query (\<lambda>_. case protobuf_serialize_into INP v (vec_target [VALUE_MARKER]) of
               (x, t) \<Rightarrow> bind_o x (\<lambda>_. Ok (bm_written t)))) (\<lambda>serialized.
     aggregate D shown key serialized (h_id h)))"

definition make_aggregate_fn ::
    "'i message \<Rightarrow> 'acc message \<Rightarrow> ('i, 'acc, 'r) aggregator \<Rightarrow> aggregator_fn" where
  "make_aggregate_fn INP ACC aggregator old new =
     bind_o (case old of
               marker # bs \<Rightarrow>
                 if marker = ACCUMULATOR_MARKER then protobuf_deserialize ACC bs
                 else if marker = VALUE_MARKER
                 then bind_o (protobuf_deserialize INP bs) (\<lambda>v. Ok (agg_add aggregator (create_accumulator aggregator) v))
                 else Panic ''unknown operand in aggregate merge operator''
             | [] \<Rightarrow> Panic ''unknown operand in aggregate merge operator'') (\<lambda>accumulator.
     bind_o (case new of
               marker # bs \<Rightarrow>
                 if marker = ACCUMULATOR_MARKER
                 then bind_o (protobuf_deserialize ACC bs) (\<lambda>second_acc. merge_accumulators aggregator accumulator second_acc)
                 else if marker = VALUE_MARKER
                 then bind_o (protobuf_deserialize INP bs) (\<lambda>v. Ok (agg_add aggregator accumulator v))
                 else Panic ''unknown operand in aggregate merge operator''
             | [] \<Rightarrow> Panic ''unknown operand in aggregate merge operator'') (\<lambda>accumulator.
     case protobuf_serialize_into ACC accumulator (vec_target [ACCUMULATOR_MARKER]) of
       (x, result) \<Rightarrow> bind_o x (\<lambda>_. Ok (bm_written result))))"

definition faster_register_aggregator ::
    "'i message \<Rightarrow> 'acc message \<Rightarrow> ('ik, 'n, ('i, 'acc, 'r) aggregator) handle \<Rightarrow> 'db faster
      \<Rightarrow> ('ik, 'n, ('i, 'acc, 'r) aggregator) handle \<times> 'db faster" where
  "faster_register_aggregator INP ACC h f =
     (h\<lparr>h_registered := True\<rparr>,
      f\<lparr>fa_aggregate_fns := (fa_aggregate_fns f)(h_id h \<mapsto> make_aggregate_fn INP ACC (h_extra_data h))\<rparr>)"

definition faster_aggregator_calls ::
    "('db, 'f) faster_api \<Rightarrow> (arcon_state_error \<Rightarrow> string) \<Rightarrow> 'ik fixed_bytes \<Rightarrow> 'n fixed_bytes \<Rightarrow> 'i message \<Rightarrow> 'acc message
      \<Rightarrow> ('ik, 'n, ('i, 'acc, 'r) aggregator) handle \<Rightarrow> ('db faster, 'i, 'r) aggregator_calls" where
  "faster_aggregator_calls D shown IK N INP ACC h =
     \<lparr>ac_clear = faster_aggregator_clear D IK N h, ac_get = faster_aggregator_get D IK N ACC h,
      ac_aggregate = faster_aggregator_aggregate D shown IK N INP h\<rparr>"

end
