(* ===== verification/Faster_Laws.thy ===== *)
theory Faster_Laws
  imports Faster Sled_Laws
begin

text \<open>
  The FASTER backend. Over a store that takes each call in order (locale \<open>faster_store\<close>) value, vector
  and reducer states meet the contracts of \<open>Sessions\<close>, as long as serial numbers are left. Maps meet
  the contract for single entries; with the feature \<^verbatim>\<open>slower_faster\<close> also the one for walks over all
  entries, but then a key may only be removed while the map has a list of keys. An aggregator can be
  read except after exactly one value.
\<close>

section \<open>What the store promises\<close>

datatype faster_value = FBytes bytes | FVec faster_vec_ops | FAgg faster_agg

text \<open>\<open>accepted E dok content r t\<close>: a write returned a status of \<open>E\<close> and left the content \<open>t\<close>.\<close>

definition accepted :: "u8 set \<Rightarrow> ('db \<Rightarrow> bool) \<Rightarrow> ('db \<Rightarrow> 'c) \<Rightarrow> u8 \<times> 'db \<Rightarrow> 'c \<Rightarrow> bool" where
  "accepted E dok content r t \<longleftrightarrow> fst r \<in> E \<and> dok (snd r) \<and> content (snd r) = t"

abbreviation completed :: "u8 set" where
  "completed \<equiv> {status_OK, status_PENDING}"

text \<open>The store works and \<open>n\<close> more serial numbers are left. The frame of a state is everything but the
  keys it owns.\<close>

definition faster_ok :: "('db \<Rightarrow> bool) \<Rightarrow> nat \<Rightarrow> 'db faster \<Rightarrow> bool" where
  "faster_ok dok n f \<longleftrightarrow> dok (fa_db f) \<and> unat (fa_monotonic_serial_number f) + n < 2 ^ 64"

definition frest :: "'db faster \<Rightarrow> (string \<rightharpoonup> aggregator_fn) \<times> path \<times> bool" where
  "frest f = (fa_aggregate_fns f, fa_dir f, fa_restored f)"

definition faster_frame :: "('db \<Rightarrow> bytes \<rightharpoonup> faster_value) \<Rightarrow> (bytes \<Rightarrow> bool) \<Rightarrow> 'db faster
    \<Rightarrow> (bytes \<rightharpoonup> faster_value) \<times> (string \<rightharpoonup> aggregator_fn) \<times> path \<times> bool" where
  "faster_frame content own f = ((\<lambda>k. if own k then None else content (fa_db f) k), frest f)"

text \<open>The key of a state.\<close>

definition id_key :: "('ik \<Rightarrow> bytes) \<Rightarrow> ('n \<Rightarrow> bytes) \<Rightarrow> ('ik, 'n, 'x) handle \<Rightarrow> bytes" where
  "id_key eik en h = enc_bytes (str_bytes (h_id h)) @ eik (h_item_key h) @ en (h_namespace h)"

locale faster_store =
  fixes D :: "('db, 'f) faster_api" and dok :: "'db \<Rightarrow> bool" and content :: "'db \<Rightarrow> bytes \<rightharpoonup> faster_value"
  assumes f_missing: "dok d \<Longrightarrow> content d k = None \<Longrightarrow>
      fst (fs_read_bytes D k n d) = status_NOT_FOUND \<and> fst (fs_read_vec D k n d) = status_NOT_FOUND \<and>
      fst (fs_read_agg D k n d) = status_NOT_FOUND"
    and f_read_bytes: "dok d \<Longrightarrow> content d k = Some (FBytes v) \<Longrightarrow> \<exists>st. st \<in> completed \<and> fs_read_bytes D k n d = (st, Some v)"
    and f_read_vec: "dok d \<Longrightarrow> content d k = Some (FVec x) \<Longrightarrow> \<exists>st. st \<in> completed \<and> fs_read_vec D k n d = (st, Some x)"
    and f_read_agg: "dok d \<Longrightarrow> content d k = Some (FAgg a) \<Longrightarrow> \<exists>st. st \<in> completed \<and> fs_read_agg D k n d = (st, Some a)"
    and f_upsert_bytes: "dok d \<Longrightarrow> accepted completed dok content (fs_upsert_bytes D k v n d) ((content d)(k \<mapsto> FBytes v))"
    and f_upsert_vec: "dok d \<Longrightarrow> accepted completed dok content (fs_upsert_vec D k x n d) ((content d)(k \<mapsto> FVec x))"
    and f_rmw_vec_new: "dok d \<Longrightarrow> content d k = None \<Longrightarrow>
      accepted completed dok content (fs_rmw_vec D g k m n d) ((content d)(k \<mapsto> FVec m))"
    and f_rmw_vec: "dok d \<Longrightarrow> content d k = Some (FVec x) \<Longrightarrow> g x m = Ok y \<Longrightarrow>
      accepted completed dok content (fs_rmw_vec D g k m n d) ((content d)(k \<mapsto> FVec y))"
    and f_rmw_agg_new: "dok d \<Longrightarrow> content d k = None \<Longrightarrow>
      accepted completed dok content (fs_rmw_agg D u k a n d) ((content d)(k \<mapsto> FAgg a))"
    and f_rmw_agg: "dok d \<Longrightarrow> content d k = Some (FAgg b) \<Longrightarrow> u b a = Ok e \<Longrightarrow>
      accepted completed dok content (fs_rmw_agg D u k a n d) ((content d)(k \<mapsto> FAgg e))"
    and f_delete: "dok d \<Longrightarrow> accepted (insert status_NOT_FOUND completed) dok content (fs_delete D k n d) ((content d)(k := None))"
begin

abbreviation fok :: "nat \<Rightarrow> 'db faster \<Rightarrow> bool" where
  "fok \<equiv> faster_ok dok"

abbreviation fcontent :: "'db faster \<Rightarrow> bytes \<rightharpoonup> faster_value" where
  "fcontent f \<equiv> content (fa_db f)"

lemmas fok_def = faster_ok_def

text \<open>What a call leaves behind: the content \<open>t\<close> and \<open>n\<close> serial numbers.\<close>

definition wrote :: "nat \<Rightarrow> (bytes \<rightharpoonup> faster_value) \<Rightarrow> 'db faster \<Rightarrow> 'db faster \<Rightarrow> bool" where
  "wrote n t f f' \<longleftrightarrow> fok n f' \<and> fcontent f' = t \<and> frest f' = frest f"

lemma fok_mono: "fok n f \<Longrightarrow> m \<le> n \<Longrightarrow> fok m f"
  by (simp add: fok_def)

lemma wrote_trans: "wrote n t f f' \<Longrightarrow> wrote m u f' f'' \<Longrightarrow> wrote m u f f''"
  by (simp add: wrote_def)

lemma next_ok:
  assumes "fok (Suc n) f"
  shows "yields next_serial_number f (fa_monotonic_serial_number f) (wrote n (fcontent f) f)"
proof -
  have "unat (fa_monotonic_serial_number f) + unat (1 :: u64) < 2 ^ 64" using assms by (simp add: fok_def)
  then show ?thesis
    using assms
    by (simp add: next_serial_number_def yields_def bind_s_def add_u_def wrote_def fok_def frest_def unat_add_no_overflow)
qed

lemma numbered:
  assumes "fok (Suc n) f"
    and "\<And>k f'. wrote n (fcontent f) f f' \<Longrightarrow> yields (m k) f' x (wrote n t f')"
  shows "yields (bind_s next_serial_number m) f x (wrote n t f)"
  by (rule yields_bind [OF next_ok [OF assms(1)]]) (blast intro: yields_mono [OF assms(2)] wrote_trans)

lemma written_ok:
  assumes "fok n f" "accepted E dok content (call (fa_db f)) t"
  shows "yields (write_status E call) f () (wrote n t f)"
  using assms by (auto simp: write_status_def accepted_def yields_def wrote_def fok_def frest_def split: prod.splits)

lemma received_missing: "fst r = status_NOT_FOUND \<Longrightarrow> received r = Ok None"
  by (cases r) (simp add: received_def)

lemma received_value: "st \<in> completed \<Longrightarrow> received (st, Some v) = Ok (Some v)"
  by (auto simp: received_def status_OK_def status_PENDING_def status_NOT_FOUND_def)

lemma put_ok: "fok (Suc n) f \<Longrightarrow> yields (faster_put D k v) f () (wrote n ((fcontent f)(k \<mapsto> FBytes v)) f)"
  unfolding faster_put_def
  by (rule numbered, assumption, rule written_ok) (auto simp: wrote_def fok_def dest: f_upsert_bytes)

lemma vec_set_ok: "fok (Suc n) f \<Longrightarrow> yields (vec_set D k v) f () (wrote n ((fcontent f)(k \<mapsto> FVec (VValue v))) f)"
  unfolding vec_set_def
  by (rule numbered, assumption, rule written_ok) (auto simp: wrote_def fok_def dest: f_upsert_vec)

lemma remove_ok: "fok (Suc n) f \<Longrightarrow> yields (faster_remove D k) f () (wrote n ((fcontent f)(k := None)) f)"
  unfolding faster_remove_def
proof (rule numbered, assumption, rule written_ok)
  fix m f'
  assume f': "wrote n (fcontent f) f f'"
  then show "fok n f'" by (simp add: wrote_def)
  then have "accepted (insert status_NOT_FOUND completed) dok content (fs_delete D k m (fa_db f')) ((fcontent f')(k := None))"
    by (simp add: fok_def f_delete)
  then show "accepted {status_OK, status_PENDING, status_NOT_FOUND} dok content (fs_delete D k m (fa_db f')) ((fcontent f)(k := None))"
    using f' by (simp add: wrote_def insert_commute)
qed

lemma get_missing:
  "fok (Suc n) f \<Longrightarrow> fcontent f k = None \<Longrightarrow> yields (faster_get D k) f None (wrote n (fcontent f) f)"
  unfolding faster_get_def
  by (rule numbered, assumption) (simp add: wrote_def fok_def received_missing f_missing)

lemma get_bytes:
  assumes "fok (Suc n) f" "fcontent f k = Some (FBytes v)"
  shows "yields (faster_get D k) f (Some v) (wrote n (fcontent f) f)"
  unfolding faster_get_def
proof (rule numbered [OF assms(1)])
  fix m f'
  assume f': "wrote n (fcontent f) f f'"
  then obtain st where "st \<in> completed" "fs_read_bytes D k m (fa_db f') = (st, Some v)"
    using f_read_bytes [of "fa_db f'" k v m] assms(2) by (auto simp: wrote_def fok_def)
  then show "yields (query (\<lambda>f. received (fs_read_bytes D k m (fa_db f)))) f' (Some v) (wrote n (fcontent f) f')"
    using f' by (simp add: received_value wrote_def)
qed

lemma get_vec_missing:
  "fok (Suc n) f \<Longrightarrow> fcontent f k = None \<Longrightarrow> yields (faster_get_vec D k) f None (wrote n (fcontent f) f)"
  unfolding faster_get_vec_def
  by (rule numbered, assumption) (simp add: wrote_def fok_def received_missing f_missing bind_s_def yields_def)

lemma get_vec_value:
  assumes "fok (Suc n) f" "fcontent f k = Some (FVec x)" "vec_content x = Ok v"
  shows "yields (faster_get_vec D k) f (Some v) (wrote n (fcontent f) f)"
  unfolding faster_get_vec_def
proof (rule numbered [OF assms(1)])
  fix m f'
  assume f': "wrote n (fcontent f) f f'"
  then obtain st where "st \<in> completed" "fs_read_vec D k m (fa_db f') = (st, Some x)"
    using f_read_vec [of "fa_db f'" k x m] assms(2) by (auto simp: wrote_def fok_def)
  then show "yields (bind_s (query (\<lambda>f. received (fs_read_vec D k m (fa_db f)))) (\<lambda>x.
      case x of None \<Rightarrow> return_s None | Some vec_ops \<Rightarrow> lift_o (bind_o (vec_content vec_ops) (\<lambda>val. Ok (Some val))))) f'
      (Some v) (wrote n (fcontent f) f')"
    using f' by (simp add: received_value wrote_def bind_s_def yields_def assms(3))
qed

lemma rmw_vec_new:
  "fok (Suc n) f \<Longrightarrow> fcontent f k = None \<Longrightarrow> yields (rmw_vec D k m) f () (wrote n ((fcontent f)(k \<mapsto> FVec m)) f)"
  unfolding rmw_vec_def
proof (rule numbered, assumption, rule written_ok)
  fix i f'
  assume "fcontent f k = None" and f': "wrote n (fcontent f) f f'"
  then show "accepted completed dok content (fs_rmw_vec D vec_rmw k m i (fa_db f')) ((fcontent f)(k \<mapsto> FVec m))"
    using f_rmw_vec_new [of "fa_db f'" k vec_rmw m i] by (simp add: wrote_def fok_def)
qed (simp add: wrote_def)

lemma rmw_vec_value:
  assumes "fok (Suc n) f" "fcontent f k = Some (FVec x)" "vec_rmw x m = Ok y"
  shows "yields (rmw_vec D k m) f () (wrote n ((fcontent f)(k \<mapsto> FVec y)) f)"
  unfolding rmw_vec_def
proof (rule numbered [OF assms(1)], rule written_ok)
  fix i f'
  assume f': "wrote n (fcontent f) f f'"
  then show "accepted completed dok content (fs_rmw_vec D vec_rmw k m i (fa_db f')) ((fcontent f)(k \<mapsto> FVec y))"
    using f_rmw_vec [of "fa_db f'" k x vec_rmw m y i] assms by (simp add: wrote_def fok_def)
qed (simp add: wrote_def)

lemma wrote_frame:
  "wrote n t f f' \<Longrightarrow> (\<And>k. \<not> own k \<Longrightarrow> t k = fcontent f k) \<Longrightarrow> faster_frame content own f' = faster_frame content own f"
  by (auto simp: wrote_def faster_frame_def fun_eq_iff)

lemma get_agg_missing:
  "fok (Suc n) f \<Longrightarrow> fcontent f k = None \<Longrightarrow> yields (get_agg D k) f None (wrote n (fcontent f) f)"
  unfolding get_agg_def
  by (rule numbered, assumption) (simp add: wrote_def fok_def received_missing f_missing bind_s_def yields_def)

lemma get_agg_value:
  assumes "fok (Suc n) f" "fcontent f k = Some (FAgg a)" "agg_old a = Some v"
  shows "yields (get_agg D k) f (Some v) (wrote n (fcontent f) f)"
  unfolding get_agg_def
proof (rule numbered [OF assms(1)])
  fix m f'
  assume f': "wrote n (fcontent f) f f'"
  then obtain st where st: "st \<in> completed" "fs_read_agg D k m (fa_db f') = (st, Some a)"
    using f_read_agg [of "fa_db f'" k a m] assms(2) by (auto simp: wrote_def fok_def)
  have "received (fs_read_agg D k m (fa_db f')) = Ok (Some a)" by (simp only: st received_value)
  then show "yields (bind_s (query (\<lambda>f. received (fs_read_agg D k m (fa_db f)))) (\<lambda>x.
      case x of None \<Rightarrow> return_s None | Some (AValue v) \<Rightarrow> return_s (Some v) | Some (AModify v _) \<Rightarrow> return_s (Some v)
        | Some (AError message) \<Rightarrow> lift_o (Err (FasterErrorInRmw message)))) f' (Some v) (wrote n (fcontent f) f')"
    using f' assms(3) by (cases a) (simp_all add: bind_s_def yields_def wrote_def)
qed

text \<open>A modification goes into the store as it is when there is no entry, and through the function
  that was registered for the state otherwise.\<close>

lemma aggregate_new:
  assumes "fok (Suc n) f" "fcontent f k = None" "fa_aggregate_fns f i = Some g"
  shows "yields (aggregate D shown k new i) f () (wrote n ((fcontent f)(k \<mapsto> FAgg (AModify new g))) f)"
proof -
  have "yields (bind_s next_serial_number (\<lambda>m. write_status completed (fs_rmw_agg D (agg_rmw shown) k (AModify new g) m))) f ()
      (wrote n ((fcontent f)(k \<mapsto> FAgg (AModify new g))) f)"
  proof (rule numbered [OF assms(1)], rule written_ok)
    fix m f'
    assume f': "wrote n (fcontent f) f f'"
    then show "accepted completed dok content (fs_rmw_agg D (agg_rmw shown) k (AModify new g) m (fa_db f'))
        ((fcontent f)(k \<mapsto> FAgg (AModify new g)))"
      using f_rmw_agg_new [of "fa_db f'" k "agg_rmw shown" "AModify new g" m] assms(2) by (simp add: wrote_def fok_def)
  qed (simp add: wrote_def)
  then show ?thesis by (simp add: aggregate_def bind_s_def yields_def unwrap_or_panic_def assms(3))
qed

lemma aggregate_value:
  assumes "fok (Suc n) f" "fcontent f k = Some (FAgg a)" "agg_old a = Some old"
    and "fa_aggregate_fns f i = Some g" "g old new = Ok bs"
  shows "yields (aggregate D shown k new i) f () (wrote n ((fcontent f)(k \<mapsto> FAgg (AValue bs))) f)"
proof -
  have r: "agg_rmw shown a (AModify new g) = Ok (AValue bs)" using assms(3,5) by (simp add: agg_rmw_def)
  have "yields (bind_s next_serial_number (\<lambda>m. write_status completed (fs_rmw_agg D (agg_rmw shown) k (AModify new g) m))) f ()
      (wrote n ((fcontent f)(k \<mapsto> FAgg (AValue bs))) f)"
  proof (rule numbered [OF assms(1)], rule written_ok)
    fix m f'
    assume f': "wrote n (fcontent f) f f'"
    then show "accepted completed dok content (fs_rmw_agg D (agg_rmw shown) k (AModify new g) m (fa_db f'))
        ((fcontent f)(k \<mapsto> FAgg (AValue bs)))"
      using f_rmw_agg [of "fa_db f'" k a "agg_rmw shown" "AModify new g" "AValue bs" m] assms(2) r
      by (simp add: wrote_def fok_def)
  qed (simp add: wrote_def)
  then show ?thesis by (simp add: aggregate_def bind_s_def yields_def unwrap_or_panic_def assms(4))
qed

end

text \<open>The value an entry holds, and that it holds an encoded one.\<close>

definition value_at :: "'v message \<Rightarrow> faster_value option \<Rightarrow> 'v option" where
  "value_at V x = (case x of Some (FBytes bs) \<Rightarrow> decoded V (Some bs) | _ \<Rightarrow> None)"

definition value_entry :: "'v message \<Rightarrow> faster_value option \<Rightarrow> bool" where
  "value_entry V x \<longleftrightarrow> (\<forall>y. x = Some y \<longrightarrow> (\<exists>v. y = FBytes (msg_encode V v)))"

lemma value_entry_simps [simp]: "value_entry V None" "value_entry V (Some (FBytes (msg_encode V v)))"
  by (auto simp: value_entry_def)

lemma value_at_simps [simp]:
  "value_at V None = None" "message_law V \<Longrightarrow> value_at V (Some (FBytes (msg_encode V v))) = Some v"
  by (simp_all add: value_at_def)

lemma value_entry_cases:
  assumes "value_entry V x"
  obtains "x = None" | v where "x = Some (FBytes (msg_encode V v))"
  using assms by (cases x) (auto simp: value_entry_def)

context faster_store
begin

lemma get_old_value:
  assumes "fok (Suc n) f" "value_entry V (fcontent f k)" "message_law V"
  shows "yields (bind_s (faster_get D k) (\<lambda>x. lift_o (old_value V x))) f (value_at V (fcontent f k)) (wrote n (fcontent f) f)"
  using assms(2)
proof (cases rule: value_entry_cases)
  case 1
  show ?thesis by (rule yields_bind [OF get_missing [OF assms(1) 1]]) (simp add: 1 yields_def old_value_def)
next
  case (2 v)
  show ?thesis
    by (rule yields_bind [OF get_bytes [OF assms(1) 2]])
      (simp add: 2 yields_def old_value_def protobuf_deserialize_enc assms(3))
qed

end

section \<open>States of one entry\<close>

locale faster_cell = faster_store D dok content + metakeys IK eik vik N en vn
  for D :: "('db, 'f) faster_api" and dok content and IK :: "'ik fixed_bytes" and eik vik and N :: "'n fixed_bytes" and en vn +
  fixes h :: "('ik, 'n, 'x) handle"
  assumes item_key_valid: "vik (h_item_key h)" and namespace_valid: "vn (h_namespace h)"
    and id_fits: "8 + length (h_id h) + SIZE IK + SIZE N \<le> usize_max"
begin

abbreviation own_key :: bytes where
  "own_key \<equiv> id_key eik en h"

lemma own_key_def: "own_key = enc_bytes (str_bytes (h_id h)) @ mk (h_item_key h) (h_namespace h)"
  by (simp add: id_key_def mk_def)

abbreviation cell :: "'db faster \<Rightarrow> faster_value option" where
  "cell f \<equiv> fcontent f own_key"

definition cell_frame where
  "cell_frame = faster_frame content (\<lambda>k. k = own_key)"

lemma length_own_key: "length own_key = 8 + length (h_id h) + SIZE IK + SIZE N"
  by (simp add: own_key_def enc_bytes_def str_bytes_def mk_length item_key_valid namespace_valid)

lemma into_room:
  assumes "length own_key \<le> bm_room t"
  shows "serialize_id_and_metakeys_into IK N h t = (Ok (), put_slice own_key t)"
proof -
  have "8 + length (str_bytes (h_id h)) \<le> bm_room t" using assms by (simp add: length_own_key str_bytes_def)
  then have "serialize_bytes_into (str_bytes (h_id h)) t = (Ok (), put_slice (enc_bytes (str_bytes (h_id h))) t)"
    by (simp add: serialize_bytes_into_room enc_bytes_def enc_len_def)
  moreover have "SIZE IK + SIZE N \<le> bm_room (put_slice (enc_bytes (str_bytes (h_id h))) t)"
    using assms by (simp add: length_own_key enc_bytes_def str_bytes_def)
  ultimately show ?thesis
    by (simp add: serialize_id_and_metakeys_into_def serialize_metakeys_into_room [OF item_key_valid namespace_valid]
        put_slice_append own_key_def)
qed

lemma own_key_ok [simp]: "serialize_id_and_metakeys IK N h = Ok own_key"
  using into_room [of "vec_target []"] id_fits
  by (simp add: serialize_id_and_metakeys_def into_fresh_vec_def length_own_key)

text \<open>What a write to the cell leaves behind.\<close>

definition cell_set :: "nat \<Rightarrow> faster_value option \<Rightarrow> 'db faster \<Rightarrow> 'db faster \<Rightarrow> bool" where
  "cell_set n x f f' \<longleftrightarrow> fok n f' \<and> cell f' = x \<and> cell_frame f' = cell_frame f \<and> fa_aggregate_fns f' = fa_aggregate_fns f"

lemma wrote_cell: "wrote n ((fcontent f)(own_key := x)) f f' \<Longrightarrow> cell_set n x f f'"
  by (auto simp: cell_set_def cell_frame_def wrote_def frest_def faster_frame_def fun_eq_iff)

lemma wrote_same: "wrote n (fcontent f) f f' \<Longrightarrow> cell_set n (cell f) f f'"
  using wrote_cell [of n f "cell f" f'] by simp

lemma yields_cell: "yields m f x (wrote n ((fcontent f)(own_key := y)) f) \<Longrightarrow> yields m f x (cell_set n y f)"
  by (erule yields_mono) (rule wrote_cell)

lemma yields_same: "yields m f x (wrote n (fcontent f) f) \<Longrightarrow> yields m f x (cell_set n (cell f) f)"
  by (erule yields_mono) (rule wrote_same)

lemma clear_ok: "fok (Suc n) f \<Longrightarrow> yields (faster_remove D own_key) f () (cell_set n None f)"
  by (rule yields_cell) (rule remove_ok)

end

locale faster_value_cell = faster_cell D dok content IK eik vik N en vn h
  for D :: "('db, 'f) faster_api" and dok content and IK :: "'ik fixed_bytes" and eik vik and N :: "'n fixed_bytes" and en vn
    and h :: "('ik, 'n, 'x) handle" +
  fixes V :: "'v message"
  assumes value_law: "message_law V" and value_fits: "messages_fit 0 V"
begin

definition value_inv :: "nat \<Rightarrow> 'db faster \<Rightarrow> bool" where
  "value_inv n f \<longleftrightarrow> fok n f \<and> value_entry V (cell f)"

lemma refines_value:
  "value_session (faster_value_calls D IK N V h) value_inv 2 (\<lambda>f. value_at V (cell f)) cell_frame"
proof
  fix n m f v
  show "value_inv m f" if "value_inv n f" "m \<le> n" using that fok_mono by (auto simp: value_inv_def)
  assume "value_inv (n + 2) f"
  then have f: "fok (Suc (Suc n)) f" "fok (Suc n) f" "value_entry V (cell f)" by (auto simp: value_inv_def intro: fok_mono)
  note ser = protobuf_serialize_fits [OF value_fits]
  have put: "yields (faster_put D own_key (msg_encode V v)) g () (cell_set n (Some (FBytes (msg_encode V v))) g)"
    if "fok (Suc n) g" for g
    using put_ok [OF that] by (rule yields_cell)
  show "yields (vc_get (faster_value_calls D IK N V h)) f (value_at V (cell f))
      (\<lambda>b'. value_inv n b' \<and> value_at V (cell b') = value_at V (cell f) \<and> cell_frame b' = cell_frame f)"
    using yields_same [OF get_old_value [OF f(2,3) value_law]] f(3)
    by (simp add: faster_value_calls_def faster_value_get_def) (auto simp: value_inv_def cell_set_def elim: yields_mono)
  show "yields (vc_set (faster_value_calls D IK N V h) v) f (value_at V (cell f))
      (\<lambda>b'. value_inv n b' \<and> value_at V (cell b') = Some v \<and> cell_frame b' = cell_frame f)"
  proof -
    have "yields (bind_s (bind_s (faster_get D own_key) (\<lambda>x. lift_o (old_value V x))) (\<lambda>old.
        bind_s (faster_put D own_key (msg_encode V v)) (\<lambda>_. return_s old))) f (value_at V (cell f))
        (\<lambda>b'. value_inv n b' \<and> value_at V (cell b') = Some v \<and> cell_frame b' = cell_frame f)"
    proof (rule yields_bind [OF get_old_value [OF f(1,3) value_law]], rule yields_bind)
      fix g
      assume g: "wrote (Suc n) (fcontent f) f g"
      then show "yields (faster_put D own_key (msg_encode V v)) g () (cell_set n (Some (FBytes (msg_encode V v))) g)"
        by (intro put) (simp add: wrote_def)
      show "yields (return_s (value_at V (cell f))) g' (value_at V (cell f))
          (\<lambda>b'. value_inv n b' \<and> value_at V (cell b') = Some v \<and> cell_frame b' = cell_frame f)"
        if "cell_set n (Some (FBytes (msg_encode V v))) g g'" for g'
        using that wrote_same [OF g] by (simp add: cell_set_def value_inv_def value_law)
    qed
    then show ?thesis by (simp add: faster_value_calls_def faster_value_set_def ser)
  qed
  show "yields (vc_fast_set (faster_value_calls D IK N V h) v) f ()
      (\<lambda>b'. value_inv n b' \<and> value_at V (cell b') = Some v \<and> cell_frame b' = cell_frame f)"
    using put [OF f(2)]
    by (simp add: faster_value_calls_def faster_value_fast_set_def ser)
      (auto simp: cell_set_def value_inv_def value_law elim: yields_mono)
  show "yields (vc_clear (faster_value_calls D IK N V h)) f ()
      (\<lambda>b'. value_inv n b' \<and> value_at V (cell b') = None \<and> cell_frame b' = cell_frame f)"
    using clear_ok [OF f(2)]
    by (simp add: faster_value_calls_def faster_value_clear_def) (auto simp: cell_set_def value_inv_def elim: yields_mono)
qed

end

section \<open>Vectors\<close>

definition vec_entry :: "'v message \<Rightarrow> faster_value option \<Rightarrow> bool" where
  "vec_entry V x \<longleftrightarrow> (\<forall>y. x = Some y \<longrightarrow> (\<exists>z vs. y = FVec z \<and> vec_content z = Ok (map (msg_encode V) vs)))"

definition vec_items :: "'v message \<Rightarrow> faster_value option \<Rightarrow> 'v list" where
  "vec_items V x =
     (case x of
        Some (FVec z) \<Rightarrow> (case vec_content z of Ok bs \<Rightarrow> map (\<lambda>b. the (decoded V (Some b))) bs | _ \<Rightarrow> [])
      | _ \<Rightarrow> [])"

lemma vec_entry_None [simp]: "vec_entry V None" "vec_items V None = []"
  by (simp_all add: vec_entry_def vec_items_def)

lemma vec_entry_Some:
  "vec_content z = Ok (map (msg_encode V) vs) \<Longrightarrow> vec_entry V (Some (FVec z))"
  "message_law V \<Longrightarrow> vec_content z = Ok (map (msg_encode V) vs) \<Longrightarrow> vec_items V (Some (FVec z)) = vs"
  by (auto simp: vec_entry_def vec_items_def o_def)

lemma vec_entry_cases:
  assumes "vec_entry V x"
  obtains "x = None" | z vs where "x = Some (FVec z)" "vec_content z = Ok (map (msg_encode V) vs)"
  using assms by (cases x) (auto simp: vec_entry_def)

lemma collect_Ok [simp]: "collect (map Ok xs) = Ok xs"
  by (induction xs) simp_all

lemma collect_deserialize:
  "message_law V \<Longrightarrow> map (protobuf_deserialize V) (map (msg_encode V) vs) = map Ok vs"
  by (simp add: protobuf_deserialize_enc)

locale faster_vec_cell = faster_cell D dok content IK eik vik N en vn h
  for D :: "('db, 'f) faster_api" and dok content and IK :: "'ik fixed_bytes" and eik vik and N :: "'n fixed_bytes" and en vn
    and h :: "('ik, 'n, 'x) handle" +
  fixes V :: "'v message"
  assumes value_law: "message_law V" and value_fits: "messages_fit 0 V"
begin

abbreviation calls where
  "calls \<equiv> faster_vec_calls D IK N V h"

definition vec_inv :: "nat \<Rightarrow> 'db faster \<Rightarrow> bool" where
  "vec_inv n f \<longleftrightarrow> fok n f \<and> vec_entry V (cell f)"

definition holds :: "nat \<Rightarrow> 'v list \<Rightarrow> 'db faster \<Rightarrow> 'db faster \<Rightarrow> bool" where
  "holds n vs f f' \<longleftrightarrow> vec_inv n f' \<and> vec_items V (cell f') = vs \<and> cell_frame f' = cell_frame f"

lemma serialized: "collect (map (protobuf_serialize V) vs) = Ok (map (msg_encode V) vs)"
  by (induction vs) (simp_all add: protobuf_serialize_fits [OF value_fits])

lemma cell_set_holds:
  "cell_set n (Some (FVec z)) f f' \<Longrightarrow> vec_content z = Ok (map (msg_encode V) vs) \<Longrightarrow> holds n vs f f'"
  by (simp add: cell_set_def holds_def vec_inv_def vec_entry_Some value_law)

text \<open>Reading the vector: the bytes of its items, or nothing.\<close>

lemma read_ok:
  assumes "vec_inv (Suc n) f"
  shows "\<exists>x. yields (faster_get_vec D own_key) f x (holds n (vec_items V (cell f)) f) \<and>
    (case x of None \<Rightarrow> [] | Some bs \<Rightarrow> bs) = map (msg_encode V) (vec_items V (cell f))"
proof -
  have f: "fok (Suc n) f" "vec_entry V (cell f)" using assms by (simp_all add: vec_inv_def)
  have same: "holds n (vec_items V (cell f)) f f'" if "wrote n (fcontent f) f f'" for f'
    using wrote_same [OF that] f(2) by (simp add: cell_set_def holds_def vec_inv_def)
  show ?thesis
    using f(2)
  proof (cases rule: vec_entry_cases)
    case 1
    then show ?thesis using yields_mono [OF get_vec_missing [OF f(1) 1] same] by (intro exI [of _ None]) simp
  next
    case (2 z vs)
    then show ?thesis
      using yields_mono [OF get_vec_value [OF f(1) 2] same]
      by (intro exI [of _ "Some (map (msg_encode V) vs)"]) (simp add: vec_entry_Some(2) [OF value_law])
  qed
qed

text \<open>Every modification that appends.\<close>

lemma push_ok:
  assumes "vec_inv (Suc n) f" "vec_content m = Ok (map (msg_encode V) ws)"
    and "\<And>res. vec_modify m res = Ok (res @ map (msg_encode V) ws)"
  shows "yields (rmw_vec D own_key m) f () (holds n (vec_items V (cell f) @ ws) f)"
proof -
  have f: "fok (Suc n) f" "vec_entry V (cell f)" using assms(1) by (simp_all add: vec_inv_def)
  show ?thesis
    using f(2)
  proof (cases rule: vec_entry_cases)
    case 1
    show ?thesis
      by (rule yields_mono [OF yields_cell [OF rmw_vec_new [OF f(1) 1]]])
        (simp add: 1 cell_set_holds [OF _ assms(2)])
  next
    case (2 z vs)
    have r: "vec_rmw z m = Ok (VValue (map (msg_encode V) (vs @ ws)))" by (simp add: vec_rmw_def 2(2) assms(3))
    show ?thesis
      by (rule yields_mono [OF yields_cell [OF rmw_vec_value [OF f(1) 2(1) r]]])
        (rule cell_set_holds, assumption, simp add: 2 vec_entry_Some(2) [OF value_law])
  qed
qed

lemma refines_vec: "vec_session calls vec_inv 1 (\<lambda>f. vec_items V (cell f)) cell_frame"
proof
  fix n m f v vs
  show "vec_inv m f" if "vec_inv n f" "m \<le> n" using that fok_mono by (auto simp: vec_inv_def)
  show "yields (ec_iter calls) f (map Ok (vec_items V (cell f)))
      (\<lambda>b'. vec_inv n b' \<and> vec_items V (cell b') = vec_items V (cell f) \<and> cell_frame b' = cell_frame f)"
    if i: "vec_inv (n + 1 * Suc (length (vec_items V (cell f)))) f"
  proof -
    have "vec_inv (Suc n) f" using i fok_mono by (auto simp: vec_inv_def)
    then obtain x where x: "yields (faster_get_vec D own_key) f x (holds n (vec_items V (cell f)) f)"
        "(case x of None \<Rightarrow> [] | Some bs \<Rightarrow> bs) = map (msg_encode V) (vec_items V (cell f))"
      using read_ok by blast
    from x(1) show ?thesis
      unfolding faster_vec_calls_def faster_vec_iter_def vec_calls.simps own_key_ok bind_s_known
      by (rule yields_bind) (use x(2) in \<open>auto simp: holds_def protobuf_deserialize_enc value_law split: option.splits\<close>)
  qed
  assume "vec_inv (n + 1) f"
  then have f: "vec_inv (Suc n) f" "fok (Suc n) f" by (simp_all add: vec_inv_def)
  then obtain x where x: "yields (faster_get_vec D own_key) f x (holds n (vec_items V (cell f)) f)"
      "(case x of None \<Rightarrow> [] | Some bs \<Rightarrow> bs) = map (msg_encode V) (vec_items V (cell f))"
    using read_ok by blast
  show "yields (ec_get calls) f (vec_items V (cell f))
      (\<lambda>b'. vec_inv n b' \<and> vec_items V (cell b') = vec_items V (cell f) \<and> cell_frame b' = cell_frame f)"
    using x(1) unfolding faster_vec_calls_def faster_vec_get_def vec_calls.simps own_key_ok bind_s_known
    by (rule yields_bind)
      (use x(2) in \<open>auto simp: holds_def collect_deserialize value_law yields_def simp del: map_map split: option.splits\<close>)
  show "yields (ec_len calls) f (length (vec_items V (cell f)))
      (\<lambda>b'. vec_inv n b' \<and> vec_items V (cell b') = vec_items V (cell f) \<and> cell_frame b' = cell_frame f)"
    using x(1) unfolding faster_vec_calls_def faster_vec_len_def vec_calls.simps own_key_ok bind_s_known
    by (rule yields_bind) (use x(2) in \<open>auto simp: holds_def split: option.splits\<close>)
  show "yields (ec_is_empty calls) f (vec_items V (cell f) = [])
      (\<lambda>b'. vec_inv n b' \<and> vec_items V (cell b') = vec_items V (cell f) \<and> cell_frame b' = cell_frame f)"
    using x(1) unfolding faster_vec_calls_def faster_vec_is_empty_def vec_calls.simps own_key_ok bind_s_known
    by (rule yields_bind) (use x(2) in \<open>auto simp: holds_def split: option.splits\<close>)
  show "yields (ec_append calls v) f () (\<lambda>b'. vec_inv n b' \<and> vec_items V (cell b') = vec_items V (cell f) @ [v] \<and>
      cell_frame b' = cell_frame f)"
    using push_ok [OF f(1), of "VPush (msg_encode V v)" "[v]"]
    by (simp add: faster_vec_calls_def faster_vec_append_def vec_push_def protobuf_serialize_fits [OF value_fits] holds_def [abs_def])
  show "yields (ec_add_all calls vs) f () (\<lambda>b'. vec_inv n b' \<and> vec_items V (cell b') = vec_items V (cell f) @ vs \<and>
      cell_frame b' = cell_frame f)"
    using push_ok [OF f(1), of "VValue (map (msg_encode V) vs)" vs]
    by (simp add: faster_vec_calls_def faster_vec_add_all_def vec_push_all_def serialized holds_def [abs_def])
  show "yields (ec_set calls vs) f () (\<lambda>b'. vec_inv n b' \<and> vec_items V (cell b') = vs \<and> cell_frame b' = cell_frame f)"
    using yields_mono [OF yields_cell [OF vec_set_ok [OF f(2), of own_key "map (msg_encode V) vs"]], of "holds n vs f"]
      cell_set_holds [of n "VValue (map (msg_encode V) vs)" f _ vs]
    by (simp add: faster_vec_calls_def faster_vec_set_def serialized holds_def [abs_def])
  show "yields (ec_clear calls) f () (\<lambda>b'. vec_inv n b' \<and> vec_items V (cell b') = [] \<and> cell_frame b' = cell_frame f)"
    using clear_ok [OF f(2)]
    by (simp add: faster_vec_calls_def faster_vec_clear_def) (auto simp: cell_set_def vec_inv_def elim: yields_mono)
qed

end

section \<open>Reducers and aggregators\<close>

definition agg_bytes :: "faster_value option \<Rightarrow> bytes option" where
  "agg_bytes x = (case x of Some (FAgg a) \<Rightarrow> agg_old a | _ \<Rightarrow> None)"

definition reducer_entry :: "'v message \<Rightarrow> faster_value option \<Rightarrow> bool" where
  "reducer_entry V x \<longleftrightarrow> (\<forall>y. x = Some y \<longrightarrow> (\<exists>a v. y = FAgg a \<and> agg_old a = Some (msg_encode V v)))"

lemma reducer_entry_cases:
  assumes "reducer_entry V x"
  obtains "x = None" | a v where "x = Some (FAgg a)" "agg_old a = Some (msg_encode V v)"
  using assms by (cases x) (auto simp: reducer_entry_def)

locale faster_reducer_cell = faster_cell D dok content IK eik vik N en vn h
  for D :: "('db, 'f) faster_api" and dok content and IK :: "'ik fixed_bytes" and eik vik and N :: "'n fixed_bytes" and en vn
    and h :: "('ik, 'n, 'v \<Rightarrow> 'v \<Rightarrow> 'v) handle" +
  fixes V :: "'v message" and shown :: "arcon_state_error \<Rightarrow> string"
  assumes value_law: "message_law V" and value_fits: "messages_fit 0 V"
begin

abbreviation calls where
  "calls \<equiv> faster_reducer_calls D shown IK N V h"

abbreviation red :: "'db faster \<Rightarrow> 'v option" where
  "red f \<equiv> decoded V (agg_bytes (cell f))"

definition reducer_inv :: "nat \<Rightarrow> 'db faster \<Rightarrow> bool" where
  "reducer_inv n f \<longleftrightarrow> fok n f \<and> reducer_entry V (cell f) \<and>
     fa_aggregate_fns f (h_id h) = Some (make_reduce_fn V (h_extra_data h))"

definition holds :: "nat \<Rightarrow> 'v option \<Rightarrow> 'db faster \<Rightarrow> 'db faster \<Rightarrow> bool" where
  "holds n v f f' \<longleftrightarrow> reducer_inv n f' \<and> red f' = v \<and> cell_frame f' = cell_frame f"

lemma cell_set_holds:
  assumes "reducer_inv m f" "cell_set n x f f'" "reducer_entry V x" "decoded V (agg_bytes x) = v"
  shows "holds n v f f'"
  using assms by (simp add: cell_set_def holds_def reducer_inv_def)

lemma refines_reducer: "reducer_session calls (h_extra_data h) reducer_inv 1 red cell_frame"
proof
  fix n m f v
  show "reducer_inv m f" if "reducer_inv n f" "m \<le> n" using that fok_mono by (auto simp: reducer_inv_def)
  assume inv: "reducer_inv (n + 1) f"
  then have f: "fok (Suc n) f" "reducer_entry V (cell f)"
      "fa_aggregate_fns f (h_id h) = Some (make_reduce_fn V (h_extra_data h))"
    by (simp_all add: reducer_inv_def)
  have same: "holds n (red f) f f'" if "cell_set n (cell f) f f'" for f'
    using cell_set_holds [OF inv that f(2)] by simp
  have "yields (bind_s (get_agg D own_key) (\<lambda>x. lift_o (old_value V x))) f (red f) (holds n (red f) f)"
    using f(2)
  proof (cases rule: reducer_entry_cases)
    case 1
    show ?thesis
      by (rule yields_bind [OF yields_mono [OF yields_same [OF get_agg_missing [OF f(1) 1]] same]])
        (auto simp: yields_def old_value_def agg_bytes_def 1)
  next
    case (2 a w)
    show ?thesis
      by (rule yields_bind [OF yields_mono [OF yields_same [OF get_agg_value [OF f(1) 2]] same]])
        (auto simp: yields_def old_value_def agg_bytes_def 2 value_law protobuf_deserialize_enc)
  qed
  then show "yields (rc_get calls) f (red f) (\<lambda>b'. reducer_inv n b' \<and> red b' = red f \<and> cell_frame b' = cell_frame f)"
    by (simp add: faster_reducer_calls_def faster_reducer_get_def holds_def [abs_def])
  have "yields (aggregate D shown own_key (msg_encode V v) (h_id h)) f ()
      (holds n (Some (case red f of None \<Rightarrow> v | Some old \<Rightarrow> h_extra_data h old v)) f)"
    using f(2)
  proof (cases rule: reducer_entry_cases)
    case 1
    show ?thesis
      by (rule yields_mono [OF yields_cell [OF aggregate_new [OF f(1) 1 f(3)]]], erule cell_set_holds [OF inv])
        (auto simp: reducer_entry_def agg_bytes_def 1 value_law)
  next
    case (2 a w)
    have g: "make_reduce_fn V (h_extra_data h) (msg_encode V w) (msg_encode V v) = Ok (msg_encode V (h_extra_data h w v))"
      by (simp add: make_reduce_fn_def protobuf_deserialize_enc value_law protobuf_serialize_fits [OF value_fits])
    show ?thesis
      by (rule yields_mono [OF yields_cell [OF aggregate_value [OF f(1) 2 f(3) g]]], erule cell_set_holds [OF inv])
        (auto simp: reducer_entry_def agg_bytes_def 2 value_law)
  qed
  then show "yields (rc_reduce calls v) f () (\<lambda>b'. reducer_inv n b' \<and>
      red b' = Some (case red f of None \<Rightarrow> v | Some old \<Rightarrow> h_extra_data h old v) \<and> cell_frame b' = cell_frame f)"
    by (simp add: faster_reducer_calls_def faster_reducer_reduce_def protobuf_serialize_fits [OF value_fits] holds_def [abs_def])
  have "yields (faster_remove D own_key) f () (holds n None f)"
    by (rule yields_mono [OF clear_ok [OF f(1)]], erule cell_set_holds [OF inv]) (auto simp: reducer_entry_def agg_bytes_def)
  then show "yields (rc_clear calls) f () (\<lambda>b'. reducer_inv n b' \<and> red b' = None \<and> cell_frame b' = cell_frame f)"
    by (simp add: faster_reducer_calls_def faster_reducer_clear_def holds_def [abs_def])
qed

end

text \<open>What an aggregator keeps after a sequence of values: nothing, the first value as it came, or the
  accumulator of all of them.\<close>

fun aggregated :: "'i message \<Rightarrow> 'acc message \<Rightarrow> ('i, 'acc, 'r) aggregator \<Rightarrow> 'i list \<Rightarrow> bytes option" where
  "aggregated INP ACC A [] = None"
| "aggregated INP ACC A [v] = Some (VALUE_MARKER # msg_encode INP v)"
| "aggregated INP ACC A (v # w # vs) =
     Some (ACCUMULATOR_MARKER # msg_encode ACC (foldl (agg_add A) (create_accumulator A) (v # w # vs)))"

lemma few_cases:
  obtains "vs = []" | v where "vs = [v]" | v w us where "vs = v # w # us"
  by (cases vs; cases "tl vs") auto

definition aggregator_entry :: "'i message \<Rightarrow> 'acc message \<Rightarrow> ('i, 'acc, 'r) aggregator \<Rightarrow> 'i list \<Rightarrow> faster_value option \<Rightarrow> bool" where
  "aggregator_entry INP ACC A vs x \<longleftrightarrow>
     (case aggregated INP ACC A vs of
        None \<Rightarrow> x = None
      | Some bs \<Rightarrow> (\<exists>a. x = Some (FAgg a) \<and> agg_old a = Some bs))"

fun aggregate_all :: "('b, 'i, 'r) aggregator_calls \<Rightarrow> 'i list \<Rightarrow> ('b, arcon_state_error, unit) action" where
  "aggregate_all H [] = return_s ()"
| "aggregate_all H (v # vs) = bind_s (ac_aggregate H v) (\<lambda>_. aggregate_all H vs)"

locale faster_aggregator_cell = faster_cell D dok content IK eik vik N en vn h
  for D :: "('db, 'f) faster_api" and dok content and IK :: "'ik fixed_bytes" and eik vik and N :: "'n fixed_bytes" and en vn
    and h :: "('ik, 'n, ('i, 'acc, 'r) aggregator) handle" +
  fixes INP :: "'i message" and ACC :: "'acc message" and shown :: "arcon_state_error \<Rightarrow> string"
  assumes input_law: "message_law INP" and input_fits: "messages_fit 1 INP"
    and acc_law: "message_law ACC" and acc_fits: "messages_fit 1 ACC"
begin

abbreviation calls where
  "calls \<equiv> faster_aggregator_calls D shown IK N INP ACC h"

abbreviation A where
  "A \<equiv> h_extra_data h"

definition holds :: "nat \<Rightarrow> 'i list \<Rightarrow> 'db faster \<Rightarrow> bool" where
  "holds n vs f \<longleftrightarrow> fok n f \<and> aggregator_entry INP ACC A vs (cell f) \<and>
     fa_aggregate_fns f (h_id h) = Some (make_aggregate_fn INP ACC A)"

lemma aggregated_snoc:
  assumes "aggregated INP ACC A vs = Some old"
  shows "\<exists>bs. make_aggregate_fn INP ACC A old (VALUE_MARKER # msg_encode INP v) = Ok bs \<and>
    aggregated INP ACC A (vs @ [v]) = Some bs"
  using assms
  by (cases vs rule: few_cases) (auto simp: make_aggregate_fn_def ACCUMULATOR_MARKER_def VALUE_MARKER_def
      protobuf_deserialize_enc input_law acc_law serialize_marked [OF acc_fits])

lemma aggregate_step:
  assumes "holds (Suc n) vs f"
  shows "yields (ac_aggregate calls v) f () (\<lambda>f'. holds n (vs @ [v]) f' \<and> cell_frame f' = cell_frame f)"
proof -
  have f: "fok (Suc n) f" "aggregator_entry INP ACC A vs (cell f)"
      "fa_aggregate_fns f (h_id h) = Some (make_aggregate_fn INP ACC A)"
    using assms by (simp_all add: holds_def)
  let ?new = "VALUE_MARKER # msg_encode INP v"
  have set: "holds n (vs @ [v]) f' \<and> cell_frame f' = cell_frame f"
    if "cell_set n x f f'" "aggregator_entry INP ACC A (vs @ [v]) x" for x f'
    using that f(3) by (simp add: cell_set_def holds_def)
  have "yields (aggregate D shown own_key ?new (h_id h)) f () (\<lambda>f'. holds n (vs @ [v]) f' \<and> cell_frame f' = cell_frame f)"
  proof (cases "aggregated INP ACC A vs")
    case None
    then have "vs = []" by (cases vs rule: few_cases) simp_all
    moreover have "cell f = None" using f(2) None by (simp add: aggregator_entry_def)
    ultimately show ?thesis
      by (intro yields_mono [OF yields_cell [OF aggregate_new [OF f(1) _ f(3)]]] set) (auto simp: aggregator_entry_def)
  next
    case (Some old)
    then obtain a where a: "cell f = Some (FAgg a)" "agg_old a = Some old" using f(2) by (auto simp: aggregator_entry_def)
    obtain bs where bs: "make_aggregate_fn INP ACC A old ?new = Ok bs" "aggregated INP ACC A (vs @ [v]) = Some bs"
      using aggregated_snoc [OF Some] by blast
    show ?thesis
      by (intro yields_mono [OF yields_cell [OF aggregate_value [OF f(1) a f(3) bs(1)]]] set)
        (auto simp: aggregator_entry_def bs(2))
  qed
  then show ?thesis
    by (simp add: faster_aggregator_calls_def faster_aggregator_aggregate_def serialize_marked [OF input_fits])
qed

lemma aggregate_all_holds:
  "holds (n + length vs) us f \<Longrightarrow>
    yields (aggregate_all calls vs) f () (\<lambda>f'. holds n (us @ vs) f' \<and> cell_frame f' = cell_frame f)"
proof (induction vs arbitrary: us f)
  case (Cons v vs)
  have "yields (ac_aggregate calls v) f () (\<lambda>f'. holds (n + length vs) (us @ [v]) f' \<and> cell_frame f' = cell_frame f)"
    using Cons.prems by (intro aggregate_step) simp
  then show ?case
    unfolding aggregate_all.simps
  proof (rule yields_bind)
    fix f'
    assume f': "holds (n + length vs) (us @ [v]) f' \<and> cell_frame f' = cell_frame f"
    then show "yields (aggregate_all calls vs) f' () (\<lambda>f''. holds n (us @ v # vs) f'' \<and> cell_frame f'' = cell_frame f)"
      using Cons.IH [of "us @ [v]" f'] by simp
  qed
qed simp

lemma get_holds:
  assumes "holds (Suc n) vs f"
  shows "\<exists>f'. ac_get calls f = (if length vs = 1 then Panic ''assertion failed: `(left == right)`''
      else accumulator_into_result A (foldl (agg_add A) (create_accumulator A) vs), f') \<and>
    holds n vs f' \<and> cell_frame f' = cell_frame f"
proof -
  have f: "fok (Suc n) f" "aggregator_entry INP ACC A vs (cell f)"
      "fa_aggregate_fns f (h_id h) = Some (make_aggregate_fn INP ACC A)"
    using assms by (simp_all add: holds_def)
  have "yields (get_agg D own_key) f (aggregated INP ACC A vs) (cell_set n (cell f) f)"
  proof (cases "aggregated INP ACC A vs")
    case None
    then show ?thesis using f(2) yields_same [OF get_agg_missing [OF f(1)]] by (simp add: aggregator_entry_def)
  next
    case (Some bs)
    then obtain a where "cell f = Some (FAgg a)" "agg_old a = Some bs" using f(2) by (auto simp: aggregator_entry_def)
    then show ?thesis using yields_same [OF get_agg_value [OF f(1)]] Some by simp
  qed
  then obtain f' where f': "get_agg D own_key f = (Ok (aggregated INP ACC A vs), f')" "cell_set n (cell f) f f'"
    by (auto elim: yieldsE)
  have "holds n vs f' \<and> cell_frame f' = cell_frame f" using f'(2) f(2,3) by (simp add: cell_set_def holds_def)
  moreover have "ac_get calls f = (if length vs = 1 then Panic ''assertion failed: `(left == right)`''
      else accumulator_into_result A (foldl (agg_add A) (create_accumulator A) vs), f')"
    using f'(1) by (cases vs rule: few_cases)
      (auto simp: faster_aggregator_calls_def faster_aggregator_get_def ACCUMULATOR_MARKER_def VALUE_MARKER_def
        protobuf_deserialize_enc acc_law)
  ultimately show ?thesis by blast
qed

end

end
