(* ===== verification/Faster_Maps.thy ===== *)
theory Faster_Maps
  imports Faster_Laws
begin

text \<open>
  Maps of the FASTER backend. Every entry has a key of its own; with the feature \<^verbatim>\<open>slower_faster\<close> the
  metakeys alone are the key of a list of all of them, which the walks over a map read.
\<close>

lemma has_prefix_self [simp]: "has_prefix p p"
  by (simp add: has_prefix_def)

definition entry_key :: "'k message \<Rightarrow> ('ik \<Rightarrow> bytes) \<Rightarrow> ('n \<Rightarrow> bytes) \<Rightarrow> ('ik, 'n, 'x) handle \<Rightarrow> 'k \<Rightarrow> bytes" where
  "entry_key K eik en h k = id_key eik en h @ msg_encode K k"

definition faster_entries ::
    "('db \<Rightarrow> bytes \<rightharpoonup> faster_value) \<Rightarrow> 'k message \<Rightarrow> 'v message \<Rightarrow> ('ik \<Rightarrow> bytes) \<Rightarrow> ('n \<Rightarrow> bytes) \<Rightarrow> ('ik, 'n, 'x) handle
      \<Rightarrow> 'db faster \<Rightarrow> 'k \<rightharpoonup> 'v" where
  "faster_entries content K V eik en h f k = value_at V (content (fa_db f) (entry_key K eik en h k))"

text \<open>The list of the keys: absent when the map never had one since it was cleared.\<close>

definition keys_listed :: "('k \<Rightarrow> bytes) \<Rightarrow> faster_value option \<Rightarrow> 'k set \<Rightarrow> bool" where
  "keys_listed stored_key x S \<longleftrightarrow> x = None \<and> S = {} \<or>
     (\<exists>z ks. x = Some (FVec z) \<and> vec_content z = Ok (map stored_key ks) \<and> distinct ks \<and> set ks = S)"

locale faster_map_cell = faster_cell D dok content IK eik vik N en vn h
  for D :: "('db, 'f) faster_api" and dok content and IK :: "'ik fixed_bytes" and eik vik and N :: "'n fixed_bytes" and en vn
    and h :: "('ik, 'n, 'x) handle" +
  fixes K :: "'k message" and V :: "'v message" and slow :: bool
  assumes key_law: "message_law K" and value_law: "message_law V" and value_fits: "messages_fit 0 V"
    and key_nonempty: "slow \<Longrightarrow> never_empty K"
begin

abbreviation calls where
  "calls \<equiv> faster_map_calls slow D IK N K V h"

abbreviation stored_key :: "'k \<Rightarrow> bytes" where
  "stored_key \<equiv> entry_key K eik en h"

lemma stored_key_def: "stored_key k = own_key @ msg_encode K k"
  by (simp add: entry_key_def)

definition fkey_ok :: "'k \<Rightarrow> bool" where
  "fkey_ok k \<longleftrightarrow> length own_key + length (msg_encode K k) \<le> usize_max"

abbreviation entries :: "'db faster \<Rightarrow> 'k \<rightharpoonup> 'v" where
  "entries \<equiv> faster_entries content K V eik en h"

lemmas entries_def = faster_entries_def

abbreviation key_list :: "faster_value option \<Rightarrow> 'k set \<Rightarrow> bool" where
  "key_list \<equiv> keys_listed stored_key"

lemmas key_list_def = keys_listed_def

definition map_inv :: "nat \<Rightarrow> 'db faster \<Rightarrow> bool" where
  "map_inv n f \<longleftrightarrow> fok n f \<and> (\<forall>k. value_entry V (fcontent f (stored_key k))) \<and>
     (slow \<longrightarrow> key_list (cell f) (dom (entries f)))"

definition removable :: "'db faster \<Rightarrow> 'k \<Rightarrow> bool" where
  "removable f k \<longleftrightarrow> slow \<longrightarrow> cell f \<noteq> None"

lemma removable_cell: "removable f k \<Longrightarrow> slow \<Longrightarrow> cell f \<noteq> None"
  unfolding removable_def by blast

definition map_frame where
  "map_frame = faster_frame content (has_prefix own_key)"

definition stored :: "nat \<Rightarrow> ('k \<rightharpoonup> 'v) \<Rightarrow> 'db faster \<Rightarrow> 'db faster \<Rightarrow> bool" where
  "stored n E f f' \<longleftrightarrow> map_inv n f' \<and> entries f' = E \<and> map_frame f' = map_frame f"

lemma map_invD:
  assumes "map_inv n f"
  shows "fok n f" "value_entry V (fcontent f (stored_key k))" "slow \<Longrightarrow> key_list (cell f) (dom (entries f))"
  using assms unfolding map_inv_def by blast+

lemma stored_key_inj [simp]: "stored_key k = stored_key l \<longleftrightarrow> k = l"
  by (simp add: stored_key_def message_inj [OF key_law])

lemma inj_stored_key: "inj_on stored_key S"
  by (rule inj_onI) simp

lemma stored_key_prefix [simp]: "has_prefix own_key (stored_key k)" "has_prefix own_key own_key"
  by (simp_all add: stored_key_def has_prefix_def)

lemma stored_key_own: "slow \<Longrightarrow> stored_key k \<noteq> own_key"
  using key_nonempty by (simp add: stored_key_def never_empty_def)

lemma stored_key_ok:
  assumes "fkey_ok k"
  shows "serialize_id_metakeys_and_key IK N K h k = Ok (stored_key k)"
proof -
  have "length own_key \<le> bm_room (vec_target [])" using assms by (simp add: fkey_ok_def)
  moreover have "length (msg_encode K k) \<le> usize_max - length own_key" using assms by (simp add: fkey_ok_def)
  ultimately show ?thesis
    by (simp add: serialize_id_metakeys_and_key_def serialize_id_metakeys_and_key_into_def into_fresh_vec_def into_room
        protobuf_serialize_into_def stored_key_def)
qed

lemma stored_user_key_ok: "stored_user_key IK N K (stored_key k) = Ok k"
proof -
  have "length (str_bytes (h_id h)) \<le> usize_max" using id_fits by (simp add: str_bytes_def)
  then have "deserialize_bytes_from (stored_key k)
      = (Ok (str_bytes (h_id h)), eik (h_item_key h) @ en (h_namespace h) @ msg_encode K k)"
    using deserialize_bytes_from_enc [of "str_bytes (h_id h)" "eik (h_item_key h) @ en (h_namespace h) @ msg_encode K k"]
    by (simp add: stored_key_def own_key_def enc_bytes_def enc_len_def mk_def)
  then show ?thesis
    using protobuf_deserialize_from_enc [OF key_law, of k "[]"]
    by (simp add: stored_user_key_def ik.from_enc n.from_enc item_key_valid namespace_valid)
qed

section \<open>Writes\<close>

lemma storedI:
  assumes "wrote n t f f'" and "\<And>k. value_entry V (t (stored_key k))" and "\<And>k. value_at V (t (stored_key k)) = E k"
    and "slow \<Longrightarrow> key_list (t own_key) (dom E)" and "\<And>x. \<not> has_prefix own_key x \<Longrightarrow> t x = fcontent f x"
  shows "stored n E f f'"
proof -
  have t: "fcontent f' = t" "fok n f'" using assms(1) by (simp_all add: wrote_def)
  have E: "entries f' = E" by (rule ext) (simp add: entries_def t assms(3))
  show ?thesis
    using wrote_frame [OF assms(1,5)] assms(2,4) by (simp add: stored_def map_inv_def map_frame_def E t)
qed

lemma stored_trans: "stored n E f f' \<Longrightarrow> stored m E' f' f'' \<Longrightarrow> stored m E' f f''"
  by (simp add: stored_def)

lemma map_inv_mono: "map_inv n f \<Longrightarrow> m \<le> n \<Longrightarrow> map_inv m f"
  using fok_mono by (auto simp: map_inv_def)

lemma stored_same:
  assumes "map_inv m f" "wrote n (fcontent f) f f'"
  shows "stored n (entries f) f f'"
  by (rule storedI [OF assms(2)]) (rule map_invD [OF assms(1)] entries_def [symmetric] refl | assumption)+

lemma key_list_cases:
  assumes "key_list x S"
  obtains "x = None" "S = {}" | z ks where "x = Some (FVec z)" "vec_content z = Ok (map stored_key ks)" "distinct ks" "set ks = S"
  using assms by (auto simp: key_list_def)

lemma key_list_push:
  assumes "fok (Suc n) f" "key_list (cell f) S"
  shows "\<exists>x. yields (vec_push_if_absent D own_key (stored_key k)) f () (wrote n ((fcontent f)(own_key := x)) f) \<and>
    key_list x (insert k S)"
  using assms(2)
proof (cases rule: key_list_cases)
  case 1
  have "key_list (Some (FVec (VPushIfAbsent (stored_key k)))) (insert k S)"
    unfolding key_list_def by (rule disjI2) (rule exI [of _ "VPushIfAbsent (stored_key k)"], rule exI [of _ "[k]"], simp add: 1)
  then show ?thesis using rmw_vec_new [OF assms(1) 1(1)] by (auto simp: vec_push_if_absent_def)
next
  case (2 z ks)
  let ?ks = "if k \<in> set ks then ks else ks @ [k]"
  have r: "vec_rmw z (VPushIfAbsent (stored_key k)) = Ok (VValue (map stored_key ?ks))"
    by (auto simp: vec_rmw_def 2(2))
  have "key_list (Some (FVec (VValue (map stored_key ?ks)))) (insert k S)"
    unfolding key_list_def by (rule disjI2) (rule exI [of _ "VValue (map stored_key ?ks)"], rule exI [of _ ?ks], use 2 in auto)
  then show ?thesis using rmw_vec_value [OF assms(1) 2(1) r] by (auto simp: vec_push_if_absent_def)
qed

lemma key_list_remove:
  assumes "fok (Suc n) f" "key_list (cell f) S" "cell f \<noteq> None"
  shows "\<exists>x. yields (vec_remove D own_key (stored_key k)) f () (wrote n ((fcontent f)(own_key := x)) f) \<and>
    key_list x (S - {k})"
  using assms(2)
proof (cases rule: key_list_cases)
  case (2 z ks)
  let ?ks = "remove1 k ks"
  have "remove1 (stored_key k) (map stored_key ks) = map stored_key ?ks" by (induction ks) auto
  then have r: "vec_rmw z (VRemove (stored_key k)) = Ok (VValue (map stored_key ?ks))" by (simp add: vec_rmw_def 2(2))
  have "key_list (Some (FVec (VValue (map stored_key ?ks)))) (S - {k})"
    unfolding key_list_def
    by (rule disjI2) (rule exI [of _ "VValue (map stored_key ?ks)"], rule exI [of _ ?ks], use 2 in \<open>auto simp: distinct_remove1\<close>)
  then show ?thesis using rmw_vec_value [OF assms(1) 2(1) r] by (auto simp: vec_remove_def)
qed (use assms(3) in simp)

lemma dom_entries: "k \<in> dom (entries f) \<longleftrightarrow> value_at V (fcontent f (stored_key k)) \<noteq> None"
  by (simp add: entries_def domIff)

lemma store_entry_ok:
  assumes "map_inv (Suc (Suc n)) f"
  shows "yields (store_entry slow D IK N V h (stored_key k) v) f () (stored n ((entries f)(k \<mapsto> v)) f)"
proof -
  have f: "fok (Suc (Suc n)) f" "\<And>k. value_entry V (fcontent f (stored_key k))" "slow \<Longrightarrow> key_list (cell f) (dom (entries f))"
    using map_invD [OF assms] by blast+
  let ?c = "(fcontent f)(stored_key k \<mapsto> FBytes (msg_encode V v))"
  have put: "yields (faster_put D (stored_key k) (msg_encode V v)) f () (wrote (Suc n) ?c f)" by (rule put_ok [OF f(1)])
  have "yields (bind_s (faster_put D (stored_key k) (msg_encode V v)) (\<lambda>_.
      if_slow slow (vec_push_if_absent D own_key (stored_key k)))) f () (stored n ((entries f)(k \<mapsto> v)) f)"
  proof (rule yields_bind [OF put])
    fix g
    assume g: "wrote (Suc n) ?c f g"
    show "yields (if_slow slow (vec_push_if_absent D own_key (stored_key k))) g () (stored n ((entries f)(k \<mapsto> v)) f)"
    proof (cases slow)
      case False
      have "stored n ((entries f)(k \<mapsto> v)) f g"
      proof (rule storedI)
        show "wrote n ?c f g" using g fok_mono by (auto simp: wrote_def)
      qed (use f(2) value_law False in \<open>auto simp: entries_def\<close>)
      then show ?thesis by (simp add: if_slow_def False)
    next
      case True
      have c: "cell g = cell f" "fok (Suc n) g" using g stored_key_own [OF True, of k] by (simp_all add: wrote_def)
      obtain x where x: "yields (vec_push_if_absent D own_key (stored_key k)) g () (wrote n ((fcontent g)(own_key := x)) g)"
          "key_list x (insert k (dom (entries f)))"
        using key_list_push [OF c(2), of "dom (entries f)" k] f(3) [OF True] c(1) by auto
      have "stored n ((entries f)(k \<mapsto> v)) f f'" if "wrote n ((fcontent g)(own_key := x)) g f'" for f'
      proof (rule storedI)
        show "wrote n (?c(own_key := x)) f f'" using that g by (simp add: wrote_def)
      qed (use f(2) value_law x(2) stored_key_own [OF True] in \<open>auto simp: entries_def\<close>)
      with x(1) show ?thesis by (auto simp: if_slow_def True elim: yields_mono)
    qed
  qed
  then show ?thesis by (simp add: store_entry_def protobuf_serialize_fits [OF value_fits])
qed

lemma drop_entry_ok:
  assumes "map_inv (Suc (Suc n)) f" "removable f k"
  shows "yields (drop_entry slow D IK N h (stored_key k)) f () (stored n ((entries f)(k := None)) f)"
proof -
  have f: "fok (Suc (Suc n)) f" "\<And>k. value_entry V (fcontent f (stored_key k))" "slow \<Longrightarrow> key_list (cell f) (dom (entries f))"
    using map_invD [OF assms(1)] by blast+
  let ?c = "(fcontent f)(stored_key k := None)"
  have "yields (bind_s (faster_remove D (stored_key k)) (\<lambda>_. if_slow slow (vec_remove D own_key (stored_key k)))) f ()
      (stored n ((entries f)(k := None)) f)"
  proof (rule yields_bind [OF remove_ok [OF f(1)]])
    fix g
    assume g: "wrote (Suc n) ?c f g"
    show "yields (if_slow slow (vec_remove D own_key (stored_key k))) g () (stored n ((entries f)(k := None)) f)"
    proof (cases slow)
      case False
      have "stored n ((entries f)(k := None)) f g"
      proof (rule storedI)
        show "wrote n ?c f g" using g fok_mono by (auto simp: wrote_def)
      qed (use f(2) False in \<open>auto simp: entries_def\<close>)
      then show ?thesis by (simp add: if_slow_def False)
    next
      case True
      have c: "cell g = cell f" "fok (Suc n) g" using g stored_key_own [OF True, of k] by (simp_all add: wrote_def)
      obtain x where x: "yields (vec_remove D own_key (stored_key k)) g () (wrote n ((fcontent g)(own_key := x)) g)"
          "key_list x (dom (entries f) - {k})"
        using key_list_remove [OF c(2), of "dom (entries f)" k] f(3) [OF True] c(1) removable_cell [OF assms(2) True] by auto
      have "stored n ((entries f)(k := None)) f f'" if "wrote n ((fcontent g)(own_key := x)) g f'" for f'
      proof (rule storedI)
        show "wrote n (?c(own_key := x)) f f'" using that g by (simp add: wrote_def)
      qed (use f(2) x(2) stored_key_own [OF True] in \<open>auto simp: entries_def\<close>)
      with x(1) show ?thesis by (auto simp: if_slow_def True elim: yields_mono)
    qed
  qed
  then show ?thesis by (simp add: drop_entry_def)
qed

lemma insert_all_ok:
  "map_inv (n + 2 * length kvs) f \<Longrightarrow> list_all (\<lambda>p. fkey_ok (fst p)) kvs \<Longrightarrow>
    yields (faster_map_insert_all slow D IK N K V h kvs) f () (stored n (entries f ++ map_of (rev kvs)) f)"
proof (induction kvs arbitrary: f)
  case Nil
  then show ?case by (simp add: stored_def yields_def)
next
  case (Cons p kvs)
  obtain k v where p: "p = (k, v)" by (cases p)
  have "yields (store_entry slow D IK N V h (stored_key k) v) f () (stored (n + 2 * length kvs) ((entries f)(k \<mapsto> v)) f)"
    using Cons.prems(1) by (intro store_entry_ok) simp
  then have "yields (bind_s (store_entry slow D IK N V h (stored_key k) v) (\<lambda>_. faster_map_insert_all slow D IK N K V h kvs)) f ()
      (stored n ((entries f)(k \<mapsto> v) ++ map_of (rev kvs)) f)"
  proof (rule yields_bind)
    fix g
    assume g: "stored (n + 2 * length kvs) ((entries f)(k \<mapsto> v)) f g"
    then have "yields (faster_map_insert_all slow D IK N K V h kvs) g () (stored n (entries g ++ map_of (rev kvs)) g)"
      using Cons.prems(2) by (intro Cons.IH) (simp_all add: stored_def)
    then show "yields (faster_map_insert_all slow D IK N K V h kvs) g () (stored n ((entries f)(k \<mapsto> v) ++ map_of (rev kvs)) f)"
      using g by (auto simp: stored_def elim: yields_mono)
  qed
  then show ?case using Cons.prems(2) by (simp add: p stored_key_ok map_add_upd map_add_assoc)
qed

lemma get_entry_ok:
  assumes "map_inv (Suc n) f"
  shows "yields (bind_s (faster_get D (stored_key k)) (\<lambda>x. lift_o (old_value V x))) f (entries f k) (stored n (entries f) f)"
proof -
  have "yields (bind_s (faster_get D (stored_key k)) (\<lambda>x. lift_o (old_value V x))) f (entries f k) (wrote n (fcontent f) f)"
    using get_old_value [OF map_invD(1,2) [OF assms] value_law] by (simp add: entries_def)
  then show ?thesis by (rule yields_mono) (rule stored_same [OF assms])
qed

lemma contains_ok:
  assumes "map_inv (Suc n) f"
  shows "yields (bind_s (faster_get D (stored_key k)) (\<lambda>x. return_s (x \<noteq> None))) f (entries f k \<noteq> None) (stored n (entries f) f)"
  using map_invD(2) [OF assms, of k]
proof (cases rule: value_entry_cases)
  case 1
  show ?thesis
    by (rule yields_bind [OF get_missing [OF map_invD(1) [OF assms] 1]])
      (auto simp: entries_def 1 intro: stored_same [OF assms])
next
  case (2 v)
  show ?thesis
    by (rule yields_bind [OF get_bytes [OF map_invD(1) [OF assms] 2]])
      (auto simp: entries_def 2 value_law intro: stored_same [OF assms])
qed

lemma refines_map: "map_session calls map_inv 3 fkey_ok removable entries map_frame"
proof
  fix n m f k v kvs
  show "map_inv m f" if "map_inv n f" "m \<le> n" using that by (rule map_inv_mono)
  show "yields (mc_insert_all calls kvs) f () (\<lambda>b'. map_inv n b' \<and> entries b' = entries f ++ map_of (rev kvs) \<and>
      map_frame b' = map_frame f)"
    if "map_inv (n + 3 * Suc (length kvs)) f" "list_all (\<lambda>p. fkey_ok (fst p)) kvs"
    using insert_all_ok [OF map_inv_mono [OF that(1)] that(2), of n] by (simp add: faster_map_calls_def stored_def [abs_def])
  assume inv: "map_inv (n + 3) f" and k: "fkey_ok k"
  have f: "map_inv (Suc (Suc (Suc n))) f" "map_inv (Suc (Suc n)) f" "map_inv (Suc n) f"
    using map_inv_mono [OF inv] by simp_all
  note defs = faster_map_calls_def stored_key_ok [OF k] stored_def [abs_def]
  show "yields (mc_get calls k) f (entries f k) (\<lambda>b'. map_inv n b' \<and> entries b' = entries f \<and> map_frame b' = map_frame f)"
    using get_entry_ok [OF f(3), of k] by (simp add: faster_map_get_def defs)
  show "yields (mc_contains calls k) f (entries f k \<noteq> None)
      (\<lambda>b'. map_inv n b' \<and> entries b' = entries f \<and> map_frame b' = map_frame f)"
    using contains_ok [OF f(3), of k] by (simp add: faster_map_contains_def defs)
  show "yields (mc_fast_insert calls k v) f ()
      (\<lambda>b'. map_inv n b' \<and> entries b' = (entries f)(k \<mapsto> v) \<and> map_frame b' = map_frame f)"
    using store_entry_ok [OF f(2), of k v] by (simp add: faster_map_fast_insert_def defs)
  show "yields (mc_insert calls k v) f (entries f k)
      (\<lambda>b'. map_inv n b' \<and> entries b' = (entries f)(k \<mapsto> v) \<and> map_frame b' = map_frame f)"
  proof -
    have "yields (bind_s (bind_s (faster_get D (stored_key k)) (\<lambda>x. lift_o (old_value V x))) (\<lambda>old.
        bind_s (store_entry slow D IK N V h (stored_key k) v) (\<lambda>_. return_s old))) f (entries f k) (stored n ((entries f)(k \<mapsto> v)) f)"
    proof (rule yields_bind [OF get_entry_ok [OF f(1), of k]])
      fix g
      assume g: "stored (Suc (Suc n)) (entries f) f g"
      then have "yields (store_entry slow D IK N V h (stored_key k) v) g () (stored n ((entries g)(k \<mapsto> v)) g)"
        by (intro store_entry_ok) (simp add: stored_def)
      then show "yields (bind_s (store_entry slow D IK N V h (stored_key k) v) (\<lambda>_. return_s (entries f k))) g (entries f k)
          (stored n ((entries f)(k \<mapsto> v)) f)"
        by (rule yields_bind) (use g in \<open>simp add: stored_def\<close>)
    qed
    then show ?thesis by (simp add: faster_map_insert_def defs)
  qed
  assume r: "removable f k"
  show "yields (mc_fast_remove calls k) f ()
      (\<lambda>b'. map_inv n b' \<and> entries b' = (entries f)(k := None) \<and> map_frame b' = map_frame f)"
    using drop_entry_ok [OF f(2) r] by (simp add: faster_map_fast_remove_def defs)
  show "yields (mc_remove calls k) f (entries f k)
      (\<lambda>b'. map_inv n b' \<and> entries b' = (entries f)(k := None) \<and> map_frame b' = map_frame f)"
  proof -
    have get: "yields (bind_s (faster_get D (stored_key k)) (\<lambda>x. lift_o (old_value V x))) f (entries f k)
        (wrote (Suc (Suc n)) (fcontent f) f)"
      using get_old_value [OF map_invD(1,2) [OF f(1)] value_law] by (simp add: entries_def)
    have "yields (bind_s (bind_s (faster_get D (stored_key k)) (\<lambda>x. lift_o (old_value V x))) (\<lambda>old.
        bind_s (drop_entry slow D IK N h (stored_key k)) (\<lambda>_. return_s old))) f (entries f k) (stored n ((entries f)(k := None)) f)"
    proof (rule yields_bind [OF get])
      fix g
      assume g: "wrote (Suc (Suc n)) (fcontent f) f g"
      then have s: "stored (Suc (Suc n)) (entries f) f g" by (rule stored_same [OF f(1)])
      have "removable g k" using r g unfolding removable_def wrote_def by simp
      then have "yields (drop_entry slow D IK N h (stored_key k)) g () (stored n ((entries g)(k := None)) g)"
        using s by (intro drop_entry_ok) (simp_all add: stored_def)
      then show "yields (bind_s (drop_entry slow D IK N h (stored_key k)) (\<lambda>_. return_s (entries f k))) g (entries f k)
          (stored n ((entries f)(k := None)) f)"
        by (rule yields_bind) (use s in \<open>simp add: stored_def\<close>)
    qed
    then show ?thesis by (simp add: faster_map_remove_def defs)
  qed
qed

section \<open>Walks over all entries\<close>

lemma drain_ok:
  assumes "\<And>x n f. x \<in> set xs \<Longrightarrow> P (Suc n) f \<Longrightarrow> yields (item x) f (g x) (P n)" and "P (n + length xs) f"
  shows "yields (drain item xs) f (map (\<lambda>x. Ok (g x)) xs) (P n)"
  using assms
proof (induction xs arbitrary: f)
  case Nil
  then show ?case by (simp add: yields_def)
next
  case (Cons x xs)
  obtain f' where f': "item x f = (Ok (g x), f')" "P (n + length xs) f'"
    using Cons.prems(1) [of x "n + length xs" f] Cons.prems(2) by (auto elim: yieldsE)
  have "yields (drain item xs) f' (map (\<lambda>x. Ok (g x)) xs) (P n)"
    using Cons.IH [OF _ f'(2)] Cons.prems(1) by simp
  then show ?case using f'(1) by (auto simp: yields_def)
qed

text \<open>The keys of the list, as the walks read them.\<close>

lemma read_keys:
  assumes "slow" "map_inv (Suc n) f"
  shows "\<exists>x ks. yields (faster_get_vec D own_key) f x (wrote n (fcontent f) f) \<and>
    (case x of None \<Rightarrow> ks = [] | Some bs \<Rightarrow> bs = map stored_key ks) \<and> distinct ks \<and> set ks = dom (entries f)"
  using map_invD(3) [OF assms(2,1)]
proof (cases rule: key_list_cases)
  case 1
  show ?thesis
    by (rule exI [of _ None], rule exI [of _ "[]"]) (use get_vec_missing [OF map_invD(1) [OF assms(2)] 1(1)] 1 in simp)
next
  case (2 z ks)
  show ?thesis
    by (rule exI [of _ "Some (map stored_key ks)"], rule exI [of _ ks])
      (use get_vec_value [OF map_invD(1) [OF assms(2)] 2(1,2)] 2 in simp)
qed

lemma remove_keys_ok:
  "fok (n + length ks) f \<Longrightarrow>
    yields (remove_keys D ks) f () (wrote n (\<lambda>x. if x \<in> set ks then None else fcontent f x) f)"
proof (induction ks arbitrary: f)
  case Nil
  then show ?case by (simp add: wrote_def yields_def)
next
  case (Cons k ks)
  have "yields (faster_remove D k) f () (wrote (n + length ks) ((fcontent f)(k := None)) f)"
    using Cons.prems by (intro remove_ok) simp
  then show ?case
    unfolding remove_keys.simps
  proof (rule yields_bind)
    fix g
    assume g: "wrote (n + length ks) ((fcontent f)(k := None)) f g"
    then have "yields (remove_keys D ks) g () (wrote n (\<lambda>x. if x \<in> set ks then None else fcontent g x) g)"
      by (intro Cons.IH) (simp add: wrote_def)
    moreover have "(\<lambda>x. if x \<in> set ks then None else fcontent g x) = (\<lambda>x. if x \<in> set (k # ks) then None else fcontent f x)"
      using g by (auto simp: wrote_def)
    ultimately show "yields (remove_keys D ks) g () (wrote n (\<lambda>x. if x \<in> set (k # ks) then None else fcontent f x) f)"
      using g by (auto simp: wrote_def elim: yields_mono)
  qed
qed

lemma walk_ok:
  assumes s: "slow" and inv: "map_inv (n + Suc (card (dom (entries f)))) f"
    and item: "\<And>k v n g. entries f k = Some v \<Longrightarrow> wrote (Suc n) (fcontent f) f g \<Longrightarrow>
      yields (item (stored_key k)) g (r k v) (wrote n (fcontent f) f)"
  shows "\<exists>ks. yields (walk_keys slow D IK N h item) f (map (\<lambda>k. Ok (r k (the (entries f k)))) ks) (stored n (entries f) f) \<and>
    distinct ks \<and> set ks = dom (entries f)"
proof -
  have "map_inv (Suc (n + card (dom (entries f)))) f" using inv by simp
  then obtain x ks where x: "yields (faster_get_vec D own_key) f x (wrote (n + card (dom (entries f))) (fcontent f) f)"
      "case x of None \<Rightarrow> ks = [] | Some bs \<Rightarrow> bs = map stored_key ks" "distinct ks" "set ks = dom (entries f)"
    using read_keys [OF s] by blast
  have len: "card (dom (entries f)) = length ks" using x(3,4) distinct_card by metis
  define g where "g x = (let k = inv_into UNIV stored_key x in r k (the (entries f k)))" for x
  have g: "g (stored_key k) = r k (the (entries f k))" for k by (simp add: g_def inv_f_f [OF inj_stored_key])
  have "yields (bind_s (faster_get_vec D own_key) (\<lambda>keys. drain item (case keys of None \<Rightarrow> [] | Some ks \<Rightarrow> ks))) f
      (map (\<lambda>x. Ok (g x)) (map stored_key ks)) (wrote n (fcontent f) f)"
  proof (rule yields_bind [OF x(1)])
    fix f'
    assume f': "wrote (n + card (dom (entries f))) (fcontent f) f f'"
    have "yields (drain item (map stored_key ks)) f' (map (\<lambda>x. Ok (g x)) (map stored_key ks)) (wrote n (fcontent f) f)"
    proof (rule drain_ok)
      show "wrote (n + length (map stored_key ks)) (fcontent f) f f'" using f' len by simp
      fix y m b
      assume "y \<in> set (map stored_key ks)" and b: "wrote (Suc m) (fcontent f) f b"
      then obtain k v where "y = stored_key k" "entries f k = Some v" using x(4) by auto
      then show "yields (item y) b (g y) (wrote m (fcontent f) f)" using item [OF _ b, of k v] g [of k] by simp
    qed
    moreover have "(case x of None \<Rightarrow> [] | Some ks \<Rightarrow> ks) = map stored_key ks" using x(2) by (cases x) simp_all
    ultimately show "yields (drain item (case x of None \<Rightarrow> [] | Some ks \<Rightarrow> ks)) f' (map (\<lambda>x. Ok (g x)) (map stored_key ks))
        (wrote n (fcontent f) f)" by simp
  qed
  then have "yields (walk_keys slow D IK N h item) f (map (\<lambda>k. Ok (r k (the (entries f k)))) ks) (stored n (entries f) f)"
    by (intro yields_mono [OF _ stored_same [OF inv]]) (simp_all add: walk_keys_def s g o_def)
  then show ?thesis using x(3,4) by blast
qed

lemma stored_value_ok:
  assumes "map_inv m f" "entries f k = Some v" "wrote (Suc n) (fcontent f) f g"
  shows "yields (stored_value D (stored_key k)) g (msg_encode V v) (wrote n (fcontent f) f)"
proof -
  have "fcontent f (stored_key k) = Some (FBytes (msg_encode V v))"
    using map_invD(2) [OF assms(1), of k] assms(2) value_law by (auto simp: entries_def elim: value_entry_cases)
  then have "yields (faster_get D (stored_key k)) g (Some (msg_encode V v)) (wrote n (fcontent g) g)"
    using assms(3) by (intro get_bytes) (simp_all add: wrote_def)
  then show ?thesis
    unfolding stored_value_def
    by (rule yields_bind) (use assms(3) in \<open>auto simp: yields_def unwrap_or_panic_def wrote_def\<close>)
qed

lemma clear_map_ok:
  assumes s: "slow" and inv: "map_inv (Suc (Suc (n + card (dom (entries f))))) f"
  shows "yields (faster_map_clear slow D IK N h) f () (stored n Map.empty f)"
proof -
  obtain x ks where x: "yields (faster_get_vec D own_key) f x (wrote (Suc (n + card (dom (entries f)))) (fcontent f) f)"
      "case x of None \<Rightarrow> ks = [] | Some bs \<Rightarrow> bs = map stored_key ks" "distinct ks" "set ks = dom (entries f)"
    using read_keys [OF s inv] by blast
  have len: "card (dom (entries f)) = length ks" using x(3,4) distinct_card by metis
  have gone: "fcontent f (stored_key k) = None" if "k \<notin> set ks" for k
    using map_invD(2) [OF inv, of k] that x(4) value_law by (auto simp: entries_def domIff elim: value_entry_cases)
  have "yields (bind_s (faster_get_vec D own_key) (\<lambda>keys. case keys of None \<Rightarrow> return_s ()
      | Some keys \<Rightarrow> bind_s (faster_remove D own_key) (\<lambda>_. remove_keys D keys))) f () (stored n Map.empty f)"
  proof (rule yields_bind [OF x(1)])
    fix g
    assume g: "wrote (Suc (n + card (dom (entries f)))) (fcontent f) f g"
    show "yields (case x of None \<Rightarrow> return_s () | Some keys \<Rightarrow> bind_s (faster_remove D own_key) (\<lambda>_. remove_keys D keys)) g ()
        (stored n Map.empty f)"
    proof (cases x)
      case None
      then have "entries f = Map.empty" using x(2,4) by auto
      moreover have "stored n (entries f) f g"
        using stored_same [OF inv g] map_inv_mono [of _ g n] by (auto simp: stored_def)
      ultimately show ?thesis by (simp add: None)
    next
      case (Some bs)
      then have bs: "bs = map stored_key ks" using x(2) by simp
      let ?t = "\<lambda>y. if y \<in> set bs then None else ((fcontent f)(own_key := None)) y"
      have "yields (bind_s (faster_remove D own_key) (\<lambda>_. remove_keys D bs)) g () (wrote n ?t f)"
      proof (rule yields_bind [OF remove_ok])
        show "fok (Suc (n + length ks)) g" using g len by (simp add: wrote_def)
        fix g'
        assume g': "wrote (n + length ks) ((fcontent g)(own_key := None)) g g'"
        have "yields (remove_keys D bs) g' () (wrote n (\<lambda>y. if y \<in> set bs then None else fcontent g' y) g')"
          using g' by (intro remove_keys_ok) (simp add: wrote_def bs)
        then show "yields (remove_keys D bs) g' () (wrote n ?t f)"
          by (rule yields_mono) (use g g' in \<open>auto simp: wrote_def\<close>)
      qed
      then have "yields (bind_s (faster_remove D own_key) (\<lambda>_. remove_keys D bs)) g () (stored n Map.empty f)"
      proof (rule yields_mono)
        fix f'
        assume "wrote n ?t f f'"
        then show "stored n Map.empty f f'"
          by (rule storedI) (use gone bs in \<open>auto simp: key_list_def image_iff\<close>)
      qed
      then show ?thesis by (simp add: Some)
    qed
  qed
  then show ?thesis by (simp add: faster_map_clear_def s)
qed

lemma size_ok:
  assumes s: "slow" and inv: "map_inv (Suc n) f" and g: "g None = g' []" "\<And>ks. g (Some (map stored_key ks)) = g' ks"
  shows "\<exists>ks. yields (bind_s (faster_get_vec D own_key) (\<lambda>keys. return_s (g keys))) f (g' ks) (stored n (entries f) f) \<and>
    distinct ks \<and> set ks = dom (entries f)"
proof -
  obtain x ks where x: "yields (faster_get_vec D own_key) f x (wrote n (fcontent f) f)"
      "case x of None \<Rightarrow> ks = [] | Some bs \<Rightarrow> bs = map stored_key ks" "distinct ks" "set ks = dom (entries f)"
    using read_keys [OF s inv] by blast
  have "g x = g' ks" using x(2) g by (cases x) simp_all
  then have "yields (bind_s (faster_get_vec D own_key) (\<lambda>keys. return_s (g keys))) f (g' ks) (stored n (entries f) f)"
    by (intro yields_bind [OF x(1)]) (auto intro: stored_same [OF inv])
  then show ?thesis using x(3,4) by blast
qed

lemma value_item_ok:
  assumes "map_inv m f" "entries f k = Some v" "wrote (Suc n) (fcontent f) f b" "g (msg_encode V v) = Ok r"
  shows "yields (bind_s (stored_value D (stored_key k)) (\<lambda>b. lift_o (g b))) b r (wrote n (fcontent f) f)"
  by (rule yields_bind [OF stored_value_ok [OF assms(1-3)]]) (simp add: yields_def assms(4))

lemma iter_ok:
  assumes "slow" "map_inv (n + Suc (card (dom (entries f)))) f"
  shows "\<exists>ks. yields (faster_map_iter slow D IK N K V h) f (map (\<lambda>k. Ok (k, the (entries f k))) ks) (stored n (entries f) f) \<and>
    distinct ks \<and> set ks = dom (entries f)"
  unfolding faster_map_iter_def
  by (rule walk_ok [OF assms, where r = "\<lambda>k v. (k, v)"], rule value_item_ok [OF assms(2)])
    (simp_all add: stored_user_key_ok protobuf_deserialize_enc value_law)

lemma keys_ok:
  assumes "slow" "map_inv (n + Suc (card (dom (entries f)))) f"
  shows "\<exists>ks. yields (faster_map_keys slow D IK N K h) f (map (\<lambda>k. Ok k) ks) (stored n (entries f) f) \<and>
    distinct ks \<and> set ks = dom (entries f)"
  unfolding faster_map_keys_def
  by (rule walk_ok [OF assms, where r = "\<lambda>k v. k"]) (auto simp: yields_def stored_user_key_ok wrote_def intro: fok_mono)

lemma values_ok:
  assumes "slow" "map_inv (n + Suc (card (dom (entries f)))) f"
  shows "\<exists>ks. yields (faster_map_values slow D IK N V h) f (map (\<lambda>k. Ok (the (entries f k))) ks) (stored n (entries f) f) \<and>
    distinct ks \<and> set ks = dom (entries f)"
  unfolding faster_map_values_def
  by (rule walk_ok [OF assms, where r = "\<lambda>k v. v"], rule value_item_ok [OF assms(2)])
    (simp_all add: protobuf_deserialize_enc value_law)

lemma refines_walk:
  assumes s: "slow"
  shows "map_walk_session calls map_inv 3 fkey_ok removable entries map_frame"
proof (rule map_walk_session.intro [OF refines_map], unfold_locales)
  fix n f
  show "finite (dom (entries f))" if "map_inv n f"
    using map_invD(3) [OF that s] by (cases rule: key_list_cases) (simp, metis List.finite_set)
  assume inv: "map_inv (n + 3 * Suc (card (dom (entries f)))) f"
  then have walks: "map_inv (n + Suc (card (dom (entries f)))) f" "map_inv (Suc (Suc (n + card (dom (entries f))))) f"
    using map_inv_mono [OF inv] by simp_all
  note defs = faster_map_calls_def stored_def [abs_def]
  show "yields (mc_clear calls) f () (\<lambda>b'. map_inv n b' \<and> entries b' = Map.empty \<and> map_frame b' = map_frame f)"
    using clear_map_ok [OF s walks(2)] by (simp add: defs)
  show "\<exists>kvs. yields (mc_iter calls) f (map Ok kvs)
      (\<lambda>b'. map_inv n b' \<and> entries b' = entries f \<and> map_frame b' = map_frame f) \<and>
      distinct (map fst kvs) \<and> map_of kvs = entries f"
  proof -
    obtain ks where ks: "yields (faster_map_iter slow D IK N K V h) f (map (\<lambda>k. Ok (k, the (entries f k))) ks) (stored n (entries f) f)"
        "distinct ks" "set ks = dom (entries f)"
      using iter_ok [OF s walks(1)] by blast
    have "map_of (map (\<lambda>k. (k, the (entries f k))) ks) = entries f"
      by (rule ext) (use ks(3) in \<open>auto simp: map_of_map_restrict restrict_map_def domIff\<close>)
    then show ?thesis
      using ks by (intro exI [of _ "map (\<lambda>k. (k, the (entries f k))) ks"]) (simp add: defs o_def)
  qed
  show "\<exists>ks. yields (mc_keys calls) f (map Ok ks)
      (\<lambda>b'. map_inv n b' \<and> entries b' = entries f \<and> map_frame b' = map_frame f) \<and> distinct ks \<and> set ks = dom (entries f)"
    using keys_ok [OF s walks(1)] by (simp add: defs)
  show "\<exists>vs. yields (mc_values calls) f (map Ok vs)
      (\<lambda>b'. map_inv n b' \<and> entries b' = entries f \<and> map_frame b' = map_frame f) \<and> set vs = ran (entries f)"
  proof -
    obtain ks where ks: "yields (faster_map_values slow D IK N V h) f (map (\<lambda>k. Ok (the (entries f k))) ks) (stored n (entries f) f)"
        "set ks = dom (entries f)"
      using values_ok [OF s walks(1)] by blast
    have "(\<lambda>k. the (entries f k)) ` set ks = ran (entries f)"
      using ks(2) by (auto simp: ran_def image_iff) (metis domI option.sel)
    then show ?thesis
      using ks(1) by (intro exI [of _ "map (\<lambda>k. the (entries f k)) ks"]) (simp add: defs o_def)
  qed
next
  fix n f
  assume "map_inv (n + 3) f"
  then have inv: "map_inv (Suc n) f" by (rule map_inv_mono) simp
  have len: "faster_map_len slow D IK N h =
      bind_s (faster_get_vec D own_key) (\<lambda>keys. return_s (case keys of None \<Rightarrow> 0 | Some ks \<Rightarrow> length ks))"
    and is_empty: "faster_map_is_empty slow D IK N h =
      bind_s (faster_get_vec D own_key) (\<lambda>keys. return_s (case keys of None \<Rightarrow> True | Some ks \<Rightarrow> ks = []))"
    by (simp_all add: faster_map_len_def faster_map_is_empty_def s)
  obtain ks where ks: "yields (bind_s (faster_get_vec D own_key) (\<lambda>keys. return_s (case keys of None \<Rightarrow> 0 | Some ks \<Rightarrow> length ks))) f
      (length ks) (stored n (entries f) f)" "distinct ks" "set ks = dom (entries f)"
    using size_ok [OF s inv, of "\<lambda>x. case x of None \<Rightarrow> 0 | Some ks \<Rightarrow> length ks" length] by auto
  then show "yields (mc_len calls) f (card (dom (entries f)))
      (\<lambda>b'. map_inv n b' \<and> entries b' = entries f \<and> map_frame b' = map_frame f)"
    using distinct_card [OF ks(2)] by (simp add: len faster_map_calls_def stored_def [abs_def])
  obtain ks where ks: "yields (bind_s (faster_get_vec D own_key) (\<lambda>keys. return_s (case keys of None \<Rightarrow> True | Some ks \<Rightarrow> ks = []))) f
      (ks = []) (stored n (entries f) f)" "set ks = dom (entries f)"
    using size_ok [OF s inv, of "\<lambda>x. case x of None \<Rightarrow> True | Some ks \<Rightarrow> ks = []" "\<lambda>ks. ks = []"] by auto
  moreover have "(ks = []) = (entries f = Map.empty)"
    using ks(2) dom_eq_empty_conv [of "entries f"] by (metis set_empty2)
  ultimately show "yields (mc_is_empty calls) f (entries f = Map.empty)
      (\<lambda>b'. map_inv n b' \<and> entries b' = entries f \<and> map_frame b' = map_frame f)"
    by (simp add: is_empty faster_map_calls_def stored_def [abs_def])
qed

text \<open>A removal from a map that has no list of keys stores the removal itself in its place, and the list
  cannot be read any more.\<close>

lemma remove_without_list:
  assumes s: "slow" and inv: "map_inv (Suc (Suc (Suc n))) f" and none: "cell f = None" and k: "fkey_ok k"
  shows "\<exists>f'. faster_map_fast_remove slow D IK N K h k f = (Ok (), f') \<and>
    fst (faster_map_len slow D IK N h f') = Panic ''invalid faster vec ops value''"
proof -
  have "yields (bind_s (faster_remove D (stored_key k)) (\<lambda>_. vec_remove D own_key (stored_key k))) f ()
      (\<lambda>g. fok (Suc n) g \<and> fcontent g own_key = Some (FVec (VRemove (stored_key k))))"
  proof (rule yields_bind [OF remove_ok [OF map_invD(1) [OF inv]]])
    fix g
    assume g: "wrote (Suc (Suc n)) ((fcontent f)(stored_key k := None)) f g"
    show "yields (vec_remove D own_key (stored_key k)) g ()
        (\<lambda>g. fok (Suc n) g \<and> fcontent g own_key = Some (FVec (VRemove (stored_key k))))"
      unfolding vec_remove_def by (rule yields_mono [OF rmw_vec_new]) (use g none in \<open>auto simp: wrote_def\<close>)
  qed
  then obtain f' where f': "bind_s (faster_remove D (stored_key k)) (\<lambda>_. vec_remove D own_key (stored_key k)) f = (Ok (), f')"
      "fok (Suc n) f'" "fcontent f' own_key = Some (FVec (VRemove (stored_key k)))"
    by (auto elim: yieldsE)
  have "faster_map_fast_remove slow D IK N K h k f = (Ok (), f')"
    using f'(1) by (simp add: faster_map_fast_remove_def drop_entry_def if_slow_def s stored_key_ok [OF k])
  moreover have "fst (faster_get_vec D own_key f') = Panic ''invalid faster vec ops value''"
  proof -
    obtain g where g: "next_serial_number f' = (Ok (fa_monotonic_serial_number f'), g)" "wrote n (fcontent f') f' g"
      using next_ok [OF f'(2)] by (auto elim: yieldsE)
    then obtain st where "st \<in> completed" "fs_read_vec D own_key (fa_monotonic_serial_number f') (fa_db g) = (st, Some (VRemove (stored_key k)))"
      using f_read_vec [of "fa_db g" own_key "VRemove (stored_key k)"] f'(3) by (auto simp: wrote_def fok_def)
    then show ?thesis using g(1) by (simp add: faster_get_vec_def bind_s_def received_value)
  qed
  then have "fst (faster_map_len slow D IK N h f') = Panic ''invalid faster vec ops value''"
    by (cases "faster_get_vec D own_key f'") (simp add: faster_map_len_def s)
  ultimately show ?thesis by blast
qed

end

end
