(* ===== verification/Faster_Disk.thy ===== *)
theory Faster_Disk
  imports Faster_Laws "HOL-Library.Sublist"
begin

text \<open>
  Checkpoints of the FASTER backend. A checkpoint consists of the files of the live directory and of the
  two directories that the store writes for its token; \<open>copy_checkpoint\<close> copies exactly these. What the
  store promises of its files is the locale \<open>faster_disk\<close>.
\<close>

section \<open>Trees of files\<close>

definition tree_ok :: "'f tree \<Rightarrow> bool" where
  "tree_ok t \<longleftrightarrow> distinct (map fst t)"

text \<open>The files directly in a directory, and the three directories of a checkpoint.\<close>

definition files_in :: "'f tree \<Rightarrow> path \<Rightarrow> string \<rightharpoonup> 'f store_file" where
  "files_in t p name = (case entry_at t (p @ [name]) of Some (Some c) \<Rightarrow> Some c | _ \<Rightarrow> None)"

definition cpr_dir :: "path \<Rightarrow> string \<Rightarrow> path" where
  "cpr_dir p token = p @ [''cpr-checkpoints'', token]"

definition index_dir :: "path \<Rightarrow> string \<Rightarrow> path" where
  "index_dir p token = p @ [''index-checkpoints'', token]"

type_synonym 'f dump = "(string \<rightharpoonup> 'f store_file) \<times> (string \<rightharpoonup> 'f store_file) \<times> (string \<rightharpoonup> 'f store_file)"

definition dump_at :: "'f tree \<Rightarrow> path \<Rightarrow> string \<Rightarrow> 'f dump" where
  "dump_at t p token = (files_in t p, files_in t (cpr_dir p token), files_in t (index_dir p token))"

text \<open>A path where nothing exists yet, and that can be created.\<close>

definition fresh :: "'f tree \<Rightarrow> path \<Rightarrow> bool" where
  "fresh t p \<longleftrightarrow> p \<noteq> [] \<and> (\<forall>q. prefix p q \<longrightarrow> entry_at t q = None) \<and>
     (\<forall>q. strict_prefix q p \<longrightarrow> entry_at t q = None \<or> entry_at t q = Some None)"

definition only_files :: "'f tree \<Rightarrow> path \<Rightarrow> bool" where
  "only_files t p \<longleftrightarrow> entry_at t p = Some None \<and> (\<forall>name. entry_at t (p @ [name]) \<noteq> Some None)"

lemma entry_at_Nil [simp]: "entry_at t [] = Some None"
  by (simp add: entry_at_def)

lemma entry_at_update: "p \<noteq> [] \<Longrightarrow> entry_at (AList.update p x t) q = (if q = p then Some x else entry_at t q)"
  by (simp add: entry_at_def update_conv')

lemma entry_at_append: "p \<noteq> [] \<Longrightarrow> entry_at t p = None \<Longrightarrow> entry_at (t @ [(p, x)]) q = (if q = p then Some x else entry_at t q)"
  by (auto simp: entry_at_def map_add_def split: option.splits)

lemma create_dirs_ok:
  assumes "tree_ok t" and "\<And>q. prefix pre q \<Longrightarrow> prefix q (pre @ cs) \<Longrightarrow> entry_at t q = None \<or> entry_at t q = Some None"
  shows "\<exists>t'. create_dirs pre cs t = (Ok (), t') \<and> tree_ok t' \<and>
    (\<forall>q. entry_at t' q = (if strict_prefix pre q \<and> prefix q (pre @ cs) then Some None else entry_at t q))"
  using assms
proof (induction cs arbitrary: pre t)
  case Nil
  then show ?case by (auto simp: strict_prefix_def dest: prefix_order.antisym)
next
  case (Cons c cs)
  let ?p = "pre @ [c]"
  have split: "strict_prefix pre q \<and> prefix q (pre @ c # cs) \<longleftrightarrow> q = ?p \<or> strict_prefix ?p q \<and> prefix q (?p @ cs)" for q
    by (auto simp: strict_prefix_def prefix_def append_eq_append_conv2) (metis append_eq_Cons_conv)+
  show ?case
  proof (cases "entry_at t ?p")
    case None
    have "\<exists>t'. create_dirs ?p cs (t @ [(?p, None)]) = (Ok (), t') \<and> tree_ok t' \<and>
        (\<forall>q. entry_at t' q = (if strict_prefix ?p q \<and> prefix q (?p @ cs) then Some None else entry_at (t @ [(?p, None)]) q))"
    proof (rule Cons.IH)
      show "tree_ok (t @ [(?p, None)])" using Cons.prems(1) None by (auto simp: tree_ok_def entry_at_def map_of_eq_None_iff)
      show "entry_at (t @ [(?p, None)]) q = None \<or> entry_at (t @ [(?p, None)]) q = Some None"
        if "prefix ?p q" "prefix q (?p @ cs)" for q
        using that Cons.prems(2) [of q] None by (auto simp: entry_at_append prefix_def)
    qed
    then show ?thesis using None split by (auto simp: entry_at_append)
  next
    case (Some e)
    then have e: "entry_at t ?p = Some None" using Cons.prems(2) [of ?p] by (auto simp: prefix_def)
    have "\<exists>t'. create_dirs ?p cs t = (Ok (), t') \<and> tree_ok t' \<and>
        (\<forall>q. entry_at t' q = (if strict_prefix ?p q \<and> prefix q (?p @ cs) then Some None else entry_at t q))"
      by (rule Cons.IH [OF Cons.prems(1)]) (rule Cons.prems(2), auto simp: prefix_def)
    then show ?thesis using e split by auto
  qed
qed

lemma create_dir_all_ok:
  assumes "tree_ok t" and "\<And>q. prefix q p \<Longrightarrow> entry_at t q = None \<or> entry_at t q = Some None"
  shows "\<exists>t'. create_dir_all p t = (Ok (), t') \<and> tree_ok t' \<and>
    (\<forall>q. entry_at t' q = (if prefix q p then Some None else entry_at t q))"
proof -
  obtain t' where t': "create_dirs [] p t = (Ok (), t')" "tree_ok t'"
      "\<And>q. entry_at t' q = (if strict_prefix [] q \<and> prefix q p then Some None else entry_at t q)"
    using create_dirs_ok [OF assms(1), of "[]" p] assms(2) by auto
  have "entry_at t' q = (if prefix q p then Some None else entry_at t q)" for q
    by (cases q) (use t'(3) [of q] in \<open>simp_all add: strict_prefix_def\<close>)
  then show ?thesis using t'(1,2) by (auto simp: create_dir_all_def)
qed

lemma read_dir_ok:
  fixes t :: "'f tree"
  assumes "tree_ok t" "entry_at t p = Some None"
  shows "\<exists>es. read_dir p t = Ok es \<and> distinct (map fst es) \<and> (\<forall>name. map_of es name = entry_at t (p @ [name]))"
proof -
  let ?es = "map (\<lambda>(q, e). (last q, e)) (filter (\<lambda>(q, e). q \<noteq> [] \<and> butlast q = p) t)"
  have "distinct (map fst u) \<Longrightarrow> distinct (map fst (map (\<lambda>(q, e). (last q, e)) (filter (\<lambda>(q, e). q \<noteq> [] \<and> butlast q = p) u)))"
    for u :: "'f tree"
    by (induction u) (auto simp: image_iff, metis append_butlast_last_id fst_conv image_eqI)
  moreover have "map_of (map (\<lambda>(q, e). (last q, e)) (filter (\<lambda>(q, e). q \<noteq> [] \<and> butlast q = p) u)) name = map_of u (p @ [name])"
    for u :: "'f tree" and name
    by (induction u) (auto simp: append_butlast_last_id dest: arg_cong [of _ _ butlast])
  ultimately show ?thesis
    using assms by (intro exI [of _ ?es]) (simp add: read_dir_def tree_ok_def entry_at_def)
qed

lemma write_file_ok:
  assumes "tree_ok t" "p \<noteq> []" "entry_at t (butlast p) = Some None" "entry_at t p \<noteq> Some None"
  shows "\<exists>t'. write_file p c t = (Ok (), t') \<and> tree_ok t' \<and> entry_at t' = (entry_at t)(p \<mapsto> Some c)"
  using assms by (auto simp: write_file_def tree_ok_def distinct_update fun_eq_iff entry_at_update)

text \<open>What a copy adds to the destination.\<close>

definition copied :: "path \<Rightarrow> (string \<times> 'f store_file option) list \<Rightarrow> path \<rightharpoonup> 'f store_file option" where
  "copied dst es q =
     (if q = [] \<or> butlast q \<noteq> dst then None
      else case map_of es (last q) of Some (Some c) \<Rightarrow> Some (Some c) | _ \<Rightarrow> None)"

lemma copied_Cons:
  "name \<notin> fst ` set es \<Longrightarrow> copied dst ((name, None) # es) = copied dst es"
  "copied dst ((name, Some c) # es) = (copied dst es)(dst @ [name] \<mapsto> Some c)"
  by (auto simp: copied_def fun_eq_iff map_of_eq_None_iff [symmetric] split: option.splits)

lemma copied_other: "name \<notin> fst ` set es \<Longrightarrow> copied dst es (dst @ [name]) = None"
  by (simp add: copied_def map_of_eq_None_iff [symmetric])

lemma copy_entries_ok:
  assumes "src \<noteq> dst"
  shows "tree_ok t \<Longrightarrow> entry_at t dst = Some None \<Longrightarrow> distinct (map fst es) \<Longrightarrow>
    \<forall>(name, e)\<in>set es. entry_at t (src @ [name]) = Some e \<and> (e \<noteq> None \<longrightarrow> entry_at t (dst @ [name]) \<noteq> Some None) \<Longrightarrow>
    ign \<or> (\<forall>(name, e)\<in>set es. e \<noteq> None) \<Longrightarrow>
    \<exists>t'. copy_entries ign src dst es t = (Ok (), t') \<and> tree_ok t' \<and> entry_at t' = entry_at t ++ copied dst es"
proof (induction es arbitrary: t)
  case Nil
  have "entry_at t ++ copied dst [] = entry_at t" by (simp add: copied_def fun_eq_iff map_add_def)
  then show ?case using Nil.prems by simp
next
  case (Cons x es)
  obtain name e where x: "x = (name, e)" by (cases x)
  have nin: "name \<notin> fst ` set es" using Cons.prems(3) by (simp add: x)
  show ?case
  proof (cases e)
    case None
    then have ign: "ign" using Cons.prems(5) by (auto simp: x)
    obtain t' where "copy_entries ign src dst es t = (Ok (), t')" "tree_ok t'" "entry_at t' = entry_at t ++ copied dst es"
      using Cons.IH [OF Cons.prems(1,2)] Cons.prems(3-5) by auto
    then show ?thesis using ign nin by (simp add: x None copied_Cons)
  next
    case (Some c)
    have at: "entry_at t (src @ [name]) = Some (Some c)" "entry_at t (dst @ [name]) \<noteq> Some None"
      using Cons.prems(4) by (auto simp: x Some)
    obtain t1 where t1: "write_file (dst @ [name]) c t = (Ok (), t1)" "tree_ok t1"
        "entry_at t1 = (entry_at t)(dst @ [name] \<mapsto> Some c)"
      using write_file_ok [OF Cons.prems(1), of "dst @ [name]" c] Cons.prems(2) at(2) by auto
    have "\<exists>t'. copy_entries ign src dst es t1 = (Ok (), t') \<and> tree_ok t' \<and> entry_at t' = entry_at t1 ++ copied dst es"
    proof (rule Cons.IH [OF t1(2)])
      show "entry_at t1 dst = Some None" using Cons.prems(2) by (simp add: t1(3))
      show "\<forall>(n, e)\<in>set es. entry_at t1 (src @ [n]) = Some e \<and> (e \<noteq> None \<longrightarrow> entry_at t1 (dst @ [n]) \<noteq> Some None)"
      proof (clarify)
        fix n e
        assume "(n, e) \<in> set es"
        then have "entry_at t (src @ [n]) = Some e \<and> (e \<noteq> None \<longrightarrow> entry_at t (dst @ [n]) \<noteq> Some None)"
          using Cons.prems(4) by fastforce
        then show "entry_at t1 (src @ [n]) = Some e \<and> (e \<noteq> None \<longrightarrow> entry_at t1 (dst @ [n]) \<noteq> Some None)"
          using assms by (simp add: t1(3))
      qed
      show "ign \<or> (\<forall>(name, e)\<in>set es. e \<noteq> None)" using Cons.prems(5) by auto
    qed (use Cons.prems(3) in simp)
    then obtain t' where "copy_entries ign src dst es t1 = (Ok (), t')" "tree_ok t'"
        "entry_at t' = entry_at t1 ++ copied dst es" by blast
    moreover have "(entry_at t)(dst @ [name] \<mapsto> Some c) ++ copied dst es = entry_at t ++ copied dst ((name, Some c) # es)"
      using copied_other [OF nin] by (auto simp: copied_Cons map_add_def fun_eq_iff split: option.splits)
    ultimately show ?thesis
      using t1(1,3) assms at(1) by (simp add: x Some fs_copy_def bind_s_def)
  qed
qed

lemma copy_dir_ok:
  assumes "src \<noteq> dst" "tree_ok t" "entry_at t src = Some None" "entry_at t dst = Some None"
    and "\<And>name. files_in t src name \<noteq> None \<Longrightarrow> entry_at t (dst @ [name]) \<noteq> Some None"
    and "ign \<or> only_files t src"
  shows "\<exists>t'. copy_dir ign src dst t = (Ok (), t') \<and> tree_ok t' \<and> files_in t' dst = files_in t dst ++ files_in t src \<and>
    (\<forall>name. entry_at t' (dst @ [name]) = Some None \<longleftrightarrow> entry_at t (dst @ [name]) = Some None) \<and>
    (\<forall>q. q = [] \<or> butlast q \<noteq> dst \<longrightarrow> entry_at t' q = entry_at t q)"
proof -
  obtain es where es: "read_dir src t = Ok es" "distinct (map fst es)" "\<And>name. map_of es name = entry_at t (src @ [name])"
    using read_dir_ok [OF assms(2,3)] by blast
  have mem: "(name, e) \<in> set es \<longleftrightarrow> entry_at t (src @ [name]) = Some e" for name e
    using map_of_eq_Some_iff [OF es(2), of name e] es(3) [of name] by simp
  obtain t' where t': "copy_entries ign src dst es t = (Ok (), t')" "tree_ok t'" "entry_at t' = entry_at t ++ copied dst es"
  proof -
    have "\<forall>(name, e)\<in>set es. entry_at t (src @ [name]) = Some e \<and> (e \<noteq> None \<longrightarrow> entry_at t (dst @ [name]) \<noteq> Some None)"
    proof (clarify, intro conjI impI)
      fix name e
      assume e: "(name, e) \<in> set es"
      then show "entry_at t (src @ [name]) = Some e" by (simp add: mem)
      show "entry_at t (dst @ [name]) \<noteq> Some None" if "e \<noteq> None"
        using assms(5) [of name] e that by (auto simp: mem files_in_def)
    qed
    moreover have "ign \<or> (\<forall>(name, e)\<in>set es. e \<noteq> None)" proof (cases ign)
      case False
      then show ?thesis using assms(6) unfolding only_files_def by (auto simp: mem) (metis not_None_eq)
    qed simp
    ultimately show ?thesis using copy_entries_ok [OF assms(1,2,4) es(2), of ign] that by blast
  qed
  have c: "copied dst es (dst @ [name]) = (case files_in t src name of None \<Rightarrow> None | Some c \<Rightarrow> Some (Some c))" for name
    by (simp add: copied_def es(3) files_in_def split: option.splits)
  have "files_in t' dst = files_in t dst ++ files_in t src"
    by (rule ext) (auto simp: files_in_def t'(3) map_add_def c split: option.splits)
  moreover have "entry_at t' (dst @ [name]) = Some None \<longleftrightarrow> entry_at t (dst @ [name]) = Some None" for name
    using assms(5) [of name] by (auto simp: t'(3) map_add_def c split: option.splits)
  moreover have "q = [] \<or> butlast q \<noteq> dst \<longrightarrow> entry_at t' q = entry_at t q" for q
    by (auto simp: t'(3) map_add_def copied_def)
  ultimately show ?thesis using t'(1,2) es(1) by (simp add: copy_dir_def)
qed

section \<open>Copying a checkpoint\<close>

lemma apart:
  assumes "src \<parallel> dst" "prefix dst d"
  shows "\<not> prefix (src @ x) d" "butlast (src @ x) \<noteq> d" "src @ x \<noteq> []"
proof -
  have np: "\<not> prefix src d" using assms parallelE prefix_same_cases by blast
  then show "\<not> prefix (src @ x) d" by (meson append_prefixD)
  show "src @ x \<noteq> []" using assms(1) by auto
  show "butlast (src @ x) \<noteq> d"
  proof (cases x rule: rev_cases)
    case Nil
    then show ?thesis using assms by (metis append_Nil2 parallelE prefix_order.trans prefixeq_butlast)
  next
    case (snoc y z)
    then have "prefix src (butlast (src @ x))" by (simp add: butlast_append)
    then show ?thesis using np by auto
  qed
qed

lemma checkpoint_dirs:
  "prefix p (cpr_dir p token)" "prefix p (index_dir p token)" "prefix p p"
  "butlast (cpr_dir p token) \<noteq> p" "butlast (index_dir p token) \<noteq> p" "cpr_dir p token \<noteq> []" "index_dir p token \<noteq> []"
  "cpr_dir p token \<noteq> index_dir p token" "cpr_dir p token \<noteq> p" "index_dir p token \<noteq> p"
  "butlast (cpr_dir p token) \<noteq> index_dir p token" "butlast (index_dir p token) \<noteq> cpr_dir p token"
  by (auto simp: cpr_dir_def index_dir_def butlast_append)

lemma fresh_free:
  "fresh t dst \<Longrightarrow> prefix q (cpr_dir dst token) \<or> prefix q (index_dir dst token) \<Longrightarrow> entry_at t q = None \<or> entry_at t q = Some None"
  using prefix_same_cases [of q _ dst] checkpoint_dirs(1,2) [of dst token]
  by (auto simp: fresh_def strict_prefix_def)

lemma make_dirs_ok:
  assumes "tree_ok t"
    and free: "\<And>q. prefix q (cpr_dir dst token) \<or> prefix q (index_dir dst token) \<Longrightarrow> entry_at t q = None \<or> entry_at t q = Some None"
  shows "\<exists>t'. bind_s (create_dir_all (cpr_dir dst token)) (\<lambda>_. create_dir_all (index_dir dst token)) t = (Ok (), t') \<and>
    tree_ok t' \<and> (\<forall>q. entry_at t' q
      = (if prefix q (cpr_dir dst token) \<or> prefix q (index_dir dst token) then Some None else entry_at t q))"
proof -
  obtain t1 where t1: "create_dir_all (cpr_dir dst token) t = (Ok (), t1)" "tree_ok t1"
      "\<And>q. entry_at t1 q = (if prefix q (cpr_dir dst token) then Some None else entry_at t q)"
    using create_dir_all_ok [OF assms(1), of "cpr_dir dst token"] free by blast
  obtain t2 where t2: "create_dir_all (index_dir dst token) t1 = (Ok (), t2)" "tree_ok t2"
      "\<And>q. entry_at t2 q = (if prefix q (index_dir dst token) then Some None else entry_at t1 q)"
  proof -
    have "entry_at t1 q = None \<or> entry_at t1 q = Some None" if "prefix q (index_dir dst token)" for q
      using free [of q] that by (simp add: t1(3))
    then show ?thesis using create_dir_all_ok [OF t1(2), of "index_dir dst token"] that by blast
  qed
  show ?thesis using t1 t2 by auto
qed

text \<open>Copying a directory of files into an empty one, and the files beside the directories of a checkpoint.\<close>

lemma copy_low_ok:
  assumes "src \<noteq> dst" "tree_ok t" "only_files t src" "entry_at t dst = Some None" "\<And>n. entry_at t (dst @ [n]) = None"
  shows "\<exists>t'. copy_dir False src dst t = (Ok (), t') \<and> tree_ok t' \<and> files_in t' dst = files_in t src \<and> only_files t' dst \<and>
    (\<forall>q. q = [] \<or> butlast q \<noteq> dst \<longrightarrow> entry_at t' q = entry_at t q)"
proof -
  have src: "entry_at t src = Some None" using assms(3) by (simp add: only_files_def)
  obtain t' where t': "copy_dir False src dst t = (Ok (), t')" "tree_ok t'" "files_in t' dst = files_in t dst ++ files_in t src"
      "\<And>n. entry_at t' (dst @ [n]) = Some None \<longleftrightarrow> entry_at t (dst @ [n]) = Some None"
      "\<And>q. q = [] \<or> butlast q \<noteq> dst \<Longrightarrow> entry_at t' q = entry_at t q"
  proof -
    have "entry_at t (dst @ [n]) \<noteq> Some None" for n using assms(5) by simp
    from copy_dir_ok [OF assms(1,2) src assms(4) this disjI2 [OF assms(3)], of False] that show ?thesis by blast
  qed
  have "files_in t dst = Map.empty" using assms(5) by (simp add: files_in_def fun_eq_iff)
  moreover have "entry_at t' dst = Some None"
    using t'(5) [of dst] assms(4) by (cases dst rule: rev_cases) simp_all
  ultimately show ?thesis using t' assms(5) by (auto simp: only_files_def)
qed

lemma copy_top_ok:
  assumes "src \<noteq> dst" "tree_ok t" "entry_at t src = Some None" "entry_at t dst = Some None"
    and "\<And>n. entry_at t (dst @ [n]) = None \<or> entry_at t (dst @ [n]) = Some None \<and> files_in t src n = None"
  shows "\<exists>t'. copy_dir True src dst t = (Ok (), t') \<and> tree_ok t' \<and> files_in t' dst = files_in t src \<and>
    (\<forall>n. entry_at t' (dst @ [n]) = Some None \<longleftrightarrow> entry_at t (dst @ [n]) = Some None) \<and>
    (\<forall>q. q = [] \<or> butlast q \<noteq> dst \<longrightarrow> entry_at t' q = entry_at t q)"
proof -
  have "entry_at t (dst @ [n]) \<noteq> Some None" if "files_in t src n \<noteq> None" for n using assms(5) [of n] that by auto
  moreover have "files_in t dst n = None" for n using assms(5) [of n] by (auto simp: files_in_def)
  then have "files_in t dst = Map.empty" by (rule ext)
  ultimately show ?thesis using copy_dir_ok [OF assms(1-4), of True] by auto
qed

lemma copy_checkpoint_ok:
  assumes ok: "tree_ok t" and new: "fresh t dst" and par: "src \<parallel> dst" and dir: "entry_at t src = Some None"
    and files: "only_files t (cpr_dir src token)" "only_files t (index_dir src token)"
    and root: "files_in t src ''cpr-checkpoints'' = None" "files_in t src ''index-checkpoints'' = None"
  shows "\<exists>t'. copy_checkpoint token src dst t = (Ok (), t') \<and> tree_ok t' \<and> dump_at t' dst token = dump_at t src token \<and>
    (\<forall>q. prefix q dst \<longrightarrow> entry_at t' q = Some None) \<and>
    (\<forall>q. \<not> prefix q dst \<longrightarrow> \<not> prefix dst q \<longrightarrow> entry_at t' q = entry_at t q) \<and>
    only_files t' (cpr_dir dst token) \<and> only_files t' (index_dir dst token) \<and>
    (\<forall>n. entry_at t' (dst @ [n]) = Some None \<longrightarrow> n = ''cpr-checkpoints'' \<or> n = ''index-checkpoints'')"
proof -
  let ?C = "cpr_dir dst token" and ?X = "index_dir dst token"
  note dirs = checkpoint_dirs
  obtain t2 where t2: "bind_s (create_dir_all ?C) (\<lambda>_. create_dir_all ?X) t = (Ok (), t2)" "tree_ok t2"
      "\<And>q. entry_at t2 q = (if prefix q ?C \<or> prefix q ?X then Some None else entry_at t q)"
    using make_dirs_ok [OF ok, of dst token] fresh_free [OF new, of _ token] by blast
  have neq: "cpr_dir src token \<noteq> ?C" "index_dir src token \<noteq> ?X" using par by (auto simp: cpr_dir_def index_dir_def)
  have none: "entry_at t (dst @ x) = None" for x using new by (simp add: fresh_def)
  have src2: "entry_at t2 (src @ x) = entry_at t (src @ x)" for x using apart [OF par] dirs by (simp add: t2(3))
  have top2: "entry_at t2 (dst @ [n]) = (if n = ''cpr-checkpoints'' \<or> n = ''index-checkpoints'' then Some None else None)" for n
    using none [of "[n]"] by (auto simp: t2(3) cpr_dir_def index_dir_def prefix_def)
  have low2: "entry_at t2 (?C @ [n]) = None" "entry_at t2 (?X @ [n]) = None" for n
    using none by (auto simp: t2(3) cpr_dir_def index_dir_def prefix_def)
  have at2: "entry_at t2 dst = Some None" "entry_at t2 ?C = Some None" "entry_at t2 ?X = Some None" using dirs by (simp_all add: t2(3))
  have "files_in t2 src = files_in t src" by (rule ext) (simp add: files_in_def src2)
  then obtain t3 where t3: "copy_dir True src dst t2 = (Ok (), t3)" "tree_ok t3" "files_in t3 dst = files_in t src"
      "\<And>n. entry_at t3 (dst @ [n]) = Some None \<longleftrightarrow> entry_at t2 (dst @ [n]) = Some None"
      "\<And>q. q = [] \<or> butlast q \<noteq> dst \<Longrightarrow> entry_at t3 q = entry_at t2 q"
  proof -
    assume f: "files_in t2 src = files_in t src"
    have "entry_at t2 (dst @ [n]) = None \<or> entry_at t2 (dst @ [n]) = Some None \<and> files_in t2 src n = None" for n
      using root by (auto simp: top2 f)
    moreover have "src \<noteq> dst" "entry_at t2 src = Some None" using par dir src2 [of "[]"] by auto
    ultimately show ?thesis using copy_top_ok [of src dst t2] t2(2) at2(1) f that by metis
  qed
  have src3: "entry_at t3 (src @ x) = entry_at t (src @ x)" for x
    using t3(5) [of "src @ x"] apart(2) [OF par dirs(3)] src2 by simp
  have low3: "entry_at t3 (?C @ [n]) = None" "entry_at t3 (?X @ [n]) = None" for n using t3(5) low2 dirs by simp_all
  have at3: "entry_at t3 ?C = Some None" "entry_at t3 ?X = Some None" using t3(5) at2 dirs by simp_all
  have srcC: "only_files t3 (cpr_dir src token)" "files_in t3 (cpr_dir src token) = files_in t (cpr_dir src token)"
    using files(1) src3 by (auto simp: only_files_def files_in_def cpr_dir_def fun_eq_iff)
  obtain t4 where t4: "copy_dir False (cpr_dir src token) ?C t3 = (Ok (), t4)" "tree_ok t4"
      "files_in t4 ?C = files_in t (cpr_dir src token)" "only_files t4 ?C"
      "\<And>q. q = [] \<or> butlast q \<noteq> ?C \<Longrightarrow> entry_at t4 q = entry_at t3 q"
    using copy_low_ok [OF neq(1) t3(2) srcC(1) at3(1) low3(1)] unfolding srcC(2) by blast
  have src4: "entry_at t4 (src @ x) = entry_at t (src @ x)" for x
    using t4(5) [of "src @ x"] apart(2) [OF par dirs(1)] src3 by simp
  have srcX: "only_files t4 (index_dir src token)" "files_in t4 (index_dir src token) = files_in t (index_dir src token)"
    using files(2) src4 by (auto simp: only_files_def files_in_def index_dir_def fun_eq_iff)
  have low4: "entry_at t4 (?X @ [n]) = None" for n using t4(5) [of "?X @ [n]"] low3(2) dirs(8) [of dst token, symmetric] by simp
  have at4: "entry_at t4 ?X = Some None" using t4(5) at3 dirs by simp
  obtain t5 where t5: "copy_dir False (index_dir src token) ?X t4 = (Ok (), t5)" "tree_ok t5"
      "files_in t5 ?X = files_in t (index_dir src token)" "only_files t5 ?X"
      "\<And>q. q = [] \<or> butlast q \<noteq> ?X \<Longrightarrow> entry_at t5 q = entry_at t4 q"
    using copy_low_ok [OF neq(2) t4(2) srcX(1) at4 low4] unfolding srcX(2) by blast
  have C5: "files_in t5 ?C = files_in t4 ?C" "only_files t5 ?C"
    using t5(5) t4(4) dirs(8,11) by (auto simp: files_in_def only_files_def fun_eq_iff)
  have top5: "entry_at t5 (dst @ [n]) = entry_at t3 (dst @ [n])" for n
    using t5(5) t4(5) dirs(9,10) [of dst token, symmetric] by auto
  then have "files_in t5 dst = files_in t3 dst" by (simp add: files_in_def fun_eq_iff)
  then have dump: "dump_at t5 dst token = dump_at t src token"
    using t5(3) t4(3) t3(3) C5(1) by (simp add: dump_at_def)
  have outside: "entry_at t5 q = entry_at t2 q" if "\<not> prefix dst (butlast q) \<or> q = []" for q
    using that dirs t5(5) [of q] t4(5) [of q] t3(5) [of q] by metis
  have up: "entry_at t5 q = Some None" if "prefix q dst" for q
  proof -
    have "\<not> prefix dst (butlast q) \<or> q = []"
      using that by (cases q rule: rev_cases) (auto simp: prefix_def dest: arg_cong [of _ _ length])
    moreover have "prefix q ?C" using that dirs(1) by (rule prefix_order.trans)
    ultimately show ?thesis using outside by (simp add: t2(3))
  qed
  have "entry_at t5 q = entry_at t q" if "\<not> prefix q dst" "\<not> prefix dst q" for q
  proof -
    have "\<not> prefix dst (butlast q)" using that(2) by (metis prefix_order.trans prefixeq_butlast)
    moreover have "\<not> prefix q ?C" "\<not> prefix q ?X" using that prefix_same_cases dirs(1,2) by blast+
    ultimately show ?thesis using outside by (simp add: t2(3))
  qed
  moreover have "copy_checkpoint token src dst t = (Ok (), t5)"
    using t2(1) t3(1) t4(1) t5(1) unfolding copy_checkpoint_def cpr_dir_def index_dir_def
    by (auto simp: bind_s_def split: prod.splits outcome.splits)
  moreover have "n = ''cpr-checkpoints'' \<or> n = ''index-checkpoints''" if "entry_at t5 (dst @ [n]) = Some None" for n
    using that by (simp add: top5 t3(4) top2 split: if_splits)
  ultimately show ?thesis using t5(2,4) C5(2) dump up by blast
qed

section \<open>Checkpoint and restore\<close>

text \<open>
  What the store promises of its files: \<open>image\<close> says that the files of a dump are a checkpoint of some
  content, whatever other files the backend has put beside them; \<open>live\<close> that the directory of an open store
  is intact. Building a store on a directory keeps the files in it, and recovering reads them.
\<close>

locale faster_disk = faster_store D dok content
  for D :: "('db, 'f) faster_api" and dok content +
  fixes dir_of :: "'db \<Rightarrow> path" and live :: "'db \<Rightarrow> 'f tree \<Rightarrow> bool"
    and image :: "'f dump \<Rightarrow> string \<Rightarrow> (bytes \<rightharpoonup> faster_value) \<Rightarrow> bool"
  assumes f_pending: "dok d \<Longrightarrow> dok (fs_complete_pending D d) \<and> content (fs_complete_pending D d) = content d \<and>
      dir_of (fs_complete_pending D d) = dir_of d \<and> live (fs_complete_pending D d) = live d"
    and f_checkpoint: "dok d \<Longrightarrow> tree_ok t \<Longrightarrow> live d t \<Longrightarrow>
      \<exists>token d' t'. fs_checkpoint D (d, t) = (Ok (True, token), d', t') \<and> length token = 36 \<and> valid_utf8 (str_bytes token) \<and>
        dok d' \<and> content d' = content d \<and> tree_ok t' \<and> image (dump_at t' (dir_of d) token) token (content d) \<and>
        entry_at t' (dir_of d) = Some None \<and> only_files t' (cpr_dir (dir_of d) token) \<and> only_files t' (index_dir (dir_of d) token) \<and>
        files_in t' (dir_of d) ''cpr-checkpoints'' = None \<and> files_in t' (dir_of d) ''index-checkpoints'' = None \<and>
        (\<forall>q. \<not> prefix (dir_of d) q \<longrightarrow> entry_at t' q = entry_at t q)"
    and f_image: "image (r, c, i) token x \<Longrightarrow>
      (\<And>name y. name \<noteq> ''ARCON_CHECKPOINT_INFO'' \<Longrightarrow> r name = Some y \<Longrightarrow> r' name = Some y) \<Longrightarrow> image (r', c, i) token x"
    and f_build: "tree_ok t \<Longrightarrow> entry_at t p = Some None \<Longrightarrow>
      \<exists>d t'. fs_build D p t = (Ok d, t') \<and> dok d \<and> dir_of d = p \<and>
        (\<forall>name y. files_in t p name = Some y \<longrightarrow> files_in t' p name = Some y) \<and>
        (\<forall>token. files_in t' (cpr_dir p token) = files_in t (cpr_dir p token) \<and>
          files_in t' (index_dir p token) = files_in t (index_dir p token))"
    and f_recover: "dok d \<Longrightarrow> image (dump_at t (dir_of d) token) token x \<Longrightarrow>
      \<exists>st d'. fs_recover D token token t d = (Ok st, d') \<and> st \<in> completed \<and> dok d' \<and> content d' = x"
begin

lemma fresh_outside:
  assumes "fresh t p" "p \<parallel> d" "\<And>q. \<not> prefix d q \<Longrightarrow> entry_at t' q = entry_at t q"
  shows "fresh t' p"
proof -
  have up: "\<not> prefix d q" if "prefix q p \<or> prefix p q" for q
    using that assms(2) by (meson parallelE prefix_order.trans prefix_same_cases)
  show ?thesis
    unfolding fresh_def
  proof (intro conjI allI impI)
    show "p \<noteq> []" using assms(1) by (simp add: fresh_def)
    show "entry_at t' q = None" if "prefix p q" for q using assms(1,3) up that by (simp add: fresh_def)
    show "entry_at t' q = None \<or> entry_at t' q = Some None" if "strict_prefix q p" for q
      using assms(1,3) up [of q] that by (auto simp: fresh_def strict_prefix_def)
  qed
qed

lemma fresh_copied:
  assumes "fresh t p" "p \<parallel> d" "\<And>q. \<not> prefix d q \<Longrightarrow> \<not> prefix q d \<Longrightarrow> entry_at t' q = entry_at t q"
    and "\<And>q. prefix q d \<Longrightarrow> entry_at t' q = Some None"
  shows "fresh t' p"
proof -
  have below: "\<not> prefix d q" "\<not> prefix q d" if "prefix p q" for q
    using that assms(2) by (meson parallelE prefix_order.trans prefix_same_cases)+
  have above: "\<not> prefix d q" if "prefix q p" for q
    using that assms(2) by (meson parallelE prefix_order.trans)
  show ?thesis
    unfolding fresh_def
  proof (intro conjI allI impI)
    show "p \<noteq> []" using assms(1) by (simp add: fresh_def)
    show "entry_at t' q = None" if "prefix p q" for q using assms(1,3) below that by (simp add: fresh_def)
    show "entry_at t' q = None \<or> entry_at t' q = Some None" if "strict_prefix q p" for q
    proof (cases "prefix q d")
      case False
      then show ?thesis using assms(1,3) above [of q] that by (auto simp: fresh_def strict_prefix_def)
    qed (use assms(4) in simp)
  qed
qed

text \<open>The files a checkpoint leaves behind.\<close>

lemma checkpoint_ok:
  assumes f: "dok (fa_db f)" "dir_of (fa_db f) = fa_dir f" "live (fa_db f) t" "tree_ok t"
    and cp: "fresh t cp" "fa_dir f \<parallel> cp"
  shows "\<exists>f' t' token. faster_checkpoint D cp (f, t) = (Ok (), f', t') \<and> dok (fa_db f') \<and> content (fa_db f') = content (fa_db f) \<and>
    tree_ok t' \<and> length token = 36 \<and> valid_utf8 (str_bytes token) \<and>
    entry_at t' (cp @ [''ARCON_CHECKPOINT_INFO'']) = Some (Some (Written (str_bytes token))) \<and>
    image (dump_at t' cp token) token (content (fa_db f)) \<and> entry_at t' cp = Some None \<and>
    only_files t' (cpr_dir cp token) \<and> only_files t' (index_dir cp token) \<and>
    files_in t' cp ''cpr-checkpoints'' = None \<and> files_in t' cp ''index-checkpoints'' = None \<and>
    (\<forall>p. fresh t p \<longrightarrow> fa_dir f \<parallel> p \<longrightarrow> cp \<parallel> p \<longrightarrow> fresh t' p)"
proof -
  let ?d = "fs_complete_pending D (fa_db f)"
  have d: "dok ?d" "content ?d = content (fa_db f)" "dir_of ?d = fa_dir f" "live ?d t"
    using f_pending [OF f(1)] f(2,3) by simp_all
  obtain token d1 t1 where c: "fs_checkpoint D (?d, t) = (Ok (True, token), d1, t1)" "length token = 36" "valid_utf8 (str_bytes token)"
      "dok d1" "content d1 = content (fa_db f)" "tree_ok t1" "image (dump_at t1 (fa_dir f) token) token (content (fa_db f))"
      "entry_at t1 (fa_dir f) = Some None" "only_files t1 (cpr_dir (fa_dir f) token)" "only_files t1 (index_dir (fa_dir f) token)"
      "files_in t1 (fa_dir f) ''cpr-checkpoints'' = None" "files_in t1 (fa_dir f) ''index-checkpoints'' = None"
      "\<And>q. \<not> prefix (fa_dir f) q \<Longrightarrow> entry_at t1 q = entry_at t q"
    using f_checkpoint [OF d(1) f(4) d(4)] unfolding d(2,3) by blast
  have new1: "fresh t1 p" if "fresh t p" "fa_dir f \<parallel> p" for p
    using fresh_outside [OF that(1) _ c(13)] that(2) parallel_commute by blast
  obtain t2 where t2: "copy_checkpoint token (fa_dir f) cp t1 = (Ok (), t2)" "tree_ok t2"
      "dump_at t2 cp token = dump_at t1 (fa_dir f) token" "\<And>q. prefix q cp \<Longrightarrow> entry_at t2 q = Some None"
      "\<And>q. \<not> prefix q cp \<Longrightarrow> \<not> prefix cp q \<Longrightarrow> entry_at t2 q = entry_at t1 q"
      "only_files t2 (cpr_dir cp token)" "only_files t2 (index_dir cp token)"
      "\<And>n. entry_at t2 (cp @ [n]) = Some None \<Longrightarrow> n = ''cpr-checkpoints'' \<or> n = ''index-checkpoints''"
    using copy_checkpoint_ok [OF c(6) new1 [OF cp] cp(2) c(8-12)] by blast
  let ?i = "cp @ [''ARCON_CHECKPOINT_INFO'']"
  obtain t3 where t3: "write_file ?i (Written (str_bytes token)) t2 = (Ok (), t3)" "tree_ok t3"
      "entry_at t3 = (entry_at t2)(?i \<mapsto> Some (Written (str_bytes token)))"
    using write_file_ok [OF t2(2), of ?i] t2(4) [of cp] t2(8) [of "''ARCON_CHECKPOINT_INFO''"] by auto
  have low: "entry_at t3 (cpr_dir cp token) = entry_at t2 (cpr_dir cp token)" "entry_at t3 (index_dir cp token) = entry_at t2 (index_dir cp token)"
    "entry_at t3 (cpr_dir cp token @ [n]) = entry_at t2 (cpr_dir cp token @ [n])"
    "entry_at t3 (index_dir cp token @ [n]) = entry_at t2 (index_dir cp token @ [n])" for n
    by (simp_all add: t3(3) cpr_dir_def index_dir_def)
  have root: "files_in t3 cp = (files_in t2 cp)(''ARCON_CHECKPOINT_INFO'' \<mapsto> Written (str_bytes token))"
    by (auto simp: files_in_def t3(3) fun_eq_iff)
  have dump: "dump_at t3 cp token = ((files_in t1 (fa_dir f))(''ARCON_CHECKPOINT_INFO'' \<mapsto> Written (str_bytes token)),
      files_in t1 (cpr_dir (fa_dir f) token), files_in t1 (index_dir (fa_dir f) token))"
    using t2(3) low(3,4) root by (simp add: dump_at_def files_in_def [abs_def])
  have "image (dump_at t3 cp token) token (content (fa_db f))"
    unfolding dump by (rule f_image [OF c(7) [unfolded dump_at_def]]) auto
  moreover have "only_files t3 (cpr_dir cp token)" "only_files t3 (index_dir cp token)"
    using t2(6,7) low by (simp_all add: only_files_def)
  moreover have "files_in t3 cp ''cpr-checkpoints'' = None" "files_in t3 cp ''index-checkpoints'' = None"
    using t2(3) c(11,12) root by (simp_all add: dump_at_def)
  moreover have "fresh t3 p" if "fresh t p" "fa_dir f \<parallel> p" "cp \<parallel> p" for p
  proof -
    have par: "p \<parallel> cp" using that(3) by (rule parallel_commute [THEN iffD1])
    have "entry_at t3 q = entry_at t1 q" if "\<not> prefix cp q" "\<not> prefix q cp" for q
      using that t2(5) by (auto simp: t3(3))
    moreover have "entry_at t3 q = Some None" if "prefix q cp" for q using that t2(4) by (auto simp: t3(3))
    ultimately show ?thesis by (rule fresh_copied [OF new1 [OF \<open>fresh t p\<close> \<open>fa_dir f \<parallel> p\<close>] par])
  qed
  moreover have "faster_checkpoint D cp (f, t) = (Ok (), f\<lparr>fa_db := fs_complete_pending D d1\<rparr>, t3)"
    using c(1) t2(1) t3(1)
    by (simp add: faster_checkpoint_def complete_pending_def on_tree_def bind_s_def split: prod.splits outcome.splits)
  moreover have "dok (fs_complete_pending D d1)" "content (fs_complete_pending D d1) = content (fa_db f)"
    using f_pending [OF c(4)] c(5) by simp_all
  moreover have "entry_at t3 cp = Some None" "entry_at t3 ?i = Some (Some (Written (str_bytes token)))"
    using t2(4) [of cp] by (simp_all add: t3(3))
  ultimately show ?thesis using t3(2) c(2,3) by (intro exI [of _ "f\<lparr>fa_db := fs_complete_pending D d1\<rparr>"] exI [of _ t3] exI [of _ token]) simp
qed

lemma str_of_bytes: "map (\<lambda>b. char_of (unat b)) (str_bytes s) = s"
proof -
  have "char_of (unat (word_of_nat (of_char c) :: u8)) = c" for c :: char
  proof -
    have "(of_char c :: nat) < 256" using of_char_of [of "of_char c :: nat"] by (simp add: mod_eq_self_iff_div_eq_0 div_eq_0_iff)
    then show ?thesis by (simp add: unat_of_nat)
  qed
  then show ?thesis by (simp add: str_bytes_def map_idI)
qed

lemma restore_ok:
  assumes "tree_ok t" "length token = 36" "valid_utf8 (str_bytes token)"
    "entry_at t (cp @ [''ARCON_CHECKPOINT_INFO'']) = Some (Some (Written (str_bytes token)))"
    "image (dump_at t cp token) token x" "entry_at t cp = Some None" "only_files t (cpr_dir cp token)" "only_files t (index_dir cp token)"
    "files_in t cp ''cpr-checkpoints'' = None" "files_in t cp ''index-checkpoints'' = None" "fresh t lp" "cp \<parallel> lp"
  shows "\<exists>f' t'. faster_restore D lp cp t = (Ok f', t') \<and> dok (fa_db f') \<and> content (fa_db f') = x \<and> fa_restored f' \<and>
    fa_dir f' = lp \<and> fa_monotonic_serial_number f' = 0"
proof -
  have read: "read_to_string D (cp @ [''ARCON_CHECKPOINT_INFO'']) t = Ok token"
    using assms(3,4) by (simp add: read_to_string_def str_of_bytes)
  obtain t1 where t1: "copy_checkpoint token cp lp t = (Ok (), t1)" "tree_ok t1" "dump_at t1 lp token = dump_at t cp token"
      "entry_at t1 lp = Some None"
    using copy_checkpoint_ok [OF assms(1,11,12,6-10)] by auto
  obtain d t2 where d: "fs_build D lp t1 = (Ok d, t2)" "dok d" "dir_of d = lp"
      "\<And>name y. files_in t1 lp name = Some y \<Longrightarrow> files_in t2 lp name = Some y"
      "files_in t2 (cpr_dir lp token) = files_in t1 (cpr_dir lp token)" "files_in t2 (index_dir lp token) = files_in t1 (index_dir lp token)"
    using f_build [OF t1(2,4)] by blast
  have "image (dump_at t2 (dir_of d) token) token x"
  proof -
    have "image (files_in t1 lp, files_in t1 (cpr_dir lp token), files_in t1 (index_dir lp token)) token x"
      using assms(5) t1(3) by (simp add: dump_at_def)
    then show ?thesis unfolding dump_at_def d(3,5,6) by (rule f_image) (rule d(4))
  qed
  then obtain st d' where r: "fs_recover D token token t2 d = (Ok st, d')" "st \<in> completed" "dok d'" "content d' = x"
    using f_recover [OF d(2)] by blast
  let ?r = "\<lparr>fa_db = if st = status_OK then d' else fs_complete_pending D d', fa_monotonic_serial_number = 0,
    fa_aggregate_fns = Map.empty, fa_dir = lp, fa_restored = True\<rparr>"
  have "faster_restore D lp cp t = (Ok ?r, t2)"
    using read t1(1) d(1) r(1,2) assms(2) by (auto simp: faster_restore_def faster_create_def bind_s_def)
  moreover have "dok (fa_db ?r) \<and> content (fa_db ?r) = x" using f_pending [OF r(3)] r(3,4) by auto
  ultimately show ?thesis by (intro exI [of _ ?r] exI [of _ t2]) simp
qed

end

end
