(* ===== verification/Faster_Backend.thy ===== *)
theory Faster_Backend
  imports Faster_Maps Faster_Disk Rocks_Backend
begin

text \<open>
  The properties of the FASTER backend, over any store that meets \<open>faster_store\<close>, and a store kept as
  an association list that does.
\<close>

section \<open>A store that meets the contract\<close>

record list_store =
  ls_dir :: path
  ls_data :: "(bytes \<times> faster_value) list"

definition ls_content :: "list_store \<Rightarrow> bytes \<rightharpoonup> faster_value" where
  "ls_content d = map_of (ls_data d)"

definition ls_update :: "bytes \<Rightarrow> faster_value \<Rightarrow> list_store \<Rightarrow> list_store" where
  "ls_update k v d = d\<lparr>ls_data := AList.update k v (ls_data d)\<rparr>"

definition ls_token :: string where
  "ls_token = replicate 36 CHR ''0''"

definition ls_file :: "path \<Rightarrow> path" where
  "ls_file p = cpr_dir p ls_token @ [''data'']"

definition ls_checkpoint :: "(list_store \<times> (bytes \<times> faster_value) list tree, arcon_state_error, bool \<times> string) action" where
  "ls_checkpoint x =
     (case x of (d, t) \<Rightarrow>
        (case bind_s (bind_s (create_dir_all (cpr_dir (ls_dir d) ls_token)) (\<lambda>_. create_dir_all (index_dir (ls_dir d) ls_token)))
                (\<lambda>_. write_file (ls_file (ls_dir d)) (Opaque (ls_data d))) t of
           (Ok _, t) \<Rightarrow> (Ok (True, ls_token), d, t)
         | (_, t) \<Rightarrow> (Ok (False, ls_token), d, t)))"

definition ls_recover :: "(bytes \<times> faster_value) list tree \<Rightarrow> (list_store, arcon_state_error, u8) action" where
  "ls_recover t d =
     (case entry_at t (ls_file (ls_dir d)) of
        Some (Some (Opaque data)) \<Rightarrow> (Ok status_OK, d\<lparr>ls_data := data\<rparr>)
      | _ \<Rightarrow> (Ok 5, d))"

definition list_faster :: "(list_store, (bytes \<times> faster_value) list) faster_api" where
  "list_faster =
     \<lparr>fs_file_bytes = (\<lambda>_. []),
      fs_build = (\<lambda>p. query (\<lambda>_. Ok \<lparr>ls_dir = p, ls_data = []\<rparr>)),
      fs_read_bytes = (\<lambda>k n d. case map_of (ls_data d) k of None \<Rightarrow> (status_NOT_FOUND, None) | Some (FBytes v) \<Rightarrow> (status_OK, Some v) | _ \<Rightarrow> (5, None)),
      fs_read_vec = (\<lambda>k n d. case map_of (ls_data d) k of None \<Rightarrow> (status_NOT_FOUND, None) | Some (FVec v) \<Rightarrow> (status_OK, Some v) | _ \<Rightarrow> (5, None)),
      fs_read_agg = (\<lambda>k n d. case map_of (ls_data d) k of None \<Rightarrow> (status_NOT_FOUND, None) | Some (FAgg v) \<Rightarrow> (status_OK, Some v) | _ \<Rightarrow> (5, None)),
      fs_upsert_bytes = (\<lambda>k v n d. (status_OK, ls_update k (FBytes v) d)),
      fs_upsert_vec = (\<lambda>k v n d. (status_OK, ls_update k (FVec v) d)),
      fs_rmw_vec = (\<lambda>g k m n d. case map_of (ls_data d) k of
          None \<Rightarrow> (status_OK, ls_update k (FVec m) d)
        | Some (FVec x) \<Rightarrow> (case g x m of Ok y \<Rightarrow> (status_OK, ls_update k (FVec y) d) | _ \<Rightarrow> (5, d))
        | _ \<Rightarrow> (5, d)),
      fs_rmw_agg = (\<lambda>g k m n d. case map_of (ls_data d) k of
          None \<Rightarrow> (status_OK, ls_update k (FAgg m) d)
        | Some (FAgg x) \<Rightarrow> (case g x m of Ok y \<Rightarrow> (status_OK, ls_update k (FAgg y) d) | _ \<Rightarrow> (5, d))
        | _ \<Rightarrow> (5, d)),
      fs_delete = (\<lambda>k n d. (status_OK, d\<lparr>ls_data := AList.delete k (ls_data d)\<rparr>)),
      fs_complete_pending = (\<lambda>d. d),
      fs_checkpoint = ls_checkpoint,
      fs_recover = (\<lambda>_ _. ls_recover),
      fs_start_session = (\<lambda>d. d),
      fs_stop_session = (\<lambda>d. d)\<rparr>"

lemma ls_content_simps [simp]:
  "ls_content (ls_update k v d) = (ls_content d)(k \<mapsto> v)"
  "ls_content (d\<lparr>ls_data := AList.delete k (ls_data d)\<rparr>) = (ls_content d)(k := None)"
  by (simp_all add: ls_content_def ls_update_def update_conv' delete_conv')

definition ls_live :: "list_store \<Rightarrow> (bytes \<times> faster_value) list tree \<Rightarrow> bool" where
  "ls_live d t \<longleftrightarrow> ls_dir d \<noteq> [] \<and> (\<forall>q. prefix q (ls_dir d) \<longrightarrow> entry_at t q = Some None) \<and>
     (\<forall>q. strict_prefix (ls_dir d) q \<longrightarrow> entry_at t q = None)"

definition ls_image :: "(bytes \<times> faster_value) list dump \<Rightarrow> string \<Rightarrow> (bytes \<rightharpoonup> faster_value) \<Rightarrow> bool" where
  "ls_image s token x \<longleftrightarrow> token = ls_token \<and> (\<exists>data. fst (snd s) ''data'' = Some (Opaque data) \<and> map_of data = x)"

lemma ls_checkpoint_ok:
  assumes "tree_ok t" "ls_live d t"
  shows "\<exists>t'. ls_checkpoint (d, t) = (Ok (True, ls_token), d, t') \<and> tree_ok t' \<and>
    entry_at t' = (\<lambda>q. if prefix q (cpr_dir (ls_dir d) ls_token) \<or> prefix q (index_dir (ls_dir d) ls_token) then Some None
      else entry_at t q)(ls_file (ls_dir d) \<mapsto> Some (Opaque (ls_data d)))"
proof -
  let ?p = "ls_dir d"
  have free: "entry_at t q = None \<or> entry_at t q = Some None"
    if "prefix q (cpr_dir ?p ls_token) \<or> prefix q (index_dir ?p ls_token)" for q
    using that assms(2) prefix_same_cases [of q _ ?p] checkpoint_dirs(1,2) [of ?p ls_token] by (auto simp: ls_live_def strict_prefix_def)
  obtain t1 where t1: "bind_s (create_dir_all (cpr_dir ?p ls_token)) (\<lambda>_. create_dir_all (index_dir ?p ls_token)) t = (Ok (), t1)"
      "tree_ok t1" "\<And>q. entry_at t1 q = (if prefix q (cpr_dir ?p ls_token) \<or> prefix q (index_dir ?p ls_token) then Some None else entry_at t q)"
    using make_dirs_ok [OF assms(1), of ?p ls_token] free by blast
  have "entry_at t1 (ls_file ?p) \<noteq> Some None"
  proof -
    have "\<not> prefix (ls_file ?p) (cpr_dir ?p ls_token)" "\<not> prefix (ls_file ?p) (index_dir ?p ls_token)"
      by (auto simp: ls_file_def cpr_dir_def index_dir_def dest: prefix_length_le)
    moreover have "strict_prefix ?p (ls_file ?p)" by (simp add: ls_file_def cpr_dir_def strict_prefix_def)
    ultimately show ?thesis using assms(2) by (simp add: t1(3) ls_live_def)
  qed
  then obtain t2 where "write_file (ls_file ?p) (Opaque (ls_data d)) t1 = (Ok (), t2)" "tree_ok t2"
      "entry_at t2 = (entry_at t1)(ls_file ?p \<mapsto> Some (Opaque (ls_data d)))"
    using write_file_ok [OF t1(2), of "ls_file ?p" "Opaque (ls_data d)"] t1(3) by (auto simp: ls_file_def)
  moreover have "entry_at t1 = (\<lambda>q. if prefix q (cpr_dir ?p ls_token) \<or> prefix q (index_dir ?p ls_token) then Some None else entry_at t q)"
    by (rule ext) (rule t1(3))
  ultimately show ?thesis using t1(1) by (simp add: ls_checkpoint_def)
qed

interpretation list_faster: faster_disk list_faster "\<lambda>_. True" ls_content ls_dir ls_live ls_image
proof
  fix d :: list_store and t
  assume t: "tree_ok t" "ls_live d t"
  let ?p = "ls_dir d"
  obtain t' where t': "ls_checkpoint (d, t) = (Ok (True, ls_token), d, t')" "tree_ok t'"
      "entry_at t' = (\<lambda>q. if prefix q (cpr_dir ?p ls_token) \<or> prefix q (index_dir ?p ls_token) then Some None
        else entry_at t q)(ls_file ?p \<mapsto> Some (Opaque (ls_data d)))"
    using ls_checkpoint_ok [OF t] by blast
  have none: "entry_at t (?p @ x # xs) = None" for x xs using t(2) by (simp add: ls_live_def strict_prefix_def)
  have utf: "valid_utf8 (replicate n 48)" for n by (induction n) simp_all
  have token: "length ls_token = 36" "valid_utf8 (str_bytes ls_token)"
    using utf [of 36] by (simp_all add: ls_token_def str_bytes_def map_replicate)
  have "ls_image (dump_at t' ?p ls_token) ls_token (ls_content d)"
    by (simp add: ls_image_def dump_at_def files_in_def t'(3) ls_file_def ls_content_def)
  moreover have "entry_at t' ?p = Some None" "only_files t' (cpr_dir ?p ls_token)" "only_files t' (index_dir ?p ls_token)"
    "files_in t' ?p ''cpr-checkpoints'' = None" "files_in t' ?p ''index-checkpoints'' = None"
    using none by (auto simp: t'(3) ls_file_def only_files_def files_in_def cpr_dir_def index_dir_def)
  moreover have "entry_at t' q = entry_at t q" if "\<not> prefix ?p q" for q
    using that t(2) checkpoint_dirs(1,2) [of ?p ls_token] prefix_same_cases [of q _ ?p]
    by (auto simp: t'(3) ls_file_def cpr_dir_def ls_live_def)
  ultimately show "\<exists>token d' t'. fs_checkpoint list_faster (d, t) = (Ok (True, token), d', t') \<and> length token = 36 \<and>
      valid_utf8 (str_bytes token) \<and> True \<and> ls_content d' = ls_content d \<and> tree_ok t' \<and>
      ls_image (dump_at t' (ls_dir d) token) token (ls_content d) \<and> entry_at t' (ls_dir d) = Some None \<and>
      only_files t' (cpr_dir (ls_dir d) token) \<and> only_files t' (index_dir (ls_dir d) token) \<and>
      files_in t' (ls_dir d) ''cpr-checkpoints'' = None \<and> files_in t' (ls_dir d) ''index-checkpoints'' = None \<and>
      (\<forall>q. \<not> prefix (ls_dir d) q \<longrightarrow> entry_at t' q = entry_at t q)"
    using t'(1,2) token by (intro exI [of _ ls_token] exI [of _ d] exI [of _ t']) (simp add: list_faster_def)
next
  fix d :: list_store and t token x
  assume "ls_image (dump_at t (ls_dir d) token) token x"
  then obtain data where "token = ls_token" "files_in t (cpr_dir (ls_dir d) ls_token) ''data'' = Some (Opaque data)" "map_of data = x"
    by (auto simp: ls_image_def dump_at_def)
  then have "entry_at t (ls_file (ls_dir d)) = Some (Some (Opaque data))" "map_of data = x"
    by (auto simp: files_in_def ls_file_def split: option.splits)
  then show "\<exists>st d'. fs_recover list_faster token token t d = (Ok st, d') \<and> st \<in> completed \<and> True \<and> ls_content d' = x"
    by (simp add: list_faster_def ls_recover_def ls_content_def)
qed (simp_all add: list_faster_def accepted_def ls_image_def, simp_all add: ls_content_def [symmetric])

text \<open>The states of a backend over it, and what they inherit from the contracts.\<close>

lemma demo_fits:
  "8 + length (h_id (value_handle ''epoch'')) + SIZE unit_fb + SIZE unit_fb \<le> usize_max"
  "8 + length (h_id (vec_handle ''buffer'')) + SIZE unit_fb + SIZE unit_fb \<le> usize_max"
  "8 + length (h_id (map_handle ''watermarks'')) + SIZE unit_fb + SIZE unit_fb \<le> usize_max"
  "8 + length (h_id (reducer_handle ''sum'' sum_fn)) + SIZE unit_fb + SIZE unit_fb \<le> usize_max"
  "8 + length (h_id (aggregator_handle ''agg'' sum_agg)) + SIZE unit_fb + SIZE unit_fb \<le> usize_max"
  by (simp_all add: value_handle_def vec_handle_def map_handle_def reducer_handle_def aggregator_handle_def no_extra_def
      unit_fb_def usize_max_def)

interpretation faster_epoch: faster_value_cell list_faster "\<lambda>_. True" ls_content unit_fb "\<lambda>_. []" "\<lambda>_. True"
    unit_fb "\<lambda>_. []" "\<lambda>_. True" "value_handle ''epoch''" u64_message
  by unfold_locales (use demo_fits(1) u64_message_law u64_message_fits in simp_all)

interpretation faster_epoch: value_session "faster_value_calls list_faster unit_fb unit_fb u64_message (value_handle ''epoch'')"
    faster_epoch.value_inv 2 "\<lambda>f. value_at u64_message (faster_epoch.cell f)" faster_epoch.cell_frame
  by (rule faster_epoch.refines_value)

interpretation faster_buffer: faster_vec_cell list_faster "\<lambda>_. True" ls_content unit_fb "\<lambda>_. []" "\<lambda>_. True"
    unit_fb "\<lambda>_. []" "\<lambda>_. True" "vec_handle ''buffer''" u64_message
  by unfold_locales (use demo_fits(2) u64_message_law u64_message_fits in simp_all)

interpretation faster_buffer: vec_session "faster_vec_calls list_faster unit_fb unit_fb u64_message (vec_handle ''buffer'')"
    faster_buffer.vec_inv 1 "\<lambda>f. vec_items u64_message (faster_buffer.cell f)" faster_buffer.cell_frame
  by (rule faster_buffer.refines_vec)

interpretation faster_sum: faster_reducer_cell list_faster "\<lambda>_. True" ls_content unit_fb "\<lambda>_. []" "\<lambda>_. True"
    unit_fb "\<lambda>_. []" "\<lambda>_. True" "reducer_handle ''sum'' sum_fn" u64_message "\<lambda>_. ''error''"
  by unfold_locales (use demo_fits(4) u64_message_law u64_message_fits in simp_all)

interpretation faster_sum: reducer_session
    "faster_reducer_calls list_faster (\<lambda>_. ''error'') unit_fb unit_fb u64_message (reducer_handle ''sum'' sum_fn)"
    "h_extra_data (reducer_handle ''sum'' sum_fn)" faster_sum.reducer_inv 1 faster_sum.red faster_sum.cell_frame
  by (rule faster_sum.refines_reducer)

interpretation faster_agg: faster_aggregator_cell list_faster "\<lambda>_. True" ls_content unit_fb "\<lambda>_. []" "\<lambda>_. True"
    unit_fb "\<lambda>_. []" "\<lambda>_. True" "aggregator_handle ''agg'' sum_agg" u64_message u64_message "\<lambda>_. ''error''"
  by unfold_locales (use demo_fits(5) u64_message_law u64_message_fits in simp_all)

interpretation faster_watermarks: faster_map_cell list_faster "\<lambda>_. True" ls_content unit_fb "\<lambda>_. []" "\<lambda>_. True"
    unit_fb "\<lambda>_. []" "\<lambda>_. True" "map_handle ''watermarks''" u64_message u64_message True
  by unfold_locales (use demo_fits(3) u64_message_law u64_message_fits in simp_all)

interpretation faster_watermarks: map_walk_session
    "faster_map_calls True list_faster unit_fb unit_fb u64_message u64_message (map_handle ''watermarks'')"
    faster_watermarks.map_inv 3 faster_watermarks.fkey_ok faster_watermarks.removable faster_watermarks.entries faster_watermarks.map_frame
  by (rule faster_watermarks.refines_walk) simp

section \<open>Properties\<close>

text \<open>A value, a vector and a reducer state of the FASTER backend implement an optional cell, a list
  and a reduction and leave every other key alone, as long as serial numbers are left: each call
  takes at most two of them.\<close>

theorem faster_states_refine:
  assumes "faster_store D dok content" and "metakeys IK eik vik N en vn"
    and "message_law V" and "messages_fit 0 V"
    and "vik (h_item_key h)" "vn (h_namespace h)" "8 + length (h_id h) + metakey_size IK N \<le> usize_max"
    and "vik (h_item_key s)" "vn (h_namespace s)" "8 + length (h_id s) + metakey_size IK N \<le> usize_max"
    and "vik (h_item_key r)" "vn (h_namespace r)" "8 + length (h_id r) + metakey_size IK N \<le> usize_max"
  shows "value_session (faster_value_calls D IK N V h)
      (\<lambda>n f. faster_ok dok n f \<and> value_entry V (content (fa_db f) (id_key eik en h))) 2
      (\<lambda>f. value_at V (content (fa_db f) (id_key eik en h))) (faster_frame content (\<lambda>k. k = id_key eik en h)) \<and>
    vec_session (faster_vec_calls D IK N V s)
      (\<lambda>n f. faster_ok dok n f \<and> vec_entry V (content (fa_db f) (id_key eik en s))) 1
      (\<lambda>f. vec_items V (content (fa_db f) (id_key eik en s))) (faster_frame content (\<lambda>k. k = id_key eik en s)) \<and>
    reducer_session (faster_reducer_calls D shown IK N V r) (h_extra_data r)
      (\<lambda>n f. faster_ok dok n f \<and> reducer_entry V (content (fa_db f) (id_key eik en r)) \<and>
        fa_aggregate_fns f (h_id r) = Some (make_reduce_fn V (h_extra_data r))) 1
      (\<lambda>f. decoded V (agg_bytes (content (fa_db f) (id_key eik en r)))) (faster_frame content (\<lambda>k. k = id_key eik en r))"
proof (intro conjI)
  have ch: "faster_cell D dok content IK eik vik N en vn h" and cs: "faster_cell D dok content IK eik vik N en vn s"
    and cr: "faster_cell D dok content IK eik vik N en vn r"
    using assms(1,2,5-13) by (simp_all add: faster_cell_def faster_cell_axioms_def metakey_size_def)
  have v: "faster_value_cell D dok content IK eik vik N en vn h V"
    using ch assms(3,4) by (simp add: faster_value_cell_def faster_value_cell_axioms_def)
  from faster_value_cell.refines_value [OF v] show "value_session (faster_value_calls D IK N V h)
      (\<lambda>n f. faster_ok dok n f \<and> value_entry V (content (fa_db f) (id_key eik en h))) 2
      (\<lambda>f. value_at V (content (fa_db f) (id_key eik en h))) (faster_frame content (\<lambda>k. k = id_key eik en h))"
    unfolding faster_value_cell.value_inv_def [OF v, abs_def] faster_cell.cell_frame_def [OF ch] .
  have vec: "faster_vec_cell D dok content IK eik vik N en vn s V"
    using cs assms(3,4) by (simp add: faster_vec_cell_def faster_vec_cell_axioms_def)
  from faster_vec_cell.refines_vec [OF vec] show "vec_session (faster_vec_calls D IK N V s)
      (\<lambda>n f. faster_ok dok n f \<and> vec_entry V (content (fa_db f) (id_key eik en s))) 1
      (\<lambda>f. vec_items V (content (fa_db f) (id_key eik en s))) (faster_frame content (\<lambda>k. k = id_key eik en s))"
    unfolding faster_vec_cell.vec_inv_def [OF vec, abs_def] faster_cell.cell_frame_def [OF cs] .
  have red: "faster_reducer_cell D dok content IK eik vik N en vn r V"
    using cr assms(3,4) by (simp add: faster_reducer_cell_def faster_reducer_cell_axioms_def)
  from faster_reducer_cell.refines_reducer [OF red, of shown]
  show "reducer_session (faster_reducer_calls D shown IK N V r) (h_extra_data r)
      (\<lambda>n f. faster_ok dok n f \<and> reducer_entry V (content (fa_db f) (id_key eik en r)) \<and>
        fa_aggregate_fns f (h_id r) = Some (make_reduce_fn V (h_extra_data r))) 1
      (\<lambda>f. decoded V (agg_bytes (content (fa_db f) (id_key eik en r)))) (faster_frame content (\<lambda>k. k = id_key eik en r))"
    unfolding faster_reducer_cell.reducer_inv_def [OF red, abs_def] faster_cell.cell_frame_def [OF cr] .
qed

theorem faster_states_refine_witness:
  "vec_session (faster_vec_calls list_faster unit_fb unit_fb u64_message (vec_handle ''buffer''))
     (\<lambda>n f. faster_ok (\<lambda>_. True) n f \<and> vec_entry u64_message (ls_content (fa_db f) (id_key (\<lambda>_. []) (\<lambda>_. []) (vec_handle ''buffer'')))) 1
     (\<lambda>f. vec_items u64_message (ls_content (fa_db f) (id_key (\<lambda>_. []) (\<lambda>_. []) (vec_handle ''buffer''))))
     (faster_frame ls_content (\<lambda>k. k = id_key (\<lambda>_. []) (\<lambda>_. []) (vec_handle ''buffer''))) \<and>
   vec_entry u64_message (ls_content \<lparr>ls_dir = [], ls_data = []\<rparr> (id_key (\<lambda>_. []) (\<lambda>_. []) (vec_handle ''buffer'')))"
proof -
  have fits: "8 + length (h_id (value_handle ''epoch'')) + metakey_size unit_fb unit_fb \<le> usize_max"
    "8 + length (h_id (vec_handle ''buffer'')) + metakey_size unit_fb unit_fb \<le> usize_max"
    "8 + length (h_id (reducer_handle ''sum'' sum_fn)) + metakey_size unit_fb unit_fb \<le> usize_max"
    by (simp_all add: value_handle_def vec_handle_def reducer_handle_def no_extra_def metakey_size_def unit_fb_def usize_max_def)
  note w = faster_states_refine [OF list_faster.faster_store_axioms mk0.metakeys_axioms u64_message_law u64_message_fits(1)
      TrueI TrueI fits(1) TrueI TrueI fits(2) TrueI TrueI fits(3), of "\<lambda>_. ''error''"]
  from w [THEN conjunct2, THEN conjunct1] show ?thesis by (simp add: ls_content_def)
qed

text \<open>C35: A map state of the FASTER backend implements a finite map, as far as single entries are concerned,
  and leaves all keys of other states alone; each call takes at most three serial numbers, or three
  for each pair. With the feature \<^verbatim>\<open>slower_faster\<close> it also implements the operations that visit all
  entries, for keys that never encode to nothing, and as long as nothing is removed from a map that
  has no list of keys.\<close>

theorem faster_map_refines:
  assumes "faster_store D dok content" and "metakeys IK eik vik N en vn"
    and "message_law K" and "message_law V" and "messages_fit 0 V" and "slow \<Longrightarrow> never_empty K"
    and "vik (h_item_key h)" "vn (h_namespace h)" "8 + length (h_id h) + metakey_size IK N \<le> usize_max"
  shows "map_session (faster_map_calls slow D IK N K V h)
      (\<lambda>n f. faster_ok dok n f \<and> (\<forall>k. value_entry V (content (fa_db f) (entry_key K eik en h k))) \<and>
        (slow \<longrightarrow> keys_listed (entry_key K eik en h) (content (fa_db f) (id_key eik en h)) (dom (faster_entries content K V eik en h f))))
      3 (\<lambda>k. length (id_key eik en h) + length (msg_encode K k) \<le> usize_max)
      (\<lambda>f k. slow \<longrightarrow> content (fa_db f) (id_key eik en h) \<noteq> None)
      (faster_entries content K V eik en h) (faster_frame content (has_prefix (id_key eik en h))) \<and>
    (slow \<longrightarrow> map_walk_session (faster_map_calls slow D IK N K V h)
      (\<lambda>n f. faster_ok dok n f \<and> (\<forall>k. value_entry V (content (fa_db f) (entry_key K eik en h k))) \<and>
        (slow \<longrightarrow> keys_listed (entry_key K eik en h) (content (fa_db f) (id_key eik en h)) (dom (faster_entries content K V eik en h f))))
      3 (\<lambda>k. length (id_key eik en h) + length (msg_encode K k) \<le> usize_max)
      (\<lambda>f k. slow \<longrightarrow> content (fa_db f) (id_key eik en h) \<noteq> None)
      (faster_entries content K V eik en h) (faster_frame content (has_prefix (id_key eik en h))))"
proof -
  have "faster_cell D dok content IK eik vik N en vn h"
    using assms(1,2,7-9) by (simp add: faster_cell_def faster_cell_axioms_def metakey_size_def)
  then have m: "faster_map_cell D dok content IK eik vik N en vn h K V slow"
    using assms(3-6) by (simp add: faster_map_cell_def faster_map_cell_axioms_def)
  note defs = faster_map_cell.map_inv_def [OF m, abs_def] faster_map_cell.map_frame_def [OF m]
    faster_map_cell.fkey_ok_def [OF m, abs_def] faster_map_cell.removable_def [OF m, abs_def]
  show ?thesis
    using faster_map_cell.refines_map [OF m] faster_map_cell.refines_walk [OF m] unfolding defs by blast
qed

theorem faster_map_refines_witness:
  "\<exists>I. map_walk_session (faster_map_calls True list_faster unit_fb unit_fb u64_message u64_message (map_handle ''m''))
     I 3 (\<lambda>k. length (id_key (\<lambda>_. []) (\<lambda>_. []) (map_handle ''m'')) + length (msg_encode u64_message k) \<le> usize_max)
     (\<lambda>f k. ls_content (fa_db f) (id_key (\<lambda>_. []) (\<lambda>_. []) (map_handle ''m'')) \<noteq> None)
     (faster_entries ls_content u64_message u64_message (\<lambda>_. []) (\<lambda>_. []) (map_handle ''m''))
     (faster_frame ls_content (has_prefix (id_key (\<lambda>_. []) (\<lambda>_. []) (map_handle ''m'')))) \<and>
   I 100 \<lparr>fa_db = \<lparr>ls_dir = [], ls_data = []\<rparr>, fa_monotonic_serial_number = 0, fa_aggregate_fns = Map.empty,
     fa_dir = [], fa_restored = False\<rparr>"
proof -
  let ?h = "map_handle ''m''"
  let ?I = "\<lambda>n f. faster_ok (\<lambda>_. True) n f \<and> (\<forall>k. value_entry u64_message (ls_content (fa_db f) (entry_key u64_message (\<lambda>_. []) (\<lambda>_. []) ?h k))) \<and>
    (True \<longrightarrow> keys_listed (entry_key u64_message (\<lambda>_. []) (\<lambda>_. []) ?h) (ls_content (fa_db f) (id_key (\<lambda>_. []) (\<lambda>_. []) ?h))
      (dom (faster_entries ls_content u64_message u64_message (\<lambda>_. []) (\<lambda>_. []) ?h f)))"
  have "8 + length (h_id ?h) + metakey_size unit_fb unit_fb \<le> usize_max"
    by (simp add: map_handle_def no_extra_def metakey_size_def unit_fb_def usize_max_def)
  note w = faster_map_refines [OF list_faster.faster_store_axioms mk0.metakeys_axioms u64_message_law u64_message_law u64_message_fits(1)
      u64_message_fits(3) TrueI TrueI this, THEN conjunct2, of True, THEN mp, OF TrueI]
  show ?thesis
    by (rule exI [of _ ?I]) (use w in \<open>simp add: faster_ok_def keys_listed_def ls_content_def faster_entries_def [abs_def]\<close>)
qed

text \<open>The values given to an aggregator of the FASTER backend are accumulated in order, and reading it
  returns their result, except after exactly one value: the store keeps a first value as it came, and
  the read panics because it expects an accumulator.\<close>

theorem faster_aggregator_reads:
  assumes "faster_store D dok content" and "metakeys IK eik vik N en vn"
    and "message_law INP" "messages_fit 1 INP" "message_law ACC" "messages_fit 1 ACC"
    and "vik (h_item_key h)" "vn (h_namespace h)" "8 + length (h_id h) + metakey_size IK N \<le> usize_max"
    and "faster_ok dok (Suc (length vs)) f" and "content (fa_db f) (id_key eik en h) = None"
    and "fa_aggregate_fns f (h_id h) = Some (make_aggregate_fn INP ACC (h_extra_data h))"
  shows "\<exists>f' f''. aggregate_all (faster_aggregator_calls D shown IK N INP ACC h) vs f = (Ok (), f') \<and>
    ac_get (faster_aggregator_calls D shown IK N INP ACC h) f' =
      (if length vs = 1 then Panic ''assertion failed: `(left == right)`''
       else accumulator_into_result (h_extra_data h) (foldl (agg_add (h_extra_data h)) (create_accumulator (h_extra_data h)) vs), f'') \<and>
    faster_frame content (\<lambda>k. k = id_key eik en h) f'' = faster_frame content (\<lambda>k. k = id_key eik en h) f"
proof -
  have c: "faster_cell D dok content IK eik vik N en vn h"
    using assms(1,2,7-9) by (simp add: faster_cell_def faster_cell_axioms_def metakey_size_def)
  then have a: "faster_aggregator_cell D dok content IK eik vik N en vn h INP ACC"
    using assms(3-6) by (simp add: faster_aggregator_cell_def faster_aggregator_cell_axioms_def)
  note frame = faster_cell.cell_frame_def [OF c]
  have "faster_aggregator_cell.holds dok content eik en h INP ACC (Suc 0 + length vs) [] f"
    using assms(10-12) by (simp add: faster_aggregator_cell.holds_def [OF a] aggregator_entry_def)
  from yieldsE [OF faster_aggregator_cell.aggregate_all_holds [OF a this]] obtain f' where f':
      "aggregate_all (faster_aggregator_calls D shown IK N INP ACC h) vs f = (Ok (), f')"
      "faster_aggregator_cell.holds dok content eik en h INP ACC (Suc 0) vs f'"
      "faster_frame content (\<lambda>k. k = id_key eik en h) f' = faster_frame content (\<lambda>k. k = id_key eik en h) f"
    unfolding frame append_Nil by metis
  from faster_aggregator_cell.get_holds [OF a f'(2), of shown] show ?thesis
    using f'(1,3) unfolding frame by metis
qed

definition demo_faster :: "list_store faster" where
  "demo_faster = \<lparr>fa_db = \<lparr>ls_dir = [''live''], ls_data = []\<rparr>, fa_monotonic_serial_number = 0,
     fa_aggregate_fns = [''agg'' \<mapsto> make_aggregate_fn u64_message u64_message sum_agg], fa_dir = [''live''], fa_restored = False\<rparr>"

theorem faster_aggregator_reads_witness:
  "\<exists>f' f''. aggregate_all (faster_aggregator_calls list_faster (\<lambda>_. ''error'') unit_fb unit_fb u64_message u64_message
      (aggregator_handle ''agg'' sum_agg)) [7] demo_faster = (Ok (), f') \<and>
    ac_get (faster_aggregator_calls list_faster (\<lambda>_. ''error'') unit_fb unit_fb u64_message u64_message (aggregator_handle ''agg'' sum_agg)) f'
      = (Panic ''assertion failed: `(left == right)`'', f'')"
  using faster_aggregator_reads [OF list_faster.faster_store_axioms mk0.metakeys_axioms u64_message_law u64_message_fits(2)
      u64_message_law u64_message_fits(2), of "aggregator_handle ''agg'' sum_agg" "[7]" demo_faster "\<lambda>_. ''error''"]
  by (auto simp: aggregator_handle_def metakey_size_def unit_fb_def usize_max_def faster_ok_def demo_faster_def ls_content_def)

text \<open>C36: A checkpoint of the FASTER backend restores: into a directory that does not exist yet, the backend
  writes the files of the store and the token of the checkpoint, and a backend restored from it in
  another new directory has exactly the content of the one that was checkpointed.\<close>

theorem faster_checkpoint_restores:
  assumes "faster_disk D dok content dir_of live img"
    and "dok (fa_db f)" "dir_of (fa_db f) = fa_dir f" "live (fa_db f) t" "tree_ok t"
    and "fresh t checkpoint_path" "fresh t live_path"
    and "fa_dir f \<parallel> checkpoint_path" "fa_dir f \<parallel> live_path" "checkpoint_path \<parallel> live_path"
  shows "\<exists>f1 t1 f2 t2. faster_checkpoint D checkpoint_path (f, t) = (Ok (), f1, t1) \<and>
    faster_restore D live_path checkpoint_path t1 = (Ok f2, t2) \<and>
    content (fa_db f1) = content (fa_db f) \<and> content (fa_db f2) = content (fa_db f) \<and>
    faster_was_restored f2 \<and> faster_ok dok (2 ^ 64 - 1) f2"
proof -
  from faster_disk.checkpoint_ok [OF assms(1-6,8)] obtain f1 t1 token where c:
      "faster_checkpoint D checkpoint_path (f, t) = (Ok (), f1, t1)" "content (fa_db f1) = content (fa_db f)"
      "tree_ok t1" "length token = 36" "valid_utf8 (str_bytes token)"
      "entry_at t1 (checkpoint_path @ [''ARCON_CHECKPOINT_INFO'']) = Some (Some (Written (str_bytes token)))"
      "img (dump_at t1 checkpoint_path token) token (content (fa_db f))" "entry_at t1 checkpoint_path = Some None"
      "only_files t1 (cpr_dir checkpoint_path token)" "only_files t1 (index_dir checkpoint_path token)"
      "files_in t1 checkpoint_path ''cpr-checkpoints'' = None" "files_in t1 checkpoint_path ''index-checkpoints'' = None"
      "fresh t1 live_path"
    using assms(7,9,10) by blast
  from faster_disk.restore_ok [OF assms(1) c(3-13) assms(10)] obtain f2 t2 where
      "faster_restore D live_path checkpoint_path t1 = (Ok f2, t2)" "dok (fa_db f2)" "content (fa_db f2) = content (fa_db f)"
      "fa_restored f2" "fa_monotonic_serial_number f2 = 0"
    by blast
  then show ?thesis using c(1,2) by (auto simp: faster_ok_def faster_was_restored_def)
qed

theorem faster_checkpoint_restores_witness:
  "\<exists>f1 t1 f2 t2. faster_checkpoint list_faster [''cp''] (demo_faster\<lparr>fa_db := \<lparr>ls_dir = [''live''], ls_data = [([1], FBytes [2])]\<rparr>\<rparr>,
      [([''live''], None)]) = (Ok (), f1, t1) \<and>
    faster_restore list_faster [''new''] [''cp''] t1 = (Ok f2, t2) \<and> ls_content (fa_db f2) [1] = Some (FBytes [2])"
proof -
  let ?f = "demo_faster\<lparr>fa_db := \<lparr>ls_dir = [''live''], ls_data = [([1], FBytes [2])]\<rparr>\<rparr>"
  let ?t = "[([''live''], None)] :: (bytes \<times> faster_value) list tree"
  have live: "ls_live (fa_db ?f) ?t" "tree_ok ?t"
    by (auto simp: ls_live_def tree_ok_def entry_at_def prefix_Cons strict_prefix_def)
  have "fresh ?t [''cp'']" "fresh ?t [''new'']"
    by (auto simp: fresh_def entry_at_def prefix_Cons strict_prefix_def)
  moreover have "[''live''] \<parallel> [''cp'']" "[''live''] \<parallel> [''new'']" "[''cp''] \<parallel> [''new'']" by (simp_all add: parallel_def)
  ultimately obtain f1 t1 f2 t2 where "faster_checkpoint list_faster [''cp''] (?f, ?t) = (Ok (), f1, t1)"
      "faster_restore list_faster [''new''] [''cp''] t1 = (Ok f2, t2)" "ls_content (fa_db f2) = ls_content (fa_db ?f)"
    using faster_checkpoint_restores [OF list_faster.faster_disk_axioms TrueI _ live, of "[''cp'']" "[''new'']"]
    by (auto simp: demo_faster_def)
  then show ?thesis by (intro exI [of _ f1] exI [of _ t1] exI [of _ f2] exI [of _ t2]) (simp add: ls_content_def)
qed

text \<open>A removal from a map without a list of keys: the store keeps the removal in place of the list, and
  every later walk over the map panics.\<close>

theorem faster_map_remove_poisons:
  assumes "faster_store D dok content" and "metakeys IK eik vik N en vn"
    and "message_law K" and "message_law V" and "messages_fit 0 V" and "never_empty K"
    and "vik (h_item_key h)" "vn (h_namespace h)" "8 + length (h_id h) + metakey_size IK N \<le> usize_max"
    and "faster_ok dok 3 f" and "\<And>k. content (fa_db f) (entry_key K eik en h k) = None" "content (fa_db f) (id_key eik en h) = None"
    and "length (id_key eik en h) + length (msg_encode K k) \<le> usize_max"
  shows "\<exists>f'. faster_map_fast_remove True D IK N K h k f = (Ok (), f') \<and>
    fst (faster_map_len True D IK N h f') = Panic ''invalid faster vec ops value''"
proof -
  have "faster_cell D dok content IK eik vik N en vn h"
    using assms(1,2,7-9) by (simp add: faster_cell_def faster_cell_axioms_def metakey_size_def)
  then have m: "faster_map_cell D dok content IK eik vik N en vn h K V True"
    using assms(3-6) by (simp add: faster_map_cell_def faster_map_cell_axioms_def)
  have "faster_map_cell.map_inv dok content eik en h K V True (Suc (Suc (Suc 0))) f"
    using assms(10-12)
    by (simp add: faster_map_cell.map_inv_def [OF m] keys_listed_def faster_entries_def [abs_def] numeral_3_eq_3)
  from faster_map_cell.remove_without_list [OF m TrueI this assms(12)] show ?thesis
    using assms(13) by (simp add: faster_map_cell.fkey_ok_def [OF m])
qed

end
