(* ===== verification/Metered.thy ===== *)
theory Metered
  imports Sessions
begin

text \<open>
  Model of \<^verbatim>\<open>arcon_state/src/metered\<close>: a backend that forwards every call to another one and records how
  long it took in a ring buffer. The clock is a parameter: \<open>ck_now i\<close> is its \<open>i\<close>-th reading in nanoseconds.
  An error of the inner backend is a result like any other and is measured; a panic unwinds before
  anything is recorded. The inner backend is given by the operations of its active handles, of which
  those that only read do not change it, so that an iterator is the list of its items.
\<close>

section \<open>Data points\<close>

record data_point =
  dp_operation :: string
  dp_start :: u64
  dp_duration :: u64

definition data_point_default :: data_point where
  "data_point_default = \<lparr>dp_operation = [], dp_start = 0, dp_duration = 0\<rparr>"

record metrics =
  num_pushed :: usize
  storage :: "data_point list"

definition metrics_new :: "nat \<Rightarrow> metrics" where
  "metrics_new cap = \<lparr>num_pushed = 0, storage = replicate cap data_point_default\<rparr>"

definition metrics_push :: "data_point \<Rightarrow> (metrics, 'e, unit) action" where
  "metrics_push dp =
     bind_s (query (\<lambda>m. rem_u (num_pushed m) (word_of_nat (length (storage m))))) (\<lambda>i.
     bind_s (\<lambda>m. (Ok (), m\<lparr>storage := (storage m)[unat i := dp]\<rparr>)) (\<lambda>_.
     bind_s (query (\<lambda>m. add_u (num_pushed m) 1)) (\<lambda>n m. (Ok (), m\<lparr>num_pushed := n\<rparr>))))"

definition metrics_deref :: "metrics \<Rightarrow> data_point list" where
  "metrics_deref m =
     (if unat (num_pushed m) > length (storage m) then storage m else take (unat (num_pushed m)) (storage m))"

record summary =
  su_count :: u64
  su_min :: u64
  su_avg :: u64
  su_max :: u64

definition summary_new :: summary where
  "summary_new = \<lparr>su_count = 0, su_min = - 1, su_avg = 0, su_max = 0\<rparr>"

text \<open>\<open>summary_add\<close>: one step of the fold of \<^verbatim>\<open>Metrics::summary\<close>; the text made of it is not modelled.\<close>

definition summary_add :: "u64 \<Rightarrow> summary \<Rightarrow> ('e, summary) outcome" where
  "summary_add duration s =
     (let s = s\<lparr>su_min := min (su_min s) duration, su_max := max (su_max s) duration\<rparr> in
      bind_o (mul_u (su_avg s) (su_count s)) (\<lambda>x.
      bind_o (add_u x duration) (\<lambda>x.
      bind_o (add_u (su_count s) 1) (\<lambda>n.
      bind_o (div_u x n) (\<lambda>avg. Ok (s\<lparr>su_avg := avg, su_count := n\<rparr>))))))"

fun metrics_summary :: "(string \<rightharpoonup> summary) \<Rightarrow> data_point list \<Rightarrow> ('e, string \<rightharpoonup> summary) outcome" where
  "metrics_summary acc [] = Ok acc"
| "metrics_summary acc (dp # dps) =
     bind_o (summary_add (dp_duration dp) (case acc (dp_operation dp) of None \<Rightarrow> summary_new | Some s \<Rightarrow> s)) (\<lambda>s.
     metrics_summary (acc(dp_operation dp \<mapsto> s)) dps)"

section \<open>Measurements\<close>

record clock =
  ck_now :: "nat \<Rightarrow> nat"
  ck_reads :: nat
  ck_absolute_start :: "nat option"

definition instant_now :: "(clock, 'e, nat) action" where
  "instant_now c = (Ok (ck_now c (ck_reads c)), c\<lparr>ck_reads := Suc (ck_reads c)\<rparr>)"

text \<open>\<open>absolute_start\<close>: a lazy static, evaluated at its first use.\<close>

definition absolute_start :: "(clock, 'e, nat) action" where
  "absolute_start c =
     (case ck_absolute_start c of
        Some a \<Rightarrow> (Ok a, c)
      | None \<Rightarrow> bind_s instant_now (\<lambda>a c. (Ok a, c\<lparr>ck_absolute_start := Some a\<rparr>)) c)"

definition nanos_between :: "nat \<Rightarrow> nat \<Rightarrow> ('e, u64) outcome" where
  "nanos_between start end =
     (if start \<le> end then Ok (word_of_nat (end - start)) else Panic ''supplied instant is later than self'')"

definition on_fst :: "('a, 'e, 'x) action \<Rightarrow> ('a \<times> 'c, 'e, 'x) action" where
  "on_fst m s = (case m (fst s) of (r, a) \<Rightarrow> (r, a, snd s))"

definition on_snd :: "('c, 'e, 'x) action \<Rightarrow> ('a \<times> 'c, 'e, 'x) action" where
  "on_snd m s = (case m (snd s) of (r, c) \<Rightarrow> (r, fst s, c))"

text \<open>\<open>attempt\<close>: run a function and keep the \<^verbatim>\<open>Result\<close> it returns as a value.\<close>

definition attempt :: "('s, 'e, 'a) action \<Rightarrow> ('s, 'e, ('e, 'a) outcome) action" where
  "attempt m s =
     (case m s of
        (Ok x, s) \<Rightarrow> (Ok (Ok x), s)
      | (Err e, s) \<Rightarrow> (Ok (Err e), s)
      | (Panic p, s) \<Rightarrow> (Panic p, s)
      | (NoFuel, s) \<Rightarrow> (NoFuel, s))"

definition measure_fn ::
    "string \<Rightarrow> ('s, 'e, 'a) action \<Rightarrow> ('s \<times> clock, 'e, ('e, 'a) outcome \<times> data_point) action" where
  "measure_fn operation func =
     bind_s (on_snd absolute_start) (\<lambda>abs_start.
     bind_s (on_snd instant_now) (\<lambda>start.
     bind_s (on_fst (attempt func)) (\<lambda>res.
     bind_s (on_snd instant_now) (\<lambda>end.
     bind_s (lift_o (nanos_between start end)) (\<lambda>duration.
     bind_s (lift_o (nanos_between abs_start start)) (\<lambda>since.
     return_s (res, \<lparr>dp_operation = operation, dp_start = since, dp_duration = duration\<rparr>)))))))"

section \<open>The backend\<close>

record 'b metered =
  me_inner :: 'b
  me_backend_name :: string
  me_metrics :: metrics

definition DEFAULT_METRICS_CAP :: nat where
  "DEFAULT_METRICS_CAP = 10 * (2 * 2 ^ 20) div 32"

text \<open>\<open>metrics_len\<close>: the environment variable \<^verbatim>\<open>ARCON_SB_METRICS_LEN\<close>, if it is set to a number.\<close>

definition new_from_initial_measurement ::
    "nat option \<Rightarrow> string \<Rightarrow> ('e, 'b) outcome \<times> data_point \<Rightarrow> ('e, 'b metered) outcome" where
  "new_from_initial_measurement metrics_len backend_name x =
     (case x of (inner, dp) \<Rightarrow>
        bind_o inner (\<lambda>inner.
        case metrics_push dp (metrics_new (case metrics_len of None \<Rightarrow> DEFAULT_METRICS_CAP | Some n \<Rightarrow> n)) of
          (r, m) \<Rightarrow> bind_o r (\<lambda>_. Ok \<lparr>me_inner = inner, me_backend_name = backend_name, me_metrics = m\<rparr>)))"

definition metered_restore_or_create ::
    "nat option \<Rightarrow> string \<Rightarrow> ('w, 'e, 'b) action \<Rightarrow> ('w \<times> clock, 'e, 'b metered) action" where
  "metered_restore_or_create metrics_len backend_name b_restore_or_create =
     bind_s (measure_fn ''Backend::restore_or_create'' b_restore_or_create) (\<lambda>x.
     lift_o (new_from_initial_measurement metrics_len backend_name x))"

definition metered_create ::
    "nat option \<Rightarrow> string \<Rightarrow> ('w, 'e, 'b) action \<Rightarrow> ('w \<times> clock, 'e, 'b metered) action" where
  "metered_create metrics_len backend_name b_create =
     bind_s (measure_fn ''Backend::create'' b_create) (\<lambda>x.
     lift_o (new_from_initial_measurement metrics_len backend_name x))"

definition metered_restore ::
    "nat option \<Rightarrow> string \<Rightarrow> ('w, 'e, 'b) action \<Rightarrow> ('w \<times> clock, 'e, 'b metered) action" where
  "metered_restore metrics_len backend_name b_restore =
     bind_s (measure_fn ''Backend::restore'' b_restore) (\<lambda>x.
     lift_o (new_from_initial_measurement metrics_len backend_name x))"

text \<open>\<open>measure_call\<close> is \<^verbatim>\<open>Metered::measure\<close> and \<^verbatim>\<open>Metered::measure_mut\<close>, which differ in how they borrow the
  inner backend only.\<close>

definition on_inner :: "('b \<times> clock, 'e, 'a) action \<Rightarrow> ('b metered \<times> clock, 'e, 'a) action" where
  "on_inner m s = (case m (me_inner (fst s), snd s) of (r, b, c) \<Rightarrow> (r, (fst s)\<lparr>me_inner := b\<rparr>, c))"

definition on_metrics :: "(metrics, 'e, 'a) action \<Rightarrow> ('b metered \<times> clock, 'e, 'a) action" where
  "on_metrics m s = (case m (me_metrics (fst s)) of (r, x) \<Rightarrow> (r, (fst s)\<lparr>me_metrics := x\<rparr>, snd s))"

definition measure_call :: "string \<Rightarrow> ('b, 'e, 'a) action \<Rightarrow> ('b metered \<times> clock, 'e, 'a) action" where
  "measure_call operation_name func =
     bind_s (on_inner (measure_fn operation_name func)) (\<lambda>(res, dp).
     bind_s (on_metrics (metrics_push dp)) (\<lambda>_. lift_o res))"

definition metered_was_restored :: "('b \<Rightarrow> bool) \<Rightarrow> 'b metered \<Rightarrow> bool" where
  "metered_was_restored b_was_restored m = b_was_restored (me_inner m)"

definition metered_checkpoint :: "('b, 'e, unit) action \<Rightarrow> ('b metered \<times> clock, 'e, unit) action" where
  "metered_checkpoint b_checkpoint = measure_call ''Backend::checkpoint'' b_checkpoint"

definition metered_start_session :: "('b \<Rightarrow> 'b) \<Rightarrow> 'b metered \<Rightarrow> 'b metered" where
  "metered_start_session b_start_session m = m\<lparr>me_inner := b_start_session (me_inner m)\<rparr>"

definition metered_session_drop_hook :: "('b \<Rightarrow> 'b) option \<Rightarrow> ('b metered \<Rightarrow> 'b metered) option" where
  "metered_session_drop_hook hook = map_option (\<lambda>dh this. this\<lparr>me_inner := dh (me_inner this)\<rparr>) hook"

definition metered_metrics :: "'b metered \<Rightarrow> metrics option" where
  "metered_metrics m = Some (me_metrics m)"

definition metered_register_value :: "('b, 'e, 'h) action \<Rightarrow> ('b metered \<times> clock, 'e, 'h) action" where
  "metered_register_value b_register = measure_call ''Backend::register_value_handle'' b_register"

definition metered_register_map :: "('b, 'e, 'h) action \<Rightarrow> ('b metered \<times> clock, 'e, 'h) action" where
  "metered_register_map b_register = measure_call ''Backend::register_map_handle'' b_register"

definition metered_register_vec :: "('b, 'e, 'h) action \<Rightarrow> ('b metered \<times> clock, 'e, 'h) action" where
  "metered_register_vec b_register = measure_call ''Backend::register_vec_handle'' b_register"

definition metered_register_reducer :: "('b, 'e, 'h) action \<Rightarrow> ('b metered \<times> clock, 'e, 'h) action" where
  "metered_register_reducer b_register = measure_call ''Backend::register_reducer_handle'' b_register"

definition metered_register_aggregator :: "('b, 'e, 'h) action \<Rightarrow> ('b metered \<times> clock, 'e, 'h) action" where
  "metered_register_aggregator b_register = measure_call ''Backend::register_aggregator_handle'' b_register"

section \<open>Delegated operations\<close>

text \<open>\<open>measured_items\<close>: an iterator that measures each \<^verbatim>\<open>next\<close>, taken to its end, the last call that finds
  nothing included.\<close>

fun next_item :: "('e, 'a) outcome \<Rightarrow> ('b, 'f, ('e, 'a) outcome) action" where
  "next_item (Panic m) = panic_s m"
| "next_item NoFuel = lift_o NoFuel"
| "next_item r = return_s r"

fun measured_items :: "string \<Rightarrow> ('e, 'a) outcome list \<Rightarrow> ('b metered \<times> clock, 'f, ('e, 'a) outcome list) action" where
  "measured_items operation [] = bind_s (measure_call operation (return_s ())) (\<lambda>_. return_s [])"
| "measured_items operation (x # xs) =
     bind_s (measure_call operation (next_item x)) (\<lambda>y.
     bind_s (measured_items operation xs) (\<lambda>ys. return_s (y # ys)))"

definition metered_value_calls :: "('b, 'v) value_ops \<Rightarrow> ('b metered \<times> clock, 'v) value_calls" where
  "metered_value_calls H =
     \<lparr>vc_clear = measure_call ''ValueOps::value_clear'' (vo_clear H),
      vc_get = measure_call ''ValueOps::value_get'' (query (vo_get H)),
      vc_set = (\<lambda>v. measure_call ''ValueOps::value_set'' (vo_set H v)),
      vc_fast_set = (\<lambda>v. measure_call ''ValueOps::value_fast_set'' (vo_fast_set H v))\<rparr>"

definition metered_map_iter :: "('b, 'k, 'v) map_ops \<Rightarrow> ('b metered \<times> clock, arcon_state_error, ('k \<times> 'v) state_result list) action" where
  "metered_map_iter H =
     bind_s (measure_call ''MapOps::map_iter'' (query (mo_iter H))) (measured_items ''MapOps::map_iter::next'')"

definition metered_map_keys :: "('b, 'k, 'v) map_ops \<Rightarrow> ('b metered \<times> clock, arcon_state_error, 'k state_result list) action" where
  "metered_map_keys H =
     bind_s (measure_call ''MapOps::map_keys'' (query (mo_keys H))) (measured_items ''MapOps::map_keys::next'')"

definition metered_map_values :: "('b, 'k, 'v) map_ops \<Rightarrow> ('b metered \<times> clock, arcon_state_error, 'v state_result list) action" where
  "metered_map_values H =
     bind_s (measure_call ''MapOps::map_values'' (query (mo_values H))) (measured_items ''MapOps::map_values::next'')"

definition metered_map_calls :: "('b, 'k, 'v) map_ops \<Rightarrow> ('b metered \<times> clock, 'k, 'v) map_calls" where
  "metered_map_calls H =
     \<lparr>mc_clear = measure_call ''MapOps::map_clear'' (mo_clear H),
      mc_get = (\<lambda>k. measure_call ''MapOps::map_get'' (query (mo_get H k))),
      mc_fast_insert = (\<lambda>k v. measure_call ''MapOps::map_fast_insert'' (mo_fast_insert H k v)),
      mc_insert = (\<lambda>k v. measure_call ''MapOps::map_insert'' (mo_insert H k v)),
      mc_insert_all = (\<lambda>kvs. measure_call ''MapOps::map_insert_all'' (mo_insert_all H kvs)),
      mc_remove = (\<lambda>k. measure_call ''MapOps::map_remove'' (mo_remove H k)),
      mc_fast_remove = (\<lambda>k. measure_call ''MapOps::map_fast_remove'' (mo_fast_remove H k)),
      mc_contains = (\<lambda>k. measure_call ''MapOps::map_contains'' (query (mo_contains H k))),
      mc_iter = metered_map_iter H,
      mc_keys = metered_map_keys H,
      mc_values = metered_map_values H,
      mc_len = measure_call ''MapOps::map_len'' (query (mo_len H)),
      mc_is_empty = measure_call ''MapOps::map_is_empty'' (query (mo_is_empty H))\<rparr>"

definition metered_vec_iter :: "('b, 'v) vec_ops \<Rightarrow> ('b metered \<times> clock, arcon_state_error, 'v state_result list) action" where
  "metered_vec_iter H =
     bind_s (measure_call ''VecOps::vec_iter'' (query (ve_iter H))) (measured_items ''VecOps::vec_iter::next'')"

definition metered_vec_calls :: "('b, 'v) vec_ops \<Rightarrow> ('b metered \<times> clock, 'v) vec_calls" where
  "metered_vec_calls H =
     \<lparr>ec_clear = measure_call ''VecOps::vec_clear'' (ve_clear H),
      ec_append = (\<lambda>v. measure_call ''VecOps::vec_append'' (ve_append H v)),
      ec_get = measure_call ''VecOps::vec_get'' (query (ve_get H)),
      ec_iter = metered_vec_iter H,
      ec_set = (\<lambda>vs. measure_call ''VecOps::vec_set'' (ve_set H vs)),
      ec_add_all = (\<lambda>vs. measure_call ''VecOps::vec_add_all'' (ve_add_all H vs)),
      ec_len = measure_call ''VecOps::vec_len'' (query (ve_len H)),
      ec_is_empty = measure_call ''VecOps::vec_is_empty'' (query (ve_is_empty H))\<rparr>"

definition metered_reducer_calls :: "('b, 'v) reducer_ops \<Rightarrow> ('b metered \<times> clock, 'v) reducer_calls" where
  "metered_reducer_calls H =
     \<lparr>rc_clear = measure_call ''ReducerOps::reducer_clear'' (ro_clear H),
      rc_get = measure_call ''ReducerOps::reducer_get'' (query (ro_get H)),
      rc_reduce = (\<lambda>v. measure_call ''ReducerOps::reducer_reduce'' (ro_reduce H v))\<rparr>"

definition metered_aggregator_calls :: "('b, 'i, 'r) aggregator_ops \<Rightarrow> ('b metered \<times> clock, 'i, 'r) aggregator_calls" where
  "metered_aggregator_calls H =
     \<lparr>ac_clear = measure_call ''AggregatorOps::aggregator_clear'' (ao_clear H),
      ac_get = measure_call ''AggregatorOps::aggregator_get'' (query (ao_get H)),
      ac_aggregate = (\<lambda>v. measure_call ''AggregatorOps::aggregator_aggregate'' (ao_aggregate H v))\<rparr>"

end
