(* ===== verification/Metered_Laws.thy ===== *)
theory Metered_Laws
  imports Metered In_Memory_Laws "HOL-Library.Multiset"
begin

text \<open>
  The metered backend meets the contracts of \<open>Sessions\<close> over any inner backend that meets those of
  \<open>State_Contracts\<close>, as long as its counter of data points does not overflow. The ring buffer keeps the
  latest data points, and the summary counts them correctly.
\<close>

section \<open>Measurements\<close>

text \<open>The clock is monotonic.\<close>

definition clock_ok :: "clock \<Rightarrow> bool" where
  "clock_ok c \<longleftrightarrow> mono (ck_now c) \<and> (\<forall>a. ck_absolute_start c = Some a \<longrightarrow> a \<le> ck_now c (ck_reads c))"

definition metrics_ok :: "nat \<Rightarrow> metrics \<Rightarrow> bool" where
  "metrics_ok n m \<longleftrightarrow> storage m \<noteq> [] \<and> length (storage m) < 2 ^ 64 \<and> unat (num_pushed m) + n < 2 ^ 64"

definition metered_ok :: "nat \<Rightarrow> 'b metered \<times> clock \<Rightarrow> bool" where
  "metered_ok n s \<longleftrightarrow> metrics_ok n (me_metrics (fst s)) \<and> clock_ok (snd s)"

lemma metrics_push_eq:
  assumes "metrics_ok (Suc n) m"
  shows "metrics_push dp m = (Ok (), \<lparr>num_pushed = num_pushed m + 1,
    storage = (storage m)[unat (num_pushed m) mod length (storage m) := dp]\<rparr>)"
proof -
  let ?l = "word_of_nat (length (storage m)) :: usize"
  have l: "unat ?l = length (storage m)" using assms by (simp add: metrics_ok_def unat_of_nat)
  then have "?l \<noteq> 0" using assms by (auto simp: metrics_ok_def)
  moreover have "unat (num_pushed m mod ?l) = unat (num_pushed m) mod length (storage m)" by (simp add: unat_mod_distrib l)
  moreover have "unat (num_pushed m) + unat (1 :: usize) < 2 ^ 64" using assms by (simp add: metrics_ok_def)
  ultimately show ?thesis by (simp add: metrics_push_def bind_s_def rem_u_def add_u_def)
qed

lemma metrics_push_ok:
  assumes "metrics_ok (Suc n) m"
  shows "metrics_ok n \<lparr>num_pushed = num_pushed m + 1, storage = (storage m)[i := dp]\<rparr>"
  using assms by (simp add: metrics_ok_def unat_add_no_overflow)

lemma measure_fn_ok:
  fixes func :: "('s, 'e, 'a) action"
  assumes "clock_ok c" "attempt func b = (Ok r, b')"
  shows "\<exists>dp c'. measure_fn op func (b, c) = (Ok (r, dp), b', c') \<and> clock_ok c' \<and> dp_operation dp = op"
proof -
  obtain a c1 where a: "absolute_start c = (Ok a :: ('e, nat) outcome, c1)" "clock_ok c1" "a \<le> ck_now c1 (ck_reads c1)"
  proof (cases "ck_absolute_start c")
    case None
    let ?c = "c\<lparr>ck_reads := Suc (ck_reads c), ck_absolute_start := Some (ck_now c (ck_reads c))\<rparr>"
    have "ck_now c (ck_reads c) \<le> ck_now c (Suc (ck_reads c))" using assms(1) by (simp add: clock_ok_def monoD)
    then show thesis using that [of "ck_now c (ck_reads c)" ?c] assms(1) None
      by (simp add: absolute_start_def instant_now_def bind_s_def clock_ok_def)
  next
    case (Some a)
    then show thesis using that [of a c] assms(1) by (simp add: absolute_start_def clock_ok_def)
  qed
  have m: "ck_now c1 i \<le> ck_now c1 j" if "i \<le> j" for i j using a(2) that by (simp add: clock_ok_def monoD)
  let ?c = "c1\<lparr>ck_reads := Suc (Suc (ck_reads c1))\<rparr>"
  have "clock_ok ?c"
    using a(2) order.trans [OF _ m [of "ck_reads c1" "Suc (Suc (ck_reads c1))"]] by (auto simp: clock_ok_def)
  then show ?thesis
    using a(1,3) assms(2) m [of "ck_reads c1" "Suc (ck_reads c1)"]
    by (simp add: measure_fn_def bind_s_def on_snd_def on_fst_def instant_now_def nanos_between_def)
qed

lemma measure_call_ok:
  assumes "metered_ok (Suc n) s" "func (me_inner (fst s)) = (Ok x, b')"
  shows "yields (measure_call op func) s x (\<lambda>s'. metered_ok n s' \<and> me_inner (fst s') = b' \<and>
    me_backend_name (fst s') = me_backend_name (fst s))"
proof -
  have "attempt func (me_inner (fst s)) = (Ok (Ok x), b')" by (simp add: attempt_def assms(2))
  then obtain dp c' where c: "measure_fn op func (me_inner (fst s), snd s) = (Ok (Ok x, dp), b', c')" "clock_ok c'"
    using measure_fn_ok [of "snd s" func "me_inner (fst s)" "Ok x" b' op] assms(1) by (auto simp: metered_ok_def)
  have p: "metrics_ok (Suc n) (me_metrics (fst s))" using assms(1) by (simp add: metered_ok_def)
  show ?thesis
    using c metrics_push_ok [OF p, of _ dp]
    by (simp add: yields_def measure_call_def bind_s_def on_inner_def on_metrics_def metered_ok_def metrics_push_eq [OF p])
qed

lemma metered_ok_mono: "metered_ok n s \<Longrightarrow> m \<le> n \<Longrightarrow> metered_ok m s"
  by (simp add: metered_ok_def metrics_ok_def)

text \<open>The frame of a metered state: that of the inner one, and the name of the backend.\<close>

definition metered_frame :: "('b \<Rightarrow> 'f) \<Rightarrow> 'b metered \<times> clock \<Rightarrow> 'f \<times> string" where
  "metered_frame frame s = (frame (me_inner (fst s)), me_backend_name (fst s))"

definition metered_inv :: "('b \<Rightarrow> bool) \<Rightarrow> nat \<Rightarrow> 'b metered \<times> clock \<Rightarrow> bool" where
  "metered_inv I n s \<longleftrightarrow> metered_ok n s \<and> I (me_inner (fst s))"

lemma metered_inv_mono: "metered_inv I n s \<Longrightarrow> m \<le> n \<Longrightarrow> metered_inv I m s"
  by (auto simp: metered_inv_def intro: metered_ok_mono)

lemma measured:
  assumes "metered_inv I (n + 2) s" "\<exists>b'. func (me_inner (fst s)) = (Ok x, b') \<and> I b' \<and> P b' \<and> frame b' = frame (me_inner (fst s))"
  shows "yields (measure_call op func) s x (\<lambda>s'. metered_inv I n s' \<and> P (me_inner (fst s')) \<and>
    metered_frame frame s' = metered_frame frame s)"
proof -
  have "metered_ok (Suc n) s" using assms(1) by (auto simp: metered_inv_def intro: metered_ok_mono)
  moreover obtain b' where b': "func (me_inner (fst s)) = (Ok x, b')" "I b'" "P b'" "frame b' = frame (me_inner (fst s))"
    using assms(2) by blast
  ultimately have "yields (measure_call op func) s x (\<lambda>s'. metered_ok n s' \<and> me_inner (fst s') = b' \<and>
      me_backend_name (fst s') = me_backend_name (fst s))"
    by (intro measure_call_ok)
  then show ?thesis by (rule yields_mono) (use b' in \<open>simp add: metered_inv_def metered_frame_def\<close>)
qed

lemma measured_read:
  assumes "metered_inv I (n + 2) s" "f (me_inner (fst s)) = Ok x"
  shows "yields (measure_call op (query f)) s x (\<lambda>s'. metered_inv I n s' \<and> me_inner (fst s') = me_inner (fst s) \<and>
    metered_frame frame s' = metered_frame frame s)"
  using measured [OF assms(1), of "query f" x "\<lambda>b. b = me_inner (fst s)" frame op] assms by (simp add: metered_inv_def)

section \<open>The contracts\<close>

lemma metered_value:
  assumes vs: "value_state H I val frame"
  shows "value_session (metered_value_calls H) (metered_inv I) 2 (\<lambda>s. val (me_inner (fst s))) (metered_frame frame)"
proof
  fix n m s v
  show "metered_inv I m s" if "metered_inv I n s" "m \<le> n" using that by (rule metered_inv_mono)
  assume s: "metered_inv I (n + 2) s"
  then have i: "I (me_inner (fst s))" by (simp add: metered_inv_def)
  note laws = value_state.vset [OF vs i, of v] value_state.vfast_set [OF vs i, of v] value_state.vclear [OF vs i]
  show "yields (vc_get (metered_value_calls H)) s (val (me_inner (fst s))) (\<lambda>b'. metered_inv I n b' \<and>
      val (me_inner (fst b')) = val (me_inner (fst s)) \<and> metered_frame frame b' = metered_frame frame s)"
    unfolding metered_value_calls_def value_calls.simps
    by (rule yields_mono [OF measured_read [OF s, where frame = frame]]) (auto simp: value_state.vget [OF vs i])
  show "yields (vc_set (metered_value_calls H) v) s (val (me_inner (fst s))) (\<lambda>b'. metered_inv I n b' \<and>
      val (me_inner (fst b')) = Some v \<and> metered_frame frame b' = metered_frame frame s)"
    unfolding metered_value_calls_def value_calls.simps by (rule measured [OF s]) (rule laws)
  show "yields (vc_fast_set (metered_value_calls H) v) s () (\<lambda>b'. metered_inv I n b' \<and>
      val (me_inner (fst b')) = Some v \<and> metered_frame frame b' = metered_frame frame s)"
    unfolding metered_value_calls_def value_calls.simps by (rule measured [OF s]) (rule laws)
  show "yields (vc_clear (metered_value_calls H)) s () (\<lambda>b'. metered_inv I n b' \<and>
      val (me_inner (fst b')) = None \<and> metered_frame frame b' = metered_frame frame s)"
    unfolding metered_value_calls_def value_calls.simps by (rule measured [OF s]) (rule laws)
qed

lemma metered_reducer:
  assumes rs: "reducer_state H f I red frame"
  shows "reducer_session (metered_reducer_calls H) f (metered_inv I) 2 (\<lambda>s. red (me_inner (fst s))) (metered_frame frame)"
proof
  fix n m s v
  show "metered_inv I m s" if "metered_inv I n s" "m \<le> n" using that by (rule metered_inv_mono)
  assume s: "metered_inv I (n + 2) s"
  then have i: "I (me_inner (fst s))" by (simp add: metered_inv_def)
  show "yields (rc_get (metered_reducer_calls H)) s (red (me_inner (fst s))) (\<lambda>b'. metered_inv I n b' \<and>
      red (me_inner (fst b')) = red (me_inner (fst s)) \<and> metered_frame frame b' = metered_frame frame s)"
    unfolding metered_reducer_calls_def reducer_calls.simps
    by (rule yields_mono [OF measured_read [OF s, where frame = frame]]) (auto simp: reducer_state.rget [OF rs i])
  show "yields (rc_reduce (metered_reducer_calls H) v) s () (\<lambda>b'. metered_inv I n b' \<and>
      red (me_inner (fst b')) = Some (case red (me_inner (fst s)) of None \<Rightarrow> v | Some old \<Rightarrow> f old v) \<and>
      metered_frame frame b' = metered_frame frame s)"
    unfolding metered_reducer_calls_def reducer_calls.simps by (rule measured [OF s]) (rule reducer_state.rreduce [OF rs i])
  show "yields (rc_clear (metered_reducer_calls H)) s () (\<lambda>b'. metered_inv I n b' \<and>
      red (me_inner (fst b')) = None \<and> metered_frame frame b' = metered_frame frame s)"
    unfolding metered_reducer_calls_def reducer_calls.simps by (rule measured [OF s]) (rule reducer_state.rclear [OF rs i])
qed

lemma metered_aggregator:
  assumes as: "aggregator_state H A I acc frame"
  shows "aggregator_session (metered_aggregator_calls H) A (metered_inv I) 2 (\<lambda>s. acc (me_inner (fst s))) (metered_frame frame)"
proof
  fix n m s v r
  show "metered_inv I m s" if "metered_inv I n s" "m \<le> n" using that by (rule metered_inv_mono)
  assume s: "metered_inv I (n + 2) s"
  then have i: "I (me_inner (fst s))" by (simp add: metered_inv_def)
  show "yields (ac_get (metered_aggregator_calls H)) s r (\<lambda>b'. metered_inv I n b' \<and>
      acc (me_inner (fst b')) = acc (me_inner (fst s)) \<and> metered_frame frame b' = metered_frame frame s)"
    if "accumulator_into_result A (acc (me_inner (fst s))) = Ok r"
    unfolding metered_aggregator_calls_def aggregator_calls.simps
    by (rule yields_mono [OF measured_read [OF s, where frame = frame]]) (auto simp: aggregator_state.aget [OF as i] that)
  show "yields (ac_aggregate (metered_aggregator_calls H) v) s () (\<lambda>b'. metered_inv I n b' \<and>
      acc (me_inner (fst b')) = agg_add A (acc (me_inner (fst s))) v \<and> metered_frame frame b' = metered_frame frame s)"
    unfolding metered_aggregator_calls_def aggregator_calls.simps
    by (rule measured [OF s]) (rule aggregator_state.aaggregate [OF as i])
  show "yields (ac_clear (metered_aggregator_calls H)) s () (\<lambda>b'. metered_inv I n b' \<and>
      acc (me_inner (fst b')) = create_accumulator A \<and> metered_frame frame b' = metered_frame frame s)"
    unfolding metered_aggregator_calls_def aggregator_calls.simps
    by (rule measured [OF s]) (rule aggregator_state.aclear [OF as i])
qed

text \<open>An iterator of items that are all there: one measurement for each, one for the end.\<close>

lemma measured_items_ok:
  fixes s :: "'b metered \<times> clock" and xs :: "'a list"
  shows "metered_inv I (n + Suc (length xs)) s \<Longrightarrow>
    yields (measured_items op (map Ok xs) :: ('b metered \<times> clock, arcon_state_error, 'a state_result list) action) s (map Ok xs)
      (\<lambda>s'. metered_inv I n s' \<and> me_inner (fst s') = me_inner (fst s) \<and> me_backend_name (fst s') = me_backend_name (fst s))"
proof (induction xs arbitrary: s)
  case Nil
  have "yields (measure_call op (return_s () :: ('b, arcon_state_error, unit) action)) s () (\<lambda>s'. metered_ok n s' \<and> me_inner (fst s') = me_inner (fst s) \<and>
      me_backend_name (fst s') = me_backend_name (fst s))"
    using Nil.prems by (intro measure_call_ok) (simp_all add: metered_inv_def)
  then show ?case
    unfolding list.map measured_items.simps by (rule yields_bind) (use Nil.prems in \<open>simp add: metered_inv_def\<close>)
next
  case (Cons x xs)
  have "yields (measure_call op (next_item (Ok x) :: ('b, arcon_state_error, 'a state_result) action)) s (Ok x) (\<lambda>s'. metered_ok (n + Suc (length xs)) s' \<and>
      me_inner (fst s') = me_inner (fst s) \<and> me_backend_name (fst s') = me_backend_name (fst s))"
    using Cons.prems by (intro measure_call_ok) (simp_all add: metered_inv_def)
  then show ?case
    unfolding list.map measured_items.simps
  proof (rule yields_bind)
    fix g
    assume g: "metered_ok (n + Suc (length xs)) g \<and> me_inner (fst g) = me_inner (fst s) \<and> me_backend_name (fst g) = me_backend_name (fst s)"
    then have "metered_inv I (n + Suc (length xs)) g" using Cons.prems by (simp add: metered_inv_def)
    from Cons.IH [OF this]
    show "yields (bind_s (measured_items op (map Ok xs) :: ('b metered \<times> clock, arcon_state_error, 'a state_result list) action)
        (\<lambda>ys. return_s (Ok x # ys))) g (Ok x # map Ok xs)
        (\<lambda>s'. metered_inv I n s' \<and> me_inner (fst s') = me_inner (fst s) \<and> me_backend_name (fst s') = me_backend_name (fst s))"
      by (rule yields_bind) (use g in simp)
  qed
qed

lemma measured_walk:
  fixes s :: "'b metered \<times> clock" and xs :: "'a list" and f :: "'b \<Rightarrow> ('a state_result list) state_result"
  assumes "metered_inv I (n + 2 * Suc (length xs)) s" "f (me_inner (fst s)) = Ok (map Ok xs)"
  shows "yields (bind_s (measure_call op (query f)) (measured_items op')) s (map Ok xs)
    (\<lambda>s'. metered_inv I n s' \<and> me_inner (fst s') = me_inner (fst s) \<and> metered_frame frame s' = metered_frame frame s)"
proof (rule yields_bind)
  show "yields (measure_call op (query f)) s (map Ok xs) (\<lambda>s'. metered_ok (n + Suc (length xs)) s' \<and>
      me_inner (fst s') = me_inner (fst s) \<and> me_backend_name (fst s') = me_backend_name (fst s))"
    by (rule measure_call_ok) (use assms metered_inv_mono [OF assms(1), of "Suc (n + Suc (length xs))"] in \<open>simp_all add: metered_inv_def\<close>)
  fix g
  assume g: "metered_ok (n + Suc (length xs)) g \<and> me_inner (fst g) = me_inner (fst s) \<and> me_backend_name (fst g) = me_backend_name (fst s)"
  then have "metered_inv I (n + Suc (length xs)) g" using assms(1) by (simp add: metered_inv_def)
  from measured_items_ok [OF this]
  show "yields (measured_items op' (map Ok xs) :: ('b metered \<times> clock, arcon_state_error, 'a state_result list) action) g (map Ok xs)
      (\<lambda>s'. metered_inv I n s' \<and> me_inner (fst s') = me_inner (fst s) \<and> metered_frame frame s' = metered_frame frame s)"
    by (rule yields_mono) (use g in \<open>simp add: metered_frame_def\<close>)
qed

lemma metered_vec:
  assumes es: "vec_state H I items frame"
  shows "vec_session (metered_vec_calls H) (metered_inv I) 2 (\<lambda>s. items (me_inner (fst s))) (metered_frame frame)"
proof
  fix n m s
  show "metered_inv I m s" if "metered_inv I n s" "m \<le> n" using that by (rule metered_inv_mono)
next
  fix n s
  assume s: "metered_inv I (n + 2 * Suc (length (items (me_inner (fst s))))) s"
  then have i: "I (me_inner (fst s))" by (simp add: metered_inv_def)
  show "yields (ec_iter (metered_vec_calls H)) s (map Ok (items (me_inner (fst s)))) (\<lambda>b'. metered_inv I n b' \<and>
      items (me_inner (fst b')) = items (me_inner (fst s)) \<and> metered_frame frame b' = metered_frame frame s)"
    unfolding metered_vec_calls_def vec_calls.simps metered_vec_iter_def
    by (rule yields_mono [OF measured_walk [where f = "ve_iter H" and frame = frame, OF s vec_state.eiter [OF es i]]]) auto
next
  fix n s v vs
  assume s: "metered_inv I (n + 2) s"
  then have i: "I (me_inner (fst s))" by (simp add: metered_inv_def)
  note read = yields_mono [OF measured_read [OF s, where frame = frame]]
  show "yields (ec_get (metered_vec_calls H)) s (items (me_inner (fst s))) (\<lambda>b'. metered_inv I n b' \<and>
      items (me_inner (fst b')) = items (me_inner (fst s)) \<and> metered_frame frame b' = metered_frame frame s)"
    "yields (ec_len (metered_vec_calls H)) s (length (items (me_inner (fst s)))) (\<lambda>b'. metered_inv I n b' \<and>
      items (me_inner (fst b')) = items (me_inner (fst s)) \<and> metered_frame frame b' = metered_frame frame s)"
    "yields (ec_is_empty (metered_vec_calls H)) s (items (me_inner (fst s)) = []) (\<lambda>b'. metered_inv I n b' \<and>
      items (me_inner (fst b')) = items (me_inner (fst s)) \<and> metered_frame frame b' = metered_frame frame s)"
    unfolding metered_vec_calls_def vec_calls.simps
    by (rule read; auto simp: vec_state.eget [OF es i] vec_state.elen [OF es i] vec_state.eis_empty [OF es i])+
  show "yields (ec_append (metered_vec_calls H) v) s () (\<lambda>b'. metered_inv I n b' \<and>
      items (me_inner (fst b')) = items (me_inner (fst s)) @ [v] \<and> metered_frame frame b' = metered_frame frame s)"
    unfolding metered_vec_calls_def vec_calls.simps by (rule measured [OF s]) (rule vec_state.eappend [OF es i])
  show "yields (ec_add_all (metered_vec_calls H) vs) s () (\<lambda>b'. metered_inv I n b' \<and>
      items (me_inner (fst b')) = items (me_inner (fst s)) @ vs \<and> metered_frame frame b' = metered_frame frame s)"
    unfolding metered_vec_calls_def vec_calls.simps by (rule measured [OF s]) (rule vec_state.eadd_all [OF es i])
  show "yields (ec_set (metered_vec_calls H) vs) s () (\<lambda>b'. metered_inv I n b' \<and>
      items (me_inner (fst b')) = vs \<and> metered_frame frame b' = metered_frame frame s)"
    unfolding metered_vec_calls_def vec_calls.simps by (rule measured [OF s]) (rule vec_state.eset [OF es i])
  show "yields (ec_clear (metered_vec_calls H)) s () (\<lambda>b'. metered_inv I n b' \<and>
      items (me_inner (fst b')) = [] \<and> metered_frame frame b' = metered_frame frame s)"
    unfolding metered_vec_calls_def vec_calls.simps by (rule measured [OF s]) (rule vec_state.eclear [OF es i])
qed

lemma metered_map:
  assumes ms: "map_state H I key_ok entries frame"
  shows "map_session (metered_map_calls H) (metered_inv I) 2 key_ok (\<lambda>_ _. True) (\<lambda>s. entries (me_inner (fst s)))
    (metered_frame frame)"
proof
  fix n m s
  show "metered_inv I m s" if "metered_inv I n s" "m \<le> n" using that by (rule metered_inv_mono)
next
  fix n s k v
  assume s: "metered_inv I (n + 2) s" and k: "key_ok k"
  then have i: "I (me_inner (fst s))" by (simp add: metered_inv_def)
  note read = yields_mono [OF measured_read [OF s, where frame = frame]]
  show "yields (mc_get (metered_map_calls H) k) s (entries (me_inner (fst s)) k) (\<lambda>b'. metered_inv I n b' \<and>
      entries (me_inner (fst b')) = entries (me_inner (fst s)) \<and> metered_frame frame b' = metered_frame frame s)"
    "yields (mc_contains (metered_map_calls H) k) s (entries (me_inner (fst s)) k \<noteq> None) (\<lambda>b'. metered_inv I n b' \<and>
      entries (me_inner (fst b')) = entries (me_inner (fst s)) \<and> metered_frame frame b' = metered_frame frame s)"
    unfolding metered_map_calls_def map_calls.simps
    by (rule read; auto simp: map_state.mget [OF ms i k] map_state.mcontains [OF ms i k])+
  show "yields (mc_insert (metered_map_calls H) k v) s (entries (me_inner (fst s)) k) (\<lambda>b'. metered_inv I n b' \<and>
      entries (me_inner (fst b')) = (entries (me_inner (fst s)))(k \<mapsto> v) \<and> metered_frame frame b' = metered_frame frame s)"
    unfolding metered_map_calls_def map_calls.simps by (rule measured [OF s]) (rule map_state.minsert [OF ms i k])
  show "yields (mc_fast_insert (metered_map_calls H) k v) s () (\<lambda>b'. metered_inv I n b' \<and>
      entries (me_inner (fst b')) = (entries (me_inner (fst s)))(k \<mapsto> v) \<and> metered_frame frame b' = metered_frame frame s)"
    unfolding metered_map_calls_def map_calls.simps by (rule measured [OF s]) (rule map_state.mfast_insert [OF ms i k])
  show "yields (mc_remove (metered_map_calls H) k) s (entries (me_inner (fst s)) k) (\<lambda>b'. metered_inv I n b' \<and>
      entries (me_inner (fst b')) = (entries (me_inner (fst s)))(k := None) \<and> metered_frame frame b' = metered_frame frame s)"
    unfolding metered_map_calls_def map_calls.simps by (rule measured [OF s]) (rule map_state.mremove [OF ms i k])
  show "yields (mc_fast_remove (metered_map_calls H) k) s () (\<lambda>b'. metered_inv I n b' \<and>
      entries (me_inner (fst b')) = (entries (me_inner (fst s)))(k := None) \<and> metered_frame frame b' = metered_frame frame s)"
    unfolding metered_map_calls_def map_calls.simps by (rule measured [OF s]) (rule map_state.mfast_remove [OF ms i k])
next
  fix n s and kvs :: "('b \<times> 'c) list"
  assume s: "metered_inv I (n + 2 * Suc (length kvs)) s" and k: "list_all (\<lambda>p. key_ok (fst p)) kvs"
  then have i: "I (me_inner (fst s))" by (simp add: metered_inv_def)
  have s2: "metered_inv I (n + 2) s" using s by (rule metered_inv_mono) simp
  show "yields (mc_insert_all (metered_map_calls H) kvs) s () (\<lambda>b'. metered_inv I n b' \<and>
      entries (me_inner (fst b')) = entries (me_inner (fst s)) ++ map_of (rev kvs) \<and> metered_frame frame b' = metered_frame frame s)"
    unfolding metered_map_calls_def map_calls.simps by (rule measured [OF s2]) (rule map_state.minsert_all [OF ms i k])
qed

lemma card_dom_map_of: "distinct (map fst kvs) \<Longrightarrow> card (dom (map_of kvs)) = length kvs"
  using distinct_card [of "map fst kvs"] by (simp add: dom_map_of_conv_image_fst)

lemma metered_map_walk:
  fixes H :: "('b, 'k, 'v) map_ops"
  assumes ms: "map_state H I key_ok entries frame"
  shows "map_walk_session (metered_map_calls H) (metered_inv I) 2 key_ok (\<lambda>_ _. True) (\<lambda>s. entries (me_inner (fst s)))
    (metered_frame frame)"
proof (rule map_walk_session.intro [OF metered_map [OF ms]], unfold_locales)
  fix n and s :: "'b metered \<times> clock"
  show "finite (dom (entries (me_inner (fst s))))" if "metered_inv I n s"
    using that map_state.mlen [OF ms] by (auto simp: metered_inv_def)
next
  fix n and s :: "'b metered \<times> clock"
  assume s: "metered_inv I (n + 2 * Suc (card (dom (entries (me_inner (fst s)))))) s"
  then have i: "I (me_inner (fst s))" by (simp add: metered_inv_def)
  have s2: "metered_inv I (n + 2) s" using s by (rule metered_inv_mono) simp
  show "yields (mc_clear (metered_map_calls H)) s () (\<lambda>b'. metered_inv I n b' \<and>
      entries (me_inner (fst b')) = Map.empty \<and> metered_frame frame b' = metered_frame frame s)"
    unfolding metered_map_calls_def map_calls.simps by (rule measured [OF s2]) (rule map_state.mclear [OF ms i])
  let ?kept = "\<lambda>b'. metered_inv I n b' \<and> entries (me_inner (fst b')) = entries (me_inner (fst s)) \<and>
      metered_frame frame b' = metered_frame frame s"
  have walk: "yields (bind_s (measure_call op (query f)) (measured_items op')) s (map Ok xs) ?kept"
    if "f (me_inner (fst s)) = Ok (map Ok xs)" "length xs = card (dom (entries (me_inner (fst s))))"
    for f :: "'b \<Rightarrow> ('x state_result list) state_result" and xs :: "'x list" and op op'
    using that s by (intro yields_mono [OF measured_walk [where frame = frame]]) auto
  obtain kvs where kvs: "mo_iter H (me_inner (fst s)) = Ok (map Ok kvs)" "distinct (map fst kvs)"
      "map_of kvs = entries (me_inner (fst s))"
    using map_state.miter [OF ms i] by blast
  have l: "length kvs = card (dom (entries (me_inner (fst s))))" using card_dom_map_of [OF kvs(2)] kvs(3) by simp
  show "\<exists>kvs. yields (mc_iter (metered_map_calls H)) s (map Ok kvs) ?kept \<and> distinct (map fst kvs) \<and>
      map_of kvs = entries (me_inner (fst s))"
    using walk [of "mo_iter H", OF kvs(1) l] kvs(2,3) by (auto simp: metered_map_calls_def metered_map_iter_def)
  obtain ks where ks: "mo_keys H (me_inner (fst s)) = Ok (map Ok ks)" "distinct ks" "set ks = dom (entries (me_inner (fst s)))"
    using map_state.mkeys [OF ms i] by blast
  have l: "length ks = card (dom (entries (me_inner (fst s))))" using distinct_card [OF ks(2)] ks(3) by simp
  show "\<exists>ks. yields (mc_keys (metered_map_calls H)) s (map Ok ks) ?kept \<and> distinct ks \<and> set ks = dom (entries (me_inner (fst s)))"
    using walk [of "mo_keys H", OF ks(1) l] ks(2,3) by (auto simp: metered_map_calls_def metered_map_keys_def)
  obtain vs where vs: "mo_values H (me_inner (fst s)) = Ok (map Ok vs)" "length vs = card (dom (entries (me_inner (fst s))))"
      "set vs = ran (entries (me_inner (fst s)))"
    using map_state.mvalues [OF ms i] by blast
  show "\<exists>vs. yields (mc_values (metered_map_calls H)) s (map Ok vs) ?kept \<and> set vs = ran (entries (me_inner (fst s)))"
    using walk [of "mo_values H", OF vs(1,2)] vs(3) by (auto simp: metered_map_calls_def metered_map_values_def)
next
  fix n and s :: "'b metered \<times> clock"
  assume s: "metered_inv I (n + 2) s"
  then have i: "I (me_inner (fst s))" by (simp add: metered_inv_def)
  note read = yields_mono [OF measured_read [OF s, where frame = frame]]
  show "yields (mc_len (metered_map_calls H)) s (card (dom (entries (me_inner (fst s))))) (\<lambda>b'. metered_inv I n b' \<and>
      entries (me_inner (fst b')) = entries (me_inner (fst s)) \<and> metered_frame frame b' = metered_frame frame s)"
    "yields (mc_is_empty (metered_map_calls H)) s (entries (me_inner (fst s)) = Map.empty) (\<lambda>b'. metered_inv I n b' \<and>
      entries (me_inner (fst b')) = entries (me_inner (fst s)) \<and> metered_frame frame b' = metered_frame frame s)"
    unfolding metered_map_calls_def map_calls.simps
    by (rule read; auto simp: map_state.mlen [OF ms i] map_state.mis_empty [OF ms i])+
qed

section \<open>Data points and their summary\<close>

fun push_all :: "data_point list \<Rightarrow> (metrics, 'e, unit) action" where
  "push_all [] = return_s ()"
| "push_all (dp # dps) = bind_s (metrics_push dp) (\<lambda>_. push_all dps)"

text \<open>\<open>holds_latest cap dps m\<close>: after \<open>dps\<close> were pushed, the slots of the ring hold the latest \<open>cap\<close> of them.\<close>

definition holds_latest :: "nat \<Rightarrow> data_point list \<Rightarrow> metrics \<Rightarrow> bool" where
  "holds_latest cap dps m \<longleftrightarrow> length (storage m) = cap \<and> unat (num_pushed m) = length dps \<and>
     (\<forall>i < length dps. length dps \<le> i + cap \<longrightarrow> storage m ! (i mod cap) = dps ! i) \<and>
     mset (metrics_deref m) = mset (drop (length dps - cap) dps)"

lemma holds_latest_new: "holds_latest cap [] (metrics_new cap)"
  by (simp add: holds_latest_def metrics_new_def metrics_deref_def)

lemma mod_window:
  assumes "i mod cap = l mod cap" "i \<le> l" "l < i + cap" "0 < cap"
  shows "i = (l :: nat)"
proof -
  have "cap dvd l - i" using assms(1,2) by (metis mod_eq_dvd_iff_nat)
  then show ?thesis using assms(2-4) by (auto dest: dvd_imp_le)
qed

lemma holds_latest_push:
  assumes m: "holds_latest cap dps m" and cap: "0 < cap" "cap < 2 ^ 64" and l: "Suc (length dps) < 2 ^ 64"
  obtains m' where "metrics_push dp m = (Ok (), m')" "holds_latest cap (dps @ [dp]) m'"
proof
  let ?l = "length dps" and ?m = "\<lparr>num_pushed = num_pushed m + 1, storage = (storage m)[length dps mod cap := dp]\<rparr>"
  have len: "length (storage m) = cap" "unat (num_pushed m) = ?l" using m by (simp_all add: holds_latest_def)
  then have ok: "metrics_ok (Suc 0) m" using cap l by (auto simp: metrics_ok_def)
  show "metrics_push dp m = (Ok (), ?m)" by (simp add: metrics_push_eq [OF ok] len)
  have n: "unat (num_pushed ?m) = Suc ?l" using len l by (simp add: unat_add_no_overflow)
  have at: "storage ?m ! (i mod cap) = (dps @ [dp]) ! i" if "i < Suc ?l" "Suc ?l \<le> i + cap" for i
  proof (cases "i = ?l")
    case False
    then have "i mod cap \<noteq> ?l mod cap" using mod_window [of i cap ?l] that cap by linarith
    then show ?thesis using m that False by (auto simp: holds_latest_def nth_append)
  qed (use len cap in simp)
  have "mset (metrics_deref ?m) = mset (drop (Suc ?l - cap) (dps @ [dp]))"
  proof (cases "?l < cap")
    case True
    then have "mset (take ?l (storage m)) = mset dps" using m len by (simp add: holds_latest_def metrics_deref_def)
    then show ?thesis using True len n by (simp add: metrics_deref_def take_Suc_conv_app_nth take_update_cancel)
  next
    case False
    then have full: "mset (storage m) = mset (drop (?l - cap) dps)"
      using m len by (auto simp: holds_latest_def metrics_deref_def split: if_splits)
    have old: "storage m ! (?l mod cap) = dps ! (?l - cap)"
      using m False cap by (auto simp: holds_latest_def le_mod_geq)
    have "drop (?l - cap) dps = dps ! (?l - cap) # drop (Suc ?l - cap) dps"
      using False cap by (simp add: Cons_nth_drop_Suc Suc_diff_le)
    then have "mset (storage m) - {#dps ! (?l - cap)#} = mset (drop (Suc ?l - cap) dps)" by (simp add: full)
    then show ?thesis using False len n cap by (simp add: metrics_deref_def mset_update old)
  qed
  then show "holds_latest cap (dps @ [dp]) ?m" using len n at by (simp add: holds_latest_def)
qed

lemma push_all_latest:
  assumes "holds_latest cap pre m" "0 < cap" "cap < 2 ^ 64" "length pre + length dps < 2 ^ 64"
  shows "yields (push_all dps :: (metrics, 'e, unit) action) m () (holds_latest cap (pre @ dps))"
  using assms(1,4)
proof (induction dps arbitrary: pre m)
  case (Cons dp dps)
  then obtain m' where "metrics_push dp m = (Ok () :: ('e, unit) outcome, m')" "holds_latest cap (pre @ [dp]) m'"
    using holds_latest_push [OF Cons.prems(1) assms(2,3), of dp] by auto
  moreover from this have "yields (push_all dps :: (metrics, 'e, unit) action) m' () (holds_latest cap ((pre @ [dp]) @ dps))"
    using Cons by (intro Cons.IH) simp_all
  ultimately show ?case by (auto simp: yields_def)
qed simp

text \<open>\<open>durations op dps\<close>: what \<open>op\<close> took each time; \<open>summarises ds s\<close>: \<open>s\<close> is a summary of these durations.\<close>

definition durations :: "string \<Rightarrow> data_point list \<Rightarrow> nat list" where
  "durations op dps = map (\<lambda>dp. unat (dp_duration dp)) (filter (\<lambda>dp. dp_operation dp = op) dps)"

definition summarises :: "nat list \<Rightarrow> summary option \<Rightarrow> bool" where
  "summarises ds s \<longleftrightarrow>
     (case s of
        None \<Rightarrow> ds = []
      | Some s \<Rightarrow> ds \<noteq> [] \<and> unat (su_count s) = length ds \<and> unat (su_min s) = Min (set ds) \<and>
          unat (su_max s) = Max (set ds) \<and> su_min s \<le> su_avg s \<and> su_avg s \<le> su_max s \<and>
          unat (su_avg s) * length ds \<le> sum_list ds)"

text \<open>The average of an integer mean and one more duration.\<close>

lemma mean_step:
  fixes a n d :: nat
  defines "x \<equiv> (a * n + d) div Suc n"
  shows "l \<le> a \<or> n = 0 \<Longrightarrow> l \<le> d \<Longrightarrow> l \<le> x" "a \<le> u \<or> n = 0 \<Longrightarrow> d \<le> u \<Longrightarrow> x \<le> u" "x * Suc n \<le> a * n + d"
proof -
  show "x * Suc n \<le> a * n + d" unfolding x_def by (rule div_times_less_eq_dividend)
  assume "l \<le> a \<or> n = 0" "l \<le> d"
  then have "l * n \<le> a * n" by auto
  then have "l * Suc n \<le> a * n + d" using \<open>l \<le> d\<close> by (simp add: add.commute add_mono)
  then show "l \<le> x" unfolding x_def by (simp add: less_eq_div_iff_mult_less_eq)
next
  assume "a \<le> u \<or> n = 0" "d \<le> u"
  then have "a * n \<le> u * n" by auto
  then have "a * n + d \<le> u * Suc n" using \<open>d \<le> u\<close> by (simp only: mult_Suc_right)
  then have "x \<le> (u * Suc n) div Suc n" unfolding x_def by (rule div_le_mono)
  then show "x \<le> u" by (simp del: mult_Suc_right)
qed

lemma summary_add_ok:
  assumes s: "summarises ds s" and fits: "sum_list ds + unat d < 2 ^ 64" "Suc (length ds) < 2 ^ 64"
  obtains t where "summary_add d (case s of None \<Rightarrow> summary_new | Some s \<Rightarrow> s) = Ok t" "summarises (ds @ [unat d]) (Some t)"
proof -
  define c where "c = (case s of None \<Rightarrow> summary_new | Some s \<Rightarrow> s)"
  have c: "unat (su_count c) = length ds" "unat (su_avg c) * length ds \<le> sum_list ds"
    "ds \<noteq> [] \<Longrightarrow> unat (su_min c) = Min (set ds) \<and> unat (su_max c) = Max (set ds) \<and> su_min c \<le> su_avg c \<and> su_avg c \<le> su_max c"
    "ds = [] \<Longrightarrow> c = summary_new"
    using s by (auto simp: summarises_def c_def summary_new_def split: option.splits)
  let ?x = "su_avg c * su_count c" and ?n = "su_count c + 1"
  have x: "unat ?x = unat (su_avg c) * length ds" using c(1,2) fits(1) by (simp add: unat_mult_lem [THEN iffD1])
  have xd: "unat (?x + d) = unat (su_avg c) * length ds + unat d" using x c(2) fits(1) by (simp add: unat_add_no_overflow)
  have n: "unat ?n = Suc (length ds)" using c(1) fits(2) by (simp add: unat_add_no_overflow)
  then have n0: "?n \<noteq> 0" by (metis Zero_not_Suc unat_0)
  let ?t = "\<lparr>su_count = ?n, su_min = min (su_min c) d, su_avg = (?x + d) div ?n, su_max = max (su_max c) d\<rparr>"
  have "summary_add d c = Ok ?t"
    using x xd c(1,2) fits n n0 by (simp add: summary_add_def Let_def mul_u_def add_u_def div_u_def)
  moreover have "summarises (ds @ [unat d]) (Some ?t)"
  proof -
    have unat_bounds: "unat (min (su_min c) d) = min (unat (su_min c)) (unat d)" "unat (max (su_max c) d) = max (unat (su_max c)) (unat d)"
      by (simp_all add: min_def max_def word_le_nat_alt)
    have bounds: "min (unat (su_min c)) (unat d) = Min (set (ds @ [unat d])) \<and> max (unat (su_max c)) (unat d) = Max (set (ds @ [unat d]))"
    proof (cases "ds = []")
      case True
      then have "su_min c = - 1" "su_max c = 0" using c(4) by (simp_all add: summary_new_def)
      moreover have "unat d \<le> unat (- 1 :: u64)" by (simp flip: word_le_nat_alt add: word_order.extremum)
      ultimately show ?thesis using True by simp
    next
      case False
      then show ?thesis using c(3) by (simp add: min.commute max.commute)
    qed
    have avg: "unat (su_avg ?t) = (unat (su_avg c) * length ds + unat d) div Suc (length ds)"
      using xd n by (simp add: unat_div_distrib)
    have "unat (min (su_min c) d) \<le> unat (su_avg ?t)" "unat (su_avg ?t) \<le> unat (max (su_max c) d)"
      unfolding avg unat_bounds by (rule mean_step; use c(3) in \<open>auto simp: word_le_nat_alt\<close>)+
    moreover have "unat (su_avg ?t) * Suc (length ds) \<le> sum_list ds + unat d"
      unfolding avg using mean_step(3) [of "unat (su_avg c)" "length ds" "unat d"] c(2) by linarith
    ultimately show ?thesis using bounds n by (simp add: summarises_def word_le_nat_alt unat_bounds)
  qed
  ultimately show thesis using that by (simp add: c_def)
qed

lemma durations_simps [simp]:
  "durations op [] = []" "durations op (dps @ [dp]) = durations op dps @ (if dp_operation dp = op then [unat (dp_duration dp)] else [])"
  by (simp_all add: durations_def)

lemma durations_fit: "sum_list (durations op dps) \<le> (\<Sum>dp\<leftarrow>dps. unat (dp_duration dp))" "length (durations op dps) \<le> length dps"
  by (induction dps) (auto simp: durations_def intro: le_SucI)

lemma metrics_summary_ok:
  assumes "\<forall>op. summarises (durations op pre) (acc op)"
    and "(\<Sum>dp\<leftarrow>pre @ dps. unat (dp_duration dp)) < 2 ^ 64" "length (pre @ dps) < 2 ^ 64"
  shows "\<exists>acc'. metrics_summary acc dps = (Ok acc' :: ('e, string \<rightharpoonup> summary) outcome) \<and> (\<forall>op. summarises (durations op (pre @ dps)) (acc' op))"
  using assms
proof (induction dps arbitrary: pre acc)
  case (Cons dp dps)
  let ?op = "dp_operation dp"
  have "sum_list (durations ?op pre) + unat (dp_duration dp) < 2 ^ 64" "Suc (length (durations ?op pre)) < 2 ^ 64"
    using durations_fit [of ?op pre] Cons.prems(2,3) by simp_all
  then obtain t where t: "summary_add (dp_duration dp) (case acc ?op of None \<Rightarrow> summary_new | Some s \<Rightarrow> s) = (Ok t :: ('e, summary) outcome)"
      "summarises (durations ?op pre @ [unat (dp_duration dp)]) (Some t)"
    using summary_add_ok Cons.prems(1) by metis
  have "\<forall>op. summarises (durations op (pre @ [dp])) ((acc(?op \<mapsto> t)) op)" using Cons.prems(1) t(2) by simp
  then obtain acc' where "metrics_summary (acc(?op \<mapsto> t)) dps = (Ok acc' :: ('e, string \<rightharpoonup> summary) outcome)"
      "\<forall>op. summarises (durations op ((pre @ [dp]) @ dps)) (acc' op)"
    using Cons.IH [of "pre @ [dp]" "acc(?op \<mapsto> t)"] Cons.prems(2,3) by (simp only: append_assoc append.simps) blast
  then show ?case unfolding metrics_summary.simps t(1) bind_o.simps by (simp only: append_assoc append.simps) blast
qed simp

section \<open>Properties\<close>

lemma summarised: "(\<Sum>dp\<leftarrow>dps. unat (dp_duration dp)) < 2 ^ 64 \<Longrightarrow> length dps < 2 ^ 64 \<Longrightarrow>
    \<exists>acc. metrics_summary Map.empty dps = Ok acc \<and> (\<forall>op. summarises (durations op dps) (acc op))"
  using metrics_summary_ok [of "[]" Map.empty dps] by (simp add: summarises_def)

text \<open>The metrics keep the latest data points. After any number of measurements (short of overflowing
  the counter), a ring of \<open>cap\<close> slots holds exactly the last \<open>cap\<close> of them, and the summary of what it holds
  counts every operation exactly, with its shortest and its longest duration, and an average between them,
  as long as the durations add up to less than \<open>2 ^ 64\<close> nanoseconds.\<close>

theorem metered_metrics_latest:
  assumes "0 < cap" "cap < 2 ^ 64" "length dps < 2 ^ 64"
  shows "yields (push_all dps) (metrics_new cap) () (\<lambda>m.
    mset (metrics_deref m) = mset (drop (length dps - cap) dps) \<and>
    ((\<Sum>dp\<leftarrow>metrics_deref m. unat (dp_duration dp)) < 2 ^ 64 \<longrightarrow>
      (\<exists>acc. metrics_summary Map.empty (metrics_deref m) = Ok acc \<and>
        (\<forall>op. summarises (durations op (metrics_deref m)) (acc op)))))"
proof -
  have "yields (push_all dps) (metrics_new cap) () (holds_latest cap dps)"
    using push_all_latest [OF holds_latest_new assms(1,2), of dps] assms(3) by simp
  then show ?thesis
  proof (rule yields_mono)
    fix m
    assume "holds_latest cap dps m"
    then have m: "mset (metrics_deref m) = mset (drop (length dps - cap) dps)" by (simp add: holds_latest_def)
    from mset_eq_length [OF this] have "length (metrics_deref m) < 2 ^ 64" using assms(3) by simp
    then show "mset (metrics_deref m) = mset (drop (length dps - cap) dps) \<and>
      ((\<Sum>dp\<leftarrow>metrics_deref m. unat (dp_duration dp)) < 2 ^ 64 \<longrightarrow>
        (\<exists>acc. metrics_summary Map.empty (metrics_deref m) = Ok acc \<and>
          (\<forall>op. summarises (durations op (metrics_deref m)) (acc op))))"
      using m summarised by blast
  qed
qed

definition three_points :: "data_point list" where
  "three_points = [\<lparr>dp_operation = ''get'', dp_start = 0, dp_duration = 7\<rparr>,
     \<lparr>dp_operation = ''get'', dp_start = 9, dp_duration = 2\<rparr>, \<lparr>dp_operation = ''set'', dp_start = 20, dp_duration = 5\<rparr>]"

theorem metered_metrics_latest_witness:
  "(\<exists>m. push_all three_points (metrics_new 2) = (Ok () :: (arcon_state_error, unit) outcome, m) \<and>
     mset (metrics_deref m) = mset (tl three_points))"
  using metered_metrics_latest [of 2 three_points]
  by (auto simp: yields_def three_points_def)

lemma metered_create_ok:
  fixes b_create :: "('w, 'e, 'b) action"
  assumes "clock_ok c" "b_create w = (Ok b, w')" "I b" "0 < cap" "cap < 2 ^ 64"
  shows "\<exists>m c'. metered_create (Some cap) name b_create (w, c) = (Ok m, w', c') \<and> metered_inv I (2 ^ 64 - 2) (m, c') \<and>
    me_inner m = b \<and> me_backend_name m = name"
proof -
  have "attempt b_create w = (Ok (Ok b), w')" by (simp add: attempt_def assms(2))
  then obtain dp c' where c': "measure_fn ''Backend::create'' b_create (w, c) = (Ok (Ok b, dp), w', c')" "clock_ok c'"
    using measure_fn_ok [OF assms(1), of b_create w "Ok b" w' "''Backend::create''"] by blast
  have n: "metrics_ok (Suc (2 ^ 64 - 2)) (metrics_new cap)" using assms(4,5) by (simp add: metrics_ok_def metrics_new_def)
  show ?thesis
    using c' assms(3) metrics_push_ok [OF n, of _ dp]
    by (simp add: metered_create_def bind_s_def new_from_initial_measurement_def metrics_push_eq [OF n]
        metered_inv_def metered_ok_def del: One_nat_def)
qed

text \<open>C37: A metered backend answers like the backend it wraps. Over handles whose operations meet the
  contracts of value, map, vector, reducer and aggregator state, the metered operations meet the
  contracts of calls that change the backend: the same results on the same contents, iterators included,
  at the price of at most two measurements for each call and each item, as long as the counter of data
  points does not overflow. A metered backend just created over a backend that satisfies the invariant
  starts with all but one of the \<open>2 ^ 64\<close> measurements left.\<close>

theorem metered_states_refine:
  assumes "value_state HV IV val fv" "map_state HM IM key_ok entries fm" "vec_state HE IE items fe"
    and "reducer_state HR f IR red fr" "aggregator_state HA A IA acc fa"
    and "clock_ok c" "b_create w = (Ok b, w')" "I b" "0 < cap" "cap < 2 ^ 64"
  shows "value_session (metered_value_calls HV) (metered_inv IV) 2 (\<lambda>s. val (me_inner (fst s))) (metered_frame fv) \<and>
    map_walk_session (metered_map_calls HM) (metered_inv IM) 2 key_ok (\<lambda>_ _. True)
      (\<lambda>s. entries (me_inner (fst s))) (metered_frame fm) \<and>
    vec_session (metered_vec_calls HE) (metered_inv IE) 2 (\<lambda>s. items (me_inner (fst s))) (metered_frame fe) \<and>
    reducer_session (metered_reducer_calls HR) f (metered_inv IR) 2 (\<lambda>s. red (me_inner (fst s))) (metered_frame fr) \<and>
    aggregator_session (metered_aggregator_calls HA) A (metered_inv IA) 2 (\<lambda>s. acc (me_inner (fst s))) (metered_frame fa) \<and>
    (\<exists>m c'. metered_create (Some cap) name b_create (w, c) = (Ok m, w', c') \<and> metered_inv I (2 ^ 64 - 2) (m, c') \<and>
      me_inner m = b \<and> me_backend_name m = name)"
  using metered_value [OF assms(1)] metered_map_walk [OF assms(2)] metered_vec [OF assms(3)] metered_reducer [OF assms(4)]
    metered_aggregator [OF assms(5)] metered_create_ok [of c b_create w b w' I, OF assms(6-10)]
  by blast

theorem metered_states_refine_witness:
  "value_session (metered_value_calls (im_value_ops unit_fb unit_fb u64_any (value_handle ''epoch'')))
     (metered_inv (typed_state (metakey_layout (\<lambda>_ :: unit. []) (\<lambda>_. True) (\<lambda>_ :: unit. []) (\<lambda>_. True)) u64_any ''epoch''))
     2 (\<lambda>s. cell_content u64_any ''epoch'' [] (me_inner (fst s))) (metered_frame (im_frame ''epoch'' (\<lambda>k. k = []))) \<and>
   (\<exists>m c'. metered_create (Some 4) ''InMemory'' (\<lambda>w :: unit. (Ok (im_create :: any_value in_memory), w))
      ((), \<lparr>ck_now = (\<lambda>i. 10 * i), ck_reads = 0, ck_absolute_start = None\<rparr>)
    = (Ok m :: (arcon_state_error, any_value in_memory metered) outcome, (), c') \<and>
    metered_inv (\<lambda>b. b = im_create) (2 ^ 64 - 2) (m, c'))"
proof -
  have c: "clock_ok \<lparr>ck_now = (\<lambda>i. 10 * i), ck_reads = 0, ck_absolute_start = None\<rparr>" by (simp add: clock_ok_def mono_def)
  show ?thesis
    using metered_states_refine [OF
        value_cell_refines [OF mk0.metakeys_axioms any_laws(1), of "value_handle ''epoch''"]
        keyed_map.refines_map [of 3 "''m''"]
        vec_cell_refines [OF mk0.metakeys_axioms any_laws(2), of "vec_handle ''buffer''"]
        reducer_cell_refines [OF mk0.metakeys_axioms any_laws(1), of "reducer_handle ''sum'' word_sum"]
        aggregator_cell_refines [OF mk0.metakeys_axioms any_laws(2), of "aggregator_handle ''agg'' log_agg"] c,
        of "\<lambda>w :: unit. (Ok im_create :: (arcon_state_error, any_value in_memory) outcome, w)" "()" im_create "()"
          "\<lambda>b. b = im_create" 4 "''InMemory''"]
    by (auto simp: handle_key_def value_handle_def no_extra_def)
qed

end
