(* ===== verification/Kafka_Source.thy ===== *)
theory Kafka_Source
  imports Source_Laws
begin

text \<open>
  Model of \<^verbatim>\<open>src/stream/source/kafka.rs\<close>: a source that reads batches from a Kafka consumer, gives an epoch
  to every batch, and commits its offset. The consumer is a third-party client: \<open>kafka_api\<close> holds the
  methods of it that the source calls. A fetch is one item of the stream of messages, \<open>None\<close> when the stream
  has ended, an error as \<open>Inl\<close>. The source logs errors of the client and goes on.
\<close>

section \<open>Model\<close>

text \<open>A message as the source sees it: the bytes of its payload, its time in milliseconds and its offset,
  both signed 64-bit numbers.\<close>

type_synonym i64 = "64 word"

definition add_s :: "i64 \<Rightarrow> i64 \<Rightarrow> ('e, i64) outcome" where
  "add_s a b = (if sint (a + b) = sint a + sint b then Ok (a + b) else Panic ''attempt to add with overflow'')"

record kafka_message =
  km_payload :: "bytes option"
  km_millis :: "i64 option"
  km_offset :: i64

record ('k, 'p, 'f) kafka_api =
  ka_next :: "'k \<Rightarrow> (string + kafka_message) option \<times> 'k"
  ka_from_raw :: "i64 \<Rightarrow> 'f"
  ka_subscribe :: "string list \<Rightarrow> 'k \<Rightarrow> bool \<times> 'k"
  ka_assignment :: "'k \<Rightarrow> 'p option"
  ka_set_all_offsets :: "'f \<Rightarrow> 'p \<Rightarrow> 'p"
  ka_commit :: "'p \<Rightarrow> 'k \<Rightarrow> bool \<times> 'k"

text \<open>\<open>ks_scheduled\<close>: the calls of \<^verbatim>\<open>receive\<close> that are scheduled and have not run.\<close>

record ('c, 'k, 'f) kafka_source =
  ks_channel_strategy :: 'c
  ks_bootstrap_server :: string
  ks_topic :: string
  ks_offset :: 'f
  ks_max_timestamp :: u64
  ks_batch_size :: u32
  ks_consumer :: 'k
  ks_id :: node_id
  ks_epoch :: u64
  ks_commit_epoch :: "u64 option"
  ks_epoch_offset :: "u64 \<rightharpoonup> 'f"
  ks_increment_epoch :: bool
  ks_scheduled :: nat

type_synonym ('c, 'k, 'f, 'a) kafka_action = "(('c, 'k, 'f) kafka_source, arcon_error, 'a) action"

text \<open>\<open>created\<close>: the result of creating a client with the configuration of the server.\<close>

definition kafka_source_new ::
    "('k, 'p, 'f) kafka_api \<Rightarrow> 'k option \<Rightarrow> 'c \<Rightarrow> string \<Rightarrow> string \<Rightarrow> i64 \<Rightarrow> node_id
      \<Rightarrow> (arcon_error, ('c, 'k, 'f) kafka_source) outcome" where
  "kafka_source_new K created channel_strategy bootstrap_server topic offset i =
     (case created of
        Some consumer \<Rightarrow>
          (case ka_subscribe K [topic] consumer of (subscribed, consumer) \<Rightarrow>
             if \<not> subscribed then Panic ''KafkaSource unable to subscribe to topic''
             else Ok \<lparr>ks_channel_strategy = channel_strategy, ks_bootstrap_server = bootstrap_server,
               ks_topic = topic, ks_offset = ka_from_raw K offset, ks_max_timestamp = 0, ks_batch_size = 100,
               ks_consumer = consumer, ks_id = i, ks_epoch = 0, ks_commit_epoch = None,
               ks_epoch_offset = Map.empty, ks_increment_epoch = False, ks_scheduled = 0\<rparr>)
      | None \<Rightarrow> Panic ''Failed to start KafkaSource'')"

definition kafka_add :: "('c, 'o) add_event \<Rightarrow> 'o arcon_event \<Rightarrow> ('c, 'k, 'f, unit) kafka_action" where
  "kafka_add add event s =
     (case add event (ks_channel_strategy s) of (r, c) \<Rightarrow> (r, s\<lparr>ks_channel_strategy := c\<rparr>))"

definition output_event ::
    "('c, 'o) add_event \<Rightarrow> 'o \<Rightarrow> u64 option \<Rightarrow> ('c, 'k, 'f, unit) kafka_action" where
  "output_event add d ts =
     (case ts of
        Some time \<Rightarrow> kafka_add add (ElementEv (element_with_timestamp d time))
      | None \<Rightarrow> kafka_add add (ElementEv (element_new d)))"

definition output_watermark :: "('c, 'o) add_event \<Rightarrow> ('c, 'k, 'f, unit) kafka_action" where
  "output_watermark add s = kafka_add add (WatermarkEv (watermark_new (ks_max_timestamp s))) s"

definition commit_epoch :: "('k, 'p, 'f) kafka_api \<Rightarrow> u64 \<Rightarrow> ('c, 'k, 'f, unit) kafka_action" where
  "commit_epoch K epoch s =
     (case ks_epoch_offset s epoch of
        Some commit_offset \<Rightarrow>
          (case ka_assignment K (ks_consumer s) of
             Some borrowed_tpl \<Rightarrow>
               (let tpl = ka_set_all_offsets K commit_offset borrowed_tpl in
                (Ok (), s\<lparr>ks_consumer := snd (ka_commit K tpl (ks_consumer s))\<rparr>))
           | None \<Rightarrow> (Ok (), s))
      | None \<Rightarrow> (Ok (), s))"

definition new_epoch :: "('c, 'o) add_event \<Rightarrow> ('c, 'k, 'f, unit) kafka_action" where
  "new_epoch add =
     bind_s (\<lambda>s. (Ok (), s\<lparr>ks_epoch_offset := (ks_epoch_offset s)(ks_epoch s \<mapsto> ks_offset s)\<rparr>)) (\<lambda>_.
     bind_s (\<lambda>s. kafka_add add (EpochEv (epoch_new (ks_epoch s))) s) (\<lambda>_.
     bind_s (query (\<lambda>s. add_u (ks_epoch s) 1)) (\<lambda>e s. (Ok (), s\<lparr>ks_epoch := e\<rparr>))))"

text \<open>The loop that fetches a batch: \<open>left\<close> is \<^verbatim>\<open>batch_size - counter\<close>, and the result has the messages and the
  number of items, errors included.\<close>

fun fetch_batch :: "('k, 'p, 'f) kafka_api \<Rightarrow> nat \<Rightarrow> 'k \<Rightarrow> (kafka_message list \<times> nat) \<times> 'k" where
  "fetch_batch K 0 k = (([], 0), k)"
| "fetch_batch K (Suc left) k =
     (case ka_next K k of
        (None, k) \<Rightarrow> (([], 0), k)
      | (Some item, k) \<Rightarrow>
          (case fetch_batch K left k of ((ms, n), k) \<Rightarrow>
             (((case item of Inl _ \<Rightarrow> ms | Inr m \<Rightarrow> m # ms), Suc n), k)))"

definition payload_str :: "kafka_message \<Rightarrow> code_points" where
  "payload_str m =
     (case km_payload m of
        None \<Rightarrow> []
      | Some bs \<Rightarrow> (case from_utf8 bs of Some s \<Rightarrow> s | None \<Rightarrow> []))"

definition process_message ::
    "('k, 'p, 'f) kafka_api \<Rightarrow> ('c, 'o) add_event \<Rightarrow> (code_points \<Rightarrow> 'o option) \<Rightarrow> kafka_message
      \<Rightarrow> ('c, 'k, 'f, unit) kafka_action" where
  "process_message K add parse m =
     bind_s (\<lambda>s. (Ok (), case km_millis m of
                    Some ts \<Rightarrow> if ks_max_timestamp s < ts then s\<lparr>ks_max_timestamp := ts\<rparr> else s
                  | None \<Rightarrow> s)) (\<lambda>_.
     case parse (payload_str m) of
       Some d \<Rightarrow>
         bind_s (lift_o (add_s (km_offset m) 1)) (\<lambda>offset.
         bind_s (\<lambda>s. (Ok (), s\<lparr>ks_offset := ka_from_raw K offset\<rparr>)) (\<lambda>_.
         output_event add d (km_millis m)))
     | None \<Rightarrow> return_s ())"

fun process_messages ::
    "('k, 'p, 'f) kafka_api \<Rightarrow> ('c, 'o) add_event \<Rightarrow> (code_points \<Rightarrow> 'o option) \<Rightarrow> kafka_message list
      \<Rightarrow> ('c, 'k, 'f, unit) kafka_action" where
  "process_messages K add parse [] = return_s ()"
| "process_messages K add parse (m # ms) = bind_s (process_message K add parse m) (\<lambda>_. process_messages K add parse ms)"

definition receive ::
    "('k, 'p, 'f) kafka_api \<Rightarrow> ('c, 'o) add_event \<Rightarrow> (code_points \<Rightarrow> 'o option) \<Rightarrow> ('c, 'k, 'f, unit) kafka_action" where
  "receive K add parse s =
     (case fetch_batch K (unat (ks_batch_size s)) (ks_consumer s) of ((messages, counter), k) \<Rightarrow>
        bind_s (process_messages K add parse messages) (\<lambda>_.
        bind_s (\<lambda>s. (Ok (), s\<lparr>ks_scheduled := ks_scheduled s + 1\<rparr>)) (\<lambda>_.
        if 0 < counter then
          bind_s (output_watermark add) (\<lambda>_.
          bind_s (new_epoch add) (\<lambda>_.
          bind_s (query (\<lambda>s. sub_u (ks_epoch s) 1)) (commit_epoch K)))
        else return_s ())) (s\<lparr>ks_consumer := k\<rparr>))"

definition kafka_on_start ::
    "('k, 'p, 'f) kafka_api \<Rightarrow> ('c, 'o) add_event \<Rightarrow> (code_points \<Rightarrow> 'o option) \<Rightarrow> ('c, 'k, 'f, unit) kafka_action" where
  "kafka_on_start K add parse = receive K add parse"

text \<open>\<open>receive_rounds\<close>: the source runs \<open>n\<close> scheduled batches, one after the other.\<close>

fun receive_rounds ::
    "('k, 'p, 'f) kafka_api \<Rightarrow> ('c, 'o) add_event \<Rightarrow> (code_points \<Rightarrow> 'o option) \<Rightarrow> nat \<Rightarrow> ('c, 'k, 'f, unit) kafka_action" where
  "receive_rounds K add parse 0 = return_s ()"
| "receive_rounds K add parse (Suc n) = bind_s (receive K add parse) (\<lambda>_. receive_rounds K add parse n)"

section \<open>What a batch means\<close>

definition message_events :: "(code_points \<Rightarrow> 'o option) \<Rightarrow> kafka_message \<Rightarrow> 'o arcon_event list" where
  "message_events parse m =
     (case parse (payload_str m) of
        None \<Rightarrow> []
      | Some d \<Rightarrow> [ElementEv \<lparr>data = d, timestamp = km_millis m\<rparr>])"

definition later :: "u64 \<Rightarrow> kafka_message \<Rightarrow> u64" where
  "later wm m = (case km_millis m of None \<Rightarrow> wm | Some ts \<Rightarrow> max wm ts)"

definition past :: "('k, 'p, 'f) kafka_api \<Rightarrow> (code_points \<Rightarrow> 'o option) \<Rightarrow> 'f \<Rightarrow> kafka_message \<Rightarrow> 'f" where
  "past K parse off m = (case parse (payload_str m) of None \<Rightarrow> off | Some _ \<Rightarrow> ka_from_raw K (km_offset m + 1))"

definition committed :: "('k, 'p, 'f) kafka_api \<Rightarrow> 'f \<Rightarrow> 'k \<Rightarrow> 'k" where
  "committed K off k =
     (case ka_assignment K k of None \<Rightarrow> k | Some tpl \<Rightarrow> snd (ka_commit K (ka_set_all_offsets K off tpl) k))"

text \<open>\<open>kafka_batches\<close>: the batches of \<open>n\<close> rounds, and the consumer after each non-empty one was committed with the
  offset past its last message that can be parsed. \<open>batch_trace\<close>: the events of a list of batches.
  \<open>batch_offsets\<close>: the offset of each epoch.\<close>

fun kafka_batches ::
    "('k, 'p, 'f) kafka_api \<Rightarrow> (code_points \<Rightarrow> 'o option) \<Rightarrow> nat \<Rightarrow> nat \<Rightarrow> 'f \<Rightarrow> 'k \<Rightarrow> (kafka_message list \<times> nat) list \<times> 'k" where
  "kafka_batches K parse b 0 off k = ([], k)"
| "kafka_batches K parse b (Suc n) off k =
     (case fetch_batch K b k of ((ms, counter), k) \<Rightarrow>
        let off = foldl (past K parse) off ms in
        case kafka_batches K parse b n off (if 0 < counter then committed K off k else k) of
          (bs, k) \<Rightarrow> ((ms, counter) # bs, k))"

fun batch_trace :: "(code_points \<Rightarrow> 'o option) \<Rightarrow> u64 \<Rightarrow> u64 \<Rightarrow> (kafka_message list \<times> nat) list \<Rightarrow> 'o arcon_event list" where
  "batch_trace parse e wm [] = []"
| "batch_trace parse e wm ((ms, counter) # bs) =
     (let wm = foldl later wm ms in
      concat (map (message_events parse) ms) @
      (if 0 < counter then WatermarkEv (Watermark wm) # EpochEv (Epoch e) # batch_trace parse (e + 1) wm bs
       else batch_trace parse e wm bs))"

fun batch_offsets ::
    "('k, 'p, 'f) kafka_api \<Rightarrow> (code_points \<Rightarrow> 'o option) \<Rightarrow> u64 \<Rightarrow> 'f \<Rightarrow> (kafka_message list \<times> nat) list \<Rightarrow> (u64 \<times> 'f) list" where
  "batch_offsets K parse e off [] = []"
| "batch_offsets K parse e off ((ms, counter) # bs) =
     (let off = foldl (past K parse) off ms in
      if 0 < counter then (e, off) # batch_offsets K parse (e + 1) off bs else batch_offsets K parse e off bs)"

section \<open>Laws\<close>

text \<open>The source at a point of its run, and how it proceeds.\<close>

definition kafka_at ::
    "('c, 'k, 'f) kafka_source \<Rightarrow> 'c \<Rightarrow> 'f \<Rightarrow> u64 \<Rightarrow> ('c, 'k, 'f) kafka_source" where
  "kafka_at s c off wm = s\<lparr>ks_channel_strategy := c, ks_offset := off, ks_max_timestamp := wm\<rparr>"

lemma kafka_at_self: "kafka_at s (ks_channel_strategy s) (ks_offset s) (ks_max_timestamp s) = s"
  by (simp add: kafka_at_def)

lemma next_offset:
  assumes "sint (a :: i64) < 2 ^ 63 - 1"
  shows "add_s a 1 = Ok (a + 1)"
proof -
  have "sint (a + 1) = signed_take_bit 63 (sint a + sint (1 :: i64))" by (simp add: sint_word_ariths)
  also have "\<dots> = sint a + 1" using assms sint_greater_eq [of a] by (simp add: signed_take_bit_int_eq_self_iff)
  finally show ?thesis by (simp add: add_s_def)
qed

lemma emit_one [simp]: "emit add [e] c = add e c"
  by (simp add: bind_s_def split: prod.split outcome.split)

lemma kafka_add_at: "kafka_add add e (kafka_at s c off wm) = (case add e c of (r, c') \<Rightarrow> (r, kafka_at s c' off wm))"
  by (cases s) (simp add: kafka_add_def kafka_at_def)

lemma output_event_eq: "output_event add d ts = kafka_add add (ElementEv \<lparr>data = d, timestamp = ts\<rparr>)"
  by (simp add: output_event_def element_new_def element_with_timestamp_def split: option.split)

lemma process_message_at:
  assumes "parse (payload_str m) \<noteq> None \<longrightarrow> sint (km_offset m) < 2 ^ 63 - 1"
  shows "process_message K add parse m (kafka_at s c off wm) =
    (case emit add (message_events parse m) c of (r, c') \<Rightarrow> (r, kafka_at s c' (past K parse off m) (later wm m)))"
proof -
  have "add_s (km_offset m) 1 = (Ok (km_offset m + 1) :: (arcon_error, i64) outcome)" if "parse (payload_str m) \<noteq> None"
    using assms that by (simp add: next_offset)
  moreover have "(case km_millis m of
      Some ts \<Rightarrow> if ks_max_timestamp (kafka_at s c off wm) < ts then (kafka_at s c off wm)\<lparr>ks_max_timestamp := ts\<rparr> else kafka_at s c off wm
    | None \<Rightarrow> kafka_at s c off wm) = kafka_at s c off (later wm m)"
    by (auto simp: kafka_at_def later_def max_def split: option.split)
  moreover have "(kafka_at s c off (later wm m))\<lparr>ks_offset := off'\<rparr> = kafka_at s c off' (later wm m)" for off'
    by (simp add: kafka_at_def)
  ultimately show ?thesis
    by (cases "parse (payload_str m)")
      (simp_all add: process_message_def message_events_def past_def bind_s_def output_event_eq kafka_add_at del: emit.simps(2) split: prod.split)
qed

lemma process_messages_at:
  assumes "\<forall>m \<in> set ms. sint (km_offset m) < 2 ^ 63 - 1"
  shows "emit add (concat (map (message_events parse) ms)) c = (Ok (), c') \<Longrightarrow>
    process_messages K add parse ms (kafka_at s c off wm) = (Ok (), kafka_at s c' (foldl (past K parse) off ms) (foldl later wm ms))"
  using assms
proof (induction ms arbitrary: c off wm)
  case (Cons m ms)
  obtain r1 c1 where 1: "emit add (message_events parse m) c = (r1, c1)" by force
  have step: "process_message K add parse m (kafka_at s c off wm) = (r1, kafka_at s c1 (past K parse off m) (later wm m))"
    using Cons.prems(2) 1 by (simp add: process_message_at)
  show ?case
    using Cons.prems Cons.IH 1 by (cases r1) (auto simp: emit_append bind_s_cases step)
qed simp

definition kafka_step ::
    "('k, 'p, 'f) kafka_api \<Rightarrow> (code_points \<Rightarrow> 'o option) \<Rightarrow> ('c, 'k, 'f) kafka_source \<Rightarrow> kafka_message list \<Rightarrow> nat \<Rightarrow> 'k \<Rightarrow> 'c
      \<Rightarrow> ('c, 'k, 'f) kafka_source" where
  "kafka_step K parse s ms counter k c =
     (let off = foldl (past K parse) (ks_offset s) ms;
          t = (kafka_at s c off (foldl later (ks_max_timestamp s) ms))\<lparr>ks_scheduled := ks_scheduled s + 1\<rparr> in
      if 0 < counter
      then t\<lparr>ks_consumer := committed K off k, ks_epoch := ks_epoch s + 1, ks_epoch_offset := (ks_epoch_offset s)(ks_epoch s \<mapsto> off)\<rparr>
      else t\<lparr>ks_consumer := k\<rparr>)"

lemma bind_s_update: "bind_s (\<lambda>s. (Ok a, g s)) f s = f a (g s)"
  by (simp add: bind_s_def)

lemma receive_ok:
  assumes f: "fetch_batch K (unat (ks_batch_size s)) (ks_consumer s) = ((ms, counter), k)"
    and fit: "\<forall>m \<in> set ms. sint (km_offset m) < 2 ^ 63 - 1" and e: "unat (ks_epoch s) + 1 < 2 ^ 64"
    and sent: "emit add (batch_trace parse (ks_epoch s) (ks_max_timestamp s) [(ms, counter)]) (ks_channel_strategy s) = (Ok (), c)"
  shows "receive K add parse s = (Ok (), kafka_step K parse s ms counter k c)"
proof -
  let ?s = "s\<lparr>ks_consumer := k\<rparr>" and ?wm = "foldl later (ks_max_timestamp s) ms" and ?off = "foldl (past K parse) (ks_offset s) ms"
  obtain r1 c1 where 1: "emit add (concat (map (message_events parse) ms)) (ks_channel_strategy s) = (r1, c1)" by force
  with sent have "r1 = Ok ()" by (cases r1) (simp_all add: Let_def emit_append bind_s_cases)
  with process_messages_at [OF fit, of add parse "ks_channel_strategy ?s" c1 K ?s "ks_offset ?s" "ks_max_timestamp ?s"] 1
  have p: "process_messages K add parse ms ?s = (Ok (), kafka_at ?s c1 ?off ?wm)"
    unfolding kafka_at_self by simp
  let ?t = "(kafka_at ?s c1 ?off ?wm)\<lparr>ks_scheduled := ks_scheduled s + 1\<rparr>"
  have r: "receive K add parse s = (if 0 < counter then bind_s (output_watermark add) (\<lambda>_. bind_s (new_epoch add) (\<lambda>_.
      bind_s (query (\<lambda>s. sub_u (ks_epoch s) 1)) (commit_epoch K))) else return_s ()) ?t"
    by (simp add: receive_def f bind_s_cases [where m = "process_messages K add parse ms"] p bind_s_update kafka_at_def)
  show ?thesis
  proof (cases "0 < counter")
    case False
    with sent 1 have "c = c1" by (simp add: Let_def)
    then show ?thesis
      using False unfolding r by (cases s) (simp add: kafka_step_def kafka_at_def)
  next
    case True
    obtain r2 c2 where w: "add (WatermarkEv (Watermark ?wm)) c1 = (r2, c2)" by force
    obtain r3 c3 where m: "add (EpochEv (Epoch (ks_epoch s))) c2 = (r3, c3)" by force
    have u: "add_u (ks_epoch s) 1 = (Ok (ks_epoch s + 1) :: (arcon_error, u64) outcome)"
      "sub_u (ks_epoch s + 1) 1 = (Ok (ks_epoch s) :: (arcon_error, u64) outcome)"
      using e by (simp_all add: add_u_def sub_u_def unat_add_no_overflow word_le_nat_alt)
    from sent True 1 \<open>r1 = Ok ()\<close> w m have 2: "r2 = Ok ()" "r3 = Ok ()" "c3 = c"
      by (cases r2; cases r3; simp add: Let_def emit_append bind_s_def)+
    note defs = output_watermark_def new_epoch_def kafka_add_def kafka_at_def watermark_new_def epoch_new_def commit_epoch_def
    show ?thesis
      using True w m u 2 unfolding r
      by (cases "ka_assignment K k"; cases s) (simp_all add: bind_s_def defs kafka_step_def committed_def Let_def)
  qed
qed

lemma kafka_step_simps [simp]:
  "ks_channel_strategy (kafka_step K parse s ms counter k c) = c"
  "ks_offset (kafka_step K parse s ms counter k c) = foldl (past K parse) (ks_offset s) ms"
  "ks_max_timestamp (kafka_step K parse s ms counter k c) = foldl later (ks_max_timestamp s) ms"
  "ks_batch_size (kafka_step K parse s ms counter k c) = ks_batch_size s"
  "ks_scheduled (kafka_step K parse s ms counter k c) = ks_scheduled s + 1"
  "ks_epoch (kafka_step K parse s ms counter k c) = (if 0 < counter then ks_epoch s + 1 else ks_epoch s)"
  "ks_consumer (kafka_step K parse s ms counter k c)
     = (if 0 < counter then committed K (foldl (past K parse) (ks_offset s) ms) k else k)"
  "ks_epoch_offset (kafka_step K parse s ms counter k c)
     = (if 0 < counter then (ks_epoch_offset s)(ks_epoch s \<mapsto> foldl (past K parse) (ks_offset s) ms) else ks_epoch_offset s)"
  by (simp_all add: kafka_step_def kafka_at_def Let_def)

lemma fetch_batch_messages:
  assumes "\<And>k m k'. ka_next K k = (Some (Inr m), k') \<Longrightarrow> P m"
  shows "fetch_batch K b k = ((ms, counter), k') \<Longrightarrow> \<forall>m \<in> set ms. P m"
proof (induction b arbitrary: k ms counter k')
  case (Suc b)
  obtain item k1 where 1: "ka_next K k = (item, k1)" by force
  obtain ms1 n1 k2 where 2: "fetch_batch K b k1 = ((ms1, n1), k2)" by (metis prod.exhaust)
  from Suc.IH [OF 2] Suc.prems 1 2 show ?case
    by (cases item; cases "the item") (auto dest: assms)
qed simp

text \<open>No message has the last offset.\<close>

definition offsets_fit :: "('k, 'p, 'f) kafka_api \<Rightarrow> bool" where
  "offsets_fit K \<longleftrightarrow> (\<forall>k m k'. ka_next K k = (Some (Inr m), k') \<longrightarrow> sint (km_offset m) < 2 ^ 63 - 1)"

lemma receive_rounds_ok:
  assumes next_ok: "offsets_fit K"
  shows "unat (ks_epoch s) + n < 2 ^ 64 \<Longrightarrow>
    kafka_batches K parse (unat (ks_batch_size s)) n (ks_offset s) (ks_consumer s) = (bs, k) \<Longrightarrow>
    emit add (batch_trace parse (ks_epoch s) (ks_max_timestamp s) bs) (ks_channel_strategy s) = (Ok (), c) \<Longrightarrow>
    \<exists>s'. receive_rounds K add parse n s = (Ok (), s') \<and> ks_channel_strategy s' = c \<and>
      ks_consumer s' = k \<and> ks_scheduled s' = ks_scheduled s + n \<and>
      ks_epoch_offset s' = ks_epoch_offset s ++ map_of (rev (batch_offsets K parse (ks_epoch s) (ks_offset s) bs))"
proof (induction n arbitrary: s bs k)
  case 0
  then show ?case by simp
next
  case (Suc n)
  obtain ms counter k1 where f: "fetch_batch K (unat (ks_batch_size s)) (ks_consumer s) = ((ms, counter), k1)"
    by (metis prod.exhaust)
  have fit: "\<forall>m \<in> set ms. sint (km_offset m) < 2 ^ 63 - 1"
    by (rule fetch_batch_messages [OF _ f]) (use next_ok in \<open>auto simp: offsets_fit_def\<close>)
  have e: "unat (ks_epoch s) + 1 < 2 ^ 64" using Suc.prems(1) by simp
  let ?batch = "batch_trace parse (ks_epoch s) (ks_max_timestamp s) [(ms, counter)]"
  obtain r1 c1 where 1: "emit add ?batch (ks_channel_strategy s) = (r1, c1)" by force
  define s1 where "s1 = kafka_step K parse s ms counter k1 c1"
  obtain bs' where bs': "kafka_batches K parse (unat (ks_batch_size s1)) n (ks_offset s1) (ks_consumer s1) = (bs', k)"
      "bs = (ms, counter) # bs'"
    using Suc.prems(2) f by (auto simp: s1_def Let_def split: prod.splits)
  have trace: "batch_trace parse (ks_epoch s) (ks_max_timestamp s) bs =
      ?batch @ batch_trace parse (ks_epoch s1) (ks_max_timestamp s1) bs'"
    by (simp add: bs'(2) s1_def Let_def)
  have "r1 = Ok ()" and rest: "emit add (batch_trace parse (ks_epoch s1) (ks_max_timestamp s1) bs') c1 = (Ok (), c)"
    using Suc.prems(3) 1 unfolding trace emit_append by (cases r1; simp add: bind_s_cases)+
  with 1 have step: "receive K add parse s = (Ok (), s1)" using receive_ok [OF f fit e] by (simp add: s1_def)
  have "unat (ks_epoch s1) + n < 2 ^ 64" using Suc.prems(1) by (auto simp: s1_def unat_add_no_overflow)
  from Suc.IH [OF this bs'(1)] rest obtain s' where
    s': "receive_rounds K add parse n s1 = (Ok (), s')" "ks_channel_strategy s' = c" "ks_consumer s' = k"
      "ks_scheduled s' = ks_scheduled s1 + n"
      "ks_epoch_offset s' = ks_epoch_offset s1 ++ map_of (rev (batch_offsets K parse (ks_epoch s1) (ks_offset s1) bs'))"
    by (auto simp: s1_def)
  have "ks_epoch_offset s' = ks_epoch_offset s ++ map_of (rev (batch_offsets K parse (ks_epoch s) (ks_offset s) bs))"
    using s'(5) by (cases "0 < counter") (auto simp: s1_def bs'(2) Let_def map_add_def fun_eq_iff split: option.split)
  then show ?case using s' step by (auto simp: bind_s_def s1_def)
qed

text \<open>What the trace of a run contains.\<close>

fun epochs :: "'o arcon_event list \<Rightarrow> u64 list" where
  "epochs [] = []"
| "epochs (EpochEv e # es) = ep_epoch e # epochs es"
| "epochs (_ # es) = epochs es"

lemma message_events_simps [simp]:
  "marks (message_events parse m @ es) = marks es" "epochs (message_events parse m @ es) = epochs es"
  "filter is_element (message_events parse m) = message_events parse m"
  by (simp_all add: message_events_def split: option.split)

lemma concat_message_events [simp]:
  "marks (concat (map (message_events parse) ms) @ es) = marks es"
  "epochs (concat (map (message_events parse) ms) @ es) = epochs es"
  "filter is_element (concat (map (message_events parse) ms)) = concat (map (message_events parse) ms)"
  by (induction ms) simp_all

lemma later_ge: "wm \<le> foldl later wm ms"
proof (induction ms arbitrary: wm)
  case (Cons m ms)
  have "wm \<le> later wm m" by (simp add: later_def split: option.split)
  then show ?case using Cons.IH [of "later wm m"] by simp
qed simp

lemma batch_trace_elements:
  "filter is_element (batch_trace parse e wm bs) = concat (map (message_events parse) (concat (map fst bs)))"
  by (induction bs arbitrary: e wm) (auto simp: Let_def)

lemma batch_trace_epochs:
  "epochs (batch_trace parse e wm bs) = map (\<lambda>i. e + word_of_nat i) [0..<length (filter (\<lambda>b. 0 < snd b) bs)]"
proof (induction bs arbitrary: e wm)
  case (Cons b bs)
  obtain ms counter where b: "b = (ms, counter)" by force
  have "map (\<lambda>i. e + word_of_nat i) [0..<Suc n] = e # map (\<lambda>i. e + 1 + word_of_nat i) [0..<n]" for n
    by (simp add: upt_conv_Cons map_Suc_upt [symmetric] ac_simps del: upt_Suc)
  then show ?case using Cons.IH by (simp add: b Let_def del: upt_Suc)
qed simp

lemma batch_trace_marks:
  "sorted (marks (batch_trace parse e wm bs)) \<and> (\<forall>w \<in> set (marks (batch_trace parse e wm bs)). wm \<le> w)"
proof (induction bs arbitrary: e wm)
  case (Cons b bs)
  obtain ms counter where b: "b = (ms, counter)" by force
  show ?case
    using Cons.IH [of "e + 1" "foldl later wm ms"] Cons.IH [of e "foldl later wm ms"] later_ge [of wm ms]
    by (auto simp: b Let_def intro: order_trans)
qed simp

section \<open>Properties\<close>

text \<open>C19: The Kafka source turns its stream into epochs. However many batches it receives, if its channel strategy
  takes the events, every batch is handled to its end: the events are, for every batch, the messages
  that can be parsed in order and with their time, then the greatest time so far as watermark and a marker
  of the next epoch, unless nothing was fetched; so the watermarks never fall and the epochs follow each
  other without a gap. Each epoch is stored with the offset past the last message that was sent before its
  marker, the consumer commits that offset, and the next batch is scheduled.\<close>

theorem kafka_source_epochs:
  fixes parse :: "code_points \<Rightarrow> 'o option"
  assumes "offsets_fit K" and "unat (ks_epoch s) + n < 2 ^ 64"
    and "kafka_batches K parse (unat (ks_batch_size s)) n (ks_offset s) (ks_consumer s) = (bs, k)"
    and "evs = batch_trace parse (ks_epoch s) (ks_max_timestamp s) bs"
    and "emit add evs (ks_channel_strategy s) = (Ok (), c)"
  shows "\<exists>s'. receive_rounds K add parse n s = (Ok (), s') \<and> ks_channel_strategy s' = c \<and>
      ks_consumer s' = k \<and> ks_scheduled s' = ks_scheduled s + n \<and>
      ks_epoch_offset s' = ks_epoch_offset s ++ map_of (rev (batch_offsets K parse (ks_epoch s) (ks_offset s) bs)) \<and>
      filter is_element evs = concat (map (message_events parse) (concat (map fst bs))) \<and>
      sorted (marks evs) \<and>
      epochs evs = map (\<lambda>i. ks_epoch s + word_of_nat i) [0..<length (filter (\<lambda>b. 0 < snd b) bs)]"
  using receive_rounds_ok [OF assms(1-3), of add c] assms(5) unfolding assms(4)
  by (simp add: batch_trace_elements batch_trace_epochs batch_trace_marks)

text \<open>A topic in memory as the client: the messages that are left and the offsets that were committed.\<close>

definition demo_kafka :: "(kafka_message list \<times> i64 list, i64, i64) kafka_api" where
  "demo_kafka =
     \<lparr>ka_next = (\<lambda>(ms, cs). case ms of [] \<Rightarrow> (None, (ms, cs)) | m # ms \<Rightarrow> (if sint (km_offset m) < 1000 then Some (Inr m) else None, (ms, cs))),
      ka_from_raw = (\<lambda>x. x), ka_subscribe = (\<lambda>_ k. (True, k)), ka_assignment = (\<lambda>_. Some 0),
      ka_set_all_offsets = (\<lambda>off _. off), ka_commit = (\<lambda>p (ms, cs). (True, (ms, cs @ [p])))\<rparr>"

definition demo_messages :: "kafka_message list" where
  "demo_messages = [\<lparr>km_payload = Some [55], km_millis = Some 40, km_offset = 3\<rparr>,
     \<lparr>km_payload = None, km_millis = Some 60, km_offset = 4\<rparr>, \<lparr>km_payload = Some [56], km_millis = None, km_offset = 5\<rparr>]"

definition demo_kafka_source :: "(nat arcon_event list, kafka_message list \<times> i64 list, i64) kafka_source" where
  "demo_kafka_source =
     (case kafka_source_new demo_kafka (Some (demo_messages, [])) [] ''localhost'' ''numbers'' 3 (node_id_new 1) of
        Ok s \<Rightarrow> s\<lparr>ks_batch_size := 2\<rparr>)"

definition demo_parse :: "code_points \<Rightarrow> nat option" where
  "demo_parse s = (case s of [c] \<Rightarrow> Some (c - 48) | _ \<Rightarrow> None)"

theorem kafka_source_epochs_witness:
  "ks_channel_strategy (snd (receive_rounds demo_kafka (\<lambda>e es. (Ok (), es @ [e])) demo_parse (Suc (Suc 0)) demo_kafka_source)) =
     [ElementEv \<lparr>data = 7, timestamp = Some 40\<rparr>, WatermarkEv (Watermark 60), EpochEv (Epoch 0),
      ElementEv \<lparr>data = 8, timestamp = None\<rparr>, WatermarkEv (Watermark 60), EpochEv (Epoch 1)] \<and>
   snd (ks_consumer (snd (receive_rounds demo_kafka (\<lambda>e es. (Ok (), es @ [e])) demo_parse (Suc (Suc 0)) demo_kafka_source))) = [4, 6]"
proof -
  let ?add = "\<lambda>e es. (Ok () :: (arcon_error, unit) outcome, es @ [e])"
  let ?bs = "[(take 2 demo_messages, 2), (drop 2 demo_messages, 1)]"
  let ?evs = "[ElementEv \<lparr>data = 7, timestamp = Some 40\<rparr>, WatermarkEv (Watermark 60), EpochEv (Epoch 0),
      ElementEv \<lparr>data = 8, timestamp = None\<rparr>, WatermarkEv (Watermark 60), EpochEv (Epoch 1)]"
  note eval = demo_kafka_source_def kafka_source_new_def demo_kafka_def demo_messages_def demo_parse_def node_id_new_def
  have u: "fetch_batch K 2 k = fetch_batch K (Suc (Suc 0)) k" for K :: "('k, 'p, 'f) kafka_api" and k by (simp only: numeral_2_eq_2)
  have b: "kafka_batches demo_kafka demo_parse (unat (ks_batch_size demo_kafka_source)) (Suc (Suc 0)) (ks_offset demo_kafka_source)
      (ks_consumer demo_kafka_source) = (?bs, ([], [4, 6]))"
    by (simp add: eval u past_def payload_str_def committed_def)
  have evs: "?evs = batch_trace demo_parse (ks_epoch demo_kafka_source) (ks_max_timestamp demo_kafka_source) ?bs"
    by (simp add: eval message_events_def payload_str_def later_def)
  have sent: "emit ?add ?evs (ks_channel_strategy demo_kafka_source) = (Ok (), ?evs)"
    by (simp add: eval bind_s_def)
  have e: "unat (ks_epoch demo_kafka_source) + Suc (Suc 0) < 2 ^ 64" by (simp add: eval)
  have "offsets_fit demo_kafka"
    by (auto simp: offsets_fit_def demo_kafka_def split: prod.splits list.splits if_splits)
  from kafka_source_epochs [OF this e b evs sent] show ?thesis by auto
qed

end
