(* ===== verification/Sinks.thy ===== *)
theory Sinks
  imports Source_Laws Checkpoints "HOL-Library.Multiset"
begin

text \<open>
  Model of \<^verbatim>\<open>src/stream/operator/sink\<close>: operators without output that write elements to a file, a UDP socket
  or a Kafka topic. A sink keeps its state behind a \<^verbatim>\<open>RefCell\<close> or a channel and uses nothing of its
  operator context, so its handlers are actions on its own state. The formats of elements
  (\<^verbatim>\<open>Debug\<close> and \<^verbatim>\<open>serde_json\<close>) are parameters, as are the file and the Kafka producer; what is read back from a file
  is shown for \<^verbatim>\<open>u64\<close>, whose \<^verbatim>\<open>Debug\<close> is spelled out. Writes and sends may fail; the sinks drop the result of both.
\<close>

section \<open>Local file sink\<close>

text \<open>A file opened for appending; \<open>fo_write\<close> is a write that may fail, which the sink only reports to the user.\<close>

record 'f file_ops =
  fo_open_append :: "string \<Rightarrow> 'f option"
  fo_write :: "bytes \<Rightarrow> 'f \<Rightarrow> bool \<times> 'f"

record 'f local_file_sink =
  fsk_file :: 'f

definition local_file_sink_new :: "'f file_ops \<Rightarrow> string \<Rightarrow> (arcon_error, 'f local_file_sink) outcome" where
  "local_file_sink_new F file_path =
     (case fo_open_append F file_path of
        Some f \<Rightarrow> Ok \<lparr>fsk_file = f\<rparr>
      | None \<Rightarrow> Panic ''Failed to open file'')"

definition file_sink_element ::
    "'f file_ops \<Rightarrow> ('i \<Rightarrow> bytes) \<Rightarrow> 'i arcon_element \<Rightarrow> ('f local_file_sink, arcon_error, unit) action" where
  "file_sink_element F debug element s =
     (Ok (), s\<lparr>fsk_file := snd (fo_write F (debug (data element) @ [10]) (fsk_file s))\<rparr>)"

section \<open>Kafka sink\<close>

text \<open>A producer hands out a future for each record, which is waited for; its result is dropped.\<close>

record ('p, 'u) kafka_producer =
  kp_send :: "string \<Rightarrow> bytes \<Rightarrow> 'p \<Rightarrow> 'u \<times> 'p"
  kp_wait :: "'u \<Rightarrow> 'p \<Rightarrow> 'p"

record ('p, 'i) kafka_sink =
  sk_bootstrap_server :: string
  sk_topic :: string
  sk_offset :: u32
  sk_batch_size :: u32
  sk_producer :: 'p
  sk_buffer :: "'i arcon_element list"

definition kafka_sink_new :: "'p option \<Rightarrow> string \<Rightarrow> string \<Rightarrow> u32 \<Rightarrow> (arcon_error, ('p, 'i) kafka_sink) outcome" where
  "kafka_sink_new created bootstrap_server topic offset =
     (case created of
        Some producer \<Rightarrow> Ok \<lparr>sk_bootstrap_server = bootstrap_server, sk_topic = topic, sk_offset = offset,
          sk_batch_size = 100, sk_producer = producer, sk_buffer = []\<rparr>
      | None \<Rightarrow> Panic ''Failed to start KafkaSink'')"

fun send_all ::
    "('p, 'u) kafka_producer \<Rightarrow> ('i \<Rightarrow> bytes option) \<Rightarrow> string \<Rightarrow> 'i arcon_element list \<Rightarrow> 'p \<Rightarrow> 'u list \<times> 'p" where
  "send_all P json topic [] p = ([], p)"
| "send_all P json topic (element # es) p =
     (case json (data element) of
        Some serialized \<Rightarrow>
          (case kp_send P topic serialized p of (future, p) \<Rightarrow>
           case send_all P json topic es p of (futures, p) \<Rightarrow> (future # futures, p))
      | None \<Rightarrow> send_all P json topic es p)"

definition commit_buffer ::
    "('p, 'u) kafka_producer \<Rightarrow> ('i \<Rightarrow> bytes option) \<Rightarrow> (('p, 'i) kafka_sink, arcon_error, unit) action" where
  "commit_buffer P json s =
     (case send_all P json (sk_topic s) (sk_buffer s) (sk_producer s) of (futures, p) \<Rightarrow>
        (Ok (), s\<lparr>sk_buffer := [], sk_producer := foldl (\<lambda>p future. kp_wait P future p) p futures\<rparr>))"

definition kafka_sink_element :: "'i arcon_element \<Rightarrow> (('p, 'i) kafka_sink, arcon_error, unit) action" where
  "kafka_sink_element element s = (Ok (), s\<lparr>sk_buffer := sk_buffer s @ [element]\<rparr>)"

definition kafka_sink_epoch ::
    "('p, 'u) kafka_producer \<Rightarrow> ('i \<Rightarrow> bytes option) \<Rightarrow> epoch \<Rightarrow> (('p, 'i) kafka_sink, arcon_error, unit) action" where
  "kafka_sink_epoch P json e = commit_buffer P json"

text \<open>A node gives its operator the elements and epochs; watermarks are ignored by the sink.\<close>

fun kafka_sink_event ::
    "('p, 'u) kafka_producer \<Rightarrow> ('i \<Rightarrow> bytes option) \<Rightarrow> 'i arcon_event \<Rightarrow> (('p, 'i) kafka_sink, arcon_error, unit) action" where
  "kafka_sink_event P json (ElementEv e) = kafka_sink_element e"
| "kafka_sink_event P json (EpochEv e) = kafka_sink_epoch P json e"
| "kafka_sink_event P json _ = return_s ()"

fun kafka_sink_events ::
    "('p, 'u) kafka_producer \<Rightarrow> ('i \<Rightarrow> bytes option) \<Rightarrow> 'i arcon_event list \<Rightarrow> (('p, 'i) kafka_sink, arcon_error, unit) action" where
  "kafka_sink_events P json [] = return_s ()"
| "kafka_sink_events P json (e # es) = bind_s (kafka_sink_event P json e) (\<lambda>_. kafka_sink_events P json es)"

section \<open>Socket sink\<close>

text \<open>The bytes of an element: one line of JSON, or of its debug format.\<close>

definition socket_format :: "('i \<Rightarrow> bytes option) \<Rightarrow> ('i \<Rightarrow> bytes) \<Rightarrow> 'i \<Rightarrow> bytes" where
  "socket_format json debug d = (case json d of Some js \<Rightarrow> js @ [10] | None \<Rightarrow> debug d @ [10])"

text \<open>
  Every element is sent into the channel of the socket thread by a task of its own on a runtime with several
  threads. The steps: an element is handled and its task spawned; any spawned task runs, and puts its
  bytes into the channel, or drops them when the thread is gone; the thread takes the next bytes from the
  channel and sends them, or panics when this fails, which closes the channel. \<open>ss_handled\<close> only
  records what was handled.
\<close>

record socket_sink =
  ss_handled :: "bytes list"
  ss_spawned :: "bytes list"
  ss_channel :: "bytes list"
  ss_sent :: "bytes list"
  ss_alive :: bool

definition socket_sink_udp :: socket_sink where
  "socket_sink_udp = \<lparr>ss_handled = [], ss_spawned = [], ss_channel = [], ss_sent = [], ss_alive = True\<rparr>"

definition socket_sink_element :: "('i \<Rightarrow> bytes option) \<Rightarrow> ('i \<Rightarrow> bytes) \<Rightarrow> 'i arcon_element \<Rightarrow> socket_sink \<Rightarrow> socket_sink" where
  "socket_sink_element json debug element s =
     (let bs = socket_format json debug (data element) in
      s\<lparr>ss_handled := ss_handled s @ [bs], ss_spawned := ss_spawned s @ [bs]\<rparr>)"

definition run_task :: "nat \<Rightarrow> socket_sink \<Rightarrow> socket_sink" where
  "run_task i s =
     s\<lparr>ss_spawned := take i (ss_spawned s) @ drop (Suc i) (ss_spawned s),
       ss_channel := (if ss_alive s then ss_channel s @ [ss_spawned s ! i] else ss_channel s)\<rparr>"

definition thread_send :: "bool \<Rightarrow> socket_sink \<Rightarrow> socket_sink" where
  "thread_send sent s =
     (if sent then s\<lparr>ss_channel := tl (ss_channel s), ss_sent := ss_sent s @ [hd (ss_channel s)]\<rparr>
      else s\<lparr>ss_channel := [], ss_alive := False\<rparr>)"

inductive socket_step :: "('i \<Rightarrow> bytes option) \<Rightarrow> ('i \<Rightarrow> bytes) \<Rightarrow> socket_sink \<Rightarrow> socket_sink \<Rightarrow> bool" for json debug where
  handle: "socket_step json debug s (socket_sink_element json debug e s)"
| task: "i < length (ss_spawned s) \<Longrightarrow> socket_step json debug s (run_task i s)"
| thread: "ss_alive s \<Longrightarrow> ss_channel s \<noteq> [] \<Longrightarrow> socket_step json debug s (thread_send sent s)"

inductive socket_run :: "('i \<Rightarrow> bytes option) \<Rightarrow> ('i \<Rightarrow> bytes) \<Rightarrow> socket_sink \<Rightarrow> bool" for json debug where
  start: "socket_run json debug socket_sink_udp"
| step: "socket_run json debug s \<Longrightarrow> socket_step json debug s s' \<Longrightarrow> socket_run json debug s'"

section \<open>Laws of the file sink\<close>

fun file_sink_elements ::
    "'f file_ops \<Rightarrow> ('i \<Rightarrow> bytes) \<Rightarrow> 'i arcon_element list \<Rightarrow> ('f local_file_sink, arcon_error, unit) action" where
  "file_sink_elements F debug [] = return_s ()"
| "file_sink_elements F debug (e # es) = bind_s (file_sink_element F debug e) (\<lambda>_. file_sink_elements F debug es)"

text \<open>\<^verbatim>\<open>BufRead::lines\<close>: a line ends with a line feed, which is removed with a carriage return before it; what follows
  the last line feed is a line unless it is empty; a line that is not UTF-8 is an error.\<close>

definition strip_cr :: "bytes \<Rightarrow> bytes" where
  "strip_cr l = (if l \<noteq> [] \<and> last l = 13 then butlast l else l)"

fun split_lines :: "bytes \<Rightarrow> bytes \<Rightarrow> bytes list" where
  "split_lines line [] = (if line = [] then [] else [line])"
| "split_lines line (b # bs) = (if b = 10 then strip_cr line # split_lines [] bs else split_lines (line @ [b]) bs)"

definition read_lines :: "bytes \<Rightarrow> file_lines" where
  "read_lines bs =
     map (\<lambda>l. case from_utf8 l of Some s \<Rightarrow> Inr s | None \<Rightarrow> Inl ''stream did not contain valid UTF-8'') (split_lines [] bs)"

lemma split_lines_line:
  "10 \<notin> set l \<Longrightarrow> split_lines line (l @ 10 # bs) = strip_cr (line @ l) # split_lines [] bs"
  by (induction l arbitrary: line) simp_all

text \<open>A file opened for appending: a write puts a part of its bytes at the end, all of them when it succeeds.\<close>

locale appending_file =
  fixes F :: "'f file_ops" and content :: "'f \<Rightarrow> bytes"
  assumes write_appends: "\<exists>k. content (snd (fo_write F bs f)) = content f @ take k bs \<and> (fst (fo_write F bs f) \<longrightarrow> length bs \<le> k)"

text \<open>Which of the writes succeed, and the line of an element.\<close>

fun writes_succeed :: "'f file_ops \<Rightarrow> ('i \<Rightarrow> bytes) \<Rightarrow> 'i arcon_element list \<Rightarrow> 'f \<Rightarrow> bool list" where
  "writes_succeed F debug [] f = []"
| "writes_succeed F debug (e # es) f =
     (case fo_write F (debug (data e) @ [10]) f of (ok, f') \<Rightarrow> ok # writes_succeed F debug es f')"

abbreviation element_line :: "('i \<Rightarrow> bytes) \<Rightarrow> 'i arcon_element \<Rightarrow> bytes" where
  "element_line debug e \<equiv> debug (data e) @ [10]"

context appending_file
begin

lemma sink_content:
  "\<exists>s' ps. file_sink_elements F debug es s = (Ok (), s') \<and> content (fsk_file s') = content (fsk_file s) @ concat ps \<and>
     list_all2 (\<lambda>(e, ok) p. \<exists>k. p = take k (element_line debug e) \<and> (ok \<longrightarrow> p = element_line debug e))
       (zip es (writes_succeed F debug es (fsk_file s))) ps"
proof (induction es arbitrary: s)
  case (Cons e es)
  obtain ok f where f: "fo_write F (element_line debug e) (fsk_file s) = (ok, f)" by force
  obtain k where k: "content f = content (fsk_file s) @ take k (element_line debug e)" "ok \<longrightarrow> length (element_line debug e) \<le> k"
    using write_appends [of "element_line debug e" "fsk_file s"] f by auto
  obtain s' ps where ps: "file_sink_elements F debug es (s\<lparr>fsk_file := f\<rparr>) = (Ok (), s')" "content (fsk_file s') = content f @ concat ps"
    "list_all2 (\<lambda>(e, ok) p. \<exists>k. p = take k (element_line debug e) \<and> (ok \<longrightarrow> p = element_line debug e))
       (zip es (writes_succeed F debug es f)) ps"
    using Cons.IH [of "s\<lparr>fsk_file := f\<rparr>"] by auto
  have "ok \<longrightarrow> take k (element_line debug e) = element_line debug e" using k(2) by (metis take_all)
  then show ?case
    using ps k(1) f
    by (intro exI [of _ s'] exI [of _ "take k (element_line debug e) # ps"]) (auto simp: bind_s_def file_sink_element_def)
qed simp

lemma all_written:
  assumes "list_all (\<lambda>ok. ok) (writes_succeed F debug es (fsk_file s))" "file_sink_elements F debug es s = (r, s')"
  shows "content (fsk_file s') = content (fsk_file s) @ concat (map (\<lambda>d. debug d @ [10]) (map data es))"
  using assms
proof (induction es arbitrary: s)
  case (Cons e es)
  obtain f where f: "fo_write F (element_line debug e) (fsk_file s) = (True, f)"
    using Cons.prems(1) by (auto split: prod.splits)
  obtain k where "content f = content (fsk_file s) @ take k (element_line debug e)" "length (element_line debug e) \<le> k"
    using write_appends [of "element_line debug e" "fsk_file s"] f by auto
  then have "content f = content (fsk_file s) @ element_line debug e" by (metis take_all)
  then show ?case
    using Cons.IH [of "s\<lparr>fsk_file := f\<rparr>"] Cons.prems f by (simp add: bind_s_def file_sink_element_def)
qed simp

end

text \<open>A format that the file source can read: one line, and parsed as the value it shows.\<close>

definition line_format :: "('i \<Rightarrow> bytes) \<Rightarrow> (code_points \<Rightarrow> 'i option) \<Rightarrow> 'i \<Rightarrow> bool" where
  "line_format debug parse d \<longleftrightarrow>
     10 \<notin> set (debug d) \<and> strip_cr (debug d) = debug d \<and> Option.bind (from_utf8 (debug d)) parse = Some d"

lemma parsed_lines:
  assumes "\<forall>d \<in> set ds. line_format debug parse d"
  shows "parsed parse (read_lines (concat (map (\<lambda>d. debug d @ [10]) ds))) = ds"
  using assms
proof (induction ds)
  case (Cons d ds)
  then have d: "10 \<notin> set (debug d)" "strip_cr (debug d) = debug d" "Option.bind (from_utf8 (debug d)) parse = Some d"
    by (simp_all add: line_format_def)
  then obtain t where "from_utf8 (debug d) = Some t" "parse t = Some d" by (auto simp: bind_eq_Some_conv)
  moreover have "split_lines [] (debug d @ 10 # bs) = debug d # split_lines [] bs" for bs
    using d(1,2) by (simp add: split_lines_line)
  ultimately show ?case using Cons by (simp add: read_lines_def parsed_def map_filter_simps)
qed (simp add: read_lines_def parsed_def map_filter_simps)

text \<open>\<^verbatim>\<open>Debug\<close> of a \<^verbatim>\<open>u64\<close> is its decimal digits, which \<^verbatim>\<open>u64::from_str\<close> parses. (Other types are not read back: \<^verbatim>\<open>Debug\<close> of
  a string, for one, has quotes around it.)\<close>

definition debug_u64 :: "u64 \<Rightarrow> bytes" where
  "debug_u64 n = map (\<lambda>c. of_char c) (show_nat (unat n))"

definition from_str_u64 :: "code_points \<Rightarrow> u64 option" where
  "from_str_u64 s = (if list_all (\<lambda>c. c < 128) s then parse_u64 (map char_of s) else None)"

lemma ascii_utf8: "list_all (\<lambda>b. b < 128) bs \<Longrightarrow> from_utf8 bs = Some (map unat bs)"
  by (induction bs) simp_all

lemma debug_u64_line: "line_format debug_u64 from_str_u64 n"
proof -
  have digit: "48 \<le> (of_char c :: u8) \<and> (of_char c :: u8) \<le> 57 \<and> char_of (unat (of_char c :: u8)) = c" if c: "c \<in> set (show_nat (unat n))" for c
  proof -
    obtain d where d: "d < 10" "c = digit_char d" using show_nat_chars [OF c] by blast
    from d(1) have "d = 0 \<or> d = 1 \<or> d = 2 \<or> d = 3 \<or> d = 4 \<or> d = 5 \<or> d = 6 \<or> d = 7 \<or> d = 8 \<or> d = 9" by arith
    then show ?thesis unfolding d(2) by (elim disjE) (simp_all add: digit_char_def char_of_def of_char_def bit_0)
  qed
  have "10 \<notin> set (debug_u64 n)" "13 \<notin> set (debug_u64 n)" using digit by (fastforce simp: debug_u64_def)+
  moreover have "strip_cr (debug_u64 n) = debug_u64 n"
    using \<open>13 \<notin> set (debug_u64 n)\<close> last_in_set [of "debug_u64 n"] unfolding strip_cr_def by metis
  moreover have "list_all (\<lambda>b. b < 128) (debug_u64 n)"
    using digit by (fastforce simp: debug_u64_def list_all_iff intro: le_less_trans)
  then have "from_utf8 (debug_u64 n) = Some (map unat (debug_u64 n))" by (rule ascii_utf8)
  moreover have "list_all (\<lambda>c. c < 128) (map unat (debug_u64 n))"
    using \<open>list_all (\<lambda>b. b < 128) (debug_u64 n)\<close> by (simp add: list_all_iff word_less_nat_alt)
  moreover have "map char_of (map unat (debug_u64 n)) = show_nat (unat n)"
    using digit by (simp add: debug_u64_def comp_def map_idI)
  ultimately show ?thesis by (simp add: line_format_def from_str_u64_def)
qed

section \<open>Laws of the Kafka sink\<close>

lemma map_filter_append: "List.map_filter f (xs @ ys) = List.map_filter f xs @ List.map_filter f ys"
  by (simp add: List.map_filter_def)

text \<open>What a producer is asked to do for a batch: one send for each of the records, in order, then one wait for each
  future. What becomes of a send is the producer's affair; the sink drops the result.\<close>

fun sends :: "('p, 'u) kafka_producer \<Rightarrow> string \<Rightarrow> bytes list \<Rightarrow> 'p \<Rightarrow> 'u list \<times> 'p" where
  "sends P topic [] p = ([], p)"
| "sends P topic (bs # bss) p =
     (case kp_send P topic bs p of (u, q) \<Rightarrow> case sends P topic bss q of (us, q') \<Rightarrow> (u # us, q'))"

definition offer :: "('p, 'u) kafka_producer \<Rightarrow> string \<Rightarrow> 'p \<Rightarrow> bytes list \<Rightarrow> 'p" where
  "offer P topic p bss = (case sends P topic bss p of (us, q) \<Rightarrow> foldl (\<lambda>q u. kp_wait P u q) q us)"

definition serialised :: "('i \<Rightarrow> bytes option) \<Rightarrow> 'i arcon_element list \<Rightarrow> bytes list" where
  "serialised json es = List.map_filter (\<lambda>e. json (data e)) es"

lemma send_all_sends: "send_all P json topic es p = sends P topic (serialised json es) p"
  by (induction es arbitrary: p) (simp_all add: serialised_def map_filter_simps split: option.split)

lemma commit_offers:
  "commit_buffer P json s =
    (Ok (), s\<lparr>sk_buffer := [], sk_producer := offer P (sk_topic s) (sk_producer s) (serialised json (sk_buffer s))\<rparr>)"
  by (simp add: commit_buffer_def send_all_sends offer_def split: prod.split)

fun elements_of :: "'i arcon_event list \<Rightarrow> 'i arcon_element list" where
  "elements_of [] = []"
| "elements_of (ElementEv e # es) = e # elements_of es"
| "elements_of (_ # es) = elements_of es"

fun is_epoch :: "'i arcon_event \<Rightarrow> bool" where
  "is_epoch (EpochEv _) = True"
| "is_epoch _ = False"

text \<open>The events after the last epoch.\<close>

definition unsettled :: "'i arcon_event list \<Rightarrow> 'i arcon_event list" where
  "unsettled es = rev (takeWhile (\<lambda>e. \<not> is_epoch e) (rev es))"

lemma elements_of_append [simp]: "elements_of (es @ es') = elements_of es @ elements_of es'"
  by (induction es rule: elements_of.induct) simp_all

lemma unsettled_snoc: "unsettled (es @ [e]) = (if is_epoch e then [] else unsettled es @ [e])"
  by (simp add: unsettled_def)

lemma unsettled_all: "\<not> list_ex is_epoch es \<Longrightarrow> unsettled es = es"
  by (simp add: unsettled_def list_ex_iff) (metis rev_rev_ident set_rev takeWhile_eq_all_conv)

lemma kafka_sink_events_snoc:
  "kafka_sink_events P json (es @ [e]) = bind_s (kafka_sink_events P json es) (\<lambda>_. kafka_sink_event P json e)"
  by (induction es) (simp_all add: bind_s_assoc bind_s_left fun_eq_iff [symmetric])

text \<open>The elements in front of each epoch since the one before; \<open>buf\<close> is in front of the first.\<close>

fun batches :: "'i arcon_element list \<Rightarrow> 'i arcon_event list \<Rightarrow> 'i arcon_element list list" where
  "batches buf [] = []"
| "batches buf (ElementEv e # es) = batches (buf @ [e]) es"
| "batches buf (EpochEv _ # es) = buf # batches [] es"
| "batches buf (_ # es) = batches buf es"

lemma unsettled_Cons:
  "unsettled (e # es) = (if list_ex is_epoch es then unsettled es else if is_epoch e then es else e # es)"
proof (cases "list_ex is_epoch es")
  case True
  then show ?thesis by (auto simp: unsettled_def list_ex_iff takeWhile_append)
next
  case False
  then have "takeWhile (\<lambda>e. \<not> is_epoch e) (rev es @ [e]) = rev es @ takeWhile (\<lambda>e. \<not> is_epoch e) [e]"
    by (intro takeWhile_append2) (auto simp: list_ex_iff)
  then show ?thesis using False by (simp add: unsettled_def)
qed

lemma batches_snoc:
  "batches buf (es @ [e]) = (if is_epoch e then batches buf es @ [if list_ex is_epoch es then elements_of (unsettled es)
     else buf @ elements_of es] else batches buf es)"
proof (induction buf es rule: batches.induct)
  case (1 buf)
  then show ?case by (cases e) simp_all
qed (simp_all add: unsettled_Cons unsettled_all)

lemma concat_batches:
  "concat (batches buf es) @ (if list_ex is_epoch es then [] else buf) @ elements_of (unsettled es) = buf @ elements_of es"
proof (induction es rule: rev_induct)
  case Nil
  then show ?case by (simp add: unsettled_def)
next
  case (snoc e es)
  then show ?case
    by (cases e) (auto simp: batches_snoc unsettled_snoc unsettled_all)
qed

lemma length_batches: "length (batches buf es) = length (filter is_epoch es)"
  by (induction buf es rule: batches.induct) simp_all

lemma sink_events_run:
  "\<exists>s'. kafka_sink_events P json es s = (Ok (), s') \<and> sk_topic s' = sk_topic s \<and>
     sk_producer s' = foldl (offer P (sk_topic s)) (sk_producer s) (map (serialised json) (batches (sk_buffer s) es)) \<and>
     sk_buffer s' = (if list_ex is_epoch es then [] else sk_buffer s) @ elements_of (unsettled es)"
proof (induction es rule: rev_induct)
  case Nil
  then show ?case by (simp add: unsettled_def)
next
  case (snoc e es)
  then obtain s1 where s1: "kafka_sink_events P json es s = (Ok (), s1)" "sk_topic s1 = sk_topic s"
      "sk_producer s1 = foldl (offer P (sk_topic s)) (sk_producer s) (map (serialised json) (batches (sk_buffer s) es))"
      "sk_buffer s1 = (if list_ex is_epoch es then [] else sk_buffer s) @ elements_of (unsettled es)"
    by blast
  show ?case
  proof (cases e)
    case (EpochEv x)
    have "sk_buffer s1 = (if list_ex is_epoch es then elements_of (unsettled es) else sk_buffer s @ elements_of es)"
      using s1(4) unsettled_all [of es] by auto
    then show ?thesis
      using s1(1-3) by (simp add: EpochEv kafka_sink_events_snoc bind_s_def kafka_sink_epoch_def commit_offers batches_snoc unsettled_snoc)
  qed (use s1 in \<open>auto simp: kafka_sink_events_snoc bind_s_def kafka_sink_element_def unsettled_snoc batches_snoc\<close>)
qed

section \<open>Laws of the socket sink\<close>

lemma nth_drop_split: "i < length xs \<Longrightarrow> mset (take i xs @ drop (Suc i) xs) + {#xs ! i#} = mset xs"
proof -
  assume "i < length xs"
  then have "mset xs = mset (take i xs @ xs ! i # drop (Suc i) xs)" using id_take_nth_drop [of i xs] by simp
  then show ?thesis by simp
qed

inductive_cases socket_step_cases: "socket_step json debug s s'"

lemma socket_step_balance:
  assumes "socket_step json debug s s'"
    and "mset (ss_sent s) + mset (ss_channel s) + mset (ss_spawned s) \<subseteq># mset (ss_handled s)"
    and "ss_alive s \<Longrightarrow> mset (ss_handled s) = mset (ss_sent s) + mset (ss_channel s) + mset (ss_spawned s)"
  shows "mset (ss_sent s') + mset (ss_channel s') + mset (ss_spawned s') \<subseteq># mset (ss_handled s') \<and>
    (ss_alive s' \<longrightarrow> mset (ss_handled s') = mset (ss_sent s') + mset (ss_channel s') + mset (ss_spawned s'))"
  using assms(1)
proof cases
  case (handle e)
  then show ?thesis using assms(2,3) by (auto simp: socket_sink_element_def Let_def add.assoc)
next
  case (task i)
  have m: "mset (take i (ss_spawned s)) + mset (drop (Suc i) (ss_spawned s)) + {#ss_spawned s ! i#} = mset (ss_spawned s)"
    using nth_drop_split [OF task(2)] by simp
  then have le: "mset (take i (ss_spawned s)) + mset (drop (Suc i) (ss_spawned s)) \<subseteq># mset (ss_spawned s)"
    by (metis mset_subset_eq_add_left)
  show ?thesis
  proof (cases "ss_alive s")
    case True
    then show ?thesis using assms(3) m by (auto simp: task(1) run_task_def ac_simps simp flip: m)
  next
    case False
    then show ?thesis
      using subset_mset.order_trans [OF subset_mset.add_left_mono [OF le] assms(2)] by (simp add: task(1) run_task_def ac_simps)
  qed
next
  case (thread sent)
  then obtain b q where "ss_channel s = b # q" by (cases "ss_channel s") auto
  then show ?thesis
    using thread assms(2,3) by (auto simp: thread_send_def)
qed

lemma socket_run_balance:
  "socket_run json debug s \<Longrightarrow> mset (ss_sent s) + mset (ss_channel s) + mset (ss_spawned s) \<subseteq># mset (ss_handled s) \<and>
    (ss_alive s \<longrightarrow> mset (ss_handled s) = mset (ss_sent s) + mset (ss_channel s) + mset (ss_spawned s))"
proof (induction rule: socket_run.induct)
  case start
  then show ?case by (simp add: socket_sink_udp_def)
next
  case (step s s')
  then show ?case using socket_step_balance by blast
qed

text \<open>Two elements can arrive in the other order: the task of the second may run first.\<close>

lemma socket_sink_reorders:
  fixes a b :: "'i arcon_element"
  assumes "json (data a) = Some x" "json (data b) = Some y"
  shows "\<exists>s. socket_run json debug s \<and> ss_handled s = [x @ [10], y @ [10]] \<and> ss_sent s = [y @ [10], x @ [10]]"
proof -
  let ?s = "socket_sink_element json debug b (socket_sink_element json debug a socket_sink_udp)"
  let ?t = "run_task 0 (run_task 1 ?s)"
  have s: "?s = \<lparr>ss_handled = [x @ [10], y @ [10]], ss_spawned = [x @ [10], y @ [10]], ss_channel = [], ss_sent = [], ss_alive = True\<rparr>"
    by (simp add: socket_sink_element_def socket_sink_udp_def socket_format_def assms Let_def)
  have "socket_run json debug ?s"
    by (rule socket_run.step [OF socket_run.step [OF socket_run.start socket_step.handle] socket_step.handle])
  then have "socket_run json debug (run_task 1 ?s)" by (rule socket_run.step) (rule socket_step.task, simp add: s)
  then have "socket_run json debug ?t" by (rule socket_run.step) (rule socket_step.task, simp add: s run_task_def)
  then have "socket_run json debug (thread_send True ?t)"
    by (rule socket_run.step) (rule socket_step.thread, simp_all add: s run_task_def)
  then have "socket_run json debug (thread_send True (thread_send True ?t))"
    by (rule socket_run.step) (rule socket_step.thread, simp_all add: s run_task_def thread_send_def)
  moreover have "ss_handled (thread_send True (thread_send True ?t)) = [x @ [10], y @ [10]]"
      "ss_sent (thread_send True (thread_send True ?t)) = [y @ [10], x @ [10]]"
    by (simp_all add: s run_task_def thread_send_def)
  ultimately show ?thesis by blast
qed

section \<open>Properties\<close>

text \<open>A file in memory.\<close>

definition list_file :: "bytes file_ops" where
  "list_file = \<lparr>fo_open_append = (\<lambda>_. Some []), fo_write = (\<lambda>bs f. (True, f @ bs))\<rparr>"

interpretation list_file: appending_file list_file "\<lambda>f. f"
proof
  fix bs f :: bytes
  show "\<exists>k. snd (fo_write list_file bs f) = f @ take k bs \<and> (fst (fo_write list_file bs f) \<longrightarrow> length bs \<le> k)"
    by (rule exI [of _ "length bs"]) (simp add: list_file_def)
qed

text \<open>C20: The Kafka sink commits by epoch. Over any sequence of events the handlers return, and the producer, whatever
  it does with them, has been asked for exactly this: at each epoch, one send for every serialisable element that came
  since the epoch before, in order, and then one wait for each of the futures. Elements that cannot be serialised are
  skipped, and the result of a send is not looked at, so an element that the producer refuses is not sent again. What
  follows the last epoch is in the buffer; every element is in exactly one batch or in the buffer.\<close>

theorem kafka_sink_commits:
  "\<exists>s'. kafka_sink_events P json es s = (Ok (), s') \<and> sk_topic s' = sk_topic s \<and>
    sk_producer s' = foldl (offer P (sk_topic s)) (sk_producer s) (map (serialised json) (batches (sk_buffer s) es)) \<and>
    length (batches (sk_buffer s) es) = length (filter is_epoch es) \<and>
    concat (batches (sk_buffer s) es) @ sk_buffer s' = sk_buffer s @ elements_of es \<and>
    sk_buffer s' = (if list_ex is_epoch es then [] else sk_buffer s) @ elements_of (unsettled es)"
  using sink_events_run [of P json es s] length_batches [of "sk_buffer s" es] concat_batches [of "sk_buffer s" es] by force

text \<open>A producer whose queue takes one record: the state is what was delivered and what is queued; a send into
  the full queue is refused, and a wait delivers what is queued. One element cannot be serialised and one is refused, and
  neither is sent later.\<close>

definition short_queue :: "((string \<times> bytes) list \<times> (string \<times> bytes) list, bool) kafka_producer" where
  "short_queue =
     \<lparr>kp_send = (\<lambda>topic bs (d, q). if q = [] then (True, (d, [(topic, bs)])) else (False, (d, q))),
      kp_wait = (\<lambda>u (d, q). (d @ q, []))\<rparr>"

theorem kafka_sink_commits_witness:
  "\<exists>s'. kafka_sink_events short_queue (\<lambda>n. if n = 0 then None else Some [n])
      [ElementEv (element_new 4), WatermarkEv (Watermark 1), ElementEv (element_new 0), ElementEv (element_new 5),
       EpochEv (Epoch 0), ElementEv (element_new 6), EpochEv (Epoch 1), ElementEv (element_new 7)]
      \<lparr>sk_bootstrap_server = ''host'', sk_topic = ''out'', sk_offset = 0, sk_batch_size = 100, sk_producer = ([], []), sk_buffer = []\<rparr> = (Ok (), s') \<and>
    sk_producer s' = ([(''out'', [4]), (''out'', [6])], []) \<and> sk_buffer s' = [element_new 7]"
  using kafka_sink_commits [of short_queue "\<lambda>n. if n = 0 then None else Some [n]"
       "[ElementEv (element_new 4), WatermarkEv (Watermark 1), ElementEv (element_new 0), ElementEv (element_new 5),
       EpochEv (Epoch 0), ElementEv (element_new 6), EpochEv (Epoch 1), ElementEv (element_new 7)]"
       "\<lparr>sk_bootstrap_server = ''host'', sk_topic = ''out'', sk_offset = 0, sk_batch_size = 100, sk_producer = ([], []), sk_buffer = []\<rparr>"]
  by (simp add: unsettled_def serialised_def map_filter_simps element_new_def offer_def short_queue_def) blast

text \<open>C21: What the file sink writes, the file source reads, for elements of type \<^verbatim>\<open>u64\<close> (whose debug format is
  their decimal digits). The handler of an element always returns; a write that fails is only reported, and leaves a
  part of the line of its element. When every write succeeded and the file was empty before, a file source started on
  the file does exactly what a collection source does on the data of the elements: the same outcome and the same
  events.\<close>

theorem file_sink_read_back:
  assumes "appending_file F content" and "file_sink_elements F debug_u64 es s = (r, s')"
  shows "r = Ok () \<and>
    (\<exists>ps. content (fsk_file s') = content (fsk_file s) @ concat ps \<and>
      list_all2 (\<lambda>(e, ok) p. \<exists>k. p = take k (element_line debug_u64 e) \<and> (ok \<longrightarrow> p = element_line debug_u64 e))
        (zip es (writes_succeed F debug_u64 es (fsk_file s))) ps) \<and>
    (content (fsk_file s) = [] \<and> list_all (\<lambda>ok. ok) (writes_succeed F debug_u64 es (fsk_file s)) \<and>
       open_file path = Some (read_lines (content (fsk_file s'))) \<longrightarrow>
     (case (file_on_start E from_str_u64 open_file (local_file_source_new path sc), collection_run E (map data es) sc) of
        ((r1, f), (r2, c)) \<Rightarrow> r1 = r2 \<and> lf_source_ctx f = cs_source_ctx c))"
proof -
  have "parsed from_str_u64 (read_lines (concat (map (\<lambda>d. debug_u64 d @ [10]) (map data es)))) = map data es"
    by (rule parsed_lines) (simp add: debug_u64_line)
  then have "case (file_on_start E from_str_u64 open_file (local_file_source_new path sc), collection_run E (map data es) sc) of
        ((r1, f), (r2, c)) \<Rightarrow> r1 = r2 \<and> lf_source_ctx f = cs_source_ctx c"
    if "content (fsk_file s) = []" "list_all (\<lambda>ok. ok) (writes_succeed F debug_u64 es (fsk_file s))"
      "open_file path = Some (read_lines (content (fsk_file s')))"
    using appending_file.all_written [OF assms(1) that(2) assms(2)] that(1,3)
      local_file_as_collection [where open_file = open_file and path = path and E = E and parse = from_str_u64 and sc = sc]
    by (auto split: prod.splits)
  then show ?thesis using appending_file.sink_content [OF assms(1), of debug_u64 es s] assms(2) by auto
qed

theorem file_sink_read_back_witness:
  "\<exists>s'. file_sink_elements list_file debug_u64 [element_new 31, element_new 7] \<lparr>fsk_file = []\<rparr> = (Ok (), s') \<and>
     fsk_file s' = [51, 49, 10, 55, 10] \<and>
     (case (file_on_start demo_source_env from_str_u64 (\<lambda>_. Some (read_lines [51, 49, 10, 55, 10])) (local_file_source_new ''f'' demo_source_ctx),
        collection_run demo_source_env [31, 7] demo_source_ctx) of
      ((r1, f), (r2, c)) \<Rightarrow> r1 = r2 \<and> lf_source_ctx f = cs_source_ctx c)"
proof -
  let ?es = "[element_new 31, element_new 7] :: u64 arcon_element list"
  have d: "debug_u64 31 = [51, 49]" "debug_u64 7 = [55]"
    by (simp_all add: debug_u64_def show_nat.simps [of 31] show_nat.simps [of 3] show_nat.simps [of 7] digit_char_def char_of_def of_char_def bit_0)
  then have w: "file_sink_elements list_file debug_u64 ?es \<lparr>fsk_file = []\<rparr> = (Ok (), \<lparr>fsk_file = [51, 49, 10, 55, 10]\<rparr>)"
    by (simp add: bind_s_def file_sink_element_def list_file_def element_new_def)
  have "list_all (\<lambda>ok. ok) (writes_succeed list_file debug_u64 ?es [])" by (simp add: list_file_def)
  with file_sink_read_back [OF list_file.appending_file_axioms w, of "\<lambda>_. Some (read_lines [51, 49, 10, 55, 10])" "''f''"
      demo_source_env demo_source_ctx] w
  show ?thesis by (simp add: element_new_def)
qed

text \<open>C22: The socket sink loses nothing and duplicates nothing as long as its thread lives: whatever the order in
  which the spawned tasks run, what was sent, what waits in the channel and what is still with a task are
  together exactly what was handled, and once the thread is gone at most that. So when no task and no bytes
  are pending, everything was sent, in some order.\<close>

theorem socket_sink_delivers:
  assumes "socket_run json debug s"
  shows "mset (ss_sent s) + mset (ss_channel s) + mset (ss_spawned s) \<subseteq># mset (ss_handled s) \<and>
    (ss_alive s \<longrightarrow> mset (ss_handled s) = mset (ss_sent s) + mset (ss_channel s) + mset (ss_spawned s)) \<and>
    (ss_alive s \<and> ss_channel s = [] \<and> ss_spawned s = [] \<longrightarrow> mset (ss_sent s) = mset (ss_handled s))"
  using socket_run_balance [OF assms] by auto

theorem socket_sink_delivers_witness:
  "\<exists>s. socket_run Some (\<lambda>_. []) s \<and> ss_handled s = [[65, 10]] \<and>
    mset (ss_handled s) = mset (ss_sent s) + mset (ss_channel s) + mset (ss_spawned s)"
proof -
  let ?s = "socket_sink_element Some (\<lambda>_. []) (element_new [65]) socket_sink_udp"
  have s: "socket_run Some (\<lambda>_. []) ?s"
    by (rule socket_run.step [OF socket_run.start socket_step.handle])
  have "ss_alive ?s" "ss_handled ?s = [[65, 10]]"
    by (simp_all add: socket_sink_element_def socket_sink_udp_def socket_format_def element_new_def Let_def)
  with s socket_sink_delivers [OF s] show ?thesis by blast
qed

end
