(* ===== verification/Arcon_Types.thy ===== *)
theory Arcon_Types
  imports Stream_Data Complex_Main
begin

text \<open>
  Model of the \<^verbatim>\<open>ArconType\<close> implementations of \<^verbatim>\<open>src/data/mod.rs\<close> and of the identifiers in
  \<^verbatim>\<open>src/data/ser_id.rs\<close>. The trait is a record of its items. The key of a value is its hash under the
  \<^verbatim>\<open>DefaultHasher\<close> of the standard library, SipHash-1-3 with zero keys over the bytes that \<^verbatim>\<open>Hash\<close> writes.
  A float is its bit pattern; what the source uses of it (\<^verbatim>\<open>trunc\<close>, the saturating cast \<^verbatim>\<open>as u64\<close> and
  equality) is computed from sign, exponent and mantissa.
\<close>

unbundle bit_operations_syntax

section \<open>Hashing\<close>

subsection \<open>The hasher of the standard library\<close>

record sip_state =
  sip_v0 :: u64
  sip_v1 :: u64
  sip_v2 :: u64
  sip_v3 :: u64

definition sip_new :: sip_state where
  "sip_new = \<lparr>sip_v0 = 0x736f6d6570736575, sip_v1 = 0x646f72616e646f6d,
     sip_v2 = 0x6c7967656e657261, sip_v3 = 0x7465646279746573\<rparr>"

definition sip_round :: "sip_state \<Rightarrow> sip_state" where
  "sip_round s =
     (let v0 = sip_v0 s + sip_v1 s; v2 = sip_v2 s + sip_v3 s;
          v1 = word_rotl 13 (sip_v1 s) XOR v0; v0 = word_rotl 32 v0;
          v3 = word_rotl 16 (sip_v3 s) XOR v2;
          v0 = v0 + v3; v3 = word_rotl 21 v3 XOR v0;
          v2 = v2 + v1; v1 = word_rotl 17 v1 XOR v2; v2 = word_rotl 32 v2
      in \<lparr>sip_v0 = v0, sip_v1 = v1, sip_v2 = v2, sip_v3 = v3\<rparr>)"

definition sip_word :: "u64 \<Rightarrow> sip_state \<Rightarrow> sip_state" where
  "sip_word m s =
     (let s = sip_round (s\<lparr>sip_v3 := sip_v3 s XOR m\<rparr>) in s\<lparr>sip_v0 := sip_v0 s XOR m\<rparr>)"

fun sip_write :: "bytes \<Rightarrow> sip_state \<Rightarrow> sip_state \<times> bytes" where
  "sip_write (b0 # b1 # b2 # b3 # b4 # b5 # b6 # b7 # bs) s =
     sip_write bs (sip_word (from_le [b0, b1, b2, b3, b4, b5, b6, b7]) s)"
| "sip_write bs s = (s, bs)"

definition sip_hash :: "bytes \<Rightarrow> u64" where
  "sip_hash bs =
     (case sip_write bs sip_new of (s, tail) \<Rightarrow>
        let s = sip_word (push_bit 56 (word_of_nat (length bs)) OR from_le tail) s;
            s = sip_round (sip_round (sip_round (s\<lparr>sip_v2 := sip_v2 s XOR 0xff\<rparr>)))
        in sip_v0 s XOR sip_v1 s XOR sip_v2 s XOR sip_v3 s)"

subsection \<open>\<open>calc_hash\<close>\<close>

text \<open>The argument is the list of bytes that the \<^verbatim>\<open>Hash\<close> of a type writes to the hasher.\<close>

definition calc_hash :: "('a \<Rightarrow> bytes) \<Rightarrow> 'a \<Rightarrow> u64" where
  "calc_hash hash t = sip_hash (hash t)"

definition hash_bool :: "bool \<Rightarrow> bytes" where
  "hash_bool b = [if b then 1 else 0]"

definition hash_string :: "bytes \<Rightarrow> bytes" where
  "hash_string utf8 = utf8 @ [0xff]"

section \<open>Floats\<close>

subsection \<open>The formats of the standard\<close>

record float_format =
  ff_mantissa :: nat
  ff_exponent :: nat

definition f32_format :: float_format where
  "f32_format = \<lparr>ff_mantissa = 23, ff_exponent = 8\<rparr>"

definition f64_format :: float_format where
  "f64_format = \<lparr>ff_mantissa = 52, ff_exponent = 11\<rparr>"

definition ff_bias :: "float_format \<Rightarrow> nat" where
  "ff_bias F = 2 ^ (ff_exponent F - 1) - 1"

definition float_negative :: "float_format \<Rightarrow> 'n::len word \<Rightarrow> bool" where
  "float_negative F x = bit x (ff_mantissa F + ff_exponent F)"

definition float_exponent :: "float_format \<Rightarrow> 'n::len word \<Rightarrow> nat" where
  "float_exponent F x = unat (take_bit (ff_exponent F) (drop_bit (ff_mantissa F) x))"

definition float_mantissa :: "float_format \<Rightarrow> 'n::len word \<Rightarrow> nat" where
  "float_mantissa F x = unat (take_bit (ff_mantissa F) x)"

definition float_special :: "float_format \<Rightarrow> 'n::len word \<Rightarrow> bool" where
  "float_special F x \<longleftrightarrow> float_exponent F x = 2 ^ ff_exponent F - 1"

definition float_nan :: "float_format \<Rightarrow> 'n::len word \<Rightarrow> bool" where
  "float_nan F x \<longleftrightarrow> float_special F x \<and> float_mantissa F x \<noteq> 0"

text \<open>The magnitude of a finite float, in units of \<open>2\<close> to the power of minus \<open>ff_bias F + ff_mantissa F\<close>.\<close>

definition float_units :: "float_format \<Rightarrow> 'n::len word \<Rightarrow> nat" where
  "float_units F x =
     (if float_exponent F x = 0 then float_mantissa F x * 2
      else (2 ^ ff_mantissa F + float_mantissa F x) * 2 ^ float_exponent F x)"

text \<open>\<^verbatim>\<open>trunc() as u64\<close>: towards zero; a negative number and NaN become 0, what is too large becomes
  \<^verbatim>\<open>u64::MAX\<close>.\<close>

definition trunc_as_u64 :: "float_format \<Rightarrow> 'n::len word \<Rightarrow> u64" where
  "trunc_as_u64 F x =
     (if float_nan F x \<or> float_negative F x then 0
      else if float_special F x then word_of_nat (2 ^ 64 - 1)
      else word_of_nat (min (2 ^ 64 - 1) (float_units F x div 2 ^ (ff_bias F + ff_mantissa F))))"

text \<open>\<^verbatim>\<open>==\<close>: NaN differs from everything, the two zeros are equal.\<close>

definition float_eq :: "float_format \<Rightarrow> 'n::len word \<Rightarrow> 'n word \<Rightarrow> bool" where
  "float_eq F x y \<longleftrightarrow> \<not> float_nan F x \<and> \<not> float_nan F y \<and>
     float_special F x = float_special F y \<and> (float_special F x \<or> float_units F x = float_units F y) \<and>
     (float_negative F x = float_negative F y \<or> \<not> float_special F x \<and> float_units F x = 0)"

subsection \<open>\<open>ArconF32\<close> and \<open>ArconF64\<close>\<close>

datatype arcon_f32 = ArconF32 (f32_value: "32 word")

datatype arcon_f64 = ArconF64 (f64_value: "64 word")

definition f32_new :: "32 word \<Rightarrow> arcon_f32" where
  "f32_new v = ArconF32 v"

definition f64_new :: "64 word \<Rightarrow> arcon_f64" where
  "f64_new v = ArconF64 v"

definition hash_f32 :: "arcon_f32 \<Rightarrow> bytes" where
  "hash_f32 x = to_le (trunc_as_u64 f32_format (f32_value x))"

definition hash_f64 :: "arcon_f64 \<Rightarrow> bytes" where
  "hash_f64 x = to_le (trunc_as_u64 f64_format (f64_value x))"

definition f32_eq :: "arcon_f32 \<Rightarrow> arcon_f32 \<Rightarrow> bool" where
  "f32_eq x y = float_eq f32_format (f32_value x) (f32_value y)"

definition f64_eq :: "arcon_f64 \<Rightarrow> arcon_f64 \<Rightarrow> bool" where
  "f64_eq x y = float_eq f64_format (f64_value x) (f64_value y)"

section \<open>The trait \<open>ArconType\<close>\<close>

record 'a arcon_type =
  UNSAFE_SER_ID :: u64
  RELIABLE_SER_ID :: u64
  VERSION_ID :: u32
  get_key :: "'a \<Rightarrow> u64"

definition u32_type :: "u32 arcon_type" where
  "u32_type = \<lparr>UNSAFE_SER_ID = 50, RELIABLE_SER_ID = 51, VERSION_ID = 1, get_key = calc_hash to_le\<rparr>"

definition u64_type :: "u64 arcon_type" where
  "u64_type = \<lparr>UNSAFE_SER_ID = 52, RELIABLE_SER_ID = 53, VERSION_ID = 1, get_key = calc_hash to_le\<rparr>"

text \<open>A signed number is its word, in two's complement.\<close>

definition i32_type :: "32 word arcon_type" where
  "i32_type = \<lparr>UNSAFE_SER_ID = 54, RELIABLE_SER_ID = 55, VERSION_ID = 1, get_key = calc_hash to_le\<rparr>"

definition i64_type :: "64 word arcon_type" where
  "i64_type = \<lparr>UNSAFE_SER_ID = 56, RELIABLE_SER_ID = 57, VERSION_ID = 1, get_key = calc_hash to_le\<rparr>"

definition f32_type :: "arcon_f32 arcon_type" where
  "f32_type = \<lparr>UNSAFE_SER_ID = 58, RELIABLE_SER_ID = 59, VERSION_ID = 1, get_key = calc_hash hash_f32\<rparr>"

definition f64_type :: "arcon_f64 arcon_type" where
  "f64_type = \<lparr>UNSAFE_SER_ID = 60, RELIABLE_SER_ID = 61, VERSION_ID = 1, get_key = calc_hash hash_f64\<rparr>"

definition bool_type :: "bool arcon_type" where
  "bool_type = \<lparr>UNSAFE_SER_ID = 64, RELIABLE_SER_ID = 65, VERSION_ID = 1, get_key = calc_hash hash_bool\<rparr>"

definition string_type :: "bytes arcon_type" where
  "string_type = \<lparr>UNSAFE_SER_ID = 62, RELIABLE_SER_ID = 63, VERSION_ID = 1, get_key = calc_hash hash_string\<rparr>"

text \<open>\<^verbatim>\<open>ArconNever\<close> has no values, which a type of HOL cannot be; its items do not depend on any.\<close>

definition never_type :: "'a arcon_type" where
  "never_type = \<lparr>UNSAFE_SER_ID = 49, RELIABLE_SER_ID = 49, VERSION_ID = 1, get_key = (\<lambda>_. 0)\<rparr>"

section \<open>Laws\<close>

text \<open>The number that a finite float stands for.\<close>

definition float_real :: "float_format \<Rightarrow> 'n::len word \<Rightarrow> real" where
  "float_real F x = (if float_negative F x then -1 else 1) * (real (float_units F x) / 2 ^ (ff_bias F + ff_mantissa F))"

text \<open>An integer cut to the range of \<^verbatim>\<open>u64\<close>.\<close>

definition saturated :: "int \<Rightarrow> u64" where
  "saturated i = word_of_int (min (2 ^ 64 - 1) (max 0 i))"

lemma saturated_nat: "saturated (int n) = word_of_nat (min (2 ^ 64 - 1) n)"
proof -
  have "min (2 ^ 64 - 1) (max 0 (int n)) = int (min (2 ^ 64 - 1) n)" by (simp add: min_def)
  then show ?thesis unfolding saturated_def by simp
qed

lemma trunc_is_floor:
  assumes "\<not> float_special F x"
  shows "trunc_as_u64 F x = saturated \<lfloor>float_real F x\<rfloor>"
proof (cases "float_negative F x")
  case True
  then have "float_real F x \<le> 0" by (simp add: float_real_def)
  then have "max 0 \<lfloor>float_real F x\<rfloor> = 0" by (simp add: floor_le_iff max_def)
  then show ?thesis using True by (simp add: trunc_as_u64_def saturated_def)
next
  case False
  have "\<lfloor>float_real F x\<rfloor> = int (float_units F x div 2 ^ (ff_bias F + ff_mantissa F))"
    using False floor_divide_of_nat_eq [of "float_units F x" "2 ^ (ff_bias F + ff_mantissa F)"] by (simp add: float_real_def)
  then show ?thesis
    unfolding trunc_as_u64_def float_nan_def using False assms by (simp only: saturated_nat simp_thms if_False)
qed

lemma float_eq_is_real_eq:
  assumes "\<not> float_special F x" and "\<not> float_special F y"
  shows "float_eq F x y \<longleftrightarrow> float_real F x = float_real F y"
  using assms by (auto simp: float_eq_def float_nan_def float_real_def)

lemma float_eq_trunc: "float_eq F x y \<Longrightarrow> trunc_as_u64 F x = trunc_as_u64 F y"
  by (auto simp: float_eq_def trunc_as_u64_def float_special_def)

section \<open>Properties\<close>

text \<open>The keys of floats are consistent. The key of a finite float is that of its
  value rounded down and cut to the range of an unsigned number, so all numbers below one share the key of zero; for finite floats \<^verbatim>\<open>==\<close> is equality of the values; and floats that are equal, the two zeros
  and infinities included, have the same key, so that elements with equal data go to the same channel.\<close>

theorem float_keys:
  "(\<not> float_special f64_format (f64_value x) \<longrightarrow>
      get_key f64_type x = get_key u64_type (saturated \<lfloor>float_real f64_format (f64_value x)\<rfloor>)) \<and>
   (\<not> float_special f64_format (f64_value x) \<longrightarrow> \<not> float_special f64_format (f64_value y) \<longrightarrow>
      f64_eq x y = (float_real f64_format (f64_value x) = float_real f64_format (f64_value y))) \<and>
   (f64_eq x y \<longrightarrow> get_key f64_type x = get_key f64_type y) \<and>
   (\<not> float_special f32_format (f32_value a) \<longrightarrow>
      get_key f32_type a = get_key u64_type (saturated \<lfloor>float_real f32_format (f32_value a)\<rfloor>)) \<and>
   (\<not> float_special f32_format (f32_value a) \<longrightarrow> \<not> float_special f32_format (f32_value b) \<longrightarrow>
      f32_eq a b = (float_real f32_format (f32_value a) = float_real f32_format (f32_value b))) \<and>
   (f32_eq a b \<longrightarrow> get_key f32_type a = get_key f32_type b)"
  by (simp add: f64_type_def f32_type_def u64_type_def calc_hash_def hash_f64_def hash_f32_def f64_eq_def f32_eq_def
      float_eq_is_real_eq float_eq_trunc flip: trunc_is_floor)

text \<open>The numbers 3.75 and -0.5, and the zeros.\<close>

theorem float_keys_witness:
  "get_key f64_type (ArconF64 0x400E000000000000) = get_key u64_type 3 \<and>
   get_key f32_type (ArconF32 0xBF000000) = get_key u64_type 0 \<and>
   get_key f64_type (ArconF64 0) = get_key f64_type (ArconF64 0x8000000000000000)"
  using float_keys [of "ArconF64 0x400E000000000000" "ArconF64 0" "ArconF32 0xBF000000" "ArconF32 0"]
    float_keys [of "ArconF64 0" "ArconF64 0x8000000000000000" "ArconF32 0" "ArconF32 0"]
  by (auto simp: f64_eq_def float_eq_def float_nan_def float_special_def float_exponent_def float_mantissa_def float_negative_def
      float_units_def float_real_def f64_format_def f32_format_def ff_bias_def take_bit_eq_mod saturated_def)

end
