(* ===== verification/Flight_Serde.thy ===== *)
theory Flight_Serde
  imports Node_Backend Arcon_Types Serialization
begin

text \<open>
  Model of \<^verbatim>\<open>src/data/flight_serde.rs\<close>, of \<^verbatim>\<open>BufMutWriter\<close> in \<^verbatim>\<open>src/data/mod.rs\<close>, and of the receipt of network
  messages by nodes (\<^verbatim>\<open>receive_network\<close> in \<^verbatim>\<open>src/stream/node\<close>). The reliable serde writes a message with the
  prost codec, the unsafe one a version and then the memory of the message with the crate abomonation.

  Both codecs are parameters. Abomonation hands the writer a list of slices. A network message is known
  through its identifier and \<^verbatim>\<open>try_deserialise\<close> of the actor framework (locale \<open>net_layer\<close>). A \<^verbatim>\<open>Buf\<close> is the
  list of the pieces that its unread bytes are stored in: \<^verbatim>\<open>bytes()\<close> is the first of them only.
\<close>

section \<open>Model\<close>

subsection \<open>Codecs\<close>

record 'm flight_codecs =
  fc_encode :: "'m \<Rightarrow> bytes"
  fc_decode :: "bytes \<Rightarrow> string + 'm"
  fc_slices :: "'m \<Rightarrow> bytes list"
  fc_measure :: "'m \<Rightarrow> nat"
  fc_abomonate :: "bytes \<Rightarrow> ('m \<times> bytes) option"

text \<open>Any error of the framework other than \<^verbatim>\<open>BufferError\<close> is \<open>OtherSerError\<close>.\<close>

definition invalid_data :: "string \<Rightarrow> ser_error" where
  "invalid_data msg = OtherSerError (''InvalidData: '' @ msg)"

definition flight_serde_default :: flight_serde where
  "flight_serde_default = Reliable"

subsection \<open>Buffers\<close>

definition to_be :: "'n::len word \<Rightarrow> bytes" where
  "to_be w = rev (to_le w)"

definition from_be :: "bytes \<Rightarrow> 'n::len word" where
  "from_be bs = from_le (rev bs)"

type_synonym buf = "bytes list"

definition buf_bytes :: "buf \<Rightarrow> bytes" where
  "buf_bytes b = (case b of [] \<Rightarrow> [] | c # _ \<Rightarrow> c)"

fun buf_advance :: "nat \<Rightarrow> buf \<Rightarrow> buf" where
  "buf_advance n [] = []"
| "buf_advance n (c # cs) = (if n < length c then drop n c # cs else buf_advance (n - length c) cs)"

definition get_u32 :: "(buf, 'e, u32) action" where
  "get_u32 b =
     (if length (concat b) < 4 then (Panic ''assertion failed: self.remaining() >= dst.len()'', b)
      else (Ok (from_be (take 4 (concat b))), buf_advance 4 b))"

definition put_u32 :: "u32 \<Rightarrow> (buf_mut, 'e, unit) action" where
  "put_u32 w t =
     (if bm_room t < 4 then (Panic ''assertion failed: self.remaining_mut() >= src.len()'', t)
      else (Ok (), put_slice (to_be w) t))"

text \<open>\<^verbatim>\<open>BufMutWriter\<close> writes as much as there is room; \<^verbatim>\<open>write_all\<close> of the standard library repeats this and fails
  when nothing more can be written.\<close>

definition writer_write :: "bytes \<Rightarrow> buf_mut \<Rightarrow> nat \<times> buf_mut" where
  "writer_write src t = (let n = min (bm_room t) (length src) in (n, put_slice (take n src) t))"

function write_all :: "bytes \<Rightarrow> (buf_mut, string, unit) action" where
  "write_all src t =
     (if src = [] then (Ok (), t)
      else case writer_write src t of (n, t') \<Rightarrow>
        if n = 0 then (Err ''failed to write whole buffer'', t') else write_all (drop n src) t')"
  by auto

termination
  by (relation "measure (\<lambda>(src, t). length src)") (auto simp: writer_write_def Let_def)

declare write_all.simps [simp del]

fun write_slices :: "bytes list \<Rightarrow> (buf_mut, string, unit) action" where
  "write_slices [] = return_s ()"
| "write_slices (s # ss) = bind_s (write_all s) (\<lambda>_. write_slices ss)"

subsection \<open>The reliable serde\<close>

definition reliable_deserialise :: "'m flight_codecs \<Rightarrow> (buf, ser_error, 'm) action" where
  "reliable_deserialise C b =
     (case fc_decode C (buf_bytes b) of
        Inr m \<Rightarrow> (Ok m, b)
      | Inl e \<Rightarrow> (Err (invalid_data e), b))"

definition reliable_size_hint :: "'m flight_codecs \<Rightarrow> 'm \<Rightarrow> nat option" where
  "reliable_size_hint C m = Some (length (fc_encode C m))"

definition reliable_serialise :: "'m flight_codecs \<Rightarrow> 'm \<Rightarrow> (buf_mut, ser_error, unit) action" where
  "reliable_serialise C m t =
     (if bm_room t < length (fc_encode C m)
      then (Err (invalid_data ''failed to encode message; insufficient buffer capacity''), t)
      else (Ok (), put_slice (fc_encode C m) t))"

subsection \<open>The unsafe serde\<close>

definition unsafe_deserialise :: "'a arcon_type \<Rightarrow> 'm flight_codecs \<Rightarrow> (buf, ser_error, 'm) action" where
  "unsafe_deserialise A C =
     bind_s get_u32 (\<lambda>version_id b.
       if version_id \<noteq> VERSION_ID A then (Err (invalid_data ''Mismatch on ArconType version''), b)
       else (case fc_abomonate C (buf_bytes b) of
               Some (msg, _) \<Rightarrow> (Ok msg, b)
             | None \<Rightarrow> (Err (invalid_data ''Failed to decode flight data''), b)))"

definition unsafe_size_hint :: "'m flight_codecs \<Rightarrow> 'm \<Rightarrow> nat option" where
  "unsafe_size_hint C m = Some (4 + fc_measure C m)"

definition unsafe_serialise :: "'a arcon_type \<Rightarrow> 'm flight_codecs \<Rightarrow> 'm \<Rightarrow> (buf_mut, ser_error, unit) action" where
  "unsafe_serialise A C m =
     bind_s (put_u32 (VERSION_ID A)) (\<lambda>_ t.
       case write_slices (fc_slices C m) t of
         (r, t) \<Rightarrow> (map_err (\<lambda>_. invalid_data ''Failed to encode unsafe flight data'') r, t))"

subsection \<open>Receipt of network messages\<close>

record 'm deserialiser =
  de_id :: u64
  de_run :: "(buf, ser_error, 'm) action"

definition reliable_serde :: "'a arcon_type \<Rightarrow> 'm flight_codecs \<Rightarrow> 'm deserialiser" where
  "reliable_serde A C = \<lparr>de_id = RELIABLE_SER_ID A, de_run = reliable_deserialise C\<rparr>"

definition unsafe_serde :: "'a arcon_type \<Rightarrow> 'm flight_codecs \<Rightarrow> 'm deserialiser" where
  "unsafe_serde A C = \<lparr>de_id = UNSAFE_SER_ID A, de_run = unsafe_deserialise A C\<rparr>"

datatype unpack_error = NoIdMatch | DeserError ser_error

record ('n, 'm) net_api =
  na_ser_id :: "'n \<Rightarrow> u64"
  na_try_deserialise :: "'m deserialiser \<Rightarrow> 'n \<Rightarrow> (unpack_error, 'm) outcome"

definition unpack_message ::
    "('n, 'm) net_api \<Rightarrow> 'a arcon_type \<Rightarrow> 'm flight_codecs \<Rightarrow> 'n \<Rightarrow> (arcon_error, 'm) outcome" where
  "unpack_message N A C msg =
     (let ser_id = na_ser_id N msg in
      if ser_id = RELIABLE_SER_ID A
      then map_err (\<lambda>_. new_arcon ''Failed to unpack reliable ArconMessage'') (na_try_deserialise N (reliable_serde A C) msg)
      else if ser_id = UNSAFE_SER_ID A
      then map_err (\<lambda>_. new_arcon ''Failed to unpack unreliable ArconMessage'') (na_try_deserialise N (unsafe_serde A C) msg)
      else Panic ''Unexpected deserialiser'')"

text \<open>Errors are logged only.\<close>

definition receive_network ::
    "('c, 't, 'b, 'm, 'i, 'o, 'p) node_env \<Rightarrow> ('n, 'i raw_message) net_api \<Rightarrow> 'i arcon_type \<Rightarrow> 'i raw_message flight_codecs
      \<Rightarrow> 'n \<Rightarrow> ('c, 't, 'b, 'm, unit) node_action" where
  "receive_network E N A C msg n =
     (case unpack_message N A C msg of
        Ok m \<Rightarrow> (case handle_raw_msg E m n of (Err _, n') \<Rightarrow> (Ok (), n') | r \<Rightarrow> r)
      | Err _ \<Rightarrow> (Ok (), n)
      | Panic p \<Rightarrow> (Panic p, n)
      | NoFuel \<Rightarrow> (NoFuel, n))"

definition debug_receive_local :: "'i raw_message \<Rightarrow> ('i debug_node, arcon_error, unit) action" where
  "debug_receive_local msg = debug_handle_events (rm_events msg)"

definition debug_receive_network ::
    "('n, 'i raw_message) net_api \<Rightarrow> 'i arcon_type \<Rightarrow> 'i raw_message flight_codecs \<Rightarrow> 'n
      \<Rightarrow> ('i debug_node, arcon_error, unit) action" where
  "debug_receive_network N A C msg n =
     (case unpack_message N A C msg of
        Ok m \<Rightarrow> debug_handle_events (rm_events m) n
      | Err _ \<Rightarrow> (Ok (), n)
      | Panic p \<Rightarrow> (Panic p, n)
      | NoFuel \<Rightarrow> (NoFuel, n))"

section \<open>Laws\<close>

definition flight_law :: "'m flight_codecs \<Rightarrow> bool" where
  "flight_law C \<longleftrightarrow>
     (\<forall>m. fc_decode C (fc_encode C m) = Inr m) \<and>
     (\<forall>m rest. fc_abomonate C (concat (fc_slices C m) @ rest) = Some (m, rest)) \<and>
     (\<forall>m. fc_measure C m = length (concat (fc_slices C m)))"

lemma map_err_map_err: "map_err f (map_err g r) = map_err (f \<circ> g) r"
  by (cases r) simp_all

locale net_layer =
  fixes N :: "('n, 'm) net_api" and content :: "'n \<Rightarrow> buf"
  assumes try_deserialise: "na_try_deserialise N D msg =
    (if de_id D = na_ser_id N msg then map_err DeserError (fst (de_run D (content msg))) else Err NoIdMatch)"
begin

lemma unpack_eq:
  "unpack_message N A C msg =
     (if na_ser_id N msg = RELIABLE_SER_ID A
      then map_err (\<lambda>_. new_arcon ''Failed to unpack reliable ArconMessage'') (fst (reliable_deserialise C (content msg)))
      else if na_ser_id N msg = UNSAFE_SER_ID A
      then map_err (\<lambda>_. new_arcon ''Failed to unpack unreliable ArconMessage'') (fst (unsafe_deserialise A C (content msg)))
      else Panic ''Unexpected deserialiser'')"
  by (simp add: unpack_message_def try_deserialise Let_def reliable_serde_def unsafe_serde_def map_err_map_err o_def)

end

lemma from_be_to_be: "8 dvd LENGTH('n) \<Longrightarrow> from_be (to_be w) = (w :: 'n::len word)"
  by (simp add: from_be_def to_be_def from_le_to_le)

lemma length_to_be [simp]: "length (to_be (w :: 'n::len word)) = LENGTH('n) div 8"
  by (simp add: to_be_def)

lemma write_all_room: "length src \<le> bm_room t \<Longrightarrow> write_all src t = (Ok (), put_slice src t)"
  by (simp add: write_all.simps [of src] write_all.simps [of "[]"] writer_write_def Let_def)

lemma write_slices_room:
  "length (concat ss) \<le> bm_room t \<Longrightarrow> write_slices ss t = (Ok (), put_slice (concat ss) t)"
  by (induction ss arbitrary: t) (simp_all add: write_all_room put_slice_append)

text \<open>A message as \<^verbatim>\<open>send\<close> wraps it for a remote channel, and the bytes that stand for it.\<close>

definition flight_ser_id :: "flight_serde \<Rightarrow> 'a arcon_type \<Rightarrow> u64" where
  "flight_ser_id fs A = (case fs of Reliable \<Rightarrow> RELIABLE_SER_ID A | Unsafe \<Rightarrow> UNSAFE_SER_ID A)"

definition flight_serialise ::
    "flight_serde \<Rightarrow> 'a arcon_type \<Rightarrow> 'm flight_codecs \<Rightarrow> 'm \<Rightarrow> (buf_mut, ser_error, unit) action" where
  "flight_serialise fs A C = (case fs of Reliable \<Rightarrow> reliable_serialise C | Unsafe \<Rightarrow> unsafe_serialise A C)"

definition flight_size_hint :: "flight_serde \<Rightarrow> 'm flight_codecs \<Rightarrow> 'm \<Rightarrow> nat option" where
  "flight_size_hint fs = (case fs of Reliable \<Rightarrow> reliable_size_hint | Unsafe \<Rightarrow> unsafe_size_hint)"

definition flight_wire :: "flight_serde \<Rightarrow> 'a arcon_type \<Rightarrow> 'm flight_codecs \<Rightarrow> 'm \<Rightarrow> bytes" where
  "flight_wire fs A C m =
     (case fs of Reliable \<Rightarrow> fc_encode C m | Unsafe \<Rightarrow> to_be (VERSION_ID A) @ concat (fc_slices C m))"

lemma flight_serialise_room:
  assumes "flight_law C" and "length (flight_wire fs A C m) \<le> bm_room t"
  shows "flight_serialise fs A C m t = (Ok (), put_slice (flight_wire fs A C m) t)"
    and "flight_size_hint fs C m = Some (length (flight_wire fs A C m))"
  using assms
  by (cases fs; simp add: flight_serialise_def flight_wire_def flight_size_hint_def reliable_serialise_def unsafe_serialise_def
      bind_s_def put_u32_def write_slices_room put_slice_append reliable_size_hint_def unsafe_size_hint_def flight_law_def)+

text \<open>A buffer in one piece.\<close>

lemma one_piece: "length b \<le> 1 \<Longrightarrow> buf_bytes b = concat b"
  by (cases b; cases "tl b") (simp_all add: buf_bytes_def)

lemma advance_one_piece: "length b \<le> 1 \<Longrightarrow> buf_bytes (buf_advance n b) = drop n (concat b)"
  by (cases b; cases "tl b") (simp_all add: buf_bytes_def)

lemma flight_deserialise_piece:
  assumes "flight_law C" and "length b \<le> 1" and "concat b = flight_wire fs A C m"
  shows "fst ((case fs of Reliable \<Rightarrow> reliable_deserialise C | Unsafe \<Rightarrow> unsafe_deserialise A C) b) = Ok m"
proof (cases fs)
  case Reliable
  then show ?thesis using assms one_piece [of b] by (simp add: reliable_deserialise_def flight_wire_def flight_law_def)
next
  case Unsafe
  have "fc_abomonate C (concat (fc_slices C m)) = Some (m, [])"
    using assms(1) unfolding flight_law_def by (metis append_Nil2)
  then show ?thesis
    using Unsafe assms(2,3) advance_one_piece [of b 4] from_be_to_be [of "VERSION_ID A"]
    by (simp add: unsafe_deserialise_def flight_wire_def bind_s_def get_u32_def)
qed

context net_layer
begin

lemma unpack_sent:
  assumes "flight_law C" and "UNSAFE_SER_ID A \<noteq> RELIABLE_SER_ID A" and "na_ser_id N msg = flight_ser_id fs A"
    and "length (content msg) \<le> 1" and "concat (content msg) = flight_wire fs A C m"
  shows "unpack_message N A C msg = Ok m"
  using flight_deserialise_piece [OF assms(1,4,5)] assms(2,3)
  by (cases fs) (simp_all add: unpack_eq flight_ser_id_def)

end

text \<open>The bytes of a message with another version, and what is too short for one.\<close>

lemma unsafe_deserialise_version:
  assumes "4 \<le> length (concat b)" and "from_be (take 4 (concat b)) \<noteq> VERSION_ID A"
  shows "fst (unsafe_deserialise A C b) = Err (invalid_data ''Mismatch on ArconType version'')"
  using assms by (simp add: unsafe_deserialise_def bind_s_def get_u32_def)

lemma unsafe_deserialise_short:
  assumes "length (concat b) < 4"
  shows "fst (unsafe_deserialise A C b) = Panic ''assertion failed: self.remaining() >= dst.len()''"
  using assms by (simp add: unsafe_deserialise_def bind_s_def get_u32_def)

text \<open>Only the first piece is decoded.\<close>

lemma first_piece_only:
  "fst (reliable_deserialise C (c # cs)) = fst (reliable_deserialise C [c])"
  "4 < length c \<Longrightarrow> fst (unsafe_deserialise A C (c # cs)) = fst (unsafe_deserialise A C [c])"
  by (auto simp: reliable_deserialise_def unsafe_deserialise_def bind_s_def get_u32_def buf_bytes_def
      split: sum.split option.split)

lemma receive_network_local: "unpack_message N A C msg = Ok m \<Longrightarrow> receive_network E N A C msg n = receive_local E m n"
  by (simp add: receive_network_def receive_local_def)

text \<open>What a target without enough room gets.\<close>

lemma write_all_short:
  assumes "bm_room t < length src"
  shows "write_all src t = (Err ''failed to write whole buffer'', put_slice (take (bm_room t) src) t)"
proof (cases "bm_room t")
  case 0
  then show ?thesis using assms by (auto simp: write_all.simps [of src] writer_write_def Let_def)
next
  case (Suc r)
  have "write_all (drop (bm_room t) src) (put_slice (take (bm_room t) src) t)
      = (Err ''failed to write whole buffer'', put_slice (take (bm_room t) src) t)"
    using assms by (simp add: write_all.simps [of "drop (bm_room t) src"] writer_write_def Let_def)
  then show ?thesis using assms Suc by (subst write_all.simps) (auto simp: writer_write_def Let_def)
qed

lemma write_slices_short:
  "bm_room t < length (concat ss) \<Longrightarrow>
     write_slices ss t = (Err ''failed to write whole buffer'', put_slice (take (bm_room t) (concat ss)) t)"
proof (induction ss arbitrary: t)
  case (Cons s ss)
  show ?case
  proof (cases "length s \<le> bm_room t")
    case True
    then show ?thesis using Cons.IH [of "put_slice s t"] Cons.prems by (simp add: write_all_room put_slice_append)
  qed (simp add: write_all_short)
qed simp

lemma flight_serialise_short:
  assumes "bm_room t < length (flight_wire fs A C m)"
  shows "flight_serialise fs A C m t =
    (case fs of
       Reliable \<Rightarrow> (Err (invalid_data ''failed to encode message; insufficient buffer capacity''), t)
     | Unsafe \<Rightarrow>
         (if bm_room t < 4 then (Panic ''assertion failed: self.remaining_mut() >= src.len()'', t)
          else (Err (invalid_data ''Failed to encode unsafe flight data''), put_slice (take (bm_room t) (flight_wire fs A C m)) t)))"
proof (cases fs)
  case Reliable
  then show ?thesis using assms by (simp add: flight_serialise_def flight_wire_def reliable_serialise_def)
next
  case Unsafe
  let ?t = "put_slice (to_be (VERSION_ID A)) t"
  show ?thesis
  proof (cases "bm_room t < 4")
    case False
    with assms Unsafe have "bm_room ?t < length (concat (fc_slices C m))" by (simp add: flight_wire_def)
    from write_slices_short [OF this] show ?thesis
      using Unsafe False by (simp add: flight_serialise_def unsafe_serialise_def flight_wire_def bind_s_def put_u32_def put_slice_append)
  qed (simp add: Unsafe flight_serialise_def unsafe_serialise_def bind_s_def put_u32_def)
qed

section \<open>A codec\<close>

text \<open>Codecs of a message type with a prefix code, and such a code for the messages of a stream of numbers.\<close>

definition message_codecs :: "'m message \<Rightarrow> 'm flight_codecs" where
  "message_codecs M =
     \<lparr>fc_encode = msg_encode M,
      fc_decode = (\<lambda>bs. case msg_decode M bs of Some (m, []) \<Rightarrow> Inr m | _ \<Rightarrow> Inl ''invalid message''),
      fc_slices = (\<lambda>m. [msg_encode M m]), fc_measure = (\<lambda>m. length (msg_encode M m)), fc_abomonate = msg_decode M\<rparr>"

lemma message_codecs_law: "message_law M \<Longrightarrow> flight_law (message_codecs M)"
  by (simp add: flight_law_def message_codecs_def)

fun event_encode :: "u64 event_wrapper \<Rightarrow> bytes" where
  "event_encode (EventWrapper None) = [0]"
| "event_encode (EventWrapper (Some (ElementEv e))) =
     (case timestamp e of None \<Rightarrow> 1 # to_le (data e) | Some ts \<Rightarrow> 2 # to_le (data e) @ to_le ts)"
| "event_encode (EventWrapper (Some (WatermarkEv w))) = 3 # to_le (wm_timestamp w)"
| "event_encode (EventWrapper (Some (EpochEv e))) = 4 # to_le (ep_epoch e)"
| "event_encode (EventWrapper (Some (DeathEv s))) = 5 # string_encode s"

definition then_decode :: "('a \<times> bytes) option \<Rightarrow> ('a \<Rightarrow> 'b) \<Rightarrow> ('b \<times> bytes) option" where
  "then_decode r f = map_option (\<lambda>(a, bs). (f a, bs)) r"

definition event_decode :: "bytes \<Rightarrow> (u64 event_wrapper \<times> bytes) option" where
  "event_decode bs =
     (case bs of
        [] \<Rightarrow> None
      | b # bs \<Rightarrow>
          if b = 0 then Some (EventWrapper None, bs)
          else if b = 1 then then_decode (msg_decode u64_message bs) (wrap_event \<circ> ElementEv \<circ> element_new)
          else if b = 2 then Option.bind (msg_decode u64_message bs) (\<lambda>(d, bs).
            then_decode (msg_decode u64_message bs) (wrap_event \<circ> ElementEv \<circ> element_with_timestamp d))
          else if b = 3 then then_decode (msg_decode u64_message bs) (wrap_event \<circ> WatermarkEv \<circ> Watermark)
          else if b = 4 then then_decode (msg_decode u64_message bs) (wrap_event \<circ> EpochEv \<circ> Epoch)
          else then_decode (msg_decode string_message bs) (wrap_event \<circ> DeathEv))"

lemma event_decode_encode: "event_decode (event_encode e @ rest) = Some (e, rest)"
proof -
  have u: "msg_decode u64_message (to_le x @ r) = Some (x, r)" for x r
    using message_decode_encode [OF u64_message_law, of x r] by (simp add: u64_message_def)
  have s: "msg_decode string_message (string_encode x @ r) = Some (x, r)" for x r
    using message_decode_encode [OF string_message_law, of x r] by (simp add: string_message_def)
  have "a = \<lparr>data = data a, timestamp = timestamp a\<rparr>" for a :: "u64 arcon_element" by simp
  then show ?thesis
    by (cases e rule: event_encode.cases)
      (auto simp: event_decode_def then_decode_def wrap_event_def element_new_def element_with_timestamp_def u s split: option.split)
qed

fun events_encode :: "u64 event_wrapper list \<Rightarrow> bytes" where
  "events_encode [] = [0]"
| "events_encode (e # es) = 1 # event_encode e @ events_encode es"

fun events_decode :: "nat \<Rightarrow> bytes \<Rightarrow> (u64 event_wrapper list \<times> bytes) option" where
  "events_decode (Suc fuel) (b # bs) =
     (if b = 0 then Some ([], bs)
      else Option.bind (event_decode bs) (\<lambda>(e, bs). then_decode (events_decode fuel bs) (Cons e)))"
| "events_decode _ _ = None"

lemma events_decode_encode: "length es < fuel \<Longrightarrow> events_decode fuel (events_encode es @ rest) = Some (es, rest)"
proof (induction es arbitrary: fuel)
  case Nil
  then show ?case by (cases fuel) simp_all
next
  case (Cons e es)
  then show ?case by (cases fuel) (simp_all add: event_decode_encode then_decode_def)
qed

lemma events_encode_length: "length es < length (events_encode es)"
  by (induction es) simp_all

definition raw_message_message :: "u64 raw_message message" where
  "raw_message_message =
     \<lparr>msg_encode = (\<lambda>m. msg_encode node_id_message (rm_sender m) @ events_encode (rm_events m)),
      msg_decode = (\<lambda>bs. Option.bind (msg_decode node_id_message bs) (\<lambda>(i, bs).
        then_decode (events_decode (length bs) bs) (\<lambda>es. \<lparr>rm_events = es, rm_sender = i\<rparr>)))\<rparr>"

lemma raw_message_law: "message_law raw_message_message"
proof -
  have "events_decode (length (events_encode es @ rest)) (events_encode es @ rest) = Some (es, rest)" for es rest
    using events_encode_length [of es] by (simp add: events_decode_encode)
  then show ?thesis
    by (auto simp: message_law_def raw_message_message_def node_id_message_def from_le_to_le then_decode_def)
qed

text \<open>Network messages as pairs of identifier and pieces.\<close>

definition pieces_net :: "(u64 \<times> buf, 'm) net_api" where
  "pieces_net = \<lparr>na_ser_id = fst, na_try_deserialise = (\<lambda>D (i, b).
     if de_id D = i then map_err DeserError (fst (de_run D b)) else Err NoIdMatch)\<rparr>"

interpretation pieces_net: net_layer pieces_net snd
  by unfold_locales (auto simp: pieces_net_def split: prod.split)

section \<open>Properties\<close>

text \<open>C12: A remote channel is as good as a local one. With either serde, a message is serialised into any target
  that has the room of its size hint, and takes exactly that; and a node, or a debug node, that receives
  these bytes from the network in one piece and under the identifier of the serde does exactly what it does with the
  same message from a local channel.\<close>

theorem flight_round_trip:
  fixes m :: "'i raw_message"
  assumes "flight_law C" and "net_layer N content" and "UNSAFE_SER_ID A \<noteq> RELIABLE_SER_ID A"
    and "flight_size_hint fs C m = Some k" and "k \<le> bm_room t"
  shows "\<exists>wire t'. flight_serialise fs A C m t = (Ok (), t') \<and> bm_written t' = bm_written t @ wire \<and> length wire = k \<and>
    (\<forall>msg. na_ser_id N msg = flight_ser_id fs A \<and> length (content msg) \<le> 1 \<and> concat (content msg) = wire \<longrightarrow>
      (\<forall>n. receive_network E N A C msg n = receive_local E m n) \<and>
      (\<forall>d. debug_receive_network N A C msg d = debug_receive_local m d))"
proof (intro exI conjI allI impI)
  let ?wire = "flight_wire fs A C m"
  show len: "length ?wire = k"
    using assms(1,4) by (cases fs) (simp_all add: flight_wire_def flight_size_hint_def reliable_size_hint_def unsafe_size_hint_def flight_law_def)
  then show "flight_serialise fs A C m t = (Ok (), put_slice ?wire t)" 
    using assms(5) by (simp add: flight_serialise_room(1) [OF assms(1)])
  fix msg
  assume "na_ser_id N msg = flight_ser_id fs A \<and> length (content msg) \<le> 1 \<and> concat (content msg) = ?wire"
  then have "unpack_message N A C msg = Ok m" using net_layer.unpack_sent [OF assms(2,1,3)] by blast
  then show "receive_network E N A C msg n = receive_local E m n" "debug_receive_network N A C msg d = debug_receive_local m d" for n d
    by (simp_all add: receive_network_local debug_receive_network_def debug_receive_local_def)
qed simp

text \<open>A message with an element and a watermark, sent with the unsafe serde to the node of the examples.\<close>

definition sent_message :: "u64 raw_message" where
  "sent_message = \<lparr>rm_events = [wrap_event (ElementEv (element_new 7)), wrap_event (WatermarkEv (Watermark 4))], rm_sender = NodeID 1\<rparr>"

theorem flight_round_trip_witness:
  "\<exists>wire t'. flight_serialise Unsafe u64_type (message_codecs raw_message_message) sent_message (vec_target []) = (Ok (), t') \<and>
     bm_written t' = wire \<and> length wire = 29 \<and>
     receive_network demo_env pieces_net u64_type (message_codecs raw_message_message) (52, [wire]) (demo_node (demo_store 3 5 0 [] []))
       = receive_local demo_env sent_message (demo_node (demo_store 3 5 0 [] [])) \<and>
     debug_receive_network pieces_net u64_type (message_codecs raw_message_message) (52, [wire]) debug_node_new
       = (Ok (), \<lparr>dn_data = [element_new 7], dn_watermarks = [Watermark 4], dn_epochs = []\<rparr>)"
proof -
  let ?C = "message_codecs raw_message_message" and ?N = "pieces_net :: (u64 \<times> buf, u64 raw_message) net_api"
  have "flight_size_hint Unsafe ?C sent_message = Some 29"
    by (simp add: flight_size_hint_def unsafe_size_hint_def message_codecs_def raw_message_message_def node_id_message_def
        sent_message_def wrap_event_def element_new_def)
  moreover have "UNSAFE_SER_ID u64_type \<noteq> RELIABLE_SER_ID u64_type" "29 \<le> bm_room (vec_target [])"
    by (simp_all add: u64_type_def usize_max_def)
  ultimately obtain wire t' where
    w: "flight_serialise Unsafe u64_type ?C sent_message (vec_target []) = (Ok (), t')" "bm_written t' = bm_written (vec_target []) @ wire"
      "length wire = 29" and
    r: "\<forall>msg. na_ser_id ?N msg = flight_ser_id Unsafe u64_type \<and> length (snd msg) \<le> 1 \<and> concat (snd msg) = wire \<longrightarrow>
      (\<forall>n. receive_network demo_env pieces_net u64_type ?C msg n = receive_local demo_env sent_message n) \<and>
      (\<forall>d. debug_receive_network pieces_net u64_type ?C msg d = debug_receive_local sent_message d)"
    using flight_round_trip [OF message_codecs_law [OF raw_message_law] pieces_net.net_layer_axioms, of u64_type Unsafe sent_message 29
      "vec_target []" demo_env] by blast
  have "debug_receive_local sent_message debug_node_new
      = (Ok (), \<lparr>dn_data = [element_new 7], dn_watermarks = [Watermark 4], dn_epochs = []\<rparr>)"
    by (simp add: debug_receive_local_def sent_message_def debug_node_new_def)
  then show ?thesis
    using w r [rule_format, of "(52, [wire])"] by (auto simp: pieces_net_def flight_ser_id_def u64_type_def)
qed

text \<open>What is not a message does no harm, or stops the node. A network message with a foreign identifier makes the
  receiver panic, and so does an unsafe one that is too short for a version; one of another version, and one
  that cannot be decoded, is dropped and leaves the node as it was. A target without the room for a message is
  left as it was by the reliable serde, which returns an error; the unsafe one panics when not even the version
  fits, and otherwise fails after it has filled the target.\<close>

theorem flight_refusals:
  assumes "net_layer N content" and "UNSAFE_SER_ID A \<noteq> RELIABLE_SER_ID A"
  shows "(na_ser_id N msg \<notin> {UNSAFE_SER_ID A, RELIABLE_SER_ID A} \<longrightarrow>
      receive_network E N A C msg n = (Panic ''Unexpected deserialiser'', n)) \<and>
    (na_ser_id N msg = UNSAFE_SER_ID A \<and> length (concat (content msg)) < 4 \<longrightarrow>
      receive_network E N A C msg n = (Panic ''assertion failed: self.remaining() >= dst.len()'', n)) \<and>
    (na_ser_id N msg = UNSAFE_SER_ID A \<and> 4 \<le> length (concat (content msg)) \<and>
        (from_be (take 4 (concat (content msg))) \<noteq> VERSION_ID A \<or> fc_abomonate C (buf_bytes (buf_advance 4 (content msg))) = None) \<longrightarrow>
      receive_network E N A C msg n = (Ok (), n)) \<and>
    (na_ser_id N msg = RELIABLE_SER_ID A \<and> fc_decode C (buf_bytes (content msg)) = Inl e \<longrightarrow>
      receive_network E N A C msg n = (Ok (), n)) \<and>
    (bm_room t < length (fc_encode C m) \<longrightarrow>
      reliable_serialise C m t = (Err (invalid_data ''failed to encode message; insufficient buffer capacity''), t)) \<and>
    (bm_room t < 4 \<longrightarrow> unsafe_serialise A C m t = (Panic ''assertion failed: self.remaining_mut() >= src.len()'', t)) \<and>
    (4 \<le> bm_room t \<and> bm_room t < 4 + length (concat (fc_slices C m)) \<longrightarrow>
      unsafe_serialise A C m t = (Err (invalid_data ''Failed to encode unsafe flight data''),
        put_slice (take (bm_room t) (to_be (VERSION_ID A) @ concat (fc_slices C m))) t))"
  using flight_serialise_short [of t Reliable A C m] flight_serialise_short [of t Unsafe A C m] assms(2)
  by (auto simp: receive_network_def net_layer.unpack_eq [OF assms(1)] flight_serialise_def flight_wire_def
      reliable_deserialise_def unsafe_deserialise_def get_u32_def bind_s_def split: if_splits)

theorem flight_refusals_witness:
  "receive_network demo_env pieces_net u64_type (message_codecs raw_message_message) (51, [[1, 2, 3]]) (demo_node (demo_store 3 5 0 [] []))
     = (Panic ''Unexpected deserialiser'', demo_node (demo_store 3 5 0 [] [])) \<and>
   receive_network demo_env pieces_net u64_type (message_codecs raw_message_message) (52, [[0, 0, 0, 2, 9]]) (demo_node (demo_store 3 5 0 [] []))
     = (Ok (), demo_node (demo_store 3 5 0 [] []))"
  using flight_refusals [OF pieces_net.net_layer_axioms, of u64_type "(51, [[1, 2, 3]])" demo_env "message_codecs raw_message_message"
      "demo_node (demo_store 3 5 0 [] [])"]
    flight_refusals [OF pieces_net.net_layer_axioms, of u64_type "(52, [[0, 0, 0, 2, 9]])" demo_env "message_codecs raw_message_message"
      "demo_node (demo_store 3 5 0 [] [])"]
  by (simp add: u64_type_def pieces_net_def from_be_def from_le_def)

end
