(* ===== verification/Pipeline.thy ===== *)
theory Pipeline
  imports Channel_Laws Node
begin

text \<open>
  Model of \<^verbatim>\<open>src/conf/mod.rs\<close>, \<^verbatim>\<open>src/pipeline/mod.rs\<close> and \<^verbatim>\<open>src/manager/node_manager.rs\<close>: the configuration, the
  pipeline that owns the allocator and hands out pools, and the managers that collect the metrics of
  nodes. The component system is a parameter \<open>system_ops\<close>; the temporary directory, the number of processors and
  the parser of configuration files are arguments. The interactive dashboard is left out, the reports
  for it are a queue.
\<close>

section \<open>Configuration\<close>

text \<open>Message priorities are the bits of an \<^verbatim>\<open>f32\<close>.\<close>

record arcon_conf =
  cf_state_dir :: string
  cf_checkpoint_dir :: string
  cf_watermark_interval :: u64
  cf_node_metrics_interval :: u64
  cf_buffer_pool_size :: usize
  cf_buffer_pool_limit :: usize
  cf_channel_batch_size :: usize
  cf_allocator_capacity :: usize
  cf_network_buffer_size :: usize
  cf_kompact_threads :: usize
  cf_kompact_throughput :: usize
  cf_kompact_msg_priority :: u32
  cf_kompact_network_host :: "string option"

record conf_env =
  ev_temp_dir :: string
  ev_num_cpus :: usize

definition path_push :: "string \<Rightarrow> string \<Rightarrow> string" where
  "path_push base p = (if base = [] \<or> last base = CHR ''/'' then base @ p else base @ ''/'' @ p)"

definition state_dir_default :: "conf_env \<Rightarrow> string" where
  "state_dir_default V = path_push (ev_temp_dir V) ''arcon/live_states''"

definition checkpoint_dir_default :: "conf_env \<Rightarrow> string" where
  "checkpoint_dir_default V = path_push (ev_temp_dir V) ''arcon/checkpoints''"

definition buffer_pool_size_default :: usize where
  "buffer_pool_size_default = 1024"

definition buffer_pool_limit_default :: usize where
  "buffer_pool_limit_default = buffer_pool_size_default * 2"

definition kompact_threads_default :: "conf_env \<Rightarrow> usize" where
  "kompact_threads_default V = max 1 (ev_num_cpus V)"

definition conf_default :: "conf_env \<Rightarrow> arcon_conf" where
  "conf_default V =
     \<lparr>cf_state_dir = state_dir_default V, cf_checkpoint_dir = checkpoint_dir_default V,
      cf_watermark_interval = 250, cf_node_metrics_interval = 250,
      cf_buffer_pool_size = buffer_pool_size_default, cf_buffer_pool_limit = buffer_pool_limit_default,
      cf_channel_batch_size = 248, cf_allocator_capacity = 524288000, cf_network_buffer_size = 64000,
      cf_kompact_threads = kompact_threads_default V, cf_kompact_throughput = 50,
      cf_kompact_msg_priority = 0x3F800000, cf_kompact_network_host = None\<rparr>"

text \<open>A parsed file may lack any field; a missing one gets its default. The host is optional in both.\<close>

record file_conf =
  fc_state_dir :: "string option"
  fc_checkpoint_dir :: "string option"
  fc_watermark_interval :: "u64 option"
  fc_node_metrics_interval :: "u64 option"
  fc_buffer_pool_size :: "usize option"
  fc_buffer_pool_limit :: "usize option"
  fc_channel_batch_size :: "usize option"
  fc_allocator_capacity :: "usize option"
  fc_network_buffer_size :: "usize option"
  fc_kompact_threads :: "usize option"
  fc_kompact_throughput :: "usize option"
  fc_kompact_msg_priority :: "u32 option"
  fc_kompact_network_host :: "string option option"

definition or_default :: "'a option \<Rightarrow> 'a \<Rightarrow> 'a" where
  "or_default x d = (case x of None \<Rightarrow> d | Some a \<Rightarrow> a)"

definition with_defaults :: "conf_env \<Rightarrow> file_conf \<Rightarrow> arcon_conf" where
  "with_defaults V f =
     (let d = conf_default V in
      \<lparr>cf_state_dir = or_default (fc_state_dir f) (cf_state_dir d),
       cf_checkpoint_dir = or_default (fc_checkpoint_dir f) (cf_checkpoint_dir d),
       cf_watermark_interval = or_default (fc_watermark_interval f) (cf_watermark_interval d),
       cf_node_metrics_interval = or_default (fc_node_metrics_interval f) (cf_node_metrics_interval d),
       cf_buffer_pool_size = or_default (fc_buffer_pool_size f) (cf_buffer_pool_size d),
       cf_buffer_pool_limit = or_default (fc_buffer_pool_limit f) (cf_buffer_pool_limit d),
       cf_channel_batch_size = or_default (fc_channel_batch_size f) (cf_channel_batch_size d),
       cf_allocator_capacity = or_default (fc_allocator_capacity f) (cf_allocator_capacity d),
       cf_network_buffer_size = or_default (fc_network_buffer_size f) (cf_network_buffer_size d),
       cf_kompact_threads = or_default (fc_kompact_threads f) (cf_kompact_threads d),
       cf_kompact_throughput = or_default (fc_kompact_throughput f) (cf_kompact_throughput d),
       cf_kompact_msg_priority = or_default (fc_kompact_msg_priority f) (cf_kompact_msg_priority d),
       cf_kompact_network_host = or_default (fc_kompact_network_host f) (cf_kompact_network_host d)\<rparr>)"

text \<open>\<open>read\<close>: the content of a file; \<open>load\<close> and \<open>resolve\<close>: the two steps of the HOCON loader.\<close>

definition conf_from_file ::
    "conf_env \<Rightarrow> (string \<Rightarrow> string option) \<Rightarrow> (string \<Rightarrow> 'h option) \<Rightarrow> ('h \<Rightarrow> file_conf option) \<Rightarrow> string \<Rightarrow> arcon_conf arcon_result" where
  "conf_from_file V read load resolve path =
     bind_o (ok_or (new_arcon ''Failed to read config file'') (read path)) (\<lambda>d.
     bind_o (ok_or (new_arcon ''Failed to load Hocon Loader'') (load d)) (\<lambda>loader.
     bind_o (ok_or (new_arcon ''Failed to resolve ArconConf'') (resolve loader)) (\<lambda>f.
     Ok (with_defaults V f))))"

text \<open>The settings that the component system is built with. \<open>debug\<close> prints a path, \<open>parse\<close> reads an address.\<close>

record 'a kompact_conf =
  kc_component_cfg :: string
  kc_threads :: usize
  kc_throughput :: usize
  kc_msg_priority :: u32
  kc_network :: "'a option"

definition kompact_conf_of :: "(string \<Rightarrow> string) \<Rightarrow> (string \<Rightarrow> 'a option) \<Rightarrow> arcon_conf \<Rightarrow> (arcon_error, 'a kompact_conf) outcome" where
  "kompact_conf_of debug parse c =
     (let cfg = \<lparr>kc_component_cfg = ''{ checkpoint_dir = '' @ debug (cf_checkpoint_dir c) @
                    '', node_metrics_interval = '' @ show_nat (unat (cf_node_metrics_interval c)) @ '' }'',
                 kc_threads = cf_kompact_threads c, kc_throughput = cf_kompact_throughput c,
                 kc_msg_priority = cf_kompact_msg_priority c, kc_network = None\<rparr> in
      case cf_kompact_network_host c of
        None \<Rightarrow> Ok cfg
      | Some host \<Rightarrow>
          (case parse host of
             None \<Rightarrow> Panic ''called `Result::unwrap()` on an `Err` value''
           | Some sock_addr \<Rightarrow> Ok (cfg\<lparr>kc_network := Some sock_addr\<rparr>)))"

section \<open>Node managers\<close>

record 'm metric_report =
  mr_descriptor :: string
  mr_id :: node_id
  mr_parallelism :: usize
  mr_metrics :: "'m node_metrics"

datatype 'm node_event = MetricsEvent node_id "'m node_metrics"

text \<open>The hash map of the nodes is an association list. \<open>mg_connected\<close>: the nodes whose ports are connected;
  \<open>mg_tui\<close>: the reports sent to the dashboard.\<close>

record ('x, 'm) node_manager =
  mg_node_description :: string
  mg_node_parallelism :: usize
  mg_max_node_parallelism :: usize
  mg_in_channels :: "node_id list"
  mg_node_index :: u32
  mg_nodes :: "(node_id \<times> 'x) list"
  mg_node_metrics :: "node_id \<rightharpoonup> 'm node_metrics"
  mg_connected :: "node_id list"
  mg_tui :: "'m metric_report list"

fun number_nodes :: "nat \<Rightarrow> 'x list \<Rightarrow> (node_id \<times> 'x) list \<Rightarrow> (node_id \<times> 'x) list" where
  "number_nodes i [] m = m"
| "number_nodes i (node # ns) m = number_nodes (Suc i) ns (AList.update (node_id_new (word_of_nat i)) node m)"

definition node_manager_new :: "conf_env \<Rightarrow> string \<Rightarrow> node_id list \<Rightarrow> 'x list \<Rightarrow> ('x, 'm) node_manager" where
  "node_manager_new V node_description in_channels node_comps =
     (let total_nodes = word_of_nat (length node_comps) :: u32 in
      \<lparr>mg_node_description = node_description, mg_node_parallelism = ucast total_nodes,
       mg_max_node_parallelism = ev_num_cpus V * 2, mg_in_channels = in_channels, mg_node_index = total_nodes,
       mg_nodes = number_nodes 0 node_comps [], mg_node_metrics = Map.empty, mg_connected = [], mg_tui = []\<rparr>)"

fun connect_nodes :: "('x \<Rightarrow> bool) \<Rightarrow> (node_id \<times> 'x) list \<Rightarrow> (('x, 'm) node_manager, arcon_error, unit) action" where
  "connect_nodes has_port [] = return_s ()"
| "connect_nodes has_port ((i, node) # ns) =
     (if has_port node
      then bind_s (\<lambda>m. (Ok (), m\<lparr>mg_connected := mg_connected m @ [i]\<rparr>)) (\<lambda>_. connect_nodes has_port ns)
      else panic_s ''Couldn't find a required NodeManagerPort'')"

definition manager_on_start :: "('x \<Rightarrow> bool) \<Rightarrow> (('x, 'm) node_manager, arcon_error, unit) action" where
  "manager_on_start has_port m = connect_nodes has_port (mg_nodes m) m"

text \<open>\<open>tui\<close>: whether the dashboard is part of the build.\<close>

fun manager_handle :: "bool \<Rightarrow> 'm node_event \<Rightarrow> (('x, 'm) node_manager, arcon_error, unit) action" where
  "manager_handle tui (MetricsEvent i metrics) m =
     (let m = (if tui
               then m\<lparr>mg_tui := mg_tui m @ [\<lparr>mr_descriptor = mg_node_description m, mr_id = i,
                        mr_parallelism = mg_node_parallelism m, mr_metrics = metrics\<rparr>]\<rparr>
               else m) in
      (Ok (), m\<lparr>mg_node_metrics := (mg_node_metrics m)(i \<mapsto> metrics)\<rparr>))"

text \<open>The report that a node triggers periodically: a shared borrow of its metrics.\<close>

definition report_metrics ::
    "('c, 't, 'b, 'm, 'i, 'o, 'p) node_env \<Rightarrow> ('c, 't, 'b, 'm) node \<Rightarrow> (arcon_error, 'm node_event) outcome" where
  "report_metrics E n =
     (if nd_metrics_borrowed n then Panic ''already mutably borrowed: BorrowError''
      else Ok (MetricsEvent (ne_id E) (nd_metrics n)))"

section \<open>Pipelines\<close>

text \<open>The component system: creation of a node or of a manager, and whether its start is notified in time.\<close>

record ('k, 'n, 'x, 'm, 'r) system_ops =
  so_create_erased :: "'n \<Rightarrow> 'k \<Rightarrow> 'x \<times> 'k"
  so_start_node :: "'x \<Rightarrow> 'k \<Rightarrow> bool \<times> 'k"
  so_create_manager :: "('x, 'm) node_manager \<Rightarrow> 'k \<Rightarrow> 'r \<times> 'k"
  so_start_manager :: "'r \<Rightarrow> 'k \<Rightarrow> bool \<times> 'k"

record ('k, 'y, 'r) arcon_pipeline =
  pl_system :: 'k
  pl_conf :: arcon_conf
  pl_allocator :: "'y arcon_allocator"
  pl_node_managers :: "string \<rightharpoonup> 'r"

text \<open>\<open>build\<close>: builds the component system from its settings.\<close>

definition pipeline_setup ::
    "(string \<Rightarrow> string) \<Rightarrow> (string \<Rightarrow> 'a option) \<Rightarrow> ('a kompact_conf \<Rightarrow> 'k option) \<Rightarrow> arcon_conf \<Rightarrow> (arcon_error, 'k) outcome" where
  "pipeline_setup debug parse build c =
     bind_o (kompact_conf_of debug parse c) (\<lambda>kc. unwrap_or_panic ''KompactSystem'' (build kc))"

definition pipeline_with_conf ::
    "(string \<Rightarrow> string) \<Rightarrow> (string \<Rightarrow> 'a option) \<Rightarrow> ('a kompact_conf \<Rightarrow> 'k option) \<Rightarrow> 'y \<Rightarrow> arcon_conf
      \<Rightarrow> (arcon_error, ('k, 'y, 'r) arcon_pipeline) outcome" where
  "pipeline_with_conf debug parse build y c =
     bind_o (pipeline_setup debug parse build c) (\<lambda>sys.
       Ok \<lparr>pl_system = sys, pl_conf = c, pl_allocator = allocator_new (cf_allocator_capacity c) y, pl_node_managers = Map.empty\<rparr>)"

definition pipeline_new ::
    "conf_env \<Rightarrow> (string \<Rightarrow> string) \<Rightarrow> (string \<Rightarrow> 'a option) \<Rightarrow> ('a kompact_conf \<Rightarrow> 'k option) \<Rightarrow> 'y
      \<Rightarrow> (arcon_error, ('k, 'y, 'r) arcon_pipeline) outcome" where
  "pipeline_new V debug parse build y = pipeline_with_conf debug parse build y (conf_default V)"

definition get_pool_info :: "('k, 'y, 'r) arcon_pipeline \<Rightarrow> pool_info" where
  "get_pool_info P =
     \<lparr>pi_buffer_size = cf_channel_batch_size (pl_conf P), pi_capacity = unat (cf_buffer_pool_size (pl_conf P)),
      pi_limit = cf_buffer_pool_limit (pl_conf P)\<rparr>"

fun start_nodes :: "('k, 'n, 'x, 'm, 'r) system_ops \<Rightarrow> 'n list \<Rightarrow> (('k, 'y, 'r) arcon_pipeline, arcon_error, 'x list) action" where
  "start_nodes S [] = return_s []"
| "start_nodes S (node # ns) = (\<lambda>P.
     case so_create_erased S node (pl_system P) of (node_comp, k) \<Rightarrow>
     case so_start_node S node_comp k of (started, k) \<Rightarrow>
       if started then bind_s (start_nodes S ns) (\<lambda>comps. return_s (node_comp # comps)) (P\<lparr>pl_system := k\<rparr>)
       else (Panic ''node never started!'', P\<lparr>pl_system := k\<rparr>))"

definition create_node_manager ::
    "('k, 'n, 'x, 'm, 'r) system_ops \<Rightarrow> conf_env \<Rightarrow> string \<Rightarrow> node_id list \<Rightarrow> 'n list
      \<Rightarrow> (('k, 'y, 'r) arcon_pipeline, arcon_error, 'x list) action" where
  "create_node_manager S V node_description in_channels nodes =
     bind_s (start_nodes S nodes) (\<lambda>node_comps P.
       case so_create_manager S (node_manager_new V node_description in_channels node_comps) (pl_system P) of (manager_ref, k) \<Rightarrow>
       let P = P\<lparr>pl_system := k, pl_node_managers := (pl_node_managers P)(node_description \<mapsto> manager_ref)\<rparr> in
       case so_start_manager S manager_ref (pl_system P) of (started, k) \<Rightarrow>
         (if started then Ok node_comps else Panic ''node_manager never started!'', P\<lparr>pl_system := k\<rparr>))"

section \<open>Laws of pools\<close>

text \<open>An allocation advances the counter of identifiers and stays in its epoch until the counter wraps around.\<close>

lemma alloc_counts:
  assumes "alloc S sz align capacity a = (Ok (Alloc i mem), a')" and "alloc_counter a \<noteq> - 1"
  shows "alloc_epoch a' = alloc_epoch a \<and> alloc_counter a' = alloc_counter a + 1"
  using assms
  by (auto simp: alloc_def bind_s_def Let_def add_u_def bytes_remaining_def sub_u_def
      split: if_splits option.splits prod.splits outcome.splits)

definition new_buffer :: "usize \<Rightarrow> alloc_id \<Rightarrow> 'a event_buffer" where
  "new_buffer bs i = \<lparr>eb_mem = replicate (unat bs) None, eb_id = i, eb_capacity = bs, eb_free = True\<rparr>"

text \<open>A system that never runs out of memory.\<close>

definition memory_never_short :: "'y system_alloc \<Rightarrow> bool" where
  "memory_never_short S \<longleftrightarrow> (\<forall>l y. fst (sys_alloc S l y) \<noteq> 0)"

lemma event_buffer_new_fits:
  assumes "alloc_inv (bw_alloc w)" and "bs \<noteq> 0" and "checked_mul bs sz = Some n" and "memory_never_short S"
    and "alloc_epoch (bw_alloc w) \<noteq> - 1" and "unat (alloc_counter (bw_alloc w)) + 1 < 2 ^ 64"
    and "unat (curr_alloc (bw_alloc w)) + unat n \<le> unat (limit (bw_alloc w))"
  shows "\<exists>a' i. event_buffer_new S sz align bs w
      = (Ok (length (bw_bufs w)), w\<lparr>bw_alloc := a', bw_bufs := bw_bufs w @ [new_buffer bs i]\<rparr>) \<and>
    alloc_inv a' \<and> alloc_epoch a' = alloc_epoch (bw_alloc w) \<and>
    unat (alloc_counter a') = unat (alloc_counter (bw_alloc w)) + 1 \<and>
    unat (curr_alloc a') = unat (curr_alloc (bw_alloc w)) + unat n \<and> limit a' = limit (bw_alloc w)"
proof -
  obtain mem y where m: "sys_alloc S \<lparr>l_size = n, l_align = align\<rparr> (al_system (bw_alloc w)) = (mem, y)" by force
  then have "mem \<noteq> 0" using assms(4) unfolding memory_never_short_def by (metis fst_conv)
  from alloc_Ok [OF assms(1-3,7) m this assms(5)] obtain i a' where
    a: "alloc S sz align bs (bw_alloc w) = (Ok (Alloc i mem), a')" "alloc_inv a'"
      "unat (curr_alloc a') = unat (curr_alloc (bw_alloc w)) + unat n" "limit a' = limit (bw_alloc w)" by blast
  have "alloc_counter (bw_alloc w) \<noteq> - 1"
  proof
    assume "alloc_counter (bw_alloc w) = - 1"
    then show False using assms(6) by (simp add: unsigned_minus_1_eq_mask mask_eq_exp_minus_1)
  qed
  from alloc_counts [OF a(1) this] assms(6)
  have "alloc_epoch a' = alloc_epoch (bw_alloc w)" "unat (alloc_counter a') = unat (alloc_counter (bw_alloc w)) + 1"
    by (simp_all add: unat_add_no_overflow)
  with a show ?thesis by (intro exI [of _ a'] exI [of _ i]) (simp add: event_buffer_new_def new_buffer_def)
qed

lemma pool_fill_fits:
  assumes "alloc_inv (bw_alloc w)" and "bs \<noteq> 0" and "checked_mul bs sz = Some n" and "memory_never_short S"
    and "alloc_epoch (bw_alloc w) \<noteq> - 1" and "unat (alloc_counter (bw_alloc w)) + k < 2 ^ 64"
    and "unat (curr_alloc (bw_alloc w)) + k * unat n \<le> unat (limit (bw_alloc w))"
  shows "\<exists>a' is. pool_fill S sz align bs start k rs w =
      (Ok (rs @ [length (bw_bufs w)..<length (bw_bufs w) + k]), w\<lparr>bw_alloc := a', bw_bufs := bw_bufs w @ map (new_buffer bs) is\<rparr>) \<and>
    length is = k \<and> alloc_inv a' \<and> unat (curr_alloc a') = unat (curr_alloc (bw_alloc w)) + k * unat n \<and> limit a' = limit (bw_alloc w)"
  using assms
proof (induction k arbitrary: w rs)
  case 0
  then show ?case by (intro exI [of _ "bw_alloc w"] exI [of _ "[]"]) simp
next
  case (Suc k)
  have "unat (alloc_counter (bw_alloc w)) + 1 < 2 ^ 64"
    "unat (curr_alloc (bw_alloc w)) + unat n \<le> unat (limit (bw_alloc w))" using Suc.prems(6,7) by simp_all
  from event_buffer_new_fits [OF Suc.prems(1-5) this, of align] obtain a1 i where
    1: "event_buffer_new S sz align bs w = (Ok (length (bw_bufs w)), w\<lparr>bw_alloc := a1, bw_bufs := bw_bufs w @ [new_buffer bs i]\<rparr>)"
      "alloc_inv a1" "alloc_epoch a1 = alloc_epoch (bw_alloc w)"
      "unat (alloc_counter a1) = unat (alloc_counter (bw_alloc w)) + 1"
      "unat (curr_alloc a1) = unat (curr_alloc (bw_alloc w)) + unat n" "limit a1 = limit (bw_alloc w)" by blast
  let ?w = "w\<lparr>bw_alloc := a1, bw_bufs := bw_bufs w @ [new_buffer bs i]\<rparr>"
  have "\<exists>a' is. pool_fill S sz align bs start k (rs @ [length (bw_bufs w)]) ?w =
      (Ok ((rs @ [length (bw_bufs w)]) @ [length (bw_bufs ?w)..<length (bw_bufs ?w) + k]), ?w\<lparr>bw_alloc := a', bw_bufs := bw_bufs ?w @ map (new_buffer bs) is\<rparr>) \<and>
    length is = k \<and> alloc_inv a' \<and> unat (curr_alloc a') = unat (curr_alloc (bw_alloc ?w)) + k * unat n \<and> limit a' = limit (bw_alloc ?w)"
    by (rule Suc.IH) (use 1 Suc.prems in \<open>simp_all add: algebra_simps\<close>)
  then obtain a' js where
    2: "pool_fill S sz align bs start k (rs @ [length (bw_bufs w)]) ?w =
        (Ok ((rs @ [length (bw_bufs w)]) @ [length (bw_bufs ?w)..<length (bw_bufs ?w) + k]), ?w\<lparr>bw_alloc := a', bw_bufs := bw_bufs ?w @ map (new_buffer bs) js\<rparr>)"
      "length js = k" "alloc_inv a'" "unat (curr_alloc a') = unat (curr_alloc a1) + k * unat n" "limit a' = limit a1" by auto
  have "pool_fill S sz align bs start (Suc k) rs w =
      (Ok (rs @ [length (bw_bufs w)..<length (bw_bufs w) + Suc k]), w\<lparr>bw_alloc := a', bw_bufs := bw_bufs w @ map (new_buffer bs) (i # js)\<rparr>)"
    using 1(1) 2(1) by (simp add: upt_conv_Cons)
  then show ?case using 1(5,6) 2 by (intro exI [of _ a'] exI [of _ "i # js"]) simp
qed

text \<open>A pool that does not fit is given back.\<close>

lemma drop_buffers_ok: "alloc_inv (bw_alloc w) \<Longrightarrow> \<exists>a'. drop_buffers S bufs w = (Ok (), w\<lparr>bw_alloc := a'\<rparr>) \<and> alloc_inv a'"
proof (induction bufs arbitrary: w)
  case Nil
  then show ?case by (intro exI [of _ "bw_alloc w"]) simp
next
  case (Cons b bufs)
  obtain a1 where 1: "dealloc S (eb_id b) (bw_alloc w) = (Ok (), a1)" "alloc_inv a1"
    using dealloc_inv [OF Cons.prems] by blast
  from Cons.IH [of "w\<lparr>bw_alloc := a1\<rparr>"] 1 show ?case by (auto simp: bind_s_def event_buffer_drop_def)
qed

lemma pool_fill_full:
  assumes "alloc_inv (bw_alloc w)" and "bs \<noteq> 0" and "checked_mul bs sz = Some n" and "memory_never_short S"
    and "alloc_epoch (bw_alloc w) \<noteq> - 1" and "unat (alloc_counter (bw_alloc w)) + k < 2 ^ 64"
    and "unat (limit (bw_alloc w)) < unat (curr_alloc (bw_alloc w)) + k * unat n"
    and "unat (limit (bw_alloc w)) + unat n < 2 ^ 64"
  shows "\<exists>w'. pool_fill S sz align bs start k rs w = (Err (new_arcon ''EventBuffer Alloc err''), w')"
  using assms
proof (induction k arbitrary: w rs)
  case 0
  then show ?case by (simp add: alloc_inv_def word_le_nat_alt)
next
  case (Suc k)
  show ?case
  proof (cases "unat (curr_alloc (bw_alloc w)) + unat n \<le> unat (limit (bw_alloc w))")
    case True
    have "unat (alloc_counter (bw_alloc w)) + 1 < 2 ^ 64" using Suc.prems(6) by simp
    from event_buffer_new_fits [OF Suc.prems(1-5) this True, of align] obtain a1 i where
      1: "event_buffer_new S sz align bs w = (Ok (length (bw_bufs w)), w\<lparr>bw_alloc := a1, bw_bufs := bw_bufs w @ [new_buffer bs i]\<rparr>)"
        "alloc_inv a1" "alloc_epoch a1 = alloc_epoch (bw_alloc w)"
        "unat (alloc_counter a1) = unat (alloc_counter (bw_alloc w)) + 1"
        "unat (curr_alloc a1) = unat (curr_alloc (bw_alloc w)) + unat n" "limit a1 = limit (bw_alloc w)" by blast
    have "\<exists>w'. pool_fill S sz align bs start k (rs @ [length (bw_bufs w)]) (w\<lparr>bw_alloc := a1, bw_bufs := bw_bufs w @ [new_buffer bs i]\<rparr>)
        = (Err (new_arcon ''EventBuffer Alloc err''), w')"
      by (rule Suc.IH) (use 1 Suc.prems in \<open>simp_all add: algebra_simps\<close>)
    then show ?thesis using 1(1) by simp
  next
    case False
    have "unat (curr_alloc (bw_alloc w)) \<le> unat (limit (bw_alloc w))"
      using Suc.prems(1) by (simp add: alloc_inv_def word_le_nat_alt)
    then have "alloc S sz align bs (bw_alloc w) = (Ok (ArconOOM (limit (bw_alloc w) - curr_alloc (bw_alloc w))), bw_alloc w)"
      using alloc_refused [OF Suc.prems(1-3)] False Suc.prems(8) by simp
    then have "event_buffer_new S sz align bs w = (Err (new_arcon ''EventBuffer Alloc err''), w)"
      by (simp add: event_buffer_new_def)
    then show ?thesis
      using drop_buffers_ok [OF Suc.prems(1), of S "drop start (bw_bufs w)"] by (auto simp: bind_s_def)
  qed
qed

section \<open>Properties\<close>

text \<open>The world of a new pipeline: no buffer is allocated and no message is under way.\<close>

definition pipeline_world :: "('k, 'y, 'r) arcon_pipeline \<Rightarrow> nat list list \<Rightarrow> ('a, 'y) chan_world" where
  "pipeline_world P schedule =
     \<lparr>bw_alloc = pl_allocator P, bw_bufs = [], cw_mailbox = [], cw_consumed = [], cw_schedule = schedule\<rparr>"

lemma checked_mul_Some: "unat a * unat b < 2 ^ 64 \<Longrightarrow> checked_mul a b = Some (a * b) \<and> unat (a * b) = unat a * unat b"
  for a b :: u64
  using unat_mult_lem [of a b] by (simp add: checked_mul_def)

lemma new_pool_and_writer_fits:
  fixes w :: "('a, 'y) chan_world"
  assumes "alloc_inv (bw_alloc w)" and "bs \<noteq> 0" and "checked_mul bs sz = Some n" and "memory_never_short S"
    and "alloc_epoch (bw_alloc w) \<noteq> - 1" and "unat (alloc_counter (bw_alloc w)) + k < 2 ^ 64"
    and "unat (curr_alloc (bw_alloc w)) + k * unat n \<le> unat (limit (bw_alloc w))"
    and "0 < k" and "vc k = k" and "bw_bufs w = []" and "cw_mailbox w = []"
    and "pi_buffer_size i = bs" and "pi_capacity i = k"
  shows "\<exists>wr p w'. new_pool_and_writer S vc sz align i w = (Ok (wr, p), w') \<and>
    chan_inv (bp_buffers p) bs [wr] w' \<and> pool_ok p (bw_bufs w') \<and> wr_len wr = 0 \<and>
    cw_mailbox w' = [] \<and> cw_consumed w' = cw_consumed w"
proof -
  from pool_fill_fits [OF assms(1-7), of align 0 "[]"] assms(10) obtain a' js where
    f: "pool_fill S sz align bs 0 k [] w = (Ok [0..<k], w\<lparr>bw_alloc := a', bw_bufs := map (new_buffer bs) js\<rparr>)"
    and js: "length js = k" by auto
  define w1 where "w1 = w\<lparr>bw_alloc := a', bw_bufs := map (new_buffer bs) js\<rparr>"
  define p where "p = \<lparr>bp_buffer_size = bs, bp_buffers = [0..<k], bp_vec_capacity = k, bp_curr = 0\<rparr>"
  have new: "pool_new S vc sz align k bs w = (Ok p, w1)"
    using f assms(9,10) by (simp add: pool_new_def bind_s_def p_def w1_def)
  have ok: "pool_ok p (bw_bufs w1)" using js assms(8) by (simp add: pool_ok_def p_def w1_def list_all_iff)
  have buf: "bw_bufs w1 ! r = new_buffer bs (js ! r)" if "r < k" for r using that js by (simp add: w1_def)
  have "pool_try_get p w1 = (Ok (Some (writer_new 0 0 bs), index_incr p), reserve 0 w1)"
    using pool_try_get_free [OF ok] buf [OF assms(8)] assms(8) by (simp add: p_def new_buffer_def)
  then have "new_pool_and_writer S vc sz align i w = (Ok (writer_new 0 0 bs, index_incr p), reserve 0 w1)"
    using new assms(12,13) by (simp add: new_pool_and_writer_def bind_s_def unwrap_or_panic_def)
  moreover have "chan_inv (bp_buffers (index_incr p)) bs [writer_new 0 0 bs] (reserve 0 w1)"
    using js buf assms(2,8,11)
    by (auto simp: chan_inv_def slots_def writer_new_def reserve_def p_def buffer_ok_def new_buffer_def written_def nth_list_update
        unat_gt_0 w1_def)
  moreover have "pool_ok (index_incr p) (bw_bufs (reserve 0 w1))"
    using pool_ok_index [OF ok] by (simp add: pool_ok_def reserve_def)
  ultimately show ?thesis using assms(11) by (auto simp: reserve_def w1_def writer_new_def)
qed

lemma forward_new_fits:
  fixes w :: "('a, 'y) chan_world"
  assumes "alloc_inv (bw_alloc w)" and "bs \<noteq> 0" and "checked_mul bs sz = Some n" and "memory_never_short S"
    and "alloc_epoch (bw_alloc w) \<noteq> - 1" and "unat (alloc_counter (bw_alloc w)) + k < 2 ^ 64"
    and "unat (curr_alloc (bw_alloc w)) + k * unat n \<le> unat (limit (bw_alloc w))"
    and "0 < k" and "vc k = k" and "bw_bufs w = []" and "cw_mailbox w = []"
    and "pi_buffer_size i = bs" and "pi_capacity i = k" and "cw_consumed w = []" and "reliable T ch"
  shows "\<exists>s w'. forward_new S vc sz align ch sender i w = (Ok s, w') \<and>
    forward_ok T bs (s, w') \<and> forward_empty (s, w') \<and> forward_log (s, w') = (ch, \<lambda>_. [])"
proof -
  from new_pool_and_writer_fits [where vc = vc and align = align, OF assms(1-13)] assms(14)
  obtain wr p w' where n: "new_pool_and_writer S vc sz align i w = (Ok (wr, p), w')"
    "chan_inv (bp_buffers p) bs [wr] w'" "pool_ok p (bw_bufs w')" "wr_len wr = 0" "cw_mailbox w' = []" "cw_consumed w' = []"
    by auto
  let ?s = "\<lparr>fw_pool = p, fw_curr = wr, fw_channel = ch, fw_sender = sender, fw_pool_info = i\<rparr>"
  have "forward_new S vc sz align ch sender i w = (Ok ?s, w')" using n(1) by (simp add: forward_new_def bind_s_def)
  moreover have "forward_ok T bs (?s, w')" using n(2,3) assms(15) by (simp add: forward_ok_def)
  moreover have "forward_log (?s, w') = (ch, \<lambda>_. [])"
    using n(4-6) by (simp add: forward_log_def outs_def [abs_def] out_events_def held_def contents_def appended_def fun_eq_iff)
  ultimately show ?thesis using n(4) by (auto simp: forward_empty_def)
qed

text \<open>C13: A pipeline whose configuration fits starts. When the buffers of a pool, its size times the size of a batch times
  the size of an event, fit in the capacity of the allocator, a Forward strategy on the pool of a new
  pipeline is created, with nothing sent and nothing held back, and in the state that all its later
  operations rely on; when they do not fit, its creation panics. The default configuration fits exactly
  for events of at most 2064 bytes.\<close>

theorem pipeline_forward_starts:
  fixes T :: "'a tell_serialised" and y :: 'y and P :: "('k, 'y, 'r) arcon_pipeline"
  assumes "pipeline_with_conf debug parse build y c = Ok P" and "memory_never_short S"
    and "cf_channel_batch_size c \<noteq> 0" and "cf_buffer_pool_size c \<noteq> 0"
    and "vc (unat (cf_buffer_pool_size c)) = unat (cf_buffer_pool_size c)" and "reliable T ch"
    and "unat (cf_allocator_capacity c) + unat (cf_channel_batch_size c) * unat sz < 2 ^ 64"
  shows "(if unat (cf_buffer_pool_size c) * (unat (cf_channel_batch_size c) * unat sz) \<le> unat (cf_allocator_capacity c)
     then \<exists>s w. forward_new S vc sz align ch sender (get_pool_info P) (pipeline_world P schedule :: ('a, 'y) chan_world) = (Ok s, w) \<and>
       forward_ok T (cf_channel_batch_size c) (s, w) \<and> forward_empty (s, w) \<and> forward_log (s, w) = (ch, \<lambda>_. [])
     else \<exists>w. forward_new S vc sz align ch sender (get_pool_info P) (pipeline_world P schedule :: ('a, 'y) chan_world)
       = (Panic ''failed to initialise buffer pool'', w)) \<and>
    (c = conf_default V \<longrightarrow> (
      unat (cf_buffer_pool_size c) * (unat (cf_channel_batch_size c) * unat sz) \<le> unat (cf_allocator_capacity c) \<longleftrightarrow> unat sz \<le> 2064))"
proof (intro conjI impI)
  let ?w = "pipeline_world P schedule :: ('a, 'y) chan_world" and ?bs = "cf_channel_batch_size c"
  let ?k = "unat (cf_buffer_pool_size c)" and ?i = "get_pool_info P"
  have P: "pl_conf P = c" "pl_allocator P = allocator_new (cf_allocator_capacity c) y"
    using assms(1) by (auto simp: pipeline_with_conf_def bind_o_Ok_iff)
  then have i: "pi_buffer_size ?i = ?bs" "pi_capacity ?i = ?k" by (simp_all add: get_pool_info_def)
  have w: "bw_alloc ?w = allocator_new (cf_allocator_capacity c) y" "bw_bufs ?w = []" "cw_mailbox ?w = []" "cw_consumed ?w = []"
    by (simp_all add: pipeline_world_def P)
  have inv: "alloc_inv (bw_alloc ?w)" by (simp add: w alloc_inv_new)
  have mul: "checked_mul ?bs sz = Some (?bs * sz)" "unat (?bs * sz) = unat ?bs * unat sz"
    using checked_mul_Some [of ?bs sz] assms(7) by simp_all
  have start: "alloc_epoch (bw_alloc ?w) \<noteq> - 1" "unat (alloc_counter (bw_alloc ?w)) + ?k < 2 ^ 64"
    using unsigned_less [of "cf_buffer_pool_size c"] by (simp_all add: w allocator_new_def)
  have k: "0 < ?k" using assms(4) by (simp add: unat_gt_0)
  show "if ?k * (unat ?bs * unat sz) \<le> unat (cf_allocator_capacity c)
     then \<exists>s w. forward_new S vc sz align ch sender ?i ?w = (Ok s, w) \<and>
       forward_ok T ?bs (s, w) \<and> forward_empty (s, w) \<and> forward_log (s, w) = (ch, \<lambda>_. [])
     else \<exists>w. forward_new S vc sz align ch sender ?i ?w = (Panic ''failed to initialise buffer pool'', w)"
  proof (cases "?k * (unat ?bs * unat sz) \<le> unat (cf_allocator_capacity c)")
    case True
    then have "unat (curr_alloc (bw_alloc ?w)) + ?k * unat (?bs * sz) \<le> unat (limit (bw_alloc ?w))"
      by (simp add: w allocator_new_def mul(2))
    from forward_new_fits [where vc = vc and align = align, OF inv assms(3) mul(1) assms(2) start this k assms(5) w(2,3) i w(4) assms(6)]
    show ?thesis using True by simp
  next
    case False
    then have "unat (limit (bw_alloc ?w)) < unat (curr_alloc (bw_alloc ?w)) + ?k * unat (?bs * sz)"
      "unat (limit (bw_alloc ?w)) + unat (?bs * sz) < 2 ^ 64"
      using assms(7) by (simp_all add: w allocator_new_def mul(2))
    from pool_fill_full [OF inv assms(3) mul(1) assms(2) start this, of align 0 "[]"] w(2)
    show ?thesis using False by (auto simp: forward_new_def new_pool_and_writer_def pool_new_def bind_s_def i)
  qed
qed (auto simp: conf_default_def buffer_pool_size_default_def)

definition demo_conf_env :: conf_env where
  "demo_conf_env = \<lparr>ev_temp_dir = ''/tmp'', ev_num_cpus = 4\<rparr>"

definition demo_pipeline :: "(unit, unit, unit) arcon_pipeline" where
  "demo_pipeline = \<lparr>pl_system = (), pl_conf = conf_default demo_conf_env, pl_allocator = allocator_new 524288000 (), pl_node_managers = Map.empty\<rparr>"

theorem pipeline_forward_starts_witness:
  "\<exists>s w. forward_new \<lparr>sys_alloc = (\<lambda>l y. (4096, y)), sys_dealloc = (\<lambda>p l y. y)\<rparr> id 64 8 (Local 0) (NodeID 1)
     (get_pool_info demo_pipeline) (pipeline_world demo_pipeline [] :: (u64, unit) chan_world) = (Ok s, w) \<and>
   forward_ok (\<lambda>_ _ _. Ok ()) 248 (s, w) \<and> forward_empty (s, w) \<and> forward_log (s, w) = (Local 0, \<lambda>_. [])"
proof -
  let ?S = "\<lparr>sys_alloc = (\<lambda>l y. (4096, y)), sys_dealloc = (\<lambda>p l y. y)\<rparr> :: unit system_alloc"
  let ?T = "(\<lambda>_ _ _. Ok ()) :: u64 tell_serialised"
  have "pipeline_with_conf id (\<lambda>_. None :: unit option) (\<lambda>_. Some ()) () (conf_default demo_conf_env) = Ok demo_pipeline"
    by (simp add: pipeline_with_conf_def pipeline_setup_def kompact_conf_of_def conf_default_def demo_pipeline_def Let_def unwrap_or_panic_def)
  moreover have "memory_never_short ?S" "reliable ?T (Local 0)" by (simp_all add: memory_never_short_def reliable_def)
  ultimately show ?thesis
    using pipeline_forward_starts [where P = demo_pipeline and S = ?S and T = ?T and vc = id and sz = 64 and align = 8 and ch = "Local 0"
        and sender = "NodeID 1" and schedule = "[]" and c = "conf_default demo_conf_env" and V = demo_conf_env and y = "()"]
    by (simp add: conf_default_def buffer_pool_size_default_def)
qed

text \<open>What managers keep.\<close>

fun manager_events :: "bool \<Rightarrow> 'm node_event list \<Rightarrow> (('x, 'm) node_manager, arcon_error, unit) action" where
  "manager_events tui [] = return_s ()"
| "manager_events tui (e # es) = bind_s (manager_handle tui e) (\<lambda>_. manager_events tui es)"

fun event_entry :: "'m node_event \<Rightarrow> node_id \<times> 'm node_metrics" where
  "event_entry (MetricsEvent i x) = (i, x)"

lemma update_fresh: "k \<notin> fst ` set m \<Longrightarrow> AList.update k v m = m @ [(k, v)]"
  by (induction m) auto

lemma number_nodes_list:
  assumes "i + length ns \<le> 2 ^ 32" and "\<forall>(j, x) \<in> set m. unat (nid j) < i"
  shows "number_nodes i ns m = m @ zip (map (\<lambda>l. NodeID (word_of_nat l)) [i..<i + length ns]) ns"
  using assms
proof (induction ns arbitrary: i m)
  case (Cons n ns)
  have i: "unat (word_of_nat i :: u32) = i" using Cons.prems(1) by (simp add: unat_of_nat take_bit_nat_eq_self)
  then have "node_id_new (word_of_nat i) \<notin> fst ` set m" using Cons.prems(2) by (force simp: node_id_new_def)
  then have "number_nodes i (n # ns) m = number_nodes (Suc i) ns (m @ [(NodeID (word_of_nat i), n)])"
    by (simp add: update_fresh node_id_new_def)
  also have "\<dots> = (m @ [(NodeID (word_of_nat i), n)]) @ zip (map (\<lambda>l. NodeID (word_of_nat l)) [Suc i..<Suc i + length ns]) ns"
    by (rule Cons.IH) (use Cons.prems i in \<open>auto intro: less_SucI\<close>)
  also have "[i..<i + length (n # ns)] = i # [Suc i..<Suc i + length ns]" by (simp add: upt_conv_Cons del: upt_Suc)
  then have "(m @ [(NodeID (word_of_nat i), n)]) @ zip (map (\<lambda>l. NodeID (word_of_nat l)) [Suc i..<Suc i + length ns]) ns =
      m @ zip (map (\<lambda>l. NodeID (word_of_nat l)) [i..<i + length (n # ns)]) (n # ns)" by (simp del: upt_Suc)
  finally show ?case .
qed simp

lemma map_of_zip_ids:
  assumes "length ns \<le> 2 ^ 32"
  shows "map_of (zip (map (\<lambda>l. NodeID (word_of_nat l)) [0..<length ns]) ns) i =
    (if unat (nid i) < length ns then Some (ns ! unat (nid i)) else None)"
proof (cases "unat (nid i) < length ns")
  case True
  let ?ids = "map (\<lambda>l. NodeID (word_of_nat l)) [0..<length ns]"
  have "inj_on (\<lambda>l. NodeID (word_of_nat l :: u32)) {0..<length ns}"
  proof (rule inj_onI)
    fix k l
    assume "k \<in> {0..<length ns}" "l \<in> {0..<length ns}" "NodeID (word_of_nat k :: u32) = NodeID (word_of_nat l)"
    then have "unat (word_of_nat k :: u32) = unat (word_of_nat l :: u32)" "k < 2 ^ 32" "l < 2 ^ 32" using assms by auto
    then show "k = l" by (simp add: unat_of_nat take_bit_nat_eq_self)
  qed
  then have "distinct (map fst (zip ?ids ns))" by (simp add: distinct_map)
  moreover have "(i, ns ! unat (nid i)) \<in> set (zip ?ids ns)"
    using True by (auto simp: in_set_zip intro!: exI [of _ "unat (nid i)"])
  ultimately show ?thesis using True by simp
next
  case False
  have "i \<notin> set (map (\<lambda>l. NodeID (word_of_nat l)) [0..<length ns])"
  proof
    assume "i \<in> set (map (\<lambda>l. NodeID (word_of_nat l)) [0..<length ns])"
    then obtain l where "l < length ns" "nid i = word_of_nat l" by auto
    then have "unat (nid i) = l" using assms by (simp add: unat_of_nat take_bit_nat_eq_self)
    then show False using False \<open>l < length ns\<close> by simp
  qed
  then show ?thesis using False map_of_zip_is_None [of "map (\<lambda>l. NodeID (word_of_nat l)) [0..<length ns]" ns i] by simp
qed

lemma manager_events_keep:
  "manager_events tui es m = (Ok (), m\<lparr>mg_node_metrics := mg_node_metrics m ++ map_of (rev (map event_entry es)),
     mg_tui := mg_tui m @ (if tui then map (\<lambda>e. \<lparr>mr_descriptor = mg_node_description m, mr_id = fst (event_entry e),
       mr_parallelism = mg_node_parallelism m, mr_metrics = snd (event_entry e)\<rparr>) es else [])\<rparr>)"
proof (induction es arbitrary: m)
  case (Cons e es)
  then show ?case by (cases e) (simp add: bind_s_def Let_def)
qed simp

lemma connect_nodes_eq:
  "connect_nodes has_port ns m =
     (if list_all (\<lambda>n. has_port (snd n)) ns then Ok () else Panic ''Couldn't find a required NodeManagerPort'',
      m\<lparr>mg_connected := mg_connected m @ map fst (takeWhile (\<lambda>n. has_port (snd n)) ns)\<rparr>)"
  by (induction ns arbitrary: m) (auto simp: bind_s_def)

text \<open>A manager knows its nodes and their latest metrics. The nodes that it is created with get the
  identifiers 0, 1 and so on, and its index is the identifier that is free next; when it starts, every node is
  connected, if all have the port, and otherwise it panics; after any sequence of reports it holds for every
  node the latest one, and the dashboard, where there is one, was sent all reports in order.\<close>

theorem manager_keeps_latest:
  fixes comps :: "'x list" and es :: "'m node_event list"
  assumes "length comps < 2 ^ 32"
  shows "\<exists>m m' :: ('x, 'm) node_manager.
    manager_on_start has_port (node_manager_new V d ins comps) =
      (if list_all has_port comps then Ok () else Panic ''Couldn't find a required NodeManagerPort'', m) \<and>
    (list_all has_port comps \<longrightarrow> set (mg_connected m) = dom (map_of (mg_nodes m))) \<and>
    manager_events tui es m = (Ok (), m') \<and>
    map_of (mg_nodes m') = (\<lambda>i. if unat (nid i) < length comps then Some (comps ! unat (nid i)) else None) \<and>
    unat (mg_node_index m') = length comps \<and> unat (mg_node_parallelism m') = length comps \<and>
    mg_node_metrics m' = map_of (rev (map event_entry es)) \<and>
    map (\<lambda>r. (mr_id r, mr_metrics r)) (mg_tui m') = (if tui then map event_entry es else [])"
proof -
  let ?new = "node_manager_new V d ins comps :: ('x, 'm) node_manager" and ?ids = "map (\<lambda>l. NodeID (word_of_nat l)) [0..<length comps]"
  have nodes: "mg_nodes ?new = zip ?ids comps"
    using assms number_nodes_list [of 0 comps "[]"] by (simp add: node_manager_new_def Let_def)
  have all: "list_all (\<lambda>n. has_port (snd n)) (zip ?ids comps) = list_all has_port comps"
    by (simp add: list_all_length)
  let ?m = "?new\<lparr>mg_connected := map fst (takeWhile (\<lambda>n. has_port (snd n)) (zip ?ids comps))\<rparr>"
  have fresh: "mg_connected ?new = []" by (simp add: node_manager_new_def Let_def)
  have start: "manager_on_start has_port ?new =
      (if list_all has_port comps then Ok () else Panic ''Couldn't find a required NodeManagerPort'', ?m)"
    unfolding manager_on_start_def nodes connect_nodes_eq all fresh by simp
  have "list_all has_port comps \<longrightarrow> takeWhile (\<lambda>n. has_port (snd n)) (zip ?ids comps) = zip ?ids comps"
    unfolding all [symmetric] takeWhile_eq_all_conv by (simp add: list_all_iff)
  then have "list_all has_port comps \<longrightarrow> set (mg_connected ?m) = dom (map_of (mg_nodes ?m))"
    by (simp add: nodes dom_map_of_zip del: takeWhile_eq_all_conv)
  moreover have "unat (word_of_nat (length comps) :: u32) = length comps" "unat (ucast (word_of_nat (length comps) :: u32) :: usize) = length comps"
    using assms by (simp_all add: unat_of_nat take_bit_nat_eq_self unsigned_ucast_eq take_bit_nat_def)
  then have "unat (mg_node_index ?new) = length comps" "unat (mg_node_parallelism ?new) = length comps"
    "mg_node_metrics ?new = Map.empty" "mg_tui ?new = []"
    by (simp_all add: node_manager_new_def Let_def)
  moreover have "map_of (mg_nodes ?m) = (\<lambda>i. if unat (nid i) < length comps then Some (comps ! unat (nid i)) else None)"
    using map_of_zip_ids [of comps] assms by (simp add: nodes fun_eq_iff)
  ultimately show ?thesis
    unfolding start by (intro exI [of _ ?m] exI [of _ "snd (manager_events tui es ?m)"]) (simp add: manager_events_keep o_def)
qed

theorem manager_keeps_latest_witness:
  "\<exists>m m' :: (string, real option) node_manager.
    manager_on_start (\<lambda>_. True) (node_manager_new demo_conf_env ''map'' [NodeID 7] [''a'', ''b'']) = (Ok (), m) \<and>
    manager_events True [MetricsEvent (NodeID 1) (node_metrics_new ideal_ops 0), MetricsEvent (NodeID 0) (node_metrics_new ideal_ops 0)] m = (Ok (), m') \<and>
    map_of (mg_nodes m') (NodeID 1) = Some ''b'' \<and> mg_node_metrics m' (NodeID 0) = Some (node_metrics_new ideal_ops 0) \<and>
    map (\<lambda>r. (mr_id r, mr_metrics r)) (mg_tui m') = [(NodeID 1, node_metrics_new ideal_ops 0), (NodeID 0, node_metrics_new ideal_ops 0)]"
  using manager_keeps_latest [of "[''a'', ''b'']" "\<lambda>_. True" demo_conf_env "''map''" "[NodeID 7]" True
      "[MetricsEvent (NodeID 1) (node_metrics_new ideal_ops 0), MetricsEvent (NodeID 0) (node_metrics_new ideal_ops 0)]"]
  by (auto simp: unat_numeral)

end
