(* ===== verification/Macros.thy ===== *)
theory Macros
  imports Arcon_Types Sources Checkpoints
begin

text \<open>
  Model of the crate \<^verbatim>\<open>arcon_macros\<close>: the derive macro \<^verbatim>\<open>Arcon\<close>, which writes the implementation of
  \<^verbatim>\<open>ArconType\<close> for a struct or an enum, and the attribute macro \<^verbatim>\<open>arcon_decoder\<close>, which writes an
  implementation of \<^verbatim>\<open>FromStr\<close>. A macro works on the syntax tree that the crate \<^verbatim>\<open>syn\<close> hands it: the
  types of the first section are the part of that tree which the macros look at. What a macro
  returns is the generated code as data, which \<open>derived_type\<close> and \<open>generated_from_str\<close> run. A panic
  of a macro is an error at compile time.
\<close>

unbundle bit_operations_syntax

section \<open>The syntax tree\<close>

text \<open>A literal of integers carries its decimal digits (\<^verbatim>\<open>base10_digits\<close>).\<close>

datatype lit = LitStr string | LitInt string | LitOther

datatype attr_path = AttrPath (leading_colon: bool) (attr_segments: "string list")

datatype meta =
    MetaPath attr_path
  | MetaList attr_path "nested_meta list"
  | MetaNameValue attr_path lit
and nested_meta =
    NestedMeta meta
  | NestedLit lit

fun meta_path :: "meta \<Rightarrow> attr_path" where
  "meta_path (MetaPath p) = p"
| "meta_path (MetaList p _) = p"
| "meta_path (MetaNameValue p _) = p"

definition path_is_ident :: "attr_path \<Rightarrow> string \<Rightarrow> bool" where
  "path_is_ident p name \<longleftrightarrow> p = AttrPath False [name]"

datatype syn_type =
    TypePath "path_segment list"
  | TypeOther
and path_segment =
    PathSegment string path_arguments
and path_arguments =
    NoArguments
  | AngleBracketed "generic_argument list"
  | Parenthesized
and generic_argument =
    ArgType syn_type
  | ArgOther

record syn_field =
  field_ident :: "string option"
  field_ty :: syn_type

datatype syn_data = DataStruct "syn_field list" | DataEnum | DataUnion

text \<open>An attribute is what \<^verbatim>\<open>parse_meta\<close> makes of it: an error or its meta.\<close>

record derive_input =
  di_ident :: string
  di_attrs :: "(string + meta) list"
  di_data :: syn_data

type_synonym 'a expansion = "(unit, 'a) outcome"

section \<open>Strings\<close>

definition trim_by :: "('a \<Rightarrow> bool) \<Rightarrow> 'a list \<Rightarrow> 'a list" where
  "trim_by w s = rev (dropWhile w (rev (dropWhile w s)))"

definition white_char :: "char \<Rightarrow> bool" where
  "white_char c = white_space (of_char c)"

definition trim_string :: "string \<Rightarrow> string" where
  "trim_string s = trim_by white_char s"

text \<open>\<^verbatim>\<open>str::split\<close> on a string: the matches are found from the left and do not overlap. The first
  two arguments are the pattern. An empty pattern matches around every character.\<close>

fun split_at :: "'a \<Rightarrow> 'a list \<Rightarrow> 'a list \<Rightarrow> 'a list list" where
  "split_at p ps [] = [[]]"
| "split_at p ps (x # xs) =
     (if take (Suc (length ps)) (x # xs) = p # ps then [] # split_at p ps (drop (length ps) xs)
      else (case split_at p ps xs of [] \<Rightarrow> [[x]] | q # qs \<Rightarrow> (x # q) # qs))"

definition split_str :: "'a list \<Rightarrow> 'a list \<Rightarrow> 'a list list" where
  "split_str pat s =
     (case pat of [] \<Rightarrow> [] # map (\<lambda>c. [c]) s @ [[]] | p # ps \<Rightarrow> split_at p ps s)"

definition parse_u32 :: "string \<Rightarrow> u32 option" where
  "parse_u32 s =
     (case parse_u64 s of
        None \<Rightarrow> None
      | Some n \<Rightarrow> if unat n < 2 ^ 32 then Some (ucast n) else None)"

section \<open>The attributes of \<open>derive(Arcon)\<close>\<close>

record ser_attrs =
  at_unsafe_ser_id :: "u64 option"
  at_reliable_ser_id :: "u64 option"
  at_version :: "u32 option"
  at_keys :: "string option"

definition no_attrs :: ser_attrs where
  "no_attrs = \<lparr>at_unsafe_ser_id = None, at_reliable_ser_id = None, at_version = None, at_keys = None\<rparr>"

fun fold_o :: "('s \<Rightarrow> 'a \<Rightarrow> ('e, 's) outcome) \<Rightarrow> 's \<Rightarrow> 'a list \<Rightarrow> ('e, 's) outcome" where
  "fold_o f s [] = Ok s"
| "fold_o f s (x # xs) = bind_o (f s x) (\<lambda>s. fold_o f s xs)"

definition parse_unwrap :: "(string \<Rightarrow> 'n option) \<Rightarrow> string \<Rightarrow> 'n expansion" where
  "parse_unwrap parse s = unwrap_or_panic ''called `Result::unwrap()` on an `Err` value'' (parse s)"

definition arcon_attr_item :: "ser_attrs \<Rightarrow> nested_meta \<Rightarrow> ser_attrs expansion" where
  "arcon_attr_item A item =
     (case item of
        NestedMeta (MetaNameValue p l) \<Rightarrow>
          if path_is_ident p ''unsafe_ser_id'' then
            (case l of
               LitInt s \<Rightarrow> bind_o (parse_unwrap parse_u64 s) (\<lambda>n. Ok (A\<lparr>at_unsafe_ser_id := Some n\<rparr>))
             | _ \<Rightarrow> Panic ''unsafe_ser_id must be an Int literal'')
          else if path_is_ident p ''reliable_ser_id'' then
            (case l of
               LitInt s \<Rightarrow> bind_o (parse_unwrap parse_u64 s) (\<lambda>n. Ok (A\<lparr>at_reliable_ser_id := Some n\<rparr>))
             | _ \<Rightarrow> Panic ''reliable_ser_id must be an Int literal'')
          else if path_is_ident p ''version'' then
            (case l of
               LitInt s \<Rightarrow> bind_o (parse_unwrap parse_u32 s) (\<lambda>n. Ok (A\<lparr>at_version := Some n\<rparr>))
             | _ \<Rightarrow> Panic ''version must be an Int literal'')
          else if path_is_ident p ''keys'' then
            (case l of
               LitStr s \<Rightarrow> Ok (A\<lparr>at_keys := Some s\<rparr>)
             | _ \<Rightarrow> Panic ''keys must be string literal'')
          else Panic ''unsupported attribute key found''
      | _ \<Rightarrow> Panic ''unsupported attribute argument'')"

definition arcon_attr_meta :: "nested_meta list \<Rightarrow> ser_attrs expansion" where
  "arcon_attr_meta items = fold_o arcon_attr_item no_attrs items"

text \<open>The form in doc comments: a comment of three words, the second of which is an equals sign.\<close>

definition arcon_doc_item :: "ser_attrs \<Rightarrow> meta \<Rightarrow> ser_attrs expansion" where
  "arcon_doc_item A attr =
     (case attr of
        MetaNameValue p l \<Rightarrow>
          (case l of
             LitStr value \<Rightarrow>
               (case split_str '' '' (trim_string (trim_string value)) of
                  [name, eq, val] \<Rightarrow>
                    if eq = ''='' then
                      if name = ''unsafe_ser_id'' then
                        bind_o (parse_unwrap parse_u64 val) (\<lambda>n. Ok (A\<lparr>at_unsafe_ser_id := Some n\<rparr>))
                      else if name = ''reliable_ser_id'' then
                        bind_o (parse_unwrap parse_u64 val) (\<lambda>n. Ok (A\<lparr>at_reliable_ser_id := Some n\<rparr>))
                      else if name = ''version'' then
                        bind_o (parse_unwrap parse_u32 val) (\<lambda>n. Ok (A\<lparr>at_version := Some n\<rparr>))
                      else if name = ''keys'' then Ok (A\<lparr>at_keys := Some val\<rparr>)
                      else Ok A
                    else Ok A
                | _ \<Rightarrow> Ok A)
           | _ \<Rightarrow> Panic ''unsafe_ser_id must be an Str literal'')
      | _ \<Rightarrow> Panic ''expected NameValue'')"

definition arcon_doc_attr :: "meta list \<Rightarrow> ser_attrs expansion" where
  "arcon_doc_attr name_values = fold_o arcon_doc_item no_attrs name_values"

text \<open>The first attribute \<^verbatim>\<open>arcon\<close>; the attributes behind it are not parsed.\<close>

fun find_arcon :: "(string + meta) list \<Rightarrow> meta option expansion" where
  "find_arcon [] = Ok None"
| "find_arcon (Inr m # as) = (if path_is_ident (meta_path m) ''arcon'' then Ok (Some m) else find_arcon as)"
| "find_arcon (Inl e # as) = Panic (''unable to parse attribute: '' @ e)"

fun doc_attrs :: "(string + meta) list \<Rightarrow> meta list expansion" where
  "doc_attrs [] = Ok []"
| "doc_attrs (Inr m # as) =
     bind_o (doc_attrs as) (\<lambda>ms. Ok (if path_is_ident (meta_path m) ''doc'' then m # ms else ms))"
| "doc_attrs (Inl e # as) = Panic ''failed to parse meta''"

definition ser_attrs_of :: "(string + meta) list \<Rightarrow> ser_attrs expansion" where
  "ser_attrs_of attrs =
     bind_o (find_arcon attrs) (\<lambda>arcon_attr.
       case arcon_attr of
         Some (MetaList _ inner) \<Rightarrow> arcon_attr_meta inner
       | Some _ \<Rightarrow> Panic ''attribute 'arcon' has incorrect type''
       | None \<Rightarrow> bind_o (doc_attrs attrs) arcon_doc_attr)"

section \<open>The key\<close>

definition STRING_BYTES_ESTIMATION :: nat where
  "STRING_BYTES_ESTIMATION = 10"

definition BYTE_ARRAY_ESTIMATION :: nat where
  "BYTE_ARRAY_ESTIMATION = 10"

text \<open>How often \<^verbatim>\<open>u8\<close> occurs directly below the angle brackets of a \<^verbatim>\<open>Vec\<close>.\<close>

definition u8_segments :: "generic_argument \<Rightarrow> nat" where
  "u8_segments a =
     (case a of
        ArgType (TypePath segs) \<Rightarrow> length (filter (\<lambda>s. case s of PathSegment i _ \<Rightarrow> i = ''u8'') segs)
      | _ \<Rightarrow> 0)"

definition vec_hits :: "path_arguments \<Rightarrow> nat" where
  "vec_hits args = (case args of AngleBracketed ag \<Rightarrow> sum_list (map u8_segments ag) | _ \<Rightarrow> 0)"

definition segment_hits :: "path_segment \<Rightarrow> nat" where
  "segment_hits seg =
     (case seg of PathSegment i args \<Rightarrow>
        if i \<in> {''String'', ''u32'', ''u64'', ''i32'', ''i64'', ''bool''} then 1
        else if i = ''Vec'' then vec_hits args
        else 0)"

definition type_hits :: "syn_type \<Rightarrow> nat" where
  "type_hits ty = (case ty of TypePath segs \<Rightarrow> sum_list (map segment_hits segs) | TypeOther \<Rightarrow> 0)"

fun hashable_fields :: "syn_field list \<Rightarrow> string list expansion" where
  "hashable_fields [] = Ok []"
| "hashable_fields (f # fs) =
     (case field_ident f of
        Some i \<Rightarrow> bind_o (hashable_fields fs) (\<lambda>is. Ok (replicate (type_hits (field_ty f)) i @ is))
      | None \<Rightarrow> Panic ''Struct missing identiy'')"

definition segment_bytes :: "path_segment \<Rightarrow> nat" where
  "segment_bytes seg =
     (case seg of PathSegment i args \<Rightarrow>
        if i = ''String'' then STRING_BYTES_ESTIMATION
        else if i = ''u32'' then 4
        else if i = ''u64'' then 8
        else if i = ''i32'' then 4
        else if i = ''i64'' then 8
        else if i = ''bool'' then 1
        else if i = ''Vec'' then vec_hits args * BYTE_ARRAY_ESTIMATION
        else 0)"

definition type_bytes :: "syn_type \<Rightarrow> nat" where
  "type_bytes ty = (case ty of TypePath segs \<Rightarrow> sum_list (map segment_bytes segs) | TypeOther \<Rightarrow> 0)"

fun bytes_estimation :: "syn_field list \<Rightarrow> string list \<Rightarrow> nat expansion" where
  "bytes_estimation [] names = Ok 0"
| "bytes_estimation (f # fs) names =
     (case field_ident f of
        Some i \<Rightarrow>
          bind_o (bytes_estimation fs names) (\<lambda>bytes.
            Ok ((if i \<in> set names then type_bytes (field_ty f) else 0) + bytes))
      | None \<Rightarrow> Panic ''Struct missing identiy'')"

datatype hasher = FxHasher | DefaultHasher | XxHash64

definition hasher_stream :: "nat \<Rightarrow> hasher" where
  "hasher_stream estimated_bytes =
     (if estimated_bytes \<le> 8 then FxHasher
      else if estimated_bytes \<le> 32 then DefaultHasher
      else XxHash64)"

text \<open>The body of \<^verbatim>\<open>get_key\<close>: the number 0, or the fields hashed in their order.\<close>

datatype key_quote = KeyZero | KeyHash hasher "string list"

text \<open>\<^verbatim>\<open>Ident::new\<close> accepts the strings that \<open>legal\<close> holds of and panics on any other.\<close>

definition hash_fields_stream :: "(string \<Rightarrow> bool) \<Rightarrow> string list \<Rightarrow> hasher \<Rightarrow> key_quote expansion" where
  "hash_fields_stream legal keys h =
     (if list_all (\<lambda>k. legal (trim_string k)) keys then Ok (KeyHash h (map trim_string keys))
      else Panic ''not a valid Ident'')"

definition struct_key :: "(string \<Rightarrow> bool) \<Rightarrow> syn_field list \<Rightarrow> string list \<Rightarrow> key_quote expansion" where
  "struct_key legal fs names =
     bind_o (bytes_estimation fs names) (\<lambda>estimated_bytes.
       hash_fields_stream legal names (hasher_stream estimated_bytes))"

definition key_quote_of ::
    "(string \<Rightarrow> bool) \<Rightarrow> syn_data \<Rightarrow> string option \<Rightarrow> key_quote expansion" where
  "key_quote_of legal d keys =
     (case d of
        DataStruct fs \<Rightarrow>
          (case keys of
             Some keys \<Rightarrow> struct_key legal fs (split_on (CHR '','') (trim_string keys))
           | None \<Rightarrow> bind_o (hashable_fields fs) (struct_key legal fs))
      | DataEnum \<Rightarrow> if keys \<noteq> None then Panic ''Hashing keys only work for structs'' else Ok KeyZero
      | DataUnion \<Rightarrow> Panic ''#[derive(Arcon)] only works for structs/enums'')"

record derived_impl =
  dv_name :: string
  dv_reliable_ser_id :: u64
  dv_unsafe_ser_id :: u64
  dv_version :: u32
  dv_key :: key_quote

definition derive_arcon :: "(string \<Rightarrow> bool) \<Rightarrow> derive_input \<Rightarrow> derived_impl expansion" where
  "derive_arcon legal input =
     bind_o (ser_attrs_of (di_attrs input)) (\<lambda>A.
     bind_o (unwrap_or_panic ''missing unsafe_ser_id attr'' (at_unsafe_ser_id A)) (\<lambda>unsafe_ser_id.
     bind_o (unwrap_or_panic ''missing reliable_ser_id attr'' (at_reliable_ser_id A)) (\<lambda>reliable_ser_id.
     bind_o (unwrap_or_panic ''missing version attr'' (at_version A)) (\<lambda>version.
     if unsafe_ser_id = reliable_ser_id
     then Panic ''UNSAFE_SER_ID and RELIABLE_SER_ID must have different values''
     else bind_o (key_quote_of legal (di_data input) (at_keys A)) (\<lambda>key.
       Ok \<lparr>dv_name = di_ident input, dv_reliable_ser_id = reliable_ser_id,
           dv_unsafe_ser_id = unsafe_ser_id, dv_version = version, dv_key = key\<rparr>)))))"

section \<open>The generated implementation of \<open>ArconType\<close>\<close>

text \<open>The calls that \<^verbatim>\<open>Hash\<close> makes to a hasher. The default hasher works on the bytes of all calls;
  \<^verbatim>\<open>FxHasher\<close> and \<^verbatim>\<open>XxHash64\<close> are third-party and given by what they return at the end.\<close>

datatype hash_write = WriteBytes bytes | WriteU8 u8 | WriteU32 u32 | WriteU64 u64

fun written :: "hash_write \<Rightarrow> bytes" where
  "written (WriteBytes bs) = bs"
| "written (WriteU8 b) = [b]"
| "written (WriteU32 n) = to_le n"
| "written (WriteU64 n) = to_le n"

definition finish_hasher ::
    "(hash_write list \<Rightarrow> u64) \<Rightarrow> (hash_write list \<Rightarrow> u64) \<Rightarrow> hasher \<Rightarrow> hash_write list \<Rightarrow> u64" where
  "finish_hasher fx xx h ws =
     (case h of
        FxHasher \<Rightarrow> fx ws
      | DefaultHasher \<Rightarrow> sip_hash (concat (map written ws))
      | XxHash64 \<Rightarrow> xx ws)"

text \<open>The argument \<open>hash\<close> is what \<^verbatim>\<open>self.f.hash\<close> writes for a field \<open>f\<close> of a value.\<close>

definition derived_key ::
    "(hash_write list \<Rightarrow> u64) \<Rightarrow> (hash_write list \<Rightarrow> u64) \<Rightarrow> ('a \<Rightarrow> string \<Rightarrow> hash_write list)
      \<Rightarrow> key_quote \<Rightarrow> 'a \<Rightarrow> u64" where
  "derived_key fx xx hash k self =
     (case k of
        KeyZero \<Rightarrow> 0
      | KeyHash h names \<Rightarrow> finish_hasher fx xx h (concat (map (hash self) names)))"

definition derived_type ::
    "(hash_write list \<Rightarrow> u64) \<Rightarrow> (hash_write list \<Rightarrow> u64) \<Rightarrow> ('a \<Rightarrow> string \<Rightarrow> hash_write list)
      \<Rightarrow> derived_impl \<Rightarrow> 'a arcon_type" where
  "derived_type fx xx hash I =
     \<lparr>UNSAFE_SER_ID = dv_unsafe_ser_id I, RELIABLE_SER_ID = dv_reliable_ser_id I,
      VERSION_ID = dv_version I, get_key = derived_key fx xx hash (dv_key I)\<rparr>"

section \<open>\<open>arcon_decoder\<close>\<close>

record decoder_impl =
  dc_delim :: code_points
  dc_fields :: "(string \<times> syn_type) list"

fun decoder_idents :: "syn_field list \<Rightarrow> (string \<times> syn_type) list expansion" where
  "decoder_idents [] = Ok []"
| "decoder_idents (f # fs) =
     (case field_ident f of
        Some i \<Rightarrow> bind_o (decoder_idents fs) (\<lambda>is. Ok ((i, field_ty f) # is))
      | None \<Rightarrow> Panic ''Struct missing identiy'')"

definition arcon_decoder :: "code_points \<Rightarrow> syn_data \<Rightarrow> decoder_impl expansion" where
  "arcon_decoder delim_str d =
     (case d of
        DataStruct fs \<Rightarrow>
          bind_o (decoder_idents fs) (\<lambda>idents.
            Ok \<lparr>dc_delim = (if delim_str = [] then map of_char '','' else delim_str), dc_fields = idents\<rparr>)
      | _ \<Rightarrow> Panic ''#[arcon_decoder] is only defined for structs!'')"

text \<open>The generated \<^verbatim>\<open>from_str\<close>: the fields are built in their order, and each one indexes the parts at
  its own position. The \<^verbatim>\<open>FromStr\<close> of the type of a field is the parameter \<open>parse\<close>.\<close>

fun decode_fields ::
    "(syn_type \<Rightarrow> code_points \<Rightarrow> 'v option) \<Rightarrow> code_points list \<Rightarrow> nat \<Rightarrow> (string \<times> syn_type) list
      \<Rightarrow> (string, (string \<times> 'v) list) outcome" where
  "decode_fields parse string_vec pos [] = Ok []"
| "decode_fields parse string_vec pos ((i, ty) # fs) =
     (if length string_vec \<le> pos then Panic ''index out of bounds''
      else bind_o (ok_or ''Failed to parse field'' (parse ty (string_vec ! pos))) (\<lambda>v.
           bind_o (decode_fields parse string_vec (Suc pos) fs) (\<lambda>vs. Ok ((i, v) # vs))))"

definition generated_from_str ::
    "(syn_type \<Rightarrow> code_points \<Rightarrow> 'v option) \<Rightarrow> decoder_impl \<Rightarrow> code_points
      \<Rightarrow> (string, (string \<times> 'v) list) outcome" where
  "generated_from_str parse D s =
     (let string_vec = map trim (split_str (dc_delim D) (trim s)) in
      decode_fields parse string_vec 0 (dc_fields D))"

section \<open>Laws of trimming and splitting\<close>

lemma trim_is_trim_by: "trim = trim_by white_space"
  by (rule ext) (simp add: trim_def trim_by_def)

lemma dropWhile_white_append: "(\<And>c. c \<in> set a \<Longrightarrow> w c) \<Longrightarrow> dropWhile w (a @ s) = dropWhile w s"
  by (induction a) auto

lemma trim_by_pad:
  assumes "\<And>c. c \<in> set a \<Longrightarrow> w c" and "\<And>c. c \<in> set b \<Longrightarrow> w c"
  shows "trim_by w (a @ s @ b) = trim_by w s"
proof (cases "\<forall>c \<in> set s. w c")
  case True
  then have "dropWhile w (a @ s @ b) = []" "dropWhile w s = []" using assms by auto
  then show ?thesis by (simp only: trim_by_def)
next
  case False
  then have "dropWhile w (a @ s @ b) = dropWhile w s @ b"
    using assms(1) by (auto simp: dropWhile_white_append dropWhile_append)
  moreover have "dropWhile w (rev b @ rev (dropWhile w s)) = dropWhile w (rev (dropWhile w s))"
    using assms(2) by (intro dropWhile_white_append) simp
  ultimately show ?thesis by (simp add: trim_by_def)
qed

lemma trim_by_exact:
  assumes "s = [] \<or> \<not> w (hd s) \<and> \<not> w (last s)"
  shows "trim_by w s = s"
proof -
  have "dropWhile w s = s" using assms by (cases s) auto
  moreover have "dropWhile w (rev s) = rev s" using assms by (cases s rule: rev_cases) auto
  ultimately show ?thesis by (simp add: trim_by_def)
qed

lemma trim_by_left: "trim_by w (dropWhile w s) = trim_by w s"
proof -
  have "trim_by w (takeWhile w s @ dropWhile w s @ []) = trim_by w (dropWhile w s)"
    by (rule trim_by_pad) (auto dest: set_takeWhileD)
  then show ?thesis by simp
qed

lemma trim_by_right: "trim_by w (rev (dropWhile w (rev s))) = trim_by w s"
proof -
  have "s = rev (dropWhile w (rev s)) @ rev (takeWhile w (rev s))"
    by (metis rev_append rev_rev_ident takeWhile_dropWhile_id)
  moreover have "trim_by w ([] @ rev (dropWhile w (rev s)) @ rev (takeWhile w (rev s)))
      = trim_by w (rev (dropWhile w (rev s)))"
    by (rule trim_by_pad) (auto dest: set_takeWhileD)
  ultimately show ?thesis by simp
qed

lemma trim_by_idem [simp]: "trim_by w (trim_by w s) = trim_by w s"
  by (subst (2) trim_by_def) (simp add: trim_by_left trim_by_right)

lemma trim_string_idem [simp]: "trim_string (trim_string s) = trim_string s"
  by (simp add: trim_string_def)

lemma split_at_not_Nil [simp]: "split_at p ps s \<noteq> []"
  by (induction p ps s rule: split_at.induct) (auto split: list.splits)

lemma split_at_absent [simp]: "p \<notin> set s \<Longrightarrow> split_at p ps s = [s]"
  by (induction p ps s rule: split_at.induct) auto

lemma split_at_append [simp]: "p \<notin> set s \<Longrightarrow> split_at p ps (s @ p # ps @ r) = s # split_at p ps r"
  by (induction s) auto

lemmas split_at_single = split_at_append [where ps = "[]", simplified]

text \<open>The parts of a line, joined by the delimiter.\<close>

fun join_with :: "'a list \<Rightarrow> 'a list list \<Rightarrow> 'a list" where
  "join_with d [] = []"
| "join_with d [t] = t"
| "join_with d (t # u # us) = t @ d @ join_with d (u # us)"

lemma join_with_Cons: "ts \<noteq> [] \<Longrightarrow> join_with d (t # ts) = t @ d @ join_with d ts"
  by (cases ts) simp_all

lemma join_with_snoc: "ts \<noteq> [] \<Longrightarrow> join_with d (ts @ [t]) = join_with d ts @ d @ t"
  by (induction d ts rule: join_with.induct) (simp_all add: join_with_Cons)

lemma split_join:
  "ts \<noteq> [] \<Longrightarrow> d \<noteq> [] \<Longrightarrow> (\<And>t. t \<in> set ts \<Longrightarrow> hd d \<notin> set t) \<Longrightarrow> split_str d (join_with d ts) = ts"
  by (cases d; induction d ts rule: join_with.induct) (auto simp: split_str_def)

lemma dropWhile_join:
  assumes "d \<noteq> []" and "\<not> w (hd d)"
  shows "dropWhile w (join_with d (t # ts)) = join_with d (dropWhile w t # ts)"
proof (cases ts)
  case (Cons u us)
  obtain x d' where "d = x # d'" using assms(1) by (cases d) auto
  moreover have "dropWhile w t = []" if "\<forall>c \<in> set t. w c" using that by simp
  ultimately show ?thesis using Cons assms(2) by (auto simp: dropWhile_append)
qed simp

lemma dropWhile_rev_join:
  assumes "d \<noteq> []" and "\<not> w (last d)"
  shows "rev (dropWhile w (rev (join_with d (ts @ [t])))) = join_with d (ts @ [rev (dropWhile w (rev t))])"
proof (cases "ts = []")
  case False
  obtain x d' where "d = d' @ [x]" using assms(1) by (cases d rule: rev_cases) auto
  moreover have "dropWhile w (rev t) = []" if "\<forall>c \<in> set t. w c" using that by simp
  ultimately show ?thesis using False assms(2) by (auto simp: join_with_snoc dropWhile_append)
qed simp

lemma trim_by_join:
  assumes d: "d \<noteq> []" "\<not> w (hd d)" "\<not> w (last d)" and ts: "ts \<noteq> []"
  obtains us where "trim_by w (join_with d ts) = join_with d us" and "us \<noteq> []"
    and "map (trim_by w) us = map (trim_by w) ts"
    and "\<And>u. u \<in> set us \<Longrightarrow> \<exists>t \<in> set ts. set u \<subseteq> set t"
proof -
  obtain t rest where t: "ts = t # rest" using ts by (cases ts) auto
  let ?l = "dropWhile w t # rest"
  obtain front b where b: "?l = front @ [b]" by (cases ?l rule: rev_cases) auto
  let ?us = "front @ [rev (dropWhile w (rev b))]"
  have "trim_by w (join_with d ts) = join_with d ?us"
    using d by (simp add: trim_by_def t dropWhile_join b dropWhile_rev_join)
  moreover have "map (trim_by w) ?us = map (trim_by w) ?l" by (simp only: b) (simp add: trim_by_right)
  then have "map (trim_by w) ?us = map (trim_by w) ts" by (simp add: t trim_by_left)
  moreover have "\<exists>t \<in> set ts. set u \<subseteq> set t" if "u \<in> set ?us" for u
  proof -
    have "set (rev (dropWhile w (rev b))) \<subseteq> set b" by (auto dest: set_dropWhileD)
    then have "\<exists>v \<in> set ?l. set u \<subseteq> set v" using that unfolding b by auto
    then show ?thesis by (auto simp: t dest: set_dropWhileD)
  qed
  ultimately show thesis using that by blast
qed

section \<open>Laws of the decoder\<close>

lemma decode_fields_outcome:
  "decode_fields parse parts pos fs =
     (let results = map2 (\<lambda>f t. parse (snd f) t) fs (drop pos parts) in
      if None \<in> set results then Err ''Failed to parse field''
      else if length (drop pos parts) < length fs then Panic ''index out of bounds''
      else Ok (zip (map fst fs) (map the results)))"
proof (induction parse parts pos fs rule: decode_fields.induct)
  case (2 parse parts pos i ty fs)
  show ?case
  proof (cases "length parts \<le> pos")
    case False
    then have d: "drop pos parts = parts ! pos # drop (Suc pos) parts" by (simp add: Cons_nth_drop_Suc)
    show ?thesis
    proof (cases "parse ty (parts ! pos)")
      case (Some v)
      with False 2 d show ?thesis by (simp add: ok_or_def Let_def)
    qed (use False d in \<open>simp add: ok_or_def\<close>)
  qed simp
qed simp

lemma decoder_idents_named:
  "decoder_idents (map (\<lambda>(i, ty). \<lparr>field_ident = Some i, field_ty = ty\<rparr>) ids) = Ok ids"
  by (induction ids) auto

text \<open>C16: The decoder splits a line at its delimiter, a comma unless another one is given. Let no part
  of the line contain the first character of the delimiter, and let the delimiter neither begin nor
  end with white space. Then each field gets the part at its position without the white space around
  it, and parts beyond the last field are ignored. If one of the parts is refused by the type of its
  field, the result is an error; if none is but there are fewer parts than fields, the decoder panics.\<close>

theorem decoder_outcome:
  assumes "d = (if delim = [] then map of_char '','' else delim)"
    and "\<not> white_space (hd d)" and "\<not> white_space (last d)"
    and "ts \<noteq> []" and "list_all (\<lambda>t. hd d \<notin> set t) ts"
  shows "\<exists>D. arcon_decoder delim (DataStruct (map (\<lambda>(i, ty). \<lparr>field_ident = Some i, field_ty = ty\<rparr>) ids)) = Ok D
    \<and> generated_from_str parse D (join_with d ts) =
        (let results = map2 (\<lambda>f t. parse (snd f) (trim t)) ids ts in
         if None \<in> set results then Err ''Failed to parse field''
         else if length ts < length ids then Panic ''index out of bounds''
         else Ok (zip (map fst ids) (map the results)))"
proof -
  have d: "d \<noteq> []" using assms(1) by (auto split: if_splits)
  obtain us where us: "trim (join_with d ts) = join_with d us" "us \<noteq> []" "map trim us = map trim ts"
      "\<And>u. u \<in> set us \<Longrightarrow> \<exists>t \<in> set ts. set u \<subseteq> set t"
    using trim_by_join [OF d assms(2-4)] unfolding trim_is_trim_by by metis
  have "split_str d (join_with d us) = us"
    using us(2,4) assms(5) unfolding list_all_iff by (intro split_join d) blast+
  then have "map trim (split_str d (trim (join_with d ts))) = map trim ts" using us by simp
  moreover have "map2 (\<lambda>f t. parse (snd f) t) ids (map trim ts) = map2 (\<lambda>f t. parse (snd f) (trim t)) ids ts"
    by (simp add: zip_map2 split_def)
  ultimately have "generated_from_str parse \<lparr>dc_delim = d, dc_fields = ids\<rparr> (join_with d ts) =
        (let results = map2 (\<lambda>f t. parse (snd f) (trim t)) ids ts in
         if None \<in> set results then Err ''Failed to parse field''
         else if length ts < length ids then Panic ''index out of bounds''
         else Ok (zip (map fst ids) (map the results)))"
    by (simp only: generated_from_str_def Let_def decode_fields_outcome drop_0 length_map decoder_impl.simps)
  then show ?thesis using assms(1) by (simp add: arcon_decoder_def decoder_idents_named)
qed

section \<open>Laws of the attributes\<close>

text \<open>What an attribute sets, and its two spellings: an item of \<^verbatim>\<open>#[arcon(..)]\<close> and a doc comment.\<close>

datatype setting = SetUnsafe u64 | SetReliable u64 | SetVersion u32 | SetKeys string

fun apply_setting :: "ser_attrs \<Rightarrow> setting \<Rightarrow> ser_attrs" where
  "apply_setting A (SetUnsafe n) = A\<lparr>at_unsafe_ser_id := Some n\<rparr>"
| "apply_setting A (SetReliable n) = A\<lparr>at_reliable_ser_id := Some n\<rparr>"
| "apply_setting A (SetVersion n) = A\<lparr>at_version := Some n\<rparr>"
| "apply_setting A (SetKeys k) = A\<lparr>at_keys := Some k\<rparr>"

fun setting_name :: "setting \<Rightarrow> string" where
  "setting_name (SetUnsafe n) = ''unsafe_ser_id''"
| "setting_name (SetReliable n) = ''reliable_ser_id''"
| "setting_name (SetVersion n) = ''version''"
| "setting_name (SetKeys k) = ''keys''"

fun setting_lit :: "setting \<Rightarrow> lit" where
  "setting_lit (SetUnsafe n) = LitInt (show_nat (unat n))"
| "setting_lit (SetReliable n) = LitInt (show_nat (unat n))"
| "setting_lit (SetVersion n) = LitInt (show_nat (unat n))"
| "setting_lit (SetKeys k) = LitStr k"

fun lit_text :: "lit \<Rightarrow> string" where
  "lit_text (LitStr s) = s"
| "lit_text (LitInt s) = s"
| "lit_text LitOther = []"

definition setting_meta :: "setting \<Rightarrow> nested_meta" where
  "setting_meta s = NestedMeta (MetaNameValue (AttrPath False [setting_name s]) (setting_lit s))"

text \<open>The lines of a doc comment: settings, and prose.\<close>

datatype doc_line = DocSetting setting | DocText string

fun doc_text :: "doc_line \<Rightarrow> string" where
  "doc_text (DocSetting s) = '' '' @ setting_name s @ '' = '' @ lit_text (setting_lit s)"
| "doc_text (DocText t) = t"

definition doc_meta :: "doc_line \<Rightarrow> meta" where
  "doc_meta l = MetaNameValue (AttrPath False [''doc'']) (LitStr (doc_text l))"

definition doc_settings :: "doc_line list \<Rightarrow> setting list" where
  "doc_settings ls = concat (map (\<lambda>l. case l of DocSetting s \<Rightarrow> [s] | DocText _ \<Rightarrow> []) ls)"

text \<open>Keys without white space, and prose that is not three words.\<close>

fun doc_line_ok :: "doc_line \<Rightarrow> bool" where
  "doc_line_ok (DocSetting s) = (lit_text (setting_lit s) \<noteq> [] \<and> list_all (\<lambda>c. \<not> white_char c) (lit_text (setting_lit s)))"
| "doc_line_ok (DocText t) = (length (split_str '' '' (trim_string t)) \<noteq> 3)"

lemma parse_u32_show [simp]: "parse_u32 (show_nat (unat (v :: u32))) = Some v"
proof -
  have u: "unat (ucast v :: u64) = unat v" by (rule unat_ucast_32_64)
  have "unat v < 2 ^ 32" using unsigned_less [where w = v] by simp
  moreover from this have "unat (ucast (ucast v :: u64) :: u32) = unat v"
    using u by (simp only: unat_ucast_64_32)
  then have "(ucast (ucast v :: u64) :: u32) = v" by (simp only: word_unat_eq_iff)
  moreover have "parse_u64 (show_nat (unat (ucast v :: u64))) = Some (ucast v)" by (rule parse_show_u64)
  ultimately show ?thesis unfolding u by (simp add: parse_u32_def u)
qed

lemma arcon_attr_item_setting: "arcon_attr_item A (setting_meta s) = Ok (apply_setting A s)"
  by (cases s) (simp_all add: arcon_attr_item_def setting_meta_def path_is_ident_def parse_unwrap_def
      unwrap_or_panic_def)

lemma setting_name_plain:
  "setting_name s \<noteq> []" "c \<in> set (setting_name s) \<Longrightarrow> \<not> white_char c"
  by (cases s; auto simp: white_char_def white_space_def)+

lemma doc_setting_words:
  assumes "doc_line_ok (DocSetting s)"
  shows "split_str '' '' (trim_string (doc_text (DocSetting s))) = [setting_name s, ''='', lit_text (setting_lit s)]"
proof -
  let ?n = "setting_name s" and ?t = "lit_text (setting_lit s)"
  have t: "?t \<noteq> []" "\<And>c. c \<in> set ?t \<Longrightarrow> \<not> white_char c" using assms by (auto simp: list_all_iff)
  have space: "white_char (CHR '' '')" by (simp add: white_char_def white_space_def)
  then have free: "CHR '' '' \<notin> set ?n" "CHR '' '' \<notin> set ?t"
    using setting_name_plain(2) t(2) by blast+
  have "trim_string (doc_text (DocSetting s)) = trim_by white_char ([CHR '' ''] @ (?n @ '' = '' @ ?t) @ [])"
    by (simp add: trim_string_def)
  also have "\<dots> = trim_by white_char (?n @ '' = '' @ ?t)"
    using space by (intro trim_by_pad) auto
  also have "\<dots> = ?n @ '' = '' @ ?t"
    using setting_name_plain(1) t hd_in_set [THEN setting_name_plain(2), OF setting_name_plain(1)]
    by (intro trim_by_exact) auto
  finally show ?thesis
    using free split_at_single [of "CHR '' ''" ?n] split_at_single [of "CHR '' ''" "''=''"]
    by (simp add: split_str_def)
qed

lemma arcon_doc_item_setting:
  assumes "doc_line_ok (DocSetting s)"
  shows "arcon_doc_item A (doc_meta (DocSetting s)) = Ok (apply_setting A s)"
  using doc_setting_words [OF assms] unfolding arcon_doc_item_def doc_meta_def
  by (cases s) (simp_all add: parse_unwrap_def unwrap_or_panic_def)

lemma not_three_words:
  "length ws \<noteq> 3 \<Longrightarrow> (case ws of [name, eq, val] \<Rightarrow> f name eq val | _ \<Rightarrow> r) = r"
  by (auto split: list.splits)

lemma arcon_doc_item_text:
  assumes "doc_line_ok (DocText t)"
  shows "arcon_doc_item A (doc_meta (DocText t)) = Ok A"
  using assms by (simp add: arcon_doc_item_def doc_meta_def not_three_words)

lemma arcon_attr_meta_settings:
  "arcon_attr_meta (map setting_meta ss) = Ok (foldl apply_setting no_attrs ss)"
proof -
  have "fold_o arcon_attr_item A (map setting_meta ss) = Ok (foldl apply_setting A ss)" for A
    by (induction ss arbitrary: A) (simp_all add: arcon_attr_item_setting)
  then show ?thesis by (simp add: arcon_attr_meta_def)
qed

lemma arcon_doc_attr_lines:
  assumes "list_all doc_line_ok ls"
  shows "arcon_doc_attr (map doc_meta ls) = Ok (foldl apply_setting no_attrs (doc_settings ls))"
proof -
  have "fold_o arcon_doc_item A (map doc_meta ls) = Ok (foldl apply_setting A (doc_settings ls))" for A
    using assms
  proof (induction ls arbitrary: A)
    case (Cons l ls)
    then show ?case
      by (cases l) (simp_all add: doc_settings_def arcon_doc_item_setting arcon_doc_item_text
          del: doc_line_ok.simps)
  qed (simp add: doc_settings_def)
  then show ?thesis by (simp add: arcon_doc_attr_def)
qed

lemma ser_attrs_of_attr:
  "ser_attrs_of [Inr (MetaList (AttrPath False [''arcon'']) (map setting_meta ss))]
     = Ok (foldl apply_setting no_attrs ss)"
  by (simp add: ser_attrs_of_def path_is_ident_def arcon_attr_meta_settings)

lemma ser_attrs_of_docs:
  assumes "list_all doc_line_ok ls"
  shows "ser_attrs_of (map (\<lambda>l. Inr (doc_meta l)) ls) = Ok (foldl apply_setting no_attrs (doc_settings ls))"
proof -
  have "find_arcon (map (\<lambda>l. Inr (doc_meta l)) ls) = Ok None"
    by (induction ls) (simp_all add: doc_meta_def path_is_ident_def)
  moreover have "doc_attrs (map (\<lambda>l. Inr (doc_meta l)) ls) = Ok (map doc_meta ls)"
    by (induction ls) (simp_all add: doc_meta_def path_is_ident_def)
  ultimately show ?thesis using assms by (simp add: ser_attrs_of_def arcon_doc_attr_lines)
qed

text \<open>C17: Both spellings of the attributes mean the same. Take the lines of a doc comment, settings in
  any order (a later one of the same name replaces an earlier one) with keys without white space, and
  prose between them that is not three words. Then deriving from the comment gives the same result,
  be it a panic or an implementation, as deriving from \<^verbatim>\<open>#[arcon(..)]\<close> with the same settings. When the
  settings name two different identifiers and a version, and the keys fit the data, the result is an
  implementation with exactly these constants.\<close>

theorem derive_forms_agree:
  assumes "list_all doc_line_ok ls" and "A = foldl apply_setting no_attrs (doc_settings ls)"
  shows "derive_arcon legal \<lparr>di_ident = name, di_attrs = map (\<lambda>l. Inr (doc_meta l)) ls, di_data = d\<rparr>
      = derive_arcon legal \<lparr>di_ident = name,
          di_attrs = [Inr (MetaList (AttrPath False [''arcon'']) (map setting_meta (doc_settings ls)))],
          di_data = d\<rparr>
    \<and> (\<forall>u r v k. at_unsafe_ser_id A = Some u \<and> at_reliable_ser_id A = Some r \<and> at_version A = Some v
        \<and> u \<noteq> r \<and> key_quote_of legal d (at_keys A) = Ok k
      \<longrightarrow> derive_arcon legal \<lparr>di_ident = name, di_attrs = map (\<lambda>l. Inr (doc_meta l)) ls, di_data = d\<rparr>
        = Ok \<lparr>dv_name = name, dv_reliable_ser_id = r, dv_unsafe_ser_id = u, dv_version = v, dv_key = k\<rparr>)"
proof -
  note docs = ser_attrs_of_docs [OF assms(1), folded assms(2)]
  have "derive_arcon legal \<lparr>di_ident = name, di_attrs = map (\<lambda>l. Inr (doc_meta l)) ls, di_data = d\<rparr>
      = derive_arcon legal \<lparr>di_ident = name,
          di_attrs = [Inr (MetaList (AttrPath False [''arcon'']) (map setting_meta (doc_settings ls)))],
          di_data = d\<rparr>"
    unfolding derive_arcon_def derive_input.simps docs ser_attrs_of_attr assms(2) by (rule refl)
  then show ?thesis
    by (intro conjI allI impI) (assumption, simp add: derive_arcon_def docs unwrap_or_panic_def)
qed

section \<open>Laws of the key\<close>

definition std_type :: "string \<Rightarrow> syn_type" where
  "std_type name = TypePath [PathSegment name NoArguments]"

definition bytes_type :: syn_type where
  "bytes_type = TypePath [PathSegment ''Vec'' (AngleBracketed [ArgType (std_type ''u8'')])]"

text \<open>The types that a key takes up, with the number of bytes estimated for each.\<close>

definition key_weights :: "(syn_type \<times> nat) list" where
  "key_weights =
     [(std_type ''String'', 10), (std_type ''u32'', 4), (std_type ''u64'', 8), (std_type ''i32'', 4),
      (std_type ''i64'', 8), (std_type ''bool'', 1), (bytes_type, 10)]"

text \<open>A type that mentions none of them at its head.\<close>

fun foreign_segment :: "path_segment \<Rightarrow> bool" where
  "foreign_segment (PathSegment i _) = (i \<notin> {''String'', ''u32'', ''u64'', ''i32'', ''i64'', ''bool'', ''Vec''})"

fun foreign_type :: "syn_type \<Rightarrow> bool" where
  "foreign_type (TypePath segs) = list_all foreign_segment segs"
| "foreign_type TypeOther = True"

lemmas hit_defs = type_hits_def segment_hits_def vec_hits_def u8_segments_def
lemmas byte_defs = type_bytes_def segment_bytes_def vec_hits_def u8_segments_def
  STRING_BYTES_ESTIMATION_def BYTE_ARRAY_ESTIMATION_def

lemma key_weight_type:
  assumes "map_of key_weights ty = Some n"
  shows "type_hits ty = 1" and "type_bytes ty = n"
proof -
  have m: "(ty, n) \<in> set key_weights" using assms by (rule map_of_SomeD)
  then show "type_hits ty = 1"
    unfolding key_weights_def by (auto simp: hit_defs std_type_def bytes_type_def)
  show "type_bytes ty = n"
    using m unfolding key_weights_def by (auto simp: byte_defs std_type_def bytes_type_def)
qed

lemma foreign_segment_silent:
  assumes "foreign_segment seg"
  shows "segment_hits seg = 0" and "segment_bytes seg = 0"
  using assms by (cases seg, simp add: segment_hits_def segment_bytes_def)+

lemma foreign_type_silent:
  assumes "foreign_type ty"
  shows "type_hits ty = 0" and "type_bytes ty = 0"
  using assms by (cases ty; simp add: type_hits_def type_bytes_def list_all_iff foreign_segment_silent)+

text \<open>The fields of a struct with names and types, and the ones its key is made of.\<close>

definition named_fields :: "(string \<times> syn_type) list \<Rightarrow> syn_field list" where
  "named_fields ids = map (\<lambda>(i, ty). \<lparr>field_ident = Some i, field_ty = ty\<rparr>) ids"

definition key_fields :: "(string \<times> syn_type) list \<Rightarrow> (string \<times> nat) list" where
  "key_fields ids = List.map_filter (\<lambda>(i, ty). map_option (Pair i) (map_of key_weights ty)) ids"

definition plain_type :: "syn_type \<Rightarrow> bool" where
  "plain_type ty \<longleftrightarrow> ty \<in> fst ` set key_weights \<or> foreign_type ty"

lemma plain_type_cases:
  assumes "plain_type ty"
  obtains n where "map_of key_weights ty = Some n" | "map_of key_weights ty = None" and "foreign_type ty"
  using assms unfolding plain_type_def by (metis map_of_eq_None_iff not_None_eq)

lemma key_fields_Nil [simp]: "key_fields [] = []"
  by (simp add: key_fields_def map_filter_simps)

lemma key_fields_Cons [simp]:
  "key_fields ((i, ty) # ids) =
     (case map_of key_weights ty of None \<Rightarrow> key_fields ids | Some n \<Rightarrow> (i, n) # key_fields ids)"
  by (simp add: key_fields_def map_filter_simps split: option.splits)

lemma named_fields_simps [simp]:
  "named_fields [] = []"
  "named_fields ((i, ty) # ids) = \<lparr>field_ident = Some i, field_ty = ty\<rparr> # named_fields ids"
  by (simp_all add: named_fields_def)

lemma hashable_fields_named:
  "list_all (\<lambda>(i, ty). plain_type ty) ids \<Longrightarrow>
     hashable_fields (named_fields ids) = Ok (map fst (key_fields ids))"
proof (induction ids)
  case (Cons f ids)
  obtain i ty where f: "f = (i, ty)" by (cases f)
  with Cons have "plain_type ty" and ih: "hashable_fields (named_fields ids) = Ok (map fst (key_fields ids))"
    by simp_all
  from this(1) show ?case
    by (cases rule: plain_type_cases) (simp_all add: ih f key_weight_type foreign_type_silent)
qed simp

lemma key_fields_subset: "fst ` set (key_fields ids) \<subseteq> fst ` set ids"
proof (induction ids)
  case (Cons f ids)
  then show ?case by (cases f; cases "map_of key_weights (snd f)") auto
qed simp

lemma bytes_estimation_named:
  assumes "list_all (\<lambda>(i, ty). plain_type ty) ids" and "set (map fst (key_fields ids)) \<subseteq> set names"
  shows "bytes_estimation (named_fields ids) names = Ok (sum_list (map snd (key_fields ids)))"
  using assms
proof (induction ids)
  case (Cons f ids)
  obtain i ty where f: "f = (i, ty)" by (cases f)
  with Cons.prems(1) have "plain_type ty" and rest: "list_all (\<lambda>(i, ty). plain_type ty) ids" by simp_all
  from this(1) show ?case
  proof (cases rule: plain_type_cases)
    case (1 n)
    then have "i \<in> set names" and "set (map fst (key_fields ids)) \<subseteq> set names"
      using Cons.prems(2) f by simp_all
    with 1 show ?thesis by (simp add: f Cons.IH [OF rest] key_weight_type)
  next
    case 2
    then have "set (map fst (key_fields ids)) \<subseteq> set names" using Cons.prems(2) f by simp
    with 2 show ?thesis by (simp add: f Cons.IH [OF rest] foreign_type_silent)
  qed
qed simp

text \<open>Without the attribute for keys, the key of a struct hashes exactly its fields of the types
  \<^verbatim>\<open>String\<close>, \<^verbatim>\<open>u32\<close>, \<^verbatim>\<open>u64\<close>, \<^verbatim>\<open>i32\<close>, \<^verbatim>\<open>i64\<close>, \<^verbatim>\<open>bool\<close> and \<^verbatim>\<open>Vec<u8>\<close>, in their order, with the hasher that the sum
  of their estimates selects. The generated implementation has different identifiers, and two values
  whose fields of these types write the same to a hasher have the same key, whatever the others
  hold.\<close>

theorem derived_default_key:
  assumes "list_all (\<lambda>(i, ty). plain_type ty) ids" and "list_all (\<lambda>(i, ty). legal i \<and> trim_string i = i) ids"
    and "ser_attrs_of attrs =
      Ok \<lparr>at_unsafe_ser_id = Some u, at_reliable_ser_id = Some r, at_version = Some v, at_keys = None\<rparr>"
    and "u \<noteq> r"
  shows "\<exists>I. derive_arcon legal \<lparr>di_ident = name, di_attrs = attrs, di_data = DataStruct (named_fields ids)\<rparr> = Ok I
    \<and> dv_key I = KeyHash (let n = sum_list (map snd (key_fields ids)) in
        if n \<le> 8 then FxHasher else if n \<le> 32 then DefaultHasher else XxHash64) (map fst (key_fields ids))
    \<and> UNSAFE_SER_ID (derived_type fx xx hash I) = u \<and> RELIABLE_SER_ID (derived_type fx xx hash I) = r
    \<and> VERSION_ID (derived_type fx xx hash I) = v
    \<and> (\<forall>x y. (\<forall>(i, n) \<in> set (key_fields ids). hash x i = hash y i)
        \<longrightarrow> get_key (derived_type fx xx hash I) x = get_key (derived_type fx xx hash I) y)"
proof -
  let ?ks = "map fst (key_fields ids)"
  have names: "legal k \<and> trim_string k = k" if "k \<in> set ?ks" for k
  proof -
    have "k \<in> fst ` set ids" using that key_fields_subset [of ids] by (simp only: set_map) blast
    then show ?thesis using assms(2) by (fastforce simp: list_all_iff)
  qed
  then have trim: "map trim_string ?ks = ?ks" by (intro map_idI) simp
  have key: "key_quote_of legal (DataStruct (named_fields ids)) None
      = Ok (KeyHash (hasher_stream (sum_list (map snd (key_fields ids)))) ?ks)"
    using names by (simp add: key_quote_of_def hashable_fields_named [OF assms(1)] struct_key_def
        bytes_estimation_named [OF assms(1)] hash_fields_stream_def list_all_iff trim del: map_map)
  let ?I = "\<lparr>dv_name = name, dv_reliable_ser_id = r, dv_unsafe_ser_id = u, dv_version = v,
      dv_key = KeyHash (hasher_stream (sum_list (map snd (key_fields ids)))) ?ks\<rparr>"
  have I: "derive_arcon legal \<lparr>di_ident = name, di_attrs = attrs, di_data = DataStruct (named_fields ids)\<rparr> = Ok ?I"
    using assms(3,4) key by (simp add: derive_arcon_def unwrap_or_panic_def)
  have same: "map (hash x) ?ks = map (hash y) ?ks" if "\<forall>(i, n) \<in> set (key_fields ids). hash x i = hash y i" for x y
    using that by auto
  show ?thesis
  proof (rule exI, intro conjI allI impI)
    fix x y
    assume "\<forall>(i, n) \<in> set (key_fields ids). hash x i = hash y i"
    then show "get_key (derived_type fx xx hash ?I) x = get_key (derived_type fx xx hash ?I) y"
      using same by (simp only: derived_type_def derived_key_def arcon_type.simps derived_impl.simps key_quote.case)
  qed (rule I, simp_all add: derived_type_def hasher_stream_def Let_def)
qed

text \<open>Keys are trimmed before they are hashed but not before their bytes are estimated: a space
  behind the comma leaves the hashed fields as they are and selects another hasher.\<close>

lemma spaced_keys_change_hasher:
  defines "d \<equiv> DataStruct (named_fields [(''id'', std_type ''u64''), (''date'', std_type ''String'')])"
  shows "key_quote_of (\<lambda>_. True) d (Some ''id,date'') = Ok (KeyHash DefaultHasher [''id'', ''date''])"
    and "key_quote_of (\<lambda>_. True) d (Some ''id, date'') = Ok (KeyHash FxHasher [''id'', ''date''])"
  by (simp_all add: d_def key_quote_of_def struct_key_def hash_fields_stream_def hasher_stream_def
      trim_string_def trim_by_def white_char_def white_space_def std_type_def byte_defs)

text \<open>A doc comment with a space among its keys has more than three words, so its keys are dropped.\<close>

lemma spaced_doc_keys_dropped:
  "arcon_doc_attr [MetaNameValue (AttrPath False [''doc'']) (LitStr '' keys = id, date'')] = Ok no_attrs"
  by (simp add: arcon_doc_attr_def arcon_doc_item_def split_str_def
      trim_string_def trim_by_def white_char_def white_space_def)

section \<open>Witnesses\<close>

text \<open>\<^verbatim>\<open>FromStr\<close> of the types of the test for the decoder.\<close>

datatype std_value = U64Value u64 | U32Value u32 | StringValue code_points

definition std_from_str :: "syn_type \<Rightarrow> code_points \<Rightarrow> std_value option" where
  "std_from_str ty s =
     (if ty = std_type ''String'' then Some (StringValue s)
      else if \<not> list_all (\<lambda>c. c < 128) s then None
      else if ty = std_type ''u64'' then map_option U64Value (parse_u64 (map char_of s))
      else if ty = std_type ''u32'' then map_option U32Value (parse_u32 (map char_of s))
      else None)"

text \<open>The line \<^verbatim>\<open>100; test ;250\<close> of an item with an identifier, a name and a price.\<close>

theorem decoder_outcome_witness:
  "\<exists>D. arcon_decoder [59] (DataStruct (map (\<lambda>(i, ty). \<lparr>field_ident = Some i, field_ty = ty\<rparr>)
        [(''id'', std_type ''u64''), (''name'', std_type ''String''), (''price'', std_type ''u32'')])) = Ok D
    \<and> generated_from_str std_from_str D (join_with [59] [[49, 48, 48], [32, 116, 101, 115, 116, 32], [50, 53, 48]])
      = Ok [(''id'', U64Value 100), (''name'', StringValue [116, 101, 115, 116]), (''price'', U32Value 250)]"
proof -
  have u: "parse_u64 ''100'' = Some 100" "parse_u32 ''250'' = Some 250"
    by (simp_all add: parse_u32_def parse_u64_def to_digit_def)
  have "std_from_str (std_type ''u64'') (trim [49, 48, 48]) = Some (U64Value 100)"
    "std_from_str (std_type ''String'') (trim [32, 116, 101, 115, 116, 32]) = Some (StringValue [116, 101, 115, 116])"
    "std_from_str (std_type ''u32'') (trim [50, 53, 48]) = Some (U32Value 250)"
    by (simp_all add: std_from_str_def std_type_def trim_def white_space_def char_of_def bit_0 u)
  then show ?thesis
    using decoder_outcome [of "[59]" "[59]" "[[49, 48, 48], [32, 116, 101, 115, 116, 32], [50, 53, 48]]"
        "[(''id'', std_type ''u64''), (''name'', std_type ''String''), (''price'', std_type ''u32'')]" std_from_str]
    by (simp add: white_space_def)
qed

text \<open>A comment with prose, both identifiers, a version and keys.\<close>

theorem derive_forms_agree_witness:
  "derive_arcon (\<lambda>_. True) \<lparr>di_ident = ''Item'',
      di_attrs = map (\<lambda>l. Inr (doc_meta l))
        [DocText '' An item'', DocSetting (SetUnsafe 12), DocSetting (SetReliable 13), DocSetting (SetVersion 1),
         DocSetting (SetKeys ''id'')],
      di_data = DataStruct (named_fields [(''id'', std_type ''u64''), (''price'', std_type ''u32'')])\<rparr>
    = Ok \<lparr>dv_name = ''Item'', dv_reliable_ser_id = 13, dv_unsafe_ser_id = 12, dv_version = 1,
          dv_key = KeyHash FxHasher [''id'']\<rparr>"
proof -
  let ?ls = "[DocText '' An item'', DocSetting (SetUnsafe 12), DocSetting (SetReliable 13), DocSetting (SetVersion 1),
         DocSetting (SetKeys ''id'')]"
  have "show_nat (unat (12 :: u64)) = ''12''" "show_nat (unat (13 :: u64)) = ''13''" "show_nat (unat (1 :: u32)) = ''1''"
    by (simp_all add: show_nat.simps [of 12] show_nat.simps [of 13] show_nat.simps [of "Suc 0"] show_nat.simps [of 1]
        digit_char_def char_of_def bit_0)
  then have "list_all doc_line_ok ?ls"
    by (simp add: split_str_def trim_string_def trim_by_def white_char_def white_space_def)
  moreover have "foldl apply_setting no_attrs (doc_settings ?ls) =
      \<lparr>at_unsafe_ser_id = Some 12, at_reliable_ser_id = Some 13, at_version = Some 1, at_keys = Some ''id''\<rparr>"
    by (simp add: doc_settings_def no_attrs_def)
  moreover have "key_quote_of (\<lambda>_. True)
      (DataStruct (named_fields [(''id'', std_type ''u64''), (''price'', std_type ''u32'')])) (Some ''id'')
    = Ok (KeyHash FxHasher [''id''])"
    by (simp add: key_quote_of_def struct_key_def hash_fields_stream_def
      hasher_stream_def trim_string_def trim_by_def white_char_def white_space_def std_type_def byte_defs)
  ultimately show ?thesis
    by (intro derive_forms_agree [OF _ refl, THEN conjunct2, rule_format]) simp_all
qed

text \<open>A struct with a number, a flag and a field of another type.\<close>

theorem derived_default_key_witness:
  "\<exists>I. derive_arcon (\<lambda>_. True) \<lparr>di_ident = ''Item'',
        di_attrs = [Inr (MetaList (AttrPath False [''arcon''])
          (map setting_meta [SetUnsafe 12, SetReliable 13, SetVersion 1]))],
        di_data = DataStruct (named_fields [(''id'', std_type ''u64''), (''f'', std_type ''f32''), (''b'', std_type ''bool'')])\<rparr> = Ok I
    \<and> dv_key I = KeyHash DefaultHasher [''id'', ''b'']"
proof -
  let ?ids = "[(''id'', std_type ''u64''), (''f'', std_type ''f32''), (''b'', std_type ''bool'')]"
  have k: "key_fields ?ids = [(''id'', 8), (''b'', 1)]"
    by (simp add: key_weights_def std_type_def bytes_type_def)
  have "ser_attrs_of [Inr (MetaList (AttrPath False [''arcon''])
      (map setting_meta [SetUnsafe 12, SetReliable 13, SetVersion 1]))] =
    Ok \<lparr>at_unsafe_ser_id = Some 12, at_reliable_ser_id = Some 13, at_version = Some 1, at_keys = None\<rparr>"
    unfolding ser_attrs_of_attr by (simp add: no_attrs_def)
  moreover have "list_all (\<lambda>(i, ty). plain_type ty) ?ids"
    by (simp add: plain_type_def key_weights_def std_type_def)
  moreover have "list_all (\<lambda>(i, ty). True \<and> trim_string i = i) ?ids"
    by (simp add: trim_string_def trim_by_def white_char_def white_space_def)
  ultimately show ?thesis
    using derived_default_key [of ?ids "\<lambda>_. True" _ 12 13 1 "''Item''" "\<lambda>_. 0" "\<lambda>_. 0" "\<lambda>_ _. []"]
    unfolding k by simp blast
qed

end
