(* ===== verification/Nexmark.thy ===== *)
theory Nexmark
  imports Window_Backend Source_Laws
begin

text \<open>
  Model of the NEXMark application of \<^verbatim>\<open>experiments/src/nexmark\<close>: the generator of people, auctions and
  bids, the currency conversion (query 1) and the incremental join of sellers and auctions (query 3) on
  the state of a node. The random generator and the conversion of an event
  number to nanoseconds, a multiplication of floats, are parameters. Arithmetic on \<^verbatim>\<open>u32\<close> is checked.
\<close>

section \<open>Configuration\<close>

datatype rate_kind = Square | Sine

text \<open>The fields of \<^verbatim>\<open>NEXMarkConfig\<close> that the generator reads.\<close>

record 'f nexmark_config =
  num_events :: u32
  num_events_generators :: u32
  hot_auction_ratio :: u32
  hot_seller_ratio :: u32
  hot_bidder_ratio :: u32
  num_active_people :: u32
  in_flight_auctions :: u32
  person_id_lead :: u32
  rate_shape :: rate_kind
  num_categories :: u32
  first_rate :: u32
  next_rate :: u32
  out_of_order_group_size :: u32
  inter_event_delays_ns :: "'f list"
  step_length :: u32
  base_time_ns :: u32
  first_event_id :: u32
  first_event_number :: u32
  auction_id_lead :: u32
  hot_seller_ratio_2 :: u32
  hot_auction_ratio_2 :: u32
  hot_bidder_ratio_2 :: u32
  person_proportion :: u32
  auction_proportion :: u32
  bid_proportion :: u32
  proportion_denominator :: u32
  rate_period :: u32
  first_auction_id :: u32
  first_person_id :: u32
  first_category_id :: u32
  sine_approx_steps :: u32
  us_states :: "string list"
  us_cities :: "string list"

text \<open>The defaults, which \<^verbatim>\<open>toml::from_str("")\<close> fills in.\<close>

definition nexmark_default :: "'f nexmark_config" where
  "nexmark_default =
     \<lparr>num_events = 100000000, num_events_generators = 100, hot_auction_ratio = 2, hot_seller_ratio = 4,
      hot_bidder_ratio = 4, num_active_people = 1000, in_flight_auctions = 100, person_id_lead = 10,
      rate_shape = Sine, num_categories = 5, first_rate = 1000, next_rate = 1000,
      out_of_order_group_size = 1, inter_event_delays_ns = [], step_length = 0, base_time_ns = 0,
      first_event_id = 0, first_event_number = 0, auction_id_lead = 10, hot_seller_ratio_2 = 100,
      hot_auction_ratio_2 = 100, hot_bidder_ratio_2 = 100, person_proportion = 1, auction_proportion = 3,
      bid_proportion = 3, proportion_denominator = 0, rate_period = 600, first_auction_id = 1000,
      first_person_id = 1000, first_category_id = 10, sine_approx_steps = 10,
      us_states = [''AZ'', ''CA'', ''ID'', ''OR'', ''WA'', ''WY''],
      us_cities = [''Phoenix'', ''Los Angeles'', ''Seattle'', ''San Francisco'']\<rparr>"

text \<open>\<open>delay r g\<close> is \<^verbatim>\<open>rate_to_period(r) * g\<close>, and \<open>sine a b n i\<close> the rounded rate at step \<open>i\<close> of \<open>n\<close>.\<close>

definition nexmark_finish ::
    "(u32 \<Rightarrow> u32 \<Rightarrow> 'f) \<Rightarrow> (u32 \<Rightarrow> u32 \<Rightarrow> u32 \<Rightarrow> nat \<Rightarrow> u32) \<Rightarrow> 'f nexmark_config
      \<Rightarrow> (arcon_error, 'f nexmark_config) outcome" where
  "nexmark_finish delay sine conf =
     (let g = num_events_generators conf in
      bind_o
        (if first_rate conf = next_rate conf then Ok [delay (first_rate conf) g]
         else if rate_shape conf = Square then Ok [delay (first_rate conf) g, delay (next_rate conf) g]
         else
           bind_o (add_u (first_rate conf) (next_rate conf)) (\<lambda>up.
           bind_o (sub_u (first_rate conf) (next_rate conf)) (\<lambda>down.
             Ok (map (\<lambda>i. delay (sine up down (sine_approx_steps conf) i) g) [0..<unat (sine_approx_steps conf)]))))
        (\<lambda>delays.
      let n = (if rate_shape conf = Square then 2 else sine_approx_steps conf) in
      bind_o (add_u (rate_period conf) n) (\<lambda>x.
      bind_o (sub_u x 1) (\<lambda>y.
      bind_o (div_u y n) (\<lambda>step.
      bind_o (add_u (person_proportion conf) (auction_proportion conf)) (\<lambda>pa.
      bind_o (add_u pa (bid_proportion conf)) (\<lambda>d.
        if length delays > 1 then Panic ''non-constant rate not supported''
        else Ok (conf\<lparr>inter_event_delays_ns := delays, step_length := step, proportion_denominator := d\<rparr>))))))))"

text \<open>\<open>scaled n d\<close> is \<^verbatim>\<open>(n as f64 * d) as u32\<close>.\<close>

definition event_timestamp_ns :: "(u32 \<Rightarrow> 'f \<Rightarrow> u32) \<Rightarrow> 'f nexmark_config \<Rightarrow> u32 \<Rightarrow> (arcon_error, u32) outcome" where
  "event_timestamp_ns scaled nex event_number =
     (case inter_event_delays_ns nex of
        [] \<Rightarrow> Panic ''index out of bounds''
      | d # _ \<Rightarrow> add_u (base_time_ns nex) (scaled event_number d))"

definition next_adjusted_event :: "'f nexmark_config \<Rightarrow> u32 \<Rightarrow> (arcon_error, u32) outcome" where
  "next_adjusted_event nex events_so_far =
     (let n = out_of_order_group_size nex in
      bind_o (add_u (first_event_number nex) events_so_far) (\<lambda>event_number.
      bind_o (div_u event_number n) (\<lambda>q.
      bind_o (mul_u q n) (\<lambda>group.
      bind_o (mul_u event_number 953) (\<lambda>x.
      bind_o (rem_u x n) (\<lambda>r.
        add_u group r))))))"

section \<open>Random numbers\<close>

text \<open>The crate \<^verbatim>\<open>rand\<close>: a number of a range, an index below a length, and a price.\<close>

record 'r rng =
  rng_range :: "u32 \<Rightarrow> u32 \<Rightarrow> 'r \<Rightarrow> u32 \<times> 'r"
  rng_index :: "nat \<Rightarrow> 'r \<Rightarrow> nat \<times> 'r"
  rng_price :: "'r \<Rightarrow> u32 \<times> 'r"

type_synonym ('r, 'a) random = "('r, arcon_error, 'a) action"

definition gen_range :: "'r rng \<Rightarrow> u32 \<Rightarrow> u32 \<Rightarrow> ('r, u32) random" where
  "gen_range R low high s =
     (if low < high then (case rng_range R low high s of (n, s') \<Rightarrow> (Ok n, s'))
      else (Panic ''UniformSampler::sample_single: low >= high'', s))"

definition gen_price :: "'r rng \<Rightarrow> ('r, u32) random" where
  "gen_price R s = (case rng_price R s of (n, s') \<Rightarrow> (Ok n, s'))"

definition choose_item :: "'r rng \<Rightarrow> 'x list \<Rightarrow> ('r, 'x) random" where
  "choose_item R xs s =
     (if xs = [] then (Panic ''called `Option::unwrap()` on a `None` value'', s)
      else (case rng_index R (length xs) s of (i, s') \<Rightarrow> (Ok (xs ! i), s')))"

section \<open>People, auctions and bids\<close>

record person =
  pe_id :: u32
  pe_name :: string
  pe_email_address :: string
  pe_credit_card :: string
  pe_city :: string
  pe_state :: string
  pe_date :: u32

record auction =
  au_id :: u32
  au_item_name :: string
  au_description :: string
  au_initial_bid :: u32
  au_reserve :: u32
  au_date :: u32
  au_expires :: u32
  au_seller :: u32
  au_category :: u32

record bid =
  bi_auction :: u32
  bi_bidder :: u32
  bi_price :: u32
  bi_date :: u32

definition person_new :: "'r rng \<Rightarrow> 'f nexmark_config \<Rightarrow> u32 \<Rightarrow> u32 \<Rightarrow> ('r, person) random" where
  "person_new R nex ev_id time =
     bind_s (choose_item R (us_cities nex)) (\<lambda>city.
     bind_s (choose_item R (us_states nex)) (\<lambda>state.
     return_s \<lparr>pe_id = ev_id, pe_name = '''', pe_email_address = '''', pe_credit_card = '''', pe_city = city,
               pe_state = state, pe_date = time\<rparr>))"

definition person_last_id :: "'f nexmark_config \<Rightarrow> u32 \<Rightarrow> (arcon_error, u32) outcome" where
  "person_last_id nex ev_id =
     bind_o (div_u ev_id (proportion_denominator nex)) (\<lambda>epoch.
     bind_o (rem_u ev_id (proportion_denominator nex)) (\<lambda>offset.
     bind_o (if person_proportion nex \<le> offset then sub_u (person_proportion nex) 1 else Ok offset) (\<lambda>offset.
     bind_o (mul_u epoch (person_proportion nex)) (\<lambda>x.
       add_u x offset))))"

definition person_next_id :: "'r rng \<Rightarrow> 'f nexmark_config \<Rightarrow> u32 \<Rightarrow> ('r, u32) random" where
  "person_next_id R nex ev_id =
     bind_s (lift_o (person_last_id nex ev_id)) (\<lambda>last.
     bind_s (lift_o (add_u last 1)) (\<lambda>people.
     let active = min people (num_active_people nex) in
     bind_s (lift_o (sub_u people active)) (\<lambda>x.
     bind_s (lift_o (add_u active (person_id_lead nex))) (\<lambda>high.
     bind_s (gen_range R 0 high) (\<lambda>y.
       lift_o (add_u x y))))))"

text \<open>The epoch of the last auction, and its place in that epoch.\<close>

definition auction_slot :: "'f nexmark_config \<Rightarrow> u32 \<Rightarrow> u32 \<Rightarrow> (arcon_error, u32 \<times> u32) outcome" where
  "auction_slot nex epoch offset =
     (if offset < person_proportion nex then
        bind_o (sub_u epoch 1) (\<lambda>epoch. bind_o (sub_u (auction_proportion nex) 1) (\<lambda>offset. Ok (epoch, offset)))
      else
        bind_o (add_u (person_proportion nex) (auction_proportion nex)) (\<lambda>pa.
          if pa \<le> offset then bind_o (sub_u (auction_proportion nex) 1) (\<lambda>offset. Ok (epoch, offset))
          else bind_o (sub_u offset (person_proportion nex)) (\<lambda>offset. Ok (epoch, offset))))"

definition auction_last_id :: "'f nexmark_config \<Rightarrow> u32 \<Rightarrow> (arcon_error, u32) outcome" where
  "auction_last_id nex ev_id =
     bind_o (div_u ev_id (proportion_denominator nex)) (\<lambda>epoch.
     bind_o (rem_u ev_id (proportion_denominator nex)) (\<lambda>offset.
     bind_o (auction_slot nex epoch offset) (\<lambda>(epoch, offset).
     bind_o (mul_u epoch (auction_proportion nex)) (\<lambda>x.
       add_u x offset))))"

definition auction_next_id :: "'r rng \<Rightarrow> 'f nexmark_config \<Rightarrow> u32 \<Rightarrow> ('r, u32) random" where
  "auction_next_id R nex ev_id =
     bind_s (lift_o (auction_last_id nex ev_id)) (\<lambda>max_auction.
     let min_auction = (if max_auction < in_flight_auctions nex then 0 else max_auction - in_flight_auctions nex) in
     bind_s (lift_o (sub_u max_auction min_auction)) (\<lambda>x.
     bind_s (lift_o (add_u x 1)) (\<lambda>x.
     bind_s (lift_o (add_u x (auction_id_lead nex))) (\<lambda>high.
     bind_s (gen_range R 0 high) (\<lambda>y.
       lift_o (add_u min_auction y))))))"

text \<open>The last one rounded down to a multiple of \<open>m\<close>.\<close>

definition hot_id :: "(arcon_error, u32) outcome \<Rightarrow> u32 \<Rightarrow> (arcon_error, u32) outcome" where
  "hot_id r m = bind_o r (\<lambda>n. bind_o (div_u n m) (\<lambda>q. mul_u q m))"

definition next_length ::
    "(u32 \<Rightarrow> 'f \<Rightarrow> u32) \<Rightarrow> 'r rng \<Rightarrow> 'f nexmark_config \<Rightarrow> u32 \<Rightarrow> u32 \<Rightarrow> ('r, u32) random" where
  "next_length scaled R nex events_so_far time =
     bind_s (lift_o (next_adjusted_event nex events_so_far)) (\<lambda>current_event.
     bind_s (lift_o (mul_u (in_flight_auctions nex) (proportion_denominator nex))) (\<lambda>x.
     bind_s (lift_o (div_u x (auction_proportion nex))) (\<lambda>events_for_auctions.
     bind_s (lift_o (add_u current_event events_for_auctions)) (\<lambda>e.
     bind_s (lift_o (event_timestamp_ns scaled nex e)) (\<lambda>future_auction.
     bind_s (lift_o (sub_u future_auction time)) (\<lambda>horizon.
     bind_s (lift_o (mul_u horizon 2)) (\<lambda>twice.
     bind_s (gen_range R 0 (max twice 1)) (\<lambda>y.
       lift_o (add_u 1 y)))))))))"

definition auction_new ::
    "(u32 \<Rightarrow> 'f \<Rightarrow> u32) \<Rightarrow> 'r rng \<Rightarrow> 'f nexmark_config \<Rightarrow> u32 \<Rightarrow> u32 \<Rightarrow> u32 \<Rightarrow> ('r, auction) random" where
  "auction_new scaled R nex events_so_far ev_id time =
     bind_s (gen_price R) (\<lambda>initial_bid.
     bind_s (gen_range R 0 (hot_seller_ratio nex)) (\<lambda>hot.
     bind_s (if 0 < hot then lift_o (hot_id (person_last_id nex ev_id) (hot_seller_ratio_2 nex))
             else person_next_id R nex ev_id) (\<lambda>seller.
     bind_s (lift_o (auction_last_id nex ev_id)) (\<lambda>last.
     bind_s (lift_o (add_u last (first_auction_id nex))) (\<lambda>own.
     bind_s (gen_price R) (\<lambda>price.
     bind_s (lift_o (add_u initial_bid price)) (\<lambda>reserve.
     bind_s (next_length scaled R nex events_so_far time) (\<lambda>len.
     bind_s (lift_o (add_u time len)) (\<lambda>expires.
     bind_s (lift_o (add_u seller (first_person_id nex))) (\<lambda>seller.
     bind_s (gen_range R 0 (num_categories nex)) (\<lambda>c.
     bind_s (lift_o (add_u (first_category_id nex) c)) (\<lambda>category.
     return_s \<lparr>au_id = own, au_item_name = '''', au_description = '''', au_initial_bid = initial_bid,
               au_reserve = reserve, au_date = time, au_expires = expires, au_seller = seller,
               au_category = category\<rparr>))))))))))))"

definition bid_new :: "'r rng \<Rightarrow> 'f nexmark_config \<Rightarrow> u32 \<Rightarrow> u32 \<Rightarrow> ('r, bid) random" where
  "bid_new R nex ev_id time =
     bind_s (gen_range R 0 (hot_auction_ratio nex)) (\<lambda>hot.
     bind_s (if 0 < hot then lift_o (hot_id (auction_last_id nex ev_id) (hot_auction_ratio_2 nex))
             else auction_next_id R nex ev_id) (\<lambda>auction.
     bind_s (gen_range R 0 (hot_bidder_ratio nex)) (\<lambda>hot.
     bind_s (if 0 < hot
             then lift_o (bind_o (hot_id (person_last_id nex ev_id) (hot_bidder_ratio_2 nex)) (\<lambda>x. add_u x 1))
             else person_next_id R nex ev_id) (\<lambda>bidder.
     bind_s (lift_o (add_u auction (first_auction_id nex))) (\<lambda>auction.
     bind_s (lift_o (add_u bidder (first_person_id nex))) (\<lambda>bidder.
     bind_s (gen_price R) (\<lambda>price.
     return_s \<lparr>bi_auction = auction, bi_bidder = bidder, bi_price = price, bi_date = time\<rparr>)))))))"

datatype nexmark_inner = PersonEvent person | AuctionEvent auction | BidEvent bid

text \<open>\<^verbatim>\<open>NEXMarkEvent\<close>, whose \<^verbatim>\<open>inner\<close> is optional.\<close>

type_synonym nexmark_event = "nexmark_inner option"

definition nexmark_create ::
    "(u32 \<Rightarrow> 'f \<Rightarrow> u32) \<Rightarrow> 'r rng \<Rightarrow> 'f nexmark_config \<Rightarrow> u32 \<Rightarrow> ('r, nexmark_event) random" where
  "nexmark_create scaled R nex events_so_far =
     bind_s (lift_o (next_adjusted_event nex events_so_far)) (\<lambda>event.
     bind_s (lift_o (rem_u event (proportion_denominator nex))) (\<lambda>rem.
     bind_s (lift_o (event_timestamp_ns scaled nex event)) (\<lambda>timestamp.
     bind_s (lift_o (add_u (first_event_id nex) event)) (\<lambda>ev_id.
       if rem < person_proportion nex then
         bind_s (person_new R nex ev_id timestamp) (\<lambda>p. return_s (Some (PersonEvent p)))
       else
         bind_s (lift_o (add_u (person_proportion nex) (auction_proportion nex))) (\<lambda>pa.
           if rem < pa then
             bind_s (auction_new scaled R nex events_so_far ev_id timestamp) (\<lambda>a. return_s (Some (AuctionEvent a)))
           else bind_s (bid_new R nex ev_id timestamp) (\<lambda>b. return_s (Some (BidEvent b))))))))"

definition event_inner :: "nexmark_event \<Rightarrow> (arcon_error, nexmark_inner) outcome" where
  "event_inner e = unwrap_or_panic ''called `Option::unwrap()` on a `None` value'' e"

definition event_id :: "nexmark_event \<Rightarrow> (arcon_error, u32) outcome" where
  "event_id e =
     bind_o (event_inner e) (\<lambda>i.
       Ok (case i of PersonEvent p \<Rightarrow> pe_id p | AuctionEvent a \<Rightarrow> au_id a | BidEvent b \<Rightarrow> bi_auction b))"

definition event_time :: "nexmark_event \<Rightarrow> (arcon_error, u32) outcome" where
  "event_time e =
     bind_o (event_inner e) (\<lambda>i.
       Ok (case i of PersonEvent p \<Rightarrow> pe_date p | AuctionEvent a \<Rightarrow> au_date a | BidEvent b \<Rightarrow> bi_date b))"

section \<open>Query 1\<close>

text \<open>The filter in front of the queries; \<^verbatim>\<open>FlatMap\<close> takes an \<^verbatim>\<open>Option\<close> as a list.\<close>

definition bid_filter_map :: "nexmark_event \<Rightarrow> (arcon_error, bid list) outcome" where
  "bid_filter_map e = bind_o (event_inner e) (\<lambda>i. Ok (case i of BidEvent b \<Rightarrow> [b] | _ \<Rightarrow> []))"

definition convert_price :: "bid \<Rightarrow> (arcon_error, bid) outcome" where
  "convert_price b = bind_o (mul_u (bi_price b) 89) (\<lambda>x. bind_o (div_u x 100) (\<lambda>p. Ok (b\<lparr>bi_price := p\<rparr>)))"

section \<open>Query 3\<close>

datatype person_or_auction = QPerson person | QAuction auction

definition person_or_auction_filter_map ::
    "nexmark_event \<Rightarrow> (arcon_error, person_or_auction option list) outcome" where
  "person_or_auction_filter_map e =
     bind_o (event_inner e) (\<lambda>i.
       Ok (case i of
             PersonEvent p \<Rightarrow> if pe_state p = ''OR'' then [Some (QPerson p)] else []
           | AuctionEvent a \<Rightarrow> [Some (QAuction a)]
           | BidEvent b \<Rightarrow> []))"

record q3_result =
  qr_seller_name :: string
  qr_seller_city :: string
  qr_seller_state :: string
  qr_auction_id :: u32

definition person_handle :: "(u32, unit, unit) handle" where
  "person_handle = with_item_key 0 (value_handle ''person'')"

definition pending_handle :: "(u32, unit, unit) handle" where
  "pending_handle = with_item_key 0 (vec_handle ''pending_auctions'')"

text \<open>The two states, activated for the item key of a handle.\<close>

record 'b q3_state =
  q3_person :: "(u32, unit, unit) handle \<Rightarrow> ('b, person) value_ops"
  q3_pending :: "(u32, unit, unit) handle \<Rightarrow> ('b, auction) vec_ops"

definition person_of :: "'b q3_state \<Rightarrow> u32 \<Rightarrow> ('b, person) value_ops" where
  "person_of S k = q3_person S (set_item_key k person_handle)"

definition pending_of :: "'b q3_state \<Rightarrow> u32 \<Rightarrow> ('b, auction) vec_ops" where
  "pending_of S k = q3_pending S (set_item_key k pending_handle)"

definition q3_result_of :: "person \<Rightarrow> u32 \<Rightarrow> q3_result" where
  "q3_result_of p n =
     \<lparr>qr_seller_name = pe_name p, qr_seller_city = pe_city p, qr_seller_state = pe_state p, qr_auction_id = n\<rparr>"

text \<open>The auctions that waited for the person are reported with the id of the person.\<close>

definition q3_flatmap ::
    "'b q3_state \<Rightarrow> person_or_auction option \<Rightarrow> ('b, arcon_error, q3_result list) action" where
  "q3_flatmap S inner =
     (case inner of
        None \<Rightarrow> panic_s ''called `Option::unwrap()` on a `None` value''
      | Some (QPerson p) \<Rightarrow>
          bind_s (expecting ''Could not update person state'' (vo_set (person_of S (pe_id p)) p)) (\<lambda>_.
          bind_s (expecting ''Could not check if pending auctions are empty''
            (query (ve_is_empty (pending_of S (pe_id p))))) (\<lambda>empty.
            if \<not> empty then
              bind_s (expecting ''Could not get pending auctions'' (query (ve_get (pending_of S (pe_id p))))) (\<lambda>auctions.
              bind_s (expecting ''Could not clear pending auctions'' (ve_clear (pending_of S (pe_id p)))) (\<lambda>_.
              return_s (map (\<lambda>a. q3_result_of p (pe_id p)) (filter (\<lambda>a. au_category a = 10) auctions))))
            else return_s []))
      | Some (QAuction a) \<Rightarrow>
          bind_s (expecting ''Could not get person state'' (query (vo_get (person_of S (au_seller a))))) (\<lambda>known.
            case known of
              None \<Rightarrow>
                bind_s (expecting ''Could not store the auction'' (ve_append (pending_of S (au_seller a)) a)) (\<lambda>_.
                return_s [])
            | Some person \<Rightarrow>
                if au_category a = 10 then return_s [q3_result_of person (au_id a)] else return_s []))"

section \<open>Laws of the generator\<close>

text \<open>How many of the events up to \<open>n\<close> have their remainder between \<open>lo\<close> and \<open>hi\<close>.\<close>

definition events_upto :: "nat \<Rightarrow> nat \<Rightarrow> nat \<Rightarrow> nat \<Rightarrow> nat" where
  "events_upto d lo hi n = length (filter (\<lambda>e. lo \<le> e mod d \<and> e mod d < hi) [0..<Suc n])"

lemma filter_shift:
  "length (filter (\<lambda>e. P (e mod d)) [q * d..<q * d + r]) = length (filter P [0..<r])" if "r \<le> d" for P :: "nat \<Rightarrow> bool"
  using that by (induction r) (auto simp: mod_add_eq)

lemma filter_blocks:
  fixes P :: "nat \<Rightarrow> bool"
  assumes "r \<le> d"
  shows "length (filter (\<lambda>e. P (e mod d)) [0..<q * d + r]) = q * length (filter P [0..<d]) + length (filter P [0..<r])"
proof -
  have blocks: "length (filter (\<lambda>e. P (e mod d)) [0..<q * d]) = q * length (filter P [0..<d])" for q
  proof (induction q)
    case (Suc q)
    have "[0..<Suc q * d] = [0..<q * d] @ [q * d..<q * d + d]"
      by (metis add.commute le_add1 le_add_same_cancel1 mult_Suc upt_add_eq_append zero_le)
    then show ?case using Suc filter_shift [of d d P q] by simp
  qed simp
  have "[0..<q * d + r] = [0..<q * d] @ [q * d..<q * d + r]" by (metis upt_add_eq_append zero_le)
  then show ?thesis using blocks filter_shift [OF assms, of P q] by simp
qed

lemma filter_interval: "hi \<le> r \<or> r \<le> hi \<Longrightarrow> length (filter (\<lambda>e. lo \<le> e \<and> e < hi) [0..<r]) = min r hi - lo"
  by (induction r) (auto simp: min_def)

lemma events_upto_eq:
  assumes "hi \<le> d" "0 < d"
  shows "events_upto d lo hi n = n div d * (hi - lo) + (min (Suc (n mod d)) hi - lo)"
proof -
  have "Suc n = n div d * d + Suc (n mod d)" by simp
  moreover have "Suc (n mod d) \<le> d" using assms(2) by (simp add: Suc_le_eq)
  ultimately have "events_upto d lo hi n = n div d * length (filter (\<lambda>e. lo \<le> e \<and> e < hi) [0..<d])
      + length (filter (\<lambda>e. lo \<le> e \<and> e < hi) [0..<Suc (n mod d)])"
    unfolding events_upto_def using filter_blocks [of "Suc (n mod d)" d "\<lambda>e. lo \<le> e \<and> e < hi" "n div d"] by metis
  then show ?thesis using assms(1) filter_interval [of hi d lo] filter_interval [of hi "Suc (n mod d)" lo]
    by (auto simp: min_def)
qed

text \<open>A checked computation that returns, with the number that it returns.\<close>

definition gives :: "('e, 'n::len word) outcome \<Rightarrow> nat \<Rightarrow> bool" where
  "gives r n \<longleftrightarrow> (\<exists>w. r = Ok w \<and> unat w = n)"

lemma gives_Ok: "gives (Ok w) n \<longleftrightarrow> unat w = n"
  by (simp add: gives_def)

lemma gives_bind: "gives r n \<Longrightarrow> (\<And>w. unat w = n \<Longrightarrow> gives (f w) m) \<Longrightarrow> gives (bind_o r f) m"
  by (auto simp: gives_def)

lemma gives_add: "unat a + unat b < 2 ^ LENGTH('n) \<Longrightarrow> gives (add_u a (b :: 'n::len word)) (unat a + unat b)"
  by (simp add: gives_def add_u_def unat_add_no_overflow)

lemma gives_sub: "unat b \<le> unat a \<Longrightarrow> gives (sub_u a (b :: 'n::len word)) (unat a - unat b)"
  by (simp add: gives_def sub_u_def word_le_nat_alt unat_sub)

lemma gives_mul: "unat a * unat b < 2 ^ LENGTH('n) \<Longrightarrow> gives (mul_u a (b :: 'n::len word)) (unat a * unat b)"
  by (simp add: gives_def mul_u_def unat_mul_no_overflow)

lemma gives_div: "0 < unat b \<Longrightarrow> gives (div_u a (b :: 'n::len word)) (unat a div unat b)"
  by (auto simp: gives_def div_u_def unat_div)

lemma gives_rem: "0 < unat b \<Longrightarrow> gives (rem_u a (b :: 'n::len word)) (unat a mod unat b)"
  by (auto simp: gives_def rem_u_def unat_mod)

definition proportions_ok :: "'f nexmark_config \<Rightarrow> bool" where
  "proportions_ok nex \<longleftrightarrow> 0 < person_proportion nex \<and> 0 < auction_proportion nex \<and>
     unat (proportion_denominator nex)
       = unat (person_proportion nex) + unat (auction_proportion nex) + unat (bid_proportion nex)"

definition people_upto :: "'f nexmark_config \<Rightarrow> u32 \<Rightarrow> nat" where
  "people_upto nex i = events_upto (unat (proportion_denominator nex)) 0 (unat (person_proportion nex)) (unat i)"

definition auctions_upto :: "'f nexmark_config \<Rightarrow> u32 \<Rightarrow> nat" where
  "auctions_upto nex i =
     events_upto (unat (proportion_denominator nex)) (unat (person_proportion nex))
       (unat (person_proportion nex) + unat (auction_proportion nex)) (unat i)"

lemma mult_block:
  fixes n d w :: nat
  assumes "w \<le> d"
  shows "n div d * w \<le> n div d * d" and "n div d * d + n mod d = n"
  using assms by simp_all

text \<open>The last id counts the people, and the auctions, among the events so far.\<close>

lemma person_last_id_counts:
  assumes "proportions_ok nex"
  shows "gives (person_last_id nex i) (people_upto nex i - 1)" and "0 < people_upto nex i"
    and "people_upto nex i \<le> unat i + 1"
proof -
  let ?d = "unat (proportion_denominator nex)" and ?p = "unat (person_proportion nex)"
  let ?q = "unat i div ?d" and ?r = "unat i mod ?d"
  have p: "0 < ?p" "?p \<le> ?d" "0 < ?d" using assms by (auto simp: proportions_ok_def word_less_nat_alt)
  have n: "people_upto nex i = ?q * ?p + min (Suc ?r) ?p"
    using events_upto_eq [of ?p ?d 0 "unat i"] p by (simp add: people_upto_def)
  have b: "?q * ?p \<le> ?q * ?d" "?q * ?d + ?r = unat i" using mult_block [OF p(2), of "unat i"] by simp_all
  then show "people_upto nex i \<le> unat i + 1" unfolding n by linarith
  show "0 < people_upto nex i" unfolding n using p(1) by simp
  have i: "unat i < 2 ^ 32" using unat_bound [of i] by simp
  show "gives (person_last_id nex i) (people_upto nex i - 1)"
    unfolding person_last_id_def
  proof (intro gives_bind [OF gives_div] gives_bind [OF gives_rem] p(3))
    fix epoch offset :: u32
    assume e: "unat epoch = ?q" and o: "unat offset = ?r"
    show "gives (bind_o (if person_proportion nex \<le> offset then sub_u (person_proportion nex) 1 else Ok offset)
        (\<lambda>offset. bind_o (mul_u epoch (person_proportion nex)) (\<lambda>x. add_u x offset))) (people_upto nex i - 1)"
    proof (rule gives_bind [of _ "min (Suc ?r) ?p - 1"])
      show "gives (if person_proportion nex \<le> offset then sub_u (person_proportion nex) 1 else Ok offset) (min (Suc ?r) ?p - 1)"
        using o p(1) gives_sub [of 1 "person_proportion nex"] by (auto simp: gives_Ok word_le_nat_alt min_def)
      fix w :: u32
      assume w: "unat w = min (Suc ?r) ?p - 1"
      have "?q * ?p < 2 ^ 32" using b i by linarith
      then have m: "gives (mul_u epoch (person_proportion nex)) (?q * ?p)"
        using gives_mul [of epoch "person_proportion nex"] e by simp
      show "gives (bind_o (mul_u epoch (person_proportion nex)) (\<lambda>x. add_u x w)) (people_upto nex i - 1)"
      proof (rule gives_bind [OF m])
        fix x :: u32
        assume x: "unat x = ?q * ?p"
        have s: "unat x + unat w = people_upto nex i - 1" unfolding n using x w p(1) by simp
        then have "unat x + unat w < 2 ^ LENGTH(32)" using \<open>people_upto nex i \<le> unat i + 1\<close> i by simp
        from gives_add [OF this] show "gives (add_u x w) (people_upto nex i - 1)" unfolding s .
      qed
    qed
  qed
qed

lemma auctions_upto_eq:
  assumes "proportions_ok nex"
  defines "d \<equiv> unat (proportion_denominator nex)" and "p \<equiv> unat (person_proportion nex)"
    and "a \<equiv> unat (auction_proportion nex)"
  shows "auctions_upto nex i = unat i div d * a + (min (Suc (unat i mod d)) (p + a) - p)"
    and "auctions_upto nex i \<le> unat i + 1"
proof -
  have d: "p + a \<le> d" "0 < d" using assms by (auto simp: proportions_ok_def word_less_nat_alt)
  show n: "auctions_upto nex i = unat i div d * a + (min (Suc (unat i mod d)) (p + a) - p)"
    using events_upto_eq [OF d, of p "unat i"] by (simp add: auctions_upto_def d_def p_def a_def)
  have "unat i div d * a \<le> unat i div d * d" "unat i div d * d + unat i mod d = unat i"
    using mult_block [of a d "unat i"] d(1) by simp_all
  then show "auctions_upto nex i \<le> unat i + 1" unfolding n by linarith
qed

lemma auction_slot_place:
  assumes "proportions_ok nex" and some: "0 < auctions_upto nex i"
    and e: "unat epoch = unat i div unat (proportion_denominator nex)"
    and o: "unat offset = unat i mod unat (proportion_denominator nex)"
  shows "\<exists>e' o'. auction_slot nex epoch offset = Ok (e', o') \<and>
    unat e' * unat (auction_proportion nex) + unat o' = auctions_upto nex i - 1"
proof -
  let ?p = "unat (person_proportion nex)" and ?a = "unat (auction_proportion nex)"
  let ?q = "unat epoch" and ?r = "unat offset"
  have p: "0 < ?a" "?p + ?a \<le> unat (proportion_denominator nex)"
    using assms(1) by (auto simp: proportions_ok_def word_less_nat_alt)
  have n: "auctions_upto nex i = ?q * ?a + (min (Suc ?r) (?p + ?a) - ?p)"
    using auctions_upto_eq(1) [OF assms(1), of i] e o by simp
  have a: "unat (auction_proportion nex - 1) = ?a - 1" "1 \<le> auction_proportion nex"
    using p(1) by (simp_all add: word_le_nat_alt unat_sub)
  show ?thesis
  proof (cases "offset < person_proportion nex")
    case True
    then have n0: "auctions_upto nex i = ?q * ?a" using n by (simp add: word_less_nat_alt)
    then have q: "0 < ?q" using some by simp
    then have "unat (epoch - 1) = ?q - 1" "1 \<le> epoch" by (simp_all add: word_le_nat_alt unat_sub)
    moreover have "(?q - 1) * ?a + (?a - 1) = auctions_upto nex i - 1"
      using n0 q p(1) by (cases ?q) (simp_all add: algebra_simps)
    ultimately show ?thesis using True a by (simp add: auction_slot_def sub_u_def)
  next
    case False
    then have r: "?p \<le> ?r" by (simp add: word_less_nat_alt)
    let ?w = "person_proportion nex + auction_proportion nex"
    have "?p + ?a < 2 ^ LENGTH(32)" using p(2) unat_bound [of "proportion_denominator nex"] by linarith
    then have w: "add_u (person_proportion nex) (auction_proportion nex) = (Ok ?w :: (arcon_error, u32) outcome)"
      "unat ?w = ?p + ?a"
      using unat_add_no_overflow [of "person_proportion nex" "auction_proportion nex"] by (simp_all add: add_u_def)
    have "person_proportion nex \<le> offset" "unat (offset - person_proportion nex) = ?r - ?p"
      using r by (simp_all add: word_le_nat_alt unat_sub)
    then show ?thesis
      using False a w n r p(1) by (auto simp: auction_slot_def sub_u_def word_le_nat_alt min_def)
  qed
qed

lemma auction_last_id_counts:
  assumes "proportions_ok nex" and some: "0 < auctions_upto nex i"
  shows "gives (auction_last_id nex i) (auctions_upto nex i - 1)"
  unfolding auction_last_id_def
proof (intro gives_bind [OF gives_div] gives_bind [OF gives_rem])
  show "0 < unat (proportion_denominator nex)" "0 < unat (proportion_denominator nex)"
    using assms(1) by (auto simp: proportions_ok_def word_less_nat_alt)
  fix epoch offset :: u32
  assume "unat epoch = unat i div unat (proportion_denominator nex)"
    and "unat offset = unat i mod unat (proportion_denominator nex)"
  from auction_slot_place [OF assms this] obtain e' o' where slot: "auction_slot nex epoch offset = Ok (e', o')"
      and place: "unat e' * unat (auction_proportion nex) + unat o' = auctions_upto nex i - 1" by blast
  have s: "unat e' * unat (auction_proportion nex) + unat o' < 2 ^ 32"
    using place auctions_upto_eq(2) [OF assms(1), of i] unat_bound [of i] by simp
  have "gives (bind_o (mul_u e' (auction_proportion nex)) (\<lambda>x. add_u x o')) (auctions_upto nex i - 1)"
  proof (intro gives_bind [OF gives_mul])
    show "unat e' * unat (auction_proportion nex) < 2 ^ LENGTH(32)" using s by simp
    fix x :: u32
    assume x: "unat x = unat e' * unat (auction_proportion nex)"
    have "unat x + unat o' < 2 ^ LENGTH(32)" using s x by simp
    from gives_add [OF this] show "gives (add_u x o') (auctions_upto nex i - 1)" using place x by simp
  qed
  then show "gives (bind_o (auction_slot nex epoch offset) (\<lambda>(epoch, offset).
      bind_o (mul_u epoch (auction_proportion nex)) (\<lambda>x. add_u x offset))) (auctions_upto nex i - 1)"
    by (simp add: slot)
qed

text \<open>What the crate \<^verbatim>\<open>rand\<close> documents of its ranges and indices.\<close>

definition rng_law :: "'r rng \<Rightarrow> bool" where
  "rng_law R \<longleftrightarrow>
     (\<forall>low high s. low < high \<longrightarrow> low \<le> fst (rng_range R low high s) \<and> fst (rng_range R low high s) < high) \<and>
     (\<forall>n s. 0 < n \<longrightarrow> fst (rng_index R n s) < n)"

text \<open>A random computation that returns, from every state of the generator, with what holds of its result.\<close>

definition draws :: "('r, 'a) random \<Rightarrow> ('a \<Rightarrow> bool) \<Rightarrow> bool" where
  "draws m P \<longleftrightarrow> (\<forall>s. \<exists>a s'. m s = (Ok a, s') \<and> P a)"

lemma draws_bind: "draws m P \<Longrightarrow> (\<And>a. P a \<Longrightarrow> draws (f a) Q) \<Longrightarrow> draws (bind_s m f) Q"
  unfolding draws_def by (metis bind_s_Ok)

lemma draws_return: "P a \<Longrightarrow> draws (return_s a) P"
  by (simp add: draws_def)

lemma draws_weaken: "draws m P \<Longrightarrow> (\<And>a. P a \<Longrightarrow> Q a) \<Longrightarrow> draws m Q"
  by (fastforce simp: draws_def)

lemma draws_lift: "gives r n \<Longrightarrow> draws (lift_o r) (\<lambda>w. unat w = n)"
  by (auto simp: draws_def gives_def)

lemma draws_range: "rng_law R \<Longrightarrow> 0 < unat high \<Longrightarrow> draws (gen_range R 0 high) (\<lambda>n. unat n < unat high)"
proof -
  assume "rng_law R" "0 < unat high"
  then have "0 < high \<and> fst (rng_range R 0 high s) < high" for s by (simp add: rng_law_def word_less_nat_alt)
  then show ?thesis by (simp add: draws_def gen_range_def word_less_nat_alt split: prod.split) (metis fst_conv)
qed

lemma draws_price: "draws (gen_price R) (\<lambda>_. True)"
  by (simp add: draws_def gen_price_def split: prod.splits)

lemma draws_if: "(c \<Longrightarrow> draws m P) \<Longrightarrow> (\<not> c \<Longrightarrow> draws m' P) \<Longrightarrow> draws (if c then m else m') P"
  by simp

lemmas draws_steps = draws_bind [OF draws_lift [OF gives_add]] draws_bind [OF draws_lift [OF gives_sub]]

lemma hot_id_gives:
  assumes "gives r n" "0 < unat m" "n < 2 ^ 32"
  shows "gives (hot_id r m) (n div unat m * unat m)"
  unfolding hot_id_def
proof (rule gives_bind [OF assms(1)], rule gives_bind [OF gives_div [OF assms(2)]])
  fix w q :: u32
  assume q: "unat w = n" "unat q = unat w div unat m"
  have "n div unat m * unat m < 2 ^ 32" using assms(3) by (rule le_less_trans [rotated]) simp
  then have "unat q * unat m < 2 ^ LENGTH(32)" using q by simp
  from gives_mul [OF this] show "gives (mul_u q m) (n div unat m * unat m)" using q by simp
qed

lemma auction_next_id_bound:
  assumes "rng_law R" "proportions_ok nex" "0 < auctions_upto nex i"
    and "auctions_upto nex i + unat (auction_id_lead nex) < 2 ^ 32"
  shows "draws (auction_next_id R nex i) (\<lambda>n. unat n < auctions_upto nex i + unat (auction_id_lead nex))"
  unfolding auction_next_id_def
proof (rule draws_bind [OF draws_lift [OF auction_last_id_counts [OF assms(2,3)]]], unfold Let_def)
  fix m :: u32
  let ?lo = "if m < in_flight_auctions nex then 0 else m - in_flight_auctions nex"
  assume m: "unat m = auctions_upto nex i - 1"
  have lo: "unat ?lo \<le> unat m" by (auto simp: word_less_nat_alt unat_sub word_le_nat_alt)
  have bound: "unat m - unat ?lo + 1 + unat (auction_id_lead nex) < 2 ^ 32" using m assms(3,4) by linarith
  show "draws (bind_s (lift_o (sub_u m ?lo)) (\<lambda>x. bind_s (lift_o (add_u x 1)) (\<lambda>x.
      bind_s (lift_o (add_u x (auction_id_lead nex))) (\<lambda>high. bind_s (gen_range R 0 high) (\<lambda>y. lift_o (add_u ?lo y))))))
    (\<lambda>n. unat n < auctions_upto nex i + unat (auction_id_lead nex))"
  proof (rule draws_steps(2) [OF lo], rule draws_steps(1))
    fix x :: u32
    assume x: "unat x = unat m - unat ?lo"
    show "unat x + unat (1 :: u32) < 2 ^ LENGTH(32)" using x bound by simp
    fix y :: u32
    assume "unat y = unat x + unat (1 :: u32)"
    then have y: "unat y = unat m - unat ?lo + 1" using x by simp
    show "draws (bind_s (lift_o (add_u y (auction_id_lead nex))) (\<lambda>high. bind_s (gen_range R 0 high) (\<lambda>y. lift_o (add_u ?lo y))))
      (\<lambda>n. unat n < auctions_upto nex i + unat (auction_id_lead nex))"
    proof (rule draws_steps(1))
      show "unat y + unat (auction_id_lead nex) < 2 ^ LENGTH(32)" using y bound by simp
      fix high :: u32
      assume h: "unat high = unat y + unat (auction_id_lead nex)"
      show "draws (bind_s (gen_range R 0 high) (\<lambda>y. lift_o (add_u ?lo y)))
        (\<lambda>n. unat n < auctions_upto nex i + unat (auction_id_lead nex))"
      proof (rule draws_bind [OF draws_range [OF assms(1)]])
        show "0 < unat high" using h y by simp
        fix z :: u32
        assume "unat z < unat high"
        then have z: "unat ?lo + unat z < auctions_upto nex i + unat (auction_id_lead nex)"
          using h y lo m assms(3) by linarith
        then have "unat ?lo + unat z < 2 ^ LENGTH(32)" using assms(4) by simp
        from draws_weaken [OF draws_lift [OF gives_add [OF this]]]
        show "draws (lift_o (add_u ?lo z)) (\<lambda>n. unat n < auctions_upto nex i + unat (auction_id_lead nex))"
          using z by (metis (no_types, lifting))
      qed
    qed
  qed
qed

lemma person_next_id_bound:
  assumes "rng_law R" "proportions_ok nex" "0 < num_active_people nex"
    and "people_upto nex i + unat (person_id_lead nex) < 2 ^ 32"
  shows "draws (person_next_id R nex i) (\<lambda>n. unat n < people_upto nex i + unat (person_id_lead nex))"
  unfolding person_next_id_def
proof (rule draws_bind [OF draws_lift [OF person_last_id_counts(1) [OF assms(2)]]], rule draws_steps(1))
  note people = person_last_id_counts(2) [OF assms(2), of i]
  fix m p :: u32
  assume m: "unat m = people_upto nex i - 1"
  show "unat m + unat (1 :: u32) < 2 ^ LENGTH(32)" using m people assms(4) by simp
  assume "unat p = unat m + unat (1 :: u32)"
  then have p: "unat p = people_upto nex i" using m people by simp
  let ?a = "min p (num_active_people nex)"
  have a: "unat ?a \<le> unat p" "0 < unat ?a"
    using p people assms(3) by (auto simp: min_def word_le_nat_alt word_less_nat_alt)
  have "draws (bind_s (lift_o (sub_u p ?a)) (\<lambda>x. bind_s (lift_o (add_u ?a (person_id_lead nex))) (\<lambda>high.
      bind_s (gen_range R 0 high) (\<lambda>y. lift_o (add_u x y))))) (\<lambda>n. unat n < people_upto nex i + unat (person_id_lead nex))"
  proof (rule draws_steps(2) [OF a(1)], rule draws_steps(1))
    fix x high :: u32
    assume x: "unat x = unat p - unat ?a"
    show "unat ?a + unat (person_id_lead nex) < 2 ^ LENGTH(32)" using a p assms(4) by simp
    assume h: "unat high = unat ?a + unat (person_id_lead nex)"
    show "draws (bind_s (gen_range R 0 high) (\<lambda>y. lift_o (add_u x y)))
      (\<lambda>n. unat n < people_upto nex i + unat (person_id_lead nex))"
    proof (rule draws_bind [OF draws_range [OF assms(1)]])
      show "0 < unat high" using h a by simp
      fix z :: u32
      assume "unat z < unat high"
      then have z: "unat x + unat z < people_upto nex i + unat (person_id_lead nex)" using h x a p by linarith
      then have "unat x + unat z < 2 ^ LENGTH(32)" using assms(4) by simp
      from draws_weaken [OF draws_lift [OF gives_add [OF this]]]
      show "draws (lift_o (add_u x z)) (\<lambda>n. unat n < people_upto nex i + unat (person_id_lead nex))"
        using z by (metis (no_types, lifting))
    qed
  qed
  then show "draws (let active = ?a in bind_s (lift_o (sub_u p active)) (\<lambda>x.
      bind_s (lift_o (add_u active (person_id_lead nex))) (\<lambda>high.
      bind_s (gen_range R 0 high) (\<lambda>y. lift_o (add_u x y))))) (\<lambda>n. unat n < people_upto nex i + unat (person_id_lead nex))"
    by (simp only: Let_def)
qed

definition ratios_ok :: "'f nexmark_config \<Rightarrow> bool" where
  "ratios_ok nex \<longleftrightarrow> 0 < num_active_people nex \<and> 0 < hot_auction_ratio nex \<and> 0 < hot_bidder_ratio nex \<and>
     0 < hot_auction_ratio_2 nex \<and> 0 < hot_bidder_ratio_2 nex"

lemma bid_auction_bound:
  assumes "rng_law R" "proportions_ok nex" "ratios_ok nex" "0 < auctions_upto nex i"
    and "auctions_upto nex i + unat (auction_id_lead nex) < 2 ^ 32"
  shows "draws (if 0 < hot then lift_o (hot_id (auction_last_id nex i) (hot_auction_ratio_2 nex))
             else auction_next_id R nex i) (\<lambda>n. unat n < auctions_upto nex i + unat (auction_id_lead nex))"
proof (rule draws_if)
  let ?n = "auctions_upto nex i" and ?m = "unat (hot_auction_ratio_2 nex)"
  have m: "0 < ?m" using assms(3) by (simp add: ratios_ok_def word_less_nat_alt)
  have hot: "gives (hot_id (auction_last_id nex i) (hot_auction_ratio_2 nex)) ((?n - 1) div ?m * ?m)"
    using assms(5) by (intro hot_id_gives auction_last_id_counts assms(2,4) m) linarith
  have le: "(?n - 1) div ?m * ?m \<le> ?n - 1" by simp
  show "draws (lift_o (hot_id (auction_last_id nex i) (hot_auction_ratio_2 nex)))
      (\<lambda>n. unat n < ?n + unat (auction_id_lead nex))"
  proof (rule draws_weaken [OF draws_lift [OF hot]])
    fix w :: u32
    assume "unat w = (?n - 1) div ?m * ?m"
    then show "unat w < ?n + unat (auction_id_lead nex)" using le assms(4) by linarith
  qed
qed (rule auction_next_id_bound [OF assms(1,2,4,5)])

lemma bid_bidder_bound:
  assumes "rng_law R" "proportions_ok nex" "ratios_ok nex"
    and "people_upto nex i + unat (person_id_lead nex) < 2 ^ 32 - 1"
  shows "draws (if 0 < hot then lift_o (bind_o (hot_id (person_last_id nex i) (hot_bidder_ratio_2 nex)) (\<lambda>x. add_u x 1))
             else person_next_id R nex i) (\<lambda>n. unat n < people_upto nex i + max 1 (unat (person_id_lead nex)))"
proof (rule draws_if)
  let ?n = "people_upto nex i" and ?m = "unat (hot_bidder_ratio_2 nex)"
  have n: "0 < ?n" by (rule person_last_id_counts(2) [OF assms(2)])
  have hot: "gives (hot_id (person_last_id nex i) (hot_bidder_ratio_2 nex)) ((?n - 1) div ?m * ?m)"
    using assms(3,4) by (intro hot_id_gives person_last_id_counts(1) assms(2)) (simp_all add: ratios_ok_def word_less_nat_alt)
  have le: "(?n - 1) div ?m * ?m \<le> ?n - 1" by simp
  have "gives (bind_o (hot_id (person_last_id nex i) (hot_bidder_ratio_2 nex)) (\<lambda>x. add_u x 1)) ((?n - 1) div ?m * ?m + 1)"
  proof (rule gives_bind [OF hot])
    fix w :: u32
    assume w: "unat w = (?n - 1) div ?m * ?m"
    have "unat w \<le> ?n - 1" unfolding w by (rule le)
    then have "unat w + unat (1 :: u32) < 2 ^ LENGTH(32)" using n assms(4) by simp
    from gives_add [OF this] show "gives (add_u w 1) ((?n - 1) div ?m * ?m + 1)" using w by simp
  qed
  then show "draws (lift_o (bind_o (hot_id (person_last_id nex i) (hot_bidder_ratio_2 nex)) (\<lambda>x. add_u x 1)))
      (\<lambda>n. unat n < ?n + max 1 (unat (person_id_lead nex)))"
  proof (rule draws_weaken [OF draws_lift])
    fix w :: u32
    assume "unat w = (?n - 1) div ?m * ?m + 1"
    then show "unat w < ?n + max 1 (unat (person_id_lead nex))" using le n by linarith
  qed
  show "draws (person_next_id R nex i) (\<lambda>n. unat n < ?n + max 1 (unat (person_id_lead nex)))"
    using assms(3,4) by (intro draws_weaken [OF person_next_id_bound [OF assms(1,2)]]) (simp_all add: ratios_ok_def)
qed

lemma draws_offset:
  assumes "unat a + unat b < 2 ^ 32"
  shows "draws (lift_o (add_u (a :: u32) b)) (\<lambda>w. unat w = unat a + unat b)"
  using assms by (intro draws_lift gives_add) simp

text \<open>A bid refers to what has been generated. Take a configuration whose denominator is the sum of
  its proportions, a random generator that keeps to its ranges, and an event with an auction before it,
  with room for the ids in 32 bits. Then the creation of a bid returns, its auction is one of the
  auctions so far or of the next few that the configuration allows, and its bidder is one of the
  people so far or of the next few.\<close>

theorem nexmark_bid_refers:
  assumes "rng_law R" "proportions_ok nex" "ratios_ok nex" "0 < auctions_upto nex i"
    and "unat i + unat (auction_id_lead nex) + unat (first_auction_id nex) + 1 < 2 ^ 32"
    and "unat i + max 1 (unat (person_id_lead nex)) + unat (first_person_id nex) + 2 < 2 ^ 32"
  shows "\<exists>b s'. bid_new R nex i time s = (Ok b, s') \<and> bi_date b = time \<and>
    unat (first_auction_id nex) \<le> unat (bi_auction b) \<and>
    unat (bi_auction b) < unat (first_auction_id nex) + auctions_upto nex i + unat (auction_id_lead nex) \<and>
    unat (first_person_id nex) \<le> unat (bi_bidder b) \<and>
    unat (bi_bidder b) < unat (first_person_id nex) + people_upto nex i + max 1 (unat (person_id_lead nex))"
proof -
  let ?fa = "unat (first_auction_id nex)" and ?fp = "unat (first_person_id nex)"
  let ?na = "auctions_upto nex i + unat (auction_id_lead nex)"
  let ?np = "people_upto nex i + max 1 (unat (person_id_lead nex))"
  have na: "?na + ?fa < 2 ^ 32" using auctions_upto_eq(2) [OF assms(2), of i] assms(5) by linarith
  have np: "?np + ?fp < 2 ^ 32 - 1" using person_last_id_counts(3) [OF assms(2), of i] assms(6) by linarith
  have ratios: "0 < unat (hot_auction_ratio nex)" "0 < unat (hot_bidder_ratio nex)"
    using assms(3) by (simp_all add: ratios_ok_def word_less_nat_alt)
  have "draws (bid_new R nex i time) (\<lambda>b. bi_date b = time \<and> ?fa \<le> unat (bi_auction b) \<and>
      unat (bi_auction b) < ?fa + ?na \<and> ?fp \<le> unat (bi_bidder b) \<and> unat (bi_bidder b) < ?fp + ?np)"
    unfolding bid_new_def
  proof (rule draws_bind [OF draws_range [OF assms(1) ratios(1)]], rule draws_bind [OF bid_auction_bound [OF assms(1-4)]],
      goal_cases)
    case (2 hot auction)
    note auction = 2(2)
    show ?case
    proof (rule draws_bind [OF draws_range [OF assms(1) ratios(2)]], rule draws_bind [OF bid_bidder_bound [OF assms(1-3)]],
        goal_cases)
      case (2 hot bidder)
      then show ?case using auction na np
        by (intro draws_bind [OF draws_offset] draws_bind [OF draws_price] draws_return) auto
    qed (use np in auto)
  qed (use na in auto)
  then show ?thesis by (auto simp: draws_def add.assoc)
qed

section \<open>Laws of query 3\<close>

text \<open>The query on a sequence of people and auctions.\<close>

fun q3_run :: "'b q3_state \<Rightarrow> person_or_auction list \<Rightarrow> ('b, arcon_error, q3_result list) action" where
  "q3_run S [] = return_s []"
| "q3_run S (x # xs) =
     bind_s (q3_flatmap S (Some x)) (\<lambda>r. bind_s (q3_run S xs) (\<lambda>rs. return_s (r @ rs)))"

definition people_in :: "person_or_auction list \<Rightarrow> person list" where
  "people_in h = concat (map (\<lambda>x. case x of QPerson p \<Rightarrow> [p] | QAuction _ \<Rightarrow> []) h)"

definition auctions_in :: "person_or_auction list \<Rightarrow> auction list" where
  "auctions_in h = concat (map (\<lambda>x. case x of QPerson _ \<Rightarrow> [] | QAuction a \<Rightarrow> [a]) h)"

definition seller_in :: "person_or_auction list \<Rightarrow> u32 \<Rightarrow> person option" where
  "seller_in h k = find (\<lambda>p. pe_id p = k) (rev (people_in h))"

text \<open>The join that the comment of the query asks for: every person (those who get this far are from Oregon) with
  every auction of category 10 that it sells. A row names the person and the auction.\<close>

definition sql_join :: "person_or_auction list \<Rightarrow> (person \<times> auction) list" where
  "sql_join xs = concat (map (\<lambda>p. map (Pair p)
     (filter (\<lambda>a. au_seller a = pe_id p \<and> au_category a = 10) (auctions_in xs))) (people_in xs))"

definition sql_row :: "person \<times> auction \<Rightarrow> q3_result" where
  "sql_row m = q3_result_of (fst m) (au_id (snd m))"

text \<open>The pairs that are found when \<open>x\<close> arrives after \<open>h\<close>, marked when the auction had waited for its seller: at a
  first person of its id the auctions of that seller before it, at an auction the latest person that sells it.
  The row of a pair whose auction had waited has the id of the person in the place of that of the auction.\<close>

definition matched :: "person_or_auction list \<Rightarrow> person_or_auction \<Rightarrow> (bool \<times> person \<times> auction) list" where
  "matched h x =
     (case x of
        QPerson p \<Rightarrow>
          if seller_in h (pe_id p) = None
          then map (\<lambda>a. (True, p, a)) (filter (\<lambda>a. au_seller a = pe_id p \<and> au_category a = 10) (auctions_in h))
          else []
      | QAuction a \<Rightarrow>
          (case seller_in h (au_seller a) of
             None \<Rightarrow> []
           | Some p \<Rightarrow> if au_category a = 10 then [(False, p, a)] else []))"

definition q3_matches :: "person_or_auction list \<Rightarrow> (bool \<times> person \<times> auction) list" where
  "q3_matches xs = concat (map (\<lambda>j. matched (take j xs) (xs ! j)) [0..<length xs])"

definition reported :: "bool \<times> person \<times> auction \<Rightarrow> q3_result" where
  "reported m = (case m of (waited, p, a) \<Rightarrow> if waited then q3_result_of p (pe_id p) else sql_row (p, a))"

abbreviation completed :: "person_or_auction list \<Rightarrow> person_or_auction \<Rightarrow> q3_result list" where
  "completed h x \<equiv> map reported (matched h x)"

lemma history_simps [simp]:
  "people_in [] = []" "auctions_in [] = []" "seller_in [] k = None"
  "auctions_in (h @ [QAuction a]) = auctions_in h @ [a]" "auctions_in (h @ [QPerson p]) = auctions_in h"
  "seller_in (h @ [QPerson p]) k = (if pe_id p = k then Some p else seller_in h k)"
  "seller_in (h @ [QAuction a]) k = seller_in h k"
  by (simp_all add: people_in_def auctions_in_def seller_in_def)

lemma q3_matches_snoc: "q3_matches (xs @ [x]) = q3_matches xs @ matched xs x"
proof -
  have eq: "map (\<lambda>j. matched (take j (xs @ [x])) ((xs @ [x]) ! j)) [0..<length xs]
      = map (\<lambda>j. matched (take j xs) (xs ! j)) [0..<length xs]"
    by (intro map_cong) (auto simp: nth_append)
  have "q3_matches (xs @ [x]) = concat (map (\<lambda>j. matched (take j (xs @ [x])) ((xs @ [x]) ! j)) [0..<length xs])
      @ matched (take (length xs) (xs @ [x])) ((xs @ [x]) ! length xs)"
    by (simp only: q3_matches_def length_append_singleton upt_Suc le0 if_True map_append concat_append) simp
  then show ?thesis unfolding eq by (simp add: q3_matches_def)
qed

text \<open>When no id is given to two people, an auction has at most one seller, and the pairs found are those of the join.\<close>

lemma sellers_unique:
  "distinct (map pe_id ps) \<Longrightarrow>
    filter (\<lambda>p. pe_id p = k) ps = (case find (\<lambda>p. pe_id p = k) (rev ps) of None \<Rightarrow> [] | Some p \<Rightarrow> [p])"
proof (induction ps rule: rev_induct)
  case (snoc p ps)
  show ?case
  proof (cases "pe_id p = k")
    case True
    then have "filter (\<lambda>p. pe_id p = k) ps = []" using snoc.prems by (fastforce simp: filter_empty_conv image_iff)
    then show ?thesis using True by simp
  next
    case False
    then show ?thesis using snoc by simp
  qed
qed simp

lemma join_one_more:
  "mset (concat (map (\<lambda>p. map (Pair p) (filter (Q p) (as @ [a]))) ps))
    = mset (concat (map (\<lambda>p. map (Pair p) (filter (Q p) as)) ps)) + mset (map (\<lambda>p. (p, a)) (filter (\<lambda>p. Q p a) ps))"
  by (induction ps) simp_all

lemma matches_are_join:
  "distinct (map pe_id (people_in xs)) \<Longrightarrow> mset (map snd (q3_matches xs)) = mset (sql_join xs)"
proof (induction xs rule: rev_induct)
  case Nil
  show ?case by (simp add: q3_matches_def sql_join_def)
next
  case (snoc x xs)
  show ?case
  proof (cases x)
    case (QPerson p)
    have people: "people_in (xs @ [x]) = people_in xs @ [p]" by (simp add: people_in_def QPerson)
    then have "seller_in xs (pe_id p) = None" using snoc.prems by (fastforce simp: seller_in_def find_None_iff image_iff)
    then have "map snd (matched xs x) = map (Pair p) (filter (\<lambda>a. au_seller a = pe_id p \<and> au_category a = 10) (auctions_in xs))"
      by (simp add: matched_def QPerson)
    moreover have "mset (map snd (q3_matches xs)) = mset (sql_join xs)" using snoc people by simp
    ultimately show ?thesis using people by (simp add: q3_matches_snoc sql_join_def QPerson del: mset_map)
  next
    case (QAuction a)
    have people: "people_in (xs @ [x]) = people_in xs" by (simp add: people_in_def QAuction)
    then have d: "distinct (map pe_id (people_in xs))" using snoc.prems by simp
    let ?Q = "\<lambda>p a. au_seller a = pe_id p \<and> au_category a = 10"
    have "map snd (matched xs x) = map (\<lambda>p. (p, a)) (filter (\<lambda>p. ?Q p a) (people_in xs))"
    proof (cases "au_category a = 10")
      case True
      then have "filter (\<lambda>p. ?Q p a) (people_in xs) = filter (\<lambda>p. pe_id p = au_seller a) (people_in xs)"
        by (intro filter_cong) auto
      then show ?thesis
        using True sellers_unique [OF d, of "au_seller a"] by (simp add: matched_def QAuction seller_in_def split: option.split)
    qed (simp add: matched_def QAuction split: option.split)
    moreover have "mset (map snd (q3_matches xs)) = mset (sql_join xs)" using snoc.IH d by simp
    moreover have "mset (sql_join (xs @ [x])) = mset (sql_join xs) + mset (map (\<lambda>p. (p, a)) (filter (\<lambda>p. ?Q p a) (people_in xs)))"
      unfolding sql_join_def people unfolding QAuction history_simps by (rule join_one_more)
    ultimately show ?thesis by (simp add: q3_matches_snoc del: mset_map)
  qed
qed

text \<open>What the query needs of a backend: one cell and one vector for each id, apart from each other.\<close>

locale q3_store =
  fixes S :: "'b q3_state" and I :: "'b \<Rightarrow> bool"
    and people :: "'b \<Rightarrow> u32 \<rightharpoonup> person" and waiting :: "'b \<Rightarrow> u32 \<Rightarrow> auction list"
  assumes person_cell: "value_state (person_of S k) I (\<lambda>b. people b k) (\<lambda>b. ((people b)(k := None), waiting b))"
    and waiting_vec: "vec_state (pending_of S k) I (\<lambda>b. waiting b k) (\<lambda>b. ((waiting b)(k := []), people b))"
begin

definition holds :: "person_or_auction list \<Rightarrow> 'b \<Rightarrow> bool" where
  "holds h b \<longleftrightarrow> I b \<and> (\<forall>k. people b k = seller_in h k \<and>
     waiting b k = (if seller_in h k = None then filter (\<lambda>a. au_seller a = k) (auctions_in h) else []))"

lemma set_person:
  assumes "I b"
  obtains b' where "vo_set (person_of S k) p b = (Ok (people b k), b')" "I b'" "people b' = (people b)(k \<mapsto> p)"
    "waiting b' = waiting b"
proof -
  obtain b' where b': "vo_set (person_of S k) p b = (Ok (people b k), b')" "I b'" "people b' k = Some p"
      "(people b')(k := None) = (people b)(k := None)" "waiting b' = waiting b"
    using value_state.vset [OF person_cell assms, of k p] by auto
  have "people b' = (people b)(k \<mapsto> p)" using b'(3,4) by (metis fun_upd_idem_iff fun_upd_upd)
  then show thesis using that b' by blast
qed

lemma set_waiting:
  assumes "I b"
  shows "\<exists>b'. ve_append (pending_of S k) a b = (Ok (), b') \<and> I b' \<and> waiting b' = (waiting b)(k := waiting b k @ [a]) \<and>
      people b' = people b"
    and "\<exists>b'. ve_clear (pending_of S k) b = (Ok (), b') \<and> I b' \<and> waiting b' = (waiting b)(k := []) \<and> people b' = people b"
proof -
  have upd: "(waiting b')(k := []) = (waiting b)(k := []) \<Longrightarrow> waiting b' = (waiting b)(k := waiting b' k)" for b'
    by (metis fun_upd_triv fun_upd_upd)
  show "\<exists>b'. ve_append (pending_of S k) a b = (Ok (), b') \<and> I b' \<and> waiting b' = (waiting b)(k := waiting b k @ [a]) \<and>
      people b' = people b"
    using vec_state.eappend [OF waiting_vec assms, of k a] upd by (metis prod.inject)
  show "\<exists>b'. ve_clear (pending_of S k) b = (Ok (), b') \<and> I b' \<and> waiting b' = (waiting b)(k := []) \<and> people b' = people b"
    using vec_state.eclear [OF waiting_vec assms, of k] upd by (metis prod.inject)
qed

lemma flatmap_step:
  assumes "holds h b"
  shows "\<exists>b'. q3_flatmap S (Some x) b = (Ok (completed h x), b') \<and> holds (h @ [x]) b'"
proof (cases x)
  case (QPerson p)
  let ?k = "pe_id p"
  have b: "I b" "\<And>k. people b k = seller_in h k"
      "\<And>k. waiting b k = (if seller_in h k = None then filter (\<lambda>a. au_seller a = k) (auctions_in h) else [])"
    using assms by (auto simp: holds_def)
  obtain b1 where b1: "vo_set (person_of S ?k) p b = (Ok (people b ?k), b1)" "I b1" "people b1 = (people b)(?k \<mapsto> p)"
      "waiting b1 = waiting b"
    using set_person [OF b(1)] by metis
  obtain b2 where b2: "ve_clear (pending_of S ?k) b1 = (Ok (), b2)" "I b2" "waiting b2 = (waiting b1)(?k := [])"
      "people b2 = people b1"
    using set_waiting(2) [OF b1(2)] by metis
  note q = vec_state.eis_empty [OF waiting_vec b1(2)] vec_state.eget [OF waiting_vec b1(2)]
  have out: "completed h x = map (\<lambda>a. q3_result_of p ?k) (filter (\<lambda>a. au_category a = 10) (waiting b1 ?k))"
    by (simp add: matched_def reported_def QPerson b1(4) b(3) comp_def conj_commute)
  show ?thesis
  proof (cases "waiting b1 ?k = []")
    case True
    then have "q3_flatmap S (Some x) b = (Ok (completed h x), b1)"
      unfolding out by (simp add: q3_flatmap_def QPerson bind_s_def expecting_def b1(1) q)
    moreover have "holds (h @ [x]) b1" using True b b1 by (auto simp: holds_def QPerson split: if_splits)
    ultimately show ?thesis by blast
  next
    case False
    then have "q3_flatmap S (Some x) b = (Ok (completed h x), b2)"
      unfolding out by (simp add: q3_flatmap_def QPerson bind_s_def expecting_def b1(1) b2(1) q)
    moreover have "holds (h @ [x]) b2" using b b1 b2 by (auto simp: holds_def QPerson)
    ultimately show ?thesis by blast
  qed
next
  case (QAuction a)
  let ?k = "au_seller a"
  have b: "I b" "\<And>k. people b k = seller_in h k"
      "\<And>k. waiting b k = (if seller_in h k = None then filter (\<lambda>a. au_seller a = k) (auctions_in h) else [])"
    using assms by (auto simp: holds_def)
  note get = value_state.vget [OF person_cell b(1), of ?k]
  show ?thesis
  proof (cases "seller_in h ?k")
    case None
    obtain b1 where b1: "ve_append (pending_of S ?k) a b = (Ok (), b1)" "I b1" "waiting b1 = (waiting b)(?k := waiting b ?k @ [a])"
        "people b1 = people b"
      using set_waiting(1) [OF b(1)] by metis
    have "q3_flatmap S (Some x) b = (Ok (completed h x), b1)"
      by (simp add: q3_flatmap_def QAuction bind_s_def expecting_def get b(2) None b1(1) matched_def)
    moreover have "holds (h @ [x]) b1" using b b1 None by (auto simp: holds_def QAuction)
    ultimately show ?thesis by blast
  next
    case (Some p)
    then have "q3_flatmap S (Some x) b = (Ok (completed h x), b)"
      by (simp add: q3_flatmap_def QAuction bind_s_def expecting_def get b(2) matched_def reported_def sql_row_def)
    moreover have "holds (h @ [x]) b" using b Some by (auto simp: holds_def QAuction)
    ultimately show ?thesis by blast
  qed
qed

lemma run_joins:
  assumes "holds h b"
  shows "\<exists>b'. q3_run S xs b = (Ok (concat (map (\<lambda>j. completed (h @ take j xs) (xs ! j)) [0..<length xs])), b') \<and>
    holds (h @ xs) b'"
  using assms
proof (induction xs arbitrary: h b)
  case Nil
  then show ?case by simp
next
  case (Cons x xs)
  obtain b1 where b1: "q3_flatmap S (Some x) b = (Ok (completed h x), b1)" "holds (h @ [x]) b1"
    using flatmap_step [OF Cons.prems] by blast
  obtain b2 where b2: "q3_run S xs b1 = (Ok (concat (map (\<lambda>j. completed ((h @ [x]) @ take j xs) (xs ! j)) [0..<length xs])), b2)"
      "holds ((h @ [x]) @ xs) b2"
    using Cons.IH [OF b1(2)] by blast
  have "[0..<length (x # xs)] = 0 # map Suc [0..<length xs]"
    by (simp only: list.size(4) add_0_right add_Suc_right upt_conv_Cons [OF zero_less_Suc] map_Suc_upt)
  then show ?case using b1(1) b2 by (simp add: bind_s_def comp_def del: upt_Suc)
qed

end

section \<open>Query 3 on the in-memory backend\<close>

interpretation mk_u32: metakeys "word_fb :: u32 fixed_bytes" to_le "\<lambda>_. True" unit_fb "\<lambda>_. []" "\<lambda>_. True"
  by unfold_locales (simp add: unit_fb_def usize_max_def)

lemma to_le_u32: "to_le (j :: u32) = to_le k \<longleftrightarrow> j = k"
  using mk_u32.mk_inj [of j "()" k "()"] by (auto simp: mk_u32.mk_def)

definition im_q3_state :: "(person, 'd) any_type \<Rightarrow> (auction list, 'd) any_type \<Rightarrow> 'd in_memory q3_state" where
  "im_q3_state PV AV = \<lparr>q3_person = im_value_ops word_fb unit_fb PV, q3_pending = im_vec_ops word_fb unit_fb AV\<rparr>"

text \<open>The initialisation of the operator registers both states.\<close>

definition q3_registered :: "'d in_memory \<Rightarrow> 'd in_memory" where
  "q3_registered b = snd (im_register pending_handle (snd (im_register person_handle b)))"

abbreviation q3_table :: "('v, 'd) any_type \<Rightarrow> string \<Rightarrow> 'd in_memory \<Rightarrow> bool" where
  "q3_table \<equiv> typed_state (metakey_layout (to_le :: u32 \<Rightarrow> bytes) (\<lambda>_. True) (\<lambda>_ :: unit. []) (\<lambda>_. True))"

definition q3_people :: "(person, 'd) any_type \<Rightarrow> 'd in_memory \<Rightarrow> u32 \<rightharpoonup> person" where
  "q3_people PV b k = cell_content PV ''person'' (to_le k) b"

definition q3_waiting :: "(auction list, 'd) any_type \<Rightarrow> 'd in_memory \<Rightarrow> u32 \<Rightarrow> auction list" where
  "q3_waiting AV b k = (case cell_content AV ''pending_auctions'' (to_le k) b of None \<Rightarrow> [] | Some xs \<Rightarrow> xs)"

lemma q3_handles:
  "h_id (set_item_key k person_handle) = ''person''" "h_id (set_item_key k pending_handle) = ''pending_auctions''"
  "handle_key to_le (\<lambda>_. []) (set_item_key k person_handle) = to_le k"
  "handle_key to_le (\<lambda>_. []) (set_item_key k pending_handle) = to_le k"
  by (simp_all add: person_handle_def pending_handle_def set_item_key_def with_item_key_def value_handle_def vec_handle_def
      no_extra_def handle_key_def)

lemma q3_local:
  "im_data b' ''person'' = im_data b ''person'' \<Longrightarrow> q3_people PV b' = q3_people PV b \<and>
    q3_table PV ''person'' b' = q3_table PV ''person'' b"
  "im_data b' ''pending_auctions'' = im_data b ''pending_auctions'' \<Longrightarrow> q3_waiting AV b' = q3_waiting AV b \<and>
    q3_table AV ''pending_auctions'' b' = q3_table AV ''pending_auctions'' b"
  by (simp_all add: fun_eq_iff q3_people_def q3_waiting_def cell_content_def im_cell_def typed_state_def)

lemma q3_other:
  "\<forall>j. j \<noteq> ''person'' \<longrightarrow> im_data b' j = im_data b j \<Longrightarrow>
    q3_table AV ''pending_auctions'' b' = q3_table AV ''pending_auctions'' b \<and> q3_waiting AV b' = q3_waiting AV b"
  "\<forall>j. j \<noteq> ''pending_auctions'' \<longrightarrow> im_data b' j = im_data b j \<Longrightarrow>
    q3_table PV ''person'' b' = q3_table PV ''person'' b \<and> q3_people PV b' = q3_people PV b"
  using q3_local(1) [of b' b PV] q3_local(2) [of b' b AV] by simp_all

abbreviation q3_ok :: "(person, 'd) any_type \<Rightarrow> (auction list, 'd) any_type \<Rightarrow> 'd in_memory \<Rightarrow> bool" where
  "q3_ok PV AV \<equiv> (\<lambda>b. q3_table PV ''person'' b \<and> q3_table AV ''pending_auctions'' b)"

lemma q3_person_contract:
  fixes PV :: "(person, 'd) any_type"
  assumes "any_law PV"
  shows "value_state (person_of (im_q3_state PV AV) k) (q3_ok PV AV) (\<lambda>b. q3_people PV b k)
      (\<lambda>b. ((q3_people PV b)(k := None), q3_waiting AV b))"
proof -
  have c: "im_cells word_fb to_le (\<lambda>_. True) unit_fb (\<lambda>_. []) (\<lambda>_. True) PV (set_item_key k person_handle)"
    using mk_u32.metakeys_axioms assms by (simp add: im_cells_def im_cells_axioms_def)
  have val: "(\<lambda>b. q3_people PV b k) = cell_content PV ''person'' (to_le k)" by (simp add: fun_eq_iff q3_people_def)
  have same: "(q3_people PV b')(k := None) = (q3_people PV b)(k := None)"
    if "\<forall>x. x \<noteq> to_le k \<longrightarrow> im_cell ''person'' x b' = im_cell ''person'' x b" for b b'
    using that by (auto simp: fun_eq_iff q3_people_def cell_content_def to_le_u32)
  have "value_state (im_value_ops word_fb unit_fb PV (set_item_key k person_handle)) (q3_ok PV AV)
      (cell_content PV ''person'' (to_le k)) (\<lambda>b. ((q3_people PV b)(k := None), q3_waiting AV b))"
  proof (rule keyed_value_contract [OF c, unfolded q3_handles])
    fix b b' :: "'d in_memory"
    assume o: "\<forall>j. j \<noteq> ''person'' \<longrightarrow> im_data b' j = im_data b j"
      and "\<forall>x. x \<noteq> to_le k \<longrightarrow> im_cell ''person'' x b' = im_cell ''person'' x b"
    from same [OF this(2)] q3_other(1) [OF o]
    show "q3_table AV ''pending_auctions'' b' = q3_table AV ''pending_auctions'' b \<and>
        ((q3_people PV b')(k := None), q3_waiting AV b') = ((q3_people PV b)(k := None), q3_waiting AV b)"
      by simp
  qed
  then show ?thesis by (simp only: val person_of_def im_q3_state_def q3_state.simps)
qed

lemma q3_waiting_contract:
  fixes AV :: "(auction list, 'd) any_type"
  assumes "any_law AV"
  shows "vec_state (pending_of (im_q3_state PV AV) k) (q3_ok PV AV) (\<lambda>b. q3_waiting AV b k)
      (\<lambda>b. ((q3_waiting AV b)(k := []), q3_people PV b))"
proof -
  have c: "im_cells word_fb to_le (\<lambda>_. True) unit_fb (\<lambda>_. []) (\<lambda>_. True) AV (set_item_key k pending_handle)"
    using mk_u32.metakeys_axioms assms by (simp add: im_cells_def im_cells_axioms_def)
  have val: "(\<lambda>b. q3_waiting AV b k)
      = (\<lambda>b. case cell_content AV ''pending_auctions'' (to_le k) b of None \<Rightarrow> [] | Some xs \<Rightarrow> xs)"
    by (simp add: fun_eq_iff q3_waiting_def)
  have same: "(q3_waiting AV b')(k := []) = (q3_waiting AV b)(k := [])"
    if "\<forall>x. x \<noteq> to_le k \<longrightarrow> im_cell ''pending_auctions'' x b' = im_cell ''pending_auctions'' x b" for b b'
    using that by (auto simp: fun_eq_iff q3_waiting_def cell_content_def to_le_u32)
  have "vec_state (im_vec_ops word_fb unit_fb AV (set_item_key k pending_handle))
      (\<lambda>b. q3_table AV ''pending_auctions'' b \<and> q3_table PV ''person'' b)
      (\<lambda>b. case cell_content AV ''pending_auctions'' (to_le k) b of None \<Rightarrow> [] | Some xs \<Rightarrow> xs)
      (\<lambda>b. ((q3_waiting AV b)(k := []), q3_people PV b))"
  proof (rule keyed_vec_contract [OF c, unfolded q3_handles])
    fix b b' :: "'d in_memory"
    assume o: "\<forall>j. j \<noteq> ''pending_auctions'' \<longrightarrow> im_data b' j = im_data b j"
      and "\<forall>x. x \<noteq> to_le k \<longrightarrow> im_cell ''pending_auctions'' x b' = im_cell ''pending_auctions'' x b"
    from same [OF this(2)] q3_other(2) [OF o]
    show "q3_table PV ''person'' b' = q3_table PV ''person'' b \<and>
        ((q3_waiting AV b')(k := []), q3_people PV b') = ((q3_waiting AV b)(k := []), q3_people PV b)"
      by simp
  qed
  moreover have "q3_ok PV AV = (\<lambda>b. q3_table AV ''pending_auctions'' b \<and> q3_table PV ''person'' b)"
    by (simp add: fun_eq_iff conj_commute)
  ultimately show ?thesis by (simp only: val pending_of_def im_q3_state_def q3_state.simps)
qed

lemma im_q3_store:
  assumes "any_law PV" "any_law AV"
  shows "q3_store (im_q3_state PV AV) (q3_ok PV AV) (q3_people PV) (q3_waiting AV)"
  by (rule q3_store.intro [OF q3_person_contract [OF assms(1)] q3_waiting_contract [OF assms(2)]])

lemma q3_registered_empty:
  "q3_table PV ''person'' (q3_registered im_create)" "q3_table AV ''pending_auctions'' (q3_registered im_create)"
  "q3_people PV (q3_registered im_create) k = None" "q3_waiting AV (q3_registered im_create) k = []"
  by (simp_all add: q3_registered_def im_register_def im_create_def person_handle_def pending_handle_def with_item_key_def
      value_handle_def vec_handle_def no_extra_def typed_state_def q3_people_def q3_waiting_def cell_content_def im_cell_def)

text \<open>C18: The incremental join of query 3 on a fresh in-memory backend never fails. It reports every pair of a person
  and an auction that it finds when the later of the two arrives, in that order: at an auction of category 10 the
  latest person of its seller, if there is one, and at the first person of an id every auction of category 10 that it
  sells and that came before. When no two people share an id, these pairs are, each once, the join of the query's SQL
  comment. The rows, however, are those of that comment only for auctions that came after their seller: for an auction
  that waited, the code reports the id of the seller instead of that of the auction.\<close>

theorem q3_joins:
  assumes "any_law PV" and "any_law AV"
  shows "\<exists>b'. q3_run (im_q3_state PV AV) xs (q3_registered im_create) = (Ok (map reported (q3_matches xs)), b') \<and>
    (distinct (map pe_id (people_in xs)) \<longrightarrow> mset (map snd (q3_matches xs)) = mset (sql_join xs)) \<and>
    (\<forall>(waited, p, a) \<in> set (q3_matches xs).
      reported (waited, p, a) = (if waited then (sql_row (p, a))\<lparr>qr_auction_id := pe_id p\<rparr> else sql_row (p, a)))"
proof -
  have "q3_store.holds (q3_ok PV AV) (q3_people PV) (q3_waiting AV) [] (q3_registered im_create)"
    unfolding q3_store.holds_def [OF im_q3_store [OF assms]] by (simp add: q3_registered_empty)
  from q3_store.run_joins [OF im_q3_store [OF assms] this, of xs]
  have "\<exists>b'. q3_run (im_q3_state PV AV) xs (q3_registered im_create) = (Ok (map reported (q3_matches xs)), b')"
    by (auto simp: q3_matches_def map_concat comp_def)
  moreover have "reported (waited, p, a) = (if waited then (sql_row (p, a))\<lparr>qr_auction_id := pe_id p\<rparr> else sql_row (p, a))"
    for waited p a
    by (simp add: reported_def sql_row_def q3_result_of_def)
  ultimately show ?thesis using matches_are_join by auto
qed

section \<open>Where the application goes wrong\<close>

text \<open>An auction that waited for its seller is reported with the id of the seller.\<close>

lemma q3_reports_seller:
  assumes "au_seller a = pe_id p" and "au_category a = 10"
  shows "map reported (q3_matches [QAuction a, QPerson p]) = [q3_result_of p (pe_id p)]"
  using assms by (simp add: q3_matches_def matched_def reported_def seller_in_def people_in_def auctions_in_def)

text \<open>The conversion of query 1 keeps the other fields, and overflows from a price of 48258060 on; prices go
  up to 100000000.\<close>

lemma convert_price_outcome:
  "convert_price b =
     (if unat (bi_price b) \<le> 48258059 then Ok (b\<lparr>bi_price := bi_price b * 89 div 100\<rparr>)
      else Panic ''attempt to multiply with overflow'')"
  by (auto simp: convert_price_def mul_u_def div_u_def)

text \<open>The number of an event is multiplied by 953 in 32 bits; this overflows long before the default number
  of events is reached.\<close>

lemma next_adjusted_overflows: "next_adjusted_event nexmark_default 4506788 = Panic ''attempt to multiply with overflow''"
  by (simp add: next_adjusted_event_def nexmark_default_def add_u_def div_u_def mul_u_def)

text \<open>The id of a person is the number of its event, while sellers and bidders count people from
  \<^verbatim>\<open>first_person_id\<close> on.\<close>

lemma person_id_is_event: "person_new R nex i time s = (Ok p, s') \<Longrightarrow> pe_id p = i"
  by (auto simp: person_new_def bind_s_def choose_item_def split: prod.splits if_splits)

section \<open>Witnesses\<close>

datatype q3_any = AnyPerson person | AnyAuctions "auction list"

definition person_any :: "(person, q3_any) any_type" where
  "person_any = \<lparr>any_box = AnyPerson, any_downcast = (\<lambda>d. case d of AnyPerson p \<Rightarrow> Some p | _ \<Rightarrow> None)\<rparr>"

definition auctions_any :: "(auction list, q3_any) any_type" where
  "auctions_any = \<lparr>any_box = AnyAuctions, any_downcast = (\<lambda>d. case d of AnyAuctions a \<Rightarrow> Some a | _ \<Rightarrow> None)\<rparr>"

lemma q3_any_laws [simp]: "any_law person_any" "any_law auctions_any"
  by (simp_all add: any_law_def person_any_def auctions_any_def)

interpretation imq: q3_store "im_q3_state person_any auctions_any" "q3_ok person_any auctions_any"
    "q3_people person_any" "q3_waiting auctions_any"
  by (rule im_q3_store) simp_all

definition some_person :: person where
  "some_person = \<lparr>pe_id = 7, pe_name = '''', pe_email_address = '''', pe_credit_card = '''', pe_city = ''Seattle'',
     pe_state = ''OR'', pe_date = 3\<rparr>"

definition some_auction :: "u32 \<Rightarrow> auction" where
  "some_auction n = \<lparr>au_id = n, au_item_name = '''', au_description = '''', au_initial_bid = 5, au_reserve = 9,
     au_date = 2, au_expires = 8, au_seller = 7, au_category = 10\<rparr>"

theorem q3_joins_witness:
  "mset (map snd (q3_matches [QAuction (some_auction 1001), QPerson some_person, QAuction (some_auction 1002)]))
      = {#(some_person, some_auction 1001), (some_person, some_auction 1002)#} \<and>
    (\<exists>b'. q3_run (im_q3_state person_any auctions_any)
      [QAuction (some_auction 1001), QPerson some_person, QAuction (some_auction 1002)] (q3_registered im_create)
    = (Ok [q3_result_of some_person 7, q3_result_of some_person 1002], b'))"
proof -
  let ?xs = "[QAuction (some_auction 1001), QPerson some_person, QAuction (some_auction 1002)]"
  have "map reported (q3_matches ?xs) = [q3_result_of some_person 7, q3_result_of some_person 1002]"
    by (simp add: q3_matches_def matched_def reported_def sql_row_def seller_in_def people_in_def auctions_in_def
        some_auction_def some_person_def numeral_2_eq_2)
  moreover have "distinct (map pe_id (people_in ?xs))" by (simp add: people_in_def)
  moreover have "sql_join ?xs = [(some_person, some_auction 1001), (some_person, some_auction 1002)]"
    by (simp add: sql_join_def people_in_def auctions_in_def some_auction_def some_person_def)
  ultimately show ?thesis using q3_joins [OF q3_any_laws, of ?xs] by auto
qed

text \<open>The default configuration, with a generator that always takes the least number.\<close>

definition least_rng :: "unit rng" where
  "least_rng = \<lparr>rng_range = (\<lambda>low high s. (low, s)), rng_index = (\<lambda>n s. (0, s)), rng_price = (\<lambda>s. (100, s))\<rparr>"

definition witness_config :: "unit nexmark_config" where
  "witness_config = nexmark_default\<lparr>proportion_denominator := 7, inter_event_delays_ns := [()]\<rparr>"

theorem nexmark_bid_refers_witness:
  "\<exists>b s'. bid_new least_rng witness_config 6 0 () = (Ok b, s') \<and> bi_date b = 0 \<and> 1000 \<le> unat (bi_auction b) \<and>
    unat (bi_auction b) < 1013 \<and> 1000 \<le> unat (bi_bidder b) \<and> unat (bi_bidder b) < 1011"
proof -
  have "rng_law least_rng" by (simp add: rng_law_def least_rng_def)
  moreover have "proportions_ok witness_config" "ratios_ok witness_config"
    by (simp_all add: proportions_ok_def ratios_ok_def witness_config_def nexmark_default_def)
  moreover have "auctions_upto witness_config 6 = 3" "people_upto witness_config 6 = 1"
    by (simp_all add: auctions_upto_def people_upto_def events_upto_def witness_config_def nexmark_default_def upt_rec)
  ultimately show ?thesis
    using nexmark_bid_refers [of least_rng witness_config 6 0 "()"]
    by (simp add: witness_config_def nexmark_default_def)
qed

end
