(* ===== verification/Spec2Isabelle.thy ===== *)
theory Spec2Isabelle
  imports Serialization Handles In_Memory_Laws Checkpoints Allocator Event_Buffers Channel_Laws
    Node_Creation Window_Backend Source_Laws Sled_Backend Rocks_Backend Faster_Backend Metered_Laws
    Kafka_Source Sinks Flight_Serde Metrics Pipeline Macros Nexmark
begin

text \<open>
  Verification library of the Arcon execution plane (\<^verbatim>\<open>src/execution-plane/arcon\<close>), a streaming
  runtime written in Rust.

  \<^bold>\<open>The program.\<close> A pipeline is a graph of components. A source (\<^verbatim>\<open>src/stream/source\<close>) turns records
  into elements and watermarks. A node (\<^verbatim>\<open>src/stream/node/mod.rs\<close>) receives batches of events from
  its input channels, gives them to an operator (\<^verbatim>\<open>src/stream/operator\<close>: functions and event-time
  windows), forwards the least watermark of its inputs, and aligns epochs: a channel that has
  delivered an epoch marker is blocked and its messages are buffered until all channels have,
  then the backend is checkpointed and the buffer replayed. What a component emits goes through
  a channel strategy (\<^verbatim>\<open>src/stream/channel\<close>), which batches events in pooled buffers
  (\<^verbatim>\<open>src/buffer\<close>) taken from an allocator (\<^verbatim>\<open>src/allocator\<close>). Operators schedule timeouts with an
  event timer (\<^verbatim>\<open>src/timer\<close>). All state of nodes, timers and windows lives in a state backend
  (\<^verbatim>\<open>arcon_state\<close>), reached through typed handles.

  \<^bold>\<open>Style of the model.\<close> A call is an action: it maps a state to an outcome (value, returned error,
  panic, or \<open>NoFuel\<close>) and the state it leaves behind, also on failure. Machine integers are words;
  an arithmetic overflow is the panic of a checked build. A Rust trait is a record of its methods;
  what the code relies on of a trait or of a crate outside the repository is a locale, and each
  locale is interpreted on the definitions that provide it.

  \<^bold>\<open>The theories\<close>, in the order of their dependencies:

  \<^item> \<open>Arcon_Prelude\<close>: integer types, outcomes, errors (\<^verbatim>\<open>arcon_error/src/lib.rs\<close>,
    \<^verbatim>\<open>arcon_state/src/error.rs\<close>), sequencing, little-endian bytes, checked arithmetic.
  \<^item> \<open>Serialization\<close> (\<^verbatim>\<open>serialization.rs\<close>): the fixed-width encoding of metakeys and the
    length-delimited messages of keys and values. Locale \<open>fixed_bytes_codec\<close> is the contract of
    \<^verbatim>\<open>FixedBytes\<close>; it holds for integers, booleans, units, tuples and arrays.
  \<^item> \<open>Handles\<close> (\<^verbatim>\<open>handles.rs\<close>, \<^verbatim>\<open>ops.rs\<close>): handles, the layout of stored keys (locale \<open>metakeys\<close>, states
    that differ in their metakeys never share a key), and the operations of active handles.
  \<^item> \<open>State_Contracts\<close>: what each kind of state promises, for any backend: locales \<open>value_state\<close>,
    \<open>map_state\<close>, \<open>vec_state\<close>, \<open>reducer_state\<close>, \<open>aggregator_state\<close>, with the frame that no operation changes.
  \<^item> \<open>In_Memory\<close>, \<open>In_Memory_Laws\<close> (\<^verbatim>\<open>in_memory/\<close>): the hash-map backend, and that it meets all five
    contracts.
  \<^item> \<open>Sled\<close>, \<open>Sled_Laws\<close>, \<open>Sled_Backend\<close> (\<^verbatim>\<open>sled/\<close>): the backend over the embedded database \<^verbatim>\<open>sled\<close>, with
    its merge operators and the dump file of its checkpoints. Over a database that meets the locale
    \<open>sled_store\<close> it meets the same contracts; vectors only as long as their encoding is addressable
    (locale \<open>bounded_vec_state\<close>, of which \<open>vec_state\<close> is an instance). A dump is read back as written.
  \<^item> \<open>Rocks\<close>, \<open>Rocks_Laws\<close>, \<open>Rocks_Backend\<close> (\<^verbatim>\<open>rocks/\<close>): the backend over RocksDB, whose column families have
    to be registered before it opens an existing directory, with its merge operators and the removal
    of key ranges. Over a database that meets the locale \<open>rocks_store\<close> it meets the same contracts
    (maps whose metakeys do not end in the byte 255), however the database groups the merges, and a
    checkpoint restores (locale \<open>rocks_disk\<close>).
  \<^item> \<open>Sessions\<close>: the contracts once more for backends whose reads change them too, with a budget of calls:
    locales \<open>value_session\<close>, \<open>map_session\<close>, \<open>map_walk_session\<close>, \<open>vec_session\<close>, \<open>reducer_session\<close>,
    \<open>aggregator_session\<close>.
  \<^item> \<open>Faster\<close>, \<open>Faster_Laws\<close>, \<open>Faster_Maps\<close>, \<open>Faster_Disk\<close>, \<open>Faster_Backend\<close> (\<^verbatim>\<open>faster/\<close>): the backend over
    the store FASTER, one key space for all states, vectors and reducers by read-modify-write, in both
    builds of its maps; values, vectors, reducers and maps meet the contracts of \<open>Sessions\<close>, aggregators
    read right except after their first value, and a checkpoint restores, over a store that meets
    the locales \<open>faster_store\<close> and \<open>faster_disk\<close>.
  \<^item> \<open>Metered\<close>, \<open>Metered_Laws\<close> (\<^verbatim>\<open>metered/\<close>): the backend that measures another one: it meets the contracts
    of \<open>Sessions\<close> over any backend that meets those of \<open>State_Contracts\<close>, keeps the latest data points in
    a ring, and summarises them.
  \<^item> \<open>Checkpoints\<close> (\<^verbatim>\<open>arcon_state/src/lib.rs\<close>): the choice of the checkpoint to restore, the names of
    checkpoint directories, backend types.
  \<^item> \<open>Allocator\<close> (\<^verbatim>\<open>src/allocator/mod.rs\<close>): accounting, limits and identifiers of allocations.
  \<^item> \<open>Stream_Data\<close> (\<^verbatim>\<open>src/data/mod.rs\<close>): elements, watermarks, epochs, events and messages.
  \<^item> \<open>Event_Buffers\<close> (\<^verbatim>\<open>src/buffer\<close>): buffers, writers, readers, and the pool with its busy-waiting \<^verbatim>\<open>get\<close>.
  \<^item> \<open>Channel_Strategies\<close>, \<open>Channel_Laws\<close> (\<^verbatim>\<open>src/stream/channel\<close>): Forward, Broadcast, RoundRobin and
    KeyBy over a world of buffers and mailboxes: events go to their channels once and in order, no buffer is
    overwritten while a reader holds it, and a flush returns once a receiver reads. \<open>forward_ok\<close> and its like
    include that transmissions over remote channels succeed (\<open>reliable\<close>); the law of Forward is stated without, with
    the panic and the loss that a failed transmission causes.
  \<^item> \<open>Event_Timer\<close> (\<^verbatim>\<open>src/timer\<close>): the event timer over a hash wheel (locale \<open>timer_wheel\<close>): entries fire
    exactly when due, in order, and a restarted timer takes up the stored ones.
  \<^item> \<open>Operators\<close> (\<^verbatim>\<open>src/stream/operator/mod.rs\<close>, \<^verbatim>\<open>function/\<close>): operator contexts and function operators.
  \<^item> \<open>Node\<close>, \<open>Node_Laws\<close>, \<open>Node_Backend\<close>, \<open>Node_Creation\<close> (\<^verbatim>\<open>src/stream/node\<close>): the node; its laws over any
    backend that meets the contracts (locale \<open>node_store\<close>), and the node on the in-memory backend:
    watermarks, epoch alignment, buffering and replay, creation and restart.
  \<^item> \<open>Windows\<close>, \<open>Window_Laws\<close>, \<open>Window_Backend\<close> (\<^verbatim>\<open>src/stream/operator/window\<close>): appending and incremental
    windows and the event-time assigner; an element goes into exactly the windows that contain its
    timestamp, and every active window has one timeout, which emits it and forgets it.
  \<^item> \<open>Sources\<close>, \<open>Source_Laws\<close> (\<^verbatim>\<open>src/stream/source\<close>): the source context, and the collection, file and
    socket sources; a collection source ends, and what it emits is one pass over its records.
  \<^item> \<open>Kafka_Source\<close> (\<^verbatim>\<open>src/stream/source/kafka.rs\<close>): the source that reads batches from a Kafka consumer; each
    batch becomes an epoch, whose offset is stored and committed.
  \<^item> \<open>Sinks\<close> (\<^verbatim>\<open>src/stream/operator/sink\<close>): the file sink (locale \<open>appending_file\<close>, whose writes may fail; the file
    source reads back numbers that were all written), the Kafka sink (over any producer: serialisable elements are
    offered once, at the epoch that follows them), and the socket sink as a step relation of its tasks and its
    thread, which lose and duplicate nothing while the thread lives.
  \<^item> \<open>Arcon_Types\<close> (\<^verbatim>\<open>src/data/mod.rs\<close>, \<^verbatim>\<open>ser_id.rs\<close>): the \<^verbatim>\<open>ArconType\<close> implementations, with the hash of the
    standard library and floats as bit patterns; equal floats have equal keys.
  \<^item> \<open>Flight_Serde\<close> (\<^verbatim>\<open>src/data/flight_serde.rs\<close>, \<^verbatim>\<open>receive_network\<close> of nodes): the two serdes of network messages
    over the locale \<open>net_layer\<close>; a message from the network is handled like the same one from a local channel,
    and what cannot be decoded is dropped or stops the receiver.
  \<^item> \<open>Metrics\<close> (\<^verbatim>\<open>src/metrics\<close>): counters, gauges, moving averages, meters and histograms over a parameter for
    floating-point arithmetic; a meter counts every event once, and a histogram answers a percentile from the bucket
    of its rank, where whole numbers are exact (locale \<open>counting_floats\<close>).
  \<^item> \<open>Pipeline\<close> (\<^verbatim>\<open>src/conf\<close>, \<^verbatim>\<open>src/pipeline\<close>, \<^verbatim>\<open>src/manager\<close>): configuration, creation of pipelines, pools and node
    managers; a strategy on the pool of a pipeline starts in the state that \<open>Channel_Laws\<close> relies on exactly when
    its buffers fit, and a manager holds the latest metrics of its nodes.
  \<^item> \<open>Macros\<close> (\<^verbatim>\<open>arcon_macros/src/lib.rs\<close>): the derive macro of \<^verbatim>\<open>ArconType\<close> and the decoder of lines, as functions on
    the syntax tree; both spellings of the attributes agree, the default key is made of the hashable fields, and
    the outcome of the generated \<^verbatim>\<open>from_str\<close> on every line.
  \<^item> \<open>Nexmark\<close> (\<^verbatim>\<open>experiments/src/nexmark\<close>): an application, with its generator of events and two queries; a bid
    refers to what has been generated, and the incremental join of query 3 on the states of the in-memory
    backend (locale \<open>q3_store\<close>) finds exactly the pairs of its SQL join, but reports some with a wrong id.

  \<^bold>\<open>Parameters\<close>, code that is not in the repository, and what is assumed of it: the prost codec of a
  message type (\<open>message_law\<close>; for sled vectors also that no message is empty and for stored values
  that none is longer than the address space), boxing and downcasting of \<^verbatim>\<open>Any\<close> (\<open>any_law\<close>), the database
  \<^verbatim>\<open>sled\<close> (\<open>sled_store\<close>), RocksDB (\<open>rocks_store\<close>, \<open>rocks_disk\<close>), FASTER (\<open>faster_store\<close>, \<open>faster_disk\<close>), a
  monotonic clock (\<open>clock_ok\<close>), the hash wheel (\<open>timer_wheel\<close>), the system allocator, the network layer
  (\<open>tell_serialised\<close>), the Kafka consumer (\<open>kafka_api\<close>, whose messages do not have the last offset) and producer
  (\<open>kafka_producer\<close>, of which nothing is assumed), files opened for appending (\<open>appending_file\<close>), the formats of elements, the codecs of network messages
  (\<open>flight_law\<close>) and the receipt of them (\<open>net_layer\<close>), floating-point arithmetic
  (\<open>counting_floats\<close> for percentiles; \<open>ideal_ops\<close> is an instance that does not round, used for witnesses and for the
  accuracy of the formulas alone), the component system, the hashers \<^verbatim>\<open>FxHasher\<close> and
  \<^verbatim>\<open>XxHash64\<close>, the identifiers that \<^verbatim>\<open>Ident::new\<close> accepts, the random generator (\<open>rng_law\<close>), the parser of configuration files, the generator of UUIDs, the system clock, the file system, and the user-defined functions of operators.

  \<^bold>\<open>Fuel.\<close> The recursion between \<^verbatim>\<open>handle_events\<close> and \<^verbatim>\<open>after_state_save\<close> of a node has a depth; depth 2
  is always enough, because a replay runs while the metrics are borrowed, so an epoch that completes
  in it panics before it could start another replay (\<open>Node_Backend.handle_events_depth\<close>). The busy-waiting \<^verbatim>\<open>BufferPool::get\<close> consumes one item
  of a schedule of receivers per attempt and returns \<open>NoFuel\<close> when the schedule ends; one round over the
  pool is enough once the receiver reads (\<open>Channel_Laws.forward_flush_returns\<close>). The loops that read
  messages from a sled or RocksDB vector take the length of the input as fuel, enough since every message takes
  a byte. All other loops are total functions.

  \<^bold>\<open>Not modelled.\<close> The I/O component of sockets (asynchronous reads, only its messages are modelled); the
  rounding of floating-point numbers; the text of logs, errors and reports; parsing of floats; the terminal UI
  and the loop of its dashboard (presentation); the scheduling of periodic reports and other calls of the actor
  framework; the helpers that stop a process; processing-time windows (the file is not part of the
  build); code generation and the compiler, which write Rust source at build time, and the macros of
  \<^verbatim>\<open>arcon_state\<close>, which only delegate; tests, benchmarks and
  the other experiments (the source and sinks of NEXMark measure time); the operational plane, which is written in Scala.
\<close>

end
